(* ===== verification/Prelude.thy ===== *)
theory Prelude
  imports Main "HOL-Library.Word" "HOL-Library.Monad_Syntax"
begin

text \<open>
  Types, error codes and list facts shared by every component of the model. Machine integers keep
  their C width as words; \<open>rt_err_t\<close> is a signed C long and is modelled as \<open>int\<close>, since the code
  only ever stores the small constants below in it (negated for errors).

  A kernel routine whose \<open>RT_ASSERT\<close> fails never returns (\<open>rt_assert_handler\<close> in
  \<open>src/src/kservice.c\<close> loops for ever when no hook is set): such a run is the value \<open>None\<close>,
  and \<open>rt_assert\<close> is the guard that produces it.
\<close>

unbundle bit_operations_syntax

type_synonym u8 = "8 word"
type_synonym u16 = "16 word"
type_synonym u32 = "32 word"
type_synonym rt_err_t = int

named_theorems kernel_defs \<open>defining equations of the kernel operations\<close>
named_theorems list_facts \<open>facts on lists with one element removed or inserted\<close>

abbreviation (input) RT_EOK :: rt_err_t where "RT_EOK \<equiv> 0"
abbreviation (input) RT_ERROR :: rt_err_t where "RT_ERROR \<equiv> 1"
abbreviation (input) RT_ETIMEOUT :: rt_err_t where "RT_ETIMEOUT \<equiv> 2"
abbreviation (input) RT_EFULL :: rt_err_t where "RT_EFULL \<equiv> 3"
abbreviation (input) RT_EEMPTY :: rt_err_t where "RT_EEMPTY \<equiv> 4"
abbreviation (input) RT_ENOMEM :: rt_err_t where "RT_ENOMEM \<equiv> 5"
abbreviation (input) RT_ENOSYS :: rt_err_t where "RT_ENOSYS \<equiv> 6"
abbreviation (input) RT_EINVAL :: rt_err_t where "RT_EINVAL \<equiv> 10"

definition rt_assert :: "bool \<Rightarrow> unit option" where
  "rt_assert b = (if b then Some () else None)"

text \<open>Undefined behaviour of C (a copy outside an object, a read of a list that has no first
  element) is \<open>None\<close> too; \<open>c_defined\<close> is its guard.\<close>

definition c_defined :: "bool \<Rightarrow> unit option" where
  "c_defined b = (if b then Some () else None)"

lemma c_defined_simps [simp]: "c_defined True = Some ()" "c_defined False = None"
  by (simp_all add: c_defined_def)

lemma c_defined_eq_Some [simp]: "c_defined b = Some u \<longleftrightarrow> b"
  by (simp add: c_defined_def)

lemma rt_assert_simps [simp]: "rt_assert True = Some ()" "rt_assert False = None"
  by (simp_all add: rt_assert_def)

lemma rt_assert_eq_Some [simp]: "rt_assert b = Some u \<longleftrightarrow> b"
  by (simp add: rt_assert_def)

lemma bind_rt_assert: "Option.bind (rt_assert b) f = (if b then f () else None)"
  by (simp add: rt_assert_def)

section \<open>Insertion into a list at a position\<close>

definition insert_at :: "nat \<Rightarrow> 'a \<Rightarrow> 'a list \<Rightarrow> 'a list" where
  "insert_at k x xs = take k xs @ x # drop k xs"

lemma set_insert_at [simp]: "set (insert_at k x xs) = insert x (set xs)"
  by (metis Un_insert_right append_take_drop_id insert_at_def list.simps(15) set_append)

lemma insert_at_neq_Nil [simp]: "insert_at k x xs \<noteq> []"
  by (simp add: insert_at_def)

lemma length_insert_at [simp]: "length (insert_at k x xs) = Suc (length xs)"
  by (simp add: insert_at_def)

lemma distinct_insert_at [simp]:
  "distinct (insert_at k x xs) \<longleftrightarrow> x \<notin> set xs \<and> distinct xs"
proof -
  have "distinct (insert_at k x xs) \<longleftrightarrow> x \<notin> set (take k xs @ drop k xs) \<and> distinct (take k xs @ drop k xs)"
    unfolding insert_at_def distinct_append set_append by auto
  then show ?thesis by simp
qed

lemma insert_at_length [simp]: "insert_at (length xs) x xs = xs @ [x]"
  by (simp add: insert_at_def)

lemma insert_at_0 [simp]: "insert_at 0 x xs = x # xs"
  by (simp add: insert_at_def)

end
