(* ===== verification/KState.thy ===== *)
theory KState
  imports Prelude
begin

text \<open>
  The state of the kernel: the control blocks of \<open>src/include/rtdef.h\<close>, the static variables of
  \<open>scheduler.c\<close>, \<open>clock.c\<close>, \<open>irq.c\<close>, \<open>timer.c\<close> and the object container of \<open>object.c\<close>.

  Control blocks are numbered; a queue is the list of the control blocks linked on it (theory
  RtList shows that the pointer operations implement appending, prepending and deleting on such
  lists).  A control block also records which queue its list node is on: linking a node that is
  already linked corrupts both rings in C, and is undefined (\<open>None\<close>) here.

  No hook function is installed anywhere in the repository's application, and nothing sets a
  thread's \<open>cleanup\<close> function, so the hook calls and \<open>_thread_cleanup_execute\<close> do nothing.
\<close>

section \<open>Control blocks\<close>

type_synonym tid = nat

datatype tmid = ThreadTimer tid | UserTimer nat

datatype lid = ReadyQ nat | Defunct | SemWait nat | MutexWait nat | EventWait nat
  | MbRecv nat | MbSend nat | MqRecv nat | MqSend nat | MpWait nat | CompWait nat | DqPush nat | DqPop nat

datatype tlid = TimerList | SoftTimerList | CheckList | SoftCheckList

datatype oid = ThreadObj tid | SemObj nat | MutexObj nat | EventObj nat | MbObj nat | MqObj nat
  | MpObj nat | DevObj nat | TimerObj tmid

abbreviation (input) RT_Object_Class_Null :: u8 where "RT_Object_Class_Null \<equiv> 0"
abbreviation (input) RT_Object_Class_Thread :: u8 where "RT_Object_Class_Thread \<equiv> 1"
abbreviation (input) RT_Object_Class_Semaphore :: u8 where "RT_Object_Class_Semaphore \<equiv> 2"
abbreviation (input) RT_Object_Class_Mutex :: u8 where "RT_Object_Class_Mutex \<equiv> 3"
abbreviation (input) RT_Object_Class_Event :: u8 where "RT_Object_Class_Event \<equiv> 4"
abbreviation (input) RT_Object_Class_MailBox :: u8 where "RT_Object_Class_MailBox \<equiv> 5"
abbreviation (input) RT_Object_Class_MessageQueue :: u8 where "RT_Object_Class_MessageQueue \<equiv> 6"
abbreviation (input) RT_Object_Class_MemPool :: u8 where "RT_Object_Class_MemPool \<equiv> 8"
abbreviation (input) RT_Object_Class_Device :: u8 where "RT_Object_Class_Device \<equiv> 9"
abbreviation (input) RT_Object_Class_Timer :: u8 where "RT_Object_Class_Timer \<equiv> 10"
abbreviation (input) RT_Object_Class_Static :: u8 where "RT_Object_Class_Static \<equiv> 0x80"

record rt_object =
  obj_name :: "u8 list"
  obj_type :: u8
  obj_flag :: u8

datatype timeout_func = Rt_thread_timeout tid | User_timeout nat

record rt_timer =
  timeout_func :: timeout_func
  tm_init_tick :: u32
  timeout_tick :: u32
  tm_link :: "tlid option"

abbreviation (input) RT_THREAD_INIT :: u8 where "RT_THREAD_INIT \<equiv> 0"
abbreviation (input) RT_THREAD_READY :: u8 where "RT_THREAD_READY \<equiv> 1"
abbreviation (input) RT_THREAD_SUSPEND :: u8 where "RT_THREAD_SUSPEND \<equiv> 2"
abbreviation (input) RT_THREAD_CLOSE :: u8 where "RT_THREAD_CLOSE \<equiv> 4"
abbreviation (input) RT_THREAD_STAT_MASK :: u8 where "RT_THREAD_STAT_MASK \<equiv> 0x0f"

text \<open>\<open>stack_guard\<close> is the byte at \<open>stack_addr\<close>, the only byte of a stack the kernel reads.\<close>

record rt_thread =
  sp :: u32
  stack_addr :: u32
  stack_size :: u32
  stack_guard :: u8
  thread_entry :: nat
  thread_parameter :: nat
  thread_error :: rt_err_t
  stat :: u8
  current_priority :: u8
  init_priority :: u8
  number_mask :: u32
  event_set :: u32
  event_info :: u8
  init_tick :: u32
  remaining_tick :: u32
  t_link :: "lid option"

record rt_semaphore =
  sem_value :: u16

record rt_mutex =
  mutex_value :: u16
  original_priority :: u8
  hold :: u8
  owner :: "tid option"

record rt_event =
  ev_set :: u32

record rt_mailbox =
  mb_pool :: "u32 list"
  mb_size :: u16
  mb_entry :: u16
  in_offset :: u16
  out_offset :: u16

text \<open>The pool of a message queue is an array of slots, each a \<open>next\<close> pointer and a payload.\<close>

record rt_messagequeue =
  mq_next :: "nat \<Rightarrow> nat option"
  mq_data :: "nat \<Rightarrow> u8 list"
  mq_msg_size :: u16
  max_msgs :: u16
  mq_entry :: u16
  msg_queue_head :: "nat option"
  msg_queue_tail :: "nat option"
  msg_queue_free :: "nat option"

text \<open>The first word of each block of a memory pool is the link to the next free block or, while the
  block is in use, the pool it belongs to.  Blocks are numbered from the start of the pool.\<close>

datatype mp_word = Next_block "nat option" | Owned_by nat

record rt_mempool =
  mp_word_at :: "nat \<Rightarrow> mp_word"
  mp_size :: u32
  block_size :: u32
  block_list :: "nat option"
  block_total_count :: u32
  block_free_count :: u32

section \<open>Kernel state\<close>

record kstate =
  threads :: "tid \<Rightarrow> rt_thread"
  timers :: "tmid \<Rightarrow> rt_timer"
  objs :: "oid \<Rightarrow> rt_object"
  lists :: "lid \<Rightarrow> tid list"
  tlists :: "tlid \<Rightarrow> tmid list"
  obj_lists :: "u8 \<Rightarrow> oid list"
  ready_group :: u32
  cur_thread :: "tid option"
  cur_prio :: u8
  lock_nest :: u16
  interrupt_nest :: u8
  rt_tick :: u32
  soft_timer_busy :: bool
  random_nr :: u32
  rt_errno :: rt_err_t
  sems :: "nat \<Rightarrow> rt_semaphore"
  mutexes :: "nat \<Rightarrow> rt_mutex"
  events :: "nat \<Rightarrow> rt_event"
  mailboxes :: "nat \<Rightarrow> rt_mailbox"
  mqs :: "nat \<Rightarrow> rt_messagequeue"
  mps :: "nat \<Rightarrow> rt_mempool"

text \<open>The static control block \<open>timer_thread\<close> of \<open>timer.c\<close>.\<close>

definition timer_thread :: tid where
  "timer_thread = 0"

definition upd_thread :: "tid \<Rightarrow> (rt_thread \<Rightarrow> rt_thread) \<Rightarrow> kstate \<Rightarrow> kstate" where
  "upd_thread t f s = s\<lparr>threads := (threads s)(t := f (threads s t))\<rparr>"

definition upd_timer :: "tmid \<Rightarrow> (rt_timer \<Rightarrow> rt_timer) \<Rightarrow> kstate \<Rightarrow> kstate" where
  "upd_timer tm f s = s\<lparr>timers := (timers s)(tm := f (timers s tm))\<rparr>"

definition upd_obj :: "oid \<Rightarrow> (rt_object \<Rightarrow> rt_object) \<Rightarrow> kstate \<Rightarrow> kstate" where
  "upd_obj x f s = s\<lparr>objs := (objs s)(x := f (objs s x))\<rparr>"

definition stat_of :: "kstate \<Rightarrow> tid \<Rightarrow> u8" where
  "stat_of s t = stat (threads s t) AND RT_THREAD_STAT_MASK"

text \<open>Setting the state bits keeps the signal bits: \<open>v | (stat & ~RT_THREAD_STAT_MASK)\<close>.\<close>

definition with_stat :: "u8 \<Rightarrow> u8 \<Rightarrow> u8" where
  "with_stat v x = v OR (x AND NOT RT_THREAD_STAT_MASK)"

lemma with_stat_mask: "with_stat v x AND 0x0f = v AND 0x0f"
  unfolding with_stat_def by (rule bit_eqI) (auto simp: bit_simps)

lemma with_stat_mask_eq [simp]: "with_stat 1 x AND 0x0f = 1" "with_stat 2 x AND 0x0f = 2"
  by (simp_all only: with_stat_mask) simp_all

section \<open>Linking thread control blocks\<close>

definition unlink_thread :: "tid \<Rightarrow> kstate \<Rightarrow> kstate" where
  "unlink_thread t s =
     (case t_link (threads s t) of
        None \<Rightarrow> s
      | Some l \<Rightarrow> upd_thread t (\<lambda>th. th\<lparr>t_link := None\<rparr>)
                    (s\<lparr>lists := (lists s)(l := remove1 t (lists s l))\<rparr>))"

text \<open>Insertion before the \<open>k\<close>th member; before the head of the ring is at the end.\<close>

definition link_thread_at :: "lid \<Rightarrow> nat \<Rightarrow> tid \<Rightarrow> kstate \<Rightarrow> kstate option" where
  "link_thread_at l k t s = do {
     c_defined (t_link (threads s t) = None);
     Some (upd_thread t (\<lambda>th. th\<lparr>t_link := Some l\<rparr>)
            (s\<lparr>lists := (lists s)(l := insert_at k t (lists s l))\<rparr>))
   }"

definition link_thread_back :: "lid \<Rightarrow> tid \<Rightarrow> kstate \<Rightarrow> kstate option" where
  "link_thread_back l t s = link_thread_at l (length (lists s l)) t s"

definition link_thread_front :: "lid \<Rightarrow> tid \<Rightarrow> kstate \<Rightarrow> kstate option" where
  "link_thread_front l t s = link_thread_at l 0 t s"

definition links_ok :: "kstate \<Rightarrow> bool" where
  "links_ok s \<longleftrightarrow>
     (\<forall>t l. t \<in> set (lists s l) \<longleftrightarrow> t_link (threads s t) = Some l) \<and> (\<forall>l. distinct (lists s l))"

section \<open>Linking timers\<close>

definition unlink_timer :: "tmid \<Rightarrow> kstate \<Rightarrow> kstate" where
  "unlink_timer tm s =
     (case tm_link (timers s tm) of
        None \<Rightarrow> s
      | Some l \<Rightarrow> upd_timer tm (\<lambda>r. r\<lparr>tm_link := None\<rparr>)
                    (s\<lparr>tlists := (tlists s)(l := remove1 tm (tlists s l))\<rparr>))"

definition link_timer_at :: "tlid \<Rightarrow> nat \<Rightarrow> tmid \<Rightarrow> kstate \<Rightarrow> kstate option" where
  "link_timer_at l k tm s = do {
     c_defined (tm_link (timers s tm) = None);
     Some (upd_timer tm (\<lambda>r. r\<lparr>tm_link := Some l\<rparr>)
            (s\<lparr>tlists := (tlists s)(l := insert_at k tm (tlists s l))\<rparr>))
   }"

definition tlinks_ok :: "kstate \<Rightarrow> bool" where
  "tlinks_ok s \<longleftrightarrow>
     (\<forall>tm l. tm \<in> set (tlists s l) \<longleftrightarrow> tm_link (timers s tm) = Some l) \<and> (\<forall>l. distinct (tlists s l))"

section \<open>Facts on the state updates\<close>

lemma upd_thread_sel [simp]:
  "timers (upd_thread t f s) = timers s"
  "objs (upd_thread t f s) = objs s"
  "lists (upd_thread t f s) = lists s"
  "tlists (upd_thread t f s) = tlists s"
  "obj_lists (upd_thread t f s) = obj_lists s"
  "ready_group (upd_thread t f s) = ready_group s"
  "cur_thread (upd_thread t f s) = cur_thread s"
  "cur_prio (upd_thread t f s) = cur_prio s"
  "lock_nest (upd_thread t f s) = lock_nest s"
  "interrupt_nest (upd_thread t f s) = interrupt_nest s"
  "rt_tick (upd_thread t f s) = rt_tick s"
  "soft_timer_busy (upd_thread t f s) = soft_timer_busy s"
  "random_nr (upd_thread t f s) = random_nr s"
  "rt_errno (upd_thread t f s) = rt_errno s"
  "sems (upd_thread t f s) = sems s"
  "mutexes (upd_thread t f s) = mutexes s"
  "events (upd_thread t f s) = events s"
  "mailboxes (upd_thread t f s) = mailboxes s"
  "mqs (upd_thread t f s) = mqs s"
  "mps (upd_thread t f s) = mps s"
  "threads (upd_thread t f s) = (threads s)(t := f (threads s t))"
  by (simp_all add: upd_thread_def)

lemma upd_timer_sel [simp]:
  "threads (upd_timer tm f s) = threads s"
  "objs (upd_timer tm f s) = objs s"
  "lists (upd_timer tm f s) = lists s"
  "tlists (upd_timer tm f s) = tlists s"
  "obj_lists (upd_timer tm f s) = obj_lists s"
  "ready_group (upd_timer tm f s) = ready_group s"
  "cur_thread (upd_timer tm f s) = cur_thread s"
  "cur_prio (upd_timer tm f s) = cur_prio s"
  "lock_nest (upd_timer tm f s) = lock_nest s"
  "interrupt_nest (upd_timer tm f s) = interrupt_nest s"
  "rt_tick (upd_timer tm f s) = rt_tick s"
  "soft_timer_busy (upd_timer tm f s) = soft_timer_busy s"
  "random_nr (upd_timer tm f s) = random_nr s"
  "rt_errno (upd_timer tm f s) = rt_errno s"
  "sems (upd_timer tm f s) = sems s"
  "mutexes (upd_timer tm f s) = mutexes s"
  "events (upd_timer tm f s) = events s"
  "mailboxes (upd_timer tm f s) = mailboxes s"
  "mqs (upd_timer tm f s) = mqs s"
  "mps (upd_timer tm f s) = mps s"
  "timers (upd_timer tm f s) = (timers s)(tm := f (timers s tm))"
  by (simp_all add: upd_timer_def)

lemma upd_obj_sel [simp]:
  "threads (upd_obj x f s) = threads s"
  "timers (upd_obj x f s) = timers s"
  "lists (upd_obj x f s) = lists s"
  "tlists (upd_obj x f s) = tlists s"
  "obj_lists (upd_obj x f s) = obj_lists s"
  "ready_group (upd_obj x f s) = ready_group s"
  "cur_thread (upd_obj x f s) = cur_thread s"
  "cur_prio (upd_obj x f s) = cur_prio s"
  "lock_nest (upd_obj x f s) = lock_nest s"
  "interrupt_nest (upd_obj x f s) = interrupt_nest s"
  "rt_tick (upd_obj x f s) = rt_tick s"
  "soft_timer_busy (upd_obj x f s) = soft_timer_busy s"
  "random_nr (upd_obj x f s) = random_nr s"
  "rt_errno (upd_obj x f s) = rt_errno s"
  "sems (upd_obj x f s) = sems s"
  "mutexes (upd_obj x f s) = mutexes s"
  "events (upd_obj x f s) = events s"
  "mailboxes (upd_obj x f s) = mailboxes s"
  "mqs (upd_obj x f s) = mqs s"
  "mps (upd_obj x f s) = mps s"
  "objs (upd_obj x f s) = (objs s)(x := f (objs s x))"
  by (simp_all add: upd_obj_def)

lemma unlink_thread_sel [simp]:
  "timers (unlink_thread t s) = timers s"
  "objs (unlink_thread t s) = objs s"
  "tlists (unlink_thread t s) = tlists s"
  "obj_lists (unlink_thread t s) = obj_lists s"
  "ready_group (unlink_thread t s) = ready_group s"
  "cur_thread (unlink_thread t s) = cur_thread s"
  "cur_prio (unlink_thread t s) = cur_prio s"
  "lock_nest (unlink_thread t s) = lock_nest s"
  "interrupt_nest (unlink_thread t s) = interrupt_nest s"
  "rt_tick (unlink_thread t s) = rt_tick s"
  "soft_timer_busy (unlink_thread t s) = soft_timer_busy s"
  "random_nr (unlink_thread t s) = random_nr s"
  "rt_errno (unlink_thread t s) = rt_errno s"
  "sems (unlink_thread t s) = sems s"
  "mutexes (unlink_thread t s) = mutexes s"
  "events (unlink_thread t s) = events s"
  "mailboxes (unlink_thread t s) = mailboxes s"
  "mqs (unlink_thread t s) = mqs s"
  "mps (unlink_thread t s) = mps s"
  "threads (unlink_thread t s) = (threads s)(t := (threads s t)\<lparr>t_link := None\<rparr>)"
  by (auto simp: unlink_thread_def fun_eq_iff split: option.split)

lemma unlink_timer_sel [simp]:
  "threads (unlink_timer tm s) = threads s"
  "objs (unlink_timer tm s) = objs s"
  "lists (unlink_timer tm s) = lists s"
  "obj_lists (unlink_timer tm s) = obj_lists s"
  "ready_group (unlink_timer tm s) = ready_group s"
  "cur_thread (unlink_timer tm s) = cur_thread s"
  "cur_prio (unlink_timer tm s) = cur_prio s"
  "lock_nest (unlink_timer tm s) = lock_nest s"
  "interrupt_nest (unlink_timer tm s) = interrupt_nest s"
  "rt_tick (unlink_timer tm s) = rt_tick s"
  "soft_timer_busy (unlink_timer tm s) = soft_timer_busy s"
  "random_nr (unlink_timer tm s) = random_nr s"
  "rt_errno (unlink_timer tm s) = rt_errno s"
  "sems (unlink_timer tm s) = sems s"
  "mutexes (unlink_timer tm s) = mutexes s"
  "events (unlink_timer tm s) = events s"
  "mailboxes (unlink_timer tm s) = mailboxes s"
  "mqs (unlink_timer tm s) = mqs s"
  "mps (unlink_timer tm s) = mps s"
  "timers (unlink_timer tm s) = (timers s)(tm := (timers s tm)\<lparr>tm_link := None\<rparr>)"
  by (auto simp: unlink_timer_def fun_eq_iff split: option.split)

lemma unlink_thread_lists:
  "links_ok s \<Longrightarrow> lists (unlink_thread t s) = (\<lambda>l. remove1 t (lists s l))"
  by (auto simp: unlink_thread_def links_ok_def fun_eq_iff remove1_idem split: option.split)

lemma unlink_timer_tlists:
  "tlinks_ok s \<Longrightarrow> tlists (unlink_timer tm s) = (\<lambda>l. remove1 tm (tlists s l))"
  by (auto simp: unlink_timer_def tlinks_ok_def fun_eq_iff remove1_idem split: option.split)

lemma link_thread_at_eq:
  "link_thread_at l k t s = Some s' \<longleftrightarrow> t_link (threads s t) = None \<and>
     s' = upd_thread t (\<lambda>th. th\<lparr>t_link := Some l\<rparr>)
            (s\<lparr>lists := (lists s)(l := insert_at k t (lists s l))\<rparr>)"
  by (auto simp: link_thread_at_def Option.bind_eq_Some_conv)

lemma link_timer_at_eq:
  "link_timer_at l k tm s = Some s' \<longleftrightarrow> tm_link (timers s tm) = None \<and>
     s' = upd_timer tm (\<lambda>r. r\<lparr>tm_link := Some l\<rparr>)
            (s\<lparr>tlists := (tlists s)(l := insert_at k tm (tlists s l))\<rparr>)"
  by (auto simp: link_timer_at_def Option.bind_eq_Some_conv)

lemma links_ok_unlink: "links_ok s \<Longrightarrow> links_ok (unlink_thread t s)"
  by (auto simp: links_ok_def unlink_thread_lists)

lemma links_ok_link: "links_ok s \<Longrightarrow> link_thread_at l k t s = Some s' \<Longrightarrow> links_ok s'"
  by (auto simp: links_ok_def link_thread_at_eq)

lemma tlinks_ok_unlink: "tlinks_ok s \<Longrightarrow> tlinks_ok (unlink_timer t s)"
  by (auto simp: tlinks_ok_def unlink_timer_tlists)

lemma tlinks_ok_link: "tlinks_ok s \<Longrightarrow> link_timer_at l k tm s = Some s' \<Longrightarrow> tlinks_ok s'"
  by (auto simp: tlinks_ok_def link_timer_at_eq)

section \<open>The state at reset\<close>

text \<open>The zero-initialised memory the kernel starts from; it is also the base of the concrete
  states in the examples.\<close>

definition thread0 :: rt_thread where
  "thread0 = \<lparr>sp = 0, stack_addr = 0, stack_size = 0, stack_guard = 0, thread_entry = 0,
     thread_parameter = 0, thread_error = RT_EOK, stat = RT_THREAD_INIT, current_priority = 0,
     init_priority = 0, number_mask = 0, event_set = 0, event_info = 0, init_tick = 0,
     remaining_tick = 0, t_link = None\<rparr>"

definition kstate0 :: kstate where
  "kstate0 = \<lparr>threads = (\<lambda>_. thread0),
     timers = (\<lambda>_. \<lparr>timeout_func = User_timeout 0, tm_init_tick = 0, timeout_tick = 0, tm_link = None\<rparr>),
     objs = (\<lambda>_. \<lparr>obj_name = replicate 8 0, obj_type = 0, obj_flag = 0\<rparr>),
     lists = (\<lambda>_. []), tlists = (\<lambda>_. []), obj_lists = (\<lambda>_. []),
     ready_group = 0, cur_thread = None, cur_prio = 0, lock_nest = 0, interrupt_nest = 0,
     rt_tick = 0, soft_timer_busy = False, random_nr = 0, rt_errno = RT_EOK,
     sems = (\<lambda>_. \<lparr>sem_value = 0\<rparr>),
     mutexes = (\<lambda>_. \<lparr>mutex_value = 0, original_priority = 0, hold = 0, owner = None\<rparr>),
     events = (\<lambda>_. \<lparr>ev_set = 0\<rparr>),
     mailboxes = (\<lambda>_. \<lparr>mb_pool = [], mb_size = 0, mb_entry = 0, in_offset = 0, out_offset = 0\<rparr>),
     mqs = (\<lambda>_. \<lparr>mq_next = (\<lambda>_. None), mq_data = (\<lambda>_. []), mq_msg_size = 0, max_msgs = 0,
                 mq_entry = 0, msg_queue_head = None, msg_queue_tail = None, msg_queue_free = None\<rparr>),
     mps = (\<lambda>_. \<lparr>mp_word_at = (\<lambda>_. Next_block None), mp_size = 0, block_size = 0, block_list = None,
                 block_total_count = 0, block_free_count = 0\<rparr>)\<rparr>"

end
