(* ===== verification/Sched.thy ===== *)
theory Sched
  imports KState
begin

text \<open>
  The scheduler of \<open>src/src/scheduler.c\<close> for one processor and at most 32 priorities: one ready
  queue per priority, and a word with one bit per queue from which \<open>__rt_ffs\<close> finds the most
  urgent one.  \<open>rt_hw_context_switch\<close> only saves and restores registers: a switch is the change of
  \<open>rt_current_thread\<close>, and the code that called \<open>rt_schedule\<close> goes on when its thread is chosen
  again.  With a full stack \<open>_rt_scheduler_stack_check\<close> loops for ever (\<open>None\<close>).
\<close>

section \<open>Find first set\<close>

text \<open>\<open>__rt_ffs\<close> of \<open>src/libcpu/arm/cortex-m4/cpuport.c\<close> reverses the word and counts leading
  zeros; \<open>__rt_ffs\<close> of \<open>src/src/kservice.c\<close>, for processors without those instructions, looks the
  lowest set byte up in a table.\<close>

definition clz :: "u32 \<Rightarrow> nat" where
  "clz w = length (takeWhile (\<lambda>i. \<not> bit w i) (rev [0..<32]))"

definition rt_ffs :: "u32 \<Rightarrow> nat" where
  "rt_ffs value = (if value = 0 then 0 else clz (word_reverse value) + 1)"

fun bitmap_row :: "nat \<Rightarrow> nat list" where
  "bitmap_row k = [k, 0, 1, 0, 2, 0, 1, 0, 3, 0, 1, 0, 2, 0, 1, 0]"

definition lowest_bit_bitmap :: "nat list" where
  "lowest_bit_bitmap =
     concat (map bitmap_row [0, 4, 5, 4, 6, 4, 5, 4, 7, 4, 5, 4, 6, 4, 5, 4])"

definition rt_ffs_table :: "u32 \<Rightarrow> nat" where
  "rt_ffs_table value =
     (if value = 0 then 0
      else if value AND 0xff \<noteq> 0 then lowest_bit_bitmap ! unat (value AND 0xff) + 1
      else if value AND 0xff00 \<noteq> 0
      then lowest_bit_bitmap ! unat (drop_bit 8 (value AND 0xff00)) + 9
      else if value AND 0xff0000 \<noteq> 0
      then lowest_bit_bitmap ! unat (drop_bit 16 (value AND 0xff0000)) + 17
      else lowest_bit_bitmap ! unat (drop_bit 24 (value AND 0xff000000)) + 25)"

section \<open>Operations\<close>

definition rt_system_scheduler_init :: "kstate \<Rightarrow> kstate" where
  "rt_system_scheduler_init s =
     s\<lparr>lock_nest := 0,
       lists := (\<lambda>l. case l of ReadyQ p \<Rightarrow> if p < 32 then [] else lists s l
                            | Defunct \<Rightarrow> [] | _ \<Rightarrow> lists s l),
       cur_prio := 31, cur_thread := None, ready_group := 0\<rparr>"

text \<open>The guard byte written by \<open>_rt_thread_init\<close> is the character \<open>#\<close>.\<close>

definition rt_scheduler_stack_check :: "tid \<Rightarrow> kstate \<Rightarrow> unit option" where
  "rt_scheduler_stack_check t s =
     (let th = threads s t in
      if stack_guard th \<noteq> 35 \<or> sp th \<le> stack_addr th \<or> sp th > stack_addr th + stack_size th
      then None else Some ())"

definition highest_ready :: "kstate \<Rightarrow> (nat \<times> tid) option" where
  "highest_ready s = do {
     c_defined (rt_ffs (ready_group s) \<noteq> 0);
     let p = rt_ffs (ready_group s) - 1;
     c_defined (lists s (ReadyQ p) \<noteq> []);
     Some (p, hd (lists s (ReadyQ p)))
   }"

definition rt_system_scheduler_start :: "kstate \<Rightarrow> kstate option" where
  "rt_system_scheduler_start s = do {
     (p, to_thread) \<leftarrow> highest_ready s;
     Some (s\<lparr>cur_thread := Some to_thread\<rparr>)
   }"

definition rt_schedule :: "kstate \<Rightarrow> kstate option" where
  "rt_schedule s =
     (if lock_nest s = 0 then do {
        (p, to_thread) \<leftarrow> highest_ready s;
        if Some to_thread \<noteq> cur_thread s then do {
          c_defined (cur_thread s \<noteq> None);
          rt_scheduler_stack_check to_thread s;
          Some (s\<lparr>cur_prio := word_of_nat p, cur_thread := Some to_thread\<rparr>)
        } else Some s
      } else Some s)"

definition rt_schedule_insert_thread :: "tid \<Rightarrow> kstate \<Rightarrow> kstate option" where
  "rt_schedule_insert_thread t s = do {
     let s = upd_thread t (\<lambda>th. th\<lparr>stat := with_stat RT_THREAD_READY (stat th)\<rparr>) s;
     let p = unat (current_priority (threads s t));
     c_defined (p < 32);
     s \<leftarrow> link_thread_back (ReadyQ p) t s;
     Some (s\<lparr>ready_group := ready_group s OR number_mask (threads s t)\<rparr>)
   }"

definition rt_schedule_remove_thread :: "tid \<Rightarrow> kstate \<Rightarrow> kstate option" where
  "rt_schedule_remove_thread t s = do {
     let s = unlink_thread t s;
     let p = unat (current_priority (threads s t));
     c_defined (p < 32);
     Some (if lists s (ReadyQ p) = []
           then s\<lparr>ready_group := ready_group s AND NOT (number_mask (threads s t))\<rparr> else s)
   }"

definition rt_enter_critical :: "kstate \<Rightarrow> kstate" where
  "rt_enter_critical s = s\<lparr>lock_nest := lock_nest s + 1\<rparr>"

text \<open>The counter is a signed 16-bit integer.\<close>

definition rt_exit_critical :: "kstate \<Rightarrow> kstate option" where
  "rt_exit_critical s =
     (let s = s\<lparr>lock_nest := lock_nest s - 1\<rparr> in
      if sint (lock_nest s) \<le> 0 then
        (let s = s\<lparr>lock_nest := 0\<rparr> in if cur_thread s \<noteq> None then rt_schedule s else Some s)
      else Some s)"

definition rt_critical_level :: "kstate \<Rightarrow> u16" where
  "rt_critical_level s = lock_nest s"

section \<open>Find first set finds the lowest set bit\<close>

lemma length_takeWhile_least:
  assumes "\<exists>i < length xs. P (xs ! i)"
  shows "length (takeWhile (\<lambda>x. \<not> P x) xs) < length xs \<and> P (xs ! length (takeWhile (\<lambda>x. \<not> P x) xs)) \<and>
         (\<forall>i < length (takeWhile (\<lambda>x. \<not> P x) xs). \<not> P (xs ! i))"
  using assms
proof (intro conjI)
  from assms obtain x where "x \<in> set xs" "P x" using nth_mem by blast
  then have "takeWhile (\<lambda>x. \<not> P x) xs \<noteq> xs" by (auto simp: takeWhile_eq_all_conv)
  then show l: "length (takeWhile (\<lambda>x. \<not> P x) xs) < length xs"
    by (metis length_takeWhile_le nat_less_le takeWhile_eq_take take_all_iff order_refl)
  show "P (xs ! length (takeWhile (\<lambda>x. \<not> P x) xs))" using nth_length_takeWhile [OF l] by simp
  show "\<forall>i < length (takeWhile (\<lambda>x. \<not> P x) xs). \<not> P (xs ! i)"
    using nth_mem set_takeWhileD takeWhile_nth by metis
qed

lemma rt_ffs_spec:
  assumes "value \<noteq> 0"
  shows "0 < rt_ffs value \<and> rt_ffs value \<le> 32 \<and> bit value (rt_ffs value - 1) \<and>
         (\<forall>i < rt_ffs value - 1. \<not> bit value i)"
proof -
  obtain i where "bit value i" using assms by (metis bit_0_eq bit_eqI bot_apply bot_bool_def)
  moreover have "i < 32" using bit_imp_le_length [OF calculation] by simp
  ultimately have ex: "\<exists>i < length [0..<32 :: nat]. bit value ([0..<32] ! i)"
    by (intro exI [of _ i]) simp
  have "clz (word_reverse value) = length (takeWhile (\<lambda>i. \<not> bit value i) [0..<32])"
  proof -
    have m: "rev [0..<32 :: nat] = map (\<lambda>i. 31 - i) [0..<32]" by (simp add: upt_rec)
    have c: "takeWhile (\<lambda>i. \<not> bit (word_reverse value) i) (map (\<lambda>i. 31 - i) [0..<32])
        = map (\<lambda>i. 31 - i) (takeWhile (\<lambda>i. \<not> bit (word_reverse value) (31 - i)) [0..<32])"
      by (simp add: takeWhile_map o_def)
    have e: "takeWhile (\<lambda>i. \<not> bit (word_reverse value) (31 - i)) [0..<32]
        = takeWhile (\<lambda>i. \<not> bit value i) [0..<32]"
      by (rule takeWhile_cong) (auto simp: bit_word_reverse_iff Suc_diff_le)
    show ?thesis unfolding clz_def m c e by simp
  qed
  then show ?thesis
    using length_takeWhile_least [OF ex] assms by (auto simp: rt_ffs_def)
qed

lemma rt_ffs_eq_0 [simp]: "rt_ffs value = 0 \<longleftrightarrow> value = 0"
  by (simp add: rt_ffs_def)

section \<open>The scheduler invariant\<close>

definition ready_ok :: "kstate \<Rightarrow> bool" where
  "ready_ok s \<longleftrightarrow> (\<forall>p t. t \<in> set (lists s (ReadyQ p)) \<longrightarrow>
     unat (current_priority (threads s t)) = p \<and> stat_of s t = RT_THREAD_READY)"

definition ready_here :: "kstate \<Rightarrow> bool" where
  "ready_here s \<longleftrightarrow> (\<forall>t l. stat_of s t = RT_THREAD_READY \<and> t_link (threads s t) = Some l \<longrightarrow>
     l = ReadyQ (unat (current_priority (threads s t))))"

definition mask_ok :: "kstate \<Rightarrow> bool" where
  "mask_ok s \<longleftrightarrow> (\<forall>t. stat_of s t = RT_THREAD_READY \<or> stat_of s t = RT_THREAD_SUSPEND \<longrightarrow>
     unat (current_priority (threads s t)) < 32 \<and>
     number_mask (threads s t) = 2 ^ unat (current_priority (threads s t)))"

definition group_ok :: "kstate \<Rightarrow> bool" where
  "group_ok s \<longleftrightarrow> (\<forall>p < 32. bit (ready_group s) p \<longleftrightarrow> lists s (ReadyQ p) \<noteq> [])"

definition sched_inv :: "kstate \<Rightarrow> bool" where
  "sched_inv s \<longleftrightarrow> links_ok s \<and> ready_ok s \<and> mask_ok s \<and> group_ok s \<and> ready_here s"

lemma sched_invD:
  assumes "sched_inv s"
  shows "links_ok s" "ready_ok s" "mask_ok s" "group_ok s" "ready_here s"
  using assms by (simp_all add: sched_inv_def)

lemma bit_mask_word [simp]: "p < 32 \<Longrightarrow> bit (2 ^ p :: u32) n \<longleftrightarrow> n = p"
  by (auto simp: bit_simps)

lemma link_back_eq:
  "link_thread_back l t s = Some s' \<longleftrightarrow> t_link (threads s t) = None \<and>
     s' = upd_thread t (\<lambda>th. th\<lparr>t_link := Some l\<rparr>) (s\<lparr>lists := (lists s)(l := lists s l @ [t])\<rparr>)"
  by (simp add: link_thread_back_def link_thread_at_eq)

lemma insert_thread_eq:
  "rt_schedule_insert_thread t s = Some s' \<longleftrightarrow>
     (let th = threads s t; l = ReadyQ (unat (current_priority th)) in
      unat (current_priority th) < 32 \<and> t_link th = None \<and>
      s' = (upd_thread t (\<lambda>th. th\<lparr>stat := with_stat RT_THREAD_READY (stat th),
                                t_link := Some l\<rparr>) s)
             \<lparr>lists := (lists s)(l := lists s l @ [t]), ready_group := ready_group s OR number_mask th\<rparr>)"
  by (auto simp: rt_schedule_insert_thread_def Let_def Option.bind_eq_Some_conv link_back_eq upd_thread_def)

lemma links_ok_insert: "links_ok s \<Longrightarrow> rt_schedule_insert_thread t s = Some s' \<Longrightarrow> links_ok s'"
  by (auto simp: insert_thread_eq links_ok_def Let_def)

lemma remove_thread_eq:
  "rt_schedule_remove_thread t s = Some s' \<longleftrightarrow>
     (let u = unlink_thread t s; th = threads u t in
      unat (current_priority th) < 32 \<and>
      s' = (if lists u (ReadyQ (unat (current_priority th))) = []
            then u\<lparr>ready_group := ready_group u AND NOT (number_mask th)\<rparr> else u))"
  by (auto simp: rt_schedule_remove_thread_def Let_def Option.bind_eq_Some_conv)

text \<open>Making an unlinked thread ready keeps the invariant, provided its priority mask is the
  one of its priority.\<close>

lemma insert_thread_sel:
  assumes "rt_schedule_insert_thread t s = Some s'"
  shows "threads s' = (threads s)(t := (threads s t)\<lparr>stat := with_stat RT_THREAD_READY (stat (threads s t)),
           t_link := Some (ReadyQ (unat (current_priority (threads s t))))\<rparr>)"
    and "lists s' = (let l = ReadyQ (unat (current_priority (threads s t))) in (lists s)(l := lists s l @ [t]))"
    and "ready_group s' = ready_group s OR number_mask (threads s t)"
    and "unat (current_priority (threads s t)) < 32" "t_link (threads s t) = None"
  using assms by (simp_all add: insert_thread_eq Let_def)

lemma sched_inv_insert:
  assumes "sched_inv s" "rt_schedule_insert_thread t s = Some s'"
    and m: "number_mask (threads s t) = 2 ^ unat (current_priority (threads s t))"
  shows "sched_inv s'"
proof -
  note inv = sched_invD [OF assms(1)]
  note sel = insert_thread_sel [OF assms(2)]
  have "links_ok s'" using inv(1) assms(2) by (rule links_ok_insert)
  moreover have "ready_ok s'" unfolding ready_ok_def
  proof (intro allI impI)
    fix p u assume "u \<in> set (lists s' (ReadyQ p))"
    then have "u \<in> set (lists s (ReadyQ p)) \<or> u = t \<and> p = unat (current_priority (threads s t))"
      unfolding sel(2) Let_def by (auto split: if_splits)
    then show "unat (current_priority (threads s' u)) = p \<and> stat_of s' u = RT_THREAD_READY"
      using inv(2) unfolding ready_ok_def stat_of_def sel(1) by auto
  qed
  moreover have "mask_ok s'"
    using inv(3) m sel(4) unfolding mask_ok_def stat_of_def sel(1) by simp
  moreover have "group_ok s'"
    using inv(4) sel(4) unfolding group_ok_def sel(2,3) m Let_def by (simp add: bit_or_iff)
  moreover have "ready_here s'"
    using inv(5) unfolding ready_here_def stat_of_def sel(1) by auto
  ultimately show ?thesis by (simp add: sched_inv_def)
qed

lemma sched_inv_remove:
  assumes "sched_inv s" "rt_schedule_remove_thread t s = Some s'"
    and "stat_of s t = RT_THREAD_READY \<or> stat_of s t = RT_THREAD_SUSPEND"
  shows "sched_inv s'"
proof -
  note inv = sched_invD [OF assms(1)]
  let ?p = "unat (current_priority (threads s t))"
  have m: "?p < 32" "number_mask (threads s t) = 2 ^ ?p"
    using inv(3) assms(3) unfolding mask_ok_def by blast+
  have L: "lists s' = (\<lambda>l. remove1 t (lists s l))"
    using assms(2) inv(1) by (auto simp: remove_thread_eq Let_def unlink_thread_lists split: if_splits)
  have T: "threads s' = (threads s)(t := (threads s t)\<lparr>t_link := None\<rparr>)"
    using assms(2) by (auto simp: remove_thread_eq Let_def split: if_splits)
  have "links_ok s'"
    using inv(1) L T links_ok_unlink [OF inv(1), of t] by (auto simp: links_ok_def)
  moreover have "ready_ok s'"
    using inv(2) by (auto simp: ready_ok_def stat_of_def L T dest: subsetD [OF set_remove1_subset])
  moreover have "mask_ok s'"
    using inv(3) by (auto simp: mask_ok_def stat_of_def T)
  moreover have "group_ok s'"
  proof -
    have G: "ready_group s' = (if remove1 t (lists s (ReadyQ ?p)) = []
        then ready_group s AND NOT (2 ^ ?p) else ready_group s)"
      using assms(2) inv(1) m by (auto simp: remove_thread_eq Let_def unlink_thread_lists)
    have "remove1 t (lists s (ReadyQ p)) = lists s (ReadyQ p)" if "p \<noteq> ?p" for p
      using inv(2) that by (intro remove1_idem) (auto simp: ready_ok_def)
    then have N: "bit (ready_group s') p \<longleftrightarrow> remove1 t (lists s (ReadyQ p)) \<noteq> []" if "p < 32" for p
      using inv(4) m(1) that unfolding group_ok_def G
      by (cases "p = ?p") (auto simp: bit_and_iff bit_not_iff)
    show ?thesis using N unfolding group_ok_def L by blast
  qed
  moreover have "ready_here s'"
    using inv(5) unfolding ready_here_def stat_of_def T by auto
  ultimately show ?thesis by (simp add: sched_inv_def)
qed

section \<open>Scheduling\<close>

lemma highest_ready_hd:
  assumes "sched_inv s" "lists s (ReadyQ p) \<noteq> []"
  obtains q t where "highest_ready s = Some (q, t)" "q < 32" "t = hd (lists s (ReadyQ q))"
    "t \<in> set (lists s (ReadyQ q))"
    "\<And>u r. u \<in> set (lists s (ReadyQ r)) \<Longrightarrow> q \<le> r"
proof -
  note inv = sched_invD [OF assms(1)]
  have small: "r < 32" if "u \<in> set (lists s (ReadyQ r))" for u r
    using inv(2,3) that unfolding ready_ok_def mask_ok_def by blast
  have "p < 32" using assms(2) small [of "hd (lists s (ReadyQ p))" p] by simp
  then have "bit (ready_group s) p" using inv(4) assms(2) by (simp add: group_ok_def)
  then have nz: "ready_group s \<noteq> 0" by auto
  define q where "q = rt_ffs (ready_group s) - 1"
  have q: "q < 32" "bit (ready_group s) q" "\<And>i. i < q \<Longrightarrow> \<not> bit (ready_group s) i"
    using rt_ffs_spec [OF nz] by (auto simp: q_def)
  have ne: "lists s (ReadyQ q) \<noteq> []" using inv(4) q by (simp add: group_ok_def)
  have least: "q \<le> r" if "u \<in> set (lists s (ReadyQ r))" for u r
  proof (rule ccontr)
    assume "\<not> q \<le> r"
    then have "\<not> bit (ready_group s) r" using q(3) by simp
    moreover have "lists s (ReadyQ r) \<noteq> []" using that by auto
    ultimately show False using inv(4) small [OF that] by (simp add: group_ok_def)
  qed
  have "highest_ready s = Some (q, hd (lists s (ReadyQ q)))"
    using nz ne by (simp add: highest_ready_def q_def Let_def)
  then show ?thesis using that q(1) ne least by simp
qed

lemma rt_schedule_cases:
  assumes "rt_schedule s = Some s'"
  obtains "s' = s" | q t where "highest_ready s = Some (q, t)" "lock_nest s = 0" "cur_thread s \<noteq> Some t"
    "s' = s\<lparr>cur_prio := word_of_nat q, cur_thread := Some t\<rparr>"
  using assms unfolding rt_schedule_def
  by (auto simp: Option.bind_eq_Some_conv split: if_splits prod.splits)

lemma sched_inv_cong:
  "threads s' = threads s \<Longrightarrow> lists s' = lists s \<Longrightarrow> ready_group s' = ready_group s \<Longrightarrow>
   sched_inv s' = sched_inv s"
  by (simp add: sched_inv_def links_ok_def ready_ok_def mask_ok_def group_ok_def ready_here_def stat_of_def)

lemma sched_inv_frame [simp]:
  "sched_inv (s\<lparr>cur_prio := a\<rparr>) = sched_inv s"
  "sched_inv (s\<lparr>cur_prio := a, cur_thread := b\<rparr>) = sched_inv s"
  "sched_inv (s\<lparr>cur_thread := b\<rparr>) = sched_inv s"
  "sched_inv (s\<lparr>lock_nest := c\<rparr>) = sched_inv s"
  by (rule sched_inv_cong; simp)+

lemma sched_inv_schedule: "sched_inv s \<Longrightarrow> rt_schedule s = Some s' \<Longrightarrow> sched_inv s'"
  by (erule rt_schedule_cases) simp_all

definition stack_ok :: "kstate \<Rightarrow> tid \<Rightarrow> bool" where
  "stack_ok s t \<longleftrightarrow> rt_scheduler_stack_check t s = Some ()"

text \<open>C14. \<open>rt_schedule\<close> runs the most urgent thread: when the scheduler is not locked and some thread
  is ready, the thread that runs afterwards is the first of the non-empty ready queue of the
  smallest priority number, and only the current thread and priority change.\<close>

theorem schedule_runs_highest:
  assumes inv: "sched_inv s" and unlocked: "lock_nest s = 0" and started: "cur_thread s \<noteq> None"
    and some: "lists s (ReadyQ p) \<noteq> []"
    and stacks: "\<And>q t. t \<in> set (lists s (ReadyQ q)) \<Longrightarrow> stack_ok s t"
  shows "\<exists>q t s'. rt_schedule s = Some s' \<and> cur_thread s' = Some t \<and> t = hd (lists s (ReadyQ q)) \<and>
           stat_of s t = RT_THREAD_READY \<and> unat (current_priority (threads s t)) = q \<and>
           (\<forall>u. t_link (threads s u) = Some (ReadyQ (unat (current_priority (threads s u)))) \<longrightarrow>
                current_priority (threads s t) \<le> current_priority (threads s u)) \<and>
           s' = s\<lparr>cur_prio := cur_prio s', cur_thread := Some t\<rparr>"
proof -
  obtain q t where h: "highest_ready s = Some (q, t)" "q < 32" "t = hd (lists s (ReadyQ q))"
      "t \<in> set (lists s (ReadyQ q))" and least: "\<And>u r. u \<in> set (lists s (ReadyQ r)) \<Longrightarrow> q \<le> r"
    using highest_ready_hd [OF inv some] by blast
  have t: "unat (current_priority (threads s t)) = q" "stat_of s t = RT_THREAD_READY"
    using sched_invD(2) [OF inv] h(4) by (auto simp: ready_ok_def)
  have min: "current_priority (threads s t) \<le> current_priority (threads s u)"
    if "t_link (threads s u) = Some (ReadyQ (unat (current_priority (threads s u))))" for u
    using that least sched_invD(1) [OF inv] by (auto simp: links_ok_def word_le_nat_alt t(1))
  define s' where "s' = (if cur_thread s = Some t then s
      else s\<lparr>cur_prio := word_of_nat q, cur_thread := Some t\<rparr>)"
  have "rt_schedule s = Some s'"
    using h(1) unlocked started stacks [OF h(4)] by (auto simp: rt_schedule_def stack_ok_def s'_def)
  moreover have "cur_thread s' = Some t" "s' = s\<lparr>cur_prio := cur_prio s', cur_thread := Some t\<rparr>"
    by (auto simp: s'_def)
  ultimately show ?thesis using h(3) t min by blast
qed

text \<open>A full stack stops the system instead of running the thread: when the most urgent ready
  thread has lost its guard byte or its stack pointer is outside its stack, \<open>rt_schedule\<close> does not
  return.\<close>

theorem schedule_stops_on_overflow:
  assumes "sched_inv s" "lock_nest s = 0" "highest_ready s = Some (q, t)" "cur_thread s \<noteq> Some t"
    and "stack_guard (threads s t) \<noteq> 35 \<or> sp (threads s t) \<le> stack_addr (threads s t) \<or>
         sp (threads s t) > stack_addr (threads s t) + stack_size (threads s t)"
  shows "rt_schedule s = None"
  using assms(2-5) by (auto simp: rt_schedule_def rt_scheduler_stack_check_def Let_def bind_eq_None_conv)

text \<open>While the scheduler is locked no switch happens, and the matching \<open>rt_exit_critical\<close> at the
  outermost level lets the pending one through.\<close>

theorem critical_section_defers:
  assumes "sint (lock_nest s) \<ge> 0" "sint (lock_nest s) < 32767"
  shows "rt_schedule (rt_enter_critical s) = Some (rt_enter_critical s) \<and>
         rt_exit_critical (rt_enter_critical s) =
           (if lock_nest s = 0 then (if cur_thread s = None then Some s else rt_schedule s) else Some s)"
proof -
  have n: "lock_nest s + 1 \<noteq> 0"
  proof
    assume "lock_nest s + 1 = 0"
    then have "lock_nest s = -1" by (simp add: eq_neg_iff_add_eq_0)
    then show False using assms(1) by simp
  qed
  have z: "sint (lock_nest s) \<le> 0 \<longleftrightarrow> lock_nest s = 0" using assms(1) by (metis antisym sint_0 signed_eq_0_iff order_refl)
  have "rt_schedule (rt_enter_critical s) = Some (rt_enter_critical s)"
    using n by (simp add: rt_schedule_def rt_enter_critical_def)
  moreover have "rt_exit_critical (rt_enter_critical s) =
      (if lock_nest s = 0 then (if cur_thread s = None then Some s else rt_schedule s) else Some s)"
  proof (cases "lock_nest s = 0")
    case True
    then have e: "s\<lparr>lock_nest := 0\<rparr> = s" by (cases s) simp
    have "rt_exit_critical (rt_enter_critical s) =
        (if cur_thread s = None then Some (s\<lparr>lock_nest := 0\<rparr>) else rt_schedule (s\<lparr>lock_nest := 0\<rparr>))"
      by (simp add: rt_enter_critical_def rt_exit_critical_def Let_def True)
    then show ?thesis unfolding e by (simp only: True simp_thms if_True)
  next
    case False
    then show ?thesis using z by (simp add: rt_enter_critical_def rt_exit_critical_def Let_def)
  qed
  ultimately show ?thesis by blast
qed

section \<open>The two versions of find first set agree\<close>

definition first_bit :: "u32 \<Rightarrow> nat \<Rightarrow> bool" where
  "first_bit w k \<longleftrightarrow> bit w k \<and> (\<forall>i < k. \<not> bit w i)"

lemma first_bit_unique: "first_bit w j \<Longrightarrow> first_bit w k \<Longrightarrow> j = k"
  by (metis first_bit_def linorder_neqE_nat)

fun bitmap_from :: "nat \<Rightarrow> nat list \<Rightarrow> bool" where
  "bitmap_from b [] \<longleftrightarrow> True"
| "bitmap_from b (k # ks) \<longleftrightarrow> (b = 0 \<or> k < 8 \<and> b mod 2 ^ (k + 1) = 2 ^ k) \<and> bitmap_from (b + 1) ks"

lemma bitmap_from_nth:
  "bitmap_from b ks \<Longrightarrow> i < length ks \<Longrightarrow> b + i = 0 \<or> ks ! i < 8 \<and> (b + i) mod 2 ^ (ks ! i + 1) = 2 ^ (ks ! i)"
proof (induction ks arbitrary: b i)
  case (Cons k ks)
  then show ?case using Cons.IH [of "b + 1" "i - 1"] by (cases i) auto
qed simp

lemma bitmap_bits: "bitmap_from 0 lowest_bit_bitmap"
  by (simp add: lowest_bit_bitmap_def)

lemma bitmap_first:
  assumes "0 < b" "b < 256"
  shows "lowest_bit_bitmap ! b < 8 \<and> bit b (lowest_bit_bitmap ! b) \<and>
         (\<forall>i < lowest_bit_bitmap ! b. \<not> bit b i)"
proof -
  let ?k = "lowest_bit_bitmap ! b"
  have "length lowest_bit_bitmap = 256" by (simp add: lowest_bit_bitmap_def)
  then have k: "?k < 8" "take_bit (?k + 1) b = 2 ^ ?k"
    using bitmap_from_nth [OF bitmap_bits, of b] assms by (auto simp: take_bit_eq_mod)
  have "bit b i \<longleftrightarrow> i = ?k" if "i \<le> ?k" for i
  proof -
    have "bit b i \<longleftrightarrow> bit (take_bit (?k + 1) b) i" using that by (simp add: bit_take_bit_iff)
    then show ?thesis unfolding k(2) by (auto simp: bit_exp_iff)
  qed
  then show ?thesis using k(1) by auto
qed

text \<open>One byte of the word, \<open>j\<close> bits up: its table entry is its first bit, and the word has no
  lower one when the bytes below are zero.\<close>

lemma table_byte:
  assumes "drop_bit j value AND 0xff \<noteq> (0 :: u32)" "\<And>i. i < j \<Longrightarrow> \<not> bit value i"
  shows "first_bit value (lowest_bit_bitmap ! unat (drop_bit j value AND 0xff) + j)"
proof -
  let ?b = "unat (drop_bit j value AND 0xff)"
  have ff: "(0xff :: u32) = mask 8" by (simp add: mask_eq_exp_minus_1)
  have "drop_bit j value AND 0xff = take_bit 8 (drop_bit j value)" by (simp add: ff take_bit_eq_mask)
  then have b8: "bit ?b i \<longleftrightarrow> i < 8 \<and> bit value (j + i)" for i
    by (auto simp: bit_unsigned_iff bit_take_bit_iff bit_drop_bit_eq dest: bit_imp_le_length)
  have "?b < 256"
  proof -
    have "drop_bit j value AND 0xff < 2 ^ 8" unfolding ff by (rule and_mask_less') simp
    then show ?thesis by (simp add: word_less_nat_alt)
  qed
  moreover have "0 < ?b" using assms(1) by (simp add: unat_gt_0)
  ultimately have f: "lowest_bit_bitmap ! ?b < 8" "bit ?b (lowest_bit_bitmap ! ?b)"
      "\<And>i. i < lowest_bit_bitmap ! ?b \<Longrightarrow> \<not> bit ?b i"
    using bitmap_first by blast+
  have "\<not> bit value i" if "i < lowest_bit_bitmap ! ?b + j" for i
  proof (cases "i < j")
    case True
    then show ?thesis using assms(2) by blast
  next
    case False
    then have k: "i - j < lowest_bit_bitmap ! ?b" "j + (i - j) = i" using that by auto
    then have "\<not> bit ?b (i - j)" "i - j < 8" using f(1,3) by auto
    then show ?thesis using b8 [of "i - j"] k(2) by simp
  qed
  then show ?thesis using f(2) b8 unfolding first_bit_def by (metis add.commute)
qed

lemma byte_field:
  fixes v m :: u32
  assumes "drop_bit j m = 0xff" "push_bit j 0xff = m"
  shows "drop_bit j (v AND m) = drop_bit j v AND 0xff" "v AND m = 0 \<longleftrightarrow> drop_bit j v AND 0xff = 0"
proof -
  show d: "drop_bit j (v AND m) = drop_bit j v AND 0xff" by (simp add: assms(1))
  have "v AND m = push_bit j (drop_bit j v AND 0xff)"
    unfolding assms(2) [symmetric]
    by (rule bit_eqI) (auto simp: bit_and_iff bit_push_bit_iff bit_drop_bit_eq)
  then show "v AND m = 0 \<longleftrightarrow> drop_bit j v AND 0xff = 0"
    using d by (metis drop_bit_of_0 push_bit_of_0)
qed

lemma byte_zero:
  assumes "drop_bit j value AND 0xff = (0 :: u32)" "\<And>i. i < j \<Longrightarrow> \<not> bit value i" "i < j + 8"
  shows "\<not> bit value i"
proof (cases "i < j")
  case False
  have ff: "(0xff :: u32) = mask 8" by (simp add: mask_eq_exp_minus_1)
  have "\<not> bit (drop_bit j value AND 0xff) (i - j)" using assms(1) by simp
  then show ?thesis using False assms(3) by (auto simp: ff bit_and_iff bit_drop_bit_eq bit_mask_iff)
qed (use assms(2) in simp)

lemma rt_ffs_table_spec:
  assumes nz: "value \<noteq> 0"
  shows "first_bit value (rt_ffs_table value - 1) \<and> 0 < rt_ffs_table value"
proof (cases "value AND 0xff = 0")
  note f8 = byte_field [of 8 "0xff00" "value"] and f16 = byte_field [of 16 "0xff0000" "value"]
    and f24 = byte_field [of 24 "0xff000000" "value"]
  case z0: True
  then have n0: "\<And>i. i < 8 \<Longrightarrow> \<not> bit value i" using byte_zero [of 0 "value"] by simp
  show ?thesis
  proof (cases "value AND 0xff00 = 0")
    case z1: True
    then have n1: "\<And>i. i < 16 \<Longrightarrow> \<not> bit value i" using byte_zero [of 8 "value"] n0 f8 by simp
    show ?thesis
    proof (cases "value AND 0xff0000 = 0")
      case z2: True
      then have n2: "\<And>i. i < 24 \<Longrightarrow> \<not> bit value i" using byte_zero [of 16 "value"] n1 f16 by simp
      have z3: "drop_bit 24 value AND 0xff \<noteq> 0"
      proof
        assume "drop_bit 24 value AND 0xff = 0"
        then have "\<not> bit value i" if "i < 32" for i using byte_zero [of 24 "value"] n2 that by simp
        then have "value = 0" by (intro bit_eqI) (auto dest: bit_imp_le_length)
        then show False using nz by simp
      qed
      show ?thesis using table_byte [OF z3 n2] nz z0 z1 z2 f24
        by (simp add: rt_ffs_table_def add.commute [of 24])
    next
      case False
      then show ?thesis using table_byte [of 16 "value"] n1 z0 z1 nz f16
        by (simp add: rt_ffs_table_def add.commute [of 16])
    qed
  next
    case False
    then show ?thesis using table_byte [of 8 "value"] n0 z0 nz f8
      by (simp add: rt_ffs_table_def add.commute [of 8])
  qed
next
  case z: False
  then show ?thesis using table_byte [of 0 "value"] nz by (simp add: rt_ffs_table_def)
qed

text \<open>C15. The table version of \<open>__rt_ffs\<close> computes the same function as the instruction version, so
  the configuration option \<open>RT_USING_CPU_FFS\<close> does not change what the scheduler does.\<close>

theorem rt_ffs_table_agrees: "rt_ffs_table value = rt_ffs value"
proof (cases "value = 0")
  case True
  then show ?thesis by (simp add: rt_ffs_table_def)
next
  case False
  have "first_bit value (rt_ffs value - 1) \<and> 0 < rt_ffs value"
    using rt_ffs_spec [OF False] by (simp add: first_bit_def)
  then show ?thesis using rt_ffs_table_spec [OF False] first_bit_unique by (metis Suc_diff_1)
qed

section \<open>Reset, and the theorems at concrete states\<close>

text \<open>\<open>rt_system_scheduler_init\<close> establishes the invariant on the zeroed memory of a reset.\<close>

lemma sched_inv_init: "sched_inv (rt_system_scheduler_init kstate0)"
  by (simp add: sched_inv_def links_ok_def ready_ok_def mask_ok_def group_ok_def ready_here_def stat_of_def
      rt_system_scheduler_init_def kstate0_def thread0_def split: lid.split)

text \<open>Two ready threads, 1 of priority 5 (running) and 2 of priority 3.\<close>

definition ready_thread :: "u8 \<Rightarrow> rt_thread" where
  "ready_thread p = thread0\<lparr>stat := RT_THREAD_READY, current_priority := p, init_priority := p,
     number_mask := push_bit (unat p) 1, t_link := Some (ReadyQ (unat p)), stack_guard := 35,
     stack_addr := 0x1000, stack_size := 0x400, sp := 0x1300\<rparr>"

definition two_ready :: kstate where
  "two_ready = kstate0\<lparr>threads := (\<lambda>_. thread0)(1 := ready_thread 5, 2 := ready_thread 3),
     lists := (\<lambda>_. [])(ReadyQ 5 := [1], ReadyQ 3 := [2]), ready_group := 0x28, cur_thread := Some 1\<rparr>"

lemma two_ready_sel:
  "threads two_ready = (\<lambda>_. thread0)(1 := ready_thread 5, 2 := ready_thread 3)"
  "lists two_ready = (\<lambda>_. [])(ReadyQ 5 := [1], ReadyQ 3 := [2])"
  "ready_group two_ready = 0x28" "cur_thread two_ready = Some 1" "lock_nest two_ready = 0"
  by (simp_all add: two_ready_def kstate0_def)

lemma bit_0x28: "bit (0x28 :: int) p \<longleftrightarrow> p = 3 \<or> p = 5"
proof -
  have "(0x28 :: int) = 2 ^ 3 OR 2 ^ 5" by simp
  then show ?thesis by (simp only: bit_or_iff bit_exp_iff) auto
qed

lemma two_ready_inv: "sched_inv two_ready"
  unfolding sched_inv_def
  by (auto simp: links_ok_def ready_ok_def mask_ok_def group_ok_def ready_here_def stat_of_def two_ready_sel bit_0x28
      ready_thread_def thread0_def split: if_splits)

lemma two_ready_stacks: "t \<in> set (lists two_ready (ReadyQ q)) \<Longrightarrow> stack_ok two_ready t"
  by (auto simp: stack_ok_def rt_scheduler_stack_check_def two_ready_sel ready_thread_def thread0_def
      split: if_splits)

lemma schedule_runs_highest_witness:
  "\<exists>q t s'. rt_schedule two_ready = Some s' \<and> cur_thread s' = Some t \<and> t = hd (lists two_ready (ReadyQ q)) \<and>
     stat_of two_ready t = RT_THREAD_READY \<and> unat (current_priority (threads two_ready t)) = q \<and>
     (\<forall>u. t_link (threads two_ready u) = Some (ReadyQ (unat (current_priority (threads two_ready u)))) \<longrightarrow>
          current_priority (threads two_ready t) \<le> current_priority (threads two_ready u)) \<and>
     s' = two_ready\<lparr>cur_prio := cur_prio s', cur_thread := Some t\<rparr>"
  by (rule schedule_runs_highest [OF two_ready_inv, where p = 5])
    (simp_all add: two_ready_sel two_ready_stacks)

definition overflowed :: kstate where
  "overflowed = two_ready\<lparr>threads := (threads two_ready)(2 := (ready_thread 3)\<lparr>stack_guard := 0\<rparr>)\<rparr>"

lemma ffs_0x28: "rt_ffs 0x28 = 4"
proof -
  have "first_bit 0x28 (rt_ffs 0x28 - 1)" using rt_ffs_spec [of "0x28"] by (simp add: first_bit_def)
  moreover have "first_bit 0x28 3" by (auto simp: first_bit_def bit_0x28)
  ultimately have "rt_ffs 0x28 - 1 = 3" by (rule first_bit_unique)
  then show ?thesis by simp
qed

lemma schedule_stops_on_overflow_witness: "rt_schedule overflowed = None"
proof (rule schedule_stops_on_overflow [where q = 3 and t = 2])
  show "sched_inv overflowed"
    unfolding sched_inv_def
    by (auto simp: links_ok_def ready_ok_def mask_ok_def group_ok_def ready_here_def stat_of_def two_ready_sel bit_0x28
        overflowed_def ready_thread_def thread0_def split: if_splits)
  show "highest_ready overflowed = Some (3, 2)"
    by (simp add: highest_ready_def overflowed_def two_ready_sel ffs_0x28 Let_def)
qed (simp_all add: overflowed_def two_ready_sel)

lemma critical_section_defers_witness:
  "rt_exit_critical (rt_enter_critical kstate0) = Some kstate0"
  using critical_section_defers [of kstate0] by (simp add: kstate0_def)

end
