(* ===== verification/KString.thy ===== *)
theory KString
  imports Prelude
begin

text \<open>
  The memory and string routines of \<open>src/src/kservice.c\<close>.  The block routines work on a byte
  addressed memory, word by word where the code does; the string routines only read, so a string
  is the list of bytes from its address to the end of the object that holds it, and a read past
  that end is \<open>None\<close>.  \<open>char\<close> is unsigned, as in the ARM procedure call standard.
\<close>

section \<open>Blocks of memory\<close>

type_synonym memory = "nat \<Rightarrow> u8 option"

text \<open>A store outside the allocated bytes is undefined.\<close>

definition store8 :: "nat \<Rightarrow> u8 \<Rightarrow> memory \<Rightarrow> memory option" where
  "store8 a v m = (if m a = None then None else Some (m(a \<mapsto> v)))"

definition store32 :: "nat \<Rightarrow> u32 \<Rightarrow> memory \<Rightarrow> memory option" where
  "store32 a v m = do {
     m \<leftarrow> store8 a (ucast v) m;
     m \<leftarrow> store8 (a + 1) (ucast (drop_bit 8 v)) m;
     m \<leftarrow> store8 (a + 2) (ucast (drop_bit 16 v)) m;
     store8 (a + 3) (ucast (drop_bit 24 v)) m
   }"

text \<open>A word copy of \<open>rt_memcpy\<close> loads four bytes before it stores them.\<close>

definition copy32 :: "nat \<Rightarrow> nat \<Rightarrow> memory \<Rightarrow> memory option" where
  "copy32 d s m = do {
     b0 \<leftarrow> m s; b1 \<leftarrow> m (s + 1); b2 \<leftarrow> m (s + 2); b3 \<leftarrow> m (s + 3);
     m \<leftarrow> store8 d b0 m; m \<leftarrow> store8 (d + 1) b1 m; m \<leftarrow> store8 (d + 2) b2 m; store8 (d + 3) b3 m
   }"

definition copy8 :: "nat \<Rightarrow> nat \<Rightarrow> memory \<Rightarrow> memory option" where
  "copy8 d s m = do { b \<leftarrow> m s; store8 d b m }"

fun memset_bytes :: "nat \<Rightarrow> u8 \<Rightarrow> nat \<Rightarrow> memory \<Rightarrow> memory option" where
  "memset_bytes p d 0 m = Some m"
| "memset_bytes p d (Suc count) m = do { m \<leftarrow> store8 p d m; memset_bytes (p + 1) d count m }"

text \<open>The two word loops, unrolled by four and single; they leave the address and the count.\<close>

function memset_words4 :: "nat \<Rightarrow> u32 \<Rightarrow> nat \<Rightarrow> memory \<Rightarrow> (nat \<times> nat \<times> memory) option" where
  "memset_words4 p buffer count m =
     (if count \<ge> 16 then do {
        m \<leftarrow> store32 p buffer m; m \<leftarrow> store32 (p + 4) buffer m;
        m \<leftarrow> store32 (p + 8) buffer m; m \<leftarrow> store32 (p + 12) buffer m;
        memset_words4 (p + 16) buffer (count - 16) m
      } else Some (p, count, m))"
  by auto
termination by (relation "measure (\<lambda>(p, b, count, m). count)") auto

function memset_words :: "nat \<Rightarrow> u32 \<Rightarrow> nat \<Rightarrow> memory \<Rightarrow> (nat \<times> nat \<times> memory) option" where
  "memset_words p buffer count m =
     (if count \<ge> 4 then do { m \<leftarrow> store32 p buffer m; memset_words (p + 4) buffer (count - 4) m }
      else Some (p, count, m))"
  by auto
termination by (relation "measure (\<lambda>(p, b, count, m). count)") auto

definition rt_memset :: "nat \<Rightarrow> u32 \<Rightarrow> nat \<Rightarrow> memory \<Rightarrow> memory option" where
  "rt_memset s c count m =
     (let d = c AND 0xff in
      if \<not> count < 4 \<and> s mod 4 = 0 then do {
        let buffer = push_bit 8 d OR d;
        let buffer = buffer OR push_bit 16 buffer;
        (p, count, m) \<leftarrow> memset_words4 s buffer count m;
        (p, count, m) \<leftarrow> memset_words p buffer count m;
        memset_bytes p (ucast d) count m
      } else memset_bytes s (ucast d) count m)"

fun memcpy_bytes :: "nat \<Rightarrow> nat \<Rightarrow> nat \<Rightarrow> memory \<Rightarrow> memory option" where
  "memcpy_bytes d s 0 m = Some m"
| "memcpy_bytes d s (Suc len) m = do { m \<leftarrow> copy8 d s m; memcpy_bytes (d + 1) (s + 1) len m }"

function memcpy_words4 ::
  "nat \<Rightarrow> nat \<Rightarrow> nat \<Rightarrow> memory \<Rightarrow> (nat \<times> nat \<times> nat \<times> memory) option" where
  "memcpy_words4 d s len m =
     (if len \<ge> 16 then do {
        m \<leftarrow> copy32 d s m; m \<leftarrow> copy32 (d + 4) (s + 4) m;
        m \<leftarrow> copy32 (d + 8) (s + 8) m; m \<leftarrow> copy32 (d + 12) (s + 12) m;
        memcpy_words4 (d + 16) (s + 16) (len - 16) m
      } else Some (d, s, len, m))"
  by auto
termination by (relation "measure (\<lambda>(d, s, len, m). len)") auto

function memcpy_words ::
  "nat \<Rightarrow> nat \<Rightarrow> nat \<Rightarrow> memory \<Rightarrow> (nat \<times> nat \<times> nat \<times> memory) option" where
  "memcpy_words d s len m =
     (if len \<ge> 4 then do { m \<leftarrow> copy32 d s m; memcpy_words (d + 4) (s + 4) (len - 4) m }
      else Some (d, s, len, m))"
  by auto
termination by (relation "measure (\<lambda>(d, s, len, m). len)") auto

definition rt_memcpy :: "nat \<Rightarrow> nat \<Rightarrow> nat \<Rightarrow> memory \<Rightarrow> memory option" where
  "rt_memcpy dst src count m =
     (if \<not> count < 16 \<and> src mod 4 = 0 \<and> dst mod 4 = 0 then do {
        (d, s, len, m) \<leftarrow> memcpy_words4 dst src count m;
        (d, s, len, m) \<leftarrow> memcpy_words d s len m;
        memcpy_bytes d s len m
      } else memcpy_bytes dst src count m)"

text \<open>The backward loop of \<open>rt_memmove\<close> copies the byte below both pointers each time.\<close>

fun memmove_down :: "nat \<Rightarrow> nat \<Rightarrow> nat \<Rightarrow> memory \<Rightarrow> memory option" where
  "memmove_down d s 0 m = Some m"
| "memmove_down d s (Suc n) m = do { m \<leftarrow> copy8 (d + n) (s + n) m; memmove_down d s n m }"

definition rt_memmove :: "nat \<Rightarrow> nat \<Rightarrow> nat \<Rightarrow> memory \<Rightarrow> memory option" where
  "rt_memmove dest src n m =
     (if src < dest \<and> dest < src + n then memmove_down dest src n m else memcpy_bytes dest src n m)"

fun rt_memcmp :: "u8 list \<Rightarrow> u8 list \<Rightarrow> nat \<Rightarrow> int option" where
  "rt_memcmp cs ct 0 = Some 0"
| "rt_memcmp (c # cs) (d # ct) (Suc count) =
     (let res = uint c - uint d in if res \<noteq> 0 then Some res else rt_memcmp cs ct count)"
| "rt_memcmp _ _ (Suc count) = None"

section \<open>Strings\<close>

fun rt_strlen :: "u8 list \<Rightarrow> nat option" where
  "rt_strlen [] = None"
| "rt_strlen (c # s) = (if c = 0 then Some 0 else map_option Suc (rt_strlen s))"

text \<open>\<open>rt_strnlen\<close> reads the byte before it compares the index with the bound.\<close>

fun rt_strnlen :: "u8 list \<Rightarrow> nat \<Rightarrow> nat option" where
  "rt_strnlen [] maxlen = None"
| "rt_strnlen (c # s) maxlen =
     (if c \<noteq> 0 then (case maxlen of 0 \<Rightarrow> Some 0 | Suc n \<Rightarrow> map_option Suc (rt_strnlen s n)) else Some 0)"

text \<open>The bytes written by \<open>rt_strncpy\<close>: all \<open>n\<close> of them.\<close>

fun rt_strncpy :: "u8 list \<Rightarrow> nat \<Rightarrow> u8 list option" where
  "rt_strncpy s 0 = Some []"
| "rt_strncpy [] (Suc n) = None"
| "rt_strncpy (c # s) (Suc n) =
     (if c = 0 then Some (0 # replicate n 0) else map_option ((#) c) (rt_strncpy s n))"

text \<open>The result of \<open>rt_strncmp\<close> passes through a \<open>signed char\<close>.\<close>

fun rt_strncmp :: "u8 list \<Rightarrow> u8 list \<Rightarrow> nat \<Rightarrow> int option" where
  "rt_strncmp cs ct 0 = Some 0"
| "rt_strncmp (c # cs) (d # ct) (Suc count) =
     (let res = sint (c - d) in
      if res \<noteq> 0 \<or> c = 0 then Some res
      else if count = 0 then Some res else rt_strncmp cs ct count)"
| "rt_strncmp _ _ (Suc count) = None"

fun rt_strcmp :: "u8 list \<Rightarrow> u8 list \<Rightarrow> int option" where
  "rt_strcmp (c # cs) (d # ct) =
     (if c \<noteq> 0 \<and> c = d then rt_strcmp cs ct else Some (uint c - uint d))"
| "rt_strcmp _ _ = None"

definition to_lower :: "int \<Rightarrow> int" where
  "to_lower c = (if 65 \<le> c \<and> c \<le> 90 then c + (97 - 65) else c)"

fun rt_strcasecmp :: "u8 list \<Rightarrow> u8 list \<Rightarrow> int option" where
  "rt_strcasecmp (c # a) (d # b) =
     (let ca = to_lower (uint c); cb = to_lower (uint d) in
      if ca = cb \<and> ca \<noteq> 0 then rt_strcasecmp a b else Some (ca - cb))"
| "rt_strcasecmp _ _ = None"

text \<open>\<open>rt_strstr\<close> returns the offset of the first occurrence, \<open>None\<close> inside for a null pointer.\<close>

fun strstr_loop :: "u8 list \<Rightarrow> nat \<Rightarrow> u8 list \<Rightarrow> nat \<Rightarrow> nat \<Rightarrow> nat option option" where
  "strstr_loop s1 l1 s2 l2 off =
     (if l2 \<le> l1 then
        (case rt_memcmp s1 s2 l2 of
           None \<Rightarrow> None
         | Some r \<Rightarrow> if r = 0 then Some (Some off)
                    else (case (s1, l1) of (_ # s, Suc l) \<Rightarrow> strstr_loop s l s2 l2 (off + 1)
                                         | _ \<Rightarrow> None))
      else Some None)"

definition rt_strstr :: "u8 list \<Rightarrow> u8 list \<Rightarrow> nat option option" where
  "rt_strstr s1 s2 = do {
     l2 \<leftarrow> rt_strlen s2;
     if l2 = 0 then Some (Some 0) else do {
       l1 \<leftarrow> rt_strlen s1;
       strstr_loop s1 l1 s2 l2 0
     }
   }"

declare memset_words4.simps [simp del] memset_words.simps [simp del]
  memcpy_words4.simps [simp del] memcpy_words.simps [simp del] strstr_loop.simps [simp del]

section \<open>The block routines compute their byte-wise specification\<close>

definition alloc :: "nat \<Rightarrow> nat \<Rightarrow> memory \<Rightarrow> bool" where
  "alloc p n m \<longleftrightarrow> (\<forall>a. p \<le> a \<and> a < p + n \<longrightarrow> m a \<noteq> None)"

definition fill :: "nat \<Rightarrow> u8 \<Rightarrow> nat \<Rightarrow> memory \<Rightarrow> memory" where
  "fill p d n m = (\<lambda>a. if p \<le> a \<and> a < p + n then Some d else m a)"

text \<open>\<open>blit d s n m\<close>: the \<open>n\<close> bytes from \<open>s\<close> on, as they are in \<open>m\<close>, placed at \<open>d\<close>.\<close>

definition blit :: "nat \<Rightarrow> nat \<Rightarrow> nat \<Rightarrow> memory \<Rightarrow> memory" where
  "blit d s n m = (\<lambda>a. if d \<le> a \<and> a < d + n then m (s + (a - d)) else m a)"

lemma alloc_sub: "alloc p n m \<Longrightarrow> p \<le> q \<Longrightarrow> q + k \<le> p + n \<Longrightarrow> alloc q k m"
  unfolding alloc_def by (meson le_trans order_less_le_trans)

lemma alloc_fill: "alloc p n m \<Longrightarrow> alloc p n (fill q d k m)"
  by (auto simp: alloc_def fill_def)

lemma fill_add: "fill (p + k) d n (fill p d k m) = fill p d (k + n) m"
  by (auto simp: fill_def fun_eq_iff)

lemma fill_0 [simp]: "fill p d 0 m = m"
  by (auto simp: fill_def fun_eq_iff)

lemma store8_fill: "alloc p 1 m \<Longrightarrow> store8 p d m = Some (fill p d 1 m)"
proof -
  assume "alloc p 1 m"
  then have "m p \<noteq> None" by (simp add: alloc_def)
  moreover have "m(p \<mapsto> d) = fill p d 1 m" by (auto simp: fill_def fun_eq_iff)
  ultimately show ?thesis by (simp add: store8_def)
qed

lemma memset_bytes_fill: "alloc p n m \<Longrightarrow> memset_bytes p d n m = Some (fill p d n m)"
proof (induction n arbitrary: p m)
  case 0
  then show ?case by simp
next
  case (Suc n)
  have "alloc p 1 m" "alloc (p + 1) n (fill p d 1 m)"
    using Suc.prems by (auto intro: alloc_fill alloc_sub)
  then show ?case using Suc.IH [of "p + 1" "fill p d 1 m"] fill_add [of p 1 d n m]
    by (simp add: store8_fill)
qed

definition byte4 :: "u8 \<Rightarrow> u32" where
  "byte4 d = (let b = push_bit 8 (ucast d) OR ucast d in b OR push_bit 16 b)"

lemma byte4_bytes:
  "ucast (byte4 d) = d" "ucast (drop_bit 8 (byte4 d)) = d"
  "ucast (drop_bit 16 (byte4 d)) = d" "ucast (drop_bit 24 (byte4 d)) = d"
  unfolding byte4_def Let_def
  by (rule bit_word_eqI; auto simp: bit_simps dest: bit_imp_le_length)+

lemma store32_fill:
  assumes "alloc p 4 m"
  shows "store32 p (byte4 d) m = Some (fill p d 4 m)"
proof -
  have a: "alloc p 1 m" "alloc (p + 1) 1 (fill p d 1 m)" "alloc (p + 2) 1 (fill p d 2 m)"
      "alloc (p + 3) 1 (fill p d 3 m)"
    using assms by (auto intro: alloc_fill alloc_sub)
  have f: "fill (p + 1) d 1 (fill p d 1 m) = fill p d 2 m" "fill (p + 2) d 1 (fill p d 2 m) = fill p d 3 m"
      "fill (p + 3) d 1 (fill p d 3 m) = fill p d 4 m"
    using fill_add [of p 1 d 1 m] fill_add [of p 2 d 1 m] fill_add [of p 3 d 1 m]
    by (simp_all del: One_nat_def)
  show ?thesis
    by (simp add: store32_def byte4_bytes store8_fill [OF a(1)] store8_fill [OF a(2)]
        store8_fill [OF a(3)] store8_fill [OF a(4)] f
        del: One_nat_def add_2_eq_Suc add_2_eq_Suc')
qed

lemma memset_words_fill:
  "alloc p n m \<Longrightarrow> \<exists>k \<le> n. memset_words p (byte4 d) n m = Some (p + k, n - k, fill p d k m)"
proof (induction n arbitrary: p m rule: less_induct)
  case (less n)
  show ?case
  proof (cases "4 \<le> n")
    case True
    have "alloc p 4 m" "alloc (p + 4) (n - 4) (fill p d 4 m)"
      using less.prems True by (auto intro: alloc_fill alloc_sub)
    moreover obtain k where "k \<le> n - 4" "memset_words (p + 4) (byte4 d) (n - 4) (fill p d 4 m)
        = Some (p + 4 + k, n - 4 - k, fill (p + 4) d k (fill p d 4 m))"
      using less.IH [of "n - 4" "p + 4" "fill p d 4 m"] calculation(2) True by auto
    ultimately show ?thesis using True
      by (intro exI [of _ "4 + k"]) (simp add: memset_words.simps [of p] store32_fill fill_add)
  next
    case False
    then show ?thesis by (intro exI [of _ 0]) (simp add: memset_words.simps [of p])
  qed
qed

lemma memset_words4_fill:
  "alloc p n m \<Longrightarrow> \<exists>k \<le> n. memset_words4 p (byte4 d) n m = Some (p + k, n - k, fill p d k m)"
proof (induction n arbitrary: p m rule: less_induct)
  case (less n)
  show ?case
  proof (cases "16 \<le> n")
    case True
    have a: "alloc p 4 m" "alloc (p + 4) 4 (fill p d 4 m)" "alloc (p + 8) 4 (fill p d 8 m)"
        "alloc (p + 12) 4 (fill p d 12 m)" "alloc (p + 16) (n - 16) (fill p d 16 m)"
      using less.prems True by (auto intro: alloc_fill alloc_sub)
    have f: "fill (p + 4) d 4 (fill p d 4 m) = fill p d 8 m" "fill (p + 8) d 4 (fill p d 8 m) = fill p d 12 m"
        "fill (p + 12) d 4 (fill p d 12 m) = fill p d 16 m"
      using fill_add [of p 4 d 4 m] fill_add [of p 8 d 4 m] fill_add [of p 12 d 4 m] by simp_all
    obtain k where k: "k \<le> n - 16" "memset_words4 (p + 16) (byte4 d) (n - 16) (fill p d 16 m)
        = Some (p + 16 + k, n - 16 - k, fill (p + 16) d k (fill p d 16 m))"
      using less.IH [of "n - 16" "p + 16" "fill p d 16 m"] a(5) True by auto
    show ?thesis using True k
      by (intro exI [of _ "16 + k"])
        (simp add: memset_words4.simps [of p] store32_fill [OF a(1)] store32_fill [OF a(2)]
          store32_fill [OF a(3)] store32_fill [OF a(4)] f fill_add)
  next
    case False
    then show ?thesis by (intro exI [of _ 0]) (simp add: memset_words4.simps [of p])
  qed
qed

text \<open>\<open>rt_memset\<close> sets exactly the \<open>count\<close> bytes from \<open>s\<close> on to the low byte of \<open>c\<close>, whichever of
  its loops runs.\<close>

theorem memset_fills:
  assumes "alloc s count m"
  shows "rt_memset s c count m = Some (fill s (ucast c) count m)"
proof -
  have ff: "(0xff :: u32) = mask 8" by (simp add: mask_eq_exp_minus_1)
  have d: "ucast (c AND 0xff) = (ucast c :: u8)"
    unfolding ff by (rule bit_word_eqI) (auto simp: bit_simps)
  have c: "c AND 0xff = ucast (ucast c :: u8)"
    unfolding ff by (rule bit_word_eqI) (auto simp: bit_simps)
  let ?d = "ucast c :: u8"
  show ?thesis
  proof (cases "\<not> count < 4 \<and> s mod 4 = 0")
    case True
    obtain k where k: "k \<le> count" "memset_words4 s (byte4 ?d) count m = Some (s + k, count - k, fill s ?d k m)"
      using memset_words4_fill [OF assms] by blast
    have "alloc (s + k) (count - k) (fill s ?d k m)"
      using assms k(1) by (auto intro: alloc_fill alloc_sub)
    then obtain j where j: "j \<le> count - k" "memset_words (s + k) (byte4 ?d) (count - k) (fill s ?d k m)
        = Some (s + k + j, count - k - j, fill (s + k) ?d j (fill s ?d k m))"
      using memset_words_fill by blast
    have "alloc (s + (k + j)) (count - (k + j)) (fill s ?d (k + j) m)"
      using assms k(1) j(1) by (auto intro: alloc_fill alloc_sub)
    from memset_bytes_fill [OF this, of ?d] have
      "memset_bytes (s + k + j) ?d (count - k - j) (fill (s + k) ?d j (fill s ?d k m)) =
       Some (fill s ?d count m)"
      using k(1) j(1) by (simp add: fill_add add.assoc)
    moreover have "byte4 ?d = (let b = push_bit 8 (c AND 0xff) OR (c AND 0xff) in b OR push_bit 16 b)"
      by (simp add: byte4_def c)
    ultimately show ?thesis using True k(2) j(2) d
      by (simp add: rt_memset_def Let_def)
  next
    case False
    then show ?thesis using memset_bytes_fill [OF assms] d by (auto simp: rt_memset_def Let_def)
  qed
qed

lemma blit_0 [simp]: "blit d s 0 m = m"
  by (auto simp: blit_def fun_eq_iff)

lemma alloc_blit:
  assumes "alloc p n m" "alloc s k m"
  shows "alloc p n (blit d s k m)"
  unfolding alloc_def
proof (intro allI impI)
  fix a assume a: "p \<le> a \<and> a < p + n"
  have "m (s + (a - d)) \<noteq> None" if "d \<le> a \<and> a < d + k"
    using assms(2) that unfolding alloc_def by (metis add_less_cancel_left le_add1 less_diff_conv2 add.commute)
  then show "blit d s k m a \<noteq> None" using assms(1) a by (simp add: alloc_def blit_def)
qed

lemma copy8_blit: "alloc d 1 m \<Longrightarrow> alloc s 1 m \<Longrightarrow> copy8 d s m = Some (blit d s 1 m)"
  by (auto simp: copy8_def store8_def alloc_def blit_def fun_eq_iff)

text \<open>Copying upwards is right as long as the destination does not start inside the source.\<close>

lemma blit_up:
  "d \<le> s \<or> s + (k + n) \<le> d \<Longrightarrow> blit (d + k) (s + k) n (blit d s k m) = blit d s (k + n) m"
  by (rule ext) (auto simp: blit_def)

lemma blit_down:
  "s \<le> d \<Longrightarrow> blit d s n (blit (d + n) (s + n) k m) = blit d s (n + k) m"
  by (rule ext) (auto simp: blit_def)

lemma memcpy_bytes_blit:
  "alloc d n m \<Longrightarrow> alloc s n m \<Longrightarrow> d \<le> s \<or> s + n \<le> d \<Longrightarrow> memcpy_bytes d s n m = Some (blit d s n m)"
proof (induction n arbitrary: d s m)
  case (Suc n)
  have a: "alloc d 1 m" "alloc s 1 m" using Suc.prems by (auto intro: alloc_sub)
  have "alloc (d + 1) n (blit d s 1 m)" "alloc (s + 1) n (blit d s 1 m)"
    using Suc.prems a by (auto intro!: alloc_blit intro: alloc_sub)
  moreover have "d + 1 \<le> s + 1 \<or> s + 1 + n \<le> d + 1" using Suc.prems(3) by auto
  moreover have "blit (d + 1) (s + 1) n (blit d s 1 m) = blit d s (Suc n) m"
    using Suc.prems(3) blit_up [of d s 1 n m] by simp
  ultimately show ?case using Suc.IH [of "d + 1" "blit d s 1 m" "s + 1"]
    by (simp add: copy8_blit [OF a])
qed simp

lemma memmove_down_blit:
  "alloc d n m \<Longrightarrow> alloc s n m \<Longrightarrow> s \<le> d \<Longrightarrow> memmove_down d s n m = Some (blit d s n m)"
proof (induction n arbitrary: m)
  case (Suc n)
  have a: "alloc (d + n) 1 m" "alloc (s + n) 1 m" using Suc.prems by (auto intro: alloc_sub)
  have "alloc d n (blit (d + n) (s + n) 1 m)" "alloc s n (blit (d + n) (s + n) 1 m)"
    using Suc.prems a by (auto intro!: alloc_blit intro: alloc_sub)
  then show ?case using Suc.IH [of "blit (d + n) (s + n) 1 m"] Suc.prems(3) blit_down [of s d n 1 m]
    by (simp add: copy8_blit [OF a])
qed simp

text \<open>\<open>rt_memmove\<close> is right for every overlap: afterwards the destination holds the bytes the
  source held before, and nothing else has changed.\<close>

theorem memmove_moves:
  assumes "alloc dest n m" "alloc src n m"
  shows "rt_memmove dest src n m = Some (blit dest src n m)"
  using assms memmove_down_blit [of dest n m src] memcpy_bytes_blit [of dest n m src]
  by (auto simp: rt_memmove_def)

lemma copy32_blit:
  assumes "alloc d 4 m" "alloc s 4 m"
  shows "copy32 d s m = Some (blit d s 4 m)"
proof -
  have "m s \<noteq> None" "m (s + 1) \<noteq> None" "m (s + 2) \<noteq> None" "m (s + 3) \<noteq> None"
    using assms(2) by (simp_all add: alloc_def)
  then obtain b0 b1 b2 b3 where b: "m s = Some b0" "m (s + 1) = Some b1" "m (s + 2) = Some b2"
      "m (s + 3) = Some b3" by blast
  have a: "m d \<noteq> None" "m (d + 1) \<noteq> None" "m (d + 2) \<noteq> None" "m (d + 3) \<noteq> None"
    using assms(1) by (simp_all add: alloc_def)
  have "m(d \<mapsto> b0, d + 1 \<mapsto> b1, d + 2 \<mapsto> b2, d + 3 \<mapsto> b3) = blit d s 4 m"
  proof
    fix x
    have "x < d \<or> x = d \<or> x = d + 1 \<or> x = d + 2 \<or> x = d + 3 \<or> d + 4 \<le> x" by arith
    then show "(m(d \<mapsto> b0, d + 1 \<mapsto> b1, d + 2 \<mapsto> b2, d + 3 \<mapsto> b3)) x = blit d s 4 m x"
      using b by (elim disjE) (auto simp: blit_def)
  qed
  then show ?thesis using a b by (simp add: copy32_def store8_def)
qed

lemma memcpy_words_blit:
  "alloc d n m \<Longrightarrow> alloc s n m \<Longrightarrow> d \<le> s \<or> s + n \<le> d \<Longrightarrow>
   \<exists>k \<le> n. memcpy_words d s n m = Some (d + k, s + k, n - k, blit d s k m)"
proof (induction n arbitrary: d s m rule: less_induct)
  case (less n)
  show ?case
  proof (cases "4 \<le> n")
    case True
    have a: "alloc d 4 m" "alloc s 4 m" using less.prems True by (auto intro: alloc_sub)
    have b: "alloc (d + 4) (n - 4) (blit d s 4 m)" "alloc (s + 4) (n - 4) (blit d s 4 m)"
      using less.prems True a by (auto intro!: alloc_blit intro: alloc_sub)
    obtain k where k: "k \<le> n - 4" "memcpy_words (d + 4) (s + 4) (n - 4) (blit d s 4 m)
        = Some (d + 4 + k, s + 4 + k, n - 4 - k, blit (d + 4) (s + 4) k (blit d s 4 m))"
      using less.IH [OF _ b] less.prems(3) True by fastforce
    have "blit (d + 4) (s + 4) k (blit d s 4 m) = blit d s (4 + k) m"
      using less.prems(3) k(1) True by (intro blit_up) auto
    then show ?thesis using True k
      by (intro exI [of _ "4 + k"]) (simp add: memcpy_words.simps [of d] copy32_blit [OF a])
  next
    case False
    then show ?thesis by (intro exI [of _ 0]) (simp add: memcpy_words.simps [of d])
  qed
qed

lemma memcpy_words4_blit:
  "alloc d n m \<Longrightarrow> alloc s n m \<Longrightarrow> d \<le> s \<or> s + n \<le> d \<Longrightarrow>
   \<exists>k \<le> n. memcpy_words4 d s n m = Some (d + k, s + k, n - k, blit d s k m)"
proof (induction n arbitrary: d s m rule: less_induct)
  case (less n)
  show ?case
  proof (cases "16 \<le> n")
    case True
    have up: "blit (d + j) (s + j) i (blit d s j m) = blit d s (j + i) m" if "j + i \<le> n" for i j
      using less.prems(3) that by (intro blit_up) auto
    have al: "alloc (d + j) i (blit d s j m)" "alloc (s + j) i (blit d s j m)" if "j + i \<le> n" for i j
    proof -
      have "alloc s j m" using less.prems(2) that by (auto intro: alloc_sub)
      then show "alloc (d + j) i (blit d s j m)" "alloc (s + j) i (blit d s j m)"
        using less.prems(1,2) that by (auto intro!: alloc_blit intro: alloc_sub)
    qed
    have c: "copy32 (d + j) (s + j) (blit d s j m) = Some (blit d s (j + 4) m)" if "j + 4 \<le> n" for j
      using copy32_blit [OF al [OF that]] up [OF that] by simp
    have b: "alloc (d + 16) (n - 16) (blit d s 16 m)" "alloc (s + 16) (n - 16) (blit d s 16 m)"
      using al True by simp_all
    obtain k where k: "k \<le> n - 16" "memcpy_words4 (d + 16) (s + 16) (n - 16) (blit d s 16 m)
        = Some (d + 16 + k, s + 16 + k, n - 16 - k, blit (d + 16) (s + 16) k (blit d s 16 m))"
      using less.IH [OF _ b] less.prems(3) True by fastforce
    have "blit (d + 16) (s + 16) k (blit d s 16 m) = blit d s (16 + k) m" using up k(1) True by simp
    then show ?thesis using True k c [of 0] c [of 4] c [of 8] c [of 12]
      by (intro exI [of _ "16 + k"]) (simp add: memcpy_words4.simps [of d])
  next
    case False
    then show ?thesis by (intro exI [of _ 0]) (simp add: memcpy_words4.simps [of d])
  qed
qed

text \<open>\<open>rt_memcpy\<close> copies the bytes for regions that do not overlap, on its word-wise path too.\<close>

theorem memcpy_copies:
  assumes al: "alloc dst n m" "alloc src n m" and disj: "dst + n \<le> src \<or> src + n \<le> dst"
  shows "rt_memcpy dst src n m = Some (blit dst src n m)"
proof (cases "\<not> n < 16 \<and> src mod 4 = 0 \<and> dst mod 4 = 0")
  case True
  have up: "dst \<le> src \<or> src + n \<le> dst" using disj by auto
  have al': "alloc (dst + j) (n - j) (blit dst src j m)" "alloc (src + j) (n - j) (blit dst src j m)"
    if "j \<le> n" for j
  proof -
    have "alloc src j m" using al(2) that by (auto intro: alloc_sub)
    then show "alloc (dst + j) (n - j) (blit dst src j m)" "alloc (src + j) (n - j) (blit dst src j m)"
      using al that by (auto intro!: alloc_blit intro: alloc_sub)
  qed
  have step: "blit (dst + j) (src + j) i (blit dst src j m) = blit dst src (j + i) m" if "j + i \<le> n" for i j
    using up that by (intro blit_up) auto
  have up': "dst + j \<le> src + j \<or> src + j + (n - j) \<le> dst + j" if "j \<le> n" for j using up that by auto
  obtain k where k: "k \<le> n" "memcpy_words4 dst src n m = Some (dst + k, src + k, n - k, blit dst src k m)"
    using memcpy_words4_blit [OF al up] by blast
  obtain i where i: "i \<le> n - k" "memcpy_words (dst + k) (src + k) (n - k) (blit dst src k m) =
      Some (dst + k + i, src + k + i, n - k - i, blit (dst + k) (src + k) i (blit dst src k m))"
    using memcpy_words_blit [OF al' [OF k(1)] up' [OF k(1)]] by blast
  have ki: "k + i \<le> n" using i(1) k(1) by simp
  have "memcpy_bytes (dst + (k + i)) (src + (k + i)) (n - (k + i)) (blit dst src (k + i) m)
      = Some (blit dst src n m)"
    using memcpy_bytes_blit [OF al' [OF ki] up' [OF ki]] step [of "k + i" "n - (k + i)"] ki by simp
  then show ?thesis using True k(2) i(2) step [of k i] ki by (simp add: rt_memcpy_def add.assoc)
next
  case False
  then show ?thesis using memcpy_bytes_blit [OF al] disj by (auto simp: rt_memcpy_def)
qed

section \<open>Strings\<close>

text \<open>\<open>rt_strnlen\<close> is meant for strings that need not be terminated within the bound, but it
  reads one byte too many on them: on an object of exactly \<open>maxlen\<close> non-zero bytes it reads past
  the end.\<close>

theorem strnlen_overreads: "0 \<notin> set s \<Longrightarrow> rt_strnlen s (length s) = None"
  by (induction s) auto

lemma length_strncpy: "rt_strncpy s n = Some x \<Longrightarrow> length x = n"
  by (induction s n arbitrary: x rule: rt_strncpy.induct) (auto split: if_splits)

lemma sint8_diff_0: "sint (c - d :: u8) = 0 \<longleftrightarrow> c = d"
  by (metis eq_iff_diff_eq_0 signed_eq_0_iff)

text \<open>Comparing a name field that \<open>rt_strncpy\<close> filled with a string finds out whether the string
  would fill the field with the same bytes.\<close>

lemma strncmp_strncpy:
  "rt_strncpy a n = Some x \<Longrightarrow> rt_strncpy b n = Some y \<Longrightarrow> rt_strncmp x b n = Some 0 \<longleftrightarrow> x = y"
proof (induction a n arbitrary: b x y rule: rt_strncpy.induct)
  case (3 c s n)
  obtain d t where b: "b = d # t" using "3.prems"(2) by (cases b) auto
  show ?case
  proof (cases "c = 0")
    case True
    then show ?thesis using "3.prems" b sint8_diff_0 [of 0 d]
      by (auto simp: Let_def split: if_splits)
  next
    case False
    then obtain x' where x': "x = c # x'" "rt_strncpy s n = Some x'" using "3.prems"(1) by auto
    show ?thesis
    proof (cases "c = d")
      case True
      then obtain y' where "y = d # y'" "rt_strncpy t n = Some y'" using "3.prems"(2) b False by auto
      then show ?thesis using "3.IH" [OF False x'(2)] x' b True False
        by (cases n) (auto simp: Let_def)
    next
      case neq: False
      then show ?thesis using "3.prems"(2) x' b by (auto simp: Let_def sint8_diff_0 split: if_splits)
    qed
  qed
qed (auto split: if_splits)

subsection \<open>Substring search\<close>

lemma memcmp_0_iff:
  "n \<le> length cs \<Longrightarrow> n \<le> length ct \<Longrightarrow> \<exists>r. rt_memcmp cs ct n = Some r \<and> (r = 0 \<longleftrightarrow> take n cs = take n ct)"
proof (induction cs ct n rule: rt_memcmp.induct)
  case (2 c cs d ct count)
  then show ?case by (cases "c = d") (auto simp: Let_def word_uint_eq_iff)
qed auto

lemma strlen_nul: "0 \<notin> set s \<Longrightarrow> rt_strlen (s @ 0 # r) = Some (length s)"
  by (induction s) auto

lemma strstr_loop_first:
  assumes "length t \<le> length p"
  shows "strstr_loop (s @ 0 # r) (length s) p (length t) off =
      Some (if \<exists>k. k + length t \<le> length s \<and> take (length t) (drop k s) = take (length t) p
            then Some (off + (LEAST k. k + length t \<le> length s \<and> take (length t) (drop k s) = take (length t) p))
            else None)"
  using assms
proof (induction s arbitrary: off)
  case Nil
  then show ?case
    by (cases t) (auto simp: strstr_loop.simps [of "0 # r"] intro!: Least_equality [symmetric])
next
  case (Cons c s)
  let ?P = "\<lambda>xs k. k + length t \<le> length xs \<and> take (length t) (drop k xs) = take (length t) p"
  show ?case
  proof (cases "length t \<le> length (c # s)")
    case True
    then have tk: "take (length t) ((c # s) @ 0 # r) = take (length t) (c # s)"
      unfolding take_append by simp
    obtain v where v: "rt_memcmp ((c # s) @ 0 # r) p (length t) = Some v"
        "v = 0 \<longleftrightarrow> take (length t) (c # s) = take (length t) p"
      using memcmp_0_iff [of "length t" "(c # s) @ 0 # r" p] Cons.prems True tk by auto
    show ?thesis
    proof (cases "v = 0")
      case True
      then have "?P (c # s) 0" using v \<open>length t \<le> length (c # s)\<close> by simp
      then have "\<exists>k. ?P (c # s) k" "(LEAST k. ?P (c # s) k) = 0"
        by (blast, intro Least_equality) auto
      then show ?thesis using v True \<open>length t \<le> length (c # s)\<close>
        by (subst strstr_loop.simps) simp
    next
      case False
      then have n0: "\<not> ?P (c # s) 0" using v by simp
      have ex: "(\<exists>k. ?P (c # s) k) \<longleftrightarrow> (\<exists>k. ?P s k)"
      proof
        assume "\<exists>k. ?P (c # s) k"
        then obtain k where "?P (c # s) k" by blast
        then show "\<exists>k. ?P s k" using n0 by (cases k) auto
      next
        assume "\<exists>k. ?P s k"
        then obtain k where "?P s k" by blast
        then have "?P (c # s) (Suc k)" by simp
        then show "\<exists>k. ?P (c # s) k" by blast
      qed
      have lst: "(LEAST k. ?P (c # s) k) = Suc (LEAST k. ?P s k)" if "?P s k" for k
        using Least_Suc [of "?P (c # s)" "Suc k"] n0 that by simp
      show ?thesis using False v \<open>length t \<le> length (c # s)\<close> Cons.IH [of "off + 1"] Cons.prems ex lst
        by (subst strstr_loop.simps) auto
    qed
  next
    case False
    then show ?thesis by (subst strstr_loop.simps) auto
  qed
qed

text \<open>\<open>rt_strstr\<close> terminates on two strings and returns the offset of the first occurrence of the
  second in the first, or null when there is none.\<close>

theorem strstr_finds_first:
  assumes "0 \<notin> set s" "0 \<notin> set t"
  shows "rt_strstr (s @ 0 # r) (t @ 0 # q) =
     Some (if \<exists>k. k + length t \<le> length s \<and> take (length t) (drop k s) = t
           then Some (LEAST k. k + length t \<le> length s \<and> take (length t) (drop k s) = t) else None)"
proof (cases "t = []")
  case True
  then have "(LEAST k. k + length t \<le> length s \<and> take (length t) (drop k s) = t) = 0"
    by (intro Least_equality) auto
  then show ?thesis using True by (auto simp: rt_strstr_def intro!: exI [of _ 0])
next
  case False
  then show ?thesis
    using strstr_loop_first [of t "t @ 0 # q" s r 0] assms by (simp add: rt_strstr_def strlen_nul)
qed

lemma strncmp_defined:
  "rt_strncpy a n = Some x \<Longrightarrow> rt_strncpy b n = Some y \<Longrightarrow> \<exists>r. rt_strncmp x b n = Some r"
proof (induction a n arbitrary: b x y rule: rt_strncpy.induct)
  case (3 c s n)
  obtain d t where b: "b = d # t" using "3.prems"(2) by (cases b) auto
  show ?case
  proof (cases "c = 0 \<or> c \<noteq> d \<or> n = 0")
    case True
    then show ?thesis using "3.prems" b sint8_diff_0 [of c 0] by (auto simp: Let_def sint8_diff_0 split: if_splits)
  next
    case False
    then obtain x' y' where "x = c # x'" "rt_strncpy s n = Some x'" "rt_strncpy t n = Some y'"
      using "3.prems" b by auto
    then show ?thesis using "3.IH" [of x' t y'] b False by (auto simp: Let_def)
  qed
qed (auto split: if_splits)

end
