(* ===== verification/Object.thy ===== *)
theory Object
  imports Sched KString
begin

text \<open>
  The kernel objects of \<open>src/src/object.c\<close>: every control block starts with a name, a class and
  flags, and is on the list of its class.  A statically allocated object has the bit
  \<open>RT_Object_Class_Static\<close> in its class and is detached; one from the heap is deleted.

  The heap is a parameter: the operations that allocate take the block that \<open>rt_malloc\<close> returned,
  a control block not in use, or no block.  Giving a block back has no effect on the kernel's
  own state.
\<close>

section \<open>Operations\<close>

abbreviation (input) RT_NAME_MAX :: nat where "RT_NAME_MAX \<equiv> 8"

definition rt_object_container :: "u8 list" where
  "rt_object_container =
     [RT_Object_Class_Thread, RT_Object_Class_Semaphore, RT_Object_Class_Mutex, RT_Object_Class_Event,
      RT_Object_Class_MailBox, RT_Object_Class_MessageQueue, RT_Object_Class_MemPool,
      RT_Object_Class_Device, RT_Object_Class_Timer]"

definition rt_object_get_information :: "u8 \<Rightarrow> u8 option" where
  "rt_object_get_information type = find (\<lambda>c. c = type) rt_object_container"

definition rt_object_get_length :: "u8 \<Rightarrow> kstate \<Rightarrow> nat" where
  "rt_object_get_length type s =
     (case rt_object_get_information type of None \<Rightarrow> 0 | Some c \<Rightarrow> length (obj_lists s c))"

text \<open>The pointers written, and their number; \<open>maxlen\<close> is a signed int.\<close>

definition rt_object_get_pointers :: "u8 \<Rightarrow> int \<Rightarrow> kstate \<Rightarrow> oid list" where
  "rt_object_get_pointers type maxlen s =
     (if maxlen \<le> 0 then []
      else case rt_object_get_information type of
             None \<Rightarrow> []
           | Some c \<Rightarrow> take (nat maxlen) (obj_lists s c))"

definition obj_link_front :: "u8 \<Rightarrow> oid \<Rightarrow> kstate \<Rightarrow> kstate" where
  "obj_link_front c x s = s\<lparr>obj_lists := (obj_lists s)(c := x # obj_lists s c)\<rparr>"

text \<open>An object is on at most one class list, so removing it from all of them is the removal
  from the one it is on.\<close>

definition obj_unlink :: "oid \<Rightarrow> kstate \<Rightarrow> kstate" where
  "obj_unlink x s = s\<lparr>obj_lists := (\<lambda>c. removeAll x (obj_lists s c))\<rparr>"

definition rt_object_init :: "oid \<Rightarrow> u8 \<Rightarrow> u8 list \<Rightarrow> kstate \<Rightarrow> kstate option" where
  "rt_object_init x type name s = do {
     rt_assert (rt_object_get_information type \<noteq> None);
     let s = rt_enter_critical s;
     rt_assert (x \<notin> set (obj_lists s type));
     s \<leftarrow> rt_exit_critical s;
     nm \<leftarrow> rt_strncpy name RT_NAME_MAX;
     let s = upd_obj x (\<lambda>ob. ob\<lparr>obj_type := type OR RT_Object_Class_Static, obj_name := nm\<rparr>) s;
     Some (obj_link_front type x s)
   }"

definition rt_object_detach :: "oid \<Rightarrow> kstate \<Rightarrow> kstate" where
  "rt_object_detach x s = obj_unlink x (upd_obj x (\<lambda>ob. ob\<lparr>obj_type := 0\<rparr>) s)"

text \<open>\<open>rt_memset\<close> over the whole control block.\<close>

definition zero_object :: "oid \<Rightarrow> kstate \<Rightarrow> kstate" where
  "zero_object x s =
     (case x of
        ThreadObj t \<Rightarrow> upd_thread t (\<lambda>_. thread0) s
      | TimerObj tm \<Rightarrow> upd_timer tm (\<lambda>_. \<lparr>timeout_func = User_timeout 0, tm_init_tick = 0,
                                          timeout_tick = 0, tm_link = None\<rparr>) s
      | SemObj i \<Rightarrow> s\<lparr>sems := (sems s)(i := \<lparr>sem_value = 0\<rparr>)\<rparr>
      | MutexObj i \<Rightarrow> s\<lparr>mutexes := (mutexes s)(i := \<lparr>mutex_value = 0, original_priority = 0,
                                                     hold = 0, owner = None\<rparr>)\<rparr>
      | EventObj i \<Rightarrow> s\<lparr>events := (events s)(i := \<lparr>ev_set = 0\<rparr>)\<rparr>
      | MbObj i \<Rightarrow> s\<lparr>mailboxes := (mailboxes s)(i := mailboxes kstate0 i)\<rparr>
      | MqObj i \<Rightarrow> s\<lparr>mqs := (mqs s)(i := mqs kstate0 i)\<rparr>
      | MpObj i \<Rightarrow> s\<lparr>mps := (mps s)(i := mps kstate0 i)\<rparr>
      | _ \<Rightarrow> s)"

definition rt_object_allocate ::
  "oid option \<Rightarrow> u8 \<Rightarrow> u8 list \<Rightarrow> kstate \<Rightarrow> (oid option \<times> kstate) option" where
  "rt_object_allocate blk type name s = do {
     rt_assert (interrupt_nest s = 0);
     rt_assert (rt_object_get_information type \<noteq> None);
     case blk of
       None \<Rightarrow> Some (None, s)
     | Some x \<Rightarrow> do {
         nm \<leftarrow> rt_strncpy name RT_NAME_MAX;
         let s = zero_object x s;
         let s = upd_obj x (\<lambda>ob. \<lparr>obj_name = nm, obj_type = type, obj_flag = 0\<rparr>) s;
         Some (Some x, obj_link_front type x s)
       }
   }"

definition rt_object_delete :: "oid \<Rightarrow> kstate \<Rightarrow> kstate option" where
  "rt_object_delete x s = do {
     rt_assert (obj_type (objs s x) AND RT_Object_Class_Static = 0);
     Some (obj_unlink x (upd_obj x (\<lambda>ob. ob\<lparr>obj_type := RT_Object_Class_Null\<rparr>) s))
   }"

definition rt_object_is_systemobject :: "oid \<Rightarrow> kstate \<Rightarrow> bool" where
  "rt_object_is_systemobject x s \<longleftrightarrow> obj_type (objs s x) AND RT_Object_Class_Static \<noteq> 0"

definition rt_object_get_type :: "oid \<Rightarrow> kstate \<Rightarrow> u8" where
  "rt_object_get_type x s = obj_type (objs s x) AND NOT RT_Object_Class_Static"

text \<open>The search loop of \<open>rt_object_find\<close> over a class list.\<close>

fun find_name :: "(oid \<Rightarrow> rt_object) \<Rightarrow> u8 list \<Rightarrow> oid list \<Rightarrow> oid option option" where
  "find_name ob name [] = Some None"
| "find_name ob name (x # xs) = do {
     r \<leftarrow> rt_strncmp (obj_name (ob x)) name RT_NAME_MAX;
     if r = 0 then Some (Some x) else find_name ob name xs
   }"

definition rt_object_find :: "u8 list \<Rightarrow> u8 \<Rightarrow> kstate \<Rightarrow> (oid option \<times> kstate) option" where
  "rt_object_find name type s =
     (case rt_object_get_information type of
        None \<Rightarrow> Some (None, s)
      | Some c \<Rightarrow> do {
          rt_assert (interrupt_nest s = 0);
          let s = rt_enter_critical s;
          r \<leftarrow> find_name (objs s) name (obj_lists s c);
          s \<leftarrow> rt_exit_critical s;
          Some (r, s)
        })"

section \<open>Error numbers\<close>

text \<open>\<open>rt_get_errno\<close>, \<open>rt_set_errno\<close> and \<open>_rt_errno\<close> of \<open>src/src/kservice.c\<close>: each thread has
  its own error number; interrupt handlers and the code before the scheduler share one.
  \<open>_rt_errno\<close> is the place the number is kept in, \<open>None\<close> for the shared one.\<close>

definition rt_get_errno :: "kstate \<Rightarrow> rt_err_t" where
  "rt_get_errno s =
     (if interrupt_nest s \<noteq> 0 then rt_errno s
      else case cur_thread s of None \<Rightarrow> rt_errno s | Some t \<Rightarrow> thread_error (threads s t))"

definition rt_set_errno :: "rt_err_t \<Rightarrow> kstate \<Rightarrow> kstate" where
  "rt_set_errno err s =
     (if interrupt_nest s \<noteq> 0 then s\<lparr>rt_errno := err\<rparr>
      else case cur_thread s of None \<Rightarrow> s\<lparr>rt_errno := err\<rparr>
           | Some t \<Rightarrow> upd_thread t (\<lambda>th. th\<lparr>thread_error := err\<rparr>) s)"

definition rt_errno_place :: "kstate \<Rightarrow> tid option" where
  "rt_errno_place s =
     (if interrupt_nest s \<noteq> 0 then None
      else case cur_thread s of Some t \<Rightarrow> Some t | None \<Rightarrow> None)"

section \<open>Objects are found by their name\<close>

lemma find_eq: "find (\<lambda>c. c = x) xs = (if x \<in> set xs then Some x else None)"
  by (induction xs) auto

lemma get_information_eq [simp]:
  "rt_object_get_information type = (if type \<in> set rt_object_container then Some type else None)"
  by (simp add: rt_object_get_information_def find_eq)

lemma find_name_first:
  assumes "rt_strncpy name RT_NAME_MAX = Some nm" "\<forall>x \<in> set xs. \<exists>n. rt_strncpy n RT_NAME_MAX = Some (obj_name (ob x))"
  shows "find_name ob name xs = Some (find (\<lambda>x. obj_name (ob x) = nm) xs)"
  using assms(2)
proof (induction xs)
  case (Cons x xs)
  then obtain n where "rt_strncpy n RT_NAME_MAX = Some (obj_name (ob x))" by auto
  moreover obtain r where "rt_strncmp (obj_name (ob x)) name RT_NAME_MAX = Some r"
    using strncmp_defined [OF calculation assms(1)] by blast
  moreover have "r = 0 \<longleftrightarrow> obj_name (ob x) = nm"
    using strncmp_strncpy [OF calculation(1) assms(1)] calculation(2) by simp
  ultimately show ?case using Cons by simp
qed simp

definition names_ok :: "kstate \<Rightarrow> bool" where
  "names_ok s \<longleftrightarrow> (\<forall>c. \<forall>x \<in> set (obj_lists s c). \<exists>n. rt_strncpy n RT_NAME_MAX = Some (obj_name (objs s x)))"

lemma rt_schedule_objs:
  "rt_schedule s = Some s' \<Longrightarrow> objs s' = objs s \<and> obj_lists s' = obj_lists s \<and>
     interrupt_nest s' = interrupt_nest s \<and> lock_nest s' = lock_nest s \<and> lists s' = lists s \<and>
     threads s' = threads s \<and> timers s' = timers s \<and> tlists s' = tlists s \<and> sems s' = sems s \<and>
     mutexes s' = mutexes s \<and> events s' = events s \<and> mailboxes s' = mailboxes s \<and> mqs s' = mqs s \<and> mps s' = mps s \<and>
     rt_tick s' = rt_tick s \<and> ready_group s' = ready_group s \<and> soft_timer_busy s' = soft_timer_busy s"
  by (erule rt_schedule_cases) auto

lemma exit_critical_objs:
  "rt_exit_critical (rt_enter_critical s) = Some s' \<Longrightarrow>
     objs s' = objs s \<and> obj_lists s' = obj_lists s \<and> interrupt_nest s' = interrupt_nest s"
  by (auto simp: rt_exit_critical_def rt_enter_critical_def Let_def dest!: rt_schedule_objs split: if_splits)

text \<open>A name finds the object that was initialised with it last: after \<open>rt_object_init\<close>,
  \<open>rt_object_find\<close> with the same name and class returns this object, whatever older objects of
  that name there are, so two objects of one name and class cannot both be found.\<close>

theorem find_after_init:
  assumes ok: "names_ok s" and init: "rt_object_init x type name s = Some s'"
    and "interrupt_nest s = 0" and ret: "rt_object_find name type s' \<noteq> None"
  shows "\<exists>s''. rt_object_find name type s' = Some (Some x, s'') \<and> objs s'' = objs s'"
proof -
  obtain s1 nm where s1: "rt_exit_critical (rt_enter_critical s) = Some s1" "rt_strncpy name RT_NAME_MAX = Some nm"
      "type \<in> set rt_object_container" "x \<notin> set (obj_lists s type)"
      "s' = obj_link_front type x (upd_obj x (\<lambda>ob. ob\<lparr>obj_type := type OR RT_Object_Class_Static, obj_name := nm\<rparr>) s1)"
    using init by (auto simp: rt_object_init_def Option.bind_eq_Some_conv Let_def rt_enter_critical_def
        split: if_splits)
  note e = exit_critical_objs [OF s1(1)]
  have o: "objs s' = (objs s)(x := (objs s x)\<lparr>obj_type := type OR RT_Object_Class_Static, obj_name := nm\<rparr>)"
      "obj_lists s' type = x # obj_lists s type" "interrupt_nest s' = 0"
    using s1(5) e assms(3) by (simp_all add: obj_link_front_def)
  have "find_name (objs s') name (obj_lists s' type) = Some (Some x)"
  proof -
    have "\<forall>y \<in> set (x # obj_lists s type). \<exists>n. rt_strncpy n RT_NAME_MAX = Some (obj_name (objs s' y))"
      using ok s1(2) by (auto simp: o(1) names_ok_def)
    then show ?thesis using find_name_first [OF s1(2), of "x # obj_lists s type" "objs s'"] o(1) by (simp add: o(2))
  qed
  moreover have "find_name (objs (rt_enter_critical s')) name (obj_lists (rt_enter_critical s') type)
      = find_name (objs s') name (obj_lists s' type)"
    by (simp add: rt_enter_critical_def)
  ultimately show ?thesis using ret s1(3) o(3)
    by (auto simp: rt_object_find_def Let_def Option.bind_eq_Some_conv dest: exit_critical_objs)
qed

end
