(* ===== verification/Timer.thy ===== *)
theory Timer
  imports Object
begin

text \<open>
  The timers of \<open>src/src/timer.c\<close>, with one skip-list level (\<open>RT_TIMER_SKIP_LIST_LEVEL\<close> is 1 in
  this configuration): creation, control, stop, and the insertion into the list that is kept
  sorted by expiry.  Ticks are 32-bit and wrap; two ticks are compared by the sign of their
  difference.  \<open>rt_timer_start\<close>, which can wake the timer thread, and the checks are in the
  theories Thread and Clock.
\<close>

section \<open>Operations\<close>

abbreviation (input) RT_TIMER_FLAG_ACTIVATED :: u8 where "RT_TIMER_FLAG_ACTIVATED \<equiv> 1"
abbreviation (input) RT_TIMER_FLAG_PERIODIC :: u8 where "RT_TIMER_FLAG_PERIODIC \<equiv> 2"
abbreviation (input) RT_TIMER_FLAG_SOFT_TIMER :: u8 where "RT_TIMER_FLAG_SOFT_TIMER \<equiv> 4"

abbreviation (input) RT_TICK_MAX :: u32 where "RT_TICK_MAX \<equiv> 0xffffffff"
abbreviation (input) RT_TICK_HALF :: u32 where "RT_TICK_HALF \<equiv> 0x7fffffff"

definition tm_flag :: "kstate \<Rightarrow> tmid \<Rightarrow> u8" where
  "tm_flag s tm = obj_flag (objs s (TimerObj tm))"

definition set_tm_flag :: "tmid \<Rightarrow> (u8 \<Rightarrow> u8) \<Rightarrow> kstate \<Rightarrow> kstate" where
  "set_tm_flag tm f s = upd_obj (TimerObj tm) (\<lambda>ob. ob\<lparr>obj_flag := f (obj_flag ob)\<rparr>) s"

definition rt_timer_init_fields :: "tmid \<Rightarrow> timeout_func \<Rightarrow> u32 \<Rightarrow> u8 \<Rightarrow> kstate \<Rightarrow> kstate" where
  "rt_timer_init_fields tm timeout time flag s =
     (let s = set_tm_flag tm (\<lambda>_. flag AND NOT RT_TIMER_FLAG_ACTIVATED) s in
      upd_timer tm (\<lambda>r. r\<lparr>timeout_func := timeout, timeout_tick := 0, tm_init_tick := time,
                         tm_link := None\<rparr>) s)"

definition rt_timer_init :: "tmid \<Rightarrow> u8 list \<Rightarrow> timeout_func \<Rightarrow> u32 \<Rightarrow> u8 \<Rightarrow> kstate \<Rightarrow> kstate option" where
  "rt_timer_init tm name timeout time flag s = do {
     s \<leftarrow> rt_object_init (TimerObj tm) RT_Object_Class_Timer name s;
     Some (rt_timer_init_fields tm timeout time flag s)
   }"

definition rt_timer_list_next_timeout :: "tlid \<Rightarrow> kstate \<Rightarrow> u32" where
  "rt_timer_list_next_timeout l s =
     (case tlists s l of [] \<Rightarrow> RT_TICK_MAX | tm # _ \<Rightarrow> timeout_tick (timers s tm))"

definition rt_timer_next_timeout_tick :: "kstate \<Rightarrow> u32" where
  "rt_timer_next_timeout_tick s = rt_timer_list_next_timeout TimerList s"

definition rt_timer_detach :: "tmid \<Rightarrow> kstate \<Rightarrow> (rt_err_t \<times> kstate) option" where
  "rt_timer_detach tm s = do {
     rt_assert (rt_object_get_type (TimerObj tm) s = RT_Object_Class_Timer);
     rt_assert (rt_object_is_systemobject (TimerObj tm) s);
     let s = unlink_timer tm s;
     let s = set_tm_flag tm (\<lambda>f. f AND NOT RT_TIMER_FLAG_ACTIVATED) s;
     Some (RT_EOK, rt_object_detach (TimerObj tm) s)
   }"

definition rt_timer_create ::
  "nat option \<Rightarrow> u8 list \<Rightarrow> timeout_func \<Rightarrow> u32 \<Rightarrow> u8 \<Rightarrow> kstate \<Rightarrow> (tmid option \<times> kstate) option" where
  "rt_timer_create blk name timeout time flag s = do {
     (x, s) \<leftarrow> rt_object_allocate (map_option (\<lambda>i. TimerObj (UserTimer i)) blk) RT_Object_Class_Timer name s;
     case blk of
       None \<Rightarrow> Some (None, s)
     | Some i \<Rightarrow> Some (Some (UserTimer i), rt_timer_init_fields (UserTimer i) timeout time flag s)
   }"

definition rt_timer_delete :: "tmid \<Rightarrow> kstate \<Rightarrow> (rt_err_t \<times> kstate) option" where
  "rt_timer_delete tm s = do {
     rt_assert (rt_object_get_type (TimerObj tm) s = RT_Object_Class_Timer);
     rt_assert (\<not> rt_object_is_systemobject (TimerObj tm) s);
     let s = unlink_timer tm s;
     let s = set_tm_flag tm (\<lambda>f. f AND NOT RT_TIMER_FLAG_ACTIVATED) s;
     s \<leftarrow> rt_object_delete (TimerObj tm) s;
     Some (RT_EOK, s)
   }"

definition rt_timer_stop :: "tmid \<Rightarrow> kstate \<Rightarrow> (rt_err_t \<times> kstate) option" where
  "rt_timer_stop tm s = do {
     rt_assert (rt_object_get_type (TimerObj tm) s = RT_Object_Class_Timer);
     if tm_flag s tm AND RT_TIMER_FLAG_ACTIVATED = 0 then Some (- RT_ERROR, s)
     else
       (let s = unlink_timer tm s in
        Some (RT_EOK, set_tm_flag tm (\<lambda>f. f AND NOT RT_TIMER_FLAG_ACTIVATED) s))
   }"

datatype timer_ctrl = RT_TIMER_CTRL_SET_TIME u32 | RT_TIMER_CTRL_GET_TIME | RT_TIMER_CTRL_SET_ONESHOT
  | RT_TIMER_CTRL_SET_PERIODIC | RT_TIMER_CTRL_GET_STATE | Timer_ctrl_other int

text \<open>The result is the value stored through \<open>arg\<close>, if any; the return value is always \<open>RT_EOK\<close>.\<close>

definition rt_timer_control :: "tmid \<Rightarrow> timer_ctrl \<Rightarrow> kstate \<Rightarrow> (u32 option \<times> kstate) option" where
  "rt_timer_control tm cmd s = do {
     rt_assert (rt_object_get_type (TimerObj tm) s = RT_Object_Class_Timer);
     Some (case cmd of
         RT_TIMER_CTRL_GET_TIME \<Rightarrow> (Some (tm_init_tick (timers s tm)), s)
       | RT_TIMER_CTRL_SET_TIME tick \<Rightarrow> (None, upd_timer tm (\<lambda>r. r\<lparr>tm_init_tick := tick\<rparr>) s)
       | RT_TIMER_CTRL_SET_ONESHOT \<Rightarrow> (None, set_tm_flag tm (\<lambda>f. f AND NOT RT_TIMER_FLAG_PERIODIC) s)
       | RT_TIMER_CTRL_SET_PERIODIC \<Rightarrow> (None, set_tm_flag tm (\<lambda>f. f OR RT_TIMER_FLAG_PERIODIC) s)
       | RT_TIMER_CTRL_GET_STATE \<Rightarrow>
           (Some (if tm_flag s tm AND RT_TIMER_FLAG_ACTIVATED \<noteq> 0 then 1 else 0), s)
       | Timer_ctrl_other _ \<Rightarrow> (None, s))
   }"

text \<open>The position of a timer that expires at \<open>new\<close>: the loop passes equal and earlier timers and
  stops before the first later one.\<close>

fun timer_pos :: "(tmid \<Rightarrow> rt_timer) \<Rightarrow> u32 \<Rightarrow> tmid list \<Rightarrow> nat" where
  "timer_pos tms new [] = 0"
| "timer_pos tms new (t # ts) =
     (let d = timeout_tick (tms t) - new in
      if d = 0 then Suc (timer_pos tms new ts)
      else if d < RT_TICK_HALF then 0
      else Suc (timer_pos tms new ts))"

text \<open>\<open>rt_timer_start\<close> up to the point where the interrupts are enabled again.\<close>

definition timer_start_insert :: "tmid \<Rightarrow> kstate \<Rightarrow> kstate option" where
  "timer_start_insert tm s = do {
     rt_assert (rt_object_get_type (TimerObj tm) s = RT_Object_Class_Timer);
     let s = unlink_timer tm s;
     let s = set_tm_flag tm (\<lambda>f. f AND NOT RT_TIMER_FLAG_ACTIVATED) s;
     rt_assert (tm_init_tick (timers s tm) < RT_TICK_HALF);
     let s = upd_timer tm (\<lambda>r. r\<lparr>timeout_tick := rt_tick s + tm_init_tick r\<rparr>) s;
     let l = (if tm_flag s tm AND RT_TIMER_FLAG_SOFT_TIMER \<noteq> 0 then SoftTimerList else TimerList);
     let k = timer_pos (timers s) (timeout_tick (timers s tm)) (tlists s l);
     let s = s\<lparr>random_nr := random_nr s + 1\<rparr>;
     s \<leftarrow> link_timer_at l k tm s;
     Some (set_tm_flag tm (\<lambda>f. f OR RT_TIMER_FLAG_ACTIVATED) s)
   }"

section \<open>The list stays sorted\<close>

text \<open>Ticks wrap, so the order is relative to a reference tick \<open>base\<close> not later than every entry;
  it agrees with the signed comparison of the code when all entries are less than half the range
  ahead of \<open>base\<close>.\<close>

definition due :: "u32 \<Rightarrow> u32 \<Rightarrow> nat" where
  "due base t = unat (t - base)"

definition sorted_by_due :: "(tmid \<Rightarrow> rt_timer) \<Rightarrow> u32 \<Rightarrow> tmid list \<Rightarrow> bool" where
  "sorted_by_due tms base ts \<longleftrightarrow>
     sorted (map (\<lambda>t. due base (timeout_tick (tms t))) ts) \<and>
     (\<forall>t \<in> set ts. due base (timeout_tick (tms t)) < 2 ^ 31 - 1)"

lemma due_compare:
  assumes "due base a < 2 ^ 31 - 1" "due base b < 2 ^ 31 - 1"
  shows "a - b = 0 \<longleftrightarrow> due base a = due base b"
    and "a - b \<noteq> 0 \<and> a - b < RT_TICK_HALF \<longleftrightarrow> due base b < due base a"
proof -
  define x y where "x = a - base" and "y = b - base"
  have d: "a - b = x - y" by (simp add: x_def y_def)
  have b: "unat x < 2147483647" "unat y < 2147483647" using assms by (simp_all add: due_def x_def y_def)
  show e: "a - b = 0 \<longleftrightarrow> due base a = due base b"
    by (simp add: due_def word_unat_eq_iff [symmetric])
  have "x - y < RT_TICK_HALF \<and> x \<noteq> y \<longleftrightarrow> unat y < unat x"
  proof (cases "unat y \<le> unat x")
    case True
    then have "unat (x - y) = unat x - unat y" by (simp add: unat_sub word_le_nat_alt)
    then show ?thesis using b True by (auto simp: word_less_nat_alt word_unat_eq_iff)
  next
    case False
    have "unat (x - y) = unat x + 2 ^ size x - unat y"
      using unat_sub_if_size [of x y] False by (simp only: if_False)
    then have "unat (x - y) = unat x + 2 ^ 32 - unat y" by (simp add: word_size)
    then show ?thesis using b False by (auto simp: word_less_nat_alt)
  qed
  then show "a - b \<noteq> 0 \<and> a - b < RT_TICK_HALF \<longleftrightarrow> due base b < due base a"
    unfolding d due_def x_def [symmetric] y_def [symmetric] by (auto simp: x_def y_def)
qed

lemma timer_pos_split:
  assumes "sorted_by_due tms base ts" "due base new < 2 ^ 31 - 1"
  shows "(\<forall>t \<in> set (take (timer_pos tms new ts) ts). due base (timeout_tick (tms t)) \<le> due base new) \<and>
         (\<forall>t \<in> set (drop (timer_pos tms new ts) ts). due base new < due base (timeout_tick (tms t)))"
  using assms(1)
proof (induction ts)
  case (Cons t ts)
  let ?d = "timeout_tick (tms t)"
  have s: "sorted_by_due tms base ts" "due base ?d < 2 ^ 31 - 1"
      "\<And>u. u \<in> set ts \<Longrightarrow> due base ?d \<le> due base (timeout_tick (tms u))"
    using Cons.prems by (auto simp: sorted_by_due_def)
  note c = due_compare [OF s(2) assms(2)]
  show ?case
  proof (cases "due base new < due base ?d")
    case True
    then have "timer_pos tms new (t # ts) = 0" using c by (auto simp: Let_def)
    then show ?thesis using True s(3) by fastforce
  next
    case False
    then have "timer_pos tms new (t # ts) = Suc (timer_pos tms new ts)" using c by (auto simp: Let_def)
    then show ?thesis using False Cons.IH [OF s(1)] by simp
  qed
qed simp

lemma sorted_insert_at:
  assumes "sorted_by_due tms base ts" "due base (timeout_tick (tms tm)) < 2 ^ 31 - 1"
  shows "sorted_by_due tms base (insert_at (timer_pos tms (timeout_tick (tms tm)) ts) tm ts)"
proof -
  let ?k = "timer_pos tms (timeout_tick (tms tm)) ts" and ?f = "\<lambda>t. due base (timeout_tick (tms t))"
  have "sorted (map ?f (take ?k ts @ drop ?k ts))" using assms(1) by (simp add: sorted_by_due_def)
  then have s: "sorted (map ?f (take ?k ts))" "sorted (map ?f (drop ?k ts))"
    unfolding map_append sorted_append by blast+
  note p = timer_pos_split [OF assms]
  have q: "?f x \<le> ?f tm" "?f tm \<le> ?f y" "?f x \<le> ?f y" if "x \<in> set (take ?k ts)" "y \<in> set (drop ?k ts)" for x y
    using p that by (meson less_imp_le order_trans)+
  have q1: "\<forall>y \<in> set (drop ?k ts). ?f tm \<le> ?f y" "\<forall>x \<in> set (take ?k ts). ?f x \<le> ?f tm"
    using p by (auto intro: less_imp_le)
  have "sorted (map ?f (insert_at ?k tm ts))"
    unfolding insert_at_def map_append list.map sorted_append sorted_simps set_map list.set
    using s q1 q(3) by blast
  then show ?thesis using assms by (simp add: sorted_by_due_def)
qed

end
