(* ===== verification/Thread.thy ===== *)
theory Thread
  imports Timer
begin

text \<open>
  The threads of \<open>src/src/thread.c\<close>, with \<open>rt_timer_start\<close> of \<open>timer.c\<close>, which can wake the
  timer thread, and \<open>rt_tick_from_millisecond\<close> of \<open>clock.c\<close>.

  A routine that gives up the processor stops at its call of \<open>rt_schedule\<close>: its result is then
  \<open>Blocked\<close> with the local variables that live across the switch, and its rest is a function of
  its own (named \<open>..._resumed\<close>) that runs when the thread is chosen again.  With the scheduler
  locked there is no switch and the rest runs at once, as in the code.
\<close>

section \<open>Suspend and resume\<close>

datatype ('l, 'a) outcome = Return 'a | Blocked 'l

definition rt_thread_suspend :: "tid \<Rightarrow> kstate \<Rightarrow> (rt_err_t \<times> kstate) option" where
  "rt_thread_suspend t s = do {
     rt_assert (rt_object_get_type (ThreadObj t) s = RT_Object_Class_Thread);
     if stat_of s t \<noteq> RT_THREAD_READY then Some (- RT_ERROR, s)
     else do {
       s \<leftarrow> rt_schedule_remove_thread t s;
       let s = upd_thread t (\<lambda>th. th\<lparr>stat := with_stat RT_THREAD_SUSPEND (stat th)\<rparr>) s;
       (_, s) \<leftarrow> rt_timer_stop (ThreadTimer t) s;
       Some (RT_EOK, s)
     }
   }"

definition rt_thread_resume :: "tid \<Rightarrow> kstate \<Rightarrow> (rt_err_t \<times> kstate) option" where
  "rt_thread_resume t s = do {
     rt_assert (rt_object_get_type (ThreadObj t) s = RT_Object_Class_Thread);
     if stat_of s t \<noteq> RT_THREAD_SUSPEND then Some (- RT_ERROR, s)
     else do {
       let s = unlink_thread t s;
       (_, s) \<leftarrow> rt_timer_stop (ThreadTimer t) s;
       s \<leftarrow> rt_schedule_insert_thread t s;
       Some (RT_EOK, s)
     }
   }"

definition rt_timer_start :: "tmid \<Rightarrow> kstate \<Rightarrow> (rt_err_t \<times> kstate) option" where
  "rt_timer_start tm s = do {
     s \<leftarrow> timer_start_insert tm s;
     if tm_flag s tm AND RT_TIMER_FLAG_SOFT_TIMER \<noteq> 0 \<and> \<not> soft_timer_busy s \<and>
        stat_of s timer_thread = RT_THREAD_SUSPEND
     then do {
       (_, s) \<leftarrow> rt_thread_resume timer_thread s;
       s \<leftarrow> rt_schedule s;
       Some (RT_EOK, s)
     }
     else Some (RT_EOK, s)
   }"

definition rt_thread_timeout :: "tid \<Rightarrow> kstate \<Rightarrow> kstate option" where
  "rt_thread_timeout t s = do {
     rt_assert (stat_of s t = RT_THREAD_SUSPEND);
     rt_assert (rt_object_get_type (ThreadObj t) s = RT_Object_Class_Thread);
     let s = upd_thread t (\<lambda>th. th\<lparr>thread_error := - RT_ETIMEOUT\<rparr>) s;
     let s = unlink_thread t s;
     s \<leftarrow> rt_schedule_insert_thread t s;
     rt_schedule s
   }"

section \<open>Creation\<close>

text \<open>\<open>rt_hw_stack_init\<close> of \<open>src/libcpu/arm/cortex-m4/cpuport.c\<close> puts a register frame of 17
  words (the FPU is used) below the aligned top of the stack; here only the stack pointer it
  returns.  A frame that does not fit above the guard byte overwrites foreign memory.\<close>

definition rt_hw_stack_init :: "u32 \<Rightarrow> u32" where
  "rt_hw_stack_init stack_addr_arg = ((stack_addr_arg + 4) AND NOT 7) - 68"

definition thread_init_record ::
  "nat \<Rightarrow> nat \<Rightarrow> u32 \<Rightarrow> u32 \<Rightarrow> u8 \<Rightarrow> u32 \<Rightarrow> rt_thread \<Rightarrow> rt_thread" where
  "thread_init_record entry parameter stack_start stk_size priority tick th =
     th\<lparr>thread_entry := entry, thread_parameter := parameter,
        stack_addr := stack_start, stack_size := stk_size, stack_guard := 35,
        sp := rt_hw_stack_init (stack_start + stk_size - 4),
        init_priority := priority, current_priority := priority, number_mask := 0,
        init_tick := tick, remaining_tick := tick, thread_error := RT_EOK, stat := RT_THREAD_INIT\<rparr>"

definition rt_thread_init_fields ::
  "tid \<Rightarrow> nat \<Rightarrow> nat \<Rightarrow> u32 \<Rightarrow> u32 \<Rightarrow> u8 \<Rightarrow> u32 \<Rightarrow> kstate \<Rightarrow> (rt_err_t \<times> kstate) option" where
  "rt_thread_init_fields t entry parameter stack_start stk_size priority tick s = do {
     c_defined (t_link (threads s t) = None);
     let frame = rt_hw_stack_init (stack_start + stk_size - 4);
     c_defined (stack_start < frame \<and> frame \<le> stack_start + stk_size);
     rt_assert (priority < 32);
     let s = upd_thread t (thread_init_record entry parameter stack_start stk_size priority tick) s;
     s \<leftarrow> rt_timer_init (ThreadTimer t) (obj_name (objs s (ThreadObj t))) (Rt_thread_timeout t) 0 0 s;
     Some (RT_EOK, s)
   }"

definition rt_thread_init ::
  "tid \<Rightarrow> u8 list \<Rightarrow> nat \<Rightarrow> nat \<Rightarrow> u32 \<Rightarrow> u32 \<Rightarrow> u8 \<Rightarrow> u32 \<Rightarrow> kstate \<Rightarrow> (rt_err_t \<times> kstate) option" where
  "rt_thread_init t name entry parameter stack_start stk_size priority tick s = do {
     rt_assert (stack_start \<noteq> 0);
     s \<leftarrow> rt_object_init (ThreadObj t) RT_Object_Class_Thread name s;
     rt_thread_init_fields t entry parameter stack_start stk_size priority tick s
   }"

definition rt_thread_self :: "kstate \<Rightarrow> tid option" where
  "rt_thread_self s = cur_thread s"

definition rt_thread_startup :: "tid \<Rightarrow> kstate \<Rightarrow> (rt_err_t \<times> kstate) option" where
  "rt_thread_startup t s = do {
     rt_assert (stat_of s t = RT_THREAD_INIT);
     rt_assert (rt_object_get_type (ThreadObj t) s = RT_Object_Class_Thread);
     let p = init_priority (threads s t);
     c_defined (p < 32);
     let s = upd_thread t (\<lambda>th. th\<lparr>current_priority := p, number_mask := push_bit (unat p) 1,
                                  stat := RT_THREAD_SUSPEND\<rparr>) s;
     (_, s) \<leftarrow> rt_thread_resume t s;
     s \<leftarrow> (if rt_thread_self s \<noteq> None then rt_schedule s else Some s);
     Some (RT_EOK, s)
   }"

text \<open>The two blocks from the heap: the control block and the stack.\<close>

definition rt_thread_create ::
  "tid option \<Rightarrow> u32 option \<Rightarrow> u8 list \<Rightarrow> nat \<Rightarrow> nat \<Rightarrow> u32 \<Rightarrow> u8 \<Rightarrow> u32 \<Rightarrow> kstate \<Rightarrow> (tid option \<times> kstate) option" where
  "rt_thread_create blk stk name entry parameter stk_size priority tick s = do {
     (x, s) \<leftarrow> rt_object_allocate (map_option ThreadObj blk) RT_Object_Class_Thread name s;
     case blk of
       None \<Rightarrow> Some (None, s)
     | Some t \<Rightarrow> (case stk of
           None \<Rightarrow> do { s \<leftarrow> rt_object_delete (ThreadObj t) s; Some (None, s) }
         | Some stack_start \<Rightarrow> do {
             (_, s) \<leftarrow> rt_thread_init_fields t entry parameter stack_start stk_size priority tick s;
             Some (Some t, s)
           })
   }"

section \<open>Termination of a thread\<close>

definition thread_close :: "tid \<Rightarrow> kstate \<Rightarrow> kstate" where
  "thread_close t s = upd_thread t (\<lambda>th. th\<lparr>stat := RT_THREAD_CLOSE\<rparr>) s"

definition rt_thread_exit :: "kstate \<Rightarrow> kstate option" where
  "rt_thread_exit s = do {
     t \<leftarrow> cur_thread s;
     s \<leftarrow> rt_schedule_remove_thread t s;
     let s = thread_close t s;
     (_, s) \<leftarrow> rt_timer_detach (ThreadTimer t) s;
     s \<leftarrow> (if rt_object_is_systemobject (ThreadObj t) s
           then Some (rt_object_detach (ThreadObj t) s)
           else link_thread_front Defunct t s);
     rt_schedule s
   }"

definition rt_thread_detach :: "tid \<Rightarrow> kstate \<Rightarrow> (rt_err_t \<times> kstate) option" where
  "rt_thread_detach t s = do {
     rt_assert (rt_object_get_type (ThreadObj t) s = RT_Object_Class_Thread);
     rt_assert (rt_object_is_systemobject (ThreadObj t) s);
     if stat_of s t = RT_THREAD_CLOSE then Some (RT_EOK, s)
     else do {
       s \<leftarrow> (if stat_of s t \<noteq> RT_THREAD_INIT then rt_schedule_remove_thread t s else Some s);
       (_, s) \<leftarrow> rt_timer_detach (ThreadTimer t) s;
       let s = thread_close t s;
       s \<leftarrow> (if rt_object_is_systemobject (ThreadObj t) s
             then Some (rt_object_detach (ThreadObj t) s)
             else link_thread_front Defunct t s);
       Some (RT_EOK, s)
     }
   }"

definition rt_thread_delete :: "tid \<Rightarrow> kstate \<Rightarrow> (rt_err_t \<times> kstate) option" where
  "rt_thread_delete t s = do {
     rt_assert (rt_object_get_type (ThreadObj t) s = RT_Object_Class_Thread);
     rt_assert (\<not> rt_object_is_systemobject (ThreadObj t) s);
     if stat_of s t = RT_THREAD_CLOSE then Some (RT_EOK, s)
     else do {
       s \<leftarrow> (if stat_of s t \<noteq> RT_THREAD_INIT then rt_schedule_remove_thread t s else Some s);
       (_, s) \<leftarrow> rt_timer_detach (ThreadTimer t) s;
       let s = thread_close t s;
       s \<leftarrow> link_thread_front Defunct t s;
       Some (RT_EOK, s)
     }
   }"

section \<open>Giving up the processor\<close>

definition rt_thread_yield :: "kstate \<Rightarrow> (rt_err_t \<times> kstate) option" where
  "rt_thread_yield s = do {
     t \<leftarrow> cur_thread s;
     if stat_of s t = RT_THREAD_READY \<and>
        (case t_link (threads s t) of None \<Rightarrow> False | Some l \<Rightarrow> length (lists s l) \<noteq> 1)
     then do {
       let s = unlink_thread t s;
       s \<leftarrow> link_thread_back (ReadyQ (unat (current_priority (threads s t)))) t s;
       s \<leftarrow> rt_schedule s;
       Some (RT_EOK, s)
     }
     else Some (RT_EOK, s)
   }"

text \<open>\<open>rt_schedule\<close> in a thread that may have to wait: the rest of the caller runs at once when
  the thread is still the current one.\<close>

definition schedule_then ::
  "tid \<Rightarrow> 'l \<Rightarrow> (kstate \<Rightarrow> (('l, 'a) outcome \<times> kstate) option) \<Rightarrow> kstate \<Rightarrow> (('l, 'a) outcome \<times> kstate) option" where
  "schedule_then t locals rest s = do {
     s \<leftarrow> rt_schedule s;
     if cur_thread s = Some t then rest s else Some (Blocked locals, s)
   }"

definition rt_thread_sleep_resumed :: "tid \<Rightarrow> kstate \<Rightarrow> ((unit, rt_err_t) outcome \<times> kstate) option" where
  "rt_thread_sleep_resumed t s =
     Some (Return RT_EOK,
           if thread_error (threads s t) = - RT_ETIMEOUT
           then upd_thread t (\<lambda>th. th\<lparr>thread_error := RT_EOK\<rparr>) s else s)"

definition rt_thread_sleep :: "u32 \<Rightarrow> kstate \<Rightarrow> ((unit, rt_err_t) outcome \<times> kstate) option" where
  "rt_thread_sleep tick s = do {
     rt_assert (cur_thread s \<noteq> None);
     t \<leftarrow> cur_thread s;
     rt_assert (rt_object_get_type (ThreadObj t) s = RT_Object_Class_Thread);
     (_, s) \<leftarrow> rt_thread_suspend t s;
     (_, s) \<leftarrow> rt_timer_control (ThreadTimer t) (RT_TIMER_CTRL_SET_TIME tick) s;
     (_, s) \<leftarrow> rt_timer_start (ThreadTimer t) s;
     schedule_then t () (rt_thread_sleep_resumed t) s
   }"

definition rt_thread_delay :: "u32 \<Rightarrow> kstate \<Rightarrow> ((unit, rt_err_t) outcome \<times> kstate) option" where
  "rt_thread_delay tick s = rt_thread_sleep tick s"

definition rt_tick_get :: "kstate \<Rightarrow> u32" where
  "rt_tick_get s = rt_tick s"

text \<open>The caller's variable \<open>tick\<close> is the argument; its final value is part of the result.\<close>

definition rt_thread_delay_until_resumed :: "tid \<Rightarrow> kstate \<Rightarrow> ((unit, rt_err_t \<times> u32) outcome \<times> kstate) option" where
  "rt_thread_delay_until_resumed t s =
     (let s = (if thread_error (threads s t) = - RT_ETIMEOUT
               then upd_thread t (\<lambda>th. th\<lparr>thread_error := RT_EOK\<rparr>) s else s)
      in Some (Return (RT_EOK, rt_tick_get s), s))"

definition rt_thread_delay_until :: "u32 \<Rightarrow> u32 \<Rightarrow> kstate \<Rightarrow> ((unit, rt_err_t \<times> u32) outcome \<times> kstate) option" where
  "rt_thread_delay_until tick inc_tick s = do {
     rt_assert (rt_thread_self s \<noteq> None);
     t \<leftarrow> rt_thread_self s;
     rt_assert (rt_object_get_type (ThreadObj t) s = RT_Object_Class_Thread);
     if rt_tick_get s - tick < inc_tick then do {
       let tick = tick + inc_tick - rt_tick_get s;
       (_, s) \<leftarrow> rt_thread_suspend t s;
       (_, s) \<leftarrow> rt_timer_control (ThreadTimer t) (RT_TIMER_CTRL_SET_TIME tick) s;
       (_, s) \<leftarrow> rt_timer_start (ThreadTimer t) s;
       schedule_then t () (rt_thread_delay_until_resumed t) s
     }
     else Some (Return (RT_EOK, rt_tick_get s), s)
   }"

definition rt_tick_from_millisecond :: "int \<Rightarrow> u32" where
  "rt_tick_from_millisecond ms =
     (if ms < 0 then -1
      else word_of_int (1000 * (ms div 1000)) + word_of_int ((1000 * (ms mod 1000) + 999) div 1000))"

definition rt_thread_mdelay :: "int \<Rightarrow> kstate \<Rightarrow> ((unit, rt_err_t) outcome \<times> kstate) option" where
  "rt_thread_mdelay ms s = rt_thread_sleep (rt_tick_from_millisecond ms) s"

section \<open>Control\<close>

datatype thread_ctrl = RT_THREAD_CTRL_CHANGE_PRIORITY u8 | RT_THREAD_CTRL_STARTUP | RT_THREAD_CTRL_CLOSE
  | Thread_ctrl_other int

definition set_priority :: "tid \<Rightarrow> u8 \<Rightarrow> kstate \<Rightarrow> kstate option" where
  "set_priority t p s = do {
     c_defined (p < 32);
     Some (upd_thread t (\<lambda>th. th\<lparr>current_priority := p, number_mask := push_bit (unat p) 1\<rparr>) s)
   }"

definition rt_thread_control :: "tid \<Rightarrow> thread_ctrl \<Rightarrow> kstate \<Rightarrow> (rt_err_t \<times> kstate) option" where
  "rt_thread_control t cmd s = do {
     rt_assert (rt_object_get_type (ThreadObj t) s = RT_Object_Class_Thread);
     case cmd of
       RT_THREAD_CTRL_CHANGE_PRIORITY p \<Rightarrow>
         if stat_of s t = RT_THREAD_READY then do {
           s \<leftarrow> rt_schedule_remove_thread t s;
           s \<leftarrow> set_priority t p s;
           s \<leftarrow> rt_schedule_insert_thread t s;
           Some (RT_EOK, s)
         }
         else do { s \<leftarrow> set_priority t p s; Some (RT_EOK, s) }
     | RT_THREAD_CTRL_STARTUP \<Rightarrow> rt_thread_startup t s
     | RT_THREAD_CTRL_CLOSE \<Rightarrow>
         if rt_object_is_systemobject (ThreadObj t) s then rt_thread_detach t s else rt_thread_delete t s
     | Thread_ctrl_other _ \<Rightarrow> Some (RT_EOK, s)
   }"

definition rt_thread_find :: "u8 list \<Rightarrow> kstate \<Rightarrow> (oid option \<times> kstate) option" where
  "rt_thread_find name s = rt_object_find name RT_Object_Class_Thread s"

end
