(* ===== verification/Clock.thy ===== *)
theory Clock
  imports Thread
begin

text \<open>
  The tick: \<open>src/src/clock.c\<close>, the interrupt nesting of \<open>irq.c\<close>, and the timer checks and the timer
  thread of \<open>timer.c\<close>.  The functions of timers other than the threads' own are code of the
  client: the parameter \<open>cb\<close> maps the number of a function and its argument to what it does to the
  kernel state.  The check loops go on as long as the first timer of the list is due, which need
  not end, so they are partial functions.
\<close>

section \<open>Timer checks\<close>

definition call_timeout :: "(nat \<Rightarrow> kstate \<Rightarrow> kstate option) \<Rightarrow> timeout_func \<Rightarrow> kstate \<Rightarrow> kstate option" where
  "call_timeout cb f s = (case f of Rt_thread_timeout t \<Rightarrow> rt_thread_timeout t s | User_timeout k \<Rightarrow> cb k s)"

text \<open>The first part of the loop body: the timer leaves its list, loses the active flag unless it
  is periodic, and waits on a list of the check's own, from which its function may remove it.\<close>

definition check_take :: "tlid \<Rightarrow> tmid \<Rightarrow> kstate \<Rightarrow> kstate option" where
  "check_take own tm s = do {
     let s = unlink_timer tm s;
     let s = (if tm_flag s tm AND RT_TIMER_FLAG_PERIODIC = 0
              then set_tm_flag tm (\<lambda>f. f AND NOT RT_TIMER_FLAG_ACTIVATED) s else s);
     link_timer_at own 0 tm s
   }"

text \<open>The last part: a periodic timer that is still active starts again.\<close>

definition check_restart :: "tlid \<Rightarrow> tmid \<Rightarrow> kstate \<Rightarrow> kstate option" where
  "check_restart own tm s =
     (if tlists s own = [] then Some s
      else do {
        let s = unlink_timer tm s;
        if tm_flag s tm AND RT_TIMER_FLAG_PERIODIC \<noteq> 0 \<and> tm_flag s tm AND RT_TIMER_FLAG_ACTIVATED \<noteq> 0
        then do {
          let s = set_tm_flag tm (\<lambda>f. f AND NOT RT_TIMER_FLAG_ACTIVATED) s;
          (_, s) \<leftarrow> rt_timer_start tm s;
          Some s
        }
        else Some s
      })"

partial_function (option) timer_check_loop ::
  "(nat \<Rightarrow> kstate \<Rightarrow> kstate option) \<Rightarrow> u32 \<Rightarrow> kstate \<Rightarrow> kstate option" where
  "timer_check_loop cb current_tick s =
     (case tlists s TimerList of
        [] \<Rightarrow> Some s
      | tm # _ \<Rightarrow>
          (if current_tick - timeout_tick (timers s tm) < RT_TICK_HALF
           then Option.bind (check_take CheckList tm s) (\<lambda>s.
                Option.bind (call_timeout cb (timeout_func (timers s tm)) s) (\<lambda>s.
                Option.bind (check_restart CheckList tm s) (\<lambda>s'.
                timer_check_loop cb (rt_tick_get s) s')))
           else Some s))"

text \<open>The check's own list is a local variable: a timer still linked on it from an earlier call
  would be a dangling pointer.\<close>

definition rt_timer_check :: "(nat \<Rightarrow> kstate \<Rightarrow> kstate option) \<Rightarrow> kstate \<Rightarrow> kstate option" where
  "rt_timer_check cb s = do {
     c_defined (tlists s CheckList = []);
     timer_check_loop cb (rt_tick_get s) s
   }"

partial_function (option) soft_timer_check_loop ::
  "(nat \<Rightarrow> kstate \<Rightarrow> kstate option) \<Rightarrow> kstate \<Rightarrow> kstate option" where
  "soft_timer_check_loop cb s =
     (case tlists s SoftTimerList of
        [] \<Rightarrow> Some s
      | tm # _ \<Rightarrow>
          (if rt_tick_get s - timeout_tick (timers s tm) < RT_TICK_HALF
           then Option.bind (check_take SoftCheckList tm s) (\<lambda>s.
                Option.bind (call_timeout cb (timeout_func (timers s tm)) (s\<lparr>soft_timer_busy := True\<rparr>)) (\<lambda>s.
                Option.bind (check_restart SoftCheckList tm (s\<lparr>soft_timer_busy := False\<rparr>)) (\<lambda>s.
                soft_timer_check_loop cb s)))
           else Some s))"

definition rt_soft_timer_check :: "(nat \<Rightarrow> kstate \<Rightarrow> kstate option) \<Rightarrow> kstate \<Rightarrow> kstate option" where
  "rt_soft_timer_check cb s = do {
     c_defined (tlists s SoftCheckList = []);
     soft_timer_check_loop cb s
   }"

text \<open>One round of the timer thread up to the point where it gives up the processor, if it does.\<close>

definition timer_thread_wait :: "kstate \<Rightarrow> ((unit, rt_err_t) outcome \<times> kstate) option" where
  "timer_thread_wait s =
     (let next_timeout = rt_timer_list_next_timeout SoftTimerList s in
      if next_timeout = RT_TICK_MAX then do {
        t \<leftarrow> rt_thread_self s;
        (_, s) \<leftarrow> rt_thread_suspend t s;
        schedule_then t () (\<lambda>s. Some (Return RT_EOK, s)) s
      }
      else
        (let current_tick = rt_tick_get s in
         if next_timeout - current_tick < RT_TICK_HALF
         then rt_thread_delay (next_timeout - current_tick) s
         else Some (Return RT_EOK, s)))"

section \<open>Ticks and interrupts\<close>

definition rt_tick_set :: "u32 \<Rightarrow> kstate \<Rightarrow> kstate" where
  "rt_tick_set tick s = s\<lparr>rt_tick := tick\<rparr>"

text \<open>The current thread must exist: the code dereferences it.\<close>

definition rt_tick_increase :: "(nat \<Rightarrow> kstate \<Rightarrow> kstate option) \<Rightarrow> kstate \<Rightarrow> kstate option" where
  "rt_tick_increase cb s = do {
     let s = s\<lparr>rt_tick := rt_tick s + 1\<rparr>;
     t \<leftarrow> rt_thread_self s;
     let s = upd_thread t (\<lambda>th. th\<lparr>remaining_tick := remaining_tick th - 1\<rparr>) s;
     s \<leftarrow> (if remaining_tick (threads s t) = 0 then do {
             let s = upd_thread t (\<lambda>th. th\<lparr>remaining_tick := init_tick th\<rparr>) s;
             (_, s) \<leftarrow> rt_thread_yield s;
             Some s
           }
           else Some s);
     rt_timer_check cb s
   }"

definition rt_interrupt_enter :: "kstate \<Rightarrow> kstate" where
  "rt_interrupt_enter s = s\<lparr>interrupt_nest := interrupt_nest s + 1\<rparr>"

definition rt_interrupt_leave :: "kstate \<Rightarrow> kstate" where
  "rt_interrupt_leave s = s\<lparr>interrupt_nest := interrupt_nest s - 1\<rparr>"

definition rt_interrupt_get_nest :: "kstate \<Rightarrow> u8" where
  "rt_interrupt_get_nest s = interrupt_nest s"

text \<open>The tick interrupt handler of the board (\<open>SysTick_Handler\<close> in \<open>drv_common.c\<close>).\<close>

definition SysTick_Handler :: "(nat \<Rightarrow> kstate \<Rightarrow> kstate option) \<Rightarrow> kstate \<Rightarrow> kstate option" where
  "SysTick_Handler cb s = do {
     s \<leftarrow> rt_tick_increase cb (rt_interrupt_enter s);
     Some (rt_interrupt_leave s)
   }"

definition rt_system_timer_init :: "kstate \<Rightarrow> kstate" where
  "rt_system_timer_init s = s\<lparr>tlists := (tlists s)(TimerList := [])\<rparr>"

definition rt_system_timer_thread_init :: "u32 \<Rightarrow> kstate \<Rightarrow> kstate option" where
  "rt_system_timer_thread_init stack s = do {
     let s = s\<lparr>tlists := (tlists s)(SoftTimerList := [])\<rparr>;
     (_, s) \<leftarrow> rt_thread_init timer_thread [116, 105, 109, 101, 114, 0] 0 0 stack 512 4 10 s;
     (_, s) \<leftarrow> rt_thread_startup timer_thread s;
     Some s
   }"

end
