(* ===== verification/KInv.thy ===== *)
theory KInv
  imports Clock
begin

text \<open>
  The kernel invariant and its preservation by the operations on timers and threads.  It says
  that the queues are well linked, that the ready queues hold exactly what the priority word
  says, and that the timer lists are well linked.
\<close>

section \<open>The invariant\<close>

definition kernel_inv :: "kstate \<Rightarrow> bool" where
  "kernel_inv s \<longleftrightarrow> sched_inv s \<and> tlinks_ok s"

lemma kernel_invI: "sched_inv s \<Longrightarrow> tlinks_ok s \<Longrightarrow> kernel_inv s"
  by (simp add: kernel_inv_def)

lemma kernel_invD: "kernel_inv s \<Longrightarrow> sched_inv s" "kernel_inv s \<Longrightarrow> tlinks_ok s"
  by (simp_all add: kernel_inv_def)

text \<open>Only the queues, the timer lists and four fields of a thread matter.\<close>

lemma kernel_inv_cong:
  assumes "lists s' = lists s" "ready_group s' = ready_group s" "tlists s' = tlists s"
    and "\<And>t. stat (threads s' t) = stat (threads s t) \<and> t_link (threads s' t) = t_link (threads s t) \<and>
             current_priority (threads s' t) = current_priority (threads s t) \<and>
             number_mask (threads s' t) = number_mask (threads s t)"
    and "\<And>tm. tm_link (timers s' tm) = tm_link (timers s tm)"
  shows "kernel_inv s' = kernel_inv s"
  unfolding kernel_inv_def sched_inv_def links_ok_def ready_ok_def mask_ok_def group_ok_def ready_here_def tlinks_ok_def
    stat_of_def by (simp only: assms)

text \<open>Changing a thread that is on no queue.\<close>

lemma kernel_inv_upd_unlinked:
  assumes inv: "kernel_inv s" and un: "t_link (threads s t) = None" "t_link (f (threads s t)) = None"
    and mask: "stat (f (threads s t)) AND 0x0f = 1 \<or> stat (f (threads s t)) AND 0x0f = 2 \<Longrightarrow>
      unat (current_priority (f (threads s t))) < 32 \<and>
      number_mask (f (threads s t)) = 2 ^ unat (current_priority (f (threads s t)))"
  shows "kernel_inv (upd_thread t f s)"
proof -
  note i = sched_invD [OF kernel_invD(1) [OF inv]]
  have nl: "t \<notin> set (lists s l)" for l using i(1) un(1) by (simp add: links_ok_def)
  have "links_ok (upd_thread t f s)"
    using i(1) un nl unfolding links_ok_def by auto
  moreover have "ready_ok (upd_thread t f s)"
    using i(2) nl unfolding ready_ok_def stat_of_def by auto
  moreover have "mask_ok (upd_thread t f s)"
    using i(3) mask unfolding mask_ok_def stat_of_def by auto
  moreover have "group_ok (upd_thread t f s)" using i(4) by (simp add: group_ok_def)
  moreover have "ready_here (upd_thread t f s)" using i(5) un unfolding ready_here_def stat_of_def by auto
  moreover have "tlinks_ok (upd_thread t f s)" using kernel_invD(2) [OF inv] by (simp add: tlinks_ok_def)
  ultimately show ?thesis by (simp add: kernel_inv_def sched_inv_def)
qed

lemma kernel_inv_upd_thread [simp]:
  assumes "\<And>th. stat (f th) = stat th \<and> t_link (f th) = t_link th \<and>
             current_priority (f th) = current_priority th \<and> number_mask (f th) = number_mask th"
  shows "kernel_inv (upd_thread t f s) = kernel_inv s"
  by (rule kernel_inv_cong) (simp_all add: assms)

lemma kernel_inv_upd_timer [simp]:
  assumes "\<And>r. tm_link (f r) = tm_link r"
  shows "kernel_inv (upd_timer tm f s) = kernel_inv s"
  by (rule kernel_inv_cong) (simp_all add: assms)

lemma kernel_inv_upd_obj [simp]: "kernel_inv (upd_obj x f s) = kernel_inv s"
  by (rule kernel_inv_cong) simp_all

lemma kernel_inv_flag [simp]: "kernel_inv (set_tm_flag tm f s) = kernel_inv s"
  by (simp add: set_tm_flag_def)

lemma kernel_inv_fields [simp]:
  "kernel_inv (s\<lparr>objs := a1\<rparr>) = kernel_inv s" "kernel_inv (s\<lparr>obj_lists := a2\<rparr>) = kernel_inv s"
  "kernel_inv (s\<lparr>cur_thread := a3\<rparr>) = kernel_inv s" "kernel_inv (s\<lparr>cur_prio := a4\<rparr>) = kernel_inv s"
  "kernel_inv (s\<lparr>lock_nest := a5\<rparr>) = kernel_inv s" "kernel_inv (s\<lparr>interrupt_nest := a6\<rparr>) = kernel_inv s"
  "kernel_inv (s\<lparr>rt_tick := a7\<rparr>) = kernel_inv s" "kernel_inv (s\<lparr>soft_timer_busy := a8\<rparr>) = kernel_inv s"
  "kernel_inv (s\<lparr>random_nr := a9\<rparr>) = kernel_inv s" "kernel_inv (s\<lparr>sems := b1\<rparr>) = kernel_inv s"
  "kernel_inv (s\<lparr>mutexes := b2\<rparr>) = kernel_inv s" "kernel_inv (s\<lparr>events := b3\<rparr>) = kernel_inv s"
  "kernel_inv (s\<lparr>mailboxes := b4\<rparr>) = kernel_inv s" "kernel_inv (s\<lparr>mqs := b5\<rparr>) = kernel_inv s"
  "kernel_inv (s\<lparr>mps := pools\<rparr>) = kernel_inv s"
  "kernel_inv (s\<lparr>rt_errno := b6\<rparr>) = kernel_inv s"
  by (rule kernel_inv_cong; simp)+

section \<open>Scheduler and timers\<close>

named_theorems inv_dest \<open>operations preserve the kernel invariant\<close>

lemma inv_schedule [inv_dest]:
  "rt_schedule s = Some s' \<Longrightarrow> kernel_inv s \<Longrightarrow> kernel_inv s'"
  by (erule rt_schedule_cases) simp_all

lemma tlinks_ok_cong: "tlists s' = tlists s \<Longrightarrow> timers s' = timers s \<Longrightarrow> tlinks_ok s' = tlinks_ok s"
  by (simp add: tlinks_ok_def)

lemma remove_sel:
  assumes "rt_schedule_remove_thread t s = Some s'"
  shows "threads s' = (threads s)(t := (threads s t)\<lparr>t_link := None\<rparr>)" "objs s' = objs s"
    "timers s' = timers s" "cur_thread s' = cur_thread s" "tlists s' = tlists s"
  using assms by (auto simp: remove_thread_eq Let_def split: if_splits)

lemma inv_remove:
  assumes "rt_schedule_remove_thread t s = Some s'" "kernel_inv s"
    and "stat_of s t = RT_THREAD_READY \<or> stat_of s t = RT_THREAD_SUSPEND"
  shows "kernel_inv s'"
proof (rule kernel_invI)
  show "sched_inv s'" by (rule sched_inv_remove [OF kernel_invD(1) [OF assms(2)] assms(1,3)])
  show "tlinks_ok s'"
    using kernel_invD(2) [OF assms(2)] tlinks_ok_cong [OF remove_sel(5,3) [OF assms(1)]] by simp
qed

lemma inv_insert:
  assumes "rt_schedule_insert_thread t s = Some s'" "kernel_inv s"
    and "number_mask (threads s t) = 2 ^ unat (current_priority (threads s t))"
  shows "kernel_inv s'"
proof (rule kernel_invI)
  show "sched_inv s'" by (rule sched_inv_insert [OF kernel_invD(1) [OF assms(2)] assms(1,3)])
  have "tlists s' = tlists s" "timers s' = timers s"
    using assms(1) by (simp_all add: insert_thread_eq Let_def)
  then show "tlinks_ok s'" using kernel_invD(2) [OF assms(2)] tlinks_ok_cong by blast
qed

lemma inv_unlink:
  assumes inv: "kernel_inv s" and st: "stat_of s t \<noteq> RT_THREAD_READY"
  shows "kernel_inv (unlink_thread t s)"
proof -
  note i = sched_invD [OF kernel_invD(1) [OF inv]]
  have r: "t \<notin> set (lists s (ReadyQ p))" for p using i(2) st unfolding ready_ok_def by blast
  have L: "lists (unlink_thread t s) (ReadyQ p) = lists s (ReadyQ p)" for p
    using r by (simp add: unlink_thread_lists [OF i(1)] remove1_idem)
  have "ready_ok (unlink_thread t s)"
    using i(2) r unfolding ready_ok_def stat_of_def L by auto
  moreover have "mask_ok (unlink_thread t s)" using i(3) by (auto simp: mask_ok_def stat_of_def)
  moreover have "group_ok (unlink_thread t s)" using i(4) unfolding group_ok_def L by simp
  moreover have "ready_here (unlink_thread t s)" using i(5) by (auto simp: ready_here_def stat_of_def)
  ultimately show ?thesis
    using kernel_invD(2) [OF inv] links_ok_unlink [OF i(1)]
    by (simp add: kernel_inv_def sched_inv_def tlinks_ok_def)
qed

lemma inv_unlink_timer [simp]: "kernel_inv s \<Longrightarrow> kernel_inv (unlink_timer tm s)"
  using tlinks_ok_unlink [of s tm] sched_inv_cong [of "unlink_timer tm s" s]
  by (simp add: kernel_inv_def)

lemma inv_link_timer [inv_dest]:
  "link_timer_at l k tm s = Some s' \<Longrightarrow> kernel_inv s \<Longrightarrow> kernel_inv s'"
  using tlinks_ok_link [of s l k tm s'] sched_inv_cong [of s' s]
  by (simp add: kernel_inv_def link_timer_at_eq)

lemma inv_timer_stop [inv_dest]:
  "rt_timer_stop tm s = Some (r, s') \<Longrightarrow> kernel_inv s \<Longrightarrow> kernel_inv s'"
  by (auto simp: rt_timer_stop_def Let_def Option.bind_eq_Some_conv split: if_splits)

lemma timer_stop_sel:
  "rt_timer_stop tm s = Some (r, s') \<Longrightarrow> threads s' = threads s \<and> lists s' = lists s \<and>
     ready_group s' = ready_group s \<and> cur_thread s' = cur_thread s"
  by (auto simp: rt_timer_stop_def Let_def Option.bind_eq_Some_conv set_tm_flag_def split: if_splits)

lemma inv_timer_control [inv_dest]:
  "rt_timer_control tm c s = Some (r, s') \<Longrightarrow> kernel_inv s \<Longrightarrow> kernel_inv s'"
  by (auto simp: rt_timer_control_def Option.bind_eq_Some_conv split: timer_ctrl.splits)

lemma timer_control_sel:
  "rt_timer_control tm c s = Some (r, s') \<Longrightarrow> threads s' = threads s \<and> lists s' = lists s \<and>
     ready_group s' = ready_group s \<and> cur_thread s' = cur_thread s"
  by (auto simp: rt_timer_control_def Option.bind_eq_Some_conv set_tm_flag_def split: timer_ctrl.splits)

lemma inv_timer_insert [inv_dest]:
  "timer_start_insert tm s = Some s' \<Longrightarrow> kernel_inv s \<Longrightarrow> kernel_inv s'"
  by (auto simp: timer_start_insert_def Let_def Option.bind_eq_Some_conv dest!: inv_link_timer)

lemma inv_object_detach [simp]: "kernel_inv (rt_object_detach x s) = kernel_inv s"
  by (simp add: rt_object_detach_def obj_unlink_def)

lemma inv_object_delete [inv_dest]:
  "rt_object_delete x s = Some s' \<Longrightarrow> kernel_inv s \<Longrightarrow> kernel_inv s'"
  by (auto simp: rt_object_delete_def Option.bind_eq_Some_conv obj_unlink_def)

lemma inv_timer_detach [inv_dest]:
  "rt_timer_detach tm s = Some (r, s') \<Longrightarrow> kernel_inv s \<Longrightarrow> kernel_inv s'"
  by (auto simp: rt_timer_detach_def Let_def Option.bind_eq_Some_conv)

lemma timer_detach_sel:
  "rt_timer_detach tm s = Some (r, s') \<Longrightarrow> threads s' = threads s \<and> lists s' = lists s"
  by (auto simp: rt_timer_detach_def Let_def Option.bind_eq_Some_conv set_tm_flag_def
      rt_object_detach_def obj_unlink_def)

section \<open>Threads\<close>

lemma mask_of:
  assumes "kernel_inv s" "stat_of s t = RT_THREAD_READY \<or> stat_of s t = RT_THREAD_SUSPEND"
  shows "unat (current_priority (threads s t)) < 32"
    "number_mask (threads s t) = 2 ^ unat (current_priority (threads s t))"
  using sched_invD(3) [OF kernel_invD(1) [OF assms(1)]] assms(2) unfolding mask_ok_def by blast+

lemma inv_thread_suspend [inv_dest]:
  assumes "rt_thread_suspend t s = Some (r, s')" "kernel_inv s"
  shows "kernel_inv s'"
proof (cases "stat_of s t = RT_THREAD_READY")
  case True
  then obtain s1 r1 where s1: "rt_schedule_remove_thread t s = Some s1"
      "rt_timer_stop (ThreadTimer t) (upd_thread t (\<lambda>th. th\<lparr>stat := with_stat RT_THREAD_SUSPEND (stat th)\<rparr>) s1) =
        Some (r1, s')"
    using assms(1) by (auto simp: rt_thread_suspend_def Option.bind_eq_Some_conv Let_def split: if_splits)
  have "kernel_inv s1" using inv_remove [OF s1(1) assms(2)] True by simp
  moreover have "t_link (threads s1 t) = None" "number_mask (threads s1 t) = number_mask (threads s t)"
      "current_priority (threads s1 t) = current_priority (threads s t)"
    using remove_sel(1) [OF s1(1)] by simp_all
  ultimately show ?thesis
    using s1(2) mask_of [OF assms(2) disjI1 [OF True]]
    by (auto intro!: inv_timer_stop [OF s1(2)] kernel_inv_upd_unlinked)
next
  case False
  then show ?thesis using assms by (auto simp: rt_thread_suspend_def Option.bind_eq_Some_conv split: if_splits)
qed

lemma inv_thread_resume [inv_dest]:
  assumes "rt_thread_resume t s = Some (r, s')" "kernel_inv s"
  shows "kernel_inv s'"
proof (cases "stat_of s t = RT_THREAD_SUSPEND")
  case True
  then obtain s1 r1 where s1: "rt_timer_stop (ThreadTimer t) (unlink_thread t s) = Some (r1, s1)"
      "rt_schedule_insert_thread t s1 = Some s'"
    using assms(1) by (auto simp: rt_thread_resume_def Option.bind_eq_Some_conv Let_def split: if_splits)
  have "kernel_inv s1" using inv_timer_stop [OF s1(1)] inv_unlink [OF assms(2)] True by simp
  then show ?thesis
    using inv_insert [OF s1(2)] timer_stop_sel [OF s1(1)] mask_of [OF assms(2) disjI2 [OF True]] by simp
next
  case False
  then show ?thesis using assms by (auto simp: rt_thread_resume_def Option.bind_eq_Some_conv split: if_splits)
qed

lemma inv_timer_start [inv_dest]:
  "rt_timer_start tm s = Some (r, s') \<Longrightarrow> kernel_inv s \<Longrightarrow> kernel_inv s'"
  by (auto simp: rt_timer_start_def Option.bind_eq_Some_conv split: if_splits dest!: inv_dest)

lemma inv_thread_timeout [inv_dest]:
  assumes "rt_thread_timeout t s = Some s'" "kernel_inv s"
  shows "kernel_inv s'"
proof -
  let ?s1 = "upd_thread t (\<lambda>th. th\<lparr>thread_error := - RT_ETIMEOUT\<rparr>) s"
  obtain s2 where s2: "stat_of s t = RT_THREAD_SUSPEND"
      "rt_schedule_insert_thread t (unlink_thread t ?s1) = Some s2" "rt_schedule s2 = Some s'"
    using assms(1) by (auto simp: rt_thread_timeout_def Option.bind_eq_Some_conv Let_def)
  have "kernel_inv (unlink_thread t ?s1)" using assms(2) s2(1) by (intro inv_unlink) (simp_all add: stat_of_def)
  then have "kernel_inv s2" using inv_insert [OF s2(2)] mask_of [OF assms(2) disjI2 [OF s2(1)]] by simp
  then show ?thesis using inv_schedule [OF s2(3)] by simp
qed

lemma inv_link_waiting:
  assumes "link_thread_at l k t s = Some s'" "kernel_inv s" "\<And>p. l \<noteq> ReadyQ p" "stat_of s t \<noteq> RT_THREAD_READY"
  shows "kernel_inv s'"
proof (rule kernel_invI)
  note i = sched_invD [OF kernel_invD(1) [OF assms(2)]]
  have L: "lists s' (ReadyQ p) = lists s (ReadyQ p)" for p
    using assms(1,3) by (auto simp: link_thread_at_eq)
  have T: "threads s' = (threads s)(t := (threads s t)\<lparr>t_link := Some l\<rparr>)" "ready_group s' = ready_group s"
    using assms(1) by (auto simp: link_thread_at_eq)
  have "ready_ok s'" using i(2) unfolding ready_ok_def stat_of_def L T by auto
  moreover have "mask_ok s'" using i(3) unfolding mask_ok_def stat_of_def T by auto
  moreover have "group_ok s'" using i(4) unfolding group_ok_def L T by simp
  moreover have "ready_here s'"
    using i(5) assms(4) unfolding ready_here_def stat_of_def T by auto
  ultimately show "sched_inv s'" using links_ok_link [OF i(1) assms(1)] by (simp add: sched_inv_def)
  show "tlinks_ok s'"
    using kernel_invD(2) [OF assms(2)] assms(1) by (auto simp: tlinks_ok_def link_thread_at_eq)
qed

lemma inv_link_defunct:
  "link_thread_front Defunct t s = Some s' \<Longrightarrow> kernel_inv s \<Longrightarrow>
   stat_of s t \<noteq> RT_THREAD_READY \<Longrightarrow> kernel_inv s'"
  by (auto simp: link_thread_front_def intro: inv_link_waiting)

lemma inv_close:
  assumes "kernel_inv s" "t_link (threads s t) = None"
  shows "kernel_inv (thread_close t s)"
  unfolding thread_close_def using assms by (intro kernel_inv_upd_unlinked) simp_all

lemma inv_thread_delete [inv_dest]:
  assumes "rt_thread_delete t s = Some (r, s')" "kernel_inv s"
    and st: "stat_of s t = RT_THREAD_INIT \<Longrightarrow> t_link (threads s t) = None"
      "stat_of s t \<in> {RT_THREAD_INIT, RT_THREAD_READY, RT_THREAD_SUSPEND, RT_THREAD_CLOSE}"
  shows "kernel_inv s'"
proof (cases "stat_of s t = RT_THREAD_CLOSE")
  case True
  then show ?thesis using assms(1,2) by (auto simp: rt_thread_delete_def Option.bind_eq_Some_conv)
next
  case False
  then obtain s1 s2 r2 where s1: "(if stat_of s t \<noteq> RT_THREAD_INIT then rt_schedule_remove_thread t s else Some s) = Some s1"
      "rt_timer_detach (ThreadTimer t) s1 = Some (r2, s2)" "link_thread_front Defunct t (thread_close t s2) = Some s'"
    using assms(1) by (auto simp: rt_thread_delete_def Option.bind_eq_Some_conv Let_def split: if_splits)
  have "kernel_inv s1" "t_link (threads s1 t) = None"
    using s1(1) assms(2) st False inv_remove [of t s s1] remove_sel(1) [of t s s1] by (auto split: if_splits)
  then have "kernel_inv (thread_close t s2)"
    using inv_timer_detach [OF s1(2)] timer_detach_sel [OF s1(2)] by (intro inv_close) auto
  then show ?thesis by (rule inv_link_defunct [OF s1(3)]) (simp add: thread_close_def stat_of_def)
qed

lemma inv_thread_detach [inv_dest]:
  assumes "rt_thread_detach t s = Some (r, s')" "kernel_inv s"
    and st: "stat_of s t = RT_THREAD_INIT \<Longrightarrow> t_link (threads s t) = None"
      "stat_of s t \<in> {RT_THREAD_INIT, RT_THREAD_READY, RT_THREAD_SUSPEND, RT_THREAD_CLOSE}"
  shows "kernel_inv s'"
proof (cases "stat_of s t = RT_THREAD_CLOSE")
  case True
  then show ?thesis using assms(1,2) by (auto simp: rt_thread_detach_def Option.bind_eq_Some_conv)
next
  case False
  then obtain s1 s2 r2 where s1: "(if stat_of s t \<noteq> RT_THREAD_INIT then rt_schedule_remove_thread t s else Some s) = Some s1"
      "rt_timer_detach (ThreadTimer t) s1 = Some (r2, s2)"
      "s' = rt_object_detach (ThreadObj t) (thread_close t s2) \<or> link_thread_front Defunct t (thread_close t s2) = Some s'"
    using assms(1) by (auto simp: rt_thread_detach_def Option.bind_eq_Some_conv Let_def split: if_splits)
  have "kernel_inv s1" "t_link (threads s1 t) = None"
    using s1(1) assms(2) st False inv_remove [of t s s1] remove_sel(1) [of t s s1] by (auto split: if_splits)
  then have "kernel_inv (thread_close t s2)"
    using inv_timer_detach [OF s1(2)] timer_detach_sel [OF s1(2)] by (intro inv_close) auto
  then show ?thesis using s1(3) inv_link_defunct [of t "thread_close t s2" s']
    by (auto simp: thread_close_def stat_of_def)
qed

lemma inv_thread_yield [inv_dest]:
  assumes "rt_thread_yield s = Some (r, s')" "kernel_inv s"
  shows "kernel_inv s'"
proof -
  note i = sched_invD [OF kernel_invD(1) [OF assms(2)]]
  obtain t where t: "cur_thread s = Some t" using assms(1) by (auto simp: rt_thread_yield_def Option.bind_eq_Some_conv)
  show ?thesis
  proof (cases "stat_of s t = RT_THREAD_READY \<and>
        (case t_link (threads s t) of None \<Rightarrow> False | Some l \<Rightarrow> length (lists s l) \<noteq> 1)")
    case True
    let ?p = "unat (current_priority (threads s t))"
    obtain s1 where s1: "link_thread_back (ReadyQ ?p) t (unlink_thread t s) = Some s1" "rt_schedule s1 = Some s'"
      using assms(1) t True by (auto simp: rt_thread_yield_def Option.bind_eq_Some_conv Let_def)
    have here: "t_link (threads s t) = Some (ReadyQ ?p)"
      using True i(5) by (auto simp: ready_here_def split: option.splits)
    then have mem: "t \<in> set (lists s (ReadyQ ?p))" using i(1) by (simp add: links_ok_def)
    have L: "lists s1 (ReadyQ q) = (if q = ?p then remove1 t (lists s (ReadyQ q)) @ [t] else remove1 t (lists s (ReadyQ q)))" for q
      using s1(1) by (auto simp: link_back_eq unlink_thread_lists [OF i(1)])
    have set_L: "set (lists s1 (ReadyQ q)) = set (lists s (ReadyQ q))" for q
    proof (cases "q = ?p")
      case True
      then show ?thesis using mem i(1) by (auto simp: L links_ok_def)
    next
      case False
      then have "t \<notin> set (lists s (ReadyQ q))" using i(1) here by (simp add: links_ok_def)
      then show ?thesis using False by (simp add: L remove1_idem)
    qed
    have T: "threads s1 = threads s" "ready_group s1 = ready_group s" "tlists s1 = tlists s" "timers s1 = timers s"
      using s1(1) here by (auto simp: link_back_eq fun_eq_iff)
    have "links_ok s1"
      using links_ok_link [OF links_ok_unlink [OF i(1)]] s1(1) unfolding link_thread_back_def by blast
    moreover have "ready_ok s1" using i(2) unfolding ready_ok_def set_L T stat_of_def .
    moreover have "mask_ok s1" using i(3) unfolding mask_ok_def T stat_of_def .
    moreover have "group_ok s1"
      using i(4) set_L unfolding group_ok_def T by (metis set_empty)
    moreover have "ready_here s1" using i(5) unfolding ready_here_def T stat_of_def .
    ultimately have "kernel_inv s1"
      using kernel_invD(2) [OF assms(2)] tlinks_ok_cong [OF T(3,4)] by (simp add: kernel_inv_def sched_inv_def)
    then show ?thesis by (rule inv_schedule [OF s1(2)])
  next
    case False
    then show ?thesis using assms t by (auto simp: rt_thread_yield_def Option.bind_eq_Some_conv split: if_splits)
  qed
qed

lemma inv_schedule_then:
  assumes "schedule_then t l rest s = Some (r, s')" "kernel_inv s"
    and "\<And>s1 r1 s2. rest s1 = Some (r1, s2) \<Longrightarrow> kernel_inv s1 \<Longrightarrow> kernel_inv s2"
  shows "kernel_inv s'"
  using assms inv_schedule unfolding schedule_then_def
  by (auto simp: Option.bind_eq_Some_conv split: if_splits)

lemma inv_sleep_resumed:
  "rt_thread_sleep_resumed t s = Some (r, s') \<Longrightarrow> kernel_inv s \<Longrightarrow> kernel_inv s'"
  by (auto simp: rt_thread_sleep_resumed_def)

lemma inv_delay_until_resumed:
  "rt_thread_delay_until_resumed t s = Some (r, s') \<Longrightarrow> kernel_inv s \<Longrightarrow> kernel_inv s'"
  by (auto simp: rt_thread_delay_until_resumed_def Let_def)

lemma inv_thread_sleep [inv_dest]:
  "rt_thread_sleep tick s = Some (r, s') \<Longrightarrow> kernel_inv s \<Longrightarrow> kernel_inv s'"
  unfolding rt_thread_sleep_def
  by (auto simp: Option.bind_eq_Some_conv dest!: inv_dest elim: inv_schedule_then inv_sleep_resumed)

lemma inv_thread_delay_until [inv_dest]:
  "rt_thread_delay_until tick inc s = Some (r, s') \<Longrightarrow> kernel_inv s \<Longrightarrow> kernel_inv s'"
  unfolding rt_thread_delay_until_def
  by (auto simp: Option.bind_eq_Some_conv Let_def dest!: inv_dest elim: inv_schedule_then inv_delay_until_resumed
      split: if_splits)

lemma inv_set_priority:
  assumes "set_priority t p s = Some s'" "kernel_inv s" "stat_of s t \<noteq> RT_THREAD_READY \<or> t_link (threads s t) = None"
  shows "kernel_inv s'"
proof -
  note i = sched_invD [OF kernel_invD(1) [OF assms(2)]]
  have p: "unat p < 32" and s': "s' = upd_thread t (\<lambda>th. th\<lparr>current_priority := p, number_mask := push_bit (unat p) 1\<rparr>) s"
    using assms(1) by (auto simp: set_priority_def Option.bind_eq_Some_conv word_less_nat_alt)
  have nr: "t \<notin> set (lists s (ReadyQ q))" for q
    using assms(3) i(1,2) unfolding ready_ok_def links_ok_def by auto
  have "links_ok s'" using i(1) by (auto simp: s' links_ok_def)
  moreover have "ready_ok s'" using i(2) nr unfolding s' ready_ok_def stat_of_def by auto
  moreover have "mask_ok s'" using i(3) p unfolding s' mask_ok_def stat_of_def by auto
  moreover have "group_ok s'" using i(4) by (simp add: s' group_ok_def)
  moreover have "ready_here s'" using i(5) assms(3) unfolding s' ready_here_def stat_of_def by auto
  ultimately show ?thesis
    using kernel_invD(2) [OF assms(2)] by (simp add: kernel_inv_def sched_inv_def tlinks_ok_def s')
qed

lemma inv_change_priority:
  assumes "rt_thread_control t (RT_THREAD_CTRL_CHANGE_PRIORITY p) s = Some (r, s')" "kernel_inv s"
  shows "kernel_inv s'"
proof (cases "stat_of s t = RT_THREAD_READY")
  case True
  then obtain s1 s2 where s: "rt_schedule_remove_thread t s = Some s1" "set_priority t p s1 = Some s2"
      "rt_schedule_insert_thread t s2 = Some s'"
    using assms(1) by (auto simp: rt_thread_control_def Option.bind_eq_Some_conv)
  have "kernel_inv s2"
    using inv_set_priority [OF s(2)] inv_remove [OF s(1) assms(2)] remove_sel(1) [OF s(1)] True by simp
  moreover have "number_mask (threads s2 t) = 2 ^ unat (current_priority (threads s2 t))"
    using s(2) by (auto simp: set_priority_def Option.bind_eq_Some_conv)
  ultimately show ?thesis by (rule inv_insert [OF s(3)])
next
  case False
  then show ?thesis using assms inv_set_priority [of t p s s']
    by (auto simp: rt_thread_control_def Option.bind_eq_Some_conv)
qed

lemma inv_thread_startup [inv_dest]:
  assumes "rt_thread_startup t s = Some (r, s')" "kernel_inv s" "t_link (threads s t) = None"
  shows "kernel_inv s'"
proof -
  let ?f = "\<lambda>th. th\<lparr>current_priority := init_priority (threads s t),
      number_mask := push_bit (unat (init_priority (threads s t))) 1, stat := RT_THREAD_SUSPEND\<rparr>"
  obtain s1 r1 where s1: "init_priority (threads s t) < 32" "rt_thread_resume t (upd_thread t ?f s) = Some (r1, s1)"
      "s' = s1 \<or> rt_schedule s1 = Some s'"
    using assms(1) by (auto simp: rt_thread_startup_def Option.bind_eq_Some_conv Let_def split: if_splits)
  have "kernel_inv (upd_thread t ?f s)"
    using assms(2,3) s1(1) by (intro kernel_inv_upd_unlinked) (simp_all add: word_less_nat_alt)
  then have "kernel_inv s1" by (rule inv_thread_resume [OF s1(2)])
  then show ?thesis using s1(3) inv_schedule by blast
qed

lemma inv_thread_exit:
  assumes "rt_thread_exit s = Some s'" "kernel_inv s"
    and st: "\<And>t. cur_thread s = Some t \<Longrightarrow> stat_of s t = RT_THREAD_READY"
  shows "kernel_inv s'"
proof -
  obtain t s1 s2 s3 r2 where s1: "cur_thread s = Some t" "rt_schedule_remove_thread t s = Some s1"
      "rt_timer_detach (ThreadTimer t) (thread_close t s1) = Some (r2, s2)"
      "(if rt_object_is_systemobject (ThreadObj t) s2 then Some (rt_object_detach (ThreadObj t) s2)
        else link_thread_front Defunct t s2) = Some s3"
      "rt_schedule s3 = Some s'"
    using assms(1) by (auto simp: rt_thread_exit_def Option.bind_eq_Some_conv Let_def)
  have "kernel_inv (thread_close t s1)"
    using inv_remove [OF s1(2) assms(2)] st [OF s1(1)] remove_sel(1) [OF s1(2)] by (intro inv_close) simp_all
  then have "kernel_inv s2" by (rule inv_timer_detach [OF s1(3)])
  moreover have "stat_of s2 t \<noteq> RT_THREAD_READY"
    using timer_detach_sel [OF s1(3)] by (simp add: stat_of_def thread_close_def)
  ultimately have "kernel_inv s3" using s1(4) inv_link_defunct by (auto split: if_splits)
  then show ?thesis by (rule inv_schedule [OF s1(5)])
qed

section \<open>Creation of threads, and objects\<close>

lemma inv_exit_critical [inv_dest]:
  "rt_exit_critical s = Some s' \<Longrightarrow> kernel_inv s \<Longrightarrow> kernel_inv s'"
  by (auto simp: rt_exit_critical_def Let_def split: if_splits dest!: inv_schedule)

lemma inv_enter_critical [simp]: "kernel_inv (rt_enter_critical s) = kernel_inv s"
  by (simp add: rt_enter_critical_def)

lemma inv_object_init [inv_dest]:
  "rt_object_init x ty name s = Some s' \<Longrightarrow> kernel_inv s \<Longrightarrow> kernel_inv s'"
  by (auto simp: rt_object_init_def Option.bind_eq_Some_conv Let_def obj_link_front_def dest!: inv_exit_critical)

lemma object_init_sel:
  "rt_object_init x ty name s = Some s' \<Longrightarrow> threads s' = threads s \<and> timers s' = timers s"
  by (auto simp: rt_object_init_def Option.bind_eq_Some_conv Let_def obj_link_front_def rt_exit_critical_def
      rt_enter_critical_def split: if_splits dest!: rt_schedule_objs)

lemma inv_timer_init:
  assumes "rt_timer_init tm name f time flag s = Some s'" "kernel_inv s" "tm_link (timers s tm) = None"
  shows "kernel_inv s'"
proof -
  obtain s1 where s1: "rt_object_init (TimerObj tm) RT_Object_Class_Timer name s = Some s1"
      "s' = rt_timer_init_fields tm f time flag s1"
    using assms(1) by (auto simp: rt_timer_init_def Option.bind_eq_Some_conv)
  have "tm_link (timers s1 tm) = None" using object_init_sel [OF s1(1)] assms(3) by simp
  then have "kernel_inv s' = kernel_inv s1"
    unfolding s1(2) rt_timer_init_fields_def Let_def
    by (intro kernel_inv_cong) (auto simp: set_tm_flag_def)
  then show ?thesis using inv_object_init [OF s1(1) assms(2)] by simp
qed

lemma inv_thread_init_fields:
  assumes "rt_thread_init_fields t e a st sz p tick s = Some (r, s')" "kernel_inv s"
    and "tm_link (timers s (ThreadTimer t)) = None"
  shows "kernel_inv s'"
proof -
  let ?s1 = "upd_thread t (thread_init_record e a st sz p tick) s"
  obtain nm where f: "t_link (threads s t) = None"
      "rt_timer_init (ThreadTimer t) nm (Rt_thread_timeout t) 0 0 ?s1 = Some s'"
    using assms(1) unfolding rt_thread_init_fields_def by (auto simp: Option.bind_eq_Some_conv Let_def)
  have "kernel_inv ?s1"
    using assms(2) f(1) by (intro kernel_inv_upd_unlinked) (simp_all add: thread_init_record_def)
  then show ?thesis using inv_timer_init [OF f(2)] assms(3) by simp
qed

lemma inv_thread_init:
  assumes "rt_thread_init t nm e a st sz p tick s = Some (r, s')" "kernel_inv s"
    and "tm_link (timers s (ThreadTimer t)) = None"
  shows "kernel_inv s'"
proof -
  obtain s1 where s1: "rt_object_init (ThreadObj t) RT_Object_Class_Thread nm s = Some s1"
      "rt_thread_init_fields t e a st sz p tick s1 = Some (r, s')"
    using assms(1) by (auto simp: rt_thread_init_def Option.bind_eq_Some_conv)
  show ?thesis
    using inv_thread_init_fields [OF s1(2) inv_object_init [OF s1(1) assms(2)]] object_init_sel [OF s1(1)] assms(3)
    by simp
qed

section \<open>Timer checks and the tick\<close>

definition cb_ok :: "(nat \<Rightarrow> kstate \<Rightarrow> kstate option) \<Rightarrow> bool" where
  "cb_ok cb \<longleftrightarrow> (\<forall>k s s'. kernel_inv s \<longrightarrow> cb k s = Some s' \<longrightarrow> kernel_inv s')"

lemma inv_call_timeout:
  "call_timeout cb f s = Some s' \<Longrightarrow> kernel_inv s \<Longrightarrow> cb_ok cb \<Longrightarrow> kernel_inv s'"
  by (cases f) (auto simp: call_timeout_def cb_ok_def dest: inv_thread_timeout)

lemma inv_check_take:
  "check_take own tm s = Some s' \<Longrightarrow> kernel_inv s \<Longrightarrow> kernel_inv s'"
  by (auto simp: check_take_def Let_def dest!: inv_link_timer split: if_splits)

lemma inv_check_restart:
  "check_restart own tm s = Some s' \<Longrightarrow> kernel_inv s \<Longrightarrow> kernel_inv s'"
  by (auto simp: check_restart_def Let_def Option.bind_eq_Some_conv dest!: inv_timer_start split: if_splits)

lemma inv_timer_check_loop:
  assumes "timer_check_loop cb tick s = Some s'" "kernel_inv s" "cb_ok cb"
  shows "kernel_inv s'"
proof -
  have "kernel_inv s \<longrightarrow> cb_ok cb \<longrightarrow> kernel_inv s'"
  proof (rule timer_check_loop.raw_induct
      [where P = "\<lambda>cb tick s s'. kernel_inv s \<longrightarrow> cb_ok cb \<longrightarrow> kernel_inv s'", OF _ assms(1)], intro impI)
    fix loop :: "(nat \<Rightarrow> kstate \<Rightarrow> kstate option) \<Rightarrow> u32 \<Rightarrow> kstate \<Rightarrow> kstate option"
      and cb tick s s'
    assume IH: "\<And>cb tick s s'. loop cb tick s = Some s' \<Longrightarrow> kernel_inv s \<longrightarrow> cb_ok cb \<longrightarrow> kernel_inv s'"
      and step: "(case tlists s TimerList of [] \<Rightarrow> Some s
        | tm # _ \<Rightarrow>
          (if tick - timeout_tick (timers s tm) < RT_TICK_HALF
           then Option.bind (check_take CheckList tm s) (\<lambda>s.
                Option.bind (call_timeout cb (timeout_func (timers s tm)) s) (\<lambda>s.
                Option.bind (check_restart CheckList tm s) (\<lambda>s'. loop cb (rt_tick_get s) s')))
           else Some s)) = Some s'"
      and inv: "kernel_inv s" "cb_ok cb"
    show "kernel_inv s'"
    proof (cases "s' = s")
      case False
      then obtain tm s1 s2 s3 where "check_take CheckList tm s = Some s1"
          "call_timeout cb (timeout_func (timers s1 tm)) s1 = Some s2" "check_restart CheckList tm s2 = Some s3"
          "loop cb (rt_tick_get s2) s3 = Some s'"
        using step by (auto simp: Option.bind_eq_Some_conv split: list.splits if_splits)
      then show ?thesis using IH inv inv_check_take inv_call_timeout inv_check_restart by meson
    qed (use inv in simp)
  qed
  then show ?thesis using assms(2,3) by simp
qed

lemma inv_soft_timer_check_loop:
  assumes "soft_timer_check_loop cb s = Some s'" "kernel_inv s" "cb_ok cb"
  shows "kernel_inv s'"
proof -
  have "kernel_inv s \<longrightarrow> cb_ok cb \<longrightarrow> kernel_inv s'"
  proof (rule soft_timer_check_loop.raw_induct
      [where P = "\<lambda>cb s s'. kernel_inv s \<longrightarrow> cb_ok cb \<longrightarrow> kernel_inv s'", OF _ assms(1)], intro impI)
    fix loop :: "(nat \<Rightarrow> kstate \<Rightarrow> kstate option) \<Rightarrow> kstate \<Rightarrow> kstate option" and cb s s'
    assume IH: "\<And>cb s s'. loop cb s = Some s' \<Longrightarrow> kernel_inv s \<longrightarrow> cb_ok cb \<longrightarrow> kernel_inv s'"
      and step: "(case tlists s SoftTimerList of [] \<Rightarrow> Some s
        | tm # _ \<Rightarrow>
          (if rt_tick_get s - timeout_tick (timers s tm) < RT_TICK_HALF
           then Option.bind (check_take SoftCheckList tm s) (\<lambda>s.
                Option.bind (call_timeout cb (timeout_func (timers s tm)) (s\<lparr>soft_timer_busy := True\<rparr>)) (\<lambda>s.
                Option.bind (check_restart SoftCheckList tm (s\<lparr>soft_timer_busy := False\<rparr>)) (\<lambda>s. loop cb s)))
           else Some s)) = Some s'"
      and inv: "kernel_inv s" "cb_ok cb"
    show "kernel_inv s'"
    proof (cases "s' = s")
      case False
      then obtain tm s1 s2 s3 where st: "check_take SoftCheckList tm s = Some s1"
          "call_timeout cb (timeout_func (timers s1 tm)) (s1\<lparr>soft_timer_busy := True\<rparr>) = Some s2"
          "check_restart SoftCheckList tm (s2\<lparr>soft_timer_busy := False\<rparr>) = Some s3" "loop cb s3 = Some s'"
        using step by (auto simp: Option.bind_eq_Some_conv split: list.splits if_splits)
      have "kernel_inv (s1\<lparr>soft_timer_busy := True\<rparr>)" using inv_check_take [OF st(1) inv(1)] by simp
      then have "kernel_inv (s2\<lparr>soft_timer_busy := False\<rparr>)" using inv_call_timeout [OF st(2)] inv(2) by simp
      then show ?thesis using inv_check_restart [OF st(3)] IH [OF st(4)] inv(2) by simp
    qed (use inv in simp)
  qed
  then show ?thesis using assms(2,3) by simp
qed

lemma inv_timer_check [inv_dest]:
  "rt_timer_check cb s = Some s' \<Longrightarrow> kernel_inv s \<Longrightarrow> cb_ok cb \<Longrightarrow> kernel_inv s'"
  by (auto simp: rt_timer_check_def Option.bind_eq_Some_conv dest: inv_timer_check_loop)

lemma inv_soft_timer_check [inv_dest]:
  "rt_soft_timer_check cb s = Some s' \<Longrightarrow> kernel_inv s \<Longrightarrow> cb_ok cb \<Longrightarrow> kernel_inv s'"
  by (auto simp: rt_soft_timer_check_def Option.bind_eq_Some_conv dest: inv_soft_timer_check_loop)

lemma inv_timer_thread_wait [inv_dest]:
  "timer_thread_wait s = Some (r, s') \<Longrightarrow> kernel_inv s \<Longrightarrow> kernel_inv s'"
  unfolding timer_thread_wait_def
  by (auto simp: Option.bind_eq_Some_conv Let_def rt_thread_delay_def dest!: inv_dest elim: inv_schedule_then
      split: if_splits)

lemma inv_tick_increase [inv_dest]:
  assumes "rt_tick_increase cb s = Some s'" "kernel_inv s" "cb_ok cb"
  shows "kernel_inv s'"
  using assms unfolding rt_tick_increase_def
  by (auto simp: Option.bind_eq_Some_conv Let_def dest!: inv_thread_yield inv_timer_check split: if_splits)

text \<open>Whatever the state, a tick interrupt keeps the kernel's queues well formed.\<close>

lemma inv_SysTick_Handler [inv_dest]:
  assumes "SysTick_Handler cb s = Some s'" "kernel_inv s" "cb_ok cb"
  shows "kernel_inv s'"
  using assms unfolding SysTick_Handler_def
  by (auto simp: Option.bind_eq_Some_conv rt_interrupt_enter_def rt_interrupt_leave_def dest!: inv_tick_increase)

end
