(* ===== verification/Ipc.thy ===== *)
theory Ipc
  imports KInv
begin

text \<open>
  What the inter-process communication objects of \<open>src/src/ipc.c\<close> share: the lists of waiting
  threads, in order of arrival or of priority, and the loop of the routines that wait for room or
  for a message with a timeout.
\<close>

section \<open>Waiting lists\<close>

abbreviation (input) RT_IPC_FLAG_FIFO :: u8 where "RT_IPC_FLAG_FIFO \<equiv> 0"
abbreviation (input) RT_IPC_FLAG_PRIO :: u8 where "RT_IPC_FLAG_PRIO \<equiv> 1"

text \<open>\<open>RT_DEBUG_NOT_IN_INTERRUPT\<close> and \<open>RT_DEBUG_IN_THREAD_CONTEXT\<close> of \<open>src/include/rtdebug.h\<close>.\<close>

definition not_in_interrupt :: "kstate \<Rightarrow> unit option" where
  "not_in_interrupt s = rt_assert (interrupt_nest s = 0)"

definition in_thread_context :: "kstate \<Rightarrow> unit option" where
  "in_thread_context s = do {
     rt_assert (rt_thread_self s \<noteq> None);
     not_in_interrupt s
   }"

text \<open>The head of a list that still has members must not be initialised again.\<close>

definition rt_ipc_object_init :: "lid \<Rightarrow> kstate \<Rightarrow> kstate option" where
  "rt_ipc_object_init l s = do { c_defined (lists s l = []); Some s }"

text \<open>The position before the first waiting thread of a strictly lower urgency.\<close>

fun prio_pos :: "(tid \<Rightarrow> rt_thread) \<Rightarrow> u8 \<Rightarrow> tid list \<Rightarrow> nat" where
  "prio_pos ths p [] = 0"
| "prio_pos ths p (u # us) = (if p < current_priority (ths u) then 0 else Suc (prio_pos ths p us))"

definition rt_ipc_list_suspend :: "lid \<Rightarrow> tid \<Rightarrow> u8 \<Rightarrow> kstate \<Rightarrow> kstate option" where
  "rt_ipc_list_suspend l t flag s = do {
     (_, s) \<leftarrow> rt_thread_suspend t s;
     if flag = RT_IPC_FLAG_FIFO then link_thread_back l t s
     else if flag = RT_IPC_FLAG_PRIO
     then link_thread_at l (prio_pos (threads s) (current_priority (threads s t)) (lists s l)) t s
     else Some s
   }"

definition rt_ipc_list_resume :: "lid \<Rightarrow> kstate \<Rightarrow> kstate option" where
  "rt_ipc_list_resume l s = do {
     c_defined (lists s l \<noteq> []);
     (_, s) \<leftarrow> rt_thread_resume (hd (lists s l)) s;
     Some s
   }"

text \<open>The loop ends when the list is empty; a member that cannot be resumed stays and the loop
  runs for ever.\<close>

partial_function (option) rt_ipc_list_resume_all :: "lid \<Rightarrow> kstate \<Rightarrow> kstate option" where
  "rt_ipc_list_resume_all l s =
     (case lists s l of
        [] \<Rightarrow> Some s
      | t # _ \<Rightarrow>
          Option.bind (rt_thread_resume t (upd_thread t (\<lambda>th. th\<lparr>thread_error := - RT_ERROR\<rparr>) s))
            (\<lambda>(_, s). rt_ipc_list_resume_all l s))"

section \<open>Waiting with a timeout\<close>

text \<open>The common part of all blocking calls: queue up and, for a positive time, arm the thread's
  timer.\<close>

definition arm_timer :: "tid \<Rightarrow> int \<Rightarrow> kstate \<Rightarrow> kstate option" where
  "arm_timer t time s =
     (if time > 0 then do {
       (_, s) \<leftarrow> rt_timer_control (ThreadTimer t) (RT_TIMER_CTRL_SET_TIME (word_of_int time)) s;
       (_, s) \<leftarrow> rt_timer_start (ThreadTimer t) s;
       Some s
     }
     else Some s)"

definition ipc_wait :: "lid \<Rightarrow> tid \<Rightarrow> u8 \<Rightarrow> int \<Rightarrow> kstate \<Rightarrow> kstate option" where
  "ipc_wait l t flag time s = do {
     s \<leftarrow> rt_ipc_list_suspend l t flag s;
     arm_timer t time s
   }"

text \<open>Mailboxes and message queues wait in a loop.  A round of the loop either finishes the call or
  stops before \<open>rt_schedule\<close>, with the tick at which the waiting began; afterwards the time that
  is left is recomputed in 32-bit arithmetic.\<close>

datatype 'a round = Done 'a | Wait tid u32

definition time_left :: "int \<Rightarrow> u32 \<Rightarrow> u32 \<Rightarrow> int" where
  "time_left timeout tick_delta now =
     (if timeout > 0 then
        (let t = sint (word_of_int timeout - (now - tick_delta) :: u32) in if t < 0 then 0 else t)
      else timeout)"

partial_function (option) wait_loop ::
  "(int \<Rightarrow> kstate \<Rightarrow> ('a round \<times> kstate) option) \<Rightarrow> (rt_err_t \<Rightarrow> 'a) \<Rightarrow> int \<Rightarrow> kstate \<Rightarrow>
   ((int \<times> u32, 'a) outcome \<times> kstate) option" where
  "wait_loop body fail timeout s =
     Option.bind (body timeout s) (\<lambda>(r, s).
       case r of
         Done a \<Rightarrow> Some (Return a, s)
       | Wait t tick_delta \<Rightarrow>
           Option.bind (rt_schedule s) (\<lambda>s.
             if cur_thread s = Some t then
               (if thread_error (threads s t) \<noteq> RT_EOK then Some (Return (fail (thread_error (threads s t))), s)
                else wait_loop body fail (time_left timeout tick_delta (rt_tick_get s)) s)
             else Some (Blocked (timeout, tick_delta), s)))"

text \<open>What runs when thread \<open>t\<close> is chosen again.\<close>

definition wait_resumed ::
  "(int \<Rightarrow> kstate \<Rightarrow> ('a round \<times> kstate) option) \<Rightarrow> (rt_err_t \<Rightarrow> 'a) \<Rightarrow> tid \<Rightarrow> int \<times> u32 \<Rightarrow> kstate \<Rightarrow>
   ((int \<times> u32, 'a) outcome \<times> kstate) option" where
  "wait_resumed body fail t locals s =
     (if thread_error (threads s t) \<noteq> RT_EOK then Some (Return (fail (thread_error (threads s t))), s)
      else wait_loop body fail (time_left (fst locals) (snd locals) (rt_tick_get s)) s)"

definition set_error :: "tid \<Rightarrow> rt_err_t \<Rightarrow> kstate \<Rightarrow> kstate" where
  "set_error t e s = upd_thread t (\<lambda>th. th\<lparr>thread_error := e\<rparr>) s"

definition set_flag :: "oid \<Rightarrow> u8 \<Rightarrow> kstate \<Rightarrow> kstate" where
  "set_flag x flag s = upd_obj x (\<lambda>ob. ob\<lparr>obj_flag := flag\<rparr>) s"

lemma kernel_inv_set_error [simp]: "kernel_inv (set_error t e s) = kernel_inv s"
  by (simp add: set_error_def)

lemma kernel_inv_set_flag [simp]: "kernel_inv (set_flag x f s) = kernel_inv s"
  by (simp add: set_flag_def)

section \<open>Preservation of the kernel invariant\<close>

lemma timer_stop_threads: "rt_timer_stop tm s = Some (r, s') \<Longrightarrow> threads s' = threads s"
  using timer_stop_sel by blast

lemma suspend_stat:
  "rt_thread_suspend t s = Some (r, s') \<Longrightarrow> stat_of s' t \<noteq> RT_THREAD_READY"
  by (auto simp: rt_thread_suspend_def Option.bind_eq_Some_conv stat_of_def Let_def split: if_splits
      dest!: timer_stop_threads)

lemma inv_list_suspend [inv_dest]:
  assumes "rt_ipc_list_suspend l t flag s = Some s'" "kernel_inv s" "\<And>p. l \<noteq> ReadyQ p"
  shows "kernel_inv s'"
proof -
  obtain r s1 where s1: "rt_thread_suspend t s = Some (r, s1)"
      "s' = s1 \<or> (\<exists>k. link_thread_at l k t s1 = Some s')"
    using assms(1) by (auto simp: rt_ipc_list_suspend_def Option.bind_eq_Some_conv link_thread_back_def split: if_splits)
  have "kernel_inv s1" by (rule inv_thread_suspend [OF s1(1) assms(2)])
  then show ?thesis using s1(2) inv_link_waiting assms(3) suspend_stat [OF s1(1)] by blast
qed

lemma inv_list_resume [inv_dest]:
  "rt_ipc_list_resume l s = Some s' \<Longrightarrow> kernel_inv s \<Longrightarrow> kernel_inv s'"
  by (auto simp: rt_ipc_list_resume_def Option.bind_eq_Some_conv dest!: inv_thread_resume)

lemma inv_list_resume_all [inv_dest]:
  assumes "rt_ipc_list_resume_all l s = Some s'" "kernel_inv s"
  shows "kernel_inv s'"
proof -
  have "kernel_inv s \<longrightarrow> kernel_inv s'"
  proof (rule rt_ipc_list_resume_all.raw_induct
      [where P = "\<lambda>l s s'. kernel_inv s \<longrightarrow> kernel_inv s'", OF _ assms(1)], intro impI)
    fix loop :: "lid \<Rightarrow> kstate \<Rightarrow> kstate option" and l s s'
    assume IH: "\<And>l s s'. loop l s = Some s' \<Longrightarrow> kernel_inv s \<longrightarrow> kernel_inv s'"
      and step: "(case lists s l of [] \<Rightarrow> Some s
        | t # _ \<Rightarrow> Option.bind (rt_thread_resume t (upd_thread t (\<lambda>th. th\<lparr>thread_error := - RT_ERROR\<rparr>) s))
            (\<lambda>(_, s). loop l s)) = Some s'"
      and inv: "kernel_inv s"
    show "kernel_inv s'"
      using step IH inv by (auto simp: Option.bind_eq_Some_conv split: list.splits dest!: inv_thread_resume)
  qed
  then show ?thesis using assms(2) by simp
qed

lemma inv_arm_timer [inv_dest]: "arm_timer t time s = Some s' \<Longrightarrow> kernel_inv s \<Longrightarrow> kernel_inv s'"
  unfolding arm_timer_def
  by (auto simp: Option.bind_eq_Some_conv dest!: inv_timer_control inv_timer_start split: if_splits)

lemma inv_ipc_wait [inv_dest]:
  "ipc_wait l t flag time s = Some s' \<Longrightarrow> kernel_inv s \<Longrightarrow> (\<And>p. l \<noteq> ReadyQ p) \<Longrightarrow> kernel_inv s'"
  unfolding ipc_wait_def by (auto simp: Option.bind_eq_Some_conv dest!: inv_list_suspend inv_arm_timer)

lemma inv_wait_loop:
  assumes "wait_loop body fail timeout s = Some (r, s')" "kernel_inv s"
    and body: "\<And>timeout s r s'. body timeout s = Some (r, s') \<Longrightarrow> kernel_inv s \<Longrightarrow> kernel_inv s'"
  shows "kernel_inv s'"
proof -
  let ?ok = "\<lambda>b. \<forall>timeout s r s'. b timeout s = Some (r, s') \<longrightarrow> kernel_inv s \<longrightarrow> kernel_inv s'"
  have "?ok body \<longrightarrow> kernel_inv s \<longrightarrow> kernel_inv (snd (r, s'))"
  proof (rule wait_loop.raw_induct
      [where P = "\<lambda>b f timeout s r. ?ok b \<longrightarrow> kernel_inv s \<longrightarrow> kernel_inv (snd r)", OF _ assms(1)], intro impI)
    fix loop :: "(int \<Rightarrow> kstate \<Rightarrow> ('a round \<times> kstate) option) \<Rightarrow> (rt_err_t \<Rightarrow> 'a) \<Rightarrow> int \<Rightarrow> kstate \<Rightarrow>
        ((int \<times> u32, 'a) outcome \<times> kstate) option"
      and b f timeout s and r :: "(int \<times> u32, 'a) outcome \<times> kstate"
    assume IH: "\<And>b f timeout s r. loop b f timeout s = Some r \<Longrightarrow> ?ok b \<longrightarrow> kernel_inv s \<longrightarrow> kernel_inv (snd r)"
      and step: "Option.bind (b timeout s) (\<lambda>(r, s).
       case r of
         Done a \<Rightarrow> Some (Return a, s)
       | Wait t tick_delta \<Rightarrow>
           Option.bind (rt_schedule s) (\<lambda>s.
             if cur_thread s = Some t then
               (if thread_error (threads s t) \<noteq> RT_EOK then Some (Return (f (thread_error (threads s t))), s)
                else loop b f (time_left timeout tick_delta (rt_tick_get s)) s)
             else Some (Blocked (timeout, tick_delta), s))) = Some r"
      and ok: "?ok b" and inv: "kernel_inv s"
    obtain r1 s1 where b: "b timeout s = Some (r1, s1)" using step by (auto simp: Option.bind_eq_Some_conv)
    then have i1: "kernel_inv s1" using ok inv by blast
    show "kernel_inv (snd r)"
    proof (cases r1)
      case (Done a)
      then show ?thesis using step b i1 by auto
    next
      case (Wait t td)
      then obtain s2 where s2: "rt_schedule s1 = Some s2" using step b by (auto simp: Option.bind_eq_Some_conv)
      have "kernel_inv s2" by (rule inv_schedule [OF s2 i1])
      then show ?thesis using step b Wait s2 IH ok by (auto split: if_splits)
    qed
  qed
  then show ?thesis using assms(2) body by auto
qed

lemma inv_wait_resumed:
  "wait_resumed body fail t loc s = Some (r, s') \<Longrightarrow> kernel_inv s \<Longrightarrow>
   (\<And>timeout s r s'. body timeout s = Some (r, s') \<Longrightarrow> kernel_inv s \<Longrightarrow> kernel_inv s') \<Longrightarrow> kernel_inv s'"
  unfolding wait_resumed_def by (auto split: if_splits elim: inv_wait_loop)

section \<open>The effect of suspending and resuming\<close>

definition thread_typed :: "kstate \<Rightarrow> tid \<Rightarrow> bool" where
  "thread_typed s t \<longleftrightarrow>
     rt_object_get_type (ThreadObj t) s = RT_Object_Class_Thread \<and>
     rt_object_get_type (TimerObj (ThreadTimer t)) s = RT_Object_Class_Timer"

text \<open>The parts of the state that the scheduler and the timers do not touch.\<close>

definition same_ipc :: "kstate \<Rightarrow> kstate \<Rightarrow> bool" where
  "same_ipc s s' \<longleftrightarrow>
     sems s' = sems s \<and> mutexes s' = mutexes s \<and> events s' = events s \<and> mailboxes s' = mailboxes s \<and>
     mqs s' = mqs s \<and> mps s' = mps s \<and> rt_tick s' = rt_tick s \<and> interrupt_nest s' = interrupt_nest s \<and>
     lock_nest s' = lock_nest s \<and> (\<forall>x. obj_type (objs s' x) = obj_type (objs s x))"

lemma same_ipc_refl [simp]: "same_ipc s s"
  by (simp add: same_ipc_def)

lemma same_ipc_trans: "same_ipc s s1 \<Longrightarrow> same_ipc s1 s2 \<Longrightarrow> same_ipc s s2"
  by (simp add: same_ipc_def)

lemma same_ipc_flag [simp]: "same_ipc s (set_tm_flag tm f s')  \<longleftrightarrow> same_ipc s s'"
  by (auto simp: same_ipc_def set_tm_flag_def)

lemma same_ipc_upd [simp]:
  "same_ipc s (upd_thread t f s') \<longleftrightarrow> same_ipc s s'" "same_ipc s (upd_timer tm g s') \<longleftrightarrow> same_ipc s s'"
  "same_ipc s (unlink_thread t s') \<longleftrightarrow> same_ipc s s'" "same_ipc s (unlink_timer tm s') \<longleftrightarrow> same_ipc s s'"
  "same_ipc s (s'\<lparr>lists := a\<rparr>) \<longleftrightarrow> same_ipc s s'" "same_ipc s (s'\<lparr>ready_group := b\<rparr>) \<longleftrightarrow> same_ipc s s'"
  "same_ipc s (s'\<lparr>cur_thread := c\<rparr>) \<longleftrightarrow> same_ipc s s'" "same_ipc s (s'\<lparr>cur_prio := d\<rparr>) \<longleftrightarrow> same_ipc s s'"
  "same_ipc s (s'\<lparr>random_nr := e\<rparr>) \<longleftrightarrow> same_ipc s s'" "same_ipc s (s'\<lparr>tlists := h\<rparr>) \<longleftrightarrow> same_ipc s s'"
  by (simp_all add: same_ipc_def)

lemma same_ipc_schedule: "rt_schedule s = Some s' \<Longrightarrow> same_ipc s s'"
  by (erule rt_schedule_cases) auto

lemma thread_typed_same: "same_ipc s s' \<Longrightarrow> thread_typed s' t = thread_typed s t"
  by (simp add: thread_typed_def same_ipc_def rt_object_get_type_def)

lemma timer_stop_some:
  assumes "rt_object_get_type (TimerObj tm) s = RT_Object_Class_Timer"
  shows "\<exists>r s'. rt_timer_stop tm s = Some (r, s') \<and> same_ipc s s' \<and> threads s' = threads s \<and>
           lists s' = lists s \<and> ready_group s' = ready_group s \<and> cur_thread s' = cur_thread s"
  using assms by (auto simp: rt_timer_stop_def Let_def set_tm_flag_def same_ipc_def)

lemma get_type_unlink [simp]: "rt_object_get_type x (unlink_thread t s) = rt_object_get_type x s"
  by (simp add: rt_object_get_type_def)

lemma resume_effect:
  assumes inv: "kernel_inv s" and ty: "thread_typed s t" and st: "stat_of s t = RT_THREAD_SUSPEND"
  obtains s1 where "rt_thread_resume t s = Some (RT_EOK, s1)" "kernel_inv s1" "same_ipc s s1"
    "cur_thread s1 = cur_thread s"
    "threads s1 = (threads s)(t := (threads s t)\<lparr>stat := with_stat RT_THREAD_READY (stat (threads s t)),
       t_link := Some (ReadyQ (unat (current_priority (threads s t))))\<rparr>)"
    "\<And>l. lists s1 l = (if l = ReadyQ (unat (current_priority (threads s t)))
                        then lists s l @ [t] else remove1 t (lists s l))"
proof -
  let ?u = "unlink_thread t s" and ?p = "unat (current_priority (threads s t))"
  note i = sched_invD [OF kernel_invD(1) [OF inv]]
  obtain r s0 where s0: "rt_timer_stop (ThreadTimer t) ?u = Some (r, s0)" "same_ipc ?u s0"
      "threads s0 = threads ?u" "lists s0 = lists ?u" "ready_group s0 = ready_group ?u" "cur_thread s0 = cur_thread ?u"
    using timer_stop_some [of "ThreadTimer t" ?u] ty by (auto simp: thread_typed_def)
  have p: "?p < 32" using mask_of(1) [OF inv disjI2 [OF st]] .
  have nr: "t \<notin> set (lists s (ReadyQ ?p))" using i(2) st unfolding ready_ok_def by auto
  let ?s1 = "(upd_thread t (\<lambda>th. th\<lparr>stat := with_stat RT_THREAD_READY (stat th), t_link := Some (ReadyQ ?p)\<rparr>) s0)
             \<lparr>lists := (lists s0)(ReadyQ ?p := lists s0 (ReadyQ ?p) @ [t]),
              ready_group := ready_group s0 OR number_mask (threads s0 t)\<rparr>"
  have ins: "rt_schedule_insert_thread t s0 = Some ?s1"
    using p s0(3) by (simp add: insert_thread_eq Let_def)
  have res: "rt_thread_resume t s = Some (RT_EOK, ?s1)"
    using ty st s0(1) ins by (simp add: rt_thread_resume_def thread_typed_def Let_def)
  show ?thesis
  proof (rule that [OF res inv_thread_resume [OF res inv]])
    show "same_ipc s ?s1" using s0(2) by (simp add: same_ipc_def)
    show "cur_thread ?s1 = cur_thread s" using s0(6) by simp
    show "threads ?s1 = (threads s)(t := (threads s t)\<lparr>stat := with_stat RT_THREAD_READY (stat (threads s t)),
        t_link := Some (ReadyQ ?p)\<rparr>)"
      using s0(3) by simp
    show "lists ?s1 l = (if l = ReadyQ ?p then lists s l @ [t] else remove1 t (lists s l))" for l
      using s0(4) nr by (simp add: unlink_thread_lists [OF i(1)] remove1_idem)
  qed
qed

lemma get_type_threads [simp]:
  "rt_object_get_type x (upd_thread t f s) = rt_object_get_type x s"
  "rt_object_get_type x (s\<lparr>ready_group := g\<rparr>) = rt_object_get_type x s"
  by (simp_all add: rt_object_get_type_def)

lemma suspend_effect:
  assumes inv: "kernel_inv s" and ty: "thread_typed s t" and st: "stat_of s t = RT_THREAD_READY"
  obtains s1 where "rt_thread_suspend t s = Some (RT_EOK, s1)" "kernel_inv s1" "same_ipc s s1"
    "cur_thread s1 = cur_thread s"
    "threads s1 = (threads s)(t := (threads s t)\<lparr>stat := with_stat RT_THREAD_SUSPEND (stat (threads s t)),
       t_link := None\<rparr>)"
    "lists s1 = (\<lambda>l. remove1 t (lists s l))"
proof -
  let ?u = "unlink_thread t s" and ?p = "unat (current_priority (threads s t))"
  note i = sched_invD [OF kernel_invD(1) [OF inv]]
  have p: "?p < 32" using mask_of(1) [OF inv disjI1 [OF st]] .
  define s0 where "s0 = (if lists ?u (ReadyQ ?p) = []
      then ?u\<lparr>ready_group := ready_group ?u AND NOT (number_mask (threads ?u t))\<rparr> else ?u)"
  have rem: "rt_schedule_remove_thread t s = Some s0"
    using p by (simp add: remove_thread_eq s0_def Let_def)
  let ?v = "upd_thread t (\<lambda>th. th\<lparr>stat := with_stat RT_THREAD_SUSPEND (stat th)\<rparr>) s0"
  have s0: "threads s0 = threads ?u" "lists s0 = lists ?u" "same_ipc s s0" "cur_thread s0 = cur_thread s"
    by (simp_all add: s0_def)
  have "rt_object_get_type (TimerObj (ThreadTimer t)) ?v = RT_Object_Class_Timer"
    using ty by (auto simp: s0_def thread_typed_def)
  from timer_stop_some [OF this] obtain r s1 where s1: "rt_timer_stop (ThreadTimer t) ?v = Some (r, s1)"
      "same_ipc ?v s1" "threads s1 = threads ?v" "lists s1 = lists ?v" "cur_thread s1 = cur_thread ?v"
    by blast
  have res: "rt_thread_suspend t s = Some (RT_EOK, s1)"
    using ty st rem s1(1) by (simp add: rt_thread_suspend_def thread_typed_def Let_def)
  show ?thesis
  proof (rule that [OF res inv_thread_suspend [OF res inv]])
    show "same_ipc s s1" using same_ipc_trans [OF _ s1(2)] s0(3) by simp
    show "cur_thread s1 = cur_thread s" using s1(5) s0(4) by simp
    show "threads s1 = (threads s)(t := (threads s t)\<lparr>stat := with_stat RT_THREAD_SUSPEND (stat (threads s t)),
        t_link := None\<rparr>)"
      using s1(3) s0(1) by (cases "threads s t") simp
    show "lists s1 = (\<lambda>l. remove1 t (lists s l))" using s1(4) s0(2) by (simp add: unlink_thread_lists [OF i(1)])
  qed
qed

text \<open>Queueing up for an object: the thread leaves its ready queue and takes its place among the
  waiting threads, behind all that are at least as urgent when the object's flag asks for
  priority order.\<close>

definition wait_place :: "u8 \<Rightarrow> (tid \<Rightarrow> rt_thread) \<Rightarrow> u8 \<Rightarrow> tid list \<Rightarrow> nat" where
  "wait_place flag ths p us = (if flag = RT_IPC_FLAG_FIFO then length us else prio_pos ths p us)"

lemma prio_pos_cong:
  "(\<And>u. u \<in> set us \<Longrightarrow> current_priority (f u) = current_priority (g u)) \<Longrightarrow> prio_pos f p us = prio_pos g p us"
  by (induction us) auto

lemma wait_place_cong:
  "(\<And>u. current_priority (f u) = current_priority (g u)) \<Longrightarrow> wait_place flag f p us = wait_place flag g p us"
  unfolding wait_place_def by (simp add: prio_pos_cong [of us f g])

lemma list_suspend_effect:
  assumes inv: "kernel_inv s" and ty: "thread_typed s t" and st: "stat_of s t = RT_THREAD_READY"
    and l: "\<And>p. l \<noteq> ReadyQ p" and flag: "flag = RT_IPC_FLAG_FIFO \<or> flag = RT_IPC_FLAG_PRIO"
  obtains s1 where "rt_ipc_list_suspend l t flag s = Some s1" "kernel_inv s1" "same_ipc s s1"
    "cur_thread s1 = cur_thread s"
    "threads s1 = (threads s)(t := (threads s t)\<lparr>stat := with_stat RT_THREAD_SUSPEND (stat (threads s t)),
       t_link := Some l\<rparr>)"
    "\<And>k. lists s1 k = (if k = l
        then insert_at (wait_place flag (threads s) (current_priority (threads s t)) (lists s l)) t (lists s l)
        else remove1 t (lists s k))"
proof -
  obtain s0 where s0: "rt_thread_suspend t s = Some (RT_EOK, s0)" "kernel_inv s0" "same_ipc s s0"
      "cur_thread s0 = cur_thread s"
      "threads s0 = (threads s)(t := (threads s t)\<lparr>stat := with_stat RT_THREAD_SUSPEND (stat (threads s t)), t_link := None\<rparr>)"
      "lists s0 = (\<lambda>l. remove1 t (lists s l))"
    using suspend_effect [OF inv ty st] by blast
  have nt: "t \<notin> set (lists s l)"
    using sched_invD(1,5) [OF kernel_invD(1) [OF inv]] st l unfolding links_ok_def ready_here_def by metis
  have "prio_pos (threads s0) (current_priority (threads s0 t)) (lists s l) =
      prio_pos (threads s) (current_priority (threads s t)) (lists s l)"
    using s0(5) by (auto intro: prio_pos_cong)
  then have k: "rt_ipc_list_suspend l t flag s =
      link_thread_at l (wait_place flag (threads s) (current_priority (threads s t)) (lists s l)) t s0"
    using flag s0(1,6) nt
    by (auto simp: rt_ipc_list_suspend_def wait_place_def link_thread_back_def remove1_idem)
  let ?k = "wait_place flag (threads s) (current_priority (threads s t)) (lists s l)"
  obtain s1 where s1: "link_thread_at l ?k t s0 = Some s1"
      "s1 = upd_thread t (\<lambda>th. th\<lparr>t_link := Some l\<rparr>) (s0\<lparr>lists := (lists s0)(l := insert_at ?k t (lists s0 l))\<rparr>)"
    using s0(5) by (simp add: link_thread_at_eq)
  show ?thesis
  proof (rule that)
    show e: "rt_ipc_list_suspend l t flag s = Some s1" using k s1(1) by simp
    show "kernel_inv s1" by (rule inv_list_suspend [OF e inv l])
    show "same_ipc s s1" using s0(3) s1(2) by simp
    show "cur_thread s1 = cur_thread s" using s0(4) s1(2) by simp
    show "threads s1 = (threads s)(t := (threads s t)\<lparr>stat := with_stat RT_THREAD_SUSPEND (stat (threads s t)), t_link := Some l\<rparr>)"
      using s0(5) s1(2) by simp
    show "lists s1 k' = (if k' = l then insert_at ?k t (lists s l) else remove1 t (lists s k'))" for k'
      using s0(6) s1(2) nt by (simp add: remove1_idem)
  qed
qed

text \<open>In priority order the list stays sorted, and equals stay in order of arrival.\<close>

lemma prio_pos_split:
  assumes "sorted (map (\<lambda>u. current_priority (ths u)) us)"
  shows "(\<forall>u \<in> set (take (prio_pos ths p us) us). current_priority (ths u) \<le> p) \<and>
         (\<forall>u \<in> set (drop (prio_pos ths p us) us). p < current_priority (ths u))"
  using assms by (induction us) (auto simp: not_less intro: order_less_le_trans)

lemma sorted_prio_insert:
  assumes "sorted (map (\<lambda>u. current_priority (ths u)) us)"
  shows "sorted (map (\<lambda>u. current_priority (ths u)) (insert_at (prio_pos ths (current_priority (ths t)) us) t us))"
proof -
  let ?f = "\<lambda>u. current_priority (ths u)" and ?k = "prio_pos ths (current_priority (ths t)) us"
  have "sorted (map ?f (take ?k us @ drop ?k us))" using assms by simp
  then have s: "sorted (map ?f (take ?k us))" "sorted (map ?f (drop ?k us))"
      "\<forall>x \<in> set (map ?f (take ?k us)). \<forall>y \<in> set (map ?f (drop ?k us)). x \<le> y"
    unfolding map_append sorted_append by blast+
  have q: "\<forall>x \<in> set (take ?k us). ?f x \<le> ?f t" "\<forall>y \<in> set (drop ?k us). ?f t \<le> ?f y"
    using prio_pos_split [OF assms] by (auto intro: less_imp_le)
  show ?thesis
    unfolding insert_at_def map_append list.map sorted_append sorted_simps set_map list.set
    using s q by auto
qed

section \<open>Arming the timer of a waiting thread\<close>

definition hard_timer :: "kstate \<Rightarrow> tid \<Rightarrow> bool" where
  "hard_timer s t \<longleftrightarrow> tm_flag s (ThreadTimer t) AND RT_TIMER_FLAG_SOFT_TIMER = 0"

lemma flag_soft_bit:
  "(f AND NOT 1) AND 4 = 0 \<longleftrightarrow> f AND 4 = (0 :: u8)" "(f OR 1) AND 4 = 0 \<longleftrightarrow> f AND 4 = (0 :: u8)"
proof -
  have m: "f AND 4 = 0 \<longleftrightarrow> \<not> bit f 2" for f :: u8
  proof -
    have "(4 :: u8) = push_bit 2 1" by simp
    then show ?thesis by (metis and_zero_eq and_exp_eq_0_iff_not_bit push_bit_of_1)
  qed
  show "(f AND NOT 1) AND 4 = 0 \<longleftrightarrow> f AND 4 = 0" "(f OR 1) AND 4 = 0 \<longleftrightarrow> f AND 4 = 0"
    unfolding m by (auto simp: bit_simps)
qed

lemma flag_soft_bit': "(f AND - 2) AND 4 = 0 \<longleftrightarrow> f AND 4 = (0 :: u8)"
proof -
  have "(- 2 :: u8) = NOT 1" by simp
  then show ?thesis by (simp only: flag_soft_bit)
qed

lemma timer_start_effect:
  assumes ty: "rt_object_get_type (TimerObj tm) s = RT_Object_Class_Timer"
    and hard: "tm_flag s tm AND RT_TIMER_FLAG_SOFT_TIMER = 0"
    and time: "tm_init_tick (timers s tm) < RT_TICK_HALF"
  obtains s1 where "rt_timer_start tm s = Some (RT_EOK, s1)" "same_ipc s s1" "threads s1 = threads s"
    "lists s1 = lists s" "cur_thread s1 = cur_thread s"
    "timers s1 = (timers s)(tm := (timers s tm)\<lparr>timeout_tick := rt_tick s + tm_init_tick (timers s tm),
       tm_link := Some TimerList\<rparr>)"
    "tlists s1 TimerList = (let ts = tlists (unlink_timer tm s) TimerList in
       insert_at (timer_pos (timers s1) (rt_tick s + tm_init_tick (timers s tm)) ts) tm ts)"
    "objs s1 (TimerObj tm) = (objs s (TimerObj tm))\<lparr>obj_flag := tm_flag s tm AND NOT 1 OR 1\<rparr>"
proof -
  let ?tick = "rt_tick s + tm_init_tick (timers s tm)"
  let ?s2 = "set_tm_flag tm (\<lambda>f. f AND NOT RT_TIMER_FLAG_ACTIVATED) (unlink_timer tm s)"
  let ?s3 = "upd_timer tm (\<lambda>r. r\<lparr>timeout_tick := rt_tick s + tm_init_tick r\<rparr>) ?s2"
  let ?k = "timer_pos (timers ?s3) ?tick (tlists ?s3 TimerList)"
  let ?s4 = "upd_timer tm (\<lambda>r. r\<lparr>tm_link := Some TimerList\<rparr>)
       (?s3\<lparr>random_nr := random_nr ?s3 + 1, tlists := (tlists ?s3)(TimerList := insert_at ?k tm (tlists ?s3 TimerList))\<rparr>)"
  let ?s5 = "set_tm_flag tm (\<lambda>f. f OR RT_TIMER_FLAG_ACTIVATED) ?s4"
  have soft: "tm_flag ?s3 tm AND 4 = 0" "tm_flag ?s5 tm AND 4 = 0"
    using hard by (simp_all add: tm_flag_def set_tm_flag_def flag_soft_bit flag_soft_bit')
  have ins: "timer_start_insert tm s = Some ?s5"
    using ty time soft(1)
    by (simp add: timer_start_insert_def Let_def set_tm_flag_def tm_flag_def link_timer_at_def)
  have pos: "timer_pos f x us = timer_pos g x us"
    if "\<And>u. timeout_tick (f u) = timeout_tick (g u)" for f g :: "tmid \<Rightarrow> rt_timer" and x us
    using that by (induction us) simp_all
  show ?thesis
  proof (rule that)
    show "rt_timer_start tm s = Some (RT_EOK, ?s5)" using ins soft(2) by (simp add: rt_timer_start_def)
    show "same_ipc s ?s5" by (simp add: same_ipc_def set_tm_flag_def)
    show "timers ?s5 = (timers s)(tm := (timers s tm)\<lparr>timeout_tick := ?tick, tm_link := Some TimerList\<rparr>)"
      by (cases "timers s tm") (simp add: set_tm_flag_def)
    show "tlists ?s5 TimerList = (let ts = tlists (unlink_timer tm s) TimerList in
       insert_at (timer_pos (timers ?s5) ?tick ts) tm ts)"
      by (simp add: set_tm_flag_def Let_def) (rule arg_cong [where f = "\<lambda>k. insert_at k tm _"], rule pos, simp)
    show "objs ?s5 (TimerObj tm) = (objs s (TimerObj tm))\<lparr>obj_flag := tm_flag s tm AND NOT 1 OR 1\<rparr>"
      by (simp add: set_tm_flag_def tm_flag_def)
  qed (simp_all add: set_tm_flag_def)
qed

lemma sorted_by_due_cong:
  "(\<And>u. u \<in> set ts \<Longrightarrow> timeout_tick (f u) = timeout_tick (g u)) \<Longrightarrow>
   sorted_by_due f base ts = sorted_by_due g base ts"
  by (simp add: sorted_by_due_def cong: map_cong)

lemma sorted_remove1_map: "sorted (map f xs) \<Longrightarrow> sorted (map f (remove1 x xs))"
  by (induction xs) (auto dest: subsetD [OF set_remove1_subset])

text \<open>C16. \<open>rt_timer_start\<close> keeps the timer list sorted by expiry: with all expiries less than half the
  tick range ahead of a common reference, the started timer takes its place behind every timer that
  does not expire later, whatever the tick counter's wrap-around, and no other timer moves.\<close>

theorem timer_start_sorted:
  assumes inv: "kernel_inv s" and ty: "rt_object_get_type (TimerObj tm) s = RT_Object_Class_Timer"
    and hard: "tm_flag s tm AND RT_TIMER_FLAG_SOFT_TIMER = 0"
    and time: "tm_init_tick (timers s tm) < RT_TICK_HALF"
    and sorted: "sorted_by_due (timers s) base (tlists s TimerList)"
    and near: "due base (rt_tick s + tm_init_tick (timers s tm)) < 2 ^ 31 - 1"
  shows "\<exists>s1. rt_timer_start tm s = Some (RT_EOK, s1) \<and>
           sorted_by_due (timers s1) base (tlists s1 TimerList) \<and>
           remove1 tm (tlists s1 TimerList) = remove1 tm (tlists s TimerList) \<and>
           tm \<in> set (tlists s1 TimerList) \<and>
           timeout_tick (timers s1 tm) = rt_tick s + tm_init_tick (timers s tm)"
proof -
  obtain s1 where s1: "rt_timer_start tm s = Some (RT_EOK, s1)"
    "timers s1 = (timers s)(tm := (timers s tm)\<lparr>timeout_tick := rt_tick s + tm_init_tick (timers s tm),
       tm_link := Some TimerList\<rparr>)"
    "tlists s1 TimerList = (let ts = tlists (unlink_timer tm s) TimerList in
       insert_at (timer_pos (timers s1) (rt_tick s + tm_init_tick (timers s tm)) ts) tm ts)"
    using timer_start_effect [OF ty hard time] by metis
  note tl = kernel_invD(2) [OF inv]
  let ?ts = "remove1 tm (tlists s TimerList)"
  have L: "tlists (unlink_timer tm s) TimerList = ?ts" by (simp add: unlink_timer_tlists [OF tl])
  have nt: "tm \<notin> set ?ts" using tl by (simp add: tlinks_ok_def)
  have "sorted_by_due (timers s) base ?ts"
    using sorted by (auto simp: sorted_by_due_def sorted_remove1_map dest: subsetD [OF set_remove1_subset])
  moreover have "sorted_by_due (timers s1) base ?ts = sorted_by_due (timers s) base ?ts"
    using nt s1(2) by (intro sorted_by_due_cong) auto
  ultimately have srt: "sorted_by_due (timers s1) base ?ts" by simp
  have tick: "timeout_tick (timers s1 tm) = rt_tick s + tm_init_tick (timers s tm)" using s1(2) by simp
  have T: "tlists s1 TimerList = insert_at (timer_pos (timers s1) (timeout_tick (timers s1 tm)) ?ts) tm ?ts"
    using s1(3) by (simp add: L tick Let_def)
  have "sorted_by_due (timers s1) base (tlists s1 TimerList)"
    unfolding T by (rule sorted_insert_at [OF srt]) (use near tick in simp)
  moreover have "remove1 tm (insert_at k tm ?ts) = ?ts" for k
    using nt by (simp add: insert_at_def remove1_append) (meson in_set_takeD)
  then have "remove1 tm (tlists s1 TimerList) = ?ts" unfolding T by simp
  ultimately show ?thesis using s1(1) tick T by auto
qed

lemma stop_flag:
  "rt_timer_stop tm s = Some (r, s') \<Longrightarrow> tm_flag s' x AND 4 = 0 \<longleftrightarrow> tm_flag s x AND 4 = 0"
  by (cases "x = tm")
    (auto simp: rt_timer_stop_def Let_def Option.bind_eq_Some_conv set_tm_flag_def tm_flag_def flag_soft_bit' split: if_splits)

lemma suspend_flag:
  "rt_ipc_list_suspend l t flag s = Some s' \<Longrightarrow> tm_flag s' x AND 4 = 0 \<longleftrightarrow> tm_flag s x AND 4 = 0"
  unfolding rt_ipc_list_suspend_def rt_thread_suspend_def link_thread_back_def
  by (auto simp: Option.bind_eq_Some_conv Let_def link_thread_at_eq tm_flag_def [symmetric]
      dest!: stop_flag [where x = x] remove_sel(2) split: if_splits)
    (auto simp: tm_flag_def)

lemma arm_timer_effect:
  assumes ty: "rt_object_get_type (TimerObj (ThreadTimer t)) s = RT_Object_Class_Timer"
    and fl: "tm_flag s (ThreadTimer t) AND RT_TIMER_FLAG_SOFT_TIMER = 0" and time: "time < 2 ^ 31 - 1"
  obtains s1 where "arm_timer t time s = Some s1" "same_ipc s s1" "threads s1 = threads s" "lists s1 = lists s"
    "cur_thread s1 = cur_thread s"
    "time > 0 \<Longrightarrow> timeout_tick (timers s1 (ThreadTimer t)) = rt_tick s + word_of_int time \<and>
       tm_link (timers s1 (ThreadTimer t)) = Some TimerList"
proof (cases "time > 0")
  case False
  then show ?thesis using that [of s] by (simp add: arm_timer_def)
next
  case True
  let ?s2 = "upd_timer (ThreadTimer t) (\<lambda>r. r\<lparr>tm_init_tick := word_of_int time\<rparr>) s"
  have c: "rt_timer_control (ThreadTimer t) (RT_TIMER_CTRL_SET_TIME (word_of_int time)) s = Some (None, ?s2)"
    using ty by (simp add: rt_timer_control_def)
  have ini: "tm_init_tick (timers ?s2 (ThreadTimer t)) < RT_TICK_HALF"
    using True time by (simp add: word_less_def uint_word_of_int)
  obtain s1 where s1: "rt_timer_start (ThreadTimer t) ?s2 = Some (RT_EOK, s1)" "same_ipc ?s2 s1"
      "threads s1 = threads ?s2" "lists s1 = lists ?s2" "cur_thread s1 = cur_thread ?s2"
      "timers s1 = (timers ?s2)(ThreadTimer t := (timers ?s2 (ThreadTimer t))\<lparr>timeout_tick :=
         rt_tick ?s2 + tm_init_tick (timers ?s2 (ThreadTimer t)), tm_link := Some TimerList\<rparr>)"
    using timer_start_effect [of "ThreadTimer t" ?s2] ty fl ini
    by (metis rt_object_get_type_def tm_flag_def upd_timer_sel(2))
  have "arm_timer t time s = Some s1" using True c s1(1) by (simp add: arm_timer_def)
  moreover have "same_ipc s s1" using same_ipc_trans [OF _ s1(2)] by simp
  ultimately show ?thesis using s1 by (intro that [of s1]) simp_all
qed

lemma ipc_wait_effect:
  assumes inv: "kernel_inv s" and ty: "thread_typed s t" and st: "stat_of s t = RT_THREAD_READY"
    and l: "\<And>p. l \<noteq> ReadyQ p" and flag: "flag = RT_IPC_FLAG_FIFO \<or> flag = RT_IPC_FLAG_PRIO"
    and hard: "hard_timer s t" and time: "time < 2 ^ 31 - 1"
  obtains s1 where "ipc_wait l t flag time s = Some s1" "kernel_inv s1" "same_ipc s s1"
    "cur_thread s1 = cur_thread s"
    "threads s1 = (threads s)(t := (threads s t)\<lparr>stat := with_stat RT_THREAD_SUSPEND (stat (threads s t)),
       t_link := Some l\<rparr>)"
    "\<And>k. lists s1 k = (if k = l
        then insert_at (wait_place flag (threads s) (current_priority (threads s t)) (lists s l)) t (lists s l)
        else remove1 t (lists s k))"
    "time > 0 \<Longrightarrow> timeout_tick (timers s1 (ThreadTimer t)) = rt_tick s + word_of_int time \<and>
       tm_link (timers s1 (ThreadTimer t)) = Some TimerList"
proof -
  obtain s0 where s0: "rt_ipc_list_suspend l t flag s = Some s0" "kernel_inv s0" "same_ipc s s0"
    "cur_thread s0 = cur_thread s"
    "threads s0 = (threads s)(t := (threads s t)\<lparr>stat := with_stat RT_THREAD_SUSPEND (stat (threads s t)),
       t_link := Some l\<rparr>)"
    "\<And>k. lists s0 k = (if k = l
        then insert_at (wait_place flag (threads s) (current_priority (threads s t)) (lists s l)) t (lists s l)
        else remove1 t (lists s k))"
    using list_suspend_effect [OF inv ty st l flag] by blast
  have ty0: "rt_object_get_type (TimerObj (ThreadTimer t)) s0 = RT_Object_Class_Timer"
    using thread_typed_same [OF s0(3), of t] ty by (simp add: thread_typed_def)
  have fl: "tm_flag s0 (ThreadTimer t) AND RT_TIMER_FLAG_SOFT_TIMER = 0"
    using hard suspend_flag [OF s0(1)] by (simp add: hard_timer_def)
  obtain s1 where s1: "arm_timer t time s0 = Some s1" "same_ipc s0 s1" "threads s1 = threads s0" "lists s1 = lists s0"
    "cur_thread s1 = cur_thread s0"
    "time > 0 \<Longrightarrow> timeout_tick (timers s1 (ThreadTimer t)) = rt_tick s0 + word_of_int time \<and>
       tm_link (timers s1 (ThreadTimer t)) = Some TimerList"
    by (rule arm_timer_effect [OF ty0 fl time]) (rule that)
  have w: "ipc_wait l t flag time s = Some s1" using s0(1) s1(1) by (simp add: ipc_wait_def)
  show ?thesis
  proof (rule that [OF w inv_ipc_wait [OF w inv l]])
    show "same_ipc s s1" by (rule same_ipc_trans [OF s0(3) s1(2)])
  qed (use s0 s1 in \<open>auto simp: same_ipc_def\<close>)
qed

text \<open>When the timer of a waiting thread expires, the thread leaves the list it waits on and is ready
  with the error \<open>-RT_ETIMEOUT\<close>.\<close>

lemma timeout_effect:
  assumes inv: "kernel_inv s" and t: "thread_typed s t" "stat_of s t = RT_THREAD_SUSPEND" and l: "\<And>p. l \<noteq> ReadyQ p"
  obtains s1 where "rt_thread_timeout t s = rt_schedule s1" "kernel_inv s1" "same_ipc s s1"
    "lists s1 l = remove1 t (lists s l)" "t \<notin> set (lists s1 l)"
    "stat_of s1 t = RT_THREAD_READY" "thread_error (threads s1 t) = - RT_ETIMEOUT"
proof -
  note i = sched_invD [OF kernel_invD(1) [OF inv]]
  let ?u = "unlink_thread t (upd_thread t (\<lambda>th. th\<lparr>thread_error := - RT_ETIMEOUT\<rparr>) s)"
  let ?p = "unat (current_priority (threads s t))"
  have iu: "links_ok (upd_thread t (\<lambda>th. th\<lparr>thread_error := - RT_ETIMEOUT\<rparr>) s)"
    using i(1) by (simp add: links_ok_def)
  have m: "?p < 32" "number_mask (threads s t) = 2 ^ ?p" using mask_of [OF inv disjI2 [OF t(2)]] by simp_all
  have inv_u: "kernel_inv ?u" using inv t(2) by (intro inv_unlink) (simp_all add: stat_of_def)
  obtain s1 where s1: "rt_schedule_insert_thread t ?u = Some s1"
    using m(1) by (simp add: insert_thread_eq Let_def)
  note sel = insert_thread_sel [OF s1]
  show thesis
  proof (rule that [of s1])
    show "rt_thread_timeout t s = rt_schedule s1"
      using t s1 by (simp add: rt_thread_timeout_def thread_typed_def Let_def)
    show "kernel_inv s1" using inv_insert [OF s1 inv_u] m by simp
    show "same_ipc s s1" using s1 by (auto simp: insert_thread_eq Let_def same_ipc_def)
    show r: "lists s1 l = remove1 t (lists s l)" using sel(2) l by (simp add: Let_def unlink_thread_lists [OF iu])
    show "t \<notin> set (lists s1 l)" using i(1) unfolding r by (simp add: links_ok_def)
    show "stat_of s1 t = RT_THREAD_READY" "thread_error (threads s1 t) = - RT_ETIMEOUT"
      using sel(1) by (simp_all add: stat_of_def)
  qed
qed

section \<open>What the scheduler, the timers and the waiting lists leave alone\<close>

text \<open>Stated against an arbitrary earlier state \<open>a\<close>, so that the facts chain by themselves.\<close>

lemma same_ipc_objs: "(\<And>x. obj_type (g x) = obj_type (objs s x)) \<Longrightarrow> same_ipc a (s\<lparr>objs := g\<rparr>) = same_ipc a s"
  by (simp add: same_ipc_def)

named_theorems frame \<open>operations that do not touch the communication objects\<close>

lemma frame_schedule [frame]: "rt_schedule s = Some s' \<Longrightarrow> same_ipc a s \<Longrightarrow> same_ipc a s'"
  by (metis same_ipc_schedule same_ipc_trans)

lemma frame_insert [frame]: "rt_schedule_insert_thread t s = Some s' \<Longrightarrow> same_ipc a s \<Longrightarrow> same_ipc a s'"
  by (simp add: insert_thread_eq Let_def)

lemma frame_remove [frame]: "rt_schedule_remove_thread t s = Some s' \<Longrightarrow> same_ipc a s \<Longrightarrow> same_ipc a s'"
  by (auto simp: remove_thread_eq Let_def)

lemma frame_link [frame]: "link_thread_at l k t s = Some s' \<Longrightarrow> same_ipc a s \<Longrightarrow> same_ipc a s'"
  by (simp add: link_thread_at_eq)

lemma frame_link_timer [frame]: "link_timer_at l k tm s = Some s' \<Longrightarrow> same_ipc a s \<Longrightarrow> same_ipc a s'"
  by (simp add: link_timer_at_eq)

lemma frame_timer_stop [frame]: "rt_timer_stop tm s = Some (r, s') \<Longrightarrow> same_ipc a s \<Longrightarrow> same_ipc a s'"
  by (auto simp: rt_timer_stop_def Let_def Option.bind_eq_Some_conv split: if_splits)

lemma frame_timer_control [frame]:
  "rt_timer_control tm c s = Some (r, s') \<Longrightarrow> same_ipc a s \<Longrightarrow> same_ipc a s'"
  by (auto simp: rt_timer_control_def Option.bind_eq_Some_conv split: timer_ctrl.splits)

lemma frame_thread_suspend [frame]:
  "rt_thread_suspend t s = Some (r, s') \<Longrightarrow> same_ipc a s \<Longrightarrow> same_ipc a s'"
  unfolding rt_thread_suspend_def
  by (auto simp: Option.bind_eq_Some_conv Let_def dest!: frame_remove frame_timer_stop split: if_splits)

lemma frame_thread_resume [frame]:
  "rt_thread_resume t s = Some (r, s') \<Longrightarrow> same_ipc a s \<Longrightarrow> same_ipc a s'"
  unfolding rt_thread_resume_def
  by (auto simp: Option.bind_eq_Some_conv Let_def dest!: frame_insert frame_timer_stop split: if_splits)

lemma frame_timer_start [frame]:
  "rt_timer_start tm s = Some (r, s') \<Longrightarrow> same_ipc a s \<Longrightarrow> same_ipc a s'"
  unfolding rt_timer_start_def timer_start_insert_def
  by (auto simp: Option.bind_eq_Some_conv Let_def dest!: frame_link_timer frame_thread_resume frame_schedule
      split: if_splits)

lemma frame_list_suspend [frame]:
  "rt_ipc_list_suspend l t flag s = Some s' \<Longrightarrow> same_ipc a s \<Longrightarrow> same_ipc a s'"
  unfolding rt_ipc_list_suspend_def link_thread_back_def
  by (auto simp: Option.bind_eq_Some_conv dest!: frame_thread_suspend frame_link split: if_splits)

lemma frame_list_resume [frame]:
  "rt_ipc_list_resume l s = Some s' \<Longrightarrow> same_ipc a s \<Longrightarrow> same_ipc a s'"
  unfolding rt_ipc_list_resume_def by (auto simp: Option.bind_eq_Some_conv dest!: frame_thread_resume)

lemma frame_arm_timer [frame]: "arm_timer t time s = Some s' \<Longrightarrow> same_ipc a s \<Longrightarrow> same_ipc a s'"
  unfolding arm_timer_def
  by (auto simp: Option.bind_eq_Some_conv dest!: frame_timer_control frame_timer_start split: if_splits)

lemma frame_ipc_wait [frame]:
  "ipc_wait l t flag time s = Some s' \<Longrightarrow> same_ipc a s \<Longrightarrow> same_ipc a s'"
  unfolding ipc_wait_def by (auto simp: Option.bind_eq_Some_conv dest!: frame_list_suspend frame_arm_timer)

lemma frame_change_priority [frame]:
  "rt_thread_control t (RT_THREAD_CTRL_CHANGE_PRIORITY p) s = Some (r, s') \<Longrightarrow> same_ipc a s \<Longrightarrow> same_ipc a s'"
  unfolding rt_thread_control_def set_priority_def
  by (auto simp: Option.bind_eq_Some_conv dest!: frame_remove frame_insert split: if_splits)

lemma frame_thread_timeout [frame]:
  "rt_thread_timeout t s = Some s' \<Longrightarrow> same_ipc a s \<Longrightarrow> same_ipc a s'"
  unfolding rt_thread_timeout_def
  by (auto simp: Option.bind_eq_Some_conv Let_def dest!: frame_insert frame_schedule)

lemma frame_list_resume_all [frame]:
  assumes "rt_ipc_list_resume_all l s = Some s'" "same_ipc a s"
  shows "same_ipc a s'"
proof -
  have "same_ipc a s \<longrightarrow> same_ipc a s'"
  proof (rule rt_ipc_list_resume_all.raw_induct
      [where P = "\<lambda>l s s'. same_ipc a s \<longrightarrow> same_ipc a s'", OF _ assms(1)], intro impI)
    fix loop :: "lid \<Rightarrow> kstate \<Rightarrow> kstate option" and l s s'
    assume IH: "\<And>l s s'. loop l s = Some s' \<Longrightarrow> same_ipc a s \<longrightarrow> same_ipc a s'"
      and step: "(case lists s l of [] \<Rightarrow> Some s
        | t # _ \<Rightarrow> Option.bind (rt_thread_resume t (upd_thread t (\<lambda>th. th\<lparr>thread_error := - RT_ERROR\<rparr>) s))
            (\<lambda>(_, s). loop l s)) = Some s'"
      and s: "same_ipc a s"
    show "same_ipc a s'"
      using step IH s by (auto simp: Option.bind_eq_Some_conv split: list.splits dest!: frame_thread_resume)
  qed
  then show ?thesis using assms(2) by simp
qed

lemma change_priority_effect:
  assumes inv: "kernel_inv s" and ty: "thread_typed s t" and st: "stat_of s t = RT_THREAD_READY" and p: "p < 32"
  obtains s1 where "rt_thread_control t (RT_THREAD_CTRL_CHANGE_PRIORITY p) s = Some (RT_EOK, s1)"
    "kernel_inv s1" "same_ipc s s1" "cur_thread s1 = cur_thread s"
    "current_priority (threads s1 t) = p" "stat_of s1 t = RT_THREAD_READY"
    "\<And>u. u \<noteq> t \<Longrightarrow> threads s1 u = threads s u"
    "\<And>i. lists s1 (MutexWait i) = lists s (MutexWait i)"
proof -
  note i = sched_invD [OF kernel_invD(1) [OF inv]]
  have pt: "unat (current_priority (threads s t)) < 32" using mask_of(1) [OF inv disjI1 [OF st]] .
  obtain s0 where rem: "rt_schedule_remove_thread t s = Some s0"
    using pt by (simp add: remove_thread_eq Let_def)
  have s0: "lists s0 = (\<lambda>l. remove1 t (lists s l))" "cur_thread s0 = cur_thread s"
      "threads s0 = (threads s)(t := (threads s t)\<lparr>t_link := None\<rparr>)"
    using rem by (auto simp: remove_thread_eq Let_def unlink_thread_lists [OF i(1)] split: if_splits)
  let ?s2 = "upd_thread t (\<lambda>th. th\<lparr>current_priority := p, number_mask := push_bit (unat p) 1\<rparr>) s0"
  have up: "unat p < 32" using p by (simp add: word_less_nat_alt)
  obtain s1 where ins: "rt_schedule_insert_thread t ?s2 = Some s1"
    using up s0(3) by (simp add: insert_thread_eq Let_def)
  note sel = insert_thread_sel [OF ins]
  have res: "rt_thread_control t (RT_THREAD_CTRL_CHANGE_PRIORITY p) s = Some (RT_EOK, s1)"
    using ty st rem ins p by (simp add: rt_thread_control_def thread_typed_def set_priority_def)
  have nt: "t \<notin> set (lists s l)" if "\<And>q. l \<noteq> ReadyQ q" for l
    using i(1,5) st that unfolding links_ok_def ready_here_def by metis
  show ?thesis
  proof (rule that [OF res inv_change_priority [OF res inv] frame_change_priority [OF res same_ipc_refl]])
    show "cur_thread s1 = cur_thread s" using ins s0(2) by (simp add: insert_thread_eq Let_def)
    show "current_priority (threads s1 t) = p" using sel(1) by simp
    show "stat_of s1 t = RT_THREAD_READY" using sel(1) by (simp add: stat_of_def)
    show "threads s1 u = threads s u" if "u \<noteq> t" for u using sel(1) s0(3) that by simp
    show "lists s1 (MutexWait i) = lists s (MutexWait i)" for i
      using sel(2) s0(1) nt [of "MutexWait i"] by (simp add: Let_def remove1_idem)
  qed
qed

end
