(* ===== verification/Demo.thy ===== *)
theory Demo
  imports Ipc
begin

text \<open>
  Concrete kernel states at which the theorems of the other theories are applied: \<open>demo l\<close> has
  thread 1 running with priority 5 and thread 2, of priority 3, waiting on the list \<open>l\<close>.
\<close>

definition demo_obj :: "oid \<Rightarrow> rt_object" where
  "demo_obj x = \<lparr>obj_name = replicate 8 0, obj_type = RT_Object_Class_Static OR
     (case x of ThreadObj _ \<Rightarrow> RT_Object_Class_Thread | SemObj _ \<Rightarrow> RT_Object_Class_Semaphore
      | MutexObj _ \<Rightarrow> RT_Object_Class_Mutex | EventObj _ \<Rightarrow> RT_Object_Class_Event
      | MbObj _ \<Rightarrow> RT_Object_Class_MailBox | MqObj _ \<Rightarrow> RT_Object_Class_MessageQueue
      | MpObj _ \<Rightarrow> RT_Object_Class_MemPool | DevObj _ \<Rightarrow> RT_Object_Class_Device
      | TimerObj _ \<Rightarrow> RT_Object_Class_Timer), obj_flag = RT_IPC_FLAG_FIFO\<rparr>"

definition demo :: "lid \<Rightarrow> kstate" where
  "demo l = kstate0\<lparr>objs := demo_obj,
     threads := (\<lambda>_. thread0)(1 := ready_thread 5,
       2 := (ready_thread 3)\<lparr>stat := RT_THREAD_SUSPEND, t_link := Some l\<rparr>),
     lists := (\<lambda>_. [])(ReadyQ 5 := [1], l := [2]), ready_group := 0x20, cur_thread := Some 1\<rparr>"

lemma demo_sel [simp]:
  "objs (demo l) = demo_obj" "lists (demo l) = (\<lambda>_. [])(ReadyQ 5 := [1], l := [2])"
  "cur_thread (demo l) = Some 1" "interrupt_nest (demo l) = 0" "lock_nest (demo l) = 0"
  "ready_group (demo l) = 0x20" "tlists (demo l) = (\<lambda>_. [])" "rt_tick (demo l) = 0"
  "threads (demo l) = (\<lambda>_. thread0)(1 := ready_thread 5,
     2 := (ready_thread 3)\<lparr>stat := RT_THREAD_SUSPEND, t_link := Some l\<rparr>)"
  by (simp_all add: demo_def kstate0_def)

lemma demo_tm_link [simp]: "tm_link (timers (demo l) tm) = None" "tm_init_tick (timers (demo l) tm) = 0"
  by (simp_all add: demo_def kstate0_def)

lemma bit_0x20: "bit (0x20 :: int) p \<longleftrightarrow> p = 5"
proof -
  have "(0x20 :: int) = 2 ^ 5" by simp
  then show ?thesis by (simp only: bit_exp_iff) auto
qed

lemma demo_inv: "(\<And>p. l \<noteq> ReadyQ p) \<Longrightarrow> kernel_inv (demo l)"
  unfolding kernel_inv_def sched_inv_def
  by (auto simp: links_ok_def ready_ok_def mask_ok_def group_ok_def ready_here_def stat_of_def tlinks_ok_def
      ready_thread_def thread0_def bit_0x20 split: if_splits)

lemma demo_types [simp]:
  "objs s = demo_obj \<Longrightarrow> rt_object_get_type (ThreadObj t) s = RT_Object_Class_Thread"
  "objs s = demo_obj \<Longrightarrow> rt_object_get_type (SemObj i) s = RT_Object_Class_Semaphore"
  "objs s = demo_obj \<Longrightarrow> rt_object_get_type (MutexObj i) s = RT_Object_Class_Mutex"
  "objs s = demo_obj \<Longrightarrow> rt_object_get_type (EventObj i) s = RT_Object_Class_Event"
  "objs s = demo_obj \<Longrightarrow> rt_object_get_type (MbObj i) s = RT_Object_Class_MailBox"
  "objs s = demo_obj \<Longrightarrow> rt_object_get_type (MqObj i) s = RT_Object_Class_MessageQueue"
  "objs s = demo_obj \<Longrightarrow> rt_object_get_type (TimerObj tm) s = RT_Object_Class_Timer"
  by (simp_all add: rt_object_get_type_def demo_obj_def)

lemma demo_typed [simp]: "objs s = demo_obj \<Longrightarrow> thread_typed s t"
  by (simp add: thread_typed_def)

lemma demo_hard [simp]: "objs s = demo_obj \<Longrightarrow> hard_timer s t"
  by (simp add: hard_timer_def tm_flag_def demo_obj_def)

lemma demo_flag [simp]: "obj_flag (demo_obj x) = RT_IPC_FLAG_FIFO"
  by (simp add: demo_obj_def)

lemma demo_stat [simp]: "stat_of (demo l) 1 = RT_THREAD_READY" "stat_of (demo l) 2 = RT_THREAD_SUSPEND"
  "stat_of (demo l) (Suc 0) = RT_THREAD_READY"
  by (simp_all add: stat_of_def ready_thread_def thread0_def)

text \<open>Threads 1 and 2 ready, thread 2 running.\<close>

definition demo_ready :: kstate where
  "demo_ready = two_ready\<lparr>objs := demo_obj, cur_thread := Some 2\<rparr>"

lemma demo_ready_sel [simp]:
  "objs demo_ready = demo_obj" "lists demo_ready = (\<lambda>_. [])(ReadyQ 5 := [1], ReadyQ 3 := [2])"
  "cur_thread demo_ready = Some 2" "interrupt_nest demo_ready = 0" "lock_nest demo_ready = 0"
  "threads demo_ready = (\<lambda>_. thread0)(1 := ready_thread 5, 2 := ready_thread 3)" "tlists demo_ready = (\<lambda>_. [])"
  "tm_link (timers demo_ready tm) = None"
  by (simp_all add: demo_ready_def two_ready_def kstate0_def)

lemma demo_ready_group: "ready_group demo_ready = 0x28"
  by (simp add: demo_ready_def two_ready_def)

lemma demo_ready_inv: "kernel_inv demo_ready"
  unfolding kernel_inv_def sched_inv_def
  by (auto simp: links_ok_def ready_ok_def mask_ok_def group_ok_def ready_here_def stat_of_def tlinks_ok_def
      demo_ready_group bit_0x28 ready_thread_def thread0_def split: if_splits)

lemma demo_ready_stat [simp]: "stat_of demo_ready 1 = RT_THREAD_READY" "stat_of demo_ready 2 = RT_THREAD_READY"
  "stat_of demo_ready (Suc 0) = RT_THREAD_READY"
  by (simp_all add: stat_of_def ready_thread_def thread0_def)

end
