(* ===== verification/Semaphore.thy ===== *)
theory Semaphore
  imports Ipc
begin

text \<open>
  The counting semaphores of \<open>src/src/ipc.c\<close>: \<open>rt_sem_take\<close> decrements the 16-bit value or
  waits, \<open>rt_sem_release\<close> hands over to the first waiting thread or increments the value.
\<close>

section \<open>Operations\<close>

definition set_sem :: "nat \<Rightarrow> u16 \<Rightarrow> kstate \<Rightarrow> kstate" where
  "set_sem i v s = s\<lparr>sems := (sems s)(i := (sems s i)\<lparr>sem_value := v\<rparr>)\<rparr>"

definition sem_typed :: "nat \<Rightarrow> kstate \<Rightarrow> bool" where
  "sem_typed i s \<longleftrightarrow> rt_object_get_type (SemObj i) s = RT_Object_Class_Semaphore"

definition rt_sem_init :: "nat \<Rightarrow> u8 list \<Rightarrow> u32 \<Rightarrow> u8 \<Rightarrow> kstate \<Rightarrow> (rt_err_t \<times> kstate) option" where
  "rt_sem_init i name v flag s = do {
     rt_assert (v < 0x10000);
     s \<leftarrow> rt_object_init (SemObj i) RT_Object_Class_Semaphore name s;
     s \<leftarrow> rt_ipc_object_init (SemWait i) s;
     Some (RT_EOK, set_flag (SemObj i) flag (set_sem i (ucast v) s))
   }"

definition rt_sem_detach :: "nat \<Rightarrow> kstate \<Rightarrow> (rt_err_t \<times> kstate) option" where
  "rt_sem_detach i s = do {
     rt_assert (sem_typed i s);
     rt_assert (rt_object_is_systemobject (SemObj i) s);
     s \<leftarrow> rt_ipc_list_resume_all (SemWait i) s;
     Some (RT_EOK, rt_object_detach (SemObj i) s)
   }"

definition rt_sem_create :: "nat option \<Rightarrow> u8 list \<Rightarrow> u32 \<Rightarrow> u8 \<Rightarrow> kstate \<Rightarrow> (nat option \<times> kstate) option" where
  "rt_sem_create blk name v flag s = do {
     not_in_interrupt s;
     rt_assert (v < 0x10000);
     (_, s) \<leftarrow> rt_object_allocate (map_option SemObj blk) RT_Object_Class_Semaphore name s;
     case blk of
       None \<Rightarrow> Some (None, s)
     | Some i \<Rightarrow> do {
         s \<leftarrow> rt_ipc_object_init (SemWait i) s;
         Some (Some i, set_flag (SemObj i) flag (set_sem i (ucast v) s))
       }
   }"

definition rt_sem_delete :: "nat \<Rightarrow> kstate \<Rightarrow> (rt_err_t \<times> kstate) option" where
  "rt_sem_delete i s = do {
     not_in_interrupt s;
     rt_assert (sem_typed i s);
     rt_assert (\<not> rt_object_is_systemobject (SemObj i) s);
     s \<leftarrow> rt_ipc_list_resume_all (SemWait i) s;
     s \<leftarrow> rt_object_delete (SemObj i) s;
     Some (RT_EOK, s)
   }"

definition rt_sem_take_resumed :: "tid \<Rightarrow> kstate \<Rightarrow> ((unit, rt_err_t) outcome \<times> kstate) option" where
  "rt_sem_take_resumed t s =
     Some (Return (if thread_error (threads s t) \<noteq> RT_EOK then thread_error (threads s t) else RT_EOK), s)"

definition rt_sem_take :: "nat \<Rightarrow> int \<Rightarrow> kstate \<Rightarrow> ((unit, rt_err_t) outcome \<times> kstate) option" where
  "rt_sem_take i time s = do {
     rt_assert (sem_typed i s);
     if sem_value (sems s i) > 0
     then Some (Return RT_EOK, set_sem i (sem_value (sems s i) - 1) s)
     else if time = 0 then Some (Return (- RT_ETIMEOUT), s)
     else do {
       in_thread_context s;
       t \<leftarrow> rt_thread_self s;
       let s = set_error t RT_EOK s;
       s \<leftarrow> ipc_wait (SemWait i) t (obj_flag (objs s (SemObj i))) time s;
       schedule_then t () (rt_sem_take_resumed t) s
     }
   }"

definition rt_sem_trytake :: "nat \<Rightarrow> kstate \<Rightarrow> ((unit, rt_err_t) outcome \<times> kstate) option" where
  "rt_sem_trytake i s = rt_sem_take i 0 s"

definition rt_sem_release :: "nat \<Rightarrow> kstate \<Rightarrow> (rt_err_t \<times> kstate) option" where
  "rt_sem_release i s = do {
     rt_assert (sem_typed i s);
     if lists s (SemWait i) \<noteq> [] then do {
       s \<leftarrow> rt_ipc_list_resume (SemWait i) s;
       s \<leftarrow> rt_schedule s;
       Some (RT_EOK, s)
     }
     else if sem_value (sems s i) < 0xffff
     then Some (RT_EOK, set_sem i (sem_value (sems s i) + 1) s)
     else Some (- RT_EFULL, s)
   }"

datatype ipc_cmd = RT_IPC_CMD_RESET u32 | Ipc_cmd_other int

definition rt_sem_control :: "nat \<Rightarrow> ipc_cmd \<Rightarrow> kstate \<Rightarrow> (rt_err_t \<times> kstate) option" where
  "rt_sem_control i cmd s = do {
     rt_assert (sem_typed i s);
     case cmd of
       RT_IPC_CMD_RESET v \<Rightarrow> do {
         s \<leftarrow> rt_ipc_list_resume_all (SemWait i) s;
         s \<leftarrow> rt_schedule (set_sem i (ucast v) s);
         Some (RT_EOK, s)
       }
     | Ipc_cmd_other _ \<Rightarrow> Some (- RT_ERROR, s)
   }"

section \<open>The kernel invariant\<close>

lemma kernel_inv_set_sem [simp]: "kernel_inv (set_sem i v s) = kernel_inv s"
  by (simp add: set_sem_def)

lemma inv_sem_take [inv_dest]:
  "rt_sem_take i time s = Some (r, s') \<Longrightarrow> kernel_inv s \<Longrightarrow> kernel_inv s'"
  unfolding rt_sem_take_def
  by (auto simp: Option.bind_eq_Some_conv Let_def rt_sem_take_resumed_def dest!: inv_ipc_wait
      elim!: inv_schedule_then split: if_splits)

lemma inv_sem_release [inv_dest]:
  "rt_sem_release i s = Some (r, s') \<Longrightarrow> kernel_inv s \<Longrightarrow> kernel_inv s'"
  unfolding rt_sem_release_def
  by (auto simp: Option.bind_eq_Some_conv dest!: inv_list_resume inv_schedule split: if_splits)

lemma inv_sem_control [inv_dest]:
  "rt_sem_control i c s = Some (r, s') \<Longrightarrow> kernel_inv s \<Longrightarrow> kernel_inv s'"
  unfolding rt_sem_control_def
  by (auto simp: Option.bind_eq_Some_conv dest!: inv_list_resume_all inv_schedule split: ipc_cmd.splits)

lemma inv_sem_init [inv_dest]:
  "rt_sem_init i name v flag s = Some (r, s') \<Longrightarrow> kernel_inv s \<Longrightarrow> kernel_inv s'"
  unfolding rt_sem_init_def rt_ipc_object_init_def
  by (auto simp: Option.bind_eq_Some_conv dest!: inv_object_init)

lemma inv_sem_detach [inv_dest]:
  "rt_sem_detach i s = Some (r, s') \<Longrightarrow> kernel_inv s \<Longrightarrow> kernel_inv s'"
  unfolding rt_sem_detach_def by (auto simp: Option.bind_eq_Some_conv dest!: inv_list_resume_all)

section \<open>What taking and releasing do\<close>

lemma thread_typed_set_error [simp]: "thread_typed (set_error t e s) u = thread_typed s u"
  by (simp add: thread_typed_def set_error_def)

lemma stat_set_error [simp]: "stat_of (set_error t e s) u = stat_of s u"
  by (simp add: stat_of_def set_error_def)

lemma set_error_sel [simp]:
  "lists (set_error t e s) = lists s" "cur_thread (set_error t e s) = cur_thread s"
  "objs (set_error t e s) = objs s" "sems (set_error t e s) = sems s" "rt_tick (set_error t e s) = rt_tick s"
  "mutexes (set_error t e s) = mutexes s" "events (set_error t e s) = events s"
  "mailboxes (set_error t e s) = mailboxes s" "mqs (set_error t e s) = mqs s" "mps (set_error t e s) = mps s"
  "interrupt_nest (set_error t e s) = interrupt_nest s"
  "threads (set_error t e s) = (threads s)(t := (threads s t)\<lparr>thread_error := e\<rparr>)"
  by (simp_all add: set_error_def)

text \<open>The value counts: a semaphore that is available is taken at once, and a release with nobody
  waiting makes it available once more, up to the largest 16-bit value.\<close>

theorem sem_take_release_counts:
  assumes "sem_typed i s" "lists s (SemWait i) = []" "sem_value (sems s i) < 0xffff"
  shows "\<exists>s1 s2. rt_sem_release i s = Some (RT_EOK, s1) \<and>
           unat (sem_value (sems s1 i)) = unat (sem_value (sems s i)) + 1 \<and>
           rt_sem_take i time s1 = Some (Return RT_EOK, s2) \<and> s2 = s"
proof -
  let ?v = "sem_value (sems s i)" and ?s1 = "set_sem i (sem_value (sems s i) + 1) s"
  have u: "unat (?v + 1) = unat ?v + 1"
    using assms(3) by (simp add: word_less_nat_alt unat_word_ariths(1))
  then have pos: "0 < ?v + 1" by (simp add: word_less_nat_alt)
  have rel: "rt_sem_release i s = Some (RT_EOK, ?s1)" using assms by (simp add: rt_sem_release_def)
  have ty: "sem_typed i ?s1" using assms(1) by (simp add: sem_typed_def set_sem_def rt_object_get_type_def)
  have v: "sem_value (sems ?s1 i) = ?v + 1" by (simp add: set_sem_def)
  have undo: "set_sem i ?v ?s1 = s" by (cases s) (simp add: set_sem_def fun_eq_iff)
  have "rt_sem_take i time ?s1 = Some (Return RT_EOK, s)"
    using ty pos undo by (simp add: rt_sem_take_def v)
  then show ?thesis using rel u v by auto
qed

text \<open>A release with threads waiting hands over to the first of them: it leaves the waiting list,
  is ready at the end of the queue of its priority with no error, and the value stays as it was,
  so the token cannot be taken by anybody else; the others keep waiting in their order.\<close>

theorem sem_release_wakes_first:
  assumes inv: "kernel_inv s" and ty: "sem_typed i s" and w: "lists s (SemWait i) = t # ts"
    and t: "thread_typed s t" "stat_of s t = RT_THREAD_SUSPEND"
  shows "\<exists>s1. rt_sem_release i s = Option.bind (rt_schedule s1) (\<lambda>s2. Some (RT_EOK, s2)) \<and>
           kernel_inv s1 \<and> sems s1 = sems s \<and> lists s1 (SemWait i) = ts \<and>
           stat_of s1 t = RT_THREAD_READY \<and> thread_error (threads s1 t) = thread_error (threads s t) \<and>
           (let q = ReadyQ (unat (current_priority (threads s t))) in lists s1 q = lists s q @ [t])"
proof -
  obtain s1 where s1: "rt_thread_resume t s = Some (RT_EOK, s1)" "kernel_inv s1" "same_ipc s s1"
    "cur_thread s1 = cur_thread s"
    "threads s1 = (threads s)(t := (threads s t)\<lparr>stat := with_stat RT_THREAD_READY (stat (threads s t)),
       t_link := Some (ReadyQ (unat (current_priority (threads s t))))\<rparr>)"
    "\<And>l. lists s1 l = (if l = ReadyQ (unat (current_priority (threads s t)))
                        then lists s l @ [t] else remove1 t (lists s l))"
    by (rule resume_effect [OF inv t]) (rule that)
  have "rt_sem_release i s = Option.bind (rt_schedule s1) (\<lambda>s2. Some (RT_EOK, s2))"
    using ty w s1(1) by (simp add: rt_sem_release_def rt_ipc_list_resume_def)
  moreover have "lists s1 (SemWait i) = ts" using w by (simp add: s1(6))
  moreover have "stat_of s1 t = RT_THREAD_READY" using s1(5) by (simp add: stat_of_def)
  moreover have "sems s1 = sems s" using s1(3) by (simp add: same_ipc_def)
  ultimately show ?thesis using s1(2,5,6) by (intro exI [of _ s1]) (simp add: Let_def)
qed

text \<open>Taking a semaphore that is not available queues the thread: it is suspended, waits in the
  place its priority (or, without priority order, its arrival) gives it, with no error recorded,
  and its timer is set when the time is finite; then the scheduler chooses another thread.\<close>

theorem sem_take_waits:
  assumes inv: "kernel_inv s" and ty: "sem_typed i s" and zero: "sem_value (sems s i) = 0"
    and time: "time \<noteq> 0" "time < 2 ^ 31 - 1" and cur: "cur_thread s = Some t" "interrupt_nest s = 0"
    and t: "thread_typed s t" "stat_of s t = RT_THREAD_READY" "hard_timer s t"
    and flag: "obj_flag (objs s (SemObj i)) = RT_IPC_FLAG_FIFO \<or> obj_flag (objs s (SemObj i)) = RT_IPC_FLAG_PRIO"
  shows "\<exists>s1. rt_sem_take i time s = schedule_then t () (rt_sem_take_resumed t) s1 \<and> kernel_inv s1 \<and>
           sems s1 = sems s \<and> stat_of s1 t = RT_THREAD_SUSPEND \<and> thread_error (threads s1 t) = RT_EOK \<and>
           lists s1 (SemWait i) =
             insert_at (wait_place (obj_flag (objs s (SemObj i))) (threads s) (current_priority (threads s t))
               (lists s (SemWait i))) t (lists s (SemWait i)) \<and>
           (time > 0 \<longrightarrow> timeout_tick (timers s1 (ThreadTimer t)) = rt_tick s + word_of_int time)"
proof -
  let ?s0 = "set_error t RT_EOK s" and ?f = "obj_flag (objs s (SemObj i))"
  have i0: "kernel_inv ?s0" "thread_typed ?s0 t" "stat_of ?s0 t = RT_THREAD_READY" "hard_timer ?s0 t"
    using inv t by (simp_all add: hard_timer_def tm_flag_def)
  obtain s1 where s1: "ipc_wait (SemWait i) t ?f time ?s0 = Some s1" "kernel_inv s1" "same_ipc ?s0 s1"
    "cur_thread s1 = cur_thread ?s0" "threads s1 = (threads ?s0)(t := (threads ?s0 t)\<lparr>stat := with_stat RT_THREAD_SUSPEND (stat (threads ?s0 t)),
       t_link := Some (SemWait i)\<rparr>)"
    "\<And>k. lists s1 k = (if k = SemWait i
        then insert_at (wait_place ?f (threads ?s0) (current_priority (threads ?s0 t)) (lists ?s0 (SemWait i))) t
               (lists ?s0 (SemWait i))
        else remove1 t (lists ?s0 k))"
    "time > 0 \<Longrightarrow> timeout_tick (timers s1 (ThreadTimer t)) = rt_tick ?s0 + word_of_int time \<and>
       tm_link (timers s1 (ThreadTimer t)) = Some TimerList"
    by (rule ipc_wait_effect [OF i0(1-3) _ flag i0(4) time(2), of "SemWait i"]) (simp, rule that)
  have place: "wait_place ?f ((threads s)(t := (threads s t)\<lparr>thread_error := RT_EOK\<rparr>)) p us =
      wait_place ?f (threads s) p us" for p us
    by (rule wait_place_cong) simp
  have "rt_sem_take i time s = schedule_then t () (rt_sem_take_resumed t) s1"
    using ty zero time(1) cur s1(1)
    by (simp add: rt_sem_take_def in_thread_context_def not_in_interrupt_def rt_thread_self_def Let_def)
  moreover have "sems s1 = sems s" using s1(3) by (simp add: same_ipc_def)
  ultimately show ?thesis using s1(2,5,7)
    by (intro exI [of _ s1]) (simp add: s1(6) place stat_of_def)
qed

text \<open>The waiting time is bounded: when the timer of a thread that waits for a semaphore expires,
  the thread leaves the waiting list and is ready again with the error \<open>-RT_ETIMEOUT\<close>, which
  \<open>rt_sem_take\<close> then returns.\<close>

theorem sem_take_times_out:
  assumes inv: "kernel_inv s" and w: "t \<in> set (lists s (SemWait i))"
    and t: "thread_typed s t" "stat_of s t = RT_THREAD_SUSPEND"
  shows "\<exists>s1. rt_thread_timeout t s = rt_schedule s1 \<and> kernel_inv s1 \<and> sems s1 = sems s \<and>
           lists s1 (SemWait i) = remove1 t (lists s (SemWait i)) \<and> t \<notin> set (lists s1 (SemWait i)) \<and>
           stat_of s1 t = RT_THREAD_READY \<and>
           (\<forall>s2. threads s2 t = threads s1 t \<longrightarrow>
             rt_sem_take_resumed t s2 = Some (Return (- RT_ETIMEOUT), s2))"
proof -
  obtain s1 where s1: "rt_thread_timeout t s = rt_schedule s1" "kernel_inv s1" "same_ipc s s1"
    "lists s1 (SemWait i) = remove1 t (lists s (SemWait i))" "t \<notin> set (lists s1 (SemWait i))"
    "stat_of s1 t = RT_THREAD_READY" "thread_error (threads s1 t) = - RT_ETIMEOUT"
    by (rule timeout_effect [OF inv t, of "SemWait i"]) (simp, rule that)
  moreover have "sems s1 = sems s" using s1(3) by (simp add: same_ipc_def)
  ultimately show ?thesis by (intro exI [of _ s1]) (simp add: rt_sem_take_resumed_def)
qed

end
