(* ===== verification/Mutex.thy ===== *)
theory Mutex
  imports Semaphore
begin

text \<open>
  The mutexes of \<open>src/src/ipc.c\<close>: owned, recursive up to 255 holds, with priority inheritance: a
  thread that has to wait lends its priority to a less urgent owner until the owner's last
  release.
\<close>

section \<open>Operations\<close>

definition upd_mutex :: "nat \<Rightarrow> (rt_mutex \<Rightarrow> rt_mutex) \<Rightarrow> kstate \<Rightarrow> kstate" where
  "upd_mutex i f s = s\<lparr>mutexes := (mutexes s)(i := f (mutexes s i))\<rparr>"

definition mutex_typed :: "nat \<Rightarrow> kstate \<Rightarrow> bool" where
  "mutex_typed i s \<longleftrightarrow> rt_object_get_type (MutexObj i) s = RT_Object_Class_Mutex"

definition mutex_reset_record :: "rt_mutex \<Rightarrow> rt_mutex" where
  "mutex_reset_record mx = mx\<lparr>mutex_value := 1, owner := None, original_priority := 0xff, hold := 0\<rparr>"

definition rt_mutex_init :: "nat \<Rightarrow> u8 list \<Rightarrow> u8 \<Rightarrow> kstate \<Rightarrow> (rt_err_t \<times> kstate) option" where
  "rt_mutex_init i name flag s = do {
     s \<leftarrow> rt_object_init (MutexObj i) RT_Object_Class_Mutex name s;
     s \<leftarrow> rt_ipc_object_init (MutexWait i) s;
     Some (RT_EOK, set_flag (MutexObj i) flag (upd_mutex i mutex_reset_record s))
   }"

definition rt_mutex_detach :: "nat \<Rightarrow> kstate \<Rightarrow> (rt_err_t \<times> kstate) option" where
  "rt_mutex_detach i s = do {
     rt_assert (mutex_typed i s);
     rt_assert (rt_object_is_systemobject (MutexObj i) s);
     s \<leftarrow> rt_ipc_list_resume_all (MutexWait i) s;
     Some (RT_EOK, rt_object_detach (MutexObj i) s)
   }"

definition rt_mutex_create :: "nat option \<Rightarrow> u8 list \<Rightarrow> u8 \<Rightarrow> kstate \<Rightarrow> (nat option \<times> kstate) option" where
  "rt_mutex_create blk name flag s = do {
     not_in_interrupt s;
     (_, s) \<leftarrow> rt_object_allocate (map_option MutexObj blk) RT_Object_Class_Mutex name s;
     case blk of
       None \<Rightarrow> Some (None, s)
     | Some i \<Rightarrow> do {
         s \<leftarrow> rt_ipc_object_init (MutexWait i) s;
         Some (Some i, set_flag (MutexObj i) flag (upd_mutex i mutex_reset_record s))
       }
   }"

definition rt_mutex_delete :: "nat \<Rightarrow> kstate \<Rightarrow> (rt_err_t \<times> kstate) option" where
  "rt_mutex_delete i s = do {
     not_in_interrupt s;
     rt_assert (mutex_typed i s);
     rt_assert (\<not> rt_object_is_systemobject (MutexObj i) s);
     s \<leftarrow> rt_ipc_list_resume_all (MutexWait i) s;
     s \<leftarrow> rt_object_delete (MutexObj i) s;
     Some (RT_EOK, s)
   }"

definition rt_mutex_take_resumed :: "tid \<Rightarrow> kstate \<Rightarrow> ((unit, rt_err_t) outcome \<times> kstate) option" where
  "rt_mutex_take_resumed t s =
     Some (Return (if thread_error (threads s t) \<noteq> RT_EOK then thread_error (threads s t) else RT_EOK), s)"

text \<open>\<open>RT_MUTEX_HOLD_MAX\<close> is 255.  The owner of a mutex without value is dereferenced.\<close>

definition rt_mutex_take :: "nat \<Rightarrow> int \<Rightarrow> kstate \<Rightarrow> ((unit, rt_err_t) outcome \<times> kstate) option" where
  "rt_mutex_take i time s = do {
     in_thread_context s;
     rt_assert (mutex_typed i s);
     t \<leftarrow> rt_thread_self s;
     let s = set_error t RT_EOK s;
     if owner (mutexes s i) = Some t then
       (if hold (mutexes s i) < 0xff
        then Some (Return RT_EOK, upd_mutex i (\<lambda>mx. mx\<lparr>hold := hold mx + 1\<rparr>) s)
        else Some (Return (- RT_EFULL), s))
     else if mutex_value (mutexes s i) > 0 then
       (let s = upd_mutex i (\<lambda>mx. mx\<lparr>mutex_value := mutex_value mx - 1, owner := Some t,
                                  original_priority := current_priority (threads s t)\<rparr>) s in
        if hold (mutexes s i) < 0xff
        then Some (Return RT_EOK, upd_mutex i (\<lambda>mx. mx\<lparr>hold := hold mx + 1\<rparr>) s)
        else Some (Return (- RT_EFULL), s))
     else if time = 0 then Some (Return (- RT_ETIMEOUT), set_error t (- RT_ETIMEOUT) s)
     else do {
       u \<leftarrow> owner (mutexes s i);
       s \<leftarrow> (if current_priority (threads s t) < current_priority (threads s u)
             then do {
               (_, s) \<leftarrow> rt_thread_control u (RT_THREAD_CTRL_CHANGE_PRIORITY (current_priority (threads s t))) s;
               Some s
             }
             else Some s);
       s \<leftarrow> ipc_wait (MutexWait i) t (obj_flag (objs s (MutexObj i))) time s;
       schedule_then t () (rt_mutex_take_resumed t) s
     }
   }"

text \<open>The last release of the owner: its priority goes back to what it was at the take, and the
  mutex goes to the first waiting thread or becomes free.\<close>

definition mutex_restore_priority :: "nat \<Rightarrow> tid \<Rightarrow> kstate \<Rightarrow> kstate option" where
  "mutex_restore_priority i t s =
     (if original_priority (mutexes s i) \<noteq> current_priority (threads s t)
      then do {
        (_, s) \<leftarrow> rt_thread_control t (RT_THREAD_CTRL_CHANGE_PRIORITY (original_priority (mutexes s i))) s;
        Some s
      }
      else Some s)"

definition mutex_handover :: "nat \<Rightarrow> kstate \<Rightarrow> (rt_err_t \<times> kstate) option" where
  "mutex_handover i s =
     (if lists s (MutexWait i) \<noteq> [] then
        (let u = hd (lists s (MutexWait i));
             s = upd_mutex i (\<lambda>mx. mx\<lparr>owner := Some u, original_priority := current_priority (threads s u)\<rparr>) s in
         if hold (mutexes s i) < 0xff then do {
           let s = upd_mutex i (\<lambda>mx. mx\<lparr>hold := hold mx + 1\<rparr>) s;
           s \<leftarrow> rt_ipc_list_resume (MutexWait i) s;
           s \<leftarrow> rt_schedule s;
           Some (RT_EOK, s)
         }
         else Some (- RT_EFULL, s))
      else if mutex_value (mutexes s i) < 0xffff
      then Some (RT_EOK, upd_mutex i (\<lambda>mx. mx\<lparr>mutex_value := mutex_value mx + 1, owner := None,
                                             original_priority := 0xff\<rparr>) s)
      else Some (- RT_EFULL, s))"

definition rt_mutex_release :: "nat \<Rightarrow> kstate \<Rightarrow> (rt_err_t \<times> kstate) option" where
  "rt_mutex_release i s = do {
     rt_assert (mutex_typed i s);
     in_thread_context s;
     t \<leftarrow> rt_thread_self s;
     if owner (mutexes s i) \<noteq> Some t then Some (- RT_ERROR, set_error t (- RT_ERROR) s)
     else do {
       let s = upd_mutex i (\<lambda>mx. mx\<lparr>hold := hold mx - 1\<rparr>) s;
       if hold (mutexes s i) = 0 then do {
         s \<leftarrow> mutex_restore_priority i t s;
         mutex_handover i s
       }
       else Some (RT_EOK, s)
     }
   }"

definition rt_mutex_control :: "nat \<Rightarrow> ipc_cmd \<Rightarrow> kstate \<Rightarrow> (rt_err_t \<times> kstate) option" where
  "rt_mutex_control i cmd s = do {
     rt_assert (mutex_typed i s);
     Some (- RT_ERROR, s)
   }"

section \<open>The kernel invariant\<close>

lemma kernel_inv_upd_mutex [simp]: "kernel_inv (upd_mutex i f s) = kernel_inv s"
  by (simp add: upd_mutex_def)

lemma inv_mutex_take [inv_dest]:
  assumes "rt_mutex_take i time s = Some (r, s')" "kernel_inv s"
  shows "kernel_inv s'"
  using assms unfolding rt_mutex_take_def
  by (auto simp: Option.bind_eq_Some_conv Let_def rt_mutex_take_resumed_def dest!: inv_ipc_wait
      inv_change_priority elim!: inv_schedule_then split: if_splits)

lemma inv_restore_priority:
  "mutex_restore_priority i t s = Some s' \<Longrightarrow> kernel_inv s \<Longrightarrow> kernel_inv s'"
  unfolding mutex_restore_priority_def
  by (auto simp: Option.bind_eq_Some_conv dest!: inv_change_priority split: if_splits)

lemma inv_handover:
  "mutex_handover i s = Some (r, s') \<Longrightarrow> kernel_inv s \<Longrightarrow> kernel_inv s'"
  unfolding mutex_handover_def
  by (auto simp: Option.bind_eq_Some_conv Let_def dest!: inv_list_resume inv_schedule split: if_splits)

lemma inv_mutex_release [inv_dest]:
  "rt_mutex_release i s = Some (r, s') \<Longrightarrow> kernel_inv s \<Longrightarrow> kernel_inv s'"
  unfolding rt_mutex_release_def
  by (auto simp: Option.bind_eq_Some_conv Let_def dest!: inv_restore_priority inv_handover split: if_splits)

lemma inv_mutex_init [inv_dest]:
  "rt_mutex_init i name flag s = Some (r, s') \<Longrightarrow> kernel_inv s \<Longrightarrow> kernel_inv s'"
  unfolding rt_mutex_init_def rt_ipc_object_init_def
  by (auto simp: Option.bind_eq_Some_conv dest!: inv_object_init)

lemma inv_mutex_detach [inv_dest]:
  "rt_mutex_detach i s = Some (r, s') \<Longrightarrow> kernel_inv s \<Longrightarrow> kernel_inv s'"
  unfolding rt_mutex_detach_def by (auto simp: Option.bind_eq_Some_conv dest!: inv_list_resume_all)

section \<open>The mutex invariant\<close>

text \<open>A mutex is free (value 1, no holds, no owner) or owned (value 0, held at least once).\<close>

definition mutex_ok :: "rt_mutex \<Rightarrow> bool" where
  "mutex_ok mx \<longleftrightarrow>
     (owner mx = None \<and> mutex_value mx = 1 \<and> hold mx = 0) \<or>
     (owner mx \<noteq> None \<and> mutex_value mx = 0 \<and> 0 < hold mx)"

lemma upd_mutex_sel [simp]:
  "mutexes (upd_mutex i f s) = (mutexes s)(i := f (mutexes s i))" "threads (upd_mutex i f s) = threads s"
  "lists (upd_mutex i f s) = lists s" "cur_thread (upd_mutex i f s) = cur_thread s"
  "objs (upd_mutex i f s) = objs s" "interrupt_nest (upd_mutex i f s) = interrupt_nest s"
  by (simp_all add: upd_mutex_def)

lemma upd_mutex_typed [simp]:
  "mutex_typed j (upd_mutex i f s) = mutex_typed j s" "mutex_typed j (set_error t e s) = mutex_typed j s"
  "thread_typed (upd_mutex i f s) t = thread_typed s t" "stat_of (upd_mutex i f s) t = stat_of s t"
  by (simp_all add: mutex_typed_def thread_typed_def rt_object_get_type_def stat_of_def)

section \<open>Ownership\<close>

lemma same_ipc_mutexes: "same_ipc s s' \<Longrightarrow> mutexes s' = mutexes s"
  by (simp add: same_ipc_def)

lemma mutex_take_own:
  assumes "cur_thread s = Some t" "mutex_typed i s" "interrupt_nest s = 0" "owner (mutexes s i) = Some t"
  shows "rt_mutex_take i time s =
    (if hold (mutexes s i) < 0xff
     then Some (Return RT_EOK, upd_mutex i (\<lambda>mx. mx\<lparr>hold := hold mx + 1\<rparr>) (set_error t RT_EOK s))
     else Some (Return (- RT_EFULL), set_error t RT_EOK s))"
  using assms
  by (simp add: rt_mutex_take_def in_thread_context_def not_in_interrupt_def rt_thread_self_def Let_def)

lemma mutex_take_free:
  assumes "cur_thread s = Some t" "mutex_typed i s" "interrupt_nest s = 0"
    "owner (mutexes s i) = None" "mutex_value (mutexes s i) = 1" "hold (mutexes s i) = 0"
  shows "rt_mutex_take i time s =
     Some (Return RT_EOK, upd_mutex i (\<lambda>mx. mx\<lparr>mutex_value := 0, owner := Some t,
       original_priority := current_priority (threads s t), hold := 1\<rparr>) (set_error t RT_EOK s))"
  using assms
  by (cases "mutexes s i")
    (simp add: rt_mutex_take_def in_thread_context_def not_in_interrupt_def rt_thread_self_def Let_def
      upd_mutex_def)

lemma mutex_take_busy:
  assumes "rt_mutex_take i time s = Some (r, s')" "cur_thread s = Some t"
    and "owner (mutexes s i) = Some u" "u \<noteq> t" "mutex_value (mutexes s i) = 0"
  shows "same_ipc s s'"
proof (cases "time = 0")
  case True
  then show ?thesis using assms
    by (auto simp: rt_mutex_take_def rt_thread_self_def Option.bind_eq_Some_conv Let_def set_error_def)
next
  case False
  let ?s0 = "set_error t RT_EOK s" and ?p = "current_priority (threads s t)"
  obtain s1 s2 where s1: "?p < current_priority (threads s u) \<and>
        (\<exists>r. rt_thread_control u (RT_THREAD_CTRL_CHANGE_PRIORITY ?p) ?s0 = Some (r, s1)) \<or> s1 = ?s0"
    and s2: "ipc_wait (MutexWait i) t (obj_flag (objs s1 (MutexObj i))) time s1 = Some s2"
    and s': "schedule_then t () (rt_mutex_take_resumed t) s2 = Some (r, s')"
    using assms False
    by (auto simp: rt_mutex_take_def rt_thread_self_def Option.bind_eq_Some_conv Let_def split: if_splits)
  have "same_ipc s ?s0" by (simp add: set_error_def)
  then have "same_ipc s s1" using s1 frame_change_priority by blast
  then have "same_ipc s s2" by (rule frame_ipc_wait [OF s2])
  then show ?thesis using s'
    by (auto simp: schedule_then_def rt_mutex_take_resumed_def Option.bind_eq_Some_conv split: if_splits
        dest: frame_schedule)
qed

text \<open>Taking: the invariant is kept, no other mutex changes, and this one changes its owner only
  from nobody to the caller.\<close>

theorem mutex_take_ownership:
  assumes "rt_mutex_take i time s = Some (r, s')" "mutex_ok (mutexes s i)" "cur_thread s = Some t"
  shows "mutex_ok (mutexes s' i) \<and> (\<forall>j. j \<noteq> i \<longrightarrow> mutexes s' j = mutexes s j) \<and>
     (case owner (mutexes s i) of
        None \<Rightarrow> r = Return RT_EOK \<and> owner (mutexes s' i) = Some t \<and> hold (mutexes s' i) = 1
      | Some u \<Rightarrow> owner (mutexes s' i) = Some u \<and>
          unat (hold (mutexes s' i)) = unat (hold (mutexes s i)) + (if u = t \<and> r = Return RT_EOK then 1 else 0))"
proof -
  have c: "mutex_typed i s" "interrupt_nest s = 0"
    using assms(1) by (auto simp: rt_mutex_take_def in_thread_context_def not_in_interrupt_def Option.bind_eq_Some_conv)
  show ?thesis
  proof (cases "owner (mutexes s i)")
    case None
    then show ?thesis using assms c
      by (auto simp: mutex_take_free mutex_ok_def)
  next
    case (Some u)
    show ?thesis
    proof (cases "u = t")
      case True
      have "unat (hold (mutexes s i) + 1) = unat (hold (mutexes s i)) + 1" if "hold (mutexes s i) < 0xff"
        using that by (simp add: word_less_nat_alt unat_word_ariths(1))
      moreover from this have "0 < hold (mutexes s i) + 1" if "hold (mutexes s i) < 0xff"
        using that by (simp add: word_less_nat_alt)
      ultimately show ?thesis using assms c Some True mutex_take_own [OF assms(3) c, of time]
        by (auto simp: mutex_ok_def split: if_splits)
    next
      case False
      have "mutexes s' = mutexes s"
        by (rule same_ipc_mutexes [OF mutex_take_busy [OF assms(1,3) Some False]])
          (use assms(2) Some in \<open>simp add: mutex_ok_def\<close>)
      then show ?thesis using assms(2) Some False by simp
    qed
  qed
qed

text \<open>Releasing: only the owner can; an inner release counts down; the last one frees the mutex or
  hands it over, still held, to the first waiting thread.\<close>

lemma restore_priority_mutexes: "mutex_restore_priority i t s = Some s' \<Longrightarrow> same_ipc s s'"
  unfolding mutex_restore_priority_def
  by (auto simp: Option.bind_eq_Some_conv split: if_splits dest: frame_change_priority [OF _ same_ipc_refl])

lemma restore_priority_lists:
  assumes "mutex_restore_priority i t s = Some s'" "kernel_inv s" "thread_typed s t"
    and "stat_of s t = RT_THREAD_READY" "original_priority (mutexes s i) < 32"
  shows "kernel_inv s' \<and> current_priority (threads s' t) = original_priority (mutexes s i) \<and>
    stat_of s' t = RT_THREAD_READY \<and> cur_thread s' = cur_thread s \<and> (\<forall>u. u \<noteq> t \<longrightarrow> threads s' u = threads s u) \<and>
    lists s' (MutexWait j) = lists s (MutexWait j)"
proof (cases "original_priority (mutexes s i) = current_priority (threads s t)")
  case True
  then show ?thesis using assms by (simp add: mutex_restore_priority_def)
next
  case False
  obtain s1 where s1: "rt_thread_control t (RT_THREAD_CTRL_CHANGE_PRIORITY (original_priority (mutexes s i))) s = Some (RT_EOK, s1)"
    "kernel_inv s1" "same_ipc s s1" "cur_thread s1 = cur_thread s"
    "current_priority (threads s1 t) = original_priority (mutexes s i)" "stat_of s1 t = RT_THREAD_READY"
    "\<And>u. u \<noteq> t \<Longrightarrow> threads s1 u = threads s u"
    "\<And>i. lists s1 (MutexWait i) = lists s (MutexWait i)"
    by (rule change_priority_effect [OF assms(2-5)]) (rule that)
  have "s' = s1" using assms(1) s1(1) False by (simp add: mutex_restore_priority_def)
  then show ?thesis using s1 by simp
qed

theorem mutex_release_ownership:
  assumes "rt_mutex_release i s = Some (r, s')" "mutex_ok (mutexes s i)" "cur_thread s = Some t"
  shows "mutex_ok (mutexes s' i) \<and> (\<forall>j. j \<noteq> i \<longrightarrow> mutexes s' j = mutexes s j) \<and>
     (if owner (mutexes s i) \<noteq> Some t then r = - RT_ERROR \<and> mutexes s' i = mutexes s i
      else r = RT_EOK \<and>
        (if hold (mutexes s i) = 1
         then owner (mutexes s' i) = None \<or> hold (mutexes s' i) = 1
         else owner (mutexes s' i) = Some t \<and> unat (hold (mutexes s i)) = unat (hold (mutexes s' i)) + 1))"
proof (cases "owner (mutexes s i) = Some t")
  case False
  then show ?thesis using assms
    by (auto simp: rt_mutex_release_def rt_thread_self_def Option.bind_eq_Some_conv)
next
  case True
  let ?s1 = "upd_mutex i (\<lambda>mx. mx\<lparr>hold := hold mx - 1\<rparr>) s"
  have ok: "0 < hold (mutexes s i)" "mutex_value (mutexes s i) = 0" using assms(2) True by (auto simp: mutex_ok_def)
  have nz: "hold (mutexes s i) \<noteq> 0" and "0 < unat (hold (mutexes s i))"
    using ok(1) by (simp_all add: word_gt_0 unat_gt_0)
  then have u: "unat (hold (mutexes s i) - 1) + 1 = unat (hold (mutexes s i))"
    using unat_minus_one [OF nz] by linarith
  show ?thesis
  proof (cases "hold (mutexes s i) = 1")
    case False
    then have "0 < hold (mutexes s i) - 1" using u by (metis eq_iff_diff_eq_0 word_gt_0)
    then show ?thesis using assms True False ok u
      by (auto simp: rt_mutex_release_def rt_thread_self_def Option.bind_eq_Some_conv mutex_ok_def Let_def split: if_splits)
  next
    case hold: True
    obtain s2 where s2: "mutex_restore_priority i t ?s1 = Some s2" "mutex_handover i s2 = Some (r, s')"
      using assms True hold by (auto simp: rt_mutex_release_def rt_thread_self_def Option.bind_eq_Some_conv)
    have M: "mutexes s2 = (mutexes s)(i := (mutexes s i)\<lparr>hold := 0\<rparr>)"
      using same_ipc_mutexes [OF restore_priority_mutexes [OF s2(1)]] hold by simp
    show ?thesis
    proof (cases "lists s2 (MutexWait i) = []")
      case True
      then show ?thesis using s2(2) M ok \<open>owner (mutexes s i) = Some t\<close> hold
        by (auto simp: mutex_handover_def mutex_ok_def)
    next
      case False
      let ?u = "hd (lists s2 (MutexWait i))"
      let ?mx = "(mutexes s i)\<lparr>hold := 1, owner := Some ?u, original_priority := current_priority (threads s2 ?u)\<rparr>"
      have "r = RT_EOK \<and> mutexes s' = (mutexes s)(i := ?mx)"
        using s2(2) False M ok
        by (auto simp: mutex_handover_def Option.bind_eq_Some_conv Let_def dest!: frame_list_resume [OF _ same_ipc_refl]
            same_ipc_schedule same_ipc_mutexes)
      then show ?thesis using \<open>owner (mutexes s i) = Some t\<close> hold ok by (simp add: mutex_ok_def)
    qed
  qed
qed

lemma restore_priority_some:
  assumes "kernel_inv s" "thread_typed s t" "stat_of s t = RT_THREAD_READY" "original_priority (mutexes s i) < 32"
  shows "\<exists>s'. mutex_restore_priority i t s = Some s'"
proof -
  obtain s1 where "rt_thread_control t (RT_THREAD_CTRL_CHANGE_PRIORITY (original_priority (mutexes s i))) s = Some (RT_EOK, s1)"
    using change_priority_effect [OF assms] by metis
  then show ?thesis by (simp add: mutex_restore_priority_def)
qed

text \<open>The last release by the owner with threads waiting: the owner's priority goes back to what it
  was when it took the mutex, and the first waiting thread becomes ready as the new owner.\<close>

theorem mutex_release_hands_over:
  assumes inv: "kernel_inv s" and ty: "mutex_typed i s" and cur: "cur_thread s = Some t" "interrupt_nest s = 0"
    and own: "owner (mutexes s i) = Some t" "hold (mutexes s i) = 1"
    and t: "thread_typed s t" "stat_of s t = RT_THREAD_READY" "original_priority (mutexes s i) < 32"
    and w: "lists s (MutexWait i) = u # us" and u: "thread_typed s u" "stat_of s u = RT_THREAD_SUSPEND"
  shows "\<exists>s1. rt_mutex_release i s = Option.bind (rt_schedule s1) (\<lambda>s2. Some (RT_EOK, s2)) \<and> kernel_inv s1 \<and>
     owner (mutexes s1 i) = Some u \<and> hold (mutexes s1 i) = 1 \<and> lists s1 (MutexWait i) = us \<and>
     stat_of s1 u = RT_THREAD_READY \<and> original_priority (mutexes s1 i) = current_priority (threads s u) \<and>
     current_priority (threads s1 t) = original_priority (mutexes s i)"
proof -
  let ?s0 = "upd_mutex i (\<lambda>mx. mx\<lparr>hold := hold mx - 1\<rparr>) s"
  have tu: "u \<noteq> t" using t(2) u(2) by auto
  have t0: "thread_typed ?s0 t" "stat_of ?s0 t = RT_THREAD_READY" "original_priority (mutexes ?s0 i) < 32" "kernel_inv ?s0"
    using t inv by simp_all
  obtain s1 where s1: "mutex_restore_priority i t ?s0 = Some s1"
    using restore_priority_some [OF t0(4,1,2,3)] by blast
  note R = restore_priority_lists [OF s1 t0(4,1-3), of i]
  have S: "same_ipc ?s0 s1" by (rule restore_priority_mutexes [OF s1])
  let ?s2 = "upd_mutex i (\<lambda>mx. mx\<lparr>hold := hold mx + 1\<rparr>)
      (upd_mutex i (\<lambda>mx. mx\<lparr>owner := Some u, original_priority := current_priority (threads s1 u)\<rparr>) s1)"
  have u2: "thread_typed ?s2 u" "stat_of ?s2 u = RT_THREAD_SUSPEND" "kernel_inv ?s2"
    using R tu u thread_typed_same [OF S, of u] by (simp_all add: stat_of_def)
  obtain s3 where s3: "rt_thread_resume u ?s2 = Some (RT_EOK, s3)" "kernel_inv s3" "same_ipc ?s2 s3"
    "cur_thread s3 = cur_thread ?s2"
    "threads s3 = (threads ?s2)(u := (threads ?s2 u)\<lparr>stat := with_stat RT_THREAD_READY (stat (threads ?s2 u)),
       t_link := Some (ReadyQ (unat (current_priority (threads ?s2 u))))\<rparr>)"
    "\<And>l. lists s3 l = (if l = ReadyQ (unat (current_priority (threads ?s2 u)))
                        then lists ?s2 l @ [u] else remove1 u (lists ?s2 l))"
    by (rule resume_effect [OF u2(3,1,2)]) (rule that)
  have M1: "mutexes s1 i = (mutexes s i)\<lparr>hold := 0\<rparr>" using same_ipc_mutexes [OF S] own by simp
  have "rt_mutex_release i s = Option.bind (rt_schedule s3) (\<lambda>s2. Some (RT_EOK, s2))"
    using ty cur own s1 s3(1) R w M1
    by (simp add: rt_mutex_release_def in_thread_context_def not_in_interrupt_def rt_thread_self_def Let_def
        mutex_handover_def rt_ipc_list_resume_def)
  moreover have "mutexes s3 i = (mutexes s i)\<lparr>hold := 1, owner := Some u, original_priority := current_priority (threads s u)\<rparr>"
    using same_ipc_mutexes [OF s3(3)] M1 R tu by simp
  moreover have "lists s3 (MutexWait i) = us" "stat_of s3 u = RT_THREAD_READY"
      "current_priority (threads s3 t) = original_priority (mutexes s i)"
    using s3(5,6) R w tu by (simp_all add: stat_of_def)
  ultimately show ?thesis using s3(2) by (intro exI [of _ s3]) simp
qed

text \<open>The step of a waiting \<open>take\<close> that lends the caller's priority to the owner: it changes nothing
  but the owner's priority and its place on the ready lists.\<close>

lemma boost_effect:
  assumes inv: "kernel_inv s" and own: "u \<noteq> t" and t: "stat_of s t = RT_THREAD_READY" "hard_timer s t"
    and u: "thread_typed s u" "stat_of s u = RT_THREAD_READY"
  obtains s1 where
    "(if current_priority (threads s t) < current_priority (threads s u)
      then do {
        (_, s) \<leftarrow> rt_thread_control u (RT_THREAD_CTRL_CHANGE_PRIORITY (current_priority (threads s t))) s;
        Some s
      }
      else Some s) = Some s1"
    "kernel_inv s1" "same_ipc s s1" "cur_thread s1 = cur_thread s"
    "current_priority (threads s1 u) = min (current_priority (threads s u)) (current_priority (threads s t))"
    "threads s1 t = threads s t" "hard_timer s1 t" "objs s1 = objs s"
proof -
  let ?p = "current_priority (threads s t)"
  have p32: "?p < 32" using mask_of(1) [OF inv disjI1 [OF t(1)]] by (simp add: word_less_nat_alt)
  show thesis
  proof (cases "?p < current_priority (threads s u)")
    case True
    obtain s1 where s1: "rt_thread_control u (RT_THREAD_CTRL_CHANGE_PRIORITY ?p) s = Some (RT_EOK, s1)"
      "kernel_inv s1" "same_ipc s s1" "cur_thread s1 = cur_thread s"
      "current_priority (threads s1 u) = ?p" "stat_of s1 u = RT_THREAD_READY"
      "\<And>v. v \<noteq> u \<Longrightarrow> threads s1 v = threads s v"
      "\<And>i. lists s1 (MutexWait i) = lists s (MutexWait i)"
      by (rule change_priority_effect [OF inv u p32]) (rule that)
    have O: "objs s1 = objs s" using s1(1) u(2)
      by (auto simp: rt_thread_control_def set_priority_def Option.bind_eq_Some_conv remove_thread_eq insert_thread_eq
          Let_def split: if_splits)
    then have "hard_timer s1 t" using t(2) by (simp add: hard_timer_def tm_flag_def)
    with s1 O own True show thesis by (intro that [of s1]) (simp_all add: min_absorb2 less_imp_le)
  next
    case False
    then have "min (current_priority (threads s u)) ?p = current_priority (threads s u)"
      by (simp add: min_absorb1 linorder_not_less)
    then show thesis using inv t(2) by (intro that [of s]) (simp_all add: False same_ipc_def)
  qed
qed

text \<open>Priority inheritance: a thread that has to wait for a mutex joins the waiting list in its
  place, and the owner then runs at least at the priority of the waiting thread.\<close>

theorem mutex_take_inherits:
  assumes inv: "kernel_inv s" and ty: "mutex_typed i s" and cur: "cur_thread s = Some t" "interrupt_nest s = 0"
    and ok: "mutex_ok (mutexes s i)" and own: "owner (mutexes s i) = Some u" "u \<noteq> t"
    and time: "time \<noteq> 0" "time < 2 ^ 31 - 1"
    and t: "thread_typed s t" "stat_of s t = RT_THREAD_READY" "hard_timer s t"
    and u: "thread_typed s u" "stat_of s u = RT_THREAD_READY"
    and flag: "obj_flag (objs s (MutexObj i)) = RT_IPC_FLAG_FIFO \<or> obj_flag (objs s (MutexObj i)) = RT_IPC_FLAG_PRIO"
  shows "\<exists>s1. rt_mutex_take i time s = schedule_then t () (rt_mutex_take_resumed t) s1 \<and> kernel_inv s1 \<and>
     mutexes s1 = mutexes s \<and> stat_of s1 t = RT_THREAD_SUSPEND \<and> t \<in> set (lists s1 (MutexWait i)) \<and>
     current_priority (threads s1 t) = current_priority (threads s t) \<and>
     current_priority (threads s1 u) = min (current_priority (threads s u)) (current_priority (threads s t))"
proof -
  let ?s0 = "set_error t RT_EOK s" and ?f = "obj_flag (objs s (MutexObj i))"
  have v: "mutex_value (mutexes s i) = 0" using ok own by (auto simp: mutex_ok_def)
  have i0: "kernel_inv ?s0" "stat_of ?s0 t = RT_THREAD_READY" "hard_timer ?s0 t"
    "thread_typed ?s0 u" "stat_of ?s0 u = RT_THREAD_READY"
    using inv u t by (simp_all add: hard_timer_def tm_flag_def)
  obtain s1 where s1: "(if current_priority (threads ?s0 t) < current_priority (threads ?s0 u)
      then do {
        (_, s) \<leftarrow> rt_thread_control u (RT_THREAD_CTRL_CHANGE_PRIORITY (current_priority (threads ?s0 t))) ?s0;
        Some s
      }
      else Some ?s0) = Some s1"
    "kernel_inv s1" "same_ipc ?s0 s1" "cur_thread s1 = cur_thread ?s0"
    "current_priority (threads s1 u) = min (current_priority (threads ?s0 u)) (current_priority (threads ?s0 t))"
    "threads s1 t = threads ?s0 t" "hard_timer s1 t" "objs s1 = objs ?s0"
    by (rule boost_effect [OF i0(1) own(2) i0(2-5)])
  have same: "same_ipc s s1" using s1(3) by (simp add: same_ipc_def set_error_def)
  have flag1: "obj_flag (objs s1 (MutexObj i)) = ?f" by (simp add: s1(8))
  have t1: "thread_typed s1 t" "stat_of s1 t = RT_THREAD_READY"
    using t thread_typed_same [OF same] s1(6) by (simp_all add: stat_of_def)
  obtain s2 where s2: "ipc_wait (MutexWait i) t ?f time s1 = Some s2" "kernel_inv s2" "same_ipc s1 s2"
    "cur_thread s2 = cur_thread s1"
    "threads s2 = (threads s1)(t := (threads s1 t)\<lparr>stat := with_stat RT_THREAD_SUSPEND (stat (threads s1 t)),
       t_link := Some (MutexWait i)\<rparr>)"
    "\<And>k. lists s2 k = (if k = MutexWait i
        then insert_at (wait_place ?f (threads s1) (current_priority (threads s1 t)) (lists s1 (MutexWait i))) t
               (lists s1 (MutexWait i))
        else remove1 t (lists s1 k))"
    "time > 0 \<Longrightarrow> timeout_tick (timers s2 (ThreadTimer t)) = rt_tick s1 + word_of_int time \<and>
       tm_link (timers s2 (ThreadTimer t)) = Some TimerList"
    by (rule ipc_wait_effect [OF s1(2) t1 _ flag s1(7) time(2), of "MutexWait i"]) (simp, rule that)
  have "rt_mutex_take i time s = schedule_then t () (rt_mutex_take_resumed t) s2"
    using ty cur own v time(1) s1(1) flag1 s2(1)
    by (simp add: rt_mutex_take_def in_thread_context_def not_in_interrupt_def rt_thread_self_def Let_def)
  moreover have "mutexes s2 = mutexes s" using same_ipc_mutexes same s2(3) by metis
  ultimately show ?thesis using s2(2,5,6) s1(5,6) own(2)
    by (intro exI [of _ s2]) (simp add: stat_of_def)
qed

text \<open>C17. Releasing two mutexes in the order they were taken does not undo a boost.  Thread \<open>t\<close> of
  priority \<open>p\<close> holds mutex \<open>i\<close>, was boosted to \<open>q\<close> by a thread that has given up waiting since,
  and takes mutex \<open>j\<close>: when both are released, \<open>t\<close> owns nothing and keeps the priority \<open>q\<close>.\<close>

theorem mutex_boost_outlives_release:
  assumes inv: "kernel_inv s" and ty: "mutex_typed i s" "mutex_typed j s" "i \<noteq> j"
    and cur: "cur_thread s = Some t" "interrupt_nest s = 0"
    and i: "owner (mutexes s i) = Some t" "hold (mutexes s i) = 1" "mutex_value (mutexes s i) = 0"
      "original_priority (mutexes s i) = p"
    and j: "mutex_ok (mutexes s j)" "owner (mutexes s j) = None"
    and t: "thread_typed s t" "stat_of s t = RT_THREAD_READY" "current_priority (threads s t) = q"
    and pq: "p < 32" "q < 32" "q \<noteq> p"
    and w: "lists s (MutexWait i) = []" "lists s (MutexWait j) = []"
  shows "\<exists>s1 s2 s3. rt_mutex_take j time s = Some (Return RT_EOK, s1) \<and>
     rt_mutex_release i s1 = Some (RT_EOK, s2) \<and> current_priority (threads s2 t) = p \<and>
     rt_mutex_release j s2 = Some (RT_EOK, s3) \<and>
     owner (mutexes s3 i) = None \<and> owner (mutexes s3 j) = None \<and> current_priority (threads s3 t) = q"
proof -
  let ?s1 = "upd_mutex j (\<lambda>mx. mx\<lparr>mutex_value := 0, owner := Some t,
       original_priority := current_priority (threads s t), hold := 1\<rparr>) (set_error t RT_EOK s)"
  have take: "rt_mutex_take j time s = Some (Return RT_EOK, ?s1)"
    by (rule mutex_take_free [OF cur(1) ty(2) cur(2) j(2)]) (use j in \<open>auto simp: mutex_ok_def\<close>)
  let ?a = "upd_mutex i (\<lambda>mx. mx\<lparr>hold := hold mx - 1\<rparr>) ?s1"
  have a: "kernel_inv ?a" "thread_typed ?a t" "stat_of ?a t = RT_THREAD_READY" "original_priority (mutexes ?a i) < 32"
    using inv t i pq ty(3) by simp_all
  obtain b where b: "mutex_restore_priority i t ?a = Some b" using restore_priority_some [OF a] by blast
  note B = restore_priority_lists [OF b a] and Bs = restore_priority_mutexes [OF b]
  let ?s2 = "upd_mutex i (\<lambda>mx. mx\<lparr>mutex_value := mutex_value mx + 1, owner := None, original_priority := 0xff\<rparr>) b"
  have rel: "rt_mutex_release i ?s1 = Some (RT_EOK, ?s2)"
    using ty cur i w b B same_ipc_mutexes [OF Bs]
    by (simp add: rt_mutex_release_def in_thread_context_def not_in_interrupt_def rt_thread_self_def Let_def
        mutex_handover_def)
  let ?c = "upd_mutex j (\<lambda>mx. mx\<lparr>hold := hold mx - 1\<rparr>) ?s2"
  have M: "mutexes b j = (mutexes s j)\<lparr>mutex_value := 0, owner := Some t, original_priority := q, hold := 1\<rparr>"
    using same_ipc_mutexes [OF Bs] ty(3) t(3) by (cases "mutexes s j") simp
  have c: "kernel_inv ?c" "thread_typed ?c t" "stat_of ?c t = RT_THREAD_READY" "original_priority (mutexes ?c j) < 32"
    using B thread_typed_same [OF Bs, of t] t(1) pq ty(3) M by simp_all
  obtain d where d: "mutex_restore_priority j t ?c = Some d" using restore_priority_some [OF c] by blast
  note D = restore_priority_lists [OF d c] and Ds = restore_priority_mutexes [OF d]
  let ?s3 = "upd_mutex j (\<lambda>mx. mx\<lparr>mutex_value := mutex_value mx + 1, owner := None, original_priority := 0xff\<rparr>) d"
  have tyj: "mutex_typed j b" "interrupt_nest b = 0"
    using Bs ty(2) cur(2) by (simp_all add: same_ipc_def mutex_typed_def rt_object_get_type_def set_error_def)
  have L: "lists d (MutexWait j) = []" using B D w(2) restore_priority_lists [OF b a, of j] by simp
  have rel2: "rt_mutex_release j ?s2 = Some (RT_EOK, ?s3)"
    using tyj B cur(1) M d L ty(3) same_ipc_mutexes [OF Ds]
    by (simp add: rt_mutex_release_def in_thread_context_def not_in_interrupt_def rt_thread_self_def Let_def
        mutex_handover_def)
  have "current_priority (threads ?s3 t) = q" using D M ty(3) by simp
  moreover have "current_priority (threads ?s2 t) = p" using B i(4) ty(3) by simp
  moreover have "owner (mutexes ?s3 i) = None" using same_ipc_mutexes [OF Ds] ty(3) by simp
  moreover have "owner (mutexes ?s3 j) = None" by simp
  ultimately show ?thesis using take rel rel2 by blast
qed

end
