(* ===== verification/Event.thy ===== *)
theory Event
  imports Semaphore
begin

text \<open>
  The event flags of \<open>src/src/ipc.c\<close>: 32 flags, threads waiting for all or for any of a set of
  them, and a sender that scans the waiting threads in order.
\<close>

section \<open>Operations\<close>

abbreviation (input) RT_EVENT_FLAG_AND :: u8 where "RT_EVENT_FLAG_AND \<equiv> 0x01"
abbreviation (input) RT_EVENT_FLAG_OR :: u8 where "RT_EVENT_FLAG_OR \<equiv> 0x02"
abbreviation (input) RT_EVENT_FLAG_CLEAR :: u8 where "RT_EVENT_FLAG_CLEAR \<equiv> 0x04"

definition set_event :: "nat \<Rightarrow> u32 \<Rightarrow> kstate \<Rightarrow> kstate" where
  "set_event i v s = s\<lparr>events := (events s)(i := (events s i)\<lparr>ev_set := v\<rparr>)\<rparr>"

definition event_typed :: "nat \<Rightarrow> kstate \<Rightarrow> bool" where
  "event_typed i s \<longleftrightarrow> rt_object_get_type (EventObj i) s = RT_Object_Class_Event"

definition rt_event_init :: "nat \<Rightarrow> u8 list \<Rightarrow> u8 \<Rightarrow> kstate \<Rightarrow> (rt_err_t \<times> kstate) option" where
  "rt_event_init i name flag s = do {
     s \<leftarrow> rt_object_init (EventObj i) RT_Object_Class_Event name s;
     s \<leftarrow> rt_ipc_object_init (EventWait i) (set_flag (EventObj i) flag s);
     Some (RT_EOK, set_event i 0 s)
   }"

definition rt_event_detach :: "nat \<Rightarrow> kstate \<Rightarrow> (rt_err_t \<times> kstate) option" where
  "rt_event_detach i s = do {
     rt_assert (event_typed i s);
     rt_assert (rt_object_is_systemobject (EventObj i) s);
     s \<leftarrow> rt_ipc_list_resume_all (EventWait i) s;
     Some (RT_EOK, rt_object_detach (EventObj i) s)
   }"

definition rt_event_create :: "nat option \<Rightarrow> u8 list \<Rightarrow> u8 \<Rightarrow> kstate \<Rightarrow> (nat option \<times> kstate) option" where
  "rt_event_create blk name flag s = do {
     not_in_interrupt s;
     (_, s) \<leftarrow> rt_object_allocate (map_option EventObj blk) RT_Object_Class_Event name s;
     case blk of
       None \<Rightarrow> Some (None, s)
     | Some i \<Rightarrow> do {
         s \<leftarrow> rt_ipc_object_init (EventWait i) (set_flag (EventObj i) flag s);
         Some (Some i, set_event i 0 s)
       }
   }"

definition rt_event_delete :: "nat \<Rightarrow> kstate \<Rightarrow> (rt_err_t \<times> kstate) option" where
  "rt_event_delete i s = do {
     rt_assert (event_typed i s);
     rt_assert (\<not> rt_object_is_systemobject (EventObj i) s);
     not_in_interrupt s;
     s \<leftarrow> rt_ipc_list_resume_all (EventWait i) s;
     s \<leftarrow> rt_object_delete (EventObj i) s;
     Some (RT_EOK, s)
   }"

text \<open>A satisfied thread consumes its flags if it asked for that, and is resumed.\<close>

definition event_wake :: "nat \<Rightarrow> tid \<Rightarrow> kstate \<Rightarrow> kstate option" where
  "event_wake i t s = do {
     let s = (if event_info (threads s t) AND RT_EVENT_FLAG_CLEAR \<noteq> 0
              then set_event i (ev_set (events s i) AND NOT (event_set (threads s t))) s else s);
     (_, s) \<leftarrow> rt_thread_resume t s;
     Some s
   }"

text \<open>The scan reads the successor before it resumes a thread, so it visits the threads that were
  waiting when it began.  It breaks off (\<open>None\<close>) at a thread with neither option.\<close>

fun event_send_loop :: "nat \<Rightarrow> tid list \<Rightarrow> bool \<Rightarrow> kstate \<Rightarrow> (bool option \<times> kstate) option" where
  "event_send_loop i [] need s = Some (Some need, s)"
| "event_send_loop i (t # ts) need s =
     (let th = threads s t; ev = ev_set (events s i) in
      if event_info th AND RT_EVENT_FLAG_AND \<noteq> 0 then
        (if event_set th AND ev = event_set th
         then do { s \<leftarrow> event_wake i t s; event_send_loop i ts True s }
         else event_send_loop i ts need s)
      else if event_info th AND RT_EVENT_FLAG_OR \<noteq> 0 then
        (if event_set th AND ev \<noteq> 0
         then do {
           s \<leftarrow> event_wake i t (upd_thread t (\<lambda>th. th\<lparr>event_set := event_set th AND ev\<rparr>) s);
           event_send_loop i ts True s
         }
         else event_send_loop i ts need s)
      else Some (None, s))"

definition rt_event_send :: "nat \<Rightarrow> u32 \<Rightarrow> kstate \<Rightarrow> (rt_err_t \<times> kstate) option" where
  "rt_event_send i v s = do {
     rt_assert (event_typed i s);
     if v = 0 then Some (- RT_ERROR, s)
     else do {
       let s = set_event i (ev_set (events s i) OR v) s;
       (need, s) \<leftarrow> event_send_loop i (lists s (EventWait i)) False s;
       case need of
         None \<Rightarrow> Some (- RT_EINVAL, s)
       | Some True \<Rightarrow> do { s \<leftarrow> rt_schedule s; Some (RT_EOK, s) }
       | Some False \<Rightarrow> Some (RT_EOK, s)
     }
   }"

text \<open>The result is the error code with what the call stores through a non-null \<open>recved\<close>.\<close>

definition rt_event_recv_resumed ::
  "tid \<Rightarrow> kstate \<Rightarrow> ((unit, rt_err_t \<times> u32 option) outcome \<times> kstate) option" where
  "rt_event_recv_resumed t s =
     (if thread_error (threads s t) \<noteq> RT_EOK then Some (Return (thread_error (threads s t), None), s)
      else Some (Return (thread_error (threads s t), Some (event_set (threads s t))), s))"

text \<open>The test with no option given ends in \<open>RT_ASSERT(0)\<close>.\<close>

definition event_test :: "u8 \<Rightarrow> u32 \<Rightarrow> u32 \<Rightarrow> bool option" where
  "event_test opt v ev =
     (if opt AND RT_EVENT_FLAG_AND \<noteq> 0 then Some (ev AND v = v)
      else if opt AND RT_EVENT_FLAG_OR \<noteq> 0 then Some (ev AND v \<noteq> 0)
      else None)"

definition rt_event_recv :: "nat \<Rightarrow> u32 \<Rightarrow> u8 \<Rightarrow> int \<Rightarrow> kstate \<Rightarrow>
    ((unit, rt_err_t \<times> u32 option) outcome \<times> kstate) option" where
  "rt_event_recv i v opt timeout s = do {
     in_thread_context s;
     rt_assert (event_typed i s);
     if v = 0 then Some (Return (- RT_ERROR, None), s)
     else do {
       t \<leftarrow> rt_thread_self s;
       let s = set_error t RT_EOK s;
       let ev = ev_set (events s i);
       ok \<leftarrow> event_test opt v ev;
       if ok then do {
         let s = upd_thread t (\<lambda>th. th\<lparr>event_set := ev AND v, event_info := opt\<rparr>) s;
         let s = (if opt AND RT_EVENT_FLAG_CLEAR \<noteq> 0 then set_event i (ev AND NOT v) s else s);
         Some (Return (thread_error (threads s t), Some (ev AND v)), s)
       }
       else if timeout = 0 then Some (Return (- RT_ETIMEOUT, None), set_error t (- RT_ETIMEOUT) s)
       else do {
         let s = upd_thread t (\<lambda>th. th\<lparr>event_set := v, event_info := opt\<rparr>) s;
         s \<leftarrow> ipc_wait (EventWait i) t (obj_flag (objs s (EventObj i))) timeout s;
         schedule_then t () (rt_event_recv_resumed t) s
       }
     }
   }"

definition rt_event_control :: "nat \<Rightarrow> ipc_cmd \<Rightarrow> kstate \<Rightarrow> (rt_err_t \<times> kstate) option" where
  "rt_event_control i cmd s = do {
     rt_assert (event_typed i s);
     case cmd of
       RT_IPC_CMD_RESET _ \<Rightarrow> do {
         s \<leftarrow> rt_ipc_list_resume_all (EventWait i) s;
         s \<leftarrow> rt_schedule (set_event i 0 s);
         Some (RT_EOK, s)
       }
     | Ipc_cmd_other _ \<Rightarrow> Some (- RT_ERROR, s)
   }"

section \<open>The kernel invariant\<close>

lemma set_event_sel [simp]:
  "threads (set_event i v s) = threads s" "lists (set_event i v s) = lists s" "objs (set_event i v s) = objs s"
  "cur_thread (set_event i v s) = cur_thread s" "interrupt_nest (set_event i v s) = interrupt_nest s"
  "rt_tick (set_event i v s) = rt_tick s" "timers (set_event i v s) = timers s"
  "events (set_event i v s) = (events s)(i := (events s i)\<lparr>ev_set := v\<rparr>)"
  by (simp_all add: set_event_def)

lemma set_event_typed [simp]:
  "event_typed j (set_event i v s) = event_typed j s" "event_typed j (set_error t e s) = event_typed j s"
  "thread_typed (set_event i v s) t = thread_typed s t" "stat_of (set_event i v s) t = stat_of s t"
  by (simp_all add: event_typed_def thread_typed_def rt_object_get_type_def stat_of_def)

lemma kernel_inv_set_event [simp]: "kernel_inv (set_event i v s) = kernel_inv s"
  by (simp add: set_event_def)

lemma inv_event_wake: "event_wake i t s = Some s' \<Longrightarrow> kernel_inv s \<Longrightarrow> kernel_inv s'"
  unfolding event_wake_def
  by (auto simp: Option.bind_eq_Some_conv Let_def split: if_splits dest!: inv_thread_resume)

lemma inv_event_wake_masked:
  "event_wake i t (upd_thread t (\<lambda>th. th\<lparr>event_set := event_set th AND v\<rparr>) s) = Some s' \<Longrightarrow>
   kernel_inv s \<Longrightarrow> kernel_inv s'"
  by (erule inv_event_wake) simp

lemma inv_event_send_loop:
  "event_send_loop i ts need s = Some (r, s') \<Longrightarrow> kernel_inv s \<Longrightarrow> kernel_inv s'"
  by (induction i ts need s rule: event_send_loop.induct)
    (auto simp: Option.bind_eq_Some_conv Let_def split: if_splits dest: inv_event_wake inv_event_wake_masked)

lemma inv_event_send [inv_dest]:
  assumes "rt_event_send i v s = Some (r, s')" "kernel_inv s"
  shows "kernel_inv s'"
proof (cases "v = 0")
  case True
  then show ?thesis using assms by (simp add: rt_event_send_def Option.bind_eq_Some_conv)
next
  case False
  let ?s0 = "set_event i (ev_set (events s i) OR v) s"
  obtain need s1 where s1: "event_send_loop i (lists s (EventWait i)) False ?s0 = Some (need, s1)"
    and rest: "(case need of
         None \<Rightarrow> Some (- RT_EINVAL, s1)
       | Some True \<Rightarrow> do { s \<leftarrow> rt_schedule s1; Some (RT_EOK, s) }
       | Some False \<Rightarrow> Some (RT_EOK, s1)) = Some (r, s')"
    using assms(1) False by (auto simp: rt_event_send_def Option.bind_eq_Some_conv Let_def)
  have "kernel_inv s1" by (rule inv_event_send_loop [OF s1]) (simp add: assms(2))
  then show ?thesis using rest
    by (auto simp: Option.bind_eq_Some_conv dest: inv_schedule split: option.split_asm bool.split_asm)
qed

lemma inv_event_recv [inv_dest]:
  assumes "rt_event_recv i v opt timeout s = Some (r, s')" "kernel_inv s"
  shows "kernel_inv s'"
proof (cases "v = 0")
  case True
  then show ?thesis using assms by (simp add: rt_event_recv_def Option.bind_eq_Some_conv)
next
  case False
  obtain t ok where t: "cur_thread s = Some t" "event_test opt v (ev_set (events s i)) = Some ok"
    using assms False
    by (auto simp: rt_event_recv_def Option.bind_eq_Some_conv Let_def rt_thread_self_def)
  let ?s1 = "upd_thread t (\<lambda>th. th\<lparr>event_set := v, event_info := opt\<rparr>) (set_error t RT_EOK s)"
  show ?thesis
  proof (cases "ok \<or> timeout = 0")
    case True
    then show ?thesis using assms False t
      by (cases ok; cases "opt AND RT_EVENT_FLAG_CLEAR = 0")
        (auto simp: rt_event_recv_def Option.bind_eq_Some_conv Let_def rt_thread_self_def)
  next
    case nok: False
    then obtain s2 where s2: "ipc_wait (EventWait i) t (obj_flag (objs s (EventObj i))) timeout ?s1 = Some s2"
        "schedule_then t () (rt_event_recv_resumed t) s2 = Some (r, s')"
      using assms(1) False t
      by (auto simp: rt_event_recv_def Option.bind_eq_Some_conv Let_def rt_thread_self_def)
    have "kernel_inv s2" by (rule inv_ipc_wait [OF s2(1)]) (simp_all add: assms(2))
    then show ?thesis
      by (rule inv_schedule_then [OF s2(2)]) (auto simp: rt_event_recv_resumed_def split: if_splits)
  qed
qed

lemma inv_event_init [inv_dest]:
  "rt_event_init i name flag s = Some (r, s') \<Longrightarrow> kernel_inv s \<Longrightarrow> kernel_inv s'"
  unfolding rt_event_init_def rt_ipc_object_init_def
  by (auto simp: Option.bind_eq_Some_conv dest!: inv_object_init)

lemma inv_event_detach [inv_dest]:
  "rt_event_detach i s = Some (r, s') \<Longrightarrow> kernel_inv s \<Longrightarrow> kernel_inv s'"
  unfolding rt_event_detach_def by (auto simp: Option.bind_eq_Some_conv dest!: inv_list_resume_all)

lemma inv_event_control [inv_dest]:
  "rt_event_control i c s = Some (r, s') \<Longrightarrow> kernel_inv s \<Longrightarrow> kernel_inv s'"
  unfolding rt_event_control_def
  by (auto simp: Option.bind_eq_Some_conv dest!: inv_list_resume_all inv_schedule split: ipc_cmd.splits)

section \<open>No wake-up is lost\<close>

text \<open>The condition a thread waits for, and the event object with nobody waiting in vain.\<close>

definition event_satisfied :: "rt_thread \<Rightarrow> u32 \<Rightarrow> bool" where
  "event_satisfied th ev \<longleftrightarrow> event_test (event_info th) (event_set th) ev = Some True"

definition event_waiter :: "kstate \<Rightarrow> tid \<Rightarrow> bool" where
  "event_waiter s t \<longleftrightarrow> thread_typed s t \<and> stat_of s t = RT_THREAD_SUSPEND \<and>
     event_test (event_info (threads s t)) (event_set (threads s t)) 0 \<noteq> None"

lemma event_test_mono:
  "event_test opt v ev \<noteq> Some True \<Longrightarrow> ev' AND ev = ev' \<Longrightarrow> event_test opt v ev' \<noteq> Some True"
proof -
  assume "event_test opt v ev \<noteq> Some True" and sub: "ev' AND ev = ev'"
  moreover have "ev AND v = v" if "ev' AND v = v"
    using that sub by (metis and.assoc and.commute)
  moreover have "ev AND v \<noteq> 0" if "ev' AND v \<noteq> 0"
    using that sub by (metis and.assoc bit.conj_zero_right)
  ultimately show ?thesis by (auto simp: event_test_def split: if_splits)
qed

lemma event_test_none: "event_test opt v ev = None \<longleftrightarrow> event_test opt v ev' = None"
  by (simp add: event_test_def)

text \<open>One satisfied thread: it is ready, off the waiting list, and its record keeps the flags it
  received; the object loses at most flags.\<close>

lemma event_wake_effect:
  assumes inv: "kernel_inv s" and t: "thread_typed s t" "stat_of s t = RT_THREAD_SUSPEND"
  obtains s1 where "event_wake i t s = Some s1" "kernel_inv s1"
    "\<And>u. thread_typed s1 u = thread_typed s u" "stat_of s1 t = RT_THREAD_READY"
    "event_set (threads s1 t) = event_set (threads s t)"
    "\<And>u. u \<noteq> t \<Longrightarrow> threads s1 u = threads s u"
    "lists s1 (EventWait i) = remove1 t (lists s (EventWait i))"
    "ev_set (events s1 i) AND ev_set (events s i) = ev_set (events s1 i)"
proof -
  let ?s0 = "if event_info (threads s t) AND RT_EVENT_FLAG_CLEAR \<noteq> 0
              then set_event i (ev_set (events s i) AND NOT (event_set (threads s t))) s else s"
  have i0: "kernel_inv ?s0" "thread_typed ?s0 t" "stat_of ?s0 t = RT_THREAD_SUSPEND" using inv t by simp_all
  obtain s1 where s1: "rt_thread_resume t ?s0 = Some (RT_EOK, s1)" "kernel_inv s1" "same_ipc ?s0 s1"
    "cur_thread s1 = cur_thread ?s0"
    "threads s1 = (threads ?s0)(t := (threads ?s0 t)\<lparr>stat := with_stat RT_THREAD_READY (stat (threads ?s0 t)),
       t_link := Some (ReadyQ (unat (current_priority (threads ?s0 t))))\<rparr>)"
    "\<And>l. lists s1 l = (if l = ReadyQ (unat (current_priority (threads ?s0 t)))
                        then lists ?s0 l @ [t] else remove1 t (lists ?s0 l))"
    by (rule resume_effect [OF i0]) (rule that)
  have same: "threads ?s0 = threads s" "lists ?s0 = lists s" "\<And>u. thread_typed ?s0 u = thread_typed s u" by simp_all
  have E: "ev_set (events s1 i) = ev_set (events ?s0 i)" using s1(3) by (simp add: same_ipc_def)
  show ?thesis
  proof (rule that)
    show "event_wake i t s = Some s1" using s1(1) by (simp add: event_wake_def Let_def)
    show "thread_typed s1 u = thread_typed s u" for u using thread_typed_same [OF s1(3)] same(3) by simp
    show "ev_set (events s1 i) AND ev_set (events s i) = ev_set (events s1 i)"
      unfolding E by (simp add: and.assoc and.commute and.left_commute)
  qed (use s1 same in \<open>simp_all add: stat_of_def\<close>)
qed

lemma event_send_loop_satisfied:
  assumes "event_satisfied (threads s t) (ev_set (events s i))"
    and "event_wake i t (upd_thread t (\<lambda>th. th\<lparr>event_set := event_set (threads s t) AND ev_set (events s i)\<rparr>) s) = Some s1"
  shows "event_send_loop i (t # ts) need s = event_send_loop i ts True s1"
proof (cases "event_info (threads s t) AND RT_EVENT_FLAG_AND = 0")
  case True
  then have "event_set (threads s t) AND ev_set (events s i) \<noteq> 0" "event_info (threads s t) AND RT_EVENT_FLAG_OR \<noteq> 0"
    using assms(1) by (auto simp: event_satisfied_def event_test_def and.commute split: if_splits)
  moreover have "upd_thread t (\<lambda>th. th\<lparr>event_set := event_set th AND v\<rparr>) s =
      upd_thread t (event_set_update (\<lambda>_. event_set (threads s t) AND v)) s" for v
    by (simp add: upd_thread_def)
  ultimately show ?thesis using True assms(2)
    by (simp only: event_send_loop.simps Let_def) simp
next
  case False
  then have e: "event_set (threads s t) AND ev_set (events s i) = event_set (threads s t)"
    using assms(1) by (auto simp: event_satisfied_def event_test_def and.commute split: if_splits)
  have u: "upd_thread t (event_set_update (\<lambda>_. event_set (threads s t))) s = s"
    by (cases s) (simp add: upd_thread_def)
  have "event_wake i t s = Some s1" using assms(2) by (simp only: e u)
  then show ?thesis using False e by (simp add: Let_def)
qed

text \<open>What a scan leaves behind: the threads still waiting are those of before, in their order, with
  their records untouched and their conditions not satisfied; all others are ready, and received
  flags that were set, that they waited for and that satisfy their condition.\<close>

definition event_scanned :: "nat \<Rightarrow> kstate \<Rightarrow> kstate \<Rightarrow> bool" where
  "event_scanned i s s' \<longleftrightarrow>
     (let w = lists s (EventWait i); w' = lists s' (EventWait i) in
      w' = [t \<leftarrow> w. t \<in> set w'] \<and>
      (\<forall>t\<in>set w'. \<not> event_satisfied (threads s' t) (ev_set (events s' i))) \<and>
      (\<forall>t. t \<notin> set w \<or> t \<in> set w' \<longrightarrow> threads s' t = threads s t) \<and>
      (\<forall>t\<in>set w - set w'. stat_of s' t = RT_THREAD_READY \<and>
         event_set (threads s' t) AND event_set (threads s t) = event_set (threads s' t) \<and>
         event_set (threads s' t) AND ev_set (events s i) = event_set (threads s' t) \<and>
         event_test (event_info (threads s t)) (event_set (threads s t)) (event_set (threads s' t)) = Some True))"

lemma event_scanned_step:
  assumes "event_scanned i s1 s'" "lists s1 (EventWait i) = remove1 t (lists s (EventWait i))"
    and "distinct (lists s (EventWait i))" "t \<in> set (lists s (EventWait i))"
    and "\<And>u. u \<noteq> t \<Longrightarrow> threads s1 u = threads s u" "stat_of s1 t = RT_THREAD_READY"
    and ev: "ev_set (events s1 i) AND ev_set (events s i) = ev_set (events s1 i)"
    and g: "event_set (threads s1 t) = event_set (threads s t) AND ev_set (events s i)"
      "event_satisfied (threads s t) (ev_set (events s i))"
  shows "event_scanned i s s'"
proof -
  let ?w = "lists s (EventWait i)" and ?w' = "lists s' (EventWait i)" and ?ev = "ev_set (events s i)"
  have w': "?w' = [u \<leftarrow> remove1 t ?w. u \<in> set ?w']" using assms(1,2) by (simp add: event_scanned_def Let_def)
  have tw: "t \<notin> set ?w'" using assms(3) by (subst w') simp
  have "[u \<leftarrow> remove1 t xs. u \<in> set ?w'] = [u \<leftarrow> xs. u \<in> set ?w']" for xs
    using tw by (induction xs) auto
  then have eq: "?w' = [u \<leftarrow> ?w. u \<in> set ?w']" using w' by simp
  have thr: "threads s' t = threads s1 t"
    using assms(1-3) by (simp add: event_scanned_def Let_def)
  have now: "event_test (event_info (threads s t)) (event_set (threads s t)) (event_set (threads s t) AND ?ev) = Some True"
    using g(2) by (auto simp: event_satisfied_def event_test_def and.commute and.left_commute split: if_splits)
  have mono: "x AND ?ev = x" if "x AND ev_set (events s1 i) = x" for x
    using that ev by (metis and.assoc)
  have mine: "stat_of s' t = RT_THREAD_READY \<and>
      event_set (threads s' t) AND event_set (threads s t) = event_set (threads s' t) \<and>
      event_set (threads s' t) AND ?ev = event_set (threads s' t) \<and>
      event_test (event_info (threads s t)) (event_set (threads s t)) (event_set (threads s' t)) = Some True"
    using assms(6) thr g(1) now by (simp add: stat_of_def and.assoc and.left_commute and.commute)
  have others: "stat_of s' u = RT_THREAD_READY \<and>
      event_set (threads s' u) AND event_set (threads s u) = event_set (threads s' u) \<and>
      event_set (threads s' u) AND ?ev = event_set (threads s' u) \<and>
      event_test (event_info (threads s u)) (event_set (threads s u)) (event_set (threads s' u)) = Some True"
    if "u \<in> set ?w - set ?w'" "u \<noteq> t" for u
  proof -
    have "u \<in> set (lists s1 (EventWait i)) - set ?w'" using assms(2,3) that by simp
    then have "stat_of s' u = RT_THREAD_READY \<and>
      event_set (threads s' u) AND event_set (threads s1 u) = event_set (threads s' u) \<and>
      event_set (threads s' u) AND ev_set (events s1 i) = event_set (threads s' u) \<and>
      event_test (event_info (threads s1 u)) (event_set (threads s1 u)) (event_set (threads s' u)) = Some True"
      using assms(1) unfolding event_scanned_def Let_def by blast
    then show ?thesis using assms(5) [OF that(2)] mono by simp
  qed
  have same: "threads s' u = threads s u" if "u \<notin> set ?w \<or> u \<in> set ?w'" for u
  proof (cases "u = t")
    case True
    then show ?thesis using that assms(4) tw by simp
  next
    case False
    then show ?thesis using that assms(1-3) assms(5) [OF False] by (auto simp: event_scanned_def Let_def)
  qed
  have "\<forall>t\<in>set ?w'. \<not> event_satisfied (threads s' t) (ev_set (events s' i))"
    using assms(1) unfolding event_scanned_def Let_def by blast
  then show ?thesis unfolding event_scanned_def Let_def using eq same mine others by blast
qed

lemma event_send_loop_scan:
  assumes "kernel_inv s" "distinct (pre @ ts)" "lists s (EventWait i) = pre @ ts"
    and "\<And>t. t \<in> set ts \<Longrightarrow> event_waiter s t"
    and "\<And>t. t \<in> set pre \<Longrightarrow> \<not> event_satisfied (threads s t) (ev_set (events s i))"
  shows "\<exists>need' s'. event_send_loop i ts need s = Some (Some need', s') \<and> kernel_inv s' \<and> event_scanned i s s' \<and>
     (need' \<longleftrightarrow> need \<or> lists s' (EventWait i) \<noteq> lists s (EventWait i))"
  using assms
proof (induction ts arbitrary: pre need s)
  case Nil
  then show ?case by (auto simp: event_scanned_def)
next
  case (Cons t ts)
  let ?th = "threads s t" and ?ev = "ev_set (events s i)"
  have w: "thread_typed s t" "stat_of s t = RT_THREAD_SUSPEND" "event_test (event_info ?th) (event_set ?th) 0 \<noteq> None"
    using Cons.prems(4) [of t] by (simp_all add: event_waiter_def)
  show ?case
  proof (cases "event_satisfied ?th ?ev")
    case False
    then have "event_send_loop i (t # ts) need s = event_send_loop i ts need s"
      using w(3) by (auto simp: event_satisfied_def event_test_def and.commute Let_def split: if_splits)
    moreover have "\<not> event_satisfied (threads s u) ?ev" if "u \<in> set (pre @ [t])" for u
      using that False Cons.prems(5) by auto
    ultimately show ?thesis
      using Cons.IH [of s "pre @ [t]" need] Cons.prems(1-4) by simp
  next
    case True
    let ?s0 = "upd_thread t (\<lambda>th. th\<lparr>event_set := event_set ?th AND ?ev\<rparr>) s"
    have i0: "kernel_inv ?s0" "thread_typed ?s0 t" "stat_of ?s0 t = RT_THREAD_SUSPEND"
      using Cons.prems(1) w(1,2) by (simp_all add: thread_typed_def stat_of_def)
    obtain s1 where s1: "event_wake i t ?s0 = Some s1" "kernel_inv s1"
      "\<And>u. thread_typed s1 u = thread_typed ?s0 u" "stat_of s1 t = RT_THREAD_READY"
      "event_set (threads s1 t) = event_set (threads ?s0 t)"
      "\<And>u. u \<noteq> t \<Longrightarrow> threads s1 u = threads ?s0 u"
      "lists s1 (EventWait i) = remove1 t (lists ?s0 (EventWait i))"
      "ev_set (events s1 i) AND ev_set (events ?s0 i) = ev_set (events s1 i)"
      by (rule event_wake_effect [OF i0, of i]) (rule that)
    have step: "event_send_loop i (t # ts) need s = event_send_loop i ts True s1"
      by (rule event_send_loop_satisfied [OF True s1(1)])
    have tn: "t \<notin> set pre" "t \<notin> set ts" using Cons.prems(2) by auto
    have same: "threads s1 u = threads s u" if "u \<noteq> t" for u using s1(6) [OF that] that by simp
    have L: "lists s1 (EventWait i) = pre @ ts" using s1(7) Cons.prems(3) tn by (simp add: remove1_append)
    obtain s' where r: "event_send_loop i ts True s1 = Some (Some True, s')" "kernel_inv s'" "event_scanned i s1 s'"
    proof -
      have "distinct (pre @ ts)" using Cons.prems(2) by auto
      moreover have "event_waiter s1 u" if "u \<in> set ts" for u
      proof -
        have "u \<noteq> t" using that tn(2) by auto
        then show ?thesis using Cons.prems(4) [of u] that same [of u] s1(3) [of u]
          by (simp add: event_waiter_def stat_of_def thread_typed_def)
      qed
      moreover have "\<not> event_satisfied (threads s1 u) (ev_set (events s1 i))" if "u \<in> set pre" for u
      proof -
        have "u \<noteq> t" using that tn(1) by auto
        then show ?thesis using Cons.prems(5) [OF that] same [of u] event_test_mono [OF _ s1(8)]
          by (simp add: event_satisfied_def)
      qed
      ultimately have "\<exists>need' s'. event_send_loop i ts True s1 = Some (Some need', s') \<and> kernel_inv s' \<and>
          event_scanned i s1 s' \<and> (need' \<longleftrightarrow> True \<or> lists s' (EventWait i) \<noteq> lists s1 (EventWait i))"
        using Cons.IH [of s1 pre True] s1(2) L by simp
      then show ?thesis using that by auto
    qed
    have sc: "event_scanned i s s'"
      by (rule event_scanned_step [OF r(3)]) (use s1 L Cons.prems(2,3) same True in \<open>simp_all\<close>)
    have "set (lists s' (EventWait i)) \<subseteq> set (lists s1 (EventWait i))"
      using r(3) unfolding event_scanned_def Let_def by (metis filter_is_subset)
    then have "t \<notin> set (lists s' (EventWait i))" using L tn by auto
    then have "lists s' (EventWait i) \<noteq> lists s (EventWait i)" using Cons.prems(3) by auto
    then show ?thesis using step r sc by auto
  qed
qed


text \<open>Receiving: with the condition satisfied the call returns at once with the flags that are set
  among those asked for, and consumes all asked-for flags only with the option to do so; otherwise
  it refuses or queues the thread, whose condition is not satisfied then.\<close>

theorem event_recv_takes:
  assumes ty: "event_typed i s" and cur: "cur_thread s = Some t" "interrupt_nest s = 0" and v: "v \<noteq> 0"
    and ok: "event_test opt v (ev_set (events s i)) = Some True"
  shows "\<exists>s1. rt_event_recv i v opt timeout s = Some (Return (RT_EOK, Some (ev_set (events s i) AND v)), s1) \<and>
     event_set (threads s1 t) = ev_set (events s i) AND v \<and> lists s1 = lists s \<and>
     ev_set (events s1 i) = (if opt AND RT_EVENT_FLAG_CLEAR = 0 then ev_set (events s i) else ev_set (events s i) AND NOT v)"
  using assms
  by (cases "opt AND RT_EVENT_FLAG_CLEAR = 0")
    (simp_all add: rt_event_recv_def in_thread_context_def not_in_interrupt_def rt_thread_self_def Let_def)

end
