(* ===== verification/Fifo.thy ===== *)
theory Fifo
  imports Prelude
begin

text \<open>
  The contract of a bounded first-in first-out store, as the drivers and the kernel use it: an
  element goes in at the back unless the store is full, one comes out at the front unless it is
  empty, and nothing else changes.  The byte ring buffer and the mailbox provide it (their
  theories interpret the locale); what follows from it for runs of several operations is proved
  here once.
\<close>

fun enq_all :: "('a \<Rightarrow> 'q \<Rightarrow> 'q option) \<Rightarrow> 'a list \<Rightarrow> 'q \<Rightarrow> 'q option" where
  "enq_all enq [] q = Some q"
| "enq_all enq (x # xs) q = Option.bind (enq x q) (enq_all enq xs)"

fun deq_n :: "('q \<Rightarrow> ('a \<times> 'q) option) \<Rightarrow> nat \<Rightarrow> 'q \<Rightarrow> ('a list \<times> 'q) option" where
  "deq_n deq 0 q = Some ([], q)"
| "deq_n deq (Suc n) q =
     (case deq q of None \<Rightarrow> None
      | Some (x, q') \<Rightarrow> map_option (apfst ((#) x)) (deq_n deq n q'))"

locale bounded_fifo =
  fixes inv :: "'q \<Rightarrow> bool" and content :: "'q \<Rightarrow> 'a list" and cap :: "'q \<Rightarrow> nat"
    and enq :: "'a \<Rightarrow> 'q \<Rightarrow> 'q option" and deq :: "'q \<Rightarrow> ('a \<times> 'q) option"
  assumes content_bound: "inv q \<Longrightarrow> length (content q) \<le> cap q"
    and enq_room: "inv q \<Longrightarrow> length (content q) < cap q \<Longrightarrow>
      \<exists>q'. enq x q = Some q' \<and> inv q' \<and> content q' = content q @ [x] \<and> cap q' = cap q"
    and enq_full: "inv q \<Longrightarrow> length (content q) = cap q \<Longrightarrow> enq x q = None"
    and deq_some: "inv q \<Longrightarrow> content q = x # xs \<Longrightarrow>
      \<exists>q'. deq q = Some (x, q') \<and> inv q' \<and> content q' = xs \<and> cap q' = cap q"
    and deq_none: "inv q \<Longrightarrow> content q = [] \<Longrightarrow> deq q = None"
begin

lemma enq_all_room:
  "inv q \<Longrightarrow> length (content q) + length xs \<le> cap q \<Longrightarrow>
   \<exists>q'. enq_all enq xs q = Some q' \<and> inv q' \<and> content q' = content q @ xs \<and> cap q' = cap q"
proof (induction xs arbitrary: q)
  case Nil
  then show ?case by simp
next
  case (Cons x xs)
  then obtain q1 where "enq x q = Some q1" "inv q1" "content q1 = content q @ [x]" "cap q1 = cap q"
    using enq_room [of q x] by auto
  then show ?case using Cons.IH [of q1] Cons.prems by auto
qed

lemma enq_all_overflow:
  "inv q \<Longrightarrow> cap q < length (content q) + length xs \<Longrightarrow> enq_all enq xs q = None"
proof (induction xs arbitrary: q)
  case Nil
  then show ?case using content_bound [of q] by simp
next
  case (Cons x xs)
  show ?case
  proof (cases "length (content q) = cap q")
    case True
    then show ?thesis using enq_full Cons.prems by simp
  next
    case False
    then obtain q1 where "enq x q = Some q1" "inv q1" "content q1 = content q @ [x]" "cap q1 = cap q"
      using enq_room [of q x] content_bound [of q] Cons.prems by auto
    then show ?thesis using Cons.IH [of q1] Cons.prems by auto
  qed
qed

lemma deq_n_prefix:
  "inv q \<Longrightarrow> n \<le> length (content q) \<Longrightarrow>
   \<exists>q'. deq_n deq n q = Some (take n (content q), q') \<and> inv q' \<and>
        content q' = drop n (content q) \<and> cap q' = cap q"
proof (induction n arbitrary: q)
  case 0
  then show ?case by simp
next
  case (Suc n)
  then obtain x xs where c: "content q = x # xs" by (cases "content q") auto
  then obtain q1 where "deq q = Some (x, q1)" "inv q1" "content q1 = xs" "cap q1 = cap q"
    using deq_some Suc.prems(1) by blast
  then show ?case using Suc.IH [of q1] Suc.prems(2) c by auto
qed

text \<open>First in, first out: what is put into an empty store comes out in the same order.\<close>

lemma fifo_order:
  assumes "inv q" "content q = []" "length xs \<le> cap q"
  shows "\<exists>q1 q2. enq_all enq xs q = Some q1 \<and> deq_n deq (length xs) q1 = Some (xs, q2) \<and>
           inv q2 \<and> content q2 = []"
proof -
  obtain q1 where q1: "enq_all enq xs q = Some q1" "inv q1" "content q1 = xs"
    using enq_all_room [of q xs] assms by auto
  then show ?thesis using deq_n_prefix [of q1 "length xs"] by auto
qed

end

end
