(* ===== verification/Mailbox.thy ===== *)
theory Mailbox
  imports Semaphore Fifo
begin

text \<open>
  The mailboxes of \<open>src/src/ipc.c\<close>: a circular array of 32-bit messages, with a list of threads
  waiting for a message and one of threads waiting for room.
\<close>

section \<open>The circular array\<close>

definition mb_store :: "u32 \<Rightarrow> rt_mailbox \<Rightarrow> (bool \<times> rt_mailbox) option" where
  "mb_store v mb = do {
     c_defined (unat (in_offset mb) < length (mb_pool mb));
     let mb = mb\<lparr>mb_pool := (mb_pool mb)[unat (in_offset mb) := v], in_offset := in_offset mb + 1\<rparr>;
     let mb = (if in_offset mb \<ge> mb_size mb then mb\<lparr>in_offset := 0\<rparr> else mb);
     if mb_entry mb < 0xffff then Some (True, mb\<lparr>mb_entry := mb_entry mb + 1\<rparr>) else Some (False, mb)
   }"

definition mb_fetch :: "rt_mailbox \<Rightarrow> (u32 \<times> rt_mailbox) option" where
  "mb_fetch mb = do {
     c_defined (unat (out_offset mb) < length (mb_pool mb));
     let v = mb_pool mb ! unat (out_offset mb);
     let mb = mb\<lparr>out_offset := out_offset mb + 1\<rparr>;
     let mb = (if out_offset mb \<ge> mb_size mb then mb\<lparr>out_offset := 0\<rparr> else mb);
     Some (v, if mb_entry mb > 0 then mb\<lparr>mb_entry := mb_entry mb - 1\<rparr> else mb)
   }"

definition mb_reset_record :: "rt_mailbox \<Rightarrow> rt_mailbox" where
  "mb_reset_record mb = mb\<lparr>mb_entry := 0, in_offset := 0, out_offset := 0\<rparr>"

definition mb_init_record :: "u32 list \<Rightarrow> u32 \<Rightarrow> rt_mailbox" where
  "mb_init_record pool sz =
     \<lparr>mb_pool = pool, mb_size = ucast sz, mb_entry = 0, in_offset = 0, out_offset = 0\<rparr>"

section \<open>Operations\<close>

definition set_mb :: "nat \<Rightarrow> rt_mailbox \<Rightarrow> kstate \<Rightarrow> kstate" where
  "set_mb i mb s = s\<lparr>mailboxes := (mailboxes s)(i := mb)\<rparr>"

definition mb_typed :: "nat \<Rightarrow> kstate \<Rightarrow> bool" where
  "mb_typed i s \<longleftrightarrow> rt_object_get_type (MbObj i) s = RT_Object_Class_MailBox"

text \<open>The memory of the pool, with what it holds, is an argument.\<close>

definition rt_mb_init :: "nat \<Rightarrow> u8 list \<Rightarrow> u32 list \<Rightarrow> u32 \<Rightarrow> u8 \<Rightarrow> kstate \<Rightarrow> (rt_err_t \<times> kstate) option" where
  "rt_mb_init i name pool sz flag s = do {
     s \<leftarrow> rt_object_init (MbObj i) RT_Object_Class_MailBox name s;
     s \<leftarrow> rt_ipc_object_init (MbRecv i) (set_flag (MbObj i) flag s);
     s \<leftarrow> rt_ipc_object_init (MbSend i) (set_mb i (mb_init_record pool sz) s);
     Some (RT_EOK, s)
   }"

definition rt_mb_detach :: "nat \<Rightarrow> kstate \<Rightarrow> (rt_err_t \<times> kstate) option" where
  "rt_mb_detach i s = do {
     rt_assert (mb_typed i s);
     rt_assert (rt_object_is_systemobject (MbObj i) s);
     s \<leftarrow> rt_ipc_list_resume_all (MbRecv i) s;
     s \<leftarrow> rt_ipc_list_resume_all (MbSend i) s;
     Some (RT_EOK, rt_object_detach (MbObj i) s)
   }"

text \<open>Both blocks come from the heap; \<open>None\<close> is an allocation that failed.\<close>

definition rt_mb_create :: "nat option \<Rightarrow> u32 list option \<Rightarrow> u8 list \<Rightarrow> u32 \<Rightarrow> u8 \<Rightarrow> kstate \<Rightarrow>
    (nat option \<times> kstate) option" where
  "rt_mb_create blk pool name sz flag s = do {
     not_in_interrupt s;
     (_, s) \<leftarrow> rt_object_allocate (map_option MbObj blk) RT_Object_Class_MailBox name s;
     case blk of
       None \<Rightarrow> Some (None, s)
     | Some i \<Rightarrow> do {
         s \<leftarrow> rt_ipc_object_init (MbRecv i) (set_flag (MbObj i) flag s);
         case pool of
           None \<Rightarrow> do { s \<leftarrow> rt_object_delete (MbObj i) s; Some (None, s) }
         | Some pool \<Rightarrow> do {
             s \<leftarrow> rt_ipc_object_init (MbSend i) (set_mb i (mb_init_record pool sz) s);
             Some (Some i, s)
           }
       }
   }"

definition rt_mb_delete :: "nat \<Rightarrow> kstate \<Rightarrow> (rt_err_t \<times> kstate) option" where
  "rt_mb_delete i s = do {
     not_in_interrupt s;
     rt_assert (mb_typed i s);
     rt_assert (\<not> rt_object_is_systemobject (MbObj i) s);
     s \<leftarrow> rt_ipc_list_resume_all (MbRecv i) s;
     s \<leftarrow> rt_ipc_list_resume_all (MbSend i) s;
     s \<leftarrow> rt_object_delete (MbObj i) s;
     Some (RT_EOK, s)
   }"

text \<open>Wake one of the threads waiting for the other side.\<close>

definition wake_other_side :: "lid \<Rightarrow> kstate \<Rightarrow> kstate option" where
  "wake_other_side l s =
     (if lists s l \<noteq> [] then do { s \<leftarrow> rt_ipc_list_resume l s; rt_schedule s } else Some s)"

text \<open>One round of the loop in \<open>rt_mb_send_wait\<close>, with what follows the loop.\<close>

definition mb_send_round :: "nat \<Rightarrow> u32 \<Rightarrow> int \<Rightarrow> kstate \<Rightarrow> (rt_err_t round \<times> kstate) option" where
  "mb_send_round i v timeout s =
     (if mb_entry (mailboxes s i) = mb_size (mailboxes s i) then do {
        t \<leftarrow> rt_thread_self s;
        let s = set_error t RT_EOK s;
        if timeout = 0 then Some (Done (- RT_EFULL), s)
        else do {
          in_thread_context s;
          s \<leftarrow> ipc_wait (MbSend i) t (obj_flag (objs s (MbObj i))) timeout s;
          Some (Wait t (rt_tick_get s), s)
        }
      }
      else do {
        (ok, mb) \<leftarrow> mb_store v (mailboxes s i);
        let s = set_mb i mb s;
        if \<not> ok then Some (Done (- RT_EFULL), s)
        else do {
          s \<leftarrow> wake_other_side (MbRecv i) s;
          Some (Done RT_EOK, s)
        }
      })"

definition rt_mb_send_wait :: "nat \<Rightarrow> u32 \<Rightarrow> int \<Rightarrow> kstate \<Rightarrow> ((int \<times> u32, rt_err_t) outcome \<times> kstate) option" where
  "rt_mb_send_wait i v timeout s = do {
     rt_assert (mb_typed i s);
     if mb_entry (mailboxes s i) = mb_size (mailboxes s i) \<and> timeout = 0 then Some (Return (- RT_EFULL), s)
     else wait_loop (mb_send_round i v) id timeout s
   }"

definition rt_mb_send_wait_resumed :: "nat \<Rightarrow> u32 \<Rightarrow> tid \<Rightarrow> int \<times> u32 \<Rightarrow> kstate \<Rightarrow>
    ((int \<times> u32, rt_err_t) outcome \<times> kstate) option" where
  "rt_mb_send_wait_resumed i v = wait_resumed (mb_send_round i v) id"

definition rt_mb_send :: "nat \<Rightarrow> u32 \<Rightarrow> kstate \<Rightarrow> ((int \<times> u32, rt_err_t) outcome \<times> kstate) option" where
  "rt_mb_send i v s = rt_mb_send_wait i v 0 s"

text \<open>The result is the error code with what the call stores in \<open>*value\<close>.\<close>

definition mb_recv_round :: "nat \<Rightarrow> int \<Rightarrow> kstate \<Rightarrow> ((rt_err_t \<times> u32 option) round \<times> kstate) option" where
  "mb_recv_round i timeout s =
     (if mb_entry (mailboxes s i) = 0 then do {
        t \<leftarrow> rt_thread_self s;
        let s = set_error t RT_EOK s;
        if timeout = 0 then Some (Done (- RT_ETIMEOUT, None), set_error t (- RT_ETIMEOUT) s)
        else do {
          in_thread_context s;
          s \<leftarrow> ipc_wait (MbRecv i) t (obj_flag (objs s (MbObj i))) timeout s;
          Some (Wait t (rt_tick_get s), s)
        }
      }
      else do {
        (v, mb) \<leftarrow> mb_fetch (mailboxes s i);
        s \<leftarrow> wake_other_side (MbSend i) (set_mb i mb s);
        Some (Done (RT_EOK, Some v), s)
      })"

definition rt_mb_recv :: "nat \<Rightarrow> int \<Rightarrow> kstate \<Rightarrow> ((int \<times> u32, rt_err_t \<times> u32 option) outcome \<times> kstate) option" where
  "rt_mb_recv i timeout s = do {
     rt_assert (mb_typed i s);
     if mb_entry (mailboxes s i) = 0 \<and> timeout = 0 then Some (Return (- RT_ETIMEOUT, None), s)
     else wait_loop (mb_recv_round i) (\<lambda>e. (e, None)) timeout s
   }"

definition rt_mb_recv_resumed :: "nat \<Rightarrow> tid \<Rightarrow> int \<times> u32 \<Rightarrow> kstate \<Rightarrow>
    ((int \<times> u32, rt_err_t \<times> u32 option) outcome \<times> kstate) option" where
  "rt_mb_recv_resumed i = wait_resumed (mb_recv_round i) (\<lambda>e. (e, None))"

definition rt_mb_control :: "nat \<Rightarrow> ipc_cmd \<Rightarrow> kstate \<Rightarrow> (rt_err_t \<times> kstate) option" where
  "rt_mb_control i cmd s = do {
     rt_assert (mb_typed i s);
     case cmd of
       RT_IPC_CMD_RESET _ \<Rightarrow> do {
         s \<leftarrow> rt_ipc_list_resume_all (MbRecv i) s;
         s \<leftarrow> rt_ipc_list_resume_all (MbSend i) s;
         s \<leftarrow> rt_schedule (set_mb i (mb_reset_record (mailboxes s i)) s);
         Some (RT_EOK, s)
       }
     | Ipc_cmd_other _ \<Rightarrow> Some (- RT_ERROR, s)
   }"

section \<open>The kernel invariant\<close>

lemma set_mb_sel [simp]:
  "threads (set_mb i v s) = threads s" "lists (set_mb i v s) = lists s" "objs (set_mb i v s) = objs s"
  "cur_thread (set_mb i v s) = cur_thread s" "interrupt_nest (set_mb i v s) = interrupt_nest s"
  "rt_tick (set_mb i v s) = rt_tick s" "timers (set_mb i v s) = timers s"
  "mailboxes (set_mb i v s) = (mailboxes s)(i := v)"
  by (simp_all add: set_mb_def)

lemma set_mb_typed [simp]:
  "mb_typed j (set_mb i v s) = mb_typed j s" "mb_typed j (set_error t e s) = mb_typed j s"
  "thread_typed (set_mb i v s) t = thread_typed s t" "stat_of (set_mb i v s) t = stat_of s t"
  by (simp_all add: mb_typed_def thread_typed_def rt_object_get_type_def stat_of_def)

lemma kernel_inv_set_mb [simp]: "kernel_inv (set_mb i v s) = kernel_inv s"
  by (simp add: set_mb_def)

lemma inv_wake_other_side: "wake_other_side l s = Some s' \<Longrightarrow> kernel_inv s \<Longrightarrow> kernel_inv s'"
  unfolding wake_other_side_def
  by (auto simp: Option.bind_eq_Some_conv split: if_splits dest!: inv_list_resume inv_schedule)

lemma inv_mb_send_round: "mb_send_round i v timeout s = Some (r, s') \<Longrightarrow> kernel_inv s \<Longrightarrow> kernel_inv s'"
  unfolding mb_send_round_def
  by (auto simp: Option.bind_eq_Some_conv Let_def split: if_split_asm dest!: inv_ipc_wait inv_wake_other_side)

lemma inv_mb_recv_round: "mb_recv_round i timeout s = Some (r, s') \<Longrightarrow> kernel_inv s \<Longrightarrow> kernel_inv s'"
  unfolding mb_recv_round_def
  by (auto simp: Option.bind_eq_Some_conv Let_def split: if_split_asm dest!: inv_ipc_wait inv_wake_other_side)

lemma inv_mb_send_wait [inv_dest]:
  "rt_mb_send_wait i v timeout s = Some (r, s') \<Longrightarrow> kernel_inv s \<Longrightarrow> kernel_inv s'"
  unfolding rt_mb_send_wait_def
  by (auto simp: Option.bind_eq_Some_conv split: if_split_asm intro: inv_mb_send_round elim!: inv_wait_loop)

lemma inv_mb_recv [inv_dest]:
  "rt_mb_recv i timeout s = Some (r, s') \<Longrightarrow> kernel_inv s \<Longrightarrow> kernel_inv s'"
  unfolding rt_mb_recv_def
  by (auto simp: Option.bind_eq_Some_conv split: if_split_asm intro: inv_mb_recv_round elim!: inv_wait_loop)

lemma inv_mb_resumed [inv_dest]:
  "rt_mb_send_wait_resumed i v t loc s = Some (r, s') \<Longrightarrow> kernel_inv s \<Longrightarrow> kernel_inv s'"
  "rt_mb_recv_resumed i t loc s = Some (q, s') \<Longrightarrow> kernel_inv s \<Longrightarrow> kernel_inv s'"
  unfolding rt_mb_send_wait_resumed_def rt_mb_recv_resumed_def
  by (erule inv_wait_resumed, assumption, erule (1) inv_mb_send_round)
    (erule inv_wait_resumed, assumption, erule (1) inv_mb_recv_round)

lemma inv_mb_init [inv_dest]:
  "rt_mb_init i name pool sz flag s = Some (r, s') \<Longrightarrow> kernel_inv s \<Longrightarrow> kernel_inv s'"
  unfolding rt_mb_init_def rt_ipc_object_init_def
  by (auto simp: Option.bind_eq_Some_conv dest!: inv_object_init)

lemma inv_mb_detach [inv_dest]:
  "rt_mb_detach i s = Some (r, s') \<Longrightarrow> kernel_inv s \<Longrightarrow> kernel_inv s'"
  unfolding rt_mb_detach_def by (auto simp: Option.bind_eq_Some_conv dest!: inv_list_resume_all)

lemma inv_mb_control [inv_dest]:
  "rt_mb_control i c s = Some (r, s') \<Longrightarrow> kernel_inv s \<Longrightarrow> kernel_inv s'"
  unfolding rt_mb_control_def
  by (auto simp: Option.bind_eq_Some_conv dest!: inv_list_resume_all inv_schedule split: ipc_cmd.splits)

section \<open>The array is a queue\<close>

definition mb_ok :: "rt_mailbox \<Rightarrow> bool" where
  "mb_ok mb \<longleftrightarrow> 0 < mb_size mb \<and> length (mb_pool mb) = unat (mb_size mb) \<and>
     in_offset mb < mb_size mb \<and> out_offset mb < mb_size mb \<and> mb_entry mb \<le> mb_size mb \<and>
     unat (in_offset mb) = (unat (out_offset mb) + unat (mb_entry mb)) mod unat (mb_size mb)"

definition mb_content :: "rt_mailbox \<Rightarrow> u32 list" where
  "mb_content mb =
     map (\<lambda>k. mb_pool mb ! ((unat (out_offset mb) + k) mod unat (mb_size mb))) [0..<unat (mb_entry mb)]"

lemma unat_inc:
  fixes k n :: "'a :: len word"
  assumes "k < n"
  shows "unat (k + 1) = unat k + 1"
proof -
  have "unat n < 2 ^ LENGTH('a)" by (rule unsigned_less)
  then have "unat k + 1 < 2 ^ LENGTH('a)" using assms unfolding word_less_nat_alt by linarith
  then show ?thesis by (simp add: unat_word_ariths(1))
qed

lemma next_offset:
  fixes k n :: u16
  assumes "k < n"
  shows "unat (if k + 1 \<ge> n then 0 else k + 1) = (unat k + 1) mod unat n"
    "(if k + 1 \<ge> n then 0 else k + 1) < n"
proof -
  have u: "unat (k + 1) = unat k + 1"
    by (rule unat_inc [OF assms])
  show "unat (if k + 1 \<ge> n then 0 else k + 1) = (unat k + 1) mod unat n"
    using assms u by (auto simp: word_less_nat_alt word_le_nat_alt Suc_le_eq not_le dest: antisym)
  show "(if k + 1 \<ge> n then 0 else k + 1) < n" using assms by (simp add: word_less_nat_alt not_le)
qed

lemma length_mb_content [simp]: "length (mb_content mb) = unat (mb_entry mb)"
  by (simp add: mb_content_def)

lemma mb_store_room:
  assumes ok: "mb_ok mb" and room: "mb_entry mb < mb_size mb"
  shows "\<exists>mb'. mb_store v mb = Some (True, mb') \<and> mb_ok mb' \<and> mb_content mb' = mb_content mb @ [v] \<and>
           mb_size mb' = mb_size mb"
proof -
  let ?n = "unat (mb_size mb)" and ?i = "unat (in_offset mb)" and ?o = "unat (out_offset mb)" and ?e = "unat (mb_entry mb)"
  let ?mb = "mb\<lparr>mb_pool := (mb_pool mb)[?i := v],
     in_offset := (if in_offset mb + 1 \<ge> mb_size mb then 0 else in_offset mb + 1), mb_entry := mb_entry mb + 1\<rparr>"
  note ok' = ok [unfolded mb_ok_def]
  have lt: "?i < ?n" "?o < ?n" "?e < ?n" "?i = (?o + ?e) mod ?n"
    using ok' room by (auto simp: word_less_nat_alt)
  have e: "unat (mb_entry mb + 1) = ?e + 1" by (rule unat_inc [OF room])
  have "unat (mb_size mb) < 2 ^ 16" using unsigned_less [of "mb_size mb"] by simp
  then have full: "mb_entry mb < 0xffff" using room by (simp add: word_less_nat_alt)
  have st: "mb_store v mb = Some (True, ?mb)"
    using ok' lt(1) full by (simp add: mb_store_def Let_def)
  have "mb_ok ?mb"
    using ok' lt e next_offset [of "in_offset mb" "mb_size mb"] unfolding mb_ok_def
    by (auto simp: word_le_nat_alt word_less_nat_alt mod_Suc_eq)
  moreover have "(mb_pool mb)[?i := v] ! ((?o + k) mod ?n) = (if k = ?e then v else mb_pool mb ! ((?o + k) mod ?n))"
    if "k \<le> ?e" for k
  proof -
    have "(?o + k) mod ?n = (?o + ?e) mod ?n \<longleftrightarrow> k = ?e"
      using lt(3) that mod_eq_dvd_iff_nat [of "?o + k" "?o + ?e" ?n] by (auto dest: dvd_imp_le)
    then show ?thesis using ok' lt by (auto simp: nth_list_update)
  qed
  then have "mb_content ?mb = mb_content mb @ [v]" by (simp add: mb_content_def e)
  ultimately show ?thesis using st by auto
qed

lemma mb_fetch_some:
  assumes ok: "mb_ok mb" and some: "0 < mb_entry mb"
  shows "\<exists>mb'. mb_fetch mb = Some (hd (mb_content mb), mb') \<and> mb_ok mb' \<and> mb_content mb' = tl (mb_content mb) \<and>
           mb_size mb' = mb_size mb"
proof -
  let ?n = "unat (mb_size mb)" and ?o = "unat (out_offset mb)" and ?e = "unat (mb_entry mb)"
  let ?mb = "mb\<lparr>out_offset := (if out_offset mb + 1 \<ge> mb_size mb then 0 else out_offset mb + 1), mb_entry := mb_entry mb - 1\<rparr>"
  note ok' = ok [unfolded mb_ok_def]
  have e: "unat (mb_entry mb - 1) + 1 = ?e" "?e \<le> ?n" "?o < ?n" "mb_entry mb - 1 \<le> mb_size mb"
  proof -
    have "mb_entry mb \<noteq> 0" "0 < ?e" using some by (auto simp: word_less_nat_alt)
    then show "unat (mb_entry mb - 1) + 1 = ?e" using unat_minus_one [of "mb_entry mb"] by linarith
    then show "mb_entry mb - 1 \<le> mb_size mb" using ok' by (simp add: word_le_nat_alt)
  qed (use ok' in \<open>auto simp: word_le_nat_alt word_less_nat_alt\<close>)
  then have es: "?e = Suc (unat (mb_entry mb - 1))" by simp
  have head: "hd (mb_content mb) = mb_pool mb ! ?o"
    using e(3) unfolding mb_content_def es by (simp add: upt_conv_Cons del: upt_Suc)
  have f: "mb_fetch mb = Some (hd (mb_content mb), ?mb)"
    using ok' e(3) some head by (simp add: mb_fetch_def Let_def)
  note no = next_offset [of "out_offset mb" "mb_size mb"]
  have "(((?o + 1) mod ?n) + unat (mb_entry mb - 1)) mod ?n = (?o + ?e) mod ?n"
    unfolding es by (simp add: mod_add_left_eq)
  then have "mb_ok ?mb" using ok' no e unfolding mb_ok_def by simp
  moreover have "mb_content ?mb = tl (mb_content mb)"
  proof -
    have "[0..<?e] = 0 # map Suc [0..<unat (mb_entry mb - 1)]"
      unfolding es by (simp add: map_Suc_upt upt_conv_Cons del: upt_Suc)
    then show ?thesis using ok' no by (simp add: mb_content_def mod_add_left_eq)
  qed
  ultimately show ?thesis using f by auto
qed

definition mb_enq :: "u32 \<Rightarrow> rt_mailbox \<Rightarrow> rt_mailbox option" where
  "mb_enq v mb = (if mb_entry mb = mb_size mb then None else map_option snd (mb_store v mb))"

definition mb_deq :: "rt_mailbox \<Rightarrow> (u32 \<times> rt_mailbox) option" where
  "mb_deq mb = (if mb_entry mb = 0 then None else mb_fetch mb)"

interpretation mbq: bounded_fifo mb_ok mb_content "\<lambda>mb. unat (mb_size mb)" mb_enq mb_deq
proof
  fix mb v and xs
  assume ok: "mb_ok mb"
  show "length (mb_content mb) \<le> unat (mb_size mb)" using ok by (simp add: mb_ok_def word_le_nat_alt)
  show "\<exists>q'. mb_enq v mb = Some q' \<and> mb_ok q' \<and> mb_content q' = mb_content mb @ [v] \<and> unat (mb_size q') = unat (mb_size mb)"
    if "length (mb_content mb) < unat (mb_size mb)"
    using mb_store_room [OF ok, of v] that by (auto simp: mb_enq_def word_less_nat_alt)
  show "mb_enq v mb = None" if "length (mb_content mb) = unat (mb_size mb)"
    using that by (simp add: mb_enq_def word_unat_eq_iff [symmetric])
  show "\<exists>q'. mb_deq mb = Some (v, q') \<and> mb_ok q' \<and> mb_content q' = xs \<and> unat (mb_size q') = unat (mb_size mb)"
    if c: "mb_content mb = v # xs"
  proof -
    have "unat (mb_entry mb) \<noteq> 0" using length_mb_content [of mb] c by simp
    then show ?thesis using mb_fetch_some [OF ok] c by (auto simp: mb_deq_def word_gt_0)
  qed
  show "mb_deq mb = None" if "mb_content mb = []"
    using length_mb_content [of mb] that by (simp add: mb_deq_def unsigned_eq_0_iff)
qed

lemma mb_init_record_ok:
  assumes "length pool = unat sz" "0 < sz" "sz < 0x10000"
  shows "mb_ok (mb_init_record pool sz) \<and> mb_content (mb_init_record pool sz) = []"
proof -
  have "unat (ucast sz :: u16) = unat sz"
    using assms(3) by (simp add: unsigned_ucast_eq take_bit_nat_eq_self word_less_nat_alt)
  moreover have "(0::u16) < ucast sz" using assms(2) calculation by (simp add: word_less_nat_alt)
  ultimately show ?thesis using assms by (simp add: mb_ok_def mb_init_record_def mb_content_def)
qed

section \<open>Sending and receiving\<close>

text \<open>Without room, sending fails when it may not wait.\<close>

lemma mb_send_full:
  "mb_typed i s \<Longrightarrow> mb_entry (mailboxes s i) = mb_size (mailboxes s i) \<Longrightarrow>
   rt_mb_send i v s = Some (Return (- RT_EFULL), s)"
  by (simp add: rt_mb_send_def rt_mb_send_wait_def)

text \<open>With room, sending appends the message whatever the timeout, and then wakes a waiting
  receiver, if any.\<close>

lemma mb_send_room:
  assumes ty: "mb_typed i s" and ok: "mb_ok (mailboxes s i)"
    and room: "mb_entry (mailboxes s i) < mb_size (mailboxes s i)"
  shows "\<exists>mb. mb_ok mb \<and> mb_content mb = mb_content (mailboxes s i) @ [v] \<and>
       rt_mb_send_wait i v timeout s =
         Option.bind (wake_other_side (MbRecv i) (set_mb i mb s)) (\<lambda>s1. Some (Return RT_EOK, s1))"
proof -
  obtain mb where mb: "mb_store v (mailboxes s i) = Some (True, mb)" "mb_ok mb"
      "mb_content mb = mb_content (mailboxes s i) @ [v]" using mb_store_room [OF ok room] by blast
  have "rt_mb_send_wait i v timeout s =
      Option.bind (wake_other_side (MbRecv i) (set_mb i mb s)) (\<lambda>s1. Some (Return RT_EOK, s1))"
    using ty room mb(1)
    by (auto simp: rt_mb_send_wait_def wait_loop.simps [of "mb_send_round i v"] mb_send_round_def Let_def
        Option.bind_assoc)
  then show ?thesis using mb(2,3) by blast
qed

text \<open>Receiving takes the oldest message, and then wakes a waiting sender, if any.\<close>

theorem mb_recv_takes:
  assumes ty: "mb_typed i s" and ok: "mb_ok (mailboxes s i)" and c: "mb_content (mailboxes s i) = v # vs"
  shows "\<exists>mb. mb_ok mb \<and> mb_content mb = vs \<and>
     rt_mb_recv i timeout s =
       Option.bind (wake_other_side (MbSend i) (set_mb i mb s)) (\<lambda>s1. Some (Return (RT_EOK, Some v), s1))"
proof -
  have pos: "mb_entry (mailboxes s i) \<noteq> 0" using c length_mb_content [of "mailboxes s i"] by auto
  then obtain mb where mb: "mb_fetch (mailboxes s i) = Some (v, mb)" "mb_ok mb" "mb_content mb = vs"
    using mb_fetch_some [OF ok] c by (auto simp: word_gt_0)
  have "rt_mb_recv i timeout s =
       Option.bind (wake_other_side (MbSend i) (set_mb i mb s)) (\<lambda>s1. Some (Return (RT_EOK, Some v), s1))"
    using ty pos mb(1)
    by (auto simp: rt_mb_recv_def wait_loop.simps [of "mb_recv_round i"] mb_recv_round_def Let_def
        Option.bind_assoc)
  then show ?thesis using mb(2,3) by blast
qed

lemma wake_other_side_first:
  assumes inv: "kernel_inv s" and w: "lists s l = t # ts" and l: "\<And>p. l \<noteq> ReadyQ p"
    and t: "thread_typed s t" "stat_of s t = RT_THREAD_SUSPEND"
  shows "\<exists>s1. wake_other_side l s = rt_schedule s1 \<and> kernel_inv s1 \<and> same_ipc s s1 \<and> lists s1 l = ts \<and>
     stat_of s1 t = RT_THREAD_READY \<and> thread_error (threads s1 t) = thread_error (threads s t)"
proof -
  obtain s1 where s1: "rt_thread_resume t s = Some (RT_EOK, s1)" "kernel_inv s1" "same_ipc s s1"
    "cur_thread s1 = cur_thread s"
    "threads s1 = (threads s)(t := (threads s t)\<lparr>stat := with_stat RT_THREAD_READY (stat (threads s t)),
       t_link := Some (ReadyQ (unat (current_priority (threads s t))))\<rparr>)"
    "\<And>l. lists s1 l = (if l = ReadyQ (unat (current_priority (threads s t)))
                        then lists s l @ [t] else remove1 t (lists s l))"
    by (rule resume_effect [OF inv t]) (rule that)
  have "wake_other_side l s = rt_schedule s1"
    using w s1(1) by (simp add: wake_other_side_def rt_ipc_list_resume_def)
  moreover have "lists s1 l = ts" using w l s1(6) by simp
  ultimately show ?thesis using s1(2,3,5) by (intro exI [of _ s1]) (simp add: stat_of_def)
qed

text \<open>A message sent to a mailbox with a waiting receiver is in the mailbox when the receiver is made
  ready.\<close>

theorem mb_send_wakes_receiver:
  assumes inv: "kernel_inv s" and ty: "mb_typed i s" and ok: "mb_ok (mailboxes s i)"
    and room: "mb_entry (mailboxes s i) < mb_size (mailboxes s i)"
    and w: "lists s (MbRecv i) = t # ts" and t: "thread_typed s t" "stat_of s t = RT_THREAD_SUSPEND"
  shows "\<exists>s1. rt_mb_send_wait i v timeout s = Option.bind (rt_schedule s1) (\<lambda>s2. Some (Return RT_EOK, s2)) \<and>
     kernel_inv s1 \<and> lists s1 (MbRecv i) = ts \<and> stat_of s1 t = RT_THREAD_READY \<and>
     mb_ok (mailboxes s1 i) \<and> mb_content (mailboxes s1 i) = mb_content (mailboxes s i) @ [v]"
proof -
  obtain mb where mb: "mb_ok mb" "mb_content mb = mb_content (mailboxes s i) @ [v]"
      "rt_mb_send_wait i v timeout s =
         Option.bind (wake_other_side (MbRecv i) (set_mb i mb s)) (\<lambda>s1. Some (Return RT_EOK, s1))"
    using mb_send_room [OF ty ok room] by blast
  obtain s1 where s1: "wake_other_side (MbRecv i) (set_mb i mb s) = rt_schedule s1" "kernel_inv s1"
      "same_ipc (set_mb i mb s) s1" "lists s1 (MbRecv i) = ts" "stat_of s1 t = RT_THREAD_READY"
    using wake_other_side_first [of "set_mb i mb s" "MbRecv i" t ts] inv w t by auto
  then show ?thesis using mb by (intro exI [of _ s1]) (simp add: same_ipc_def)
qed

text \<open>First in, first out, for any messages that fit, from the state \<open>rt_mb_init\<close> leaves.\<close>

theorem mb_fifo_order:
  assumes "length pool = unat sz" "0 < sz" "sz < 0x10000" "length vs \<le> unat sz"
  shows "\<exists>mb1 mb2. enq_all mb_enq vs (mb_init_record pool sz) = Some mb1 \<and>
           deq_n mb_deq (length vs) mb1 = Some (vs, mb2) \<and> mb_content mb2 = []"
proof -
  have "unat (mb_size (mb_init_record pool sz)) = unat sz"
    using assms(3) by (simp add: mb_init_record_def unsigned_ucast_eq take_bit_nat_eq_self word_less_nat_alt)
  then show ?thesis
    using mbq.fifo_order [of "mb_init_record pool sz" vs] mb_init_record_ok [OF assms(1-3)] assms(4) by auto
qed

end
