(* ===== verification/MsgQueue.thy ===== *)
theory MsgQueue
  imports Mailbox
begin

text \<open>
  The message queues of \<open>src/src/ipc.c\<close>: messages of a fixed size in the slots of a pool, each slot
  on the free list, on the queue, or taken out by a sender or a receiver that is copying.
\<close>

section \<open>Slots\<close>

text \<open>The pieces the operations run with interrupts disabled, and the copying in between.\<close>

definition mq_take_free :: "nat \<Rightarrow> rt_messagequeue \<Rightarrow> rt_messagequeue" where
  "mq_take_free m mq = mq\<lparr>msg_queue_free := mq_next mq m\<rparr>"

definition mq_set_next :: "nat \<Rightarrow> nat option \<Rightarrow> rt_messagequeue \<Rightarrow> rt_messagequeue" where
  "mq_set_next m n mq = mq\<lparr>mq_next := (mq_next mq)(m := n)\<rparr>"

text \<open>\<open>rt_memcpy(msg + 1, buffer, size)\<close>.\<close>

definition mq_fill :: "nat \<Rightarrow> u8 list \<Rightarrow> u32 \<Rightarrow> rt_messagequeue \<Rightarrow> rt_messagequeue option" where
  "mq_fill m buf sz mq = do {
     c_defined (unat sz \<le> length buf \<and> unat sz \<le> length (mq_data mq m));
     Some (mq\<lparr>mq_data := (mq_data mq)(m := take (unat sz) buf @ drop (unat sz) (mq_data mq m))\<rparr>)
   }"

definition mq_count_up :: "rt_messagequeue \<Rightarrow> bool \<times> rt_messagequeue" where
  "mq_count_up mq =
     (if mq_entry mq < 0xffff then (True, mq\<lparr>mq_entry := mq_entry mq + 1\<rparr>) else (False, mq))"

definition mq_append :: "nat \<Rightarrow> rt_messagequeue \<Rightarrow> bool \<times> rt_messagequeue" where
  "mq_append m mq =
     (let mq = (case msg_queue_tail mq of Some l \<Rightarrow> mq_set_next l (Some m) mq | None \<Rightarrow> mq);
          mq = mq\<lparr>msg_queue_tail := Some m\<rparr>;
          mq = (if msg_queue_head mq = None then mq\<lparr>msg_queue_head := Some m\<rparr> else mq) in
      mq_count_up mq)"

definition mq_push :: "nat \<Rightarrow> rt_messagequeue \<Rightarrow> bool \<times> rt_messagequeue" where
  "mq_push m mq =
     (let mq = mq_set_next m (msg_queue_head mq) mq;
          mq = mq\<lparr>msg_queue_head := Some m\<rparr>;
          mq = (if msg_queue_tail mq = None then mq\<lparr>msg_queue_tail := Some m\<rparr> else mq) in
      mq_count_up mq)"

definition mq_unlink_head :: "nat \<Rightarrow> rt_messagequeue \<Rightarrow> rt_messagequeue" where
  "mq_unlink_head m mq =
     (let mq = mq\<lparr>msg_queue_head := mq_next mq m\<rparr> in
      if msg_queue_tail mq = Some m then mq\<lparr>msg_queue_tail := None\<rparr> else mq)"

definition mq_count_down :: "rt_messagequeue \<Rightarrow> rt_messagequeue" where
  "mq_count_down mq = (if mq_entry mq > 0 then mq\<lparr>mq_entry := mq_entry mq - 1\<rparr> else mq)"

definition mq_put_free :: "nat \<Rightarrow> rt_messagequeue \<Rightarrow> rt_messagequeue" where
  "mq_put_free m mq = (mq_set_next m (msg_queue_free mq) mq)\<lparr>msg_queue_free := Some m\<rparr>"

text \<open>The loop that builds the free list of a new queue, and the one that empties a queue.\<close>

fun mq_build_free :: "nat \<Rightarrow> rt_messagequeue \<Rightarrow> rt_messagequeue" where
  "mq_build_free 0 mq = mq"
| "mq_build_free (Suc n) mq = mq_put_free n (mq_build_free n mq)"

partial_function (option) mq_flush :: "rt_messagequeue \<Rightarrow> rt_messagequeue option" where
  "mq_flush mq =
     (case msg_queue_head mq of
        None \<Rightarrow> Some mq
      | Some m \<Rightarrow> mq_flush (mq_put_free m (mq_unlink_head m mq)))"

text \<open>\<open>RT_ALIGN(size, RT_ALIGN_SIZE)\<close> with an alignment of 4.\<close>

definition rt_align4 :: "u32 \<Rightarrow> u32" where
  "rt_align4 n = (n + 3) AND NOT 3"

text \<open>The memory of the pool, with what it holds, is the argument \<open>pool\<close>.\<close>

definition mq_fresh :: "(nat \<Rightarrow> u8 list) \<Rightarrow> u32 \<Rightarrow> u32 \<Rightarrow> rt_messagequeue" where
  "mq_fresh pool msg_sz msgs =
     mq_build_free (unat (ucast msgs :: u16))
       \<lparr>mq_next = (\<lambda>_. None), mq_data = pool, mq_msg_size = ucast (rt_align4 msg_sz), max_msgs = ucast msgs,
        mq_entry = 0, msg_queue_head = None, msg_queue_tail = None, msg_queue_free = None\<rparr>"

section \<open>Operations\<close>

definition set_mq :: "nat \<Rightarrow> rt_messagequeue \<Rightarrow> kstate \<Rightarrow> kstate" where
  "set_mq i mq s = s\<lparr>mqs := (mqs s)(i := mq)\<rparr>"

definition mq_typed :: "nat \<Rightarrow> kstate \<Rightarrow> bool" where
  "mq_typed i s \<longleftrightarrow> rt_object_get_type (MqObj i) s = RT_Object_Class_MessageQueue"

definition rt_mq_init :: "nat \<Rightarrow> u8 list \<Rightarrow> (nat \<Rightarrow> u8 list) \<Rightarrow> u32 \<Rightarrow> u32 \<Rightarrow> u8 \<Rightarrow> kstate \<Rightarrow>
    (rt_err_t \<times> kstate) option" where
  "rt_mq_init i name pool msg_sz pool_sz flag s = do {
     s \<leftarrow> rt_object_init (MqObj i) RT_Object_Class_MessageQueue name s;
     s \<leftarrow> rt_ipc_object_init (MqRecv i) (set_flag (MqObj i) flag s);
     let slot = ucast (ucast (rt_align4 msg_sz) :: u16) + 4;
     s \<leftarrow> rt_ipc_object_init (MqSend i) (set_mq i (mq_fresh pool msg_sz (pool_sz div slot)) s);
     Some (RT_EOK, s)
   }"

definition rt_mq_detach :: "nat \<Rightarrow> kstate \<Rightarrow> (rt_err_t \<times> kstate) option" where
  "rt_mq_detach i s = do {
     rt_assert (mq_typed i s);
     rt_assert (rt_object_is_systemobject (MqObj i) s);
     s \<leftarrow> rt_ipc_list_resume_all (MqRecv i) s;
     s \<leftarrow> rt_ipc_list_resume_all (MqSend i) s;
     Some (RT_EOK, rt_object_detach (MqObj i) s)
   }"

definition rt_mq_create :: "nat option \<Rightarrow> (nat \<Rightarrow> u8 list) option \<Rightarrow> u8 list \<Rightarrow> u32 \<Rightarrow> u32 \<Rightarrow> u8 \<Rightarrow> kstate \<Rightarrow>
    (nat option \<times> kstate) option" where
  "rt_mq_create blk pool name msg_sz msgs flag s = do {
     not_in_interrupt s;
     (_, s) \<leftarrow> rt_object_allocate (map_option MqObj blk) RT_Object_Class_MessageQueue name s;
     case blk of
       None \<Rightarrow> Some (None, s)
     | Some i \<Rightarrow> do {
         s \<leftarrow> rt_ipc_object_init (MqRecv i) (set_flag (MqObj i) flag s);
         case pool of
           None \<Rightarrow> do { s \<leftarrow> rt_object_delete (MqObj i) s; Some (None, s) }
         | Some pool \<Rightarrow> do {
             s \<leftarrow> rt_ipc_object_init (MqSend i) (set_mq i (mq_fresh pool msg_sz msgs) s);
             Some (Some i, s)
           }
       }
   }"

definition rt_mq_delete :: "nat \<Rightarrow> kstate \<Rightarrow> (rt_err_t \<times> kstate) option" where
  "rt_mq_delete i s = do {
     not_in_interrupt s;
     rt_assert (mq_typed i s);
     rt_assert (\<not> rt_object_is_systemobject (MqObj i) s);
     s \<leftarrow> rt_ipc_list_resume_all (MqRecv i) s;
     s \<leftarrow> rt_ipc_list_resume_all (MqSend i) s;
     s \<leftarrow> rt_object_delete (MqObj i) s;
     Some (RT_EOK, s)
   }"

definition mq_posted :: "nat \<Rightarrow> bool \<times> rt_messagequeue \<Rightarrow> kstate \<Rightarrow> (rt_err_t \<times> kstate) option" where
  "mq_posted i p s =
     (let s = set_mq i (snd p) s in
      if \<not> fst p then Some (- RT_EFULL, s)
      else do {
        s \<leftarrow> wake_other_side (MqRecv i) s;
        Some (RT_EOK, s)
      })"

definition mq_send_round :: "nat \<Rightarrow> u8 list \<Rightarrow> u32 \<Rightarrow> int \<Rightarrow> kstate \<Rightarrow> (rt_err_t round \<times> kstate) option" where
  "mq_send_round i buf sz timeout s =
     (case msg_queue_free (mqs s i) of
        None \<Rightarrow> do {
          t \<leftarrow> rt_thread_self s;
          let s = set_error t RT_EOK s;
          if timeout = 0 then Some (Done (- RT_EFULL), s)
          else do {
            in_thread_context s;
            s \<leftarrow> ipc_wait (MqSend i) t (obj_flag (objs s (MqObj i))) timeout s;
            Some (Wait t (rt_tick_get s), s)
          }
        }
      | Some m \<Rightarrow> do {
          mq \<leftarrow> mq_fill m buf sz (mq_set_next m None (mq_take_free m (mqs s i)));
          (r, s) \<leftarrow> mq_posted i (mq_append m mq) s;
          Some (Done r, s)
        })"

definition rt_mq_send_wait :: "nat \<Rightarrow> u8 list \<Rightarrow> u32 \<Rightarrow> int \<Rightarrow> kstate \<Rightarrow>
    ((int \<times> u32, rt_err_t) outcome \<times> kstate) option" where
  "rt_mq_send_wait i buf sz timeout s = do {
     rt_assert (mq_typed i s);
     rt_assert (sz \<noteq> 0);
     if sz > ucast (mq_msg_size (mqs s i)) then Some (Return (- RT_ERROR), s)
     else if msg_queue_free (mqs s i) = None \<and> timeout = 0 then Some (Return (- RT_EFULL), s)
     else wait_loop (mq_send_round i buf sz) id timeout s
   }"

definition rt_mq_send_wait_resumed :: "nat \<Rightarrow> u8 list \<Rightarrow> u32 \<Rightarrow> tid \<Rightarrow> int \<times> u32 \<Rightarrow> kstate \<Rightarrow>
    ((int \<times> u32, rt_err_t) outcome \<times> kstate) option" where
  "rt_mq_send_wait_resumed i buf sz = wait_resumed (mq_send_round i buf sz) id"

definition rt_mq_send :: "nat \<Rightarrow> u8 list \<Rightarrow> u32 \<Rightarrow> kstate \<Rightarrow> ((int \<times> u32, rt_err_t) outcome \<times> kstate) option" where
  "rt_mq_send i buf sz s = rt_mq_send_wait i buf sz 0 s"

definition rt_mq_urgent :: "nat \<Rightarrow> u8 list \<Rightarrow> u32 \<Rightarrow> kstate \<Rightarrow> (rt_err_t \<times> kstate) option" where
  "rt_mq_urgent i buf sz s = do {
     rt_assert (mq_typed i s);
     rt_assert (sz \<noteq> 0);
     if sz > ucast (mq_msg_size (mqs s i)) then Some (- RT_ERROR, s)
     else (case msg_queue_free (mqs s i) of
        None \<Rightarrow> Some (- RT_EFULL, s)
      | Some m \<Rightarrow> do {
          mq \<leftarrow> mq_fill m buf sz (mq_take_free m (mqs s i));
          mq_posted i (mq_push m mq) s
        })
   }"

text \<open>The result is the error code with the bytes stored in the receiver's buffer.\<close>

definition mq_recv_round :: "nat \<Rightarrow> u32 \<Rightarrow> int \<Rightarrow> kstate \<Rightarrow> ((rt_err_t \<times> u8 list) round \<times> kstate) option" where
  "mq_recv_round i sz timeout s =
     (if mq_entry (mqs s i) = 0 then do {
        in_thread_context s;
        t \<leftarrow> rt_thread_self s;
        let s = set_error t RT_EOK s;
        if timeout = 0 then Some (Done (- RT_ETIMEOUT, []), set_error t (- RT_ETIMEOUT) s)
        else do {
          s \<leftarrow> ipc_wait (MqRecv i) t (obj_flag (objs s (MqObj i))) timeout s;
          Some (Wait t (rt_tick_get s), s)
        }
      }
      else do {
        m \<leftarrow> msg_queue_head (mqs s i);
        let mq = mq_count_down (mq_unlink_head m (mqs s i));
        let n = (if sz > ucast (mq_msg_size mq) then unat (mq_msg_size mq) else unat sz);
        c_defined (n \<le> length (mq_data mq m));
        s \<leftarrow> wake_other_side (MqSend i) (set_mq i (mq_put_free m mq) s);
        Some (Done (RT_EOK, take n (mq_data mq m)), s)
      })"

definition rt_mq_recv :: "nat \<Rightarrow> u32 \<Rightarrow> int \<Rightarrow> kstate \<Rightarrow> ((int \<times> u32, rt_err_t \<times> u8 list) outcome \<times> kstate) option" where
  "rt_mq_recv i sz timeout s = do {
     rt_assert (mq_typed i s);
     rt_assert (sz \<noteq> 0);
     if mq_entry (mqs s i) = 0 \<and> timeout = 0 then Some (Return (- RT_ETIMEOUT, []), s)
     else wait_loop (mq_recv_round i sz) (\<lambda>e. (e, [])) timeout s
   }"

definition rt_mq_recv_resumed :: "nat \<Rightarrow> u32 \<Rightarrow> tid \<Rightarrow> int \<times> u32 \<Rightarrow> kstate \<Rightarrow>
    ((int \<times> u32, rt_err_t \<times> u8 list) outcome \<times> kstate) option" where
  "rt_mq_recv_resumed i sz = wait_resumed (mq_recv_round i sz) (\<lambda>e. (e, []))"

definition rt_mq_control :: "nat \<Rightarrow> ipc_cmd \<Rightarrow> kstate \<Rightarrow> (rt_err_t \<times> kstate) option" where
  "rt_mq_control i cmd s = do {
     rt_assert (mq_typed i s);
     case cmd of
       RT_IPC_CMD_RESET _ \<Rightarrow> do {
         s \<leftarrow> rt_ipc_list_resume_all (MqRecv i) s;
         s \<leftarrow> rt_ipc_list_resume_all (MqSend i) s;
         mq \<leftarrow> mq_flush (mqs s i);
         s \<leftarrow> rt_schedule (set_mq i (mq\<lparr>mq_entry := 0\<rparr>) s);
         Some (RT_EOK, s)
       }
     | Ipc_cmd_other _ \<Rightarrow> Some (- RT_ERROR, s)
   }"

section \<open>The kernel invariant\<close>

lemma set_mq_sel [simp]:
  "threads (set_mq i v s) = threads s" "lists (set_mq i v s) = lists s" "objs (set_mq i v s) = objs s"
  "cur_thread (set_mq i v s) = cur_thread s" "interrupt_nest (set_mq i v s) = interrupt_nest s"
  "rt_tick (set_mq i v s) = rt_tick s" "timers (set_mq i v s) = timers s"
  "mqs (set_mq i v s) = (mqs s)(i := v)"
  by (simp_all add: set_mq_def)

lemma set_mq_typed [simp]:
  "mq_typed j (set_mq i v s) = mq_typed j s" "mq_typed j (set_error t e s) = mq_typed j s"
  "thread_typed (set_mq i v s) t = thread_typed s t" "stat_of (set_mq i v s) t = stat_of s t"
  by (simp_all add: mq_typed_def thread_typed_def rt_object_get_type_def stat_of_def)

lemma kernel_inv_set_mq [simp]: "kernel_inv (set_mq i v s) = kernel_inv s"
  by (simp add: set_mq_def)

lemma inv_mq_posted: "mq_posted i p s = Some (r, s') \<Longrightarrow> kernel_inv s \<Longrightarrow> kernel_inv s'"
  unfolding mq_posted_def
  by (auto simp: Option.bind_eq_Some_conv Let_def split: if_split_asm dest!: inv_wake_other_side)

lemma inv_mq_send_round: "mq_send_round i buf sz timeout s = Some (r, s') \<Longrightarrow> kernel_inv s \<Longrightarrow> kernel_inv s'"
  unfolding mq_send_round_def
  by (auto simp: Option.bind_eq_Some_conv Let_def split: if_split_asm option.split_asm
      dest!: inv_ipc_wait inv_mq_posted)

lemma inv_mq_recv_round: "mq_recv_round i sz timeout s = Some (r, s') \<Longrightarrow> kernel_inv s \<Longrightarrow> kernel_inv s'"
  unfolding mq_recv_round_def
  by (auto simp: Option.bind_eq_Some_conv Let_def split: if_split_asm dest!: inv_ipc_wait inv_wake_other_side)

lemma inv_mq_send_wait [inv_dest]:
  "rt_mq_send_wait i buf sz timeout s = Some (r, s') \<Longrightarrow> kernel_inv s \<Longrightarrow> kernel_inv s'"
  unfolding rt_mq_send_wait_def
  by (auto simp: Option.bind_eq_Some_conv split: if_split_asm intro: inv_mq_send_round elim!: inv_wait_loop)

lemma inv_mq_recv [inv_dest]:
  "rt_mq_recv i sz timeout s = Some (r, s') \<Longrightarrow> kernel_inv s \<Longrightarrow> kernel_inv s'"
  unfolding rt_mq_recv_def
  by (auto simp: Option.bind_eq_Some_conv split: if_split_asm intro: inv_mq_recv_round elim!: inv_wait_loop)

lemma inv_mq_urgent [inv_dest]:
  "rt_mq_urgent i buf sz s = Some (r, s') \<Longrightarrow> kernel_inv s \<Longrightarrow> kernel_inv s'"
  unfolding rt_mq_urgent_def
  by (auto simp: Option.bind_eq_Some_conv split: if_split_asm option.split_asm dest!: inv_mq_posted)

lemma inv_mq_resumed [inv_dest]:
  "rt_mq_send_wait_resumed i buf sz t loc s = Some (r, s') \<Longrightarrow> kernel_inv s \<Longrightarrow> kernel_inv s'"
  "rt_mq_recv_resumed i sz t loc s = Some (q, s') \<Longrightarrow> kernel_inv s \<Longrightarrow> kernel_inv s'"
  unfolding rt_mq_send_wait_resumed_def rt_mq_recv_resumed_def
  by (erule inv_wait_resumed, assumption, erule (1) inv_mq_send_round)
    (erule inv_wait_resumed, assumption, erule (1) inv_mq_recv_round)

lemma inv_mq_init [inv_dest]:
  "rt_mq_init i name pool msg_sz pool_sz flag s = Some (r, s') \<Longrightarrow> kernel_inv s \<Longrightarrow> kernel_inv s'"
  unfolding rt_mq_init_def rt_ipc_object_init_def
  by (auto simp: Option.bind_eq_Some_conv Let_def dest!: inv_object_init)

lemma inv_mq_detach [inv_dest]:
  "rt_mq_detach i s = Some (r, s') \<Longrightarrow> kernel_inv s \<Longrightarrow> kernel_inv s'"
  unfolding rt_mq_detach_def by (auto simp: Option.bind_eq_Some_conv dest!: inv_list_resume_all)

lemma inv_mq_control [inv_dest]:
  "rt_mq_control i c s = Some (r, s') \<Longrightarrow> kernel_inv s \<Longrightarrow> kernel_inv s'"
  unfolding rt_mq_control_def
  by (auto simp: Option.bind_eq_Some_conv dest!: inv_list_resume_all inv_schedule split: ipc_cmd.splits)

section \<open>Where the slots are\<close>

text \<open>A chain of slots through their \<open>next\<close> pointers; and the state of a queue whose slots are on
  the free list, in the hands of senders and receivers that are copying, or on the queue.\<close>

fun chain :: "(nat \<Rightarrow> nat option) \<Rightarrow> nat option \<Rightarrow> nat list \<Rightarrow> bool" where
  "chain nx h [] = (h = None)"
| "chain nx h (x # xs) = (h = Some x \<and> chain nx (nx x) xs)"

definition mq_slots :: "rt_messagequeue \<Rightarrow> nat list \<Rightarrow> nat set \<Rightarrow> nat list \<Rightarrow> bool" where
  "mq_slots mq free busy queue \<longleftrightarrow>
     chain (mq_next mq) (msg_queue_free mq) free \<and> chain (mq_next mq) (msg_queue_head mq) queue \<and>
     msg_queue_tail mq = (if queue = [] then None else Some (last queue)) \<and>
     distinct (free @ queue) \<and> busy \<inter> set (free @ queue) = {} \<and>
     set (free @ queue) \<union> busy = {..<unat (max_msgs mq)} \<and> unat (mq_entry mq) = length queue"

lemma chain_cong: "(\<And>x. x \<in> set xs \<Longrightarrow> nx x = nx' x) \<Longrightarrow> chain nx h xs = chain nx' h xs"
  by (induction xs arbitrary: h) auto

lemma chain_upd [simp]: "m \<notin> set xs \<Longrightarrow> chain (nx(m := n)) h xs = chain nx h xs"
  "m \<notin> set xs \<Longrightarrow> chain (\<lambda>a. if a = m then n else nx a) h xs = chain nx h xs"
  by (rule chain_cong; auto)+

lemma chain_head: "chain nx h xs \<Longrightarrow> h = (if xs = [] then None else Some (hd xs))"
  by (cases xs) auto

lemma chain_append_end:
  "chain nx h xs \<Longrightarrow> distinct xs \<Longrightarrow> m \<notin> set xs \<Longrightarrow> nx m = None \<Longrightarrow>
   chain (if xs = [] then nx else nx(last xs := Some m)) (if xs = [] then Some m else h) (xs @ [m])"
  by (induction xs arbitrary: h) (auto split: if_splits)

text \<open>Every piece moves one slot from one place to the next and loses none; whatever happens
  between the pieces of one operation finds the queue in such a state again.\<close>

lemma slots_take_free:
  "mq_slots mq (m # fs) bs qs \<Longrightarrow> mq_slots (mq_take_free m mq) fs (insert m bs) qs"
  by (auto simp: mq_slots_def mq_take_free_def)

lemma slots_busy_next:
  assumes "mq_slots mq fs bs qs" "m \<in> bs"
  shows "mq_slots (mq_set_next m n mq) fs bs qs"
proof -
  have "m \<notin> set fs" "m \<notin> set qs" using assms unfolding mq_slots_def by auto
  then show ?thesis using assms unfolding mq_slots_def mq_set_next_def by simp
qed

lemma slots_put_free:
  assumes "mq_slots mq fs bs qs" "m \<in> bs"
  shows "mq_slots (mq_put_free m mq) (m # fs) (bs - {m}) qs"
proof -
  have m: "m \<notin> set fs" "m \<notin> set qs" using assms unfolding mq_slots_def by auto
  moreover have "set ((m # fs) @ qs) \<union> (bs - {m}) = {..<unat (max_msgs mq)}"
    using assms unfolding mq_slots_def by auto
  moreover have "(bs - {m}) \<inter> set ((m # fs) @ qs) = {}" using assms unfolding mq_slots_def by auto
  ultimately show ?thesis using assms by (simp add: mq_slots_def mq_put_free_def mq_set_next_def)
qed

lemma slots_data [simp]: "mq_slots (mq\<lparr>mq_data := d\<rparr>) fs bs qs = mq_slots mq fs bs qs"
  by (simp add: mq_slots_def)

lemma slots_fill:
  "mq_fill m buf sz mq = Some mq' \<Longrightarrow> mq_slots mq' fs bs qs = mq_slots mq fs bs qs"
  by (auto simp: mq_fill_def Option.bind_eq_Some_conv)

lemma slots_room:
  assumes "mq_slots mq fs bs qs" "m \<in> bs"
  shows "length qs < 0xffff" "mq_entry mq < 0xffff"
proof -
  have "m \<notin> set qs" "distinct qs" "set (m # qs) \<subseteq> {..<unat (max_msgs mq)}"
    using assms unfolding mq_slots_def by auto
  then have "length (m # qs) \<le> unat (max_msgs mq)" using card_mono [OF finite_lessThan] distinct_card
    by (metis card_lessThan distinct.simps(2))
  moreover have "unat (max_msgs mq) < 2 ^ 16" using unsigned_less [of "max_msgs mq"] by simp
  ultimately show "length qs < 0xffff" by simp
  then show "mq_entry mq < 0xffff" using assms(1) by (simp add: mq_slots_def word_less_nat_alt)
qed

lemma slots_append:
  assumes "mq_slots mq fs bs qs" "m \<in> bs" "mq_next mq m = None"
  shows "\<exists>mq'. mq_append m mq = (True, mq') \<and> mq_slots mq' fs (bs - {m}) (qs @ [m]) \<and> mq_data mq' = mq_data mq"
proof -
  have m: "m \<notin> set fs" "m \<notin> set qs" using assms unfolding mq_slots_def by auto
  note room = slots_room [OF assms(1,2)]
  have d: "distinct qs" "last qs \<notin> set fs" if "qs \<noteq> []"
    using assms(1) that unfolding mq_slots_def by auto
  let ?nx = "if qs = [] then mq_next mq else (mq_next mq)(last qs := Some m)"
  let ?mq = "mq\<lparr>mq_next := ?nx, msg_queue_tail := Some m,
      msg_queue_head := (if qs = [] then Some m else msg_queue_head mq), mq_entry := mq_entry mq + 1\<rparr>"
  have h: "(msg_queue_head mq = None) = (qs = [])" "(msg_queue_tail mq = None) = (qs = [])"
    "msg_queue_tail mq = (if qs = [] then None else Some (last qs))"
    using assms(1) unfolding mq_slots_def by (auto dest: chain_head split: if_splits)
  have e: "unat (mq_entry mq + 1) = length qs + 1"
    using unat_inc [OF room(2)] assms(1) by (simp add: mq_slots_def)
  have ap: "mq_append m mq = (True, ?mq)"
    using h room(2) by (cases mq; cases "qs = []") (auto simp: mq_append_def mq_set_next_def mq_count_up_def Let_def)
  have c: "chain ?nx (if qs = [] then Some m else msg_queue_head mq) (qs @ [m])"
    by (rule chain_append_end) (use assms m in \<open>auto simp: mq_slots_def\<close>)
  have f: "chain ?nx (msg_queue_free mq) fs"
    using assms(1) d by (auto simp: mq_slots_def)
  have "mq_slots ?mq fs (bs - {m}) (qs @ [m])"
    unfolding mq_slots_def
  proof (intro conjI)
    show "set (fs @ qs @ [m]) \<union> (bs - {m}) = {..<unat (max_msgs ?mq)}"
      using assms(1,2) unfolding mq_slots_def by auto
  qed (use c f e assms m in \<open>auto simp: mq_slots_def\<close>)
  then show ?thesis using ap by auto
qed

lemma slots_push:
  assumes "mq_slots mq fs bs qs" "m \<in> bs"
  shows "\<exists>mq'. mq_push m mq = (True, mq') \<and> mq_slots mq' fs (bs - {m}) (m # qs) \<and> mq_data mq' = mq_data mq"
proof -
  have m: "m \<notin> set fs" "m \<notin> set qs" using assms unfolding mq_slots_def by auto
  note room = slots_room [OF assms]
  let ?mq = "mq\<lparr>mq_next := (mq_next mq)(m := msg_queue_head mq), msg_queue_head := Some m,
      msg_queue_tail := (if qs = [] then Some m else msg_queue_tail mq), mq_entry := mq_entry mq + 1\<rparr>"
  have h: "(msg_queue_tail mq = None) = (qs = [])"
    using assms(1) unfolding mq_slots_def by auto
  have e: "unat (mq_entry mq + 1) = length qs + 1"
    using unat_inc [OF room(2)] assms(1) by (simp add: mq_slots_def)
  have ps: "mq_push m mq = (True, ?mq)"
    using h room(2) by (cases mq; cases "qs = []") (auto simp: mq_push_def mq_set_next_def mq_count_up_def Let_def)
  have "mq_slots ?mq fs (bs - {m}) (m # qs)"
    unfolding mq_slots_def
  proof (intro conjI)
    show "set (fs @ m # qs) \<union> (bs - {m}) = {..<unat (max_msgs ?mq)}"
      using assms unfolding mq_slots_def by auto
  qed (use e assms m in \<open>auto simp: mq_slots_def\<close>)
  then show ?thesis using ps by auto
qed

lemma slots_unlink_head:
  assumes "mq_slots mq fs bs (m # qs)"
  shows "mq_slots (mq_count_down (mq_unlink_head m mq)) fs (insert m bs) qs"
proof -
  have "0 < mq_entry mq" using assms by (auto simp: mq_slots_def word_less_nat_alt)
  moreover from this have "unat (mq_entry mq - 1) = length qs"
    using assms unat_minus_one [of "mq_entry mq"] by (simp add: mq_slots_def)
  moreover have "(qs \<noteq> [] \<and> last qs = m) = False" using assms unfolding mq_slots_def by auto
  ultimately show ?thesis using assms
    unfolding mq_slots_def mq_unlink_head_def mq_count_down_def by (auto simp: Let_def)
qed

lemma slots_build_free:
  assumes "chain (mq_next mq) (msg_queue_free mq) []"
  shows "chain (mq_next (mq_build_free n mq)) (msg_queue_free (mq_build_free n mq)) (rev [0..<n])"
proof (induction n)
  case 0
  then show ?case using assms by simp
next
  case (Suc n)
  then show ?case by (simp add: mq_put_free_def mq_set_next_def)
qed

lemma build_free_sel [simp]:
  "mq_data (mq_build_free n mq) = mq_data mq" "mq_msg_size (mq_build_free n mq) = mq_msg_size mq"
  "max_msgs (mq_build_free n mq) = max_msgs mq" "mq_entry (mq_build_free n mq) = mq_entry mq"
  "msg_queue_head (mq_build_free n mq) = msg_queue_head mq" "msg_queue_tail (mq_build_free n mq) = msg_queue_tail mq"
  by (induction n) (simp_all add: mq_put_free_def mq_set_next_def)

lemma mq_fresh_slots:
  "mq_slots (mq_fresh pool msg_sz msgs) (rev [0..<unat (ucast msgs :: u16)]) {} []"
  using slots_build_free [of "\<lparr>mq_next = (\<lambda>_. None), mq_data = pool, mq_msg_size = ucast (rt_align4 msg_sz),
      max_msgs = ucast msgs, mq_entry = 0, msg_queue_head = None, msg_queue_tail = None, msg_queue_free = None\<rparr>"
      "unat (ucast msgs :: u16)"]
  by (auto simp: mq_slots_def mq_fresh_def)

section \<open>Concurrent senders and receivers\<close>

text \<open>Between the pieces of one call, interrupts are enabled and other calls may run their pieces.  A
  step of any of them, with the slots that are being copied:\<close>

inductive mq_step :: "rt_messagequeue \<times> nat set \<Rightarrow> rt_messagequeue \<times> nat set \<Rightarrow> bool" where
  send_begin: "msg_queue_free mq = Some m \<Longrightarrow> mq_step (mq, bs) (mq_take_free m mq, insert m bs)"
| send_clear: "m \<in> bs \<Longrightarrow> mq_step (mq, bs) (mq_set_next m None mq, bs)"
| send_copy: "mq_fill m buf sz mq = Some mq' \<Longrightarrow> mq_step (mq, bs) (mq', bs)"
| send_end: "m \<in> bs \<Longrightarrow> mq_next mq m = None \<Longrightarrow> mq_step (mq, bs) (snd (mq_append m mq), bs - {m})"
| urgent_end: "m \<in> bs \<Longrightarrow> mq_step (mq, bs) (snd (mq_push m mq), bs - {m})"
| recv_begin: "mq_entry mq \<noteq> 0 \<Longrightarrow> msg_queue_head mq = Some m \<Longrightarrow>
    mq_step (mq, bs) (mq_count_down (mq_unlink_head m mq), insert m bs)"
| recv_end: "m \<in> bs \<Longrightarrow> mq_step (mq, bs) (mq_put_free m mq, bs - {m})"

lemma slots_heads:
  assumes "mq_slots mq fs bs qs"
  shows "msg_queue_free mq = Some m \<Longrightarrow> \<exists>fs'. fs = m # fs'"
    and "msg_queue_head mq = Some m \<Longrightarrow> \<exists>qs'. qs = m # qs'"
  using assms chain_head [of "mq_next mq" "msg_queue_free mq" fs] chain_head [of "mq_next mq" "msg_queue_head mq" qs]
  by (cases fs; cases qs; auto simp: mq_slots_def)+

lemma mq_step_slots:
  "mq_step p p' \<Longrightarrow> \<exists>fs qs. mq_slots (fst p) fs (snd p) qs \<Longrightarrow> \<exists>fs qs. mq_slots (fst p') fs (snd p') qs"
proof (induction rule: mq_step.induct)
  case (send_begin mq m bs)
  then show ?case using slots_heads(1) slots_take_free by fastforce
next
  case (send_clear m bs mq)
  then show ?case using slots_busy_next by fastforce
next
  case (send_copy m buf sz mq mq' bs)
  then show ?case using slots_fill by fastforce
next
  case (send_end m bs mq)
  then obtain fs qs where sl: "mq_slots mq fs bs qs" by auto
  obtain mq' where "mq_append m mq = (True, mq')" "mq_slots mq' fs (bs - {m}) (qs @ [m])"
    using slots_append [OF sl send_end.hyps] by blast
  then show ?case by auto
next
  case (urgent_end m bs mq)
  then obtain fs qs where sl: "mq_slots mq fs bs qs" by auto
  obtain mq' where "mq_push m mq = (True, mq')" "mq_slots mq' fs (bs - {m}) (m # qs)"
    using slots_push [OF sl urgent_end.hyps] by blast
  then show ?case by auto
next
  case (recv_begin mq m bs)
  then show ?case using slots_heads(2) slots_unlink_head by fastforce
next
  case (recv_end m bs mq)
  then show ?case using slots_put_free by fastforce
qed

lemma mq_pieces_max:
  "max_msgs (mq_take_free m mq) = max_msgs mq" "max_msgs (mq_set_next m n mq) = max_msgs mq"
  "mq_fill m buf sz mq = Some mq' \<Longrightarrow> max_msgs mq' = max_msgs mq"
  "max_msgs (snd (mq_append m mq)) = max_msgs mq" "max_msgs (snd (mq_push m mq)) = max_msgs mq"
  "max_msgs (mq_unlink_head m mq) = max_msgs mq" "max_msgs (mq_count_down mq) = max_msgs mq"
  "max_msgs (mq_put_free m mq) = max_msgs mq"
  by (auto simp: mq_take_free_def mq_set_next_def mq_fill_def mq_append_def mq_push_def mq_unlink_head_def
      mq_count_down_def mq_put_free_def mq_count_up_def Let_def Option.bind_eq_Some_conv split: option.splits)


section \<open>Sending, receiving, resetting\<close>

text \<open>With a free slot, sending stores the message, zero-copied from nothing else, behind all others
  and wakes a waiting receiver, if any.\<close>

theorem mq_send_appends:
  assumes ty: "mq_typed i s" and sl: "mq_slots (mqs s i) (m # fs) bs qs"
    and sz: "sz \<noteq> 0" "sz \<le> ucast (mq_msg_size (mqs s i))" "unat sz \<le> length buf" "unat sz \<le> length (mq_data (mqs s i) m)"
  shows "\<exists>mq. mq_slots mq fs bs (qs @ [m]) \<and>
     mq_data mq = (mq_data (mqs s i))(m := take (unat sz) buf @ drop (unat sz) (mq_data (mqs s i) m)) \<and>
     rt_mq_send_wait i buf sz timeout s =
       Option.bind (wake_other_side (MqRecv i) (set_mq i mq s)) (\<lambda>s1. Some (Return RT_EOK, s1))"
proof -
  let ?mq = "mqs s i" and ?d = "take (unat sz) buf @ drop (unat sz) (mq_data (mqs s i) m)"
  have le: "(ucast (mq_msg_size ?mq) < sz) = False" using sz(2) by (simp add: not_less)
  have fr: "msg_queue_free ?mq = Some m" and mb: "m \<notin> bs" using sl unfolding mq_slots_def by auto
  have sl1: "mq_slots (mq_set_next m None (mq_take_free m ?mq)) fs (insert m bs) qs"
    using slots_busy_next [OF slots_take_free [OF sl]] by simp
  let ?mq2 = "(mq_set_next m None (mq_take_free m ?mq))\<lparr>mq_data := (mq_data ?mq)(m := ?d)\<rparr>"
  have f: "mq_fill m buf sz (mq_set_next m None (mq_take_free m ?mq)) = Some ?mq2"
    using sz by (simp add: mq_fill_def mq_set_next_def mq_take_free_def)
  have "mq_slots ?mq2 fs (insert m bs) qs" "mq_next ?mq2 m = None"
    using sl1 by (simp_all add: mq_set_next_def)
  then obtain mq where mq: "mq_append m ?mq2 = (True, mq)" "mq_slots mq fs (insert m bs - {m}) (qs @ [m])"
      "mq_data mq = mq_data ?mq2"
    using slots_append [of ?mq2 fs "insert m bs" qs m] by auto
  have "rt_mq_send_wait i buf sz timeout s =
       Option.bind (wake_other_side (MqRecv i) (set_mq i mq s)) (\<lambda>s1. Some (Return RT_EOK, s1))"
    using ty sz fr f mq(1)
    by (simp add: rt_mq_send_wait_def wait_loop.simps [of "mq_send_round i buf sz"] mq_send_round_def Let_def
        Option.bind_assoc mq_posted_def le)
  then show ?thesis using mq(2,3) mb by auto
qed

text \<open>An urgent message goes to the front.\<close>

theorem mq_urgent_first:
  assumes ty: "mq_typed i s" and sl: "mq_slots (mqs s i) (m # fs) bs qs"
    and sz: "sz \<noteq> 0" "sz \<le> ucast (mq_msg_size (mqs s i))" "unat sz \<le> length buf" "unat sz \<le> length (mq_data (mqs s i) m)"
  shows "\<exists>mq. mq_slots mq fs bs (m # qs) \<and>
     mq_data mq = (mq_data (mqs s i))(m := take (unat sz) buf @ drop (unat sz) (mq_data (mqs s i) m)) \<and>
     rt_mq_urgent i buf sz s =
       Option.bind (wake_other_side (MqRecv i) (set_mq i mq s)) (\<lambda>s1. Some (RT_EOK, s1))"
proof -
  let ?mq = "mqs s i" and ?d = "take (unat sz) buf @ drop (unat sz) (mq_data (mqs s i) m)"
  have le: "(ucast (mq_msg_size ?mq) < sz) = False" using sz(2) by (simp add: not_less)
  have fr: "msg_queue_free ?mq = Some m" and mb: "m \<notin> bs" using sl unfolding mq_slots_def by auto
  let ?mq2 = "(mq_take_free m ?mq)\<lparr>mq_data := (mq_data ?mq)(m := ?d)\<rparr>"
  have f: "mq_fill m buf sz (mq_take_free m ?mq) = Some ?mq2"
    using sz by (simp add: mq_fill_def mq_take_free_def)
  have "mq_slots ?mq2 fs (insert m bs) qs" using slots_take_free [OF sl] by simp
  then obtain mq where mq: "mq_push m ?mq2 = (True, mq)" "mq_slots mq fs (insert m bs - {m}) (m # qs)"
      "mq_data mq = mq_data ?mq2"
    using slots_push [of ?mq2 fs "insert m bs" qs m] by auto
  have "rt_mq_urgent i buf sz s =
       Option.bind (wake_other_side (MqRecv i) (set_mq i mq s)) (\<lambda>s1. Some (RT_EOK, s1))"
    using ty sz fr f mq(1) by (simp add: rt_mq_urgent_def Let_def mq_posted_def le)
  then show ?thesis using mq(2,3) mb by auto
qed

text \<open>Receiving copies the first message, as far as the buffer reaches, and frees its slot.\<close>

theorem mq_recv_first:
  assumes ty: "mq_typed i s" and sl: "mq_slots (mqs s i) fs bs (m # qs)" and sz: "sz \<noteq> 0"
    and n: "n = min (unat sz) (unat (mq_msg_size (mqs s i)))" "n \<le> length (mq_data (mqs s i) m)"
  shows "\<exists>mq. mq_slots mq (m # fs) bs qs \<and> mq_data mq = mq_data (mqs s i) \<and>
     rt_mq_recv i sz timeout s =
       Option.bind (wake_other_side (MqSend i) (set_mq i mq s))
         (\<lambda>s1. Some (Return (RT_EOK, take n (mq_data (mqs s i) m)), s1))"
proof -
  let ?mq = "mqs s i"
  let ?mq1 = "mq_count_down (mq_unlink_head m ?mq)"
  have h: "msg_queue_head ?mq = Some m" "mq_entry ?mq \<noteq> 0" and mb: "m \<notin> bs" using sl unfolding mq_slots_def by auto
  have sel: "mq_msg_size ?mq1 = mq_msg_size ?mq" "mq_data ?mq1 = mq_data ?mq"
    by (simp_all add: mq_count_down_def mq_unlink_head_def Let_def)
  have n': "n = (if sz > ucast (mq_msg_size ?mq) then unat (mq_msg_size ?mq) else unat sz)"
  proof -
    have "unat (mq_msg_size ?mq) < 2 ^ 16" using unsigned_less [of "mq_msg_size ?mq"] by simp
    then have "unat (ucast (mq_msg_size ?mq) :: u32) = unat (mq_msg_size ?mq)"
      by (simp add: unsigned_ucast_eq take_bit_nat_eq_self)
    then show ?thesis using n(1) by (simp add: word_less_nat_alt min_def)
  qed
  have "rt_mq_recv i sz timeout s =
       Option.bind (wake_other_side (MqSend i) (set_mq i (mq_put_free m ?mq1) s))
         (\<lambda>s1. Some (Return (RT_EOK, take n (mq_data ?mq m)), s1))"
    using ty sz h n(2) n'
    by (cases "sz > ucast (mq_msg_size ?mq)") (simp_all add: rt_mq_recv_def wait_loop.simps [of "mq_recv_round i sz"] mq_recv_round_def Let_def
        Option.bind_assoc sel)
  moreover have "mq_slots (mq_put_free m ?mq1) (m # fs) bs qs"
    using slots_put_free [OF slots_unlink_head [OF sl], of m] mb by simp
  ultimately show ?thesis using sel(2) by (intro exI [of _ "mq_put_free m ?mq1"]) (simp add: mq_put_free_def mq_set_next_def)
qed


lemma flush_slots:
  "mq_slots (mq\<lparr>mq_entry := e\<rparr>) fs bs qs \<Longrightarrow>
   \<exists>mq'. mq_flush mq = Some mq' \<and> mq_slots (mq'\<lparr>mq_entry := 0\<rparr>) (rev qs @ fs) bs []"
proof (induction qs arbitrary: mq e fs)
  case Nil
  then show ?case by (auto simp: mq_slots_def mq_flush.simps)
next
  case (Cons m qs)
  let ?mq0 = "mq\<lparr>mq_entry := e\<rparr>"
  have m: "m \<notin> bs" "msg_queue_head mq = Some m" "e \<noteq> 0" using Cons.prems unfolding mq_slots_def by auto
  have "mq_slots (mq_put_free m (mq_count_down (mq_unlink_head m ?mq0))) (m # fs) bs qs"
    using slots_put_free [OF slots_unlink_head [OF Cons.prems], of m] m(1) by simp
  moreover have "mq_put_free m (mq_count_down (mq_unlink_head m ?mq0)) =
      (mq_put_free m (mq_unlink_head m mq))\<lparr>mq_entry := e - 1\<rparr>"
    using m(3) by (cases mq) (simp add: mq_put_free_def mq_count_down_def mq_unlink_head_def mq_set_next_def Let_def word_gt_0)
  ultimately obtain mq' where "mq_flush (mq_put_free m (mq_unlink_head m mq)) = Some mq'"
      "mq_slots (mq'\<lparr>mq_entry := 0\<rparr>) (rev qs @ m # fs) bs []"
    using Cons.IH by metis
  then show ?case using m(2) by (subst mq_flush.simps) simp
qed

text \<open>Resetting ends, for a well-formed queue, and returns every queued slot to the free list.\<close>

theorem mq_reset_frees:
  assumes ty: "mq_typed i s" and sl: "mq_slots (mqs s i) fs bs qs"
    and w: "lists s (MqRecv i) = []" "lists s (MqSend i) = []"
  shows "\<exists>mq. mq_slots mq (rev qs @ fs) bs [] \<and>
     rt_mq_control i (RT_IPC_CMD_RESET v) s = Option.bind (rt_schedule (set_mq i mq s)) (\<lambda>s1. Some (RT_EOK, s1))"
proof -
  have "mqs s i = (mqs s i)\<lparr>mq_entry := mq_entry (mqs s i)\<rparr>" by simp
  then obtain mq where "mq_flush (mqs s i) = Some mq" "mq_slots (mq\<lparr>mq_entry := 0\<rparr>) (rev qs @ fs) bs []"
    using flush_slots sl by metis
  then show ?thesis using ty w
    by (intro exI [of _ "mq\<lparr>mq_entry := 0\<rparr>"]) (simp add: rt_mq_control_def rt_ipc_list_resume_all.simps)
qed

end
