(* ===== verification/Allocator.thy ===== *)
theory Allocator
  imports Prelude
begin

text \<open>
  The contract of an allocator, as the kernel's routines use the heap and the memory pools: a request
  is answered with a block that nobody holds or refused without any effect, and a block that is held
  can be given back.  The heap and the memory pools provide it; what follows for the clients that need
  two blocks, or run a sequence of requests, is proved here once.
\<close>

text \<open>A client that needs two blocks, such as a control block and its buffer: when the second request is
  refused it gives the first block back.\<close>

definition take_two :: "('n \<Rightarrow> 'h \<Rightarrow> ('b option \<times> 'h) option) \<Rightarrow> ('b \<Rightarrow> 'h \<Rightarrow> 'h option) \<Rightarrow> 'n \<Rightarrow> 'n \<Rightarrow> 'h \<Rightarrow>
    (('b \<times> 'b) option \<times> 'h) option" where
  "take_two get put n m h = do {
     (r, h) \<leftarrow> get n h;
     case r of
       None \<Rightarrow> Some (None, h)
     | Some a \<Rightarrow> do {
         (r, h) \<leftarrow> get m h;
         case r of
           None \<Rightarrow> do { h \<leftarrow> put a h; Some (None, h) }
         | Some b \<Rightarrow> Some (Some (a, b), h)
       }
   }"

text \<open>A sequence of requests and releases, with the blocks the clients hold.\<close>

inductive alloc_step :: "('n \<Rightarrow> 'h \<Rightarrow> ('b option \<times> 'h) option) \<Rightarrow> ('b \<Rightarrow> 'h \<Rightarrow> 'h option) \<Rightarrow>
    'h \<times> 'b set \<Rightarrow> 'h \<times> 'b set \<Rightarrow> bool" for get put where
  got: "get n h = Some (Some b, h') \<Longrightarrow> alloc_step get put (h, bs) (h', insert b bs)"
| refused: "get n h = Some (None, h') \<Longrightarrow> alloc_step get put (h, bs) (h', bs)"
| given: "b \<in> bs \<Longrightarrow> put b h = Some h' \<Longrightarrow> alloc_step get put (h, bs) (h', bs - {b})"

locale allocator =
  fixes ok :: "'h \<Rightarrow> bool" and held :: "'h \<Rightarrow> 'b set"
    and get :: "'n \<Rightarrow> 'h \<Rightarrow> ('b option \<times> 'h) option" and put :: "'b \<Rightarrow> 'h \<Rightarrow> 'h option"
  assumes get_returns: "ok h \<Longrightarrow> \<exists>r h'. get n h = Some (r, h')"
    and get_some: "ok h \<Longrightarrow> get n h = Some (Some b, h') \<Longrightarrow> ok h' \<and> b \<notin> held h \<and> held h' = insert b (held h)"
    and get_none: "ok h \<Longrightarrow> get n h = Some (None, h') \<Longrightarrow> h' = h"
    and put_held: "ok h \<Longrightarrow> b \<in> held h \<Longrightarrow> \<exists>h'. put b h = Some h' \<and> ok h' \<and> held h' = held h - {b}"
begin

lemma take_two_law:
  assumes ok: "ok h"
  obtains h' where "take_two get put n m h = Some (None, h')" "ok h'" "held h' = held h"
    | a b h' where "take_two get put n m h = Some (Some (a, b), h')" "ok h'" "a \<noteq> b" "a \<notin> held h" "b \<notin> held h"
      "held h' = insert a (insert b (held h))"
proof -
  obtain r h1 where g: "get n h = Some (r, h1)" using get_returns [OF ok] by blast
  show thesis
  proof (cases r)
    case None
    then show thesis using that(1) [of h] g get_none [OF ok] ok by (simp add: take_two_def)
  next
    case (Some a)
    then have h1: "ok h1" "a \<notin> held h" "held h1 = insert a (held h)" using get_some [OF ok] g by auto
    obtain r2 h2 where g2: "get m h1 = Some (r2, h2)" using get_returns [OF h1(1)] by blast
    show thesis
    proof (cases r2)
      case None
      then have "h2 = h1" using get_none [OF h1(1)] g2 by blast
      moreover obtain h3 where h3: "put a h1 = Some h3" "ok h3" "held h3 = held h1 - {a}"
        using put_held [OF h1(1), of a] h1(3) by auto
      ultimately show thesis using that(1) [of h3] g g2 None Some h1(2,3) by (simp add: take_two_def)
    next
      fix b assume b: "r2 = Some b"
      then have "ok h2" "b \<notin> held h1" "held h2 = insert b (held h1)" using get_some [OF h1(1)] g2 by auto
      then show thesis using that(2) [of a b h2] g g2 b Some h1 by (auto simp: take_two_def)
    qed
  qed
qed

lemma give_two:
  assumes ok: "ok h" and ab: "a \<in> held h" "b \<in> held h" "a \<noteq> b"
  shows "\<exists>h'. Option.bind (put b h) (put a) = Some h' \<and> ok h' \<and> held h' = held h - {a, b}"
proof -
  obtain h1 where h1: "put b h = Some h1" "ok h1" "held h1 = held h - {b}" using put_held [OF ok ab(2)] by blast
  then obtain h2 where h2: "put a h1 = Some h2" "ok h2" "held h2 = held h1 - {a}"
    using put_held [OF h1(2), of a] ab by auto
  then show ?thesis using h1 by auto
qed

lemma runs_agree:
  assumes "(alloc_step get put)\<^sup>*\<^sup>* (h0, held h0) (h, bs)" "ok h0"
  shows "ok h \<and> held h = bs"
  using assms
proof (induction rule: rtranclp_induct2)
  case refl
  then show ?case by simp
next
  case (step h1 bs1 h2 bs2)
  then have i: "ok h1" "held h1 = bs1" by simp_all
  from step.hyps(2) show ?case
  proof cases
    case (got n b)
    then show ?thesis using get_some [OF i(1)] i(2) by auto
  next
    case (refused n)
    then show ?thesis using get_none [OF i(1)] i by blast
  next
    case (given b)
    then show ?thesis using put_held [OF i(1), of b] i(2) by auto
  qed
qed

text \<open>Whatever was requested and given back before, a block that is handed out is in nobody's hands, and
  a block that somebody holds can be given back.\<close>

lemma runs_never_share:
  assumes run: "(alloc_step get put)\<^sup>*\<^sup>* (h0, held h0) (h, bs)" "ok h0"
  shows "get n h = Some (Some b, h') \<Longrightarrow> b \<notin> bs" "b \<in> bs \<Longrightarrow> \<exists>h'. put b h = Some h'"
  using runs_agree [OF run] get_some [of h n b h'] put_held [of h b] by auto

end

end
