(* ===== verification/MemPool.thy ===== *)
theory MemPool
  imports MsgQueue Allocator
begin

text \<open>
  The memory pools of \<open>src/src/mempool.c\<close>: blocks of one size, the free ones on a list that runs
  through their first words, with threads that wait for a block.  A block that is in use keeps the
  pool it came from in its first word; \<open>rt_mp_free\<close> finds the pool there.
\<close>

section \<open>Operations\<close>

definition set_mp :: "nat \<Rightarrow> rt_mempool \<Rightarrow> kstate \<Rightarrow> kstate" where
  "set_mp i mp s = s\<lparr>mps := (mps s)(i := mp)\<rparr>"

definition mp_typed :: "nat \<Rightarrow> kstate \<Rightarrow> bool" where
  "mp_typed i s \<longleftrightarrow> rt_object_get_type (MpObj i) s = RT_Object_Class_MemPool"

definition mp_write :: "nat \<Rightarrow> mp_word \<Rightarrow> rt_mempool \<Rightarrow> rt_mempool" where
  "mp_write b w mp = mp\<lparr>mp_word_at := (mp_word_at mp)(b := w)\<rparr>"

text \<open>The loop that links the blocks of a new pool.  The write that ends the list goes to the block
  before the first one when there is none.\<close>

fun mp_link :: "nat \<Rightarrow> rt_mempool \<Rightarrow> rt_mempool" where
  "mp_link 0 mp = mp"
| "mp_link (Suc offset) mp = mp_write offset (Next_block (Some (offset + 1))) (mp_link offset mp)"

definition mp_build :: "rt_mempool \<Rightarrow> rt_mempool option" where
  "mp_build mp =
     (let offset = unat (block_total_count mp); mp = mp_link offset mp in do {
      c_defined (0 < offset);
      Some ((mp_write (offset - 1) (Next_block None) mp)\<lparr>block_list := Some 0\<rparr>)
     })"

definition rt_mp_init :: "nat \<Rightarrow> u8 list \<Rightarrow> u32 \<Rightarrow> u32 \<Rightarrow> kstate \<Rightarrow> (rt_err_t \<times> kstate) option" where
  "rt_mp_init i name sz blk_sz s = do {
     rt_assert (sz > 0 \<and> blk_sz > 0);
     s \<leftarrow> rt_object_init (MpObj i) RT_Object_Class_MemPool name s;
     let mp = (mps s i)\<lparr>mp_size := sz AND NOT 3, block_size := rt_align4 blk_sz\<rparr>;
     c_defined (block_size mp + 4 \<noteq> 0);
     let mp = mp\<lparr>block_total_count := mp_size mp div (block_size mp + 4)\<rparr>;
     s \<leftarrow> rt_ipc_object_init (MpWait i) s;
     mp \<leftarrow> mp_build (mp\<lparr>block_free_count := block_total_count mp\<rparr>);
     Some (RT_EOK, set_mp i mp s)
   }"

definition rt_mp_detach :: "nat \<Rightarrow> kstate \<Rightarrow> (rt_err_t \<times> kstate) option" where
  "rt_mp_detach i s = do {
     rt_assert (mp_typed i s);
     rt_assert (rt_object_is_systemobject (MpObj i) s);
     s \<leftarrow> rt_ipc_list_resume_all (MpWait i) s;
     Some (RT_EOK, rt_object_detach (MpObj i) s)
   }"

text \<open>The memory of the blocks comes from \<open>rt_malloc\<close>, which is asked for the product of the block
  size and the count in 32 bits; the blocks must fit into what it returns.\<close>

definition rt_mp_create :: "nat option \<Rightarrow> (u32 \<Rightarrow> bool) \<Rightarrow> u8 list \<Rightarrow> u32 \<Rightarrow> u32 \<Rightarrow> kstate \<Rightarrow>
    (nat option \<times> kstate) option" where
  "rt_mp_create blk mem name block_count blk_sz s = do {
     not_in_interrupt s;
     rt_assert (block_count > 0 \<and> blk_sz > 0);
     (_, s) \<leftarrow> rt_object_allocate (map_option MpObj blk) RT_Object_Class_MemPool name s;
     case blk of
       None \<Rightarrow> Some (None, s)
     | Some i \<Rightarrow> do {
         let bs = rt_align4 blk_sz;
         let mp = (mps s i)\<lparr>block_size := bs, mp_size := (bs + 4) * block_count\<rparr>;
         if \<not> mem ((bs + 4) * block_count) then do {
           s \<leftarrow> rt_object_delete (MpObj i) (set_mp i mp s);
           Some (None, s)
         } else do {
           c_defined (unat (bs + 4) * unat block_count < 2 ^ 32);
           s \<leftarrow> rt_ipc_object_init (MpWait i) s;
           mp \<leftarrow> mp_build (mp\<lparr>block_total_count := block_count, block_free_count := block_count\<rparr>);
           Some (Some i, set_mp i mp s)
         }
       }
   }"

definition rt_mp_delete :: "nat \<Rightarrow> kstate \<Rightarrow> (rt_err_t \<times> kstate) option" where
  "rt_mp_delete i s = do {
     not_in_interrupt s;
     rt_assert (mp_typed i s);
     rt_assert (\<not> rt_object_is_systemobject (MpObj i) s);
     s \<leftarrow> rt_ipc_list_resume_all (MpWait i) s;
     s \<leftarrow> rt_object_delete (MpObj i) s;
     Some (RT_EOK, s)
   }"

text \<open>A thread that waits is put at the front of the list.\<close>

definition mp_wait :: "nat \<Rightarrow> tid \<Rightarrow> int \<Rightarrow> kstate \<Rightarrow> kstate option" where
  "mp_wait i t time s = do {
     (_, s) \<leftarrow> rt_thread_suspend t s;
     s \<leftarrow> link_thread_front (MpWait i) t s;
     arm_timer t time s
   }"

text \<open>Taking the first free block.\<close>

definition mp_take :: "nat \<Rightarrow> rt_mempool \<Rightarrow> (nat \<times> rt_mempool) option" where
  "mp_take i mp = do {
     let mp = mp\<lparr>block_free_count := block_free_count mp - 1\<rparr>;
     b \<leftarrow> block_list mp;
     case mp_word_at mp b of
       Next_block n \<Rightarrow> Some (b, mp_write b (Owned_by i) (mp\<lparr>block_list := n\<rparr>))
     | Owned_by _ \<Rightarrow> None
   }"

definition mp_alloc_round :: "nat \<Rightarrow> int \<Rightarrow> kstate \<Rightarrow> (nat option round \<times> kstate) option" where
  "mp_alloc_round i time s =
     (if block_free_count (mps s i) = 0 then
        (if time = 0 then Some (Done None, rt_set_errno (- RT_ETIMEOUT) s)
         else do {
           not_in_interrupt s;
           t \<leftarrow> rt_thread_self s;
           s \<leftarrow> mp_wait i t time (set_error t RT_EOK s);
           Some (Wait t (rt_tick_get s), s)
         })
      else do {
        (b, mp) \<leftarrow> mp_take i (mps s i);
        Some (Done (Some b), set_mp i mp s)
      })"

definition rt_mp_alloc :: "nat \<Rightarrow> int \<Rightarrow> kstate \<Rightarrow> ((int \<times> u32, nat option) outcome \<times> kstate) option" where
  "rt_mp_alloc i time s = wait_loop (mp_alloc_round i) (\<lambda>_. None) time s"

definition rt_mp_alloc_resumed :: "nat \<Rightarrow> tid \<Rightarrow> int \<times> u32 \<Rightarrow> kstate \<Rightarrow>
    ((int \<times> u32, nat option) outcome \<times> kstate) option" where
  "rt_mp_alloc_resumed i = wait_resumed (mp_alloc_round i) (\<lambda>_. None)"

text \<open>A block is the pool whose memory it lies in and its number.  The word before the block must be
  a pool; a block that is free already holds a link there.\<close>

definition mp_give :: "nat \<Rightarrow> rt_mempool \<Rightarrow> rt_mempool" where
  "mp_give b mp =
     (mp_write b (Next_block (block_list mp)) (mp\<lparr>block_free_count := block_free_count mp + 1\<rparr>))\<lparr>block_list := Some b\<rparr>"

definition rt_mp_free :: "(nat \<times> nat) option \<Rightarrow> kstate \<Rightarrow> kstate option" where
  "rt_mp_free block s =
     (case block of
        None \<Rightarrow> Some s
      | Some (i, b) \<Rightarrow> do {
          c_defined (mp_word_at (mps s i) b = Owned_by i);
          let s = set_mp i (mp_give b (mps s i)) s;
          if lists s (MpWait i) \<noteq> [] then do {
            let t = hd (lists s (MpWait i));
            s \<leftarrow> rt_ipc_list_resume (MpWait i) (set_error t RT_EOK s);
            rt_schedule s
          } else Some s
        })"

section \<open>The kernel invariant\<close>

lemma set_mp_sel [simp]:
  "threads (set_mp i v s) = threads s" "lists (set_mp i v s) = lists s" "objs (set_mp i v s) = objs s"
  "cur_thread (set_mp i v s) = cur_thread s" "interrupt_nest (set_mp i v s) = interrupt_nest s"
  "rt_tick (set_mp i v s) = rt_tick s" "timers (set_mp i v s) = timers s"
  "mps (set_mp i v s) = (mps s)(i := v)" "thread_typed (set_mp i v s) t = thread_typed s t"
  "stat_of (set_mp i v s) t = stat_of s t" "hard_timer (set_mp i v s) t = hard_timer s t"
  by (simp_all add: set_mp_def thread_typed_def rt_object_get_type_def stat_of_def hard_timer_def tm_flag_def)

lemma kernel_inv_set_mp [simp]: "kernel_inv (set_mp i v s) = kernel_inv s"
  by (simp add: set_mp_def)

lemma kernel_inv_set_errno [simp]: "kernel_inv (rt_set_errno e s) = kernel_inv s"
  by (simp add: rt_set_errno_def split: option.split)

lemma inv_mp_wait [inv_dest]:
  assumes "mp_wait i t time s = Some s'" "kernel_inv s"
  shows "kernel_inv s'"
proof -
  obtain r s1 s2 where s: "rt_thread_suspend t s = Some (r, s1)" "link_thread_at (MpWait i) 0 t s1 = Some s2"
      "arm_timer t time s2 = Some s'"
    using assms(1) by (auto simp: mp_wait_def link_thread_front_def Option.bind_eq_Some_conv)
  have "kernel_inv s1" by (rule inv_thread_suspend [OF s(1) assms(2)])
  then have "kernel_inv s2" using inv_link_waiting [OF s(2)] suspend_stat [OF s(1)] by blast
  then show ?thesis by (rule inv_arm_timer [OF s(3)])
qed

lemma inv_mp_alloc_round: "mp_alloc_round i time s = Some (r, s') \<Longrightarrow> kernel_inv s \<Longrightarrow> kernel_inv s'"
  unfolding mp_alloc_round_def
  by (auto simp: Option.bind_eq_Some_conv split: if_split_asm dest!: inv_mp_wait)

lemma inv_mp_alloc [inv_dest]:
  "rt_mp_alloc i time s = Some (r, s') \<Longrightarrow> kernel_inv s \<Longrightarrow> kernel_inv s'"
  "rt_mp_alloc_resumed i t loc s = Some (r, s') \<Longrightarrow> kernel_inv s \<Longrightarrow> kernel_inv s'"
  unfolding rt_mp_alloc_def rt_mp_alloc_resumed_def
  by (erule inv_wait_loop, assumption, erule (1) inv_mp_alloc_round)
    (erule inv_wait_resumed, assumption, erule (1) inv_mp_alloc_round)

lemma inv_mp_free [inv_dest]: "rt_mp_free x s = Some s' \<Longrightarrow> kernel_inv s \<Longrightarrow> kernel_inv s'"
  unfolding rt_mp_free_def
  by (auto simp: Option.bind_eq_Some_conv Let_def split: option.split_asm if_split_asm
      dest!: inv_list_resume inv_schedule)

lemma inv_mp_init [inv_dest]: "rt_mp_init i name sz bs s = Some (r, s') \<Longrightarrow> kernel_inv s \<Longrightarrow> kernel_inv s'"
  unfolding rt_mp_init_def rt_ipc_object_init_def
  by (auto simp: Option.bind_eq_Some_conv Let_def dest!: inv_object_init)

lemma inv_mp_detach [inv_dest]: "rt_mp_detach i s = Some (r, s') \<Longrightarrow> kernel_inv s \<Longrightarrow> kernel_inv s'"
  unfolding rt_mp_detach_def by (auto simp: Option.bind_eq_Some_conv dest!: inv_list_resume_all)

section \<open>Where the blocks are\<close>

text \<open>A pool whose blocks \<open>free\<close> are on the free list, in this order, and whose other blocks \<open>busy\<close>
  are in use.\<close>

definition mp_link_of :: "mp_word \<Rightarrow> nat option" where
  "mp_link_of w = (case w of Next_block n \<Rightarrow> n | Owned_by _ \<Rightarrow> None)"

definition mp_ok :: "nat \<Rightarrow> rt_mempool \<Rightarrow> nat list \<Rightarrow> nat set \<Rightarrow> bool" where
  "mp_ok i mp free busy \<longleftrightarrow>
     chain (\<lambda>b. mp_link_of (mp_word_at mp b)) (block_list mp) free \<and>
     (\<forall>b \<in> set free. \<exists>n. mp_word_at mp b = Next_block n) \<and> (\<forall>b \<in> busy. mp_word_at mp b = Owned_by i) \<and>
     distinct free \<and> busy \<inter> set free = {} \<and> set free \<union> busy = {..<unat (block_total_count mp)} \<and>
     unat (block_free_count mp) = length free"

lemma mp_link_sel:
  "block_list (mp_link n mp) = block_list mp" "block_total_count (mp_link n mp) = block_total_count mp"
  "block_free_count (mp_link n mp) = block_free_count mp"
  "mp_word_at (mp_link n mp) b = (if b < n then Next_block (Some (b + 1)) else mp_word_at mp b)"
  by (induction n) (auto simp: mp_write_def)

lemma chain_upt:
  "k < n \<Longrightarrow> chain (\<lambda>b. if b = n - 1 then None else Some (b + 1)) (Some k) [k..<n]"
proof (induction "n - k" arbitrary: k)
  case (Suc d)
  then show ?case by (cases "k = n - 1") (auto simp: upt_conv_Cons)
qed simp

lemma mp_build_ok:
  assumes "0 < unat (block_total_count mp)" "block_free_count mp = block_total_count mp"
  obtains mp' where "mp_build mp = Some mp'" "mp_ok i mp' [0..<unat (block_total_count mp)] {}"
    "block_total_count mp' = block_total_count mp"
proof -
  let ?n = "unat (block_total_count mp)"
  let ?mp = "(mp_write (?n - 1) (Next_block None) (mp_link ?n mp))\<lparr>block_list := Some 0\<rparr>"
  have w: "mp_word_at ?mp b = Next_block (if b = ?n - 1 then None else Some (b + 1))" if "b < ?n" for b
    using that by (simp add: mp_write_def mp_link_sel)
  have "chain (\<lambda>b. mp_link_of (mp_word_at ?mp b)) (Some 0) [0..<?n] =
      chain (\<lambda>b. if b = ?n - 1 then None else Some (b + 1)) (Some 0) [0..<?n]"
    using w by (intro chain_cong) (simp add: mp_link_of_def)
  then have "mp_ok i ?mp [0..<?n] {}"
    using chain_upt [OF assms(1)] w assms(2) by (auto simp: mp_ok_def mp_link_sel mp_write_def)
  moreover have "mp_build mp = Some ?mp" using assms(1) by (simp add: mp_build_def Let_def)
  ultimately show thesis using that by (simp add: mp_link_sel mp_write_def)
qed

lemma mp_take_ok:
  assumes "mp_ok i mp (b # fs) bs"
  obtains mp' where "mp_take i mp = Some (b, mp')" "mp_ok i mp' fs (insert b bs)"
    "block_total_count mp' = block_total_count mp"
proof -
  obtain n where b: "block_list mp = Some b" "mp_word_at mp b = Next_block n"
      "chain (\<lambda>b. mp_link_of (mp_word_at mp b)) n fs"
    using assms by (auto simp: mp_ok_def mp_link_of_def)
  have nb: "b \<notin> set fs" "b \<notin> bs" "unat (block_free_count mp) = Suc (length fs)"
    using assms unfolding mp_ok_def by auto
  have c: "unat (block_free_count mp - 1) = length fs"
    using unat_minus_one [of "block_free_count mp"] nb(3) by fastforce
  let ?mp = "mp_write b (Owned_by i) (mp\<lparr>block_free_count := block_free_count mp - 1, block_list := n\<rparr>)"
  have "chain (\<lambda>x. mp_link_of (mp_word_at ?mp x)) n fs = chain (\<lambda>b. mp_link_of (mp_word_at mp b)) n fs"
    by (rule chain_cong) (use nb(1) in \<open>auto simp: mp_write_def\<close>)
  then have "chain (\<lambda>x. mp_link_of (mp_word_at ?mp x)) n fs" using b(3) by simp
  moreover have "set fs \<union> insert b bs = {..<unat (block_total_count mp)}"
    using assms unfolding mp_ok_def by auto
  ultimately have "mp_ok i ?mp fs (insert b bs)"
    using assms nb c by (auto simp: mp_ok_def mp_write_def)
  moreover have "mp_take i mp = Some (b, ?mp)" using b by (simp add: mp_take_def Let_def)
  ultimately show thesis using that by (simp add: mp_write_def)
qed

lemma mp_give_ok:
  assumes "mp_ok i mp fs bs" "b \<in> bs"
  shows "mp_ok i (mp_give b mp) (b # fs) (bs - {b})" "block_total_count (mp_give b mp) = block_total_count mp"
proof -
  have nb: "b \<notin> set fs" using assms unfolding mp_ok_def by auto
  have un: "set (b # fs) \<union> (bs - {b}) = {..<unat (block_total_count mp)}"
    using assms unfolding mp_ok_def by auto
  then have "length (b # fs) \<le> unat (block_total_count mp)"
    using assms nb distinct_card [of "b # fs"] card_mono [of "{..<unat (block_total_count mp)}" "set (b # fs)"]
    by (auto simp: mp_ok_def)
  moreover have "unat (block_total_count mp) < 2 ^ 32" using unsigned_less [of "block_total_count mp"] by simp
  ultimately have "unat (block_free_count mp) + 1 < 2 ^ 32" using assms by (simp add: mp_ok_def)
  then have c: "unat (block_free_count mp + 1) = Suc (length fs)"
    using assms by (simp add: mp_ok_def unat_word_ariths)
  have "chain (\<lambda>x. mp_link_of (mp_word_at (mp_give b mp) x)) (block_list mp) fs =
      chain (\<lambda>b. mp_link_of (mp_word_at mp b)) (block_list mp) fs"
    by (rule chain_cong) (use nb in \<open>auto simp: mp_give_def mp_write_def\<close>)
  then show "mp_ok i (mp_give b mp) (b # fs) (bs - {b})"
    using assms nb c un by (auto simp: mp_ok_def mp_give_def mp_write_def mp_link_of_def)
  show "block_total_count (mp_give b mp) = block_total_count mp" by (simp add: mp_give_def mp_write_def)
qed

section \<open>A pool as an allocator\<close>

text \<open>The blocks in use are those that hold the pool in their first word.\<close>

definition mp_held :: "nat \<Rightarrow> rt_mempool \<Rightarrow> nat set" where
  "mp_held i mp = {b. b < unat (block_total_count mp) \<and> mp_word_at mp b = Owned_by i}"

definition mp_sound :: "nat \<Rightarrow> u32 \<Rightarrow> rt_mempool \<Rightarrow> bool" where
  "mp_sound i n mp \<longleftrightarrow> block_total_count mp = n \<and> (\<exists>fs. mp_ok i mp fs (mp_held i mp))"

definition mp_get :: "nat \<Rightarrow> unit \<Rightarrow> rt_mempool \<Rightarrow> (nat option \<times> rt_mempool) option" where
  "mp_get i _ mp =
     (if block_free_count mp = 0 then Some (None, mp) else map_option (\<lambda>(b, mp). (Some b, mp)) (mp_take i mp))"

definition mp_put :: "nat \<Rightarrow> nat \<Rightarrow> rt_mempool \<Rightarrow> rt_mempool option" where
  "mp_put i b mp = (if mp_word_at mp b = Owned_by i then Some (mp_give b mp) else None)"

lemma mp_ok_held: "mp_ok i mp fs bs \<Longrightarrow> mp_held i mp = bs"
proof -
  assume ok: "mp_ok i mp fs bs"
  have "mp_word_at mp b \<noteq> Owned_by i" if "b \<in> set fs" for b using ok that unfolding mp_ok_def by fastforce
  moreover have "mp_word_at mp b = Owned_by i" if "b \<in> bs" for b using ok that unfolding mp_ok_def by blast
  moreover have "set fs \<union> bs = {..<unat (block_total_count mp)}" using ok unfolding mp_ok_def by blast
  ultimately show ?thesis unfolding mp_held_def by blast
qed

lemma mp_soundI: "mp_ok i mp fs bs \<Longrightarrow> mp_sound i (block_total_count mp) mp"
  using mp_ok_held by (auto simp: mp_sound_def)

lemma mp_get_sound:
  assumes "mp_sound i n mp" "block_free_count mp \<noteq> 0"
  obtains b mp' where "mp_get i u mp = Some (Some b, mp')" "mp_sound i n mp'" "b \<notin> mp_held i mp"
    "mp_held i mp' = insert b (mp_held i mp)"
proof -
  obtain fs where ok: "mp_ok i mp fs (mp_held i mp)" and n: "block_total_count mp = n"
    using assms(1) by (auto simp: mp_sound_def)
  then obtain b gs where fs: "fs = b # gs" using assms(2) by (cases fs) (auto simp: mp_ok_def unat_eq_0)
  obtain mp' where mp': "mp_take i mp = Some (b, mp')" "mp_ok i mp' gs (insert b (mp_held i mp))"
      "block_total_count mp' = block_total_count mp"
    by (rule mp_take_ok [OF ok [unfolded fs]])
  show thesis
  proof (rule that)
    show "mp_get i u mp = Some (Some b, mp')" using assms(2) mp'(1) by (simp add: mp_get_def)
    show "mp_sound i n mp'" using mp_soundI [OF mp'(2)] mp'(3) n by simp
    show "b \<notin> mp_held i mp" using ok fs by (auto simp: mp_ok_def)
    show "mp_held i mp' = insert b (mp_held i mp)" by (rule mp_ok_held [OF mp'(2)])
  qed
qed

interpretation mp_alloc: allocator "mp_sound i n" "mp_held i" "mp_get i" "mp_put i" for i n
proof unfold_locales
  fix mp u
  assume "mp_sound i n mp"
  then show "\<exists>r mp'. mp_get i u mp = Some (r, mp')"
    by (cases "block_free_count mp = 0") (auto simp: mp_get_def elim!: mp_get_sound [of i n mp])
next
  fix mp u b mp'
  assume s: "mp_sound i n mp" and g: "mp_get i u mp = Some (Some b, mp')"
  then have "block_free_count mp \<noteq> 0" by (auto simp: mp_get_def)
  from s this show "mp_sound i n mp' \<and> b \<notin> mp_held i mp \<and> mp_held i mp' = insert b (mp_held i mp)"
    by (rule mp_get_sound [where u = u]) (use g in simp)
next
  fix mp u mp'
  assume "mp_sound i n mp" "mp_get i u mp = Some (None, mp')"
  then show "mp' = mp" by (auto simp: mp_get_def split: if_split_asm)
next
  fix mp b
  assume s: "mp_sound i n mp" and b: "b \<in> mp_held i mp"
  then obtain fs where ok: "mp_ok i mp fs (mp_held i mp)" by (auto simp: mp_sound_def)
  note g = mp_give_ok [OF ok b]
  have "mp_sound i n (mp_give b mp)" using mp_soundI [OF g(1)] g(2) s by (simp add: mp_sound_def)
  then show "\<exists>mp'. mp_put i b mp = Some mp' \<and> mp_sound i n mp' \<and> mp_held i mp' = mp_held i mp - {b}"
    using b mp_ok_held [OF g(1)] by (auto simp: mp_put_def mp_held_def)
qed

text \<open>C25. Whatever is allocated and released, in whatever order: each block of a new pool is either free or
  in the hands of one caller, none is lost, and exactly the blocks in use are accepted by
  \<open>rt_mp_free\<close>, so no block is released twice.\<close>

theorem mp_blocks_conserved:
  assumes new: "mp_build mp0 = Some mp1" "block_free_count mp0 = block_total_count mp0"
    and run: "(alloc_step (mp_get i) (mp_put i))\<^sup>*\<^sup>* (mp1, {}) (mp, bs)"
  shows "\<exists>fs. mp_ok i mp fs bs \<and> length fs + card bs = unat (block_total_count mp0) \<and> mp_held i mp = bs"
proof -
  let ?n = "block_total_count mp0"
  have n: "0 < unat ?n" using new(1) by (auto simp: mp_build_def Let_def Option.bind_eq_Some_conv)
  obtain mp2 where "mp_build mp0 = Some mp2" "mp_ok i mp2 [0..<unat ?n] {}" "block_total_count mp2 = ?n"
    by (rule mp_build_ok [OF n new(2)])
  then have "mp_ok i mp1 [0..<unat ?n] {}" "block_total_count mp1 = ?n" using new(1) by simp_all
  then have "mp_sound i ?n mp1" "mp_held i mp1 = {}" using mp_soundI mp_ok_held by metis+
  with mp_alloc.runs_agree [of i mp1 mp bs ?n] run have s: "mp_sound i ?n mp" "mp_held i mp = bs" by auto
  then obtain fs where ok: "mp_ok i mp fs bs" and t: "block_total_count mp = ?n" by (auto simp: mp_sound_def)
  have un: "set fs \<union> bs = {..<unat ?n}" "bs \<inter> set fs = {}" "distinct fs" using ok t unfolding mp_ok_def by auto
  have "finite bs" using un(1) finite_subset [of bs "{..<unat ?n}"] by auto
  then have "card (set fs \<union> bs) = length fs + card bs"
    using card_Un_disjoint [of "set fs" bs] un(2) distinct_card [OF un(3)] by (simp add: Int_commute)
  then show ?thesis using ok s(2) un(1) by auto
qed

section \<open>Allocating, waiting, releasing\<close>

text \<open>With a free block, \<open>rt_mp_alloc\<close> returns the first one at once.\<close>

lemma mp_alloc_first:
  assumes ok: "mp_ok i (mps s i) (b # fs) bs"
  shows "\<exists>mp. rt_mp_alloc i time s = Some (Return (Some b), set_mp i mp s) \<and> mp_ok i mp fs (insert b bs) \<and> b \<notin> bs"
proof -
  obtain mp where mp: "mp_take i (mps s i) = Some (b, mp)" "mp_ok i mp fs (insert b bs)"
    by (rule mp_take_ok [OF ok])
  have "block_free_count (mps s i) \<noteq> 0" "b \<notin> bs" using ok by (auto simp: mp_ok_def)
  then show ?thesis using mp
    by (intro exI [of _ mp]) (simp add: rt_mp_alloc_def wait_loop.simps [of "mp_alloc_round i"] mp_alloc_round_def)
qed

lemma suspend_flag1:
  "rt_thread_suspend t s = Some (r, s') \<Longrightarrow> tm_flag s' x AND 4 = 0 \<longleftrightarrow> tm_flag s x AND 4 = 0"
  unfolding rt_thread_suspend_def
  by (auto simp: Option.bind_eq_Some_conv Let_def tm_flag_def [symmetric]
      dest!: stop_flag [where x = x] remove_sel(2) split: if_splits)
    (auto simp: tm_flag_def)

text \<open>Without one it fails at once or waits.  A thread that waits goes in front of those that wait
  already, whatever their priorities are.\<close>

theorem mp_alloc_waits_in_front:
  assumes inv: "kernel_inv s" and empty: "mp_ok i (mps s i) [] bs" and cur: "cur_thread s = Some t" "interrupt_nest s = 0"
    and t: "thread_typed s t" "stat_of s t = RT_THREAD_READY" "hard_timer s t" and time: "time \<noteq> 0" "time < 2 ^ 31 - 1"
  shows "\<exists>s1. kernel_inv s1 \<and> lists s1 (MpWait i) = t # lists s (MpWait i) \<and> stat_of s1 t = RT_THREAD_SUSPEND \<and>
     mps s1 = mps s \<and>
     (time > 0 \<longrightarrow> timeout_tick (timers s1 (ThreadTimer t)) = rt_tick s + word_of_int time) \<and>
     rt_mp_alloc i time s = Option.bind (rt_schedule s1) (\<lambda>s2.
       if cur_thread s2 = Some t then rt_mp_alloc_resumed i t (time, rt_tick_get s1) s2
       else Some (Blocked (time, rt_tick_get s1), s2))"
proof -
  let ?s0 = "set_error t RT_EOK s"
  have i0: "kernel_inv ?s0" "thread_typed ?s0 t" "stat_of ?s0 t = RT_THREAD_READY" using inv t by simp_all
  obtain s1 where s1: "rt_thread_suspend t ?s0 = Some (RT_EOK, s1)" "kernel_inv s1" "same_ipc ?s0 s1"
    "threads s1 = (threads ?s0)(t := (threads ?s0 t)\<lparr>stat := with_stat RT_THREAD_SUSPEND (stat (threads ?s0 t)),
       t_link := None\<rparr>)"
    "lists s1 = (\<lambda>l. remove1 t (lists ?s0 l))"
    by (rule suspend_effect [OF i0]) (rule that)
  let ?l = "MpWait i"
  let ?s2 = "upd_thread t (\<lambda>th. th\<lparr>t_link := Some ?l\<rparr>) (s1\<lparr>lists := (lists s1)(?l := t # lists s1 ?l)\<rparr>)"
  have link: "link_thread_front ?l t s1 = Some ?s2"
    using s1(4) by (simp add: link_thread_front_def link_thread_at_eq insert_at_def)
  have same2: "same_ipc ?s0 ?s2" using s1(3) by simp
  have i2: "kernel_inv ?s2"
    using inv_link_waiting [OF link [unfolded link_thread_front_def] s1(2)] suspend_stat [OF s1(1)] by simp
  have ty2: "rt_object_get_type (TimerObj (ThreadTimer t)) ?s2 = RT_Object_Class_Timer"
    using thread_typed_same [OF same2, of t] i0(2) unfolding thread_typed_def by blast
  have fl: "tm_flag ?s2 (ThreadTimer t) AND RT_TIMER_FLAG_SOFT_TIMER = 0"
    using t(3) suspend_flag1 [OF s1(1)] by (simp add: hard_timer_def tm_flag_def)
  obtain s3 where s3: "arm_timer t time ?s2 = Some s3" "same_ipc ?s2 s3" "threads s3 = threads ?s2"
    "lists s3 = lists ?s2" "cur_thread s3 = cur_thread ?s2"
    "time > 0 \<Longrightarrow> timeout_tick (timers s3 (ThreadTimer t)) = rt_tick ?s2 + word_of_int time \<and>
       tm_link (timers s3 (ThreadTimer t)) = Some TimerList"
    by (rule arm_timer_effect [OF ty2 fl time(2)]) (rule that)
  have i3: "kernel_inv s3" by (rule inv_arm_timer [OF s3(1) i2])
  have same: "same_ipc ?s0 s3" by (rule same_ipc_trans [OF same2 s3(2)])
  have nt: "t \<notin> set (lists s ?l)"
    using sched_invD [OF kernel_invD(1) [OF inv]] t(2) unfolding links_ok_def ready_here_def by (metis lid.distinct)
  have w: "mp_wait i t time ?s0 = Some s3" using s1(1) link s3(1) by (simp add: mp_wait_def)
  have "block_free_count (mps s i) = 0" using empty by (simp add: mp_ok_def unat_eq_0)
  then have "rt_mp_alloc i time s = Option.bind (rt_schedule s3) (\<lambda>s2.
       if cur_thread s2 = Some t then rt_mp_alloc_resumed i t (time, rt_tick_get s3) s2
       else Some (Blocked (time, rt_tick_get s3), s2))"
    using cur time(1) w
    by (simp add: rt_mp_alloc_def rt_mp_alloc_resumed_def wait_loop.simps [of "mp_alloc_round i"] mp_alloc_round_def
        not_in_interrupt_def rt_thread_self_def wait_resumed_def cong: if_cong)
  moreover have "lists s3 ?l = t # lists s ?l" using s3(4) s1(5) nt by (simp add: remove1_idem)
  moreover have "stat_of s3 t = RT_THREAD_SUSPEND" using s3(3) s1(4) by (simp add: stat_of_def)
  moreover have "mps s3 = mps s" "rt_tick ?s2 = rt_tick s" using same same2 by (simp_all add: same_ipc_def)
  ultimately show ?thesis using i3 s3(6) by (intro exI [of _ s3]) (simp split del: if_split)
qed

text \<open>A release puts the block at the front of the free list.  With threads waiting, the first of them
  becomes ready as well, and when it runs it finds the block, unless another thread was quicker.\<close>

theorem mp_free_wakes:
  assumes inv: "kernel_inv s" and ok: "mp_ok i (mps s i) fs bs" and b: "b \<in> bs" and w: "lists s (MpWait i) = t # ts"
    and t: "thread_typed s t" "stat_of s t = RT_THREAD_SUSPEND"
  shows "\<exists>s1. rt_mp_free (Some (i, b)) s = rt_schedule s1 \<and> kernel_inv s1 \<and> mp_ok i (mps s1 i) (b # fs) (bs - {b}) \<and>
     lists s1 (MpWait i) = ts \<and> stat_of s1 t = RT_THREAD_READY \<and> thread_error (threads s1 t) = RT_EOK \<and>
     (\<forall>loc s2. threads s2 t = threads s1 t \<longrightarrow> mps s2 = mps s1 \<longrightarrow>
        (\<exists>s3. rt_mp_alloc_resumed i t loc s2 = Some (Return (Some b), s3)))"
proof -
  let ?s0 = "set_error t RT_EOK (set_mp i (mp_give b (mps s i)) s)"
  have i0: "kernel_inv ?s0" "thread_typed ?s0 t" "stat_of ?s0 t = RT_THREAD_SUSPEND" using inv t by simp_all
  obtain s1 where s1: "rt_thread_resume t ?s0 = Some (RT_EOK, s1)" "kernel_inv s1" "same_ipc ?s0 s1"
    "cur_thread s1 = cur_thread ?s0"
    "threads s1 = (threads ?s0)(t := (threads ?s0 t)\<lparr>stat := with_stat RT_THREAD_READY (stat (threads ?s0 t)),
       t_link := Some (ReadyQ (unat (current_priority (threads ?s0 t))))\<rparr>)"
    "\<And>l. lists s1 l = (if l = ReadyQ (unat (current_priority (threads ?s0 t)))
                        then lists ?s0 l @ [t] else remove1 t (lists ?s0 l))"
    by (rule resume_effect [OF i0]) (rule that)
  have m: "mps s1 i = mp_give b (mps s i)" using s1(3) by (simp add: same_ipc_def)
  have ok1: "mp_ok i (mps s1 i) (b # fs) (bs - {b})" unfolding m by (rule mp_give_ok(1) [OF ok b])
  have owned: "mp_word_at (mps s i) b = Owned_by i" using ok b unfolding mp_ok_def by blast
  have e: "thread_error (threads s1 t) = RT_EOK" using s1(5) by simp
  have "\<exists>s3. rt_mp_alloc_resumed i t loc s2 = Some (Return (Some b), s3)"
    if "threads s2 t = threads s1 t" "mps s2 = mps s1" for loc s2
    using mp_alloc_first [of i s2 b fs "bs - {b}"] ok1 that e
    by (simp add: rt_mp_alloc_resumed_def wait_resumed_def rt_mp_alloc_def) blast
  moreover have "rt_mp_free (Some (i, b)) s = rt_schedule s1"
    using owned w s1(1) by (simp add: rt_mp_free_def rt_ipc_list_resume_def)
  moreover have "lists s1 (MpWait i) = ts" using w by (simp add: s1(6))
  moreover have "stat_of s1 t = RT_THREAD_READY" using s1(5) by (simp add: stat_of_def)
  ultimately show ?thesis using s1(2) ok1 e by (intro exI [of _ s1]) simp
qed

text \<open>\<open>rt_mp_init\<close> cuts the memory into as many blocks as fit, all of them free.\<close>

theorem mp_init_ok:
  assumes ob: "rt_object_init (MpObj i) RT_Object_Class_MemPool name s = Some s0" "lists s0 (MpWait i) = []"
    and sz: "0 < bs" "rt_align4 bs + 4 \<noteq> 0" "rt_align4 bs + 4 \<le> sz AND NOT 3"
  shows "\<exists>s'. rt_mp_init i name sz bs s = Some (RT_EOK, s') \<and> lists s' = lists s0 \<and>
     (let n = unat (block_total_count (mps s' i)) in
        mp_ok i (mps s' i) [0..<n] {} \<and> n * unat (rt_align4 bs + 4) \<le> unat sz)"
proof -
  let ?k = "rt_align4 bs + 4" and ?m = "sz AND NOT 3"
  have pos: "0 < unat ?k" using sz(2) by (simp add: unat_gt_0)
  have ge: "unat ?k \<le> unat ?m" using sz(3) by (simp add: word_le_nat_alt)
  have u: "unat (?m div ?k) = unat ?m div unat ?k" by (simp add: unat_div)
  have n: "0 < unat (?m div ?k)" unfolding u using pos ge by (simp add: div_greater_zero_iff)
  have "unat ?m \<le> unat sz" using word_and_le2 [of sz "NOT 3"] unfolding word_le_nat_alt .
  then have le: "unat (?m div ?k) * unat ?k \<le> unat sz"
    unfolding u by (rule le_trans [OF div_times_less_eq_dividend])
  have z: "0 < sz" using sz(2,3) by (metis and_zero_eq bit.conj_zero_left word_gt_0 word_le_0_iff)
  let ?mp = "(mps s0 i)\<lparr>mp_size := ?m, block_size := rt_align4 bs, block_total_count := ?m div ?k, block_free_count := ?m div ?k\<rparr>"
  obtain mp where mp: "mp_build ?mp = Some mp" "mp_ok i mp [0..<unat (block_total_count ?mp)] {}"
      "block_total_count mp = block_total_count ?mp"
    by (rule mp_build_ok [of ?mp i]) (use n in simp_all)
  have "rt_mp_init i name sz bs s = Some (RT_EOK, set_mp i mp s0)"
    using ob sz(1,2) z mp(1) by (simp add: rt_mp_init_def Let_def rt_ipc_object_init_def)
  then show ?thesis using mp(2,3) le by simp
qed

text \<open>\<open>rt_mp_init\<close> does not check that the memory holds a block: the end of the free list is then
  written in front of the memory.\<close>

theorem mp_init_too_small:
  assumes sz: "sz AND NOT 3 < rt_align4 bs + 4"
  shows "rt_mp_init i name sz bs s = None"
proof -
  have "(sz AND NOT 3) div (rt_align4 bs + 4) = 0" using sz by (simp add: word_less_nat_alt word_unat_eq_iff unat_div)
  then show ?thesis
    by (simp add: rt_mp_init_def mp_build_def Let_def Option.bind_eq_None_conv rt_ipc_object_init_def)
qed

end
