(* ===== verification/Idle.thy ===== *)
theory Idle
  imports KInv
begin

text \<open>
  The idle thread of \<open>src/src/idle.c\<close>: it runs when nothing else can, calls the idle hooks, and gives
  the memory of the threads that have ended back to the heap.  A thread that ends cannot do this
  itself, it still runs on its stack; it is put on the queue \<open>Defunct\<close> (\<open>rt_thread_exit\<close>).

  The heap is a parameter here: a state and the operation that frees an address in it.  The control
  block of a thread from the heap is numbered by its address.
\<close>

section \<open>Hooks\<close>

text \<open>The table has \<open>RT_IDLE_HOOK_LIST_SIZE\<close> entries, null pointers or functions (here numbers).\<close>

type_synonym idle_hooks = "nat option list"

fun replace_first :: "nat option \<Rightarrow> nat option \<Rightarrow> idle_hooks \<Rightarrow> idle_hooks option" where
  "replace_first old new [] = None"
| "replace_first old new (h # hs) = (if h = old then Some (new # hs) else map_option ((#) h) (replace_first old new hs))"

definition rt_thread_idle_sethook :: "nat option \<Rightarrow> idle_hooks \<Rightarrow> rt_err_t \<times> idle_hooks" where
  "rt_thread_idle_sethook hook hs =
     (case replace_first None hook hs of None \<Rightarrow> (- RT_EFULL, hs) | Some hs' \<Rightarrow> (RT_EOK, hs'))"

definition rt_thread_idle_delhook :: "nat option \<Rightarrow> idle_hooks \<Rightarrow> rt_err_t \<times> idle_hooks" where
  "rt_thread_idle_delhook hook hs =
     (case replace_first hook None hs of None \<Rightarrow> (- RT_ENOSYS, hs) | Some hs' \<Rightarrow> (RT_EOK, hs'))"

section \<open>Reclaiming the threads that have ended\<close>

definition has_defunct_thread :: "kstate \<Rightarrow> bool" where
  "has_defunct_thread s \<longleftrightarrow> lists s Defunct \<noteq> []"

text \<open>What one round of the loop does to the kernel state.\<close>

definition reclaim_thread :: "tid \<Rightarrow> kstate \<Rightarrow> kstate option" where
  "reclaim_thread t s = rt_object_delete (ThreadObj t) (unlink_thread t s)"

partial_function (option) rt_thread_idle_excute ::
  "(u32 \<Rightarrow> 'h \<Rightarrow> 'h option) \<Rightarrow> 'h \<Rightarrow> kstate \<Rightarrow> ('h \<times> kstate) option" where
  "rt_thread_idle_excute free h s =
     Option.bind (rt_assert (interrupt_nest s = 0)) (\<lambda>_.
     if \<not> has_defunct_thread s then Some (h, s)
     else Option.bind (free (stack_addr (threads s (hd (lists s Defunct)))) h) (\<lambda>h.
          Option.bind (reclaim_thread (hd (lists s Defunct)) s) (\<lambda>s'.
          Option.bind (free (of_nat (hd (lists s Defunct))) h) (\<lambda>h.
          rt_thread_idle_excute free h s'))))"

text \<open>One round of the endless loop of the thread; \<open>call\<close> runs a hook.\<close>

definition rt_thread_idle_entry ::
  "(nat \<Rightarrow> 'h \<times> kstate \<Rightarrow> ('h \<times> kstate) option) \<Rightarrow> (u32 \<Rightarrow> 'h \<Rightarrow> 'h option) \<Rightarrow> idle_hooks \<Rightarrow>
     'h \<times> kstate \<Rightarrow> ('h \<times> kstate) option" where
  "rt_thread_idle_entry call free hooks st = do {
     (h, s) \<leftarrow> fold (\<lambda>hook r. case hook of None \<Rightarrow> r | Some f \<Rightarrow> Option.bind r (call f)) hooks (Some st);
     rt_thread_idle_excute free h s
   }"

text \<open>The static control block and stack of the thread; the entry function is a number.\<close>

definition idle :: tid where
  "idle = 5"

definition rt_thread_idle_init :: "nat \<Rightarrow> u32 \<Rightarrow> kstate \<Rightarrow> kstate option" where
  "rt_thread_idle_init entry rt_thread_stack s = do {
     (_, s) \<leftarrow> rt_thread_init idle [116, 105, 100, 108, 101, 0] entry 0 rt_thread_stack 1024 (32 - 1) 32 s;
     (_, s) \<leftarrow> rt_thread_startup idle s;
     Some s
   }"

definition rt_thread_idle_gethandler :: tid where
  "rt_thread_idle_gethandler = idle"

section \<open>Hooks that are set are called\<close>

lemma replace_first_split:
  "replace_first old new hs = Some hs' \<Longrightarrow> \<exists>xs ys. hs = xs @ old # ys \<and> old \<notin> set xs \<and> hs' = xs @ new # ys"
proof (induction hs arbitrary: hs')
  case (Cons h hs)
  show ?case
  proof (cases "h = old")
    case True
    then show ?thesis using Cons.prems by (intro exI [of _ "[]"] exI [of _ hs]) simp
  next
    case False
    then obtain hs1 where "replace_first old new hs = Some hs1" "hs' = h # hs1" using Cons.prems by auto
    then obtain xs ys where "hs = xs @ old # ys" "old \<notin> set xs" "hs1 = xs @ new # ys" using Cons.IH by blast
    then show ?thesis using False \<open>hs' = h # hs1\<close> by (intro exI [of _ "h # xs"] exI [of _ ys]) simp
  qed
qed simp

lemma replace_first_append: "old \<notin> set xs \<Longrightarrow> replace_first old new (xs @ old # ys) = Some (xs @ new # ys)"
  by (induction xs) auto

text \<open>A hook that was accepted is deleted again without any trace, unless it was in the table before.\<close>

theorem sethook_delhook:
  assumes "rt_thread_idle_sethook hook hs = (RT_EOK, hs')" "hook \<notin> set hs"
  shows "rt_thread_idle_delhook hook hs' = (RT_EOK, hs)"
proof -
  obtain xs ys where s: "hs = xs @ None # ys" "None \<notin> set xs" "hs' = xs @ hook # ys"
    using assms(1) replace_first_split [of None hook hs hs']
    by (force simp: rt_thread_idle_sethook_def split: option.splits)
  have "replace_first hook None hs' = Some hs"
    unfolding s(3) s(1) by (rule replace_first_append) (use s(1) assms(2) in simp)
  then show ?thesis by (simp add: rt_thread_idle_delhook_def)
qed

section \<open>Every thread that has ended is reclaimed\<close>

lemma defunct_not_ready:
  assumes "kernel_inv s" "t \<in> set (lists s Defunct)"
  shows "stat_of s t \<noteq> RT_THREAD_READY" "t_link (threads s t) = Some Defunct"
proof -
  note i = sched_invD [OF kernel_invD(1) [OF assms(1)]]
  show l: "t_link (threads s t) = Some Defunct" using assms(2) i(1) by (simp add: links_ok_def)
  show "stat_of s t \<noteq> RT_THREAD_READY" using i(5) l by (auto simp: ready_here_def)
qed

lemma inv_reclaim_thread:
  assumes "reclaim_thread t s = Some s'" "kernel_inv s" "t \<in> set (lists s Defunct)"
  shows "kernel_inv s'"
  using inv_object_delete [OF assms(1) [unfolded reclaim_thread_def]] inv_unlink defunct_not_ready [OF assms(2,3)] assms(2)
  by blast

lemma reclaim_effect:
  assumes inv: "kernel_inv s" and d: "lists s Defunct = t # ts" and own: "\<not> rt_object_is_systemobject (ThreadObj t) s"
  obtains s' where "reclaim_thread t s = Some s'" "kernel_inv s'" "lists s' = (lists s)(Defunct := ts)"
    "threads s' = (threads s)(t := (threads s t)\<lparr>t_link := None\<rparr>)"
    "obj_lists s' = (\<lambda>c. removeAll (ThreadObj t) (obj_lists s c))"
    "objs s' = (objs s)(ThreadObj t := (objs s (ThreadObj t))\<lparr>obj_type := 0\<rparr>)"
    "interrupt_nest s' = interrupt_nest s" "cur_thread s' = cur_thread s" "ready_group s' = ready_group s"
proof -
  note i = sched_invD [OF kernel_invD(1) [OF inv]]
  have t: "t \<in> set (lists s Defunct)" using d by simp
  have u: "unlink_thread t s = upd_thread t (\<lambda>th. th\<lparr>t_link := None\<rparr>) (s\<lparr>lists := (lists s)(Defunct := ts)\<rparr>)"
    using defunct_not_ready(2) [OF inv t] d by (simp add: unlink_thread_def)
  define s' where "s' = obj_unlink (ThreadObj t) (upd_obj (ThreadObj t) (\<lambda>ob. ob\<lparr>obj_type := 0\<rparr>) (unlink_thread t s))"
  have r: "reclaim_thread t s = Some s'"
    using own by (simp add: reclaim_thread_def rt_object_delete_def rt_object_is_systemobject_def s'_def)
  have L: "lists s' = (lists s)(Defunct := ts)" by (simp add: s'_def obj_unlink_def u)
  show thesis
    by (rule that [OF r inv_reclaim_thread [OF r inv t] L]) (simp_all add: s'_def obj_unlink_def)
qed

text \<open>The memory of the threads on the queue: the addresses of the stacks and of the control blocks.\<close>

definition thread_memory :: "kstate \<Rightarrow> tid \<Rightarrow> u32 list" where
  "thread_memory s t = [stack_addr (threads s t), of_nat t]"

fun free_all :: "('b \<Rightarrow> 'h \<Rightarrow> 'h option) \<Rightarrow> 'b list \<Rightarrow> 'h \<Rightarrow> 'h option" where
  "free_all free [] h = Some h"
| "free_all free (p # ps) h = Option.bind (free p h) (free_all free ps)"

lemma idle_excute_simp:
  "rt_thread_idle_excute free h s =
     (if interrupt_nest s = 0 then
        (case lists s Defunct of [] \<Rightarrow> Some (h, s)
         | t # _ \<Rightarrow> Option.bind (free (stack_addr (threads s t)) h) (\<lambda>h.
             Option.bind (reclaim_thread t s) (\<lambda>s'. Option.bind (free (of_nat t) h) (\<lambda>h. rt_thread_idle_excute free h s'))))
      else None)"
  by (subst rt_thread_idle_excute.simps) (auto simp: has_defunct_thread_def split: list.split)

text \<open>The loop frees the memory of every thread on the queue, in their order, and nothing else, and
  leaves an empty queue and no trace of these threads among the kernel's objects.\<close>

lemma idle_excute_frees:
  assumes "kernel_inv s" "interrupt_nest s = 0" "lists s Defunct = ts"
    and "\<And>t. t \<in> set ts \<Longrightarrow> \<not> rt_object_is_systemobject (ThreadObj t) s"
    and "free_all free (concat (map (thread_memory s) ts)) h = Some h'"
  obtains s' where "rt_thread_idle_excute free h s = Some (h', s')" "kernel_inv s'"
    "lists s' = (lists s)(Defunct := [])" "obj_lists s' = (\<lambda>c. filter (\<lambda>x. x \<notin> ThreadObj ` set ts) (obj_lists s c))"
    "ready_group s' = ready_group s" "cur_thread s' = cur_thread s"
  using assms
proof (induction ts arbitrary: s h thesis)
  case Nil
  show ?case
    by (rule Nil.prems(1) [of s]) (use Nil.prems in \<open>simp_all add: idle_excute_simp [of free] fun_upd_idem\<close>)
next
  case (Cons t ts)
  note d = Cons.prems(4)
  have own: "\<not> rt_object_is_systemobject (ThreadObj t) s" using Cons.prems(5) by simp
  obtain s1 where s1: "reclaim_thread t s = Some s1" "kernel_inv s1" "lists s1 = (lists s)(Defunct := ts)"
    "threads s1 = (threads s)(t := (threads s t)\<lparr>t_link := None\<rparr>)"
    "obj_lists s1 = (\<lambda>c. removeAll (ThreadObj t) (obj_lists s c))"
    "objs s1 = (objs s)(ThreadObj t := (objs s (ThreadObj t))\<lparr>obj_type := 0\<rparr>)"
    "interrupt_nest s1 = interrupt_nest s" "cur_thread s1 = cur_thread s" "ready_group s1 = ready_group s"
    by (rule reclaim_effect [OF Cons.prems(2) d own]) (rule that)
  obtain h1 h2 where h: "free (stack_addr (threads s t)) h = Some h1" "free (of_nat t) h1 = Some h2"
      "free_all free (concat (map (thread_memory s) ts)) h2 = Some h'"
    using Cons.prems(6) thread_memory_def [of s t] by (auto simp: Option.bind_eq_Some_conv)
  have m: "thread_memory s1 = thread_memory s" by (simp add: fun_eq_iff thread_memory_def s1(4))
  have own1: "\<not> rt_object_is_systemobject (ThreadObj x) s1" if "x \<in> set ts" for x
    using Cons.prems(5) [of x] that by (simp add: rt_object_is_systemobject_def s1(6))
  have pre: "interrupt_nest s1 = 0" "lists s1 Defunct = ts" "free_all free (concat (map (thread_memory s1) ts)) h2 = Some h'"
    using Cons.prems(3) s1(3,7) h(3) m by simp_all
  obtain s' where s': "rt_thread_idle_excute free h2 s1 = Some (h', s')" "kernel_inv s'"
    "lists s' = (lists s1)(Defunct := [])" "obj_lists s' = (\<lambda>c. filter (\<lambda>x. x \<notin> ThreadObj ` set ts) (obj_lists s1 c))"
    "ready_group s' = ready_group s1" "cur_thread s' = cur_thread s1"
    by (rule Cons.IH [OF _ s1(2) pre(1,2) own1 pre(3)]) (rule that)
  show ?case
  proof (rule Cons.prems(1) [of s'])
    show "rt_thread_idle_excute free h s = Some (h', s')"
      using Cons.prems(3) d h s1(1) s'(1) by (subst idle_excute_simp) simp
    show "obj_lists s' = (\<lambda>c. filter (\<lambda>x. x \<notin> ThreadObj ` set (t # ts)) (obj_lists s c))"
      by (auto simp: s'(4) s1(5) fun_eq_iff removeAll_filter_not_eq intro!: filter_cong)
  qed (use s' s1 in simp_all)
qed

section \<open>Threads from the heap\<close>

text \<open>A control block that is not in use is on no list.\<close>

definition unused_block :: "tid \<Rightarrow> kstate \<Rightarrow> bool" where
  "unused_block t s \<longleftrightarrow> t_link (threads s t) = None \<and> tm_link (timers s (ThreadTimer t)) = None"

lemma create_cases:
  assumes "rt_thread_create blk stk nm e a sz p tick s = Some (r, s')"
  obtains "blk = None" "r = None" "s' = s"
  | t nm' where "blk = Some t" "stk = None" "r = None" "rt_strncpy nm 8 = Some nm'"
      "rt_object_delete (ThreadObj t) (obj_link_front 1 (ThreadObj t) (upd_obj (ThreadObj t)
         (\<lambda>ob. \<lparr>obj_name = nm', obj_type = 1, obj_flag = 0\<rparr>) (upd_thread t (\<lambda>_. thread0) s))) = Some s'"
  | t stack nm' r' where "blk = Some t" "stk = Some stack" "r = Some t" "rt_strncpy nm 8 = Some nm'"
      "rt_thread_init_fields t e a stack sz p tick (obj_link_front 1 (ThreadObj t) (upd_obj (ThreadObj t)
         (\<lambda>ob. \<lparr>obj_name = nm', obj_type = 1, obj_flag = 0\<rparr>) (upd_thread t (\<lambda>_. thread0) s))) = Some (r', s')"
  using assms unfolding rt_thread_create_def rt_object_allocate_def
  by (auto simp: Option.bind_eq_Some_conv zero_object_def Let_def split: option.splits if_splits)

lemma inv_thread_create:
  assumes c: "rt_thread_create blk stk nm e a sz p tick s = Some (r, s')" and inv: "kernel_inv s"
    and u: "\<And>t. blk = Some t \<Longrightarrow> unused_block t s"
  shows "kernel_inv s'"
  using c
proof (cases rule: create_cases)
  case (2 t nm')
  have "kernel_inv (upd_thread t (\<lambda>_. thread0) s)"
    using inv u [OF 2(1)] by (intro kernel_inv_upd_unlinked) (simp_all add: unused_block_def thread0_def)
  then show ?thesis by (intro inv_object_delete [OF 2(5)]) (simp add: obj_link_front_def)
next
  case (3 t stack nm' r')
  have "kernel_inv (upd_thread t (\<lambda>_. thread0) s)"
    using inv u [OF 3(1)] by (intro kernel_inv_upd_unlinked) (simp_all add: unused_block_def thread0_def)
  then show ?thesis
    by (intro inv_thread_init_fields [OF 3(5)]) (use u [OF 3(1)] in \<open>simp_all add: obj_link_front_def unused_block_def\<close>)
qed (use inv in simp)

end
