(* ===== verification/Completion.thy ===== *)
theory Completion
  imports Semaphore
begin

text \<open>
  The completions of \<open>components/drivers/src/completion.c\<close>, with which a driver's interrupt handler
  tells one waiting thread that a transfer is done.  The flag belongs to the driver's data and is an
  argument and result here; the list of completion \<open>c\<close> is \<open>CompWait c\<close>.
\<close>

section \<open>Operations\<close>

definition rt_completion_init :: "nat \<Rightarrow> kstate \<Rightarrow> (bool \<times> kstate) option" where
  "rt_completion_init c s = do { s \<leftarrow> rt_ipc_object_init (CompWait c) s; Some (False, s) }"

definition rt_completion_wait_resumed :: "tid \<Rightarrow> bool \<times> kstate \<Rightarrow> ((unit, rt_err_t) outcome \<times> bool \<times> kstate) option" where
  "rt_completion_wait_resumed t = (\<lambda>(flag, s). Some (Return (thread_error (threads s t)), False, s))"

definition rt_completion_wait ::
  "nat \<Rightarrow> int \<Rightarrow> bool \<times> kstate \<Rightarrow> ((unit, rt_err_t) outcome \<times> bool \<times> kstate) option" where
  "rt_completion_wait c timeout = (\<lambda>(flag, s).
     if \<not> flag then do {
       rt_assert (lists s (CompWait c) = []);
       if timeout = 0 then Some (Return (- RT_ETIMEOUT), flag, s)
       else do {
         t \<leftarrow> rt_thread_self s;
         let s = set_error t RT_EOK s;
         s \<leftarrow> rt_ipc_list_suspend (CompWait c) t RT_IPC_FLAG_FIFO s;
         not_in_interrupt s;
         s \<leftarrow> arm_timer t timeout s;
         s \<leftarrow> rt_schedule s;
         if cur_thread s = Some t then rt_completion_wait_resumed t (flag, s) else Some (Blocked (), flag, s)
       }
     }
     else Some (Return RT_EOK, False, s))"

definition rt_completion_done :: "nat \<Rightarrow> bool \<times> kstate \<Rightarrow> (bool \<times> kstate) option" where
  "rt_completion_done c = (\<lambda>(flag, s).
     if flag then Some (flag, s)
     else if lists s (CompWait c) \<noteq> [] then do {
       s \<leftarrow> rt_ipc_list_resume (CompWait c) s;
       s \<leftarrow> rt_schedule s;
       Some (True, s)
     }
     else Some (True, s))"

section \<open>The kernel invariant\<close>

lemma inv_completion_wait:
  assumes "rt_completion_wait c timeout (b, s) = Some (r, b', s')" "kernel_inv s"
  shows "kernel_inv s'"
  using assms unfolding rt_completion_wait_def rt_completion_wait_resumed_def
  by (auto simp: Option.bind_eq_Some_conv Let_def split: if_splits
      dest!: inv_schedule inv_arm_timer inv_list_suspend)

lemma inv_completion_done: "rt_completion_done c (b, s) = Some (b', s') \<Longrightarrow> kernel_inv s \<Longrightarrow> kernel_inv s'"
  unfolding rt_completion_done_def
  by (auto simp: Option.bind_eq_Some_conv split: if_splits dest!: inv_schedule inv_list_resume)

section \<open>Every completion ends one wait\<close>

text \<open>A transfer that is done before the thread waits lets it pass at once, and only once.\<close>

lemma completion_done_first:
  assumes "lists s (CompWait c) = []"
  shows "rt_completion_done c (False, s) = Some (True, s)" "rt_completion_wait c timeout (True, s) = Some (Return RT_EOK, False, s)"
    "rt_completion_wait c 0 (False, s) = Some (Return (- RT_ETIMEOUT), False, s)"
  using assms by (simp_all add: rt_completion_done_def rt_completion_wait_def)

text \<open>A thread that waits for a completion is woken by it: the thread leaves the list and becomes
  ready without an error, and when it runs its call returns \<open>RT_EOK\<close> and the completion is used up.\<close>

theorem completion_wakes:
  assumes inv: "kernel_inv s" and w: "lists s (CompWait c) = [t]"
    and t: "thread_typed s t" "stat_of s t = RT_THREAD_SUSPEND" "thread_error (threads s t) = RT_EOK"
  shows "\<exists>s1. rt_completion_done c (False, s) = Option.bind (rt_schedule s1) (\<lambda>s2. Some (True, s2)) \<and> kernel_inv s1 \<and>
     lists s1 (CompWait c) = [] \<and> stat_of s1 t = RT_THREAD_READY \<and>
     (\<forall>s2. threads s2 t = threads s1 t \<longrightarrow> rt_completion_wait_resumed t (True, s2) = Some (Return RT_EOK, False, s2))"
proof -
  obtain s1 where s1: "rt_thread_resume t s = Some (RT_EOK, s1)" "kernel_inv s1" "same_ipc s s1"
    "cur_thread s1 = cur_thread s"
    "threads s1 = (threads s)(t := (threads s t)\<lparr>stat := with_stat RT_THREAD_READY (stat (threads s t)),
       t_link := Some (ReadyQ (unat (current_priority (threads s t))))\<rparr>)"
    "\<And>l. lists s1 l = (if l = ReadyQ (unat (current_priority (threads s t)))
                        then lists s l @ [t] else remove1 t (lists s l))"
    by (rule resume_effect [OF inv t(1,2)]) (rule that)
  have "rt_completion_done c (False, s) = Option.bind (rt_schedule s1) (\<lambda>s2. Some (True, s2))"
    using w s1(1) by (simp add: rt_completion_done_def rt_ipc_list_resume_def)
  moreover have "stat_of s1 t = RT_THREAD_READY" "thread_error (threads s1 t) = RT_EOK"
    using s1(5) t(3) by (simp_all add: stat_of_def)
  ultimately show ?thesis using s1(2,6) w by (intro exI [of _ s1]) (simp add: rt_completion_wait_resumed_def)
qed

text \<open>A completion can be lost: if the waiting time of the thread has expired and the transfer is
  done before the thread runs again, the thread clears the flag that was set and reports
  \<open>-RT_ETIMEOUT\<close>; the completed transfer is gone, and waiting again times out.\<close>

theorem completion_lost_after_timeout:
  assumes inv: "kernel_inv s" and w: "lists s (CompWait c) = [t]"
    and t: "thread_typed s t" "stat_of s t = RT_THREAD_SUSPEND"
  shows "\<exists>s1. rt_thread_timeout t s = rt_schedule s1 \<and>
     (\<forall>s2. lists s2 (CompWait c) = lists s1 (CompWait c) \<and> threads s2 t = threads s1 t \<longrightarrow>
        rt_completion_done c (False, s2) = Some (True, s2) \<and>
        rt_completion_wait_resumed t (True, s2) = Some (Return (- RT_ETIMEOUT), False, s2) \<and>
        rt_completion_wait c 0 (False, s2) = Some (Return (- RT_ETIMEOUT), False, s2))"
proof -
  obtain s1 where s1: "rt_thread_timeout t s = rt_schedule s1" "kernel_inv s1" "same_ipc s s1"
    "lists s1 (CompWait c) = remove1 t (lists s (CompWait c))" "t \<notin> set (lists s1 (CompWait c))"
    "stat_of s1 t = RT_THREAD_READY" "thread_error (threads s1 t) = - RT_ETIMEOUT"
    by (rule timeout_effect [OF inv t, of "CompWait c"]) (simp, rule that)
  have "lists s1 (CompWait c) = []" using s1(4) w by simp
  then show ?thesis using s1(1,7)
    by (intro exI [of _ s1]) (simp add: rt_completion_wait_resumed_def rt_completion_done_def rt_completion_wait_def)
qed

end
