(* ===== verification/DataQueue.thy ===== *)
theory DataQueue
  imports Semaphore Fifo
begin

text \<open>
  The data queues of \<open>components/drivers/src/dataqueue.c\<close>: a ring of (pointer, size) items between
  the thread that writes to a device and the interrupt handler that transfers them, with threads that
  wait for room or for items.  The queue belongs to the driver's data and is an argument and result
  here; the lists of queue \<open>q\<close> are \<open>DqPush q\<close> and \<open>DqPop q\<close>.
\<close>

section \<open>The ring\<close>

abbreviation (input) DATAQUEUE_MAGIC :: u32 where "DATAQUEUE_MAGIC \<equiv> 0xbead0e0e"

record rt_data_queue =
  dq_magic :: u32
  dq_size :: u16
  dq_lwm :: u16
  dq_get :: "15 word"
  dq_put :: "15 word"
  dq_is_empty :: bool
  dq_is_full :: bool
  dq_items :: "(u32 \<times> u32) list"

text \<open>The indices are bit fields of 15 bits, the size has 16.\<close>

definition dq_next :: "u16 \<Rightarrow> 15 word \<Rightarrow> 15 word" where
  "dq_next sz i = (let i = i + 1 in if unat i = unat sz then 0 else i)"

definition dq_store :: "u32 \<times> u32 \<Rightarrow> rt_data_queue \<Rightarrow> rt_data_queue option" where
  "dq_store x q = do {
     c_defined (unat (dq_put q) < length (dq_items q));
     let q = q\<lparr>dq_items := (dq_items q)[unat (dq_put q) := x]\<rparr>;
     let q = q\<lparr>dq_put := dq_next (dq_size q) (dq_put q), dq_is_empty := False\<rparr>;
     Some (if dq_put q = dq_get q then q\<lparr>dq_is_full := True\<rparr> else q)
   }"

definition dq_fetch :: "rt_data_queue \<Rightarrow> ((u32 \<times> u32) \<times> rt_data_queue) option" where
  "dq_fetch q = do {
     c_defined (unat (dq_get q) < length (dq_items q));
     let x = dq_items q ! unat (dq_get q);
     let q = q\<lparr>dq_get := dq_next (dq_size q) (dq_get q), dq_is_full := False\<rparr>;
     Some (x, if dq_put q = dq_get q then q\<lparr>dq_is_empty := True\<rparr> else q)
   }"

text \<open>The difference is computed in an \<open>int\<close> and passes through a signed 16-bit variable.\<close>

definition rt_data_queue_len :: "rt_data_queue \<Rightarrow> u16 option" where
  "rt_data_queue_len q = do {
     rt_assert (dq_magic q = DATAQUEUE_MAGIC);
     Some (if dq_is_empty q then 0
           else if dq_put q > dq_get q then ucast (dq_put q) - ucast (dq_get q)
           else dq_size q + ucast (dq_put q) - ucast (dq_get q))
   }"

definition rt_data_queue_peek :: "rt_data_queue \<Rightarrow> (rt_err_t \<times> (u32 \<times> u32) option) option" where
  "rt_data_queue_peek q = do {
     rt_assert (dq_magic q = DATAQUEUE_MAGIC);
     if dq_is_empty q then Some (- RT_EEMPTY, None)
     else do {
       c_defined (unat (dq_get q) < length (dq_items q));
       Some (RT_EOK, Some (dq_items q ! unat (dq_get q)))
     }
   }"

section \<open>Operations\<close>

text \<open>\<open>mem\<close> is the array from the heap, of \<open>size\<close> items, or no memory.\<close>

definition rt_data_queue_init ::
  "nat \<Rightarrow> (u32 \<times> u32) list option \<Rightarrow> u16 \<Rightarrow> u16 \<Rightarrow> kstate \<Rightarrow> (rt_err_t \<times> rt_data_queue \<times> kstate) option" where
  "rt_data_queue_init i mem sz lwm s = do {
     rt_assert (sz > 0);
     s \<leftarrow> rt_ipc_object_init (DqPush i) s;
     s \<leftarrow> rt_ipc_object_init (DqPop i) s;
     let q = \<lparr>dq_magic = DATAQUEUE_MAGIC, dq_size = sz, dq_lwm = lwm, dq_get = 0, dq_put = 0, dq_is_empty = True,
              dq_is_full = False, dq_items = (case mem of None \<Rightarrow> [] | Some m \<Rightarrow> m)\<rparr>;
     Some (if mem = None then - RT_ENOMEM else RT_EOK, q, s)
   }"

type_synonym dq_notify = "(nat \<Rightarrow> rt_data_queue \<times> kstate \<Rightarrow> (rt_data_queue \<times> kstate) option) option"

definition dq_event :: "dq_notify \<Rightarrow> nat \<Rightarrow> rt_data_queue \<times> kstate \<Rightarrow> (rt_data_queue \<times> kstate) option" where
  "dq_event evt_notify event st = (case evt_notify of None \<Rightarrow> Some st | Some f \<Rightarrow> f event st)"

text \<open>Waiting: the part of both loops up to \<open>rt_schedule\<close>.\<close>

definition dq_wait :: "lid \<Rightarrow> int \<Rightarrow> kstate \<Rightarrow> (tid \<times> kstate) option" where
  "dq_wait l timeout s = do {
     not_in_interrupt s;
     t \<leftarrow> rt_thread_self s;
     let s = set_error t RT_EOK s;
     s \<leftarrow> ipc_wait l t RT_IPC_FLAG_FIFO timeout s;
     Some (t, s)
   }"

text \<open>The loop of both operations: it ends when the queue is \<open>ready\<close>, when the call may not wait or times
  out, or in another thread.  What follows is \<open>body\<close>; \<open>fail\<close> is the result with an error number.\<close>

partial_function (option) dq_loop ::
  "lid \<Rightarrow> (rt_data_queue \<Rightarrow> bool) \<Rightarrow> (rt_data_queue \<times> kstate \<Rightarrow> ('a \<times> rt_data_queue \<times> kstate) option) \<Rightarrow> (rt_err_t \<Rightarrow> 'a) \<Rightarrow>
   int \<Rightarrow> rt_data_queue \<times> kstate \<Rightarrow> ((unit, 'a) outcome \<times> rt_data_queue \<times> kstate) option" where
  "dq_loop l ready body fail timeout st =
     (if ready (fst st) then map_option (apfst Return) (body st)
      else if timeout = 0 then Some (Return (fail (- RT_ETIMEOUT)), st)
      else Option.bind (dq_wait l timeout (snd st)) (\<lambda>(t, s). Option.bind (rt_schedule s) (\<lambda>s.
        if cur_thread s = Some t then
          (if thread_error (threads s t) \<noteq> RT_EOK then Some (Return (fail (thread_error (threads s t))), fst st, s)
           else dq_loop l ready body fail timeout (fst st, s))
        else Some (Blocked (), fst st, s))))"

text \<open>What follows the loop of \<open>rt_data_queue_push\<close>.\<close>

definition dq_push_room ::
  "dq_notify \<Rightarrow> nat \<Rightarrow> u32 \<times> u32 \<Rightarrow> rt_data_queue \<times> kstate \<Rightarrow> (rt_err_t \<times> rt_data_queue \<times> kstate) option" where
  "dq_push_room evt_notify i x = (\<lambda>(q, s). do {
     q \<leftarrow> dq_store x q;
     if lists s (DqPop i) \<noteq> [] then do {
       s \<leftarrow> rt_ipc_list_resume (DqPop i) s;
       s \<leftarrow> rt_schedule s;
       Some (RT_EOK, q, s)
     }
     else do { st \<leftarrow> dq_event evt_notify 2 (q, s); Some (RT_EOK, st) }
   })"

definition dq_push_loop ::
  "dq_notify \<Rightarrow> nat \<Rightarrow> u32 \<times> u32 \<Rightarrow> int \<Rightarrow> rt_data_queue \<times> kstate \<Rightarrow> ((unit, rt_err_t) outcome \<times> rt_data_queue \<times> kstate) option" where
  "dq_push_loop evt_notify i x = dq_loop (DqPush i) (\<lambda>q. \<not> dq_is_full q) (dq_push_room evt_notify i x) (\<lambda>e. e)"

definition rt_data_queue_push ::
  "dq_notify \<Rightarrow> nat \<Rightarrow> u32 \<Rightarrow> u32 \<Rightarrow> int \<Rightarrow> rt_data_queue \<times> kstate \<Rightarrow>
   ((unit, rt_err_t) outcome \<times> rt_data_queue \<times> kstate) option" where
  "rt_data_queue_push evt_notify i data_ptr data_size timeout st = do {
     rt_assert (dq_magic (fst st) = DATAQUEUE_MAGIC);
     dq_push_loop evt_notify i (data_ptr, data_size) timeout st
   }"

definition rt_data_queue_push_resumed ::
  "dq_notify \<Rightarrow> nat \<Rightarrow> u32 \<Rightarrow> u32 \<Rightarrow> int \<Rightarrow> tid \<Rightarrow> rt_data_queue \<times> kstate \<Rightarrow>
   ((unit, rt_err_t) outcome \<times> rt_data_queue \<times> kstate) option" where
  "rt_data_queue_push_resumed evt_notify i data_ptr data_size timeout t st =
     (if thread_error (threads (snd st) t) \<noteq> RT_EOK then Some (Return (thread_error (threads (snd st) t)), st)
      else dq_push_loop evt_notify i (data_ptr, data_size) timeout st)"

text \<open>What follows the loop of \<open>rt_data_queue_pop\<close>: at the low-water mark a waiting writer is woken.\<close>

definition dq_pop_item ::
  "dq_notify \<Rightarrow> nat \<Rightarrow> rt_data_queue \<times> kstate \<Rightarrow> ((rt_err_t \<times> (u32 \<times> u32) option) \<times> rt_data_queue \<times> kstate) option" where
  "dq_pop_item evt_notify i = (\<lambda>(q, s). do {
     (x, q) \<leftarrow> dq_fetch q;
     len \<leftarrow> rt_data_queue_len q;
     if len \<le> dq_lwm q then do {
       s \<leftarrow> (if lists s (DqPush i) \<noteq> [] then do {
               s \<leftarrow> rt_ipc_list_resume (DqPush i) s;
               rt_schedule s
             } else Some s);
       st \<leftarrow> dq_event evt_notify 3 (q, s);
       Some ((RT_EOK, Some x), st)
     }
     else do { st \<leftarrow> dq_event evt_notify 1 (q, s); Some ((RT_EOK, Some x), st) }
   })"

text \<open>The result is the error number and the item, if any.\<close>

definition dq_pop_loop ::
  "dq_notify \<Rightarrow> nat \<Rightarrow> int \<Rightarrow> rt_data_queue \<times> kstate \<Rightarrow>
   ((unit, rt_err_t \<times> (u32 \<times> u32) option) outcome \<times> rt_data_queue \<times> kstate) option" where
  "dq_pop_loop evt_notify i = dq_loop (DqPop i) (\<lambda>q. \<not> dq_is_empty q) (dq_pop_item evt_notify i) (\<lambda>e. (e, None))"

definition rt_data_queue_pop ::
  "dq_notify \<Rightarrow> nat \<Rightarrow> int \<Rightarrow> rt_data_queue \<times> kstate \<Rightarrow>
   ((unit, rt_err_t \<times> (u32 \<times> u32) option) outcome \<times> rt_data_queue \<times> kstate) option" where
  "rt_data_queue_pop evt_notify i timeout st = do {
     rt_assert (dq_magic (fst st) = DATAQUEUE_MAGIC);
     dq_pop_loop evt_notify i timeout st
   }"

definition rt_data_queue_pop_resumed ::
  "dq_notify \<Rightarrow> nat \<Rightarrow> int \<Rightarrow> tid \<Rightarrow> rt_data_queue \<times> kstate \<Rightarrow>
   ((unit, rt_err_t \<times> (u32 \<times> u32) option) outcome \<times> rt_data_queue \<times> kstate) option" where
  "rt_data_queue_pop_resumed evt_notify i timeout t st =
     (if thread_error (threads (snd st) t) \<noteq> RT_EOK then Some (Return (thread_error (threads (snd st) t), None), st)
      else dq_pop_loop evt_notify i timeout st)"

text \<open>All waiting threads are woken with the error \<open>-RT_ERROR\<close>, with the scheduler locked.\<close>

definition rt_data_queue_reset :: "nat \<Rightarrow> rt_data_queue \<times> kstate \<Rightarrow> (rt_data_queue \<times> kstate) option" where
  "rt_data_queue_reset i = (\<lambda>(q, s). do {
     rt_assert (dq_magic q = DATAQUEUE_MAGIC);
     let q = q\<lparr>dq_get := 0, dq_put := 0, dq_is_empty := True, dq_is_full := False\<rparr>;
     let s = rt_enter_critical s;
     s \<leftarrow> rt_ipc_list_resume_all (DqPop i) s;
     s \<leftarrow> rt_ipc_list_resume_all (DqPush i) s;
     s \<leftarrow> rt_exit_critical s;
     s \<leftarrow> rt_schedule s;
     Some (q, s)
   })"

definition rt_data_queue_deinit :: "nat \<Rightarrow> rt_data_queue \<times> kstate \<Rightarrow> (rt_err_t \<times> rt_data_queue \<times> kstate) option" where
  "rt_data_queue_deinit i st = do {
     rt_assert (dq_magic (fst st) = DATAQUEUE_MAGIC);
     (q, s) \<leftarrow> rt_data_queue_reset i st;
     Some (RT_EOK, q\<lparr>dq_magic := 0\<rparr>, s)
   }"

section \<open>The ring is a bounded queue\<close>

definition dq_used :: "rt_data_queue \<Rightarrow> nat" where
  "dq_used q = (if dq_is_empty q then 0
     else if dq_put q > dq_get q then unat (dq_put q) - unat (dq_get q)
     else unat (dq_size q) + unat (dq_put q) - unat (dq_get q))"

definition dq_content :: "rt_data_queue \<Rightarrow> (u32 \<times> u32) list" where
  "dq_content q = map (\<lambda>k. dq_items q ! ((unat (dq_get q) + k) mod unat (dq_size q))) [0..<dq_used q]"

definition dq_ok :: "rt_data_queue \<Rightarrow> bool" where
  "dq_ok q \<longleftrightarrow> dq_magic q = DATAQUEUE_MAGIC \<and> 0 < unat (dq_size q) \<and> unat (dq_size q) \<le> 2 ^ 15 \<and>
     length (dq_items q) = unat (dq_size q) \<and> unat (dq_get q) < unat (dq_size q) \<and>
     unat (dq_put q) = (unat (dq_get q) + dq_used q) mod unat (dq_size q) \<and> dq_used q \<le> unat (dq_size q) \<and>
     (dq_is_empty q \<longleftrightarrow> dq_used q = 0) \<and> (dq_is_full q \<longleftrightarrow> dq_used q = unat (dq_size q))"

lemma dq_okD:
  assumes "dq_ok q"
  shows "dq_magic q = DATAQUEUE_MAGIC" "0 < unat (dq_size q)" "unat (dq_size q) \<le> 2 ^ 15"
    "length (dq_items q) = unat (dq_size q)" "unat (dq_get q) < unat (dq_size q)" "unat (dq_put q) < unat (dq_size q)"
    "unat (dq_put q) = (unat (dq_get q) + dq_used q) mod unat (dq_size q)" "dq_used q \<le> unat (dq_size q)"
    "dq_is_empty q \<longleftrightarrow> dq_used q = 0" "dq_is_full q \<longleftrightarrow> dq_used q = unat (dq_size q)"
  using assms by (auto simp: dq_ok_def)

lemma length_dq_content [simp]: "length (dq_content q) = dq_used q"
  by (simp add: dq_content_def)

lemma unat_dq_next:
  assumes "unat i < unat sz" "unat sz \<le> 2 ^ 15"
  shows "unat (dq_next sz i) = (unat i + 1) mod unat sz"
proof (cases "unat i + 1 = 2 ^ 15")
  case True
  then have "unat sz = 2 ^ 15" "unat (i + 1) = 0" using assms by (simp_all add: unat_word_ariths(1))
  then show ?thesis using True by (simp add: dq_next_def Let_def unat_eq_0)
next
  case False
  then have "unat (i + 1) = unat i + 1" using assms by (simp add: unat_word_ariths(1))
  then show ?thesis using assms(1) by (auto simp: dq_next_def Let_def)
qed

text \<open>The distance from the first index to the second, when it is neither 0 nor a whole round.\<close>

lemma ring_distance:
  fixes g n N :: nat
  assumes "g < N" "0 < n" "n \<le> N"
  shows "(if (g + n) mod N > g then (g + n) mod N - g else N + (g + n) mod N - g) = n"
  using assms by (cases "g + n < N") (auto simp: mod_if)

lemma dq_used_ring:
  assumes "\<not> dq_is_empty q" "unat (dq_put q) = (unat (dq_get q) + n) mod unat (dq_size q)"
    "unat (dq_get q) < unat (dq_size q)" "0 < n" "n \<le> unat (dq_size q)"
  shows "dq_used q = n"
  using ring_distance [OF assms(3-5)] assms(1,2) by (simp add: dq_used_def word_less_nat_alt split: if_splits)

lemma dq_store_room:
  assumes ok: "dq_ok q" and room: "dq_used q < unat (dq_size q)"
  obtains q' where "dq_store x q = Some q'" "dq_ok q'" "dq_content q' = dq_content q @ [x]" "dq_size q' = dq_size q"
    "dq_is_full q' \<longleftrightarrow> dq_used q + 1 = unat (dq_size q)" "dq_lwm q' = dq_lwm q"
proof -
  note d = dq_okD [OF ok]
  let ?g = "unat (dq_get q)" and ?N = "unat (dq_size q)" and ?n = "dq_used q" and ?p = "unat (dq_put q)"
  define full where "full \<longleftrightarrow> dq_next (dq_size q) (dq_put q) = dq_get q"
  define q' where "q' = q\<lparr>dq_items := (dq_items q)[?p := x], dq_put := dq_next (dq_size q) (dq_put q),
      dq_is_empty := False, dq_is_full := full\<rparr>"
  have p': "unat (dq_next (dq_size q) (dq_put q)) = (?g + (?n + 1)) mod ?N"
    using unat_dq_next [OF d(6,3)] d(7) by (simp add: mod_Suc_eq)
  have "full \<longleftrightarrow> (?g + (?n + 1)) mod ?N = ?g" using p' by (simp add: full_def word_unat_eq_iff)
  also have "\<dots> \<longleftrightarrow> ?n + 1 = ?N" using d(5) room by (auto simp: mod_if split: if_splits)
  finally have full: "full \<longleftrightarrow> ?n + 1 = ?N" .
  have nf: "dq_is_full q = False" using d(10) room by simp
  have st: "dq_store x q = Some q'" using d(4,6) nf by (simp add: dq_store_def q'_def full_def Let_def)
  have used: "dq_used q' = ?n + 1"
    by (rule dq_used_ring) (use d(5) room p' in \<open>simp_all add: q'_def\<close>)
  have "dq_ok q'" using d p' room full unfolding dq_ok_def used by (simp add: q'_def)
  moreover have "dq_content q' = dq_content q @ [x]"
  proof (rule nth_equalityI)
    fix k assume k: "k < length (dq_content q')"
    then have "k \<le> ?n" using used by simp
    have "(?g + k) mod ?N \<noteq> ?p" if "k < ?n"
      using that d(5,7) room by (auto simp: mod_if split: if_splits)
    then show "dq_content q' ! k = (dq_content q @ [x]) ! k"
      using \<open>k \<le> ?n\<close> used d(4,6,7) by (cases "k = ?n") (simp_all add: dq_content_def nth_append q'_def)
  qed (simp add: used)
  ultimately show thesis using that [of q'] st full by (simp add: q'_def)
qed

lemma dq_fetch_some:
  assumes ok: "dq_ok q" and c: "dq_content q = x # xs"
  obtains q' where "dq_fetch q = Some (x, q')" "dq_ok q'" "dq_content q' = xs" "dq_size q' = dq_size q" "dq_lwm q' = dq_lwm q"
proof -
  note d = dq_okD [OF ok]
  let ?g = "unat (dq_get q)" and ?N = "unat (dq_size q)" and ?n = "dq_used q" and ?p = "unat (dq_put q)"
  have n: "0 < ?n" using arg_cong [OF c, of length] by simp
  define empty where "empty \<longleftrightarrow> dq_put q = dq_next (dq_size q) (dq_get q)"
  define q' where "q' = q\<lparr>dq_get := dq_next (dq_size q) (dq_get q), dq_is_full := False, dq_is_empty := empty\<rparr>"
  have g': "unat (dq_next (dq_size q) (dq_get q)) = (?g + 1) mod ?N" by (rule unat_dq_next [OF d(5,3)])
  have "empty \<longleftrightarrow> (?g + ?n) mod ?N = (?g + 1) mod ?N" using g' d(7) by (simp add: empty_def word_unat_eq_iff)
  also have "\<dots> \<longleftrightarrow> ?n = 1" using d(5,8) n by (auto simp: mod_if split: if_splits)
  finally have empty: "empty \<longleftrightarrow> ?n = 1" .
  have ne: "dq_is_empty q = False" using d(9) n by simp
  have x: "x = dq_items q ! ?g" using arg_cong [OF c, of hd] n d(5) by (simp add: dq_content_def hd_map)
  have ft: "dq_fetch q = Some (x, q')" using d(4,5) ne by (simp add: dq_fetch_def q'_def empty_def Let_def x)
  have p: "?p = ((?g + 1) mod ?N + (?n - 1)) mod ?N"
    using d(7) n by (simp only: mod_add_left_eq) simp
  have used: "dq_used q' = ?n - 1"
  proof (cases "?n = 1")
    case True
    then have "dq_is_empty q'" using empty by (simp add: q'_def)
    then show ?thesis unfolding True by (simp add: dq_used_def)
  next
    case False
    show ?thesis
    proof (rule dq_used_ring)
      show "unat (dq_put q') = (unat (dq_get q') + (?n - 1)) mod unat (dq_size q')" using p g' by (simp add: q'_def)
    qed (use False n d(2,8) empty g' in \<open>auto simp: q'_def\<close>)
  qed
  have "dq_ok q'" using d p g' n empty unfolding dq_ok_def used by (auto simp: q'_def)
  moreover have "dq_content q' = xs"
  proof -
    have q': "dq_items q' = dq_items q" "unat (dq_get q') = (?g + 1) mod ?N" "dq_size q' = dq_size q"
      using g' by (simp_all add: q'_def)
    have "dq_content q' = tl (dq_content q)"
    proof (rule nth_equalityI)
      fix k assume "k < length (dq_content q')"
      then have k: "Suc k < ?n" using used by simp
      then have "[0..<?n - Suc 0] ! k = k" by (subst nth_upt) simp_all
      with k show "dq_content q' ! k = tl (dq_content q) ! k" using q'
        by (simp add: nth_tl dq_content_def used mod_add_left_eq)
    qed (simp add: used)
    then show ?thesis using c by simp
  qed
  ultimately show thesis using that [of q'] ft by (simp add: q'_def)
qed

text \<open>The two ends of the ring are the operations of a bounded queue.\<close>

definition dq_enq :: "u32 \<times> u32 \<Rightarrow> rt_data_queue \<Rightarrow> rt_data_queue option" where
  "dq_enq x q = (if dq_is_full q then None else dq_store x q)"

definition dq_deq :: "rt_data_queue \<Rightarrow> ((u32 \<times> u32) \<times> rt_data_queue) option" where
  "dq_deq q = (if dq_is_empty q then None else dq_fetch q)"

interpretation dqq: bounded_fifo dq_ok dq_content "\<lambda>q. unat (dq_size q)" dq_enq dq_deq
proof
  fix q x and xs
  assume ok: "dq_ok q"
  note d = dq_okD [OF ok]
  show "length (dq_content q) \<le> unat (dq_size q)" using d(8) by simp
  show "\<exists>q'. dq_enq x q = Some q' \<and> dq_ok q' \<and> dq_content q' = dq_content q @ [x] \<and> unat (dq_size q') = unat (dq_size q)"
    if "length (dq_content q) < unat (dq_size q)"
  proof -
    have r: "dq_used q < unat (dq_size q)" using that by simp
    obtain q' where "dq_store x q = Some q'" "dq_ok q'" "dq_content q' = dq_content q @ [x]" "dq_size q' = dq_size q"
        "dq_is_full q' \<longleftrightarrow> dq_used q + 1 = unat (dq_size q)" "dq_lwm q' = dq_lwm q"
      by (rule dq_store_room [OF ok r]) (rule that)
    then show ?thesis using d(10) r by (simp add: dq_enq_def)
  qed
  show "dq_enq x q = None" if "length (dq_content q) = unat (dq_size q)" using that d(10) by (simp add: dq_enq_def)
  show "\<exists>q'. dq_deq q = Some (x, q') \<and> dq_ok q' \<and> dq_content q' = xs \<and> unat (dq_size q') = unat (dq_size q)"
    if c: "dq_content q = x # xs"
  proof -
    obtain q' where "dq_fetch q = Some (x, q')" "dq_ok q'" "dq_content q' = xs" "dq_size q' = dq_size q" "dq_lwm q' = dq_lwm q"
      by (rule dq_fetch_some [OF ok c]) (rule that)
    then show ?thesis using d(9) arg_cong [OF c, of length] by (simp add: dq_deq_def)
  qed
  show "dq_deq q = None" if "dq_content q = []"
  proof -
    have "dq_used q = 0" using that length_dq_content [of q] by simp
    then show ?thesis using d(9) by (simp add: dq_deq_def)
  qed
qed

section \<open>Pushing and popping\<close>

text \<open>The length is the number of items.\<close>

lemma dq_len: "dq_ok q \<Longrightarrow> rt_data_queue_len q = Some (of_nat (dq_used q))"
proof -
  assume ok: "dq_ok q"
  note d = dq_okD [OF ok]
  have u: "(ucast i :: u16) = of_nat (unat i)" for i :: "15 word" by simp
  have n: "unat (dq_get q) \<le> unat (dq_size q) + unat (dq_put q)" using d(5) by simp
  show ?thesis
    using d(1) n by (auto simp: rt_data_queue_len_def dq_used_def word_less_nat_alt of_nat_diff)
qed

text \<open>With room an item is appended at once, whatever the timeout; a reader that waits is woken.\<close>

lemma push_room:
  assumes "dq_ok q" "dq_used q < unat (dq_size q)"
  obtains q' where "dq_ok q'" "dq_content q' = dq_content q @ [(p, n)]" "dq_size q' = dq_size q" "dq_lwm q' = dq_lwm q"
    "rt_data_queue_push None i p n timeout (q, s) =
       (if lists s (DqPop i) = [] then Some (Return RT_EOK, q', s)
        else do { s \<leftarrow> rt_ipc_list_resume (DqPop i) s; s \<leftarrow> rt_schedule s; Some (Return RT_EOK, q', s) })"
proof -
  note d = dq_okD [OF assms(1)]
  obtain q' where q': "dq_store (p, n) q = Some q'" "dq_ok q'" "dq_content q' = dq_content q @ [(p, n)]" "dq_size q' = dq_size q"
      "dq_is_full q' \<longleftrightarrow> dq_used q + 1 = unat (dq_size q)" "dq_lwm q' = dq_lwm q"
    by (rule dq_store_room [OF assms]) (rule that)
  have "\<not> dq_is_full q" using d(10) assms(2) by simp
  then have "rt_data_queue_push None i p n timeout (q, s) = map_option (apfst Return) (dq_push_room None i (p, n) (q, s))"
    using d(1) by (simp add: rt_data_queue_push_def dq_push_loop_def dq_loop.simps)
  also have "\<dots> = (if lists s (DqPop i) = [] then Some (Return RT_EOK, q', s)
        else do { s \<leftarrow> rt_ipc_list_resume (DqPop i) s; s \<leftarrow> rt_schedule s; Some (Return RT_EOK, q', s) })"
    using q'(1) by (auto simp: dq_push_room_def dq_event_def map_option_bind o_def)
  finally show thesis using that [of q'] q' by simp
qed

lemma pop_item:
  assumes "dq_ok q" "dq_content q = x # xs"
  obtains q' where "dq_ok q'" "dq_content q' = xs" "dq_size q' = dq_size q" "dq_lwm q' = dq_lwm q"
    "dq_pop_loop None i timeout (q, s) =
       (if lists s (DqPush i) = [] \<or> dq_lwm q < of_nat (length xs) then Some (Return (RT_EOK, Some x), q', s)
        else do { s \<leftarrow> rt_ipc_list_resume (DqPush i) s; s \<leftarrow> rt_schedule s; Some (Return (RT_EOK, Some x), q', s) })"
proof -
  note d = dq_okD [OF assms(1)]
  obtain q' where q': "dq_fetch q = Some (x, q')" "dq_ok q'" "dq_content q' = xs" "dq_size q' = dq_size q" "dq_lwm q' = dq_lwm q"
    by (rule dq_fetch_some [OF assms]) (rule that)
  have "rt_data_queue_len q' = Some (of_nat (length xs))"
    using dq_len [OF q'(2)] length_dq_content [of q'] q'(3) by simp
  moreover have "\<not> dq_is_empty q" using d(9) length_dq_content [of q] assms(2) by simp
  ultimately have "dq_pop_loop None i timeout (q, s) =
       (if lists s (DqPush i) = [] \<or> dq_lwm q < of_nat (length xs) then Some (Return (RT_EOK, Some x), q', s)
        else do { s \<leftarrow> rt_ipc_list_resume (DqPush i) s; s \<leftarrow> rt_schedule s; Some (Return (RT_EOK, Some x), q', s) })"
    using q'(1,5) by (cases x) (auto simp: dq_pop_loop_def dq_loop.simps dq_pop_item_def dq_event_def map_option_bind o_def not_less)
  then show thesis using that [of q'] q' by simp
qed

text \<open>Neither call does anything when it would have to wait and may not.\<close>

lemma data_queue_no_wait:
  assumes "dq_ok q"
  shows "dq_used q = unat (dq_size q) \<Longrightarrow> rt_data_queue_push f i p n 0 (q, s) = Some (Return (- RT_ETIMEOUT), q, s)"
    "dq_used q = 0 \<Longrightarrow> rt_data_queue_pop f i 0 (q, s) = Some (Return (- RT_ETIMEOUT, None), q, s)"
  using dq_okD [OF assms]
  by (simp_all add: rt_data_queue_push_def rt_data_queue_pop_def dq_push_loop_def dq_pop_loop_def dq_loop.simps)

text \<open>A reader that waits gets the item: a push into an empty queue takes the first waiting reader off
  the list and makes it ready, and when it runs, its call returns this item and the queue is empty again.\<close>

theorem data_queue_hands_over:
  assumes inv: "kernel_inv s" and ok: "dq_ok q" "dq_content q = []" and w: "lists s (DqPop i) = t # ts"
    and t: "thread_typed s t" "stat_of s t = RT_THREAD_SUSPEND" "thread_error (threads s t) = RT_EOK"
  shows "\<exists>q1 s1. rt_data_queue_push None i p n timeout (q, s) =
       Option.bind (rt_schedule s1) (\<lambda>s2. Some (Return RT_EOK, q1, s2)) \<and> kernel_inv s1 \<and>
     lists s1 (DqPop i) = ts \<and> stat_of s1 t = RT_THREAD_READY \<and> dq_content q1 = [(p, n)] \<and>
     (\<forall>s2. threads s2 t = threads s1 t \<and> lists s2 (DqPush i) = [] \<longrightarrow>
        (\<exists>q2. rt_data_queue_pop_resumed None i timeout' t (q1, s2) = Some (Return (RT_EOK, Some (p, n)), q2, s2) \<and>
              dq_ok q2 \<and> dq_content q2 = []))"
proof -
  have r: "dq_used q < unat (dq_size q)" using dq_okD(2) [OF ok(1)] ok(2) length_dq_content [of q] by simp
  obtain q1 where q1: "dq_ok q1" "dq_content q1 = dq_content q @ [(p, n)]" "dq_size q1 = dq_size q" "dq_lwm q1 = dq_lwm q"
    "rt_data_queue_push None i p n timeout (q, s) =
       (if lists s (DqPop i) = [] then Some (Return RT_EOK, q1, s)
        else do { s \<leftarrow> rt_ipc_list_resume (DqPop i) s; s \<leftarrow> rt_schedule s; Some (Return RT_EOK, q1, s) })"
    by (rule push_room [OF ok(1) r]) (rule that)
  obtain s1 where s1: "rt_thread_resume t s = Some (RT_EOK, s1)" "kernel_inv s1" "same_ipc s s1"
    "cur_thread s1 = cur_thread s"
    "threads s1 = (threads s)(t := (threads s t)\<lparr>stat := with_stat RT_THREAD_READY (stat (threads s t)),
       t_link := Some (ReadyQ (unat (current_priority (threads s t))))\<rparr>)"
    "\<And>l. lists s1 l = (if l = ReadyQ (unat (current_priority (threads s t)))
                        then lists s l @ [t] else remove1 t (lists s l))"
    by (rule resume_effect [OF inv t(1,2)]) (rule that)
  have e: "thread_error (threads s1 t) = RT_EOK" "stat_of s1 t = RT_THREAD_READY"
    using s1(5) t(3) by (simp_all add: stat_of_def)
  have c: "dq_content q1 = [(p, n)]" using q1(2) ok(2) by simp
  have pop: "\<exists>q2. rt_data_queue_pop_resumed None i timeout' t (q1, s2) = Some (Return (RT_EOK, Some (p, n)), q2, s2) \<and>
              dq_ok q2 \<and> dq_content q2 = []"
    if "threads s2 t = threads s1 t" "lists s2 (DqPush i) = []" for s2
  proof -
    obtain q2 where "dq_ok q2" "dq_content q2 = []" "dq_size q2 = dq_size q1" "dq_lwm q2 = dq_lwm q1"
      "dq_pop_loop None i timeout' (q1, s2) =
         (if lists s2 (DqPush i) = [] \<or> dq_lwm q1 < of_nat (length ([] :: (u32 \<times> u32) list)) then Some (Return (RT_EOK, Some (p, n)), q2, s2)
          else do { s \<leftarrow> rt_ipc_list_resume (DqPush i) s2; s \<leftarrow> rt_schedule s; Some (Return (RT_EOK, Some (p, n)), q2, s) })"
      by (rule pop_item [OF q1(1) c]) (rule that)
    then show ?thesis using that e(1) by (simp add: rt_data_queue_pop_resumed_def)
  qed
  have "rt_data_queue_push None i p n timeout (q, s) = Option.bind (rt_schedule s1) (\<lambda>s2. Some (Return RT_EOK, q1, s2))"
    using q1(5) w s1(1) by (simp add: rt_ipc_list_resume_def)
  then show ?thesis using s1(2,6) w e(2) c pop by (intro exI [of _ q1] exI [of _ s1]) simp
qed

section \<open>The kernel invariant\<close>

lemma inv_dq_wait:
  "dq_wait l timeout s = Some (t, s') \<Longrightarrow> kernel_inv s \<Longrightarrow> (\<And>p. l \<noteq> ReadyQ p) \<Longrightarrow> kernel_inv s'"
  unfolding dq_wait_def by (auto simp: Option.bind_eq_Some_conv Let_def dest!: inv_ipc_wait)

lemma inv_push_room:
  "dq_push_room None i x (q, s) = Some (r, q', s') \<Longrightarrow> kernel_inv s \<Longrightarrow> kernel_inv s'"
  unfolding dq_push_room_def
  by (auto simp: Option.bind_eq_Some_conv dq_event_def split: if_splits dest!: inv_list_resume inv_schedule)

lemma inv_pop_item:
  "dq_pop_item None i (q, s) = Some (r, q', s') \<Longrightarrow> kernel_inv s \<Longrightarrow> kernel_inv s'"
  unfolding dq_pop_item_def
  by (auto simp: Option.bind_eq_Some_conv dq_event_def split: if_splits dest!: inv_list_resume inv_schedule)

lemma inv_dq_loop:
  assumes "dq_loop l ready body fail timeout st = Some r" "kernel_inv (snd st)"
    and body: "\<And>q s r q' s'. body (q, s) = Some (r, q', s') \<Longrightarrow> kernel_inv s \<Longrightarrow> kernel_inv s'"
    and l: "\<And>p. l \<noteq> ReadyQ p"
  shows "kernel_inv (snd (snd r))"
proof -
  let ?ok = "\<lambda>l b. (\<forall>q s r q' s'. b (q, s) = Some (r, q', s') \<longrightarrow> kernel_inv s \<longrightarrow> kernel_inv s') \<and> (\<forall>p. l \<noteq> ReadyQ p)"
  have "?ok l body \<longrightarrow> kernel_inv (snd st) \<longrightarrow> kernel_inv (snd (snd r))"
  proof (rule dq_loop.raw_induct
      [where P = "\<lambda>l g b f timeout st r. ?ok l b \<longrightarrow> kernel_inv (snd st) \<longrightarrow> kernel_inv (snd (snd r))", OF _ assms(1)], intro impI)
    fix loop :: "lid \<Rightarrow> (rt_data_queue \<Rightarrow> bool) \<Rightarrow> (rt_data_queue \<times> kstate \<Rightarrow> ('a \<times> rt_data_queue \<times> kstate) option) \<Rightarrow>
        (rt_err_t \<Rightarrow> 'a) \<Rightarrow> int \<Rightarrow> rt_data_queue \<times> kstate \<Rightarrow> ((unit, 'a) outcome \<times> rt_data_queue \<times> kstate) option"
      and l g b f timeout st and r :: "(unit, 'a) outcome \<times> rt_data_queue \<times> kstate"
    assume IH: "\<And>l g b f timeout st r. loop l g b f timeout st = Some r \<Longrightarrow> ?ok l b \<longrightarrow> kernel_inv (snd st) \<longrightarrow> kernel_inv (snd (snd r))"
      and step: "(if g (fst st) then map_option (apfst Return) (b st)
        else if timeout = 0 then Some (Return (f (- RT_ETIMEOUT)), st)
        else Option.bind (dq_wait l timeout (snd st)) (\<lambda>(t, s). Option.bind (rt_schedule s) (\<lambda>s.
          if cur_thread s = Some t then
            (if thread_error (threads s t) \<noteq> RT_EOK then Some (Return (f (thread_error (threads s t))), fst st, s)
             else loop l g b f timeout (fst st, s))
          else Some (Blocked (), fst st, s)))) = Some r"
      and ok: "?ok l b" and inv: "kernel_inv (snd st)"
    show "kernel_inv (snd (snd r))"
    proof (cases "g (fst st) \<or> timeout = 0")
      case True
      then show ?thesis using step ok inv by (cases st) (auto split: if_splits)
    next
      case False
      then obtain t s1 s2 where s: "dq_wait l timeout (snd st) = Some (t, s1)" "rt_schedule s1 = Some s2"
          "(if cur_thread s2 = Some t then
              (if thread_error (threads s2 t) \<noteq> RT_EOK then Some (Return (f (thread_error (threads s2 t))), fst st, s2)
               else loop l g b f timeout (fst st, s2))
            else Some (Blocked (), fst st, s2)) = Some r"
        using step by (auto simp: Option.bind_eq_Some_conv)
      have "kernel_inv s2" using inv_schedule [OF s(2)] inv_dq_wait [OF s(1) inv] ok by blast
      then show ?thesis using s(3) IH [of l g b f timeout "(fst st, s2)" r] ok by (auto split: if_splits)
    qed
  qed
  then show ?thesis using assms(2) body l by blast
qed

lemma inv_data_queue_push:
  "rt_data_queue_push None i p n timeout (q, s) = Some (r, q', s') \<Longrightarrow> kernel_inv s \<Longrightarrow> kernel_inv s'"
  "rt_data_queue_push_resumed None i p n timeout t (q, s) = Some (r, q', s') \<Longrightarrow> kernel_inv s \<Longrightarrow> kernel_inv s'"
  using inv_dq_loop [of "DqPush i" "\<lambda>q. \<not> dq_is_full q" "dq_push_room None i (p, n)" "\<lambda>e. e" timeout "(q, s)" "(r, q', s')"]
    inv_push_room [of i "(p, n)"]
  by (auto simp: rt_data_queue_push_def rt_data_queue_push_resumed_def dq_push_loop_def Option.bind_eq_Some_conv split: if_splits)

lemma inv_data_queue_pop:
  "rt_data_queue_pop None i timeout (q, s) = Some (x, q', s') \<Longrightarrow> kernel_inv s \<Longrightarrow> kernel_inv s'"
  "rt_data_queue_pop_resumed None i timeout t (q, s) = Some (x, q', s') \<Longrightarrow> kernel_inv s \<Longrightarrow> kernel_inv s'"
  using inv_dq_loop [of "DqPop i" "\<lambda>q. \<not> dq_is_empty q" "dq_pop_item None i" "\<lambda>e. (e, None)" timeout "(q, s)" "(x, q', s')"]
    inv_pop_item [of i]
  by (auto simp: rt_data_queue_pop_def rt_data_queue_pop_resumed_def dq_pop_loop_def Option.bind_eq_Some_conv split: if_splits)

lemma inv_data_queue_reset:
  "rt_data_queue_reset i (q, s) = Some (q', s') \<Longrightarrow> kernel_inv s \<Longrightarrow> kernel_inv s'"
  unfolding rt_data_queue_reset_def rt_enter_critical_def
  by (auto simp: Option.bind_eq_Some_conv Let_def dest!: inv_list_resume_all inv_schedule inv_exit_critical)

end
