(* ===== verification/Kernel.thy ===== *)
theory Kernel
  imports Semaphore Mutex Event Mailbox MsgQueue MemPool Idle Completion DataQueue
begin

text \<open>
  The kernel as a transition system: a step is one call of the kernel's interface by the running
  thread, the continuation of a blocked call, a tick interrupt, or a round of the timer thread.
  Every state that can be reached keeps the kernel invariant.
\<close>

section \<open>Creation and deletion of communication objects\<close>

definition ipc_obj :: "oid \<Rightarrow> bool" where
  "ipc_obj x \<longleftrightarrow> (\<exists>i. x \<in> {SemObj i, MutexObj i, EventObj i, MbObj i, MqObj i, MpObj i})"

lemma inv_object_allocate:
  assumes "rt_object_allocate blk ty name s = Some (r, s')" "kernel_inv s" "\<And>x. blk = Some x \<Longrightarrow> ipc_obj x"
  shows "kernel_inv s'"
proof (cases blk)
  case None
  then show ?thesis using assms(1,2) by (auto simp: rt_object_allocate_def Option.bind_eq_Some_conv)
next
  case (Some x)
  have z: "kernel_inv (zero_object x s) = kernel_inv s"
    using assms(3) [OF Some] unfolding ipc_obj_def
    by (intro kernel_inv_cong) (auto simp: zero_object_def)
  show ?thesis using assms(1,2) Some z
    by (auto simp: rt_object_allocate_def Option.bind_eq_Some_conv Let_def obj_link_front_def)
qed

lemma inv_ipc_create:
  "rt_sem_create blk name v flag s = Some (x, s') \<Longrightarrow> kernel_inv s \<Longrightarrow> kernel_inv s'"
  "rt_mutex_create blk name flag s = Some (x, s') \<Longrightarrow> kernel_inv s \<Longrightarrow> kernel_inv s'"
  "rt_event_create blk name flag s = Some (x, s') \<Longrightarrow> kernel_inv s \<Longrightarrow> kernel_inv s'"
  unfolding rt_sem_create_def rt_mutex_create_def rt_event_create_def rt_ipc_object_init_def
  by (auto simp: Option.bind_eq_Some_conv Let_def ipc_obj_def split: option.splits
      dest!: inv_object_allocate)

lemma inv_mb_create: "rt_mb_create blk pool name sz flag s = Some (x, s') \<Longrightarrow> kernel_inv s \<Longrightarrow> kernel_inv s'"
  unfolding rt_mb_create_def rt_ipc_object_init_def set_mb_def
  by (cases blk; cases pool) (auto simp: Option.bind_eq_Some_conv Let_def ipc_obj_def
      dest!: inv_object_allocate inv_object_delete)

lemma inv_mq_create: "rt_mq_create blk pool name sz msgs flag s = Some (x, s') \<Longrightarrow> kernel_inv s \<Longrightarrow> kernel_inv s'"
  unfolding rt_mq_create_def rt_ipc_object_init_def set_mq_def
  by (cases blk; cases pool) (auto simp: Option.bind_eq_Some_conv Let_def ipc_obj_def split: if_splits
      dest!: inv_object_allocate inv_object_delete)

lemma inv_mp_create: "rt_mp_create blk mem name n bs s = Some (x, s') \<Longrightarrow> kernel_inv s \<Longrightarrow> kernel_inv s'"
  unfolding rt_mp_create_def rt_ipc_object_init_def
  by (cases blk) (auto simp: Option.bind_eq_Some_conv Let_def ipc_obj_def split: if_splits
      dest!: inv_object_allocate inv_object_delete)

lemma inv_ipc_delete:
  "rt_sem_delete i s = Some (r, s') \<Longrightarrow> kernel_inv s \<Longrightarrow> kernel_inv s'"
  "rt_mutex_delete i s = Some (r, s') \<Longrightarrow> kernel_inv s \<Longrightarrow> kernel_inv s'"
  "rt_event_delete i s = Some (r, s') \<Longrightarrow> kernel_inv s \<Longrightarrow> kernel_inv s'"
  "rt_mb_delete i s = Some (r, s') \<Longrightarrow> kernel_inv s \<Longrightarrow> kernel_inv s'"
  "rt_mq_delete i s = Some (r, s') \<Longrightarrow> kernel_inv s \<Longrightarrow> kernel_inv s'"
  "rt_mp_delete i s = Some (r, s') \<Longrightarrow> kernel_inv s \<Longrightarrow> kernel_inv s'"
  unfolding rt_sem_delete_def rt_mutex_delete_def rt_event_delete_def rt_mb_delete_def rt_mq_delete_def
    rt_mp_delete_def
  by (auto simp: Option.bind_eq_Some_conv Let_def dest!: inv_list_resume_all inv_object_delete)

lemma inv_sem_take_resumed: "rt_sem_take_resumed t s = Some (r, s') \<Longrightarrow> kernel_inv s \<Longrightarrow> kernel_inv s'"
  by (auto simp: rt_sem_take_resumed_def)

lemma inv_mutex_take_resumed: "rt_mutex_take_resumed t s = Some (r, s') \<Longrightarrow> kernel_inv s \<Longrightarrow> kernel_inv s'"
  by (auto simp: rt_mutex_take_resumed_def)

lemma inv_event_recv_resumed: "rt_event_recv_resumed t s = Some (r, s') \<Longrightarrow> kernel_inv s \<Longrightarrow> kernel_inv s'"
  by (auto simp: rt_event_recv_resumed_def split: if_splits)

lemma inv_timer_delete: "rt_timer_delete tm s = Some (r, s') \<Longrightarrow> kernel_inv s \<Longrightarrow> kernel_inv s'"
  by (auto simp: rt_timer_delete_def Option.bind_eq_Some_conv Let_def dest!: inv_object_delete)

section \<open>Steps\<close>

text \<open>The functions of the user's timers are \<open>cb\<close>.  The conditions of some of the rules are the
  caller's part of the contract: a thread or timer that is initialised is on no list, the heap returns a
  block that is not in use, a thread that is started or deleted exists, and a thread that exits has
  not suspended itself before.  \<open>thread_reclaim\<close> is a round of the idle thread's loop.\<close>

inductive kernel_step :: "(nat \<Rightarrow> kstate \<Rightarrow> kstate option) \<Rightarrow> kstate \<Rightarrow> kstate \<Rightarrow> bool" for cb where
  tick: "SysTick_Handler cb s = Some s' \<Longrightarrow> kernel_step cb s s'"
| soft_timers: "rt_soft_timer_check cb s = Some s' \<Longrightarrow> kernel_step cb s s'"
| timer_wait: "timer_thread_wait s = Some (r, s') \<Longrightarrow> kernel_step cb s s'"
| schedule: "rt_schedule s = Some s' \<Longrightarrow> kernel_step cb s s'"
| lock: "kernel_step cb s (rt_enter_critical s)"
| unlock: "rt_exit_critical s = Some s' \<Longrightarrow> kernel_step cb s s'"
| thread_init: "rt_thread_init t nm e a st sz p tk s = Some (r, s') \<Longrightarrow>
    tm_link (timers s (ThreadTimer t)) = None \<Longrightarrow> kernel_step cb s s'"
| thread_create: "rt_thread_create blk stk nm e a sz p tk s = Some (x1, s') \<Longrightarrow>
    (\<And>t. blk = Some t \<Longrightarrow> unused_block t s) \<Longrightarrow> kernel_step cb s s'"
| thread_startup: "rt_thread_startup t s = Some (r, s') \<Longrightarrow> t_link (threads s t) = None \<Longrightarrow> kernel_step cb s s'"
| thread_delete: "rt_thread_delete t s = Some (r, s') \<or> rt_thread_detach t s = Some (r, s') \<Longrightarrow>
    (stat_of s t = RT_THREAD_INIT \<longrightarrow> t_link (threads s t) = None) \<Longrightarrow>
    stat_of s t \<in> {RT_THREAD_INIT, RT_THREAD_READY, RT_THREAD_SUSPEND, RT_THREAD_CLOSE} \<Longrightarrow> kernel_step cb s s'"
| thread_exit: "rt_thread_exit s = Some s' \<Longrightarrow> cur_thread s = Some t \<Longrightarrow> stat_of s t = RT_THREAD_READY \<Longrightarrow>
    kernel_step cb s s'"
| thread_reclaim: "reclaim_thread t s = Some s' \<Longrightarrow> t \<in> set (lists s Defunct) \<Longrightarrow> kernel_step cb s s'"
| thread_yield: "rt_thread_yield s = Some (r, s') \<Longrightarrow> kernel_step cb s s'"
| thread_sleep: "rt_thread_sleep n s = Some (q, s') \<or> rt_thread_sleep_resumed t s = Some (q, s') \<Longrightarrow> kernel_step cb s s'"
| thread_delay_until: "rt_thread_delay_until n m s = Some (q2, s') \<or> rt_thread_delay_until_resumed t s = Some (q2, s') \<Longrightarrow>
    kernel_step cb s s'"
| thread_suspend: "rt_thread_suspend t s = Some (r, s') \<Longrightarrow> kernel_step cb s s'"
| thread_resume: "rt_thread_resume t s = Some (r, s') \<Longrightarrow> kernel_step cb s s'"
| thread_priority: "rt_thread_control t (RT_THREAD_CTRL_CHANGE_PRIORITY p) s = Some (r, s') \<Longrightarrow> kernel_step cb s s'"
| timer_init: "rt_timer_init tm nm f time flag s = Some s' \<Longrightarrow> tm_link (timers s tm) = None \<Longrightarrow> kernel_step cb s s'"
| timer_start: "rt_timer_start tm s = Some (r, s') \<Longrightarrow> kernel_step cb s s'"
| timer_stop: "rt_timer_stop tm s = Some (r, s') \<Longrightarrow> kernel_step cb s s'"
| timer_control: "rt_timer_control tm c s = Some (v, s') \<Longrightarrow> kernel_step cb s s'"
| timer_remove: "rt_timer_detach tm s = Some (r, s') \<or> rt_timer_delete tm s = Some (r, s') \<Longrightarrow> kernel_step cb s s'"
| sem_new: "rt_sem_init i nm v flag s = Some (r, s') \<or> rt_sem_create blk nm v flag s = Some (x, s') \<Longrightarrow> kernel_step cb s s'"
| sem_end: "rt_sem_detach i s = Some (r, s') \<or> rt_sem_delete i s = Some (r, s') \<Longrightarrow> kernel_step cb s s'"
| sem_take: "rt_sem_take i time s = Some (q, s') \<or> rt_sem_take_resumed t s = Some (q, s') \<Longrightarrow> kernel_step cb s s'"
| sem_release: "rt_sem_release i s = Some (r, s') \<Longrightarrow> kernel_step cb s s'"
| sem_control: "rt_sem_control i c1 s = Some (r, s') \<Longrightarrow> kernel_step cb s s'"
| mutex_new: "rt_mutex_init i nm flag s = Some (r, s') \<or> rt_mutex_create blk nm flag s = Some (x, s') \<Longrightarrow> kernel_step cb s s'"
| mutex_end: "rt_mutex_detach i s = Some (r, s') \<or> rt_mutex_delete i s = Some (r, s') \<Longrightarrow> kernel_step cb s s'"
| mutex_take: "rt_mutex_take i time s = Some (q, s') \<or> rt_mutex_take_resumed t s = Some (q, s') \<Longrightarrow> kernel_step cb s s'"
| mutex_release: "rt_mutex_release i s = Some (r, s') \<Longrightarrow> kernel_step cb s s'"
| event_new: "rt_event_init i nm flag s = Some (r, s') \<or> rt_event_create blk nm flag s = Some (x, s') \<Longrightarrow> kernel_step cb s s'"
| event_end: "rt_event_detach i s = Some (r, s') \<or> rt_event_delete i s = Some (r, s') \<Longrightarrow> kernel_step cb s s'"
| event_send: "rt_event_send i v s = Some (r, s') \<Longrightarrow> kernel_step cb s s'"
| event_recv: "rt_event_recv i v opt time s = Some (q1, s') \<or> rt_event_recv_resumed t s = Some (q1, s') \<Longrightarrow> kernel_step cb s s'"
| event_control: "rt_event_control i c1 s = Some (r, s') \<Longrightarrow> kernel_step cb s s'"
| mb_new: "rt_mb_init i nm pool sz flag s = Some (r, s') \<or> rt_mb_create blk mem nm sz flag s = Some (x, s') \<Longrightarrow> kernel_step cb s s'"
| mb_end: "rt_mb_detach i s = Some (r, s') \<or> rt_mb_delete i s = Some (r, s') \<Longrightarrow> kernel_step cb s s'"
| mb_send: "rt_mb_send_wait i v time s = Some (q3, s') \<or> rt_mb_send_wait_resumed i v t loc s = Some (q3, s') \<Longrightarrow> kernel_step cb s s'"
| mb_recv: "rt_mb_recv i time s = Some (q4, s') \<or> rt_mb_recv_resumed i t loc s = Some (q4, s') \<Longrightarrow> kernel_step cb s s'"
| mb_control: "rt_mb_control i c1 s = Some (r, s') \<Longrightarrow> kernel_step cb s s'"
| mq_new: "rt_mq_init i nm bytes msz psz flag s = Some (r, s') \<or> rt_mq_create blk mem2 nm msz psz flag s = Some (x, s') \<Longrightarrow>
    kernel_step cb s s'"
| mq_end: "rt_mq_detach i s = Some (r, s') \<or> rt_mq_delete i s = Some (r, s') \<Longrightarrow> kernel_step cb s s'"
| mq_send: "rt_mq_send_wait i buf sz time s = Some (q3, s') \<or> rt_mq_send_wait_resumed i buf sz t loc s = Some (q3, s') \<Longrightarrow>
    kernel_step cb s s'"
| mq_urgent: "rt_mq_urgent i buf sz s = Some (r, s') \<Longrightarrow> kernel_step cb s s'"
| mq_recv: "rt_mq_recv i sz time s = Some (q5, s') \<or> rt_mq_recv_resumed i sz t loc s = Some (q5, s') \<Longrightarrow> kernel_step cb s s'"
| mq_control: "rt_mq_control i c1 s = Some (r, s') \<Longrightarrow> kernel_step cb s s'"
| mp_new: "rt_mp_init i nm sz bsz s = Some (r, s') \<or> rt_mp_create blk mem3 nm n bsz s = Some (x, s') \<Longrightarrow> kernel_step cb s s'"
| mp_end: "rt_mp_detach i s = Some (r, s') \<or> rt_mp_delete i s = Some (r, s') \<Longrightarrow> kernel_step cb s s'"
| mp_alloc: "rt_mp_alloc i time s = Some (q6, s') \<or> rt_mp_alloc_resumed i t loc s = Some (q6, s') \<Longrightarrow> kernel_step cb s s'"
| completion: "rt_completion_wait c time (b, s) = Some (q, b', s') \<or> rt_completion_done c (b, s) = Some (b', s') \<Longrightarrow>
    kernel_step cb s s'"
| dq_push: "rt_data_queue_push None i v sz1 time (dq, s) = Some (q, dq', s') \<or>
    rt_data_queue_push_resumed None i v sz1 time t (dq, s) = Some (q, dq', s') \<Longrightarrow> kernel_step cb s s'"
| dq_pop: "rt_data_queue_pop None i time (dq, s) = Some (q7, dq', s') \<or>
    rt_data_queue_pop_resumed None i time t (dq, s) = Some (q7, dq', s') \<Longrightarrow> kernel_step cb s s'"
| dq_reset: "rt_data_queue_reset i (dq, s) = Some (dq', s') \<Longrightarrow> kernel_step cb s s'"
| mp_free: "rt_mp_free block s = Some s' \<Longrightarrow> kernel_step cb s s'"

lemma kernel_step_inv: "kernel_step cb s s' \<Longrightarrow> kernel_inv s \<Longrightarrow> cb_ok cb \<Longrightarrow> kernel_inv s'"
proof (induction rule: kernel_step.induct)
  case (thread_delete t s r s')
  then show ?case using inv_thread_delete [of t s r s'] inv_thread_detach [of t s r s'] by blast
next
  case (thread_exit s s' t)
  then show ?case using inv_thread_exit [of s s'] by auto
next
  case (thread_sleep n s q s' t)
  then show ?case using inv_thread_sleep inv_sleep_resumed by blast
next
  case (thread_delay_until n m s q2 s' t)
  then show ?case using inv_thread_delay_until inv_delay_until_resumed by blast
next
  case (thread_create blk stk nm e a sz p tk s x1 s')
  then show ?case using inv_thread_create by blast
qed (blast dest: inv_dest inv_thread_init inv_reclaim_thread inv_timer_init inv_change_priority inv_timer_delete inv_ipc_create
    inv_ipc_delete inv_mb_create inv_mq_create inv_mp_create inv_sem_take_resumed inv_mutex_take_resumed
    inv_event_recv_resumed inv_completion_wait inv_completion_done inv_data_queue_push inv_data_queue_pop
    inv_data_queue_reset | simp)+

section \<open>Reachable states\<close>

definition kernel_boot :: kstate where
  "kernel_boot = rt_system_timer_init (rt_system_scheduler_init kstate0)"

lemma kernel_boot_inv: "kernel_inv kernel_boot"
proof -
  have "sched_inv kernel_boot"
    using sched_inv_init by (simp add: kernel_boot_def rt_system_timer_init_def cong: sched_inv_cong)
  moreover have "tlinks_ok kernel_boot"
    by (auto simp: tlinks_ok_def kernel_boot_def rt_system_timer_init_def rt_system_scheduler_init_def kstate0_def)
  ultimately show ?thesis by (rule kernel_invI)
qed

lemma kernel_reachable_inv:
  assumes "(kernel_step cb)\<^sup>*\<^sup>* s s'" "kernel_inv s" "cb_ok cb"
  shows "kernel_inv s'"
  using assms by (induction rule: rtranclp_induct) (auto dest: kernel_step_inv)



section \<open>Examples\<close>

lemma demo_reach: "(kernel_step (\<lambda>_. Some))\<^sup>*\<^sup>* kernel_boot (rt_enter_critical kernel_boot)"
  by (rule r_into_rtranclp) (rule kernel_step.lock)



end
