(* ===== verification/Params.thy ===== *)
theory Params
  imports Prelude
begin

text \<open>
  The settings of the controller in \<open>/params.dat\<close>: \<open>para_write\<close> and \<open>para_read\<close> of
  \<open>applications/main.c\<close>.  They use the file system through four operations on one file: opening it
  (creating it or not), reading and writing at its beginning, and formatting the device.  The
  locale \<open>file_store\<close> says what those promise; \<open>flash_ops\<close>, a device that is formatted or not and
  holds the bytes of the file if it exists, provides them.
\<close>

section \<open>The file interface\<close>

record 'f file_ops =
  f_open :: "bool \<Rightarrow> 'f \<Rightarrow> 'f option"
  f_read :: "nat \<Rightarrow> 'f \<Rightarrow> u8 list"
  f_write :: "u8 list \<Rightarrow> 'f \<Rightarrow> 'f"
  f_mkfs :: "'f \<Rightarrow> 'f"

section \<open>Reading and writing the settings\<close>

definition high_byte :: "u16 \<Rightarrow> u8" where
  "high_byte v = ucast (drop_bit 8 (v AND 0xff00))"

definition low_byte :: "u16 \<Rightarrow> u8" where
  "low_byte v = ucast (v AND 0x00ff)"

text \<open>The file is opened for writing only, without \<open>O_CREAT\<close>.\<close>

definition para_write :: "'f file_ops \<Rightarrow> int \<Rightarrow> int \<Rightarrow> 'f \<Rightarrow> 'f" where
  "para_write ops voltage_set_obay current_set_obay f =
     (let v = word_of_int voltage_set_obay; c = word_of_int current_set_obay;
          params = [high_byte v, low_byte v, high_byte c, low_byte c] in
      case f_open ops False f of
        None \<Rightarrow> f
      | Some f \<Rightarrow> f_write ops params f)"

text \<open>The array of five bytes is zero before it is read into; the pair is
  \<open>(voltage_set, current_set)\<close>.\<close>

definition para_read :: "'f file_ops \<Rightarrow> int \<times> int \<Rightarrow> 'f \<Rightarrow> (int \<times> int) \<times> 'f" where
  "para_read ops setting f =
     (case f_open ops True f of
        Some f \<Rightarrow>
          (let got = f_read ops 5 f; params = got @ replicate (5 - length got) 0 in
           if params ! 0 > 0 \<or> params ! 1 > 0 \<or> params ! 2 > 0 \<or> params ! 3 > 0
           then ((uint (params ! 0) * 256 + uint (params ! 1), uint (params ! 2) * 256 + uint (params ! 3)), f)
           else (setting, para_write ops (fst setting) (snd setting) f))
      | None \<Rightarrow> (setting, para_write ops (fst setting) (snd setting) (f_mkfs ops f)))"

section \<open>Bytes of a 16-bit value\<close>

lemma and_255: "w AND 255 = take_bit 8 (w :: u16)"
  by (simp add: take_bit_eq_mask mask_eq_exp_minus_1)

lemma high_mask: "drop_bit 8 (w AND 0xff00) = drop_bit 8 (w :: u16) AND 255"
  by (simp add: drop_bit_and)

lemma byte_values:
  "unat (low_byte w) = unat w mod 256" "unat (high_byte w) = unat w div 256"
proof -
  show "unat (low_byte w) = unat w mod 256"
    unfolding low_byte_def and_255 by (simp only: unsigned_ucast_eq unsigned_take_bit_eq) (simp add: take_bit_eq_mod)
  have "unat w div 256 < 256" using unsigned_less [of w] by (simp add: div_less_iff_less_mult)
  then show "unat (high_byte w) = unat w div 256"
    unfolding high_byte_def high_mask and_255
    by (simp only: unsigned_ucast_eq unsigned_take_bit_eq unsigned_drop_bit_eq) (simp add: take_bit_eq_mod drop_bit_eq_div)
qed

lemma join_bytes: "uint (high_byte w) * 256 + uint (low_byte w) = uint w"
proof -
  have "unat (high_byte w) * 256 + unat (low_byte w) = unat w" by (simp add: byte_values)
  from arg_cong [OF this, of int] show ?thesis by simp
qed

lemma bytes_zero: "high_byte w = 0 \<and> low_byte w = 0 \<longleftrightarrow> w = 0"
proof
  assume "high_byte w = 0 \<and> low_byte w = 0"
  then show "w = 0" using join_bytes [of w] by (simp add: unsigned_eq_0_iff)
next
  assume "w = 0"
  then show "high_byte w = 0 \<and> low_byte w = 0" by (simp add: high_byte_def low_byte_def)
qed

section \<open>What the file operations promise\<close>

text \<open>\<open>stored f\<close> is the content of the file, \<open>None\<close> when it does not exist; \<open>usable f\<close> says that a
  file can be created.\<close>

locale file_store =
  fixes ops :: "'f file_ops" and stored :: "'f \<Rightarrow> u8 list option" and usable :: "'f \<Rightarrow> bool"
  assumes open_existing: "stored f = Some bs \<Longrightarrow> \<exists>f'. f_open ops creat f = Some f' \<and> stored f' = Some bs"
    and open_missing: "stored f = None \<Longrightarrow> f_open ops False f = None"
    and open_create: "stored f = None \<Longrightarrow> usable f \<Longrightarrow> \<exists>f'. f_open ops True f = Some f' \<and> stored f' = Some []"
    and open_unusable: "stored f = None \<Longrightarrow> \<not> usable f \<Longrightarrow> f_open ops True f = None"
    and read_stored: "stored f = Some bs \<Longrightarrow> f_read ops n f = take n bs"
    and write_stored: "stored f = Some bs \<Longrightarrow> stored (f_write ops ws f) = Some (ws @ drop (length ws) bs)"
    and mkfs_empty: "stored (f_mkfs ops f) = None"
begin

lemma write_existing:
  "stored f = Some bs \<Longrightarrow>
   stored (para_write ops v c f) =
     Some ([high_byte (word_of_int v), low_byte (word_of_int v), high_byte (word_of_int c), low_byte (word_of_int c)]
       @ drop 4 bs)"
  using open_existing [of f bs False] by (auto simp: para_write_def Let_def write_stored eval_nat_numeral)

lemma write_missing: "stored f = None \<Longrightarrow> para_write ops v c f = f"
  by (simp add: para_write_def open_missing)

lemma read_bytes:
  assumes bs: "stored f = Some ([a, b, c, d] @ rest)" and nz: "a > 0 \<or> b > 0 \<or> c > 0 \<or> d > 0"
  shows "fst (para_read ops setting f) = (uint a * 256 + uint b, uint c * 256 + uint d)"
proof -
  obtain f' where f': "f_open ops True f = Some f'" "stored f' = Some ([a, b, c, d] @ rest)"
    using open_existing [OF bs] by blast
  have got: "f_read ops 5 f' = [a, b, c, d] @ take 1 rest" using read_stored [OF f'(2), of 5] by simp
  have nth: "(([a, b, c, d] @ ys) @ zs) ! 0 = a" "(([a, b, c, d] @ ys) @ zs) ! 1 = b"
    "(([a, b, c, d] @ ys) @ zs) ! 2 = c" "(([a, b, c, d] @ ys) @ zs) ! 3 = d" for ys zs
    by simp_all
  show ?thesis unfolding para_read_def f'(1) option.case got Let_def nth if_P [OF nz] fst_conv ..
qed

lemma read_written:
  assumes "stored f = Some ([high_byte v, low_byte v, high_byte c, low_byte c] @ rest)" and nz: "v \<noteq> 0 \<or> c \<noteq> 0"
  shows "fst (para_read ops setting f) = (uint v, uint c)"
proof -
  have "0 < high_byte v \<or> 0 < low_byte v \<or> 0 < high_byte c \<or> 0 < low_byte c"
    using nz bytes_zero [of v] bytes_zero [of c] unfolding word_gt_0 by argo
  from read_bytes [OF assms(1) this] show ?thesis by (simp only: join_bytes)
qed

text \<open>A file that exists and does not yet hold any settings gets the current ones.\<close>

lemma read_initialises:
  assumes "stored f = None" "usable f"
  shows "\<exists>f'. para_read ops setting f = (setting, f') \<and>
    stored f' = Some [high_byte (word_of_int (fst setting)), low_byte (word_of_int (fst setting)),
                      high_byte (word_of_int (snd setting)), low_byte (word_of_int (snd setting))]"
proof -
  obtain f' where f': "f_open ops True f = Some f'" "stored f' = Some []"
    using open_create [OF assms] by blast
  then have "f_read ops 5 f' = []" using read_stored by simp
  then show ?thesis using f' by (simp add: para_read_def Let_def write_existing)
qed

lemma read_unusable:
  assumes "stored f = None" "\<not> usable f"
  shows "para_read ops setting f = (setting, f_mkfs ops f)"
  by (simp add: para_read_def open_unusable [OF assms] write_missing [OF mkfs_empty])

end

section \<open>The flash device\<close>

record flash =
  formatted :: bool
  params_dat :: "u8 list option"

definition flash_ops :: "flash file_ops" where
  "flash_ops =
     \<lparr>f_open = (\<lambda>creat f. case params_dat f of
          Some _ \<Rightarrow> if formatted f then Some f else None
        | None \<Rightarrow> if creat \<and> formatted f then Some (f\<lparr>params_dat := Some []\<rparr>) else None),
      f_read = (\<lambda>n f. case params_dat f of Some bs \<Rightarrow> take n bs | None \<Rightarrow> []),
      f_write = (\<lambda>ws f. f\<lparr>params_dat := map_option (\<lambda>bs. ws @ drop (length ws) bs) (params_dat f)\<rparr>),
      f_mkfs = (\<lambda>f. f\<lparr>formatted := True, params_dat := None\<rparr>)\<rparr>"

definition flash_stored :: "flash \<Rightarrow> u8 list option" where
  "flash_stored f = (if formatted f then params_dat f else None)"

text \<open>The four operations on the device are the interface the two routines rely on.\<close>

interpretation flash: file_store flash_ops flash_stored formatted
  by unfold_locales (auto simp: flash_ops_def flash_stored_def split: option.splits if_splits)

section \<open>The settings survive\<close>

theorem para_roundtrip:
  assumes "flash_stored f = Some bs" "v < 65536" "c < 65536" "0 \<le> v" "0 \<le> c" "v \<noteq> 0 \<or> c \<noteq> 0"
  shows "fst (para_read flash_ops setting (para_write flash_ops v c f)) = (v, c)"
proof -
  have u: "uint (word_of_int v :: u16) = v" "uint (word_of_int c :: u16) = c"
    using assms(2-5) by (simp_all add: uint_word_of_int)
  have nz: "(word_of_int v :: u16) \<noteq> 0 \<or> (word_of_int c :: u16) \<noteq> 0"
    using assms(6) u by (metis uint_0_eq)
  from flash.read_written [OF flash.write_existing [OF assms(1)] nz] show ?thesis
    unfolding u .
qed

text \<open>The file is created by \<open>para_read\<close> only: settings that arrive before the first start of a
  charge are lost without notice, and the first start stores the settings of the program.\<close>

theorem para_write_lost:
  assumes "flash_stored f = None" "formatted f" "0 < fst setting" "fst setting < 65536"
    "0 \<le> snd setting" "snd setting < 65536"
  shows "\<exists>f'. para_read flash_ops setting (para_write flash_ops v c f) = (setting, f') \<and>
           fst (para_read flash_ops other f') = setting"
proof -
  obtain f' where f': "para_read flash_ops setting f = (setting, f')"
    "flash_stored f' = Some [high_byte (word_of_int (fst setting)), low_byte (word_of_int (fst setting)),
       high_byte (word_of_int (snd setting)), low_byte (word_of_int (snd setting))]"
    using flash.read_initialises [OF assms(1,2)] by blast
  have u: "uint (word_of_int (fst setting) :: u16) = fst setting" "uint (word_of_int (snd setting) :: u16) = snd setting"
    using assms(3-6) by (simp_all add: uint_word_of_int)
  have nz: "(word_of_int (fst setting) :: u16) \<noteq> 0 \<or> (word_of_int (snd setting) :: u16) \<noteq> 0"
    using assms(3) u by (metis less_irrefl uint_0_eq)
  have "flash_stored f' = Some ([high_byte (word_of_int (fst setting)), low_byte (word_of_int (fst setting)),
       high_byte (word_of_int (snd setting)), low_byte (word_of_int (snd setting))] @ [])"
    using f'(2) by (simp only: append_Nil2)
  from flash.read_written [OF this nz, of other] have "fst (para_read flash_ops other f') = setting"
    unfolding u prod.collapse .
  then show ?thesis unfolding flash.write_missing [OF assms(1)] using f'(1) by blast
qed

section \<open>Examples\<close>

lemma para_roundtrip_witness:
  "fst (para_read flash_ops (500, 1500)
     (para_write flash_ops 300 1200 \<lparr>formatted = True, params_dat = Some [1, 2, 3, 4, 5]\<rparr>)) = (300, 1200)"
  by (rule para_roundtrip [where bs = "[1, 2, 3, 4, 5]"]) (simp_all add: flash_stored_def)

lemma para_write_lost_witness:
  "\<exists>f'. para_read flash_ops (500, 1500) (para_write flash_ops 300 1200 \<lparr>formatted = True, params_dat = None\<rparr>)
          = ((500, 1500), f') \<and> fst (para_read flash_ops (0, 0) f') = (500, 1500)"
  by (rule para_write_lost) (simp_all add: flash_stored_def)

end
