(* ===== verification/Uart.thy ===== *)
theory Uart
  imports Params
begin

text \<open>
  The serial protocol of \<open>applications/uart_sample.c\<close>: what \<open>serial_thread_entry\<close> does with a byte
  it has read.  The byte 1 asks for the seven readings; the byte 2 announces a voltage and a current
  setting of two bytes each, which go to the file of the settings.  Waiting for a byte is in
  \<open>Controller\<close>.
\<close>

section \<open>One byte\<close>

record uart =
  start :: nat
  voltage_recv :: u16
  current_recv :: u16

text \<open>\<open>(((unsigned char)x) & 0xff00) >> 8\<close> and \<open>((unsigned char)x) & 0x00ff\<close>: the conversion comes
  before the mask.\<close>

definition report_high :: "int \<Rightarrow> u8" where
  "report_high x = ucast (drop_bit 8 ((ucast (word_of_int x :: u8) :: u32) AND 0xff00))"

definition report_low :: "int \<Rightarrow> u8" where
  "report_low x = ucast ((ucast (word_of_int x :: u8) :: u32) AND 0x00ff)"

text \<open>The bytes that are written, and the variable \<open>ch\<close> at the end of the loop.\<close>

definition serial_report :: "int list \<Rightarrow> u8 list \<times> u8" where
  "serial_report adc_voltage =
     (let out = concat (map (\<lambda>x. [report_high x, report_low x]) adc_voltage) in (out, List.last out))"

definition serial_param :: "'f file_ops \<Rightarrow> u8 \<Rightarrow> uart \<times> 'f \<Rightarrow> uart \<times> 'f" where
  "serial_param ops ch st =
     (case st of (u, f) \<Rightarrow>
      if ch = 2 \<and> start u = 0 then (u\<lparr>start := 1\<rparr>, f)
      else if start u = 1 then (u\<lparr>voltage_recv := push_bit 8 (ucast ch), start := start u + 1\<rparr>, f)
      else if start u = 2 then (u\<lparr>voltage_recv := voltage_recv u + ucast ch, start := start u + 1\<rparr>, f)
      else if start u = 3 then (u\<lparr>current_recv := push_bit 8 (ucast ch), start := start u + 1\<rparr>, f)
      else if start u = 4 then
        (let u = u\<lparr>current_recv := current_recv u + ucast ch, start := 0\<rparr>
         in (u, para_write ops (uint (voltage_recv u)) (uint (current_recv u)) f))
      else (u, f))"

definition serial_byte :: "'f file_ops \<Rightarrow> int list \<Rightarrow> u8 \<Rightarrow> uart \<times> 'f \<Rightarrow> u8 list \<times> uart \<times> 'f" where
  "serial_byte ops adc_voltage ch st =
     (let (out, ch) = (if ch = 1 \<and> start (fst st) = 0 then serial_report adc_voltage else ([], ch))
      in (out, serial_param ops ch st))"

section \<open>Sequences of bytes\<close>

text \<open>The readings may change between the bytes: each comes with the readings of its time.\<close>

fun serial_run :: "'f file_ops \<Rightarrow> (int list \<times> u8) list \<Rightarrow> uart \<times> 'f \<Rightarrow> u8 list \<times> uart \<times> 'f" where
  "serial_run ops [] st = ([], st)"
| "serial_run ops ((adc, ch) # bs) st =
     (let (out, st) = serial_byte ops adc ch st; (outs, st) = serial_run ops bs st in (out @ outs, st))"

text \<open>\<open>start\<close> never leaves its range, whatever arrives.\<close>

lemma serial_byte_start: "start (fst st) \<le> 4 \<Longrightarrow> start (fst (snd (serial_byte ops adc ch st))) \<le> 4"
  by (cases st) (auto simp: serial_byte_def serial_param_def split_beta Let_def)

lemma serial_run_start: "start (fst st) \<le> 4 \<Longrightarrow> start (fst (snd (serial_run ops bs st))) \<le> 4"
proof (induction bs arbitrary: st)
  case Nil
  then show ?case by simp
next
  case (Cons b bs)
  obtain adc ch where b: "b = (adc, ch)" by (cases b)
  have "start (fst (snd (serial_byte ops adc ch st))) \<le> 4" by (rule serial_byte_start [OF Cons.prems])
  from Cons.IH [OF this] show ?case by (simp add: b split_beta Let_def)
qed

section \<open>Settings\<close>

lemma join_recv: "(push_bit 8 (ucast a) :: u16) + ucast b = word_of_int (uint (a :: u8) * 256 + uint (b :: u8))"
  by (simp add: push_bit_eq_mult mult.commute)

lemma uint_join_recv: "uint ((push_bit 8 (ucast a) :: u16) + ucast b) = uint (a :: u8) * 256 + uint (b :: u8)"
proof -
  have "uint a < 256" "uint b < 256" using uint_bounded [of a] uint_bounded [of b] by simp_all
  then have "(uint a * 256 + uint b) mod 2 ^ LENGTH(16) = uint a * 256 + uint b" by simp
  then show ?thesis unfolding join_recv uint_word_of_int .
qed

text \<open>The byte 2 and four more store the two values they spell, no matter what the bytes are, and
  nothing is sent.\<close>

lemma serial_frame:
  assumes "start u = 0"
  shows "serial_run ops [(r0, 2), (r1, vh), (r2, vl), (r3, ch), (r4, cl)] (u, f) =
     ([], \<lparr>start = 0, voltage_recv = push_bit 8 (ucast vh) + ucast vl, current_recv = push_bit 8 (ucast ch) + ucast cl\<rparr>,
      para_write ops (uint vh * 256 + uint vl) (uint ch * 256 + uint cl) f)"
  using assms
  by (simp add: serial_byte_def serial_param_def Let_def uint_join_recv)


text \<open>Whatever arrived before, the line is idle again after at most four more bytes.\<close>

lemma serial_byte_advance:
  "0 < start u \<Longrightarrow> start u \<le> 4 \<Longrightarrow> start (fst (snd (serial_byte ops adc ch (u, f)))) = (start u + 1) mod 5"
proof -
  assume "0 < start u" "start u \<le> 4"
  then have "start u \<in> {1, 2, 3, 4}" by auto
  then show ?thesis by (auto simp: serial_byte_def serial_param_def Let_def)
qed

theorem serial_resync:
  assumes "start (fst st) \<le> 4" "length bytes = (5 - start (fst st)) mod 5"
  shows "start (fst (snd (serial_run ops bytes st))) = 0"
  using assms
proof (induction bytes arbitrary: st)
  case Nil
  then have "start (fst st) \<in> {0, 1, 2, 3, 4}" by auto
  then show ?case using Nil(2) by auto
next
  case (Cons b bytes)
  obtain adc ch u f where b: "b = (adc, ch)" "st = (u, f)" by (cases b, cases st) blast
  have u: "0 < start u" using Cons.prems b by (cases "start u = 0") auto
  have n: "start (fst (snd (serial_byte ops adc ch st))) = (start u + 1) mod 5"
    using serial_byte_advance [OF u, of ops adc ch f] Cons.prems(1) b(2) by simp
  have "start (fst (snd (serial_run ops bytes (snd (serial_byte ops adc ch st))))) = 0"
  proof (rule Cons.IH)
    show "start (fst (snd (serial_byte ops adc ch st))) \<le> 4" unfolding n by linarith
    have "start u \<in> {1, 2, 3, 4}" using u Cons.prems(1) b(2) by auto
    then show "length bytes = (5 - start (fst (snd (serial_byte ops adc ch st)))) mod 5"
      unfolding n using Cons.prems(2) b(2) by auto
  qed
  then show ?case by (simp add: b(1) split_beta Let_def)
qed

section \<open>Readings\<close>

lemma byte_mask: "drop_bit 8 ((ucast (w :: u8) :: u32) AND 0xff00) = 0" "(ucast w :: u32) AND 0x00ff = ucast w"
proof -
  have le: "unat w < 256" using unsigned_less [of w] by simp
  have "unat (drop_bit 8 (ucast w :: u32)) = 0"
    using le by (simp only: unsigned_drop_bit_eq unsigned_ucast_eq) (simp add: take_bit_eq_mod drop_bit_eq_div)
  then have "drop_bit 8 (ucast w :: u32) = 0" by (simp only: unsigned_eq_0_iff)
  moreover have "drop_bit 8 ((ucast w :: u32) AND 0xff00) = drop_bit 8 (ucast w :: u32) AND 255"
    by (simp add: drop_bit_and)
  ultimately show "drop_bit 8 ((ucast w :: u32) AND 0xff00) = 0" by simp
  have "(ucast w :: u32) AND 255 = take_bit 8 (ucast w)" by (simp add: take_bit_eq_mask mask_eq_exp_minus_1)
  moreover have "unat (take_bit 8 (ucast w :: u32)) = unat (ucast w :: u32)"
    using le by (simp only: unsigned_take_bit_eq unsigned_ucast_eq) (simp add: take_bit_eq_mod)
  ultimately show "(ucast w :: u32) AND 0x00ff = ucast w" by (simp add: word_unat_eq_iff)
qed

lemma report_high_zero [simp]: "report_high x = 0"
  by (simp only: report_high_def byte_mask ucast_0)

lemma report_low_byte: "report_low x = word_of_int x"
proof -
  have "(ucast (ucast w :: u32) :: u8) = w" for w :: u8
    by (rule ucast_up_ucast_id) (simp add: is_up_def source_size_def target_size_def)
  then show ?thesis by (simp only: report_low_def byte_mask)
qed

lemma report_eq:
  "serial_report adc = (concat (map (\<lambda>x. [0, word_of_int x]) adc), List.last (concat (map (\<lambda>x. [0, word_of_int x]) adc)))"
  by (simp add: serial_report_def report_low_byte Let_def)

lemma last_report: "adc \<noteq> [] \<Longrightarrow> List.last (concat (map (\<lambda>x. [0, word_of_int x]) adc)) = word_of_int (List.last adc)"
  by (induction adc) auto

text \<open>A report has two bytes for each reading, but the first is always 0: readings that differ by
  256 look the same to the host.\<close>

theorem report_loses_high_byte:
  "fst (serial_report adc) = concat (map (\<lambda>x. [0, word_of_int x]) adc) \<and>
   serial_report (map (\<lambda>x. x + 256) adc) = serial_report adc"
proof -
  have "(256 :: u8) = 0" by simp
  then have "(word_of_int (x + 256) :: u8) = word_of_int x" for x by (simp only: of_int_add of_int_numeral add_0_right)
  then show ?thesis by (simp only: report_eq map_map comp_def fst_conv)
qed

text \<open>After a report the variable of the received byte holds the last byte sent.  When that is 2,
  the request also starts the reception of settings, and the next four bytes are taken as such.\<close>

theorem report_may_start_frame:
  assumes "start u = 0" "word_of_int (List.last adc) = (2 :: u8)" "adc \<noteq> []"
  shows "snd (serial_run ops [(adc, 1), (r1, vh), (r2, vl), (r3, ch), (r4, cl)] (u, f)) =
     (\<lparr>start = 0, voltage_recv = push_bit 8 (ucast vh) + ucast vl, current_recv = push_bit 8 (ucast ch) + ucast cl\<rparr>,
      para_write ops (uint vh * 256 + uint vl) (uint ch * 256 + uint cl) f)"
  using assms
  by (simp add: serial_byte_def serial_param_def Let_def uint_join_recv report_eq last_report)

section \<open>Examples\<close>

definition idle_uart :: uart where
  "idle_uart = \<lparr>start = 0, voltage_recv = 0, current_recv = 0\<rparr>"


lemma serial_resync_witness:
  "start (fst (snd (serial_run flash_ops [([], 2), ([], 9)]
     (\<lparr>start = 3, voltage_recv = 7, current_recv = 0\<rparr>, \<lparr>formatted = True, params_dat = None\<rparr>)))) = 0"
  by (rule serial_resync) simp_all

lemma report_may_start_frame_witness:
  "snd (serial_run flash_ops [([0, 258], 1), ([], 1), ([], 1), ([], 1), ([], 1)]
      (idle_uart, \<lparr>formatted = True, params_dat = Some []\<rparr>)) =
     (\<lparr>start = 0, voltage_recv = push_bit 8 (ucast (1 :: u8)) + ucast (1 :: u8),
       current_recv = push_bit 8 (ucast (1 :: u8)) + ucast (1 :: u8)\<rparr>,
      para_write flash_ops (uint (1 :: u8) * 256 + uint (1 :: u8)) (uint (1 :: u8) * 256 + uint (1 :: u8))
        \<lparr>formatted = True, params_dat = Some []\<rparr>)"
  by (rule report_may_start_frame) (simp_all add: idle_uart_def)

end
