(* ===== verification/AdcFilter.thy ===== *)
theory AdcFilter
  imports Prelude
begin

text \<open>
  The arithmetic of \<open>applications/AD_read.c\<close>: conversion of a sample to hundredths of a volt, the
  first-order low-pass filter in single precision, and the table that raises the conduction
  percentage with the measured voltage.

  All values are non-negative, so integers are natural numbers; \<open>reading_bounds\<close> shows that nothing
  comes near the range of \<open>int\<close>.
\<close>

section \<open>Single precision\<close>

text \<open>A non-negative float is an integral multiple of \<open>2^-27\<close> here: both factors of the filter are,
  and the products with integers below \<open>2^20\<close> are exact multiples, so that rounding to the 24 bits
  of a significand, to nearest and ties to even, is all there is to the float operations.\<close>

fun bitlen :: "nat \<Rightarrow> nat" where
  "bitlen n = (if n = 0 then 0 else Suc (bitlen (n div 2)))"

declare bitlen.simps [simp del]

definition fl24 :: "nat \<Rightarrow> nat" where
  "fl24 n =
     (if n < 2 ^ 24 then n
      else (let d = bitlen n - 24; q = n div 2 ^ d; r = n mod 2 ^ d in
            (if 2 ^ d < 2 * r \<or> (2 ^ d = 2 * r \<and> odd q) then q + 1 else q) * 2 ^ d))"

text \<open>\<open>0.1\<close> as a float is \<open>13421773 * 2^-27\<close>; \<open>1 - 0.1f\<close> rounds to \<open>15099494 * 2^-24\<close>.\<close>

definition filter_factor :: nat where
  "filter_factor = 13421773"

definition filter_rest :: nat where
  "filter_rest = 8 * 15099494"

section \<open>The sampling thread's arithmetic\<close>

definition REFER_VOLTAGE :: nat where
  "REFER_VOLTAGE = 330"

definition CONVERT_BITS :: nat where
  "CONVERT_BITS = 2 ^ 12"

text \<open>The product is computed in 32-bit unsigned arithmetic.\<close>

definition adc_convert :: "u32 \<Rightarrow> nat" where
  "adc_convert raw = unat (raw * of_nat REFER_VOLTAGE) div CONVERT_BITS"

definition adc_filter :: "nat \<Rightarrow> nat \<Rightarrow> nat" where
  "adc_filter v prev = fl24 (fl24 (v * filter_factor) + fl24 (filter_rest * prev)) div 2 ^ 27"

text \<open>One pass over the seven channels; the filtered values are also the next \<open>last_voltage\<close>.\<close>

definition read_knob_vol :: "u32 list \<Rightarrow> nat list \<Rightarrow> nat list" where
  "read_knob_vol raws prev = map2 adc_filter (map adc_convert raws) prev"

definition voltage_percentage_table :: "nat list list" where
  "voltage_percentage_table =
     [[5,10,15,20,25,30,35,40,45,50,55,60,65,70,75,80,85,90,95,100],
      [5,10,15,20,25,30,35,40,45,50,55,60,65,70,75,80,85,90,95,100]]"

text \<open>The search for the first row entry that applies; the last entry is never tried.\<close>

fun percentage_scan :: "nat \<Rightarrow> nat \<Rightarrow> nat \<Rightarrow> nat \<Rightarrow> nat option" where
  "percentage_scan 0 j volt pct = None"
| "percentage_scan (Suc k) j volt pct =
     (if voltage_percentage_table ! 0 ! j \<le> volt \<and> pct \<le> voltage_percentage_table ! 1 ! j
      then Some (voltage_percentage_table ! 1 ! (j + 1))
      else percentage_scan k (j + 1) volt pct)"

definition percentage_next :: "nat \<Rightarrow> nat \<Rightarrow> nat option" where
  "percentage_next volt pct = (if pct < 100 then percentage_scan 19 0 volt pct else None)"

section \<open>Rounding errors\<close>

lemma bitlen_bounds: "0 < n \<Longrightarrow> 2 ^ (bitlen n - 1) \<le> n \<and> n < 2 ^ bitlen n"
proof (induction n rule: bitlen.induct)
  case (1 n)
  show ?case
  proof (cases "n div 2 = 0")
    case True
    then have "n = 1" using 1(2) by linarith
    then show ?thesis by (simp add: bitlen.simps)
  next
    case False
    then have ih: "2 ^ (bitlen (n div 2) - 1) \<le> n div 2" "n div 2 < 2 ^ bitlen (n div 2)" using 1 by auto
    have b: "bitlen n = Suc (bitlen (n div 2))" using 1(2) by (subst bitlen.simps) simp
    have "0 < bitlen (n div 2)" using False by (subst bitlen.simps) simp
    then have "(2::nat) ^ bitlen (n div 2) = 2 * 2 ^ (bitlen (n div 2) - 1)"
      by (metis Suc_pred' power_Suc)
    moreover have "n = 2 * (n div 2) + n mod 2" "n mod 2 < 2" by simp_all
    ultimately show ?thesis using ih unfolding b power_Suc diff_Suc_1 by linarith
  qed
qed

lemma fl24_error: "fl24 n * 2 ^ 24 \<le> n * (2 ^ 24 + 1)" "n * (2 ^ 24 - 1) \<le> fl24 n * 2 ^ 24"
proof -
  have "fl24 n * 2 ^ 24 \<le> n * (2 ^ 24 + 1) \<and> n * (2 ^ 24 - 1) \<le> fl24 n * 2 ^ 24"
  proof (cases "n < 2 ^ 24")
    case True
    then show ?thesis by (simp add: fl24_def)
  next
    case False
    define d q r where "d = bitlen n - 24" and "q = n div 2 ^ d" and "r = n mod 2 ^ d"
    have n: "n = q * 2 ^ d + r" "r < 2 ^ d" unfolding q_def r_def by (simp_all only: div_mult_mod_eq) simp
    have "2 ^ 24 \<le> n" "0 < n" using False by simp_all
    then have "(2::nat) ^ 24 < 2 ^ bitlen n" using bitlen_bounds [of n] by (meson le_less_trans)
    then have "24 < bitlen n" by (rule power_less_imp_less_exp [rotated]) simp
    then have "bitlen n - 1 = d + 23" by (simp add: d_def)
    then have big: "2 ^ d * 2 ^ 23 \<le> n" using bitlen_bounds [of n] \<open>0 < n\<close> by (simp add: power_add)
    have fl: "fl24 n = (if 2 ^ d < 2 * r \<or> (2 ^ d = 2 * r \<and> odd q) then q + 1 else q) * 2 ^ d"
      using False by (simp add: fl24_def Let_def d_def q_def r_def)
    show ?thesis
    proof (cases "2 ^ d < 2 * r \<or> (2 ^ d = 2 * r \<and> odd q)")
      case True
      then have "fl24 n + r = n + 2 ^ d" "2 ^ d \<le> 2 * r" using fl n by auto
      then show ?thesis using big n by (auto simp: algebra_simps)
    next
      case False
      then have "fl24 n + r = n" "2 * r \<le> 2 ^ d" using fl n by auto
      then show ?thesis using big by (auto simp: algebra_simps)
    qed
  qed
  then show "fl24 n * 2 ^ 24 \<le> n * (2 ^ 24 + 1)" "n * (2 ^ 24 - 1) \<le> fl24 n * 2 ^ 24" by auto
qed

text \<open>The value before truncation, between the exact weighted sum and the accumulated errors.\<close>

lemma filter_sum:
  assumes "v < 2 ^ 16" "l < 2 ^ 16"
  shows "10 * fl24 (fl24 (v * filter_factor) + fl24 (filter_rest * l)) \<le> (v + 9 * l) * 2 ^ 27 + 2 ^ 25"
    "(v + 9 * l) * 2 ^ 27 \<le> 10 * fl24 (fl24 (v * filter_factor) + fl24 (filter_rest * l)) + 2 ^ 25"
proof -
  have arith: "10 * x \<le> (v + 9 * l) * 2 ^ 27 + 2 ^ 25 \<and> (v + 9 * l) * 2 ^ 27 \<le> 10 * x + 2 ^ 25"
    if "a * 2 ^ 24 \<le> v * filter_factor * (2 ^ 24 + 1)" "v * filter_factor * (2 ^ 24 - 1) \<le> a * 2 ^ 24"
      "b * 2 ^ 24 \<le> filter_rest * l * (2 ^ 24 + 1)" "filter_rest * l * (2 ^ 24 - 1) \<le> b * 2 ^ 24"
      "x * 2 ^ 24 \<le> (a + b) * (2 ^ 24 + 1)" "(a + b) * (2 ^ 24 - 1) \<le> x * 2 ^ 24" for a b x :: nat
    using that assms unfolding filter_factor_def filter_rest_def by simp
  show "10 * fl24 (fl24 (v * filter_factor) + fl24 (filter_rest * l)) \<le> (v + 9 * l) * 2 ^ 27 + 2 ^ 25"
    "(v + 9 * l) * 2 ^ 27 \<le> 10 * fl24 (fl24 (v * filter_factor) + fl24 (filter_rest * l)) + 2 ^ 25"
    using arith [OF fl24_error fl24_error fl24_error] by auto
qed

lemma filter_near_mean_aux:
  assumes "v < 2 ^ 16" "l < 2 ^ 16"
  shows "adc_filter v l \<le> (v + 9 * l) div 10 \<and> (v + 9 * l) div 10 \<le> adc_filter v l + 1"
proof -
  let ?x = "fl24 (fl24 (v * filter_factor) + fl24 (filter_rest * l))"
  note s = filter_sum [OF assms]
  have f: "adc_filter v l = ?x div 2 ^ 27" by (simp add: adc_filter_def)
  have "x div 2 ^ 27 * 2 ^ 27 \<le> x \<and> x < x div 2 ^ 27 * 2 ^ 27 + 2 ^ 27" for x :: nat
    by simp
  then have "?x div 2 ^ 27 * 2 ^ 27 \<le> ?x" "?x < ?x div 2 ^ 27 * 2 ^ 27 + 2 ^ 27" by blast+
  then show ?thesis using s unfolding f by simp linarith
qed

text \<open>The filter computes the weighted mean of the input and the last value, rounded down, or one
  less.\<close>

theorem filter_near_mean:
  assumes "v < 2 ^ 16" "l < 2 ^ 16"
  shows "adc_filter v l \<in> {(v + 9 * l) div 10 - 1, (v + 9 * l) div 10}"
  using filter_near_mean_aux [OF assms] by auto


text \<open>A rounding of less than one never takes the reading past a constant input it comes up to.\<close>

lemma filter_below: "v < 2 ^ 16 \<Longrightarrow> l \<le> v \<Longrightarrow> adc_filter v l \<le> v"
  using filter_near_mean_aux [of v l] by linarith

lemma filter_far: "v < 2 ^ 16 \<Longrightarrow> l + 11 \<le> v \<Longrightarrow> l < adc_filter v l"
proof -
  assume v: "v < 2 ^ 16" and l: "l + 11 \<le> v"
  then have "l < 2 ^ 16" by simp
  note s = filter_sum(2) [OF v this]
  let ?x = "fl24 (fl24 (v * filter_factor) + fl24 (filter_rest * l))"
  have "(l + 1) * 2 ^ 27 \<le> ?x" using s l by simp
  then have "l + 1 \<le> ?x div 2 ^ 27" by (simp add: less_eq_div_iff_mult_less_eq)
  then show ?thesis by (simp add: adc_filter_def)
qed

lemma filter_near: "v < 2 ^ 16 \<Longrightarrow> l + 1 \<le> v \<Longrightarrow> l \<le> adc_filter v l"
proof -
  assume v: "v < 2 ^ 16" and l: "l + 1 \<le> v"
  then have "l < 2 ^ 16" by simp
  note s = filter_sum(2) [OF v this]
  let ?x = "fl24 (fl24 (v * filter_factor) + fl24 (filter_rest * l))"
  have "l * 2 ^ 27 \<le> ?x" using s l by simp
  then have "l \<le> ?x div 2 ^ 27" by (simp add: less_eq_div_iff_mult_less_eq)
  then show ?thesis by (simp add: adc_filter_def)
qed


section \<open>The range of the readings\<close>

lemma adc_convert_bound: "adc_convert raw < 2 ^ 20"
proof -
  have "unat (raw * of_nat REFER_VOLTAGE) < 2 ^ 32" using unsigned_less [of "raw * of_nat REFER_VOLTAGE"] by simp
  then show ?thesis by (simp add: adc_convert_def CONVERT_BITS_def div_less_iff_less_mult)
qed

lemma adc_convert_12bit: "raw < 4096 \<Longrightarrow> adc_convert raw = unat raw * 330 div 4096"
  by (simp add: adc_convert_def CONVERT_BITS_def REFER_VOLTAGE_def unat_word_ariths word_less_nat_alt)

lemma adc_convert_12bit_le: "raw < 4096 \<Longrightarrow> adc_convert raw \<le> 329"
  by (simp add: adc_convert_12bit word_less_nat_alt)

lemma read_knob_bound:
  assumes "\<forall>raw\<in>set raws. raw < 4096" "\<forall>l\<in>set prev. l \<le> 329"
  shows "\<forall>l\<in>set (read_knob_vol raws prev). l \<le> 329"
proof
  fix l
  assume "l \<in> set (read_knob_vol raws prev)"
  then obtain k where k: "k < length raws" "k < length prev" "l = adc_filter (adc_convert (raws ! k)) (prev ! k)"
    by (auto simp: read_knob_vol_def in_set_zip)
  then have "adc_convert (raws ! k) \<le> 329" "prev ! k \<le> 329" using assms adc_convert_12bit_le by auto
  then show "l \<le> 329" using filter_near_mean_aux [of "adc_convert (raws ! k)" "prev ! k"] k(3) by auto
qed

text \<open>C29. With a 12-bit converter the reading never exceeds 329, whatever the samples: a voltage setting
  of 330 or more, such as the default of 500, is never reached.\<close>

theorem reading_bounds:
  assumes "\<forall>raws\<in>set samples. \<forall>raw\<in>set raws. raw < 4096" "\<forall>l\<in>set prev. l \<le> 329"
  shows "\<forall>l\<in>set (fold read_knob_vol samples prev). l \<le> 329"
  using assms
proof (induction samples arbitrary: prev)
  case Nil
  then show ?case by simp
next
  case (Cons raws samples)
  then have "\<forall>l\<in>set (read_knob_vol raws prev). l \<le> 329" by (intro read_knob_bound) auto
  then show ?case using Cons.IH [of "read_knob_vol raws prev"] Cons.prems(1) by simp
qed

section \<open>The conduction percentage\<close>

definition percentages :: "nat set" where
  "percentages = (\<lambda>k. 5 * k) ` {1..20}"

lemma table_nth:
  assumes "j < 20"
  shows "voltage_percentage_table ! 0 ! j = 5 * (j + 1)" "voltage_percentage_table ! 1 ! j = 5 * (j + 1)"
proof -
  have "voltage_percentage_table ! 0 = map (\<lambda>j. 5 * (j + 1)) [0..<20]"
    "voltage_percentage_table ! 1 = map (\<lambda>j. 5 * (j + 1)) [0..<20]"
    by (simp_all add: voltage_percentage_table_def upt_rec)
  then show "voltage_percentage_table ! 0 ! j = 5 * (j + 1)" "voltage_percentage_table ! 1 ! j = 5 * (j + 1)"
    using assms by simp_all
qed

lemma percentage_scan_eq:
  "k + j \<le> 19 \<Longrightarrow> percentage_scan k j volt (5 * m) =
     (if max m (j + 1) \<le> k + j \<and> 5 * max m (j + 1) \<le> volt then Some (5 * (max m (j + 1) + 1)) else None)"
proof (induction k arbitrary: j)
  case 0
  then show ?case by simp
next
  case (Suc k)
  show ?case
  proof (cases "m \<le> j + 1")
    case True
    show ?thesis
    proof (cases "5 * (j + 1) \<le> volt")
      case True
      then show ?thesis using \<open>m \<le> j + 1\<close> Suc.prems by (simp add: table_nth [simplified] max_def)
    next
      case False
      then show ?thesis using \<open>m \<le> j + 1\<close> Suc.prems Suc.IH [of "j + 1"] by (simp add: table_nth [simplified] max_def)
    qed
  next
    case False
    then have "max m (j + 1 + 1) = m" "max m (j + 1) = m" by simp_all
    then show ?thesis using False Suc.prems Suc.IH [of "j + 1"] by (simp add: table_nth [simplified])
  qed
qed

lemma percentage_next_eq:
  assumes "pct \<in> percentages"
  shows "percentage_next volt pct = (if pct < 100 \<and> pct \<le> volt then Some (pct + 5) else None)"
proof -
  obtain m where m: "pct = 5 * m" "1 \<le> m" "m \<le> 20" using assms by (auto simp: percentages_def)
  then show ?thesis using percentage_scan_eq [of 19 0 volt m] by (auto simp: percentage_next_def max_def)
qed

text \<open>The variable \<open>percentage_set\<close> over one round.\<close>

definition percentage_update :: "nat \<Rightarrow> nat \<Rightarrow> nat" where
  "percentage_update volt pct = (case percentage_next volt pct of Some p \<Rightarrow> p | None \<Rightarrow> pct)"

text \<open>C30. The search steps to the next multiple of five exactly while the measured voltage has reached
  the present percentage, and stops at one hundred: from the initial five percent, the percentage
  after any sequence of readings is a multiple of five from 5 to 100 and never decreases.\<close>

theorem percentage_climbs:
  "let pct = fold percentage_update volts 5 in
     pct \<in> percentages \<and> pct \<le> 5 * (length volts + 1) \<and>
     percentage_update volt pct = (if pct < 100 \<and> pct \<le> volt then pct + 5 else pct)"
proof -
  have step: "percentage_update volt pct = (if pct < 100 \<and> pct \<le> volt then pct + 5 else pct)"
    "percentage_update volt pct \<in> percentages" if p: "pct \<in> percentages" for volt pct
  proof -
    show 1: "percentage_update volt pct = (if pct < 100 \<and> pct \<le> volt then pct + 5 else pct)"
      using percentage_next_eq [OF p] by (simp add: percentage_update_def)
    obtain k where "pct = 5 * k" "1 \<le> k" "k \<le> 20" using p by (auto simp: percentages_def)
    then show "percentage_update volt pct \<in> percentages" unfolding 1
      using p by (auto simp: percentages_def intro: image_eqI [of _ _ "k + 1"])
  qed
  have "p \<in> percentages \<Longrightarrow> fold percentage_update volts p \<in> percentages \<and>
      fold percentage_update volts p \<le> p + 5 * length volts" for p
  proof (induction volts arbitrary: p)
    case Nil
    then show ?case by simp
  next
    case (Cons v vs)
    have "percentage_update v p \<le> p + 5" unfolding step(1) [OF Cons.prems] by simp
    then show ?case using Cons.IH [OF step(2) [OF Cons.prems, of v]] by auto
  qed
  moreover have "5 \<in> percentages" unfolding percentages_def by (rule image_eqI [of _ _ 1]) simp_all
  ultimately have f: "fold percentage_update volts 5 \<in> percentages \<and> fold percentage_update volts 5 \<le> 5 * (length volts + 1)"
    by fastforce
  then show ?thesis using step(1) by (simp add: Let_def)
qed

end
