(* ===== verification/SerialRx.thy ===== *)
theory SerialRx
  imports Fifo
begin

text \<open>
  The receive buffer of the serial driver (\<open>components/drivers/serial/serial.c\<close>) in interrupt mode,
  the mode \<open>uart_sample.c\<close> opens the line in: the interrupt handler stores the bytes of the
  hardware, discarding the oldest when the buffer is full, and the thread reads them one by one.
\<close>

section \<open>The buffer and its operations\<close>

record rt_serial_rx_fifo =
  rx_buffer :: "u8 list"
  put_index :: u16
  get_index :: u16
  is_full :: bool

text \<open>\<open>bufsz\<close> is a 16-bit field of the device's configuration; the indices are incremented in 16
  bits.  An access outside the buffer is undefined.\<close>

definition next_index :: "u16 \<Rightarrow> u16 \<Rightarrow> u16" where
  "next_index bufsz i = (let i = i + 1 in if i \<ge> bufsz then 0 else i)"

definition serial_rx_open :: "u16 \<Rightarrow> rt_serial_rx_fifo" where
  "serial_rx_open bufsz = \<lparr>rx_buffer = replicate (unat bufsz) 0, put_index = 0, get_index = 0, is_full = False\<rparr>"

definition serial_rx_byte :: "u16 \<Rightarrow> u8 \<Rightarrow> rt_serial_rx_fifo \<Rightarrow> rt_serial_rx_fifo option" where
  "serial_rx_byte bufsz ch q = do {
     c_defined (unat (put_index q) < length (rx_buffer q));
     let q = q\<lparr>rx_buffer := (rx_buffer q)[unat (put_index q) := ch]\<rparr>;
     let q = q\<lparr>put_index := next_index bufsz (put_index q)\<rparr>;
     Some (if put_index q = get_index q
           then q\<lparr>get_index := next_index bufsz (get_index q), is_full := True\<rparr> else q)
   }"

fun serial_rx_bytes :: "u16 \<Rightarrow> u8 list \<Rightarrow> rt_serial_rx_fifo \<Rightarrow> rt_serial_rx_fifo option" where
  "serial_rx_bytes bufsz [] q = Some q"
| "serial_rx_bytes bufsz (ch # cs) q = Option.bind (serial_rx_byte bufsz ch q) (serial_rx_bytes bufsz cs)"

definition serial_rx_length :: "u16 \<Rightarrow> rt_serial_rx_fifo \<Rightarrow> u32" where
  "serial_rx_length bufsz q =
     (if put_index q \<ge> get_index q then ucast (put_index q) - ucast (get_index q)
      else ucast bufsz - (ucast (get_index q) - ucast (put_index q)))"

text \<open>The receive event of \<open>rt_hw_serial_isr\<close>: the bytes the hardware holds, then the callback of
  the client, once, if the buffer is not empty.\<close>

definition serial_isr_rx ::
  "u16 \<Rightarrow> u8 list \<Rightarrow> (u32 \<Rightarrow> 's \<Rightarrow> 's option) option \<Rightarrow> rt_serial_rx_fifo \<Rightarrow> 's \<Rightarrow> (rt_serial_rx_fifo \<times> 's) option" where
  "serial_isr_rx bufsz cs rx_indicate q s = do {
     q \<leftarrow> serial_rx_bytes bufsz cs q;
     case rx_indicate of
       None \<Rightarrow> Some (q, s)
     | Some f \<Rightarrow>
         if serial_rx_length bufsz q \<noteq> 0 then map_option (Pair q) (f (serial_rx_length bufsz q) s) else Some (q, s)
   }"

text \<open>One round of the loop in \<open>_serial_int_rx\<close>; \<open>Some None\<close> is an empty buffer.\<close>

definition serial_rx_take :: "u16 \<Rightarrow> rt_serial_rx_fifo \<Rightarrow> (u8 \<times> rt_serial_rx_fifo) option option" where
  "serial_rx_take bufsz q =
     (if get_index q = put_index q \<and> \<not> is_full q then Some None
      else do {
        c_defined (unat (get_index q) < length (rx_buffer q));
        let ch = rx_buffer q ! unat (get_index q);
        let q = q\<lparr>get_index := next_index bufsz (get_index q)\<rparr>;
        Some (Some (ch, if is_full q then q\<lparr>is_full := False\<rparr> else q))
      })"

fun serial_int_rx :: "u16 \<Rightarrow> nat \<Rightarrow> rt_serial_rx_fifo \<Rightarrow> (u8 list \<times> rt_serial_rx_fifo) option" where
  "serial_int_rx bufsz 0 q = Some ([], q)"
| "serial_int_rx bufsz (Suc len) q = do {
     r \<leftarrow> serial_rx_take bufsz q;
     case r of
       None \<Rightarrow> Some ([], q)
     | Some (ch, q) \<Rightarrow> map_option (apfst ((#) ch)) (serial_int_rx bufsz len q)
   }"

section \<open>What is stored\<close>

definition rx_ok :: "u16 \<Rightarrow> rt_serial_rx_fifo \<Rightarrow> bool" where
  "rx_ok bufsz q \<longleftrightarrow> 2 \<le> unat bufsz \<and> length (rx_buffer q) = unat bufsz \<and> put_index q < bufsz \<and> get_index q < bufsz \<and>
     (is_full q \<longrightarrow> get_index q \<noteq> put_index q)"

definition rx_used :: "u16 \<Rightarrow> rt_serial_rx_fifo \<Rightarrow> nat" where
  "rx_used bufsz q = (unat (put_index q) + unat bufsz - unat (get_index q)) mod unat bufsz"

definition rx_content :: "u16 \<Rightarrow> rt_serial_rx_fifo \<Rightarrow> u8 list" where
  "rx_content bufsz q =
     map (\<lambda>k. rx_buffer q ! ((unat (get_index q) + k) mod unat bufsz)) [0..<rx_used bufsz q]"

lemma rx_okD:
  assumes "rx_ok bufsz q"
  shows "2 \<le> unat bufsz" "length (rx_buffer q) = unat bufsz" "unat (put_index q) < unat bufsz"
    "unat (get_index q) < unat bufsz" "is_full q \<Longrightarrow> get_index q \<noteq> put_index q"
  using assms by (auto simp: rx_ok_def word_less_nat_alt)

lemma next_index_unat:
  assumes "unat i < unat bufsz"
  shows "unat (next_index bufsz i) = (unat i + 1) mod unat bufsz"
proof -
  have "unat bufsz < 2 ^ 16" using unsigned_less [of bufsz] by simp
  then have u: "unat (i + 1) = unat i + 1"
    using assms by (simp add: unat_word_ariths(1))
  show ?thesis
  proof (cases "unat i + 1 = unat bufsz")
    case True
    then have "bufsz \<le> i + 1" using u by (simp add: word_le_nat_alt)
    then show ?thesis using True by (simp add: next_index_def Let_def)
  next
    case False
    then have "\<not> bufsz \<le> i + 1" using u assms by (simp add: word_le_nat_alt)
    then show ?thesis using False assms u by (simp add: next_index_def Let_def)
  qed
qed

lemma mod_step: "(a :: nat) < n \<Longrightarrow> (a + 1) mod n = (if a + 1 = n then 0 else a + 1)"
  by auto

lemma ring_diff: "(a :: nat) < n \<Longrightarrow> b < n \<Longrightarrow> (a + n - b) mod n = (if b \<le> a then a - b else a + n - b)"
  by (auto simp: mod_if)

lemma ring_index:
  assumes "(g :: nat) < n" "p < n" "k < (p + n - g) mod n"
  shows "(g + k) mod n \<noteq> p" "(g + k) mod n < n"
proof -
  show "(g + k) mod n \<noteq> p"
  proof (cases "g \<le> p")
    case True
    then show ?thesis using assms by (simp add: ring_diff)
  next
    case False
    then have k: "g + k < p + n" using assms by (simp add: ring_diff)
    show ?thesis
    proof (cases "g + k < n")
      case True
      then show ?thesis using False by simp
    next
      case False
      then have "(g + k) mod n = g + k - n" using k assms(2) by (simp add: mod_if)
      then show ?thesis using k False by simp
    qed
  qed
  show "(g + k) mod n < n" using assms(1) by simp
qed

lemma ring_end: "(g :: nat) < n \<Longrightarrow> p < n \<Longrightarrow> (g + (p + n - g) mod n) mod n = p"
  by (cases "g \<le> p") (simp_all add: ring_diff)

lemma ring_used:
  fixes p g n :: nat
  assumes "p < n" "g < n"
  shows "p \<noteq> g \<Longrightarrow> (p + n - g) mod n = Suc ((p + n - (g + 1) mod n) mod n)"
    and "2 \<le> n \<Longrightarrow> (p + 1) mod n = g \<longleftrightarrow> (p + n - g) mod n = n - 1"
    and "(p + n - g) mod n < n - 1 \<Longrightarrow> ((p + 1) mod n + n - g) mod n = Suc ((p + n - g) mod n)"
proof -
  have m: "(p + 1) mod n = (if p + 1 = n then 0 else p + 1)" "(g + 1) mod n = (if g + 1 = n then 0 else g + 1)"
    using assms by auto
  have lt: "(p + 1) mod n < n" "(g + 1) mod n < n" using assms(1) by simp_all
  note r = ring_diff [OF assms] ring_diff [OF assms(1) lt(2)] ring_diff [OF lt(1) assms(2)]
  show "p \<noteq> g \<Longrightarrow> (p + n - g) mod n = Suc ((p + n - (g + 1) mod n) mod n)"
    unfolding r unfolding m using assms by auto
  show "2 \<le> n \<Longrightarrow> (p + 1) mod n = g \<longleftrightarrow> (p + n - g) mod n = n - 1"
    unfolding r unfolding m using assms by auto
  show "(p + n - g) mod n < n - 1 \<Longrightarrow> ((p + 1) mod n + n - g) mod n = Suc ((p + n - g) mod n)"
    unfolding r unfolding m using assms by (auto split: if_splits)
qed

lemma rx_used_zero: "rx_ok bufsz q \<Longrightarrow> rx_used bufsz q = 0 \<longleftrightarrow> get_index q = put_index q"
  using rx_okD [of bufsz q] by (auto simp: rx_used_def ring_diff word_unat_eq_iff)

lemma rx_used_bound: "rx_ok bufsz q \<Longrightarrow> rx_used bufsz q \<le> unat bufsz - 1"
  using rx_okD(1) [of bufsz q] by (simp add: rx_used_def less_Suc_eq_le [symmetric])

text \<open>Reading takes the oldest byte.\<close>

lemma rx_take_none: "rx_ok bufsz q \<Longrightarrow> rx_content bufsz q = [] \<Longrightarrow> serial_rx_take bufsz q = Some None"
  using rx_used_zero [of bufsz q] rx_okD(5) [of bufsz q] by (auto simp: serial_rx_take_def rx_content_def)

lemma rx_take_some:
  assumes ok: "rx_ok bufsz q" and c: "rx_content bufsz q = ch # cs"
  shows "\<exists>q'. serial_rx_take bufsz q = Some (Some (ch, q')) \<and> rx_ok bufsz q' \<and> rx_content bufsz q' = cs"
proof -
  note d = rx_okD [OF ok]
  let ?n = "unat bufsz" and ?g = "unat (get_index q)" and ?p = "unat (put_index q)"
  have ne: "get_index q \<noteq> put_index q" using c rx_used_zero [OF ok] by (auto simp: rx_content_def)
  then have gp: "?g \<noteq> ?p" by (simp add: word_unat_eq_iff)
  let ?q = "q\<lparr>get_index := next_index bufsz (get_index q), is_full := False\<rparr>"
  have g': "unat (next_index bufsz (get_index q)) = (?g + 1) mod ?n" by (rule next_index_unat [OF d(4)])
  have ok': "rx_ok bufsz ?q" using d g' by (simp add: rx_ok_def word_less_nat_alt)
  have u: "rx_used bufsz q = Suc (rx_used bufsz ?q)"
    using ring_used(1) [OF d(3,4)] gp by (simp add: rx_used_def g')
  have "rx_content bufsz q = rx_buffer q ! ?g # rx_content bufsz ?q"
    unfolding rx_content_def u using d(4) by (simp add: map_upt_Suc g' mod_simps del: upt_Suc)
  then have "ch = rx_buffer q ! ?g" "cs = rx_content bufsz ?q" using c by simp_all
  moreover have "serial_rx_take bufsz q = Some (Some (rx_buffer q ! ?g, ?q))"
    using ne d(2,4) by (cases q) (simp add: serial_rx_take_def Let_def)
  ultimately show ?thesis using ok' by blast
qed

text \<open>Storing appends a byte; a buffer that holds one byte less than its size loses the oldest.\<close>

lemma rx_byte:
  assumes ok: "rx_ok bufsz q"
  shows "\<exists>q'. serial_rx_byte bufsz ch q = Some q' \<and> rx_ok bufsz q' \<and>
    rx_content bufsz q' =
      (if length (rx_content bufsz q) < unat bufsz - 1 then rx_content bufsz q @ [ch]
       else tl (rx_content bufsz q) @ [ch])"
proof -
  note d = rx_okD [OF ok]
  let ?n = "unat bufsz" and ?g = "unat (get_index q)" and ?p = "unat (put_index q)"
  let ?b = "(rx_buffer q)[?p := ch]"
  have l: "length (rx_content bufsz q) = rx_used bufsz q" by (simp add: rx_content_def)
  have p': "unat (next_index bufsz (put_index q)) = (?p + 1) mod ?n" by (rule next_index_unat [OF d(3)])
  have g': "unat (next_index bufsz (get_index q)) = (?g + 1) mod ?n" by (rule next_index_unat [OF d(4)])
  have full: "next_index bufsz (put_index q) = get_index q \<longleftrightarrow> rx_used bufsz q = ?n - 1"
    using ring_used(2) [OF d(3,4,1)] unfolding word_unat_eq_iff p' rx_used_def .
  have old: "map (\<lambda>k. ?b ! ((?g + k) mod ?n)) [0..<rx_used bufsz q] = rx_content bufsz q"
  proof -
    have "?b ! ((?g + k) mod ?n) = rx_buffer q ! ((?g + k) mod ?n)" if "k < rx_used bufsz q" for k
      using ring_index(1) [OF d(4,3), of k] that by (simp add: rx_used_def nth_list_update)
    then show ?thesis unfolding rx_content_def by simp
  qed
  have "(?g + rx_used bufsz q) mod ?n = ?p" unfolding rx_used_def by (rule ring_end [OF d(4) d(3)])
  then have new: "map (\<lambda>k. ?b ! ((?g + k) mod ?n)) [0..<Suc (rx_used bufsz q)] = rx_content bufsz q @ [ch]"
    using d(2,3) old by simp
  show ?thesis
  proof (cases "rx_used bufsz q = ?n - 1")
    case False
    then have lt: "rx_used bufsz q < ?n - 1" using rx_used_bound [OF ok] by simp
    let ?q = "q\<lparr>rx_buffer := ?b, put_index := next_index bufsz (put_index q)\<rparr>"
    have u: "rx_used bufsz ?q = Suc (rx_used bufsz q)"
      using ring_used(3) [OF d(3,4)] lt by (simp add: rx_used_def p')
    have "rx_content bufsz ?q = rx_content bufsz q @ [ch]"
      unfolding new [symmetric] by (simp only: rx_content_def u) simp
    moreover have "rx_ok bufsz ?q" using d p' full False by (auto simp: rx_ok_def word_less_nat_alt)
    moreover have "serial_rx_byte bufsz ch q = Some ?q"
      using d(2,3) full False by (simp add: serial_rx_byte_def Let_def)
    ultimately show ?thesis using lt l by auto
  next
    case True
    let ?q = "q\<lparr>rx_buffer := ?b, put_index := next_index bufsz (put_index q),
       get_index := next_index bufsz (get_index q), is_full := True\<rparr>"
    have pg: "next_index bufsz (put_index q) = get_index q" using full True by simp
    then have pg': "(?p + 1) mod ?n = ?g" using p' by simp
    have ne: "?g \<noteq> (?g + 1) mod ?n" using d(1,4) by (cases "?g + 1 = ?n") auto
    have u: "rx_used bufsz ?q = ?n - 1"
      using ring_used(2) [of ?g ?n "(?g + 1) mod ?n"] d(1,4) pg' by (simp add: rx_used_def p' g')
    have "rx_content bufsz ?q = tl (map (\<lambda>k. ?b ! ((?g + k) mod ?n)) [0..<Suc (rx_used bufsz q)])"
      unfolding rx_content_def u True
      by (simp add: map_upt_Suc g' mod_simps del: upt_Suc)
    also have "\<dots> = tl (rx_content bufsz q) @ [ch]"
      unfolding new using True d(1) l by (cases "rx_content bufsz q") auto
    finally have c: "rx_content bufsz ?q = tl (rx_content bufsz q) @ [ch]" .
    have "rx_ok bufsz ?q" using d p' g' pg' ne pg by (auto simp: rx_ok_def word_less_nat_alt word_unat_eq_iff)
    moreover have "serial_rx_byte bufsz ch q = Some ?q"
      using d(2,3) pg by (simp add: serial_rx_byte_def Let_def)
    ultimately show ?thesis using c True l by auto
  qed
qed

section \<open>Runs of operations\<close>

text \<open>After any number of bytes the buffer holds the newest of them, in order: all while there is
  room, and the last \<open>bufsz - 1\<close> otherwise.  The byte that would fill the last place already
  discards the oldest.\<close>

lemma rx_bytes:
  "rx_ok bufsz q \<Longrightarrow> length (rx_content bufsz q) \<le> unat bufsz - 1 \<Longrightarrow>
   \<exists>q'. serial_rx_bytes bufsz cs q = Some q' \<and> rx_ok bufsz q' \<and>
     rx_content bufsz q' = drop (length (rx_content bufsz q) + length cs - (unat bufsz - 1)) (rx_content bufsz q @ cs)"
proof (induction cs arbitrary: q)
  case Nil
  then show ?case by simp
next
  case (Cons c cs)
  let ?x = "rx_content bufsz q" and ?m = "unat bufsz - 1"
  obtain q1 where q1: "serial_rx_byte bufsz c q = Some q1" "rx_ok bufsz q1"
    "rx_content bufsz q1 = (if length ?x < ?m then ?x @ [c] else tl ?x @ [c])"
    using rx_byte [OF Cons.prems(1)] by blast
  have m: "0 < ?m" using rx_okD(1) [OF Cons.prems(1)] by simp
  have l1: "length (rx_content bufsz q1) \<le> ?m" using q1(3) Cons.prems(2) m by (auto split: if_splits)
  obtain q2 where q2: "serial_rx_bytes bufsz cs q1 = Some q2" "rx_ok bufsz q2"
    "rx_content bufsz q2 = drop (length (rx_content bufsz q1) + length cs - ?m) (rx_content bufsz q1 @ cs)"
    using Cons.IH [OF q1(2) l1] by blast
  have "rx_content bufsz q2 = drop (length ?x + length (c # cs) - ?m) (?x @ c # cs)"
  proof (cases "length ?x < ?m")
    case True
    then show ?thesis using q1(3) q2(3) by simp
  next
    case False
    then have "?x \<noteq> []" "length ?x = ?m" using m Cons.prems(2) by auto
    then have "rx_content bufsz q1 @ cs = drop 1 (?x @ c # cs)" "length (rx_content bufsz q1) = ?m"
      using q1(3) m by (cases ?x; simp)+
    then have "rx_content bufsz q2 = drop (length cs) (drop 1 (?x @ c # cs))"
      unfolding q2(3) by (simp only: add_diff_cancel_left')
    moreover have "length ?x + length (c # cs) - ?m = length cs + 1" using \<open>length ?x = ?m\<close> by simp
    ultimately show ?thesis by (simp only: drop_drop)
  qed
  then show ?case using q1(1) q2(1,2) by auto
qed

lemma rx_content_bound: "rx_ok bufsz q \<Longrightarrow> length (rx_content bufsz q) \<le> unat bufsz - 1"
  using rx_used_bound [of bufsz q] by (simp add: rx_content_def)

lemma rx_open_ok: "2 \<le> unat bufsz \<Longrightarrow> rx_ok bufsz (serial_rx_open bufsz) \<and> rx_content bufsz (serial_rx_open bufsz) = []"
  by (simp add: rx_ok_def serial_rx_open_def rx_content_def rx_used_def word_less_nat_alt)

lemma int_rx_takes:
  "rx_ok bufsz q \<Longrightarrow> \<exists>q'. serial_int_rx bufsz len q = Some (take len (rx_content bufsz q), q') \<and> rx_ok bufsz q' \<and>
     rx_content bufsz q' = drop len (rx_content bufsz q)"
proof (induction len arbitrary: q)
  case 0
  then show ?case by simp
next
  case (Suc len)
  show ?case
  proof (cases "rx_content bufsz q")
    case Nil
    then show ?thesis using rx_take_none [OF Suc.prems] Suc.prems by auto
  next
    case (Cons c cs)
    obtain q1 where q1: "serial_rx_take bufsz q = Some (Some (c, q1))" "rx_ok bufsz q1" "rx_content bufsz q1 = cs"
      using rx_take_some [OF Suc.prems Cons] by blast
    then show ?thesis using Suc.IH [OF q1(2)] Cons by auto
  qed
qed

text \<open>What the interrupt handler receives is what the thread reads, in order, except that only the
  newest \<open>bufsz - 1\<close> bytes survive when the thread is late.\<close>

theorem serial_rx_roundtrip:
  assumes "rx_ok bufsz q"
  shows "\<exists>q1 q2. serial_rx_bytes bufsz cs q = Some q1 \<and>
    serial_int_rx bufsz (unat bufsz) q1 =
      Some (drop (length (rx_content bufsz q) + length cs - (unat bufsz - 1)) (rx_content bufsz q @ cs), q2) \<and>
    rx_ok bufsz q2 \<and> rx_content bufsz q2 = []"
proof -
  obtain q1 where q1: "serial_rx_bytes bufsz cs q = Some q1" "rx_ok bufsz q1"
    "rx_content bufsz q1 = drop (length (rx_content bufsz q) + length cs - (unat bufsz - 1)) (rx_content bufsz q @ cs)"
    using rx_bytes [OF assms rx_content_bound [OF assms]] by blast
  obtain q2 where q2: "serial_int_rx bufsz (unat bufsz) q1 = Some (take (unat bufsz) (rx_content bufsz q1), q2)"
    "rx_ok bufsz q2" "rx_content bufsz q2 = drop (unat bufsz) (rx_content bufsz q1)"
    using int_rx_takes [OF q1(2)] by blast
  have "length (rx_content bufsz q1) \<le> unat bufsz" using rx_content_bound [OF q1(2)] by simp
  then show ?thesis using q1(1) q2 unfolding q1(3) [symmetric] by auto
qed

text \<open>The callback of the client runs exactly when there is something to read.\<close>

lemma rx_length_eq: "rx_ok bufsz q \<Longrightarrow> unat (serial_rx_length bufsz q) = length (rx_content bufsz q)"
proof -
  assume ok: "rx_ok bufsz q"
  note d = rx_okD [OF ok]
  let ?g = "unat (get_index q)" and ?p = "unat (put_index q)" and ?n = "unat bufsz"
  have c: "unat (ucast w :: u32) = unat w" for w :: u16
  proof -
    have "unat w < 2 ^ 16" using unsigned_less [of w] by simp
    then show ?thesis by (simp add: unsigned_ucast_eq take_bit_nat_eq_self)
  qed
  show ?thesis
  proof (cases "get_index q \<le> put_index q")
    case True
    then have "(ucast (get_index q) :: u32) \<le> ucast (put_index q)" by (simp add: word_le_nat_alt c)
    then show ?thesis using True d(3,4)
      by (simp add: serial_rx_length_def rx_content_def rx_used_def ring_diff unat_sub c word_le_nat_alt)
  next
    case False
    then have pg: "?p < ?g" by (simp add: word_le_nat_alt)
    then have 1: "(ucast (put_index q) :: u32) \<le> ucast (get_index q)" by (simp add: word_le_nat_alt c)
    have u1: "unat ((ucast (get_index q) :: u32) - ucast (put_index q)) = ?g - ?p"
      using 1 by (simp add: unat_sub c)
    have 2: "(ucast (get_index q) :: u32) - ucast (put_index q) \<le> ucast bufsz"
      using d(4) by (simp add: word_le_nat_alt u1 c)
    show ?thesis using False pg d(3,4)
      by (simp add: serial_rx_length_def rx_content_def rx_used_def ring_diff unat_sub [OF 2] u1 c)
  qed
qed

section \<open>Examples\<close>

lemma serial_rx_roundtrip_witness:
  "\<exists>q1 q2. serial_rx_bytes 4 [1, 2, 3, 5, 7] (serial_rx_open 4) = Some q1 \<and>
    serial_int_rx 4 (unat (4 :: u16)) q1 =
      Some (drop (length (rx_content 4 (serial_rx_open 4)) + length [1, 2, 3, 5, 7 :: u8] - (unat (4 :: u16) - 1))
        (rx_content 4 (serial_rx_open 4) @ [1, 2, 3, 5, 7]), q2) \<and>
    rx_ok 4 q2 \<and> rx_content 4 q2 = []"
  by (rule serial_rx_roundtrip) (simp add: rx_open_ok)

end
