(* ===== verification/Controller.thy ===== *)
theory Controller
  imports Demo Kernel Uart AdcFilter SerialRx
begin

text \<open>
  The application of \<open>bsp/stm32/stm32f407-baozhuang/applications\<close>: four threads (PWM output,
  sampling, inputs, serial line), the zero-crossing interrupts of the three phases, the 0.1 ms
  hardware timer, the receive interrupt of the serial line, and the tick, all on one kernel state.

  A step is what a thread does between two accesses to shared data, and threads take steps only
  while the kernel runs them; an interrupt handler is one step and can come between any two.  The
  file accesses of the inputs thread, and the processing of one received byte, are one step each:
  only those two threads touch the file, and the values they compute are stored at the end.
\<close>

section \<open>State\<close>

datatype pwm_pc = Pwm_take | Pwm_waiting | Pwm_test | Pwm_reset | Pwm_spin | Pwm_set | Pwm_clear
  | Pwm_close nat nat

datatype adc_pc = Adc_read | Adc_check | Adc_table | Adc_change | Adc_delay | Adc_delaying

datatype gpio_pc = Gpio_top | Gpio_run | Gpio_scan | Gpio_unstable | Gpio_unstable_wait | Gpio_stable
  | Gpio_delay | Gpio_delaying

datatype serial_pc = Serial_read | Serial_waiting | Serial_got u8

text \<open>The global variables of the application, the hardware outputs (\<open>pulse_out\<close>: the pulse width
  set for each PWM channel, \<open>relay\<close>: the charge-complete output, \<open>tx\<close>: the bytes sent), and the
  position of each thread in its code.\<close>

record app =
  ker :: kstate
  run_record :: nat
  pwm1_status :: "nat \<Rightarrow> nat"
  pwm1_start :: nat
  percentage_set :: nat
  percentage_change :: nat
  hw_count :: u32
  settings :: "int \<times> int"
  adc_voltage :: "nat list"
  gpio_port :: u32
  port_pre :: u32
  port_in :: u32
  sensor_tick :: u32
  pulse_out :: "nat \<Rightarrow> u32"
  relay :: bool
  rx :: rt_serial_rx_fifo
  tx :: "u8 list"
  line :: uart
  flash_mem :: flash
  pwm_pc :: pwm_pc
  adc_pc :: adc_pc
  gpio_pc :: gpio_pc
  serial_pc :: serial_pc

definition pwm_tid :: tid where "pwm_tid = 1"
definition adc_tid :: tid where "adc_tid = 2"
definition gpio_tid :: tid where "gpio_tid = 3"
definition serial_tid :: tid where "serial_tid = 4"

abbreviation (input) pwm1_sem :: nat where "pwm1_sem \<equiv> 0"
abbreviation (input) rx_sem :: nat where "rx_sem \<equiv> 1"
abbreviation (input) RT_WAITING_FOREVER :: int where "RT_WAITING_FOREVER \<equiv> -1"
abbreviation (input) RX_BUFSZ :: u16 where "RX_BUFSZ \<equiv> 64"

text \<open>The variables as they are initialised, with all threads at their beginning.\<close>

definition app_init :: "kstate \<Rightarrow> flash \<Rightarrow> app" where
  "app_init k f = \<lparr>ker = k, run_record = 0, pwm1_status = (\<lambda>_. 0), pwm1_start = 0, percentage_set = 5,
     percentage_change = 0, hw_count = 0, settings = (500, 1500), adc_voltage = replicate 7 0,
     gpio_port = 0, port_pre = 0, port_in = 0, sensor_tick = rt_tick_get k, pulse_out = (\<lambda>_. 0), relay = False,
     rx = serial_rx_open RX_BUFSZ, tx = [], line = \<lparr>start = 0, voltage_recv = 0, current_recv = 0\<rparr>, flash_mem = f,
     pwm_pc = Pwm_take, adc_pc = Adc_read, gpio_pc = Gpio_top, serial_pc = Serial_read\<rparr>"

section \<open>Kernel calls\<close>

definition on_kernel :: "(kstate \<Rightarrow> ('r \<times> kstate) option) \<Rightarrow> app \<Rightarrow> ('r \<times> app) option" where
  "on_kernel f a = map_option (\<lambda>(r, s). (r, a\<lparr>ker := s\<rparr>)) (f (ker a))"

text \<open>A call that may block: the caller continues at \<open>ret\<close> when the call returns at once, and is at
  \<open>wait\<close> while it is blocked.\<close>

fun went :: "'pc \<Rightarrow> 'pc \<Rightarrow> ('l, 'r) outcome \<Rightarrow> 'pc" where
  "went ret wait (Return _) = ret"
| "went ret wait (Blocked _) = wait"

section \<open>The PWM thread\<close>

definition period :: u32 where "period = 10000000"
definition pulse :: u32 where "pulse = 1000000"

text \<open>The condition of the busy wait, in unsigned 32-bit arithmetic.\<close>

definition pwm_wait_cond :: "u32 \<Rightarrow> nat \<Rightarrow> bool" where
  "pwm_wait_cond cnt pct \<longleftrightarrow> cnt \<le> period div 100000 * (100 - of_nat pct) div 100"

text \<open>The statements of the closing loop for channel \<open>i\<close>: 0 to 4 are the assignments and calls
  before the delay, 5 the delay, 6 the wait inside it, 7 what follows.\<close>

definition pwm_close_step :: "nat \<Rightarrow> nat \<Rightarrow> app \<Rightarrow> app option" where
  "pwm_close_step i k a =
     (if k = 0 then Some (a\<lparr>pulse_out := (pulse_out a)(i := 0), pwm_pc := Pwm_close i 1\<rparr>)
      else if k = 1 then Some (a\<lparr>pwm1_status := (pwm1_status a)(i := 0), pwm_pc := Pwm_close i 2\<rparr>)
      else if k = 2 then Some (a\<lparr>percentage_set := 5, pwm_pc := Pwm_close i 3\<rparr>)
      else if k = 3 then Some (a\<lparr>run_record := 0, pwm_pc := Pwm_close i 4\<rparr>)
      else if k = 4 then Some (a\<lparr>relay := True, pwm_pc := Pwm_close i 5\<rparr>)
      else if k = 5 then do {
        (r, a) \<leftarrow> on_kernel (rt_thread_mdelay 1000) a;
        Some (a\<lparr>pwm_pc := went (Pwm_close i 7) (Pwm_close i 6) r\<rparr>)
      }
      else if k = 6 then do {
        (r, a) \<leftarrow> on_kernel (rt_thread_sleep_resumed pwm_tid) a;
        Some (a\<lparr>pwm_pc := Pwm_close i 7\<rparr>)
      }
      else Some (a\<lparr>relay := False, pwm_pc := (if i + 1 < 4 then Pwm_close (i + 1) 0 else Pwm_take)\<rparr>))"

definition pwm_thread_step :: "app \<Rightarrow> app option" where
  "pwm_thread_step a =
     (case pwm_pc a of
        Pwm_take \<Rightarrow> do {
          (r, a) \<leftarrow> on_kernel (rt_sem_take pwm1_sem RT_WAITING_FOREVER) a;
          Some (a\<lparr>pwm_pc := went Pwm_test Pwm_waiting r\<rparr>)
        }
      | Pwm_waiting \<Rightarrow> do {
          (r, a) \<leftarrow> on_kernel (rt_sem_take_resumed pwm_tid) a;
          Some (a\<lparr>pwm_pc := Pwm_test\<rparr>)
        }
      | Pwm_test \<Rightarrow> Some (a\<lparr>pwm_pc := (if pwm1_start a \<noteq> 0 then Pwm_reset else Pwm_close 1 0)\<rparr>)
      | Pwm_reset \<Rightarrow> Some (a\<lparr>hw_count := 0, pwm_pc := Pwm_spin\<rparr>)
      | Pwm_spin \<Rightarrow> Some (a\<lparr>pwm_pc := (if pwm_wait_cond (hw_count a) (percentage_set a) then Pwm_spin else Pwm_set)\<rparr>)
      | Pwm_set \<Rightarrow> Some (a\<lparr>pulse_out := (pulse_out a)(pwm1_start a := pulse * 2), pwm_pc := Pwm_clear\<rparr>)
      | Pwm_clear \<Rightarrow> Some (a\<lparr>pwm1_start := 0, pwm_pc := Pwm_take\<rparr>)
      | Pwm_close i k \<Rightarrow> pwm_close_step i k a)"


section \<open>The sampling thread\<close>

text \<open>\<open>raws\<close> are the samples of the seven channels in this round.\<close>

definition adc_thread_step :: "u32 list \<Rightarrow> app \<Rightarrow> app option" where
  "adc_thread_step raws a =
     (case adc_pc a of
        Adc_read \<Rightarrow> Some (a\<lparr>adc_voltage := read_knob_vol raws (adc_voltage a), adc_pc := Adc_check\<rparr>)
      | Adc_check \<Rightarrow>
          if run_record a = 1 then
            (if int (adc_voltage a ! 1) \<ge> fst (settings a) then do {
               (r, a) \<leftarrow> on_kernel (rt_sem_release pwm1_sem) a;
               Some (a\<lparr>adc_pc := Adc_table\<rparr>)
             }
             else Some (a\<lparr>adc_pc := Adc_table\<rparr>))
          else Some (a\<lparr>adc_pc := Adc_delay\<rparr>)
      | Adc_table \<Rightarrow>
          (case percentage_next (adc_voltage a ! 1) (percentage_set a) of
             Some pct \<Rightarrow> Some (a\<lparr>percentage_set := pct, adc_pc := Adc_change\<rparr>)
           | None \<Rightarrow> Some (a\<lparr>adc_pc := Adc_delay\<rparr>))
      | Adc_change \<Rightarrow> Some (a\<lparr>percentage_change := 3, adc_pc := Adc_delay\<rparr>)
      | Adc_delay \<Rightarrow> do {
          (r, a) \<leftarrow> on_kernel (rt_thread_mdelay 1) a;
          Some (a\<lparr>adc_pc := went Adc_read Adc_delaying r\<rparr>)
        }
      | Adc_delaying \<Rightarrow> do {
          (r, a) \<leftarrow> on_kernel (rt_thread_sleep_resumed adc_tid) a;
          Some (a\<lparr>adc_pc := Adc_read\<rparr>)
        })"

section \<open>The inputs thread\<close>

text \<open>\<open>levels\<close> are the levels of the pins PHASE_U, PHASE_V, PHASE_W, MI1 and MI2, bits 1 to 5 of the
  port; a bit is set when the level is low.\<close>

definition read_all_pin :: "bool list \<Rightarrow> u32 \<Rightarrow> u32" where
  "read_all_pin levels w =
     fold (\<lambda>(i, level) w. if level then unset_bit i w else set_bit i w) (zip [1, 2, 3, 4, 5] levels) w"

definition gpio_thread_step :: "bool list \<Rightarrow> app \<Rightarrow> app option" where
  "gpio_thread_step levels a =
     (case gpio_pc a of
        Gpio_top \<Rightarrow>
          if \<not> bit (gpio_port a) 4 \<and> bit (gpio_port a) 5 then
            (let (set', f) = para_read flash_ops (settings a) (flash_mem a)
             in Some (a\<lparr>settings := set', flash_mem := f, gpio_pc := Gpio_run\<rparr>))
          else Some (a\<lparr>gpio_pc := Gpio_scan\<rparr>)
      | Gpio_run \<Rightarrow> Some (a\<lparr>run_record := 1, gpio_pc := Gpio_scan\<rparr>)
      | Gpio_scan \<Rightarrow>
          (let pre = port_in a; now = read_all_pin levels (port_in a)
           in Some (a\<lparr>port_pre := pre, port_in := now, gpio_pc := (if pre = now then Gpio_stable else Gpio_unstable)\<rparr>))
      | Gpio_unstable \<Rightarrow> do {
          (r, a) \<leftarrow> on_kernel (rt_thread_mdelay 1) a;
          Some (a\<lparr>gpio_pc := went Gpio_scan Gpio_unstable_wait r\<rparr>)
        }
      | Gpio_unstable_wait \<Rightarrow> do {
          (r, a) \<leftarrow> on_kernel (rt_thread_sleep_resumed gpio_tid) a;
          Some (a\<lparr>gpio_pc := Gpio_scan\<rparr>)
        }
      | Gpio_stable \<Rightarrow>
          (let now = rt_tick_get (ker a)
           in Some (a\<lparr>gpio_port := port_in a,
                sensor_tick := (if now - sensor_tick a > 1000 then now else sensor_tick a), gpio_pc := Gpio_delay\<rparr>))
      | Gpio_delay \<Rightarrow> do {
          (r, a) \<leftarrow> on_kernel (rt_thread_mdelay 1) a;
          Some (a\<lparr>gpio_pc := went Gpio_top Gpio_delaying r\<rparr>)
        }
      | Gpio_delaying \<Rightarrow> do {
          (r, a) \<leftarrow> on_kernel (rt_thread_sleep_resumed gpio_tid) a;
          Some (a\<lparr>gpio_pc := Gpio_top\<rparr>)
        })"

section \<open>The serial thread\<close>

definition serial_thread_step :: "app \<Rightarrow> app option" where
  "serial_thread_step a =
     (case serial_pc a of
        Serial_read \<Rightarrow> do {
          r \<leftarrow> serial_int_rx RX_BUFSZ 1 (rx a);
          case r of
            (ch # _, q) \<Rightarrow> Some (a\<lparr>rx := q, serial_pc := Serial_got ch\<rparr>)
          | ([], q) \<Rightarrow> do {
              (r, a) \<leftarrow> on_kernel (rt_sem_take rx_sem RT_WAITING_FOREVER) (a\<lparr>rx := q\<rparr>);
              Some (a\<lparr>serial_pc := went Serial_read Serial_waiting r\<rparr>)
            }
        }
      | Serial_waiting \<Rightarrow> do {
          (r, a) \<leftarrow> on_kernel (rt_sem_take_resumed serial_tid) a;
          Some (a\<lparr>serial_pc := Serial_read\<rparr>)
        }
      | Serial_got ch \<Rightarrow>
          (let (out, u, f) = serial_byte flash_ops (map int (adc_voltage a)) ch (line a, flash_mem a)
           in Some (a\<lparr>tx := tx a @ out, line := u, flash_mem := f, serial_pc := Serial_read\<rparr>)))"

section \<open>Interrupts\<close>

definition in_isr :: "(app \<Rightarrow> app option) \<Rightarrow> app \<Rightarrow> app option" where
  "in_isr f a = do {
     a \<leftarrow> f (a\<lparr>ker := rt_interrupt_enter (ker a)\<rparr>);
     Some (a\<lparr>ker := rt_interrupt_leave (ker a)\<rparr>)
   }"

text \<open>The three callbacks differ in the channel and in the value of \<open>percentage_change\<close> they serve.\<close>

definition phase_cb :: "nat \<Rightarrow> nat \<Rightarrow> app \<Rightarrow> app option" where
  "phase_cb i turn a =
     (if run_record a = 1 \<and> pwm1_status a i = 0 \<or> percentage_change a = turn then do {
        let a = (if percentage_change a = turn then a\<lparr>percentage_change := percentage_change a - 1\<rparr> else a);
        let a = a\<lparr>pwm1_status := (pwm1_status a)(i := 1), pwm1_start := i\<rparr>;
        (r, a) \<leftarrow> on_kernel (rt_sem_release pwm1_sem) a;
        Some a
      }
      else Some a)"

definition PHASE_U_cb :: "app \<Rightarrow> app option" where "PHASE_U_cb = phase_cb 1 3"
definition PHASE_V_cb :: "app \<Rightarrow> app option" where "PHASE_V_cb = phase_cb 2 2"
definition PHASE_W_cb :: "app \<Rightarrow> app option" where "PHASE_W_cb = phase_cb 3 1"

definition control_hwtimer_cb :: "app \<Rightarrow> app option" where
  "control_hwtimer_cb a = Some (a\<lparr>hw_count := hw_count a + 1\<rparr>)"

definition uart_input :: "u32 \<Rightarrow> kstate \<Rightarrow> kstate option" where
  "uart_input n s = map_option snd (rt_sem_release rx_sem s)"

definition uart_isr :: "u8 list \<Rightarrow> app \<Rightarrow> app option" where
  "uart_isr cs a = do {
     (q, s) \<leftarrow> serial_isr_rx RX_BUFSZ cs (Some uart_input) (rx a) (ker a);
     Some (a\<lparr>rx := q, ker := s\<rparr>)
   }"

section \<open>Steps\<close>

text \<open>A conversion result has 12 bits.\<close>

definition samples_ok :: "u32 list \<Rightarrow> bool" where
  "samples_ok raws \<longleftrightarrow> length raws = 7 \<and> (\<forall>raw\<in>set raws. raw < 4096)"

inductive app_step :: "(nat \<Rightarrow> kstate \<Rightarrow> kstate option) \<Rightarrow> app \<Rightarrow> app \<Rightarrow> bool" for cb where
  pwm: "cur_thread (ker a) = Some pwm_tid \<Longrightarrow> pwm_thread_step a = Some a' \<Longrightarrow> app_step cb a a'"
| adc: "cur_thread (ker a) = Some adc_tid \<Longrightarrow> samples_ok raws \<Longrightarrow> adc_thread_step raws a = Some a' \<Longrightarrow> app_step cb a a'"
| gpio: "cur_thread (ker a) = Some gpio_tid \<Longrightarrow> gpio_thread_step levels a = Some a' \<Longrightarrow> app_step cb a a'"
| serial: "cur_thread (ker a) = Some serial_tid \<Longrightarrow> serial_thread_step a = Some a' \<Longrightarrow> app_step cb a a'"
| phase_u: "in_isr PHASE_U_cb a = Some a' \<Longrightarrow> app_step cb a a'"
| phase_v: "in_isr PHASE_V_cb a = Some a' \<Longrightarrow> app_step cb a a'"
| phase_w: "in_isr PHASE_W_cb a = Some a' \<Longrightarrow> app_step cb a a'"
| hwtimer: "in_isr control_hwtimer_cb a = Some a' \<Longrightarrow> app_step cb a a'"
| uart: "in_isr (uart_isr cs) a = Some a' \<Longrightarrow> app_step cb a a'"
| kernel: "kernel_step cb (ker a) k \<Longrightarrow> app_step cb a (a\<lparr>ker := k\<rparr>)"

section \<open>The invariant\<close>

text \<open>The values of the shared variables; in the closing loop the channels done are off, and the
  relay is on exactly between the statement that sets it and the one that resets it.\<close>

definition values_ok :: "app \<Rightarrow> bool" where
  "values_ok a \<longleftrightarrow> run_record a \<le> 1 \<and> (\<forall>i. pwm1_status a i \<le> 1) \<and> pwm1_start a \<le> 3 \<and>
     percentage_set a \<in> percentages \<and> percentage_change a \<le> 3 \<and> start (line a) \<le> 4"

definition readings_ok :: "app \<Rightarrow> bool" where
  "readings_ok a \<longleftrightarrow> length (adc_voltage a) = 7 \<and> (\<forall>v\<in>set (adc_voltage a). v \<le> 329)"

definition closing :: "pwm_pc \<Rightarrow> nat \<Rightarrow> bool" where
  "closing pc c \<longleftrightarrow> (case pc of Pwm_close i k \<Rightarrow> 1 \<le> c \<and> (c < i \<or> c = i \<and> 0 < k) | _ \<Rightarrow> False)"

definition relay_on :: "pwm_pc \<Rightarrow> bool" where
  "relay_on pc \<longleftrightarrow> (case pc of Pwm_close i k \<Rightarrow> 5 \<le> k | _ \<Rightarrow> False)"

definition starting :: "pwm_pc \<Rightarrow> bool" where
  "starting pc \<longleftrightarrow> pc \<in> {Pwm_reset, Pwm_spin, Pwm_set}"

definition pc_ok :: "pwm_pc \<Rightarrow> bool" where
  "pc_ok pc \<longleftrightarrow> (case pc of Pwm_close i k \<Rightarrow> 1 \<le> i \<and> i \<le> 3 \<and> k \<le> 7 | _ \<Rightarrow> True)"

lemma pc_simps [simp]:
  "closing (Pwm_close i k) c \<longleftrightarrow> 1 \<le> c \<and> (c < i \<or> c = i \<and> 0 < k)" "relay_on (Pwm_close i k) \<longleftrightarrow> 5 \<le> k"
  "pc_ok (Pwm_close i k) \<longleftrightarrow> 1 \<le> i \<and> i \<le> 3 \<and> k \<le> 7" "\<not> starting (Pwm_close i k)"
  "\<not> closing Pwm_take c" "\<not> closing Pwm_waiting c" "\<not> closing Pwm_test c" "\<not> closing Pwm_reset c"
  "\<not> closing Pwm_spin c" "\<not> closing Pwm_set c" "\<not> closing Pwm_clear c"
  "\<not> relay_on Pwm_take" "\<not> relay_on Pwm_waiting" "\<not> relay_on Pwm_test" "\<not> relay_on Pwm_reset"
  "\<not> relay_on Pwm_spin" "\<not> relay_on Pwm_set" "\<not> relay_on Pwm_clear"
  "pc_ok Pwm_take" "pc_ok Pwm_waiting" "pc_ok Pwm_test" "pc_ok Pwm_reset" "pc_ok Pwm_spin" "pc_ok Pwm_set" "pc_ok Pwm_clear"
  "\<not> starting Pwm_take" "\<not> starting Pwm_waiting" "\<not> starting Pwm_test" "\<not> starting Pwm_clear"
  "starting Pwm_reset" "starting Pwm_spin" "starting Pwm_set"
  by (simp_all add: closing_def relay_on_def pc_ok_def starting_def)

definition outputs_ok :: "app \<Rightarrow> bool" where
  "outputs_ok a \<longleftrightarrow> pc_ok (pwm_pc a) \<and> (relay a \<longleftrightarrow> relay_on (pwm_pc a)) \<and>
     (starting (pwm_pc a) \<longrightarrow> pwm1_start a \<noteq> 0) \<and>
     (\<forall>c. pulse_out a c = 0 \<or> (pulse_out a c = pulse * 2 \<and> 1 \<le> c \<and> c \<le> 3)) \<and>
     (\<forall>c. closing (pwm_pc a) c \<longrightarrow> pulse_out a c = 0)"

definition app_inv :: "app \<Rightarrow> bool" where
  "app_inv a \<longleftrightarrow> kernel_inv (ker a) \<and> values_ok a \<and> readings_ok a \<and> outputs_ok a \<and> rx_ok RX_BUFSZ (rx a)"

lemma on_kernelE:
  assumes "on_kernel f a = Some (r, a')"
  obtains s where "f (ker a) = Some (r, s)" "a' = a\<lparr>ker := s\<rparr>"
  using assms by (auto simp: on_kernel_def)

text \<open>What does not depend on a variable is not changed with it.\<close>

lemma values_ok_frame [simp]:
  "values_ok (a\<lparr>ker := x0\<rparr>) = values_ok a" "values_ok (a\<lparr>hw_count := x6\<rparr>) = values_ok a"
  "values_ok (a\<lparr>settings := x7\<rparr>) = values_ok a" "values_ok (a\<lparr>adc_voltage := x8\<rparr>) = values_ok a"
  "values_ok (a\<lparr>gpio_port := x9\<rparr>) = values_ok a" "values_ok (a\<lparr>port_pre := x10\<rparr>) = values_ok a"
  "values_ok (a\<lparr>port_in := x11\<rparr>) = values_ok a" "values_ok (a\<lparr>sensor_tick := x12\<rparr>) = values_ok a"
  "values_ok (a\<lparr>pulse_out := x13\<rparr>) = values_ok a" "values_ok (a\<lparr>relay := x14\<rparr>) = values_ok a"
  "values_ok (a\<lparr>rx := x15\<rparr>) = values_ok a" "values_ok (a\<lparr>tx := x16\<rparr>) = values_ok a"
  "values_ok (a\<lparr>flash_mem := x18\<rparr>) = values_ok a" "values_ok (a\<lparr>pwm_pc := x19\<rparr>) = values_ok a"
  "values_ok (a\<lparr>adc_pc := x20\<rparr>) = values_ok a" "values_ok (a\<lparr>gpio_pc := x21\<rparr>) = values_ok a"
  "values_ok (a\<lparr>serial_pc := x22\<rparr>) = values_ok a"
  by (simp_all add: values_ok_def)

lemma readings_ok_frame [simp]:
  "readings_ok (a\<lparr>ker := x0\<rparr>) = readings_ok a" "readings_ok (a\<lparr>run_record := x1\<rparr>) = readings_ok a"
  "readings_ok (a\<lparr>pwm1_status := x2\<rparr>) = readings_ok a" "readings_ok (a\<lparr>pwm1_start := x3\<rparr>) = readings_ok a"
  "readings_ok (a\<lparr>percentage_set := x4\<rparr>) = readings_ok a" "readings_ok (a\<lparr>percentage_change := x5\<rparr>) = readings_ok a"
  "readings_ok (a\<lparr>hw_count := x6\<rparr>) = readings_ok a" "readings_ok (a\<lparr>settings := x7\<rparr>) = readings_ok a"
  "readings_ok (a\<lparr>gpio_port := x9\<rparr>) = readings_ok a" "readings_ok (a\<lparr>port_pre := x10\<rparr>) = readings_ok a"
  "readings_ok (a\<lparr>port_in := x11\<rparr>) = readings_ok a" "readings_ok (a\<lparr>sensor_tick := x12\<rparr>) = readings_ok a"
  "readings_ok (a\<lparr>pulse_out := x13\<rparr>) = readings_ok a" "readings_ok (a\<lparr>relay := x14\<rparr>) = readings_ok a"
  "readings_ok (a\<lparr>rx := x15\<rparr>) = readings_ok a" "readings_ok (a\<lparr>tx := x16\<rparr>) = readings_ok a"
  "readings_ok (a\<lparr>line := x17\<rparr>) = readings_ok a" "readings_ok (a\<lparr>flash_mem := x18\<rparr>) = readings_ok a"
  "readings_ok (a\<lparr>pwm_pc := x19\<rparr>) = readings_ok a" "readings_ok (a\<lparr>adc_pc := x20\<rparr>) = readings_ok a"
  "readings_ok (a\<lparr>gpio_pc := x21\<rparr>) = readings_ok a" "readings_ok (a\<lparr>serial_pc := x22\<rparr>) = readings_ok a"
  by (simp_all add: readings_ok_def)

lemma outputs_ok_frame [simp]:
  "outputs_ok (a\<lparr>ker := x0\<rparr>) = outputs_ok a" "outputs_ok (a\<lparr>run_record := x1\<rparr>) = outputs_ok a"
  "outputs_ok (a\<lparr>pwm1_status := x2\<rparr>) = outputs_ok a" "outputs_ok (a\<lparr>percentage_set := x4\<rparr>) = outputs_ok a"
  "outputs_ok (a\<lparr>percentage_change := x5\<rparr>) = outputs_ok a" "outputs_ok (a\<lparr>hw_count := x6\<rparr>) = outputs_ok a"
  "outputs_ok (a\<lparr>settings := x7\<rparr>) = outputs_ok a" "outputs_ok (a\<lparr>adc_voltage := x8\<rparr>) = outputs_ok a"
  "outputs_ok (a\<lparr>gpio_port := x9\<rparr>) = outputs_ok a" "outputs_ok (a\<lparr>port_pre := x10\<rparr>) = outputs_ok a"
  "outputs_ok (a\<lparr>port_in := x11\<rparr>) = outputs_ok a" "outputs_ok (a\<lparr>sensor_tick := x12\<rparr>) = outputs_ok a"
  "outputs_ok (a\<lparr>rx := x15\<rparr>) = outputs_ok a" "outputs_ok (a\<lparr>tx := x16\<rparr>) = outputs_ok a"
  "outputs_ok (a\<lparr>line := x17\<rparr>) = outputs_ok a" "outputs_ok (a\<lparr>flash_mem := x18\<rparr>) = outputs_ok a"
  "outputs_ok (a\<lparr>adc_pc := x20\<rparr>) = outputs_ok a" "outputs_ok (a\<lparr>gpio_pc := x21\<rparr>) = outputs_ok a"
  "outputs_ok (a\<lparr>serial_pc := x22\<rparr>) = outputs_ok a"
  by (simp_all add: outputs_ok_def)

lemmas inv_calls = inv_sem_take inv_sem_release inv_thread_sleep inv_sleep_resumed inv_sem_take_resumed

lemma inv_mdelay: "rt_thread_mdelay ms s = Some (r, s') \<Longrightarrow> kernel_inv s \<Longrightarrow> kernel_inv s'"
  unfolding rt_thread_mdelay_def by (rule inv_thread_sleep)

lemma app_invI:
  "kernel_inv (ker a) \<Longrightarrow> values_ok a \<Longrightarrow> readings_ok a \<Longrightarrow> outputs_ok a \<Longrightarrow> rx_ok RX_BUFSZ (rx a) \<Longrightarrow> app_inv a"
  by (simp add: app_inv_def)

lemma app_invD:
  "app_inv a \<Longrightarrow> kernel_inv (ker a)" "app_inv a \<Longrightarrow> values_ok a" "app_inv a \<Longrightarrow> readings_ok a"
  "app_inv a \<Longrightarrow> outputs_ok a" "app_inv a \<Longrightarrow> rx_ok RX_BUFSZ (rx a)"
  by (simp_all add: app_inv_def)

text \<open>A kernel call of the PWM thread that only moves on in the code.\<close>

lemma outputs_move:
  assumes "outputs_ok a" "pc_ok pc" "relay_on pc = relay_on (pwm_pc a)" "\<And>c. closing pc c \<Longrightarrow> closing (pwm_pc a) c"
    "starting pc \<Longrightarrow> pwm1_start a \<noteq> 0"
  shows "outputs_ok (a\<lparr>pwm_pc := pc\<rparr>)"
  using assms by (auto simp: outputs_ok_def)

lemma five_percent: "5 \<in> percentages"
  unfolding percentages_def by (rule image_eqI [of _ _ 1]) simp_all

text \<open>The closing loop.\<close>

lemma close_step_inv:
  assumes step: "pwm_close_step i k a = Some a'" and pc: "pwm_pc a = Pwm_close i k" and inv: "app_inv a"
  shows "app_inv a'"
proof -
  note d = app_invD [OF inv]
  have i: "1 \<le> i" "i \<le> 3" "k \<le> 7" using d(4) pc by (simp_all add: outputs_ok_def)
  then consider "k = 0" | "k = 1" | "k = 2" | "k = 3" | "k = 4" | "k = 5" | "k = 6" | "k = 7" by linarith
  then show ?thesis
  proof cases
    case 1
    have "outputs_ok (a\<lparr>pulse_out := (pulse_out a)(i := 0), pwm_pc := Pwm_close i 1\<rparr>)"
      using d(4) pc i 1 by (auto simp: outputs_ok_def)
    then show ?thesis using step d 1 by (auto simp: pwm_close_step_def intro: app_invI)
  next
    case 2
    then show ?thesis using step d pc i by (auto simp: pwm_close_step_def values_ok_def intro!: app_invI outputs_move)
  next
    case 3
    then show ?thesis using step d pc i
      by (auto simp: pwm_close_step_def values_ok_def five_percent intro!: app_invI outputs_move)
  next
    case 4
    then show ?thesis using step d pc i by (auto simp: pwm_close_step_def values_ok_def intro!: app_invI outputs_move)
  next
    case 5
    have "outputs_ok (a\<lparr>relay := True, pwm_pc := Pwm_close i 5\<rparr>)" using d(4) pc i 5 by (auto simp: outputs_ok_def)
    then show ?thesis using step d 5 by (auto simp: pwm_close_step_def intro: app_invI)
  next
    case 6
    obtain r s where s: "rt_thread_mdelay 1000 (ker a) = Some (r, s)"
      "a' = a\<lparr>ker := s, pwm_pc := went (Pwm_close i 7) (Pwm_close i 6) r\<rparr>"
      using step 6 by (auto simp: pwm_close_step_def Option.bind_eq_Some_conv elim!: on_kernelE)
    show ?thesis unfolding s(2)
      using inv_mdelay [OF s(1) d(1)] d pc i 6 by (cases r) (auto intro!: app_invI outputs_move)
  next
    case 7
    obtain r s where s: "rt_thread_sleep_resumed pwm_tid (ker a) = Some (r, s)"
      "a' = a\<lparr>ker := s, pwm_pc := Pwm_close i 7\<rparr>"
      using step 7 by (auto simp: pwm_close_step_def Option.bind_eq_Some_conv elim!: on_kernelE)
    show ?thesis unfolding s(2)
      using inv_sleep_resumed [OF s(1) d(1)] d pc i 7 by (auto intro!: app_invI outputs_move)
  next
    case 8
    have "outputs_ok (a\<lparr>relay := False, pwm_pc := (if i + 1 < 4 then Pwm_close (i + 1) 0 else Pwm_take)\<rparr>)"
      using d(4) pc i 8 by (auto simp: outputs_ok_def less_Suc_eq)
    then show ?thesis using step d 8 by (auto simp: pwm_close_step_def intro!: app_invI)
  qed
qed


lemma pwm_step_inv:
  assumes step: "pwm_thread_step a = Some a'" and inv: "app_inv a"
  shows "app_inv a'"
proof -
  note d = app_invD [OF inv]
  show ?thesis
  proof (cases "pwm_pc a")
    case Pwm_take
    obtain r s where s: "rt_sem_take pwm1_sem RT_WAITING_FOREVER (ker a) = Some (r, s)"
      "a' = a\<lparr>ker := s, pwm_pc := went Pwm_test Pwm_waiting r\<rparr>"
      using step Pwm_take by (auto simp: pwm_thread_step_def Option.bind_eq_Some_conv elim!: on_kernelE)
    show ?thesis unfolding s(2)
      using inv_sem_take [OF s(1) d(1)] d Pwm_take by (cases r) (auto intro!: app_invI outputs_move)
  next
    case Pwm_waiting
    obtain r s where s: "rt_sem_take_resumed pwm_tid (ker a) = Some (r, s)" "a' = a\<lparr>ker := s, pwm_pc := Pwm_test\<rparr>"
      using step Pwm_waiting by (auto simp: pwm_thread_step_def Option.bind_eq_Some_conv elim!: on_kernelE)
    show ?thesis unfolding s(2)
      using inv_sem_take_resumed [OF s(1) d(1)] d Pwm_waiting by (auto intro!: app_invI outputs_move)
  next
    case Pwm_test
    then show ?thesis using step d
      by (cases "pwm1_start a = 0") (auto simp: pwm_thread_step_def intro!: app_invI outputs_move)
  next
    case Pwm_reset
    then show ?thesis using step d by (auto simp: pwm_thread_step_def outputs_ok_def intro!: app_invI)
  next
    case Pwm_spin
    then show ?thesis using step d by (auto simp: pwm_thread_step_def outputs_ok_def intro!: app_invI)
  next
    case Pwm_set
    have "1 \<le> pwm1_start a" "pwm1_start a \<le> 3" using d(2,4) Pwm_set by (simp_all add: outputs_ok_def values_ok_def)
    then have "outputs_ok (a\<lparr>pulse_out := (pulse_out a)(pwm1_start a := pulse * 2), pwm_pc := Pwm_clear\<rparr>)"
      using d(4) Pwm_set by (auto simp: outputs_ok_def)
    then show ?thesis using step d Pwm_set by (auto simp: pwm_thread_step_def intro!: app_invI)
  next
    case Pwm_clear
    have "outputs_ok (a\<lparr>pwm1_start := 0, pwm_pc := Pwm_take\<rparr>)" using d(4) Pwm_clear by (auto simp: outputs_ok_def)
    then show ?thesis using step d Pwm_clear by (auto simp: pwm_thread_step_def values_ok_def intro!: app_invI)
  next
    case (Pwm_close i k)
    then show ?thesis using step close_step_inv [OF _ Pwm_close inv] by (simp add: pwm_thread_step_def)
  qed
qed

text \<open>The readings stay in range, and the percentage on its scale.\<close>

lemma readings_step:
  assumes "samples_ok raws" "readings_ok a"
  shows "readings_ok (a\<lparr>adc_voltage := read_knob_vol raws (adc_voltage a)\<rparr>)"
proof -
  have "length (read_knob_vol raws (adc_voltage a)) = 7"
    using assms by (simp add: read_knob_vol_def samples_ok_def readings_ok_def)
  moreover have "\<forall>l\<in>set (read_knob_vol raws (adc_voltage a)). l \<le> 329"
    using read_knob_bound [of raws "adc_voltage a"] assms by (simp add: samples_ok_def readings_ok_def)
  ultimately show ?thesis by (simp add: readings_ok_def)
qed

lemma percentage_stays:
  assumes "percentage_next volt pct = Some p" "pct \<in> percentages"
  shows "p \<in> percentages"
proof -
  have p: "p = pct + 5" "pct < 100" using assms by (auto simp: percentage_next_eq split: if_splits)
  obtain k where k: "pct = 5 * k" "1 \<le> k" "k \<le> 20" using assms(2) by (auto simp: percentages_def)
  then show ?thesis using p unfolding percentages_def by (intro image_eqI [of _ _ "k + 1"]) auto
qed

lemma adc_step_inv:
  assumes step: "adc_thread_step raws a = Some a'" and raws: "samples_ok raws" and inv: "app_inv a"
  shows "app_inv a'"
proof -
  note d = app_invD [OF inv]
  show ?thesis
  proof (cases "adc_pc a")
    case Adc_read
    then show ?thesis using step d readings_step [OF raws d(3)] by (auto simp: adc_thread_step_def intro!: app_invI)
  next
    case Adc_check
    then consider (rel) r s where "rt_sem_release pwm1_sem (ker a) = Some (r, s)" "a' = a\<lparr>ker := s, adc_pc := Adc_table\<rparr>"
      | (no) pc where "a' = a\<lparr>adc_pc := pc\<rparr>"
      using step by (auto simp: adc_thread_step_def Option.bind_eq_Some_conv split: if_splits elim!: on_kernelE)
    then show ?thesis
    proof cases
      case rel
      show ?thesis unfolding rel(2) using inv_sem_release [OF rel(1) d(1)] d by (auto intro!: app_invI)
    next
      case no
      then show ?thesis using d by (auto intro!: app_invI)
    qed
  next
    case Adc_table
    have "percentage_set a \<in> percentages" using d(2) by (simp add: values_ok_def)
    note p = percentage_stays [OF _ this]
    show ?thesis
    proof (cases "percentage_next (adc_voltage a ! 1) (percentage_set a)")
      case None
      then show ?thesis using step d Adc_table by (auto simp: adc_thread_step_def intro!: app_invI)
    next
      case (Some q)
      have "values_ok (a\<lparr>percentage_set := q\<rparr>)" using d(2) p [OF Some] by (simp add: values_ok_def)
      then show ?thesis using step d Adc_table Some by (auto simp: adc_thread_step_def intro!: app_invI)
    qed
  next
    case Adc_change
    have "values_ok (a\<lparr>percentage_change := 3\<rparr>)" using d(2) by (simp add: values_ok_def)
    then show ?thesis using step d Adc_change by (auto simp: adc_thread_step_def intro!: app_invI)
  next
    case Adc_delay
    obtain r s where s: "rt_thread_mdelay 1 (ker a) = Some (r, s)" "a' = a\<lparr>ker := s, adc_pc := went Adc_read Adc_delaying r\<rparr>"
      using step Adc_delay by (auto simp: adc_thread_step_def Option.bind_eq_Some_conv elim!: on_kernelE)
    show ?thesis unfolding s(2) using inv_mdelay [OF s(1) d(1)] d by (auto intro!: app_invI)
  next
    case Adc_delaying
    obtain r s where s: "rt_thread_sleep_resumed adc_tid (ker a) = Some (r, s)" "a' = a\<lparr>ker := s, adc_pc := Adc_read\<rparr>"
      using step Adc_delaying by (auto simp: adc_thread_step_def Option.bind_eq_Some_conv elim!: on_kernelE)
    show ?thesis unfolding s(2) using inv_sleep_resumed [OF s(1) d(1)] d by (auto intro!: app_invI)
  qed
qed

lemma gpio_step_inv:
  assumes step: "gpio_thread_step levels a = Some a'" and inv: "app_inv a"
  shows "app_inv a'"
proof -
  note d = app_invD [OF inv]
  show ?thesis
  proof (cases "gpio_pc a")
    case Gpio_top
    then obtain st f pc where "a' = a\<lparr>settings := st, flash_mem := f, gpio_pc := pc\<rparr> \<or> a' = a\<lparr>gpio_pc := pc\<rparr>"
      using step by (auto simp: gpio_thread_step_def Let_def split: if_splits prod.splits)
    then show ?thesis using d by (auto intro!: app_invI)
  next
    case Gpio_run
    have "values_ok (a\<lparr>run_record := 1\<rparr>)" using d(2) by (simp add: values_ok_def)
    then show ?thesis using step d Gpio_run by (auto simp: gpio_thread_step_def intro!: app_invI)
  next
    case Gpio_scan
    then show ?thesis using step d by (auto simp: gpio_thread_step_def Let_def intro!: app_invI)
  next
    case Gpio_unstable
    obtain r s where s: "rt_thread_mdelay 1 (ker a) = Some (r, s)"
      "a' = a\<lparr>ker := s, gpio_pc := went Gpio_scan Gpio_unstable_wait r\<rparr>"
      using step Gpio_unstable by (auto simp: gpio_thread_step_def Option.bind_eq_Some_conv elim!: on_kernelE)
    show ?thesis unfolding s(2) using inv_mdelay [OF s(1) d(1)] d by (auto intro!: app_invI)
  next
    case Gpio_unstable_wait
    obtain r s where s: "rt_thread_sleep_resumed gpio_tid (ker a) = Some (r, s)" "a' = a\<lparr>ker := s, gpio_pc := Gpio_scan\<rparr>"
      using step Gpio_unstable_wait by (auto simp: gpio_thread_step_def Option.bind_eq_Some_conv elim!: on_kernelE)
    show ?thesis unfolding s(2) using inv_sleep_resumed [OF s(1) d(1)] d by (auto intro!: app_invI)
  next
    case Gpio_stable
    then obtain x y where "a' = a\<lparr>gpio_port := x, sensor_tick := y, gpio_pc := Gpio_delay\<rparr>"
      using step by (auto simp: gpio_thread_step_def Let_def)
    then show ?thesis using d by (auto intro!: app_invI)
  next
    case Gpio_delay
    obtain r s where s: "rt_thread_mdelay 1 (ker a) = Some (r, s)" "a' = a\<lparr>ker := s, gpio_pc := went Gpio_top Gpio_delaying r\<rparr>"
      using step Gpio_delay by (auto simp: gpio_thread_step_def Option.bind_eq_Some_conv elim!: on_kernelE)
    show ?thesis unfolding s(2) using inv_mdelay [OF s(1) d(1)] d by (auto intro!: app_invI)
  next
    case Gpio_delaying
    obtain r s where s: "rt_thread_sleep_resumed gpio_tid (ker a) = Some (r, s)" "a' = a\<lparr>ker := s, gpio_pc := Gpio_top\<rparr>"
      using step Gpio_delaying by (auto simp: gpio_thread_step_def Option.bind_eq_Some_conv elim!: on_kernelE)
    show ?thesis unfolding s(2) using inv_sleep_resumed [OF s(1) d(1)] d by (auto intro!: app_invI)
  qed
qed


lemma serial_step_inv:
  assumes step: "serial_thread_step a = Some a'" and inv: "app_inv a"
  shows "app_inv a'"
proof -
  note d = app_invD [OF inv]
  show ?thesis
  proof (cases "serial_pc a")
    case Serial_read
    obtain q where q: "serial_int_rx RX_BUFSZ 1 (rx a) = Some (take 1 (rx_content RX_BUFSZ (rx a)), q)" "rx_ok RX_BUFSZ q"
      using int_rx_takes [OF d(5), of 1] by blast
    show ?thesis
    proof (cases "take 1 (rx_content RX_BUFSZ (rx a))")
      case (Cons ch cs)
      then show ?thesis using step d q Serial_read
        by (auto simp: serial_thread_step_def simp del: serial_int_rx.simps intro!: app_invI)
    next
      case Nil
      obtain r s where s: "rt_sem_take rx_sem RT_WAITING_FOREVER (ker a) = Some (r, s)"
        "a' = a\<lparr>rx := q, ker := s, serial_pc := went Serial_read Serial_waiting r\<rparr>"
        using step Serial_read q(1) Nil
        by (auto simp: serial_thread_step_def Option.bind_eq_Some_conv simp del: serial_int_rx.simps elim!: on_kernelE)
      show ?thesis unfolding s(2) using inv_sem_take [OF s(1) d(1)] d q(2) by (auto intro!: app_invI)
    qed
  next
    case Serial_waiting
    obtain r s where s: "rt_sem_take_resumed serial_tid (ker a) = Some (r, s)" "a' = a\<lparr>ker := s, serial_pc := Serial_read\<rparr>"
      using step Serial_waiting by (auto simp: serial_thread_step_def Option.bind_eq_Some_conv elim!: on_kernelE)
    show ?thesis unfolding s(2) using inv_sem_take_resumed [OF s(1) d(1)] d by (auto intro!: app_invI)
  next
    case (Serial_got ch)
    obtain out u f where b: "serial_byte flash_ops (map int (adc_voltage a)) ch (line a, flash_mem a) = (out, u, f)"
      by (rule prod_cases3)
    have "start u \<le> 4"
      using serial_byte_start [of "(line a, flash_mem a)" flash_ops "map int (adc_voltage a)" ch] d(2) b
      by (simp add: values_ok_def)
    then have "values_ok (a\<lparr>line := u\<rparr>)" using d(2) by (simp add: values_ok_def)
    then have "values_ok (a\<lparr>tx := tx a @ out, line := u\<rparr>)" by (simp add: values_ok_def)
    then show ?thesis using step d Serial_got b by (auto simp: serial_thread_step_def intro!: app_invI)
  qed
qed

section \<open>Interrupts keep the invariant\<close>

lemma in_isr_inv:
  assumes "in_isr f a = Some a'" "app_inv a" "\<And>b b'. f b = Some b' \<Longrightarrow> app_inv b \<Longrightarrow> app_inv b'"
  shows "app_inv a'"
proof -
  obtain b where b: "f (a\<lparr>ker := rt_interrupt_enter (ker a)\<rparr>) = Some b" "a' = b\<lparr>ker := rt_interrupt_leave (ker b)\<rparr>"
    using assms(1) by (auto simp: in_isr_def Option.bind_eq_Some_conv)
  have "app_inv (a\<lparr>ker := rt_interrupt_enter (ker a)\<rparr>)"
    using assms(2) by (simp add: app_inv_def rt_interrupt_enter_def)
  from assms(3) [OF b(1) this] show ?thesis unfolding b(2) by (simp add: app_inv_def rt_interrupt_leave_def)
qed

lemma phase_cb_inv:
  assumes step: "phase_cb i turn a = Some a'" and i: "1 \<le> i" "i \<le> 3" and inv: "app_inv a"
  shows "app_inv a'"
proof (cases "run_record a = 1 \<and> pwm1_status a i = 0 \<or> percentage_change a = turn")
  case False
  then have "a' = a" using step unfolding phase_cb_def by (simp only: if_False option.inject)
  then show ?thesis using inv by simp
next
  case True
  note d = app_invD [OF inv]
  define p where "p = (if percentage_change a = turn then percentage_change a - 1 else percentage_change a)"
  define b where "b = a\<lparr>percentage_change := p, pwm1_status := (pwm1_status a)(i := 1), pwm1_start := i\<rparr>"
  have b': "(let a = (if percentage_change a = turn then a\<lparr>percentage_change := percentage_change a - 1\<rparr> else a)
      in a\<lparr>pwm1_status := (pwm1_status a)(i := 1), pwm1_start := i\<rparr>) = b"
    by (cases a) (simp add: b_def p_def Let_def)
  obtain r s where s: "rt_sem_release pwm1_sem (ker b) = Some (r, s)" "a' = b\<lparr>ker := s\<rparr>"
    using step True b' by (auto simp: phase_cb_def Let_def Option.bind_eq_Some_conv elim!: on_kernelE)
  have k: "ker b = ker a" "rx b = rx a" by (simp_all add: b_def)
  have "p \<le> 3" using d(2) by (auto simp: p_def values_ok_def)
  then have "values_ok b" using d(2) i unfolding b_def by (simp add: values_ok_def)
  moreover have "outputs_ok b" using d(4) i unfolding b_def by (auto simp: outputs_ok_def)
  moreover have "readings_ok b" using d(3) unfolding b_def by simp
  ultimately show ?thesis unfolding s(2) using inv_sem_release [OF s(1)] d(1,5) k by (intro app_invI) simp_all
qed

lemma uart_isr_inv:
  assumes step: "uart_isr cs a = Some a'" and inv: "app_inv a"
  shows "app_inv a'"
proof -
  note d = app_invD [OF inv]
  obtain q where q: "serial_rx_bytes RX_BUFSZ cs (rx a) = Some q" "rx_ok RX_BUFSZ q"
    using rx_bytes [OF d(5) rx_content_bound [OF d(5)]] by blast
  consider (quiet) "a' = a\<lparr>rx := q, ker := ker a\<rparr>"
    | (input) n s where "uart_input n (ker a) = Some s" "a' = a\<lparr>rx := q, ker := s\<rparr>"
    using step q(1) by (auto simp: uart_isr_def serial_isr_rx_def Option.bind_eq_Some_conv split: if_splits)
  then show ?thesis
  proof cases
    case quiet
    then show ?thesis using d q(2) by (auto intro!: app_invI)
  next
    case input
    have "kernel_inv s" using input(1) d(1) by (auto simp: uart_input_def dest: inv_sem_release)
    then show ?thesis unfolding input(2) using d q(2) by (auto intro!: app_invI)
  qed
qed

lemma phase_isr_inv: "in_isr (phase_cb i turn) a = Some a' \<Longrightarrow> 1 \<le> i \<Longrightarrow> i \<le> 3 \<Longrightarrow> app_inv a \<Longrightarrow> app_inv a'"
  by (erule in_isr_inv) (auto intro: phase_cb_inv)

lemma app_step_inv: "app_step cb a a' \<Longrightarrow> cb_ok cb \<Longrightarrow> app_inv a \<Longrightarrow> app_inv a'"
proof (induction rule: app_step.induct)
  case (pwm a a')
  then show ?case using pwm_step_inv by blast
next
  case (adc a raws a')
  then show ?case using adc_step_inv by blast
next
  case (gpio a levels a')
  then show ?case using gpio_step_inv by blast
next
  case (serial a a')
  then show ?case using serial_step_inv by blast
next
  case (phase_u a a')
  then show ?case using phase_isr_inv [of 1 3 a a'] by (simp add: PHASE_U_cb_def)
next
  case (phase_v a a')
  then show ?case using phase_isr_inv [of 2 2 a a'] by (simp add: PHASE_V_cb_def)
next
  case (phase_w a a')
  then show ?case using phase_isr_inv [of 3 1 a a'] by (simp add: PHASE_W_cb_def)
next
  case (hwtimer a a')
  have "app_inv b'" if "control_hwtimer_cb b = Some b'" "app_inv b" for b b'
    using that by (auto simp: control_hwtimer_cb_def app_inv_def)
  then show ?case using in_isr_inv [of control_hwtimer_cb a a'] hwtimer by blast
next
  case (uart cs a a')
  then show ?case by (auto elim: in_isr_inv uart_isr_inv)
next
  case (kernel a k)
  then show ?case using kernel_step_inv by (auto simp: app_inv_def)
qed

lemma app_init_inv: "kernel_inv k \<Longrightarrow> app_inv (app_init k f)"
  using five_percent rx_open_ok [of RX_BUFSZ]
  by (simp add: app_inv_def app_init_def values_ok_def readings_ok_def outputs_ok_def)

lemma app_reachable_inv:
  assumes "(app_step cb)\<^sup>*\<^sup>* a a'" "app_inv a" "cb_ok cb"
  shows "app_inv a'"
  using assms by (induction rule: rtranclp_induct) (auto dest: app_step_inv)


section \<open>Properties of every reachable state\<close>

text \<open>C1. Whatever the interleaving of threads and interrupts, the pulse outputs are driven with the one
  permitted width and on the three channels only, the shared variables stay in range, the measured
  values fit the converter, and the kernel's own structures are intact.\<close>

theorem controller_invariant:
  assumes "(app_step cb)\<^sup>*\<^sup>* (app_init k f) a" "kernel_inv k" "cb_ok cb"
  shows "(\<forall>c. pulse_out a c = 0 \<or> (pulse_out a c = 2000000 \<and> c \<in> {1, 2, 3})) \<and>
     run_record a \<in> {0, 1} \<and> pwm1_start a \<le> 3 \<and> percentage_set a \<in> percentages \<and> percentage_change a \<le> 3 \<and>
     (\<forall>v\<in>set (adc_voltage a). v \<le> 329) \<and> kernel_inv (ker a)"
proof -
  have "app_inv a" using app_reachable_inv [OF assms(1) app_init_inv [OF assms(2)] assms(3)] .
  note d = app_invD [OF this]
  have "pulse_out a c = 0 \<or> (pulse_out a c = 2000000 \<and> c \<in> {1, 2, 3})" for c
  proof -
    have "c = 1 \<or> c = 2 \<or> c = 3" if "1 \<le> c" "c \<le> 3" using that by linarith
    then show ?thesis using d(4) by (auto simp: outputs_ok_def pulse_def)
  qed
  moreover have "run_record a \<in> {0, 1}" using d(2) by (auto simp: values_ok_def le_Suc_eq)
  ultimately show ?thesis using d by (simp add: values_ok_def readings_ok_def)
qed

text \<open>C2. The closing sequence is safe: while the charge-complete output is on, the PWM thread is in the
  closing loop, and all channels it has dealt with carry no pulse, whatever the interrupts do
  meanwhile; in particular none does when it handles the last one.\<close>

theorem closing_switches_off:
  assumes "(app_step cb)\<^sup>*\<^sup>* (app_init k f) a" "kernel_inv k" "cb_ok cb" and "relay a"
  shows "\<exists>i n. pwm_pc a = Pwm_close i n \<and> 1 \<le> i \<and> i \<le> 3 \<and> (\<forall>c\<le>i. pulse_out a c = 0) \<and>
     (i = 3 \<longrightarrow> (\<forall>c. pulse_out a c = 0))"
proof -
  have "app_inv a" using app_reachable_inv [OF assms(1) app_init_inv [OF assms(2)] assms(3)] .
  then have o: "outputs_ok a" by (rule app_invD)
  obtain i n where p: "pwm_pc a = Pwm_close i n" "5 \<le> n"
    using o assms(4) by (cases "pwm_pc a") (auto simp: outputs_ok_def)
  then have "1 \<le> i" "i \<le> 3" using o by (auto simp: outputs_ok_def)
  moreover have off: "pulse_out a c = 0" if "c \<le> i" for c
    using o p that by (cases "c = 0") (auto simp: outputs_ok_def)
  moreover have "pulse_out a c = 0" if "i = 3" for c
    using o off [of c] that by (cases "c \<le> 3") (auto simp: outputs_ok_def)
  ultimately show ?thesis using p(1) by blast
qed

section \<open>The firing delay\<close>

text \<open>\<open>n\<close> times the same step.\<close>

fun app_iter :: "nat \<Rightarrow> (app \<Rightarrow> app option) \<Rightarrow> app \<Rightarrow> app option" where
  "app_iter 0 f a = Some a"
| "app_iter (Suc n) f a = Option.bind (f a) (app_iter n f)"

lemma wait_cond_eq: "pct \<le> 100 \<Longrightarrow> pwm_wait_cond cnt pct \<longleftrightarrow> unat cnt + pct \<le> 100"
proof -
  assume p: "pct \<le> 100"
  define w :: u32 where "w = 100 - of_nat pct"
  have u: "unat w = 100 - pct"
    unfolding w_def using p by (simp add: unat_sub word_le_nat_alt unsigned_of_nat take_bit_nat_eq_self)
  have "period div 100000 = 100" by (simp add: period_def)
  then have "unat (period div 100000 * w div 100) = 100 - pct"
    using u by (simp add: unat_div unat_word_ariths(2))
  then show ?thesis using p unfolding pwm_wait_cond_def w_def [symmetric] by (auto simp: word_le_nat_alt)
qed

lemma hwtimer_iter:
  "app_iter n (in_isr control_hwtimer_cb) a = Some (a\<lparr>hw_count := hw_count a + of_nat n\<rparr>)"
proof (induction n arbitrary: a)
  case 0
  then show ?case by simp
next
  case (Suc n)
  have "in_isr control_hwtimer_cb a = Some (a\<lparr>hw_count := hw_count a + 1\<rparr>)"
    by (simp add: in_isr_def control_hwtimer_cb_def rt_interrupt_enter_def rt_interrupt_leave_def)
  then show ?case by (simp add: Suc algebra_simps)
qed


text \<open>C5. The busy wait ends when the hardware timer has counted past \<open>100 - percentage_set\<close> tenths of
  a millisecond: the wait is over after exactly \<open>101 - percentage_set\<close> timer interrupts.\<close>

theorem firing_delay:
  assumes "pwm_pc a = Pwm_spin" "hw_count a = 0" "percentage_set a \<le> 100" "n < 2 ^ 32"
  shows "\<exists>a'. app_iter n (in_isr control_hwtimer_cb) a = Some a' \<and>
     pwm_thread_step a' = Some (a'\<lparr>pwm_pc := (if n + percentage_set a \<le> 100 then Pwm_spin else Pwm_set)\<rparr>)"
proof -
  let ?a = "a\<lparr>hw_count := hw_count a + of_nat n\<rparr>"
  have "unat (hw_count ?a) = n"
    using assms(2,4) by (simp add: unsigned_of_nat take_bit_nat_eq_self)
  then have "pwm_wait_cond (hw_count ?a) (percentage_set ?a) \<longleftrightarrow> n + percentage_set a \<le> 100"
    using wait_cond_eq [of "percentage_set a" "hw_count ?a"] assms(3) by simp
  then have "pwm_thread_step ?a = Some (?a\<lparr>pwm_pc := (if n + percentage_set a \<le> 100 then Pwm_spin else Pwm_set)\<rparr>)"
    using assms(1) by (simp add: pwm_thread_step_def)
  then show ?thesis using hwtimer_iter [of n a] by blast
qed

section \<open>Runs\<close>

text \<open>The semaphore of the PWM thread with nobody waiting, \<open>v\<close> tokens.\<close>

definition tokens :: "app \<Rightarrow> u16 \<Rightarrow> bool" where
  "tokens a v \<longleftrightarrow> sem_typed pwm1_sem (ker a) \<and> lists (ker a) (SemWait pwm1_sem) = [] \<and> sem_value (sems (ker a) pwm1_sem) = v"

definition set_tokens :: "u16 \<Rightarrow> app \<Rightarrow> app" where
  "set_tokens v a = a\<lparr>ker := set_sem pwm1_sem v (ker a)\<rparr>"

lemma set_sem_typed [simp]: "sem_typed i (set_sem j v s) = sem_typed i s"
  by (simp add: sem_typed_def set_sem_def rt_object_get_type_def)

lemma set_tokens_sel [simp]:
  "run_record (set_tokens v a) = run_record a" "pwm1_status (set_tokens v a) = pwm1_status a"
  "pwm1_start (set_tokens v a) = pwm1_start a" "percentage_set (set_tokens v a) = percentage_set a"
  "percentage_change (set_tokens v a) = percentage_change a" "hw_count (set_tokens v a) = hw_count a"
  "pulse_out (set_tokens v a) = pulse_out a" "relay (set_tokens v a) = relay a" "pwm_pc (set_tokens v a) = pwm_pc a"
  "adc_pc (set_tokens v a) = adc_pc a" "adc_voltage (set_tokens v a) = adc_voltage a" "settings (set_tokens v a) = settings a"
  "tokens (set_tokens v a) u \<longleftrightarrow> tokens a (sem_value (sems (ker a) pwm1_sem)) \<and> u = v"
  by (auto simp: set_tokens_def tokens_def set_sem_def sem_typed_def rt_object_get_type_def)

lemma tokensD: "tokens a v \<Longrightarrow> tokens a (sem_value (sems (ker a) pwm1_sem))"
  by (simp add: tokens_def)

text \<open>Everything but the kernel leaves the tokens alone.\<close>

lemma tokens_frame [simp]:
  "tokens (a\<lparr>pwm_pc := x\<rparr>) v = tokens a v" "tokens (a\<lparr>hw_count := n\<rparr>) v = tokens a v"
  "tokens (a\<lparr>pulse_out := p\<rparr>) v = tokens a v" "tokens (a\<lparr>pwm1_start := i\<rparr>) v = tokens a v"
  "tokens (a\<lparr>pwm1_status := st\<rparr>) v = tokens a v" "tokens (a\<lparr>percentage_change := c\<rparr>) v = tokens a v"
  "tokens (a\<lparr>adc_pc := y\<rparr>) v = tokens a v"
  by (simp_all add: tokens_def)

lemma pwm_take_token:
  "tokens a v \<Longrightarrow> 0 < v \<Longrightarrow> pwm_pc a = Pwm_take \<Longrightarrow>
   pwm_thread_step a = Some ((set_tokens (v - 1) a)\<lparr>pwm_pc := Pwm_test\<rparr>)"
  by (simp add: pwm_thread_step_def on_kernel_def rt_sem_take_def tokens_def set_tokens_def)

lemma release_token:
  "tokens a v \<Longrightarrow> v < 0xffff \<Longrightarrow> on_kernel (rt_sem_release pwm1_sem) a = Some (RT_EOK, set_tokens (v + 1) a)"
  by (simp add: on_kernel_def rt_sem_release_def tokens_def set_tokens_def)

text \<open>A zero-crossing interrupt that is served while the PWM thread does not wait.\<close>

lemma phase_isr_fires:
  assumes "tokens a v" "v < 0xffff" "run_record a = 1 \<and> pwm1_status a i = 0 \<and> percentage_change a \<noteq> turn"
  shows "in_isr (phase_cb i turn) a =
    Some (set_tokens (v + 1) (a\<lparr>pwm1_status := (pwm1_status a)(i := 1), pwm1_start := i\<rparr>))"
proof -
  let ?b = "a\<lparr>ker := rt_interrupt_enter (ker a), pwm1_status := (pwm1_status a)(i := 1), pwm1_start := i\<rparr>"
  have t: "tokens ?b v"
    using assms(1) by (simp add: tokens_def rt_interrupt_enter_def sem_typed_def rt_object_get_type_def)
  have "phase_cb i turn (a\<lparr>ker := rt_interrupt_enter (ker a)\<rparr>) = Some (set_tokens (v + 1) ?b)"
    using assms(3) release_token [OF t assms(2)] by (simp add: phase_cb_def)
  then show ?thesis
    by (simp add: in_isr_def set_tokens_def set_sem_def rt_interrupt_enter_def rt_interrupt_leave_def)
qed

lemma phase_isr_stale:
  assumes "tokens a v" "v < 0xffff" "percentage_change a = turn"
  shows "in_isr (phase_cb i turn) a =
    Some (set_tokens (v + 1) (a\<lparr>percentage_change := turn - 1, pwm1_status := (pwm1_status a)(i := 1), pwm1_start := i\<rparr>))"
proof -
  let ?b = "a\<lparr>ker := rt_interrupt_enter (ker a), percentage_change := turn - 1, pwm1_status := (pwm1_status a)(i := 1),
    pwm1_start := i\<rparr>"
  have t: "tokens ?b v"
    using assms(1) by (simp add: tokens_def rt_interrupt_enter_def sem_typed_def rt_object_get_type_def)
  have "phase_cb i turn (a\<lparr>ker := rt_interrupt_enter (ker a)\<rparr>) = Some (set_tokens (v + 1) ?b)"
    using assms(3) release_token [OF t assms(2)] by (simp add: phase_cb_def)
  then show ?thesis
    by (simp add: in_isr_def set_tokens_def set_sem_def rt_interrupt_enter_def rt_interrupt_leave_def)
qed


lemma app_iter_add: "app_iter (m + n) f a = Option.bind (app_iter m f a) (app_iter n f)"
  by (induction m arbitrary: a) (simp_all split: Option.bind_split)

text \<open>The PWM thread from the end of its busy wait to the next test, when a token is left.\<close>

lemma pwm_fire:
  assumes "pwm_pc a = Pwm_spin" "\<not> pwm_wait_cond (hw_count a) (percentage_set a)" "tokens a v" "0 < v"
  shows "app_iter 4 pwm_thread_step a =
    Some ((set_tokens (v - 1) (a\<lparr>pulse_out := (pulse_out a)(pwm1_start a := 2000000), pwm1_start := 0\<rparr>))\<lparr>pwm_pc := Pwm_test\<rparr>)"
proof -
  let ?b = "a\<lparr>pulse_out := (pulse_out a)(pwm1_start a := 2000000), pwm1_start := 0, pwm_pc := Pwm_take\<rparr>"
  have p: "pulse * 2 = 2000000" by (simp add: pulse_def)
  have "app_iter 3 pwm_thread_step a = Some ?b"
    using assms(1,2) by (simp add: pwm_thread_step_def eval_nat_numeral p)
  moreover have "pwm_thread_step ?b = Some ((set_tokens (v - 1) ?b)\<lparr>pwm_pc := Pwm_test\<rparr>)"
    using assms(3,4) by (intro pwm_take_token) simp_all
  moreover have "app_iter 4 pwm_thread_step a = Option.bind (app_iter 3 pwm_thread_step a) (app_iter 1 pwm_thread_step)"
    using app_iter_add [of 3 1 pwm_thread_step a] by (simp only: numeral_plus_one semiring_norm)
  ultimately show ?thesis by (simp add: set_tokens_def)
qed

text \<open>With no channel to start, the thread stops the charge: the first four statements of the loop.\<close>

lemma pwm_stop:
  assumes "pwm_pc a = Pwm_test" "pwm1_start a = 0"
  shows "app_iter 5 pwm_thread_step a = Some (a\<lparr>pulse_out := (pulse_out a)(1 := 0),
    pwm1_status := (pwm1_status a)(1 := 0), percentage_set := 5, run_record := 0, pwm_pc := Pwm_close 1 4\<rparr>)"
  using assms by (simp add: pwm_thread_step_def pwm_close_step_def eval_nat_numeral)

text \<open>C4. Firing takes up to 9.5 ms, the phases are 3.3 ms apart: when the other two phases cross zero
  while the PWM thread waits to fire the first one, \<open>pwm1_start\<close> is overwritten and tokens are left
  over.  After the wait only the last channel is started, and the next token, with \<open>pwm1_start\<close>
  already cleared, is taken for the order to stop: the charge ends although the voltage was not
  reached, with the third channel still on.\<close>

theorem overlapping_phases_stop_charge:
  assumes "pwm_pc a = Pwm_spin" "hw_count a = 0" "percentage_set a \<le> 100" "tokens a 0"
    and "run_record a = 1" "pwm1_status a 2 = 0" "pwm1_status a 3 = 0" "percentage_change a = 0"
  shows "\<exists>a'. Option.bind (in_isr PHASE_V_cb a) (\<lambda>a. Option.bind (in_isr PHASE_W_cb a) (\<lambda>a.
       Option.bind (app_iter (101 - percentage_set a) (in_isr control_hwtimer_cb) a) (app_iter 9 pwm_thread_step))) = Some a' \<and>
     run_record a' = 0 \<and> adc_voltage a' = adc_voltage a \<and>
     pulse_out a' = (pulse_out a)(3 := 2000000, 1 := 0) \<and> pwm1_status a' 2 = 1 \<and> pwm1_status a' 3 = 1"
proof -
  define a1 where "a1 = set_tokens 1 (a\<lparr>pwm1_status := (pwm1_status a)(2 := 1), pwm1_start := 2\<rparr>)"
  define a2 where "a2 = set_tokens 2 (a1\<lparr>pwm1_status := (pwm1_status a1)(3 := 1), pwm1_start := 3\<rparr>)"
  define n where "n = 101 - percentage_set a"
  define a3 where "a3 = a2\<lparr>hw_count := hw_count a2 + of_nat n\<rparr>"
  have v: "in_isr PHASE_V_cb a = Some a1"
    using phase_isr_fires [OF assms(4), of 2 2] assms(5-8) by (simp add: PHASE_V_cb_def a1_def)
  have t1: "tokens a1 1" using assms(4) tokensD by (simp add: a1_def)
  have w: "in_isr PHASE_W_cb a1 = Some a2"
    using phase_isr_fires [OF t1, of 3 1] assms(5-8) by (simp add: PHASE_W_cb_def a2_def a1_def)
  have t3: "tokens a3 2" using t1 tokensD by (simp add: a3_def a2_def)
  have p: "percentage_set a2 = percentage_set a" "hw_count a2 = 0" by (simp_all add: a2_def a1_def assms(2))
  have "n \<le> 101" by (simp add: n_def)
  then have "unat (hw_count a3) = n" by (simp add: a3_def p unsigned_of_nat take_bit_nat_eq_self)
  then have go: "\<not> pwm_wait_cond (hw_count a3) (percentage_set a3)"
    using wait_cond_eq [of "percentage_set a" "hw_count a3"] assms(3) by (simp add: a3_def p n_def)
  let ?a4 = "(set_tokens (2 - 1) (a3\<lparr>pulse_out := (pulse_out a3)(pwm1_start a3 := 2000000), pwm1_start := 0\<rparr>))\<lparr>pwm_pc := Pwm_test\<rparr>"
  have "app_iter 4 pwm_thread_step a3 = Some ?a4"
    using pwm_fire [OF _ go t3] assms(1) by (simp add: a3_def a2_def a1_def)
  then have "app_iter (4 + 5) pwm_thread_step a3 = Some (?a4\<lparr>pulse_out := (pulse_out ?a4)(1 := 0),
      pwm1_status := (pwm1_status ?a4)(1 := 0), percentage_set := 5, run_record := 0, pwm_pc := Pwm_close 1 4\<rparr>)"
    using pwm_stop [of ?a4] by (simp only: app_iter_add) simp
  then have run: "app_iter 9 pwm_thread_step a3 = Some (?a4\<lparr>pulse_out := (pulse_out ?a4)(1 := 0),
      pwm1_status := (pwm1_status ?a4)(1 := 0), percentage_set := 5, run_record := 0, pwm_pc := Pwm_close 1 4\<rparr>)"
    by simp
  have "app_iter (101 - percentage_set a2) (in_isr control_hwtimer_cb) a2 = Some a3"
    unfolding p(1) n_def [symmetric] a3_def by (rule hwtimer_iter)
  then show ?thesis using v w run by (simp add: a3_def a2_def a1_def)
qed


text \<open>A change of the percentage that is still pending survives the end of a charge: the next zero
  crossing of phase U starts channel 1 although nothing is running.\<close>

theorem stale_change_restarts:
  assumes "run_record a = 0" "percentage_change a = 3" "pwm_pc a = Pwm_take" "tokens a 0" "percentage_set a \<le> 100"
  shows "\<exists>a'. Option.bind (in_isr PHASE_U_cb a) (\<lambda>a. Option.bind (app_iter 3 pwm_thread_step a) (\<lambda>a.
       Option.bind (app_iter (101 - percentage_set a) (in_isr control_hwtimer_cb) a) (app_iter 2 pwm_thread_step))) = Some a' \<and>
     run_record a' = 0 \<and> pulse_out a' 1 = 2000000 \<and> percentage_change a' = 2"
proof -
  define a1 where "a1 = set_tokens 1 (a\<lparr>percentage_change := 2, pwm1_status := (pwm1_status a)(1 := 1), pwm1_start := 1\<rparr>)"
  define a2 where "a2 = (set_tokens 0 a1)\<lparr>hw_count := 0, pwm_pc := Pwm_spin\<rparr>"
  define n where "n = 101 - percentage_set a"
  define a3 where "a3 = a2\<lparr>hw_count := hw_count a2 + of_nat n\<rparr>"
  have u: "in_isr PHASE_U_cb a = Some a1"
    using phase_isr_stale [OF assms(4) _ assms(2), of 1] by (simp add: PHASE_U_cb_def a1_def)
  have "tokens a1 1" using assms(4) tokensD by (simp add: a1_def)
  then have t: "pwm_thread_step a1 = Some ((set_tokens 0 a1)\<lparr>pwm_pc := Pwm_test\<rparr>)"
    using pwm_take_token [of a1 1] assms(3) by (simp add: a1_def)
  have "app_iter 2 pwm_thread_step ((set_tokens 0 a1)\<lparr>pwm_pc := Pwm_test\<rparr>) = Some a2"
    by (simp add: eval_nat_numeral pwm_thread_step_def a2_def a1_def)
  then have "app_iter (Suc 2) pwm_thread_step a1 = Some a2"
    by (simp only: app_iter.simps t Option.bind.bind_lunit)
  then have s: "app_iter 3 pwm_thread_step a1 = Some a2" by simp
  have p: "percentage_set a2 = percentage_set a" "hw_count a2 = 0" by (simp_all add: a2_def a1_def)
  have "n \<le> 101" by (simp add: n_def)
  then have "unat (hw_count a3) = n" by (simp add: a3_def p unsigned_of_nat take_bit_nat_eq_self)
  then have go: "\<not> pwm_wait_cond (hw_count a3) (percentage_set a3)"
    using wait_cond_eq [of "percentage_set a" "hw_count a3"] assms(5) by (simp add: a3_def p n_def)
  have w: "app_iter (101 - percentage_set a2) (in_isr control_hwtimer_cb) a2 = Some a3"
    unfolding p(1) n_def [symmetric] a3_def by (rule hwtimer_iter)
  have "app_iter 2 pwm_thread_step a3 = Some (a3\<lparr>pulse_out := (pulse_out a3)(1 := 2000000), pwm_pc := Pwm_clear\<rparr>)"
    using go by (simp add: eval_nat_numeral pwm_thread_step_def pulse_def a3_def a2_def a1_def)
  then show ?thesis using u s w assms(1) by (simp add: a3_def a2_def a1_def)
qed


section \<open>Examples\<close>

definition demo_app :: app where
  "demo_app = app_init (demo (SemWait 5)) \<lparr>formatted = True, params_dat = None\<rparr>"

lemma demo_app_tokens: "tokens demo_app 0"
  by (simp add: tokens_def demo_app_def app_init_def sem_typed_def demo_def kstate0_def)

lemma demo_app_reach: "(app_step (\<lambda>_. Some))\<^sup>*\<^sup>* demo_app (demo_app\<lparr>hw_count := 1\<rparr>)"
proof (rule r_into_rtranclp)
  have "in_isr control_hwtimer_cb demo_app = Some (demo_app\<lparr>hw_count := 1\<rparr>)"
    by (simp add: in_isr_def control_hwtimer_cb_def rt_interrupt_enter_def rt_interrupt_leave_def demo_app_def app_init_def)
  then show "app_step (\<lambda>_. Some) demo_app (demo_app\<lparr>hw_count := 1\<rparr>)" by (rule app_step.hwtimer)
qed

lemma controller_invariant_witness:
  "\<forall>c. pulse_out (demo_app\<lparr>hw_count := 1\<rparr>) c = 0 \<or> (pulse_out (demo_app\<lparr>hw_count := 1\<rparr>) c = 2000000 \<and> c \<in> {1, 2, 3})"
  using controller_invariant [OF demo_app_reach [unfolded demo_app_def] demo_inv] by (simp add: cb_ok_def demo_app_def)

lemma firing_delay_witness:
  "\<exists>a'. app_iter 96 (in_isr control_hwtimer_cb) (demo_app\<lparr>pwm_pc := Pwm_spin\<rparr>) = Some a' \<and>
     pwm_thread_step a' = Some (a'\<lparr>pwm_pc :=
       (if 96 + percentage_set (demo_app\<lparr>pwm_pc := Pwm_spin\<rparr>) \<le> 100 then Pwm_spin else Pwm_set)\<rparr>)"
  by (rule firing_delay) (simp_all add: demo_app_def app_init_def)

definition demo_spin :: app where
  "demo_spin = demo_app\<lparr>run_record := 1, pwm1_status := (\<lambda>_. 0)(1 := 1), pwm1_start := 1, pwm_pc := Pwm_spin\<rparr>"

lemma overlapping_phases_stop_charge_witness:
  "\<exists>a'. Option.bind (in_isr PHASE_V_cb demo_spin) (\<lambda>a. Option.bind (in_isr PHASE_W_cb a) (\<lambda>a.
       Option.bind (app_iter (101 - percentage_set a) (in_isr control_hwtimer_cb) a) (app_iter 9 pwm_thread_step))) = Some a' \<and>
     run_record a' = 0 \<and> adc_voltage a' = adc_voltage demo_spin \<and>
     pulse_out a' = (pulse_out demo_spin)(3 := 2000000, 1 := 0) \<and> pwm1_status a' 2 = 1 \<and> pwm1_status a' 3 = 1"
proof (rule overlapping_phases_stop_charge)
  show "tokens demo_spin 0" using demo_app_tokens by (simp add: demo_spin_def tokens_def)
qed (simp_all add: demo_spin_def demo_app_def app_init_def)

lemma stale_change_restarts_witness:
  "\<exists>a'. Option.bind (in_isr PHASE_U_cb (demo_app\<lparr>percentage_change := 3\<rparr>)) (\<lambda>a.
       Option.bind (app_iter 3 pwm_thread_step a) (\<lambda>a.
       Option.bind (app_iter (101 - percentage_set a) (in_isr control_hwtimer_cb) a) (app_iter 2 pwm_thread_step))) = Some a' \<and>
     run_record a' = 0 \<and> pulse_out a' 1 = 2000000 \<and> percentage_change a' = 2"
  by (rule stale_change_restarts) (simp_all add: demo_app_tokens, simp_all add: demo_app_def app_init_def)

definition demo_full :: app where
  "demo_full = demo_app\<lparr>run_record := 1, settings := (300, 1500), adc_voltage := [0, 310, 0, 0, 0, 0, 0],
     adc_pc := Adc_check\<rparr>"



text \<open>A token without a channel to start, which any release of the semaphore gives, leads to the
  closing loop.\<close>

definition demo_closing :: app where
  "demo_closing = (set_tokens 0 (set_tokens 1 demo_app))\<lparr>pulse_out := (\<lambda>_. 0)(1 := 0),
     pwm1_status := (\<lambda>_. 0)(1 := 0), percentage_set := 5, run_record := 0, relay := True, pwm_pc := Pwm_close 1 5\<rparr>"

lemma pwm_iter_reach:
  "app_iter n pwm_thread_step a = Some a' \<Longrightarrow>
   (\<And>m b. m < n \<Longrightarrow> app_iter m pwm_thread_step a = Some b \<Longrightarrow> cur_thread (ker b) = Some pwm_tid) \<Longrightarrow>
   (app_step cb)\<^sup>*\<^sup>* a a'"
proof (induction n arbitrary: a)
  case 0
  then show ?case by simp
next
  case (Suc n)
  obtain b where b: "pwm_thread_step a = Some b" "app_iter n pwm_thread_step b = Some a'"
    using Suc.prems(1) by (auto simp: Option.bind_eq_Some_conv)
  have "cur_thread (ker a) = Some pwm_tid" by (rule Suc.prems(2) [of 0]) simp_all
  then have "app_step cb a b" using b(1) by (rule app_step.pwm)
  moreover have "(app_step cb)\<^sup>*\<^sup>* b a'"
    using Suc.IH [OF b(2)] Suc.prems(2) [of "Suc m" for m] b(1) by simp
  ultimately show ?case by (rule converse_rtranclp_into_rtranclp)
qed

lemma demo_closing_reach: "(app_step (\<lambda>_. Some))\<^sup>*\<^sup>* demo_app demo_closing"
proof (rule converse_rtranclp_into_rtranclp)
  have "rt_sem_release 0 (ker demo_app) = Some (RT_EOK, ker (set_tokens 1 demo_app))"
    using demo_app_tokens by (simp add: rt_sem_release_def tokens_def set_tokens_def)
  then have "app_step (\<lambda>_. Some) demo_app (demo_app\<lparr>ker := ker (set_tokens 1 demo_app)\<rparr>)"
    by (intro app_step.kernel kernel_step.sem_release)
  then show "app_step (\<lambda>_. Some) demo_app (set_tokens 1 demo_app)" by (simp add: set_tokens_def)
next
  let ?a = "set_tokens 1 demo_app"
  have t: "tokens ?a 1" using demo_app_tokens tokensD by simp
  have c: "cur_thread (ker ?a) = Some pwm_tid" "cur_thread (ker (set_tokens 0 ?a)) = Some pwm_tid"
    by (simp_all add: set_tokens_def set_sem_def demo_app_def app_init_def pwm_tid_def)
  have f: "pwm_pc ?a = Pwm_take" "pwm1_start ?a = 0" "pulse_out ?a = (\<lambda>_. 0)" "pwm1_status ?a = (\<lambda>_. 0)"
    by (simp_all add: demo_app_def app_init_def)
  have 1: "app_step (\<lambda>_. Some) ?a ((set_tokens 0 ?a)\<lparr>pwm_pc := Pwm_test\<rparr>)"
    using pwm_take_token [OF t _ f(1)] c(1) by (intro app_step.pwm) simp_all
  have run: "app_iter 6 pwm_thread_step ((set_tokens 0 ?a)\<lparr>pwm_pc := Pwm_test\<rparr>) = Some demo_closing"
    using pwm_stop [of "(set_tokens 0 ?a)\<lparr>pwm_pc := Pwm_test\<rparr>"] f
      app_iter_add [of 5 1 pwm_thread_step "(set_tokens 0 ?a)\<lparr>pwm_pc := Pwm_test\<rparr>"]
    by (simp add: pwm_thread_step_def pwm_close_step_def demo_closing_def)
  have "(app_step (\<lambda>_. Some))\<^sup>*\<^sup>* ((set_tokens 0 ?a)\<lparr>pwm_pc := Pwm_test\<rparr>) demo_closing"
  proof (rule pwm_iter_reach [OF run])
    fix m b
    assume m: "m < 6" and b: "app_iter m pwm_thread_step ((set_tokens 0 ?a)\<lparr>pwm_pc := Pwm_test\<rparr>) = Some b"
    from m have "m \<in> {0, 1, 2, 3, 4, 5}" by auto
    then have "ker b = ker (set_tokens 0 ?a)"
      using b f by (auto simp: eval_nat_numeral pwm_thread_step_def pwm_close_step_def)
    then show "cur_thread (ker b) = Some pwm_tid" using c(2) by simp
  qed
  with 1 show "(app_step (\<lambda>_. Some))\<^sup>*\<^sup>* ?a demo_closing" by (rule converse_rtranclp_into_rtranclp)
qed

lemma closing_switches_off_witness:
  "\<exists>i n. pwm_pc demo_closing = Pwm_close i n \<and> 1 \<le> i \<and> i \<le> 3 \<and> (\<forall>c\<le>i. pulse_out demo_closing c = 0) \<and>
     (i = 3 \<longrightarrow> (\<forall>c. pulse_out demo_closing c = 0))"
  by (rule closing_switches_off [OF demo_closing_reach [unfolded demo_app_def] demo_inv])
    (simp_all add: cb_ok_def demo_closing_def)

end
