(* ===== verification/Examples.thy ===== *)
theory Examples
  imports Demo Semaphore Mutex Event Mailbox MsgQueue KString AdcFilter
begin

text \<open>The theorems on the communication objects, the timers and the memory routines at concrete
  inputs.\<close>

section \<open>Semaphores\<close>

lemma sem_take_release_counts_witness:
  "\<exists>s1 s2. rt_sem_release 0 (demo (SemWait 1)) = Some (RT_EOK, s1) \<and>
     unat (sem_value (sems s1 0)) = unat (sem_value (sems (demo (SemWait 1)) 0)) + 1 \<and>
     rt_sem_take 0 7 s1 = Some (Return RT_EOK, s2) \<and> s2 = demo (SemWait 1)"
  by (rule sem_take_release_counts) (simp_all add: sem_typed_def, simp add: demo_def kstate0_def)

lemma sem_release_wakes_first_witness:
  "\<exists>s1. rt_sem_release 0 (demo (SemWait 0)) = Option.bind (rt_schedule s1) (\<lambda>s2. Some (RT_EOK, s2)) \<and>
     kernel_inv s1 \<and> sems s1 = sems (demo (SemWait 0)) \<and> lists s1 (SemWait 0) = [] \<and>
     stat_of s1 2 = RT_THREAD_READY \<and> thread_error (threads s1 2) = thread_error (threads (demo (SemWait 0)) 2) \<and>
     (let q = ReadyQ (unat (current_priority (threads (demo (SemWait 0)) 2)))
      in lists s1 q = lists (demo (SemWait 0)) q @ [2])"
  by (rule sem_release_wakes_first) (simp_all add: demo_inv sem_typed_def)

lemma sem_take_waits_witness:
  "\<exists>s1. rt_sem_take 0 7 (demo (SemWait 0)) = schedule_then 1 () (rt_sem_take_resumed 1) s1 \<and> kernel_inv s1 \<and>
     sems s1 = sems (demo (SemWait 0)) \<and> stat_of s1 1 = RT_THREAD_SUSPEND \<and> thread_error (threads s1 1) = RT_EOK \<and>
     lists s1 (SemWait 0) =
       insert_at (wait_place (obj_flag (objs (demo (SemWait 0)) (SemObj 0))) (threads (demo (SemWait 0)))
         (current_priority (threads (demo (SemWait 0)) 1)) (lists (demo (SemWait 0)) (SemWait 0))) 1
         (lists (demo (SemWait 0)) (SemWait 0)) \<and>
     (7 > (0 :: int) \<longrightarrow> timeout_tick (timers s1 (ThreadTimer 1)) = rt_tick (demo (SemWait 0)) + word_of_int 7)"
  by (rule sem_take_waits) (simp_all add: demo_inv sem_typed_def, simp add: demo_def kstate0_def)

lemma sem_take_times_out_witness:
  "\<exists>s1. rt_thread_timeout 2 (demo (SemWait 0)) = rt_schedule s1 \<and> kernel_inv s1 \<and>
     sems s1 = sems (demo (SemWait 0)) \<and>
     lists s1 (SemWait 0) = remove1 2 (lists (demo (SemWait 0)) (SemWait 0)) \<and> 2 \<notin> set (lists s1 (SemWait 0)) \<and>
     stat_of s1 2 = RT_THREAD_READY \<and>
     (\<forall>s2. threads s2 2 = threads s1 2 \<longrightarrow> rt_sem_take_resumed 2 s2 = Some (Return (- RT_ETIMEOUT), s2))"
  by (rule sem_take_times_out) (simp_all add: demo_inv)

section \<open>Mutexes\<close>

definition demo_mutex :: "rt_mutex \<Rightarrow> kstate \<Rightarrow> kstate" where
  "demo_mutex mx s = s\<lparr>mutexes := (\<lambda>_. \<lparr>mutex_value = 1, original_priority = 0xff, hold = 0, owner = None\<rparr>)(0 := mx)\<rparr>"

lemma demo_mutex_inv [simp]: "kernel_inv (demo_mutex mx s) = kernel_inv s"
  unfolding demo_mutex_def by (rule kernel_inv_cong) simp_all

lemma demo_mutex_sel [simp]:
  "mutexes (demo_mutex mx s) 0 = mx"
  "mutexes (demo_mutex mx s) (Suc 0) = \<lparr>mutex_value = 1, original_priority = 0xff, hold = 0, owner = None\<rparr>"
  "cur_thread (demo_mutex mx s) = cur_thread s" "interrupt_nest (demo_mutex mx s) = interrupt_nest s"
  "objs (demo_mutex mx s) = objs s" "threads (demo_mutex mx s) = threads s" "lists (demo_mutex mx s) = lists s"
  "stat_of (demo_mutex mx s) t = stat_of s t"
  by (simp_all add: demo_mutex_def stat_of_def)

definition held_by :: "tid \<Rightarrow> u8 \<Rightarrow> rt_mutex" where
  "held_by t p = \<lparr>mutex_value = 0, original_priority = p, hold = 1, owner = Some t\<rparr>"

lemma held_by_sel [simp]:
  "mutex_value (held_by t p) = 0" "original_priority (held_by t p) = p" "hold (held_by t p) = 1"
  "owner (held_by t p) = Some t" "mutex_ok (held_by t p)"
  by (simp_all add: held_by_def mutex_ok_def)

lemma mutex_release_hands_over_witness:
  "\<exists>s1. rt_mutex_release 0 (demo_mutex (held_by 1 6) (demo (MutexWait 0))) =
          Option.bind (rt_schedule s1) (\<lambda>s2. Some (RT_EOK, s2)) \<and> kernel_inv s1 \<and>
     owner (mutexes s1 0) = Some 2 \<and> hold (mutexes s1 0) = 1 \<and> lists s1 (MutexWait 0) = [] \<and>
     stat_of s1 2 = RT_THREAD_READY \<and>
     original_priority (mutexes s1 0) =
       current_priority (threads (demo_mutex (held_by 1 6) (demo (MutexWait 0))) 2) \<and>
     current_priority (threads s1 1) = original_priority (mutexes (demo_mutex (held_by 1 6) (demo (MutexWait 0))) 0)"
  by (rule mutex_release_hands_over) (simp_all add: demo_inv mutex_typed_def)

lemma mutex_take_inherits_witness:
  "\<exists>s1. rt_mutex_take 0 7 (demo_mutex (held_by 1 5) demo_ready) = schedule_then 2 () (rt_mutex_take_resumed 2) s1 \<and>
     kernel_inv s1 \<and> mutexes s1 = mutexes (demo_mutex (held_by 1 5) demo_ready) \<and>
     stat_of s1 2 = RT_THREAD_SUSPEND \<and> 2 \<in> set (lists s1 (MutexWait 0)) \<and>
     current_priority (threads s1 2) = current_priority (threads (demo_mutex (held_by 1 5) demo_ready) 2) \<and>
     current_priority (threads s1 1) = min (current_priority (threads (demo_mutex (held_by 1 5) demo_ready) 1))
       (current_priority (threads (demo_mutex (held_by 1 5) demo_ready) 2))"
  by (rule mutex_take_inherits) (simp_all add: demo_ready_inv mutex_typed_def)

lemma mutex_boost_outlives_release_witness:
  "\<exists>s1 s2 s3. rt_mutex_take 1 7 (demo_mutex (held_by 1 10) (demo (SemWait 0))) = Some (Return RT_EOK, s1) \<and>
     rt_mutex_release 0 s1 = Some (RT_EOK, s2) \<and> current_priority (threads s2 1) = 10 \<and>
     rt_mutex_release 1 s2 = Some (RT_EOK, s3) \<and>
     owner (mutexes s3 0) = None \<and> owner (mutexes s3 1) = None \<and> current_priority (threads s3 1) = 5"
  by (rule mutex_boost_outlives_release) (simp_all add: demo_inv mutex_typed_def mutex_ok_def ready_thread_def)

lemma mutex_take_ownership_witness:
  "\<exists>s'. rt_mutex_take 1 7 (demo_mutex (held_by 1 5) (demo (SemWait 0))) = Some (Return RT_EOK, s') \<and>
     owner (mutexes s' 1) = Some 1 \<and> hold (mutexes s' 1) = 1 \<and>
     mutexes s' 0 = mutexes (demo_mutex (held_by 1 5) (demo (SemWait 0))) 0"
proof -
  let ?s = "demo_mutex (held_by 1 5) (demo (SemWait 0))"
  have "\<exists>s'. rt_mutex_take 1 7 ?s = Some (Return RT_EOK, s')"
    by (simp add: rt_mutex_take_def mutex_typed_def in_thread_context_def not_in_interrupt_def rt_thread_self_def Let_def)
  then obtain s' where s': "rt_mutex_take 1 7 ?s = Some (Return RT_EOK, s')" by blast
  have ok: "mutex_ok (mutexes ?s 1)" by (simp add: mutex_ok_def)
  from mutex_take_ownership [OF s' ok, of 1] s' show ?thesis by auto
qed

lemma mutex_release_ownership_witness:
  "\<exists>s'. rt_mutex_release 0 (demo_mutex (held_by 2 5) (demo (SemWait 0))) = Some (- RT_ERROR, s') \<and>
     mutexes s' 0 = held_by 2 5"
proof -
  let ?s = "demo_mutex (held_by 2 5) (demo (SemWait 0))"
  have "\<exists>r s'. rt_mutex_release 0 ?s = Some (r, s')"
    by (simp add: rt_mutex_release_def mutex_typed_def in_thread_context_def not_in_interrupt_def rt_thread_self_def Let_def)
  then obtain r s' where s': "rt_mutex_release 0 ?s = Some (r, s')" by blast
  from mutex_release_ownership [OF s', of 1] s' show ?thesis by auto
qed

section \<open>Events\<close>

definition demo_event :: kstate where
  "demo_event = upd_thread 2 (\<lambda>th. th\<lparr>event_set := 5, event_info := RT_EVENT_FLAG_OR\<rparr>) (demo (EventWait 0))"


lemma event_recv_takes_witness:
  "\<exists>s1. rt_event_recv 0 4 (RT_EVENT_FLAG_OR OR RT_EVENT_FLAG_CLEAR) 7 (set_event 0 6 (demo (SemWait 0))) =
        Some (Return (RT_EOK, Some (ev_set (events (set_event 0 6 (demo (SemWait 0))) 0) AND 4)), s1) \<and>
     event_set (threads s1 1) = ev_set (events (set_event 0 6 (demo (SemWait 0))) 0) AND 4 \<and>
     lists s1 = lists (set_event 0 6 (demo (SemWait 0))) \<and>
     ev_set (events s1 0) =
       (if (RT_EVENT_FLAG_OR OR RT_EVENT_FLAG_CLEAR) AND RT_EVENT_FLAG_CLEAR = (0 :: u8)
        then ev_set (events (set_event 0 6 (demo (SemWait 0))) 0)
        else ev_set (events (set_event 0 6 (demo (SemWait 0))) 0) AND NOT 4)"
  by (rule event_recv_takes) (simp_all add: event_typed_def set_event_def event_test_def)

section \<open>Mailboxes\<close>

definition demo_mb :: rt_mailbox where
  "demo_mb = \<lparr>mb_pool = [7, 8, 9], mb_size = 3, mb_entry = 2, in_offset = 1, out_offset = 2\<rparr>"

lemma demo_mb_facts [simp]: "mb_ok demo_mb" "mb_content demo_mb = [9, 7]"
  by (simp_all add: mb_ok_def mb_content_def demo_mb_def upt_rec)

lemma demo_set_mb [simp]:
  "mailboxes (set_mb i mb s) i = mb" "lists (set_mb i mb s) = lists s" "objs (set_mb i mb s) = objs s"
  "threads (set_mb i mb s) = threads s" "stat_of (set_mb i mb s) t = stat_of s t"
  "kernel_inv (set_mb i mb s) = kernel_inv s"
proof -
  show "kernel_inv (set_mb i mb s) = kernel_inv s" by (rule kernel_inv_cong) (simp_all add: set_mb_def)
qed (simp_all add: set_mb_def stat_of_def)

lemma mb_recv_takes_witness:
  "\<exists>mb. mb_ok mb \<and> mb_content mb = [7] \<and>
     rt_mb_recv 0 7 (set_mb 0 demo_mb (demo (MbSend 0))) =
       Option.bind (wake_other_side (MbSend 0) (set_mb 0 mb (set_mb 0 demo_mb (demo (MbSend 0)))))
         (\<lambda>s1. Some (Return (RT_EOK, Some 9), s1))"
  by (rule mb_recv_takes) (simp_all add: mb_typed_def)

lemma mb_send_wakes_receiver_witness:
  "\<exists>s1. rt_mb_send_wait 0 6 7 (set_mb 0 demo_mb (demo (MbRecv 0))) =
       Option.bind (rt_schedule s1) (\<lambda>s2. Some (Return RT_EOK, s2)) \<and>
     kernel_inv s1 \<and> lists s1 (MbRecv 0) = [] \<and> stat_of s1 2 = RT_THREAD_READY \<and>
     mb_ok (mailboxes s1 0) \<and>
     mb_content (mailboxes s1 0) = mb_content (mailboxes (set_mb 0 demo_mb (demo (MbRecv 0))) 0) @ [6]"
  by (rule mb_send_wakes_receiver) (simp_all add: mb_typed_def demo_inv, simp add: demo_mb_def)

lemma mb_fifo_order_witness:
  "\<exists>mb1 mb2. enq_all mb_enq [4, 5] (mb_init_record [0, 0, 0] 3) = Some mb1 \<and>
     deq_n mb_deq (length [4, 5 :: u32]) mb1 = Some ([4, 5], mb2) \<and> mb_content mb2 = []"
  by (rule mb_fifo_order) simp_all

section \<open>Message queues\<close>

definition demo_mq :: rt_messagequeue where
  "demo_mq = \<lparr>mq_next = (\<lambda>_. None)(1 := Some 2), mq_data = (\<lambda>_. [0, 0, 0, 0]), mq_msg_size = 4, max_msgs = 3,
     mq_entry = 2, msg_queue_head = Some 1, msg_queue_tail = Some 2, msg_queue_free = Some 0\<rparr>"

definition demo_q :: "lid \<Rightarrow> kstate" where
  "demo_q l = set_mq 0 demo_mq (demo l)"

lemma demo_q_sel [simp]: "mqs (demo_q l) 0 = demo_mq" "lists (demo_q l) = lists (demo l)" "mq_typed 0 (demo_q l)"
  by (simp_all add: demo_q_def set_mq_def mq_typed_def)

lemma demo_mq_slots: "mq_slots demo_mq [0] {} [1, 2]"
  unfolding mq_slots_def by (auto simp: demo_mq_def)


lemma mq_send_appends_witness:
  "\<exists>mq. mq_slots mq [] {} ([1, 2] @ [0]) \<and>
     mq_data mq = (mq_data (mqs (demo_q (SemWait 0)) 0))(0 := take (unat (3 :: u32)) [1, 2, 3] @
       drop (unat (3 :: u32)) (mq_data (mqs (demo_q (SemWait 0)) 0) 0)) \<and>
     rt_mq_send_wait 0 [1, 2, 3] 3 7 (demo_q (SemWait 0)) =
       Option.bind (wake_other_side (MqRecv 0) (set_mq 0 mq (demo_q (SemWait 0)))) (\<lambda>s1. Some (Return RT_EOK, s1))"
  by (rule mq_send_appends) (simp_all add: demo_mq_slots [simplified], simp_all add: demo_mq_def)

lemma mq_urgent_first_witness:
  "\<exists>mq. mq_slots mq [] {} (0 # [1, 2]) \<and>
     mq_data mq = (mq_data (mqs (demo_q (SemWait 0)) 0))(0 := take (unat (3 :: u32)) [1, 2, 3] @
       drop (unat (3 :: u32)) (mq_data (mqs (demo_q (SemWait 0)) 0) 0)) \<and>
     rt_mq_urgent 0 [1, 2, 3] 3 (demo_q (SemWait 0)) =
       Option.bind (wake_other_side (MqRecv 0) (set_mq 0 mq (demo_q (SemWait 0)))) (\<lambda>s1. Some (RT_EOK, s1))"
  by (rule mq_urgent_first) (simp_all add: demo_mq_slots [simplified], simp_all add: demo_mq_def)

lemma mq_recv_first_witness:
  "\<exists>mq. mq_slots mq (1 # [0]) {} [2] \<and> mq_data mq = mq_data (mqs (demo_q (SemWait 0)) 0) \<and>
     rt_mq_recv 0 4 7 (demo_q (SemWait 0)) =
       Option.bind (wake_other_side (MqSend 0) (set_mq 0 mq (demo_q (SemWait 0))))
         (\<lambda>s1. Some (Return (RT_EOK, take 4 (mq_data (mqs (demo_q (SemWait 0)) 0) 1)), s1))"
  by (rule mq_recv_first) (simp_all add: demo_mq_slots [simplified], simp_all add: demo_mq_def)

lemma mq_reset_frees_witness:
  "\<exists>mq. mq_slots mq (rev [1, 2] @ [0]) {} [] \<and>
     rt_mq_control 0 (RT_IPC_CMD_RESET 0) (demo_q (SemWait 0)) =
       Option.bind (rt_schedule (set_mq 0 mq (demo_q (SemWait 0)))) (\<lambda>s1. Some (RT_EOK, s1))"
  by (rule mq_reset_frees) (simp_all add: demo_mq_slots [simplified])

section \<open>Timers and objects\<close>

definition demo_timers :: kstate where
  "demo_timers = (demo (SemWait 0))\<lparr>tlists := (\<lambda>_. [])(TimerList := [UserTimer 1]),
     timers := (timers (demo (SemWait 0)))(UserTimer 0 := \<lparr>timeout_func = User_timeout 0, tm_init_tick = 30,
       timeout_tick = 0, tm_link = None\<rparr>,
       UserTimer 1 := \<lparr>timeout_func = User_timeout 0, tm_init_tick = 20, timeout_tick = 20, tm_link = Some TimerList\<rparr>)\<rparr>"

lemma demo_timers_inv: "kernel_inv demo_timers"
proof -
  have "sched_inv demo_timers"
    using kernel_invD(1) [OF demo_inv [of "SemWait 0"]]
    by (subst sched_inv_cong [of _ "demo (SemWait 0)"]) (simp_all add: demo_timers_def)
  then show ?thesis by (auto simp: kernel_inv_def tlinks_ok_def demo_timers_def split: if_splits)
qed

lemma timer_start_sorted_witness:
  "\<exists>s1. rt_timer_start (UserTimer 0) demo_timers = Some (RT_EOK, s1) \<and>
     sorted_by_due (timers s1) 0 (tlists s1 TimerList) \<and>
     remove1 (UserTimer 0) (tlists s1 TimerList) = remove1 (UserTimer 0) (tlists demo_timers TimerList) \<and>
     UserTimer 0 \<in> set (tlists s1 TimerList) \<and>
     timeout_tick (timers s1 (UserTimer 0)) = rt_tick demo_timers + tm_init_tick (timers demo_timers (UserTimer 0))"
  by (rule timer_start_sorted [OF demo_timers_inv])
    (simp_all add: demo_timers_def tm_flag_def demo_obj_def sorted_by_due_def due_def)

text \<open>A semaphore named \<open>s\<close>, after an older one of the same name.\<close>

definition demo_named :: kstate where
  "demo_named = kstate0\<lparr>obj_lists := (\<lambda>_. [])(RT_Object_Class_Semaphore := [SemObj 0]),
     objs := (\<lambda>_. \<lparr>obj_name = [115, 0, 0, 0, 0, 0, 0, 0], obj_type = 0x82, obj_flag = 0\<rparr>)\<rparr>"

lemma demo_named_sel [simp]:
  "obj_lists demo_named = (\<lambda>_. [])(RT_Object_Class_Semaphore := [SemObj 0])" "interrupt_nest demo_named = 0"
  "lock_nest demo_named = 0" "cur_thread demo_named = None"
  "objs demo_named = (\<lambda>_. \<lparr>obj_name = [115, 0, 0, 0, 0, 0, 0, 0], obj_type = 0x82, obj_flag = 0\<rparr>)"
  by (simp_all add: demo_named_def kstate0_def)

lemma find_after_init_witness:
  "\<exists>s' s''. rt_object_init (SemObj 1) RT_Object_Class_Semaphore [115, 0] demo_named = Some s' \<and>
     rt_object_find [115, 0] RT_Object_Class_Semaphore s' = Some (Some (SemObj 1), s'') \<and> objs s'' = objs s'"
proof -
  have "names_ok demo_named"
    unfolding names_ok_def by (auto intro!: exI [of _ "[115, 0]"] simp: eval_nat_numeral)
  moreover have "\<exists>s'. rt_object_init (SemObj 1) RT_Object_Class_Semaphore [115, 0] demo_named = Some s' \<and>
      rt_object_find [115, 0] RT_Object_Class_Semaphore s' \<noteq> None"
    by (simp add: rt_object_init_def rt_object_find_def rt_enter_critical_def rt_exit_critical_def Let_def
        obj_link_front_def rt_object_container_def eval_nat_numeral)
  then obtain s' where s': "rt_object_init (SemObj 1) RT_Object_Class_Semaphore [115, 0] demo_named = Some s'"
    "rt_object_find [115, 0] RT_Object_Class_Semaphore s' \<noteq> None" by blast
  ultimately have "\<exists>s''. rt_object_find [115, 0] RT_Object_Class_Semaphore s' = Some (Some (SemObj 1), s'') \<and> objs s'' = objs s'"
    using find_after_init [OF _ s'(1) _ s'(2)] by simp
  then show ?thesis using s'(1) by blast
qed

section \<open>Memory and strings\<close>

lemma memset_fills_witness:
  "rt_memset 4 7 9 (\<lambda>_. Some 0) = Some (fill 4 (ucast (7 :: u32)) 9 (\<lambda>_. Some 0))"
  by (rule memset_fills) (simp add: alloc_def)

lemma memmove_moves_witness:
  "rt_memmove 4 2 9 (\<lambda>a. Some (of_nat a)) = Some (blit 4 2 9 (\<lambda>a. Some (of_nat a)))"
  by (rule memmove_moves) (simp_all add: alloc_def)

lemma memcpy_copies_witness:
  "rt_memcpy 40 2 19 (\<lambda>a. Some (of_nat a)) = Some (blit 40 2 19 (\<lambda>a. Some (of_nat a)))"
  by (rule memcpy_copies) (simp_all add: alloc_def)

lemma strnlen_overreads_witness: "rt_strnlen [97, 98] (length [97, 98 :: u8]) = None"
  by (rule strnlen_overreads) simp

lemma strstr_finds_first_witness:
  "rt_strstr ([97, 98, 97, 98] @ 0 # []) ([98] @ 0 # []) =
     Some (if \<exists>k. k + length [98 :: u8] \<le> length [97, 98, 97, 98 :: u8] \<and>
                 take (length [98 :: u8]) (drop k [97, 98, 97, 98]) = [98 :: u8]
           then Some (LEAST k. k + length [98 :: u8] \<le> length [97, 98, 97, 98 :: u8] \<and>
                 take (length [98 :: u8]) (drop k [97, 98, 97, 98]) = [98 :: u8]) else None)"
  by (rule strstr_finds_first) simp_all

section \<open>The filter\<close>

lemma filter_near_mean_witness: "adc_filter 300 200 \<in> {(300 + 9 * 200) div 10 - 1, (300 + 9 * 200) div 10}"
  by (rule filter_near_mean) simp_all


lemma reading_bounds_witness: "set (fold read_knob_vol [[4095, 12], [7, 4095]] [329, 0]) \<subseteq> {..329}"
  using reading_bounds [of "[[4095, 12], [7, 4095]]" "[329, 0]"] by auto

end
