(* ===== verification/RtList.thy ===== *)
theory RtList
  imports Prelude
begin

text \<open>
  The intrusive doubly linked lists of \<open>src/include/rtservice.h\<close>, on which every queue of the
  kernel rests, at the level of the pointers: the memory maps a node to its \<open>next\<close> and its
  \<open>prev\<close> field and each operation is the code's sequence of four stores.  The rest of the
  development writes a kernel queue as a HOL list; the theorems here are the licence for it:
  when the memory represents a family of disjoint rings, inserting before or after a head
  appends or prepends one element, and removing a node deletes it from whatever ring it is on
  and leaves it a ring of its own.
\<close>

section \<open>The list memory and the operations\<close>

record 'a list_mem =
  l_next :: "'a \<Rightarrow> 'a"
  l_prev :: "'a \<Rightarrow> 'a"

definition set_next :: "'a \<Rightarrow> 'a \<Rightarrow> 'a list_mem \<Rightarrow> 'a list_mem" where
  "set_next p v m = m\<lparr>l_next := (l_next m)(p := v)\<rparr>"

definition set_prev :: "'a \<Rightarrow> 'a \<Rightarrow> 'a list_mem \<Rightarrow> 'a list_mem" where
  "set_prev p v m = m\<lparr>l_prev := (l_prev m)(p := v)\<rparr>"

lemma set_next_sel [simp]:
  "l_next (set_next p v m) = (l_next m)(p := v)" "l_prev (set_next p v m) = l_prev m"
  by (simp_all add: set_next_def)

lemma set_prev_sel [simp]:
  "l_prev (set_prev p v m) = (l_prev m)(p := v)" "l_next (set_prev p v m) = l_next m"
  by (simp_all add: set_prev_def)

definition rt_list_init :: "'a \<Rightarrow> 'a list_mem \<Rightarrow> 'a list_mem" where
  "rt_list_init l m = set_next l l (set_prev l l m)"

definition rt_list_insert_after :: "'a \<Rightarrow> 'a \<Rightarrow> 'a list_mem \<Rightarrow> 'a list_mem" where
  "rt_list_insert_after l n m =
     (let m = set_prev (l_next m l) n m;
          m = set_next n (l_next m l) m;
          m = set_next l n m;
          m = set_prev n l m
      in m)"

definition rt_list_insert_before :: "'a \<Rightarrow> 'a \<Rightarrow> 'a list_mem \<Rightarrow> 'a list_mem" where
  "rt_list_insert_before l n m =
     (let m = set_next (l_prev m l) n m;
          m = set_prev n (l_prev m l) m;
          m = set_prev l n m;
          m = set_next n l m
      in m)"

definition rt_list_remove :: "'a \<Rightarrow> 'a list_mem \<Rightarrow> 'a list_mem" where
  "rt_list_remove n m =
     (let m = set_prev (l_next m n) (l_prev m n) m;
          m = set_next (l_prev m n) (l_next m n) m;
          m = set_prev n n m;
          m = set_next n n m
      in m)"

definition rt_list_isempty :: "'a \<Rightarrow> 'a list_mem \<Rightarrow> bool" where
  "rt_list_isempty l m = (l_next m l = l)"

text \<open>The counting loop of \<open>rt_list_len\<close> runs for ever on a list that is not a ring
  through its head, so it is a partial function; the counter is an \<open>unsigned int\<close>.\<close>

partial_function (option) rt_list_len_loop ::
  "'a list_mem \<Rightarrow> 'a \<Rightarrow> 'a \<Rightarrow> u32 \<Rightarrow> u32 option" where
  "rt_list_len_loop m l p len =
     (if l_next m p \<noteq> l then rt_list_len_loop m l (l_next m p) (len + 1) else Some len)"

definition rt_list_len :: "'a \<Rightarrow> 'a list_mem \<Rightarrow> u32 option" where
  "rt_list_len l m = rt_list_len_loop m l l 0"

section \<open>Rings\<close>

text \<open>\<open>linked m a xs b\<close>: following \<open>next\<close> from \<open>a\<close> visits \<open>xs\<close> and then \<open>b\<close>, and the
  \<open>prev\<close> fields lead back.  A ring starts and ends at its head.\<close>

fun linked :: "'a list_mem \<Rightarrow> 'a \<Rightarrow> 'a list \<Rightarrow> 'a \<Rightarrow> bool" where
  "linked m a [] b \<longleftrightarrow> l_next m a = b \<and> l_prev m b = a"
| "linked m a (x # xs) b \<longleftrightarrow> l_next m a = x \<and> l_prev m x = a \<and> linked m x xs b"

definition ring :: "'a list_mem \<Rightarrow> 'a \<Rightarrow> 'a list \<Rightarrow> bool" where
  "ring m h xs \<longleftrightarrow> distinct (h # xs) \<and> linked m h xs h"

lemma linked_append [simp]:
  "linked m a (xs @ y # ys) b \<longleftrightarrow> linked m a xs y \<and> linked m y ys b"
  by (induction xs arbitrary: a) auto

lemma linked_frame:
  assumes "\<And>x. x \<in> insert a (set xs) \<Longrightarrow> l_next m' x = l_next m x"
    and "\<And>x. x \<in> insert b (set xs) \<Longrightarrow> l_prev m' x = l_prev m x"
  shows "linked m' a xs b = linked m a xs b"
  using assms by (induction xs arbitrary: a) auto

lemma linked_next_last: "linked m a xs b \<Longrightarrow> l_next m (last (a # xs)) = b"
  by (induction xs arbitrary: a) auto

lemma linked_prev_last: "linked m a xs b \<Longrightarrow> l_prev m b = last (a # xs)"
  by (induction xs arbitrary: a) auto

lemma linked_next_hd: "linked m a xs b \<Longrightarrow> l_next m a = hd (xs @ [b])"
  by (cases xs) auto

lemma ring_isempty: "ring m h xs \<Longrightarrow> rt_list_isempty h m \<longleftrightarrow> xs = []"
  by (cases xs) (auto simp: ring_def rt_list_isempty_def)

lemma ring_init: "ring (rt_list_init h m) h []"
  by (simp add: ring_def rt_list_init_def)

section \<open>One ring\<close>

lemma linked_relink:
  assumes "linked m a xs y" "distinct (a # xs)"
    and "l_next m' (last (a # xs)) = q" "l_prev m' q = last (a # xs)"
    and "\<And>x. x \<in> insert a (set xs) \<Longrightarrow> x \<noteq> last (a # xs) \<Longrightarrow> l_next m' x = l_next m x"
    and "\<And>x. x \<in> set xs \<Longrightarrow> l_prev m' x = l_prev m x"
  shows "linked m' a xs q"
  using assms
proof (induction xs arbitrary: a)
  case Nil
  then show ?case by simp
next
  case (Cons x xs)
  have "a \<noteq> last (x # xs)"
    using Cons.prems(2) by (metis distinct.simps(2) last_in_set list.distinct(1))
  then have "l_next m' a = l_next m a"
    using Cons.prems(5) [of a] by simp
  moreover have "linked m' x xs q"
  proof (rule Cons.IH)
    show "linked m x xs y" "distinct (x # xs)" using Cons.prems(1,2) by simp_all
    show "l_next m' (last (x # xs)) = q" "l_prev m' q = last (x # xs)"
      using Cons.prems(3,4) by simp_all
    show "l_next m' z = l_next m z" if "z \<in> insert x (set xs)" "z \<noteq> last (x # xs)" for z
      using Cons.prems(5) [of z] that by auto
    show "l_prev m' z = l_prev m z" if "z \<in> set xs" for z
      using Cons.prems(6) [of z] that by simp
  qed
  ultimately show ?case using Cons.prems(1,6) by simp
qed

lemma linked_insert_before:
  assumes "linked m a xs y" "distinct (a # xs)" "y \<notin> set xs" "n \<notin> insert a (insert y (set xs))"
  shows "linked (rt_list_insert_before y n m) a (xs @ [n]) y"
proof -
  have p: "l_prev m y = last (a # xs)" using assms(1) by (rule linked_prev_last)
  have q: "last (a # xs) \<in> insert a (set xs)" using last_in_set [of "a # xs"] by simp
  have "linked (rt_list_insert_before y n m) a xs n"
  proof (rule linked_relink [OF assms(1,2)])
    show "l_next (rt_list_insert_before y n m) (last (a # xs)) = n"
      using q p assms(4) by (auto simp: rt_list_insert_before_def Let_def split: if_splits)
    show "l_prev (rt_list_insert_before y n m) n = last (a # xs)"
      using p assms(4) by (simp add: rt_list_insert_before_def Let_def)
    show "l_next (rt_list_insert_before y n m) x = l_next m x"
      if "x \<in> insert a (set xs)" "x \<noteq> last (a # xs)" for x
      using that p assms(4) by (auto simp: rt_list_insert_before_def Let_def)
    show "l_prev (rt_list_insert_before y n m) x = l_prev m x" if "x \<in> set xs" for x
      using that assms(3,4) by (auto simp: rt_list_insert_before_def Let_def)
  qed
  then show ?thesis using assms(4) by (simp add: rt_list_insert_before_def Let_def)
qed

lemma insert_before_frame:
  assumes "linked m b ys c" "y \<notin> set ys" "y \<noteq> c" "l_prev m y \<notin> insert b (set ys)"
    "n \<notin> insert b (insert c (set ys))"
  shows "linked (rt_list_insert_before y n m) b ys c"
  using assms(1)
  by (subst linked_frame [where m = m]) (use assms in \<open>auto simp: rt_list_insert_before_def Let_def\<close>)

lemma ring_insert_before_head:
  assumes "ring m h xs" "n \<notin> set (h # xs)"
  shows "ring (rt_list_insert_before h n m) h (xs @ [n])"
  using assms linked_insert_before [of m h xs h n] by (auto simp: ring_def)

lemma ring_insert_before_node:
  assumes "ring m h (as @ y # bs)" "n \<notin> set (h # as @ y # bs)"
  shows "ring (rt_list_insert_before y n m) h (as @ n # y # bs)"
proof -
  from assms(1) have l: "linked m h as y" "linked m y bs h" and d: "distinct (h # as @ y # bs)"
    by (auto simp: ring_def)
  have "linked (rt_list_insert_before y n m) h (as @ [n]) y"
    using l(1) d assms(2) by (intro linked_insert_before) auto
  moreover have "linked (rt_list_insert_before y n m) y bs h"
  proof (subst linked_frame [where m = m])
    have p: "l_prev m y = last (h # as)" using l(1) by (rule linked_prev_last)
    have "last (h # as) \<in> set (h # as)" by (rule last_in_set) simp
    then have np: "l_prev m y \<notin> insert y (set bs)" using p d by auto
    show "l_next (rt_list_insert_before y n m) x = l_next m x" if "x \<in> insert y (set bs)" for x
      using that np assms(2) by (auto simp: rt_list_insert_before_def Let_def)
    show "l_prev (rt_list_insert_before y n m) x = l_prev m x" if "x \<in> insert h (set bs)" for x
      using that d assms(2) by (auto simp: rt_list_insert_before_def Let_def)
  qed (rule l(2))
  ultimately show ?thesis using d assms(2) by (auto simp: ring_def)
qed

lemma ring_insert_after_head:
  assumes "ring m h xs" "n \<notin> set (h # xs)"
  shows "ring (rt_list_insert_after h n m) h (n # xs)"
proof (cases xs)
  case Nil
  with assms show ?thesis by (auto simp: ring_def rt_list_insert_after_def Let_def)
next
  case (Cons x ys)
  have "linked (rt_list_insert_after h n m) x ys h"
    by (subst linked_frame [where m = m])
      (use assms Cons in \<open>auto simp: ring_def rt_list_insert_after_def Let_def\<close>)
  with assms Cons show ?thesis by (auto simp: ring_def rt_list_insert_after_def Let_def)
qed

lemma linked_remove:
  assumes "linked m a (xs @ n # ys) b" "distinct (a # xs @ n # ys)" "b \<notin> set (xs @ n # ys)"
  shows "linked (rt_list_remove n m) a (xs @ ys) b"
proof -
  let ?p = "last (a # xs)" and ?q = "hd (ys @ [b])"
  from assms(1) have l: "linked m a xs n" "linked m n ys b" by auto
  have p: "l_prev m n = ?p" using l(1) by (rule linked_prev_last)
  have q: "l_next m n = ?q" using l(2) by (rule linked_next_hd)
  have pin: "?p \<in> set (a # xs)" by (rule last_in_set) simp
  have qin: "?q \<in> set (ys @ [b])" by (rule hd_in_set) simp
  have pn: "?p \<noteq> n" using pin assms(2) by auto
  have qn: "?q \<noteq> n" using qin assms(2,3) by auto
  have nx: "l_next (rt_list_remove n m) = (l_next m)(?p := ?q, n := n)"
    using p q pn qn by (auto simp: rt_list_remove_def Let_def fun_eq_iff)
  have pv: "l_prev (rt_list_remove n m) = (l_prev m)(?q := ?p, n := n)"
    using p q pn qn by (auto simp: rt_list_remove_def Let_def fun_eq_iff)
  have left: "linked (rt_list_remove n m) a xs ?q"
  proof (rule linked_relink [OF l(1)])
    show "distinct (a # xs)" using assms(2) by auto
    show "l_next (rt_list_remove n m) ?p = ?q" using pn by (simp only: nx) simp
    show "l_prev (rt_list_remove n m) ?q = ?p" using qn by (simp only: pv) simp
    show "l_next (rt_list_remove n m) x = l_next m x" if "x \<in> insert a (set xs)" "x \<noteq> ?p" for x
      using that assms(2) by (simp only: nx) auto
    show "l_prev (rt_list_remove n m) x = l_prev m x" if "x \<in> set xs" for x
      using that assms(2,3) qin by (simp only: pv) auto
  qed
  show ?thesis
  proof (cases ys)
    case Nil
    then show ?thesis using left by simp
  next
    case (Cons z zs)
    have "linked (rt_list_remove n m) z zs b"
    proof (subst linked_frame [where m = m])
      show "l_next (rt_list_remove n m) x = l_next m x" if "x \<in> insert z (set zs)" for x
        using that assms(2) pin Cons by (simp only: nx) auto
      show "l_prev (rt_list_remove n m) x = l_prev m x" if "x \<in> insert b (set zs)" for x
        using that assms(2,3) Cons by (simp only: pv) auto
      show "linked m z zs b" using l(2) Cons by simp
    qed
    then show ?thesis using left Cons by simp
  qed
qed

lemma ring_remove:
  assumes "ring m h (xs @ n # ys)"
  shows "ring (rt_list_remove n m) h (xs @ ys)"
  using assms linked_remove [of m h xs n ys h] by (auto simp: ring_def)

lemma remove_unlinks: "ring (rt_list_remove n m) n []"
  by (simp add: ring_def rt_list_remove_def Let_def)

section \<open>A memory of disjoint rings\<close>

text \<open>\<open>rings m H L\<close>: every head of \<open>H\<close> has the ring \<open>L h\<close>, and no node is on two rings or is
  both a head and a member.  This is the shape of the kernel's memory: the heads are the ready
  queues, the wait queues and the timer lists, the members the \<open>tlist\<close> and \<open>row\<close> fields.\<close>

definition rings :: "'a list_mem \<Rightarrow> 'a set \<Rightarrow> ('a \<Rightarrow> 'a list) \<Rightarrow> bool" where
  "rings m H L \<longleftrightarrow>
     (\<forall>h \<in> H. ring m h (L h)) \<and>
     (\<forall>h \<in> H. \<forall>k \<in> H. h \<noteq> k \<longrightarrow> set (h # L h) \<inter> set (k # L k) = {})"

definition members :: "'a set \<Rightarrow> ('a \<Rightarrow> 'a list) \<Rightarrow> 'a set" where
  "members H L = H \<union> (\<Union>h \<in> H. set (L h))"

lemma linked_next_in: "linked m a xs b \<Longrightarrow> x \<in> insert a (set xs) \<Longrightarrow> l_next m x \<in> insert b (set xs)"
  by (induction xs arbitrary: a) auto

lemma linked_prev_in: "linked m a xs b \<Longrightarrow> x \<in> insert b (set xs) \<Longrightarrow> l_prev m x \<in> insert a (set xs)"
  by (induction xs arbitrary: a) auto

lemma ring_neighbours:
  assumes "ring m h xs" "x \<in> set (h # xs)"
  shows "l_next m x \<in> set (h # xs)" "l_prev m x \<in> set (h # xs)"
  using assms linked_next_in [of m h xs h x] linked_prev_in [of m h xs h x]
  by (auto simp: ring_def)

lemma ring_frame:
  assumes "ring m k ys" "\<And>x. x \<in> set (k # ys) \<Longrightarrow> l_next m' x = l_next m x \<and> l_prev m' x = l_prev m x"
  shows "ring m' k ys"
  using assms linked_frame [of k ys m' m k] by (auto simp: ring_def)

lemma rings_other:
  assumes "rings m H L" "h \<in> H" "k \<in> H" "k \<noteq> h" "x \<in> set (h # L h)" "z \<in> set (k # L k)"
  shows "z \<noteq> x"
  using assms by (auto simp: rings_def)

text \<open>The three refinements share one shape: the operation only writes fields of the ring it
  works on and of the node \<open>n\<close>, so the other rings stand.\<close>

lemma rings_update:
  assumes R: "rings m H L" and h: "h \<in> H" and n: "n \<notin> members H L \<or> n \<in> set (h # L h)"
    and new: "ring m' h xs" and sub: "set (h # xs) \<subseteq> insert n (set (h # L h))"
    and same: "\<And>x. x \<notin> insert n (set (h # L h)) \<Longrightarrow> l_next m' x = l_next m x \<and> l_prev m' x = l_prev m x"
  shows "rings m' H (L(h := xs))"
proof -
  have fresh: "z \<notin> insert n (set (h # L h))" if "k \<in> H" "k \<noteq> h" "z \<in> set (k # L k)" for k z
  proof -
    have "z \<noteq> n" using n that rings_other [OF R h that(1,2)] by (auto simp: members_def)
    moreover have "z \<notin> set (h # L h)" using rings_other [OF R h that(1,2) _ that(3)] by blast
    ultimately show ?thesis by blast
  qed
  have "ring m' k (L k)" if "k \<in> H" "k \<noteq> h" for k
  proof (rule ring_frame [of m])
    show "ring m k (L k)" using R that by (simp add: rings_def)
    show "l_next m' x = l_next m x \<and> l_prev m' x = l_prev m x" if "x \<in> set (k # L k)" for x
      by (rule same [OF fresh [OF \<open>k \<in> H\<close> \<open>k \<noteq> h\<close> that]])
  qed
  moreover have "set (h # xs) \<inter> set (k # L k) = {}" if "k \<in> H" "k \<noteq> h" for k
  proof -
    have "x \<notin> set (h # xs)" if "x \<in> set (k # L k)" for x
      using fresh [OF \<open>k \<in> H\<close> \<open>k \<noteq> h\<close> that] sub by (rule contra_subsetD [rotated])
    then show ?thesis by blast
  qed
  ultimately show ?thesis
    unfolding rings_def
  proof (intro conjI ballI impI)
    fix k assume "k \<in> H"
    then show "ring m' k ((L(h := xs)) k)"
      using \<open>\<And>k. k \<in> H \<Longrightarrow> k \<noteq> h \<Longrightarrow> ring m' k (L k)\<close> new by (cases "k = h") simp_all
  next
    fix j k assume jk: "j \<in> H" "k \<in> H" "j \<noteq> k"
    have d: "set (j # L j) \<inter> set (k # L k) = {}" using R jk by (simp add: rings_def)
    show "set (j # (L(h := xs)) j) \<inter> set (k # (L(h := xs)) k) = {}"
      using jk d \<open>\<And>k. k \<in> H \<Longrightarrow> k \<noteq> h \<Longrightarrow> set (h # xs) \<inter> set (k # L k) = {}\<close> [of k]
        \<open>\<And>k. k \<in> H \<Longrightarrow> k \<noteq> h \<Longrightarrow> set (h # xs) \<inter> set (k # L k) = {}\<close> [of j]
      by (cases "j = h"; cases "k = h") (simp_all add: Int_commute)
  qed
qed

text \<open>\<open>rt_list_insert_before\<close> at a list head appends: on a memory of disjoint rings,
  inserting a node that is on no ring before the head \<open>h\<close> makes the ring of \<open>h\<close> longer by that
  node at its end and leaves every other ring as it was.\<close>

theorem insert_before_appends:
  assumes "rings m H L" "h \<in> H" "n \<notin> members H L"
  shows "rings (rt_list_insert_before h n m) H (L(h := L h @ [n]))"
proof -
  have r: "ring m h (L h)" using assms(1,2) by (simp add: rings_def)
  have f: "n \<notin> set (h # L h)" using assms(2,3) by (auto simp: members_def)
  show ?thesis
  proof (rule rings_update [OF assms(1,2) disjI1 [OF assms(3)]])
    show "ring (rt_list_insert_before h n m) h (L h @ [n])" using r f by (rule ring_insert_before_head)
    show "l_next (rt_list_insert_before h n m) x = l_next m x
          \<and> l_prev (rt_list_insert_before h n m) x = l_prev m x"
      if "x \<notin> insert n (set (h # L h))" for x
      using that ring_neighbours [OF r, of h] by (auto simp: rt_list_insert_before_def Let_def)
  qed auto
qed

text \<open>\<open>rt_list_insert_after\<close> at a list head prepends, and leaves every other ring as it was.\<close>

theorem insert_after_prepends:
  assumes "rings m H L" "h \<in> H" "n \<notin> members H L"
  shows "rings (rt_list_insert_after h n m) H (L(h := n # L h))"
proof -
  have r: "ring m h (L h)" using assms(1,2) by (simp add: rings_def)
  have f: "n \<notin> set (h # L h)" using assms(2,3) by (auto simp: members_def)
  show ?thesis
  proof (rule rings_update [OF assms(1,2) disjI1 [OF assms(3)]])
    show "ring (rt_list_insert_after h n m) h (n # L h)" using r f by (rule ring_insert_after_head)
    show "l_next (rt_list_insert_after h n m) x = l_next m x
          \<and> l_prev (rt_list_insert_after h n m) x = l_prev m x"
      if "x \<notin> insert n (set (h # L h))" for x
      using that ring_neighbours [OF r, of h] by (auto simp: rt_list_insert_after_def Let_def)
  qed auto
qed

text \<open>C21. \<open>rt_list_remove\<close> deletes: removing a node that is not a head takes it out of whatever
  ring it is on (or changes nothing, when it is unlinked), leaves all other rings as they were,
  and leaves the node a ring of its own, so that removing it again is harmless.\<close>

theorem remove_deletes:
  assumes "rings m H L" "n \<notin> H" "n \<in> members H L \<or> ring m n []"
  shows "rings (rt_list_remove n m) H (\<lambda>k. removeAll n (L k)) \<and> ring (rt_list_remove n m) n []"
proof (rule conjI [OF _ remove_unlinks])
  show "rings (rt_list_remove n m) H (\<lambda>k. removeAll n (L k))"
  proof (cases "n \<in> members H L")
    case True
    then obtain h where h: "h \<in> H" "n \<in> set (L h)" using assms(2) by (auto simp: members_def)
    then obtain xs ys where L: "L h = xs @ n # ys" by (meson split_list)
    have r: "ring m h (L h)" using assms(1) h(1) by (simp add: rings_def)
    then have d: "n \<notin> set xs" "n \<notin> set ys" using L by (auto simp: ring_def)
    have eq: "removeAll n (L k) = (L(h := xs @ ys)) k" if "k \<in> H" for k
    proof (cases "k = h")
      case True
      then show ?thesis using d by (simp add: L)
    next
      case False
      then have "n \<notin> set (L k)"
        using rings_other [OF assms(1) h(1) that False, of n n] h(2) by auto
      then show ?thesis using False by simp
    qed
    have "rings (rt_list_remove n m) H (L(h := xs @ ys))"
    proof (rule rings_update [OF assms(1) h(1)])
      show "n \<notin> members H L \<or> n \<in> set (h # L h)" using h(2) by simp
      show "ring (rt_list_remove n m) h (xs @ ys)" using r by (simp add: L ring_remove)
      show "set (h # xs @ ys) \<subseteq> insert n (set (h # L h))" by (auto simp: L)
      show "l_next (rt_list_remove n m) x = l_next m x \<and> l_prev (rt_list_remove n m) x = l_prev m x"
        if "x \<notin> insert n (set (h # L h))" for x
        using that ring_neighbours [OF r, of n] h(2) by (auto simp: rt_list_remove_def Let_def)
    qed
    then show ?thesis using eq by (simp add: rings_def)
  next
    case False
    then have self: "l_next m n = n" "l_prev m n = n" using assms(3) by (auto simp: ring_def)
    have "rt_list_remove n m = m"
      by (simp add: rt_list_remove_def set_next_def set_prev_def self fun_upd_idem Let_def)
    moreover have "removeAll n (L k) = L k" if "k \<in> H" for k
      using False that by (auto simp: members_def)
    ultimately show ?thesis using assms(1) by (simp add: rings_def)
  qed
qed

lemma len_loop_linked:
  "linked m p xs l \<Longrightarrow> l \<notin> set xs \<Longrightarrow>
   rt_list_len_loop m l p len = Some (len + of_nat (length xs))"
proof (induction xs arbitrary: p len)
  case Nil
  then show ?case by (simp add: rt_list_len_loop.simps)
next
  case (Cons x xs)
  then show ?case by (subst rt_list_len_loop.simps) (auto simp: algebra_simps)
qed

text \<open>\<open>rt_list_len\<close> terminates on a ring and returns its number of elements, modulo the
  width of its counter.\<close>

theorem list_len_ring: "ring m h xs \<Longrightarrow> rt_list_len h m = Some (word_of_nat (length xs))"
  using len_loop_linked [of m h xs h 0] by (simp add: rt_list_len_def ring_def)

subsection \<open>The theorems at a concrete memory\<close>

definition two_rings :: "nat list_mem" where
  "two_rings = \<lparr>l_next = id(0 := 2, 2 := 3, 3 := 0), l_prev = id(0 := 3, 2 := 0, 3 := 2)\<rparr>"

lemma two_rings: "rings two_rings {0, 1} ((\<lambda>_. [])(0 := [2, 3]))"
  by (simp add: rings_def ring_def two_rings_def)

lemma insert_before_appends_witness:
  "rings (rt_list_insert_before 0 4 two_rings) {0, 1} ((\<lambda>_. [])(0 := [2, 3, 4 :: nat]))"
  using insert_before_appends [OF two_rings, of 0 4] by (simp add: members_def)

lemma insert_after_prepends_witness:
  "rings (rt_list_insert_after 1 4 two_rings) {0, 1} ((\<lambda>_. [])(0 := [2, 3], 1 := [4 :: nat]))"
  using insert_after_prepends [OF two_rings, of 1 4] by (simp add: members_def)

lemma remove_deletes_witness: "ring (rt_list_remove 2 two_rings) 0 [3 :: nat]"
  using remove_deletes [OF two_rings, of 2] by (simp add: members_def rings_def)

lemma list_len_ring_witness: "rt_list_len 0 two_rings = Some 2"
  using list_len_ring [of two_rings 0 "[2, 3]"] two_rings by (simp add: rings_def)

end
