(* ===== verification/RingBuffer.thy ===== *)
theory RingBuffer
  imports Fifo
begin

text \<open>
  The byte ring buffer of \<open>src/components/drivers/src/ringbuffer.c\<close> (with its header
  \<open>include/ipc/ringbuffer.h\<close>).  The mirror bits are booleans, the 15-bit index fields are
  natural numbers truncated to 15 bits when they are stored, and the pool is a byte list: a copy
  outside it, or out of a source shorter than the requested length, is \<open>None\<close>.
\<close>

section \<open>State and operations\<close>

datatype rt_ringbuffer_state = RT_RINGBUFFER_EMPTY | RT_RINGBUFFER_FULL | RT_RINGBUFFER_HALFFULL

record rt_ringbuffer =
  buffer_ptr :: "u8 list"
  read_mirror :: bool
  read_index :: nat
  write_mirror :: bool
  write_index :: nat
  buffer_size :: nat

definition idx15 :: "nat \<Rightarrow> nat" where
  "idx15 n = n mod 2 ^ 15"

text \<open>\<open>memcpy\<close> into the pool at offset \<open>i\<close>, and out of it.\<close>

definition pool_write :: "u8 list \<Rightarrow> nat \<Rightarrow> u8 list \<Rightarrow> u8 list option" where
  "pool_write buf i bytes =
     (if i + length bytes \<le> length buf
      then Some (take i buf @ bytes @ drop (i + length bytes) buf) else None)"

definition pool_read :: "u8 list \<Rightarrow> nat \<Rightarrow> nat \<Rightarrow> u8 list option" where
  "pool_read buf i n = (if i + n \<le> length buf then Some (take n (drop i buf)) else None)"

definition rt_ringbuffer_status :: "rt_ringbuffer \<Rightarrow> rt_ringbuffer_state" where
  "rt_ringbuffer_status rb =
     (if read_index rb = write_index rb then
        (if read_mirror rb = write_mirror rb then RT_RINGBUFFER_EMPTY else RT_RINGBUFFER_FULL)
      else RT_RINGBUFFER_HALFFULL)"

definition rt_ringbuffer_init :: "u8 list \<Rightarrow> int \<Rightarrow> rt_ringbuffer option" where
  "rt_ringbuffer_init pool sz = do {
     rt_assert (sz > 0);
     Some \<lparr>buffer_ptr = pool, read_mirror = False, read_index = 0,
           write_mirror = False, write_index = 0, buffer_size = nat (sz AND NOT 3)\<rparr>
   }"

text \<open>The subtractions are C int arithmetic, converted to the unsigned \<open>rt_size_t\<close>.\<close>

definition rt_ringbuffer_data_len :: "rt_ringbuffer \<Rightarrow> nat" where
  "rt_ringbuffer_data_len rb =
     (case rt_ringbuffer_status rb of
        RT_RINGBUFFER_EMPTY \<Rightarrow> 0
      | RT_RINGBUFFER_FULL \<Rightarrow> buffer_size rb
      | RT_RINGBUFFER_HALFFULL \<Rightarrow>
          (if write_index rb > read_index rb
           then write_index rb - read_index rb
           else nat ((int (buffer_size rb) - (int (read_index rb) - int (write_index rb))) mod 2 ^ 32)))"

definition rt_ringbuffer_space_len :: "rt_ringbuffer \<Rightarrow> nat" where
  "rt_ringbuffer_space_len rb =
     nat ((int (buffer_size rb) - int (rt_ringbuffer_data_len rb)) mod 2 ^ 32)"

definition rt_ringbuffer_put :: "rt_ringbuffer \<Rightarrow> u8 list \<Rightarrow> u16 \<Rightarrow> (nat \<times> rt_ringbuffer) option" where
  "rt_ringbuffer_put rb ptr length_arg =
     (let size = rt_ringbuffer_space_len rb mod 2 ^ 16;
          len = unat length_arg
      in if size = 0 then Some (0, rb)
         else
           (let len = (if size < len then size else len);
                room = int (buffer_size rb) - int (write_index rb)
            in if room > int len then do {
                 src \<leftarrow> pool_read ptr 0 len;
                 buf \<leftarrow> pool_write (buffer_ptr rb) (write_index rb) src;
                 Some (len, rb\<lparr>buffer_ptr := buf, write_index := idx15 (write_index rb + len)\<rparr>)
               }
               else do {
                 c_defined (0 \<le> room);
                 src1 \<leftarrow> pool_read ptr 0 (nat room);
                 buf1 \<leftarrow> pool_write (buffer_ptr rb) (write_index rb) src1;
                 src2 \<leftarrow> pool_read ptr (nat room) (len - nat room);
                 buf2 \<leftarrow> pool_write buf1 0 src2;
                 Some (len, rb\<lparr>buffer_ptr := buf2, write_mirror := \<not> write_mirror rb,
                               write_index := idx15 (len - nat room)\<rparr>)
               }))"

text \<open>\<open>rt_ringbuffer_put_force\<close> keeps the newest bytes when the source does not fit.\<close>

definition rt_ringbuffer_put_force ::
  "rt_ringbuffer \<Rightarrow> u8 list \<Rightarrow> u16 \<Rightarrow> (nat \<times> rt_ringbuffer) option" where
  "rt_ringbuffer_put_force rb ptr length_arg =
     (let space_length = rt_ringbuffer_space_len rb mod 2 ^ 16;
          skip = (if unat length_arg > buffer_size rb then unat length_arg - buffer_size rb else 0);
          len = (if unat length_arg > buffer_size rb then buffer_size rb else unat length_arg);
          room = int (buffer_size rb) - int (write_index rb)
      in if room > int len then do {
           src \<leftarrow> pool_read ptr skip len;
           buf \<leftarrow> pool_write (buffer_ptr rb) (write_index rb) src;
           let rb = rb\<lparr>buffer_ptr := buf, write_index := idx15 (write_index rb + len)\<rparr>;
           Some (len, if len > space_length then rb\<lparr>read_index := write_index rb\<rparr> else rb)
         }
         else do {
           c_defined (0 \<le> room);
           src1 \<leftarrow> pool_read ptr skip (nat room);
           buf1 \<leftarrow> pool_write (buffer_ptr rb) (write_index rb) src1;
           src2 \<leftarrow> pool_read ptr (skip + nat room) (len - nat room);
           buf2 \<leftarrow> pool_write buf1 0 src2;
           let rb = rb\<lparr>buffer_ptr := buf2, write_mirror := \<not> write_mirror rb,
                       write_index := idx15 (len - nat room)\<rparr>;
           Some (len, if len > space_length
                      then rb\<lparr>read_mirror := \<not> read_mirror rb, read_index := write_index rb\<rparr>
                      else rb)
         })"

definition rt_ringbuffer_get :: "rt_ringbuffer \<Rightarrow> u16 \<Rightarrow> (nat \<times> u8 list \<times> rt_ringbuffer) option" where
  "rt_ringbuffer_get rb length_arg =
     (let size = rt_ringbuffer_data_len rb;
          len = unat length_arg
      in if size = 0 then Some (0, [], rb)
         else
           (let len = (if size < len then size else len);
                room = int (buffer_size rb) - int (read_index rb)
            in if room > int len then do {
                 out \<leftarrow> pool_read (buffer_ptr rb) (read_index rb) len;
                 Some (len, out, rb\<lparr>read_index := idx15 (read_index rb + len)\<rparr>)
               }
               else do {
                 c_defined (0 \<le> room);
                 out1 \<leftarrow> pool_read (buffer_ptr rb) (read_index rb) (nat room);
                 out2 \<leftarrow> pool_read (buffer_ptr rb) 0 (len - nat room);
                 Some (len, out1 @ out2, rb\<lparr>read_mirror := \<not> read_mirror rb,
                                            read_index := idx15 (len - nat room)\<rparr>)
               }))"

text \<open>\<open>rt_ringbuffer_peak\<close> returns the address of the first stored byte (an offset in the pool,
  or null) and consumes the contiguous run that starts there.\<close>

definition rt_ringbuffer_peak :: "rt_ringbuffer \<Rightarrow> nat \<times> nat option \<times> rt_ringbuffer" where
  "rt_ringbuffer_peak rb =
     (let size = rt_ringbuffer_data_len rb
      in if size = 0 then (0, None, rb)
         else if int (buffer_size rb) - int (read_index rb) > int size
         then (size, Some (read_index rb), rb\<lparr>read_index := idx15 (read_index rb + size)\<rparr>)
         else (buffer_size rb - read_index rb, Some (read_index rb),
               rb\<lparr>read_mirror := \<not> read_mirror rb, read_index := 0\<rparr>))"

definition rt_ringbuffer_putchar :: "rt_ringbuffer \<Rightarrow> u8 \<Rightarrow> (nat \<times> rt_ringbuffer) option" where
  "rt_ringbuffer_putchar rb ch =
     (if rt_ringbuffer_space_len rb = 0 then Some (0, rb)
      else do {
        buf \<leftarrow> pool_write (buffer_ptr rb) (write_index rb) [ch];
        let rb = rb\<lparr>buffer_ptr := buf\<rparr>;
        Some (1, if int (write_index rb) = int (buffer_size rb) - 1
                 then rb\<lparr>write_mirror := \<not> write_mirror rb, write_index := 0\<rparr>
                 else rb\<lparr>write_index := idx15 (write_index rb + 1)\<rparr>)
      })"

definition rt_ringbuffer_putchar_force :: "rt_ringbuffer \<Rightarrow> u8 \<Rightarrow> (nat \<times> rt_ringbuffer) option" where
  "rt_ringbuffer_putchar_force rb ch =
     (let old_state = rt_ringbuffer_status rb in
      do {
        buf \<leftarrow> pool_write (buffer_ptr rb) (write_index rb) [ch];
        let rb = rb\<lparr>buffer_ptr := buf\<rparr>;
        Some (1,
          if int (write_index rb) = int (buffer_size rb) - 1
          then (let rb = rb\<lparr>write_mirror := \<not> write_mirror rb, write_index := 0\<rparr>
                in if old_state = RT_RINGBUFFER_FULL
                   then rb\<lparr>read_mirror := \<not> read_mirror rb, read_index := write_index rb\<rparr> else rb)
          else (let rb = rb\<lparr>write_index := idx15 (write_index rb + 1)\<rparr>
                in if old_state = RT_RINGBUFFER_FULL
                   then rb\<lparr>read_index := write_index rb\<rparr> else rb))
      })"

definition rt_ringbuffer_getchar :: "rt_ringbuffer \<Rightarrow> (nat \<times> u8 list \<times> rt_ringbuffer) option" where
  "rt_ringbuffer_getchar rb =
     (if rt_ringbuffer_data_len rb = 0 then Some (0, [], rb)
      else do {
        ch \<leftarrow> pool_read (buffer_ptr rb) (read_index rb) 1;
        Some (1, ch,
          if int (read_index rb) = int (buffer_size rb) - 1
          then rb\<lparr>read_mirror := \<not> read_mirror rb, read_index := 0\<rparr>
          else rb\<lparr>read_index := idx15 (read_index rb + 1)\<rparr>)
      })"

definition rt_ringbuffer_reset :: "rt_ringbuffer \<Rightarrow> rt_ringbuffer" where
  "rt_ringbuffer_reset rb =
     rb\<lparr>read_mirror := False, read_index := 0, write_mirror := False, write_index := 0\<rparr>"

section \<open>Invariant and contents\<close>

definition rb_inv :: "rt_ringbuffer \<Rightarrow> bool" where
  "rb_inv rb \<longleftrightarrow>
     0 < buffer_size rb \<and> buffer_size rb < 2 ^ 15 \<and> buffer_size rb \<le> length (buffer_ptr rb) \<and>
     read_index rb < buffer_size rb \<and> write_index rb < buffer_size rb \<and>
     (if read_mirror rb = write_mirror rb then read_index rb \<le> write_index rb
      else write_index rb \<le> read_index rb)"

definition rb_len :: "rt_ringbuffer \<Rightarrow> nat" where
  "rb_len rb =
     (if read_mirror rb = write_mirror rb then write_index rb - read_index rb
      else buffer_size rb - read_index rb + write_index rb)"

definition rb_contents :: "rt_ringbuffer \<Rightarrow> u8 list" where
  "rb_contents rb =
     map (\<lambda>i. buffer_ptr rb ! ((read_index rb + i) mod buffer_size rb)) [0..<rb_len rb]"

lemma length_rb_contents [simp]: "length (rb_contents rb) = rb_len rb"
  by (simp add: rb_contents_def)

lemma rb_contents_nth:
  "i < rb_len rb \<Longrightarrow> rb_contents rb ! i = buffer_ptr rb ! ((read_index rb + i) mod buffer_size rb)"
  by (simp add: rb_contents_def)

lemma mod_wrap: "(i :: nat) < 2 * n \<Longrightarrow> i mod n = (if i < n then i else i - n)"
  by (simp add: le_mod_geq)

lemma data_len_eq: "rb_inv rb \<Longrightarrow> rt_ringbuffer_data_len rb = rb_len rb"
  by (auto simp: rb_inv_def rt_ringbuffer_data_len_def rt_ringbuffer_status_def rb_len_def
      mod_pos_pos_trivial split: if_splits)

lemma rb_len_le: "rb_inv rb \<Longrightarrow> rb_len rb \<le> buffer_size rb"
  by (auto simp: rb_inv_def rb_len_def split: if_splits)

lemma space_len_eq: "rb_inv rb \<Longrightarrow> rt_ringbuffer_space_len rb = buffer_size rb - rb_len rb"
  using rb_len_le [of rb]
  by (simp add: rt_ringbuffer_space_len_def data_len_eq rb_inv_def mod_pos_pos_trivial nat_diff_distrib)

lemma space_len_16: "rb_inv rb \<Longrightarrow> rt_ringbuffer_space_len rb mod 65536 = buffer_size rb - rb_len rb"
  by (simp add: space_len_eq) (auto simp: rb_inv_def intro!: mod_less)

lemma idx15_small [simp]: "n < 2 ^ 15 \<Longrightarrow> idx15 n = n"
  by (simp add: idx15_def)

lemma pool_write_Some:
  "i + length d \<le> length b \<Longrightarrow>
   \<exists>b'. pool_write b i d = Some b' \<and> length b' = length b \<and>
        (\<forall>k < length b. b' ! k = (if i \<le> k \<and> k < i + length d then d ! (k - i) else b ! k))"
  by (auto simp: pool_write_def nth_append min_def)

lemma pool_read_Some: "i + n \<le> length b \<Longrightarrow> pool_read b i n = Some (take n (drop i b))"
  by (simp add: pool_read_def)

lemma pool_write_fits:
  "i + length d \<le> length b \<Longrightarrow> \<exists>b'. pool_write b i d = Some b' \<and> length b' = length b"
  using pool_write_Some by blast

text \<open>The pool after \<open>L\<close> bytes have been written from the write index on, around the end of
  the buffer when they reach it: both branches of the code produce it.\<close>

definition written :: "rt_ringbuffer \<Rightarrow> u8 list \<Rightarrow> u8 list \<Rightarrow> bool" where
  "written rb xs b' \<longleftrightarrow>
     length b' = length (buffer_ptr rb) \<and>
     (\<forall>k < buffer_size rb. b' ! k =
        (if write_index rb \<le> k \<and> k < write_index rb + length xs then xs ! (k - write_index rb)
         else if k + buffer_size rb < write_index rb + length xs
         then xs ! (k + buffer_size rb - write_index rb)
         else buffer_ptr rb ! k))"

lemma written_one:
  assumes "rb_inv rb" "pool_write (buffer_ptr rb) (write_index rb) xs = Some b"
    "write_index rb + length xs \<le> buffer_size rb"
  shows "written rb xs b"
  using assms pool_write_Some [of "write_index rb" xs "buffer_ptr rb"]
  by (auto simp: written_def rb_inv_def)

lemma written_two:
  assumes inv: "rb_inv rb" and len: "length xs = len" "len \<le> buffer_size rb"
    and room: "buffer_size rb - write_index rb \<le> len"
    and b1: "pool_write (buffer_ptr rb) (write_index rb) (take (buffer_size rb - write_index rb) xs) = Some b1"
    and b2: "pool_write b1 0 (drop (buffer_size rb - write_index rb) xs) = Some b2"
  shows "written rb xs b2"
proof -
  let ?n = "buffer_size rb" and ?w = "write_index rb"
  have w: "?w < ?n" "?n \<le> length (buffer_ptr rb)" using inv by (auto simp: rb_inv_def)
  have l1: "length (take (?n - ?w) xs) = ?n - ?w" using len room by simp
  have B1: "length b1 = length (buffer_ptr rb)"
    "\<And>k. k < length (buffer_ptr rb) \<Longrightarrow>
       b1 ! k = (if ?w \<le> k \<and> k < ?n then xs ! (k - ?w) else buffer_ptr rb ! k)"
    using pool_write_Some [of ?w "take (?n - ?w) xs" "buffer_ptr rb"] b1 w l1 by auto
  have B2: "length b2 = length b1"
    "\<And>k. k < length b1 \<Longrightarrow>
       b2 ! k = (if k < len - (?n - ?w) then xs ! (?n - ?w + k) else b1 ! k)"
    using pool_write_Some [of 0 "drop (?n - ?w) xs" b1] b2 w len room B1(1) by auto
  show ?thesis unfolding written_def
  proof (intro conjI allI impI)
    show "length b2 = length (buffer_ptr rb)" using B1(1) B2(1) by simp
    fix k assume k: "k < ?n"
    have "k + ?n - ?w = ?n - ?w + k" using w by simp
    then show "b2 ! k = (if ?w \<le> k \<and> k < ?w + length xs then xs ! (k - ?w)
        else if k + ?n < ?w + length xs then xs ! (k + ?n - ?w) else buffer_ptr rb ! k)"
      using k w len room B1 B2(2) [of k] by auto
  qed
qed

lemma contents_appended:
  assumes inv: "rb_inv rb" and w: "written rb xs b'" and len: "rb_len rb + length xs \<le> buffer_size rb"
    and rb': "rb' = rb\<lparr>buffer_ptr := b', write_mirror := wm, write_index := wi\<rparr>"
    and nw: "if write_index rb + length xs < buffer_size rb
             then wi = write_index rb + length xs \<and> wm = write_mirror rb
             else wi = write_index rb + length xs - buffer_size rb \<and> wm = (\<not> write_mirror rb)"
  shows "rb_inv rb' \<and> rb_contents rb' = rb_contents rb @ xs \<and> buffer_size rb' = buffer_size rb"
proof -
  let ?n = "buffer_size rb" and ?w = "write_index rb" and ?r = "read_index rb"
  have I: "?r < ?n" "?w < ?n" "?n \<le> length (buffer_ptr rb)" "0 < ?n"
    and M: "if read_mirror rb = write_mirror rb then ?r \<le> ?w else ?w \<le> ?r"
    using inv by (auto simp: rb_inv_def)
  have inv': "rb_inv rb'"
    using inv w len nw by (auto simp: rb_inv_def rb' written_def rb_len_def split: if_splits)
  have len': "rb_len rb' = rb_len rb + length xs"
    using I M len nw by (auto simp: rb_len_def rb' split: if_splits)
  have at: "rb_contents rb' ! i = b' ! ((?r + i) mod ?n)" if "i < rb_len rb + length xs" for i
    using rb_contents_nth [of i rb'] that by (simp add: len') (simp add: rb')
  have "rb_contents rb' ! i = (rb_contents rb @ xs) ! i" if i: "i < rb_len rb + length xs" for i
  proof (cases "i < rb_len rb")
    case True
    let ?k = "(?r + i) mod ?n"
    have k: "?k = (if ?r + i < ?n then ?r + i else ?r + i - ?n)"
      using I True rb_len_le [OF inv] by (intro mod_wrap) linarith
    have "b' ! ?k = buffer_ptr rb ! ?k"
      using w True I M len by (auto simp: written_def k rb_len_def split: if_splits)
    then show ?thesis using True at [OF i] by (simp add: rb_contents_nth nth_append)
  next
    case False
    define j where "j = i - rb_len rb"
    let ?k = "(?r + i) mod ?n"
    have j: "j < length xs" "i = rb_len rb + j" using False i by (auto simp: j_def)
    have k: "?k = (if ?w + j < ?n then ?w + j else ?w + j - ?n)"
    proof -
      have "?r + i = ?w + j \<or> ?r + i = ?w + j + ?n"
        using j I M by (auto simp: rb_len_def split: if_splits)
      then have "?k = (?w + j) mod ?n" by (metis mod_add_self2)
      moreover have "?w + j < 2 * ?n" using j I len by linarith
      ultimately show ?thesis by (simp add: mod_wrap)
    qed
    have "?k < ?n" using I by simp
    then have B: "b' ! ?k = (if ?w \<le> ?k \<and> ?k < ?w + length xs then xs ! (?k - ?w)
        else if ?k + ?n < ?w + length xs then xs ! (?k + ?n - ?w) else buffer_ptr rb ! ?k)"
      using w by (simp add: written_def)
    have "b' ! ?k = xs ! j"
    proof (cases "?w + j < ?n")
      case True
      then have "?k = ?w + j" using k by simp
      then show ?thesis using B j by simp
    next
      case False
      then have e: "?k = ?w + j - ?n" using k by simp
      then have "\<not> ?w \<le> ?k" "?k + ?n < ?w + length xs" "?k + ?n - ?w = j"
        using False j I len by linarith+
      then show ?thesis using B by simp
    qed
    then show ?thesis using False at [OF i] by (simp add: nth_append j_def)
  qed
  then have "rb_contents rb' = rb_contents rb @ xs"
    by (intro nth_equalityI) (simp_all add: len')
  with inv' show ?thesis by (simp add: rb')
qed

section \<open>The operations refine list operations\<close>

lemma rb_inv_room: "rb_inv rb \<Longrightarrow> int (buffer_size rb) - int (write_index rb) = int (buffer_size rb - write_index rb)"
  by (simp add: rb_inv_def)

lemma rb_inv_room_read: "rb_inv rb \<Longrightarrow> int (buffer_size rb) - int (read_index rb) = int (buffer_size rb - read_index rb)"
  by (simp add: rb_inv_def)

lemma rb_inv_bounds:
  assumes "rb_inv rb"
  shows "write_index rb < buffer_size rb" "read_index rb < buffer_size rb"
    "buffer_size rb \<le> length (buffer_ptr rb)" "buffer_size rb < 32768" "0 < buffer_size rb"
  using assms by (auto simp: rb_inv_def)

text \<open>The two ways a write ends, before the end of the pool and around it: the bytes land behind the
  contents and nothing else changes.\<close>

definition appended :: "rt_ringbuffer \<Rightarrow> u8 list \<Rightarrow> rt_ringbuffer \<Rightarrow> bool" where
  "appended rb xs rb' \<longleftrightarrow>
     rb_inv rb' \<and> rb_contents rb' = rb_contents rb @ xs \<and> buffer_size rb' = buffer_size rb"

lemma append_fits:
  assumes inv: "rb_inv rb" and room: "rb_len rb + length xs \<le> buffer_size rb"
    and fit: "write_index rb + length xs < buffer_size rb"
  obtains b where "pool_write (buffer_ptr rb) (write_index rb) xs = Some b" "written rb xs b"
    "appended rb xs (rb\<lparr>buffer_ptr := b, write_mirror := write_mirror rb,
       write_index := write_index rb + length xs\<rparr>)"
proof -
  obtain b where b: "pool_write (buffer_ptr rb) (write_index rb) xs = Some b"
    using pool_write_fits [of "write_index rb" xs "buffer_ptr rb"] rb_inv_bounds [OF inv] fit by auto
  then have W: "written rb xs b" using written_one [OF inv] fit by simp
  with b show thesis
    using contents_appended [OF inv W room refl] fit by (auto simp: appended_def intro!: that)
qed

lemma append_wraps:
  assumes inv: "rb_inv rb" and room: "rb_len rb + length xs \<le> buffer_size rb"
    and wrap: "buffer_size rb - write_index rb \<le> length xs"
  obtains b1 b where
    "pool_write (buffer_ptr rb) (write_index rb) (take (buffer_size rb - write_index rb) xs) = Some b1"
    "pool_write b1 0 (drop (buffer_size rb - write_index rb) xs) = Some b" "written rb xs b"
    "appended rb xs (rb\<lparr>buffer_ptr := b, write_mirror := \<not> write_mirror rb,
       write_index := length xs - (buffer_size rb - write_index rb)\<rparr>)"
proof -
  let ?n = "buffer_size rb" and ?w = "write_index rb"
  note bnd = rb_inv_bounds [OF inv]
  have "?w + length (take (?n - ?w) xs) \<le> length (buffer_ptr rb)" using bnd by simp
  then obtain b1 where b1: "pool_write (buffer_ptr rb) ?w (take (?n - ?w) xs) = Some b1"
      "length b1 = length (buffer_ptr rb)"
    using pool_write_fits by blast
  have len: "length xs \<le> ?n" using room by simp
  have "0 + length (drop (?n - ?w) xs) \<le> length b1" using bnd b1(2) len by simp
  then obtain b where b: "pool_write b1 0 (drop (?n - ?w) xs) = Some b"
    using pool_write_fits by blast
  have W: "written rb xs b" by (rule written_two [OF inv refl len wrap b1(1) b])
  show thesis
    by (rule that [OF b1(1) b W])
      (unfold appended_def, rule contents_appended [OF inv W room refl], use wrap bnd in auto)
qed

text \<open>C20. \<open>rt_ringbuffer_put\<close> appends: it stores the longest prefix of the data that fits, in
  order, behind what the buffer holds, returns how much that was, keeps the invariant and writes
  nothing outside the pool.\<close>

theorem ringbuffer_put_appends:
  assumes inv: "rb_inv rb" and src: "unat len \<le> length ptr"
  shows "\<exists>k rb'. rt_ringbuffer_put rb ptr len = Some (k, rb') \<and>
           k = min (unat len) (buffer_size rb - rb_len rb) \<and>
           rb_inv rb' \<and> rb_contents rb' = rb_contents rb @ take k ptr \<and>
           buffer_size rb' = buffer_size rb"
proof (cases "rb_len rb = buffer_size rb")
  case True
  then show ?thesis using inv
    by (simp add: rt_ringbuffer_put_def Let_def space_len_16)
next
  case False
  define k where "k = min (unat len) (buffer_size rb - rb_len rb)"
  let ?n = "buffer_size rb" and ?w = "write_index rb"
  have le: "rb_len rb \<le> ?n" using inv by (rule rb_len_le)
  have k: "k \<le> length ptr" "k \<le> ?n" "rb_len rb + k \<le> ?n" using src le by (auto simp: k_def)
  have kk: "(if ?n - rb_len rb < unat len then ?n - rb_len rb else unat len) = k" by (simp add: k_def)
  note b = rb_inv_bounds [OF inv]
  have nz: "(?n - rb_len rb = 0) = False" using False le by simp
  have sp: "rt_ringbuffer_space_len rb mod 2 ^ 16 = ?n - rb_len rb"
    using space_len_16 [OF inv] by simp
  have room_nat: "nat (int ?n - int ?w) = ?n - ?w" "(0 \<le> int ?n - int ?w) = True" using b by simp_all
  note unfold = rt_ringbuffer_put_def Let_def sp kk nz if_False room_nat
  let ?xs = "take k ptr"
  have room: "rb_len rb + length ?xs \<le> ?n" and lx: "length ?xs = k" using k by simp_all
  show ?thesis
  proof (cases "k < ?n - ?w")
    case True
    then have fit: "?w + length ?xs < ?n" using lx by simp
    obtain b' where b': "pool_write (buffer_ptr rb) ?w ?xs = Some b'"
        "appended rb ?xs (rb\<lparr>buffer_ptr := b', write_mirror := write_mirror rb, write_index := ?w + length ?xs\<rparr>)"
      by (rule append_fits [OF inv room fit])
    have "idx15 (?w + k) = ?w + k" "int k < int ?n - int ?w" using True b(4) by simp_all
    then have "rt_ringbuffer_put rb ptr len =
        Some (k, rb\<lparr>buffer_ptr := b', write_mirror := write_mirror rb, write_index := ?w + k\<rparr>)"
      unfolding unfold using True b'(1) k(1) by (simp add: pool_read_Some)
    then show ?thesis using b'(2) unfolding k_def [symmetric] lx appended_def by blast
  next
    case False
    then have wrap: "?n - ?w \<le> length ?xs" using lx by simp
    obtain b1 b2 where b2: "pool_write (buffer_ptr rb) ?w (take (?n - ?w) ?xs) = Some b1"
        "pool_write b1 0 (drop (?n - ?w) ?xs) = Some b2"
        "appended rb ?xs (rb\<lparr>buffer_ptr := b2, write_mirror := \<not> write_mirror rb,
           write_index := length ?xs - (?n - ?w)\<rparr>)"
      by (rule append_wraps [OF inv room wrap])
    have "idx15 (k - (?n - ?w)) = k - (?n - ?w)" using k b(4) by (intro idx15_small) simp
    moreover have "\<not> int k < int ?n - int ?w" using False by simp
    ultimately have "rt_ringbuffer_put rb ptr len =
        Some (k, rb\<lparr>buffer_ptr := b2, write_mirror := \<not> write_mirror rb, write_index := k - (?n - ?w)\<rparr>)"
      unfolding unfold using False b2(1,2) k wrap by (simp add: pool_read_Some drop_take min_absorb1)
    then show ?thesis using b2(3) unfolding k_def [symmetric] lx appended_def by blast
  qed
qed

lemma rb_contents_take_drop:
  assumes "rb_inv rb" "k \<le> rb_len rb"
    and "rb' = rb\<lparr>read_mirror := rm, read_index := ri\<rparr>"
    and nr: "if read_index rb + k < buffer_size rb
             then ri = read_index rb + k \<and> rm = read_mirror rb
             else ri = read_index rb + k - buffer_size rb \<and> rm = (\<not> read_mirror rb)"
  shows "rb_inv rb' \<and> rb_contents rb' = drop k (rb_contents rb) \<and> buffer_size rb' = buffer_size rb"
proof -
  let ?n = "buffer_size rb" and ?r = "read_index rb"
  note b = rb_inv_bounds [OF assms(1)]
  have k: "k \<le> ?n" using assms(2) rb_len_le [OF assms(1)] by simp
  have inv': "rb_inv rb'" and len': "rb_len rb' = rb_len rb - k"
    using assms by (auto simp: rb_inv_def rb_len_def split: if_splits)
  have e: "(ri + i) mod ?n = (?r + (k + i)) mod ?n" for i
  proof (cases "?r + k < ?n")
    case True
    then show ?thesis using nr by (simp add: add.assoc)
  next
    case False
    then have "?r + (k + i) = ri + i + ?n" using nr by simp
    then show ?thesis by (metis mod_add_self2)
  qed
  have "rb_contents rb' = drop k (rb_contents rb)"
  proof (rule nth_equalityI)
    show "length (rb_contents rb') = length (drop k (rb_contents rb))" by (simp add: len')
    fix i assume "i < length (rb_contents rb')"
    then have i: "i < rb_len rb'" "k + i < rb_len rb" by (simp_all add: len')
    have "rb_contents rb' ! i = buffer_ptr rb ! ((ri + i) mod ?n)"
      using rb_contents_nth [OF i(1)] by (simp add: assms(3))
    then show "rb_contents rb' ! i = drop k (rb_contents rb) ! i"
      using i(2) assms(2) by (simp add: e rb_contents_nth)
  qed
  with inv' show ?thesis by (simp add: assms(3))
qed

text \<open>A read from the read index on, around the end of the pool when it reaches it, yields a
  prefix of the contents.\<close>

lemma read_prefix_one:
  assumes "rb_inv rb" "k \<le> rb_len rb" "read_index rb + k \<le> buffer_size rb"
  shows "pool_read (buffer_ptr rb) (read_index rb) k = Some (take k (rb_contents rb))"
proof -
  note b = rb_inv_bounds [OF assms(1)]
  have "take k (drop (read_index rb) (buffer_ptr rb)) = take k (rb_contents rb)"
  proof (rule nth_equalityI)
    show "length (take k (drop (read_index rb) (buffer_ptr rb))) = length (take k (rb_contents rb))"
      using assms b by simp
    fix i assume "i < length (take k (drop (read_index rb) (buffer_ptr rb)))"
    then have i: "i < k" by simp
    then have "(read_index rb + i) mod buffer_size rb = read_index rb + i" using assms(3) by simp
    then show "take k (drop (read_index rb) (buffer_ptr rb)) ! i = take k (rb_contents rb) ! i"
      using i assms(2,3) b by (simp add: rb_contents_nth)
  qed
  then show ?thesis using assms b by (simp add: pool_read_Some)
qed

lemma read_prefix_two:
  assumes inv: "rb_inv rb" and k: "k \<le> rb_len rb" "buffer_size rb \<le> read_index rb + k"
  shows "\<exists>a b. pool_read (buffer_ptr rb) (read_index rb) (buffer_size rb - read_index rb) = Some a \<and>
      pool_read (buffer_ptr rb) 0 (k - (buffer_size rb - read_index rb)) = Some b \<and>
      a @ b = take k (rb_contents rb)"
proof -
  let ?n = "buffer_size rb" and ?r = "read_index rb" and ?buf = "buffer_ptr rb"
  note bnd = rb_inv_bounds [OF inv]
  have kn: "k \<le> ?n" using k(1) rb_len_le [OF inv] by simp
  have "take (?n - ?r) (drop ?r ?buf) @ take (k - (?n - ?r)) ?buf = take k (rb_contents rb)"
  proof (rule nth_equalityI)
    show "length (take (?n - ?r) (drop ?r ?buf) @ take (k - (?n - ?r)) ?buf) = length (take k (rb_contents rb))"
      using bnd k kn by simp
    fix i assume "i < length (take (?n - ?r) (drop ?r ?buf) @ take (k - (?n - ?r)) ?buf)"
    then have i: "i < k" using bnd kn k(2) by simp
    have m: "(?r + i) mod ?n = (if ?r + i < ?n then ?r + i else ?r + i - ?n)"
      using bnd i kn by (intro mod_wrap) linarith
    have c: "take k (rb_contents rb) ! i = ?buf ! ((?r + i) mod ?n)"
      using i k(1) by (simp add: rb_contents_nth)
    show "(take (?n - ?r) (drop ?r ?buf) @ take (k - (?n - ?r)) ?buf) ! i = take k (rb_contents rb) ! i"
    proof (cases "i < ?n - ?r")
      case True
      then show ?thesis using bnd c m by (simp add: nth_append)
    next
      case False
      then have "\<not> ?r + i < ?n" "i - (?n - ?r) = ?r + i - ?n" using bnd by simp_all
      then show ?thesis using bnd c m False i by (simp add: nth_append)
    qed
  qed
  then show ?thesis using bnd kn by (simp add: pool_read_Some)
qed

text \<open>The two ways a read ends: the first \<open>k\<close> bytes of the contents come out of the pool in one
  piece or in two, and moving the read side past them leaves the others.\<close>

definition taken :: "rt_ringbuffer \<Rightarrow> nat \<Rightarrow> rt_ringbuffer \<Rightarrow> bool" where
  "taken rb k rb' \<longleftrightarrow>
     rb_inv rb' \<and> rb_contents rb' = drop k (rb_contents rb) \<and> buffer_size rb' = buffer_size rb"

lemma take_fits:
  assumes inv: "rb_inv rb" and k: "k \<le> rb_len rb" "read_index rb + k < buffer_size rb"
  shows "pool_read (buffer_ptr rb) (read_index rb) k = Some (take k (rb_contents rb))"
    and "taken rb k (rb\<lparr>read_mirror := read_mirror rb, read_index := read_index rb + k\<rparr>)"
  using read_prefix_one [OF inv k(1)] rb_contents_take_drop [OF inv k(1) refl] k(2)
  by (auto simp: taken_def)

lemma take_wraps:
  assumes inv: "rb_inv rb" and k: "k \<le> rb_len rb" "buffer_size rb \<le> read_index rb + k"
  shows "taken rb k (rb\<lparr>read_mirror := \<not> read_mirror rb,
           read_index := k - (buffer_size rb - read_index rb)\<rparr>)"
  unfolding taken_def
  by (rule rb_contents_take_drop [OF inv k(1) refl]) (use k(2) rb_inv_bounds [OF inv] in auto)

text \<open>\<open>rt_ringbuffer_get\<close> removes from the front: it returns the oldest bytes, as many as were
  asked for or as there are, in the order they were put in, and keeps the rest and the invariant.\<close>

theorem ringbuffer_get_takes:
  assumes inv: "rb_inv rb"
  shows "\<exists>k rb'. rt_ringbuffer_get rb len = Some (k, take k (rb_contents rb), rb') \<and>
           k = min (unat len) (rb_len rb) \<and>
           rb_inv rb' \<and> rb_contents rb' = drop k (rb_contents rb) \<and> buffer_size rb' = buffer_size rb"
proof (cases "rb_len rb = 0")
  case True
  then have "rb_contents rb = []" using length_rb_contents [of rb] by (metis length_0_conv)
  with True show ?thesis using inv by (simp add: rt_ringbuffer_get_def Let_def data_len_eq)
next
  case False
  define k where "k = min (unat len) (rb_len rb)"
  let ?n = "buffer_size rb" and ?r = "read_index rb"
  note b = rb_inv_bounds [OF inv]
  have k: "k \<le> rb_len rb" "k \<le> ?n" using rb_len_le [OF inv] by (auto simp: k_def)
  have kk: "(if rb_len rb < unat len then rb_len rb else unat len) = k" by (simp add: k_def)
  have room_nat: "nat (int ?n - int ?r) = ?n - ?r" "(0 \<le> int ?n - int ?r) = True" using b by simp_all
  have nz: "(rb_len rb = 0) = False" using False by simp
  note unfold = rt_ringbuffer_get_def Let_def data_len_eq [OF inv] kk nz if_False room_nat
  show ?thesis
  proof (cases "k < ?n - ?r")
    case True
    then have k': "?r + k < ?n" "int k < int ?n - int ?r" "idx15 (?r + k) = ?r + k" using b by simp_all
    then have "rt_ringbuffer_get rb len =
        Some (k, take k (rb_contents rb), rb\<lparr>read_mirror := read_mirror rb, read_index := ?r + k\<rparr>)"
      unfolding unfold using take_fits(1) [OF inv k(1)] by simp
    then show ?thesis using take_fits(2) [OF inv k(1) k'(1)]
      unfolding k_def [symmetric] taken_def by blast
  next
    case F: False
    then have le_k: "?n \<le> ?r + k" by simp
    from F have "\<not> int k < int ?n - int ?r" "idx15 (k - (?n - ?r)) = k - (?n - ?r)"
      using b k by simp_all
    moreover obtain x y where "pool_read (buffer_ptr rb) ?r (?n - ?r) = Some x"
        "pool_read (buffer_ptr rb) 0 (k - (?n - ?r)) = Some y" "x @ y = take k (rb_contents rb)"
      using read_prefix_two [OF inv k(1) le_k] by blast
    ultimately have "rt_ringbuffer_get rb len =
        Some (k, take k (rb_contents rb), rb\<lparr>read_mirror := \<not> read_mirror rb, read_index := k - (?n - ?r)\<rparr>)"
      unfolding unfold by simp
    then show ?thesis using take_wraps [OF inv k(1) le_k]
      unfolding k_def [symmetric] taken_def by blast
  qed
qed

lemma rb_len_0: "rb_len rb = 0 \<longleftrightarrow> rb_contents rb = []"
  by (metis length_0_conv length_rb_contents)

lemma rb_contents_Cons: "rb_contents rb = x # xs \<Longrightarrow> 0 < rb_len rb"
  by (metis length_rb_contents length_greater_0_conv list.distinct(1))

subsection \<open>Single bytes\<close>

text \<open>\<open>putchar\<close> appends a byte or reports 0 when the buffer is full, \<open>getchar\<close> takes the oldest
  byte or reports 0 when it is empty.\<close>

lemma putchar_full:
  "rb_inv rb \<Longrightarrow> rb_len rb = buffer_size rb \<Longrightarrow> rt_ringbuffer_putchar rb ch = Some (0, rb)"
  by (simp add: rt_ringbuffer_putchar_def space_len_eq)

lemma upd_read_write:
  "rb\<lparr>read_mirror := a, read_index := b, buffer_ptr := c, write_mirror := d, write_index := e\<rparr> =
   rb\<lparr>buffer_ptr := c, write_mirror := d, write_index := e, read_mirror := a, read_index := b\<rparr>"
  "rb\<lparr>read_index := b, buffer_ptr := c, write_index := e\<rparr> =
   rb\<lparr>buffer_ptr := c, write_index := e, read_index := b\<rparr>"
  by (cases rb, simp)+

lemma advance_write:
  assumes inv: "rb_inv rb" and room: "rb_len rb < buffer_size rb"
    and pw: "pool_write (buffer_ptr rb) (write_index rb) [ch] = Some buf"
  shows "if int (write_index rb) = int (buffer_size rb) - 1
         then appended rb [ch] (rb\<lparr>buffer_ptr := buf, write_mirror := \<not> write_mirror rb, write_index := 0\<rparr>)
         else appended rb [ch] (rb\<lparr>buffer_ptr := buf, write_index := idx15 (Suc (write_index rb))\<rparr>)"
proof -
  let ?n = "buffer_size rb" and ?w = "write_index rb"
  note b = rb_inv_bounds [OF inv]
  have room': "rb_len rb + length [ch] \<le> ?n" using room by simp
  show ?thesis
  proof (cases "?w + length [ch] < ?n")
    case True
    with append_fits [OF inv room' True] pw
    have "appended rb [ch] (rb\<lparr>buffer_ptr := buf, write_mirror := write_mirror rb, write_index := ?w + 1\<rparr>)"
      by (metis One_nat_def length_Cons list.size(3) option.inject)
    then show ?thesis using True b(4) by simp
  next
    case False
    then have last: "?w = ?n - 1" using b by simp
    have "written rb [ch] buf" using b by (intro written_one [OF inv pw]) simp
    then have "appended rb [ch] (rb\<lparr>buffer_ptr := buf, write_mirror := \<not> write_mirror rb, write_index := 0\<rparr>)"
      using contents_appended [OF inv _ room' refl] last b by (auto simp: appended_def)
    then show ?thesis using last b by simp
  qed
qed

lemma putchar_room:
  assumes inv: "rb_inv rb" and room: "rb_len rb < buffer_size rb"
  shows "\<exists>rb'. rt_ringbuffer_putchar rb ch = Some (1, rb') \<and> rb_inv rb' \<and>
           rb_contents rb' = rb_contents rb @ [ch] \<and> buffer_size rb' = buffer_size rb"
proof -
  note b = rb_inv_bounds [OF inv]
  obtain buf where buf: "pool_write (buffer_ptr rb) (write_index rb) [ch] = Some buf"
    using pool_write_fits [of "write_index rb" "[ch]" "buffer_ptr rb"] b by auto
  show ?thesis
    using room advance_write [OF inv room buf]
    by (auto simp add: rt_ringbuffer_putchar_def space_len_eq inv buf Let_def appended_def)
qed

lemma getchar_empty:
  "rb_inv rb \<Longrightarrow> rb_contents rb = [] \<Longrightarrow> rt_ringbuffer_getchar rb = Some (0, [], rb)"
  by (simp add: rt_ringbuffer_getchar_def data_len_eq rb_len_0)

lemma advance_read:
  assumes inv: "rb_inv rb" and some: "0 < rb_len rb"
  shows "taken rb 1 (if int (read_index rb) = int (buffer_size rb) - 1
            then rb\<lparr>read_mirror := \<not> read_mirror rb, read_index := 0\<rparr>
            else rb\<lparr>read_index := idx15 (read_index rb + 1)\<rparr>)"
proof -
  note b = rb_inv_bounds [OF inv]
  have k: "1 \<le> rb_len rb" using some by simp
  show ?thesis
  proof (cases "read_index rb + 1 < buffer_size rb")
    case True
    then have "idx15 (read_index rb + 1) = read_index rb + 1" using b(4) by (intro idx15_small) simp
    then show ?thesis using take_fits(2) [OF inv k True] True by simp
  next
    case False
    then have "buffer_size rb \<le> read_index rb + 1" by simp
    then show ?thesis using take_wraps [OF inv k] False b by (simp add: le_antisym)
  qed
qed

lemma getchar_some:
  assumes inv: "rb_inv rb" and c: "rb_contents rb = x # xs"
  shows "\<exists>rb'. rt_ringbuffer_getchar rb = Some (1, [x], rb') \<and> rb_inv rb' \<and>
           rb_contents rb' = xs \<and> buffer_size rb' = buffer_size rb"
proof -
  note b = rb_inv_bounds [OF inv]
  have some: "0 < rb_len rb" using c by (rule rb_contents_Cons)
  have "pool_read (buffer_ptr rb) (read_index rb) 1 = Some [x]"
    using read_prefix_one [OF inv, of 1] some b c by simp
  then show ?thesis
    using some advance_read [OF inv some] c
    by (auto simp add: rt_ringbuffer_getchar_def data_len_eq inv taken_def)
qed

text \<open>\<open>putchar\<close> and \<open>getchar\<close> as the two operations of a bounded FIFO.\<close>

definition rb_enq :: "u8 \<Rightarrow> rt_ringbuffer \<Rightarrow> rt_ringbuffer option" where
  "rb_enq ch rb =
     (case rt_ringbuffer_putchar rb ch of
        Some (n, rb') \<Rightarrow> if n = 1 then Some rb' else None | None \<Rightarrow> None)"

definition rb_deq :: "rt_ringbuffer \<Rightarrow> (u8 \<times> rt_ringbuffer) option" where
  "rb_deq rb =
     (case rt_ringbuffer_getchar rb of
        Some (n, [ch], rb') \<Rightarrow> if n = 1 then Some (ch, rb') else None | _ \<Rightarrow> None)"

interpretation rbq: bounded_fifo rb_inv rb_contents buffer_size rb_enq rb_deq
proof unfold_locales
  fix q :: rt_ringbuffer and x and xs
  assume inv: "rb_inv q"
  show "length (rb_contents q) \<le> buffer_size q" using rb_len_le [OF inv] by simp
  show "\<exists>q'. rb_enq x q = Some q' \<and> rb_inv q' \<and> rb_contents q' = rb_contents q @ [x] \<and>
          buffer_size q' = buffer_size q" if "length (rb_contents q) < buffer_size q"
    using putchar_room [OF inv, of x] that by (auto simp: rb_enq_def)
  show "rb_enq x q = None" if "length (rb_contents q) = buffer_size q"
    using putchar_full [OF inv, of x] that by (simp add: rb_enq_def)
  show "\<exists>q'. rb_deq q = Some (x, q') \<and> rb_inv q' \<and> rb_contents q' = xs \<and>
          buffer_size q' = buffer_size q" if "rb_contents q = x # xs"
    using getchar_some [OF inv that] by (auto simp: rb_deq_def)
  show "rb_deq q = None" if "rb_contents q = []"
    using getchar_empty [OF inv that] by (simp add: rb_deq_def)
qed

text \<open>Bytes come out of the ring buffer in the order they went in: storing any sequence that
  fits into an empty buffer with \<open>putchar\<close> succeeds byte by byte, and as many calls of
  \<open>getchar\<close> return exactly that sequence and leave the buffer empty.\<close>

theorem ringbuffer_fifo_order:
  assumes "rb_inv rb" "rb_contents rb = []" "length xs \<le> buffer_size rb"
  shows "\<exists>rb1 rb2. enq_all rb_enq xs rb = Some rb1 \<and>
           deq_n rb_deq (length xs) rb1 = Some (xs, rb2) \<and> rb_contents rb2 = []"
  using rbq.fifo_order [OF assms] by blast

subsection \<open>The forced variants\<close>

text \<open>\<open>putchar_force\<close> on a full buffer overwrites the oldest byte.\<close>

theorem ringbuffer_putchar_force:
  assumes inv: "rb_inv rb"
  shows "\<exists>rb'. rt_ringbuffer_putchar_force rb ch = Some (1, rb') \<and> rb_inv rb' \<and>
           rb_contents rb' =
             (if rb_len rb = buffer_size rb then tl (rb_contents rb) else rb_contents rb) @ [ch]"
proof -
  note b = rb_inv_bounds [OF inv]
  obtain buf where buf: "pool_write (buffer_ptr rb) (write_index rb) [ch] = Some buf"
    using pool_write_fits [of "write_index rb" "[ch]" "buffer_ptr rb"] b by auto
  have full: "rt_ringbuffer_status rb = RT_RINGBUFFER_FULL \<longleftrightarrow> rb_len rb = buffer_size rb"
    using inv by (auto simp: rt_ringbuffer_status_def rb_len_def rb_inv_def split: if_splits)
  show ?thesis
  proof (cases "rb_len rb = buffer_size rb")
    case False
    then have room: "rb_len rb < buffer_size rb" using rb_len_le [OF inv] by simp
    show ?thesis
      using advance_write [OF inv room buf] False full
      by (auto simp add: rt_ringbuffer_putchar_force_def buf Let_def appended_def)
  next
    case True
    then have wr: "write_index rb = read_index rb" "read_mirror rb \<noteq> write_mirror rb"
      using inv by (auto simp: rb_len_def rb_inv_def split: if_splits)
    define rb1 where "rb1 = (if int (read_index rb) = int (buffer_size rb) - 1
            then rb\<lparr>read_mirror := \<not> read_mirror rb, read_index := 0\<rparr>
            else rb\<lparr>read_index := idx15 (read_index rb + 1)\<rparr>)"
    have some: "0 < rb_len rb" using True b by simp
    have r1: "rb_inv rb1" "rb_contents rb1 = tl (rb_contents rb)"
      using advance_read [OF inv some] by (simp_all add: rb1_def drop_Suc taken_def split: if_splits)
    have same: "buffer_ptr rb1 = buffer_ptr rb" "write_index rb1 = write_index rb"
      "buffer_size rb1 = buffer_size rb" "write_mirror rb1 = write_mirror rb"
      by (simp_all add: rb1_def)
    have room: "rb_len rb1 < buffer_size rb1"
      using r1(2) True b by (metis length_rb_contents length_tl same(3) diff_less zero_less_one)
    have "pool_write (buffer_ptr rb1) (write_index rb1) [ch] = Some buf" using buf same by simp
    from advance_write [OF r1(1) room this] show ?thesis
      using True full wr r1(2) buf
      by (auto simp add: rt_ringbuffer_putchar_force_def Let_def rb1_def appended_def upd_read_write
          split: if_splits)
  qed
qed

text \<open>The pool and the indices after \<open>put_force\<close>, before the read side is adjusted.\<close>

lemma put_force_unfold:
  assumes inv: "rb_inv rb" and src: "unat len \<le> length ptr"
  defines "k \<equiv> min (unat len) (buffer_size rb)"
  defines "xs \<equiv> drop (unat len - k) (take (unat len) ptr)"
  shows "\<exists>b. written rb xs b \<and> length xs = k \<and>
    rt_ringbuffer_put_force rb ptr len = Some (k,
      if write_index rb + k < buffer_size rb then
        (let rb1 = rb\<lparr>buffer_ptr := b, write_index := write_index rb + k\<rparr> in
         if k > buffer_size rb - rb_len rb then rb1\<lparr>read_index := write_index rb1\<rparr> else rb1)
      else
        (let rb1 = rb\<lparr>buffer_ptr := b, write_mirror := \<not> write_mirror rb,
                      write_index := write_index rb + k - buffer_size rb\<rparr> in
         if k > buffer_size rb - rb_len rb
         then rb1\<lparr>read_mirror := \<not> read_mirror rb1, read_index := write_index rb1\<rparr> else rb1))"
proof -
  let ?n = "buffer_size rb" and ?w = "write_index rb"
  define sk where "sk = unat len - k"
  note b = rb_inv_bounds [OF inv]
  have k: "k \<le> unat len" "k \<le> ?n" "sk + k = unat len" by (simp_all add: k_def sk_def)
  have lx: "length xs = k" using src k by (simp add: xs_def min_absorb1)
  have skip: "(if ?n < unat len then unat len - ?n else 0) = sk"
    "(if ?n < unat len then ?n else unat len) = k"
    by (simp_all add: k_def sk_def)
  have xs: "xs = take k (drop sk ptr)"
    using k(3) by (simp add: xs_def drop_take sk_def [symmetric] flip: k(3))
  have room_nat: "nat (int ?n - int ?w) = ?n - ?w" "(0 \<le> int ?n - int ?w) = True" using b by simp_all
  have sp: "rt_ringbuffer_space_len rb mod 2 ^ 16 = ?n - rb_len rb"
    using space_len_16 [OF inv] by simp
  note unfold = rt_ringbuffer_put_force_def Let_def sp skip room_nat
  show ?thesis
  proof (cases "?w + k < ?n")
    case True
    then obtain b' where b': "pool_write (buffer_ptr rb) ?w xs = Some b'"
      using pool_write_fits [of ?w xs "buffer_ptr rb"] b lx by auto
    have "written rb xs b'" using written_one [OF inv b'] True lx by simp
    moreover have "idx15 (?w + k) = ?w + k" using True b(4) by (intro idx15_small) simp
    moreover have "int k < int ?n - int ?w" using True by simp
    moreover have "pool_read ptr sk k = Some xs" using src k by (simp add: pool_read_Some xs)
    ultimately show ?thesis
      unfolding unfold using True lx b' by (intro exI [of _ b']) simp
  next
    case F: False
    then have room: "?n - ?w \<le> k" by simp
    have "?w + length (take (?n - ?w) xs) \<le> length (buffer_ptr rb)" using b by simp
    then obtain b1 where b1: "pool_write (buffer_ptr rb) ?w (take (?n - ?w) xs) = Some b1"
        "length b1 = length (buffer_ptr rb)"
      using pool_write_fits by blast
    have "0 + length (drop (?n - ?w) xs) \<le> length b1" using b b1(2) k lx by simp
    then obtain b2 where b2: "pool_write b1 0 (drop (?n - ?w) xs) = Some b2"
      using pool_write_fits by blast
    have "written rb xs b2" by (rule written_two [OF inv lx k(2) room b1(1) b2])
    moreover have "idx15 (k - (?n - ?w)) = ?w + k - ?n" using k room b by (subst idx15_small) auto
    moreover have "\<not> int k < int ?n - int ?w" using F by simp
    moreover have "pool_read ptr sk (?n - ?w) = Some (take (?n - ?w) xs)"
      using src k room by (simp add: pool_read_Some xs min_absorb1)
    moreover have "pool_read ptr (sk + (?n - ?w)) (k - (?n - ?w)) = Some (drop (?n - ?w) xs)"
      using src k room by (simp add: pool_read_Some xs drop_take add.commute)
    ultimately show ?thesis
      unfolding unfold using F lx b1(1) b2 by (intro exI [of _ b2]) simp
  qed
qed

text \<open>\<open>rt_ringbuffer_put_force\<close> keeps the newest bytes, where its read side is on the other
  mirror than its write side or nothing has to be dropped: the last bytes of the data that fit
  into the buffer at all are stored behind what is left of the old contents, from which exactly
  the oldest bytes are dropped, as few as possible.\<close>

theorem put_force_drops_oldest:
  assumes inv: "rb_inv rb" and src: "unat len \<le> length ptr"
    and k: "k = min (unat len) (buffer_size rb)"
    and ok: "k \<le> buffer_size rb - rb_len rb \<or> read_mirror rb \<noteq> write_mirror rb"
  shows "\<exists>rb'. rt_ringbuffer_put_force rb ptr len = Some (k, rb') \<and> rb_inv rb' \<and>
           rb_contents rb' =
             drop (rb_len rb + k - buffer_size rb) (rb_contents rb) @ drop (unat len - k) (take (unat len) ptr)"
proof -
  let ?n = "buffer_size rb" and ?w = "write_index rb" and ?r = "read_index rb"
  define xs where "xs = drop (unat len - k) (take (unat len) ptr)"
  note bnd = rb_inv_bounds [OF inv]
  note ub = rb_len_le [OF inv]
  define wi where "wi = (if ?w + k < ?n then ?w + k else ?w + k - ?n)"
  define wm where "wm = (if ?w + k < ?n then write_mirror rb else \<not> write_mirror rb)"
  obtain b where W: "written rb xs b" and lx: "length xs = k"
    and put: "rt_ringbuffer_put_force rb ptr len = Some (k,
      if ?w + k < ?n then
        (let rb1 = rb\<lparr>buffer_ptr := b, write_index := ?w + k\<rparr> in
         if k > ?n - rb_len rb then rb1\<lparr>read_index := write_index rb1\<rparr> else rb1)
      else
        (let rb1 = rb\<lparr>buffer_ptr := b, write_mirror := \<not> write_mirror rb,
                      write_index := ?w + k - ?n\<rparr> in
         if k > ?n - rb_len rb
         then rb1\<lparr>read_mirror := \<not> read_mirror rb1, read_index := write_index rb1\<rparr> else rb1))"
    using put_force_unfold [OF inv src] unfolding k xs_def by blast
  show ?thesis
  proof (cases "k \<le> ?n - rb_len rb")
    case True
    let ?rb' = "rb\<lparr>buffer_ptr := b, write_mirror := wm, write_index := wi\<rparr>"
    have "rb_inv ?rb' \<and> rb_contents ?rb' = rb_contents rb @ xs \<and> buffer_size ?rb' = ?n"
      by (rule contents_appended [OF inv W _ refl]) (use True lx ub in \<open>auto simp: wi_def wm_def\<close>)
    moreover have "rt_ringbuffer_put_force rb ptr len = Some (k, ?rb')"
      using True by (simp add: put wi_def wm_def Let_def)
    moreover have "rb_len rb + k - ?n = 0" using True ub by simp
    ultimately show ?thesis by (auto simp: xs_def)
  next
    case over: False
    then have m: "read_mirror rb \<noteq> write_mirror rb" using ok by simp
    then have L: "rb_len rb = ?n - ?r + ?w" "?w \<le> ?r" using inv by (auto simp: rb_len_def rb_inv_def)
    define d where "d = rb_len rb + k - ?n"
    have kn: "k \<le> ?n" by (simp add: k)
    have d: "d \<le> rb_len rb" "?r + d = ?w + k" using L over bnd kn by (auto simp: d_def)
    let ?rm = "if ?w + k < ?n then read_mirror rb else \<not> read_mirror rb"
    let ?rb1 = "rb\<lparr>read_mirror := ?rm, read_index := wi\<rparr>"
    have r1: "rb_inv ?rb1 \<and> rb_contents ?rb1 = drop d (rb_contents rb) \<and> buffer_size ?rb1 = ?n"
      by (rule rb_contents_take_drop [OF inv d(1) refl]) (use d(2) in \<open>auto simp: wi_def\<close>)
    have l1: "rb_len ?rb1 = rb_len rb - d"
      using r1 by (metis length_drop length_rb_contents)
    let ?rb' = "?rb1\<lparr>buffer_ptr := b, write_mirror := wm, write_index := wi\<rparr>"
    have "rb_inv ?rb' \<and> rb_contents ?rb' = rb_contents ?rb1 @ xs \<and> buffer_size ?rb' = buffer_size ?rb1"
    proof (rule contents_appended [OF _ _ _ refl])
      show "written ?rb1 xs b" using W by (simp add: written_def)
      show "rb_len ?rb1 + length xs \<le> buffer_size ?rb1" using l1 lx d over kn by (simp add: d_def)
    qed (use r1 lx in \<open>auto simp: wi_def wm_def\<close>)
    moreover have "rt_ringbuffer_put_force rb ptr len = Some (k, ?rb')"
      using over by (simp add: put wi_def wm_def Let_def upd_read_write)
    ultimately show ?thesis using r1 by (auto simp: xs_def d_def)
  qed
qed

text \<open>When the data does not fit and both sides are still on the same mirror,
  \<open>rt_ringbuffer_put_force\<close> flips both mirror bits and sets both indices equal: the buffer, which
  should then be full of the newest bytes, reports itself empty and everything is lost.\<close>

theorem put_force_same_mirror_empties:
  assumes inv: "rb_inv rb" and src: "unat len \<le> length ptr"
    and k: "k = min (unat len) (buffer_size rb)"
    and same: "read_mirror rb = write_mirror rb" and over: "buffer_size rb - rb_len rb < k"
  shows "\<exists>rb'. rt_ringbuffer_put_force rb ptr len = Some (k, rb') \<and>
           rt_ringbuffer_status rb' = RT_RINGBUFFER_EMPTY \<and> rb_contents rb' = []"
proof -
  let ?n = "buffer_size rb" and ?w = "write_index rb"
  have "rb_len rb = ?w - read_index rb" using same by (simp add: rb_len_def)
  then have wrap: "\<not> ?w + k < ?n" using over by linarith
  obtain b where put: "rt_ringbuffer_put_force rb ptr len = Some (k,
        (let rb1 = rb\<lparr>buffer_ptr := b, write_mirror := \<not> write_mirror rb,
                      write_index := ?w + k - ?n\<rparr> in
         if k > ?n - rb_len rb
         then rb1\<lparr>read_mirror := \<not> read_mirror rb1, read_index := write_index rb1\<rparr> else rb1))"
    using put_force_unfold [OF inv src] wrap unfolding k by auto
  show ?thesis
    using over same by (simp add: put Let_def rt_ringbuffer_status_def rb_contents_def rb_len_def)
qed

subsection \<open>Initial state, peak, and the theorems at a concrete buffer\<close>

lemma and_not_3: "(x :: int) AND - 4 = 4 * (x div 4)"
proof -
  have "(x AND - 4) = push_bit 2 (drop_bit 2 x)"
  proof (rule bit_eqI)
    fix n
    have "(- 4 :: int) = NOT (mask 2)" by (simp add: mask_eq_exp_minus_1)
    then have "bit (- 4 :: int) n = bit (NOT (mask 2) :: int) n" by (simp only:)
    also have "\<dots> \<longleftrightarrow> 2 \<le> n" by (simp only: bit_not_iff bit_mask_iff) auto
    finally have "bit (- 4 :: int) n \<longleftrightarrow> 2 \<le> n" .
    then show "bit (x AND - 4) n \<longleftrightarrow> bit (push_bit 2 (drop_bit 2 x)) n"
      by (cases "2 \<le> n")
        (simp_all add: bit_and_iff bit_push_bit_iff bit_drop_bit_eq add_diff_inverse_nat
           le_add_diff_inverse del: add_2_eq_Suc add_2_eq_Suc')
  qed
  then show ?thesis by (simp add: push_bit_eq_mult drop_bit_eq_div)
qed

theorem ringbuffer_init_empty:
  assumes "4 \<le> sz" "sz < 2 ^ 15" "nat sz \<le> length pool"
  shows "\<exists>rb. rt_ringbuffer_init pool sz = Some rb \<and> rb_inv rb \<and> rb_contents rb = [] \<and>
           buffer_size rb = 4 * (nat sz div 4)"
  using assms
  by (auto simp: rt_ringbuffer_init_def rb_inv_def rb_contents_def rb_len_def and_not_3
      nat_mult_distrib nat_div_distrib)

theorem ringbuffer_peak_prefix:
  assumes inv: "rb_inv rb" and some: "rb_contents rb \<noteq> []"
  shows "\<exists>k rb'. rt_ringbuffer_peak rb = (k, Some (read_index rb), rb') \<and> 0 < k \<and>
           take k (drop (read_index rb) (buffer_ptr rb)) = take k (rb_contents rb) \<and>
           rb_inv rb' \<and> rb_contents rb' = drop k (rb_contents rb)"
proof -
  let ?n = "buffer_size rb" and ?r = "read_index rb"
  note b = rb_inv_bounds [OF inv]
  have len: "0 < rb_len rb" using some by (metis length_rb_contents length_greater_0_conv)
  define k where "k = (if rb_len rb < ?n - ?r then rb_len rb else ?n - ?r)"
  have k: "0 < k" "k \<le> rb_len rb" "?r + k \<le> ?n" using len b by (auto simp: k_def)
  have pre: "take k (drop ?r (buffer_ptr rb)) = take k (rb_contents rb)"
    using read_prefix_one [OF inv k(2,3)] k(3) b by (simp add: pool_read_Some)
  let ?rb' = "rb\<lparr>read_mirror := (if ?r + k < ?n then read_mirror rb else \<not> read_mirror rb),
                read_index := (if ?r + k < ?n then ?r + k else ?r + k - ?n)\<rparr>"
  have "rb_inv ?rb' \<and> rb_contents ?rb' = drop k (rb_contents rb) \<and> buffer_size ?rb' = ?n"
    by (rule rb_contents_take_drop [OF inv k(2) refl]) auto
  moreover have "rt_ringbuffer_peak rb = (k, Some ?r, ?rb')"
    using len b by (auto simp: rt_ringbuffer_peak_def data_len_eq inv Let_def k_def)
  ultimately show ?thesis using k(1) pre by blast
qed

definition rb_example :: rt_ringbuffer where
  "rb_example = \<lparr>buffer_ptr = [0, 0, 1, 2, 3, 0, 0, 0], read_mirror = False, read_index = 2,
                 write_mirror = False, write_index = 5, buffer_size = 8\<rparr>"

lemma rb_example: "rb_inv rb_example" "rb_contents rb_example = [1, 2, 3]" "rb_len rb_example = 3"
    "buffer_size rb_example = 8" "read_mirror rb_example = write_mirror rb_example"
  by (simp_all add: rb_example_def rb_inv_def rb_contents_def rb_len_def upt_rec)

lemma ringbuffer_put_appends_witness:
  "\<exists>rb'. rt_ringbuffer_put rb_example [7, 8, 9, 10, 11, 12] 6 = Some (5, rb') \<and>
         rb_contents rb' = [1, 2, 3, 7, 8, 9, 10, 11]"
  using ringbuffer_put_appends [OF rb_example(1), of 6 "[7, 8, 9, 10, 11, 12]"] rb_example(2,3)
  by (auto simp: rb_example_def)

lemma ringbuffer_get_takes_witness:
  "\<exists>rb'. rt_ringbuffer_get rb_example 2 = Some (2, [1, 2], rb') \<and> rb_contents rb' = [3]"
  using ringbuffer_get_takes [OF rb_example(1), of 2] rb_example(2,3) by auto

lemma rb_example_reset:
  "rb_inv (rt_ringbuffer_reset rb_example)" "rb_contents (rt_ringbuffer_reset rb_example) = []"
  "buffer_size (rt_ringbuffer_reset rb_example) = 8"
  by (simp_all add: rb_example_def rt_ringbuffer_reset_def rb_inv_def rb_contents_def rb_len_def)

lemma ringbuffer_fifo_order_witness:
  "\<exists>rb1 rb2. enq_all rb_enq [5, 6] (rt_ringbuffer_reset rb_example) = Some rb1 \<and>
     deq_n rb_deq (length [5, 6 :: u8]) rb1 = Some ([5, 6], rb2) \<and> rb_contents rb2 = []"
  by (rule ringbuffer_fifo_order) (simp_all add: rb_example_reset)

definition rb_example_wrapped :: rt_ringbuffer where
  "rb_example_wrapped = \<lparr>buffer_ptr = [3, 4, 0, 0, 0, 0, 1, 2], read_mirror = False, read_index = 6,
                         write_mirror = True, write_index = 2, buffer_size = 8\<rparr>"

lemma rb_example_wrapped: "rb_inv rb_example_wrapped" "rb_contents rb_example_wrapped = [1, 2, 3, 4]"
    "rb_len rb_example_wrapped = 4" "buffer_size rb_example_wrapped = 8"
    "read_mirror rb_example_wrapped \<noteq> write_mirror rb_example_wrapped"
  by (simp_all add: rb_example_wrapped_def rb_inv_def rb_contents_def rb_len_def upt_rec)

lemma put_force_drops_oldest_witness:
  "\<exists>rb'. rt_ringbuffer_put_force rb_example_wrapped [5, 6, 7, 8, 9, 10] 6 = Some (6, rb') \<and> rb_inv rb' \<and>
         rb_contents rb' = drop 2 [1, 2, 3, 4] @ [5, 6, 7, 8, 9, 10]"
proof -
  have l: "unat (6 :: u16) \<le> length [5, 6, 7, 8, 9, 10 :: u8]" by simp
  have k: "6 = min (unat (6 :: u16)) (buffer_size rb_example_wrapped)" by (simp add: rb_example_wrapped(4))
  have e: "drop (rb_len rb_example_wrapped + 6 - buffer_size rb_example_wrapped) (rb_contents rb_example_wrapped)
        @ drop (unat (6 :: u16) - 6) (take (unat (6 :: u16)) [5, 6, 7, 8, 9, 10]) =
        drop 2 [1, 2, 3, 4] @ [5, 6, 7, 8, 9, 10]"
    by (simp add: rb_example_wrapped(2,3,4))
  show ?thesis
    by (rule put_force_drops_oldest
        [OF rb_example_wrapped(1) l k disjI2 [OF rb_example_wrapped(5)], unfolded e])
qed

lemma put_force_same_mirror_empties_witness:
  "\<exists>rb'. rt_ringbuffer_put_force rb_example [7, 8, 9, 10, 11, 12] 6 = Some (6, rb') \<and>
         rt_ringbuffer_status rb' = RT_RINGBUFFER_EMPTY \<and> rb_contents rb' = []"
  by (rule put_force_same_mirror_empties [OF rb_example(1)]) (simp_all add: rb_example)

end
