(* ===== verification/Heap.thy ===== *)
theory Heap
  imports KString
begin

text \<open>
  The dynamic memory of the kernel, \<open>src/src/mem.c\<close>: one area cut into blocks, each with a header
  of 12 bytes that holds its used flag and the offsets of its neighbours.  Pointers into the area are
  offsets from \<open>heap_ptr\<close>; the headers are kept by offset in \<open>blk\<close>, the bytes of the area in
  \<open>bytes\<close>.  The semaphore that guards the area is its value \<open>heap_sem\<close>: a caller that finds it 0
  waits, which is \<open>None\<close> here as a failed assertion is.  \<open>irq_nest\<close> is the kernel's interrupt
  nesting, which the operations only check.
\<close>

section \<open>The state\<close>

record heap_mem =
  magic :: u16
  used :: u16
  next_off :: u32
  prev_off :: u32

record heap =
  heap_ptr :: u32
  blk :: "u32 \<Rightarrow> heap_mem"
  heap_end :: u32
  lfree :: u32
  heap_sem :: nat
  mem_size_aligned :: u32
  used_mem :: u32
  max_mem :: u32
  bytes :: memory
  irq_nest :: u8

abbreviation (input) HEAP_MAGIC :: u16 where "HEAP_MAGIC \<equiv> 0x1ea0"
abbreviation (input) SIZEOF_STRUCT_MEM :: u32 where "SIZEOF_STRUCT_MEM \<equiv> 12"
abbreviation (input) MIN_SIZE_ALIGNED :: u32 where "MIN_SIZE_ALIGNED \<equiv> 12"

definition rt_align :: "u32 \<Rightarrow> u32" where
  "rt_align sz = (sz + 4 - 1) AND NOT (4 - 1)"

definition rt_align_down :: "u32 \<Rightarrow> u32" where
  "rt_align_down sz = sz AND NOT (4 - 1)"

definition upd_blk :: "u32 \<Rightarrow> (heap_mem \<Rightarrow> heap_mem) \<Rightarrow> heap \<Rightarrow> heap" where
  "upd_blk p f h = h\<lparr>blk := (blk h)(p := f (blk h p))\<rparr>"

section \<open>The operations\<close>

text \<open>\<open>rt_sem_take(&heap_sem, RT_WAITING_FOREVER)\<close> and \<open>rt_sem_release(&heap_sem)\<close>.\<close>

definition heap_lock :: "heap \<Rightarrow> heap option" where
  "heap_lock h = (if heap_sem h > 0 then Some (h\<lparr>heap_sem := heap_sem h - 1\<rparr>) else None)"

definition heap_unlock :: "heap \<Rightarrow> heap" where
  "heap_unlock h = h\<lparr>heap_sem := heap_sem h + 1\<rparr>"

definition heap_max :: "heap \<Rightarrow> heap" where
  "heap_max h = (if max_mem h < used_mem h then h\<lparr>max_mem := used_mem h\<rparr> else h)"

text \<open>The two halves of \<open>plug_holes\<close>: joining \<open>mem\<close> with the next block and with the previous one.\<close>

definition plug_next :: "u32 \<Rightarrow> heap \<Rightarrow> heap" where
  "plug_next mem h =
     (let nmem = next_off (blk h mem) in
      if mem \<noteq> nmem \<and> used (blk h nmem) = 0 \<and> nmem \<noteq> heap_end h then
        (let h = (if lfree h = nmem then h\<lparr>lfree := mem\<rparr> else h);
             h = upd_blk mem (\<lambda>b. b\<lparr>next_off := next_off (blk h nmem)\<rparr>) h in
         upd_blk (next_off (blk h nmem)) (\<lambda>b. b\<lparr>prev_off := mem\<rparr>) h)
      else h)"

definition plug_prev :: "u32 \<Rightarrow> heap \<Rightarrow> heap" where
  "plug_prev mem h =
     (let pmem = prev_off (blk h mem) in
      if pmem \<noteq> mem \<and> used (blk h pmem) = 0 then
        (let h = (if lfree h = mem then h\<lparr>lfree := pmem\<rparr> else h);
             h = upd_blk pmem (\<lambda>b. b\<lparr>next_off := next_off (blk h mem)\<rparr>) h in
         upd_blk (next_off (blk h mem)) (\<lambda>b. b\<lparr>prev_off := pmem\<rparr>) h)
      else h)"

text \<open>\<open>mem >= heap_ptr\<close> holds of every offset.\<close>

definition plug_holes :: "u32 \<Rightarrow> heap \<Rightarrow> heap option" where
  "plug_holes mem h = do {
     rt_assert (mem < heap_end h);
     rt_assert (used (blk h mem) = 0);
     Some (plug_prev mem (plug_next mem h))
   }"

definition rt_system_heap_init :: "u32 \<Rightarrow> u32 \<Rightarrow> heap \<Rightarrow> heap option" where
  "rt_system_heap_init begin_addr end_addr h =
     (let begin_align = rt_align begin_addr; end_align = rt_align_down end_addr in do {
      rt_assert (irq_nest h = 0);
      if end_align > 2 * SIZEOF_STRUCT_MEM \<and> end_align - 2 * SIZEOF_STRUCT_MEM \<ge> begin_align then
        (let h = h\<lparr>mem_size_aligned := end_align - begin_align - 2 * SIZEOF_STRUCT_MEM\<rparr>;
             h = h\<lparr>heap_ptr := begin_align\<rparr>;
             h = upd_blk 0 (\<lambda>b. b\<lparr>magic := HEAP_MAGIC, next_off := mem_size_aligned h + SIZEOF_STRUCT_MEM,
                   prev_off := 0, used := 0\<rparr>) h;
             h = h\<lparr>heap_end := next_off (blk h 0)\<rparr>;
             h = upd_blk (heap_end h) (\<lambda>b. b\<lparr>magic := HEAP_MAGIC, used := 1,
                   next_off := mem_size_aligned h + SIZEOF_STRUCT_MEM,
                   prev_off := mem_size_aligned h + SIZEOF_STRUCT_MEM\<rparr>) h in
         Some (h\<lparr>heap_sem := 1, lfree := 0\<rparr>))
      else Some h
     })"

text \<open>The search loop of \<open>rt_malloc\<close> leaves with the first block that is large enough or with none,
  the loop after it with the first free block from \<open>p\<close> on.\<close>

partial_function (option) find_fit :: "heap \<Rightarrow> u32 \<Rightarrow> u32 \<Rightarrow> u32 option option" where
  "find_fit h sz ptr =
     (if ptr < mem_size_aligned h - sz then
        (let mem = blk h ptr in
         if used mem = 0 \<and> next_off mem - (ptr + SIZEOF_STRUCT_MEM) \<ge> sz then Some (Some ptr)
         else find_fit h sz (next_off mem))
      else Some None)"

partial_function (option) next_free :: "heap \<Rightarrow> u32 \<Rightarrow> u32 option" where
  "next_free h p =
     (if used (blk h p) \<noteq> 0 \<and> p \<noteq> heap_end h then next_free h (next_off (blk h p)) else Some p)"

text \<open>What \<open>rt_malloc\<close> does with the block it found: it splits off what is not needed where that
  makes a block, and marks the block used.\<close>

definition use_block :: "u32 \<Rightarrow> u32 \<Rightarrow> heap \<Rightarrow> heap" where
  "use_block ptr sz h =
     (let h =
        (if next_off (blk h ptr) - (ptr + SIZEOF_STRUCT_MEM) \<ge> sz + SIZEOF_STRUCT_MEM + MIN_SIZE_ALIGNED then
           (let ptr2 = ptr + SIZEOF_STRUCT_MEM + sz;
                h = upd_blk ptr2 (\<lambda>b. b\<lparr>magic := HEAP_MAGIC, used := 0, next_off := next_off (blk h ptr),
                      prev_off := ptr\<rparr>) h;
                h = upd_blk ptr (\<lambda>b. b\<lparr>next_off := ptr2, used := 1\<rparr>) h;
                h = (if next_off (blk h ptr2) \<noteq> mem_size_aligned h + SIZEOF_STRUCT_MEM
                     then upd_blk (next_off (blk h ptr2)) (\<lambda>b. b\<lparr>prev_off := ptr2\<rparr>) h else h) in
            heap_max (h\<lparr>used_mem := used_mem h + (sz + SIZEOF_STRUCT_MEM)\<rparr>))
         else
           (let h = upd_blk ptr (\<lambda>b. b\<lparr>used := 1\<rparr>) h in
            heap_max (h\<lparr>used_mem := used_mem h + (next_off (blk h ptr) - ptr)\<rparr>))) in
      upd_blk ptr (\<lambda>b. b\<lparr>magic := HEAP_MAGIC\<rparr>) h)"

definition rt_malloc :: "u32 \<Rightarrow> heap \<Rightarrow> (u32 \<times> heap) option" where
  "rt_malloc sz h =
     (if sz = 0 then Some (0, h) else do {
      rt_assert (irq_nest h = 0);
      let sz = rt_align sz;
      if sz > mem_size_aligned h then Some (0, h) else do {
      let sz = (if sz < MIN_SIZE_ALIGNED then MIN_SIZE_ALIGNED else sz);
      h \<leftarrow> heap_lock h;
      found \<leftarrow> find_fit h sz (lfree h);
      case found of
        None \<Rightarrow> Some (0, heap_unlock h)
      | Some ptr \<Rightarrow> do {
          let h = use_block ptr sz h;
          h \<leftarrow> (if ptr = lfree h then do {
                  p \<leftarrow> next_free h (lfree h);
                  rt_assert (p = heap_end h \<or> used (blk h p) = 0);
                  Some (h\<lparr>lfree := p\<rparr>)
                } else Some h);
          let h = heap_unlock h;
          let mem = heap_ptr h + ptr;
          rt_assert (mem + SIZEOF_STRUCT_MEM + sz \<le> heap_ptr h + heap_end h);
          rt_assert ((mem + SIZEOF_STRUCT_MEM) mod 4 = 0);
          rt_assert (mem AND (4 - 1) = 0);
          Some (mem + SIZEOF_STRUCT_MEM, h)
        }
      }
     })"

definition rt_free :: "u32 \<Rightarrow> heap \<Rightarrow> heap option" where
  "rt_free rmem h =
     (if rmem = 0 then Some h else do {
      rt_assert (irq_nest h = 0);
      rt_assert (rmem AND (4 - 1) = 0);
      rt_assert (rmem \<ge> heap_ptr h \<and> rmem < heap_ptr h + heap_end h);
      if rmem < heap_ptr h \<or> rmem \<ge> heap_ptr h + heap_end h then Some h else do {
      let mem = rmem - SIZEOF_STRUCT_MEM - heap_ptr h;
      h \<leftarrow> heap_lock h;
      rt_assert (used (blk h mem) \<noteq> 0);
      rt_assert (magic (blk h mem) = HEAP_MAGIC);
      let h = upd_blk mem (\<lambda>b. b\<lparr>used := 0, magic := HEAP_MAGIC\<rparr>) h;
      let h = (if mem < lfree h then h\<lparr>lfree := mem\<rparr> else h);
      let h = h\<lparr>used_mem := used_mem h - (next_off (blk h mem) - mem)\<rparr>;
      h \<leftarrow> plug_holes mem h;
      Some (heap_unlock h)
      }
     })"

text \<open>The branch of \<open>rt_realloc\<close> that cuts the end off a block.\<close>

definition shrink_block :: "u32 \<Rightarrow> u32 \<Rightarrow> u32 \<Rightarrow> heap \<Rightarrow> heap option" where
  "shrink_block ptr sz newsize h = do {
     let h = h\<lparr>used_mem := used_mem h - (sz - newsize)\<rparr>;
     let ptr2 = ptr + SIZEOF_STRUCT_MEM + newsize;
     let h = upd_blk ptr2 (\<lambda>b. b\<lparr>magic := HEAP_MAGIC, used := 0, next_off := next_off (blk h ptr),
                             prev_off := ptr\<rparr>) h;
     let h = upd_blk ptr (\<lambda>b. b\<lparr>next_off := ptr2\<rparr>) h;
     let h = (if next_off (blk h ptr2) \<noteq> mem_size_aligned h + SIZEOF_STRUCT_MEM
              then upd_blk (next_off (blk h ptr2)) (\<lambda>b. b\<lparr>prev_off := ptr2\<rparr>) h else h);
     let h = (if ptr2 < lfree h then h\<lparr>lfree := ptr2\<rparr> else h);
     plug_holes ptr2 h
   }"

definition rt_realloc :: "u32 \<Rightarrow> u32 \<Rightarrow> heap \<Rightarrow> (u32 \<times> heap) option" where
  "rt_realloc rmem newsize h = do {
     rt_assert (irq_nest h = 0);
     let newsize = rt_align newsize;
     if newsize > mem_size_aligned h then Some (0, h)
     else if newsize = 0 then do { h \<leftarrow> rt_free rmem h; Some (0, h) }
     else if rmem = 0 then rt_malloc newsize h
     else do {
       h \<leftarrow> heap_lock h;
       if rmem < heap_ptr h \<or> rmem \<ge> heap_ptr h + heap_end h then Some (rmem, heap_unlock h)
       else do {
         let ptr = rmem - SIZEOF_STRUCT_MEM - heap_ptr h;
         let sz = next_off (blk h ptr) - ptr - SIZEOF_STRUCT_MEM;
         if sz = newsize then Some (rmem, heap_unlock h)
         else if newsize + SIZEOF_STRUCT_MEM + 12 < sz then do {
           h \<leftarrow> shrink_block ptr sz newsize h;
           Some (rmem, heap_unlock h)
         } else do {
           let h = heap_unlock h;
           (nmem, h) \<leftarrow> rt_malloc newsize h;
           if nmem \<noteq> 0 then do {
             m \<leftarrow> rt_memcpy (unat nmem) (unat rmem) (unat (if sz < newsize then sz else newsize)) (bytes h);
             h \<leftarrow> rt_free rmem (h\<lparr>bytes := m\<rparr>);
             Some (nmem, h)
           } else Some (nmem, h)
         }
       }
     }
   }"

definition rt_calloc :: "u32 \<Rightarrow> u32 \<Rightarrow> heap \<Rightarrow> (u32 \<times> heap) option" where
  "rt_calloc count sz h = do {
     (p, h) \<leftarrow> rt_malloc (count * sz) h;
     if p \<noteq> 0 then do {
       m \<leftarrow> rt_memset (unat p) 0 (unat (count * sz)) (bytes h);
       Some (p, h\<lparr>bytes := m\<rparr>)
     } else Some (p, h)
   }"

definition rt_memory_info :: "heap \<Rightarrow> u32 \<times> u32 \<times> u32" where
  "rt_memory_info h = (mem_size_aligned h, used_mem h, max_mem h)"

section \<open>Sizes and alignment\<close>

lemma unat_add32: "unat a + unat b < 2 ^ 32 \<Longrightarrow> unat (a + b) = unat a + unat b" for a b :: u32
  using unat_add_lem [of a b] by simp

lemma unat_diff32: "unat b \<le> unat a \<Longrightarrow> unat (a - b) = unat a - unat b" for a b :: u32
  by (simp add: unat_sub word_le_nat_alt)

lemma unat_lt32: "unat a < 2 ^ 32" for a :: u32
  using unsigned_less [of a, where ?'a = nat] by simp

text \<open>Rounding up adds less than 4, unless the sum leaves the 32 bits.\<close>

lemma unat_mask_out: "unat (x AND NOT 3) = unat x - unat x mod 4" for x :: u32
proof -
  have "x AND NOT 3 = x AND NOT (mask 2)" by (simp add: mask_eq_exp_minus_1)
  have "(x AND NOT (mask 2)) AND (x AND mask 2) = 0" by (auto simp: bit_eq_iff bit_simps)
  then have "(x AND NOT (mask 2)) + take_bit 2 x = (x AND NOT (mask 2)) OR (x AND mask 2)"
    by (simp add: disjunctive_add_eq_or take_bit_eq_mask)
  also have "\<dots> = x" by (auto simp: bit_eq_iff bit_simps)
  finally have "x AND NOT 3 = x - take_bit 2 x" by (simp add: mask_eq_exp_minus_1 algebra_simps)
  moreover have "unat (take_bit 2 x) = take_bit 2 (unat x)" by (simp only: unsigned_take_bit_eq)
  ultimately show ?thesis by (simp only: unat_diff32 take_bit_eq_mod) (simp add: unat_diff32)
qed

lemma rt_align_mod: "unat (rt_align n) = unat (n + 3) - unat (n + 3) mod 4"
  using unat_mask_out [of "n + 3"] by (simp add: rt_align_def add.commute)

lemma rt_align_nat:
  assumes "unat n + 3 < 2 ^ 32"
  shows "unat (rt_align n) = (unat n + 3) div 4 * 4"
proof -
  have "unat (n + 3) = unat n + 3" using unat_add32 [of n 3] assms by simp
  then show ?thesis by (simp add: rt_align_mod minus_mod_eq_div_mult [symmetric])
qed

lemma rt_align_props:
  assumes "unat n + 3 < 2 ^ 32"
  shows "unat n \<le> unat (rt_align n)" "unat (rt_align n) < unat n + 4" "4 dvd unat (rt_align n)"
  unfolding rt_align_nat [OF assms] by presburger+

lemma rt_align_wraps: "2 ^ 32 \<le> unat n + 3 \<Longrightarrow> rt_align n = 0"
proof -
  assume n: "2 ^ 32 \<le> unat n + 3"
  have "unat (n + 3) = (unat n + 3) mod 2 ^ 32" by (simp add: unat_word_ariths)
  also have "\<dots> = unat n + 3 - 2 ^ 32" using n unat_lt32 [of n] by (simp add: le_mod_geq)
  finally have "unat (n + 3) < 4" using unat_lt32 [of n] by simp
  then have "unat (rt_align n) = 0" by (simp add: rt_align_mod)
  then show ?thesis by (simp add: unat_eq_0)
qed

section \<open>The blocks of a heap\<close>

text \<open>\<open>walk\<close> follows the \<open>next\<close> offsets from a block to the end; every step advances, so as many steps
  as the area has bytes are enough.\<close>

fun walk :: "(u32 \<Rightarrow> heap_mem) \<Rightarrow> u32 \<Rightarrow> nat \<Rightarrow> u32 \<Rightarrow> u32 list" where
  "walk H e 0 b = []"
| "walk H e (Suc n) b = (if b = e then [] else b # walk H e n (next_off (H b)))"

definition heap_blocks :: "heap \<Rightarrow> u32 list" where
  "heap_blocks h = walk (blk h) (heap_end h) (unat (heap_end h)) 0"

text \<open>\<open>blocks_chain H p bs e\<close>: the blocks \<open>bs\<close> follow each other up to \<open>e\<close>, \<open>p\<close> being what the first one has
  for its predecessor.\<close>

fun blocks_chain :: "(u32 \<Rightarrow> heap_mem) \<Rightarrow> u32 \<Rightarrow> u32 list \<Rightarrow> u32 \<Rightarrow> bool" where
  "blocks_chain H p [] e \<longleftrightarrow> True"
| "blocks_chain H p (b # bs) e \<longleftrightarrow>
     prev_off (H b) = p \<and> next_off (H b) = hd (bs @ [e]) \<and> magic (H b) = HEAP_MAGIC \<and>
     unat b + 16 \<le> unat (next_off (H b)) \<and> 4 dvd unat b \<and> blocks_chain H b bs e"

lemma blocks_chain_append:
  "blocks_chain H p (xs @ b # ys) e \<longleftrightarrow> blocks_chain H p xs b \<and> blocks_chain H (last (p # xs)) (b # ys) e"
  by (induction xs arbitrary: p) (auto simp: hd_append split: list.splits)

lemma blocks_chain_cong:
  "(\<And>x. x \<in> set bs \<Longrightarrow> prev_off (H' x) = prev_off (H x) \<and> next_off (H' x) = next_off (H x) \<and>
      magic (H' x) = magic (H x)) \<Longrightarrow> blocks_chain H' p bs e = blocks_chain H p bs e"
  by (induction bs arbitrary: p) auto

lemma blocks_chain_length: "blocks_chain H p bs e \<Longrightarrow> bs \<noteq> [] \<Longrightarrow> 16 * length bs + unat (hd bs) \<le> unat e"
proof (induction bs arbitrary: p)
  case (Cons b bs)
  then show ?case by (cases "bs = []") force+
qed simp

lemma blocks_chain_le: "blocks_chain H p bs e \<Longrightarrow> bs \<noteq> [] \<Longrightarrow> unat (hd bs) + 16 \<le> unat e"
  using blocks_chain_length [of H p bs e] by (cases bs) auto

lemma blocks_chain_below: "blocks_chain H p bs e \<Longrightarrow> x \<in> set bs \<Longrightarrow> unat x + 16 \<le> unat e"
  by (induction bs arbitrary: p)
    (auto dest: blocks_chain_le [of _ _ "_ # _"] simp del: blocks_chain.simps, metis blocks_chain.simps(2))

lemma blocks_chain_above: "blocks_chain H p (b # bs) e \<Longrightarrow> x \<in> set bs \<Longrightarrow> unat (next_off (H b)) \<le> unat x"
proof (induction bs arbitrary: p b)
  case (Cons c bs)
  show ?case
  proof (cases "x = c")
    case False
    then have "unat (next_off (H c)) \<le> unat x" using Cons by auto
    moreover have "unat c + 16 \<le> unat (next_off (H c))" "next_off (H b) = c" using Cons.prems by auto
    ultimately show ?thesis by simp
  qed (use Cons in simp)
qed simp

lemma blocks_chain_distinct: "blocks_chain H p bs e \<Longrightarrow> distinct bs"
proof (induction bs arbitrary: p)
  case (Cons b bs)
  have "unat (next_off (H b)) \<le> unat x" if "x \<in> set bs" for x using blocks_chain_above [OF Cons.prems that] .
  then show ?case using Cons by fastforce
qed simp

lemma walk_chain:
  "blocks_chain H p bs e \<Longrightarrow> length bs \<le> n \<Longrightarrow> bs \<noteq> [] \<Longrightarrow> walk H e n (hd bs) = bs"
proof (induction bs arbitrary: p n)
  case (Cons b bs)
  then obtain m where n: "n = Suc m" "length bs \<le> m" by (cases n) auto
  have "b \<noteq> e" using blocks_chain_below [OF Cons.prems(1), of b] by auto
  moreover have "walk H e m (next_off (H b)) = bs"
  proof (cases "bs = []")
    case True
    then show ?thesis using Cons.prems by (cases m) auto
  next
    case False
    then show ?thesis using Cons n by auto
  qed
  ultimately show ?case using n by simp
qed simp

text \<open>Where a block \<open>b\<close> is in the middle, its header says where the neighbours are, and the others
  lie on the two sides.\<close>

lemma blocks_chain_mid:
  assumes "blocks_chain H p (xs @ b # ys) e"
  shows "blocks_chain H p xs b" "blocks_chain H b ys e" "prev_off (H b) = last (p # xs)" "next_off (H b) = hd (ys @ [e])"
    "magic (H b) = HEAP_MAGIC" "unat b + 16 \<le> unat (next_off (H b))" "4 dvd unat b"
    "unat (next_off (H b)) \<le> unat e"
    "\<And>x. x \<in> set xs \<Longrightarrow> unat x + 16 \<le> unat b"
    "\<And>x. x \<in> set ys \<Longrightarrow> unat (next_off (H b)) \<le> unat x"
proof -
  have c: "blocks_chain H p xs b" "blocks_chain H (last (p # xs)) (b # ys) e" using assms blocks_chain_append by blast+
  then show "blocks_chain H p xs b" "blocks_chain H b ys e" "prev_off (H b) = last (p # xs)"
    "next_off (H b) = hd (ys @ [e])" "magic (H b) = HEAP_MAGIC" "unat b + 16 \<le> unat (next_off (H b))"
    "4 dvd unat b" by (auto simp only: blocks_chain.simps)
  then show "unat (next_off (H b)) \<le> unat e" using blocks_chain_le [of H b ys e] by (cases ys) auto
  show "unat x + 16 \<le> unat b" if "x \<in> set xs" for x using blocks_chain_below [OF c(1) that] .
  show "unat (next_off (H b)) \<le> unat x" if "x \<in> set ys" for x using blocks_chain_above [OF c(2) that] .
qed

lemmas blocks_chain_head = blocks_chain_mid [where xs = "[]", unfolded append_Nil]

lemma blocks_chain_hd_least: "blocks_chain H p bs e \<Longrightarrow> x \<in> set bs \<Longrightarrow> unat (hd bs) \<le> unat x"
  using blocks_chain_head(6,10) by (cases bs) (fastforce simp del: blocks_chain.simps dest: add_leD1)+

section \<open>The invariant\<close>

text \<open>No two neighbours are free, \<open>lfree\<close> is the first free block (or the end), and the extents of
  the used blocks, from header to end, are what the statistics count.\<close>

definition coalesced :: "(u32 \<Rightarrow> heap_mem) \<Rightarrow> u32 list \<Rightarrow> bool" where
  "coalesced H bs \<longleftrightarrow> successively (\<lambda>a b. used (H a) \<noteq> 0 \<or> used (H b) \<noteq> 0) bs"

definition first_free :: "(u32 \<Rightarrow> heap_mem) \<Rightarrow> u32 list \<Rightarrow> u32 \<Rightarrow> u32" where
  "first_free H bs e = hd (filter (\<lambda>b. used (H b) = 0) bs @ [e])"

definition extents :: "(u32 \<Rightarrow> heap_mem) \<Rightarrow> u32 list \<Rightarrow> (u32 \<times> u32) list" where
  "extents H bs = map (\<lambda>b. (b, next_off (H b))) (filter (\<lambda>b. used (H b) \<noteq> 0) bs)"

definition total_size :: "(u32 \<times> u32) list \<Rightarrow> nat" where
  "total_size es = sum_list (map (\<lambda>(b, n). unat n - unat b) es)"

definition area_ok :: "heap \<Rightarrow> bool" where
  "area_ok h \<longleftrightarrow> heap_end h = mem_size_aligned h + SIZEOF_STRUCT_MEM \<and> 12 \<le> unat (mem_size_aligned h) \<and>
     4 dvd unat (mem_size_aligned h) \<and> 4 dvd unat (heap_ptr h) \<and>
     unat (heap_ptr h) + unat (mem_size_aligned h) + 24 < 2 ^ 32 \<and> used (blk h (heap_end h)) \<noteq> 0 \<and>
     alloc (unat (heap_ptr h)) (unat (mem_size_aligned h) + 24) (bytes h)"

definition blocks_ok :: "heap \<Rightarrow> u32 list \<Rightarrow> bool" where
  "blocks_ok h bs \<longleftrightarrow> blocks_chain (blk h) 0 bs (heap_end h) \<and> bs \<noteq> [] \<and> hd bs = 0 \<and> coalesced (blk h) bs \<and>
     lfree h = first_free (blk h) bs (heap_end h) \<and> unat (used_mem h) = total_size (extents (blk h) bs) \<and>
     used_mem h \<le> max_mem h"

definition heap_inv :: "heap \<Rightarrow> bool" where
  "heap_inv h \<longleftrightarrow> area_ok h \<and> blocks_ok h (heap_blocks h) \<and> heap_sem h = 1"

text \<open>What the clients of the heap hold: the extents of the used blocks.\<close>

definition live :: "heap \<Rightarrow> (u32 \<times> u32) list" where
  "live h = extents (blk h) (heap_blocks h)"

lemma heap_frame [simp]:
  "area_ok (h\<lparr>heap_sem := v\<rparr>) = area_ok h" "blocks_ok (h\<lparr>heap_sem := v\<rparr>) bs = blocks_ok h bs"
  "heap_blocks (h\<lparr>heap_sem := v\<rparr>) = heap_blocks h" "live (h\<lparr>heap_sem := v\<rparr>) = live h"
  by (simp_all add: area_ok_def blocks_ok_def heap_blocks_def live_def)

lemma unlock_frame [simp]:
  "area_ok (heap_unlock h) = area_ok h" "blocks_ok (heap_unlock h) bs = blocks_ok h bs"
  "heap_blocks (heap_unlock h) = heap_blocks h" "live (heap_unlock h) = live h"
  "heap_sem (heap_unlock h) = Suc (heap_sem h)" "blk (heap_unlock h) = blk h" "bytes (heap_unlock h) = bytes h"
  "heap_ptr (heap_unlock h) = heap_ptr h" "heap_end (heap_unlock h) = heap_end h"
  "irq_nest (heap_unlock h) = irq_nest h" "mem_size_aligned (heap_unlock h) = mem_size_aligned h"
  "used_mem (heap_unlock h) = used_mem h" "max_mem (heap_unlock h) = max_mem h" "lfree (heap_unlock h) = lfree h"
  by (simp_all add: heap_unlock_def)

lemma heap_blocks_eq:
  assumes "blocks_chain (blk h) 0 bs (heap_end h)" "bs \<noteq> []" "hd bs = 0"
  shows "heap_blocks h = bs"
  using walk_chain [OF assms(1) _ assms(2), of "unat (heap_end h)"] blocks_chain_length [OF assms(1,2)] assms(3)
  by (simp add: heap_blocks_def)

lemma heap_invI:
  assumes "area_ok h" "blocks_ok h bs" "heap_sem h = 1"
  shows "heap_inv h" "heap_blocks h = bs" "live h = extents (blk h) bs"
  using assms heap_blocks_eq [of h bs] by (simp_all add: heap_inv_def live_def blocks_ok_def)

lemma used_mem_live: "heap_inv h \<Longrightarrow> unat (used_mem h) = total_size (live h)"
  by (simp add: heap_inv_def blocks_ok_def live_def)

lemma area_used: "area_ok h \<Longrightarrow> used (blk h (heap_end h)) \<noteq> 0"
  unfolding area_ok_def by blast

lemma area_move:
  "area_ok h \<Longrightarrow> used (blk h' (heap_end h)) \<noteq> 0 \<Longrightarrow> heap_end h' = heap_end h \<Longrightarrow> heap_ptr h' = heap_ptr h \<Longrightarrow>
   mem_size_aligned h' = mem_size_aligned h \<Longrightarrow> bytes h' = bytes h \<Longrightarrow> area_ok h'"
  by (simp only: area_ok_def) blast

lemma area_nat:
  assumes "area_ok h"
  shows "unat (heap_end h) = unat (mem_size_aligned h) + 12"
    "unat (heap_ptr h) + unat (heap_end h) + 12 < 2 ^ 32"
proof -
  have "unat (mem_size_aligned h + 12) = unat (mem_size_aligned h) + unat (12 :: u32)"
    using assms by (intro unat_add32) (simp add: area_ok_def)
  then show "unat (heap_end h) = unat (mem_size_aligned h) + 12" using assms by (simp add: area_ok_def)
  then show "unat (heap_ptr h) + unat (heap_end h) + 12 < 2 ^ 32" using assms by (simp add: area_ok_def)
qed

section \<open>Joining neighbours\<close>

text \<open>Both halves of \<open>plug_holes\<close> join a free block with the free block behind it.\<close>

definition join_hdr :: "u32 \<Rightarrow> u32 \<Rightarrow> (u32 \<Rightarrow> heap_mem) \<Rightarrow> u32 \<Rightarrow> heap_mem" where
  "join_hdr p n H =
     (let H = H(p := (H p)\<lparr>next_off := next_off (H n)\<rparr>) in
      H(next_off (H n) := (H (next_off (H n)))\<lparr>prev_off := p\<rparr>))"

lemma join_sel [simp]:
  "used (join_hdr p n H x) = used (H x)" "magic (join_hdr p n H x) = magic (H x)"
  "n \<noteq> p \<Longrightarrow> next_off (join_hdr p n H x) = (if x = p then next_off (H n) else next_off (H x))"
  "n \<noteq> p \<Longrightarrow> prev_off (join_hdr p n H x) = (if x = next_off (H n) then p else prev_off (H x))"
  by (auto simp: join_hdr_def Let_def)

lemma join_chain:
  assumes c: "blocks_chain H p (xs @ a # b # ys) e"
  shows "blocks_chain (join_hdr a b H) p (xs @ a # ys) e" "a \<noteq> b"
proof -
  note ma = blocks_chain_mid [OF c]
  have cb: "blocks_chain H p ((xs @ [a]) @ b # ys) e" using c by simp
  note mb = blocks_chain_mid [OF cb]
  show ab: "a \<noteq> b" using mb(9) [of a] by auto
  let ?J = "join_hdr a b H"
  have n: "unat a + 32 \<le> unat (next_off (H b))" using ma(4,6) mb(6) by simp
  have xs: "blocks_chain ?J p xs a"
  proof (subst blocks_chain_cong [where H = H])
    fix x assume "x \<in> set xs"
    then have "unat x + 16 \<le> unat a" by (rule ma(9))
    then show "prev_off (?J x) = prev_off (H x) \<and> next_off (?J x) = next_off (H x) \<and> magic (?J x) = magic (H x)"
      using n ab by auto
  qed (rule ma(1))
  have ys: "blocks_chain ?J a ys e"
  proof (cases ys)
    case (Cons y zs)
    have y: "next_off (H b) = y" using mb(4) Cons by simp
    have "blocks_chain H y zs e" "unat y + 16 \<le> unat (next_off (H y))" using mb(2) Cons by auto
    moreover have "unat (next_off (H y)) \<le> unat z" if "z \<in> set zs" for z
      using blocks_chain_above mb(2) Cons that by blast
    ultimately have "blocks_chain ?J y zs e = blocks_chain H y zs e" using n y ab by (intro blocks_chain_cong) force
    then show ?thesis using mb(2) Cons y n ab by auto
  qed simp
  have "a \<noteq> next_off (H b)" using n by auto
  then have "blocks_chain ?J (last (p # xs)) (a # ys) e" using ma ab mb(4) n ys by (auto simp del: last.simps)
  with xs show "blocks_chain ?J p (xs @ a # ys) e" by (simp only: blocks_chain_append)
qed

lemma join_keeps:
  assumes "blocks_chain H p (xs @ a # b # ys) e" "used (H a) = 0" "used (H b) = 0"
  shows "extents (join_hdr a b H) (xs @ a # ys) = extents H (xs @ a # b # ys)"
    "first_free (join_hdr a b H) (xs @ a # ys) e = first_free H (xs @ a # b # ys) e"
    "coalesced H (xs @ [a]) \<Longrightarrow> coalesced H ys \<Longrightarrow> (ys \<noteq> [] \<Longrightarrow> used (H (hd ys)) \<noteq> 0) \<Longrightarrow>
       coalesced (join_hdr a b H) (xs @ a # ys)"
proof -
  have ab: "b \<noteq> a" using join_chain(2) [OF assms(1)] by simp
  show "extents (join_hdr a b H) (xs @ a # ys) = extents H (xs @ a # b # ys)"
    using assms(2,3) ab by (simp add: extents_def)
  show "first_free (join_hdr a b H) (xs @ a # ys) e = first_free H (xs @ a # b # ys) e"
    using assms(2,3) by (simp add: first_free_def hd_append)
  show "coalesced (join_hdr a b H) (xs @ a # ys)"
    if "coalesced H (xs @ [a])" "coalesced H ys" "ys \<noteq> [] \<Longrightarrow> used (H (hd ys)) \<noteq> 0"
    using that by (auto simp: coalesced_def successively_append_iff successively_Cons)
qed

text \<open>Under the invariant both halves only join neighbours, where the next one is free; the tests on \<open>lfree\<close>
  never find anything to repair.\<close>

lemma first_free_below:
  assumes "blocks_chain H p (xs @ b # ys) e" "used (H b) = 0"
  shows "unat (first_free H (xs @ b # ys) e) \<le> unat b" "used (H (first_free H (xs @ b # ys) e)) = 0"
proof -
  let ?f = "filter (\<lambda>x. used (H x) = 0) xs"
  have *: "first_free H (xs @ b # ys) e = (if ?f = [] then b else hd ?f)"
    using assms(2) by (simp add: first_free_def hd_append)
  have "hd ?f \<in> set xs \<and> used (H (hd ?f)) = 0" if "?f \<noteq> []"
    using hd_in_set [OF that] by simp
  then show "unat (first_free H (xs @ b # ys) e) \<le> unat b" "used (H (first_free H (xs @ b # ys) e)) = 0"
    using blocks_chain_mid(9) [OF assms(1)] assms(2) unfolding * by (auto split: if_splits dest: add_leD1)
qed

lemma plug_next_eq:
  assumes c: "blocks_chain (blk h) 0 (xs @ b # ys) (heap_end h)" and b: "used (blk h b) = 0"
    and e: "used (blk h (heap_end h)) \<noteq> 0" and lf: "unat (lfree h) \<le> unat b"
  shows "plug_next b h =
    (if ys \<noteq> [] \<and> used (blk h (hd ys)) = 0 then h\<lparr>blk := join_hdr b (hd ys) (blk h)\<rparr> else h)"
proof (cases ys)
  case Nil
  then show ?thesis using blocks_chain_mid(4) [OF c] e by (simp add: plug_next_def Let_def)
next
  case (Cons y zs)
  note m = blocks_chain_mid [OF c]
  have n: "next_off (blk h b) = y" "unat b + 16 \<le> unat y" using m(4,6) Cons by simp_all
  then have "b \<noteq> y" "lfree h \<noteq> y" using lf by auto
  moreover have "y \<noteq> heap_end h" using blocks_chain_below [OF m(2), of y] Cons by auto
  ultimately show ?thesis using n(1) Cons by (auto simp: plug_next_def upd_blk_def join_hdr_def Let_def)
qed

lemma plug_prev_eq:
  assumes c: "blocks_chain (blk h) 0 (xs @ b # ys) (heap_end h)" and hd: "hd (xs @ b # ys) = 0"
    and lf: "xs \<noteq> [] \<Longrightarrow> used (blk h (last xs)) = 0 \<Longrightarrow> lfree h \<noteq> b"
  shows "plug_prev b h =
    (if xs \<noteq> [] \<and> used (blk h (last xs)) = 0 then h\<lparr>blk := join_hdr (last xs) b (blk h)\<rparr> else h)"
proof (cases "xs = []")
  case True
  then show ?thesis using blocks_chain_mid(3) [OF c] hd by (simp add: plug_prev_def Let_def)
next
  case False
  note m = blocks_chain_mid [OF c]
  have p: "prev_off (blk h b) = last xs" using m(3) False by simp
  have "unat (last xs) + 16 \<le> unat b" using m(9) False by simp
  then have "last xs \<noteq> b" by auto
  then show ?thesis using p lf False by (auto simp: plug_prev_def upd_blk_def join_hdr_def Let_def)
qed

lemma coalesced_cong: "(\<And>x. used (H' x) = used (H x)) \<Longrightarrow> coalesced H' bs = coalesced H bs"
  by (simp add: coalesced_def)

text \<open>What is left of the blocks behind and before a block that has become free.\<close>

definition after_next :: "(u32 \<Rightarrow> heap_mem) \<Rightarrow> u32 list \<Rightarrow> u32 list" where
  "after_next H ys = (if ys \<noteq> [] \<and> used (H (hd ys)) = 0 then tl ys else ys)"

definition upto_prev :: "(u32 \<Rightarrow> heap_mem) \<Rightarrow> u32 list \<Rightarrow> u32 \<Rightarrow> u32 list" where
  "upto_prev H xs b = (if xs \<noteq> [] \<and> used (H (last xs)) = 0 then xs else xs @ [b])"

lemma after_next_used:
  assumes "coalesced H ys"
  shows "coalesced H (after_next H ys)" "after_next H ys \<noteq> [] \<Longrightarrow> used (H (hd (after_next H ys))) \<noteq> 0"
  using assms by (cases ys; auto simp: after_next_def coalesced_def successively_Cons)+

lemma plug_next_merges:
  assumes c: "blocks_chain (blk h) 0 (xs @ b # ys) (heap_end h)" and e: "used (blk h (heap_end h)) \<noteq> 0"
    and b: "used (blk h b) = 0" and lf: "lfree h = first_free (blk h) (xs @ b # ys) (heap_end h)"
  obtains H where "plug_next b h = h\<lparr>blk := H\<rparr>" "blocks_chain H 0 (xs @ b # after_next (blk h) ys) (heap_end h)"
    "extents H (xs @ b # after_next (blk h) ys) = extents (blk h) (xs @ b # ys)"
    "first_free H (xs @ b # after_next (blk h) ys) (heap_end h) = lfree h" "\<And>x. used (H x) = used (blk h x)"
proof (cases "ys \<noteq> [] \<and> used (blk h (hd ys)) = 0")
  case True
  then have ys: "ys = hd ys # after_next (blk h) ys" by (simp add: after_next_def)
  let ?H = "join_hdr b (hd ys) (blk h)" and ?zs = "after_next (blk h) ys"
  have c': "blocks_chain (blk h) 0 (xs @ b # hd ys # ?zs) (heap_end h)" using c ys by simp
  have "unat (lfree h) \<le> unat b" unfolding lf by (rule first_free_below [OF c b])
  then have "plug_next b h = h\<lparr>blk := ?H\<rparr>" using plug_next_eq [OF c b e] True by simp
  then show thesis using join_chain(1) [OF c'] join_keeps(1,2) [OF c' b] True lf ys by (intro that [of ?H]) auto
next
  case False
  have "unat (lfree h) \<le> unat b" unfolding lf by (rule first_free_below [OF c b])
  then have "plug_next b h = h" using plug_next_eq [OF c b e] False by auto
  moreover have "after_next (blk h) ys = ys" using False by (auto simp: after_next_def)
  ultimately show thesis using c lf by (intro that [of "blk h"]) simp_all
qed

lemma plug_prev_merges:
  assumes c: "blocks_chain (blk h) 0 (xs @ b # zs) (heap_end h)" and hd: "hd (xs @ b # zs) = 0"
    and b: "used (blk h b) = 0" and lf: "lfree h = first_free (blk h) (xs @ b # zs) (heap_end h)"
    and co: "coalesced (blk h) xs" "coalesced (blk h) zs" "zs \<noteq> [] \<Longrightarrow> used (blk h (List.hd zs)) \<noteq> 0"
  obtains H where "plug_prev b h = h\<lparr>blk := H\<rparr>" "blocks_chain H 0 (upto_prev (blk h) xs b @ zs) (heap_end h)"
    "extents H (upto_prev (blk h) xs b @ zs) = extents (blk h) (xs @ b # zs)"
    "first_free H (upto_prev (blk h) xs b @ zs) (heap_end h) = lfree h" "\<And>x. used (H x) = used (blk h x)"
    "coalesced H (upto_prev (blk h) xs b @ zs)"
proof (cases "xs \<noteq> [] \<and> used (blk h (last xs)) = 0")
  case True
  define ws a where "ws = butlast xs" and "a = last xs"
  have xs: "xs = ws @ [a]" using True by (simp add: ws_def a_def)
  let ?H = "join_hdr a b (blk h)"
  have a: "used (blk h a) = 0" using True by (simp add: a_def)
  have c': "blocks_chain (blk h) 0 (ws @ a # b # zs) (heap_end h)" using c xs by simp
  have "unat (lfree h) \<le> unat a" using first_free_below [OF c' a] lf xs by simp
  moreover have "unat a + 16 \<le> unat b" using blocks_chain_mid(9) [OF c, of a] xs by simp
  ultimately have "lfree h \<noteq> b" by auto
  then have "plug_prev b h = h\<lparr>blk := ?H\<rparr>" using plug_prev_eq [OF c hd] True by (simp add: a_def)
  then show thesis using join_chain(1) [OF c'] join_keeps [OF c' a b] True lf co xs
    by (intro that [of ?H]) (auto simp: upto_prev_def)
next
  case False
  then have "plug_prev b h = h" using plug_prev_eq [OF c hd] by auto
  moreover have u: "upto_prev (blk h) xs b = xs @ [b]" using False by (auto simp: upto_prev_def)
  moreover have "coalesced (blk h) (xs @ b # zs)"
    using co False by (auto simp: coalesced_def successively_append_iff successively_Cons)
  ultimately show thesis using c lf by (intro that [of "blk h"]) simp_all
qed

definition merged :: "(u32 \<Rightarrow> heap_mem) \<Rightarrow> u32 list \<Rightarrow> u32 \<Rightarrow> u32 list \<Rightarrow> u32 list" where
  "merged H xs b ys = upto_prev H xs b @ after_next H ys"

lemma plug_holes_merges:
  assumes c: "blocks_chain (blk h) 0 (xs @ b # ys) (heap_end h)" and hd: "hd (xs @ b # ys) = 0"
    and e: "used (blk h (heap_end h)) \<noteq> 0" and b: "used (blk h b) = 0"
    and lf: "lfree h = first_free (blk h) (xs @ b # ys) (heap_end h)"
    and co: "coalesced (blk h) xs" "coalesced (blk h) ys"
  obtains H where "plug_holes b h = Some (h\<lparr>blk := H\<rparr>)" "blocks_chain H 0 (merged (blk h) xs b ys) (heap_end h)"
    "hd (merged (blk h) xs b ys) = 0" "merged (blk h) xs b ys \<noteq> []"
    "coalesced H (merged (blk h) xs b ys)"
    "first_free H (merged (blk h) xs b ys) (heap_end h) = lfree h"
    "extents H (merged (blk h) xs b ys) = extents (blk h) (xs @ b # ys)"
    "\<And>x. used (H x) = used (blk h x)"
proof -
  let ?zs = "after_next (blk h) ys"
  obtain H1 where h1: "plug_next b h = h\<lparr>blk := H1\<rparr>" "blocks_chain H1 0 (xs @ b # ?zs) (heap_end h)"
    "extents H1 (xs @ b # ?zs) = extents (blk h) (xs @ b # ys)"
    "first_free H1 (xs @ b # ?zs) (heap_end h) = lfree h" "\<And>x. used (H1 x) = used (blk h x)"
    by (rule plug_next_merges [OF c e b lf]) (rule that)
  let ?h1 = "h\<lparr>blk := H1\<rparr>"
  have u: "upto_prev H1 xs b = upto_prev (blk h) xs b" by (simp add: upto_prev_def h1(5))
  have hd1: "List.hd (xs @ b # ?zs) = 0" using hd by (simp add: hd_append split: if_splits)
  have co1: "coalesced H1 xs" "coalesced H1 ?zs" "?zs \<noteq> [] \<Longrightarrow> used (H1 (List.hd ?zs)) \<noteq> 0"
    using co(1) after_next_used [OF co(2)] by (simp_all add: coalesced_cong [of H1, OF h1(5)] h1(5))
  obtain H where h2: "plug_prev b ?h1 = ?h1\<lparr>blk := H\<rparr>" "blocks_chain H 0 (upto_prev H1 xs b @ ?zs) (heap_end ?h1)"
    "extents H (upto_prev H1 xs b @ ?zs) = extents H1 (xs @ b # ?zs)"
    "first_free H (upto_prev H1 xs b @ ?zs) (heap_end ?h1) = lfree ?h1" "\<And>x. used (H x) = used (H1 x)"
    "coalesced H (upto_prev H1 xs b @ ?zs)"
    by (rule plug_prev_merges [of ?h1 xs b ?zs]) (use h1 b co1 hd1 in simp_all)
  have "b < heap_end h" using blocks_chain_below [OF c, of b] by (simp add: word_less_nat_alt)
  then have "plug_holes b h = Some (h\<lparr>blk := H\<rparr>)" using b h1(1) h2(1) by (simp add: plug_holes_def)
  moreover have "List.hd (merged (blk h) xs b ys) = 0" "merged (blk h) xs b ys \<noteq> []"
    using hd by (auto simp: merged_def upto_prev_def hd_append)
  ultimately show thesis using h1 h2 u by (intro that [of H]) (auto simp: merged_def)
qed

section \<open>Cutting a block in two\<close>

text \<open>What \<open>rt_malloc\<close> and \<open>rt_realloc\<close> do with the headers when they split a block.\<close>

definition cut_hdr :: "u32 \<Rightarrow> u32 \<Rightarrow> u32 \<Rightarrow> (u32 \<Rightarrow> heap_mem) \<Rightarrow> u32 \<Rightarrow> heap_mem" where
  "cut_hdr b c e H =
     (let H1 = H(c := (H c)\<lparr>magic := HEAP_MAGIC, used := 0, next_off := next_off (H b), prev_off := b\<rparr>);
          H2 = H1(b := (H1 b)\<lparr>next_off := c\<rparr>) in
      if next_off (H2 c) \<noteq> e then H2(next_off (H2 c) := (H2 (next_off (H2 c)))\<lparr>prev_off := c\<rparr>) else H2)"

lemma cut_sel:
  assumes "c \<noteq> b" "next_off (H b) \<noteq> b" "next_off (H b) \<noteq> c"
  shows "used (cut_hdr b c e H x) = (if x = c then 0 else used (H x))"
    "magic (cut_hdr b c e H x) = (if x = c then HEAP_MAGIC else magic (H x))"
    "next_off (cut_hdr b c e H x) = (if x = c then next_off (H b) else if x = b then c else next_off (H x))"
    "prev_off (cut_hdr b c e H x) =
       (if x = c then b else if x = next_off (H b) \<and> x \<noteq> e then c else prev_off (H x))"
  using assms by (auto simp: cut_hdr_def Let_def)

lemma cut_chain:
  assumes c: "blocks_chain H p (xs @ b # ys) e" and lo: "unat b + 16 \<le> unat c" and hi: "unat c + 16 \<le> unat (next_off (H b))"
    and al: "4 dvd unat c"
  shows "blocks_chain (cut_hdr b c e H) p (xs @ b # c # ys) e"
proof -
  note m = blocks_chain_mid [OF c]
  have ne: "c \<noteq> b" "next_off (H b) \<noteq> b" "next_off (H b) \<noteq> c" using lo hi by auto
  note s = cut_sel [where b = b and c = c and e = e and H = H, OF ne]
  have "blocks_chain (cut_hdr b c e H) p xs b"
  proof (subst blocks_chain_cong [where H = H])
    fix x assume "x \<in> set xs"
    then have "unat x + 16 \<le> unat b" by (rule m(9))
    then have "x \<noteq> b" "x \<noteq> c" "x \<noteq> next_off (H b)" using lo hi by auto
    then show "prev_off (cut_hdr b c e H x) = prev_off (H x) \<and> next_off (cut_hdr b c e H x) = next_off (H x) \<and>
        magic (cut_hdr b c e H x) = magic (H x)" by (simp add: s)
  qed (rule m(1))
  moreover have ys: "blocks_chain (cut_hdr b c e H) c ys e"
  proof (cases ys)
    case (Cons y zs)
    have y: "next_off (H b) = y" using m(4) Cons by simp
    have yz: "blocks_chain H y zs e" "unat y + 16 \<le> unat (next_off (H y))" using m(2) Cons by auto
    have "y \<noteq> e" using blocks_chain_below [OF m(2), of y] Cons by auto
    moreover have "unat (next_off (H y)) \<le> unat z" if "z \<in> set zs" for z
      using blocks_chain_above m(2) Cons that by blast
    then have "blocks_chain (cut_hdr b c e H) y zs e = blocks_chain H y zs e"
      using hi lo y yz(2) by (intro blocks_chain_cong) (force simp: s)
    ultimately show ?thesis using m(2) Cons y yz ne by (auto simp: s)
  qed simp
  moreover have "unat b + 16 \<le> unat c" by (rule lo)
  ultimately have "blocks_chain (cut_hdr b c e H) (last (p # xs)) (b # c # ys) e"
    using m ne hi al by (auto simp: s simp del: last.simps)
  with \<open>blocks_chain (cut_hdr b c e H) p xs b\<close> show ?thesis by (simp only: blocks_chain_append)
qed

lemma extents_append [simp]: "extents H (xs @ ys) = extents H xs @ extents H ys"
  by (simp add: extents_def)

lemma extents_Cons [simp]:
  "extents H (b # ys) = (if used (H b) \<noteq> 0 then (b, next_off (H b)) # extents H ys else extents H ys)"
  by (simp add: extents_def)

lemma extents_Nil [simp]: "extents H [] = []"
  by (simp add: extents_def)

lemma extents_cong:
  "(\<And>x. x \<in> set xs \<Longrightarrow> used (H' x) = used (H x) \<and> next_off (H' x) = next_off (H x)) \<Longrightarrow>
   extents H' xs = extents H xs"
  by (induction xs) auto

lemma total_simps [simp]: "total_size [] = 0" "total_size ((b, n) # es) = (unat n - unat b) + total_size es"
    "total_size (es @ fs) = total_size es + total_size fs"
  by (simp_all add: total_size_def)

text \<open>The used blocks never take more than the area, so the statistics cannot wrap.\<close>

lemma total_le: "blocks_chain H p bs e \<Longrightarrow> bs \<noteq> [] \<Longrightarrow> total_size (extents H bs) + unat (hd bs) \<le> unat e"
proof (induction bs arbitrary: p)
  case (Cons b bs)
  note b = blocks_chain_head [OF Cons.prems(1)]
  show ?case
  proof (cases "bs = []")
    case True
    then show ?thesis using b by auto
  next
    case False
    then have "total_size (extents H bs) + unat (hd bs) \<le> unat e" using Cons b(2) by blast
    moreover have "next_off (H b) = hd bs" using b(4) False by simp
    ultimately show ?thesis using b by auto
  qed
qed simp

section \<open>The search loops\<close>

text \<open>A block fits a request when it is free, large enough, and starts below the bound of the loop.\<close>

definition fits :: "heap \<Rightarrow> u32 \<Rightarrow> u32 \<Rightarrow> bool" where
  "fits h n b \<longleftrightarrow> used (blk h b) = 0 \<and> unat b + 12 + unat n \<le> unat (next_off (blk h b)) \<and>
     unat b + unat n < unat (mem_size_aligned h)"

lemma room_nat:
  fixes b n :: u32
  assumes "unat b + 16 \<le> unat n"
  shows "unat (n - (b + 12)) = unat n - unat b - 12" "unat (b + 12) = unat b + 12"
proof -
  have "unat b + 12 < 2 ^ 32" using assms unat_lt32 [of n] by linarith
  then show "unat (b + 12) = unat b + 12" using unat_add32 [of b 12] by simp
  then show "unat (n - (b + 12)) = unat n - unat b - 12" using assms by (simp add: unat_diff32)
qed

lemma find_fit_first:
  assumes a: "area_ok h" and n: "unat n \<le> unat (mem_size_aligned h)"
  shows "blocks_chain (blk h) p bs (heap_end h) \<Longrightarrow>
     find_fit h n (hd (bs @ [heap_end h])) = Some (find (fits h n) bs)"
proof (induction bs arbitrary: p)
  case Nil
  have "\<not> heap_end h < mem_size_aligned h - n"
    using area_nat(1) [OF a] n by (simp add: word_less_nat_alt unat_diff32)
  then show ?case by (simp add: find_fit.simps)
next
  case (Cons b bs)
  note m = blocks_chain_head [OF Cons.prems]
  have lt: "b < mem_size_aligned h - n \<longleftrightarrow> unat b + unat n < unat (mem_size_aligned h)"
    using n by (auto simp: word_less_nat_alt unat_diff32)
  show ?case
  proof (cases "b < mem_size_aligned h - n")
    case True
    have "n \<le> next_off (blk h b) - (b + 12) \<longleftrightarrow> unat b + 12 + unat n \<le> unat (next_off (blk h b))"
      using room_nat(1) [OF m(6)] m(6) by (simp add: word_le_nat_alt) linarith
    moreover have "find_fit h n (next_off (blk h b)) = Some (find (fits h n) bs)"
      using Cons.IH [OF m(2)] m(4) by simp
    moreover have "fits h n b \<longleftrightarrow> used (blk h b) = 0 \<and> unat b + 12 + unat n \<le> unat (next_off (blk h b))"
      using True lt by (simp add: fits_def)
    ultimately show ?thesis using True by (simp add: find_fit.simps [of h n b] Let_def)
  next
    case False
    have "\<not> fits h n x" if "x \<in> set (b # bs)" for x
    proof -
      have "unat b \<le> unat x" using that m(6) m(10) [of x] by auto
      then show ?thesis using False lt by (simp add: fits_def)
    qed
    then have "find (fits h n) (b # bs) = None" unfolding find_None_iff by blast
    then show ?thesis using False by (simp only: append_Cons list.sel(1)) (simp add: find_fit.simps [of h n b])
  qed
qed

lemma next_free_first:
  "blocks_chain (blk h) p bs (heap_end h) \<Longrightarrow>
     next_free h (hd (bs @ [heap_end h])) = Some (first_free (blk h) bs (heap_end h))"
proof (induction bs arbitrary: p)
  case Nil
  then show ?case by (simp add: next_free.simps first_free_def)
next
  case (Cons b bs)
  note m = blocks_chain_head [OF Cons.prems]
  have "b \<noteq> heap_end h" using m(6,8) by auto
  then show ?case using Cons.IH [OF m(2)] m(4) by (simp add: next_free.simps [of h b] first_free_def)
qed

text \<open>The search may start at \<open>lfree\<close>: the blocks before it are used.\<close>

lemma find_fit_lfree:
  assumes a: "area_ok h" and n: "unat n \<le> unat (mem_size_aligned h)" and c: "blocks_chain (blk h) 0 bs (heap_end h)"
    and lf: "lfree h = first_free (blk h) bs (heap_end h)"
  shows "find_fit h n (lfree h) = Some (find (fits h n) bs)"
proof -
  let ?u = "\<lambda>b. used (blk h b) \<noteq> 0"
  define xs ys where "xs = takeWhile ?u bs" and "ys = dropWhile ?u bs"
  have bs: "bs = xs @ ys" by (simp add: xs_def ys_def)
  have xs: "\<forall>x \<in> set xs. used (blk h x) \<noteq> 0" by (auto simp: xs_def dest: set_takeWhileD)
  have y: "ys \<noteq> [] \<Longrightarrow> used (blk h (hd ys)) = 0" using hd_dropWhile [of ?u bs] by (auto simp: ys_def)
  have "filter (\<lambda>b. used (blk h b) = 0) xs = []" using xs by (simp add: filter_empty_conv)
  then have lfree: "lfree h = hd (ys @ [heap_end h])" using y
    by (cases ys) (simp_all add: lf first_free_def bs)
  have none: "find (fits h n) bs = find (fits h n) ys"
    unfolding bs using xs by (induction xs) (auto simp: fits_def)
  show ?thesis
  proof (cases ys)
    case Nil
    then show ?thesis using find_fit_first [OF a n, of 0 "[]"] lfree none by simp
  next
    case (Cons z zs)
    then have "blocks_chain (blk h) (last (0 # xs)) ys (heap_end h)" using c bs by (simp only: blocks_chain_append)
    then show ?thesis using find_fit_first [OF a n] lfree none by simp
  qed
qed

section \<open>Allocation\<close>

definition take_hdr :: "u32 \<Rightarrow> (u32 \<Rightarrow> heap_mem) \<Rightarrow> u32 \<Rightarrow> heap_mem" where
  "take_hdr b H = H(b := (H b)\<lparr>magic := HEAP_MAGIC, used := 1\<rparr>)"

lemma take_hdr_sel [simp]:
  "used (take_hdr b H x) = (if x = b then 1 else used (H x))"
  "magic (take_hdr b H x) = (if x = b then HEAP_MAGIC else magic (H x))"
  "next_off (take_hdr b H x) = next_off (H x)" "prev_off (take_hdr b H x) = prev_off (H x)"
  by (simp_all add: take_hdr_def)

lemma blocks_chain_take_hdr: "blocks_chain H p bs e \<Longrightarrow> b \<in> set bs \<Longrightarrow> blocks_chain (take_hdr b H) p bs e"
proof -
  have *: "blocks_chain H q cs e \<Longrightarrow> x \<in> set cs \<Longrightarrow> magic (H x) = HEAP_MAGIC" for q cs x
    by (induction cs arbitrary: q) auto
  assume "blocks_chain H p bs e" "b \<in> set bs"
  then show ?thesis using * by (subst blocks_chain_cong [where H = H]) auto
qed

lemma upd_blk_sel [simp]:
  "heap_ptr (upd_blk b f h) = heap_ptr h" "heap_end (upd_blk b f h) = heap_end h"
  "lfree (upd_blk b f h) = lfree h" "mem_size_aligned (upd_blk b f h) = mem_size_aligned h"
  "used_mem (upd_blk b f h) = used_mem h" "max_mem (upd_blk b f h) = max_mem h"
  "blk (upd_blk b f h) = (blk h)(b := f (blk h b))"
  by (simp_all add: upd_blk_def)

lemma upd_blk_max:
  "upd_blk b f (heap_max (h\<lparr>used_mem := u\<rparr>)) =
     (upd_blk b f h)\<lparr>used_mem := u, max_mem := max (max_mem h) u\<rparr>"
  by (cases h) (auto simp add: heap_max_def max_def upd_blk_def)

lemma use_block_split:
  assumes "b + 12 + n \<noteq> b" "next_off (blk h b) \<noteq> b" "next_off (blk h b) \<noteq> b + 12 + n"
    and room: "n + 12 + 12 \<le> next_off (blk h b) - (b + 12)" and e: "heap_end h = mem_size_aligned h + 12"
  shows "use_block b n h = h\<lparr>blk := take_hdr b (cut_hdr b (b + 12 + n) (heap_end h) (blk h)),
      used_mem := used_mem h + (n + 12), max_mem := max (max_mem h) (used_mem h + (n + 12))\<rparr>"
proof -
  let ?c = "b + 12 + n" and ?y = "next_off (blk h b)"
  define h1 where "h1 = upd_blk ?c (\<lambda>c. c\<lparr>magic := HEAP_MAGIC, used := 0, next_off := ?y, prev_off := b\<rparr>) h"
  define h2 where "h2 = upd_blk b (\<lambda>b. b\<lparr>next_off := ?c, used := 1\<rparr>) h1"
  define h3 where "h3 = (if next_off (blk h2 ?c) \<noteq> mem_size_aligned h2 + 12
       then upd_blk (next_off (blk h2 ?c)) (\<lambda>b. b\<lparr>prev_off := ?c\<rparr>) h2 else h2)"
  have "upd_blk b (\<lambda>b. b\<lparr>magic := HEAP_MAGIC\<rparr>) h3 = h\<lparr>blk := take_hdr b (cut_hdr b ?c (heap_end h) (blk h))\<rparr>"
    using assms(1-3) unfolding h3_def h2_def h1_def
    by (auto simp: upd_blk_def cut_hdr_def take_hdr_def Let_def e fun_eq_iff intro!: heap.fold_congs)
  moreover have "used_mem h3 = used_mem h" "max_mem h3 = max_mem h" by (simp_all add: h3_def h2_def h1_def)
  moreover have "use_block b n h =
      upd_blk b (\<lambda>b. b\<lparr>magic := HEAP_MAGIC\<rparr>) (heap_max (h3\<lparr>used_mem := used_mem h3 + (n + 12)\<rparr>))"
    using room unfolding use_block_def Let_def h3_def h2_def h1_def by (simp only: if_True)
  ultimately show ?thesis by (simp only: upd_blk_max)
qed

lemma use_block_whole:
  assumes "\<not> n + 12 + 12 \<le> next_off (blk h b) - (b + 12)"
  shows "use_block b n h = h\<lparr>blk := take_hdr b (blk h), used_mem := used_mem h + (next_off (blk h b) - b),
      max_mem := max (max_mem h) (used_mem h + (next_off (blk h b) - b))\<rparr>"
  using assms by (simp add: use_block_def upd_blk_max Let_def)
    (cases "blk h b", simp add: upd_blk_def take_hdr_def)

lemma use_block_effect:
  assumes a: "area_ok h" and c: "blocks_chain (blk h) 0 (xs @ b # ys) (heap_end h)" and b: "used (blk h b) = 0"
    and n: "12 \<le> unat n" "4 dvd unat n" and fit: "unat b + 12 + unat n \<le> unat (next_off (blk h b))"
  obtains H where
    "use_block b n h = h\<lparr>blk := H, used_mem := used_mem h + (next_off (H b) - b),
       max_mem := max (max_mem h) (used_mem h + (next_off (H b) - b))\<rparr>"
    "blocks_chain H 0 (xs @ b # (if unat b + unat n + 36 \<le> unat (next_off (blk h b)) then [b + 12 + n] else []) @ ys)
       (heap_end h)"
    "used (H b) \<noteq> 0" "unat b + 12 + unat n \<le> unat (next_off (H b))"
    "unat b + unat n + 36 \<le> unat (next_off (blk h b)) \<Longrightarrow> used (H (b + 12 + n)) = 0"
    "\<And>x. x \<in> set xs \<union> set ys \<union> {heap_end h} \<Longrightarrow>
       used (H x) = used (blk h x) \<and> next_off (H x) = next_off (blk h x)"
proof -
  note m = blocks_chain_mid [OF c]
  let ?c = "b + 12 + n" and ?y = "next_off (blk h b)"
  note r = room_nat [OF m(6)]
  have cn: "unat ?c = unat b + 12 + unat n"
    using r(2) fit unat_lt32 [of ?y] unat_add32 [of "b + 12" n] by simp
  have "unat n + 24 < 2 ^ 32" using fit m(8) area_nat(1) [OF a] a by (simp add: area_ok_def)
  then have n24: "unat (n + 12 + 12) = unat n + 24" using unat_add32 [of n 24] by (simp add: add.assoc)
  have split: "n + 12 + 12 \<le> ?y - (b + 12) \<longleftrightarrow> unat b + unat n + 36 \<le> unat ?y"
    unfolding word_le_nat_alt r(1) n24 using fit by linarith
  have side: "x \<noteq> b" if "x \<in> set xs \<union> set ys \<union> {heap_end h}" for x
    using that m(6,8) m(9) [of x] m(10) [of x] by auto
  show thesis
  proof (cases "unat b + unat n + 36 \<le> unat ?y")
    case True
    then have "unat ?c \<noteq> unat b" "unat ?y \<noteq> unat b" "unat ?y \<noteq> unat ?c" using cn by linarith+
    then have ne: "?c \<noteq> b" "?y \<noteq> b" "?y \<noteq> ?c" by metis+
    note s = cut_sel [where b = b and c = ?c and e = "heap_end h" and H = "blk h", OF ne]
    let ?H = "take_hdr b (cut_hdr b ?c (heap_end h) (blk h))"
    have al: "4 dvd unat ?c" using cn n(2) m(7) by simp
    have "blocks_chain (cut_hdr b ?c (heap_end h) (blk h)) 0 (xs @ b # ?c # ys) (heap_end h)"
      using cut_chain [OF c _ _ al] cn n(1) True by simp
    then have ch: "blocks_chain ?H 0 (xs @ b # ?c # ys) (heap_end h)" by (rule blocks_chain_take_hdr) simp
    have nx: "next_off (?H b) = ?c" using ne by (simp add: s)
    then have len: "next_off (?H b) - b = n + 12" by simp
    have cx: "x \<noteq> ?c" if "x \<in> set xs \<union> set ys \<union> {heap_end h}" for x
      using that cn True m(8) m(9) [of x] m(10) [of x] by auto
    show thesis
    proof (rule that [of ?H])
      show "use_block b n h = h\<lparr>blk := ?H, used_mem := used_mem h + (next_off (?H b) - b),
         max_mem := max (max_mem h) (used_mem h + (next_off (?H b) - b))\<rparr>"
        unfolding len using use_block_split [OF ne] True split a by (simp add: area_ok_def)
      show "used (?H x) = used (blk h x) \<and> next_off (?H x) = next_off (blk h x)"
        if "x \<in> set xs \<union> set ys \<union> {heap_end h}" for x using side [OF that] cx [OF that] by (simp add: s)
    qed (use ch True nx cn ne in \<open>simp_all add: s\<close>)
  next
    case False
    let ?H = "take_hdr b (blk h)"
    have "blocks_chain ?H 0 (xs @ b # ys) (heap_end h)" using c by (rule blocks_chain_take_hdr) simp
    moreover have "used (?H x) = used (blk h x) \<and> next_off (?H x) = next_off (blk h x)"
      if "x \<in> set xs \<union> set ys \<union> {heap_end h}" for x using side [OF that] by simp
    ultimately show thesis using use_block_whole [of n h b] False split fit by (intro that [of ?H]) simp_all
  qed
qed

lemma coalesced_mid:
  "coalesced H (xs @ b # ys) \<longleftrightarrow> coalesced H xs \<and> coalesced H ys \<and>
     (xs \<noteq> [] \<longrightarrow> used (H (last xs)) \<noteq> 0 \<or> used (H b) \<noteq> 0) \<and>
     (ys \<noteq> [] \<longrightarrow> used (H b) \<noteq> 0 \<or> used (H (hd ys)) \<noteq> 0)"
  by (auto simp: coalesced_def successively_append_iff successively_Cons)

lemma coalesced_Nil [simp]: "coalesced H []"
  by (simp add: coalesced_def)

lemma coalesced_cong_set:
  "(\<And>x. x \<in> set bs \<Longrightarrow> used (H' x) = used (H x)) \<Longrightarrow> coalesced H' bs = coalesced H bs"
  unfolding coalesced_def by (intro successively_cong) auto

lemma first_free_cases: "first_free H bs e = e \<or> used (H (first_free H bs e)) = 0"
  using hd_in_set [of "filter (\<lambda>b. used (H b) = 0) bs"] by (auto simp: first_free_def hd_append)

text \<open>The rest of \<open>rt_malloc\<close> once a block is found: \<open>lfree\<close> moves on when it was that block.\<close>

definition move_lfree :: "u32 \<Rightarrow> heap \<Rightarrow> heap option" where
  "move_lfree ptr h = (if ptr = lfree h then do {
      p \<leftarrow> next_free h (lfree h);
      rt_assert (p = heap_end h \<or> used (blk h p) = 0);
      Some (h\<lparr>lfree := p\<rparr>)
    } else Some h)"

lemma move_lfree_first:
  assumes c: "blocks_chain (blk h) 0 (xs @ b # zs) (heap_end h)" and b: "used (blk h b) \<noteq> 0"
    and lf: "lfree h = hd (filter (\<lambda>x. used (blk h x) = 0) xs @ [b])"
  shows "move_lfree b h = Some (h\<lparr>lfree := first_free (blk h) (xs @ b # zs) (heap_end h)\<rparr>)"
proof -
  let ?f = "filter (\<lambda>x. used (blk h x) = 0) xs"
  have ff: "first_free (blk h) (xs @ b # zs) (heap_end h) =
      (if ?f = [] then first_free (blk h) (b # zs) (heap_end h) else hd ?f)"
    by (simp add: first_free_def hd_append)
  show ?thesis
  proof (cases "?f = []")
    case True
    have "blocks_chain (blk h) (last (0 # xs)) (b # zs) (heap_end h)" using c blocks_chain_append by blast
    then have "next_free h b = Some (first_free (blk h) (b # zs) (heap_end h))"
      using next_free_first [of h _ "b # zs"] by (simp only: append_Cons list.sel(1))
    then show ?thesis using first_free_cases [of "blk h" "b # zs" "heap_end h"] lf ff True
      by (auto simp: move_lfree_def)
  next
    case False
    then have "lfree h = hd ?f" "hd ?f \<in> set xs" using lf hd_in_set [OF False] by auto
    moreover have "b \<notin> set xs" using blocks_chain_distinct [OF c] by auto
    ultimately have "lfree h \<noteq> b" "first_free (blk h) (xs @ b # zs) (heap_end h) = lfree h"
      using ff False by auto
    then show ?thesis by (simp add: move_lfree_def)
  qed
qed

lemma take_block_ok:
  assumes a: "area_ok h" and ok: "blocks_ok h (xs @ b # ys)" and b: "used (blk h b) = 0"
    and n: "12 \<le> unat n" "4 dvd unat n" and fit: "unat b + 12 + unat n \<le> unat (next_off (blk h b))"
  defines "zs \<equiv> (if unat b + unat n + 36 \<le> unat (next_off (blk h b)) then [b + 12 + n] else []) @ ys"
  obtains h' where "move_lfree b (use_block b n h) = Some h'" "area_ok h'" "blocks_ok h' (xs @ b # zs)"
    "extents (blk h) (xs @ b # ys) = extents (blk h) xs @ extents (blk h) ys"
    "extents (blk h') (xs @ b # zs) = extents (blk h) xs @ (b, next_off (blk h' b)) # extents (blk h) ys"
    "unat b + 12 + unat n \<le> unat (next_off (blk h' b))"
    "heap_ptr h' = heap_ptr h" "mem_size_aligned h' = mem_size_aligned h" "heap_sem h' = heap_sem h"
    "bytes h' = bytes h" "irq_nest h' = irq_nest h"
    "\<And>x. x \<in> set xs \<union> set ys \<Longrightarrow> used (blk h' x) = used (blk h x)"
    "unat b + unat n + 36 \<le> unat (next_off (blk h b)) \<Longrightarrow> used (blk h' (b + 12 + n)) = 0"
proof -
  let ?e = "heap_end h"
  have c: "blocks_chain (blk h) 0 (xs @ b # ys) ?e" and co: "coalesced (blk h) (xs @ b # ys)"
    and lf: "lfree h = first_free (blk h) (xs @ b # ys) ?e"
    and um: "unat (used_mem h) = total_size (extents (blk h) xs) + total_size (extents (blk h) ys)"
    and hd: "hd (xs @ b # ys) = 0" and mx: "used_mem h \<le> max_mem h"
    using ok b by (simp_all add: blocks_ok_def)
  obtain H where H: "use_block b n h = h\<lparr>blk := H, used_mem := used_mem h + (next_off (H b) - b),
       max_mem := max (max_mem h) (used_mem h + (next_off (H b) - b))\<rparr>"
    "blocks_chain H 0 (xs @ b # zs) ?e" "used (H b) \<noteq> 0" "unat b + 12 + unat n \<le> unat (next_off (H b))"
    "unat b + unat n + 36 \<le> unat (next_off (blk h b)) \<Longrightarrow> used (H (b + 12 + n)) = 0"
    "\<And>x. x \<in> set xs \<union> set ys \<union> {?e} \<Longrightarrow> used (H x) = used (blk h x) \<and> next_off (H x) = next_off (blk h x)"
    by (rule use_block_effect [OF a c b n fit, folded zs_def]) (rule that)
  let ?h1 = "h\<lparr>blk := H, used_mem := used_mem h + (next_off (H b) - b),
       max_mem := max (max_mem h) (used_mem h + (next_off (H b) - b))\<rparr>"
  let ?h2 = "?h1\<lparr>lfree := first_free H (xs @ b # zs) ?e\<rparr>"
  have xz: "extents H xs = extents (blk h) xs" "extents H zs = extents (blk h) ys"
    using H(5) extents_cong [of xs H "blk h"] extents_cong [of ys H "blk h"] H(6) by (auto simp: zs_def)
  have ex: "extents H (xs @ b # zs) = extents (blk h) xs @ (b, next_off (H b)) # extents (blk h) ys"
    using H(3) by (simp add: xz)
  have fl: "filter (\<lambda>x. used (H x) = 0) xs = filter (\<lambda>x. used (blk h x) = 0) xs"
    using H(6) by (intro filter_cong) auto
  have "move_lfree b ?h1 = Some ?h2"
    using move_lfree_first [of ?h1 xs b zs] H(2,3) lf b by (simp add: fl first_free_def hd_append)
  moreover have "area_ok ?h2" using area_used [OF a] H(6) [of ?e] by (intro area_move [OF a]) simp_all
  moreover have "blocks_ok ?h2 (xs @ b # zs)"
  proof -
    have "coalesced (blk h) ys" "coalesced (blk h) xs" "ys \<noteq> [] \<Longrightarrow> used (blk h (List.hd ys)) \<noteq> 0"
      using co b by (auto simp: coalesced_mid)
    then have "coalesced H ys" "coalesced H xs" "ys \<noteq> [] \<Longrightarrow> used (H (List.hd ys)) \<noteq> 0"
      using H(6) coalesced_cong_set [of ys H "blk h"] coalesced_cong_set [of xs H "blk h"] by auto
    then have "coalesced H (xs @ b # zs)"
      using H(3) by (auto simp: coalesced_mid zs_def coalesced_mid [of H "[]", simplified])
    moreover have "unat (used_mem h + (next_off (H b) - b)) = total_size (extents H (xs @ b # zs))"
    proof -
      have "unat (next_off (H b) - b) = unat (next_off (H b)) - unat b" using H(4) by (simp add: unat_diff32)
      moreover have "total_size (extents H (xs @ b # zs)) < 2 ^ 32"
        using total_le [OF H(2)] unat_lt32 [of ?e] by simp
      ultimately show ?thesis using um unfolding ex by (subst unat_add32) simp_all
    qed
    moreover have "List.hd (xs @ b # zs) = 0" using hd by (simp add: hd_append split: if_splits)
    ultimately show ?thesis using H(2) by (simp add: blocks_ok_def)
  qed
  ultimately show thesis using H ex b by (intro that [of ?h2]) auto
qed

definition request :: "u32 \<Rightarrow> u32" where
  "request sz = (if rt_align sz < MIN_SIZE_ALIGNED then MIN_SIZE_ALIGNED else rt_align sz)"

lemma request_nat:
  assumes "area_ok h" "rt_align sz \<le> mem_size_aligned h"
  shows "12 \<le> unat (request sz)" "4 dvd unat (request sz)" "unat (request sz) \<le> unat (mem_size_aligned h)"
proof -
  have "4 dvd unat (rt_align sz)"
    using rt_align_props(3) [of sz] rt_align_wraps [of sz] by (cases "unat sz + 3 < 2 ^ 32") auto
  then show "12 \<le> unat (request sz)" "4 dvd unat (request sz)" "unat (request sz) \<le> unat (mem_size_aligned h)"
    using assms by (auto simp: request_def area_ok_def word_less_nat_alt word_le_nat_alt)
qed

lemma aligned_word:
  assumes "4 dvd unat (w :: u32)"
  shows "w mod 4 = 0" "w AND 3 = 0"
proof -
  have "unat (w mod 4) = 0" using assms by (simp add: unat_mod)
  then show "w mod 4 = 0" by (simp add: unat_eq_0)
  then have "take_bit 2 w = 0" by (simp add: take_bit_eq_mod)
  then show "w AND 3 = 0" by (simp add: take_bit_eq_mask mask_eq_exp_minus_1)
qed

lemma rt_malloc_eq:
  assumes "heap_sem h = 1" "irq_nest h = 0" "sz \<noteq> 0" "rt_align sz \<le> mem_size_aligned h"
    "find_fit (h\<lparr>heap_sem := 0\<rparr>) (request sz) (lfree h) = Some r"
  shows "rt_malloc sz h = (case r of
     None \<Rightarrow> Some (0, h)
   | Some b \<Rightarrow> do {
       h \<leftarrow> move_lfree b (use_block b (request sz) (h\<lparr>heap_sem := 0\<rparr>));
       let h = heap_unlock h;
       rt_assert (heap_ptr h + b + 12 + request sz \<le> heap_ptr h + heap_end h);
       rt_assert ((heap_ptr h + b + 12) mod 4 = 0);
       rt_assert (heap_ptr h + b AND 3 = 0);
       Some (heap_ptr h + b + 12, h)
     })"
proof -
  have "\<not> rt_align sz > mem_size_aligned h" using assms(4) by simp
  then show ?thesis using assms
    by (cases r) (simp_all add: rt_malloc_def heap_lock_def request_def [symmetric] Let_def move_lfree_def heap_unlock_def)
qed

text \<open>Blocks lie inside the area, so their addresses do not wrap, and they are aligned.\<close>

lemma block_addr:
  assumes a: "area_ok h" and c: "blocks_chain (blk h) 0 bs (heap_end h)" and b: "b \<in> set bs"
  shows "unat (heap_ptr h + b) = unat (heap_ptr h) + unat b"
    "unat (heap_ptr h + b + 12) = unat (heap_ptr h) + unat b + 12"
    "(heap_ptr h + b + 12) mod 4 = 0" "heap_ptr h + b AND 3 = 0" "heap_ptr h + b + 12 AND 3 = 0"
    "unat (heap_ptr h + heap_end h) = unat (heap_ptr h) + unat (heap_end h)"
    "heap_ptr h + b + 12 \<noteq> 0"
proof -
  note e = area_nat [OF a] and bb = blocks_chain_below [OF c b]
  have d: "4 dvd unat b" using c b split_list [OF b] blocks_chain_mid(7) by metis
  show u: "unat (heap_ptr h + b) = unat (heap_ptr h) + unat b"
    using e bb by (intro unat_add32) linarith
  show v: "unat (heap_ptr h + b + 12) = unat (heap_ptr h) + unat b + 12"
    using e bb u unat_add32 [of "heap_ptr h + b" 12] by simp
  have dp: "4 dvd unat (heap_ptr h)" using a by (simp add: area_ok_def)
  then have "4 dvd unat (heap_ptr h + b)" "4 dvd unat (heap_ptr h + b + 12)" unfolding u v using d by presburger+
  then show "(heap_ptr h + b + 12) mod 4 = 0" "heap_ptr h + b AND 3 = 0" "heap_ptr h + b + 12 AND 3 = 0"
    using aligned_word by blast+
  show "unat (heap_ptr h + heap_end h) = unat (heap_ptr h) + unat (heap_end h)"
    using e by (intro unat_add32) linarith
  show "heap_ptr h + b + 12 \<noteq> 0" using v by (metis unat_0 add_is_0 zero_neq_numeral)
qed

definition remainder :: "heap \<Rightarrow> u32 \<Rightarrow> u32 \<Rightarrow> u32 list" where
  "remainder h b n = (if unat b + unat n + 36 \<le> unat (next_off (blk h b)) then [b + 12 + n] else [])"

lemma malloc_effect:
  assumes inv: "heap_inv h" "irq_nest h = 0" and sz: "sz \<noteq> 0" "rt_align sz \<le> mem_size_aligned h"
    and b: "find (fits h (request sz)) (heap_blocks h) = Some b"
  obtains h' xs ys where "heap_blocks h = xs @ b # ys" "used (blk h b) = 0"
    "rt_malloc sz h = Some (heap_ptr h + b + 12, h')" "area_ok h'" "heap_sem h' = 1"
    "blocks_ok h' (xs @ b # remainder h b (request sz) @ ys)"
    "live h = extents (blk h) xs @ extents (blk h) ys"
    "live h' = extents (blk h) xs @ (b, next_off (blk h' b)) # extents (blk h) ys"
    "unat b + 12 + unat (request sz) \<le> unat (next_off (blk h' b))"
    "heap_ptr h' = heap_ptr h" "bytes h' = bytes h" "irq_nest h' = 0" "mem_size_aligned h' = mem_size_aligned h"
    "\<And>x. x \<in> set xs \<union> set ys \<Longrightarrow> used (blk h' x) = used (blk h x)"
    "remainder h b (request sz) \<noteq> [] \<Longrightarrow> used (blk h' (hd (remainder h b (request sz)))) = 0"
proof -
  let ?h = "h\<lparr>heap_sem := 0\<rparr>" and ?n = "request sz"
  have a: "area_ok ?h" and ok: "blocks_ok ?h (heap_blocks h)" and hs: "heap_sem h = 1" and a0: "area_ok h"
    using inv by (simp_all add: heap_inv_def)
  note n = request_nat [OF a0 sz(2)]
  have fit: "fits h ?n b" "b \<in> set (heap_blocks h)" using b by (auto simp: find_Some_iff)
  obtain xs ys where bs: "heap_blocks h = xs @ b # ys" using split_list [OF fit(2)] by blast
  have "fits ?h = fits h" by (simp add: fits_def fun_eq_iff)
  then have ff: "find_fit ?h ?n (lfree h) = Some (Some b)"
    using find_fit_lfree [OF a, of ?n "heap_blocks h"] n(3) ok b by (simp add: blocks_ok_def)
  have fb: "used (blk ?h b) = 0" "unat b + 12 + unat ?n \<le> unat (next_off (blk ?h b))"
    using fit by (simp_all add: fits_def)
  let ?zs = "(if unat b + unat ?n + 36 \<le> unat (next_off (blk ?h b)) then [b + 12 + ?n] else []) @ ys"
  obtain h' where h': "move_lfree b (use_block b ?n ?h) = Some h'" "area_ok h'" "blocks_ok h' (xs @ b # ?zs)"
    "extents (blk ?h) (xs @ b # ys) = extents (blk ?h) xs @ extents (blk ?h) ys"
    "extents (blk h') (xs @ b # ?zs) = extents (blk ?h) xs @ (b, next_off (blk h' b)) # extents (blk ?h) ys"
    "unat b + 12 + unat ?n \<le> unat (next_off (blk h' b))"
    "heap_ptr h' = heap_ptr ?h" "mem_size_aligned h' = mem_size_aligned ?h" "heap_sem h' = heap_sem ?h"
    "bytes h' = bytes ?h" "irq_nest h' = irq_nest ?h"
    "\<And>x. x \<in> set xs \<union> set ys \<Longrightarrow> used (blk h' x) = used (blk ?h x)"
    "unat b + unat ?n + 36 \<le> unat (next_off (blk ?h b)) \<Longrightarrow> used (blk h' (b + 12 + ?n)) = 0"
    by (rule take_block_ok [OF a ok [unfolded bs] fb(1) n(1,2) fb(2)]) (rule that)
  have c': "blocks_chain (blk h') 0 (xs @ b # ?zs) (heap_end h')" using h'(3) by (simp only: blocks_ok_def)
  have "b \<in> set (xs @ b # ?zs)" by simp
  note ad = block_addr [OF h'(2) c' this]
  have "unat (heap_ptr h' + b + 12 + ?n) = unat (heap_ptr h') + unat b + 12 + unat ?n"
    using unat_add32 [of "heap_ptr h' + b + 12" ?n] ad(2) h'(6) blocks_chain_mid(8) [OF c'] area_nat(2) [OF h'(2)] by simp
  then have "heap_ptr h' + b + 12 + ?n \<le> heap_ptr h' + heap_end h'"
    using ad(6) h'(6) blocks_chain_mid(8) [OF c'] by (simp add: word_le_nat_alt)
  then have "rt_malloc sz h = Some (heap_ptr h + b + 12, heap_unlock h')"
    using rt_malloc_eq [OF hs inv(2) sz ff] h'(1,7) ad by simp
  moreover have un: "heap_sem (heap_unlock h') = 1" "area_ok (heap_unlock h')" "blocks_ok (heap_unlock h') (xs @ b # ?zs)"
    using h'(2,3,9) by simp_all
  moreover have "live (heap_unlock h') = extents (blk h) xs @ (b, next_off (blk h' b)) # extents (blk h) ys"
    using heap_invI(3) [OF un(2,3,1)] h'(5) by (simp only: unlock_frame) simp
  moreover have "live h = extents (blk h) xs @ extents (blk h) ys" using h'(4) by (simp add: live_def bs)
  moreover have "remainder h b ?n \<noteq> [] \<Longrightarrow> used (blk h' (hd (remainder h b ?n))) = 0"
    using h'(13) by (auto simp: remainder_def split: if_splits)
  ultimately show thesis using bs fb(1) h'(6-12) inv(2)
    by (intro that [of xs ys "heap_unlock h'"]) (simp_all only: remainder_def unlock_frame, simp_all)
qed

text \<open>When no block fits, nothing changes.\<close>

lemma malloc_refuses:
  assumes inv: "heap_inv h" "irq_nest h = 0"
    and no: "mem_size_aligned h < rt_align sz \<or> find (fits h (request sz)) (heap_blocks h) = None"
  shows "rt_malloc sz h = Some (0, h)"
proof -
  consider "sz = 0" | "sz \<noteq> 0" "mem_size_aligned h < rt_align sz"
    | "sz \<noteq> 0" "rt_align sz \<le> mem_size_aligned h" "find (fits h (request sz)) (heap_blocks h) = None"
    using no by fastforce
  then show ?thesis
  proof cases
    case 3
    let ?h = "h\<lparr>heap_sem := 0\<rparr>"
    have a: "area_ok ?h" "area_ok h" "blocks_ok h (heap_blocks h)" "heap_sem h = 1"
      using inv by (simp_all add: heap_inv_def)
    have "fits ?h = fits h" by (simp add: fits_def fun_eq_iff)
    then have "find_fit ?h (request sz) (lfree h) = Some None"
      using find_fit_lfree [OF a(1), of "request sz" "heap_blocks h"] request_nat(3) [OF a(2) 3(2)] a(3) 3(3)
      by (simp add: blocks_ok_def)
    then show ?thesis using rt_malloc_eq [OF a(4) inv(2) 3(1,2)] by simp
  qed (use inv in \<open>simp_all add: rt_malloc_def\<close>)
qed

text \<open>A pointer that is not null comes from the first fit.\<close>

lemma malloc_success:
  assumes inv: "heap_inv h" "irq_nest h = 0" and m: "rt_malloc sz h = Some (p, h')" "p \<noteq> 0"
  obtains b xs ys where "p = heap_ptr h + b + 12" "rt_align sz \<le> mem_size_aligned h"
    "heap_blocks h = xs @ b # ys" "used (blk h b) = 0"
    "heap_inv h'" "blocks_ok h' (xs @ b # remainder h b (request sz) @ ys)"
    "heap_blocks h' = xs @ b # remainder h b (request sz) @ ys"
    "live h = extents (blk h) xs @ extents (blk h) ys"
    "live h' = extents (blk h) xs @ (b, next_off (blk h' b)) # extents (blk h) ys"
    "unat b + 12 + unat (request sz) \<le> unat (next_off (blk h' b))"
    "heap_ptr h' = heap_ptr h" "bytes h' = bytes h" "irq_nest h' = 0" "mem_size_aligned h' = mem_size_aligned h"
    "\<And>x. x \<in> set xs \<union> set ys \<Longrightarrow> used (blk h' x) = used (blk h x)"
    "remainder h b (request sz) \<noteq> [] \<Longrightarrow> used (blk h' (hd (remainder h b (request sz)))) = 0"
proof -
  have "\<not> (mem_size_aligned h < rt_align sz \<or> find (fits h (request sz)) (heap_blocks h) = None)" "sz \<noteq> 0"
    using malloc_refuses [OF inv, of sz] m by (auto simp: rt_malloc_def)
  then obtain b where sz: "sz \<noteq> 0" "rt_align sz \<le> mem_size_aligned h"
      "find (fits h (request sz)) (heap_blocks h) = Some b" by (auto simp: linorder_not_less)
  obtain h1 xs ys where h1: "heap_blocks h = xs @ b # ys" "used (blk h b) = 0"
    "rt_malloc sz h = Some (heap_ptr h + b + 12, h1)" "area_ok h1" "heap_sem h1 = 1"
    "blocks_ok h1 (xs @ b # remainder h b (request sz) @ ys)"
    "live h = extents (blk h) xs @ extents (blk h) ys"
    "live h1 = extents (blk h) xs @ (b, next_off (blk h1 b)) # extents (blk h) ys"
    "unat b + 12 + unat (request sz) \<le> unat (next_off (blk h1 b))"
    "heap_ptr h1 = heap_ptr h" "bytes h1 = bytes h" "irq_nest h1 = 0" "mem_size_aligned h1 = mem_size_aligned h"
    "\<And>x. x \<in> set xs \<union> set ys \<Longrightarrow> used (blk h1 x) = used (blk h x)"
    "remainder h b (request sz) \<noteq> [] \<Longrightarrow> used (blk h1 (hd (remainder h b (request sz)))) = 0"
    by (rule malloc_effect [OF inv sz]) (rule that)
  have eq: "h' = h1" "p = heap_ptr h + b + 12" using h1(3) m(1) by simp_all
  show thesis
    using that [of b xs ys] h1 [folded eq(1)] sz(2) eq(2) heap_invI(1,2) [OF h1(4,6,5), folded eq(1)] by blast
qed


end
