(* ===== verification/HeapFree.thy ===== *)
theory HeapFree
  imports Heap Allocator
begin

text \<open>
  The rest of \<open>src/src/mem.c\<close>: what \<open>rt_free\<close>, \<open>rt_realloc\<close>, \<open>rt_calloc\<close> and
  \<open>rt_system_heap_init\<close> do to the invariant of a heap, to its used blocks and to their contents.
\<close>

section \<open>Release\<close>

definition free_hdr :: "u32 \<Rightarrow> (u32 \<Rightarrow> heap_mem) \<Rightarrow> u32 \<Rightarrow> heap_mem" where
  "free_hdr b H = H(b := (H b)\<lparr>used := 0, magic := HEAP_MAGIC\<rparr>)"

lemma free_hdr_sel [simp]:
  "used (free_hdr b H x) = (if x = b then 0 else used (H x))"
  "magic (free_hdr b H x) = (if x = b then HEAP_MAGIC else magic (H x))"
  "next_off (free_hdr b H x) = next_off (H x)" "prev_off (free_hdr b H x) = prev_off (H x)"
  by (simp_all add: free_hdr_def)

lemma free_hdr_frame [simp]:
  assumes "b \<notin> set bs"
  shows "coalesced (free_hdr b H) bs = coalesced H bs" "extents (free_hdr b H) bs = extents H bs"
proof -
  have *: "used (free_hdr b H x) = used (H x) \<and> next_off (free_hdr b H x) = next_off (H x)" if "x \<in> set bs" for x
    using that assms by auto
  show "coalesced (free_hdr b H) bs = coalesced H bs" using * by (intro coalesced_cong_set) blast
  show "extents (free_hdr b H) bs = extents H bs" using * by (rule extents_cong)
qed

lemma first_free_mem: "first_free H ys e = e \<or> first_free H ys e \<in> set ys"
  using hd_in_set [of "filter (\<lambda>b. used (H b) = 0) ys"]
  by (cases "filter (\<lambda>b. used (H b) = 0) ys = []") (simp_all add: first_free_def hd_append)

lemma blocks_chain_free_hdr: "blocks_chain H p (xs @ b # ys) e \<Longrightarrow> blocks_chain (free_hdr b H) p (xs @ b # ys) e"
proof -
  assume c: "blocks_chain H p (xs @ b # ys) e"
  then show ?thesis using blocks_chain_mid(5) [OF c] by (subst blocks_chain_cong [where H = H]) auto
qed

lemma first_free_mid:
  "first_free H (xs @ b # ys) e =
     (let f = filter (\<lambda>x. used (H x) = 0) xs in
      if f \<noteq> [] then hd f else if used (H b) = 0 then b else first_free H ys e)"
  by (simp add: first_free_def hd_append Let_def)

lemma first_free_at_least: "blocks_chain H b ys e \<Longrightarrow> ys \<noteq> [] \<Longrightarrow> unat (hd ys) \<le> unat (first_free H ys e)"
proof -
  assume c: "blocks_chain H b ys e" "ys \<noteq> []"
  consider "first_free H ys e = e" | "first_free H ys e \<in> set ys"
    using first_free_mem by metis
  then show ?thesis
  proof cases
    case 1
    then show ?thesis using blocks_chain_le [OF c] by simp
  next
    case 2
    then show ?thesis by (rule blocks_chain_hd_least [OF c(1)])
  qed
qed

text \<open>Moving \<open>lfree\<close> down to a block that becomes free inside a used one keeps it the first free block.\<close>

lemma lower_lfree:
  assumes c: "blocks_chain H p (xs @ b # ys) e" and lf: "l = first_free H (xs @ b # ys) e" and b: "used (H b) \<noteq> 0"
    and same: "\<And>x. x \<in> set xs \<Longrightarrow> used (H' x) = used (H x)" and c0: "used (H' c) = 0"
    and bc: "unat b \<le> unat c" "unat c < unat (next_off (H b))"
  shows "(if c < l then c else l) = first_free H' (xs @ c # ys) e"
proof -
  note m = blocks_chain_mid [OF c]
  let ?f = "filter (\<lambda>x. used (H x) = 0) xs"
  have f: "filter (\<lambda>x. used (H' x) = 0) xs = ?f" using same by (intro filter_cong) auto
  show ?thesis
  proof (cases "?f = []")
    case True
    then have "l = first_free H ys e" using lf b by (simp add: first_free_mid)
    then have "unat c < unat l"
      using first_free_at_least [OF m(2)] m(4,6,8) bc by (cases ys) (auto simp: first_free_def)
    then show ?thesis using True f c0 by (simp add: first_free_mid word_less_nat_alt)
  next
    case False
    then have "l = hd ?f" "hd ?f \<in> set xs" using lf hd_in_set [OF False] by (auto simp: first_free_mid)
    then have "unat l < unat c" using m(9) [of l] bc by simp
    then show ?thesis using False f \<open>l = hd ?f\<close> by (simp add: first_free_mid word_less_nat_alt)
  qed
qed

lemma rt_free_eq:
  assumes "heap_sem h = 1" "irq_nest h = 0" "r \<noteq> 0" "r AND 3 = 0" "heap_ptr h \<le> r" "r < heap_ptr h + heap_end h"
    "r - 12 - heap_ptr h = b" "used (blk h b) \<noteq> 0" "magic (blk h b) = HEAP_MAGIC"
  shows "rt_free r h = do {
     h \<leftarrow> plug_holes b (h\<lparr>heap_sem := 0, blk := free_hdr b (blk h), lfree := (if b < lfree h then b else lfree h),
       used_mem := used_mem h - (next_off (blk h b) - b)\<rparr>);
     Some (heap_unlock h)
   }"
proof -
  have "\<not> r < heap_ptr h" "\<not> heap_ptr h + heap_end h \<le> r" using assms(5,6) by simp_all
  then show ?thesis using assms
    by (cases h) (simp add: rt_free_def heap_lock_def upd_blk_def free_hdr_def Let_def)
qed

lemma free_effect:
  assumes inv: "heap_inv h" "irq_nest h = 0" and bs: "heap_blocks h = xs @ b # ys" and b: "used (blk h b) \<noteq> 0"
  obtains h' where "rt_free (heap_ptr h + b + 12) h = Some h'" "area_ok h'" "heap_sem h' = 1"
    "blocks_ok h' (merged (blk h) xs b ys)" "live h' = extents (blk h) xs @ extents (blk h) ys"
    "heap_ptr h' = heap_ptr h" "bytes h' = bytes h" "irq_nest h' = 0" "mem_size_aligned h' = mem_size_aligned h"
    "used_mem h' = used_mem h - (next_off (blk h b) - b)"
    "\<And>x. used (blk h' x) = (if x = b then 0 else used (blk h x))"
proof -
  let ?e = "heap_end h" and ?bs = "xs @ b # ys" and ?r = "heap_ptr h + b + 12"
  have a: "area_ok h" and ok: "blocks_ok h ?bs" and hs: "heap_sem h = 1" using inv bs by (simp_all add: heap_inv_def)
  have c: "blocks_chain (blk h) 0 ?bs ?e" and co: "coalesced (blk h) ?bs" and hd: "hd ?bs = 0"
    and lf: "lfree h = first_free (blk h) ?bs ?e" and um: "unat (used_mem h) = total_size (extents (blk h) ?bs)"
    and mx: "used_mem h \<le> max_mem h"
    using ok unfolding blocks_ok_def by blast+
  note m = blocks_chain_mid [OF c]
  note ad = block_addr [OF a c, of b, simplified]
  have r: "?r \<ge> heap_ptr h" "?r < heap_ptr h + ?e" "?r - 12 - heap_ptr h = b"
    using ad m(6,8) by (simp_all add: word_le_nat_alt word_less_nat_alt)
  define l u where "l = (if b < lfree h then b else lfree h)" and "u = used_mem h - (next_off (blk h b) - b)"
  let ?H1 = "free_hdr b (blk h)"
  let ?h1 = "h\<lparr>heap_sem := 0, blk := ?H1, lfree := l, used_mem := u\<rparr>"
  have c1: "blocks_chain (blk ?h1) 0 ?bs (heap_end ?h1)" using blocks_chain_free_hdr [OF c] by simp
  have ub: "b \<notin> set xs" "b \<notin> set ys" "b \<noteq> ?e" using blocks_chain_distinct [OF c] m(6,8) by auto
  have coal: "coalesced (blk ?h1) xs" "coalesced (blk ?h1) ys"
    using co ub by (simp_all add: coalesced_mid)
  have me: "merged ?H1 xs b ys = merged (blk h) xs b ys"
  proof -
    have "last xs \<noteq> b" if "xs \<noteq> []" using last_in_set [OF that] ub by auto
    moreover have "List.hd ys \<noteq> b" if "ys \<noteq> []" using hd_in_set [OF that] ub by auto
    ultimately show ?thesis by (simp add: merged_def upto_prev_def after_next_def cong: conj_cong)
  qed
  have f1: "used (?H1 x) = used (blk h x)" if "x \<in> set xs" for x using that ub by auto
  have "used (blk ?h1 (heap_end ?h1)) \<noteq> 0" using area_used [OF a] ub by simp
  moreover have "lfree ?h1 = first_free (blk ?h1) ?bs (heap_end ?h1)" 
    using lower_lfree [OF c lf b f1, of b] m(6) by (simp add: l_def)
  ultimately obtain H where H: "plug_holes b ?h1 = Some (?h1\<lparr>blk := H\<rparr>)"
    "blocks_chain H 0 (merged (blk ?h1) xs b ys) (heap_end ?h1)" "List.hd (merged (blk ?h1) xs b ys) = 0"
    "merged (blk ?h1) xs b ys \<noteq> []" "coalesced H (merged (blk ?h1) xs b ys)"
    "first_free H (merged (blk ?h1) xs b ys) (heap_end ?h1) = lfree ?h1"
    "extents H (merged (blk ?h1) xs b ys) = extents (blk ?h1) ?bs" "\<And>x. used (H x) = used (blk ?h1 x)"
    using plug_holes_merges [OF c1 hd _ _ _ coal] by (auto simp del: fun_upd_apply)
  let ?h2 = "h\<lparr>heap_sem := 1, blk := H, lfree := l, used_mem := u\<rparr>"
  have ex: "extents H (merged (blk h) xs b ys) = extents (blk h) xs @ extents (blk h) ys"
    using H(7) ub by (simp add: me)
  have "unat (next_off (blk h b) - b) = unat (next_off (blk h b)) - unat b" using m(6) by (simp add: unat_diff32)
  moreover have "unat (used_mem h) = total_size (extents H (merged (blk h) xs b ys)) + (unat (next_off (blk h b)) - unat b)"
    using um b unfolding ex by simp
  ultimately have u: "unat u = total_size (extents H (merged (blk h) xs b ys))" by (simp add: u_def unat_diff32)
  then have "u \<le> max_mem h" using mx um ex b by (simp add: word_le_nat_alt)
  with u have ok2: "blocks_ok ?h2 (merged (blk h) xs b ys)" using H(2-6) by (simp add: blocks_ok_def me)
  have a2: "area_ok ?h2" using area_used [OF a] ub(3) H(8) by (intro area_move [OF a]) simp_all
  have "rt_free ?r h = Some ?h2"
    using rt_free_eq [OF hs inv(2) ad(7,5) r b m(5)] H(1) by (simp add: l_def u_def heap_unlock_def)
  moreover have "live ?h2 = extents (blk h) xs @ extents (blk h) ys"
    using heap_invI(3) [OF a2 ok2] ex by simp
  ultimately show thesis using a2 ok2 inv(2) H(8) by (intro that [of ?h2]) (simp_all add: u_def)
qed

lemma live_split:
  assumes inv: "heap_inv h" and lv: "live h = es @ (b, n) # fs"
  obtains xs ys where "heap_blocks h = xs @ b # ys" "used (blk h b) \<noteq> 0" "n = next_off (blk h b)"
    "es = extents (blk h) xs" "fs = extents (blk h) ys"
proof -
  have "(b, n) \<in> set (live h)" using lv by simp
  then have b: "b \<in> set (heap_blocks h)" "used (blk h b) \<noteq> 0" "n = next_off (blk h b)"
    by (auto simp: live_def extents_def)
  then obtain xs ys where bs: "heap_blocks h = xs @ b # ys" using split_list by metis
  have "distinct (heap_blocks h)" using inv blocks_chain_distinct unfolding heap_inv_def blocks_ok_def by blast
  then have "b \<notin> set xs" "b \<notin> set ys" using bs by auto
  then have "(b, n) \<notin> set (extents (blk h) xs)" "(b, n) \<notin> set (extents (blk h) ys)" by (auto simp: extents_def)
  moreover have "extents (blk h) xs @ (b, n) # extents (blk h) ys = es @ (b, n) # fs"
    using b(2,3) lv by (simp add: live_def bs)
  ultimately show thesis using that [OF bs b(2,3)] append_Cons_eq_iff by metis
qed

lemma free_live:
  assumes inv: "heap_inv h" "irq_nest h = 0" and lv: "live h = es @ (b, n) # fs"
  shows "\<exists>h'. rt_free (heap_ptr h + b + 12) h = Some h' \<and> heap_inv h' \<and> live h' = es @ fs \<and>
     used_mem h' = used_mem h - (n - b) \<and> bytes h' = bytes h \<and> heap_ptr h' = heap_ptr h \<and> irq_nest h' = 0"
proof -
  obtain xs ys where bs: "heap_blocks h = xs @ b # ys" "used (blk h b) \<noteq> 0" "n = next_off (blk h b)"
    "es = extents (blk h) xs" "fs = extents (blk h) ys"
    by (rule live_split [OF inv(1) lv])
  obtain h' where h': "rt_free (heap_ptr h + b + 12) h = Some h'" "area_ok h'" "heap_sem h' = 1"
    "blocks_ok h' (merged (blk h) xs b ys)" "live h' = extents (blk h) xs @ extents (blk h) ys"
    "heap_ptr h' = heap_ptr h" "bytes h' = bytes h" "irq_nest h' = 0" "mem_size_aligned h' = mem_size_aligned h"
    "used_mem h' = used_mem h - (next_off (blk h b) - b)"
    "\<And>x. used (blk h' x) = (if x = b then 0 else used (blk h x))"
    by (rule free_effect [OF inv bs(1,2)]) (rule that)
  show ?thesis unfolding bs(3-5)
    using h'(1,5-8,10) heap_invI(1) [OF h'(2,4,3)] by (intro exI conjI) assumption+
qed

lemma live_inj: "(b, n) \<in> set (live h) \<Longrightarrow> (b, m) \<in> set (live h) \<Longrightarrow> n = m"
  by (auto simp: live_def extents_def)

lemma live_distinct: "heap_inv h \<Longrightarrow> distinct (live h)"
  using blocks_chain_distinct [of "blk h" 0 "heap_blocks h"]
  by (auto simp: heap_inv_def blocks_ok_def live_def extents_def distinct_map inj_on_def)

theorem free_releases:
  assumes inv: "heap_inv h" "irq_nest h = 0" and lv: "(b, n) \<in> set (live h)"
  shows "\<exists>h'. rt_free (heap_ptr h + b + 12) h = Some h' \<and> heap_inv h' \<and>
     set (live h') = set (live h) - {(b, n)} \<and> used_mem h' = used_mem h - (n - b) \<and> bytes h' = bytes h"
proof -
  obtain es fs where l: "live h = es @ (b, n) # fs" using split_list [OF lv] by blast
  have "set (es @ fs) = set (live h) - {(b, n)}" using live_distinct [OF inv(1)] l by auto
  then show ?thesis using free_live [OF inv l] by metis
qed


section \<open>Resizing\<close>

lemma shrink_block_eq:
  assumes "ptr + 12 + nsz \<noteq> ptr" "next_off (blk h ptr) \<noteq> ptr" "next_off (blk h ptr) \<noteq> ptr + 12 + nsz"
    and e: "heap_end h = mem_size_aligned h + 12"
    and l: "l = (if ptr + 12 + nsz < lfree h then ptr + 12 + nsz else lfree h)"
  shows "shrink_block ptr sz nsz h =
    plug_holes (ptr + 12 + nsz) (h\<lparr>blk := cut_hdr ptr (ptr + 12 + nsz) (heap_end h) (blk h),
      used_mem := used_mem h - (sz - nsz), lfree := l\<rparr>)"
proof -
  have "(let h1 = h\<lparr>used_mem := used_mem h - (sz - nsz)\<rparr>;
      h2 = upd_blk (ptr + 12 + nsz) (\<lambda>b. b\<lparr>magic := HEAP_MAGIC, used := 0, next_off := next_off (blk h1 ptr),
             prev_off := ptr\<rparr>) h1;
      h3 = upd_blk ptr (\<lambda>b. b\<lparr>next_off := ptr + 12 + nsz\<rparr>) h2 in
    if next_off (blk h3 (ptr + 12 + nsz)) \<noteq> mem_size_aligned h3 + 12
    then upd_blk (next_off (blk h3 (ptr + 12 + nsz))) (\<lambda>b. b\<lparr>prev_off := ptr + 12 + nsz\<rparr>) h3 else h3) =
    h\<lparr>blk := cut_hdr ptr (ptr + 12 + nsz) (heap_end h) (blk h), used_mem := used_mem h - (sz - nsz)\<rparr>"
    using assms by (cases h) (auto simp: upd_blk_def cut_hdr_def Let_def)
  then show ?thesis unfolding shrink_block_def Let_def l by (cases h) simp
qed

lemma shrink_effect:
  assumes inv: "heap_inv h" "irq_nest h = 0" and bs: "heap_blocks h = xs @ b # ys" and b: "used (blk h b) \<noteq> 0"
    and n: "4 dvd unat n" "4 \<le> unat n" and room: "unat b + unat n + 36 \<le> unat (next_off (blk h b))"
  obtains h' where
    "shrink_block b (next_off (blk h b) - b - 12) n (h\<lparr>heap_sem := 0\<rparr>) = Some h'" "heap_inv (heap_unlock h')"
    "live (heap_unlock h') = extents (blk h) xs @ (b, b + 12 + n) # extents (blk h) ys"
    "bytes h' = bytes h" "heap_ptr h' = heap_ptr h" "irq_nest h' = irq_nest h"
proof -
  let ?e = "heap_end h" and ?bs = "xs @ b # ys" and ?c = "b + 12 + n" and ?y = "next_off (blk h b)"
  have a: "area_ok h" and ok: "blocks_ok h ?bs" and hs: "heap_sem h = 1" using inv bs by (simp_all add: heap_inv_def)
  have c: "blocks_chain (blk h) 0 ?bs ?e" and co: "coalesced (blk h) ?bs" and hd: "hd ?bs = 0"
    and lf: "lfree h = first_free (blk h) ?bs ?e" and um: "unat (used_mem h) = total_size (extents (blk h) ?bs)"
    and mx: "used_mem h \<le> max_mem h"
    using ok unfolding blocks_ok_def by blast+
  note m = blocks_chain_mid [OF c]
  have cn: "unat ?c = unat b + 12 + unat n"
    using room_nat(2) [OF m(6)] room unat_lt32 [of ?y] unat_add32 [of "b + 12" n] by simp
  then have "unat ?c \<noteq> unat b" "unat ?y \<noteq> unat b" "unat ?y \<noteq> unat ?c" using room by linarith+
  then have ne: "?c \<noteq> b" "?y \<noteq> b" "?y \<noteq> ?c" by metis+
  note s = cut_sel [where b = b and c = ?c and e = ?e and H = "blk h", OF ne]
  let ?H1 = "cut_hdr b ?c ?e (blk h)"
  have fr: "x \<noteq> ?c" "x \<noteq> b" if "x \<in> set xs \<union> set ys \<union> {?e}" for x
    using that cn room m(6,8) m(9) [of x] m(10) [of x] by auto
  have "blocks_chain ?H1 0 (xs @ b # ?c # ys) ?e"
    using cut_chain [OF c, of ?c] cn n m(7) room by simp
  then have c1: "blocks_chain ?H1 0 ((xs @ [b]) @ ?c # ys) ?e" by simp
  define l u where "l = (if ?c < lfree h then ?c else lfree h)" and "u = used_mem h - (?y - b - 12 - n)"
  let ?h1 = "h\<lparr>heap_sem := 0, blk := ?H1, used_mem := u, lfree := l\<rparr>"
  have bx: "b \<notin> set xs" using m(9) [of b] by auto
  have "l = first_free ?H1 (xs @ ?c # ys) ?e"
    using lower_lfree [OF c lf b, of ?H1 ?c] fr room cn by (simp add: l_def s)
  then have l1: "lfree ?h1 = first_free (blk ?h1) ((xs @ [b]) @ ?c # ys) (heap_end ?h1)"
    using b ne by (simp add: first_free_def hd_append s)
  have same: "used (?H1 x) = used (blk h x) \<and> next_off (?H1 x) = next_off (blk h x)"
    if "x \<in> set xs \<union> set ys" for x using fr [of x] that by (simp add: s)
  have coal: "coalesced (blk ?h1) (xs @ [b])" "coalesced (blk ?h1) ys"
    using co b ne same coalesced_cong_set [of xs ?H1 "blk h"] coalesced_cong_set [of ys ?H1 "blk h"]
    by (simp_all add: coalesced_mid s)
  have ex1: "extents ?H1 xs = extents (blk h) xs" "extents ?H1 ys = extents (blk h) ys"
    using same by (auto intro!: extents_cong)
  let ?ms = "merged ?H1 (xs @ [b]) ?c ys"
  have "List.hd ((xs @ [b]) @ ?c # ys) = 0" using hd by (simp add: hd_append split: if_splits)
  moreover have "used (blk ?h1 (heap_end ?h1)) \<noteq> 0" using area_used [OF a] fr [of ?e] by (simp add: s)
  moreover have "used (blk ?h1 ?c) = 0" by (simp add: s)
  ultimately obtain H where H: "plug_holes ?c ?h1 = Some (?h1\<lparr>blk := H\<rparr>)" "blocks_chain H 0 ?ms ?e" "List.hd ?ms = 0"
    "?ms \<noteq> []" "coalesced H ?ms" "first_free H ?ms ?e = l"
    "extents H ?ms = extents ?H1 ((xs @ [b]) @ ?c # ys)" "\<And>x. used (H x) = used (?H1 x)"
    using plug_holes_merges [of ?h1 "xs @ [b]" ?c ys] c1 l1 coal by (auto simp del: fun_upd_apply)
  let ?h2 = "?h1\<lparr>blk := H\<rparr>"
  have ex: "extents H ?ms = extents (blk h) xs @ (b, ?c) # extents (blk h) ys"
    using H(7) b ne by (simp add: ex1 s)
  have "?y - b - 12 - n = ?y - ?c" by simp
  then have "unat (?y - b - 12 - n) = unat ?y - unat ?c" using room cn by (simp only: unat_diff32)
  moreover have tot: "unat (used_mem h) = total_size (extents H ?ms) + (unat ?y - unat ?c)"
    using um b cn room unfolding ex by simp
  ultimately have u: "unat u = total_size (extents H ?ms)" by (simp add: u_def unat_diff32)
  then have "u \<le> max_mem h" using mx tot by (simp add: word_le_nat_alt)
  with u have ok2: "blocks_ok (heap_unlock ?h2) ?ms" using H(2-6) by (simp add: blocks_ok_def)
  have a2: "area_ok (heap_unlock ?h2)" using area_used [OF a] fr [of ?e] H(8) by (intro area_move [OF a]) (simp_all add: s)
  let ?h0 = "h\<lparr>heap_sem := 0\<rparr>"
  have "shrink_block b (?y - b - 12) n ?h0 = plug_holes ?c (?h0\<lparr>blk := cut_hdr b ?c (heap_end ?h0) (blk ?h0),
      used_mem := used_mem ?h0 - (?y - b - 12 - n), lfree := l\<rparr>)"
    by (rule shrink_block_eq) (use ne a [unfolded area_ok_def, THEN conjunct1] in \<open>simp_all add: l_def\<close>)
  then have "shrink_block b (?y - b - 12) n ?h0 = Some ?h2" using H(1) by (simp add: u_def)
  then show thesis using heap_invI(1,3) [OF a2 ok2] ex by (intro that [of ?h2]) simp_all
qed

section \<open>Disjoint blocks and their contents\<close>

text \<open>Allocated blocks do not overlap and lie inside the area.\<close>

lemma blocks_chain_extents:
  "blocks_chain H p bs e \<Longrightarrow> sorted_wrt (\<lambda>(a, m) (b, n). unat m \<le> unat b) (extents H bs) \<and>
     (\<forall>(b, n) \<in> set (extents H bs). b \<in> set bs \<and> unat b + 16 \<le> unat n \<and> unat n \<le> unat e)"
proof (induction bs arbitrary: p)
  case (Cons b bs)
  note m = blocks_chain_head [OF Cons.prems]
  have "unat (next_off (H b)) \<le> unat a" if "(a, k) \<in> set (extents H bs)" for a k
    using m(10) [of a] that by (auto simp: extents_def)
  then show ?case using Cons.IH [OF m(2)] m(6,8) by auto
qed simp

text \<open>The blocks in use do not overlap and lie inside the area.\<close>

theorem live_disjoint:
  assumes "heap_inv h"
  shows "sorted_wrt (\<lambda>(a, m) (b, n). unat m \<le> unat b) (live h) \<and>
     (\<forall>(b, n) \<in> set (live h). unat b + 16 \<le> unat n \<and> unat n \<le> unat (heap_end h))"
  using assms blocks_chain_extents [of "blk h" 0 "heap_blocks h" "heap_end h"]
  by (auto simp: heap_inv_def blocks_ok_def live_def)

lemma live_inside:
  assumes "heap_inv h" "(b, n) \<in> set (live h)"
  shows "unat b + 16 \<le> unat n" "unat n \<le> unat (heap_end h)"
    "unat (heap_ptr h + b + 12) = unat (heap_ptr h) + unat b + 12"
    "unat (heap_ptr h) + unat n < 2 ^ 32" "heap_ptr h + b + 12 \<noteq> 0"
    "alloc (unat (heap_ptr h + b + 12)) (unat n - unat b - 12) (bytes h)"
proof -
  have a: "area_ok h" and c: "blocks_chain (blk h) 0 (heap_blocks h) (heap_end h)"
    using assms by (simp_all add: heap_inv_def blocks_ok_def)
  have b: "b \<in> set (heap_blocks h)" "unat b + 16 \<le> unat n" "unat n \<le> unat (heap_end h)"
    using blocks_chain_extents [OF c] assms(2) by (auto simp: live_def)
  then show "unat b + 16 \<le> unat n" "unat n \<le> unat (heap_end h)" by simp_all
  note ad = block_addr [OF a c b(1)]
  show ua: "unat (heap_ptr h + b + 12) = unat (heap_ptr h) + unat b + 12" "heap_ptr h + b + 12 \<noteq> 0"
    by (rule ad)+
  show "unat (heap_ptr h) + unat n < 2 ^ 32" using area_nat(2) [OF a] b(3) by simp
  have "alloc (unat (heap_ptr h)) (unat (mem_size_aligned h) + 24) (bytes h)" using a unfolding area_ok_def by blast
  then show "alloc (unat (heap_ptr h + b + 12)) (unat n - unat b - 12) (bytes h)"
    using b area_nat(1) [OF a] unfolding ua by (auto simp: alloc_def)
qed

lemma live_apart:
  assumes "heap_inv h" "live h = es @ (b, n) # fs" "(a, m) \<in> set es \<union> set fs"
  shows "unat m \<le> unat b \<or> unat n \<le> unat a"
proof -
  have "sorted_wrt (\<lambda>(a, m) (b, n). unat m \<le> unat b) (live h)"
    using assms(1) blocks_chain_extents by (auto simp: heap_inv_def blocks_ok_def live_def)
  then show ?thesis using assms(2,3) by (auto simp: sorted_wrt_append)
qed

lemma bytes_frame [simp]:
  "heap_blocks (h\<lparr>bytes := m\<rparr>) = heap_blocks h" "live (h\<lparr>bytes := m\<rparr>) = live h"
  "blocks_ok (h\<lparr>bytes := m\<rparr>) bs = blocks_ok h bs"
  by (simp_all add: heap_blocks_def live_def blocks_ok_def)

lemma bytes_inv:
  assumes "heap_inv h" "\<And>a. bytes h a \<noteq> None \<Longrightarrow> m a \<noteq> None"
  shows "heap_inv (h\<lparr>bytes := m\<rparr>)"
  using assms by (auto simp: heap_inv_def area_ok_def alloc_def)

section \<open>Zeroed memory\<close>

theorem calloc_zeroes:
  assumes inv: "heap_inv h" "irq_nest h = 0" and c: "rt_malloc (k * sz) h = Some (p, h1)" "p \<noteq> 0"
    and al: "unat (k * sz) + 3 < 2 ^ 32"
  shows "\<exists>h'. rt_calloc k sz h = Some (p, h') \<and> heap_inv h' \<and> live h' = live h1 \<and>
     bytes h' = fill (unat p) 0 (unat (k * sz)) (bytes h1)"
proof -
  let ?s = "k * sz"
  obtain b xs ys where h': "p = heap_ptr h + b + 12" "heap_inv h1"
    "live h1 = extents (blk h) xs @ (b, next_off (blk h1 b)) # extents (blk h) ys"
    "unat b + 12 + unat (request ?s) \<le> unat (next_off (blk h1 b))" "heap_ptr h1 = heap_ptr h"
    by (rule malloc_success [OF inv c]) (rule that)
  have "unat ?s \<le> unat (request ?s)" using rt_align_props(1) [OF al] by (auto simp: request_def word_less_nat_alt)
  then have "alloc (unat p) (unat ?s) (bytes h1)"
    using live_inside(6) [OF h'(2), of b "next_off (blk h1 b)"] h'(1,3-5) by (auto simp: alloc_def)
  then have "rt_memset (unat p) 0 (unat ?s) (bytes h1) = Some (fill (unat p) 0 (unat ?s) (bytes h1))"
    using memset_fills [of "unat p" "unat ?s" "bytes h1" 0] by simp
  then have "rt_calloc k sz h = Some (p, h1\<lparr>bytes := fill (unat p) 0 (unat ?s) (bytes h1)\<rparr>)"
    using c by (simp add: rt_calloc_def)
  moreover have "heap_inv (h1\<lparr>bytes := fill (unat p) 0 (unat ?s) (bytes h1)\<rparr>)"
    using h'(2) by (rule bytes_inv) (simp add: fill_def)
  ultimately show ?thesis by simp
qed

section \<open>What \<open>rt_realloc\<close> keeps\<close>

lemma unlock_locked: "heap_sem h = 1 \<Longrightarrow> heap_unlock (h\<lparr>heap_sem := 0\<rparr>) = h"
  by (simp add: heap_unlock_def)

lemma rt_realloc_eq:
  assumes inv: "heap_inv h" "irq_nest h = 0" and lv: "(b, n) \<in> set (live h)" and n: "n = next_off (blk h b)"
    and sz: "rt_align nsz \<le> mem_size_aligned h" "rt_align nsz \<noteq> 0"
  defines "p \<equiv> heap_ptr h + b + 12" and "s \<equiv> n - b - 12" and "N \<equiv> rt_align nsz"
  shows "rt_realloc p nsz h =
    (if s = N then Some (p, h)
     else if unat N + 24 < unat s then do { h \<leftarrow> shrink_block b s N (h\<lparr>heap_sem := 0\<rparr>); Some (p, heap_unlock h) }
     else do {
       (q, h) \<leftarrow> rt_malloc N h;
       if q \<noteq> 0 then do {
         m \<leftarrow> rt_memcpy (unat q) (unat p) (unat (if s < N then s else N)) (bytes h);
         h \<leftarrow> rt_free p (h\<lparr>bytes := m\<rparr>);
         Some (q, h)
       } else Some (q, h)
     })"
proof -
  note l = live_inside [OF inv(1) lv]
  have a: "area_ok h" and hs: "heap_sem h = 1" using inv(1) by (simp_all add: heap_inv_def)
  have "unat N \<le> unat (mem_size_aligned h)" using sz(1) by (simp add: N_def word_le_nat_alt)
  moreover have "unat (mem_size_aligned h) + 24 < 2 ^ 32" using a by (simp add: area_ok_def)
  ultimately have N: "unat (N + 12 + 12) = unat N + 24" using unat_add32 [of N 24] by (simp add: add.assoc)
  have "unat (heap_ptr h + heap_end h) = unat (heap_ptr h) + unat (heap_end h)"
    using area_nat(2) [OF a] by (intro unat_add32) linarith
  then have r: "\<not> p < heap_ptr h" "\<not> heap_ptr h + heap_end h \<le> p" "p \<noteq> 0"
    using l by (simp_all add: p_def word_less_nat_alt word_le_nat_alt)
  have "p - 12 - heap_ptr h = b" by (simp add: p_def)
  moreover have "\<not> rt_align nsz > mem_size_aligned h" using sz(1) by simp
  moreover have "N + 12 + 12 < s \<longleftrightarrow> unat N + 24 < unat s" by (simp only: word_less_nat_alt N)
  ultimately show ?thesis
    using r inv(2) hs sz unfolding rt_realloc_def N_def [symmetric] s_def n
    by (simp add: heap_lock_def Let_def unlock_locked [OF hs])
qed

text \<open>The block may stay, shrink or move; in every case the new block has room for the new size, holds
  what the old one held up to the smaller of the sizes, and the other blocks are as they were.\<close>

definition realloc_ok :: "heap \<Rightarrow> u32 \<Rightarrow> u32 \<Rightarrow> u32 \<Rightarrow> (u32 \<times> u32) list \<Rightarrow> u32 \<Rightarrow> heap \<Rightarrow> bool" where
  "realloc_ok h b n N others q h' \<longleftrightarrow> heap_inv h' \<and> heap_ptr h' = heap_ptr h \<and> irq_nest h' = irq_nest h \<and>
     (\<exists>c m. q = heap_ptr h + c + 12 \<and> (c, m) \<notin> set others \<and> set (live h') = insert (c, m) (set others) \<and>
        unat c + 12 + unat N \<le> unat m) \<and>
     (\<forall>i < min (unat n - unat b - 12) (unat N).
        bytes h' (unat q + i) = bytes h (unat (heap_ptr h + b + 12) + i))"

lemma blit_defined:
  assumes al: "alloc s n m" and a: "m a \<noteq> None"
  shows "blit d s n m a \<noteq> None"
proof (cases "d \<le> a \<and> a < d + n")
  case True
  then have "s \<le> s + (a - d) \<and> s + (a - d) < s + n" by auto
  then have "m (s + (a - d)) \<noteq> None" using al unfolding alloc_def by blast
  then show ?thesis using True by (simp add: blit_def)
qed (use a in \<open>auto simp: blit_def\<close>)

lemma realloc_moves:
  assumes inv: "heap_inv h" "irq_nest h = 0" and lv: "live h = es @ (b, n) # fs"
    and m: "rt_malloc N h = Some (q, h1)" "q \<noteq> 0" and N: "rt_align N = N"
  defines "p \<equiv> heap_ptr h + b + 12" and "k \<equiv> unat (if n - b - 12 < N then n - b - 12 else N)"
  shows "\<exists>m h'. rt_memcpy (unat q) (unat p) k (bytes h1) = Some m \<and> rt_free p (h1\<lparr>bytes := m\<rparr>) = Some h' \<and>
     realloc_ok h b n N (es @ fs) q h'"
proof -
  obtain c xs ys where h1: "q = heap_ptr h + c + 12" "heap_inv h1"
    "live h = extents (blk h) xs @ extents (blk h) ys"
    "live h1 = extents (blk h) xs @ (c, next_off (blk h1 c)) # extents (blk h) ys"
    "unat c + 12 + unat (request N) \<le> unat (next_off (blk h1 c))"
    "heap_ptr h1 = heap_ptr h" "bytes h1 = bytes h" "irq_nest h1 = 0"
    by (rule malloc_success [OF inv m]) (rule that)
  let ?cn = "next_off (blk h1 c)"
  have N': "unat N \<le> unat (request N)" using N by (auto simp: request_def word_less_nat_alt)
  have L: "set (live h1) = insert (c, ?cn) (set (live h))" by (simp only: h1(3,4)) auto
  then have lb: "(b, n) \<in> set (live h)" "(c, ?cn) \<in> set (live h1)" "(b, n) \<in> set (live h1)"
    using lv by auto
  note li = live_inside [OF inv(1) lb(1)] and li1 = live_inside [OF h1(2) lb(2)]
  have s: "unat (n - b - 12) = unat n - unat b - 12"
    using li(1) room_nat(1) [OF li(1)] by (simp add: algebra_simps)
  have k: "k = min (unat n - unat b - 12) (unat N)" by (auto simp: k_def s word_less_nat_alt)
  have "(b, n) \<in> set (extents (blk h) xs) \<union> set (extents (blk h) ys)" using lb(1) unfolding h1(3) by auto
  then have apart: "unat n \<le> unat c \<or> unat ?cn \<le> unat b" using live_apart [OF h1(2,4)] by blast
  then have "unat q + k \<le> unat p \<or> unat p + k \<le> unat q"
    using li li1 N' k h1(1,5,6) by (auto simp: p_def)
  moreover have al: "alloc (unat q) k (bytes h1)" "alloc (unat p) k (bytes h1)"
    using li(6) li1(6) h1(1,5-7) N' k by (auto simp: alloc_def p_def)
  ultimately have cp: "rt_memcpy (unat q) (unat p) k (bytes h1) = Some (blit (unat q) (unat p) k (bytes h1))"
    by (intro memcpy_copies)
  let ?h2 = "h1\<lparr>bytes := blit (unat q) (unat p) k (bytes h1)\<rparr>"
  have i2: "heap_inv ?h2" using h1(2) blit_defined [OF al(2)] by (intro bytes_inv)
  obtain es1 fs1 where l1: "live ?h2 = es1 @ (b, n) # fs1" using split_list [OF lb(3)] by auto
  obtain h' where h': "rt_free p ?h2 = Some h'" "heap_inv h'" "live h' = es1 @ fs1" "bytes h' = bytes ?h2"
      "heap_ptr h' = heap_ptr ?h2" "irq_nest h' = 0"
    using free_live [OF i2 _ l1] h1(6,8) by (auto simp: p_def)
  have "(c, ?cn) \<noteq> (b, n)" using apart li(1) li1(1) by auto
  moreover have "set (es1 @ fs1) = set (live h1) - {(b, n)}" using live_distinct [OF h1(2)] l1 by auto
  moreover have "(b, n) \<notin> set es \<union> set fs" using live_distinct [OF inv(1)] lv by auto
  moreover have "(c, ?cn) \<notin> set (live h)" using live_distinct [OF h1(2)] unfolding h1(3,4) by simp
  then have new: "(c, ?cn) \<notin> set (es @ fs)" using lv by auto
  ultimately have "set (live h') = insert (c, ?cn) (set (es @ fs))" using h'(3) L lv by auto
  moreover have "bytes h' (unat q + i) = bytes h (unat p + i)" if "i < k" for i
    using that h'(4) h1(7) by (simp add: blit_def)
  moreover have "unat c + 12 + unat N \<le> unat ?cn" using h1(5) N' by simp
  ultimately have "realloc_ok h b n N (es @ fs) q h'"
    unfolding realloc_ok_def using h'(2,5,6) h1(1,6) inv(2) new by (auto simp: p_def k)
  with cp h'(1) show ?thesis by blast
qed

lemma rt_align_idem:
  assumes "area_ok h" "rt_align n \<le> mem_size_aligned h"
  shows "rt_align (rt_align n) = rt_align n"
proof -
  have d: "4 dvd unat (rt_align n)"
    using rt_align_props(3) [of n] rt_align_wraps [of n] by (cases "unat n + 3 < 2 ^ 32") auto
  have "unat (rt_align n) + 3 < 2 ^ 32" using assms by (simp add: area_ok_def word_le_nat_alt)
  then have "unat (rt_align (rt_align n)) = unat (rt_align n)"
    using rt_align_nat d by (simp add: dvd_div_mult_self) presburger
  then show ?thesis by (simp only: word_unat_eq_iff)
qed

lemma malloc_total:
  assumes inv: "heap_inv h" "irq_nest h = 0"
  obtains q h' where "rt_malloc sz h = Some (q, h')" "q = 0 \<Longrightarrow> h' = h"
proof -
  consider "mem_size_aligned h < rt_align sz \<or> find (fits h (request sz)) (heap_blocks h) = None" | "sz = 0"
    | b where "sz \<noteq> 0" "rt_align sz \<le> mem_size_aligned h" "find (fits h (request sz)) (heap_blocks h) = Some b"
    by (metis linorder_not_less option.exhaust)
  then show thesis
  proof cases
    case 1
    then show thesis using malloc_refuses [OF inv] that by blast
  next
    case 2
    then show thesis using that [of 0 h] by (simp add: rt_malloc_def)
  next
    case 3
    have "area_ok h" "blocks_chain (blk h) 0 (heap_blocks h) (heap_end h)" "b \<in> set (heap_blocks h)"
      using inv(1) 3(3) by (auto simp: heap_inv_def blocks_ok_def find_Some_iff)
    then have "heap_ptr h + b + 12 \<noteq> 0" by (rule block_addr(7))
    moreover obtain h' where "rt_malloc sz h = Some (heap_ptr h + b + 12, h')"
      by (rule malloc_effect [OF inv 3])
    ultimately show thesis using that by blast
  qed
qed

lemma realloc_effect:
  assumes inv: "heap_inv h" "irq_nest h = 0" and lv: "live h = es @ (b, n) # fs"
    and sz: "rt_align nsz \<le> mem_size_aligned h" "rt_align nsz \<noteq> 0"
  shows "\<exists>q h'. rt_realloc (heap_ptr h + b + 12) nsz h = Some (q, h') \<and>
     (if q = 0 then h' = h else realloc_ok h b n (rt_align nsz) (es @ fs) q h')"
proof -
  let ?p = "heap_ptr h + b + 12" and ?N = "rt_align nsz"
  define s where "s = n - b - 12"
  have lb: "(b, n) \<in> set (live h)" using lv by simp
  note li = live_inside [OF inv(1) lb]
  have us: "unat s = unat n - unat b - 12"
    using room_nat(1) [OF li(1)] by (simp add: s_def algebra_simps)
  obtain xs ys where bs: "heap_blocks h = xs @ b # ys" "used (blk h b) \<noteq> 0" "n = next_off (blk h b)"
    "es = extents (blk h) xs" "fs = extents (blk h) ys"
    by (rule live_split [OF inv(1) lv])
  note eq = rt_realloc_eq [OF inv lb bs(3) sz, folded s_def]
  have N4: "4 dvd unat ?N"
    using rt_align_props(3) [of nsz] rt_align_wraps [of nsz] by (cases "unat nsz + 3 < 2 ^ 32") auto
  have new: "(b, x) \<notin> set (es @ fs)" for x
    using live_distinct [OF inv(1)] live_inj [of b n h x] lv by auto
  consider "s = ?N" | "s \<noteq> ?N" "unat ?N + 24 < unat s" | "s \<noteq> ?N" "\<not> unat ?N + 24 < unat s" by blast
  then show ?thesis
  proof cases
    case 1
    then have "rt_realloc ?p nsz h = Some (?p, h)" using eq by simp
    moreover have "realloc_ok h b n ?N (es @ fs) ?p h"
      using inv(1) lv us 1 li(1) new by (auto simp: realloc_ok_def intro!: exI [of _ b] exI [of _ n])
    ultimately show ?thesis using li(5) by auto
  next
    case 2
    have "unat ?N \<noteq> 0" using sz(2) by (simp add: unat_eq_0)
    then have n4: "4 \<le> unat ?N" using N4 by (auto elim: dvdE)
    have room: "unat b + unat ?N + 36 \<le> unat (next_off (blk h b))" using 2 us bs(3) by simp
    obtain h' where h': "shrink_block b (next_off (blk h b) - b - 12) ?N (h\<lparr>heap_sem := 0\<rparr>) = Some h'"
      "heap_inv (heap_unlock h')"
      "live (heap_unlock h') = extents (blk h) xs @ (b, b + 12 + ?N) # extents (blk h) ys"
      "bytes h' = bytes h" "heap_ptr h' = heap_ptr h" "irq_nest h' = irq_nest h"
      by (rule shrink_effect [OF inv bs(1,2) N4 n4 room])
    have "rt_realloc ?p nsz h = Some (?p, heap_unlock h')" using eq 2 h'(1) by (simp add: s_def bs(3))
    moreover have "unat (b + 12 + ?N) = unat b + 12 + unat ?N"
      using room_nat(2) [OF li(1)] room unat_lt32 [of "next_off (blk h b)"] unat_add32 [of "b + 12" ?N] by simp
    then have "realloc_ok h b n ?N (es @ fs) ?p (heap_unlock h')"
      using h'(2-6) bs(4,5) new by (auto simp: realloc_ok_def intro!: exI [of _ b] exI [of _ "b + 12 + ?N"])
    ultimately show ?thesis using li(5) by auto
  next
    case 3
    obtain q h1 where m: "rt_malloc ?N h = Some (q, h1)" "q = 0 \<Longrightarrow> h1 = h" by (rule malloc_total [OF inv, of ?N]) (rule that)
    show ?thesis
    proof (cases "q = 0")
      case True
      then have "rt_realloc ?p nsz h = Some (0, h)" using eq 3 m by simp
      then show ?thesis by simp
    next
      case False
      have a: "area_ok h" using inv(1) by (simp add: heap_inv_def)
      have "rt_align ?N = ?N" by (rule rt_align_idem [OF a sz(1)])
      then obtain m' h' where "rt_memcpy (unat q) (unat ?p) (unat (if s < ?N then s else ?N)) (bytes h1) = Some m'"
        "rt_free ?p (h1\<lparr>bytes := m'\<rparr>) = Some h'" "realloc_ok h b n ?N (es @ fs) q h'"
        using realloc_moves [OF inv lv m(1) False, folded s_def] by blast
      then show ?thesis using eq 3 m(1) False by (intro exI [of _ q] exI [of _ h']) simp
    qed
  qed
qed


section \<open>Initialisation, and two limits of the allocator\<close>

lemma rt_align_down_nat: "unat (rt_align_down n) = unat n - unat n mod 4" "4 dvd unat (rt_align_down n)"
proof -
  show u: "unat (rt_align_down n) = unat n - unat n mod 4" using unat_mask_out [of n] by (simp add: rt_align_down_def)
  show "4 dvd unat (rt_align_down n)" unfolding u by presburger
qed

text \<open>The initialised heap is one free block.\<close>

theorem heap_init_ok:
  assumes nest: "irq_nest h = 0" and al: "unat s + 3 < 2 ^ 32"
    and room: "unat (rt_align s) + 36 \<le> unat (rt_align_down e)" and um: "used_mem h = 0"
    and mem: "alloc (unat (rt_align s)) (unat (rt_align_down e) - unat (rt_align s)) (bytes h)"
  shows "\<exists>h'. rt_system_heap_init s e h = Some h' \<and> heap_inv h' \<and> heap_blocks h' = [0] \<and> live h' = [] \<and>
     heap_ptr h' = rt_align s \<and> unat (mem_size_aligned h') = unat (rt_align_down e) - unat (rt_align s) - 24"
proof -
  let ?b = "rt_align s" and ?e = "rt_align_down e"
  define m where "m = ?e - ?b - 24"
  have e24: "unat (?e - 24) = unat ?e - 24" using room by (simp add: unat_diff32)
  have c: "?e > 24" "?b \<le> ?e - 24" using room e24 by (simp_all add: word_less_nat_alt word_le_nat_alt)
  have "unat (?e - ?b) = unat ?e - unat ?b" using room by (simp add: unat_diff32)
  then have um': "unat m = unat ?e - unat ?b - 24" using room by (simp add: m_def unat_diff32)
  have d: "4 dvd unat ?b" "4 dvd unat ?e" using rt_align_props(3) [OF al] rt_align_down_nat by auto
  have m: "12 \<le> unat m" "4 dvd unat m" "unat ?b + unat m + 24 = unat ?e" 
    using room d unfolding um' by - (simp, intro dvd_diff_nat, simp_all)
  have m12: "unat (m + 12) = unat m + 12" using m(3) unat_lt32 [of ?e] unat_add32 [of m 12] by simp
  let ?H = "(blk h)(0 := (blk h 0)\<lparr>magic := HEAP_MAGIC, next_off := m + 12, prev_off := 0, used := 0\<rparr>)"
  let ?H2 = "?H(m + 12 := (?H (m + 12))\<lparr>magic := HEAP_MAGIC, used := 1, next_off := m + 12, prev_off := m + 12\<rparr>)"
  let ?h = "h\<lparr>mem_size_aligned := m, heap_ptr := ?b, blk := ?H2, heap_end := m + 12, heap_sem := 1, lfree := 0\<rparr>"
  have nz: "m + 12 \<noteq> 0" using m12 by (metis add_is_0 unat_0 zero_neq_numeral)
  have "rt_system_heap_init s e h = Some ?h"
    using nest c by (simp add: rt_system_heap_init_def Let_def upd_blk_def m_def [symmetric])
  moreover have a: "area_ok ?h" using m d mem unat_lt32 [of ?e] by (simp add: area_ok_def um')
  have ok: "blocks_ok ?h [0]"
    using nz m12 m(1) um by (simp add: blocks_ok_def coalesced_def first_free_def)
  have "live ?h = []" using heap_invI(3) [OF a ok] nz by simp
  ultimately show ?thesis using heap_invI(1,2) [OF a ok] um' by auto
qed

text \<open>A request that the alignment takes past 32 bits becomes a request for the smallest block.\<close>

theorem huge_request_is_tiny:
  assumes "area_ok h" "2 ^ 32 \<le> unat sz + 3"
  shows "rt_malloc sz h = rt_malloc 1 h"
proof -
  have "unat (1 :: u32) + 3 < 2 ^ 32" by simp
  then have "unat (rt_align 1) = 4" using rt_align_nat [of 1] by simp
  then have one: "rt_align 1 = 4" by (simp add: word_unat_eq_iff)
  have "\<not> (4 :: u32) > mem_size_aligned h" using assms(1) by (simp add: area_ok_def word_less_nat_alt)
  moreover have "sz \<noteq> 0" using assms(2) by auto
  ultimately show ?thesis using rt_align_wraps [OF assms(2)] one by (simp add: rt_malloc_def)
qed

text \<open>The search stops short of a block that ends the area and has exactly the requested size: a heap
  that is all free refuses a request for its whole size.\<close>

theorem exact_fit_at_the_end_refused:
  assumes inv: "heap_inv h" "irq_nest h = 0" and all: "heap_blocks h = [0]" "live h = []"
  shows "used (blk h 0) = 0 \<and> unat (next_off (blk h 0)) - 12 = unat (mem_size_aligned h) \<and>
     rt_malloc (mem_size_aligned h) h = Some (0, h)"
proof -
  have a: "area_ok h" and c: "blocks_chain (blk h) 0 [0] (heap_end h)"
    using inv(1) unfolding heap_inv_def blocks_ok_def all(1) by blast+
  have u: "used (blk h 0) = 0" using all by (simp add: live_def split: if_splits)
  have n: "next_off (blk h 0) = heap_end h" using c by simp
  let ?m = "mem_size_aligned h"
  have "4 dvd unat ?m" "unat ?m + 3 < 2 ^ 32" "12 \<le> unat ?m" using a by (simp_all add: area_ok_def)
  moreover from this have "unat (rt_align ?m) = unat ?m" using rt_align_nat [of ?m] by (auto elim!: dvdE)
  ultimately have "request ?m = ?m" by (simp add: request_def word_less_nat_alt word_unat_eq_iff)
  then have "find (fits h (request ?m)) (heap_blocks h) = None" by (simp add: all fits_def)
  then have "rt_malloc ?m h = Some (0, h)" using malloc_refuses [OF inv] by blast
  then show ?thesis using u n area_nat(1) [OF a] by simp
qed

end
