(* ===== verification/BufferPool.thy ===== *)
theory BufferPool
  imports RingBuffer HeapFree
begin

text \<open>
  The clients of the heap: the allocator contract holds of \<open>rt_malloc\<close> and \<open>rt_free\<close>, and with it the
  creation and destruction of byte ring buffers in \<open>components/drivers/src/ringbuffer.c\<close> neither lose
  memory nor release any that is in use.
\<close>

section \<open>The heap as an allocator\<close>

text \<open>The addresses \<open>rt_malloc\<close> has handed out and not taken back.  A null pointer is \<open>None\<close>.\<close>

definition heap_held :: "heap \<Rightarrow> u32 set" where
  "heap_held h = (\<lambda>(b, n). heap_ptr h + b + 12) ` set (live h)"

definition heap_ready :: "heap \<Rightarrow> bool" where
  "heap_ready h \<longleftrightarrow> heap_inv h \<and> irq_nest h = 0"

definition heap_get :: "u32 \<Rightarrow> heap \<Rightarrow> (u32 option \<times> heap) option" where
  "heap_get sz h = map_option (\<lambda>(p, h). (if p = 0 then None else Some p, h)) (rt_malloc sz h)"

lemma heap_get_some:
  assumes r: "heap_ready h" and g: "heap_get sz h = Some (Some p, h')"
  shows "heap_ready h'" "p \<notin> heap_held h" "heap_held h' = insert p (heap_held h)"
    "\<exists>b n. p = heap_ptr h' + b + 12 \<and> (b, n) \<in> set (live h') \<and> unat b + 12 + unat (request sz) \<le> unat n"
proof -
  have m: "rt_malloc sz h = Some (p, h')" "p \<noteq> 0" using g by (auto simp: heap_get_def split: if_splits)
  have inv: "heap_inv h" "irq_nest h = 0" using r by (simp_all add: heap_ready_def)
  obtain b xs ys where h': "p = heap_ptr h + b + 12" "rt_align sz \<le> mem_size_aligned h"
    "heap_blocks h = xs @ b # ys" "used (blk h b) = 0"
    "heap_inv h'" "blocks_ok h' (xs @ b # remainder h b (request sz) @ ys)"
    "heap_blocks h' = xs @ b # remainder h b (request sz) @ ys"
    "live h = extents (blk h) xs @ extents (blk h) ys"
    "live h' = extents (blk h) xs @ (b, next_off (blk h' b)) # extents (blk h) ys"
    "unat b + 12 + unat (request sz) \<le> unat (next_off (blk h' b))"
    "heap_ptr h' = heap_ptr h" "bytes h' = bytes h" "irq_nest h' = 0" "mem_size_aligned h' = mem_size_aligned h"
    "\<And>x. x \<in> set xs \<union> set ys \<Longrightarrow> used (blk h' x) = used (blk h x)"
    "remainder h b (request sz) \<noteq> [] \<Longrightarrow> used (blk h' (hd (remainder h b (request sz)))) = 0"
    by (rule malloc_success [OF inv m]) (rule that)
  show "heap_ready h'" using h'(5,13) by (simp add: heap_ready_def)
  show "heap_held h' = insert p (heap_held h)" using h'(1,8,9,11) by (simp add: heap_held_def)
  have "b \<notin> fst ` set (live h)" using h'(4) by (auto simp: live_def extents_def)
  then show "p \<notin> heap_held h" using h'(1) by (force simp: heap_held_def)
  show "\<exists>b n. p = heap_ptr h' + b + 12 \<and> (b, n) \<in> set (live h') \<and> unat b + 12 + unat (request sz) \<le> unat n"
    using h'(1,9-11) by (intro exI [of _ b] exI [of _ "next_off (blk h' b)"]) simp
qed

lemma heap_put_held:
  assumes r: "heap_ready h" and p: "p \<in> heap_held h"
  shows "\<exists>h'. rt_free p h = Some h' \<and> heap_ready h' \<and> heap_held h' = heap_held h - {p} \<and> bytes h' = bytes h"
proof -
  obtain b n where b: "(b, n) \<in> set (live h)" "p = heap_ptr h + b + 12" using p by (auto simp: heap_held_def)
  obtain es fs where l: "live h = es @ (b, n) # fs" using split_list [OF b(1)] by blast
  obtain h' where h': "rt_free p h = Some h'" "heap_inv h'" "live h' = es @ fs" "bytes h' = bytes h"
      "heap_ptr h' = heap_ptr h" "irq_nest h' = 0"
    using free_live [OF _ _ l] r b(2) unfolding heap_ready_def by blast
  have inv: "heap_inv h" using r by (simp add: heap_ready_def)
  have "set (es @ fs) = set (live h) - {(b, n)}" using live_distinct [OF inv] l by auto
  moreover have "inj_on (\<lambda>(b, n). heap_ptr h + b + 12) (set (live h))"
    by (auto simp: inj_on_def dest: live_inj)
  ultimately have "heap_held h' = heap_held h - {p}"
    using inj_on_image_set_diff [of "\<lambda>(b, n). heap_ptr h + b + 12" "set (live h)" "set (live h)" "{(b, n)}"] b h'(3,5)
    by (simp add: heap_held_def)
  then show ?thesis using h' by (simp add: heap_ready_def)
qed

lemma held_not_null: "heap_ready h \<Longrightarrow> p \<in> heap_held h \<Longrightarrow> p \<noteq> 0"
  using live_inside(5) by (auto simp: heap_ready_def heap_held_def)

interpretation heap_alloc: allocator heap_ready heap_held heap_get rt_free
proof unfold_locales
  fix h n
  assume "heap_ready h"
  then obtain q h' where "rt_malloc n h = Some (q, h')" using malloc_total [of h n] unfolding heap_ready_def by blast
  then show "\<exists>r h'. heap_get n h = Some (r, h')" by (simp add: heap_get_def)
next
  fix h n b h'
  assume "heap_ready h" "heap_get n h = Some (Some b, h')"
  from heap_get_some [OF this] show "heap_ready h' \<and> b \<notin> heap_held h \<and> heap_held h' = insert b (heap_held h)" by blast
next
  fix h n h'
  assume r: "heap_ready h" and g: "heap_get n h = Some (None, h')"
  obtain q h1 where "rt_malloc n h = Some (q, h1)" "q = 0 \<Longrightarrow> h1 = h"
    using malloc_total [of h n] r unfolding heap_ready_def by blast
  then show "h' = h" using g by (auto simp: heap_get_def split: if_splits)
next
  fix h b
  assume "heap_ready h" "b \<in> heap_held h"
  from heap_put_held [OF this]
  show "\<exists>h'. rt_free b h = Some h' \<and> heap_ready h' \<and> heap_held h' = heap_held h - {b}" by blast
qed

text \<open>Beside the blocks \<open>R\<close> of others, exactly the blocks \<open>bs\<close> are held.\<close>

definition owns :: "u32 set \<Rightarrow> heap \<Rightarrow> u32 list \<Rightarrow> bool" where
  "owns R h bs \<longleftrightarrow> heap_ready h \<and> distinct bs \<and> R \<inter> set bs = {} \<and> heap_held h = R \<union> set bs"

lemma owns_append:
  "owns R h (bs @ cs) \<longleftrightarrow> owns (R \<union> set cs) h bs \<and> distinct cs \<and> R \<inter> set cs = {}"
  "owns R h (bs @ cs) \<longleftrightarrow> owns (R \<union> set bs) h cs \<and> distinct bs \<and> R \<inter> set bs = {}"
  by (auto simp: owns_def)

lemma owns_cons: "owns R h (b # bs) \<longleftrightarrow> owns (insert b R) h bs \<and> b \<notin> R"
  by (auto simp: owns_def)

lemma owns_get:
  assumes "heap_get n h = Some (Some p, h')" "owns R h bs"
  shows "owns R h' (p # bs)" "p \<noteq> 0"
proof -
  have r: "heap_ready h" using assms(2) by (simp add: owns_def)
  note g = heap_get_some [OF r assms(1)]
  show "owns R h' (p # bs)" using g assms(2) by (auto simp: owns_def)
  show "p \<noteq> 0" using held_not_null [OF g(1), of p] g(3) by simp
qed

lemma owns_put:
  assumes "rt_free p h = Some h'" "owns R h (p # bs)"
  shows "owns R h' bs"
proof -
  have r: "heap_ready h" "p \<in> heap_held h" using assms(2) by (auto simp: owns_def)
  show ?thesis using heap_put_held [OF r] assms by (auto simp: owns_def)
qed

text \<open>A block that is resized: a null pointer is a new request; a refusal changes nothing.\<close>

lemma heap_regrow:
  assumes r: "heap_ready h" and p: "p = 0 \<or> p \<in> heap_held h" and n: "rt_align n \<noteq> 0"
  shows "\<exists>q h'. rt_realloc p n h = Some (q, h') \<and>
    (if q = 0 then h' = h else heap_ready h' \<and> q \<notin> heap_held h - {p} \<and> heap_held h' = insert q (heap_held h - {p}))"
proof (cases "mem_size_aligned h < rt_align n")
  case True
  then show ?thesis using r by (simp add: rt_realloc_def Let_def heap_ready_def)
next
  case fits: False
  have inv: "heap_inv h" "irq_nest h = 0" using r by (simp_all add: heap_ready_def)
  show ?thesis
  proof (cases "p = 0")
    case True
    obtain q h' where q: "rt_malloc (rt_align n) h = Some (q, h')" "q = 0 \<Longrightarrow> h' = h" by (rule malloc_total [OF inv]) (rule that)
    have e: "rt_realloc p n h = Some (q, h')" using True fits n q(1) inv by (simp add: rt_realloc_def Let_def)
    show ?thesis
    proof (cases "q = 0")
      case False
      have g: "heap_get (rt_align n) h = Some (Some q, h')" using q(1) False by (simp add: heap_get_def)
      show ?thesis using heap_get_some [OF r g] e False True held_not_null [OF r] by (intro exI [of _ q] exI [of _ h']) auto
    qed (use e q(2) in simp)
  next
    case False
    then obtain b m where b: "(b, m) \<in> set (live h)" "p = heap_ptr h + b + 12" using p by (auto simp: heap_held_def)
    obtain es fs where l: "live h = es @ (b, m) # fs" using split_list [OF b(1)] by blast
    obtain q h' where q: "rt_realloc p n h = Some (q, h')"
      "if q = 0 then h' = h else realloc_ok h b m (rt_align n) (es @ fs) q h'"
      using realloc_effect [OF inv l _ n] fits unfolding b(2) linorder_not_less by blast
    show ?thesis
    proof (cases "q = 0")
      case True
      then show ?thesis using q by simp
    next
      case False
      then obtain c k where c: "heap_inv h'" "heap_ptr h' = heap_ptr h" "irq_nest h' = 0" "q = heap_ptr h + c + 12"
        "(c, k) \<notin> set (es @ fs)" "set (live h') = insert (c, k) (set (es @ fs))"
        using q(2) inv(2) unfolding realloc_ok_def by auto
      have other: "(b', n') \<in> set (es @ fs) \<Longrightarrow> b' \<noteq> b \<and> b' \<noteq> c" for b' n'
        using live_distinct [OF inv(1)] live_inj [of b m h n'] live_inj [of c k h' n'] c(5,6) l by auto
      have "heap_held h - {p} = (\<lambda>(b, n). heap_ptr h + b + 12) ` set (es @ fs)"
        using other b(2) by (fastforce simp: heap_held_def l)
      moreover have "heap_held h' = insert q ((\<lambda>(b, n). heap_ptr h + b + 12) ` set (es @ fs))"
        by (simp add: heap_held_def c(2,4,6))
      moreover have "q \<notin> (\<lambda>(b, n). heap_ptr h + b + 12) ` set (es @ fs)" using other c(4) by force
      ultimately show ?thesis using q(1) False c(1,3) by (intro exI [of _ q] exI [of _ h']) (simp add: heap_ready_def)
    qed
  qed
qed

text \<open>Zeroed memory.\<close>

definition heap_zalloc :: "u32 \<Rightarrow> heap \<Rightarrow> (u32 option \<times> heap) option" where
  "heap_zalloc sz h = map_option (\<lambda>(p, h). (if p = 0 then None else Some p, h)) (rt_calloc 1 sz h)"

lemma heap_zalloc_cases:
  assumes r: "heap_ready h" and n: "unat sz + 3 < 2 ^ 32"
  obtains "heap_zalloc sz h = Some (None, h)"
  | p h' where "heap_zalloc sz h = Some (Some p, h')" "heap_ready h'" "p \<notin> heap_held h" "heap_held h' = insert p (heap_held h)"
proof -
  have inv: "heap_inv h" "irq_nest h = 0" using r by (simp_all add: heap_ready_def)
  obtain q h1 where q: "rt_malloc (1 * sz) h = Some (q, h1)" "q = 0 \<Longrightarrow> h1 = h" by (rule malloc_total [OF inv]) (rule that)
  show thesis
  proof (cases "q = 0")
    case True
    then show thesis using q that(1) by (simp add: heap_zalloc_def rt_calloc_def)
  next
    case False
    have g: "heap_get sz h = Some (Some q, h1)" using q(1) False by (simp add: heap_get_def)
    note h1 = heap_get_some [OF r g]
    obtain h' where h': "rt_calloc 1 sz h = Some (q, h')" "heap_inv h'" "live h' = live h1"
      using calloc_zeroes [OF inv q(1) False] n by auto
    then have e: "h' = h1\<lparr>bytes := bytes h'\<rparr>"
      using q(1) False by (auto simp: rt_calloc_def Option.bind_eq_Some_conv)
    have "heap_ptr h' = heap_ptr h1" "irq_nest h' = irq_nest h1" by (subst e, simp)+
    then have "heap_ready h'" "heap_held h' = heap_held h1" using h'(2,3) h1(1) by (simp_all add: heap_ready_def heap_held_def)
    then show thesis using that(2) [of q h'] h'(1) h1(2,3) False by (simp add: heap_zalloc_def)
  qed
qed

section \<open>Ring buffers on the heap\<close>

text \<open>The control block takes 12 bytes.  A created buffer is the address of its control block, the
  address of its pool (the field \<open>buffer_ptr\<close>) and the buffer itself; the size is an unsigned 16-bit
  number here and a signed one for \<open>rt_ringbuffer_init\<close>.\<close>

definition rt_ringbuffer_create :: "u16 \<Rightarrow> heap \<Rightarrow> ((u32 \<times> u32 \<times> rt_ringbuffer) option \<times> heap) option" where
  "rt_ringbuffer_create sz h = do {
     rt_assert (sz > 0);
     let sz = sz AND NOT 3;
     (rb, h) \<leftarrow> rt_malloc 12 h;
     if rb = 0 then Some (None, h) else do {
     (pool, h) \<leftarrow> rt_malloc (ucast sz) h;
     if pool = 0 then do {
       h \<leftarrow> rt_free rb h;
       Some (None, h)
     } else do {
       r \<leftarrow> rt_ringbuffer_init (map (\<lambda>i. the (bytes h (unat pool + i))) [0..<unat sz]) (sint sz);
       Some (Some (rb, pool, r), h)
     }}
   }"

definition rt_ringbuffer_destroy :: "u32 \<times> u32 \<times> rt_ringbuffer \<Rightarrow> heap \<Rightarrow> heap option" where
  "rt_ringbuffer_destroy = (\<lambda>(rb, pool, r) h. do {
     rt_assert (rb \<noteq> 0);
     h \<leftarrow> rt_free pool h;
     rt_free rb h
   })"

lemma ringbuffer_create_eq:
  assumes "sz > 0"
  shows "rt_ringbuffer_create sz h =
     Option.bind (take_two heap_get rt_free 12 (ucast (sz AND NOT 3)) h) (\<lambda>(r, h). case r of
        None \<Rightarrow> Some (None, h)
      | Some (a, p) \<Rightarrow> Option.bind
          (rt_ringbuffer_init (map (\<lambda>i. the (bytes h (unat p + i))) [0..<unat (sz AND NOT 3)]) (sint (sz AND NOT 3)))
          (\<lambda>r. Some (Some (a, p, r), h)))"
proof (cases "rt_malloc 12 h")
  case None
  then show ?thesis using assms by (simp add: rt_ringbuffer_create_def take_two_def heap_get_def)
next
  case (Some x)
  obtain a h1 where x: "x = (a, h1)" by fastforce
  show ?thesis
  proof (cases "a = 0 \<or> rt_malloc (ucast (sz AND NOT 3)) h1 = None")
    case True
    then show ?thesis using assms Some x
      by (auto simp: rt_ringbuffer_create_def take_two_def heap_get_def Let_def)
  next
    case False
    then obtain p h2 where "rt_malloc (ucast (sz AND NOT 3)) h1 = Some (p, h2)" by fastforce
    then show ?thesis using assms Some x False
      by (cases "p = 0")
        (simp_all add: rt_ringbuffer_create_def take_two_def heap_get_def Let_def Option.bind_assoc)
  qed
qed

lemma unat_align_down: "unat (sz AND NOT 3) = 4 * (unat sz div 4)" for sz :: u16
proof -
  have m: "(3 :: u16) = mask 2" by (simp add: mask_eq_exp_minus_1)
  have "sz AND NOT 3 = push_bit 2 (drop_bit 2 sz)"
    unfolding m by (rule bit_word_eqI) (auto simp: bit_and_iff bit_not_iff bit_mask_iff bit_push_bit_iff bit_drop_bit_eq
        simp del: add_2_eq_Suc add_2_eq_Suc')
  moreover have "unat (drop_bit 2 sz) = unat sz div 4" by (simp add: drop_bit_eq_div unat_div)
  moreover have "unat sz div 4 * 4 < 2 ^ 16" using unsigned_less [of sz, where ?'a = nat] by simp
  ultimately show ?thesis by (simp add: push_bit_eq_mult unat_word_ariths mult.commute)
qed

lemma sint_small: "unat (sz :: u16) < 2 ^ 15 \<Longrightarrow> sint sz = int (unat sz)"
proof -
  assume "unat sz < 2 ^ 15"
  then have "uint sz < 2 ^ 15" by (simp only: unat_eq_nat_uint nat_less_iff uint_ge_0) simp
  moreover have u: "int (unat sz) = uint sz" by simp
  ultimately show ?thesis unfolding u sint_uint
    by (simp add: signed_take_bit_int_eq_self order_trans [OF _ uint_ge_0])
qed

lemma init_empty:
  fixes sz :: u16
  assumes sz: "4 \<le> unat sz" "unat sz < 2 ^ 15"
  obtains rb where "rt_ringbuffer_init (map f [0..<unat (sz AND NOT 3)]) (sint (sz AND NOT 3)) = Some rb"
    "rb_inv rb" "rb_contents rb = []" "buffer_size rb = 4 * (unat sz div 4)"
proof -
  let ?n = "unat (sz AND NOT 3)"
  have n: "?n = 4 * (unat sz div 4)" by (rule unat_align_down)
  then have s: "sint (sz AND NOT 3) = int ?n" using sz(2) by (intro sint_small) simp
  have "4 \<le> ?n" "?n < 2 ^ 15" unfolding n using sz by simp_all
  then have "rt_ringbuffer_init (map f [0..<?n]) (sint (sz AND NOT 3)) =
      Some \<lparr>buffer_ptr = map f [0..<?n], read_mirror = False, read_index = 0, write_mirror = False, write_index = 0,
        buffer_size = ?n\<rparr>"
    unfolding s n using and_not_3 [of "4 * int (unat sz div 4)"]
    by (simp add: rt_ringbuffer_init_def nat_mult_distrib nat_div_distrib)
  then show thesis using that \<open>4 \<le> ?n\<close> \<open>?n < 2 ^ 15\<close> n
    by (simp add: rb_inv_def rb_contents_def rb_len_def)
qed

text \<open>Creating a buffer returns an empty one in two blocks that nobody held, or none without
  keeping any memory.\<close>

theorem ringbuffer_create_law:
  assumes r: "heap_ready h" and sz: "4 \<le> unat sz" "unat sz < 2 ^ 15"
  shows "\<exists>r h'. rt_ringbuffer_create sz h = Some (r, h') \<and> heap_ready h' \<and>
     (case r of
        None \<Rightarrow> heap_held h' = heap_held h
      | Some (a, p, rb) \<Rightarrow> a \<noteq> p \<and> a \<notin> heap_held h \<and> p \<notin> heap_held h \<and> heap_held h' = insert a (insert p (heap_held h)) \<and>
          rb_inv rb \<and> rb_contents rb = [] \<and> buffer_size rb = 4 * (unat sz div 4))"
proof -
  have pos: "sz > 0" using sz(1) by (simp add: word_less_nat_alt)
  show ?thesis
  proof (cases rule: heap_alloc.take_two_law [OF r, of 12 "ucast (sz AND NOT 3)"])
    case (1 h')
    then show ?thesis by (intro exI [of _ None] exI [of _ h']) (simp add: ringbuffer_create_eq [OF pos])
  next
    case (2 a p h')
    obtain rb where "rt_ringbuffer_init (map (\<lambda>i. the (bytes h' (unat p + i))) [0..<unat (sz AND NOT 3)])
        (sint (sz AND NOT 3)) = Some rb"
      "rb_inv rb" "rb_contents rb = []" "buffer_size rb = 4 * (unat sz div 4)"
      by (rule init_empty [OF sz])
    then show ?thesis using 2
      by (intro exI [of _ "Some (a, p, rb)"] exI [of _ h']) (simp add: ringbuffer_create_eq [OF pos])
  qed
qed

text \<open>A created buffer can be destroyed, after which the heap holds what it held before.\<close>

theorem ringbuffer_create_destroy:
  assumes r: "heap_ready h" and c: "rt_ringbuffer_create sz h = Some (Some rb, h1)"
  shows "\<exists>h2. rt_ringbuffer_destroy rb h1 = Some h2 \<and> heap_ready h2 \<and> heap_held h2 = heap_held h"
proof -
  have pos: "sz > 0" using c by (auto simp: rt_ringbuffer_create_def Option.bind_eq_Some_conv)
  show ?thesis
  proof (cases rule: heap_alloc.take_two_law [OF r, of 12 "ucast (sz AND NOT 3)"])
    case (1 h')
    then show ?thesis using c by (simp add: ringbuffer_create_eq [OF pos])
  next
    case (2 a p h')
    then have e: "h1 = h'" "\<exists>q. rb = (a, p, q)"
      using c by (auto simp: ringbuffer_create_eq [OF pos] Option.bind_eq_Some_conv)
    have "a \<in> heap_held h'" "p \<in> heap_held h'" using 2(6) by simp_all
    from heap_alloc.give_two [OF 2(2) this 2(3)]
    obtain h2 where h2: "Option.bind (rt_free p h') (rt_free a) = Some h2" "heap_ready h2"
        "heap_held h2 = heap_held h' - {a, p}" by blast
    have "a \<noteq> 0" using held_not_null [OF 2(2)] 2(6) by blast
    then show ?thesis using e h2 2 by (auto simp: rt_ringbuffer_destroy_def)
  qed
qed

text \<open>Sizes below 4 become 0, and sizes from 32768 on become negative for \<open>rt_ringbuffer_init\<close>, whose
  assertion then stops the system.\<close>

theorem ringbuffer_create_bad_size:
  assumes r: "heap_ready h" and sz: "0 < sz" "unat sz < 4 \<or> 2 ^ 15 \<le> unat sz"
  shows "rt_ringbuffer_create sz h = None \<and> 2 ^ 15 \<le> unat sz \<or>
     (\<exists>h'. rt_ringbuffer_create sz h = Some (None, h') \<and> heap_ready h' \<and> heap_held h' = heap_held h)"
proof (cases rule: heap_alloc.take_two_law [OF r, of 12 "ucast (sz AND NOT 3)"])
  case (1 h')
  then show ?thesis by (simp add: ringbuffer_create_eq [OF sz(1)])
next
  case (2 a p h')
  have "sz AND NOT 3 \<noteq> 0"
  proof
    assume z: "sz AND NOT 3 = 0"
    show False using 2(1) unfolding z
      by (auto simp: take_two_def heap_get_def rt_malloc_def Option.bind_eq_Some_conv split: if_splits)
  qed
  then have "unat (sz AND NOT 3) \<noteq> 0" by (simp add: unat_eq_0)
  then have big: "2 ^ 15 \<le> unat (sz AND NOT 3)" using sz(2) unat_align_down [of sz] by auto
  have "uint (sz AND NOT 3) < 2 ^ 16" using uint_lt2p [of "sz AND NOT 3"] by simp
  moreover have "int (2 ^ 15) \<le> uint (sz AND NOT 3)" using big unfolding unat_eq_nat_uint by (simp only: le_nat_iff uint_ge_0)
  then have "2 ^ 15 \<le> uint (sz AND NOT 3)" by simp
  ultimately have "uint (sz AND NOT 3) div 2 ^ 15 = 1"
    by (intro int_div_pos_eq [where r = "uint (sz AND NOT 3) - 2 ^ 15"]) simp_all
  then have "bit (uint (sz AND NOT 3)) 15" unfolding bit_iff_odd by simp
  then have "sint (sz AND NOT 3) < 0" unfolding sint_uint by (simp only: signed_take_bit_negative_iff) simp
  then show ?thesis using 2(1) big sz(2) unat_align_down [of sz] by (simp add: ringbuffer_create_eq [OF sz(1)] rt_ringbuffer_init_def)
qed

end
