(* ===== verification/AlignedHeap.thy ===== *)
theory AlignedHeap
  imports BufferPool
begin

text \<open>
  Aligned memory on the heap, \<open>rt_malloc_align\<close> and \<open>rt_free_align\<close> of \<open>src/src/kservice.c\<close>: a larger
  block is allocated, an aligned address inside it is returned, and the word before that address
  holds the address of the block.
\<close>

definition load32 :: "nat \<Rightarrow> memory \<Rightarrow> u32 option" where
  "load32 a m = do {
     b0 \<leftarrow> m a; b1 \<leftarrow> m (a + 1); b2 \<leftarrow> m (a + 2); b3 \<leftarrow> m (a + 3);
     Some (ucast b0 OR push_bit 8 (ucast b1) OR push_bit 16 (ucast b2) OR push_bit 24 (ucast b3))
   }"

definition rt_malloc_align :: "u32 \<Rightarrow> u32 \<Rightarrow> heap \<Rightarrow> (u32 \<times> heap) option" where
  "rt_malloc_align sz align h =
     (let uintptr_size = 4 - 1;
          align = (align + uintptr_size) AND NOT uintptr_size;
          align_size = ((sz + uintptr_size) AND NOT uintptr_size) + align in do {
      (ptr, h) \<leftarrow> rt_malloc align_size h;
      if ptr \<noteq> 0 then do {
        let align_ptr = (if ptr AND (align - 1) = 0 then ptr + align else (ptr + (align - 1)) AND NOT (align - 1));
        m \<leftarrow> store32 (unat (align_ptr - 4)) ptr (bytes h);
        Some (align_ptr, h\<lparr>bytes := m\<rparr>)
      } else Some (ptr, h)
     })"

definition rt_free_align :: "u32 \<Rightarrow> heap \<Rightarrow> heap option" where
  "rt_free_align ptr h = do {
     real_ptr \<leftarrow> load32 (unat (ptr - 4)) (bytes h);
     rt_free real_ptr h
   }"

section \<open>Words in memory\<close>

lemma store32_alloc:
  assumes "alloc a 4 m"
  obtains m' where "store32 a v m = Some m'" "load32 a m' = Some v" "\<And>x. m' x \<noteq> None \<longleftrightarrow> m x \<noteq> None"
    "\<And>x. x < a \<or> a + 4 \<le> x \<Longrightarrow> m' x = m x"
proof -
  have d: "m a \<noteq> None" "m (a + 1) \<noteq> None" "m (a + 2) \<noteq> None" "m (a + 3) \<noteq> None"
    using assms by (auto simp: alloc_def)
  let ?m = "m(a \<mapsto> ucast v, a + 1 \<mapsto> ucast (drop_bit 8 v), a + 2 \<mapsto> ucast (drop_bit 16 v), a + 3 \<mapsto> ucast (drop_bit 24 v))"
  have s: "store32 a v m = Some ?m" using d by (simp add: store32_def store8_def)
  have w: "ucast (ucast v :: u8) OR push_bit 8 (ucast (ucast (drop_bit 8 v) :: u8)) OR
      push_bit 16 (ucast (ucast (drop_bit 16 v) :: u8)) OR push_bit 24 (ucast (ucast (drop_bit 24 v) :: u8)) = v"
  proof (rule bit_word_eqI)
    fix n
    assume "n < LENGTH(32)"
    then consider "n < 8" | "8 \<le> n" "n < 16" | "16 \<le> n" "n < 24" | "24 \<le> n" "n < 32" by fastforce
    then show "bit (ucast (ucast v :: u8) OR push_bit 8 (ucast (ucast (drop_bit 8 v) :: u8)) OR
      push_bit 16 (ucast (ucast (drop_bit 16 v) :: u8)) OR push_bit 24 (ucast (ucast (drop_bit 24 v) :: u8)) :: u32) n = bit v n"
      by cases (auto simp: bit_or_iff bit_ucast_iff bit_push_bit_iff bit_drop_bit_eq)
  qed
  show thesis
  proof (rule that [OF s])
    show "load32 a ?m = Some v" using w by (simp add: load32_def)
    show "?m x \<noteq> None \<longleftrightarrow> m x \<noteq> None" for x using d by auto
    show "?m x = m x" if "x < a \<or> a + 4 \<le> x" for x using that by auto
  qed
qed

section \<open>The aligned address\<close>

lemma mask_out: "unat (x AND NOT (2 ^ k - 1)) = unat x - unat x mod 2 ^ k" "unat (x AND (2 ^ k - 1)) = unat x mod 2 ^ k" for x :: u32
proof -
  have m: "2 ^ k - 1 = (mask k :: u32)" by (simp add: mask_eq_exp_minus_1)
  have "unat (take_bit k x) = take_bit k (unat x)" by (simp only: unsigned_take_bit_eq)
  then have t: "unat (take_bit k x) = unat x mod 2 ^ k" by (simp only: take_bit_eq_mod [of k "unat x"])
  then show "unat (x AND (2 ^ k - 1)) = unat x mod 2 ^ k" by (simp only: m take_bit_eq_mask [symmetric])
  have "(x AND NOT (mask k)) AND (x AND mask k) = 0" by (auto simp: bit_eq_iff bit_simps)
  then have "(x AND NOT (mask k)) + take_bit k x = (x AND NOT (mask k)) OR (x AND mask k)"
    by (simp add: disjunctive_add_eq_or take_bit_eq_mask)
  also have "\<dots> = x" by (auto simp: bit_eq_iff bit_simps)
  finally have "x AND NOT (mask k) = x - take_bit k x" by (simp add: algebra_simps)
  then show "unat (x AND NOT (2 ^ k - 1)) = unat x - unat x mod 2 ^ k"
    unfolding m using unat_diff32 [of "take_bit k x" x] t by simp
qed

lemma unat_pow2: "k < 32 \<Longrightarrow> unat (2 ^ k :: u32) = 2 ^ k"
proof -
  assume k: "k < 32"
  have "(2 :: nat) ^ k < 2 ^ 32" by (rule power_strict_increasing [OF k]) simp
  then show ?thesis
    using k unsigned_of_nat [of "2 ^ k", where ?'a = nat and ?'b = 32] by (simp add: take_bit_nat_eq_self)
qed

lemma align_ptr_nat:
  fixes p :: u32
  assumes k: "2 \<le> k" "k < 32" and p: "4 dvd unat p" "unat p + 2 ^ k < 2 ^ 32"
  defines "q \<equiv> if p AND (2 ^ k - 1) = 0 then p + 2 ^ k else (p + (2 ^ k - 1)) AND NOT (2 ^ k - 1)"
  shows "unat q = unat p - unat p mod 2 ^ k + 2 ^ k" "unat p + 4 \<le> unat q" "unat q \<le> unat p + 2 ^ k"
    "2 ^ k dvd unat q"
proof -
  let ?A = "2 ^ k :: nat"
  note A = unat_pow2 [OF k(2)]
  have A4: "4 dvd ?A" using le_imp_power_dvd [of 2 k "2 :: nat"] k(1) by simp
  show u: "unat q = unat p - unat p mod ?A + ?A"
  proof (cases "p AND (2 ^ k - 1) = 0")
    case True
    then have "unat p mod ?A = 0" using mask_out(2) [of p k] by simp
    moreover have "unat (p + 2 ^ k) = unat p + ?A" using unat_add32 [of p "2 ^ k"] p(2) A by simp
    ultimately show ?thesis using True by (simp add: q_def)
  next
    case False
    then have "unat p mod ?A \<noteq> 0" using mask_out(2) [of p k] by (simp add: unat_eq_0 [symmetric])
    moreover have "unat (2 ^ k - 1 :: u32) = ?A - 1" using A by (subst unat_diff32) simp_all
    then have "unat (p + (2 ^ k - 1)) = unat p + (?A - 1)" using unat_add32 [of p "2 ^ k - 1"] p(2) by simp
    then have "unat q = unat p + (?A - 1) - (unat p + (?A - 1)) mod ?A" using False mask_out(1) by (simp add: q_def)
    moreover have "(unat p + (?A - 1)) mod ?A = unat p mod ?A - 1"
    proof -
      have "unat p + (?A - 1) = ?A * (unat p div ?A + 1) + (unat p mod ?A - 1)"
      proof -
        have "?A * (unat p div ?A + 1) = ?A * (unat p div ?A) + ?A" "0 < ?A" by simp_all
        then show ?thesis using \<open>unat p mod ?A \<noteq> 0\<close> mult_div_mod_eq [of ?A "unat p"] by linarith
      qed
      moreover have "(?A * c + d) mod ?A = d" if "d < ?A" for c d using that by simp
      ultimately show ?thesis by (metis less_imp_diff_less mod_less_divisor zero_less_power zero_less_numeral)
    qed
    ultimately have "unat q = unat p + (?A - 1) - (unat p mod ?A - 1)" "0 < unat p mod ?A" by simp_all
    moreover have "unat p mod ?A \<le> unat p" "0 < ?A" by simp_all
    ultimately show ?thesis by linarith
  qed
  have r: "unat p mod ?A < ?A" "4 dvd unat p mod ?A" using p(1) A4 by (simp_all add: dvd_mod)
  have "x + 4 \<le> y" if "x < y" "4 dvd x" "4 dvd y" for x y :: nat using that by presburger
  from this [OF r A4] have "unat p mod ?A + 4 \<le> ?A" .
  then show "unat p + 4 \<le> unat q" "unat q \<le> unat p + ?A" using u by simp_all
  show "?A dvd unat q" unfolding u by (intro dvd_add dvd_minus_mod dvd_refl)
qed

section \<open>Allocating and releasing\<close>

lemma malloc_align_effect:
  assumes r: "heap_ready h" and k: "2 \<le> k" "k < 32" and fit: "unat sz + 2 ^ k + 6 < 2 ^ 32"
  obtains "rt_malloc_align sz (2 ^ k) h = Some (0, h)"
    | p q b n h' where "rt_malloc_align sz (2 ^ k) h = Some (q, h')" "heap_ready h'" "q \<noteq> 0" "2 ^ k dvd unat q"
      "p \<notin> heap_held h" "heap_held h' = insert p (heap_held h)" "load32 (unat (q - 4)) (bytes h') = Some p"
      "p = heap_ptr h' + b + 12" "(b, n) \<in> set (live h')" "unat p + 4 \<le> unat q"
      "unat q + unat sz \<le> unat (heap_ptr h') + unat n"
proof -
  let ?n = "rt_align sz + rt_align (2 ^ k)"
  have al: "(x + (4 - 1)) AND NOT (4 - 1) = rt_align x" for x by (simp add: rt_align_def add.commute)
  note A = unat_pow2 [OF k(2)]
  have "4 dvd (2 :: nat) ^ k" using le_imp_power_dvd [of 2 k "2 :: nat"] k(1) by simp
  then have "unat (rt_align (2 ^ k)) = 2 ^ k"
    using rt_align_nat [of "2 ^ k"] A fit by (auto elim!: dvdE)
  then have ra: "rt_align (2 ^ k) = 2 ^ k" using A by (simp only: word_unat_eq_iff)
  have rs: "unat sz \<le> unat (rt_align sz)" "unat (rt_align sz) < unat sz + 4" "4 dvd unat (rt_align sz)"
    using rt_align_props [of sz] fit by simp_all
  have def: "rt_malloc_align sz (2 ^ k) h = do {
      (p, h) \<leftarrow> rt_malloc ?n h;
      if p \<noteq> 0 then do {
        m \<leftarrow> store32 (unat ((if p AND (2 ^ k - 1) = 0 then p + 2 ^ k else (p + (2 ^ k - 1)) AND NOT (2 ^ k - 1)) - 4)) p (bytes h);
        Some (if p AND (2 ^ k - 1) = 0 then p + 2 ^ k else (p + (2 ^ k - 1)) AND NOT (2 ^ k - 1), h\<lparr>bytes := m\<rparr>)
      } else Some (p, h)
    }" unfolding rt_malloc_align_def Let_def al ra ..
  have un: "unat ?n = unat (rt_align sz) + 2 ^ k" using unat_add32 [of "rt_align sz" "rt_align (2 ^ k)"] rs(2) fit ra A by simp
  then have "unat ?n \<le> unat (rt_align ?n)" using rs(2) fit by (intro rt_align_props(1)) simp
  then have req: "unat sz + 2 ^ k \<le> unat (request ?n)" using un rs(1) by (auto simp: request_def word_less_nat_alt)
  have inv: "heap_inv h" "irq_nest h = 0" using r by (simp_all add: heap_ready_def)
  obtain p h1 where m: "rt_malloc ?n h = Some (p, h1)" "p = 0 \<Longrightarrow> h1 = h" by (rule malloc_total [OF inv]) (rule that)
  show thesis
  proof (cases "p = 0")
    case True
    then show thesis using that(1) m by (simp add: def)
  next
    case False
    then have "heap_get ?n h = Some (Some p, h1)" using m by (simp add: heap_get_def)
    note g = heap_get_some [OF r this]
    then obtain b n where b: "p = heap_ptr h1 + b + 12" "(b, n) \<in> set (live h1)"
        "unat b + 12 + unat (request ?n) \<le> unat n" by blast
    have i1: "heap_inv h1" using g(1) by (simp add: heap_ready_def)
    note li = live_inside [OF i1 b(2), folded b(1)]
    have "heap_ptr h1 + b + 12 AND 3 = 0"
      using block_addr(5) [of h1 "heap_blocks h1" b] i1 b(2)
      by (auto simp: heap_inv_def blocks_ok_def live_def extents_def)
    then have p4: "4 dvd unat p" using mask_out(2) [of p 2] b(1) by (simp add: mod_eq_0_iff_dvd)
    define q where "q = (if p AND (2 ^ k - 1) = 0 then p + 2 ^ k else (p + (2 ^ k - 1)) AND NOT (2 ^ k - 1))"
    have "unat p + 2 ^ k < 2 ^ 32" using li(3,4) b(3) req by linarith
    note q = align_ptr_nat [OF k p4 this, folded q_def]
    have q4: "unat (q - 4) = unat q - 4" using q(2) by (simp add: unat_diff32)
    have "alloc (unat (q - 4)) 4 (bytes h1)"
      by (rule alloc_sub [OF li(6)]) (use q(2,3) q4 li(1,3,4) b(3) req in linarith)+
    then obtain m' where m': "store32 (unat (q - 4)) p (bytes h1) = Some m'" "load32 (unat (q - 4)) m' = Some p"
      "\<And>x. m' x \<noteq> None \<longleftrightarrow> bytes h1 x \<noteq> None" by (rule store32_alloc) (rule that)
    let ?h = "h1\<lparr>bytes := m'\<rparr>"
    have eq: "rt_malloc_align sz (2 ^ k) h = Some (q, ?h)"
      using m(1) m'(1) False by (simp add: def q_def [symmetric])
    have "heap_ready ?h" using g(1) bytes_inv [OF i1, of m'] m'(3) by (simp add: heap_ready_def)
    moreover have "heap_held ?h = insert p (heap_held h)" using g(3) by (simp add: heap_held_def)
    moreover have "q \<noteq> 0" using q(2) by auto
    moreover have "unat q + unat sz \<le> unat (heap_ptr h1) + unat n" using q(3) li(3) b(3) req by linarith
    ultimately show thesis using that(2) [OF eq] g(2) q(2,4) m'(2) b by simp
  qed
qed

text \<open>A block from \<open>rt_malloc_align\<close> has the alignment that was asked for, and \<open>rt_free_align\<close> gives back
  exactly what was allocated.\<close>

theorem malloc_align_free:
  assumes r: "heap_ready h" and k: "2 \<le> k" "k < 32" and fit: "unat sz + 2 ^ k + 6 < 2 ^ 32"
    and m: "rt_malloc_align sz (2 ^ k) h = Some (q, h1)" "q \<noteq> 0"
  shows "2 ^ k dvd unat q \<and>
     (\<exists>h2. rt_free_align q h1 = Some h2 \<and> heap_ready h2 \<and> heap_held h2 = heap_held h)"
proof (cases rule: malloc_align_effect [OF r k fit])
  case 1
  then show ?thesis using m by simp
next
  case (2 p q' b n h')
  then have eq: "q' = q" "h' = h1" using m(1) by simp_all
  have "p \<in> heap_held h1" using 2(6) eq by simp
  then obtain h2 where "rt_free p h1 = Some h2" "heap_ready h2" "heap_held h2 = heap_held h1 - {p}"
    using heap_put_held 2(2) eq by blast
  then show ?thesis using 2 eq by (auto simp: rt_free_align_def)
qed

end
