(* ===== verification/ThreadHeap.thy ===== *)
theory ThreadHeap
  imports Idle BufferPool
begin

text \<open>
  Threads on the heap: the two blocks that \<open>rt_thread_create\<close> takes from the heap come back to it when
  the idle thread has reclaimed the thread.
\<close>

text \<open>\<open>rt_thread_create\<close> of \<open>src/src/thread.c\<close> with its two allocations; a \<open>struct rt_thread\<close> has 128
  bytes, and its number is its address.\<close>

definition thread_create_on :: "u8 list \<Rightarrow> nat \<Rightarrow> nat \<Rightarrow> u32 \<Rightarrow> u8 \<Rightarrow> u32 \<Rightarrow> heap \<times> kstate \<Rightarrow>
    (tid option \<times> heap \<times> kstate) option" where
  "thread_create_on name entry parameter stk_size priority tick = (\<lambda>(h, s). do {
     (b, h) \<leftarrow> heap_get 128 h;
     (stk, h) \<leftarrow> (case b of None \<Rightarrow> Some (None, h) | Some _ \<Rightarrow> heap_get stk_size h);
     (r, s) \<leftarrow> rt_thread_create (map_option unat b) stk name entry parameter stk_size priority tick s;
     h \<leftarrow> (case (b, stk) of (Some b, None) \<Rightarrow> rt_free b h | _ \<Rightarrow> Some h);
     Some (r, h, s)
   })"

context allocator
begin

lemma free_all_held:
  assumes "ok h" "distinct ps" "set ps \<subseteq> held h"
  shows "\<exists>h'. free_all put ps h = Some h' \<and> ok h' \<and> held h' = held h - set ps"
  using assms
proof (induction ps arbitrary: h)
  case (Cons p ps)
  obtain h1 where h1: "put p h = Some h1" "ok h1" "held h1 = held h - {p}"
    using put_held [OF Cons.prems(1), of p] Cons.prems(3) by auto
  obtain h' where "free_all put ps h1 = Some h'" "ok h'" "held h' = held h1 - set ps"
    using Cons.IH [OF h1(2)] Cons.prems(2,3) h1(3) by auto
  then show ?case using h1(1,3) by auto
qed simp

end

text \<open>The idle thread gives the memory of all threads that have ended back: if their stacks and
  control blocks are distinct blocks that the heap has handed out, the loop ends, exactly these blocks
  become free, the queue of ended threads is empty and the kernel forgets these threads.\<close>

theorem idle_returns_memory:
  assumes inv: "kernel_inv s" "heap_ready h" and irq: "interrupt_nest s = 0"
    and dyn: "\<forall>t \<in> set (lists s Defunct). \<not> rt_object_is_systemobject (ThreadObj t) s"
    and mem: "distinct (concat (map (thread_memory s) (lists s Defunct)))"
      "set (concat (map (thread_memory s) (lists s Defunct))) \<subseteq> heap_held h"
  shows "\<exists>h' s'. rt_thread_idle_excute rt_free h s = Some (h', s') \<and> heap_ready h' \<and> kernel_inv s' \<and>
     heap_held h' = heap_held h - (\<Union>t \<in> set (lists s Defunct). set (thread_memory s t)) \<and>
     lists s' = (lists s)(Defunct := []) \<and>
     (\<forall>c t. ThreadObj t \<in> set (obj_lists s' c) \<longleftrightarrow> ThreadObj t \<in> set (obj_lists s c) \<and> t \<notin> set (lists s Defunct))"
proof -
  obtain h' where h': "free_all rt_free (concat (map (thread_memory s) (lists s Defunct))) h = Some h'" "heap_ready h'"
      "heap_held h' = heap_held h - set (concat (map (thread_memory s) (lists s Defunct)))"
    using heap_alloc.free_all_held [OF inv(2) mem] by blast
  obtain s' where "rt_thread_idle_excute rt_free h s = Some (h', s')" "kernel_inv s'"
    "lists s' = (lists s)(Defunct := [])"
    "obj_lists s' = (\<lambda>c. filter (\<lambda>x. x \<notin> ThreadObj ` set (lists s Defunct)) (obj_lists s c))"
    "ready_group s' = ready_group s" "cur_thread s' = cur_thread s"
    by (rule idle_excute_frees [OF inv(1) irq refl _ h'(1)]) (use dyn in blast, rule that)
  then show ?thesis using h'(2,3) by auto
qed

section \<open>The life of a thread\<close>

lemma init_fields_sel:
  assumes "rt_thread_init_fields t e a st sz p tick s = Some (r, s')"
  shows "threads s' = (threads s)(t := thread_init_record e a st sz p tick (threads s t))"
    "objs s' (ThreadObj t) = objs s (ThreadObj t)" "lists s' = lists s" "interrupt_nest s' = interrupt_nest s"
  using assms
  by (auto simp: rt_thread_init_fields_def rt_timer_init_def rt_timer_init_fields_def set_tm_flag_def Option.bind_eq_Some_conv
      rt_object_init_def obj_link_front_def Let_def rt_enter_critical_def rt_exit_critical_def split: if_splits
      dest!: rt_schedule_objs)

lemma create_some_sel:
  assumes "rt_thread_create (Some t) (Some stk) nm e a sz p tick s = Some (r, s')"
  shows "r = Some t \<and> stack_addr (threads s' t) = stk \<and> stat (threads s' t) = RT_THREAD_INIT \<and>
    t_link (threads s' t) = None \<and> obj_type (objs s' (ThreadObj t)) = RT_Object_Class_Thread \<and> lists s' = lists s \<and>
    interrupt_nest s' = interrupt_nest s"
  using assms
proof (cases rule: create_cases)
  case (3 t' stack nm' r')
  show ?thesis using init_fields_sel [OF 3(5)] 3(1-3)
    by (simp add: thread_init_record_def thread0_def obj_link_front_def)
qed simp_all

text \<open>A thread that was created has two blocks of its own; a creation that fails keeps none.\<close>

lemma create_takes_two:
  assumes ok: "heap_ready h" "kernel_inv s" and un: "\<And>b h'. heap_get 128 h = Some (Some b, h') \<Longrightarrow> unused_block (unat b) s"
    and c: "thread_create_on nm e a sz p tick (h, s) = Some (r, h', s')"
  obtains "r = None" "heap_ready h'" "kernel_inv s'" "heap_held h' = heap_held h"
  | t where "r = Some t" "heap_ready h'" "kernel_inv s'" "distinct (thread_memory s' t)"
      "set (thread_memory s' t) \<inter> heap_held h = {}" "heap_held h' = set (thread_memory s' t) \<union> heap_held h"
      "stat (threads s' t) = RT_THREAD_INIT" "t_link (threads s' t) = None"
      "obj_type (objs s' (ThreadObj t)) = RT_Object_Class_Thread" "lists s' = lists s" "interrupt_nest s' = interrupt_nest s"
proof -
  obtain b h1 where b: "heap_get 128 h = Some (b, h1)" using heap_alloc.get_returns [OF ok(1)] by blast
  obtain stk h2 where stk: "(case b of None \<Rightarrow> Some (None, h1) | Some _ \<Rightarrow> heap_get sz h1) = Some (stk, h2)"
    using c b unfolding thread_create_on_def by (auto simp: Option.bind_eq_Some_conv split_beta)
  have k: "rt_thread_create (map_option unat b) stk nm e a sz p tick s = Some (r, s')"
      and f: "(case (b, stk) of (Some b, None) \<Rightarrow> rt_free b h2 | _ \<Rightarrow> Some h2) = Some h'"
    using c b stk unfolding thread_create_on_def
    by (auto simp: Option.bind_eq_Some_conv split_beta split: option.splits)
  show thesis
  proof (cases b)
    case None
    then have "h2 = h" using heap_alloc.get_none [OF ok(1)] b stk by auto
    then show thesis using that(1) None f k ok by (auto elim!: create_cases)
  next
    case (Some q)
    then have q: "heap_ready h1" "q \<notin> heap_held h" "heap_held h1 = insert q (heap_held h)"
      using heap_alloc.get_some [OF ok(1)] b by auto
    have inv: "kernel_inv s'" by (rule inv_thread_create [OF k ok(2)]) (use Some un b in auto)
    show thesis
    proof (cases stk)
      case None
      then have "h2 = h1" using heap_alloc.get_none [OF q(1)] Some stk by auto
      moreover obtain h3 where "rt_free q h1 = Some h3" "heap_ready h3" "heap_held h3 = heap_held h1 - {q}"
        using heap_alloc.put_held [OF q(1), of q] q(3) by auto
      ultimately show thesis using that(1) inv None Some f k q(2,3) by (auto elim!: create_cases)
    next
      case (Some w)
      then have w: "heap_ready h2" "w \<notin> heap_held h1" "heap_held h2 = insert w (heap_held h1)"
        using heap_alloc.get_some [OF q(1)] \<open>b = Some q\<close> stk by auto
      have "rt_thread_create (Some (unat q)) (Some w) nm e a sz p tick s = Some (r, s')"
        using k \<open>b = Some q\<close> Some by simp
      note sel = create_some_sel [OF this]
      then have "thread_memory s' (unat q) = [w, q]" by (simp add: thread_memory_def)
      then show thesis
        using that(2) [of "unat q"] w q inv f \<open>b = Some q\<close> Some sel by auto
    qed
  qed
qed

lemma timer_detach_objs:
  assumes "rt_timer_detach tm s = Some (r, s')"
  shows "objs s' (ThreadObj t) = objs s (ThreadObj t)" "interrupt_nest s' = interrupt_nest s"
  using assms by (auto simp: rt_timer_detach_def rt_object_detach_def obj_unlink_def set_tm_flag_def Let_def
      Option.bind_eq_Some_conv)

lemma delete_fresh:
  assumes d: "rt_thread_delete t s = Some (r, s')" and i: "stat (threads s t) = RT_THREAD_INIT"
  shows "lists s' = (lists s)(Defunct := t # lists s Defunct)" "stack_addr (threads s' t) = stack_addr (threads s t)"
    "objs s' (ThreadObj t) = objs s (ThreadObj t)" "interrupt_nest s' = interrupt_nest s"
proof -
  have "stat_of s t = RT_THREAD_INIT" using i by (simp add: stat_of_def)
  then obtain r2 s2 where s2: "rt_timer_detach (ThreadTimer t) s = Some (r2, s2)"
      "link_thread_front Defunct t (thread_close t s2) = Some s'"
    using d by (auto simp: rt_thread_delete_def Option.bind_eq_Some_conv split: if_splits)
  note sel = timer_detach_sel [OF s2(1)] timer_detach_objs [OF s2(1)]
  show "lists s' = (lists s)(Defunct := t # lists s Defunct)" "stack_addr (threads s' t) = stack_addr (threads s t)"
    "objs s' (ThreadObj t) = objs s (ThreadObj t)" "interrupt_nest s' = interrupt_nest s"
    using s2(2) sel by (auto simp: link_thread_front_def link_thread_at_eq thread_close_def insert_at_def)
qed


end
