(* ===== verification/MemoryExamples.thy ===== *)
theory MemoryExamples
  imports Demo MemPool AlignedHeap ThreadHeap Kernel
begin

text \<open>The theorems on the heap, the memory pools and the buffers on the heap at concrete inputs.\<close>

section \<open>A heap with one block in use\<close>

definition demo_heap :: heap where
  "demo_heap = \<lparr>heap_ptr = 0x20000000,
     blk = (\<lambda>_. \<lparr>magic = 0, used = 0, next_off = 0, prev_off = 0\<rparr>)
       (0 := \<lparr>magic = HEAP_MAGIC, used = 1, next_off = 44, prev_off = 0\<rparr>,
        44 := \<lparr>magic = HEAP_MAGIC, used = 0, next_off = 112, prev_off = 0\<rparr>,
        112 := \<lparr>magic = HEAP_MAGIC, used = 1, next_off = 112, prev_off = 44\<rparr>),
     heap_end = 112, lfree = 44, heap_sem = 1, mem_size_aligned = 100, used_mem = 44, max_mem = 44,
     bytes = (\<lambda>a. if 0x20000000 \<le> a \<and> a < 0x20000000 + 124 then Some (word_of_nat a) else None), irq_nest = 0\<rparr>"

lemma demo_heap_blocks: "blocks_ok demo_heap [0, 44]"
  by (simp add: blocks_ok_def demo_heap_def coalesced_def first_free_def extents_def total_size_def)

lemma demo_heap_area: "area_ok demo_heap"
  by (auto simp: area_ok_def demo_heap_def alloc_def)

lemma demo_heap_inv: "heap_inv demo_heap" "heap_blocks demo_heap = [0, 44]" "live demo_heap = [(0, 44)]"
  using heap_invI [OF demo_heap_area demo_heap_blocks] by (simp_all add: demo_heap_def extents_def)

lemma demo_heap_sel [simp]:
  "irq_nest demo_heap = 0" "heap_ptr demo_heap = 0x20000000" "mem_size_aligned demo_heap = 100"
  by (simp_all add: demo_heap_def)

lemma demo_fit: "rt_align 17 = 20" "request 17 = 20" "\<not> fits demo_heap 20 0" "fits demo_heap 20 44"
proof -
  show r: "rt_align 17 = 20" by (simp add: rt_align_def)
  then show "request 17 = 20" by (simp add: request_def)
  show "\<not> fits demo_heap 20 0" "fits demo_heap 20 44" by (simp_all add: fits_def demo_heap_def)
qed


lemma demo_malloc: "\<exists>h1. rt_malloc 17 demo_heap = Some (0x20000038, h1)"
  by (simp add: rt_malloc_def heap_lock_def demo_heap_def rt_align_def find_fit.simps [of _ _ 44] Let_def use_block_def
      upd_blk_def heap_max_def heap_unlock_def next_free.simps)



section \<open>A heap that is all free\<close>

definition free_heap :: heap where
  "free_heap = demo_heap\<lparr>blk := (blk demo_heap)(0 := \<lparr>magic = HEAP_MAGIC, used = 0, next_off = 112, prev_off = 0\<rparr>,
     112 := \<lparr>magic = HEAP_MAGIC, used = 1, next_off = 112, prev_off = 0\<rparr>), lfree := 0, used_mem := 0\<rparr>"

lemma free_heap_inv: "heap_inv free_heap" "heap_blocks free_heap = [0]" "live free_heap = []"
proof -
  have "blocks_ok free_heap [0]"
    by (simp add: free_heap_def blocks_ok_def demo_heap_def coalesced_def first_free_def extents_def total_size_def)
  moreover have "area_ok free_heap" by (auto simp: area_ok_def free_heap_def demo_heap_def alloc_def)
  ultimately show "heap_inv free_heap" "heap_blocks free_heap = [0]" "live free_heap = []"
    using heap_invI [of free_heap "[0]"] by (simp_all add: free_heap_def demo_heap_def extents_def)
qed

lemma exact_fit_at_the_end_refused_witness:
  "used (blk free_heap 0) = 0 \<and> unat (next_off (blk free_heap 0)) - 12 = 100 \<and> rt_malloc 100 free_heap = Some (0, free_heap)"
  using exact_fit_at_the_end_refused [OF free_heap_inv(1) _ free_heap_inv(2,3)]
  by (simp add: free_heap_def)

section \<open>Ring buffers on the heap\<close>

definition demo_heap1 :: heap where
  "demo_heap1 = demo_heap\<lparr>blk := (blk demo_heap)
       (68 := \<lparr>magic = HEAP_MAGIC, used = 0, next_off = 112, prev_off = 44\<rparr>,
        44 := \<lparr>magic = HEAP_MAGIC, used = 1, next_off = 68, prev_off = 0\<rparr>,
        112 := \<lparr>magic = HEAP_MAGIC, used = 1, next_off = 112, prev_off = 44\<rparr>),
     lfree := 68, used_mem := 68, max_mem := 68\<rparr>"

lemma demo_malloc1: "rt_malloc 12 demo_heap = Some (0x20000038, demo_heap1)"
  by (simp add: rt_malloc_def heap_lock_def demo_heap_def demo_heap1_def rt_align_def find_fit.simps [of _ _ 44] Let_def
      use_block_def upd_blk_def heap_max_def heap_unlock_def next_free.simps fun_upd_twist)

lemma demo_malloc2: "\<exists>h2. rt_malloc 8 demo_heap1 = Some (0x20000050, h2)"
  by (simp add: rt_malloc_def heap_lock_def demo_heap1_def demo_heap_def rt_align_def find_fit.simps [of _ _ 68] Let_def
      use_block_def upd_blk_def heap_max_def heap_unlock_def next_free.simps)

lemma ringbuffer_create_destroy_witness:
  "\<exists>rb h1 h2. rt_ringbuffer_create 8 demo_heap = Some (Some rb, h1) \<and> rt_ringbuffer_destroy rb h1 = Some h2 \<and>
     heap_ready h2 \<and> heap_held h2 = heap_held demo_heap"
proof -
  have r: "heap_ready demo_heap" by (simp add: heap_ready_def demo_heap_inv)
  have "\<exists>rb h1. rt_ringbuffer_create 8 demo_heap = Some (Some rb, h1)"
    using demo_malloc2 by (auto simp: rt_ringbuffer_create_def demo_malloc1 rt_ringbuffer_init_def)
  then obtain rb h1 where "rt_ringbuffer_create 8 demo_heap = Some (Some rb, h1)" by blast
  with ringbuffer_create_destroy [OF r this] show ?thesis by blast
qed

section \<open>Aligned blocks\<close>

lemma malloc_align_free_witness:
  "\<exists>h1 h2. rt_malloc_align 8 8 demo_heap = Some (0x20000040, h1) \<and> 8 dvd unat (0x20000040 :: u32) \<and>
     rt_free_align 0x20000040 h1 = Some h2 \<and> heap_held h2 = heap_held demo_heap"
proof -
  have r: "heap_ready demo_heap" by (simp add: heap_ready_def demo_heap_inv)
  have "\<exists>h1. rt_malloc 16 demo_heap = Some (0x20000038, h1) \<and> bytes h1 = bytes demo_heap"
    by (simp add: rt_malloc_def heap_lock_def demo_heap_def rt_align_def find_fit.simps [of _ _ 44] Let_def use_block_def
        upd_blk_def heap_max_def heap_unlock_def next_free.simps)
  then obtain h0 where h0: "rt_malloc 16 demo_heap = Some (0x20000038, h0)" "bytes h0 = bytes demo_heap" by blast
  have "\<exists>m. store32 0x2000003C 0x20000038 (bytes demo_heap) = Some m"
    by (simp add: store32_def store8_def demo_heap_def)
  then have "\<exists>h1. rt_malloc_align 8 8 demo_heap = Some (0x20000040, h1)"
    using h0 by (auto simp: rt_malloc_align_def Let_def)
  then obtain h1 where h1: "rt_malloc_align 8 (2 ^ 3) demo_heap = Some (0x20000040, h1)" by auto
  from malloc_align_free [OF r _ _ _ h1] h1 show ?thesis by auto
qed

section \<open>A thread on the heap\<close>

definition big_heap :: heap where
  "big_heap = free_heap\<lparr>blk := (blk demo_heap)(0 := \<lparr>magic = HEAP_MAGIC, used = 0, next_off = 1012, prev_off = 0\<rparr>,
     1012 := \<lparr>magic = HEAP_MAGIC, used = 1, next_off = 1012, prev_off = 0\<rparr>), heap_end := 1012, mem_size_aligned := 1000,
     bytes := (\<lambda>a. if 0x20000000 \<le> a \<and> a < 0x20000000 + 1024 then Some 0 else None)\<rparr>"

lemma big_heap_ready: "heap_ready big_heap"
proof -
  have "blocks_ok big_heap [0]"
    by (simp add: big_heap_def free_heap_def blocks_ok_def demo_heap_def coalesced_def first_free_def extents_def
        total_size_def)
  moreover have "area_ok big_heap" by (auto simp: area_ok_def big_heap_def free_heap_def demo_heap_def alloc_def)
  ultimately have "heap_inv big_heap"
    using heap_invI [of big_heap "[0]"] by (simp add: big_heap_def free_heap_def demo_heap_def)
  then show ?thesis by (simp add: heap_ready_def big_heap_def free_heap_def demo_heap_def)
qed

lemma big_heap_two:
  "\<exists>h1 h2. rt_malloc 128 big_heap = Some (0x2000000C, h1) \<and> rt_malloc 512 h1 = Some (0x20000098, h2)"
  by (simp add: rt_malloc_def heap_lock_def big_heap_def free_heap_def demo_heap_def rt_align_def
      find_fit.simps [of _ _ 0] find_fit.simps [of _ _ 140] Let_def use_block_def
      upd_blk_def heap_max_def heap_unlock_def next_free.simps)

lemma kernel_boot_sel [simp]:
  "interrupt_nest kernel_boot = 0" "lists kernel_boot = (\<lambda>_. [])" "cur_thread kernel_boot = None" "lock_nest kernel_boot = 0"
  "t_link (threads kernel_boot t) = None" "tm_link (timers kernel_boot tm) = None" "obj_lists kernel_boot = (\<lambda>_. [])"
  by (auto simp: kernel_boot_def rt_system_timer_init_def rt_system_scheduler_init_def kstate0_def thread0_def fun_eq_iff split: lid.split)

lemma demo_name: "rt_strncpy [119, 0] 8 = Some [119, 0, 0, 0, 0, 0, 0, 0]"
  "rt_strncpy [119, 0, 0, 0, 0, 0, 0, 0] 8 = Some [119, 0, 0, 0, 0, 0, 0, 0]"
  by (simp_all add: numeral_eq_Suc)

lemma boot_create:
  "\<exists>s1 s2 r. rt_thread_create (Some t) (Some 0x20000098) [119, 0] 7 0 512 20 10 kernel_boot = Some (Some t, s1) \<and>
     rt_thread_delete t s1 = Some (r, s2)"
  by (simp add: rt_thread_create_def rt_object_allocate_def zero_object_def rt_object_container_def rt_thread_init_fields_def
      demo_name obj_link_front_def rt_hw_stack_init_def Let_def thread0_def
      rt_timer_init_def rt_object_init_def rt_timer_init_fields_def set_tm_flag_def rt_enter_critical_def rt_exit_critical_def
      rt_thread_delete_def rt_object_get_type_def rt_object_is_systemobject_def stat_of_def thread_init_record_def
      rt_timer_detach_def unlink_timer_def rt_object_detach_def obj_unlink_def thread_close_def link_thread_front_def
      link_thread_at_def)


section \<open>A memory pool\<close>

definition demo_mp :: rt_mempool where
  "demo_mp = \<lparr>mp_word_at = (\<lambda>_. Owned_by 0), mp_size = 24, block_size = 8, block_list = None, block_total_count = 2,
     block_free_count = 0\<rparr>"

lemma demo_mp_ok: "mp_ok 0 demo_mp [] {0, 1}" "mp_ok 0 demo_mp [] {0, Suc 0}"
  by (auto simp: mp_ok_def demo_mp_def)

lemma mp_blocks_conserved_witness:
  "\<exists>mp1 mp fs. mp_build (demo_mp\<lparr>block_free_count := 2\<rparr>) = Some mp1 \<and>
     (alloc_step (mp_get 0) (mp_put 0))\<^sup>*\<^sup>* (mp1, {}) (mp, {0}) \<and>
     mp_ok 0 mp fs {0} \<and> length fs = 1 \<and> mp_held 0 mp = {0}"
proof -
  let ?mp0 = "demo_mp\<lparr>block_free_count := 2\<rparr>"
  have c: "block_free_count ?mp0 = block_total_count ?mp0" "unat (block_total_count ?mp0) = 2" by (simp_all add: demo_mp_def)
  have n: "0 < unat (block_total_count ?mp0)" unfolding c(2) by simp
  have two: "[0..<2] = [0, Suc 0]" by (simp add: upt_rec)
  obtain mp1 where mp1: "mp_build ?mp0 = Some mp1" "mp_ok 0 mp1 [0..<unat (block_total_count ?mp0)] {}"
    by (rule mp_build_ok [OF n c(1), of 0]) (rule that)
  note ok1 = mp1(2) [unfolded c(2) two]
  obtain mp where "mp_take 0 mp1 = Some (0, mp)" "mp_ok 0 mp [Suc 0] (insert 0 {})"
      "block_total_count mp = block_total_count mp1"
    by (rule mp_take_ok [OF ok1]) (rule that)
  moreover have "unat (block_free_count mp1) = length [0, Suc 0]" using ok1 unfolding mp_ok_def by blast
  then have "block_free_count mp1 \<noteq> 0" by (metis length_0_conv list.distinct(1) unat_0)
  ultimately have mp: "mp_get 0 () mp1 = Some (Some 0, mp)" by (simp add: mp_get_def)
  have run: "(alloc_step (mp_get 0) (mp_put 0))\<^sup>*\<^sup>* (mp1, {}) (mp, {0})"
    using alloc_step.got [of "mp_get 0" "()" mp1 0 mp "mp_put 0" "{}"] mp by (simp add: r_into_rtranclp)
  from mp_blocks_conserved [OF mp1(1) c(1) run] obtain fs where
    "mp_ok 0 mp fs {0}" "length fs + card {0 :: nat} = 2" "mp_held 0 mp = {0}" unfolding c(2) by blast
  with mp1(1) run show ?thesis by (intro exI [of _ mp1] exI [of _ mp] exI [of _ fs]) simp
qed

lemma mp_free_wakes_witness:
  "\<exists>s1. rt_mp_free (Some (0, 1)) (set_mp 0 demo_mp (demo (MpWait 0))) = rt_schedule s1 \<and> kernel_inv s1 \<and>
     mp_ok 0 (mps s1 0) [1] ({0, 1} - {1}) \<and> lists s1 (MpWait 0) = [] \<and> stat_of s1 2 = RT_THREAD_READY \<and>
     thread_error (threads s1 2) = RT_EOK \<and>
     (\<forall>loc s2. threads s2 2 = threads s1 2 \<longrightarrow> mps s2 = mps s1 \<longrightarrow>
        (\<exists>s3. rt_mp_alloc_resumed 0 2 loc s2 = Some (Return (Some 1), s3)))"
  by (rule mp_free_wakes) (simp_all add: demo_inv demo_mp_ok)

lemma mp_alloc_waits_in_front_witness:
  "\<exists>s1. kernel_inv s1 \<and> lists s1 (MpWait 0) = [1, 2] \<and> stat_of s1 1 = RT_THREAD_SUSPEND \<and>
     mps s1 = mps (set_mp 0 demo_mp (demo (MpWait 0))) \<and>
     (7 > (0 :: int) \<longrightarrow> timeout_tick (timers s1 (ThreadTimer 1)) = word_of_int 7) \<and>
     rt_mp_alloc 0 7 (set_mp 0 demo_mp (demo (MpWait 0))) = Option.bind (rt_schedule s1) (\<lambda>s2.
       if cur_thread s2 = Some 1 then rt_mp_alloc_resumed 0 1 (7, rt_tick_get s1) s2
       else Some (Blocked (7, rt_tick_get s1), s2))"
  using mp_alloc_waits_in_front [of "set_mp 0 demo_mp (demo (MpWait 0))" 0 "{0, 1}" 1 7]
  by (simp add: demo_inv demo_mp_ok cong: if_cong)

end
