(* ===== verification/Device.thy ===== *)
theory Device
  imports Thread
begin

text \<open>
  The device layer of \<open>src/src/device.c\<close>: devices are registered under a name, and a client opens,
  reads, writes, controls and closes them.  The layer counts the clients, keeps the flags, and calls
  the functions of the driver.  A driver is a record of functions, some of which may be missing; the
  locale \<open>device_driver\<close> says what a driver promises, and what then holds for its clients.
\<close>

section \<open>Devices and drivers\<close>

abbreviation (input) RT_DEVICE_FLAG_STANDALONE :: u16 where "RT_DEVICE_FLAG_STANDALONE \<equiv> 0x008"
abbreviation (input) RT_DEVICE_FLAG_ACTIVATED :: u16 where "RT_DEVICE_FLAG_ACTIVATED \<equiv> 0x010"
abbreviation (input) RT_DEVICE_FLAG_SUSPENDED :: u16 where "RT_DEVICE_FLAG_SUSPENDED \<equiv> 0x020"
abbreviation (input) RT_DEVICE_FLAG_STREAM :: u16 where "RT_DEVICE_FLAG_STREAM \<equiv> 0x040"
abbreviation (input) RT_DEVICE_FLAG_INT_RX :: u16 where "RT_DEVICE_FLAG_INT_RX \<equiv> 0x100"
abbreviation (input) RT_DEVICE_FLAG_DMA_RX :: u16 where "RT_DEVICE_FLAG_DMA_RX \<equiv> 0x200"
abbreviation (input) RT_DEVICE_FLAG_INT_TX :: u16 where "RT_DEVICE_FLAG_INT_TX \<equiv> 0x400"
abbreviation (input) RT_DEVICE_FLAG_DMA_TX :: u16 where "RT_DEVICE_FLAG_DMA_TX \<equiv> 0x800"
abbreviation (input) RT_DEVICE_OFLAG_CLOSE :: u16 where "RT_DEVICE_OFLAG_CLOSE \<equiv> 0x000"
abbreviation (input) RT_DEVICE_OFLAG_RDWR :: u16 where "RT_DEVICE_OFLAG_RDWR \<equiv> 0x003"
abbreviation (input) RT_DEVICE_OFLAG_OPEN :: u16 where "RT_DEVICE_OFLAG_OPEN \<equiv> 0x008"
abbreviation (input) RT_DEVICE_OFLAG_MASK :: u16 where "RT_DEVICE_OFLAG_MASK \<equiv> 0xf0f"

abbreviation (input) RT_EBUSY :: rt_err_t where "RT_EBUSY \<equiv> 7"
abbreviation (input) RT_EIO :: rt_err_t where "RT_EIO \<equiv> 8"

text \<open>Callbacks are numbers.  A call of a driver sees the device, the driver's own data and the kernel.\<close>

record rt_device =
  dev_type :: nat
  dev_flag :: u16
  open_flag :: u16
  ref_count :: u8
  rx_indicate :: "nat option"
  tx_complete :: "nat option"

record 'd dev_state =
  dev :: rt_device
  drv :: 'd
  kern :: kstate

text \<open>Reading and writing pass the address of the client's buffer and, for writing, its bytes; reading
  returns the bytes that were stored there and the number it reports.  \<open>'l\<close> are the local variables of
  a write that waits, \<open>'a\<close> the commands with their arguments, \<open>'o\<close> what a command stores for the client.\<close>

record ('d, 'l, 'a, 'o) rt_device_ops =
  op_init :: "('d dev_state \<Rightarrow> (rt_err_t \<times> 'd dev_state) option) option"
  op_open :: "(u16 \<Rightarrow> 'd dev_state \<Rightarrow> (rt_err_t \<times> 'd dev_state) option) option"
  op_close :: "('d dev_state \<Rightarrow> (rt_err_t \<times> 'd dev_state) option) option"
  op_read :: "(int \<Rightarrow> u32 \<Rightarrow> nat \<Rightarrow> 'd dev_state \<Rightarrow> ((u8 list \<times> nat) \<times> 'd dev_state) option) option"
  op_write :: "(int \<Rightarrow> u32 \<Rightarrow> u8 list \<Rightarrow> 'd dev_state \<Rightarrow> (('l, nat) outcome \<times> 'd dev_state) option) option"
  op_control :: "('a \<Rightarrow> 'd dev_state \<Rightarrow> ((rt_err_t \<times> 'o option) \<times> 'd dev_state) option) option"

definition upd_dev :: "(rt_device \<Rightarrow> rt_device) \<Rightarrow> 'd dev_state \<Rightarrow> 'd dev_state" where
  "upd_dev f st = st\<lparr>dev := f (dev st)\<rparr>"

lemma upd_dev_sel [simp]:
  "dev (upd_dev f st) = f (dev st)" "drv (upd_dev f st) = drv st" "kern (upd_dev f st) = kern st"
  by (simp_all add: upd_dev_def)

definition is_device :: "nat \<Rightarrow> 'd dev_state \<Rightarrow> bool" where
  "is_device i st \<longleftrightarrow> rt_object_get_type (DevObj i) (kern st) = RT_Object_Class_Device"

section \<open>Registration\<close>

definition rt_device_find :: "u8 list \<Rightarrow> kstate \<Rightarrow> (oid option \<times> kstate) option" where
  "rt_device_find name s = rt_object_find name RT_Object_Class_Device s"

text \<open>A null pointer for the device is \<open>None\<close>.\<close>

definition rt_device_register ::
  "nat option \<Rightarrow> u8 list \<Rightarrow> u16 \<Rightarrow> 'd dev_state \<Rightarrow> (rt_err_t \<times> 'd dev_state) option" where
  "rt_device_register d name flags st =
     (case d of
        None \<Rightarrow> Some (- RT_ERROR, st)
      | Some i \<Rightarrow> do {
          (x, s) \<leftarrow> rt_device_find name (kern st);
          if x \<noteq> None then Some (- RT_ERROR, st\<lparr>kern := s\<rparr>)
          else do {
            s \<leftarrow> rt_object_init (DevObj i) RT_Object_Class_Device name s;
            Some (RT_EOK, upd_dev (\<lambda>d. d\<lparr>dev_flag := flags, ref_count := 0, open_flag := 0\<rparr>) (st\<lparr>kern := s\<rparr>))
          }
        })"

definition rt_device_unregister :: "nat \<Rightarrow> 'd dev_state \<Rightarrow> (rt_err_t \<times> 'd dev_state) option" where
  "rt_device_unregister i st = do {
     rt_assert (is_device i st);
     rt_assert (rt_object_is_systemobject (DevObj i) (kern st));
     Some (RT_EOK, st\<lparr>kern := rt_object_detach (DevObj i) (kern st)\<rparr>)
   }"

text \<open>The control block from the heap, zeroed; as for the other objects the block is an argument, and
  giving it back has no effect on the kernel's state.\<close>

definition device0 :: rt_device where
  "device0 = \<lparr>dev_type = 0, dev_flag = 0, open_flag = 0, ref_count = 0, rx_indicate = None, tx_complete = None\<rparr>"

definition rt_device_create :: "nat option \<Rightarrow> nat \<Rightarrow> 'd dev_state \<Rightarrow> nat option \<times> 'd dev_state" where
  "rt_device_create blk type st =
     (case blk of
        None \<Rightarrow> (None, st)
      | Some i \<Rightarrow> (Some i, st\<lparr>dev := device0\<lparr>dev_type := type\<rparr>,
          kern := upd_obj (DevObj i) (\<lambda>_. \<lparr>obj_name = replicate 8 0, obj_type = 0, obj_flag = 0\<rparr>) (kern st)\<rparr>))"

definition rt_device_destroy :: "nat \<Rightarrow> 'd dev_state \<Rightarrow> 'd dev_state option" where
  "rt_device_destroy i st = do {
     rt_assert (is_device i st);
     rt_assert (\<not> rt_object_is_systemobject (DevObj i) (kern st));
     Some (st\<lparr>kern := rt_object_detach (DevObj i) (kern st)\<rparr>)
   }"

section \<open>The calls of the clients\<close>

definition rt_device_init :: "('d, 'l, 'a, 'o) rt_device_ops \<Rightarrow> 'd dev_state \<Rightarrow> (rt_err_t \<times> 'd dev_state) option" where
  "rt_device_init ops st =
     (case op_init ops of
        None \<Rightarrow> Some (RT_EOK, st)
      | Some f \<Rightarrow>
          if dev_flag (dev st) AND RT_DEVICE_FLAG_ACTIVATED = 0 then do {
            (result, st) \<leftarrow> f st;
            if result \<noteq> RT_EOK then Some (result, st)
            else Some (result, upd_dev (\<lambda>d. d\<lparr>dev_flag := dev_flag d OR RT_DEVICE_FLAG_ACTIVATED\<rparr>) st)
          } else Some (RT_EOK, st))"

text \<open>The initialisation on demand in \<open>rt_device_open\<close>: a result other than \<open>RT_EOK\<close> ends the call.\<close>

definition device_activate :: "('d, 'l, 'a, 'o) rt_device_ops \<Rightarrow> 'd dev_state \<Rightarrow> (rt_err_t \<times> 'd dev_state) option" where
  "device_activate ops st =
     (if dev_flag (dev st) AND RT_DEVICE_FLAG_ACTIVATED = 0 then do {
        (result, st) \<leftarrow> (case op_init ops of None \<Rightarrow> Some (RT_EOK, st) | Some f \<Rightarrow> f st);
        if result \<noteq> RT_EOK then Some (result, st)
        else Some (RT_EOK, upd_dev (\<lambda>d. d\<lparr>dev_flag := dev_flag d OR RT_DEVICE_FLAG_ACTIVATED\<rparr>) st)
      } else Some (RT_EOK, st))"

definition rt_device_open ::
  "('d, 'l, 'a, 'o) rt_device_ops \<Rightarrow> nat \<Rightarrow> u16 \<Rightarrow> 'd dev_state \<Rightarrow> (rt_err_t \<times> 'd dev_state) option" where
  "rt_device_open ops i oflag st = do {
     rt_assert (is_device i st);
     (result, st) \<leftarrow> device_activate ops st;
     if result \<noteq> RT_EOK then Some (result, st)
     else if dev_flag (dev st) AND RT_DEVICE_FLAG_STANDALONE \<noteq> 0 \<and> open_flag (dev st) AND RT_DEVICE_OFLAG_OPEN \<noteq> 0
     then Some (- RT_EBUSY, st)
     else do {
       (result, st) \<leftarrow>
         (case op_open ops of
            None \<Rightarrow> Some (RT_EOK, upd_dev (\<lambda>d. d\<lparr>open_flag := oflag AND RT_DEVICE_OFLAG_MASK\<rparr>) st)
          | Some f \<Rightarrow> f oflag st);
       if result = RT_EOK \<or> result = - RT_ENOSYS then do {
         let st = upd_dev (\<lambda>d. d\<lparr>open_flag := open_flag d OR RT_DEVICE_OFLAG_OPEN, ref_count := ref_count d + 1\<rparr>) st;
         rt_assert (ref_count (dev st) \<noteq> 0);
         Some (result, st)
       } else Some (result, st)
     }
   }"

definition rt_device_close ::
  "('d, 'l, 'a, 'o) rt_device_ops \<Rightarrow> nat \<Rightarrow> 'd dev_state \<Rightarrow> (rt_err_t \<times> 'd dev_state) option" where
  "rt_device_close ops i st = do {
     rt_assert (is_device i st);
     if ref_count (dev st) = 0 then Some (- RT_ERROR, st)
     else do {
       let st = upd_dev (\<lambda>d. d\<lparr>ref_count := ref_count d - 1\<rparr>) st;
       if ref_count (dev st) \<noteq> 0 then Some (RT_EOK, st)
       else do {
         (result, st) \<leftarrow> (case op_close ops of None \<Rightarrow> Some (RT_EOK, st) | Some f \<Rightarrow> f st);
         Some (result, if result = RT_EOK \<or> result = - RT_ENOSYS
                       then upd_dev (\<lambda>d. d\<lparr>open_flag := RT_DEVICE_OFLAG_CLOSE\<rparr>) st else st)
       }
     }
   }"

definition set_errno :: "rt_err_t \<Rightarrow> 'd dev_state \<Rightarrow> 'd dev_state" where
  "set_errno e st = st\<lparr>kern := rt_set_errno e (kern st)\<rparr>"

definition rt_device_read :: "('d, 'l, 'a, 'o) rt_device_ops \<Rightarrow> nat \<Rightarrow> int \<Rightarrow> u32 \<Rightarrow> nat \<Rightarrow> 'd dev_state \<Rightarrow>
    ((u8 list \<times> nat) \<times> 'd dev_state) option" where
  "rt_device_read ops i pos buffer n st = do {
     rt_assert (is_device i st);
     if ref_count (dev st) = 0 then Some (([], 0), set_errno (- RT_ERROR) st)
     else case op_read ops of
       None \<Rightarrow> Some (([], 0), set_errno (- RT_ENOSYS) st)
     | Some f \<Rightarrow> f pos buffer n st
   }"

definition rt_device_write :: "('d, 'l, 'a, 'o) rt_device_ops \<Rightarrow> nat \<Rightarrow> int \<Rightarrow> u32 \<Rightarrow> u8 list \<Rightarrow> 'd dev_state \<Rightarrow>
    (('l, nat) outcome \<times> 'd dev_state) option" where
  "rt_device_write ops i pos buffer bytes st = do {
     rt_assert (is_device i st);
     if ref_count (dev st) = 0 then Some (Return 0, set_errno (- RT_ERROR) st)
     else case op_write ops of
       None \<Rightarrow> Some (Return 0, set_errno (- RT_ENOSYS) st)
     | Some f \<Rightarrow> f pos buffer bytes st
   }"

definition rt_device_control ::
  "('d, 'l, 'a, 'o) rt_device_ops \<Rightarrow> nat \<Rightarrow> 'a \<Rightarrow> 'd dev_state \<Rightarrow> ((rt_err_t \<times> 'o option) \<times> 'd dev_state) option" where
  "rt_device_control ops i cmd st = do {
     rt_assert (is_device i st);
     case op_control ops of None \<Rightarrow> Some ((- RT_ENOSYS, None), st) | Some f \<Rightarrow> f cmd st
   }"

definition rt_device_set_rx_indicate :: "nat \<Rightarrow> nat option \<Rightarrow> 'd dev_state \<Rightarrow> (rt_err_t \<times> 'd dev_state) option" where
  "rt_device_set_rx_indicate i rx_ind st = do {
     rt_assert (is_device i st);
     Some (RT_EOK, upd_dev (\<lambda>d. d\<lparr>rx_indicate := rx_ind\<rparr>) st)
   }"

definition rt_device_set_tx_complete :: "nat \<Rightarrow> nat option \<Rightarrow> 'd dev_state \<Rightarrow> (rt_err_t \<times> 'd dev_state) option" where
  "rt_device_set_tx_complete i tx_done st = do {
     rt_assert (is_device i st);
     Some (RT_EOK, upd_dev (\<lambda>d. d\<lparr>tx_complete := tx_done\<rparr>) st)
   }"

section \<open>A device cannot be destroyed\<close>

text \<open>The class of a device object: nothing, or a static device.  No operation of \<open>device.c\<close> makes a
  dynamic one, which is what \<open>rt_device_destroy\<close> insists on.\<close>

definition static_or_none :: "nat \<Rightarrow> 'd dev_state \<Rightarrow> bool" where
  "static_or_none i st \<longleftrightarrow> obj_type (objs (kern st) (DevObj i)) \<in> {0, RT_Object_Class_Device OR RT_Object_Class_Static}"

inductive device_life :: "nat \<Rightarrow> 'd dev_state \<Rightarrow> 'd dev_state \<Rightarrow> bool" for i where
  created: "rt_device_create (Some i) type st = (r, st') \<Longrightarrow> device_life i st st'"
| registered: "rt_device_register (Some i) name flags st = Some (e, st') \<Longrightarrow> device_life i st st'"
| unregistered: "rt_device_unregister i st = Some (e, st') \<Longrightarrow> device_life i st st'"

lemma object_find_objs: "rt_object_find name ty s = Some (x, s') \<Longrightarrow> objs s' = objs s"
  by (auto simp: rt_object_find_def Option.bind_eq_Some_conv Let_def dest!: exit_critical_objs split: option.splits if_splits)

lemma object_init_type:
  "rt_object_init x ty name s = Some s' \<Longrightarrow> obj_type (objs s' x) = ty OR RT_Object_Class_Static"
  by (auto simp: rt_object_init_def Option.bind_eq_Some_conv Let_def obj_link_front_def)

lemma device_life_static:
  assumes "device_life i st st'" "static_or_none i st"
  shows "static_or_none i st'"
  using assms
proof cases
  case (created type r)
  then show ?thesis by (auto simp: rt_device_create_def static_or_none_def)
next
  case (registered name flags e)
  then show ?thesis using assms(2) unfolding rt_device_register_def rt_device_find_def
    by (auto simp: Option.bind_eq_Some_conv static_or_none_def dest!: object_find_objs object_init_type
        split: if_splits)
next
  case (unregistered e)
  then show ?thesis
    by (auto simp: rt_device_unregister_def Option.bind_eq_Some_conv static_or_none_def rt_object_detach_def obj_unlink_def)
qed

text \<open>\<open>rt_device_destroy\<close> fails an assertion whatever was done with the device since it was created:
  it asks for a device that is not static, but registering makes the device static and unregistering
  takes away its class, so memory from \<open>rt_device_create\<close> can never be given back through it.\<close>

theorem device_destroy_never_succeeds:
  assumes "rt_device_create (Some i) type st0 = (Some i, st)" "(device_life i)\<^sup>*\<^sup>* st st'"
  shows "rt_device_destroy i st' = None"
proof -
  have "static_or_none i st" using assms(1) by (auto simp: rt_device_create_def static_or_none_def)
  with assms(2) have "static_or_none i st'" by (induction rule: rtranclp_induct) (auto dest: device_life_static)
  then show ?thesis
    by (auto simp: static_or_none_def rt_device_destroy_def is_device_def rt_object_get_type_def
        rt_object_is_systemobject_def bind_eq_None_conv)
qed

section \<open>What a driver promises\<close>

text \<open>The driver's data are \<open>closed\<close>, or \<open>opened\<close> with the flags the device was opened with.  The laws ask
  nothing of calls that do not return.  Clients open the device with the flags of \<open>flags\<close>.\<close>

locale device_driver =
  fixes initf :: "'d dev_state \<Rightarrow> (rt_err_t \<times> 'd dev_state) option"
    and openf :: "u16 \<Rightarrow> 'd dev_state \<Rightarrow> (rt_err_t \<times> 'd dev_state) option"
    and closef :: "'d dev_state \<Rightarrow> (rt_err_t \<times> 'd dev_state) option"
    and flags :: "u16 set"
    and closed :: "'d \<Rightarrow> bool" and opened :: "u16 \<Rightarrow> 'd \<Rightarrow> bool"
  assumes init_law: "closed (drv st) \<Longrightarrow> initf st = Some (r, st') \<Longrightarrow>
      closed (drv st') \<and> ref_count (dev st') = ref_count (dev st)"
    and open_law: "closed (drv st) \<or> opened (open_flag (dev st)) (drv st) \<Longrightarrow> oflag \<in> flags \<Longrightarrow> openf oflag st = Some (r, st') \<Longrightarrow>
      r \<notin> {RT_EOK, - RT_ENOSYS} \<and> st' = st \<or>
      r = RT_EOK \<and> opened (open_flag (dev st')) (drv st') \<and> ref_count (dev st') = ref_count (dev st) \<and>
      dev_flag (dev st') = dev_flag (dev st)"
    and close_law: "opened (open_flag (dev st)) (drv st) \<Longrightarrow> ref_count (dev st) = 0 \<Longrightarrow> closef st = Some (r, st') \<Longrightarrow>
      r = RT_EOK \<and> closed (drv st') \<and> ref_count (dev st') = 0"
    and mark_law: "opened f d \<Longrightarrow> opened (f OR RT_DEVICE_OFLAG_OPEN) d"

text \<open>The clients' calls, with the number of clients that have the device open.\<close>

inductive dev_call :: "('d, 'l, 'a, 'o) rt_device_ops \<Rightarrow> nat \<Rightarrow> u16 set \<Rightarrow> nat \<times> 'd dev_state \<Rightarrow> nat \<times> 'd dev_state \<Rightarrow> bool"
  for ops i flags where
  opened: "rt_device_open ops i oflag st = Some (RT_EOK, st') \<Longrightarrow> oflag \<in> flags \<Longrightarrow> dev_call ops i flags (n, st) (n + 1, st')"
| refused: "rt_device_open ops i oflag st = Some (r, st') \<Longrightarrow> oflag \<in> flags \<Longrightarrow> r \<noteq> RT_EOK \<Longrightarrow>
    dev_call ops i flags (n, st) (n, st')"
| closed: "rt_device_close ops i st = Some (RT_EOK, st') \<Longrightarrow> dev_call ops i flags (n, st) (n - 1, st')"
| not_open: "rt_device_close ops i st = Some (r, st') \<Longrightarrow> r \<noteq> RT_EOK \<Longrightarrow> dev_call ops i flags (n, st) (n, st')"

context device_driver
begin

text \<open>The reference count is the number of clients, and the driver is open exactly while there is one.\<close>

definition counted :: "nat \<times> 'd dev_state \<Rightarrow> bool" where
  "counted = (\<lambda>(n, st). unat (ref_count (dev st)) = n \<and>
     (if n = 0 then closed (drv st)
      else opened (open_flag (dev st)) (drv st) \<and> dev_flag (dev st) AND RT_DEVICE_FLAG_ACTIVATED \<noteq> 0))"

lemma activate_counted:
  assumes "device_activate ops st = Some (r, st')" "op_init ops = Some initf" "counted (n, st)"
  shows "counted (n, st')" "r = RT_EOK \<Longrightarrow> dev_flag (dev st') AND RT_DEVICE_FLAG_ACTIVATED \<noteq> 0"
proof -
  show "counted (n, st')"
  proof (cases "dev_flag (dev st) AND RT_DEVICE_FLAG_ACTIVATED = 0")
    case True
    then obtain r1 st1 where st1: "initf st = Some (r1, st1)"
        "(r, st') = (if r1 \<noteq> RT_EOK then (r1, st1)
           else (RT_EOK, upd_dev (\<lambda>d. d\<lparr>dev_flag := dev_flag d OR RT_DEVICE_FLAG_ACTIVATED\<rparr>) st1))"
      using assms(1,2) by (auto simp: device_activate_def Option.bind_eq_Some_conv split: if_splits)
    have n: "n = 0" "closed (drv st)" "unat (ref_count (dev st)) = 0"
      using assms(3) True by (auto simp: counted_def split: if_splits)
    show ?thesis using init_law [OF n(2) st1(1)] st1(2) n by (auto simp: counted_def split: if_splits)
  next
    case False
    then show ?thesis using assms(1,3) by (simp add: device_activate_def)
  qed
  have "bit ((x OR 16) AND 16) 4" for x :: u16 by (simp add: bit_simps)
  then have set: "(x OR 16) AND 16 \<noteq> 0" for x :: u16 by (metis bit_0_eq bot_apply bot_bool_def)
  show "dev_flag (dev st') AND RT_DEVICE_FLAG_ACTIVATED \<noteq> 0" if "r = RT_EOK"
  proof (cases "dev_flag (dev st) AND RT_DEVICE_FLAG_ACTIVATED = 0")
    case True
    then have "\<exists>st1. st' = upd_dev (\<lambda>d. d\<lparr>dev_flag := dev_flag d OR RT_DEVICE_FLAG_ACTIVATED\<rparr>) st1"
      using assms(1) that by (auto simp: device_activate_def Option.bind_eq_Some_conv split: if_splits intro: sym)
    then show ?thesis using set by auto
  next
    case False
    then show ?thesis using assms(1) by (simp add: device_activate_def)
  qed
qed

lemma open_counted:
  assumes o: "rt_device_open ops i oflag st = Some (r, st')" "oflag \<in> flags"
    and ops: "op_init ops = Some initf" "op_open ops = Some openf" and c: "counted (n, st)"
  shows "counted (if r = RT_EOK then n + 1 else n, st')"
proof -
  obtain r1 st1 where st1: "device_activate ops st = Some (r1, st1)"
    using o(1) unfolding rt_device_open_def by (auto simp: Option.bind_eq_Some_conv)
  note act = activate_counted [OF st1 ops(1) c]
  note rest = o(1) [unfolded rt_device_open_def st1 ops(2)]
  show ?thesis
  proof (cases "r1 = RT_EOK \<and> \<not> (dev_flag (dev st1) AND RT_DEVICE_FLAG_STANDALONE \<noteq> 0 \<and> open_flag (dev st1) AND RT_DEVICE_OFLAG_OPEN \<noteq> 0)")
    case True
    obtain r2 st2 where st2: "openf oflag st1 = Some (r2, st2)" using rest True by (auto simp: Option.bind_eq_Some_conv)
    have "closed (drv st1) \<or> opened (open_flag (dev st1)) (drv st1)" using act(1) by (auto simp: counted_def split: if_splits)
    from open_law [OF this o(2) st2] show ?thesis
    proof (elim disjE conjE)
      assume r2: "r2 \<notin> {RT_EOK, - RT_ENOSYS}" "st2 = st1"
      then have "r = r2" "st' = st1" using rest True st2 by (simp_all add: Option.bind_eq_Some_conv)
      then show ?thesis using act(1) r2(1) by simp
    next
      assume l: "r2 = RT_EOK" "opened (open_flag (dev st2)) (drv st2)" "ref_count (dev st2) = ref_count (dev st1)"
        "dev_flag (dev st2) = dev_flag (dev st1)"
      then have st': "r = RT_EOK" "ref_count (dev st2) + 1 \<noteq> 0"
          "st' = upd_dev (\<lambda>d. d\<lparr>open_flag := open_flag d OR RT_DEVICE_OFLAG_OPEN, ref_count := ref_count d + 1\<rparr>) st2"
        using rest True st2 by (simp_all add: Let_def Option.bind_eq_Some_conv)
      have "unat (ref_count (dev st2) + 1) = n + 1"
        using st'(2) l act(1) by (simp add: counted_def add.commute unatSuc)
      then show ?thesis using st' l mark_law act(2) True by (simp add: counted_def)
    qed
  next
    case False
    then have "st' = st1 \<and> r \<noteq> RT_EOK" using rest by (auto simp: Option.bind_eq_Some_conv split: if_splits)
    then show ?thesis using act(1) by simp
  qed
qed

lemma close_counted:
  assumes o: "rt_device_close ops i st = Some (r, st')"
    and ops: "op_close ops = Some closef" and c: "counted (n, st)"
  shows "counted (if r = RT_EOK then n - 1 else n, st')" "r = RT_EOK \<longleftrightarrow> n \<noteq> 0"
proof -
  have "counted (if r = RT_EOK then n - 1 else n, st') \<and> (r = RT_EOK \<longleftrightarrow> n \<noteq> 0)"
  proof (cases "ref_count (dev st) = 0")
    case True
    then show ?thesis using o c by (auto simp: rt_device_close_def counted_def Option.bind_eq_Some_conv)
  next
    case False
    then have n: "n \<noteq> 0" "unat (ref_count (dev st) - 1) = n - 1" "opened (open_flag (dev st)) (drv st)"
        "dev_flag (dev st) AND RT_DEVICE_FLAG_ACTIVATED \<noteq> 0"
      using c by (auto simp: counted_def unat_minus_one unat_eq_0 split: if_splits)
    let ?st1 = "upd_dev (\<lambda>d. d\<lparr>ref_count := ref_count d - 1\<rparr>) st"
    show ?thesis
    proof (cases "ref_count (dev st) - 1 = 0")
      case True
      then obtain r1 st1 where st1: "closef ?st1 = Some (r1, st1)" "r = r1"
          "st' = (if r1 = RT_EOK \<or> r1 = - RT_ENOSYS then upd_dev (\<lambda>d. d\<lparr>open_flag := RT_DEVICE_OFLAG_CLOSE\<rparr>) st1 else st1)"
        using o ops False by (auto simp: rt_device_close_def Option.bind_eq_Some_conv Let_def)
      have "opened (open_flag (dev ?st1)) (drv ?st1)" using n(3) by simp
      moreover have "ref_count (dev ?st1) = 0" using True by simp
      ultimately show ?thesis using close_law [OF _ _ st1(1)] st1(2,3) n True by (simp add: counted_def)
    next
      case nz: False
      then have "r = RT_EOK" "st' = ?st1" using o False by (auto simp: rt_device_close_def Option.bind_eq_Some_conv Let_def)
      moreover have "n - 1 \<noteq> 0" using nz n(2) by (metis unat_eq_zero)
      ultimately show ?thesis using n by (simp add: counted_def)
    qed
  qed
  then show "counted (if r = RT_EOK then n - 1 else n, st')" "r = RT_EOK \<longleftrightarrow> n \<noteq> 0" by blast+
qed

lemma calls_counted:
  assumes run: "(dev_call ops i flags)\<^sup>*\<^sup>* (n, st) (n', st')" and c: "counted (n, st)"
    and ops: "op_init ops = Some initf" "op_open ops = Some openf" "op_close ops = Some closef"
  shows "counted (n', st')"
  using run c
proof (induction rule: rtranclp_induct2)
  case (step n1 st1 n2 st2)
  have c1: "counted (n1, st1)" using step by blast
  from step.hyps(2) show ?case
  proof cases
    case (opened oflag)
    then show ?thesis using open_counted [OF opened(2,3) ops(1,2) c1] by simp
  next
    case (refused oflag r)
    then show ?thesis using open_counted [OF refused(2,3) ops(1,2) c1] by simp
  next
    case closed
    then show ?thesis using close_counted(1) [OF closed(2) ops(3) c1] by simp
  next
    case (not_open r)
    then show ?thesis using close_counted(1) [OF not_open(2) ops(3) c1] by simp
  qed
qed

end

end
