(* ===== verification/Serial.thy ===== *)
theory Serial
  imports SerialRx Completion DataQueue Device BufferPool
begin

text \<open>
  The serial driver \<open>components/drivers/serial/serial.c\<close> as a device: opening and closing in the three
  modes (polling, interrupts, DMA), reading, writing, the commands and the interrupt events.  The
  functions of the hardware (\<open>struct rt_uart_ops\<close>) are a parameter, on a hardware state of any type.
  The receive buffer is that of the theory SerialRx, the control blocks come from the heap.

  What runs between two places where interrupts are enabled is one function; a write in DMA mode
  has two, \<open>serial_dma_tx_push\<close> and \<open>serial_dma_tx_start\<close>.  The log messages are left out.
\<close>

section \<open>The device\<close>

record serial_configure =
  baud_rate :: u32
  data_bits :: "4 word"
  stop_bits :: "2 word"
  parity :: "2 word"
  bit_order :: "1 word"
  invert :: "1 word"
  bufsz :: u16

text \<open>The control blocks with their addresses: the receive buffer; whether a reception into the client's
  memory runs; the flag of a completion; whether a transmission runs, the queue of the writes and the
  address of its array.\<close>

datatype serial_rx = Rx_null | Rx_fifo u32 rt_serial_rx_fifo | Rx_dma u32 bool
datatype serial_tx = Tx_null | Tx_fifo u32 bool | Tx_dma u32 bool rt_data_queue u32

record 'h rt_serial =
  config :: serial_configure
  serial_rx :: serial_rx
  serial_tx :: serial_tx
  sheap :: heap
  hw :: 'h

datatype uart_ctrl = SET_INT u16 | CLR_INT u16 | Uart_config u16 | Uart_close | Uart_other int

record 'h rt_uart_ops =
  uart_configure :: "serial_configure \<Rightarrow> 'h \<Rightarrow> rt_err_t \<times> 'h"
  uart_control :: "uart_ctrl \<Rightarrow> 'h \<Rightarrow> rt_err_t \<times> 'h"
  uart_putc :: "u8 \<Rightarrow> 'h \<Rightarrow> int \<times> 'h"
  uart_getc :: "'h \<Rightarrow> int \<times> 'h"
  uart_dma_transmit :: "u32 \<Rightarrow> u32 \<Rightarrow> nat \<Rightarrow> 'h \<Rightarrow> 'h"

abbreviation (input) RT_SERIAL_DMA_RX :: nat where "RT_SERIAL_DMA_RX \<equiv> 1"
abbreviation (input) RT_SERIAL_DMA_TX :: nat where "RT_SERIAL_DMA_TX \<equiv> 2"

type_synonym 'h serial_state = "'h rt_serial dev_state"

definition upd_drv :: "('d \<Rightarrow> 'd) \<Rightarrow> 'd dev_state \<Rightarrow> 'd dev_state" where
  "upd_drv f st = st\<lparr>drv := f (drv st)\<rparr>"

lemma upd_drv_sel [simp]:
  "drv (upd_drv f st) = f (drv st)" "dev (upd_drv f st) = dev st" "kern (upd_drv f st) = kern st"
  by (simp_all add: upd_drv_def)

definition on_hw :: "('h \<Rightarrow> 'r \<times> 'h) \<Rightarrow> 'h serial_state \<Rightarrow> 'r \<times> 'h serial_state" where
  "on_hw f st = (case f (hw (drv st)) of (r, h) \<Rightarrow> (r, upd_drv (\<lambda>d. d\<lparr>hw := h\<rparr>) st))"

definition flag_set :: "u16 \<Rightarrow> 'd dev_state \<Rightarrow> bool" where
  "flag_set f st \<longleftrightarrow> open_flag (dev st) AND f \<noteq> 0"

definition or_flag :: "u16 \<Rightarrow> 'd dev_state \<Rightarrow> 'd dev_state" where
  "or_flag f = upd_dev (\<lambda>d. d\<lparr>open_flag := open_flag d OR f\<rparr>)"

definition clr_flag :: "u16 \<Rightarrow> 'd dev_state \<Rightarrow> 'd dev_state" where
  "clr_flag f = upd_dev (\<lambda>d. d\<lparr>open_flag := open_flag d AND NOT f\<rparr>)"

lemma flag_upd_sel [simp]:
  "drv (or_flag f st) = drv st" "kern (or_flag f st) = kern st" "drv (clr_flag f st) = drv st" "kern (clr_flag f st) = kern st"
  "dev (or_flag f st) = (dev st)\<lparr>open_flag := open_flag (dev st) OR f\<rparr>"
  "dev (clr_flag f st) = (dev st)\<lparr>open_flag := open_flag (dev st) AND NOT f\<rparr>"
  by (simp_all add: or_flag_def clr_flag_def)

lemma on_hw_sel [simp]:
  "dev (snd (on_hw f st)) = dev st" "kern (snd (on_hw f st)) = kern st" "config (drv (snd (on_hw f st))) = config (drv st)"
  "serial_rx (drv (snd (on_hw f st))) = serial_rx (drv st)" "serial_tx (drv (snd (on_hw f st))) = serial_tx (drv st)"
  "sheap (drv (snd (on_hw f st))) = sheap (drv st)" "hw (drv (snd (on_hw f st))) = snd (f (hw (drv st)))"
  "fst (on_hw f st) = fst (f (hw (drv st)))"
  by (simp_all add: on_hw_def split_beta)

section \<open>Polling\<close>

text \<open>The bytes read; the device in stream mode stops after a line feed.\<close>

fun serial_poll_rx :: "'h rt_uart_ops \<Rightarrow> nat \<Rightarrow> 'h serial_state \<Rightarrow> u8 list \<times> 'h serial_state" where
  "serial_poll_rx ops 0 st = ([], st)"
| "serial_poll_rx ops (Suc len) st =
     (case on_hw (uart_getc ops) st of (ch, st) \<Rightarrow>
        if ch = - 1 then ([], st)
        else if flag_set RT_DEVICE_FLAG_STREAM st \<and> ch = 10 then ([word_of_int ch], st)
        else apfst ((#) (word_of_int ch)) (serial_poll_rx ops len st))"

fun serial_poll_tx :: "'h rt_uart_ops \<Rightarrow> u8 list \<Rightarrow> 'h serial_state \<Rightarrow> 'h serial_state" where
  "serial_poll_tx ops [] st = st"
| "serial_poll_tx ops (c # cs) st =
     (let st = (if c = 10 \<and> flag_set RT_DEVICE_FLAG_STREAM st then snd (on_hw (uart_putc ops 13) st) else st)
      in serial_poll_tx ops cs (snd (on_hw (uart_putc ops c) st)))"

section \<open>Interrupts\<close>

text \<open>\<open>_serial_int_tx\<close>: a byte the hardware does not take now is tried again after the next completion,
  whatever \<open>rt_completion_wait\<close> returned.  The completion has the number of the device.\<close>

definition tx_wait :: "nat \<Rightarrow> 'h serial_state \<Rightarrow> ((unit, rt_err_t) outcome \<times> 'h serial_state) option" where
  "tx_wait i st =
     (case serial_tx (drv st) of
        Tx_fifo a flag \<Rightarrow> do {
          (r, flag, s) \<leftarrow> rt_completion_wait i (- 1) (flag, kern st);
          Some (r, upd_drv (\<lambda>d. d\<lparr>serial_tx := Tx_fifo a flag\<rparr>) (st\<lparr>kern := s\<rparr>))
        }
      | _ \<Rightarrow> None)"

text \<open>One round of the loop: whether the byte was taken.\<close>

definition int_tx_put :: "'h rt_uart_ops \<Rightarrow> u8 \<Rightarrow> 'h serial_state \<Rightarrow> bool \<times> 'h serial_state" where
  "int_tx_put ops c st =
     (let (r, st) = (if c = 10 \<and> flag_set RT_DEVICE_FLAG_STREAM st then on_hw (uart_putc ops 13) st else (0, st)) in
      if r = - 1 then (False, st)
      else (case on_hw (uart_putc ops c) st of (r, st) \<Rightarrow> (r \<noteq> - 1, st)))"

text \<open>\<open>sent\<close> bytes are done; a blocked write returns to the rest of the data, or to the address and
  length it pushes.\<close>

datatype serial_local = Int_local nat "u8 list" | Dma_local u32 u32

partial_function (option) serial_int_tx ::
  "'h rt_uart_ops \<Rightarrow> nat \<Rightarrow> nat \<Rightarrow> u8 list \<Rightarrow> 'h serial_state \<Rightarrow> ((serial_local, nat) outcome \<times> 'h serial_state) option" where
  "serial_int_tx ops i sent data st =
     (if serial_tx (drv st) = Tx_null then None
      else case data of
        [] \<Rightarrow> Some (Return sent, st)
      | c # cs \<Rightarrow> (case int_tx_put ops c st of (ok, st) \<Rightarrow>
          if ok then serial_int_tx ops i (sent + 1) cs st
          else Option.bind (tx_wait i st) (\<lambda>(r, st). case r of
            Return _ \<Rightarrow> serial_int_tx ops i sent data st
          | Blocked _ \<Rightarrow> Some (Blocked (Int_local sent data), st))))"

text \<open>The continuation of a write that was blocked in thread \<open>t\<close>.\<close>

definition serial_int_tx_resumed ::
  "'h rt_uart_ops \<Rightarrow> nat \<Rightarrow> tid \<Rightarrow> nat \<Rightarrow> u8 list \<Rightarrow> 'h serial_state \<Rightarrow> ((serial_local, nat) outcome \<times> 'h serial_state) option" where
  "serial_int_tx_resumed ops i t sent data st =
     (case serial_tx (drv st) of
       Tx_fifo a flag \<Rightarrow> do {
         (_, flag, s) \<leftarrow> rt_completion_wait_resumed t (flag, kern st);
         serial_int_tx ops i sent data (upd_drv (\<lambda>d. d\<lparr>serial_tx := Tx_fifo a flag\<rparr>) (st\<lparr>kern := s\<rparr>))
       }
     | _ \<Rightarrow> None)"

text \<open>Reading in interrupt mode is \<open>serial_int_rx\<close> on the buffer.\<close>

definition serial_int_rx_dev :: "nat \<Rightarrow> 'h serial_state \<Rightarrow> (u8 list \<times> 'h serial_state) option" where
  "serial_int_rx_dev len st =
     (case serial_rx (drv st) of
        Rx_fifo a q \<Rightarrow> do {
          (cs, q) \<leftarrow> serial_int_rx (bufsz (config (drv st))) len q;
          Some (cs, upd_drv (\<lambda>d. d\<lparr>serial_rx := Rx_fifo a q\<rparr>) st)
        }
      | _ \<Rightarrow> None)"

section \<open>DMA\<close>

definition serial_fifo_calc_recved_len :: "u16 \<Rightarrow> rt_serial_rx_fifo \<Rightarrow> u32" where
  "serial_fifo_calc_recved_len sz q =
     (if put_index q = get_index q then (if is_full q then ucast sz else 0)
      else if put_index q > get_index q then ucast (put_index q) - ucast (get_index q)
      else ucast sz - (ucast (get_index q) - ucast (put_index q)))"

definition rt_dma_recv_update_get_index :: "u16 \<Rightarrow> u32 \<Rightarrow> rt_serial_rx_fifo \<Rightarrow> rt_serial_rx_fifo option" where
  "rt_dma_recv_update_get_index sz len q = do {
     rt_assert (len \<le> serial_fifo_calc_recved_len sz q);
     let q = (if is_full q \<and> len \<noteq> 0 then q\<lparr>is_full := False\<rparr> else q);
     let q = q\<lparr>get_index := get_index q + ucast len\<rparr>;
     Some (if get_index q \<ge> sz then q\<lparr>get_index := get_index q mod sz\<rparr> else q)
   }"

text \<open>When the new data reach the read position, the oldest data are given up.\<close>

definition rt_dma_recv_update_put_index :: "u16 \<Rightarrow> u32 \<Rightarrow> rt_serial_rx_fifo \<Rightarrow> rt_serial_rx_fifo" where
  "rt_dma_recv_update_put_index sz len q =
     (let put = put_index q + ucast len;
          q = (if get_index q \<le> put_index q then
                 (if put \<ge> sz then
                    (let put = put mod sz in q\<lparr>put_index := put, is_full := is_full q \<or> put \<ge> get_index q\<rparr>)
                  else q\<lparr>put_index := put\<rparr>)
               else if put \<ge> get_index q then q\<lparr>put_index := if put \<ge> sz then put mod sz else put, is_full := True\<rparr>
               else q\<lparr>put_index := put\<rparr>)
      in if is_full q then q\<lparr>get_index := put_index q\<rparr> else q)"

text \<open>The bytes that the hardware has written from the old \<open>put_index\<close> on, around the end of the buffer.\<close>

definition dma_write :: "u8 list \<Rightarrow> rt_serial_rx_fifo \<Rightarrow> rt_serial_rx_fifo" where
  "dma_write cs q = q\<lparr>rx_buffer := fold (\<lambda>k b. b[(unat (put_index q) + k) mod length b := cs ! k]) [0..<length cs] (rx_buffer q)\<rparr>"

definition dma_receive :: "u16 \<Rightarrow> u8 list \<Rightarrow> rt_serial_rx_fifo \<Rightarrow> rt_serial_rx_fifo" where
  "dma_receive sz cs q = rt_dma_recv_update_put_index sz (of_nat (length cs)) (dma_write cs q)"

text \<open>\<open>_serial_dma_rx\<close>: the bytes stored now and the number returned; without a buffer the hardware
  stores into the client's memory later.\<close>

definition serial_dma_rx_fifo :: "u16 \<Rightarrow> nat \<Rightarrow> rt_serial_rx_fifo \<Rightarrow> (u8 list \<times> rt_serial_rx_fifo) option" where
  "serial_dma_rx_fifo sz len q = do {
     let recv_len = min len (unat (serial_fifo_calc_recved_len sz q));
     let g = unat (get_index q);
     let data = (if g + recv_len < unat sz then take recv_len (drop g (rx_buffer q))
                 else drop g (rx_buffer q) @ take (recv_len + g - unat sz) (rx_buffer q));
     q \<leftarrow> rt_dma_recv_update_get_index sz (of_nat recv_len) q;
     Some (data, q)
   }"

definition serial_dma_rx :: "'h rt_uart_ops \<Rightarrow> u32 \<Rightarrow> nat \<Rightarrow> 'h serial_state \<Rightarrow> ((u8 list \<times> nat) \<times> 'h serial_state) option" where
  "serial_dma_rx ops buffer len st =
     (if bufsz (config (drv st)) = 0 then
        (case serial_rx (drv st) of
           Rx_dma a activated \<Rightarrow>
             if activated then Some (([], 0), set_errno (- RT_EBUSY) st)
             else Some (([], len), upd_drv (\<lambda>d. d\<lparr>serial_rx := Rx_dma a True,
                    hw := uart_dma_transmit ops buffer (of_nat len) RT_SERIAL_DMA_RX (hw d)\<rparr>) st)
         | _ \<Rightarrow> None)
      else
        (case serial_rx (drv st) of
           Rx_fifo a q \<Rightarrow> do {
             (cs, q) \<leftarrow> serial_dma_rx_fifo (bufsz (config (drv st))) len q;
             Some ((cs, length cs), upd_drv (\<lambda>d. d\<lparr>serial_rx := Rx_fifo a q\<rparr>) st)
           }
         | _ \<Rightarrow> None))"

text \<open>\<open>_serial_dma_tx\<close>: the write is queued, with interrupts enabled again after it; then the hardware is
  started unless it runs.  The queue has the number of the device.\<close>

definition dma_tx_pushed ::
  "'h serial_state \<Rightarrow> u32 \<Rightarrow> bool \<Rightarrow> u32 \<Rightarrow> (unit, rt_err_t) outcome \<times> rt_data_queue \<times> kstate \<Rightarrow>
   (unit, rt_err_t) outcome \<times> 'h serial_state" where
  "dma_tx_pushed st a act arr = (\<lambda>(r, q, s). (r, upd_drv (\<lambda>d. d\<lparr>serial_tx := Tx_dma a act q arr\<rparr>) (st\<lparr>kern := s\<rparr>)))"

definition serial_dma_tx_push ::
  "nat \<Rightarrow> u32 \<Rightarrow> u32 \<Rightarrow> 'h serial_state \<Rightarrow> ((unit, rt_err_t) outcome \<times> 'h serial_state) option" where
  "serial_dma_tx_push i buffer len st =
     (case serial_tx (drv st) of
        Tx_dma a act q arr \<Rightarrow> map_option (dma_tx_pushed st a act arr) (rt_data_queue_push None i buffer len (- 1) (q, kern st))
      | _ \<Rightarrow> None)"

definition serial_dma_tx_push_resumed ::
  "nat \<Rightarrow> tid \<Rightarrow> u32 \<Rightarrow> u32 \<Rightarrow> 'h serial_state \<Rightarrow> ((unit, rt_err_t) outcome \<times> 'h serial_state) option" where
  "serial_dma_tx_push_resumed i t buffer len st =
     (case serial_tx (drv st) of
        Tx_dma a act q arr \<Rightarrow>
          map_option (dma_tx_pushed st a act arr) (rt_data_queue_push_resumed None i buffer len (- 1) t (q, kern st))
      | _ \<Rightarrow> None)"

definition serial_dma_tx_start :: "'h rt_uart_ops \<Rightarrow> u32 \<Rightarrow> u32 \<Rightarrow> 'h serial_state \<Rightarrow> 'h serial_state option" where
  "serial_dma_tx_start ops buffer len st =
     (case serial_tx (drv st) of
        Tx_dma a act q arr \<Rightarrow>
          if act then Some st
          else Some (upd_drv (\<lambda>d. d\<lparr>serial_tx := Tx_dma a True q arr,
                 hw := uart_dma_transmit ops buffer len RT_SERIAL_DMA_TX (hw d)\<rparr>) st)
      | _ \<Rightarrow> None)"

definition serial_dma_tx_rest ::
  "'h rt_uart_ops \<Rightarrow> u32 \<Rightarrow> u32 \<Rightarrow> (unit, rt_err_t) outcome \<times> 'h serial_state \<Rightarrow> ((serial_local, nat) outcome \<times> 'h serial_state) option" where
  "serial_dma_tx_rest ops buffer len = (\<lambda>(r, st). case r of
     Blocked _ \<Rightarrow> Some (Blocked (Dma_local buffer len), st)
   | Return e \<Rightarrow>
       if e = RT_EOK then do { st \<leftarrow> serial_dma_tx_start ops buffer len st; Some (Return (unat len), st) }
       else Some (Return 0, set_errno e st))"

definition serial_dma_tx ::
  "'h rt_uart_ops \<Rightarrow> nat \<Rightarrow> u32 \<Rightarrow> u32 \<Rightarrow> 'h serial_state \<Rightarrow> ((serial_local, nat) outcome \<times> 'h serial_state) option" where
  "serial_dma_tx ops i buffer len st = Option.bind (serial_dma_tx_push i buffer len st) (serial_dma_tx_rest ops buffer len)"

section \<open>The functions of the device\<close>

definition rt_serial_init :: "'h rt_uart_ops \<Rightarrow> 'h serial_state \<Rightarrow> (rt_err_t \<times> 'h serial_state) option" where
  "rt_serial_init ops st =
     Some (let st = upd_drv (\<lambda>d. d\<lparr>serial_rx := Rx_null, serial_tx := Tx_null\<rparr>) st
           in on_hw (uart_configure ops (config (drv st))) st)"

text \<open>An allocation that the driver insists on.\<close>

definition serial_malloc :: "u32 \<Rightarrow> 'h serial_state \<Rightarrow> (u32 \<times> 'h serial_state) option" where
  "serial_malloc n st = do {
     (p, h) \<leftarrow> heap_get n (sheap (drv st));
     rt_assert (p \<noteq> None);
     Some (the p, upd_drv (\<lambda>d. d\<lparr>sheap := h\<rparr>) st)
   }"

definition serial_control :: "'h rt_uart_ops \<Rightarrow> uart_ctrl \<Rightarrow> 'h serial_state \<Rightarrow> 'h serial_state" where
  "serial_control ops c st = snd (on_hw (uart_control ops c) st)"

definition set_rx :: "serial_rx \<Rightarrow> 'h serial_state \<Rightarrow> 'h serial_state" where
  "set_rx r = upd_drv (\<lambda>d. d\<lparr>serial_rx := r\<rparr>)"

definition set_tx :: "serial_tx \<Rightarrow> 'h serial_state \<Rightarrow> 'h serial_state" where
  "set_tx r = upd_drv (\<lambda>d. d\<lparr>serial_tx := r\<rparr>)"

lemma serial_upd_sel [simp]:
  "dev (serial_control ops c st) = dev st" "kern (serial_control ops c st) = kern st"
  "config (drv (serial_control ops c st)) = config (drv st)"
  "serial_rx (drv (serial_control ops c st)) = serial_rx (drv st)"
  "serial_tx (drv (serial_control ops c st)) = serial_tx (drv st)"
  "sheap (drv (serial_control ops c st)) = sheap (drv st)"
  "dev (set_rx r st) = dev st" "kern (set_rx r st) = kern st" "drv (set_rx r st) = (drv st)\<lparr>serial_rx := r\<rparr>"
  "dev (set_tx x st) = dev st" "kern (set_tx x st) = kern st" "drv (set_tx x st) = (drv st)\<lparr>serial_tx := x\<rparr>"
  by (simp_all add: serial_control_def set_rx_def set_tx_def)

text \<open>The receiving half of \<open>rt_serial_open\<close>.  A control block for the buffer takes 12 bytes more than
  the buffer.\<close>

definition serial_open_rx :: "'h rt_uart_ops \<Rightarrow> u16 \<Rightarrow> 'h serial_state \<Rightarrow> 'h serial_state option" where
  "serial_open_rx ops oflag st =
     (let n = bufsz (config (drv st)) in
      if serial_rx (drv st) = Rx_null then
        (if oflag AND RT_DEVICE_FLAG_INT_RX \<noteq> 0 then do {
           (p, st) \<leftarrow> serial_malloc (12 + ucast n) st;
           let st = or_flag RT_DEVICE_FLAG_INT_RX (set_rx (Rx_fifo p (serial_rx_open n)) st);
           Some (serial_control ops (SET_INT RT_DEVICE_FLAG_INT_RX) st)
         }
         else if oflag AND RT_DEVICE_FLAG_DMA_RX \<noteq> 0 then do {
           st \<leftarrow> (if n = 0 then do { (p, st) \<leftarrow> serial_malloc 4 st; Some (set_rx (Rx_dma p False) st) }
                  else do {
                    (p, st) \<leftarrow> serial_malloc (12 + ucast n) st;
                    Some (serial_control ops (Uart_config RT_DEVICE_FLAG_DMA_RX) (set_rx (Rx_fifo p (serial_rx_open n)) st))
                  });
           Some (or_flag RT_DEVICE_FLAG_DMA_RX st)
         }
         else Some (set_rx Rx_null st))
      else Some (if oflag AND RT_DEVICE_FLAG_INT_RX \<noteq> 0 then or_flag RT_DEVICE_FLAG_INT_RX st
                 else if oflag AND RT_DEVICE_FLAG_DMA_RX \<noteq> 0 then or_flag RT_DEVICE_FLAG_DMA_RX st else st))"

text \<open>The sending half; the result of \<open>rt_data_queue_init\<close>, which allocates 8 items of 8 bytes, is not
  looked at.\<close>

definition serial_open_tx :: "'h rt_uart_ops \<Rightarrow> nat \<Rightarrow> u16 \<Rightarrow> 'h serial_state \<Rightarrow> 'h serial_state option" where
  "serial_open_tx ops i oflag st =
     (if serial_tx (drv st) = Tx_null then
        (if oflag AND RT_DEVICE_FLAG_INT_TX \<noteq> 0 then do {
           (p, st) \<leftarrow> serial_malloc 12 st;
           (flag, s) \<leftarrow> rt_completion_init i (kern st);
           let st = or_flag RT_DEVICE_FLAG_INT_TX (set_tx (Tx_fifo p flag) (st\<lparr>kern := s\<rparr>));
           Some (serial_control ops (SET_INT RT_DEVICE_FLAG_INT_TX) st)
         }
         else if oflag AND RT_DEVICE_FLAG_DMA_TX \<noteq> 0 then do {
           (p, st) \<leftarrow> serial_malloc 40 st;
           (arr, h) \<leftarrow> heap_get (8 * 8) (sheap (drv st));
           (_, q, s) \<leftarrow> rt_data_queue_init i (map_option (\<lambda>_. replicate 8 (0, 0)) arr) 8 4 (kern st);
           let st = upd_drv (\<lambda>d. d\<lparr>sheap := h\<rparr>) (st\<lparr>kern := s\<rparr>);
           let st = or_flag RT_DEVICE_FLAG_DMA_TX (set_tx (Tx_dma p False q (case arr of None \<Rightarrow> 0 | Some a \<Rightarrow> a)) st);
           Some (serial_control ops (Uart_config RT_DEVICE_FLAG_DMA_TX) st)
         }
         else Some (set_tx Tx_null st))
      else Some (if oflag AND RT_DEVICE_FLAG_INT_TX \<noteq> 0 then or_flag RT_DEVICE_FLAG_INT_TX st
                 else if oflag AND RT_DEVICE_FLAG_DMA_TX \<noteq> 0 then or_flag RT_DEVICE_FLAG_DMA_TX st else st))"

text \<open>A mode that the device was not registered with is refused.\<close>

definition mode_missing :: "u16 \<Rightarrow> 'h serial_state \<Rightarrow> bool" where
  "mode_missing oflag st \<longleftrightarrow>
     (\<exists>f \<in> {RT_DEVICE_FLAG_DMA_RX, RT_DEVICE_FLAG_DMA_TX, RT_DEVICE_FLAG_INT_RX, RT_DEVICE_FLAG_INT_TX}.
        oflag AND f \<noteq> 0 \<and> dev_flag (dev st) AND f = 0)"

definition rt_serial_open :: "'h rt_uart_ops \<Rightarrow> nat \<Rightarrow> u16 \<Rightarrow> 'h serial_state \<Rightarrow> (rt_err_t \<times> 'h serial_state) option" where
  "rt_serial_open ops i oflag st =
     (if mode_missing oflag st then Some (- RT_EIO, st)
      else do {
        let stream = (if oflag AND RT_DEVICE_FLAG_STREAM \<noteq> 0 \<or> flag_set RT_DEVICE_FLAG_STREAM st then RT_DEVICE_FLAG_STREAM else 0);
        let st = upd_dev (\<lambda>d. d\<lparr>open_flag := oflag AND 0xff\<rparr>) st;
        st \<leftarrow> serial_open_rx ops oflag st;
        st \<leftarrow> serial_open_tx ops i oflag st;
        Some (RT_EOK, or_flag stream st)
      })"

definition serial_free :: "u32 \<Rightarrow> 'h serial_state \<Rightarrow> 'h serial_state option" where
  "serial_free p st = do { h \<leftarrow> rt_free p (sheap (drv st)); Some (upd_drv (\<lambda>d. d\<lparr>sheap := h\<rparr>) st) }"

text \<open>Without DMA, \<open>serial_rx\<close> is taken for a buffer whatever it is; only its address matters.\<close>

fun rx_addr :: "serial_rx \<Rightarrow> u32 option" where
  "rx_addr Rx_null = None"
| "rx_addr (Rx_fifo p q) = Some p"
| "rx_addr (Rx_dma p a) = Some p"

fun tx_addr :: "serial_tx \<Rightarrow> u32 option" where
  "tx_addr Tx_null = None"
| "tx_addr (Tx_fifo p f) = Some p"
| "tx_addr (Tx_dma p a q arr) = Some p"

definition serial_close_rx :: "'h rt_uart_ops \<Rightarrow> 'h serial_state \<Rightarrow> 'h serial_state option" where
  "serial_close_rx ops st =
     (let close = (\<lambda>f. do {
        rt_assert (serial_rx (drv st) \<noteq> Rx_null);
        p \<leftarrow> rx_addr (serial_rx (drv st));
        st \<leftarrow> serial_free p st;
        Some (serial_control ops (CLR_INT f) (clr_flag f (set_rx Rx_null st)))
      })
      in if flag_set RT_DEVICE_FLAG_INT_RX st then close RT_DEVICE_FLAG_INT_RX
         else if flag_set RT_DEVICE_FLAG_DMA_RX st then close RT_DEVICE_FLAG_DMA_RX else Some st)"

definition serial_close_tx :: "'h rt_uart_ops \<Rightarrow> nat \<Rightarrow> 'h serial_state \<Rightarrow> 'h serial_state option" where
  "serial_close_tx ops i st =
     (if flag_set RT_DEVICE_FLAG_INT_TX st then do {
        rt_assert (serial_tx (drv st) \<noteq> Tx_null);
        p \<leftarrow> tx_addr (serial_tx (drv st));
        st \<leftarrow> serial_free p st;
        Some (serial_control ops (CLR_INT RT_DEVICE_FLAG_INT_TX) (clr_flag RT_DEVICE_FLAG_INT_TX (set_tx Tx_null st)))
      }
      else if flag_set RT_DEVICE_FLAG_DMA_TX st then
        (case serial_tx (drv st) of
           Tx_dma p act q arr \<Rightarrow> do {
             (_, q, s) \<leftarrow> rt_data_queue_deinit i (q, kern st);
             st \<leftarrow> serial_free arr (st\<lparr>kern := s\<rparr>);
             st \<leftarrow> serial_free p st;
             Some (serial_control ops (CLR_INT RT_DEVICE_FLAG_DMA_TX) (clr_flag RT_DEVICE_FLAG_DMA_TX (set_tx Tx_null st)))
           }
         | _ \<Rightarrow> None)
      else Some st)"

definition rt_serial_close :: "'h rt_uart_ops \<Rightarrow> nat \<Rightarrow> 'h serial_state \<Rightarrow> (rt_err_t \<times> 'h serial_state) option" where
  "rt_serial_close ops i st =
     (if ref_count (dev st) > 1 then Some (RT_EOK, st)
      else do {
        st \<leftarrow> serial_close_rx ops st;
        st \<leftarrow> serial_close_tx ops i st;
        let st = serial_control ops Uart_close st;
        Some (RT_EOK, upd_dev (\<lambda>d. d\<lparr>dev_flag := dev_flag d AND NOT RT_DEVICE_FLAG_ACTIVATED\<rparr>) st)
      })"

definition rt_serial_read ::
  "'h rt_uart_ops \<Rightarrow> int \<Rightarrow> u32 \<Rightarrow> nat \<Rightarrow> 'h serial_state \<Rightarrow> ((u8 list \<times> nat) \<times> 'h serial_state) option" where
  "rt_serial_read ops pos buffer n st =
     (if n = 0 then Some (([], 0), st)
      else if flag_set RT_DEVICE_FLAG_INT_RX st
      then map_option (apfst (\<lambda>cs. (cs, length cs))) (serial_int_rx_dev n st)
      else if flag_set RT_DEVICE_FLAG_DMA_RX st then serial_dma_rx ops buffer n st
      else Some (apfst (\<lambda>cs. (cs, length cs)) (serial_poll_rx ops n st)))"

definition rt_serial_write ::
  "'h rt_uart_ops \<Rightarrow> nat \<Rightarrow> int \<Rightarrow> u32 \<Rightarrow> u8 list \<Rightarrow> 'h serial_state \<Rightarrow> ((serial_local, nat) outcome \<times> 'h serial_state) option" where
  "rt_serial_write ops i pos buffer data st =
     (if data = [] then Some (Return 0, st)
      else if flag_set RT_DEVICE_FLAG_INT_TX st then serial_int_tx ops i 0 data st
      else if flag_set RT_DEVICE_FLAG_DMA_TX st then serial_dma_tx ops i buffer (of_nat (length data)) st
      else Some (Return (length data), serial_poll_tx ops data st))"

section \<open>Commands\<close>

record termios =
  c_iflag :: u32
  c_oflag :: u32
  c_cflag :: u32
  c_lflag :: u32

abbreviation (input) CBAUD :: u32 where "CBAUD \<equiv> 0x100f"
abbreviation (input) CSIZE :: u32 where "CSIZE \<equiv> 0x30"
abbreviation (input) CS5 :: u32 where "CS5 \<equiv> 0x00"
abbreviation (input) CS6 :: u32 where "CS6 \<equiv> 0x10"
abbreviation (input) CS7 :: u32 where "CS7 \<equiv> 0x20"
abbreviation (input) CS8 :: u32 where "CS8 \<equiv> 0x30"
abbreviation (input) CSTOPB :: u32 where "CSTOPB \<equiv> 0x40"
abbreviation (input) PARENB :: u32 where "PARENB \<equiv> 0x100"
abbreviation (input) PARODD :: u32 where "PARODD \<equiv> 0x200"

text \<open>The table \<open>_tbl\<close> of speed codes and baud rates.\<close>

definition speed_table :: "(u32 \<times> u32) list" where
  "speed_table = [(11, 2400), (12, 4800), (13, 9600), (14, 19200), (15, 38400), (0x1001, 57600), (0x1002, 115200),
     (0x1003, 230400), (0x1004, 460800), (0x1007, 921600), (0x100b, 2000000), (0x100d, 3000000)]"

definition get_speed :: "u32 \<Rightarrow> u32" where
  "get_speed baudrate = (case find (\<lambda>(s, b). b = baudrate) speed_table of None \<Rightarrow> 0 | Some (s, b) \<Rightarrow> s)"

definition get_baudrate :: "u32 \<Rightarrow> u32" where
  "get_baudrate speed = (case find (\<lambda>(s, b). s = speed) speed_table of None \<Rightarrow> 0 | Some (s, b) \<Rightarrow> b)"

text \<open>From \<open>components/libc/termios/posix_termios.c\<close>.\<close>

definition cfgetospeed :: "termios \<Rightarrow> u32" where
  "cfgetospeed tio = c_cflag tio AND CBAUD"

definition cfsetospeed :: "u32 \<Rightarrow> termios \<Rightarrow> termios" where
  "cfsetospeed speed tio =
     (if speed AND NOT CBAUD \<noteq> 0 then tio else tio\<lparr>c_cflag := (c_cflag tio AND NOT CBAUD) OR speed\<rparr>)"

text \<open>\<open>TCGETA\<close> for a device that is the console or not.\<close>

definition config_termios :: "bool \<Rightarrow> serial_configure \<Rightarrow> termios" where
  "config_termios is_console c =
     (let size = (if data_bits c = 5 then CS5 else if data_bits c = 6 then CS6 else if data_bits c = 7 then CS7
                  else if data_bits c = 8 then CS8 else 0);
          flag = (if stop_bits c = 1 then size OR CSTOPB else size);
          flag = (if parity c = 2 then flag OR PARENB else if parity c = 1 then flag OR (PARODD OR PARENB) else flag)
      in cfsetospeed (get_speed (baud_rate c))
           \<lparr>c_iflag = 0, c_oflag = (if is_console then 1 OR 4 else 0), c_cflag = flag, c_lflag = 0\<rparr>)"

definition termios_config :: "termios \<Rightarrow> serial_configure \<Rightarrow> serial_configure" where
  "termios_config tio c =
     (let size = c_cflag tio AND CSIZE in
      c\<lparr>baud_rate := get_baudrate (cfgetospeed tio),
        data_bits := (if size = CS5 then 5 else if size = CS6 then 6 else if size = CS7 then 7 else 8),
        stop_bits := (if c_cflag tio AND CSTOPB \<noteq> 0 then 1 else 0),
        parity := (if c_cflag tio AND PARENB \<noteq> 0 then if c_cflag tio AND PARODD \<noteq> 0 then 1 else 2 else 0)\<rparr>)"

text \<open>\<open>while (1) if (getc () == -1) break\<close>\<close>

partial_function (option) serial_drain :: "'h rt_uart_ops \<Rightarrow> 'h serial_state \<Rightarrow> 'h serial_state option" where
  "serial_drain ops st =
     (if fst (on_hw (uart_getc ops) st) = - 1 then Some (snd (on_hw (uart_getc ops) st))
      else serial_drain ops (snd (on_hw (uart_getc ops) st)))"

definition tc_flush :: "'h rt_uart_ops \<Rightarrow> int \<Rightarrow> 'h serial_state \<Rightarrow> 'h serial_state option" where
  "tc_flush ops queue st =
     (if queue = 0 \<or> queue = 2 then do {
        rt_assert (serial_rx (drv st) \<noteq> Rx_null);
        if flag_set RT_DEVICE_FLAG_INT_RX st \<or> flag_set RT_DEVICE_FLAG_DMA_RX st then
          (case serial_rx (drv st) of
             Rx_fifo p q \<Rightarrow> Some (set_rx (Rx_fifo p (serial_rx_open (bufsz (config (drv st))))) st)
           | _ \<Rightarrow> None)
        else serial_drain ops st
      }
      else Some st)"

text \<open>The commands with their arguments, a null pointer being \<open>None\<close>; \<open>TCSETAW\<close> and \<open>TCSETAF\<close> are \<open>TCSETA\<close>.\<close>

datatype serial_cmd = RT_DEVICE_CTRL_SUSPEND | RT_DEVICE_CTRL_RESUME | RT_DEVICE_CTRL_CONFIG "serial_configure option"
  | TCGETA "termios option" | TCSETA "termios option" | TCFLSH int | TCXONC | FIONREAD | Serial_other int

datatype serial_out = Out_termios termios | Out_recved u32

definition rt_serial_control :: "'h rt_uart_ops \<Rightarrow> bool \<Rightarrow> serial_cmd \<Rightarrow> 'h serial_state \<Rightarrow>
    ((rt_err_t \<times> serial_out option) \<times> 'h serial_state) option" where
  "rt_serial_control ops is_console cmd st =
     (case cmd of
        RT_DEVICE_CTRL_SUSPEND \<Rightarrow>
          Some ((RT_EOK, None), upd_dev (\<lambda>d. d\<lparr>dev_flag := dev_flag d OR RT_DEVICE_FLAG_SUSPENDED\<rparr>) st)
      | RT_DEVICE_CTRL_RESUME \<Rightarrow>
          Some ((RT_EOK, None), upd_dev (\<lambda>d. d\<lparr>dev_flag := dev_flag d AND NOT RT_DEVICE_FLAG_SUSPENDED\<rparr>) st)
      | RT_DEVICE_CTRL_CONFIG None \<Rightarrow> Some ((RT_EOK, None), st)
      | RT_DEVICE_CTRL_CONFIG (Some c) \<Rightarrow>
          if bufsz c \<noteq> bufsz (config (drv st)) \<and> ref_count (dev st) \<noteq> 0 then Some ((RT_EBUSY, None), st)
          else do {
            let st = upd_drv (\<lambda>d. d\<lparr>config := c\<rparr>) st;
            Some ((RT_EOK, None), if ref_count (dev st) \<noteq> 0 then snd (on_hw (uart_configure ops c) st) else st)
          }
      | TCGETA None \<Rightarrow> Some ((- RT_EINVAL, None), st)
      | TCGETA (Some tio) \<Rightarrow> Some ((RT_EOK, Some (Out_termios (config_termios is_console (config (drv st))))), st)
      | TCSETA None \<Rightarrow> Some ((- RT_EINVAL, None), st)
      | TCSETA (Some tio) \<Rightarrow>
          Some ((RT_EOK, None), snd (on_hw (uart_configure ops (termios_config tio (config (drv st)))) st))
      | TCFLSH queue \<Rightarrow> do { st \<leftarrow> tc_flush ops queue st; Some ((RT_EOK, None), st) }
      | TCXONC \<Rightarrow> Some ((RT_EOK, None), st)
      | FIONREAD \<Rightarrow>
          (case serial_rx (drv st) of
             Rx_fifo p q \<Rightarrow> Some ((RT_EOK, Some (Out_recved (serial_fifo_calc_recved_len (bufsz (config (drv st))) q))), st)
           | _ \<Rightarrow> None)
      | Serial_other n \<Rightarrow> (case on_hw (uart_control ops (Uart_other n)) st of (r, st) \<Rightarrow> Some ((r, None), st)))"

section \<open>Interrupt events\<close>

text \<open>The callbacks of the clients, by their numbers: what was received, and what was sent.\<close>

record 'h serial_callbacks =
  call_rx :: "nat \<Rightarrow> u32 \<Rightarrow> 'h serial_state \<Rightarrow> 'h serial_state option"
  call_tx :: "nat \<Rightarrow> u32 \<Rightarrow> 'h serial_state \<Rightarrow> 'h serial_state option"

text \<open>The events; a DMA reception comes with the bytes that the hardware has stored.\<close>

datatype serial_event = RT_SERIAL_EVENT_RX_IND | RT_SERIAL_EVENT_TX_DONE | RT_SERIAL_EVENT_TX_DMADONE
  | RT_SERIAL_EVENT_RX_DMADONE "u8 list"

partial_function (option) serial_rx_loop :: "'h rt_uart_ops \<Rightarrow> rt_serial_rx_fifo \<Rightarrow> 'h serial_state \<Rightarrow> (rt_serial_rx_fifo \<times> 'h serial_state) option" where
  "serial_rx_loop ops q st =
     (if fst (on_hw (uart_getc ops) st) = - 1 then Some (q, snd (on_hw (uart_getc ops) st))
      else Option.bind (serial_rx_byte (bufsz (config (drv st))) (word_of_int (fst (on_hw (uart_getc ops) st))) q)
        (\<lambda>q. serial_rx_loop ops q (snd (on_hw (uart_getc ops) st))))"

definition indicate_rx :: "'h serial_callbacks \<Rightarrow> u32 \<Rightarrow> 'h serial_state \<Rightarrow> 'h serial_state option" where
  "indicate_rx cb n st = (case rx_indicate (dev st) of None \<Rightarrow> Some st | Some f \<Rightarrow> call_rx cb f n st)"

definition rt_hw_serial_isr ::
  "'h rt_uart_ops \<Rightarrow> 'h serial_callbacks \<Rightarrow> nat \<Rightarrow> serial_event \<Rightarrow> 'h serial_state \<Rightarrow> 'h serial_state option" where
  "rt_hw_serial_isr ops cb i event st =
     (case event of
        RT_SERIAL_EVENT_RX_IND \<Rightarrow>
          (case serial_rx (drv st) of
             Rx_fifo p q \<Rightarrow> do {
               (q, st) \<leftarrow> serial_rx_loop ops q st;
               let n = serial_rx_length (bufsz (config (drv st))) q;
               let st = set_rx (Rx_fifo p q) st;
               if n \<noteq> 0 then indicate_rx cb n st else Some st
             }
           | _ \<Rightarrow> None)
      | RT_SERIAL_EVENT_TX_DONE \<Rightarrow>
          (case serial_tx (drv st) of
             Tx_fifo p flag \<Rightarrow> do {
               (flag, s) \<leftarrow> rt_completion_done i (flag, kern st);
               Some (set_tx (Tx_fifo p flag) (st\<lparr>kern := s\<rparr>))
             }
           | _ \<Rightarrow> None)
      | RT_SERIAL_EVENT_TX_DMADONE \<Rightarrow>
          (case serial_tx (drv st) of
             Tx_dma p act q arr \<Rightarrow> do {
               (r, q, s) \<leftarrow> rt_data_queue_pop None i 0 (q, kern st);
               let last = (case r of Return (e, x) \<Rightarrow> x | Blocked _ \<Rightarrow> None);
               (e, next) \<leftarrow> rt_data_queue_peek q;
               let st = set_tx (Tx_dma p (next \<noteq> None) q arr) (st\<lparr>kern := s\<rparr>);
               let st = (case next of None \<Rightarrow> st
                         | Some (ptr, n) \<Rightarrow> upd_drv (\<lambda>d. d\<lparr>hw := uart_dma_transmit ops ptr n RT_SERIAL_DMA_TX (hw d)\<rparr>) st);
               case tx_complete (dev st) of None \<Rightarrow> Some st | Some f \<Rightarrow> Option.bind last (\<lambda>(ptr, n). call_tx cb f ptr st)
             }
           | _ \<Rightarrow> None)
      | RT_SERIAL_EVENT_RX_DMADONE cs \<Rightarrow>
          (if bufsz (config (drv st)) = 0 then
             (case serial_rx (drv st) of
                Rx_dma p act \<Rightarrow> do {
                  rt_assert (rx_indicate (dev st) \<noteq> None);
                  st \<leftarrow> indicate_rx cb (of_nat (length cs)) st;
                  Some (set_rx (Rx_dma p False) st)
                }
              | _ \<Rightarrow> None)
           else
             (case serial_rx (drv st) of
                Rx_fifo p q \<Rightarrow> do {
                  let q = dma_receive (bufsz (config (drv st))) cs q;
                  indicate_rx cb (serial_fifo_calc_recved_len (bufsz (config (drv st))) q) (set_rx (Rx_fifo p q) st)
                }
              | _ \<Rightarrow> None)))"

section \<open>Registration\<close>

definition serial_ops :: "'h rt_uart_ops \<Rightarrow> bool \<Rightarrow> nat \<Rightarrow> ('h rt_serial, serial_local, serial_cmd, serial_out) rt_device_ops" where
  "serial_ops ops is_console i = \<lparr>op_init = Some (rt_serial_init ops), op_open = Some (rt_serial_open ops i),
     op_close = Some (rt_serial_close ops i), op_read = Some (rt_serial_read ops), op_write = Some (rt_serial_write ops i),
     op_control = Some (rt_serial_control ops is_console)\<rparr>"

definition rt_hw_serial_register :: "nat \<Rightarrow> u8 list \<Rightarrow> u32 \<Rightarrow> 'h serial_state \<Rightarrow> (rt_err_t \<times> 'h serial_state) option" where
  "rt_hw_serial_register i name flag st =
     rt_device_register (Some i) name (ucast flag) (upd_dev (\<lambda>d. d\<lparr>dev_type := 0, rx_indicate := None, tx_complete := None\<rparr>) st)"

end
