(* ===== verification/SerialData.thy ===== *)
theory SerialData
  imports Serial
begin

text \<open>
  The data that pass through the serial driver: reception by DMA keeps the newest bytes in order, what
  the interrupt handler receives is what a client reads through the device layer, writes in DMA mode
  are transmitted in order unless two writers interleave, and the line settings convert to a
  terminal's settings and back.
\<close>

section \<open>Reception by DMA\<close>

definition dma_used :: "u16 \<Rightarrow> rt_serial_rx_fifo \<Rightarrow> nat" where
  "dma_used sz q =
     (if put_index q = get_index q then if is_full q then unat sz else 0
      else if get_index q < put_index q then unat (put_index q) - unat (get_index q)
      else unat sz + unat (put_index q) - unat (get_index q))"

definition dma_content :: "u16 \<Rightarrow> rt_serial_rx_fifo \<Rightarrow> u8 list" where
  "dma_content sz q = map (\<lambda>k. rx_buffer q ! ((unat (get_index q) + k) mod unat sz)) [0..<dma_used sz q]"

text \<open>Unlike in interrupt mode, the buffer can be filled completely.  The indices are advanced in 16
  bits, so that the buffer may not be larger than \<open>2^15\<close>.\<close>

definition dma_ok :: "u16 \<Rightarrow> rt_serial_rx_fifo \<Rightarrow> bool" where
  "dma_ok sz q \<longleftrightarrow> 0 < unat sz \<and> unat sz \<le> 2 ^ 15 \<and> length (rx_buffer q) = unat sz \<and>
     unat (put_index q) < unat sz \<and> unat (get_index q) < unat sz \<and> (is_full q \<longrightarrow> get_index q = put_index q)"

lemma dma_okD:
  assumes "dma_ok sz q"
  shows "0 < unat sz" "unat sz \<le> 2 ^ 15" "length (rx_buffer q) = unat sz" "unat (put_index q) < unat sz"
    "unat (get_index q) < unat sz" "is_full q \<Longrightarrow> get_index q = put_index q"
  using assms by (auto simp: dma_ok_def)

lemma length_dma_content [simp]: "length (dma_content sz q) = dma_used sz q"
  by (simp add: dma_content_def)

lemma dma_used_le: "dma_ok sz q \<Longrightarrow> dma_used sz q \<le> unat sz"
  using dma_okD [of sz q] by (auto simp: dma_used_def word_less_nat_alt word_unat_eq_iff)

lemma dma_put: "dma_ok sz q \<Longrightarrow> unat (put_index q) = (unat (get_index q) + dma_used sz q) mod unat sz"
  using dma_okD(4,5) [of sz q] by (auto simp: dma_used_def word_less_nat_alt word_unat_eq_iff)

lemma dma_get: "dma_ok sz q \<Longrightarrow> unat (get_index q) = (unat (put_index q) + (unat sz - dma_used sz q)) mod unat sz"
  using dma_okD(4,5) [of sz q] by (auto simp: dma_used_def word_less_nat_alt word_unat_eq_iff)

lemma dma_used_ring:
  assumes "unat (put_index q) = (unat (get_index q) + n) mod unat sz" "unat (get_index q) < unat sz"
    "n \<le> unat sz" "is_full q \<longleftrightarrow> n = unat sz"
  shows "dma_used sz q = n"
proof (cases "n = 0 \<or> n = unat sz")
  case True
  then have "put_index q = get_index q" using assms(1,2) by (auto simp: word_unat_eq_iff)
  then show ?thesis using True assms(4) by (auto simp: dma_used_def)
next
  case False
  then have "put_index q \<noteq> get_index q" using assms(1-3) by (auto simp: word_unat_eq_iff mod_if split: if_splits)
  then show ?thesis using ring_distance [of "unat (get_index q)" "unat sz" n] False assms(1-3)
    by (simp add: dma_used_def word_less_nat_alt split: if_splits)
qed

lemma recved_len: "dma_ok sz q \<Longrightarrow> unat (serial_fifo_calc_recved_len sz q) = dma_used sz q"
proof -
  assume ok: "dma_ok sz q"
  note d = dma_okD [OF ok]
  have c: "unat (ucast w :: u32) = unat w" for w :: u16
  proof -
    have "unat w < 2 ^ 16" using unsigned_less [of w] by simp
    then show ?thesis by (simp add: unsigned_ucast_eq take_bit_nat_eq_self)
  qed
  show ?thesis
  proof (cases "put_index q < get_index q")
    case False
    then show ?thesis using d
      by (auto simp: serial_fifo_calc_recved_len_def dma_used_def unat_sub c word_le_nat_alt word_less_nat_alt)
  next
    case True
    then have 1: "(ucast (put_index q) :: u32) \<le> ucast (get_index q)" by (simp add: word_le_nat_alt word_less_nat_alt c)
    then have u: "unat ((ucast (get_index q) :: u32) - ucast (put_index q)) = unat (get_index q) - unat (put_index q)"
      by (simp add: unat_sub c)
    then have 2: "(ucast (get_index q) :: u32) - ucast (put_index q) \<le> ucast sz" using d(5) by (simp add: word_le_nat_alt c)
    show ?thesis using True d(5)
      by (auto simp: serial_fifo_calc_recved_len_def dma_used_def unat_sub [OF 2] u c word_less_nat_alt)
  qed
qed

text \<open>What the hardware writes, by the distance from the place where it starts.\<close>

lemma ring_inj: "(P + i) mod N = (P + j) mod N \<Longrightarrow> i < N \<Longrightarrow> j < N \<Longrightarrow> i = (j :: nat)"
proof (induction i j rule: linorder_wlog)
  case (le i j)
  then have "N dvd P + j - (P + i)" by (simp only: mod_eq_dvd_iff_nat [symmetric] add_le_cancel_left)
  then show ?case using le by (auto dest!: dvd_imp_le)
qed simp

lemma dma_write_nth:
  assumes ok: "dma_ok sz q" and l: "length cs \<le> unat sz" and j: "j < unat sz"
  shows "rx_buffer (dma_write cs q) ! ((unat (put_index q) + j) mod unat sz) =
     (if j < length cs then cs ! j else rx_buffer q ! ((unat (put_index q) + j) mod unat sz))"
    "length (rx_buffer (dma_write cs q)) = unat sz"
proof -
  note d = dma_okD [OF ok]
  let ?f = "\<lambda>k b. b[(unat (put_index q) + k) mod length b := cs ! k]"
  have "length (fold ?f [0..<n] (rx_buffer q)) = unat sz \<and>
    fold ?f [0..<n] (rx_buffer q) ! ((unat (put_index q) + j) mod unat sz) =
      (if j < n then cs ! j else rx_buffer q ! ((unat (put_index q) + j) mod unat sz))" if "n \<le> unat sz" for n
    using that
  proof (induction n)
    case (Suc n)
    have "(unat (put_index q) + n) mod unat sz = (unat (put_index q) + j) mod unat sz \<longleftrightarrow> n = j"
      using ring_inj [of "unat (put_index q)" n "unat sz" j] Suc.prems j by auto
    then show ?case using Suc d(1) by (auto simp: nth_list_update)
  qed (simp add: d(3))
  then show "rx_buffer (dma_write cs q) ! ((unat (put_index q) + j) mod unat sz) =
     (if j < length cs then cs ! j else rx_buffer q ! ((unat (put_index q) + j) mod unat sz))"
    "length (rx_buffer (dma_write cs q)) = unat sz"
    using l by (simp_all add: dma_write_def)
qed

text \<open>The indices after a reception: when the new bytes fill the buffer, reading starts after the newest.\<close>

lemma recv_put_index:
  assumes ok: "dma_ok sz q" and l: "l \<le> unat sz"
  shows "\<exists>q'. rt_dma_recv_update_put_index sz (of_nat l) q = q' \<and> rx_buffer q' = rx_buffer q \<and>
    unat (put_index q') = (unat (put_index q) + l) mod unat sz \<and> (is_full q' \<longleftrightarrow> unat sz \<le> dma_used sz q + l) \<and>
    get_index q' = (if unat sz \<le> dma_used sz q + l then put_index q' else get_index q)"
proof -
  note d = dma_okD [OF ok]
  let ?p = "unat (put_index q)" and ?g = "unat (get_index q)" and ?n = "unat sz"
  define put where "put = put_index q + (ucast (of_nat l :: u32) :: u16)"
  have "unat (ucast (of_nat l :: u32) :: u16) = l"
    using l d(2) by (simp add: unsigned_ucast_eq unat_of_nat take_bit_nat_eq_self)
  then have p: "unat put = ?p + l" using l d(2,4) by (simp add: put_def unat_word_ariths(1))
  define put' where "put' = (if put \<ge> sz then put mod sz else put)"
  have p': "unat put' = (?p + l) mod ?n" using p by (simp add: put'_def unat_mod word_le_nat_alt)
  have m: "(?p + l) mod ?n = (if ?p + l < ?n then ?p + l else ?p + l - ?n)" using d(4) l by (auto simp: mod_if)
  define full where "full \<longleftrightarrow> is_full q \<or> (if get_index q \<le> put_index q then put \<ge> sz \<and> put' \<ge> get_index q else put \<ge> get_index q)"
  have full: "full \<longleftrightarrow> ?n \<le> dma_used sz q + l"
    using d(4-6) l p p' m unfolding full_def
    by (auto simp: dma_used_def word_le_nat_alt word_less_nat_alt word_unat_eq_iff)
  have le: "sz \<le> put \<Longrightarrow> get_index q \<le> put" using d(5) by (simp add: word_le_nat_alt)
  have "rt_dma_recv_update_put_index sz (of_nat l) q =
      q\<lparr>put_index := put', is_full := full, get_index := if full then put' else get_index q\<rparr>"
    using d(6) le unfolding rt_dma_recv_update_put_index_def put_def [symmetric] full_def put'_def
    by (cases q) (auto simp: Let_def)
  then show ?thesis using p' full by simp
qed

text \<open>A reception appends its bytes; when the buffer overflows, the newest \<open>bufsz\<close> bytes remain.\<close>

lemma dma_receive_newest:
  assumes ok: "dma_ok sz q" and l: "length cs \<le> unat sz"
  shows "dma_ok sz (dma_receive sz cs q)"
    "dma_content sz (dma_receive sz cs q) = drop (dma_used sz q + length cs - unat sz) (dma_content sz q @ cs)"
proof -
  note d = dma_okD [OF ok]
  let ?p = "unat (put_index q)" and ?N = "unat sz" and ?u = "dma_used sz q" and ?l = "length cs"
  define q' where "q' = dma_receive sz cs q"
  define u' where "u' = min ?N (?u + ?l)"
  note u = dma_used_le [OF ok]
  have w: "put_index (dma_write cs q) = put_index q" "get_index (dma_write cs q) = get_index q"
    "is_full (dma_write cs q) = is_full q" "dma_used sz (dma_write cs q) = ?u"
    by (simp_all add: dma_write_def dma_used_def)
  have ok1: "dma_ok sz (dma_write cs q)" using ok dma_write_nth(2) [OF ok l d(1)] by (simp add: dma_ok_def w)
  have q': "rx_buffer q' = rx_buffer (dma_write cs q)" "unat (put_index q') = (?p + ?l) mod ?N"
    "is_full q' \<longleftrightarrow> ?N \<le> ?u + ?l" "get_index q' = (if ?N \<le> ?u + ?l then put_index q' else get_index q)"
    using recv_put_index [OF ok1 l] unfolding w q'_def dma_receive_def by auto
  have g': "unat (get_index q') = (?p + ?l + (?N - u')) mod ?N"
  proof (cases "?N \<le> ?u + ?l")
    case True
    then show ?thesis using q'(2,4) by (simp add: u'_def)
  next
    case False
    then have "?p + ?l + (?N - u') = ?p + (?N - ?u)" using u by (simp add: u'_def)
    then show ?thesis using q'(4) dma_get [OF ok] False by simp
  qed
  have gl: "unat (get_index q') < ?N" unfolding g' using d(1) by simp
  have "(unat (get_index q') + u') mod ?N = (?p + ?l + (?N - u') + u') mod ?N" unfolding g' by (simp only: mod_add_left_eq)
  also have "?p + ?l + (?N - u') + u' = ?p + ?l + ?N" by (simp add: u'_def)
  finally have p': "unat (put_index q') = (unat (get_index q') + u') mod ?N" using q'(2) by simp
  have used: "dma_used sz q' = u'"
    by (rule dma_used_ring [OF p' gl]) (use q'(3) u in \<open>auto simp: u'_def\<close>)
  show "dma_ok sz (dma_receive sz cs q)" unfolding q'_def [symmetric]
    using d gl q' dma_write_nth(2) [OF ok l d(1)] by (simp add: dma_ok_def)
  show "dma_content sz (dma_receive sz cs q) = drop (?u + ?l - ?N) (dma_content sz q @ cs)" unfolding q'_def [symmetric]
  proof (rule nth_equalityI)
    show "length (dma_content sz q') = length (drop (?u + ?l - ?N) (dma_content sz q @ cs))" by (simp add: used u'_def)
  next
    fix k assume "k < length (dma_content sz q')"
    then have k: "k < u'" by (simp add: used)
    define t where "t = ?l + (?N - u') + k"
    have t: "?l \<le> t" "t < ?l + ?N" using k by (auto simp: t_def u'_def min_def split: if_splits)
    have "(unat (get_index q') + k) mod ?N = (?p + t) mod ?N" unfolding g' t_def by (simp only: mod_add_left_eq add.assoc)
    then have c: "dma_content sz q' ! k = rx_buffer (dma_write cs q) ! ((?p + t) mod ?N)"
      using k q'(1) by (simp add: dma_content_def used)
    have a: "?u + ?l - ?N + k = (if t < ?N then t + ?u - ?N else ?u + (t - ?N))" "t < ?N \<Longrightarrow> ?N \<le> t + ?u \<and> t + ?u - ?N < ?u"
      using u k by (auto simp: t_def u'_def min_def split: if_splits)
    show "dma_content sz q' ! k = drop (?u + ?l - ?N) (dma_content sz q @ cs) ! k"
    proof (cases "t < ?N")
      case True
      have "(unat (get_index q) + (t + ?u - ?N)) mod ?N = (?p + (?N - ?u) + (t + ?u - ?N)) mod ?N"
        unfolding dma_get [OF ok] by (simp only: mod_add_left_eq)
      also have "?p + (?N - ?u) + (t + ?u - ?N) = ?p + t" using a(2) [OF True] u by simp
      finally have i: "(unat (get_index q) + (t + ?u - ?N)) mod ?N = (?p + t) mod ?N" .
      have "drop (?u + ?l - ?N) (dma_content sz q @ cs) ! k = (dma_content sz q @ cs) ! (?u + ?l - ?N + k)"
        using k by (intro nth_drop) (simp add: used u'_def)
      also have "\<dots> = dma_content sz q ! (t + ?u - ?N)" using a True by (simp add: nth_append)
      also have "\<dots> = rx_buffer q ! ((?p + t) mod ?N)" using a(2) [OF True] i by (simp add: dma_content_def)
      finally show ?thesis using c dma_write_nth(1) [OF ok l True] t(1) by simp
    next
      case False
      then have m: "(?p + t) mod ?N = (?p + (t - ?N)) mod ?N" by (metis le_add_diff_inverse2 linorder_not_less mod_add_self2 add.assoc)
      have "drop (?u + ?l - ?N) (dma_content sz q @ cs) ! k = (dma_content sz q @ cs) ! (?u + ?l - ?N + k)"
        using k by (intro nth_drop) (simp add: used u'_def)
      also have "?u + ?l - ?N + k = length (dma_content sz q) + (t - ?N)" using a(1) False by simp
      also have "(dma_content sz q @ cs) ! \<dots> = cs ! (t - ?N)" by (rule nth_append_length_plus)
      finally have e: "drop (?u + ?l - ?N) (dma_content sz q @ cs) ! k = cs ! (t - ?N)" .
      have "t - ?N < ?N" "t - ?N < ?l" using t False l by simp_all
      then show ?thesis unfolding c m e using dma_write_nth(1) [OF ok l, of "t - ?N"] by simp
    qed
  qed
qed

text \<open>Reading takes the oldest bytes.\<close>

lemma dma_rx_takes:
  assumes ok: "dma_ok sz q"
  shows "\<exists>q'. serial_dma_rx_fifo sz n q = Some (take n (dma_content sz q), q') \<and> dma_ok sz q' \<and>
    dma_content sz q' = drop n (dma_content sz q)"
proof -
  note d = dma_okD [OF ok]
  let ?g = "unat (get_index q)" and ?N = "unat sz" and ?u = "dma_used sz q"
  note u = dma_used_le [OF ok]
  define r where "r = min n ?u"
  define get where "get = get_index q + (ucast (of_nat r :: u32) :: u16)"
  define q' where "q' = q\<lparr>is_full := is_full q \<and> r = 0, get_index := if get \<ge> sz then get mod sz else get\<rparr>"
  have r: "r \<le> ?u" "r \<le> ?N" using u by (simp_all add: r_def)
  have ur: "unat (of_nat r :: u32) = r" using r(2) d(2) by (simp add: unat_of_nat take_bit_nat_eq_self)
  have "unat (ucast (of_nat r :: u32) :: u16) = r"
    using r(2) d(2) by (simp add: unsigned_ucast_eq unat_of_nat take_bit_nat_eq_self)
  then have g: "unat get = ?g + r" using r(2) d(2,5) by (simp add: get_def unat_word_ariths(1))
  then have g': "unat (get_index q') = (?g + r) mod ?N" by (simp add: q'_def unat_mod word_le_nat_alt)
  have "of_nat r \<le> serial_fifo_calc_recved_len sz q" using r(1) recved_len [OF ok] ur by (simp add: word_le_nat_alt)
  moreover have "(of_nat r :: u32) = 0 \<longleftrightarrow> r = 0" using ur by (metis unat_eq_zero of_nat_0)
  ultimately have upd: "rt_dma_recv_update_get_index sz (of_nat r) q = Some q'"
    by (cases q) (auto simp: rt_dma_recv_update_get_index_def q'_def get_def Let_def)
  have data: "(if ?g + r < ?N then take r (drop ?g (rx_buffer q))
      else drop ?g (rx_buffer q) @ take (r + ?g - ?N) (rx_buffer q)) = take n (dma_content sz q)"
  proof (rule nth_equalityI)
    show "length (if ?g + r < ?N then take r (drop ?g (rx_buffer q))
      else drop ?g (rx_buffer q) @ take (r + ?g - ?N) (rx_buffer q)) = length (take n (dma_content sz q))"
      using d(3,5) r by (simp add: r_def)
  next
    fix k assume "k < length (if ?g + r < ?N then take r (drop ?g (rx_buffer q))
      else drop ?g (rx_buffer q) @ take (r + ?g - ?N) (rx_buffer q))"
    then have k: "k < r" using d(3,5) r by (simp split: if_splits)
    then have "take n (dma_content sz q) ! k = rx_buffer q ! ((?g + k) mod ?N)" by (simp add: r_def dma_content_def)
    then show "(if ?g + r < ?N then take r (drop ?g (rx_buffer q))
      else drop ?g (rx_buffer q) @ take (r + ?g - ?N) (rx_buffer q)) ! k = take n (dma_content sz q) ! k"
      using k d(3,5) r(2) by (auto simp: nth_append mod_if add.commute)
  qed
  have "(unat (get_index q') + (?u - r)) mod ?N = (?g + r + (?u - r)) mod ?N" unfolding g' by (simp only: mod_add_left_eq)
  then have p: "unat (put_index q') = (unat (get_index q') + (?u - r)) mod ?N"
    using dma_put [OF ok] r(1) by (simp add: q'_def)
  have gl: "unat (get_index q') < ?N" using d(1) g' by simp
  have "is_full q \<longleftrightarrow> ?u = ?N" using d(4-6) by (auto simp: dma_used_def word_unat_eq_iff word_less_nat_alt)
  then have fl: "is_full q' \<longleftrightarrow> ?u - r = ?N" using u d(1) by (auto simp: q'_def)
  have used: "dma_used sz q' = ?u - r" by (rule dma_used_ring [OF p gl _ fl]) (use u in simp)
  have "dma_ok sz q'" using d gl by (auto simp: dma_ok_def q'_def get_def word_le_nat_alt)
  moreover have "dma_content sz q' = drop n (dma_content sz q)"
  proof (rule nth_equalityI)
    fix k assume "k < length (dma_content sz q')"
    then have k: "k < ?u - r" "n + k < ?u" "n = r" by (auto simp: used r_def)
    then have "dma_content sz q' ! k = rx_buffer q ! ((unat (get_index q') + k) mod ?N)" by (simp add: dma_content_def used) (simp add: q'_def)
    also have "\<dots> = rx_buffer q ! ((?g + (n + k)) mod ?N)" using g' k(3) by (simp add: mod_add_left_eq add.assoc)
    finally show "dma_content sz q' ! k = drop n (dma_content sz q) ! k" using k(2) by (simp add: dma_content_def)
  qed (auto simp: used r_def)
  ultimately show ?thesis
    unfolding serial_dma_rx_fifo_def recved_len [OF ok] r_def [symmetric] Let_def data upd by auto
qed

lemma newest_append:
  "drop (length (drop (length xs - N) xs) + length ys - N) (drop (length xs - N) xs @ ys) = drop (length xs + length ys - N) (xs @ ys)"
  by (cases "length xs \<le> N") (simp_all add: add.commute)

lemma dma_receives_newest:
  "dma_ok sz q \<Longrightarrow> \<forall>cs\<in>set css. length cs \<le> unat sz \<Longrightarrow> dma_ok sz (fold (dma_receive sz) css q) \<and>
   dma_content sz (fold (dma_receive sz) css q) =
     drop (dma_used sz q + length (concat css) - unat sz) (dma_content sz q @ concat css)"
proof (induction css arbitrary: q)
  case Nil
  then show ?case using dma_used_le [of sz q] by simp
next
  case (Cons cs css)
  let ?xs = "dma_content sz q @ cs"
  have 1: "dma_ok sz (dma_receive sz cs q)" "dma_content sz (dma_receive sz cs q) = drop (length ?xs - unat sz) ?xs"
    using dma_receive_newest [of sz q cs] Cons.prems by simp_all
  then have "dma_used sz (dma_receive sz cs q) = length (drop (length ?xs - unat sz) ?xs)" by (metis length_dma_content)
  then show ?case using Cons.IH [OF 1(1)] 1(2) Cons.prems newest_append [of ?xs "unat sz" "concat css"] by (simp add: add.assoc)
qed

text \<open>C36. Received by DMA in any portions, the bytes are read in order; a reader that is late finds the
  newest \<open>bufsz\<close> bytes.\<close>

theorem serial_dma_roundtrip:
  assumes ok: "dma_ok sz q" and css: "\<forall>cs\<in>set css. length cs \<le> unat sz"
  shows "\<exists>q'. serial_dma_rx_fifo sz (unat sz) (fold (dma_receive sz) css q) =
      Some (drop (dma_used sz q + length (concat css) - unat sz) (dma_content sz q @ concat css), q') \<and>
    dma_ok sz q' \<and> dma_content sz q' = []"
proof -
  let ?q = "fold (dma_receive sz) css q"
  note r = dma_receives_newest [OF ok css]
  have "length (dma_content sz ?q) \<le> unat sz" using dma_used_le [of sz ?q] r by simp
  then show ?thesis using dma_rx_takes [of sz ?q "unat sz"] r by auto
qed

section \<open>Reception with interrupts\<close>

text \<open>The hardware has received the bytes \<open>cs\<close>: it hands them out one by one and then has none.\<close>

fun hw_yields :: "('h \<Rightarrow> int \<times> 'h) \<Rightarrow> 'h \<Rightarrow> u8 list \<Rightarrow> 'h \<Rightarrow> bool" where
  "hw_yields getc h [] h' \<longleftrightarrow> getc h = (- 1, h')"
| "hw_yields getc h (c # cs) h' \<longleftrightarrow> fst (getc h) = uint c \<and> hw_yields getc (snd (getc h)) cs h'"

lemma serial_rx_loop_bytes:
  "hw_yields (uart_getc ops) (hw (drv st)) cs h' \<Longrightarrow>
   serial_rx_loop ops q st =
     map_option (\<lambda>q. (q, upd_drv (\<lambda>d. d\<lparr>hw := h'\<rparr>) st)) (serial_rx_bytes (bufsz (config (drv st))) cs q)"
proof (induction cs arbitrary: q st)
  case Nil
  then show ?case by (simp add: serial_rx_loop.simps on_hw_def)
next
  case (Cons c cs)
  let ?st = "snd (on_hw (uart_getc ops) st)"
  have c: "fst (uart_getc ops (hw (drv st))) = uint c" "uint c \<noteq> - 1" "hw_yields (uart_getc ops) (hw (drv ?st)) cs h'"
    using Cons.prems order.strict_trans2 [OF _ uint_ge_0, of "- 1" c] by simp_all
  have e: "upd_drv (\<lambda>d. d\<lparr>hw := h'\<rparr>) ?st = upd_drv (\<lambda>d. d\<lparr>hw := h'\<rparr>) st" by (simp add: on_hw_def split_beta upd_drv_def)
  show ?case using c by (subst serial_rx_loop.simps) (simp add: Cons.IH [OF c(3)] e map_option_bind o_def)
qed


section \<open>Transmission by DMA\<close>

text \<open>Waiting for room leaves the queue as it was.\<close>

lemma dq_loop_waits:
  assumes "dq_loop l ready body fail timeout st = Some r" "\<not> ready (fst st)"
  shows "fst (snd r) = fst st \<and> (fst r = Blocked () \<or> (\<exists>e. fst r = Return (fail e) \<and> e \<noteq> RT_EOK))"
proof -
  let ?P = "\<lambda>g f (st :: rt_data_queue \<times> kstate) (r :: (unit, 'a) outcome \<times> rt_data_queue \<times> kstate). \<not> g (fst st) \<longrightarrow>
      fst (snd r) = fst st \<and> (fst r = Blocked () \<or> (\<exists>e. fst r = Return (f e) \<and> e \<noteq> RT_EOK))"
  have "?P ready fail st r"
  proof (rule dq_loop.raw_induct [where P = "\<lambda>l g b f timeout st r. ?P g f st r", OF _ assms(1)], intro impI)
    fix loop :: "lid \<Rightarrow> (rt_data_queue \<Rightarrow> bool) \<Rightarrow> (rt_data_queue \<times> kstate \<Rightarrow> ('a \<times> rt_data_queue \<times> kstate) option) \<Rightarrow>
        (rt_err_t \<Rightarrow> 'a) \<Rightarrow> int \<Rightarrow> rt_data_queue \<times> kstate \<Rightarrow> ((unit, 'a) outcome \<times> rt_data_queue \<times> kstate) option"
      and l g b f timeout st and r :: "(unit, 'a) outcome \<times> rt_data_queue \<times> kstate"
    assume IH: "\<And>l g b f timeout st r. loop l g b f timeout st = Some r \<Longrightarrow> ?P g f st r"
      and step: "(if g (fst st) then map_option (apfst Return) (b st)
        else if timeout = 0 then Some (Return (f (- RT_ETIMEOUT)), st)
        else Option.bind (dq_wait l timeout (snd st)) (\<lambda>(t, s). Option.bind (rt_schedule s) (\<lambda>s.
          if cur_thread s = Some t then
            (if thread_error (threads s t) \<noteq> RT_EOK then Some (Return (f (thread_error (threads s t))), fst st, s)
             else loop l g b f timeout (fst st, s))
          else Some (Blocked (), fst st, s)))) = Some r"
      and g: "\<not> g (fst st)"
    show "fst (snd r) = fst st \<and> (fst r = Blocked () \<or> (\<exists>e. fst r = Return (f e) \<and> e \<noteq> RT_EOK))"
    proof (cases "timeout = 0")
      case True
      then show ?thesis using step g by (auto intro: exI [of _ "- RT_ETIMEOUT"])
    next
      case False
      then obtain t s where s: "(if cur_thread s = Some t then
            (if thread_error (threads s t) \<noteq> RT_EOK then Some (Return (f (thread_error (threads s t))), fst st, s)
             else loop l g b f timeout (fst st, s))
          else Some (Blocked (), fst st, s)) = Some r"
        using step g by (auto simp: Option.bind_eq_Some_conv)
      show ?thesis
      proof (cases "cur_thread s = Some t \<and> thread_error (threads s t) = RT_EOK")
        case True
        then show ?thesis using s g IH [of l g b f timeout "(fst st, s)" r] by simp
      next
        case False
        then show ?thesis using s by (auto split: if_splits)
      qed
    qed
  qed
  then show ?thesis using assms(2) by blast
qed

text \<open>A push that returns without error has stored its item, and in any other case it has changed nothing.\<close>

lemma push_stores:
  assumes ok: "dq_ok q" and p: "rt_data_queue_push None i p n timeout (q, s) = Some (r, q', s') \<or>
     rt_data_queue_push_resumed None i p n timeout t (q, s) = Some (r, q', s')"
  shows "dq_ok q'" "dq_content q' = (if r = Return RT_EOK then dq_content q @ [(p, n)] else dq_content q)"
proof -
  have "q' = q \<and> r \<noteq> Return RT_EOK \<or> dq_push_loop None i (p, n) timeout (q, s) = Some (r, q', s')"
    using p by (auto simp: rt_data_queue_push_def rt_data_queue_push_resumed_def Option.bind_eq_Some_conv split: if_splits)
  then have "dq_ok q' \<and> dq_content q' = (if r = Return RT_EOK then dq_content q @ [(p, n)] else dq_content q)"
  proof
    assume l: "dq_push_loop None i (p, n) timeout (q, s) = Some (r, q', s')"
    show ?thesis
    proof (cases "dq_is_full q")
      case True
      then show ?thesis using dq_loop_waits [OF l [unfolded dq_push_loop_def]] ok by auto
    next
      case False
      then have room: "dq_used q < unat (dq_size q)" using dq_okD(8,10) [OF ok] by simp
      obtain q1 where q1: "dq_store (p, n) q = Some q1" "dq_ok q1" "dq_content q1 = dq_content q @ [(p, n)]"
          "dq_size q1 = dq_size q" "dq_is_full q1 \<longleftrightarrow> dq_used q + 1 = unat (dq_size q)" "dq_lwm q1 = dq_lwm q"
        by (rule dq_store_room [OF ok room]) (rule that)
      have "q' = q1 \<and> r = Return RT_EOK"
        using l False q1(1) unfolding dq_push_loop_def
        by (subst (asm) dq_loop.simps) (auto simp: dq_push_room_def dq_event_def Option.bind_eq_Some_conv split: if_splits)
      then show ?thesis using q1 by simp
    qed
  qed (use ok in auto)
  then show "dq_ok q'" "dq_content q' = (if r = Return RT_EOK then dq_content q @ [(p, n)] else dq_content q)" by blast+
qed

text \<open>A pop that does not wait.\<close>

lemma pop_fetches:
  assumes ok: "dq_ok q" and p: "rt_data_queue_pop None i 0 (q, s) = Some (r, q', s')"
  shows "dq_ok q'" "dq_content q' = tl (dq_content q)"
    "r = Return (case dq_content q of [] \<Rightarrow> (- RT_ETIMEOUT, None) | x # _ \<Rightarrow> (RT_EOK, Some x))"
proof -
  have l: "dq_pop_loop None i 0 (q, s) = Some (r, q', s')" using p by (auto simp: rt_data_queue_pop_def Option.bind_eq_Some_conv)
  have "dq_ok q' \<and> dq_content q' = tl (dq_content q) \<and>
    r = Return (case dq_content q of [] \<Rightarrow> (- RT_ETIMEOUT, None) | x # _ \<Rightarrow> (RT_EOK, Some x))"
  proof (cases "dq_content q")
    case Nil
    then have "dq_is_empty q" using dq_okD(9) [OF ok] length_dq_content [of q] by simp
    then show ?thesis using l ok Nil by (simp add: dq_pop_loop_def dq_loop.simps)
  next
    case (Cons x xs)
    obtain q1 where q1: "dq_ok q1" "dq_content q1 = xs" "dq_size q1 = dq_size q" "dq_lwm q1 = dq_lwm q"
      "dq_pop_loop None i 0 (q, s) =
       (if lists s (DqPush i) = [] \<or> dq_lwm q < of_nat (length xs) then Some (Return (RT_EOK, Some x), q1, s)
        else do { s \<leftarrow> rt_ipc_list_resume (DqPush i) s; s \<leftarrow> rt_schedule s; Some (Return (RT_EOK, Some x), q1, s) })"
      by (rule pop_item [OF ok Cons]) (rule that)
    then have "q' = q1 \<and> r = Return (RT_EOK, Some x)" 
      using l [unfolded q1(5)] by (auto simp: Option.bind_eq_Some_conv split: if_splits)
    then show ?thesis using q1 Cons by simp
  qed
  then show "dq_ok q'" "dq_content q' = tl (dq_content q)"
    "r = Return (case dq_content q of [] \<Rightarrow> (- RT_ETIMEOUT, None) | x # _ \<Rightarrow> (RT_EOK, Some x))" by blast+
qed

lemma peek_first: "dq_ok q \<Longrightarrow> rt_data_queue_peek q =
    Some (case dq_content q of [] \<Rightarrow> (- RT_EEMPTY, None) | x # _ \<Rightarrow> (RT_EOK, Some x))"
proof -
  assume ok: "dq_ok q"
  note d = dq_okD [OF ok]
  show ?thesis
  proof (cases "dq_content q")
    case Nil
    then show ?thesis using d(1,9) length_dq_content [of q] by (simp add: rt_data_queue_peek_def)
  next
    case (Cons x xs)
    then have n: "0 < dq_used q" using length_dq_content [of q] by simp
    then have "x = dq_items q ! unat (dq_get q)" using arg_cong [OF Cons, of hd] d(5) by (simp add: dq_content_def hd_map)
    then show ?thesis using d(1,4,5,9) n Cons by (simp add: rt_data_queue_peek_def)
  qed
qed

text \<open>The events of the sending half, with the writes (address and length) that were accepted: a write up to
  its end or to where it blocks, the end of a write that was blocked, the end of a transmission, and
  anything that does not touch the driver.\<close>

inductive dma_tx_step :: "'h rt_uart_ops \<Rightarrow> 'h serial_callbacks \<Rightarrow> nat \<Rightarrow>
    (u32 \<times> u32) list \<times> 'h serial_state \<Rightarrow> (u32 \<times> u32) list \<times> 'h serial_state \<Rightarrow> bool" for ops cb i where
  pushed: "serial_dma_tx_push i p n st = Some (Return RT_EOK, st1) \<or>
      serial_dma_tx_push_resumed i t p n st = Some (Return RT_EOK, st1) \<Longrightarrow>
    serial_dma_tx_rest ops p n (Return RT_EOK, st1) = Some (x, st') \<Longrightarrow> dma_tx_step ops cb i (ws, st) (ws @ [(p, n)], st')"
| refused: "serial_dma_tx_push i p n st = Some (r, st1) \<or> serial_dma_tx_push_resumed i t p n st = Some (r, st1) \<Longrightarrow>
    r \<noteq> Return RT_EOK \<Longrightarrow> serial_dma_tx_rest ops p n (r, st1) = Some (x, st') \<Longrightarrow> dma_tx_step ops cb i (ws, st) (ws, st')"
| sent: "rt_hw_serial_isr ops cb i RT_SERIAL_EVENT_TX_DMADONE st = Some st' \<Longrightarrow> dma_tx_step ops cb i (ws, st) (ws, st')"
| other: "drv st' = drv st \<Longrightarrow> dma_tx_step ops cb i (ws, st) (ws, st')"

text \<open>The hardware runs exactly while the queue has items, on the first of them; \<open>sent_by\<close> is what it was
  given so far.\<close>

definition tx_running :: "('h \<Rightarrow> (u32 \<times> u32) list) \<Rightarrow> (u32 \<times> u32) list \<Rightarrow> (u32 \<times> u32) list \<times> 'h serial_state \<Rightarrow> bool" where
  "tx_running sent_by before = (\<lambda>(ws, st). \<exists>a act q arr. serial_tx (drv st) = Tx_dma a act q arr \<and> dq_ok q \<and>
     (act \<longleftrightarrow> dq_content q \<noteq> []) \<and> sent_by (hw (drv st)) @ tl (dq_content q) = before @ ws)"

lemma push_running:
  assumes "serial_dma_tx_push i p n st = Some (r, st1) \<or> serial_dma_tx_push_resumed i t p n st = Some (r, st1)"
    and "serial_tx (drv st) = Tx_dma a act q arr" "dq_ok q"
  shows "\<exists>q'. drv st1 = (drv st)\<lparr>serial_tx := Tx_dma a act q' arr\<rparr> \<and> dq_ok q' \<and>
    dq_content q' = (if r = Return RT_EOK then dq_content q @ [(p, n)] else dq_content q)"
proof -
  obtain q' s' where q': "rt_data_queue_push None i p n (- 1) (q, kern st) = Some (r, q', s') \<or>
      rt_data_queue_push_resumed None i p n (- 1) t (q, kern st) = Some (r, q', s')"
      "st1 = upd_drv (\<lambda>d. d\<lparr>serial_tx := Tx_dma a act q' arr\<rparr>) (st\<lparr>kern := s'\<rparr>)"
    using assms by (auto simp: serial_dma_tx_push_def serial_dma_tx_push_resumed_def dma_tx_pushed_def)
  then show ?thesis using push_stores [OF assms(3) q'(1)] by (intro exI [of _ q']) simp
qed

lemma tx_step_running:
  assumes step: "dma_tx_step ops cb i x y" and run: "tx_running sent_by before x"
    and hw: "\<And>p n h. sent_by (uart_dma_transmit ops p n RT_SERIAL_DMA_TX h) = sent_by h @ [(p, n)]"
    and cb: "\<And>f n s s'. call_tx cb f n s = Some s' \<Longrightarrow> drv s' = drv s"
  shows "tx_running sent_by before y"
proof -
  obtain ws st where x: "x = (ws, st)" by fastforce
  obtain a act q arr where q: "serial_tx (drv st) = Tx_dma a act q arr" "dq_ok q" "act \<longleftrightarrow> dq_content q \<noteq> []"
      "sent_by (hw (drv st)) @ tl (dq_content q) = before @ ws"
    using run by (auto simp: tx_running_def x)
  from step [unfolded x] show ?thesis
  proof cases
    case (pushed p n st1 t z st')
    obtain q' where q': "drv st1 = (drv st)\<lparr>serial_tx := Tx_dma a act q' arr\<rparr>" "dq_ok q'"
        "dq_content q' = dq_content q @ [(p, n)]"
      using push_running [OF pushed(2) q(1,2)] by auto
    have "serial_dma_tx_start ops p n st1 = Some st'" using pushed(3) by (auto simp: serial_dma_tx_rest_def Option.bind_eq_Some_conv)
    then have "drv st' = (if act then drv st1 else (drv st1)\<lparr>serial_tx := Tx_dma a True q' arr,
        hw := uart_dma_transmit ops p n RT_SERIAL_DMA_TX (hw (drv st1))\<rparr>)"
      using q'(1) by (auto simp: serial_dma_tx_start_def)
    then show ?thesis using pushed(1) q q' hw by (cases "dq_content q") (auto simp: tx_running_def)
  next
    case (refused p n r st1 t z st')
    obtain q' where q': "drv st1 = (drv st)\<lparr>serial_tx := Tx_dma a act q' arr\<rparr>" "dq_ok q'" "dq_content q' = dq_content q"
      using push_running [OF refused(2) q(1,2)] refused(3) by auto
    have "drv st' = drv st1" using refused(3,4) by (cases r) (auto simp: serial_dma_tx_rest_def set_errno_def)
    then show ?thesis using refused(1) q q' by (auto simp: tx_running_def)
  next
    case (sent st')
    obtain r q' s' e nx where p: "rt_data_queue_pop None i 0 (q, kern st) = Some (r, q', s')"
        "rt_data_queue_peek q' = Some (e, nx)"
      and st': "drv st' = (let d = (drv st)\<lparr>serial_tx := Tx_dma a (nx \<noteq> None) q' arr\<rparr> in
         case nx of None \<Rightarrow> d | Some (ptr, n) \<Rightarrow> d\<lparr>hw := uart_dma_transmit ops ptr n RT_SERIAL_DMA_TX (hw d)\<rparr>)"
      using sent(2) q(1)
      by (auto simp: rt_hw_serial_isr_def Option.bind_eq_Some_conv Let_def dest!: cb split: option.splits)
    note f = pop_fetches [OF q(2) p(1)]
    have o: "sent_by (hw (drv st)) @ dq_content q' = before @ ws" using q(4) f(2) by simp
    have nx: "nx = (case dq_content q' of [] \<Rightarrow> None | x # _ \<Rightarrow> Some x)"
      using p(2) peek_first [OF f(1)] by (cases "dq_content q'") auto
    show ?thesis
    proof (cases "dq_content q'")
      case Nil
      then show ?thesis using sent(1) st' nx o f(1) by (simp add: tx_running_def Let_def)
    next
      case (Cons x xs)
      then show ?thesis using sent(1) st' nx o f(1) hw by (cases x) (simp add: tx_running_def Let_def)
    qed
  next
    case (other st')
    then show ?thesis using q by (auto simp: tx_running_def)
  qed
qed


lemma push_alone:
  assumes "serial_tx (drv st) = Tx_dma a act q arr" "dq_ok q" "dq_used q < unat (dq_size q)" "lists (kern st) (DqPop i) = []"
  obtains q' where "dq_ok q'" "dq_content q' = dq_content q @ [(p, n)]" "dq_size q' = dq_size q"
    "serial_dma_tx_push i p n st = Some (Return RT_EOK, set_tx (Tx_dma a act q' arr) st)"
proof -
  obtain q' where q': "dq_ok q'" "dq_content q' = dq_content q @ [(p, n)]" "dq_size q' = dq_size q" "dq_lwm q' = dq_lwm q"
    "rt_data_queue_push None i p n (- 1) (q, kern st) =
       (if lists (kern st) (DqPop i) = [] then Some (Return RT_EOK, q', kern st)
        else do { s \<leftarrow> rt_ipc_list_resume (DqPop i) (kern st); s \<leftarrow> rt_schedule s; Some (Return RT_EOK, q', s) })"
    by (rule push_room [OF assms(2,3)]) (rule that)
  then have "serial_dma_tx_push i p n st = Some (Return RT_EOK, set_tx (Tx_dma a act q' arr) st)"
    using assms(1,4) by (simp add: serial_dma_tx_push_def dma_tx_pushed_def set_tx_def)
  then show thesis using that q' by blast
qed

text \<open>C38. Two writers can spoil each other's data: when the second writes between the moment the first
  has queued its data and the moment it starts the hardware, the hardware transmits the second
  write, and after the interrupt that takes the first write off the queue it transmits the second one
  again; the first write is never transmitted.\<close>

theorem dma_writers_race:
  assumes s: "serial_tx (drv st) = Tx_dma a False q arr" "dq_ok q" "dq_content q = []" "2 \<le> unat (dq_size q)"
    and k: "lists (kern st) (DqPush i) = []" "lists (kern st) (DqPop i) = []" "tx_complete (dev st) = None"
  shows "\<exists>st1 st2 st3 q'. serial_dma_tx_push i b n st = Some (Return RT_EOK, st1) \<and>
    serial_dma_tx ops i c m st1 = Some (Return (unat m), st2) \<and>
    serial_dma_tx_rest ops b n (Return RT_EOK, st2) = Some (Return (unat n), st2) \<and>
    rt_hw_serial_isr ops cb i RT_SERIAL_EVENT_TX_DMADONE st2 = Some st3 \<and>
    serial_tx (drv st3) = Tx_dma a True q' arr \<and> dq_content q' = [(c, m)] \<and>
    hw (drv st3) = uart_dma_transmit ops c m RT_SERIAL_DMA_TX (uart_dma_transmit ops c m RT_SERIAL_DMA_TX (hw (drv st)))"
proof -
  have u: "dq_used q < unat (dq_size q)" using s(3,4) length_dq_content [of q] by simp
  obtain q1 where q1: "dq_ok q1" "dq_content q1 = dq_content q @ [(b, n)]" "dq_size q1 = dq_size q"
    "serial_dma_tx_push i b n st = Some (Return RT_EOK, set_tx (Tx_dma a False q1 arr) st)"
    by (rule push_alone [OF s(1,2) u k(2)]) (rule that)
  let ?st1 = "set_tx (Tx_dma a False q1 arr) st"
  have u1: "dq_used q1 < unat (dq_size q1)" using s(3,4) q1(2,3) length_dq_content [of q1] by simp
  have t1: "serial_tx (drv ?st1) = Tx_dma a False q1 arr" and k1: "lists (kern ?st1) (DqPop i) = []" using k(2) by simp_all
  obtain q2 where q2: "dq_ok q2" "dq_content q2 = dq_content q1 @ [(c, m)]" "dq_size q2 = dq_size q1"
    "serial_dma_tx_push i c m ?st1 = Some (Return RT_EOK, set_tx (Tx_dma a False q2 arr) ?st1)"
    by (rule push_alone [OF t1 q1(1) u1 k1]) (rule that)
  define h where "h = uart_dma_transmit ops c m RT_SERIAL_DMA_TX (hw (drv st))"
  define st2 where "st2 = upd_drv (\<lambda>d. d\<lparr>serial_tx := Tx_dma a True q2 arr, hw := h\<rparr>) st"
  have "upd_drv (\<lambda>d. d\<lparr>serial_tx := Tx_dma a True q2 arr, hw := uart_dma_transmit ops c m RT_SERIAL_DMA_TX (hw d)\<rparr>)
      (set_tx (Tx_dma a False q2 arr) ?st1) = st2"
    by (simp add: st2_def upd_drv_def set_tx_def h_def)
  then have 2: "serial_dma_tx ops i c m ?st1 = Some (Return (unat m), st2)"
    by (simp add: serial_dma_tx_def q2(4) serial_dma_tx_rest_def serial_dma_tx_start_def)
  have 3: "serial_dma_tx_rest ops b n (Return RT_EOK, st2) = Some (Return (unat n), st2)"
    by (simp add: serial_dma_tx_rest_def serial_dma_tx_start_def st2_def)
  have c2: "dq_content q2 = (b, n) # [(c, m)]" using s(3) q1(2) q2(2) by simp
  obtain q3 where q3: "dq_ok q3" "dq_content q3 = [(c, m)]" "dq_size q3 = dq_size q2" "dq_lwm q3 = dq_lwm q2"
      "dq_pop_loop None i 0 (q2, kern st) =
       (if lists (kern st) (DqPush i) = [] \<or> dq_lwm q2 < of_nat (length [(c, m)]) then Some (Return (RT_EOK, Some (b, n)), q3, kern st)
        else do { s \<leftarrow> rt_ipc_list_resume (DqPush i) (kern st); s \<leftarrow> rt_schedule s; Some (Return (RT_EOK, Some (b, n)), q3, s) })"
    by (rule pop_item [OF q2(1) c2]) (rule that)
  then have p: "rt_data_queue_pop None i 0 (q2, kern st) = Some (Return (RT_EOK, Some (b, n)), q3, kern st)"
    using k(1) dq_okD(1) [OF q2(1)] by (simp add: rt_data_queue_pop_def)
  have "\<exists>st3. rt_hw_serial_isr ops cb i RT_SERIAL_EVENT_TX_DMADONE st2 = Some st3 \<and>
      serial_tx (drv st3) = Tx_dma a True q3 arr \<and> hw (drv st3) = uart_dma_transmit ops c m RT_SERIAL_DMA_TX h"
    using p peek_first [OF q3(1)] q3(2) k(3) by (simp add: rt_hw_serial_isr_def st2_def Let_def)
  then show ?thesis using q1(4) 2 3 q3(2) unfolding h_def by blast
qed

section \<open>Transmission with interrupts\<close>

text \<open>In stream mode a line feed that the hardware refuses is preceded by another carriage return when
  it is tried again.\<close>

theorem stream_repeats_cr:
  assumes s: "serial_tx (drv st) = Tx_fifo a True" "open_flag (dev st) AND RT_DEVICE_FLAG_STREAM \<noteq> 0"
    and h: "uart_putc ops 13 (hw (drv st)) = (r1, h1)" "r1 \<noteq> - 1" "uart_putc ops 10 h1 = (- 1, h2)"
      "uart_putc ops 13 h2 = (r3, h3)" "r3 \<noteq> - 1" "uart_putc ops 10 h3 = (r4, h4)" "r4 \<noteq> - 1"
  shows "\<exists>st'. serial_int_tx ops i 0 [10] st = Some (Return 1, st') \<and> hw (drv st') = h4"
proof -
  have w: "tx_wait i st1 = Some (Return RT_EOK, set_tx (Tx_fifo a False) st1)" if "serial_tx (drv st1) = Tx_fifo a True" for st1 :: "'a serial_state"
    using that by (simp add: tx_wait_def rt_completion_wait_def set_tx_def)
  define st1 where "st1 = upd_drv (\<lambda>d. d\<lparr>hw := h2\<rparr>) st"
  have 1: "int_tx_put ops 10 st = (False, st1)"
    using s(2) h(1-3) by (simp add: int_tx_put_def flag_set_def on_hw_def upd_drv_def st1_def)
  define st2 where "st2 = set_tx (Tx_fifo a False) st1"
  have 2: "int_tx_put ops 10 st2 = (True, upd_drv (\<lambda>d. d\<lparr>hw := h4\<rparr>) st2)"
    using s(2) h(4-7) by (simp add: int_tx_put_def flag_set_def on_hw_def upd_drv_def st1_def st2_def set_tx_def)
  have t: "tx_wait i st1 = Some (Return RT_EOK, st2)" unfolding st2_def by (rule w) (simp add: st1_def s(1))
  have "serial_int_tx ops i 0 [10] st = serial_int_tx ops i 0 [10] st2"
    by (subst serial_int_tx.simps) (simp add: s(1) 1 t)
  also have "\<dots> = Some (Return 1, upd_drv (\<lambda>d. d\<lparr>hw := h4\<rparr>) st2)"
    by (subst serial_int_tx.simps, simp add: 2, simp add: st2_def, subst serial_int_tx.simps) (simp add: st2_def)
  finally show ?thesis by simp
qed

section \<open>Line settings\<close>

lemma speed_code:
  assumes "b \<in> snd ` set speed_table"
  shows "get_baudrate (get_speed b) = b" "get_speed b AND CBAUD = get_speed b" "get_speed b AND NOT CBAUD = 0"
    "get_speed b AND CSIZE = 0" "get_speed b AND CSTOPB = 0" "get_speed b AND PARENB = 0" "get_speed b AND PARODD = 0"
  using assms by (auto simp: speed_table_def get_speed_def get_baudrate_def)

text \<open>The settings of a terminal (\<open>TCGETA\<close>) stand for the settings of the line: setting them again
  (\<open>TCSETA\<close>) gives the same speed, character size, stop bits and parity, for every speed of the table.\<close>

theorem termios_roundtrip:
  assumes "baud_rate c \<in> snd ` set speed_table" "data_bits c \<in> {5, 6, 7, 8}" "stop_bits c \<in> {0, 1}" "parity c \<in> {0, 1, 2}"
  shows "termios_config (config_termios console c) c' =
    c'\<lparr>baud_rate := baud_rate c, data_bits := data_bits c, stop_bits := stop_bits c, parity := parity c\<rparr>"
proof -
  note s = speed_code [OF assms(1)]
  define f where "f = c_cflag (config_termios console c)"
  define g :: u32 where "g = (if data_bits c = 5 then CS5 else if data_bits c = 6 then CS6 else if data_bits c = 7 then CS7 else CS8) OR
    (if stop_bits c = 1 then CSTOPB else 0) OR (if parity c = 2 then PARENB else if parity c = 1 then PARODD OR PARENB else 0)"
  have g: "g AND CBAUD = 0" "g AND NOT CBAUD = g" "g AND CSTOPB \<noteq> 0 \<longleftrightarrow> stop_bits c = 1" "g AND PARENB \<noteq> 0 \<longleftrightarrow> parity c \<noteq> 0"
    "g AND PARODD \<noteq> 0 \<longleftrightarrow> parity c = 1"
    "g AND CSIZE = (if data_bits c = 5 then CS5 else if data_bits c = 6 then CS6 else if data_bits c = 7 then CS7 else CS8)"
    using assms(2-4) by (auto simp: g_def)
  have "f = g OR get_speed (baud_rate c)"
    using assms(2-4) s(3) g(2) unfolding f_def config_termios_def
    by (auto simp: Let_def cfsetospeed_def g_def)
  then have f: "f AND CBAUD = get_speed (baud_rate c)" "f AND CSIZE = g AND CSIZE" "f AND CSTOPB = g AND CSTOPB"
    "f AND PARENB = g AND PARENB" "f AND PARODD = g AND PARODD"
    using s g(1) by (simp_all add: bit.conj_disj_distrib2)
  show ?thesis
    unfolding termios_config_def cfgetospeed_def f_def [symmetric] f s(1) Let_def using assms(2-4) g(3-6)
    by (cases c') auto
qed

text \<open>Setting a terminal's attributes configures the hardware but is not remembered: \<open>TCGETA\<close> goes on
  reporting the old settings, and the next initialisation restores them.\<close>

theorem tcseta_not_kept:
  assumes "rt_serial_control ops console (TCSETA (Some tio)) st = Some (r, st1)"
  shows "hw (drv st1) = snd (uart_configure ops (termios_config tio (config (drv st))) (hw (drv st)))"
    "rt_serial_control ops console (TCGETA (Some tio')) st1 =
       Some ((RT_EOK, Some (Out_termios (config_termios console (config (drv st))))), st1)"
    "\<exists>e st2. rt_serial_init ops st1 = Some (e, st2) \<and> hw (drv st2) = snd (uart_configure ops (config (drv st)) (hw (drv st1)))"
proof -
  have st1: "st1 = snd (on_hw (uart_configure ops (termios_config tio (config (drv st)))) st)"
    using assms by (simp add: rt_serial_control_def)
  show "hw (drv st1) = snd (uart_configure ops (termios_config tio (config (drv st))) (hw (drv st)))"
    "rt_serial_control ops console (TCGETA (Some tio')) st1 =
       Some ((RT_EOK, Some (Out_termios (config_termios console (config (drv st))))), st1)"
    by (simp_all add: st1 rt_serial_control_def)
  show "\<exists>e st2. rt_serial_init ops st1 = Some (e, st2) \<and> hw (drv st2) = snd (uart_configure ops (config (drv st)) (hw (drv st1)))"
    by (simp add: rt_serial_init_def Let_def on_hw_def split_beta) (simp add: st1)
qed

end
