(* ===== verification/SerialLaws.thy ===== *)
theory SerialLaws
  imports Serial
begin

text \<open>
  What holds of the serial driver: it keeps the promises of the theory Device, with all memory given
  back when the last client closes the line; the received bytes reach the reader in order, in interrupt
  and in DMA mode; writes in DMA mode are transmitted in order unless two writers interleave.
\<close>

section \<open>Opening and closing\<close>

text \<open>The mode a set of flags asks for; interrupts win over DMA.\<close>

definition rx_mode :: "u16 \<Rightarrow> u16" where
  "rx_mode m = (if m AND RT_DEVICE_FLAG_INT_RX \<noteq> 0 then RT_DEVICE_FLAG_INT_RX
     else if m AND RT_DEVICE_FLAG_DMA_RX \<noteq> 0 then RT_DEVICE_FLAG_DMA_RX else 0)"

definition tx_mode :: "u16 \<Rightarrow> u16" where
  "tx_mode m = (if m AND RT_DEVICE_FLAG_INT_TX \<noteq> 0 then RT_DEVICE_FLAG_INT_TX
     else if m AND RT_DEVICE_FLAG_DMA_TX \<noteq> 0 then RT_DEVICE_FLAG_DMA_TX else 0)"

definition serial_flags :: "u16 \<Rightarrow> u16 set" where
  "serial_flags m = {f. f AND 0xf00 = m}"

fun rx_blocks :: "serial_rx \<Rightarrow> u32 list" where
  "rx_blocks Rx_null = []"
| "rx_blocks (Rx_fifo p q) = [p]"
| "rx_blocks (Rx_dma p a) = [p]"

fun tx_blocks :: "serial_tx \<Rightarrow> u32 list" where
  "tx_blocks Tx_null = []"
| "tx_blocks (Tx_fifo p f) = [p]"
| "tx_blocks (Tx_dma p a q arr) = (if arr = 0 then [p] else [arr, p])"

fun tx_kind :: "serial_tx \<Rightarrow> u16" where
  "tx_kind Tx_null = 0"
| "tx_kind (Tx_fifo p f) = RT_DEVICE_FLAG_INT_TX"
| "tx_kind (Tx_dma p a q arr) = RT_DEVICE_FLAG_DMA_TX"

definition serial_closed :: "u32 set \<Rightarrow> 'h rt_serial \<Rightarrow> bool" where
  "serial_closed R d \<longleftrightarrow> serial_rx d = Rx_null \<and> serial_tx d = Tx_null \<and> owns R (sheap d) []"

definition serial_opened :: "u32 set \<Rightarrow> u16 \<Rightarrow> u16 \<Rightarrow> 'h rt_serial \<Rightarrow> bool" where
  "serial_opened R m f d \<longleftrightarrow> f AND 0xf00 = rx_mode m OR tx_mode m \<and> (serial_rx d = Rx_null \<longleftrightarrow> rx_mode m = 0) \<and>
     tx_kind (serial_tx d) = tx_mode m \<and> owns R (sheap d) (rx_blocks (serial_rx d) @ tx_blocks (serial_tx d))"

lemma serial_malloc_owns:
  assumes "serial_malloc n st = Some (p, st')" "owns R (sheap (drv st)) bs"
  shows "owns R (sheap (drv st')) (p # bs)" "dev st' = dev st" "kern st' = kern st"
    "config (drv st') = config (drv st)" "serial_rx (drv st') = serial_rx (drv st)" "serial_tx (drv st') = serial_tx (drv st)"
  using assms owns_get by (auto simp: serial_malloc_def Option.bind_eq_Some_conv rt_assert_def split: if_splits)

lemma serial_free_owns:
  assumes "serial_free p st = Some st'" "owns R (sheap (drv st)) (p # bs)"
  shows "owns R (sheap (drv st')) bs" "dev st' = dev st" "kern st' = kern st"
    "config (drv st') = config (drv st)" "serial_rx (drv st') = serial_rx (drv st)" "serial_tx (drv st') = serial_tx (drv st)"
  using assms owns_put by (auto simp: serial_free_def Option.bind_eq_Some_conv)

text \<open>The receiving half: what is opened is the mode asked for, unless it is open already.\<close>

lemma open_rx:
  assumes o: "serial_open_rx ops f st = Some st'" and f: "f AND 0xf00 = m"
    and s: "serial_rx (drv st) = Rx_null \<or> rx_mode m \<noteq> 0" "owns R (sheap (drv st)) (rx_blocks (serial_rx (drv st)))"
  shows "dev st' = (dev st)\<lparr>open_flag := open_flag (dev st) OR rx_mode m\<rparr>" "serial_tx (drv st') = serial_tx (drv st)"
    "serial_rx (drv st') = Rx_null \<longleftrightarrow> rx_mode m = 0" "owns R (sheap (drv st')) (rx_blocks (serial_rx (drv st')))"
proof -
  have b: "f AND RT_DEVICE_FLAG_INT_RX = m AND RT_DEVICE_FLAG_INT_RX" "f AND RT_DEVICE_FLAG_DMA_RX = m AND RT_DEVICE_FLAG_DMA_RX"
    unfolding f [symmetric] by (simp_all add: and.assoc)
  have "dev st' = (dev st)\<lparr>open_flag := open_flag (dev st) OR rx_mode m\<rparr> \<and> serial_tx (drv st') = serial_tx (drv st) \<and>
    (serial_rx (drv st') = Rx_null \<longleftrightarrow> rx_mode m = 0) \<and> owns R (sheap (drv st')) (rx_blocks (serial_rx (drv st')))"
  proof (cases "serial_rx (drv st) = Rx_null")
    case False
    then show ?thesis using o s unfolding serial_open_rx_def b by (auto simp: rx_mode_def split: if_splits)
  next
    case True
    then show ?thesis using o s(2) unfolding serial_open_rx_def b
      by (auto simp: rx_mode_def Option.bind_eq_Some_conv Let_def split: if_splits dest: serial_malloc_owns)
  qed
  then show "dev st' = (dev st)\<lparr>open_flag := open_flag (dev st) OR rx_mode m\<rparr>" "serial_tx (drv st') = serial_tx (drv st)"
    "serial_rx (drv st') = Rx_null \<longleftrightarrow> rx_mode m = 0" "owns R (sheap (drv st')) (rx_blocks (serial_rx (drv st')))"
    by blast+
qed

lemma open_tx:
  assumes o: "serial_open_tx ops i f st = Some st'" and f: "f AND 0xf00 = m"
    and s: "serial_tx (drv st) = Tx_null \<or> tx_kind (serial_tx (drv st)) = tx_mode m"
      "owns R (sheap (drv st)) (tx_blocks (serial_tx (drv st)))"
  shows "dev st' = (dev st)\<lparr>open_flag := open_flag (dev st) OR tx_mode m\<rparr>" "serial_rx (drv st') = serial_rx (drv st)"
    "tx_kind (serial_tx (drv st')) = tx_mode m" "owns R (sheap (drv st')) (tx_blocks (serial_tx (drv st')))"
proof -
  have b: "f AND RT_DEVICE_FLAG_INT_TX = m AND RT_DEVICE_FLAG_INT_TX" "f AND RT_DEVICE_FLAG_DMA_TX = m AND RT_DEVICE_FLAG_DMA_TX"
    unfolding f [symmetric] by (simp_all add: and.assoc)
  note o = o [unfolded serial_open_tx_def b]
  have "dev st' = (dev st)\<lparr>open_flag := open_flag (dev st) OR tx_mode m\<rparr> \<and> serial_rx (drv st') = serial_rx (drv st) \<and>
    tx_kind (serial_tx (drv st')) = tx_mode m \<and> owns R (sheap (drv st')) (tx_blocks (serial_tx (drv st')))"
  proof (cases "serial_tx (drv st) = Tx_null")
    case False
    then have "tx_mode m \<noteq> 0" using s(1) by (cases "serial_tx (drv st)") auto
    then show ?thesis using o s False by (auto simp: tx_mode_def split: if_splits)
  next
    case True
    note o = o [simplified True]
    consider (int) "m AND RT_DEVICE_FLAG_INT_TX \<noteq> 0" | (dma) "m AND RT_DEVICE_FLAG_INT_TX = 0" "m AND RT_DEVICE_FLAG_DMA_TX \<noteq> 0"
      | (poll) "m AND RT_DEVICE_FLAG_INT_TX = 0" "m AND RT_DEVICE_FLAG_DMA_TX = 0" by blast
    then show ?thesis
    proof cases
      case int
      then show ?thesis using o s(2) True
        by (auto simp: tx_mode_def Option.bind_eq_Some_conv Let_def dest: serial_malloc_owns)
    next
      case dma
      then obtain p st1 arr h x q k where
        1: "serial_malloc 40 st = Some (p, st1)" "heap_get 64 (sheap (drv st1)) = Some (arr, h)" and
        st': "st' = serial_control ops (Uart_config RT_DEVICE_FLAG_DMA_TX) (or_flag RT_DEVICE_FLAG_DMA_TX
            (set_tx (Tx_dma p False q (case arr of None \<Rightarrow> 0 | Some a \<Rightarrow> a)) (upd_drv (\<lambda>d. d\<lparr>sheap := h\<rparr>) (st1\<lparr>kern := k\<rparr>))))"
        using o by (auto simp: Option.bind_eq_Some_conv Let_def)
      note m = serial_malloc_owns [OF 1(1) s(2)]
      have ready: "heap_ready (sheap (drv st1))" using m(1) by (simp add: owns_def)
      have h: "owns R h (tx_blocks (Tx_dma p False q (case arr of None \<Rightarrow> 0 | Some a \<Rightarrow> a)))"
      proof (cases arr)
        case None
        then have "h = sheap (drv st1)" using heap_alloc.get_none [OF ready] 1(2) by blast
        then show ?thesis using m(1) True None by simp
      next
        case (Some a)
        then have g: "heap_get 64 (sheap (drv st1)) = Some (Some a, h)" using 1(2) by simp
        show ?thesis using owns_get [OF g m(1)] True Some by simp
      qed
      have "tx_mode m = RT_DEVICE_FLAG_DMA_TX" using dma by (simp add: tx_mode_def)
      then show ?thesis unfolding st' using m h by simp
    next
      case poll
      then show ?thesis using o s(2) True by (auto simp: tx_mode_def)
    qed
  qed
  then show "dev st' = (dev st)\<lparr>open_flag := open_flag (dev st) OR tx_mode m\<rparr>" "serial_rx (drv st') = serial_rx (drv st)"
    "tx_kind (serial_tx (drv st')) = tx_mode m" "owns R (sheap (drv st')) (tx_blocks (serial_tx (drv st')))"
    by blast+
qed

lemma close_rx:
  assumes c: "serial_close_rx ops st = Some st'" and f: "open_flag (dev st) AND 0x300 = rx_mode m"
    and s: "serial_rx (drv st) = Rx_null \<longleftrightarrow> rx_mode m = 0" "owns R (sheap (drv st)) (rx_blocks (serial_rx (drv st)))"
  shows "serial_rx (drv st') = Rx_null" "serial_tx (drv st') = serial_tx (drv st)" "owns R (sheap (drv st')) []"
    "ref_count (dev st') = ref_count (dev st)" "open_flag (dev st') AND 0xc00 = open_flag (dev st) AND 0xc00"
proof -
  have b: "open_flag (dev st) AND RT_DEVICE_FLAG_INT_RX = rx_mode m AND RT_DEVICE_FLAG_INT_RX"
    "open_flag (dev st) AND RT_DEVICE_FLAG_DMA_RX = rx_mode m AND RT_DEVICE_FLAG_DMA_RX"
    unfolding f [symmetric] by (simp_all add: and.assoc)
  have "serial_rx (drv st') = Rx_null \<and> serial_tx (drv st') = serial_tx (drv st) \<and> owns R (sheap (drv st')) [] \<and>
    ref_count (dev st') = ref_count (dev st) \<and> open_flag (dev st') AND 0xc00 = open_flag (dev st) AND 0xc00"
  proof (cases "rx_mode m = 0")
    case True
    then show ?thesis using c s b by (simp add: serial_close_rx_def flag_set_def)
  next
    case False
    then obtain p where p: "rx_addr (serial_rx (drv st)) = Some p" "rx_blocks (serial_rx (drv st)) = [p]"
      using s(1) by (cases "serial_rx (drv st)") auto
    have "rx_mode m = RT_DEVICE_FLAG_INT_RX \<or> rx_mode m = RT_DEVICE_FLAG_DMA_RX"
      using False by (simp add: rx_mode_def split: if_splits)
    then obtain st1 where 1: "serial_free p st = Some st1" and
      st': "st' = serial_control ops (CLR_INT (rx_mode m)) (clr_flag (rx_mode m) (set_rx Rx_null st1))"
      using c p b by (auto simp: serial_close_rx_def flag_set_def Option.bind_eq_Some_conv)
    have "owns R (sheap (drv st)) [p]" using s(2) p(2) by simp
    note 2 = serial_free_owns [OF 1 this]
    have "(open_flag (dev st) AND NOT (rx_mode m)) AND 0xc00 = open_flag (dev st) AND 0xc00"
      using \<open>_ \<or> _\<close> by (auto simp: and.assoc)
    then show ?thesis unfolding st' using 2 by simp
  qed
  then show "serial_rx (drv st') = Rx_null" "serial_tx (drv st') = serial_tx (drv st)" "owns R (sheap (drv st')) []"
    "ref_count (dev st') = ref_count (dev st)" "open_flag (dev st') AND 0xc00 = open_flag (dev st) AND 0xc00"
    by blast+
qed

lemma close_tx:
  assumes c: "serial_close_tx ops i st = Some st'" and f: "open_flag (dev st) AND 0xc00 = tx_mode m"
    and s: "tx_kind (serial_tx (drv st)) = tx_mode m" "owns R (sheap (drv st)) (tx_blocks (serial_tx (drv st)))"
  shows "serial_tx (drv st') = Tx_null" "serial_rx (drv st') = serial_rx (drv st)" "owns R (sheap (drv st')) []"
    "ref_count (dev st') = ref_count (dev st)"
proof -
  have b: "open_flag (dev st) AND RT_DEVICE_FLAG_INT_TX = tx_mode m AND RT_DEVICE_FLAG_INT_TX"
    "open_flag (dev st) AND RT_DEVICE_FLAG_DMA_TX = tx_mode m AND RT_DEVICE_FLAG_DMA_TX"
    unfolding f [symmetric] by (simp_all add: and.assoc)
  have "serial_tx (drv st') = Tx_null \<and> serial_rx (drv st') = serial_rx (drv st) \<and> owns R (sheap (drv st')) [] \<and>
    ref_count (dev st') = ref_count (dev st)"
  proof (cases "serial_tx (drv st)")
    case Tx_null
    then have "tx_mode m = 0" using s(1) by simp
    then show ?thesis using c s b Tx_null by (simp add: serial_close_tx_def flag_set_def)
  next
    case (Tx_fifo p fl)
    then have "tx_mode m = RT_DEVICE_FLAG_INT_TX" using s(1) by simp
    then obtain st1 where 1: "serial_free p st = Some st1" and
      st': "st' = serial_control ops (CLR_INT RT_DEVICE_FLAG_INT_TX) (clr_flag RT_DEVICE_FLAG_INT_TX (set_tx Tx_null st1))"
      using c b Tx_fifo by (auto simp: serial_close_tx_def flag_set_def Option.bind_eq_Some_conv)
    have "owns R (sheap (drv st)) [p]" using s(2) Tx_fifo by simp
    then show ?thesis unfolding st' using serial_free_owns [OF 1] by simp
  next
    case (Tx_dma p act q arr)
    then have "tx_mode m = RT_DEVICE_FLAG_DMA_TX" using s(1) by simp
    then obtain e q' k st1 st2 where
      1: "serial_free arr (st\<lparr>kern := k\<rparr>) = Some st1" "serial_free p st1 = Some st2" and
      st': "st' = serial_control ops (CLR_INT RT_DEVICE_FLAG_DMA_TX) (clr_flag RT_DEVICE_FLAG_DMA_TX (set_tx Tx_null st2))"
      using c b Tx_dma by (auto simp: serial_close_tx_def flag_set_def Option.bind_eq_Some_conv)
    have o: "owns R (sheap (drv (st\<lparr>kern := k\<rparr>))) (tx_blocks (serial_tx (drv st)))" using s(2) by simp
    have o1: "owns R (sheap (drv st1)) [p] \<and> dev st1 = dev st \<and> serial_rx (drv st1) = serial_rx (drv st)"
    proof (cases "arr = 0")
      case True
      then show ?thesis using 1(1) s(2) Tx_dma by (auto simp: serial_free_def rt_free_def Option.bind_eq_Some_conv)
    next
      case False
      then have o: "owns R (sheap (drv (st\<lparr>kern := k\<rparr>))) [arr, p]" using s(2) Tx_dma by simp
      show ?thesis using serial_free_owns [OF 1(1) o] by simp
    qed
    show ?thesis unfolding st' using serial_free_owns [OF 1(2) conjunct1 [OF o1]] o1 by simp
  qed
  then show "serial_tx (drv st') = Tx_null" "serial_rx (drv st') = serial_rx (drv st)" "owns R (sheap (drv st')) []"
    "ref_count (dev st') = ref_count (dev st)"
    by blast+
qed

text \<open>The driver keeps the promises of \<open>device_driver\<close> for clients that all ask for the same mode.\<close>

interpretation serial: device_driver "rt_serial_init ops" "rt_serial_open ops i" "rt_serial_close ops i"
  "serial_flags m" "serial_closed R" "serial_opened R m"
proof
  fix st r st'
  assume "serial_closed R (drv st)" "rt_serial_init ops st = Some (r, st')"
  then show "serial_closed R (drv st') \<and> ref_count (dev st') = ref_count (dev st)"
    by (auto simp: rt_serial_init_def serial_closed_def Let_def on_hw_def split: prod.splits)
next
  fix st oflag r st'
  assume s: "serial_closed R (drv st) \<or> serial_opened R m (open_flag (dev st)) (drv st)"
    and f: "oflag \<in> serial_flags m" and o: "rt_serial_open ops i oflag st = Some (r, st')"
  show "r \<notin> {RT_EOK, - RT_ENOSYS} \<and> st' = st \<or>
      r = RT_EOK \<and> serial_opened R m (open_flag (dev st')) (drv st') \<and> ref_count (dev st') = ref_count (dev st) \<and>
      dev_flag (dev st') = dev_flag (dev st)"
  proof (cases "mode_missing oflag st")
    case True
    then show ?thesis using o by (simp add: rt_serial_open_def)
  next
    case False
    have m: "oflag AND 0xf00 = m" using f by (simp add: serial_flags_def)
    let ?st0 = "upd_dev (\<lambda>d. d\<lparr>open_flag := oflag AND 0xff\<rparr>) st"
    obtain st1 st2 where st1: "serial_open_rx ops oflag ?st0 = Some st1" and st2: "serial_open_tx ops i oflag st1 = Some st2"
      and st': "r = RT_EOK" "\<exists>x. (x = 0 \<or> x = RT_DEVICE_FLAG_STREAM) \<and> st' = or_flag x st2"
      using o False by (auto simp: rt_serial_open_def Option.bind_eq_Some_conv Let_def split: if_splits)
    have s0: "serial_rx (drv ?st0) = Rx_null \<or> rx_mode m \<noteq> 0" "serial_tx (drv st) = Tx_null \<or> tx_kind (serial_tx (drv st)) = tx_mode m"
      "owns R (sheap (drv st)) (rx_blocks (serial_rx (drv st)) @ tx_blocks (serial_tx (drv st)))"
      using s by (auto simp: serial_closed_def serial_opened_def)
    note s1 = open_rx [OF st1 m s0(1), of "R \<union> set (tx_blocks (serial_tx (drv st)))"]
    have o1: "owns R (sheap (drv st1)) (rx_blocks (serial_rx (drv st1)) @ tx_blocks (serial_tx (drv st1)))"
      using s0(3) s1(2,4) unfolding owns_append(1) by simp
    have s0': "owns (R \<union> set (tx_blocks (serial_tx (drv st)))) (sheap (drv ?st0)) (rx_blocks (serial_rx (drv ?st0)))"
      using s0(3) unfolding owns_append(1) by simp
    note s1 = s1 [OF s0']
    have t1: "serial_tx (drv st1) = Tx_null \<or> tx_kind (serial_tx (drv st1)) = tx_mode m" using s0(2) s1(2) by simp
    have t2: "owns (R \<union> set (rx_blocks (serial_rx (drv st1)))) (sheap (drv st1)) (tx_blocks (serial_tx (drv st1)))"
      using o1 unfolding owns_append(2) by simp
    note s2 = open_tx [OF st2 m t1 t2]
    have "owns R (sheap (drv st2)) (rx_blocks (serial_rx (drv st2)) @ tx_blocks (serial_tx (drv st2)))"
      using o1 s2(2,4) unfolding owns_append(2) by simp
    moreover have "rx_mode m AND 0xf00 = rx_mode m" "tx_mode m AND 0xf00 = tx_mode m" by (simp_all add: rx_mode_def tx_mode_def)
    ultimately show ?thesis using st' s1 s2
      by (auto simp: serial_opened_def and.assoc bit.conj_disj_distrib2)
  qed
next
  fix st r st'
  assume s: "serial_opened R m (open_flag (dev st)) (drv st)" "ref_count (dev st) = 0" and c: "rt_serial_close ops i st = Some (r, st')"
  obtain st1 st2 where st1: "serial_close_rx ops st = Some st1" and st2: "serial_close_tx ops i st1 = Some st2"
    and st': "r = RT_EOK" "st' = upd_dev (\<lambda>d. d\<lparr>dev_flag := dev_flag d AND NOT RT_DEVICE_FLAG_ACTIVATED\<rparr>) (serial_control ops Uart_close st2)"
    using c s(2) by (auto simp: rt_serial_close_def Option.bind_eq_Some_conv Let_def)
  have f: "open_flag (dev st) AND 0xf00 = rx_mode m OR tx_mode m" using s(1) by (simp add: serial_opened_def)
  have k: "rx_mode m AND 0x300 = rx_mode m" "tx_mode m AND 0x300 = 0" "rx_mode m AND 0xc00 = 0" "tx_mode m AND 0xc00 = tx_mode m"
    by (simp_all add: rx_mode_def tx_mode_def)
  have "open_flag (dev st) AND 0x300 = (open_flag (dev st) AND 0xf00) AND 0x300"
    "open_flag (dev st) AND 0xc00 = (open_flag (dev st) AND 0xf00) AND 0xc00" by (simp_all add: and.assoc)
  then have f2: "open_flag (dev st) AND 0x300 = rx_mode m" "open_flag (dev st) AND 0xc00 = tx_mode m"
    unfolding f using k by (simp_all add: bit.conj_disj_distrib2)
  note o = s(1) [unfolded serial_opened_def]
  have r0: "serial_rx (drv st) = Rx_null \<longleftrightarrow> rx_mode m = 0"
    "owns (R \<union> set (tx_blocks (serial_tx (drv st)))) (sheap (drv st)) (rx_blocks (serial_rx (drv st)))"
    using o unfolding owns_append(1) by simp_all
  note s1 = close_rx [OF st1 f2(1) r0]
  have t0: "open_flag (dev st1) AND 0xc00 = tx_mode m" "tx_kind (serial_tx (drv st1)) = tx_mode m"
    "owns R (sheap (drv st1)) (tx_blocks (serial_tx (drv st1)))"
    using s1 f2(2) o unfolding owns_append(1) by (auto simp: owns_def)
  note s2 = close_tx [OF st2 t0]
  show "r = RT_EOK \<and> serial_closed R (drv st') \<and> ref_count (dev st') = 0"
    using st' s1 s2 s(2) by (simp add: serial_closed_def)
next
  fix f d
  assume "serial_opened R m f d"
  then show "serial_opened R m (f OR RT_DEVICE_OFLAG_OPEN) d"
    by (simp add: serial_opened_def bit.conj_disj_distrib2)
qed

text \<open>C33. While all clients ask for the same mode, and through any sequence of opening and closing, the
  driver holds exactly its control block and buffer of each direction that is open; when as many
  calls have closed the line as opened it, the heap holds what it held before the first.\<close>

theorem serial_memory_returned:
  assumes "(dev_call (serial_ops ops console i) i (serial_flags m))\<^sup>*\<^sup>* (0, st) (n, st')"
    and "serial_closed R (drv st)" "ref_count (dev st) = 0"
  shows "unat (ref_count (dev st')) = n \<and>
    heap_held (sheap (drv st')) = R \<union> set (rx_blocks (serial_rx (drv st')) @ tx_blocks (serial_tx (drv st'))) \<and>
    (n = 0 \<longrightarrow> heap_held (sheap (drv st')) = R)"
proof (intro conjI impI)
  have "serial.counted R m (0, st)" using assms(2,3) by (simp add: serial.counted_def)
  then have c: "serial.counted R m (n, st')" by (rule serial.calls_counted [OF assms(1)]) (simp_all add: serial_ops_def)
  then show "unat (ref_count (dev st')) = n" by (auto simp: serial.counted_def serial_closed_def owns_def)
  show "heap_held (sheap (drv st')) = R" if "n = 0"
    using c that by (auto simp: serial.counted_def serial_closed_def owns_def)
  show "heap_held (sheap (drv st')) = R \<union> set (rx_blocks (serial_rx (drv st')) @ tx_blocks (serial_tx (drv st')))"
    using c by (auto simp: serial.counted_def serial_closed_def serial_opened_def owns_def split: if_splits)
qed

text \<open>C34. With different modes the memory is lost: a second client that opens the line without asking for
  a receive mode clears the mode bits of the first, so that closing the line for both frees nothing,
  and the next initialisation forgets the buffer.\<close>

theorem serial_reopen_leaks:
  assumes d: "is_device i st" "ref_count (dev st) = 1" "dev_flag (dev st) AND RT_DEVICE_FLAG_ACTIVATED \<noteq> 0"
      "dev_flag (dev st) AND RT_DEVICE_FLAG_STANDALONE = 0"
    and s: "serial_rx (drv st) = Rx_fifo p q" "serial_tx (drv st) = Tx_null" "oflag AND 0xf00 = 0"
  shows "\<exists>st1 st2 st3 r st4. rt_device_open (serial_ops ops console i) i oflag st = Some (RT_EOK, st1) \<and>
    rt_device_close (serial_ops ops console i) i st1 = Some (RT_EOK, st2) \<and>
    rt_device_close (serial_ops ops console i) i st2 = Some (RT_EOK, st3) \<and>
    ref_count (dev st3) = 0 \<and> dev_flag (dev st3) AND RT_DEVICE_FLAG_ACTIVATED = 0 \<and>
    rt_serial_init ops st3 = Some (r, st4) \<and> serial_rx (drv st4) = Rx_null \<and> sheap (drv st4) = sheap (drv st)"
proof -
  have f: "oflag AND RT_DEVICE_FLAG_INT_RX = 0" "oflag AND RT_DEVICE_FLAG_DMA_RX = 0"
    "oflag AND RT_DEVICE_FLAG_INT_TX = 0" "oflag AND RT_DEVICE_FLAG_DMA_TX = 0"
  proof -
    have "oflag AND x = 0" if "x = 0xf00 AND x" for x using s(3) that by (metis and.assoc and_zero_eq zero_and_eq)
    then show "oflag AND RT_DEVICE_FLAG_INT_RX = 0" "oflag AND RT_DEVICE_FLAG_DMA_RX = 0"
      "oflag AND RT_DEVICE_FLAG_INT_TX = 0" "oflag AND RT_DEVICE_FLAG_DMA_TX = 0" by simp_all
  qed
  define x where "x = (if oflag AND RT_DEVICE_FLAG_STREAM \<noteq> 0 \<or> flag_set RT_DEVICE_FLAG_STREAM st then RT_DEVICE_FLAG_STREAM else 0)"
  define g where "g = (oflag AND 0xff OR x) OR RT_DEVICE_OFLAG_OPEN"
  define st1 where "st1 = upd_dev (\<lambda>d. d\<lparr>open_flag := g, ref_count := 2\<rparr>) st"
  define st3 where "st3 = upd_dev (\<lambda>d. d\<lparr>open_flag := 0, dev_flag := dev_flag d AND NOT RT_DEVICE_FLAG_ACTIVATED\<rparr>)
      (serial_control ops Uart_close (upd_dev (\<lambda>d. d\<lparr>open_flag := g, ref_count := 0\<rparr>) st))"
  have x: "x = 0 \<or> x = RT_DEVICE_FLAG_STREAM" by (simp add: x_def)
  then have g: "g AND y = 0" if "y \<in> {RT_DEVICE_FLAG_INT_RX, RT_DEVICE_FLAG_DMA_RX, RT_DEVICE_FLAG_INT_TX, RT_DEVICE_FLAG_DMA_TX}" for y
    using that by (auto simp: g_def bit.conj_disj_distrib2 and.assoc)
  have o: "rt_serial_open ops i oflag st = Some (RT_EOK, upd_dev (\<lambda>d. d\<lparr>open_flag := oflag AND 0xff OR x\<rparr>) st)"
    unfolding rt_serial_open_def Let_def x_def [symmetric] using f s(1,2)
    by (simp add: mode_missing_def serial_open_rx_def serial_open_tx_def set_tx_def upd_drv_def upd_dev_def or_flag_def)
  have 1: "rt_device_open (serial_ops ops console i) i oflag st = Some (RT_EOK, st1)"
    using d o by (simp add: rt_device_open_def device_activate_def serial_ops_def rt_assert_def st1_def upd_dev_def g_def)
  have k: "is_device i st1" using d(1) by (simp add: is_device_def st1_def)
  define st2 where "st2 = upd_dev (\<lambda>d. d\<lparr>ref_count := 1\<rparr>) st1"
  have 2: "rt_device_close (serial_ops ops console i) i st1 = Some (RT_EOK, st2)"
    using k by (simp add: rt_device_close_def rt_assert_def st1_def st2_def upd_dev_def)
  have "rt_serial_close ops i (upd_dev (\<lambda>d. d\<lparr>ref_count := 0\<rparr>) st2) =
      Some (RT_EOK, upd_dev (\<lambda>d. d\<lparr>dev_flag := dev_flag d AND NOT RT_DEVICE_FLAG_ACTIVATED\<rparr>)
      (serial_control ops Uart_close (upd_dev (\<lambda>d. d\<lparr>open_flag := g, ref_count := 0\<rparr>) st)))"
    using g by (simp add: rt_serial_close_def serial_close_rx_def serial_close_tx_def flag_set_def st1_def st2_def upd_dev_def)
  then have 3: "rt_device_close (serial_ops ops console i) i st2 = Some (RT_EOK, st3)"
    using k by (simp add: rt_device_close_def rt_assert_def st2_def st3_def serial_ops_def upd_dev_def is_device_def)
  have "\<exists>r st4. rt_serial_init ops st3 = Some (r, st4) \<and> serial_rx (drv st4) = Rx_null \<and> sheap (drv st4) = sheap (drv st)"
    by (simp add: rt_serial_init_def Let_def st3_def on_hw_def split_beta upd_drv_def)
  then show ?thesis using 1 2 3 by (auto simp: st3_def and.assoc)
qed

end
