(* ===== verification/DriverExamples.thy ===== *)
theory DriverExamples
  imports MemoryExamples SerialData SerialLaws
begin

text \<open>The theorems on the device layer and the serial driver at concrete inputs.\<close>

section \<open>A serial line\<close>

text \<open>The hardware: the bytes it has received, and the transfers it was given.\<close>

type_synonym demo_hw = "u8 list \<times> (u32 \<times> u32) list"

definition demo_uart :: "demo_hw rt_uart_ops" where
  "demo_uart = \<lparr>uart_configure = (\<lambda>c h. (RT_EOK, h)), uart_control = (\<lambda>c h. (RT_EOK, h)), uart_putc = (\<lambda>c h. (1, h)),
     uart_getc = (\<lambda>(rx, tx). case rx of [] \<Rightarrow> (- 1, rx, tx) | c # cs \<Rightarrow> (uint c, cs, tx)),
     uart_dma_transmit = (\<lambda>p n d (rx, tx). (rx, tx @ [(p, n)]))\<rparr>"

definition demo_line :: "serial_rx \<Rightarrow> serial_tx \<Rightarrow> demo_hw \<Rightarrow> demo_hw rt_serial" where
  "demo_line rx tx h = \<lparr>config = \<lparr>baud_rate = 115200, data_bits = 8, stop_bits = 0, parity = 0, bit_order = 0, invert = 0, bufsz = 4\<rparr>,
     serial_rx = rx, serial_tx = tx, sheap = demo_heap, hw = h\<rparr>"

definition demo_dev :: "u16 \<Rightarrow> u8 \<Rightarrow> 'h rt_serial \<Rightarrow> lid \<Rightarrow> 'h serial_state" where
  "demo_dev f n d l = \<lparr>dev = \<lparr>dev_type = 0, dev_flag = 0x113, open_flag = f, ref_count = n, rx_indicate = None, tx_complete = None\<rparr>,
     drv = d, kern = demo l\<rparr>"

lemma demo_dev_sel [simp]:
  "drv (demo_dev f n d l) = d" "kern (demo_dev f n d l) = demo l" "open_flag (dev (demo_dev f n d l)) = f"
  "ref_count (dev (demo_dev f n d l)) = n" "dev_flag (dev (demo_dev f n d l)) = 0x113"
  "tx_complete (dev (demo_dev f n d l)) = None" "is_device i (demo_dev f n d l)"
  "serial_rx (demo_line rx tx h) = rx" "serial_tx (demo_line rx tx h) = tx" "hw (demo_line rx tx h) = h"
  "sheap (demo_line rx tx h) = demo_heap" "bufsz (config (demo_line rx tx h)) = 4"
  by (simp_all add: demo_dev_def demo_line_def is_device_def rt_object_get_type_def demo_obj_def)

lemma demo_dev_type [simp]: "rt_object_get_type (DevObj i) (demo l) = RT_Object_Class_Device"
  by (simp add: rt_object_get_type_def demo_obj_def)

lemma demo_heap_ready: "heap_ready demo_heap" "heap_held demo_heap = {0x2000000C}"
  using demo_heap_inv by (simp_all add: heap_ready_def heap_held_def)

lemma demo_malloc16: "\<exists>h1. heap_get 16 demo_heap = Some (Some 0x20000038, h1)"
  by (simp add: heap_get_def rt_malloc_def heap_lock_def demo_heap_def rt_align_def find_fit.simps [of _ _ 44] Let_def use_block_def
      upd_blk_def heap_max_def heap_unlock_def next_free.simps)

text \<open>A client opens the line for reception with interrupts and closes it again.\<close>

lemma serial_memory_returned_witness:
  "\<exists>st'. (dev_call (serial_ops demo_uart False 0) 0 (serial_flags 0x100))\<^sup>*\<^sup>*
       (0, demo_dev 0 0 (demo_line Rx_null Tx_null ([], [])) (SemWait 0)) (0, st') \<and>
     heap_held (sheap (drv st')) = {0x2000000C}"
proof -
  let ?st = "demo_dev 0 0 (demo_line Rx_null Tx_null ([], [])) (SemWait 0)" and ?ops = "serial_ops demo_uart False 0"
  have c: "serial_closed {0x2000000C} (drv ?st)" using demo_heap_ready by (simp add: serial_closed_def owns_def)
  obtain h1 where h1: "heap_get 16 demo_heap = Some (Some 0x20000038, h1)" using demo_malloc16 by blast
  have "\<exists>st1. rt_device_open ?ops 0 0x103 ?st = Some (RT_EOK, st1) \<and> is_device 0 st1 \<and> ref_count (dev st1) = 1 \<and>
      serial_rx (drv st1) = Rx_fifo 0x20000038 (serial_rx_open 4) \<and> open_flag (dev st1) = 0x10B \<and>
      serial_tx (drv st1) = Tx_null \<and> sheap (drv st1) = h1"
    using h1
    by (simp add: rt_device_open_def device_activate_def serial_ops_def rt_assert_def rt_serial_open_def mode_missing_def
        serial_open_rx_def serial_open_tx_def serial_malloc_def flag_set_def is_device_def)
  then obtain st1 where st1: "rt_device_open ?ops 0 0x103 ?st = Some (RT_EOK, st1)" "is_device 0 st1" "ref_count (dev st1) = 1"
      "serial_rx (drv st1) = Rx_fifo 0x20000038 (serial_rx_open 4)" "open_flag (dev st1) = 0x10B"
      "serial_tx (drv st1) = Tx_null" "sheap (drv st1) = h1" by blast
  have h: "heap_ready h1" "0x20000038 \<in> heap_held h1" using heap_get_some [OF demo_heap_ready(1) h1] by simp_all
  obtain h2 where h2: "rt_free 0x20000038 h1 = Some h2" using heap_put_held [OF h] by blast
  have "\<exists>st2. rt_device_close ?ops 0 st1 = Some (RT_EOK, st2)"
    using st1 h2
    by (simp add: rt_device_close_def rt_assert_def serial_ops_def rt_serial_close_def serial_close_rx_def serial_close_tx_def
        flag_set_def serial_free_def is_device_def)
  then obtain st2 where st2: "rt_device_close ?ops 0 st1 = Some (RT_EOK, st2)" by blast
  have "dev_call ?ops 0 (serial_flags 0x100) (0, ?st) (0 + 1, st1)"
    by (rule dev_call.opened [OF st1(1)]) (simp add: serial_flags_def)
  moreover have "dev_call ?ops 0 (serial_flags 0x100) (0 + 1, st1) (0 + 1 - 1, st2)" by (rule dev_call.closed [OF st2])
  ultimately have r: "(dev_call ?ops 0 (serial_flags 0x100))\<^sup>*\<^sup>* (0, ?st) (0, st2)" by simp
  then show ?thesis using serial_memory_returned [OF r c] by auto
qed

lemma serial_reopen_leaks_witness:
  "\<exists>st1 st2 st3 r st4.
    rt_device_open (serial_ops demo_uart False 0) 0 3 (demo_dev 0x10B 1 (demo_line (Rx_fifo 0x2000000C (serial_rx_open 4)) Tx_null ([], [])) (SemWait 0)) =
      Some (RT_EOK, st1) \<and>
    rt_device_close (serial_ops demo_uart False 0) 0 st1 = Some (RT_EOK, st2) \<and>
    rt_device_close (serial_ops demo_uart False 0) 0 st2 = Some (RT_EOK, st3) \<and>
    ref_count (dev st3) = 0 \<and> dev_flag (dev st3) AND RT_DEVICE_FLAG_ACTIVATED = 0 \<and>
    rt_serial_init demo_uart st3 = Some (r, st4) \<and> serial_rx (drv st4) = Rx_null \<and> 0x2000000C \<in> heap_held (sheap (drv st4))"
  using serial_reopen_leaks [of 0 "demo_dev 0x10B 1 (demo_line (Rx_fifo 0x2000000C (serial_rx_open 4)) Tx_null ([], [])) (SemWait 0)"
      "0x2000000C" "serial_rx_open 4" 3 demo_uart False] demo_heap_ready by auto

section \<open>Reception\<close>

lemma serial_dma_roundtrip_witness:
  "\<exists>q'. serial_dma_rx_fifo 4 4 (fold (dma_receive 4) [[1, 2, 3], [5, 7]] (serial_rx_open 4)) = Some ([2, 3, 5, 7], q') \<and>
     dma_content 4 q' = []"
proof -
  have ok: "dma_ok 4 (serial_rx_open 4)" by (simp add: dma_ok_def serial_rx_open_def)
  show ?thesis using serial_dma_roundtrip [OF ok, of "[[1, 2, 3], [5, 7]]"]
    by (auto simp: dma_used_def dma_content_def serial_rx_open_def)
qed


section \<open>Transmission\<close>

definition demo_dq :: rt_data_queue where
  "demo_dq = \<lparr>dq_magic = DATAQUEUE_MAGIC, dq_size = 8, dq_lwm = 4, dq_get = 0, dq_put = 0, dq_is_empty = True,
     dq_is_full = False, dq_items = replicate 8 (0, 0)\<rparr>"

lemma demo_dq_ok [simp]: "dq_ok demo_dq" "dq_content demo_dq = []" "unat (dq_size demo_dq) = 8"
  by (simp_all add: demo_dq_def dq_ok_def dq_used_def dq_content_def)

lemma dma_writers_race_witness:
  "\<exists>st1 st2 st3.
     serial_dma_tx_push 0 0x100 3 (demo_dev 0x808 1 (demo_line Rx_null (Tx_dma 0x2000000C False demo_dq 0) ([], [])) (SemWait 0)) =
       Some (Return RT_EOK, st1) \<and>
     serial_dma_tx demo_uart 0 0x200 5 st1 = Some (Return 5, st2) \<and>
     serial_dma_tx_rest demo_uart 0x100 3 (Return RT_EOK, st2) = Some (Return 3, st2) \<and>
     rt_hw_serial_isr demo_uart undefined 0 RT_SERIAL_EVENT_TX_DMADONE st2 = Some st3 \<and>
     hw (drv st3) = ([], [(0x200, 5), (0x200, 5)])"
  using dma_writers_race [of "demo_dev 0x808 1 (demo_line Rx_null (Tx_dma 0x2000000C False demo_dq 0) ([], [])) (SemWait 0)"
      "0x2000000C" demo_dq 0 0 "0x100" 3 demo_uart "0x200" 5 undefined]
  by (fastforce simp: demo_uart_def)

definition demo_callbacks :: "demo_hw serial_callbacks" where
  "demo_callbacks = \<lparr>call_rx = (\<lambda>f n st. Some st), call_tx = (\<lambda>f n st. Some st)\<rparr>"


lemma termios_roundtrip_witness:
  "termios_config (config_termios True (config (demo_line Rx_null Tx_null ([], [])))) (config (demo_line Rx_null Tx_null ([], []))) =
     config (demo_line Rx_null Tx_null ([], []))"
  using termios_roundtrip [of "config (demo_line Rx_null Tx_null ([], []))" True "config (demo_line Rx_null Tx_null ([], []))"]
  by (simp add: demo_line_def speed_table_def)

section \<open>Completions and data queues\<close>

lemma completion_lost_after_timeout_witness:
  "\<exists>s1. rt_thread_timeout 2 (demo (CompWait 0)) = rt_schedule s1 \<and>
     (\<forall>s2. lists s2 (CompWait 0) = lists s1 (CompWait 0) \<and> threads s2 2 = threads s1 2 \<longrightarrow>
        rt_completion_done 0 (False, s2) = Some (True, s2) \<and>
        rt_completion_wait_resumed 2 (True, s2) = Some (Return (- RT_ETIMEOUT), False, s2) \<and>
        rt_completion_wait 0 0 (False, s2) = Some (Return (- RT_ETIMEOUT), False, s2))"
  by (rule completion_lost_after_timeout) (simp_all add: demo_inv)

lemma data_queue_hands_over_witness:
  "\<exists>q1 s1. rt_data_queue_push None 0 0x100 3 7 (demo_dq, demo (DqPop 0)) =
       Option.bind (rt_schedule s1) (\<lambda>s2. Some (Return RT_EOK, q1, s2)) \<and> kernel_inv s1 \<and>
     lists s1 (DqPop 0) = [] \<and> stat_of s1 2 = RT_THREAD_READY \<and> dq_content q1 = [(0x100, 3)] \<and>
     (\<forall>s2. threads s2 2 = threads s1 2 \<and> lists s2 (DqPush 0) = [] \<longrightarrow>
        (\<exists>q2. rt_data_queue_pop_resumed None 0 7 2 (q1, s2) = Some (Return (RT_EOK, Some (0x100, 3)), q2, s2) \<and>
              dq_ok q2 \<and> dq_content q2 = []))"
  by (rule data_queue_hands_over) (simp_all add: demo_inv ready_thread_def thread0_def)

end
