(* ===== verification/Printf.thy ===== *)
theory Printf
  imports KString
begin

text \<open>
  Formatted output: \<open>print_number\<close> and \<open>rt_vsnprintf\<close> of \<open>src/src/kservice.c\<close>, as they are compiled
  here (\<open>RT_PRINTF_PRECISION\<close> set, \<open>RT_PRINTF_LONGLONG\<close> and \<open>RT_PRINTF_SPECIAL\<close> not).  The buffer lies in
  memory, and every character that is written advances the position, also behind the end of the
  buffer.  A format is the list of its bytes from the current position on, the variable arguments
  are a list of values; reading past either is \<open>None\<close>, as is a signed overflow.
\<close>

section \<open>Writing\<close>

type_synonym sink = "nat \<times> memory"

definition putc :: "nat \<Rightarrow> u8 \<Rightarrow> sink \<Rightarrow> sink option" where
  "putc e c = (\<lambda>(str, m). do {
     m \<leftarrow> (if str < e then store8 str c m else Some m);
     Some (str + 1, m)
   })"

fun puts :: "nat \<Rightarrow> u8 list \<Rightarrow> sink \<Rightarrow> sink option" where
  "puts e [] s = Some s"
| "puts e (c # cs) s = do { s \<leftarrow> putc e c s; puts e cs s }"

text \<open>\<open>while (n-- > 0)\<close> writes \<open>n\<close> characters and leaves \<open>n\<close> below 0.\<close>

definition pad :: "nat \<Rightarrow> u8 \<Rightarrow> int \<Rightarrow> sink \<Rightarrow> sink option" where
  "pad e c n s = puts e (replicate (nat n) c) s"

definition counted_down :: "int \<Rightarrow> int" where
  "counted_down n = (if n > 0 then - 1 else n - 1)"

section \<open>Numbers\<close>

abbreviation (input) ZEROPAD :: u8 where "ZEROPAD \<equiv> 1"
abbreviation (input) SIGN :: u8 where "SIGN \<equiv> 2"
abbreviation (input) PLUS :: u8 where "PLUS \<equiv> 4"
abbreviation (input) SPACE :: u8 where "SPACE \<equiv> 8"
abbreviation (input) LEFT :: u8 where "LEFT \<equiv> 16"
abbreviation (input) SPECIAL :: u8 where "SPECIAL \<equiv> 32"
abbreviation (input) LARGE :: u8 where "LARGE \<equiv> 64"

text \<open>\<open>divide\<close> takes every base but 10 for 16.\<close>

definition divide_base :: "u32 \<Rightarrow> int \<Rightarrow> nat \<times> u32" where
  "divide_base n base = (if base = 10 then (unat (n mod 10), n div 10) else (unat (n mod 16), n div 16))"

definition digit_char :: "bool \<Rightarrow> nat \<Rightarrow> u8" where
  "digit_char large k = (if k < 10 then 48 + of_nat k else if large then 55 + of_nat k else 87 + of_nat k)"

lemma divide_less: "divide_base num base = (r, n) \<Longrightarrow> num \<noteq> 0 \<Longrightarrow> unat n < unat num"
  by (auto simp: divide_base_def unat_div unat_gt_0 div_less_dividend split: if_splits)

text \<open>The digits, the lowest first, as the loop leaves them in \<open>tmp\<close>.\<close>

function tmp_digits :: "bool \<Rightarrow> int \<Rightarrow> u32 \<Rightarrow> u8 list" where
  "tmp_digits large base num =
     (if num = 0 then []
      else (case divide_base num base of (r, num) \<Rightarrow> digit_char large r # tmp_digits large base num))"
  by auto

termination by (relation "measure (\<lambda>(l, b, num). unat num)") (auto dest: divide_less [OF sym])

declare tmp_digits.simps [simp del]

definition print_sign :: "u8 \<Rightarrow> u32 \<Rightarrow> (u8 \<times> u32) option" where
  "print_sign type num =
     (if type AND SIGN \<noteq> 0 then
        (if sint num < 0 then do { c_defined (sint num \<noteq> - (2 ^ 31)); Some (45, - num) }
         else if type AND PLUS \<noteq> 0 then Some (43, num)
         else if type AND SPACE \<noteq> 0 then Some (32, num)
         else Some (0, num))
      else Some (0, num))"

definition print_number :: "nat \<Rightarrow> sink \<Rightarrow> u32 \<Rightarrow> int \<Rightarrow> int \<Rightarrow> int \<Rightarrow> u8 \<Rightarrow> sink option" where
  "print_number e buf num base s precision type = do {
     let size = s;
     let type = (if type AND LEFT \<noteq> 0 then type AND NOT ZEROPAD else type);
     let c = (if type AND ZEROPAD \<noteq> 0 then 48 else 32);
     (sign, num) \<leftarrow> print_sign type num;
     let tmp = (if num = 0 then [48] else tmp_digits (type AND LARGE \<noteq> 0) base num);
     c_defined (length tmp \<le> 16);
     let i = int (length tmp);
     let precision_bak = precision;
     let precision = (if i > precision then i else precision);
     let size = size - precision;
     (buf, size) \<leftarrow>
       (if type AND (ZEROPAD OR LEFT) = 0 then do {
          let size = (if sign \<noteq> 0 \<and> size > 0 then size - 1 else size);
          buf \<leftarrow> pad e 32 size buf;
          Some (buf, counted_down size)
        } else Some (buf, size));
     (buf, size) \<leftarrow> (if sign \<noteq> 0 then do { buf \<leftarrow> putc e sign buf; Some (buf, size - 1) } else Some (buf, size));
     (buf, size) \<leftarrow>
       (if type AND LEFT = 0 then do { buf \<leftarrow> pad e c size buf; Some (buf, counted_down size) }
        else Some (buf, size));
     buf \<leftarrow> pad e 48 (precision - i) buf;
     buf \<leftarrow> (if precision_bak \<noteq> 0 then puts e (rev tmp) buf else Some buf);
     pad e 32 size buf
   }"

section \<open>Formats\<close>

datatype va_value = Va_int u32 | Va_str "u8 list option" | Va_ptr u32

fun va_int :: "va_value list \<Rightarrow> (u32 \<times> va_value list) option" where
  "va_int (Va_int v # args) = Some (v, args)"
| "va_int _ = None"

fun va_str :: "va_value list \<Rightarrow> (u8 list option \<times> va_value list) option" where
  "va_str (Va_str v # args) = Some (v, args)"
| "va_str _ = None"

fun va_ptr :: "va_value list \<Rightarrow> (u32 \<times> va_value list) option" where
  "va_ptr (Va_ptr v # args) = Some (v, args)"
| "va_ptr _ = None"

definition is_digit :: "u8 \<Rightarrow> bool" where
  "is_digit c \<longleftrightarrow> c - 48 < 10"

fun skip_atoi :: "u8 list \<Rightarrow> int \<Rightarrow> (int \<times> u8 list) option" where
  "skip_atoi [] i = None"
| "skip_atoi (c # cs) i =
     (if is_digit c then do { c_defined (i * 10 + uint c < 2 ^ 31); skip_atoi cs (i * 10 + uint c - 48) }
      else Some (i, c # cs))"

fun parse_flags :: "u8 list \<Rightarrow> u8 \<Rightarrow> (u8 \<times> u8 list) option" where
  "parse_flags [] flags = None"
| "parse_flags (c # cs) flags =
     (if c = 45 then parse_flags cs (flags OR LEFT)
      else if c = 43 then parse_flags cs (flags OR PLUS)
      else if c = 32 then parse_flags cs (flags OR SPACE)
      else if c = 35 then parse_flags cs (flags OR SPECIAL)
      else if c = 48 then parse_flags cs (flags OR ZEROPAD)
      else Some (flags, c # cs))"

fun parse_width :: "u8 list \<Rightarrow> va_value list \<Rightarrow> u8 \<Rightarrow> (int \<times> u8 \<times> u8 list \<times> va_value list) option" where
  "parse_width [] args flags = None"
| "parse_width (c # cs) args flags =
     (if is_digit c then do { (w, fmt) \<leftarrow> skip_atoi (c # cs) 0; Some (w, flags, fmt, args) }
      else if c = 42 then do {
        (w, args) \<leftarrow> va_int args;
        if sint w < 0 then do { c_defined (sint w \<noteq> - (2 ^ 31)); Some (- sint w, flags OR LEFT, cs, args) }
        else Some (sint w, flags, cs, args)
      }
      else Some (- 1, flags, c # cs, args))"

fun parse_precision :: "u8 list \<Rightarrow> va_value list \<Rightarrow> (int \<times> u8 list \<times> va_value list) option" where
  "parse_precision [] args = None"
| "parse_precision (c # cs) args =
     (if c = 46 then do {
        d \<leftarrow> (case cs of [] \<Rightarrow> None | d # _ \<Rightarrow> Some d);
        (p, fmt, args) \<leftarrow>
          (if is_digit d then do { (p, fmt) \<leftarrow> skip_atoi cs 0; Some (p, fmt, args) }
           else if d = 42 then do { (p, args) \<leftarrow> va_int args; Some (sint p, tl cs, args) }
           else Some (- 1, cs, args));
        Some (if p < 0 then 0 else p, fmt, args)
      } else Some (- 1, c # cs, args))"

fun parse_qualifier :: "u8 list \<Rightarrow> (u8 \<times> u8 list) option" where
  "parse_qualifier [] = None"
| "parse_qualifier (c # cs) = Some (if c = 104 \<or> c = 108 then (c, cs) else (0, c # cs))"

text \<open>\<open>while (--field_width > 0)\<close> and \<open>while (len < field_width--)\<close>, with spaces.\<close>

definition put_char :: "nat \<Rightarrow> sink \<Rightarrow> u8 \<Rightarrow> int \<Rightarrow> u8 \<Rightarrow> sink option" where
  "put_char e str c field_width flags = do {
     (str, field_width) \<leftarrow>
       (if flags AND LEFT = 0
        then do { str \<leftarrow> pad e 32 (field_width - 1) str; Some (str, if field_width - 1 > 0 then 0 else field_width - 1) }
        else Some (str, field_width));
     str \<leftarrow> putc e c str;
     pad e 32 (field_width - 1) str
   }"

definition put_string :: "nat \<Rightarrow> sink \<Rightarrow> u8 list option \<Rightarrow> int \<Rightarrow> int \<Rightarrow> u8 \<Rightarrow> sink option" where
  "put_string e str s field_width precision flags = do {
     let s = (case s of None \<Rightarrow> [40, 78, 85, 76, 76, 41, 0] | Some s \<Rightarrow> s);
     l \<leftarrow> rt_strlen s;
     let len = int l;
     let len = (if precision > 0 \<and> len > precision then precision else len);
     (str, field_width) \<leftarrow>
       (if flags AND LEFT = 0
        then do { str \<leftarrow> pad e 32 (field_width - len) str; Some (str, if len < field_width then len - 1 else field_width - 1) }
        else Some (str, field_width));
     str \<leftarrow> puts e (take (nat len) s) str;
     pad e 32 (field_width - len) str
   }"

text \<open>The number that a conversion takes from the arguments.\<close>

definition fetch_number :: "u8 \<Rightarrow> u8 \<Rightarrow> va_value list \<Rightarrow> (u32 \<times> va_value list) option" where
  "fetch_number qualifier flags args = do {
     (v, args) \<leftarrow> va_int args;
     Some (if qualifier = 104
           then (if flags AND SIGN \<noteq> 0 then scast (ucast v :: u16) else ucast (ucast v :: u16)) else v, args)
   }"

text \<open>The parts of a conversion before its last character, which is returned with the rest.\<close>

definition parse_spec :: "u8 list \<Rightarrow> va_value list \<Rightarrow>
    ((u8 \<times> int \<times> int \<times> u8 \<times> u8) \<times> u8 list \<times> va_value list) option" where
  "parse_spec fmt args = do {
     (flags, fmt) \<leftarrow> parse_flags fmt 0;
     (field_width, flags, fmt, args) \<leftarrow> parse_width fmt args flags;
     (precision, fmt, args) \<leftarrow> parse_precision fmt args;
     (qualifier, fmt) \<leftarrow> parse_qualifier fmt;
     case fmt of [] \<Rightarrow> None | ch # rest \<Rightarrow> Some ((flags, field_width, precision, qualifier, ch), rest, args)
   }"

text \<open>The switch over the last character.\<close>

definition convert :: "nat \<Rightarrow> sink \<Rightarrow> u8 \<times> int \<times> int \<times> u8 \<times> u8 \<Rightarrow> va_value list \<Rightarrow> (sink \<times> va_value list) option" where
  "convert e str spec args = (case spec of (flags, field_width, precision, qualifier, ch) \<Rightarrow>
     if ch = 99 then do {
       (v, args) \<leftarrow> va_int args;
       str \<leftarrow> put_char e str (ucast v) field_width flags;
       Some (str, args)
     } else if ch = 115 then do {
       (s, args) \<leftarrow> va_str args;
       str \<leftarrow> put_string e str s field_width precision flags;
       Some (str, args)
     } else if ch = 112 then do {
       (v, args) \<leftarrow> va_ptr args;
       let (field_width, flags) = (if field_width = - 1 then (8, flags OR ZEROPAD) else (field_width, flags));
       str \<leftarrow> print_number e str v 16 field_width precision flags;
       Some (str, args)
     } else if ch = 37 then do {
       str \<leftarrow> putc e 37 str;
       Some (str, args)
     } else if ch \<in> {111, 88, 120, 100, 105, 117} then do {
       let base = (if ch = 111 then 8 else if ch = 88 \<or> ch = 120 then 16 else 10);
       let flags = (if ch = 88 then flags OR LARGE else if ch = 100 \<or> ch = 105 then flags OR SIGN else flags);
       (num, args) \<leftarrow> fetch_number qualifier flags args;
       str \<leftarrow> print_number e str num base field_width precision flags;
       Some (str, args)
     } else do {
       str \<leftarrow> putc e 37 str;
       str \<leftarrow> (if ch \<noteq> 0 then putc e ch str else Some str);
       Some (str, args)
     })"

text \<open>Where the loop goes on: after a format that ends within a conversion, at its end.\<close>

definition after_spec :: "u8 \<times> int \<times> int \<times> u8 \<times> u8 \<Rightarrow> u8 list \<Rightarrow> u8 list" where
  "after_spec spec rest = (case spec of (flags, field_width, precision, qualifier, ch) \<Rightarrow>
     if ch = 0 then ch # rest else rest)"

lemma skip_atoi_shorter: "skip_atoi cs i = Some (v, rest) \<Longrightarrow> length rest \<le> length cs"
  by (induction cs i rule: skip_atoi.induct) (auto split: if_splits simp: Option.bind_eq_Some_conv)

lemma parse_flags_shorter: "parse_flags cs f = Some (v, rest) \<Longrightarrow> length rest \<le> length cs"
  by (induction cs f rule: parse_flags.induct) (auto split: if_splits)

lemma parse_shorter:
  "parse_width cs args f = Some (w, f', rest, args') \<Longrightarrow> length rest \<le> length cs"
  "parse_precision cs args = Some (p, rest, args') \<Longrightarrow> length rest \<le> length cs"
  "parse_qualifier cs = Some (q, rest) \<Longrightarrow> length rest \<le> length cs"
  by (cases cs; force split: if_splits list.splits simp: Option.bind_eq_Some_conv dest: skip_atoi_shorter)+

lemma parse_spec_shorter:
  assumes "parse_spec fmt args = Some (spec, rest, args')"
  shows "length (after_spec spec rest) \<le> length fmt"
proof -
  obtain f0 c0 w f1 c1 a1 p c2 q c3 a3 where p: "parse_flags fmt 0 = Some (f0, c0)"
      "parse_width c0 args f0 = Some (w, f1, c1, a1)" "parse_precision c1 a1 = Some (p, c2, a3)"
      "parse_qualifier c2 = Some (q, c3)"
      and c3: "(case c3 of [] \<Rightarrow> None | ch # rest \<Rightarrow> Some ((f1, w, p, q, ch), rest, a3)) = Some (spec, rest, args')"
    using assms by (auto simp: parse_spec_def Option.bind_eq_Some_conv)
  obtain ch where "c3 = ch # rest" and sp: "spec = (f1, w, p, q, ch)" using c3 by (cases c3) auto
  note p = p [unfolded this(1)]
  have "length (ch # rest) \<le> length c2" by (rule parse_shorter(3) [OF p(4)])
  also have "\<dots> \<le> length c1" by (rule parse_shorter(2) [OF p(3)])
  also have "\<dots> \<le> length c0" by (rule parse_shorter(1) [OF p(2)])
  also have "\<dots> \<le> length fmt" by (rule parse_flags_shorter [OF p(1)])
  finally show ?thesis by (simp add: after_spec_def sp)
qed

function vs_loop :: "nat \<Rightarrow> sink \<Rightarrow> u8 list \<Rightarrow> va_value list \<Rightarrow> sink option" where
  "vs_loop e str [] args = None"
| "vs_loop e str (c # fmt) args =
     (if c = 0 then Some str
      else if c \<noteq> 37 then do { str \<leftarrow> putc e c str; vs_loop e str fmt args }
      else (case parse_spec fmt args of
              None \<Rightarrow> None
            | Some (spec, rest, args) \<Rightarrow> do {
                (str, args) \<leftarrow> convert e str spec args;
                vs_loop e str (after_spec spec rest) args
              }))"
  by pat_completeness auto

termination by (relation "measure (\<lambda>(e, s, fmt, args). length fmt)") (auto dest: parse_spec_shorter)

text \<open>A size that would take the end of the buffer past the address space is cut.\<close>

definition rt_vsnprintf :: "u32 \<Rightarrow> u32 \<Rightarrow> u8 list \<Rightarrow> va_value list \<Rightarrow> memory \<Rightarrow> (nat \<times> memory) option" where
  "rt_vsnprintf buf sz fmt args m = do {
     let e = buf + sz;
     let (e, sz) = (if e < buf then (0xFFFFFFFF, 0xFFFFFFFF - buf) else (e, sz));
     (str, m) \<leftarrow> vs_loop (unat e) (unat buf, m) fmt args;
     m \<leftarrow> (if sz > 0 then (if str < unat e then store8 str 0 m else store8 (unat e - 1) 0 m) else Some m);
     Some (str - unat buf, m)
   }"

definition rt_snprintf :: "u32 \<Rightarrow> u32 \<Rightarrow> u8 list \<Rightarrow> va_value list \<Rightarrow> memory \<Rightarrow> (nat \<times> memory) option" where
  "rt_snprintf buf sz fmt args m = rt_vsnprintf buf sz fmt args m"

definition rt_vsprintf :: "u32 \<Rightarrow> u8 list \<Rightarrow> va_value list \<Rightarrow> memory \<Rightarrow> (nat \<times> memory) option" where
  "rt_vsprintf buf fmt args m = rt_vsnprintf buf (- 1) fmt args m"

definition rt_sprintf :: "u32 \<Rightarrow> u8 list \<Rightarrow> va_value list \<Rightarrow> memory \<Rightarrow> (nat \<times> memory) option" where
  "rt_sprintf buf fmt args m = rt_vsprintf buf fmt args m"

text \<open>The part of \<open>rt_kprintf\<close> that fills the log buffer, which has 512 bytes, and hands them to the
  console: the bytes that are sent.\<close>

definition rt_kprintf :: "u32 \<Rightarrow> u8 list \<Rightarrow> va_value list \<Rightarrow> memory \<Rightarrow> (u8 option list \<times> memory) option" where
  "rt_kprintf rt_log_buf fmt args m = do {
     (n, m) \<leftarrow> rt_vsnprintf rt_log_buf (512 - 1) fmt args m;
     let n = (if n > 512 - 1 then 512 - 1 else n);
     Some (map (\<lambda>i. m (unat rt_log_buf + i)) [0..<n], m)
   }"

section \<open>What is written\<close>

text \<open>The text of a number, of a conversion and of a whole format, without a buffer.\<close>

definition number_text :: "u32 \<Rightarrow> int \<Rightarrow> int \<Rightarrow> int \<Rightarrow> u8 \<Rightarrow> u8 list option" where
  "number_text num base width precision type = do {
     (sign, n) \<leftarrow> print_sign type num;
     let digits = rev (if n = 0 then [48] else tmp_digits (type AND LARGE \<noteq> 0) base n);
     let sg = (if sign \<noteq> 0 then [sign] else []);
     let zeros = replicate (nat precision - length digits) 48;
     let fill = nat width - (length sg + length zeros + length digits);
     let body = zeros @ (if precision \<noteq> 0 then digits else []);
     Some (if type AND LEFT \<noteq> 0 then sg @ body @ replicate fill 32
           else if type AND ZEROPAD \<noteq> 0 then sg @ replicate fill 48 @ body
           else replicate fill 32 @ sg @ body)
   }"

definition char_text :: "u8 \<Rightarrow> int \<Rightarrow> u8 \<Rightarrow> u8 list" where
  "char_text c width flags =
     (let fill = replicate (nat (width - 1)) 32 in if flags AND LEFT = 0 then fill @ [c] else c # fill)"

definition string_text :: "u8 list option \<Rightarrow> int \<Rightarrow> int \<Rightarrow> u8 \<Rightarrow> u8 list option" where
  "string_text s width precision flags = do {
     let s = (case s of None \<Rightarrow> [40, 78, 85, 76, 76, 41, 0] | Some s \<Rightarrow> s);
     len \<leftarrow> rt_strlen s;
     let t = take (if precision > 0 then nat precision else len) (take len s);
     let fill = replicate (nat width - length t) 32;
     Some (if flags AND LEFT = 0 then fill @ t else t @ fill)
   }"

definition convert_text :: "u8 \<times> int \<times> int \<times> u8 \<times> u8 \<Rightarrow> va_value list \<Rightarrow> (u8 list \<times> va_value list) option" where
  "convert_text spec args = (case spec of (flags, width, precision, qualifier, ch) \<Rightarrow>
     if ch = 99 then do { (v, args) \<leftarrow> va_int args; Some (char_text (ucast v) width flags, args) }
     else if ch = 115 then do { (s, args) \<leftarrow> va_str args; t \<leftarrow> string_text s width precision flags; Some (t, args) }
     else if ch = 112 then do {
       (v, args) \<leftarrow> va_ptr args;
       t \<leftarrow> number_text v 16 (if width = - 1 then 8 else width) precision (if width = - 1 then flags OR ZEROPAD else flags);
       Some (t, args)
     } else if ch = 37 then Some ([37], args)
     else if ch \<in> {111, 88, 120, 100, 105, 117} then do {
       let flags = (if ch = 88 then flags OR LARGE else if ch = 100 \<or> ch = 105 then flags OR SIGN else flags);
       (num, args) \<leftarrow> fetch_number qualifier flags args;
       t \<leftarrow> number_text num (if ch = 111 then 8 else if ch = 88 \<or> ch = 120 then 16 else 10) width precision flags;
       Some (t, args)
     } else Some (if ch \<noteq> 0 then [37, ch] else [37], args))"

function vs_text :: "u8 list \<Rightarrow> va_value list \<Rightarrow> u8 list option" where
  "vs_text [] args = None"
| "vs_text (c # fmt) args =
     (if c = 0 then Some []
      else if c \<noteq> 37 then map_option ((#) c) (vs_text fmt args)
      else (case parse_spec fmt args of
              None \<Rightarrow> None
            | Some (spec, rest, args) \<Rightarrow> do {
                (t, args) \<leftarrow> convert_text spec args;
                map_option ((@) t) (vs_text (after_spec spec rest) args)
              }))"
  by pat_completeness auto

termination by (relation "measure (\<lambda>(fmt, args). length fmt)") (auto dest: parse_spec_shorter)

lemma puts_append: "puts e (a @ b) s = Option.bind (puts e a s) (puts e b)"
proof (induction a arbitrary: s)
  case (Cons c a)
  show ?case by (cases "putc e c s") (simp_all add: Cons)
qed simp

lemma puts_nil: "puts e [] = Some"
  by (simp add: fun_eq_iff)

lemma pad_puts: "pad e c n = puts e (replicate (nat n) c)"
  by (simp add: pad_def fun_eq_iff)

lemma counted_down_zero: "nat (counted_down n) = 0" "nat (counted_down n - 1) = 0" "nat (counted_down (counted_down n - 1)) = 0"
  by (simp_all add: counted_down_def)

lemma puts_single: "puts e [c] s = putc e c s"
  by (cases "putc e c s") simp_all

text \<open>A number has at most ten digits.\<close>

lemma tmp_digits_length: "unat n < 10 ^ k \<Longrightarrow> length (tmp_digits l b n) \<le> k"
proof (induction k arbitrary: n)
  case 0
  then show ?case by (simp add: unat_eq_0 tmp_digits.simps)
next
  case (Suc k)
  obtain r m where d: "divide_base n b = (r, m)" by fastforce
  then have "unat m \<le> unat n div 10" by (auto simp: divide_base_def unat_div split: if_splits intro: div_le_mono2)
  then have "unat m < 10 ^ k" using Suc.prems by (simp add: less_mult_imp_div_less mult.commute)
  then show ?case using Suc.IH [of m] d by (subst tmp_digits.simps) simp
qed

lemma tmp_digits_le_10: "length (tmp_digits l b n) \<le> 10"
  by (rule tmp_digits_length) (use unsigned_less [of n, where ?'a = nat] in simp)

text \<open>Left adjustment takes the zero flag back; the other flags do not notice.\<close>

lemma flag_bits:
  fixes type :: u8
  defines "t \<equiv> if type AND LEFT \<noteq> 0 then type AND NOT ZEROPAD else type"
  shows "t AND SIGN = type AND SIGN" "t AND PLUS = type AND PLUS" "t AND SPACE = type AND SPACE"
    "t AND LEFT = type AND LEFT" "t AND LARGE = type AND LARGE"
    "t AND ZEROPAD = (if type AND LEFT \<noteq> 0 then 0 else type AND ZEROPAD)"
    "t AND (ZEROPAD OR LEFT) = 0 \<longleftrightarrow> type AND ZEROPAD = 0 \<and> type AND LEFT = 0"
proof -
  have "(type AND NOT ZEROPAD) AND m = type AND m" if "NOT ZEROPAD AND m = m" for m using that by (simp add: and.assoc)
  then show "t AND SIGN = type AND SIGN" "t AND PLUS = type AND PLUS" "t AND SPACE = type AND SPACE"
    "t AND LEFT = type AND LEFT" "t AND LARGE = type AND LARGE" by (simp_all add: t_def)
  show z: "t AND ZEROPAD = (if type AND LEFT \<noteq> 0 then 0 else type AND ZEROPAD)"
    by (simp add: t_def and.assoc)
  have "t AND (ZEROPAD OR LEFT) = (t AND ZEROPAD) OR (t AND LEFT)" by (rule bit.conj_disj_distrib)
  also have "\<dots> = 0 \<longleftrightarrow> t AND ZEROPAD = 0 \<and> t AND LEFT = 0" by (rule or_eq_0_iff)
  finally show "t AND (ZEROPAD OR LEFT) = 0 \<longleftrightarrow> type AND ZEROPAD = 0 \<and> type AND LEFT = 0"
    using z \<open>t AND LEFT = type AND LEFT\<close> by auto
qed

lemma print_number_text:
  "print_number e buf num base s precision type =
     Option.bind (number_text num base s precision type) (\<lambda>t. puts e t buf)"
proof -
  let ?t = "if type AND LEFT \<noteq> 0 then type AND NOT ZEROPAD else type"
  note bits = flag_bits [of type]
  have sg: "print_sign ?t num = print_sign type num" unfolding print_sign_def bits ..
  show ?thesis
  proof (cases "print_sign type num")
    case None
    then show ?thesis by (simp only: print_number_def number_text_def sg Let_def) simp
  next
    case (Some a)
    obtain sign n where a: "a = (sign, n)" by fastforce
    define d where "d = (if n = 0 then [48] else tmp_digits (type AND LARGE \<noteq> 0) base n)"
    have len: "length d \<le> 16" using tmp_digits_le_10 [of "type AND LARGE \<noteq> 0" base n] by (auto simp: d_def)
    define P where "P = (if int (length d) > precision then int (length d) else precision)"
    define z where "z = nat precision - length d"
    define fill where "fill sg = nat s - (length (sg :: u8 list) + z + length d)" for sg
    have k: "nat (P - int (length d)) = z" "nat (s - P) = fill []" "nat (s - P - 1) = fill [sign]"
      "\<not> P < s \<Longrightarrow> fill [] = fill [sign]"
      by (auto simp: P_def z_def fill_def split: if_splits)
    have body: "print_number e buf num base s precision type =
        (let pre = (if sign \<noteq> 0 then [sign] else []) in
         if type AND LEFT \<noteq> 0 then puts e (pre @ replicate z 48 @ (if precision \<noteq> 0 then rev d else []) @ replicate (fill pre) 32) buf
         else if type AND ZEROPAD \<noteq> 0 then puts e (pre @ replicate (fill pre) 48 @ replicate z 48 @ (if precision \<noteq> 0 then rev d else [])) buf
         else puts e (replicate (fill pre) 32 @ pre @ replicate z 48 @ (if precision \<noteq> 0 then rev d else [])) buf)"
      unfolding print_number_def sg Some a Option.bind.simps(2) prod.case Let_def bits d_def [symmetric] P_def [symmetric]
      using len by (cases "sign = 0"; cases "type AND LEFT = 0"; cases "type AND ZEROPAD = 0"; cases "precision = 0")
        (simp_all add: pad_puts k counted_down_zero Option.bind_assoc puts_append [symmetric] puts_single [symmetric] puts_nil
          del: puts.simps)
    show ?thesis unfolding body number_text_def Some a Option.bind.simps(2) prod.case Let_def d_def [symmetric]
      by (simp add: z_def fill_def add.assoc)
  qed
qed

lemma put_char_text: "put_char e str c w flags = puts e (char_text c w flags) str"
proof (cases "flags AND LEFT = 0")
  case True
  have "nat ((if w - 1 > 0 then 0 else w - 1) - 1) = 0" by simp
  then show ?thesis using True
    by (simp add: put_char_def char_text_def Let_def pad_puts puts_nil Option.bind_assoc puts_append [symmetric]
        puts_single [symmetric] del: puts.simps)
next
  case False
  then show ?thesis
    by (simp add: put_char_def char_text_def Let_def pad_puts puts_append [symmetric] puts_single [symmetric] del: puts.simps)
qed

lemma put_string_text:
  "put_string e str s w precision flags = Option.bind (string_text s w precision flags) (\<lambda>t. puts e t str)"
proof -
  define q where "q = (case s of None \<Rightarrow> [40, 78, 85, 76, 76, 41, 0 :: u8] | Some s \<Rightarrow> s)"
  show ?thesis
  proof (cases "rt_strlen q")
    case None
    then show ?thesis by (simp add: put_string_def string_text_def Let_def q_def)
  next
    case (Some l)
    define len where "len = (if precision > 0 \<and> int l > precision then precision else int l)"
    let ?t = "take (if precision > 0 then nat precision else l) (take l q)"
    have lq: "l < length q" using Some by (induction q arbitrary: l) (auto split: if_splits)
    have "nat len = (if precision > 0 then min (nat precision) l else l)" by (auto simp: len_def min_def)
    then have t: "take (nat len) q = ?t" by (simp add: min.commute)
    have k: "nat (w - len) = nat w - length ?t" using lq by (auto simp: len_def min_def)
    have z: "nat ((if len < w then len - 1 else w - 1) - len) = 0" by simp
    show ?thesis
      unfolding put_string_def string_text_def Let_def q_def [symmetric] Some Option.bind.simps(2) len_def [symmetric] t
      by (cases "flags AND LEFT = 0")
        (simp_all add: pad_puts puts_nil Option.bind_assoc puts_append [symmetric] k z del: puts.simps length_take take_take)
  qed
qed

lemma map_option_over_bind: "map_option f (Option.bind x g) = Option.bind x (\<lambda>y. map_option f (g y))"
  by (cases x) simp_all

lemma convert_text_eq:
  "convert e str spec args =
     Option.bind (convert_text spec args) (\<lambda>(t, args). map_option (\<lambda>str. (str, args)) (puts e t str))"
proof -
  obtain flags w p q ch where spec: "spec = (flags, w, p, q, ch)" by (metis prod_cases5)
  have m: "Option.bind x (\<lambda>s. Some (s, a)) = map_option (\<lambda>s. (s, a)) x" for x :: "sink option" and a :: "va_value list"
    by (cases x) simp_all
  have two: "puts e [37, ch] str = Option.bind (puts e [37] str) (puts e [ch])"
    using puts_append [of e "[37]" "[ch]" str] by (simp del: puts.simps)
  have one: "putc e c str = puts e [c] str" for c str by (simp only: puts_single)
  consider "ch = 99" | "ch = 115" | "ch = 112" | "ch = 37" | "ch \<in> {111, 88, 120, 100, 105, 117}"
    | "ch \<notin> {99, 115, 112, 37, 111, 88, 120, 100, 105, 117}" by blast
  then show ?thesis
  proof cases
    case 1
    then show ?thesis unfolding spec convert_def convert_text_def
      by (cases "va_int args") (auto simp: put_char_text m)
  next
    case 2
    then show ?thesis unfolding spec convert_def convert_text_def
      by (cases "va_str args") (auto simp: put_string_text m map_option_over_bind Option.bind_assoc)
  next
    case 3
    then show ?thesis unfolding spec convert_def convert_text_def
      by (cases "va_ptr args") (auto simp: print_number_text m map_option_over_bind Option.bind_assoc)
  next
    case 4
    then show ?thesis unfolding spec convert_def convert_text_def by (simp add: one m del: puts.simps)
  next
    case 5
    then have n: "ch \<noteq> 99" "ch \<noteq> 115" "ch \<noteq> 112" "ch \<noteq> 37" by auto
    show ?thesis unfolding spec convert_def convert_text_def Let_def prod.case if_P [OF 5] if_not_P [OF n(1)]
        if_not_P [OF n(2)] if_not_P [OF n(3)] if_not_P [OF n(4)]
      by (simp add: print_number_text m map_option_over_bind Option.bind_assoc split_def)
  next
    case 6
    then show ?thesis unfolding spec convert_def convert_text_def
      by (cases "ch = 0") (simp_all add: one two m map_option_over_bind del: puts.simps)
  qed
qed

text \<open>The loop writes the text of the format, wherever the buffer is and however long.\<close>

lemma vs_loop_text: "vs_loop e str fmt args = Option.bind (vs_text fmt args) (\<lambda>t. puts e t str)"
proof (induction e str fmt args rule: vs_loop.induct)
  case (1 e str args)
  then show ?case by simp
next
  case (2 e str c fmt args)
  consider "c = 0" | "c \<noteq> 0" "c \<noteq> 37" | "c = 37" by blast
  then show ?case
  proof cases
    case 1
    then show ?thesis by simp
  next
    case 2
    show ?thesis
    proof (cases "putc e c str")
      case None
      then show ?thesis using 2 by (cases "vs_text fmt args") simp_all
    next
      case (Some s)
      then show ?thesis using 2 "2.IH"(1) [OF 2, of s] by (cases "vs_text fmt args") simp_all
    qed
  next
    case 3
    show ?thesis
    proof (cases "parse_spec fmt args")
      case None
      then show ?thesis using 3 by simp
    next
      case (Some x)
      obtain spec rest a1 where x: "x = (spec, rest, a1)" by (metis prod_cases3)
      show ?thesis
      proof (cases "convert_text spec a1")
        case None
        then show ?thesis using 3 Some x by (simp add: convert_text_eq)
      next
        fix y assume y: "convert_text spec a1 = Some y"
        obtain t a2 where ta: "y = (t, a2)" by fastforce
        show ?thesis
        proof (cases "puts e t str")
          case None
          then show ?thesis using 3 Some x y ta
            by (cases "vs_text (after_spec spec rest) a2") (simp_all add: convert_text_eq puts_append)
        next
          fix s assume s: "puts e t str = Some s"
          have cv: "convert e str spec a1 = Some (s, a2)" using y ta s by (simp add: convert_text_eq)
          have "vs_loop e s (after_spec spec rest) a2 =
              Option.bind (vs_text (after_spec spec rest) a2) (\<lambda>t. puts e t s)"
            using "2.IH"(2) [of "(spec, rest, a1)" spec "(rest, a1)" rest a1 "(s, a2)" s a2] 3 Some x cv by simp
          then show ?thesis using 3 Some x y ta s
            by (cases "vs_text (after_spec spec rest) a2") (simp_all add: convert_text_eq puts_append)
        qed
      qed
    qed
  qed
qed

section \<open>The buffer\<close>

definition place :: "nat \<Rightarrow> u8 list \<Rightarrow> memory \<Rightarrow> memory" where
  "place p t m = (\<lambda>a. if p \<le> a \<and> a < p + length t then Some (t ! (a - p)) else m a)"

lemma place_Nil: "place p [] m = m"
  by (auto simp: place_def fun_eq_iff)

lemma place_Cons: "place p (c # t) m = place (p + 1) t (m(p \<mapsto> c))"
  by (auto simp: place_def fun_eq_iff nth_Cons' intro!: arg_cong [of _ _ "(!) t"])

lemma place_snoc: "(place p t m)(p + length t \<mapsto> c) = place p (t @ [c]) m"
  by (auto simp: place_def fun_eq_iff nth_append)

lemma place_last: "t \<noteq> [] \<Longrightarrow> (place p t m)(p + length t - 1 \<mapsto> c) = place p (butlast t @ [c]) m"
proof -
  assume "t \<noteq> []"
  then obtain u x where t: "t = u @ [x]" by (cases t rule: rev_cases) auto
  show ?thesis unfolding t by (auto simp: place_def fun_eq_iff nth_append)
qed

lemma alloc_upd: "alloc p n m \<Longrightarrow> alloc p n (m(a \<mapsto> c))"
  by (simp add: alloc_def)

lemma puts_place:
  "alloc p (min (length t) (e - p)) m \<Longrightarrow> puts e t (p, m) = Some (p + length t, place p (take (e - p) t) m)"
proof (induction t arbitrary: p m)
  case Nil
  then show ?case by (simp add: place_Nil)
next
  case (Cons c t)
  show ?case
  proof (cases "p < e")
    case True
    then have e: "e - p = Suc (e - Suc p)" by simp
    then have "m p \<noteq> None" "alloc (Suc p) (min (length t) (e - Suc p)) m"
      using Cons.prems by (auto simp: alloc_def)
    moreover from this(2) have "puts e t (Suc p, m(p \<mapsto> c)) =
        Some (Suc p + length t, place (Suc p) (take (e - Suc p) t) (m(p \<mapsto> c)))"
      by (intro Cons.IH alloc_upd)
    ultimately show ?thesis using True by (simp add: putc_def store8_def e place_Cons)
  next
    case False
    moreover have "alloc (p + 1) 0 m" by (auto simp: alloc_def)
    ultimately show ?thesis using Cons.IH [of "p + 1" m] by (simp add: putc_def place_Nil)
  qed
qed

text \<open>The number of bytes that \<open>rt_vsnprintf\<close> takes the buffer to have.\<close>

definition buffer_room :: "u32 \<Rightarrow> u32 \<Rightarrow> nat" where
  "buffer_room buf sz = (if unat buf + unat sz < 2 ^ 32 then unat sz else 2 ^ 32 - 1 - unat buf)"

lemma buffer_end:
  "(if buf + sz < buf then (0xFFFFFFFF, 0xFFFFFFFF - buf) else (buf + sz, sz)) = (e, n) \<Longrightarrow>
   unat e = unat buf + buffer_room buf sz \<and> unat n = buffer_room buf sz"
  for buf sz e n :: u32
proof -
  assume *: "(if buf + sz < buf then (0xFFFFFFFF, 0xFFFFFFFF - buf) else (buf + sz, sz)) = (e, n)"
  have lt: "unat buf < 2 ^ 32" "unat sz < 2 ^ 32" using unsigned_less [of _, where ?'a = nat and ?'b = 32] by simp_all
  show ?thesis
  proof (cases "unat buf + unat sz < 2 ^ 32")
    case True
    then have "unat (buf + sz) = unat buf + unat sz" by (simp add: unat_word_ariths)
    then show ?thesis using * True by (auto simp: buffer_room_def word_less_nat_alt)
  next
    case False
    then have "unat (buf + sz) = unat buf + unat sz - 2 ^ 32" using lt by (simp add: unat_word_ariths le_mod_geq)
    then have "unat (buf + sz) < unat buf" using lt False by simp
    moreover have "buf \<le> 0xFFFFFFFF" using lt(1) by (simp add: word_le_nat_alt)
    then have "unat (0xFFFFFFFF - buf) = 2 ^ 32 - 1 - unat buf" by (simp add: unat_sub)
    ultimately show ?thesis using * False lt by (auto simp: buffer_room_def word_less_nat_alt)
  qed
qed

lemma vsnprintf_text:
  assumes room: "0 < buffer_room buf sz" and mem: "alloc (unat buf) (min (buffer_room buf sz) (length t + 1)) m"
    and t: "vs_text fmt args = Some t"
  shows "rt_vsnprintf buf sz fmt args m =
     Some (length t, place (unat buf) (take (buffer_room buf sz - 1) t @ [0]) m)"
proof -
  obtain e n where en: "(if buf + sz < buf then (0xFFFFFFFF, 0xFFFFFFFF - buf) else (buf + sz, sz)) = (e, n)" by fastforce
  let ?r = "buffer_room buf sz" and ?b = "unat buf"
  have e: "unat e = ?b + ?r" "unat n = ?r" using buffer_end [OF en] by simp_all
  have "alloc ?b (min (length t) (unat e - ?b)) m" using mem by (auto simp: e alloc_def)
  from puts_place [OF this]
  have loop: "vs_loop (unat e) (?b, m) fmt args = Some (?b + length t, place ?b (take ?r t) m)"
    by (simp add: vs_loop_text t e)
  have "n > 0" using room e(2) by (simp add: word_less_nat_alt)
  show ?thesis
  proof (cases "length t < ?r")
    case True
    then have "m (?b + length t) \<noteq> None" using mem by (auto simp: alloc_def)
    then have "store8 (?b + length t) 0 (place ?b t m) = Some (place ?b (t @ [0]) m)"
      by (simp add: store8_def place_def [of _ t m] place_snoc [unfolded place_def]) (simp add: place_def)
    then show ?thesis using True \<open>n > 0\<close> loop e(1) by (simp add: rt_vsnprintf_def Let_def en)
  next
    case False
    let ?t = "take ?r t"
    have len: "length ?t = ?r" "?t \<noteq> []" using False room by auto
    have "butlast ?t = take (?r - 1) t" using len False by (simp add: butlast_take)
    then have "(place ?b ?t m)(?b + ?r - 1 \<mapsto> 0) = place ?b (take (?r - 1) t @ [0]) m"
      using place_last [OF len(2), of ?b m 0] len(1) by simp
    moreover have "?b \<le> ?b + ?r - 1" "?b + ?r - 1 < ?b + length ?t" using len(1) room by linarith+
    then have "place ?b ?t m (?b + ?r - 1) \<noteq> None" by (simp add: place_def del: length_take)
    ultimately have "store8 (unat e - 1) 0 (place ?b ?t m) = Some (place ?b (take (?r - 1) t @ [0]) m)"
      by (simp add: store8_def e)
    then show ?thesis using False \<open>n > 0\<close> loop e(1) by (simp add: rt_vsnprintf_def Let_def en)
  qed
qed

section \<open>Reading numbers back\<close>

definition digit_value :: "u8 \<Rightarrow> nat" where
  "digit_value c = (if c < 58 then unat c - 48 else if c < 97 then unat c - 55 else unat c - 87)"

definition read_digits :: "nat \<Rightarrow> u8 list \<Rightarrow> nat" where
  "read_digits b t = foldl (\<lambda>n c. n * b + digit_value c) 0 t"

definition read_int :: "u8 list \<Rightarrow> int" where
  "read_int t = (case t of [] \<Rightarrow> 0 | c # cs \<Rightarrow> if c = 45 then - int (read_digits 10 cs) else int (read_digits 10 t))"

lemma digit_char_value:
  assumes "k < 16"
  shows "digit_value (digit_char large k) = k" "48 \<le> digit_char large k"
proof -
  have "k \<in> {0, 1, 2, 3, 4, 5, 6, 7, 8, 9, 10, 11, 12, 13, 14, 15}" using assms unfolding insert_iff empty_iff by presburger
  then show "digit_value (digit_char large k) = k" "48 \<le> digit_char large k"
    by (auto simp: digit_value_def digit_char_def)
qed

lemma divide_base_eq:
  "divide_base n b = (r, m) \<Longrightarrow> unat n = unat m * (if b = 10 then 10 else 16) + r \<and> r < 16"
  by (auto simp: divide_base_def unat_div unat_mod)

lemma tmp_digits_value:
  "read_digits (if b = 10 then 10 else 16) (rev (tmp_digits l b n)) = unat n \<and> (\<forall>c \<in> set (tmp_digits l b n). 48 \<le> c)"
proof (induction l b n rule: tmp_digits.induct)
  case (1 l b n)
  show ?case
  proof (cases "n = 0")
    case True
    then show ?thesis by (simp add: tmp_digits.simps read_digits_def)
  next
    case False
    obtain r m where d: "divide_base n b = (r, m)" by fastforce
    note eq = divide_base_eq [OF d]
    have "tmp_digits l b n = digit_char l r # tmp_digits l b m" using False d by (subst tmp_digits.simps) simp
    then show ?thesis using "1.IH" [OF False d [symmetric]] eq digit_char_value [of r l]
      by (simp add: read_digits_def)
  qed
qed

lemma sint_cases: "sint v = int (unat v) \<and> sint v \<ge> 0 \<or> sint v < 0 \<and> int (unat (- v)) = - sint v" for v :: u32
proof -
  have lt: "0 \<le> uint v" "uint v < 2 ^ 32" using uint_lt2p [of v] by simp_all
  have s: "sint v = uint v - 2 ^ 32 * of_bool (bit (uint v) 31)"
    using signed_take_bit_eq_take_bit_minus [of 31 "uint v"] take_bit_int_eq_self [of "uint v" 32] lt
    by (simp add: sint_uint)
  show ?thesis
  proof (cases "bit (uint v) 31")
    case True
    then have "uint v \<noteq> 0" by auto
    then have "uint (- v) = 2 ^ 32 - uint v"
      using lt by (simp add: uint_word_ariths zmod_zminus1_eq_if)
    then show ?thesis using s True lt by simp
  next
    case False
    then show ?thesis using s lt by simp
  qed
qed

text \<open>C27. A number printed with \<open>%d\<close> into a buffer of 12 bytes can be read back, except the smallest: its
  sign is changed in the type \<open>long\<close>, where that overflows.\<close>

theorem decimal_reads_back:
  assumes v: "sint v \<noteq> - (2 ^ 31)" and room: "12 \<le> buffer_room buf sz" and mem: "alloc (unat buf) 12 m"
  shows "\<exists>t. rt_snprintf buf sz [37, 100, 0] [Va_int v] m = Some (length t, place (unat buf) (t @ [0]) m) \<and>
     read_int t = sint v"
proof -
  define sg where "sg = (if sint v < 0 then [45 :: u8] else [])"
  define n where "n = (if sint v < 0 then - v else v)"
  define d where "d = rev (if n = 0 then [48] else tmp_digits False 10 n)"
  have "vs_text [37, 100, 0] [Va_int v] = Some (sg @ d)"
    using v by (simp add: parse_spec_def is_digit_def convert_text_def after_spec_def fetch_number_def number_text_def
        print_sign_def sg_def n_def d_def Let_def)
  moreover have len: "length (sg @ d) \<le> 11" using tmp_digits_le_10 [of False 10 n] by (simp add: sg_def d_def)
  moreover have "alloc (unat buf) (min (buffer_room buf sz) (length (sg @ d) + 1)) m"
    using len by (intro alloc_sub [OF mem]) simp_all
  ultimately have "rt_snprintf buf sz [37, 100, 0] [Va_int v] m = Some (length (sg @ d), place (unat buf) ((sg @ d) @ [0]) m)"
    using vsnprintf_text [of buf sz "sg @ d" m "[37, 100, 0]" "[Va_int v]"] room by (simp add: rt_snprintf_def)
  moreover have "read_int (sg @ d) = sint v"
  proof -
    have d: "read_digits 10 d = unat n \<and> (\<forall>c \<in> set d. 48 \<le> c)"
      using tmp_digits_value [of 10 False n] by (auto simp: d_def read_digits_def digit_value_def)
    have "(45 :: u8) \<notin> set d" using d by fastforce
    moreover have "d \<noteq> []" by (simp add: d_def tmp_digits.simps [of _ _ n] split: prod.split)
    ultimately have pos: "read_int d = int (unat n)" using d by (cases d) (auto simp: read_int_def)
    have neg: "read_int (45 # d) = - int (unat n)" using d by (simp add: read_int_def)
    show ?thesis
    proof (cases "sint v < 0")
      case True
      then show ?thesis using neg sint_cases [of v] by (simp add: sg_def n_def)
    next
      case False
      then show ?thesis using pos sint_cases [of v] by (simp add: sg_def n_def)
    qed
  qed
  ultimately show ?thesis by blast
qed


text \<open>Every base but 10 is taken for 16: \<open>%o\<close> prints hexadecimal digits.\<close>

theorem octal_prints_hex:
  "rt_vsnprintf buf sz (37 # 111 # fmt) args m = rt_vsnprintf buf sz (37 # 120 # fmt) args m"
proof -
  have d: "tmp_digits l 8 n = tmp_digits l 16 n" for l n
  proof (induction l "16 :: int" n rule: tmp_digits.induct)
    case (1 l n)
    then show ?case by (subst (1 2) tmp_digits.simps) (simp add: divide_base_def)
  qed
  have "number_text num 8 w p type = number_text num 16 w p type" for num w p type
    unfolding number_text_def d ..
  then have "vs_text (37 # 111 # fmt) args = vs_text (37 # 120 # fmt) args"
    by (simp add: parse_spec_def is_digit_def convert_text_def after_spec_def split: option.split list.split)
  then show ?thesis by (simp add: rt_vsnprintf_def vs_loop_text Let_def)
qed

text \<open>A text that does not fit into the log buffer is sent with the zero behind it.\<close>

theorem kprintf_sends:
  assumes mem: "alloc (unat b) 511 m" "unat b + 511 < 2 ^ 32" and t: "vs_text fmt args = Some t"
  shows "\<exists>m'. rt_kprintf b fmt args m = Some (map Some (if length t < 511 then t else take 510 t @ [0]), m')"
proof -
  have r: "buffer_room b 511 = 511" using mem(2) by (simp add: buffer_room_def)
  have "alloc (unat b) (min (buffer_room b 511) (length t + 1)) m"
    unfolding r by (rule alloc_sub [OF mem(1)]) simp_all
  from vsnprintf_text [OF _ this t]
  have v: "rt_vsnprintf b 511 fmt args m = Some (length t, place (unat b) (take 510 t @ [0]) m)" by (simp add: r)
  have "map (\<lambda>i. place (unat b) u m (unat b + i)) [0..<k] = map Some (take k u)" if "k \<le> length u" for k u
    using that by (intro nth_equalityI) (simp_all add: place_def)
  then show ?thesis using v by (auto simp: rt_kprintf_def)
qed

section \<open>Examples\<close>

definition all_memory :: memory where
  "all_memory = (\<lambda>_. Some 7)"

lemma all_memory_alloc: "alloc p n all_memory"
  by (simp add: alloc_def all_memory_def)


lemma decimal_reads_back_witness:
  "\<exists>t. rt_snprintf 64 20 [37, 100, 0] [Va_int (- 42)] all_memory = Some (length t, place 64 (t @ [0]) all_memory) \<and>
     read_int t = - 42"
  using decimal_reads_back [of "- 42" 64 20 all_memory] by (simp add: buffer_room_def all_memory_alloc)

end
