(* ===== verification/Pins.thy ===== *)
theory Pins
  imports Device
begin

text \<open>
  Pins and their interrupts: \<open>components/drivers/misc/pin.c\<close>, which passes every call to the driver, and
  the driver \<open>libraries/HAL_Drivers/drv_gpio.c\<close>, with the table of the handlers of the sixteen external
  interrupt lines.  The functions of the vendor library are modelled on the registers the driver
  depends on: the mode and the pull of each pin, its output latch, and of each interrupt line the
  port it is connected to, the mask, the edges and the pending bit.
\<close>

section \<open>State\<close>

record rt_pin_irq_hdr =
  irq_pin :: int
  irq_hmode :: u16
  irq_hdr :: "nat option"
  irq_args :: u32

text \<open>Ports and positions are numbers; \<open>g_idr\<close> are the levels at the pins.\<close>

record gpio =
  g_mode :: "nat \<Rightarrow> nat \<Rightarrow> u32"
  g_pull :: "nat \<Rightarrow> nat \<Rightarrow> u32"
  g_odr :: "nat \<Rightarrow> nat \<Rightarrow> bool"
  g_idr :: "nat \<Rightarrow> nat \<Rightarrow> bool"
  exticr :: "nat \<Rightarrow> nat"
  imr :: "nat \<Rightarrow> bool"
  rtsr :: "nat \<Rightarrow> bool"
  ftsr :: "nat \<Rightarrow> bool"
  pend :: "nat \<Rightarrow> bool"
  nvic :: "nat \<Rightarrow> bool"
  hdr_tab :: "rt_pin_irq_hdr list"
  enable_mask :: u32

definition no_hdr :: rt_pin_irq_hdr where
  "no_hdr = \<lparr>irq_pin = -1, irq_hmode = 0, irq_hdr = None, irq_args = 0\<rparr>"

definition PIN_PORT :: "u32 \<Rightarrow> nat" where "PIN_PORT pin = unat (drop_bit 4 pin AND 0xF)"
definition PIN_NO :: "u32 \<Rightarrow> nat" where "PIN_NO pin = unat (pin AND 0xF)"
definition PIN_STPIN :: "u32 \<Rightarrow> u16" where "PIN_STPIN pin = push_bit (PIN_NO pin) 1"

text \<open>The chip has the ports A to I.\<close>

abbreviation (input) PIN_STPORT_MAX :: nat where "PIN_STPORT_MAX \<equiv> 9"

section \<open>The vendor library\<close>

abbreviation (input) GPIO_MODE_INPUT :: u32 where "GPIO_MODE_INPUT \<equiv> 0"
abbreviation (input) GPIO_MODE_OUTPUT_PP :: u32 where "GPIO_MODE_OUTPUT_PP \<equiv> 1"
abbreviation (input) GPIO_MODE_OUTPUT_OD :: u32 where "GPIO_MODE_OUTPUT_OD \<equiv> 0x11"
abbreviation (input) GPIO_MODE_IT_RISING :: u32 where "GPIO_MODE_IT_RISING \<equiv> 0x10110000"
abbreviation (input) GPIO_MODE_IT_FALLING :: u32 where "GPIO_MODE_IT_FALLING \<equiv> 0x10210000"
abbreviation (input) GPIO_MODE_IT_RISING_FALLING :: u32 where "GPIO_MODE_IT_RISING_FALLING \<equiv> 0x10310000"
abbreviation (input) GPIO_NOPULL :: u32 where "GPIO_NOPULL \<equiv> 0"
abbreviation (input) GPIO_PULLUP :: u32 where "GPIO_PULLUP \<equiv> 1"
abbreviation (input) GPIO_PULLDOWN :: u32 where "GPIO_PULLDOWN \<equiv> 2"

text \<open>The output type, the speed and the alternate functions are left out.\<close>

definition HAL_GPIO_Init :: "nat \<Rightarrow> nat \<Rightarrow> u32 \<Rightarrow> u32 \<Rightarrow> gpio \<Rightarrow> gpio" where
  "HAL_GPIO_Init port n mode pull g =
     (let g = g\<lparr>g_mode := (g_mode g)(port := (g_mode g port)(n := mode AND 3)),
                g_pull := (g_pull g)(port := (g_pull g port)(n := pull))\<rparr> in
      if mode AND 0x10000000 = 0x10000000 then
        g\<lparr>exticr := (exticr g)(n := port), imr := (imr g)(n := mode AND 0x10000 = 0x10000),
          rtsr := (rtsr g)(n := mode AND 0x100000 = 0x100000), ftsr := (ftsr g)(n := mode AND 0x200000 = 0x200000)\<rparr>
      else g)"

definition HAL_GPIO_DeInit :: "nat \<Rightarrow> nat \<Rightarrow> gpio \<Rightarrow> gpio" where
  "HAL_GPIO_DeInit port n g =
     (let g = (if exticr g n = port then
                 g\<lparr>exticr := (exticr g)(n := 0), imr := (imr g)(n := False),
                   rtsr := (rtsr g)(n := False), ftsr := (ftsr g)(n := False)\<rparr> else g) in
      g\<lparr>g_mode := (g_mode g)(port := (g_mode g port)(n := 0)), g_pull := (g_pull g)(port := (g_pull g port)(n := 0))\<rparr>)"

definition HAL_GPIO_WritePin :: "nat \<Rightarrow> nat \<Rightarrow> bool \<Rightarrow> gpio \<Rightarrow> gpio" where
  "HAL_GPIO_WritePin port n v g = g\<lparr>g_odr := (g_odr g)(port := (g_odr g port)(n := v))\<rparr>"

section \<open>The driver\<close>

definition stm32_pin_write :: "u32 \<Rightarrow> u32 \<Rightarrow> gpio \<Rightarrow> gpio" where
  "stm32_pin_write pin value g =
     (if PIN_PORT pin < PIN_STPORT_MAX then HAL_GPIO_WritePin (PIN_PORT pin) (PIN_NO pin) (value \<noteq> 0) g else g)"

definition stm32_pin_read :: "u32 \<Rightarrow> gpio \<Rightarrow> int" where
  "stm32_pin_read pin g =
     (if PIN_PORT pin < PIN_STPORT_MAX \<and> g_idr g (PIN_PORT pin) (PIN_NO pin) then 1 else 0)"

definition stm32_pin_mode :: "u32 \<Rightarrow> u32 \<Rightarrow> gpio \<Rightarrow> gpio" where
  "stm32_pin_mode pin mode g =
     (if PIN_PORT pin \<ge> PIN_STPORT_MAX then g
      else let (m, p) = (if mode = 0 then (GPIO_MODE_OUTPUT_PP, GPIO_NOPULL)
                         else if mode = 1 then (GPIO_MODE_INPUT, GPIO_NOPULL)
                         else if mode = 2 then (GPIO_MODE_INPUT, GPIO_PULLUP)
                         else if mode = 3 then (GPIO_MODE_INPUT, GPIO_PULLDOWN)
                         else if mode = 4 then (GPIO_MODE_OUTPUT_OD, GPIO_NOPULL)
                         else (GPIO_MODE_OUTPUT_PP, GPIO_NOPULL)) in
           HAL_GPIO_Init (PIN_PORT pin) (PIN_NO pin) m p g)"

text \<open>The loop that looks for the number of a bit.\<close>

definition bit2bitno :: "u32 \<Rightarrow> int" where
  "bit2bitno b = (case find (\<lambda>i. push_bit i 1 = b) [0..<32] of Some i \<Rightarrow> int i | None \<Rightarrow> -1)"

text \<open>Bits and interrupt numbers of the lines.\<close>

definition pin_irq_map :: "(u32 \<times> nat) list" where
  "pin_irq_map = [(0x1, 6), (0x2, 7), (0x4, 8), (0x8, 9), (0x10, 10), (0x20, 23), (0x40, 23), (0x80, 23),
     (0x100, 23), (0x200, 23), (0x400, 40), (0x800, 40), (0x1000, 40), (0x2000, 40), (0x4000, 40), (0x8000, 40)]"

definition get_pin_irq_map :: "u32 \<Rightarrow> (u32 \<times> nat) option" where
  "get_pin_irq_map b = (let i = bit2bitno b in if i < 0 \<or> i \<ge> 16 then None else Some (pin_irq_map ! nat i))"

definition stm32_pin_attach_irq :: "int \<Rightarrow> u32 \<Rightarrow> nat option \<Rightarrow> u32 \<Rightarrow> gpio \<Rightarrow> rt_err_t \<times> gpio" where
  "stm32_pin_attach_irq pin mode hdr args g =
     (if PIN_PORT (word_of_int pin) \<ge> PIN_STPORT_MAX then (- RT_ENOSYS, g)
      else let i = bit2bitno (ucast (PIN_STPIN (word_of_int pin))) in
        if i < 0 \<or> i \<ge> 16 then (RT_ENOSYS, g)
        else let h = hdr_tab g ! nat i in
          if irq_pin h = pin \<and> irq_hdr h = hdr \<and> ucast (irq_hmode h) = mode \<and> irq_args h = args then (RT_EOK, g)
          else if irq_pin h \<noteq> -1 then (RT_EBUSY, g)
          else (RT_EOK, g\<lparr>hdr_tab := (hdr_tab g)[nat i := \<lparr>irq_pin = sint (word_of_int pin :: u16),
                  irq_hmode = ucast mode, irq_hdr = hdr, irq_args = args\<rparr>]\<rparr>))"

definition stm32_pin_dettach_irq :: "int \<Rightarrow> gpio \<Rightarrow> rt_err_t \<times> gpio" where
  "stm32_pin_dettach_irq pin g =
     (if PIN_PORT (word_of_int pin) \<ge> PIN_STPORT_MAX then (- RT_ENOSYS, g)
      else let i = bit2bitno (ucast (PIN_STPIN (word_of_int pin))) in
        if i < 0 \<or> i \<ge> 16 then (RT_ENOSYS, g)
        else if irq_pin (hdr_tab g ! nat i) = -1 then (RT_EOK, g)
        else (RT_EOK, g\<lparr>hdr_tab := (hdr_tab g)[nat i := no_hdr]\<rparr>))"

text \<open>Enabling configures the pin for the edges its handler was attached for; a mode the \<open>switch\<close> does not
  know leaves the configuration uninitialised.\<close>

definition irq_config :: "u16 \<Rightarrow> (u32 \<times> u32) option" where
  "irq_config mode =
     (if mode = 0 then Some (GPIO_MODE_IT_RISING, GPIO_PULLDOWN)
      else if mode = 1 then Some (GPIO_MODE_IT_FALLING, GPIO_PULLUP)
      else if mode = 2 then Some (GPIO_MODE_IT_RISING_FALLING, GPIO_NOPULL) else None)"

text \<open>The last branch of disabling: an interrupt number that several lines share is switched off with the
  last of them.\<close>

definition nvic_disable :: "u32 \<times> nat \<Rightarrow> gpio \<Rightarrow> gpio" where
  "nvic_disable m g =
     (let off = g\<lparr>nvic := (nvic g)(snd m := False)\<rparr> in
      if 0x20 \<le> fst m \<and> fst m \<le> 0x200 then (if enable_mask g AND 0x3E0 = 0 then off else g)
      else if 0x400 \<le> fst m \<and> fst m \<le> 0x8000 then (if enable_mask g AND 0xFC00 = 0 then off else g)
      else off)"

definition stm32_pin_irq_enable :: "u32 \<Rightarrow> u32 \<Rightarrow> gpio \<Rightarrow> (rt_err_t \<times> gpio) option" where
  "stm32_pin_irq_enable pin enabled g =
     (if PIN_PORT pin \<ge> PIN_STPORT_MAX then Some (- RT_ENOSYS, g)
      else if enabled = 1 then
        (let i = bit2bitno (ucast (PIN_STPIN pin)) in
         if i < 0 \<or> i \<ge> 16 then Some (RT_ENOSYS, g)
         else if irq_pin (hdr_tab g ! nat i) = -1 then Some (RT_ENOSYS, g)
         else do {
           let m = pin_irq_map ! nat i;
           (mode, pull) \<leftarrow> irq_config (irq_hmode (hdr_tab g ! nat i));
           let g = HAL_GPIO_Init (PIN_PORT pin) (PIN_NO pin) mode pull g;
           Some (RT_EOK, g\<lparr>nvic := (nvic g)(snd m := True), enable_mask := enable_mask g OR fst m\<rparr>)
         })
      else if enabled = 0 then
        (case get_pin_irq_map (ucast (PIN_STPIN pin)) of
           None \<Rightarrow> Some (RT_ENOSYS, g)
         | Some m \<Rightarrow>
             (let g = HAL_GPIO_DeInit (PIN_PORT pin) (PIN_NO pin) g;
                  g = g\<lparr>enable_mask := enable_mask g AND NOT (fst m)\<rparr> in
              Some (RT_EOK, nvic_disable m g)))
      else Some (- RT_ENOSYS, g))"

text \<open>The handlers work on the world \<open>w\<close> of the program that attached them; \<open>call h args\<close> is the function
  with the number \<open>h\<close>.\<close>

definition pin_irq_hdr :: "(nat \<Rightarrow> u32 \<Rightarrow> 'w \<Rightarrow> 'w option) \<Rightarrow> nat \<Rightarrow> gpio \<times> 'w \<Rightarrow> (gpio \<times> 'w) option" where
  "pin_irq_hdr call irqno s =
     (let h = hdr_tab (fst s) ! irqno in
      case irq_hdr h of None \<Rightarrow> Some s | Some f \<Rightarrow> map_option (Pair (fst s)) (call f (irq_args h) (snd s)))"

definition HAL_GPIO_EXTI_IRQHandler :: "(nat \<Rightarrow> u32 \<Rightarrow> 'w \<Rightarrow> 'w option) \<Rightarrow> nat \<Rightarrow> gpio \<times> 'w \<Rightarrow> (gpio \<times> 'w) option" where
  "HAL_GPIO_EXTI_IRQHandler call n s =
     (if pend (fst s) n
      then pin_irq_hdr call (nat (bit2bitno (push_bit n 1))) ((fst s)\<lparr>pend := (pend (fst s))(n := False)\<rparr>, snd s)
      else Some s)"

fun exti_lines :: "(nat \<Rightarrow> u32 \<Rightarrow> 'w \<Rightarrow> 'w option) \<Rightarrow> nat list \<Rightarrow> gpio \<times> 'w \<Rightarrow> (gpio \<times> 'w) option" where
  "exti_lines call [] s = Some s"
| "exti_lines call (n # ns) s = Option.bind (HAL_GPIO_EXTI_IRQHandler call n s) (exti_lines call ns)"

text \<open>The interrupt handlers look at their lines one after the other.\<close>

definition exti_handler :: "('w \<Rightarrow> 'w) \<Rightarrow> ('w \<Rightarrow> 'w) \<Rightarrow> (nat \<Rightarrow> u32 \<Rightarrow> 'w \<Rightarrow> 'w option) \<Rightarrow> nat list \<Rightarrow>
    gpio \<times> 'w \<Rightarrow> (gpio \<times> 'w) option" where
  "exti_handler enter leave call ns s = map_option (apsnd leave) (exti_lines call ns (apsnd enter s))"

definition EXTI3_IRQHandler ::
  "('w \<Rightarrow> 'w) \<Rightarrow> ('w \<Rightarrow> 'w) \<Rightarrow> (nat \<Rightarrow> u32 \<Rightarrow> 'w \<Rightarrow> 'w option) \<Rightarrow> gpio \<times> 'w \<Rightarrow> (gpio \<times> 'w) option" where
  "EXTI3_IRQHandler enter leave call = exti_handler enter leave call [3]"

definition EXTI9_5_IRQHandler ::
  "('w \<Rightarrow> 'w) \<Rightarrow> ('w \<Rightarrow> 'w) \<Rightarrow> (nat \<Rightarrow> u32 \<Rightarrow> 'w \<Rightarrow> 'w option) \<Rightarrow> gpio \<times> 'w \<Rightarrow> (gpio \<times> 'w) option" where
  "EXTI9_5_IRQHandler enter leave call = exti_handler enter leave call [5, 6, 7, 8, 9]"

definition EXTI15_10_IRQHandler ::
  "('w \<Rightarrow> 'w) \<Rightarrow> ('w \<Rightarrow> 'w) \<Rightarrow> (nat \<Rightarrow> u32 \<Rightarrow> 'w \<Rightarrow> 'w option) \<Rightarrow> gpio \<times> 'w \<Rightarrow> (gpio \<times> 'w) option" where
  "EXTI15_10_IRQHandler enter leave call = exti_handler enter leave call [10, 11, 12, 13, 14, 15]"

section \<open>The layer above\<close>

text \<open>The functions the driver registered, or nothing before it has; some of them may be missing.\<close>

record rt_pin_ops =
  p_mode :: "u32 \<Rightarrow> u32 \<Rightarrow> gpio \<Rightarrow> gpio"
  p_write :: "u32 \<Rightarrow> u32 \<Rightarrow> gpio \<Rightarrow> gpio"
  p_read :: "u32 \<Rightarrow> gpio \<Rightarrow> int"
  p_attach_irq :: "(int \<Rightarrow> u32 \<Rightarrow> nat option \<Rightarrow> u32 \<Rightarrow> gpio \<Rightarrow> rt_err_t \<times> gpio) option"
  p_detach_irq :: "(int \<Rightarrow> gpio \<Rightarrow> rt_err_t \<times> gpio) option"
  p_irq_enable :: "(u32 \<Rightarrow> u32 \<Rightarrow> gpio \<Rightarrow> (rt_err_t \<times> gpio) option) option"

definition stm32_pin_ops :: rt_pin_ops where
  "stm32_pin_ops = \<lparr>p_mode = stm32_pin_mode, p_write = stm32_pin_write, p_read = stm32_pin_read,
     p_attach_irq = Some stm32_pin_attach_irq, p_detach_irq = Some stm32_pin_dettach_irq,
     p_irq_enable = Some stm32_pin_irq_enable\<rparr>"

definition rt_pin_attach_irq :: "rt_pin_ops option \<Rightarrow> int \<Rightarrow> u32 \<Rightarrow> nat option \<Rightarrow> u32 \<Rightarrow> gpio \<Rightarrow> (rt_err_t \<times> gpio) option" where
  "rt_pin_attach_irq ops pin mode hdr args g =
     (case ops of
        None \<Rightarrow> None
      | Some p \<Rightarrow> (case p_attach_irq p of Some f \<Rightarrow> Some (f pin mode hdr args g) | None \<Rightarrow> Some (RT_ENOSYS, g)))"

definition rt_pin_detach_irq :: "rt_pin_ops option \<Rightarrow> int \<Rightarrow> gpio \<Rightarrow> (rt_err_t \<times> gpio) option" where
  "rt_pin_detach_irq ops pin g =
     (case ops of
        None \<Rightarrow> None
      | Some p \<Rightarrow> (case p_detach_irq p of Some f \<Rightarrow> Some (f pin g) | None \<Rightarrow> Some (RT_ENOSYS, g)))"

definition rt_pin_irq_enable :: "rt_pin_ops option \<Rightarrow> u32 \<Rightarrow> u32 \<Rightarrow> gpio \<Rightarrow> (rt_err_t \<times> gpio) option" where
  "rt_pin_irq_enable ops pin enabled g =
     (case ops of
        None \<Rightarrow> None
      | Some p \<Rightarrow> (case p_irq_enable p of Some f \<Rightarrow> f pin enabled g | None \<Rightarrow> Some (RT_ENOSYS, g)))"

definition rt_pin_mode :: "rt_pin_ops option \<Rightarrow> u32 \<Rightarrow> u32 \<Rightarrow> gpio \<Rightarrow> gpio option" where
  "rt_pin_mode ops pin mode g = map_option (\<lambda>p. p_mode p pin mode g) ops"

definition rt_pin_write :: "rt_pin_ops option \<Rightarrow> u32 \<Rightarrow> u32 \<Rightarrow> gpio \<Rightarrow> gpio option" where
  "rt_pin_write ops pin value g = map_option (\<lambda>p. p_write p pin value g) ops"

definition rt_pin_read :: "rt_pin_ops option \<Rightarrow> u32 \<Rightarrow> gpio \<Rightarrow> int option" where
  "rt_pin_read ops pin g = map_option (\<lambda>p. p_read p pin g) ops"

text \<open>The device behind it.  The buffer of a client holds a pin and a status or a mode; the number of bytes
  must be the size of the pair.\<close>

definition pin_dev_read :: "rt_pin_ops \<Rightarrow> (u16 \<times> u16) option \<Rightarrow> nat \<Rightarrow> gpio \<Rightarrow> (u16 \<times> u16) option \<times> nat" where
  "pin_dev_read ops status n g =
     (case status of
        None \<Rightarrow> (status, 0)
      | Some (pin, _) \<Rightarrow> if n \<noteq> 4 then (status, 0) else (Some (pin, word_of_int (p_read ops (ucast pin) g)), n))"

definition pin_dev_write :: "rt_pin_ops \<Rightarrow> (u16 \<times> u16) option \<Rightarrow> nat \<Rightarrow> gpio \<Rightarrow> nat \<times> gpio" where
  "pin_dev_write ops status n g =
     (case status of
        None \<Rightarrow> (0, g)
      | Some (pin, v) \<Rightarrow> if n \<noteq> 4 then (0, g) else (n, p_write ops (ucast pin) (ucast v) g))"

definition pin_dev_control :: "rt_pin_ops \<Rightarrow> (u16 \<times> u16) option \<Rightarrow> gpio \<Rightarrow> rt_err_t \<times> gpio" where
  "pin_dev_control ops mode g =
     (case mode of None \<Rightarrow> (- RT_ERROR, g) | Some (pin, m) \<Rightarrow> (0, p_mode ops (ucast pin) (ucast m) g))"

text \<open>The result of the registration is ignored.\<close>

definition rt_device_pin_register :: "nat \<Rightarrow> u8 list \<Rightarrow> gpio dev_state \<Rightarrow> (int \<times> gpio dev_state) option" where
  "rt_device_pin_register i name st = do {
     (_, st) \<leftarrow> rt_device_register (Some i) name 3
       (upd_dev (\<lambda>d. d\<lparr>dev_type := 18, rx_indicate := None, tx_complete := None\<rparr>) st);
     Some (0, st)
   }"

definition rt_hw_pin_init :: "nat \<Rightarrow> gpio dev_state \<Rightarrow> (int \<times> gpio dev_state) option" where
  "rt_hw_pin_init i st = rt_device_pin_register i [0x70, 0x69, 0x6E, 0] st"

text \<open>The number \<open>GET_PIN\<close> computes from a port and a position.\<close>

definition GET_PIN :: "nat \<Rightarrow> nat \<Rightarrow> u32" where
  "GET_PIN port n = of_nat (16 * port + n)"

section \<open>Lines\<close>

lemma PIN_NO_less: "PIN_NO pin < 16"
proof -
  have "pin AND 0xF \<le> 0xF" by (rule word_and_le1)
  then show ?thesis by (simp add: PIN_NO_def word_le_nat_alt)
qed

lemma bit2bitno_line: "n < 16 \<Longrightarrow> bit2bitno (push_bit n 1) = int n"
proof -
  assume n: "n < 16"
  have "find (\<lambda>i. push_bit i (1 :: u32) = push_bit n 1) [0..<32] = Some n"
  proof -
    have eq: "push_bit i (1 :: u32) = push_bit n 1 \<longleftrightarrow> i = n" if "i < 32" for i
    proof
      assume "push_bit i (1 :: u32) = push_bit n 1"
      then have "bit (push_bit i (1 :: u32)) i = bit (push_bit n (1 :: u32)) i" by (rule arg_cong)
      then show "i = n" using that by (simp add: bit_simps)
    qed simp
    have "find (\<lambda>i. push_bit i (1 :: u32) = push_bit n 1) [0..<32] = find (\<lambda>i. i = n) [0..<32]"
      by (rule find_cong) (simp_all add: eq del: push_bit_of_1)
    also have "\<dots> = Some n" unfolding find_Some_iff using n by (intro exI [of _ n]) simp
    finally show ?thesis .
  qed
  then show ?thesis by (simp add: bit2bitno_def)
qed

lemma stpin_line: "(ucast (PIN_STPIN pin) :: u32) = push_bit (PIN_NO pin) 1"
  using PIN_NO_less [of pin] by (intro bit_word_eqI) (auto simp: PIN_STPIN_def bit_simps)

lemma bit2bitno_stpin [simp]: "bit2bitno (ucast (PIN_STPIN pin)) = int (PIN_NO pin)"
  by (simp only: stpin_line bit2bitno_line PIN_NO_less)

text \<open>The interrupt number of a line.\<close>

definition line_irq :: "nat \<Rightarrow> nat" where
  "line_irq n = (if n < 5 then 6 + n else if n < 10 then 23 else 40)"

lemma less_16_cases: "n < 16 \<Longrightarrow> P 0 \<Longrightarrow> P 1 \<Longrightarrow> P 2 \<Longrightarrow> P 3 \<Longrightarrow> P 4 \<Longrightarrow> P 5 \<Longrightarrow> P 6 \<Longrightarrow> P 7 \<Longrightarrow> P 8 \<Longrightarrow> P 9 \<Longrightarrow>
    P 10 \<Longrightarrow> P 11 \<Longrightarrow> P 12 \<Longrightarrow> P 13 \<Longrightarrow> P 14 \<Longrightarrow> P 15 \<Longrightarrow> P (n :: nat)"
proof -
  assume n: "n < 16" and P: "P 0" "P 1" "P 2" "P 3" "P 4" "P 5" "P 6" "P 7" "P 8" "P 9" "P 10" "P 11" "P 12" "P 13" "P 14" "P 15"
  have "n \<in> {0, 1, 2, 3, 4, 5, 6, 7, 8, 9, 10, 11, 12, 13, 14, 15}"
    using n unfolding insert_iff empty_iff by presburger
  then show "P n" using P by (elim insertE) simp_all
qed

lemma pin_irq_map_nth: "n < 16 \<Longrightarrow> pin_irq_map ! n = (push_bit n 1, line_irq n)"
  by (erule less_16_cases) (simp_all add: pin_irq_map_def line_irq_def)

text \<open>The interrupt controller lets through exactly the interrupts of the lines that are enabled.\<close>

definition nvic_ok :: "gpio \<Rightarrow> bool" where
  "nvic_ok g \<longleftrightarrow> length (hdr_tab g) = 16 \<and> (\<forall>n. bit (enable_mask g) n \<longrightarrow> n < 16) \<and>
     (\<forall>q. nvic g q \<longleftrightarrow> (\<exists>n<16. bit (enable_mask g) n \<and> line_irq n = q))"

lemma mask_group:
  "m AND 0x3E0 = 0 \<longleftrightarrow> (\<forall>n. 5 \<le> n \<and> n < 10 \<longrightarrow> \<not> bit (m :: u32) n)"
  "m AND 0xFC00 = 0 \<longleftrightarrow> (\<forall>n. 10 \<le> n \<and> n < 16 \<longrightarrow> \<not> bit (m :: u32) n)"
proof -
  have w: "(0x3E0 :: u32) = push_bit 5 (mask 5)" "(0xFC00 :: u32) = push_bit 10 (mask 6)"
    by (simp_all add: mask_eq_exp_minus_1)
  have "bit (m AND push_bit k (mask j)) n \<longleftrightarrow> k \<le> n \<and> n < k + j \<and> bit m n" if "k + j \<le> 32" for k j n
    using that bit_imp_le_length [of m n] by (auto simp: bit_simps less_diff_conv2)
  then have b: "m AND push_bit k (mask j) = 0 \<longleftrightarrow> (\<forall>n. k \<le> n \<and> n < k + j \<longrightarrow> \<not> bit m n)" if "k + j \<le> 32" for k j
    using that by (auto simp: bit_eq_iff)
  show "m AND 0x3E0 = 0 \<longleftrightarrow> (\<forall>n. 5 \<le> n \<and> n < 10 \<longrightarrow> \<not> bit m n)"
    "m AND 0xFC00 = 0 \<longleftrightarrow> (\<forall>n. 10 \<le> n \<and> n < 16 \<longrightarrow> \<not> bit m n)"
    unfolding w by (simp_all add: b)
qed

lemma push_group:
  "n < 16 \<Longrightarrow> (0x20 \<le> (push_bit n 1 :: u32) \<and> (push_bit n 1 :: u32) \<le> 0x200) \<longleftrightarrow> 5 \<le> n \<and> n < 10"
  "n < 16 \<Longrightarrow> (0x400 \<le> (push_bit n 1 :: u32) \<and> (push_bit n 1 :: u32) \<le> 0x8000) \<longleftrightarrow> 10 \<le> n"
  by (erule less_16_cases; simp add: word_le_nat_alt)+

lemma line_irq_eq: "m < 16 \<Longrightarrow> n < 16 \<Longrightarrow> line_irq m = line_irq n \<longleftrightarrow>
    m = n \<or> (5 \<le> m \<and> m < 10 \<and> 5 \<le> n \<and> n < 10) \<or> (10 \<le> m \<and> 10 \<le> n)"
  by (auto simp: line_irq_def)

lemma HAL_keep [simp]:
  "hdr_tab (HAL_GPIO_Init port n m p g) = hdr_tab g" "enable_mask (HAL_GPIO_Init port n m p g) = enable_mask g"
  "nvic (HAL_GPIO_Init port n m p g) = nvic g"
  "hdr_tab (HAL_GPIO_DeInit port n g) = hdr_tab g" "enable_mask (HAL_GPIO_DeInit port n g) = enable_mask g"
  "nvic (HAL_GPIO_DeInit port n g) = nvic g"
  by (simp_all add: HAL_GPIO_Init_def HAL_GPIO_DeInit_def Let_def)

lemma nvic_ok_cong:
  "length (hdr_tab g') = length (hdr_tab g) \<Longrightarrow> enable_mask g' = enable_mask g \<Longrightarrow> nvic g' = nvic g \<Longrightarrow> nvic_ok g' = nvic_ok g"
  by (simp add: nvic_ok_def)

lemma attach_nvic: "nvic_ok (snd (stm32_pin_attach_irq pin mode hdr args g)) = nvic_ok g"
  by (rule nvic_ok_cong) (simp_all add: stm32_pin_attach_irq_def Let_def)

lemma dettach_nvic: "nvic_ok (snd (stm32_pin_dettach_irq pin g)) = nvic_ok g"
  by (rule nvic_ok_cong) (simp_all add: stm32_pin_dettach_irq_def Let_def)

lemma mode_nvic: "nvic_ok (stm32_pin_mode pin mode g) = nvic_ok g"
  by (rule nvic_ok_cong) (simp_all add: stm32_pin_mode_def Let_def)

lemma write_nvic: "nvic_ok (stm32_pin_write pin value g) = nvic_ok g"
  by (rule nvic_ok_cong) (simp_all add: stm32_pin_write_def HAL_GPIO_WritePin_def)

lemma enable_nvic:
  assumes ok: "nvic_ok g" and n: "n < 16"
  shows "nvic_ok (g\<lparr>nvic := (nvic g)(line_irq n := True), enable_mask := enable_mask g OR push_bit n 1\<rparr>)"
proof -
  have b: "bit (enable_mask g OR push_bit n 1) m \<longleftrightarrow> bit (enable_mask g) m \<or> m = n" for m
    using n by (auto simp: bit_simps)
  show ?thesis using ok n by (auto simp: nvic_ok_def b simp del: push_bit_of_1)
qed

lemma disable_nvic:
  assumes ok: "nvic_ok g" and n: "n < 16"
  shows "nvic_ok (nvic_disable (push_bit n 1, line_irq n) (g\<lparr>enable_mask := enable_mask g AND NOT (push_bit n 1)\<rparr>))"
proof -
  define m' where "m' = enable_mask g AND NOT (push_bit n 1 :: u32)"
  have b: "bit m' m \<longleftrightarrow> bit (enable_mask g) m \<and> m \<noteq> n" for m
    using n by (auto simp: m'_def bit_simps dest: bit_imp_le_length)
  have off: "nvic_disable (push_bit n 1, line_irq n) (g\<lparr>enable_mask := m'\<rparr>) =
      (if \<exists>m<16. bit m' m \<and> line_irq m = line_irq n then g\<lparr>enable_mask := m'\<rparr>
       else g\<lparr>enable_mask := m', nvic := (nvic g)(line_irq n := False)\<rparr>)"
  proof -
    have "(\<exists>m<16. bit m' m \<and> line_irq m = line_irq n) \<longleftrightarrow>
        (if 5 \<le> n \<and> n < 10 then m' AND 0x3E0 \<noteq> 0 else if 10 \<le> n then m' AND 0xFC00 \<noteq> 0 else False)"
      using n ok unfolding mask_group by (auto simp: line_irq_eq b nvic_ok_def)
    then show ?thesis using n unfolding nvic_disable_def Let_def fst_conv snd_conv push_group [OF n]
      by (simp del: push_bit_of_1)
  qed
  have "nvic_ok (nvic_disable (push_bit n 1, line_irq n) (g\<lparr>enable_mask := m'\<rparr>))"
    unfolding off using ok n by (auto simp: nvic_ok_def b)
  then show ?thesis by (simp only: m'_def)
qed

lemma irq_enable_nvic:
  assumes "stm32_pin_irq_enable pin e g = Some (r, g')" "nvic_ok g"
  shows "nvic_ok g'"
proof -
  note n = PIN_NO_less [of pin]
  have i: "nvic_ok (HAL_GPIO_Init port k m p g)" "nvic_ok (HAL_GPIO_DeInit port k g)" for port k m p
    by (rule nvic_ok_cong [THEN iffD2, OF _ _ _ assms(2)]; simp)+
  note def = assms(1) [unfolded stm32_pin_irq_enable_def get_pin_irq_map_def Let_def bit2bitno_stpin]
  show ?thesis
  proof (cases "PIN_PORT pin \<ge> PIN_STPORT_MAX \<or> e \<noteq> 0 \<and> e \<noteq> 1")
    case True
    then show ?thesis using def assms(2) by (auto split: if_splits)
  next
    case port: False
    show ?thesis
    proof (cases "e = 1")
      case False
      then have "g' = nvic_disable (push_bit (PIN_NO pin) 1, line_irq (PIN_NO pin))
        ((HAL_GPIO_DeInit (PIN_PORT pin) (PIN_NO pin) g)\<lparr>enable_mask := enable_mask g AND NOT (push_bit (PIN_NO pin) 1)\<rparr>)"
        using def n port by (simp add: pin_irq_map_nth del: push_bit_of_1)
      then show ?thesis using disable_nvic [OF i(2) n, of "PIN_PORT pin" "PIN_NO pin"] by (simp only: HAL_keep)
    next
      case e: True
      show ?thesis
      proof (cases "irq_pin (hdr_tab g ! PIN_NO pin) = -1")
        case True
        then show ?thesis using def assms(2) port e n by simp
      next
        case False
        then obtain m p where "irq_config (irq_hmode (hdr_tab g ! PIN_NO pin)) = Some (m, p)"
          using def port e n by (auto simp: Option.bind_eq_Some_conv)
        then have "g' = (HAL_GPIO_Init (PIN_PORT pin) (PIN_NO pin) m p g)
          \<lparr>nvic := (nvic g)(line_irq (PIN_NO pin) := True), enable_mask := enable_mask g OR push_bit (PIN_NO pin) 1\<rparr>"
          using def port e n False by (simp add: pin_irq_map_nth del: push_bit_of_1)
        then show ?thesis using enable_nvic [OF i(1) n, of "PIN_PORT pin" "PIN_NO pin" m p] by (simp only: HAL_keep)
      qed
    qed
  qed
qed

text \<open>The calls of the clients of the pins.\<close>

inductive pin_step :: "gpio \<Rightarrow> gpio \<Rightarrow> bool" where
  attach: "stm32_pin_attach_irq pin mode hdr args g = (r, g') \<Longrightarrow> pin_step g g'"
| detach: "stm32_pin_dettach_irq pin g = (r, g') \<Longrightarrow> pin_step g g'"
| irq: "stm32_pin_irq_enable pin' e g = Some (r, g') \<Longrightarrow> pin_step g g'"
| mode: "pin_step g (stm32_pin_mode pin' m g)"
| written: "pin_step g (stm32_pin_write pin' v g)"
| levels: "pin_step g (g\<lparr>g_idr := l, pend := p\<rparr>)"

text \<open>C39. Through any sequence of calls the interrupt controller lets through exactly the interrupts of the lines
  that are enabled, although lines 5 to 9 and 10 to 15 share one each.\<close>

theorem pin_interrupts_enabled:
  assumes "pin_step\<^sup>*\<^sup>* g g'" "nvic_ok g"
  shows "nvic_ok g'"
  using assms
proof (induction rule: rtranclp_induct)
  case (step a b)
  from step.hyps(2) step.IH [OF step.prems] show ?case
  proof (cases rule: pin_step.cases)
    case (attach pin mode hdr args r)
    then show ?thesis using attach_nvic [of pin mode hdr args a] step.IH [OF step.prems] by simp
  next
    case (detach pin r)
    then show ?thesis using dettach_nvic [of pin a] step.IH [OF step.prems] by simp
  next
    case (irq pin' e r)
    then show ?thesis using irq_enable_nvic step.IH [OF step.prems] by blast
  next
    case (levels l p)
    then show ?thesis using step.IH [OF step.prems] by (simp add: nvic_ok_def)
  qed (use step.IH [OF step.prems] in \<open>simp_all add: mode_nvic write_nvic\<close>)
qed simp

section \<open>Handlers\<close>

text \<open>A pin number as the table can hold it.\<close>

definition pin_ok :: "int \<Rightarrow> bool" where
  "pin_ok pin \<longleftrightarrow> 0 \<le> pin \<and> pin < 2 ^ 15 \<and> PIN_PORT (word_of_int pin) < PIN_STPORT_MAX"

lemma attach_free:
  assumes "pin_ok pin" "length (hdr_tab g) = 16" "irq_pin (hdr_tab g ! PIN_NO (word_of_int pin)) = -1"
  shows "stm32_pin_attach_irq pin mode hdr args g = (RT_EOK, g\<lparr>hdr_tab := (hdr_tab g)[PIN_NO (word_of_int pin) :=
    \<lparr>irq_pin = pin, irq_hmode = ucast mode, irq_hdr = hdr, irq_args = args\<rparr>]\<rparr>)"
proof -
  have "sint (word_of_int pin :: u16) = pin"
    using assms(1) by (simp add: pin_ok_def sint_sbintrunc' signed_take_bit_int_eq_self)
  then show ?thesis
    using assms PIN_NO_less [of "word_of_int pin"]
    by (auto simp: stm32_pin_attach_irq_def Let_def pin_ok_def not_less [symmetric])
qed

text \<open>A handler that is attached to a free line is called, with its argument, when the line's interrupt is
  pending, and the pending bit is cleared.\<close>

theorem attached_handler_runs:
  assumes "pin_ok pin" "nvic_ok g" "irq_pin (hdr_tab g ! PIN_NO (word_of_int pin)) = -1"
    and "pend g (PIN_NO (word_of_int pin))"
  shows "\<exists>g'. stm32_pin_attach_irq pin mode (Some h) args g = (RT_EOK, g') \<and>
    HAL_GPIO_EXTI_IRQHandler call (PIN_NO (word_of_int pin)) (g', w) =
      map_option (Pair (g'\<lparr>pend := (pend g')(PIN_NO (word_of_int pin) := False)\<rparr>)) (call h args w)"
proof -
  have n: "length (hdr_tab g) = 16" using assms(2) by (simp add: nvic_ok_def)
  show ?thesis
    using attach_free [OF assms(1) n assms(3), of mode "Some h" args] assms(4) n PIN_NO_less [of "word_of_int pin"]
    by (simp add: HAL_GPIO_EXTI_IRQHandler_def pin_irq_hdr_def bit2bitno_line del: push_bit_of_1)
qed

text \<open>Pins of different ports share a line.  While one of them has a handler, the other cannot attach one, and
  is told so by a positive number; but it can take the line away: detaching it removes the handler of
  the first, and enabling it connects the line to its own port with the first one's handler.\<close>

theorem line_taken_away:
  assumes "pin_ok pin" "pin_ok pin'" "pin \<noteq> pin'" "PIN_NO (word_of_int pin) = PIN_NO (word_of_int pin')"
    and "nvic_ok g" "hdr_tab g ! PIN_NO (word_of_int pin) = \<lparr>irq_pin = pin, irq_hmode = mode, irq_hdr = Some h, irq_args = a\<rparr>"
    and "unat mode < 3"
  shows "stm32_pin_attach_irq pin' m hdr b g = (RT_EBUSY, g) \<and>
    (\<exists>g'. stm32_pin_dettach_irq pin' g = (RT_EOK, g') \<and> hdr_tab g' ! PIN_NO (word_of_int pin) = no_hdr) \<and>
    (\<exists>g'. stm32_pin_irq_enable (word_of_int pin') 1 g = Some (RT_EOK, g') \<and>
      exticr g' (PIN_NO (word_of_int pin)) = PIN_PORT (word_of_int pin') \<and>
      irq_hdr (hdr_tab g' ! PIN_NO (word_of_int pin)) = Some h)"
proof -
  let ?n = "PIN_NO (word_of_int pin)"
  have n: "?n < 16" "?n < length (hdr_tab g)" using PIN_NO_less assms(5) by (simp_all add: nvic_ok_def)
  have p: "pin \<noteq> -1" "PIN_PORT (word_of_int pin') < 9" using assms(1,2) by (auto simp: pin_ok_def)
  have "mode = 0 \<or> mode = 1 \<or> mode = 2"
  proof -
    have "unat mode = 0 \<or> unat mode = 1 \<or> unat mode = 2" using assms(7) by linarith
    then show ?thesis by (simp add: word_unat_eq_iff)
  qed
  then have c: "irq_config mode \<in> Some ` {(GPIO_MODE_IT_RISING, GPIO_PULLDOWN), (GPIO_MODE_IT_FALLING, GPIO_PULLUP),
      (GPIO_MODE_IT_RISING_FALLING, GPIO_NOPULL)}"
    by (auto simp: irq_config_def)
  have "stm32_pin_attach_irq pin' m hdr b g = (RT_EBUSY, g)"
    using p n assms(3,4,6) by (simp add: stm32_pin_attach_irq_def Let_def)
  moreover have "\<exists>g'. stm32_pin_dettach_irq pin' g = (RT_EOK, g') \<and> hdr_tab g' ! ?n = no_hdr"
    using p n assms(4,6) by (simp add: stm32_pin_dettach_irq_def Let_def)
  moreover have "\<exists>g'. stm32_pin_irq_enable (word_of_int pin') 1 g = Some (RT_EOK, g') \<and>
      exticr g' ?n = PIN_PORT (word_of_int pin') \<and> irq_hdr (hdr_tab g' ! ?n) = Some h"
    using p n c assms(4,6) by (auto simp: stm32_pin_irq_enable_def Let_def HAL_GPIO_Init_def)
  ultimately show ?thesis by blast
qed

end
