(* ===== verification/Inputs.thy ===== *)
theory Inputs
  imports Controller Pins
begin

text \<open>
  The inputs of the charger: \<open>pin_setting\<close> of \<open>applications/main.c\<close> on the modelled pins, the way of a zero
  crossing from the external interrupt to the callbacks of the controller, and the levels its inputs
  thread reads.
\<close>

section \<open>The pins of the application\<close>

definition GPIO_PHASE_U :: u32 where "GPIO_PHASE_U = GET_PIN 0 15"
definition GPIO_PHASE_V :: u32 where "GPIO_PHASE_V = GET_PIN 1 3"
definition GPIO_PHASE_W :: u32 where "GPIO_PHASE_W = GET_PIN 1 14"
definition GPIO_MI1 :: u32 where "GPIO_MI1 = GET_PIN 5 0"
definition GPIO_MI2 :: u32 where "GPIO_MI2 = GET_PIN 5 1"
definition GPIO_MO1 :: u32 where "GPIO_MO1 = GET_PIN 6 0"

text \<open>The numbers that stand for the callbacks, and the functions they stand for.\<close>

definition phase_call :: "nat \<Rightarrow> u32 \<Rightarrow> app \<Rightarrow> app option" where
  "phase_call h args a = (if h = 1 then PHASE_U_cb a else if h = 2 then PHASE_V_cb a else if h = 3 then PHASE_W_cb a else None)"

definition pin_setting :: "rt_pin_ops option \<Rightarrow> gpio \<Rightarrow> (int \<times> gpio) option" where
  "pin_setting ops g = do {
     g \<leftarrow> rt_pin_mode ops GPIO_PHASE_U 2 g;
     g \<leftarrow> rt_pin_mode ops GPIO_PHASE_V 2 g;
     g \<leftarrow> rt_pin_mode ops GPIO_PHASE_W 2 g;
     g \<leftarrow> rt_pin_mode ops GPIO_MI1 2 g;
     g \<leftarrow> rt_pin_mode ops GPIO_MI2 2 g;
     g \<leftarrow> rt_pin_mode ops GPIO_MO1 0 g;
     (status, g) \<leftarrow> rt_pin_attach_irq ops (uint GPIO_PHASE_U) 2 (Some 1) 0 g;
     rt_assert (status = RT_EOK);
     (status, g) \<leftarrow> rt_pin_attach_irq ops (uint GPIO_PHASE_V) 2 (Some 2) 0 g;
     rt_assert (status = RT_EOK);
     (status, g) \<leftarrow> rt_pin_attach_irq ops (uint GPIO_PHASE_W) 2 (Some 3) 0 g;
     rt_assert (status = RT_EOK);
     (_, g) \<leftarrow> rt_pin_irq_enable ops GPIO_PHASE_U 1 g;
     (_, g) \<leftarrow> rt_pin_irq_enable ops GPIO_PHASE_V 1 g;
     (_, g) \<leftarrow> rt_pin_irq_enable ops GPIO_PHASE_W 1 g;
     g \<leftarrow> rt_pin_write ops GPIO_MO1 0 g;
     Some (0, g)
   }"

text \<open>The levels \<open>read_all_pin\<close> reads.\<close>

definition input_levels :: "gpio \<Rightarrow> bool list" where
  "input_levels g = map (\<lambda>pin. stm32_pin_read pin g \<noteq> 0) [GPIO_PHASE_U, GPIO_PHASE_V, GPIO_PHASE_W, GPIO_MI1, GPIO_MI2]"

lemma app_pins [simp]:
  "PIN_PORT GPIO_PHASE_U = 0" "PIN_PORT GPIO_PHASE_V = 1" "PIN_PORT GPIO_PHASE_W = 1" "PIN_PORT GPIO_MI1 = 5"
  "PIN_PORT GPIO_MI2 = 5" "PIN_PORT GPIO_MO1 = 6" "PIN_NO GPIO_PHASE_U = 15" "PIN_NO GPIO_PHASE_V = 3"
  "PIN_NO GPIO_PHASE_W = 14" "PIN_NO GPIO_MI1 = 0" "PIN_NO GPIO_MI2 = 1" "PIN_NO GPIO_MO1 = 0"
  by (simp_all add: PIN_PORT_def PIN_NO_def GPIO_PHASE_U_def GPIO_PHASE_V_def GPIO_PHASE_W_def GPIO_MI1_def GPIO_MI2_def
      GPIO_MO1_def GET_PIN_def)

section \<open>Setting the pins\<close>

text \<open>The entries of the table of handlers the application makes.\<close>

definition app_hdr :: "u32 \<Rightarrow> nat \<Rightarrow> rt_pin_irq_hdr" where
  "app_hdr pin h = \<lparr>irq_pin = uint pin, irq_hmode = 2, irq_hdr = Some h, irq_args = 0\<rparr>"

definition app_hdr_tab :: "rt_pin_irq_hdr list" where
  "app_hdr_tab = (replicate 16 no_hdr)[15 := app_hdr GPIO_PHASE_U 1, 3 := app_hdr GPIO_PHASE_V 2, 14 := app_hdr GPIO_PHASE_W 3]"

lemma app_hdr_nth [simp]:
  "app_hdr_tab ! 3 = app_hdr GPIO_PHASE_V 2" "app_hdr_tab ! 14 = app_hdr GPIO_PHASE_W 3" "app_hdr_tab ! 15 = app_hdr GPIO_PHASE_U 1"
  "app_hdr_tab ! 10 = no_hdr" "app_hdr_tab ! 11 = no_hdr" "app_hdr_tab ! 12 = no_hdr" "app_hdr_tab ! 13 = no_hdr"
  by (simp_all add: app_hdr_tab_def)

lemma app_pin_ok: "pin_ok (uint GPIO_PHASE_U)" "pin_ok (uint GPIO_PHASE_V)" "pin_ok (uint GPIO_PHASE_W)"
  by (simp_all add: pin_ok_def) (simp_all add: GPIO_PHASE_U_def GPIO_PHASE_V_def GPIO_PHASE_W_def GET_PIN_def)

lemma attach_app:
  assumes "pin_ok (uint pin)" "length (hdr_tab g) = 16" "hdr_tab g ! PIN_NO pin = no_hdr"
  shows "stm32_pin_attach_irq (uint pin) 2 (Some h) 0 g = (RT_EOK, g\<lparr>hdr_tab := (hdr_tab g)[PIN_NO pin := app_hdr pin h]\<rparr>)"
  using attach_free [of "uint pin" g 2 "Some h" 0] assms by (simp add: app_hdr_def no_hdr_def)

lemma enable_app:
  assumes "PIN_PORT pin < PIN_STPORT_MAX" "hdr_tab g ! PIN_NO pin = app_hdr p h" "irq_pin (app_hdr p h) \<noteq> -1"
  shows "stm32_pin_irq_enable pin 1 g = Some (RT_EOK, (HAL_GPIO_Init (PIN_PORT pin) (PIN_NO pin) GPIO_MODE_IT_RISING_FALLING GPIO_NOPULL g)
     \<lparr>nvic := (nvic g)(line_irq (PIN_NO pin) := True), enable_mask := enable_mask g OR push_bit (PIN_NO pin) 1\<rparr>)"
  using assms PIN_NO_less [of pin]
  by (simp add: stm32_pin_irq_enable_def Let_def pin_irq_map_nth app_hdr_def irq_config_def not_le [symmetric] del: push_bit_of_1)

text \<open>A line that reports both edges of a pin.\<close>

definition line_ready :: "gpio \<Rightarrow> u32 \<Rightarrow> bool" where
  "line_ready g pin \<longleftrightarrow> exticr g (PIN_NO pin) = PIN_PORT pin \<and> imr g (PIN_NO pin) \<and> rtsr g (PIN_NO pin) \<and> ftsr g (PIN_NO pin) \<and>
     nvic g (line_irq (PIN_NO pin)) \<and> g_pull g (PIN_PORT pin) (PIN_NO pin) = GPIO_NOPULL"

lemma pin_setting_result:
  assumes tab: "hdr_tab g = replicate 16 no_hdr"
  shows "\<exists>g'. pin_setting (Some stm32_pin_ops) g = Some (0, g') \<and> hdr_tab g' = app_hdr_tab \<and>
    line_ready g' GPIO_PHASE_U \<and> line_ready g' GPIO_PHASE_V \<and> line_ready g' GPIO_PHASE_W \<and> \<not> g_odr g' 6 0"
proof -
  define g1 where "g1 = stm32_pin_mode GPIO_MO1 0 (stm32_pin_mode GPIO_MI2 2 (stm32_pin_mode GPIO_MI1 2
    (stm32_pin_mode GPIO_PHASE_W 2 (stm32_pin_mode GPIO_PHASE_V 2 (stm32_pin_mode GPIO_PHASE_U 2 g)))))"
  have t1: "hdr_tab g1 = replicate 16 no_hdr" using tab by (simp add: g1_def stm32_pin_mode_def Let_def)
  define g2 where "g2 = g1\<lparr>hdr_tab := app_hdr_tab\<rparr>"
  note ops = rt_pin_mode_def rt_pin_attach_irq_def rt_pin_irq_enable_def rt_pin_write_def stm32_pin_ops_def
  have u: "irq_pin (app_hdr GPIO_PHASE_U 1) \<noteq> -1" "irq_pin (app_hdr GPIO_PHASE_V 2) \<noteq> -1" "irq_pin (app_hdr GPIO_PHASE_W 3) \<noteq> -1"
    by (simp_all add: app_hdr_def GPIO_PHASE_U_def GPIO_PHASE_V_def GPIO_PHASE_W_def GET_PIN_def)
  define init where "init pin g = (HAL_GPIO_Init (PIN_PORT pin) (PIN_NO pin) GPIO_MODE_IT_RISING_FALLING GPIO_NOPULL g)
     \<lparr>nvic := (nvic g)(line_irq (PIN_NO pin) := True), enable_mask := enable_mask g OR push_bit (PIN_NO pin) 1\<rparr>" for pin g
  have it: "hdr_tab (init pin g) = hdr_tab g" for pin g by (simp add: init_def)
  define g3 where "g3 = init GPIO_PHASE_W (init GPIO_PHASE_V (init GPIO_PHASE_U g2))"
  have "pin_setting (Some stm32_pin_ops) g = Some (0, stm32_pin_write GPIO_MO1 0 g3)"
    using attach_app [OF app_pin_ok(1), of g1] attach_app [OF app_pin_ok(2), of "g1\<lparr>hdr_tab := (hdr_tab g1)[15 := app_hdr GPIO_PHASE_U 1]\<rparr>"]
      attach_app [OF app_pin_ok(3), of "g1\<lparr>hdr_tab := (hdr_tab g1)[15 := app_hdr GPIO_PHASE_U 1, 3 := app_hdr GPIO_PHASE_V 2]\<rparr>"]
      enable_app [of GPIO_PHASE_U g2, OF _ _ u(1), folded init_def] enable_app [of GPIO_PHASE_V "init GPIO_PHASE_U g2", OF _ _ u(2), folded init_def]
      enable_app [of GPIO_PHASE_W "init GPIO_PHASE_V (init GPIO_PHASE_U g2)", OF _ _ u(3), folded init_def] t1
    by (simp add: pin_setting_def ops rt_assert_def it g3_def flip: g1_def) (simp add: g2_def app_hdr_tab_def it)
  moreover have "line_ready (stm32_pin_write GPIO_MO1 0 g3) pin" if "pin \<in> {GPIO_PHASE_U, GPIO_PHASE_V, GPIO_PHASE_W}" for pin
    using that by (auto simp: line_ready_def stm32_pin_write_def HAL_GPIO_WritePin_def g3_def init_def HAL_GPIO_Init_def line_irq_def)
  moreover have "hdr_tab (stm32_pin_write GPIO_MO1 0 g3) = app_hdr_tab" "\<not> g_odr (stm32_pin_write GPIO_MO1 0 g3) 6 0"
    by (simp_all add: stm32_pin_write_def HAL_GPIO_WritePin_def g3_def it g2_def)
  ultimately show ?thesis by blast
qed

section \<open>Zero crossings\<close>

definition app_enter :: "app \<Rightarrow> app" where "app_enter a = a\<lparr>ker := rt_interrupt_enter (ker a)\<rparr>"
definition app_leave :: "app \<Rightarrow> app" where "app_leave a = a\<lparr>ker := rt_interrupt_leave (ker a)\<rparr>"

lemma enter_leave [simp]: "app_enter (app_leave a) = a" "app_leave (app_enter a) = a"
  by (simp_all add: app_enter_def app_leave_def rt_interrupt_enter_def rt_interrupt_leave_def)

lemma in_isr_eq: "in_isr f a = map_option app_leave (f (app_enter a))"
  by (simp add: in_isr_def app_enter_def app_leave_def map_conv_bind_option comp_def)

definition phase_irq_v :: "gpio \<times> app \<Rightarrow> (gpio \<times> app) option" where
  "phase_irq_v = EXTI3_IRQHandler app_enter app_leave phase_call"

definition phase_irq_uw :: "gpio \<times> app \<Rightarrow> (gpio \<times> app) option" where
  "phase_irq_uw = EXTI15_10_IRQHandler app_enter app_leave phase_call"

definition clear :: "nat set \<Rightarrow> gpio \<Rightarrow> gpio" where
  "clear N g = g\<lparr>pend := (\<lambda>n. n \<notin> N \<and> pend g n)\<rparr>"

lemma clear_clear [simp]: "clear M (clear N g) = clear (N \<union> M) g"
proof -
  have "(\<lambda>n. n \<notin> M \<and> n \<notin> N \<and> pend g n) = (\<lambda>n. n \<notin> N \<union> M \<and> pend g n)" by auto
  then show ?thesis by (simp add: clear_def)
qed

lemma clear_sel [simp]: "hdr_tab (clear N g) = hdr_tab g" "pend (clear N g) n \<longleftrightarrow> n \<notin> N \<and> pend g n"
  by (simp_all add: clear_def)

text \<open>What a line of the application calls.\<close>

definition line_call :: "nat \<Rightarrow> app \<Rightarrow> app option" where
  "line_call n a = (if n = 3 then PHASE_V_cb a else if n = 14 then PHASE_W_cb a else if n = 15 then PHASE_U_cb a else Some a)"

lemma app_line:
  assumes "hdr_tab g = app_hdr_tab" "n \<in> {3, 10, 11, 12, 13, 14, 15}"
  shows "exti_lines phase_call (n # ns) (g, a) =
    Option.bind (if pend g n then line_call n a else Some a) (\<lambda>a. exti_lines phase_call ns (clear {n} g, a))"
proof -
  have c: "clear {n} g = g" if "\<not> pend g n"
  proof -
    have "(\<lambda>m. m \<notin> {n} \<and> pend g m) = pend g" using that by auto
    then show ?thesis by (simp add: clear_def)
  qed
  have "(pend g)(n := False) = (\<lambda>m. m \<notin> {n} \<and> pend g m)" by (intro ext) simp
  then have p: "g\<lparr>pend := (pend g)(n := False)\<rparr> = clear {n} g" by (simp only: clear_def)
  have "n < 16" using assms(2) by auto
  then have h: "HAL_GPIO_EXTI_IRQHandler phase_call n (g, a) =
      (if pend g n then pin_irq_hdr phase_call n (clear {n} g, a) else Some (g, a))"
    unfolding HAL_GPIO_EXTI_IRQHandler_def by (simp add: bit2bitno_line p del: push_bit_of_1)
  have "pin_irq_hdr phase_call n (clear {n} g, a) = map_option (Pair (clear {n} g)) (line_call n a)"
    using assms by (auto simp: pin_irq_hdr_def app_hdr_def phase_call_def no_hdr_def line_call_def)
  then show ?thesis using c h by (cases "line_call n a") auto
qed

lemma phase_irq_v_eq:
  assumes "hdr_tab g = app_hdr_tab"
  shows "phase_irq_v (g, a) = map_option (Pair (clear {3} g)) (if pend g 3 then in_isr PHASE_V_cb a else Some a)"
  using app_line [OF assms, of 3 "[]" "app_enter a"]
  by (cases "PHASE_V_cb (app_enter a)")
    (auto simp: phase_irq_v_def EXTI3_IRQHandler_def exti_handler_def in_isr_eq line_call_def simp del: exti_lines.simps(2))

text \<open>The lines 14 and 15 share an interrupt; phase W is served before phase U.\<close>

lemma phase_irq_uw_eq:
  assumes "hdr_tab g = app_hdr_tab"
  shows "phase_irq_uw (g, a) = map_option (Pair (clear {10, 11, 12, 13, 14, 15} g))
    (Option.bind (if pend g 14 then in_isr PHASE_W_cb a else Some a)
      (\<lambda>a. if pend g 15 then in_isr PHASE_U_cb a else Some a))"
proof -
  have n: "{10, 11, 12, 13, 14, 15} = {15, 14, 13, 12, 11, 10 :: nat}" by auto
  have r: "exti_lines phase_call [10, 11, 12, 13, 14, 15] (g, b) =
      (Option.bind (if pend g 14 then PHASE_W_cb b else Some b)
        (\<lambda>b. map_option (Pair (clear {10, 11, 12, 13, 14, 15} g)) (if pend g 15 then PHASE_U_cb b else Some b)))" for b
    using assms unfolding n
    by (simp add: app_line line_call_def map_conv_bind_option comp_def del: exti_lines.simps(2))
  show ?thesis
    unfolding phase_irq_uw_def EXTI15_10_IRQHandler_def exti_handler_def apsnd_conv r in_isr_eq
    by (cases "PHASE_W_cb (app_enter a)") (simp_all add: option.map_comp comp_def)
qed

text \<open>C9. After the application has set its pins, a zero crossing of each phase is, through the external
  interrupt and the table of handlers, exactly one call of the callback of its phase; when U and W are
  pending together, W is served first.\<close>

theorem zero_crossings_reach_callbacks:
  assumes "hdr_tab g0 = replicate 16 no_hdr"
  shows "\<exists>g1. pin_setting (Some stm32_pin_ops) g0 = Some (0, g1) \<and> hdr_tab g1 = app_hdr_tab \<and>
    line_ready g1 GPIO_PHASE_U \<and> line_ready g1 GPIO_PHASE_V \<and> line_ready g1 GPIO_PHASE_W \<and>
    (\<forall>g a. hdr_tab g = hdr_tab g1 \<longrightarrow>
      phase_irq_v (g, a) = map_option (Pair (clear {3} g)) (if pend g 3 then in_isr PHASE_V_cb a else Some a) \<and>
      phase_irq_uw (g, a) = map_option (Pair (clear {10, 11, 12, 13, 14, 15} g))
        (Option.bind (if pend g 14 then in_isr PHASE_W_cb a else Some a) (\<lambda>a. if pend g 15 then in_isr PHASE_U_cb a else Some a)))"
proof -
  obtain g1 where g1: "pin_setting (Some stm32_pin_ops) g0 = Some (0, g1)" "hdr_tab g1 = app_hdr_tab"
      "line_ready g1 GPIO_PHASE_U" "line_ready g1 GPIO_PHASE_V" "line_ready g1 GPIO_PHASE_W"
    using pin_setting_result [OF assms] by blast
  show ?thesis using phase_irq_v_eq phase_irq_uw_eq g1(2) by (intro exI [of _ g1]) (simp add: g1)
qed

end
