(* ===== verification/PwmDriver.thy ===== *)
theory PwmDriver
  imports Device
begin

text \<open>
  Pulse width modulation: the device layer of \<open>components/drivers/misc/rt_drv_pwm.c\<close> and the driver
  \<open>libraries/HAL_Drivers/drv_pwm.c\<close>, which turns periods and pulses in nanoseconds into the prescaler,
  reload and compare registers of a timer.  The clocks are functions of the vendor library and
  arguments here; its register macros and the start and stop of a channel are modelled.
\<close>

section \<open>The timer\<close>

type_synonym u64 = "64 word"

text \<open>The registers the drivers use, the period the vendor's handle remembers, and the number of the
  timer.  \<open>ccr\<close> holds the compare registers 1 to 4.\<close>

record tim_regs =
  tim_no :: nat
  cr1 :: u32
  smcr :: u32
  ccer :: u32
  bdtr :: u32
  egr :: u32
  psc :: u32
  arr :: u32
  cnt :: u32
  ccr :: "nat \<Rightarrow> u32"
  init_period :: u32

record rt_pwm_configuration =
  pwm_channel :: u32
  pwm_period :: u32
  pwm_pulse :: u32

text \<open>The frequencies \<open>HAL_RCC_GetPCLK1Freq\<close> and \<open>HAL_RCC_GetPCLK2Freq\<close> report.\<close>

record rcc =
  pclk1 :: u32
  pclk2 :: u32

abbreviation (input) MAX_PERIOD :: u32 where "MAX_PERIOD \<equiv> 65535"
abbreviation (input) MIN_PERIOD :: u32 where "MIN_PERIOD \<equiv> 3"
abbreviation (input) MIN_PULSE :: u32 where "MIN_PULSE \<equiv> 1"
abbreviation (input) TIM_CR1_CEN :: u32 where "TIM_CR1_CEN \<equiv> 0x1"
abbreviation (input) TIM_CR1_URS :: u32 where "TIM_CR1_URS \<equiv> 0x4"
abbreviation (input) TIM_CR1_CKD :: u32 where "TIM_CR1_CKD \<equiv> 0x300"
abbreviation (input) TIM_CLOCKDIVISION_DIV2 :: u32 where "TIM_CLOCKDIVISION_DIV2 \<equiv> 0x100"
abbreviation (input) TIM_CLOCKDIVISION_DIV4 :: u32 where "TIM_CLOCKDIVISION_DIV4 \<equiv> 0x200"
abbreviation (input) TIM_BDTR_MOE :: u32 where "TIM_BDTR_MOE \<equiv> 0x8000"
abbreviation (input) TIM_CCER_CCxE_MASK :: u32 where "TIM_CCER_CCxE_MASK \<equiv> 0x1111"
abbreviation (input) TIM_CCER_CCxNE_MASK :: u32 where "TIM_CCER_CCxNE_MASK \<equiv> 0x444"
abbreviation (input) TIM_SLAVEMODE_TRIGGER :: u32 where "TIM_SLAVEMODE_TRIGGER \<equiv> 0x6"
abbreviation (input) TIM_EVENTSOURCE_UPDATE :: u32 where "TIM_EVENTSOURCE_UPDATE \<equiv> 0x1"

text \<open>The compare register a channel offset of the vendor library selects.\<close>

definition ccr_no :: "u32 \<Rightarrow> nat" where
  "ccr_no channel = (if channel = 0 then 1 else if channel = 4 then 2 else if channel = 8 then 3 else 4)"

definition TIM_CCxChannelCmd :: "u32 \<Rightarrow> u32 \<Rightarrow> tim_regs \<Rightarrow> tim_regs" where
  "TIM_CCxChannelCmd channel state r =
     (let n = unat (channel AND 0x1F); tmp = push_bit n 1;
          e = ccer r AND NOT tmp in
      r\<lparr>ccer := e OR push_bit n state\<rparr>)"

definition is_break_instance :: "tim_regs \<Rightarrow> bool" where
  "is_break_instance r \<longleftrightarrow> tim_no r = 1 \<or> tim_no r = 8"

definition HAL_TIM_PWM_Start :: "u32 \<Rightarrow> tim_regs \<Rightarrow> tim_regs" where
  "HAL_TIM_PWM_Start channel r =
     (let r = TIM_CCxChannelCmd channel 1 r;
          r = (if is_break_instance r then r\<lparr>bdtr := bdtr r OR TIM_BDTR_MOE\<rparr> else r) in
      if smcr r AND 0x7 \<noteq> TIM_SLAVEMODE_TRIGGER then r\<lparr>cr1 := cr1 r OR TIM_CR1_CEN\<rparr> else r)"

definition all_channels_off :: "tim_regs \<Rightarrow> bool" where
  "all_channels_off r \<longleftrightarrow> ccer r AND TIM_CCER_CCxE_MASK = 0 \<and> ccer r AND TIM_CCER_CCxNE_MASK = 0"

definition HAL_TIM_PWM_Stop :: "u32 \<Rightarrow> tim_regs \<Rightarrow> tim_regs" where
  "HAL_TIM_PWM_Stop channel r =
     (let r = TIM_CCxChannelCmd channel 0 r;
          r = (if is_break_instance r \<and> all_channels_off r then r\<lparr>bdtr := bdtr r AND NOT TIM_BDTR_MOE\<rparr> else r) in
      if all_channels_off r then r\<lparr>cr1 := cr1 r AND NOT TIM_CR1_CEN\<rparr> else r)"

section \<open>The driver\<close>

text \<open>The clock of the timer, doubled in 32 bits and then widened.\<close>

definition pwm_tim_clock :: "rcc \<Rightarrow> tim_regs \<Rightarrow> u64" where
  "pwm_tim_clock clk r =
     (if tim_no r = 9 \<or> tim_no r = 10 \<or> tim_no r = 11 then ucast (pclk2 clk * 2) else ucast (pclk1 clk * 2))"

definition drv_pwm_enable :: "rt_pwm_configuration \<Rightarrow> bool \<Rightarrow> tim_regs \<Rightarrow> tim_regs" where
  "drv_pwm_enable c enable r =
     (let channel = 4 * (pwm_channel c - 1) in
      if \<not> enable then HAL_TIM_PWM_Stop channel r else HAL_TIM_PWM_Start channel r)"

text \<open>Reading back.  The products of the registers are computed in 32 bits, and a clock below 1 MHz
  is a division by zero.\<close>

definition drv_pwm_get :: "rcc \<Rightarrow> rt_pwm_configuration \<Rightarrow> tim_regs \<Rightarrow> rt_pwm_configuration option" where
  "drv_pwm_get clk c r = do {
     let channel = 4 * (pwm_channel c - 1);
     let tim_clock = pwm_tim_clock clk r;
     let tim_clock = (if cr1 r AND TIM_CR1_CKD = TIM_CLOCKDIVISION_DIV2 then tim_clock div 2
                      else if cr1 r AND TIM_CR1_CKD = TIM_CLOCKDIVISION_DIV4 then tim_clock div 4 else tim_clock);
     let tim_clock = tim_clock div 1000000;
     c_defined (tim_clock \<noteq> 0);
     Some (c\<lparr>pwm_period := ucast (ucast ((arr r + 1) * (psc r + 1) * 1000) div tim_clock),
             pwm_pulse := ucast (ucast ((ccr r (ccr_no channel) + 1) * (psc r + 1) * 1000) div tim_clock)\<rparr>)
   }"

definition drv_pwm_set :: "rcc \<Rightarrow> rt_pwm_configuration \<Rightarrow> tim_regs \<Rightarrow> tim_regs" where
  "drv_pwm_set clk c r =
     (let channel = 4 * (pwm_channel c - 1);
          tim_clock = pwm_tim_clock clk r div 1000000;
          per = (ucast (ucast (pwm_period c) * tim_clock div 1000) :: u32);
          psc = (ucast (per div MAX_PERIOD + 1) :: u64);
          per = (ucast (ucast per div psc) :: u32);
          r = r\<lparr>psc := ucast (psc - 1)\<rparr>;
          per = (if per < MIN_PERIOD then MIN_PERIOD else per);
          r = r\<lparr>arr := per - 1, init_period := per - 1\<rparr>;
          pul = (ucast (ucast (pwm_pulse c) * tim_clock div psc div 1000) :: u32);
          pul = (if pul < MIN_PULSE then MIN_PULSE else if pul > per then per else pul);
          r = r\<lparr>ccr := (ccr r)(ccr_no channel := pul - 1)\<rparr>;
          r = r\<lparr>cnt := 0\<rparr> in
      r\<lparr>egr := TIM_EVENTSOURCE_UPDATE\<rparr>)"

text \<open>The commands of the device; the argument is the configuration, which \<open>PWM_CMD_GET\<close> fills in.\<close>

abbreviation (input) PWM_CMD_ENABLE :: int where "PWM_CMD_ENABLE \<equiv> 128"
abbreviation (input) PWM_CMD_DISABLE :: int where "PWM_CMD_DISABLE \<equiv> 129"
abbreviation (input) PWM_CMD_SET :: int where "PWM_CMD_SET \<equiv> 130"
abbreviation (input) PWM_CMD_GET :: int where "PWM_CMD_GET \<equiv> 131"

type_synonym pwm_control =
  "int \<Rightarrow> rt_pwm_configuration \<Rightarrow> tim_regs \<Rightarrow> (rt_err_t \<times> rt_pwm_configuration \<times> tim_regs) option"

definition drv_pwm_control :: "rcc \<Rightarrow> pwm_control" where
  "drv_pwm_control clk cmd c r =
     (if cmd = PWM_CMD_ENABLE then Some (RT_EOK, c, drv_pwm_enable c True r)
      else if cmd = PWM_CMD_DISABLE then Some (RT_EOK, c, drv_pwm_enable c False r)
      else if cmd = PWM_CMD_SET then Some (RT_EOK, c, drv_pwm_set clk c r)
      else if cmd = PWM_CMD_GET then do { c \<leftarrow> drv_pwm_get clk c r; Some (RT_EOK, c, r) }
      else Some (RT_EINVAL, c, r))"

section \<open>The device layer\<close>

text \<open>The data of the device are the registers; \<open>ctl\<close> is the driver's \<open>ops->control\<close>, which may be
  missing.\<close>

definition on_tim :: "(tim_regs \<Rightarrow> ('r \<times> tim_regs) option) \<Rightarrow> tim_regs dev_state \<Rightarrow> ('r \<times> tim_regs dev_state) option" where
  "on_tim f st = map_option (\<lambda>(x, r). (x, st\<lparr>drv := r\<rparr>)) (f (drv st))"

definition pwm_control_fn :: "pwm_control option \<Rightarrow> int \<times> rt_pwm_configuration \<Rightarrow> tim_regs dev_state \<Rightarrow>
    ((rt_err_t \<times> rt_pwm_configuration option) \<times> tim_regs dev_state) option" where
  "pwm_control_fn ctl cmd st =
     (case ctl of
        None \<Rightarrow> Some ((RT_EOK, None), st)
      | Some f \<Rightarrow> on_tim (\<lambda>r. do { (e, c, r) \<leftarrow> f (fst cmd) (snd cmd) r; Some ((e, Some c), r) }) st)"

definition pwm_conf :: "u32 \<Rightarrow> u32 \<Rightarrow> u32 \<Rightarrow> rt_pwm_configuration" where
  "pwm_conf ch per pul = \<lparr>pwm_channel = ch, pwm_period = per, pwm_pulse = pul\<rparr>"

text \<open>A pulse is passed as the four bytes of a word, least significant first.\<close>

definition word_bytes :: "u32 \<Rightarrow> u8 list" where
  "word_bytes w = [ucast w, ucast (drop_bit 8 w), ucast (drop_bit 16 w), ucast (drop_bit 24 w)]"

definition bytes_word :: "u8 list \<Rightarrow> u32" where
  "bytes_word bs = ucast (bs ! 0) OR push_bit 8 (ucast (bs ! 1)) OR push_bit 16 (ucast (bs ! 2)) OR push_bit 24 (ucast (bs ! 3))"

definition pwm_read_fn :: "pwm_control option \<Rightarrow> int \<Rightarrow> u32 \<Rightarrow> nat \<Rightarrow> tim_regs dev_state \<Rightarrow>
    ((u8 list \<times> nat) \<times> tim_regs dev_state) option" where
  "pwm_read_fn ctl pos buffer n st =
     (case ctl of
        None \<Rightarrow> Some (([], n), st)
      | Some f \<Rightarrow> on_tim (\<lambda>r. do {
          (result, c, r) \<leftarrow> f PWM_CMD_GET (pwm_conf (word_of_int pos) 0 0) r;
          if result \<noteq> RT_EOK then Some (([], 0), r) else Some ((word_bytes (pwm_pulse c), n), r)
        }) st)"

definition pwm_write_fn :: "pwm_control option \<Rightarrow> int \<Rightarrow> u32 \<Rightarrow> u8 list \<Rightarrow> tim_regs dev_state \<Rightarrow>
    (('l, nat) outcome \<times> tim_regs dev_state) option" where
  "pwm_write_fn ctl pos buffer bytes st =
     (case ctl of
        None \<Rightarrow> Some (Return (length bytes), st)
      | Some f \<Rightarrow> on_tim (\<lambda>r. do {
          (result, c, r) \<leftarrow> f PWM_CMD_GET (pwm_conf (word_of_int pos) 0 0) r;
          if result \<noteq> RT_EOK then Some (Return 0, r)
          else do {
            c_defined (4 \<le> length bytes);
            (result, c, r) \<leftarrow> f PWM_CMD_SET (c\<lparr>pwm_pulse := bytes_word bytes\<rparr>) r;
            Some (Return (if result \<noteq> RT_EOK then 0 else length bytes), r)
          }
        }) st)"

definition pwm_ops :: "pwm_control option \<Rightarrow>
    (tim_regs, unit, int \<times> rt_pwm_configuration, rt_pwm_configuration) rt_device_ops" where
  "pwm_ops ctl = \<lparr>op_init = None, op_open = None, op_close = None, op_read = Some (pwm_read_fn ctl),
     op_write = Some (pwm_write_fn ctl), op_control = Some (pwm_control_fn ctl)\<rparr>"

definition rt_device_pwm_register :: "nat \<Rightarrow> u8 list \<Rightarrow> tim_regs \<Rightarrow> tim_regs dev_state \<Rightarrow>
    (rt_err_t \<times> tim_regs dev_state) option" where
  "rt_device_pwm_register i name handle st =
     rt_device_register (Some i) name 3 (st\<lparr>dev := device0\<lparr>dev_type := 18\<rparr>, drv := handle,
       kern := upd_obj (DevObj i) (\<lambda>_. \<lparr>obj_name = replicate 8 0, obj_type = 0, obj_flag = 0\<rparr>) (kern st)\<rparr>)"

definition pwm_command :: "pwm_control option \<Rightarrow> nat option \<Rightarrow> int \<Rightarrow> rt_pwm_configuration \<Rightarrow> tim_regs dev_state \<Rightarrow>
    (rt_err_t \<times> tim_regs dev_state) option" where
  "pwm_command ctl device cmd c st =
     (case device of
        None \<Rightarrow> Some (- RT_EIO, st)
      | Some i \<Rightarrow> do { ((result, out), st) \<leftarrow> rt_device_control (pwm_ops ctl) i (cmd, c) st; Some (result, st) })"

definition rt_pwm_enable :: "pwm_control option \<Rightarrow> nat option \<Rightarrow> u32 \<Rightarrow> tim_regs dev_state \<Rightarrow>
    (rt_err_t \<times> tim_regs dev_state) option" where
  "rt_pwm_enable ctl device channel = pwm_command ctl device PWM_CMD_ENABLE (pwm_conf channel 0 0)"

definition rt_pwm_disable :: "pwm_control option \<Rightarrow> nat option \<Rightarrow> u32 \<Rightarrow> tim_regs dev_state \<Rightarrow>
    (rt_err_t \<times> tim_regs dev_state) option" where
  "rt_pwm_disable ctl device channel = pwm_command ctl device PWM_CMD_DISABLE (pwm_conf channel 0 0)"

definition rt_pwm_set :: "pwm_control option \<Rightarrow> nat option \<Rightarrow> u32 \<Rightarrow> u32 \<Rightarrow> u32 \<Rightarrow> tim_regs dev_state \<Rightarrow>
    (rt_err_t \<times> tim_regs dev_state) option" where
  "rt_pwm_set ctl device channel period pulse = pwm_command ctl device PWM_CMD_SET (pwm_conf channel period pulse)"

section \<open>Initialisation\<close>

text \<open>The vendor's initialisation functions are arguments: each may fail, and changes registers in its
  own way.\<close>

datatype hal_call = PWM_Init | ConfigClockSource | MasterConfigSynchronization | PWM_ConfigChannel u32 | MspPostInit

type_synonym hal_tim = "hal_call \<Rightarrow> tim_regs \<Rightarrow> bool \<times> tim_regs"

text \<open>The calls up to the first that fails.\<close>

fun hal_calls :: "hal_tim \<Rightarrow> hal_call list \<Rightarrow> tim_regs \<Rightarrow> bool \<times> tim_regs" where
  "hal_calls hal [] r = (True, r)"
| "hal_calls hal (x # xs) r = (let (ok, r) = hal x r in if ok then hal_calls hal xs r else (False, r))"

definition stm32_hw_pwm_init :: "hal_tim \<Rightarrow> u8 \<Rightarrow> tim_regs \<Rightarrow> rt_err_t \<times> tim_regs" where
  "stm32_hw_pwm_init hal channel r =
     (let r = r\<lparr>init_period := 0\<rparr>;
          (ok, r) = hal_calls hal
            ([PWM_Init, ConfigClockSource, MasterConfigSynchronization] @
             (if channel AND 0x01 \<noteq> 0 then [PWM_ConfigChannel 0] else []) @
             (if channel AND 0x02 \<noteq> 0 then [PWM_ConfigChannel 4] else []) @
             (if channel AND 0x04 \<noteq> 0 then [PWM_ConfigChannel 8] else []) @
             (if channel AND 0x08 \<noteq> 0 then [PWM_ConfigChannel 12] else [])) r in
      if \<not> ok then (- RT_ERROR, r)
      else let r = snd (hal MspPostInit r) in (RT_EOK, r\<lparr>cr1 := cr1 r OR TIM_CR1_URS\<rparr>))"

text \<open>The configuration has one such timer, \<open>TIM1\<close> with the channels 1 to 3, under the name \<open>pwm1\<close>.\<close>

definition pwm_get_channel :: u8 where
  "pwm_get_channel = push_bit 0 1 OR push_bit 1 1 OR push_bit 2 1"

definition pwm1_name :: "u8 list" where
  "pwm1_name = [0x70, 0x77, 0x6D, 0x31, 0]"

definition stm32_pwm_init :: "hal_tim \<Rightarrow> nat \<Rightarrow> tim_regs dev_state \<Rightarrow> (rt_err_t \<times> tim_regs dev_state) option" where
  "stm32_pwm_init hal i st =
     (let (result, r) = stm32_hw_pwm_init hal pwm_get_channel ((drv st)\<lparr>tim_no := 1\<rparr>) in
      if result \<noteq> RT_EOK then Some (- RT_ERROR, st\<lparr>drv := r\<rparr>)
      else do {
        (result, st) \<leftarrow> rt_device_pwm_register i pwm1_name r st;
        Some (if result = RT_EOK then RT_EOK else - RT_ERROR, st)
      })"

section \<open>Registers and what they mean\<close>

definition pwm_mhz :: "rcc \<Rightarrow> tim_regs \<Rightarrow> nat" where
  "pwm_mhz clk r = unat (pwm_tim_clock clk r) div 1000000"

text \<open>The clock ticks of a period in nanoseconds, and the prescaler they need.\<close>

definition pwm_ticks :: "nat \<Rightarrow> u32 \<Rightarrow> nat" where
  "pwm_ticks mhz ns = unat ns * mhz div 1000"

lemma unat_u32_less: "unat (w :: u32) < 2 ^ 32"
  using unsigned_less [of w] by simp

lemma unat_ucast_u64 [simp]: "unat (ucast (w :: u32) :: u64) = unat w"
  by (simp add: unsigned_ucast_eq take_bit_nat_eq_self order_less_le_trans [OF unat_u32_less])

lemma unat_u64_mult32:
  fixes a :: u32 and b :: u64
  assumes "unat b < 2 ^ 32"
  shows "unat (ucast a * b) = unat a * unat b"
proof -
  have "unat a * unat b \<le> (2 ^ 32 - 1) * (2 ^ 32 - 1)"
    using assms unat_u32_less [of a] by (intro mult_mono) simp_all
  then have "unat a * unat b < 2 ^ 64" by (rule order_le_less_trans) simp
  then show ?thesis by (simp add: unat_word_ariths)
qed

lemma unat_ucast_u32: "unat (w :: u64) < 2 ^ 32 \<Longrightarrow> unat (ucast w :: u32) = unat w"
  by (simp add: unsigned_ucast_eq take_bit_nat_eq_self)

lemma pwm_ticks_less: "mhz \<le> 999 \<Longrightarrow> pwm_ticks mhz ns \<le> 4290672328"
proof -
  assume "mhz \<le> 999"
  then have "unat ns * mhz \<le> 4294967295 * 999" using unat_u32_less [of ns] by (intro mult_mono) simp_all
  then have "pwm_ticks mhz ns \<le> 4294967295 * 999 div 1000" unfolding pwm_ticks_def by (rule div_le_mono)
  then show ?thesis by simp
qed

text \<open>What \<open>drv_pwm_set\<close> stores, in natural numbers.\<close>

definition pwm_prescaler :: "nat \<Rightarrow> u32 \<Rightarrow> nat" where
  "pwm_prescaler mhz ns = pwm_ticks mhz ns div 65535 + 1"

definition pwm_counts :: "nat \<Rightarrow> u32 \<Rightarrow> nat" where
  "pwm_counts mhz ns = max 3 (pwm_ticks mhz ns div pwm_prescaler mhz ns)"

definition pwm_compare :: "nat \<Rightarrow> rt_pwm_configuration \<Rightarrow> nat" where
  "pwm_compare mhz c =
     max 1 (min (unat (pwm_pulse c) * mhz div pwm_prescaler mhz (pwm_period c) div 1000) (pwm_counts mhz (pwm_period c)))"

lemma pwm_prescaler_bounds: "mhz \<le> 999 \<Longrightarrow> 0 < pwm_prescaler mhz ns \<and> pwm_prescaler mhz ns \<le> 65472"
  using pwm_ticks_less [of mhz ns] by (simp add: pwm_prescaler_def)

lemma pwm_counts_bounds: "3 \<le> pwm_counts mhz ns \<and> pwm_counts mhz ns \<le> 65535"
proof -
  have "pwm_ticks mhz ns < 65535 * pwm_prescaler mhz ns"
    using dividend_less_div_times [of 65535 "pwm_ticks mhz ns"] by (simp add: pwm_prescaler_def algebra_simps)
  then have "pwm_ticks mhz ns div pwm_prescaler mhz ns < 65535" by (simp add: less_mult_imp_div_less)
  then show ?thesis by (simp add: pwm_counts_def)
qed

lemma pwm_compare_le: "pwm_compare mhz c \<le> pwm_counts mhz (pwm_period c)"
  using pwm_counts_bounds [of mhz "pwm_period c"] by (simp add: pwm_compare_def)

lemma drv_pwm_set_regs:
  fixes c :: rt_pwm_configuration
  assumes "pwm_mhz clk r \<le> 999"
  defines "r' \<equiv> drv_pwm_set clk c r" and "m \<equiv> pwm_mhz clk r"
  shows "unat (psc r') = pwm_prescaler m (pwm_period c) - 1"
    "unat (arr r') = pwm_counts m (pwm_period c) - 1"
    "unat (ccr r' (ccr_no (4 * (pwm_channel c - 1)))) = pwm_compare m c - 1"
    "k \<noteq> ccr_no (4 * (pwm_channel c - 1)) \<Longrightarrow> ccr r' k = ccr r k"
proof -
  let ?T = "pwm_tim_clock clk r div 1000000"
  have T: "unat ?T = m" by (simp add: m_def pwm_mhz_def unat_div)
  have m: "m \<le> 999" using assms(1) by (simp add: m_def)
  define P where "P = (ucast (ucast (pwm_period c) * ?T div 1000) :: u32)"
  have P: "unat P = pwm_ticks m (pwm_period c)"
    using pwm_ticks_less [OF m, of "pwm_period c"] T m unfolding P_def pwm_ticks_def
    by (subst unat_ucast_u32) (simp_all add: unat_div unat_u64_mult32)
  define p where "p = (ucast (P div MAX_PERIOD + 1) :: u64)"
  have p: "unat p = pwm_prescaler m (pwm_period c)"
    using pwm_prescaler_bounds [OF m, of "pwm_period c"] unfolding p_def pwm_prescaler_def
    by (simp add: unat_word_ariths unat_div P)
  define q where "q = (ucast (ucast P div p) :: u32)"
  have q: "unat q = pwm_ticks m (pwm_period c) div pwm_prescaler m (pwm_period c)"
    using pwm_ticks_less [OF m, of "pwm_period c"] unfolding q_def
    by (subst unat_ucast_u32) (simp_all add: unat_div P p order_le_less_trans [OF div_le_dividend])
  define q1 where "q1 = (if q < MIN_PERIOD then MIN_PERIOD else q)"
  have q1: "unat q1 = pwm_counts m (pwm_period c)"
    by (simp add: q1_def pwm_counts_def q word_less_nat_alt)
  define u where "u = (ucast (ucast (pwm_pulse c) * ?T div p div 1000) :: u32)"
  have "unat (pwm_pulse c) * m div pwm_prescaler m (pwm_period c) div 1000 \<le> pwm_ticks m (pwm_pulse c)"
    unfolding pwm_ticks_def by (intro div_le_mono) (rule div_le_dividend)
  then have u: "unat u = unat (pwm_pulse c) * m div pwm_prescaler m (pwm_period c) div 1000"
    using pwm_ticks_less [OF m, of "pwm_pulse c"] T m unfolding u_def
    by (subst unat_ucast_u32) (simp_all add: unat_div unat_u64_mult32 p)
  define u1 where "u1 = (if u < MIN_PULSE then MIN_PULSE else if u > q1 then q1 else u)"
  have u1: "unat u1 = pwm_compare m c"
    using pwm_counts_bounds [of m "pwm_period c"]
    by (auto simp: u1_def pwm_compare_def u q1 word_less_nat_alt)
  have r': "psc r' = ucast (p - 1)" "arr r' = q1 - 1" "ccr r' = (ccr r)(ccr_no (4 * (pwm_channel c - 1)) := u1 - 1)"
    by (simp_all add: r'_def drv_pwm_set_def Let_def P_def p_def q_def q1_def u_def u1_def)
  have nz: "unat (x - 1) = unat x - 1" if "0 < unat x" for x :: "'a :: len word"
    using that by (simp add: unat_minus_one unat_gt_0)
  show "unat (psc r') = pwm_prescaler m (pwm_period c) - 1"
    using conjunct2 [OF pwm_prescaler_bounds [OF m, of "pwm_period c"]] pwm_prescaler_bounds [OF m, of "pwm_period c"]
    by (subst r', subst unat_ucast_u32) (simp_all add: nz p order_le_less_trans [OF diff_le_self])
  show "unat (arr r') = pwm_counts m (pwm_period c) - 1"
    using pwm_counts_bounds [of m "pwm_period c"] by (simp add: r' nz q1)
  show "unat (ccr r' (ccr_no (4 * (pwm_channel c - 1)))) = pwm_compare m c - 1"
    by (simp add: r' nz u1 pwm_compare_def)
  show "k \<noteq> ccr_no (4 * (pwm_channel c - 1)) \<Longrightarrow> ccr r' k = ccr r k" by (simp add: r')
qed

lemma pwm_counts_ticks:
  assumes "3 \<le> pwm_ticks m ns"
  shows "pwm_counts m ns * pwm_prescaler m ns \<le> pwm_ticks m ns"
    "pwm_ticks m ns < pwm_counts m ns * pwm_prescaler m ns + pwm_prescaler m ns"
proof -
  let ?t = "pwm_ticks m ns" and ?p = "pwm_prescaler m ns"
  have p: "0 < ?p" by (simp add: pwm_prescaler_def)
  have "3 * ?p \<le> ?t"
  proof (cases "?t < 65535")
    case True
    then show ?thesis using assms by (simp add: pwm_prescaler_def)
  next
    case False
    then have "1 \<le> ?t div 65535" by (simp add: div_greater_zero_iff Suc_le_eq)
    then have "3 * ?p \<le> 65535 * (?t div 65535)" by (simp add: pwm_prescaler_def)
    also have "\<dots> \<le> ?t" by simp
    finally show ?thesis .
  qed
  then have "3 \<le> ?t div ?p" using p by (simp add: less_eq_div_iff_mult_less_eq)
  then have c: "pwm_counts m ns = ?t div ?p" by (simp add: pwm_counts_def)
  show "pwm_counts m ns * ?p \<le> ?t" by (simp add: c)
  show "?t < pwm_counts m ns * ?p + ?p" using dividend_less_div_times [OF p, of ?t] by (simp add: c)
qed

lemma pwm_registers_bounded_aux:
  fixes c :: rt_pwm_configuration
  assumes "pwm_mhz clk r \<le> 999" "r' = drv_pwm_set clk c r" "3 \<le> pwm_ticks (pwm_mhz clk r) (pwm_period c)"
  shows "(unat (arr r') + 1) * (unat (psc r') + 1) \<le> pwm_ticks (pwm_mhz clk r) (pwm_period c)"
    "pwm_ticks (pwm_mhz clk r) (pwm_period c) < (unat (arr r') + 1) * (unat (psc r') + 1) + (unat (psc r') + 1)"
proof -
  let ?m = "pwm_mhz clk r"
  note s = drv_pwm_set_regs [OF assms(1), where c = c, folded assms(2)]
  have p: "unat (psc r') + 1 = pwm_prescaler ?m (pwm_period c)"
    using pwm_prescaler_bounds [OF assms(1), of "pwm_period c"] s(1) by simp
  have a: "unat (arr r') + 1 = pwm_counts ?m (pwm_period c)"
    using pwm_counts_bounds [of ?m "pwm_period c"] s(2) by simp
  show "(unat (arr r') + 1) * (unat (psc r') + 1) \<le> pwm_ticks ?m (pwm_period c)"
    "pwm_ticks ?m (pwm_period c) < (unat (arr r') + 1) * (unat (psc r') + 1) + (unat (psc r') + 1)"
    unfolding p a by (rule pwm_counts_ticks [OF assms(3)])+
qed

text \<open>C11. Whatever period and pulse are asked for, the prescaler, reload and compare registers fit into
  the 16 bits of the timer, the pulse is not longer than the period, the other channels keep their
  pulses, and a period of at least three ticks of the clock is met up to one count.\<close>

theorem pwm_registers_bounded:
  assumes "pwm_mhz clk r \<le> 999" and r': "r' = drv_pwm_set clk c r"
    and "k = ccr_no (4 * (pwm_channel c - 1))"
  shows "unat (psc r') < 2 ^ 16 \<and> unat (arr r') < 2 ^ 16 \<and> ccr r' k \<le> arr r' \<and> (\<forall>j. j \<noteq> k \<longrightarrow> ccr r' j = ccr r j) \<and>
    (let t = pwm_ticks (pwm_mhz clk r) (pwm_period c); n = (unat (arr r') + 1) * (unat (psc r') + 1) in
     3 \<le> t \<longrightarrow> n \<le> t \<and> t < n + (unat (psc r') + 1))"
proof -
  let ?m = "pwm_mhz clk r"
  note s = drv_pwm_set_regs [OF assms(1), where c = c, folded r' assms(3)]
  have "ccr r' k \<le> arr r'"
    using pwm_compare_le [of ?m c] by (simp add: word_le_nat_alt s(2,3) diff_le_mono)
  moreover have "unat (psc r') < 2 ^ 16" using conjunct2 [OF pwm_prescaler_bounds [OF assms(1), of "pwm_period c"]]
    by (simp add: s(1) order_le_less_trans [OF diff_le_self])
  moreover have "unat (arr r') < 2 ^ 16" using conjunct2 [OF pwm_counts_bounds [of ?m "pwm_period c"]]
    by (simp add: s(2) order_le_less_trans [OF diff_le_self])
  ultimately show ?thesis using s(4) pwm_registers_bounded_aux [OF assms(1) r'] by (simp add: Let_def)
qed

section \<open>Reading back and writing a pulse\<close>

lemma div_mult_less: "0 < m \<Longrightarrow> a < (a div m + 1) * (m :: nat)"
  using dividend_less_div_times [of m a] by simp

lemma drv_pwm_get_period:
  assumes m: "0 < pwm_mhz clk r" and d: "cr1 r AND TIM_CR1_CKD = 0"
    and n: "(unat (arr r) + 1) * (unat (psc r) + 1) * 1000 < 2 ^ 32"
  shows "\<exists>c'. drv_pwm_get clk c r = Some c' \<and> pwm_channel c' = pwm_channel c \<and>
    unat (pwm_period c') = (unat (arr r) + 1) * (unat (psc r) + 1) * 1000 div pwm_mhz clk r"
proof -
  let ?N = "(unat (arr r) + 1) * (unat (psc r) + 1) * 1000"
  define T where "T = pwm_tim_clock clk r div 1000000"
  have T: "unat T = pwm_mhz clk r" by (simp add: T_def pwm_mhz_def unat_div)
  have nz: "T \<noteq> 0" using m by (simp add: T [symmetric] unat_gt_0)
  have "1 * 1000 \<le> (unat (arr r) + 1) * (unat (psc r) + 1) * 1000" by simp
  have b: "unat (arr r) + 1 < 2 ^ 32" "unat (psc r) + 1 < 2 ^ 32" "(unat (arr r) + 1) * (unat (psc r) + 1) < 2 ^ 32"
  proof -
    show c: "(unat (arr r) + 1) * (unat (psc r) + 1) < 2 ^ 32" using n by simp
    show "unat (arr r) + 1 < 2 ^ 32" using c by (rule order_le_less_trans [rotated]) simp
    show "unat (psc r) + 1 < 2 ^ 32" using c by (rule order_le_less_trans [rotated]) simp
  qed
  have w: "unat ((arr r + 1) * (psc r + 1) * 1000) = ?N"
    using b n by (simp add: unat_word_ariths)
  have "unat (ucast (ucast ((arr r + 1) * (psc r + 1) * 1000) div T) :: u32) = ?N div pwm_mhz clk r"
    using order_le_less_trans [OF div_le_dividend n, of "pwm_mhz clk r"]
    by (subst unat_ucast_u32) (simp_all only: unat_div unat_ucast_u64 w T)
  then show ?thesis using nz d by (simp add: drv_pwm_get_def Let_def T_def)
qed

text \<open>Setting a period of at least three ticks and at most \<open>2^32 / 1000\<close> ticks, and reading it back, gives a
  period that is not longer and that differs by less than one count and one microsecond.\<close>

theorem pwm_period_roundtrip:
  assumes m: "0 < pwm_mhz clk r" "pwm_mhz clk r \<le> 999" and d: "cr1 r AND TIM_CR1_CKD = 0"
    and t: "3 \<le> pwm_ticks (pwm_mhz clk r) (pwm_period c)" "pwm_ticks (pwm_mhz clk r) (pwm_period c) * 1000 < 2 ^ 32"
  shows "\<exists>c'. drv_pwm_get clk c (drv_pwm_set clk c r) = Some c' \<and> pwm_channel c' = pwm_channel c \<and>
    pwm_period c' \<le> pwm_period c \<and>
    unat (pwm_period c) * pwm_mhz clk r <
      (unat (pwm_period c') + 1) * pwm_mhz clk r + 1000 * (unat (psc (drv_pwm_set clk c r)) + 1)"
proof -
  define r' where "r' = drv_pwm_set clk c r"
  define N where "N = (unat (arr r') + 1) * (unat (psc r') + 1)"
  let ?m = "pwm_mhz clk r" and ?p = "unat (psc r') + 1" and ?t = "pwm_ticks (pwm_mhz clk r) (pwm_period c)"
  have n: "N \<le> ?t" "?t < N + ?p"
    using pwm_registers_bounded_aux [OF m(2) r'_def t(1)] by (simp_all add: N_def)
  have m': "pwm_mhz clk r' = ?m" and d': "cr1 r' AND TIM_CR1_CKD = 0"
    using d by (simp_all add: pwm_mhz_def pwm_tim_clock_def r'_def drv_pwm_set_def Let_def)
  have N: "N * 1000 < 2 ^ 32" using n(1) t(2) by linarith
  obtain c' where c': "drv_pwm_get clk c r' = Some c'" "pwm_channel c' = pwm_channel c"
      "unat (pwm_period c') = N * 1000 div ?m"
    using drv_pwm_get_period [of clk r' c, unfolded m', OF m(1) d' N [unfolded N_def]] by (auto simp: N_def)
  let ?P = "unat (pwm_period c)"
  have "?t * 1000 \<le> ?P * ?m" by (simp add: pwm_ticks_def)
  then have "N * 1000 \<le> ?P * ?m" using n(1) by linarith
  then have "N * 1000 div ?m \<le> ?P * ?m div ?m" by (rule div_le_mono)
  then have le: "pwm_period c' \<le> pwm_period c" using m(1) by (simp add: word_le_nat_alt c'(3))
  have "?P * ?m < (?t + 1) * 1000" using div_mult_less [of 1000 "?P * ?m"] by (simp add: pwm_ticks_def)
  also have "\<dots> \<le> (N + ?p) * 1000" using n(2) by (intro mult_le_mono1) simp
  also have "\<dots> = N * 1000 + 1000 * ?p" by simp
  also have "\<dots> < (N * 1000 div ?m + 1) * ?m + 1000 * ?p" using div_mult_less [OF m(1), of "N * 1000"] by simp
  finally show ?thesis using c' le unfolding r'_def [symmetric] by simp
qed

text \<open>Writing a pulse reads the period back and sets it again: while the timer runs without a
  prescaler the period gets shorter, unless the counts come out as a whole number of nanoseconds.\<close>

theorem pwm_write_keeps_period:
  assumes dev: "is_device i st" "ref_count (dev st) \<noteq> 0"
    and m: "0 < pwm_mhz clk (drv st)" "pwm_mhz clk (drv st) \<le> 999" and d: "cr1 (drv st) AND TIM_CR1_CKD = 0"
    and r: "psc (drv st) = 0" "4 \<le> unat (arr (drv st)) + 1" "unat (arr (drv st)) + 1 < 65535"
    and bytes: "length bytes = 4"
  shows "\<exists>st'. rt_device_write (pwm_ops (Some (drv_pwm_control clk))) i pos buffer bytes st = Some (Return 4, st') \<and>
    psc (drv st') = 0 \<and> arr (drv st') \<le> arr (drv st) \<and>
    (arr (drv st') = arr (drv st) \<longleftrightarrow> pwm_mhz clk (drv st) dvd (unat (arr (drv st)) + 1) * 1000)"
proof -
  define r0 where "r0 = drv st"
  let ?m = "pwm_mhz clk r0" and ?n = "unat (arr r0) + 1"
  note m = m [folded r0_def] and r = r [folded r0_def] and d = d [folded r0_def]
  have N: "(unat (arr r0) + 1) * (unat (psc r0) + 1) * 1000 < 2 ^ 32" using r by simp
  obtain c where c: "drv_pwm_get clk (pwm_conf (word_of_int pos) 0 0) r0 = Some c" "unat (pwm_period c) = ?n * 1000 div ?m"
    using drv_pwm_get_period [OF m(1) d N, of "pwm_conf (word_of_int pos) 0 0"] r(1) by auto
  define c' where "c' = c\<lparr>pwm_pulse := bytes_word bytes\<rparr>"
  define r' where "r' = drv_pwm_set clk c' r0"
  have w: "rt_device_write (pwm_ops (Some (drv_pwm_control clk))) i pos buffer bytes st = Some (Return 4, st\<lparr>drv := r'\<rparr>)"
    using dev bytes c(1)
    by (simp add: rt_device_write_def rt_assert_def pwm_ops_def pwm_write_fn_def on_tim_def drv_pwm_control_def
        r0_def [symmetric] c'_def r'_def)
  define t where "t = pwm_ticks ?m (pwm_period c')"
  have t: "t = ?n * 1000 div ?m * ?m div 1000" by (simp add: t_def pwm_ticks_def c'_def c(2))
  have tn: "t \<le> ?n"
  proof -
    have "?n * 1000 div ?m * ?m div 1000 \<le> ?n * 1000 div 1000" by (intro div_le_mono) simp
    then show ?thesis by (simp add: t)
  qed
  have eq: "t = ?n \<longleftrightarrow> ?m dvd ?n * 1000"
  proof
    assume "t = ?n"
    then have "?n * 1000 \<le> ?n * 1000 div ?m * ?m" using t by (metis div_times_less_eq_dividend)
    moreover have "?n * 1000 div ?m * ?m \<le> ?n * 1000" by simp
    ultimately have "?n * 1000 = ?n * 1000 div ?m * ?m" by (rule antisym)
    then show "?m dvd ?n * 1000" by (metis dvd_triv_right)
  next
    assume "?m dvd ?n * 1000"
    then show "t = ?n" by (simp add: t)
  qed
  have s: "unat (psc r') = pwm_prescaler ?m (pwm_period c') - 1" "unat (arr r') = pwm_counts ?m (pwm_period c') - 1"
    using drv_pwm_set_regs(1,2) [OF m(2), of c'] by (simp_all add: r'_def)
  have p: "pwm_prescaler ?m (pwm_period c') = 1" using tn r(3) by (simp add: pwm_prescaler_def t_def [symmetric])
  have a: "unat (arr r') = max 3 t - 1" by (simp add: s(2) pwm_counts_def p t_def)
  have "psc r' = 0" using s(1) p by (simp add: unat_eq_zero)
  moreover have "arr r' \<le> arr r0" using a tn r(2) by (simp add: word_le_nat_alt)
  moreover have "arr r' = arr r0 \<longleftrightarrow> t = ?n" using a tn r(2) by (auto simp: word_unat_eq_iff)
  ultimately show ?thesis using w eq by (simp add: r0_def)
qed

end
