(* ===== verification/Outputs.thy ===== *)
theory Outputs
  imports Inputs PwmDriver
begin

text \<open>
  The outputs of the charger: the pulse width of each phase and the relay, which the controller keeps
  in \<open>pulse_out\<close> and \<open>relay\<close>, are the compare registers of the timer and the level of a pin.  The
  statements of the PWM thread that set them are calls of the drivers, and the drivers follow.
\<close>

section \<open>The calls of the PWM thread\<close>

datatype driver_call = Set_pulse nat u32 | Set_relay bool

definition output_call :: "app \<Rightarrow> driver_call option" where
  "output_call a =
     (case pwm_pc a of
        Pwm_set \<Rightarrow> Some (Set_pulse (pwm1_start a) (pulse * 2))
      | Pwm_close i k \<Rightarrow>
          (if k = 0 then Some (Set_pulse i 0) else if k = 4 then Some (Set_relay True)
           else if 7 \<le> k then Some (Set_relay False) else None)
      | _ \<Rightarrow> None)"

text \<open>\<open>d\<close> is the number of the device \<open>pwm1\<close>; the hardware is its timer and the pins.\<close>

definition do_output :: "rcc \<Rightarrow> nat \<Rightarrow> driver_call \<Rightarrow> tim_regs dev_state \<times> gpio \<Rightarrow> (tim_regs dev_state \<times> gpio) option" where
  "do_output clk d c hw =
     (case c of
        Set_pulse i p \<Rightarrow> do {
          (e, st) \<leftarrow> rt_pwm_set (Some (drv_pwm_control clk)) (Some d) (of_nat i) (period * 2) p (fst hw);
          Some (st, snd hw)
        }
      | Set_relay b \<Rightarrow> do {
          g \<leftarrow> rt_pin_write (Some stm32_pin_ops) GPIO_MO1 (if b then 1 else 0) (snd hw);
          Some (fst hw, g)
        })"

section \<open>The hardware follows the controller\<close>

definition pulse_conf :: "u32 \<Rightarrow> rt_pwm_configuration" where
  "pulse_conf p = pwm_conf 0 (period * 2) p"

lemma pulse_compare: "pwm_compare m (pwm_conf c (period * 2) p) = pwm_compare m (pulse_conf p)"
  by (simp add: pwm_compare_def pulse_conf_def pwm_conf_def)

definition outputs_match :: "rcc \<Rightarrow> nat \<Rightarrow> app \<Rightarrow> tim_regs dev_state \<times> gpio \<Rightarrow> bool" where
  "outputs_match clk d a hw \<longleftrightarrow> is_device d (fst hw) \<and> pwm_mhz clk (drv (fst hw)) \<le> 999 \<and>
     unat (arr (drv (fst hw))) = pwm_counts (pwm_mhz clk (drv (fst hw))) (period * 2) - 1 \<and>
     unat (psc (drv (fst hw))) = pwm_prescaler (pwm_mhz clk (drv (fst hw))) (period * 2) - 1 \<and>
     (\<forall>c\<in>{1, 2, 3}. unat (ccr (drv (fst hw)) c) = pwm_compare (pwm_mhz clk (drv (fst hw))) (pulse_conf (pulse_out a c)) - 1) \<and>
     relay a = g_odr (snd hw) 6 0"

lemma ccr_no_channel: "i \<in> {1, 2, 3} \<Longrightarrow> ccr_no (4 * (of_nat i - 1)) = i"
  by (auto simp: ccr_no_def)

lemma set_relay: "do_output clk d (Set_relay b) hw = Some (fst hw, HAL_GPIO_WritePin 6 0 b (snd hw))"
  by (simp add: do_output_def rt_pin_write_def stm32_pin_ops_def stm32_pin_write_def)

lemma pwm_set_call:
  "is_device d st \<Longrightarrow> rt_pwm_set (Some (drv_pwm_control clk)) (Some d) ch per pul st =
     Some (RT_EOK, st\<lparr>drv := drv_pwm_set clk (pwm_conf ch per pul) (drv st)\<rparr>)"
  by (simp add: rt_pwm_set_def pwm_command_def rt_device_control_def rt_assert_def pwm_ops_def pwm_control_fn_def
      on_tim_def drv_pwm_control_def)

lemma drv_pwm_set_mhz [simp]: "pwm_mhz clk (drv_pwm_set clk' c r) = pwm_mhz clk r"
  by (simp add: pwm_mhz_def pwm_tim_clock_def drv_pwm_set_def Let_def)

lemma set_pulse:
  assumes "outputs_match clk d a hw" "i \<in> {1, 2, 3}"
  shows "\<exists>hw'. do_output clk d (Set_pulse i p) hw = Some hw' \<and> outputs_match clk d (a\<lparr>pulse_out := (pulse_out a)(i := p)\<rparr>) hw'"
proof -
  let ?r = "drv (fst hw)" and ?c = "pwm_conf (of_nat i) (period * 2) p"
  have m: "pwm_mhz clk ?r \<le> 999" and d: "is_device d (fst hw)" using assms(1) by (simp_all add: outputs_match_def)
  define r' where "r' = drv_pwm_set clk ?c ?r"
  have k: "ccr_no (4 * (pwm_channel ?c - 1)) = i" and c: "pwm_period ?c = period * 2"
    using ccr_no_channel [OF assms(2)] by (simp_all add: pwm_conf_def)
  note s = drv_pwm_set_regs [OF m, where c = ?c, folded r'_def, unfolded k c]
  have o: "do_output clk d (Set_pulse i p) hw = Some ((fst hw)\<lparr>drv := r'\<rparr>, snd hw)"
    by (simp add: do_output_def pwm_set_call [OF d] r'_def)
  have "unat (ccr r' j) = pwm_compare (pwm_mhz clk ?r) (pulse_conf (((pulse_out a)(i := p)) j)) - 1" if "j \<in> {1, 2, 3}" for j
    using s(3) s(4) assms(1) that by (cases "j = i") (auto simp: outputs_match_def pulse_compare)
  moreover have "pwm_mhz clk r' = pwm_mhz clk ?r" by (simp add: r'_def)
  moreover have "is_device d ((fst hw)\<lparr>drv := r'\<rparr>)" using d by (simp add: is_device_def)
  ultimately have "outputs_match clk d (a\<lparr>pulse_out := (pulse_out a)(i := p)\<rparr>) ((fst hw)\<lparr>drv := r'\<rparr>, snd hw)"
    using assms(1) s(1,2) unfolding outputs_match_def by simp
  then show ?thesis using o by blast
qed

lemma outputs_match_cong:
  "outputs_match clk d a hw \<Longrightarrow> pulse_out a' = pulse_out a \<Longrightarrow> relay a' = relay a \<Longrightarrow> outputs_match clk d a' hw"
  by (simp add: outputs_match_def)

lemma relay_match: "outputs_match clk d a hw \<Longrightarrow>
    outputs_match clk d (a\<lparr>relay := b, pwm_pc := pc\<rparr>) (fst hw, HAL_GPIO_WritePin 6 0 b (snd hw))"
  by (simp add: outputs_match_def HAL_GPIO_WritePin_def)

text \<open>Every statement of the PWM thread that changes an output of the controller is a call of a driver that
  succeeds, and after it the compare registers and the relay's pin are those of the controller's
  outputs; the other statements touch neither.\<close>

lemma outputs_follow_step:
  assumes "outputs_match clk d a hw" "app_inv a" "pwm_thread_step a = Some a'"
  shows "\<exists>hw'. (case output_call a of None \<Rightarrow> Some hw | Some c \<Rightarrow> do_output clk d c hw) = Some hw' \<and> outputs_match clk d a' hw'"
proof -
  have pc: "pc_ok (pwm_pc a)" "starting (pwm_pc a) \<Longrightarrow> pwm1_start a \<noteq> 0" "pwm1_start a \<le> 3"
    using assms(2) by (simp_all add: app_inv_def outputs_ok_def values_ok_def)
  have kern: "outputs_match clk d (b\<lparr>pwm_pc := pc'\<rparr>) hw" if "on_kernel f a = Some (r, b)" for f b pc' and r :: "'z"
    using that assms(1) by (auto simp: on_kernel_def outputs_match_def)
  have same: "\<exists>hw'. (case output_call a of None \<Rightarrow> Some hw | Some c \<Rightarrow> do_output clk d c hw) = Some hw' \<and> outputs_match clk d a' hw'"
    if "output_call a = None" "outputs_match clk d a' hw" using that by simp
  show ?thesis
  proof (cases "pwm_pc a")
    case Pwm_take
    then show ?thesis using assms(3) kern
      by (intro same) (auto simp: output_call_def pwm_thread_step_def Option.bind_eq_Some_conv)
  next
    case Pwm_waiting
    then show ?thesis using assms(3) kern
      by (intro same) (auto simp: output_call_def pwm_thread_step_def Option.bind_eq_Some_conv)
  next
    case Pwm_set
    then have i: "pwm1_start a \<in> {1, 2, 3}" using pc by (auto simp: starting_def)
    obtain hw' where "do_output clk d (Set_pulse (pwm1_start a) (pulse * 2)) hw = Some hw'"
        "outputs_match clk d (a\<lparr>pulse_out := (pulse_out a)(pwm1_start a := pulse * 2)\<rparr>) hw'"
      using set_pulse [OF assms(1) i] by blast
    then show ?thesis using assms(3) Pwm_set by (auto simp: output_call_def pwm_thread_step_def intro: outputs_match_cong)
  next
    case (Pwm_close i k)
    then have i: "i \<in> {1, 2, 3}" "k \<le> 7" using pc(1) by auto
    have step: "pwm_close_step i k a = Some a'" using assms(3) Pwm_close by (simp add: pwm_thread_step_def)
    consider "k = 0" | "k = 4" | "k = 7" | "k \<in> {1, 2, 3}" | "k = 5 \<or> k = 6" using i(2) by fastforce
    then show ?thesis
    proof cases
      case 1
      obtain hw' where "do_output clk d (Set_pulse i 0) hw = Some hw'"
          "outputs_match clk d (a\<lparr>pulse_out := (pulse_out a)(i := 0)\<rparr>) hw'"
        using set_pulse [OF assms(1) i(1)] by blast
      then show ?thesis using step Pwm_close 1 by (auto simp: output_call_def pwm_close_step_def intro: outputs_match_cong)
    next
      case 2
      then show ?thesis using step Pwm_close relay_match [OF assms(1)] by (auto simp: output_call_def pwm_close_step_def set_relay)
    next
      case 3
      then show ?thesis using step Pwm_close relay_match [OF assms(1)] by (auto simp: output_call_def pwm_close_step_def set_relay)
    next
      case 4
      then show ?thesis using step Pwm_close assms(1)
        by (intro same) (auto simp: output_call_def pwm_close_step_def intro!: outputs_match_cong [OF assms(1)])
    next
      case 5
      then show ?thesis using step Pwm_close kern
        by (intro same) (auto simp: output_call_def pwm_close_step_def Option.bind_eq_Some_conv)
    qed
  qed (use assms in \<open>auto intro!: same outputs_match_cong [OF assms(1)] simp: output_call_def pwm_thread_step_def\<close>)
qed

text \<open>What the registers mean: a channel that is off has the compare register 0, and with the clock the
  driver assumes for \<open>TIM1\<close>, 84 MHz, a channel that is on is set for a tenth of the period.\<close>

lemma off_compare: "pwm_compare m (pulse_conf 0) - 1 = 0"
  by (simp add: pwm_compare_def pulse_conf_def pwm_conf_def)

lemma on_compare: "pwm_compare 84 (pulse_conf (pulse * 2)) = 6461" "pwm_counts 84 (period * 2) = 64615"
    "pwm_prescaler 84 (period * 2) = 26"
  by (simp_all add: pwm_compare_def pulse_conf_def pwm_conf_def pwm_counts_def pwm_prescaler_def pwm_ticks_def
      period_def pulse_def)

section \<open>The program and the hardware together\<close>

definition same_outputs :: "app \<Rightarrow> app \<Rightarrow> bool" where
  "same_outputs a a' \<longleftrightarrow> pulse_out a' = pulse_out a \<and> relay a' = relay a"

lemma same_outputs_kernel: "on_kernel f a = Some (r, a') \<Longrightarrow> same_outputs a a'"
  by (auto simp: on_kernel_def same_outputs_def)

lemma same_outputs_phase: "phase_cb i turn a = Some a' \<Longrightarrow> same_outputs a a'"
  by (auto simp: phase_cb_def same_outputs_def on_kernel_def Let_def Option.bind_eq_Some_conv split: if_splits)

lemma same_outputs_isr:
  "in_isr f a = Some a' \<Longrightarrow> (\<And>b b'. f b = Some b' \<Longrightarrow> same_outputs b b') \<Longrightarrow> same_outputs a a'"
  by (fastforce simp: in_isr_def same_outputs_def Option.bind_eq_Some_conv)

lemma same_outputs_adc: "adc_thread_step raws a = Some a' \<Longrightarrow> same_outputs a a'"
  by (auto simp: adc_thread_step_def same_outputs_def on_kernel_def Let_def Option.bind_eq_Some_conv
      split: adc_pc.splits if_splits option.splits)

lemma same_outputs_gpio: "gpio_thread_step levels a = Some a' \<Longrightarrow> same_outputs a a'"
  by (auto simp: gpio_thread_step_def same_outputs_def on_kernel_def Let_def Option.bind_eq_Some_conv
      split: gpio_pc.splits if_splits prod.splits)

lemma same_outputs_serial:
  assumes "serial_thread_step a = Some a'"
  shows "same_outputs a a'"
proof (cases "serial_pc a")
  case Serial_read
  obtain cs q where r: "serial_int_rx RX_BUFSZ 1 (rx a) = Some (cs, q)"
    using assms Serial_read by (auto simp: serial_thread_step_def Option.bind_eq_Some_conv)
  then show ?thesis using assms Serial_read
    by (cases cs) (auto simp: serial_thread_step_def same_outputs_def on_kernel_def Option.bind_eq_Some_conv)
qed (use assms in \<open>auto simp: serial_thread_step_def same_outputs_def on_kernel_def Let_def Option.bind_eq_Some_conv
      split: prod.splits\<close>)

lemma same_outputs_uart: "uart_isr cs a = Some a' \<Longrightarrow> same_outputs a a'"
  by (auto simp: uart_isr_def same_outputs_def Option.bind_eq_Some_conv)

lemma app_step_outputs:
  assumes "app_step cb a a'"
  shows "pwm_thread_step a = Some a' \<or> same_outputs a a'"
  using assms
proof (cases rule: app_step.cases)
  case hwtimer
  then have "same_outputs a a'" by (rule same_outputs_isr) (auto simp: control_hwtimer_cb_def same_outputs_def)
  then show ?thesis ..
next
  case (uart cs)
  then have "same_outputs a a'" by (rule same_outputs_isr) (rule same_outputs_uart)
  then show ?thesis ..
next
  case phase_u
  then have "same_outputs a a'" unfolding PHASE_U_cb_def by (rule same_outputs_isr) (rule same_outputs_phase)
  then show ?thesis ..
next
  case phase_v
  then have "same_outputs a a'" unfolding PHASE_V_cb_def by (rule same_outputs_isr) (rule same_outputs_phase)
  then show ?thesis ..
next
  case phase_w
  then have "same_outputs a a'" unfolding PHASE_W_cb_def by (rule same_outputs_isr) (rule same_outputs_phase)
  then show ?thesis ..
next
  case (kernel k)
  then show ?thesis by (simp add: same_outputs_def)
qed (simp_all add: same_outputs_adc same_outputs_gpio same_outputs_serial)

text \<open>A step of the program with the call it makes; a step that changes no output makes none.\<close>

inductive wired_step :: "rcc \<Rightarrow> nat \<Rightarrow> (nat \<Rightarrow> kstate \<Rightarrow> kstate option) \<Rightarrow>
    app \<times> tim_regs dev_state \<times> gpio \<Rightarrow> app \<times> tim_regs dev_state \<times> gpio \<Rightarrow> bool" for clk d cb where
  call: "app_step cb a a' \<Longrightarrow> pwm_thread_step a = Some a' \<Longrightarrow> output_call a = Some c \<Longrightarrow>
    do_output clk d c hw = Some hw' \<Longrightarrow> wired_step clk d cb (a, hw) (a', hw')"
| quiet: "app_step cb a a' \<Longrightarrow> same_outputs a a' \<Longrightarrow> wired_step clk d cb (a, hw) (a', hw)"

lemma no_call_same: "output_call a = None \<Longrightarrow> pwm_thread_step a = Some a' \<Longrightarrow> pc_ok (pwm_pc a) \<Longrightarrow> same_outputs a a'"
  by (cases "pwm_pc a")
    (auto simp: output_call_def pwm_thread_step_def pwm_close_step_def same_outputs_def on_kernel_def
      Option.bind_eq_Some_conv split: if_splits)

lemma wired_simulates:
  assumes "outputs_match clk d a hw" "app_inv a" "app_step cb a a'"
  shows "\<exists>hw'. wired_step clk d cb (a, hw) (a', hw') \<and> outputs_match clk d a' hw'"
proof (cases "same_outputs a a'")
  case True
  then have "outputs_match clk d a' hw" using outputs_match_cong [OF assms(1)] by (simp add: same_outputs_def)
  then show ?thesis using wired_step.quiet [OF assms(3) True] by blast
next
  case False
  then have step: "pwm_thread_step a = Some a'" using app_step_outputs [OF assms(3)] by blast
  obtain hw' where hw': "(case output_call a of None \<Rightarrow> Some hw | Some c \<Rightarrow> do_output clk d c hw) = Some hw'"
      "outputs_match clk d a' hw'"
    using outputs_follow_step [OF assms(1,2) step] by blast
  have "pc_ok (pwm_pc a)" using assms(2) by (simp add: app_inv_def outputs_ok_def)
  then obtain c where c: "output_call a = Some c" using no_call_same [OF _ step] False by fastforce
  then have "do_output clk d c hw = Some hw'" using hw'(1) by simp
  from wired_step.call [OF assms(3) step c this] show ?thesis using hw'(2) by blast
qed

text \<open>Whatever the program does, the hardware keeps up: for every run of the program from a state that its
  outputs describe there is a run together with the drivers, and at its end the compare registers of the
  three phases and the relay's pin are those of the program's outputs.\<close>

theorem outputs_follow:
  assumes "(app_step cb)\<^sup>*\<^sup>* a a'" "cb_ok cb" "app_inv a" "outputs_match clk d a hw"
  shows "\<exists>hw'. (wired_step clk d cb)\<^sup>*\<^sup>* (a, hw) (a', hw') \<and> outputs_match clk d a' hw'"
  using assms(1)
proof (induction rule: rtranclp_induct)
  case base
  then show ?case using assms(4) by blast
next
  case (step b b')
  then obtain hw' where hw': "(wired_step clk d cb)\<^sup>*\<^sup>* (a, hw) (b, hw')" "outputs_match clk d b hw'" by blast
  have "app_inv b" using app_reachable_inv [OF step.hyps(1) assms(3,2)] .
  then obtain hw2 where "wired_step clk d cb (b, hw') (b', hw2)" "outputs_match clk d b' hw2"
    using wired_simulates [OF hw'(2) _ step.hyps(2)] by blast
  then show ?case using hw'(1) by (blast intro: rtranclp.rtrancl_into_rtrancl)
qed

text \<open>The channels the closing loop has done are off in the hardware: their compare registers are 0 in every
  state that is reached.\<close>

theorem closed_compare_zero:
  assumes "(app_step cb)\<^sup>*\<^sup>* a a'" "cb_ok cb" "app_inv a" "outputs_match clk d a' hw"
    and "closing (pwm_pc a') c" "c \<in> {1, 2, 3}"
  shows "ccr (drv (fst hw)) c = 0"
proof -
  have "app_inv a'" using app_reachable_inv [OF assms(1,3,2)] .
  then have "pulse_out a' c = 0" using assms(5) by (simp add: app_inv_def outputs_ok_def)
  then have "unat (ccr (drv (fst hw)) c) = 0"
    using assms(4,6) off_compare by (auto simp: outputs_match_def)
  then show ?thesis by (simp add: unat_eq_0)
qed

end
