(* ===== verification/Binary32.thy ===== *)
theory Binary32
  imports Complex_Main AdcFilter
begin

text \<open>
  Single-precision arithmetic for the drivers that use \<open>float\<close>: a float is the rational number it
  stands for, and every operation rounds its exact result to the 24 bits of a significand, to nearest
  and ties to even.  Results that overflow or fall below the normal range do not occur in the
  drivers; where a quotient could be infinite the model has no value.
\<close>

section \<open>Rounding\<close>

text \<open>The absolute value is scaled above \<open>2^24\<close>; a last bit records whether the scaling cut something
  off, so that rounding the integer rounds the number.\<close>

definition fl :: "rat \<Rightarrow> rat" where
  "fl x =
     (if x = 0 then 0
      else (let y = \<bar>x\<bar>; k = 24 + bitlen (nat \<lceil>1 / y\<rceil>); n = nat \<lfloor>y * 2 ^ k\<rfloor>;
                m = 2 * n + (if y * 2 ^ k = of_nat n then 0 else 1) in
            sgn x * (of_nat (fl24 m) / 2 ^ (k + 1))))"

text \<open>Conversion to an unsigned integer truncates, and is undefined outside the range.\<close>

definition float_to_u32 :: "rat \<Rightarrow> u32 option" where
  "float_to_u32 x = (if - 1 < x \<and> x < 2 ^ 32 then Some (word_of_int (if x < 0 then 0 else \<lfloor>x\<rfloor>)) else None)"

lemma fl_0 [simp]: "fl 0 = 0"
  by (simp add: fl_def)

lemma bitlen_eval [simp]:
  "bitlen (numeral k) = Suc (bitlen (numeral k div 2))" "bitlen 0 = 0" "bitlen (Suc 0) = 1"
  by (subst bitlen.simps, simp)+

lemma ceiling_divide_rat: "\<lceil>of_int a / of_int b :: rat\<rceil> = - (- a div b)"
  by (metis ceiling_def floor_divide_of_int_eq minus_divide_left of_int_minus)

lemma floor_divide_rat: "\<lfloor>of_int a / of_int b :: rat\<rfloor> = a div b"
  by (rule floor_divide_of_int_eq)

lemma ceiling_eval [simp]:
  "\<lceil>numeral m / numeral k :: rat\<rceil> = - (- numeral m div numeral k)" "\<lceil>1 / numeral k :: rat\<rceil> = - (- 1 div numeral k)"
  "\<lfloor>numeral m / numeral k :: rat\<rfloor> = numeral m div numeral k" "\<lfloor>1 / numeral k :: rat\<rfloor> = 1 div numeral k"
  using ceiling_divide_rat [of "numeral m" "numeral k"] ceiling_divide_rat [of 1 "numeral k"]
    floor_divide_rat [of "numeral m" "numeral k"] floor_divide_rat [of 1 "numeral k"] by simp_all

lemmas fl_eval = fl_def Let_def fl24_def

section \<open>The rounding error\<close>

lemma bitlen_power: "c \<le> 2 ^ bitlen c"
  using bitlen_bounds [of c] by (cases "c = 0") simp_all

lemma fl_error: "\<bar>fl x - x\<bar> \<le> \<bar>x\<bar> / 2 ^ 23"
proof (cases "x = 0")
  case False
  define y where "y = \<bar>x\<bar>"
  define c where "c = nat \<lceil>1 / y\<rceil>"
  define k where "k = 24 + bitlen c"
  define n where "n = nat \<lfloor>y * 2 ^ k\<rfloor>"
  define m where "m = 2 * n + (if y * 2 ^ k = of_nat n then 0 else 1)"
  define z where "z = y * 2 ^ (k + 1)"
  have y: "0 < y" using False by (simp add: y_def)
  have "1 / y \<le> of_nat c" unfolding c_def by (metis le_of_int_ceiling of_nat_0_le_iff of_nat_nat order_trans nat_le_0 linorder_le_cases of_int_le_0_iff of_nat_le_0_iff of_int_of_nat_eq)
  also have "\<dots> \<le> 2 ^ bitlen c" using bitlen_power [of c] by (metis of_nat_le_iff of_nat_numeral of_nat_power)
  finally have "1 \<le> y * 2 ^ bitlen c" using y by (simp add: field_simps)
  then have z25: "2 ^ 25 \<le> z" by (simp add: z_def k_def power_add)
  have n: "of_nat n \<le> y * 2 ^ k" "y * 2 ^ k < of_nat n + 1"
    using y unfolding n_def by (simp_all add: of_nat_nat) linarith
  have mz: "\<bar>of_nat m - z\<bar> \<le> 1" using n by (auto simp: m_def z_def)
  have f: "of_nat (fl24 m) * 2 ^ 24 \<le> (of_nat m :: rat) * (2 ^ 24 + 1)"
    "(of_nat m :: rat) * (2 ^ 24 - 1) \<le> of_nat (fl24 m) * 2 ^ 24"
  proof -
    have "(of_nat (fl24 m * 2 ^ 24) :: rat) \<le> of_nat (m * (2 ^ 24 + 1))" using fl24_error(1) by (simp only: of_nat_le_iff)
    then show "of_nat (fl24 m) * 2 ^ 24 \<le> (of_nat m :: rat) * (2 ^ 24 + 1)" by simp
    have "(of_nat (m * (2 ^ 24 - 1)) :: rat) \<le> of_nat (fl24 m * 2 ^ 24)" using fl24_error(2) by (simp only: of_nat_le_iff)
    then show "(of_nat m :: rat) * (2 ^ 24 - 1) \<le> of_nat (fl24 m) * 2 ^ 24" by simp
  qed
  have "\<bar>of_nat (fl24 m) - z\<bar> \<le> z / 2 ^ 23"
  proof (rule abs_leI)
    show "of_nat (fl24 m) - z \<le> z / 2 ^ 23" "- (of_nat (fl24 m) - z) \<le> z / 2 ^ 23"
      using f mz [unfolded abs_le_iff] z25 by simp_all
  qed
  then have "\<bar>of_nat (fl24 m) - z\<bar> / 2 ^ (k + 1) \<le> z / 2 ^ 23 / 2 ^ (k + 1)" by (rule divide_right_mono) simp
  then have "\<bar>(of_nat (fl24 m) - z) / 2 ^ (k + 1)\<bar> \<le> z / 2 ^ 23 / 2 ^ (k + 1)" by (simp only: abs_divide) simp
  moreover have "of_nat (fl24 m) / 2 ^ (k + 1) - y = (of_nat (fl24 m) - z) / 2 ^ (k + 1)"
    by (simp add: z_def diff_divide_distrib)
  ultimately have "\<bar>of_nat (fl24 m) / 2 ^ (k + 1) - y\<bar> \<le> z / 2 ^ 23 / 2 ^ (k + 1)"
    by (simp only:)
  also have "\<dots> = y / 2 ^ 23" by (simp add: z_def)
  finally have e: "\<bar>of_nat (fl24 m) / 2 ^ (k + 1) - y\<bar> \<le> y / 2 ^ 23" .
  have fx: "fl x = sgn x * (of_nat (fl24 m) / 2 ^ (k + 1))"
    using False unfolding fl_def Let_def m_def n_def k_def c_def y_def by (simp only: if_False)
  have "fl x - x = sgn x * (of_nat (fl24 m) / 2 ^ (k + 1) - y)"
    by (simp add: fx y_def right_diff_distrib sgn_mult_abs mult_sgn_abs)
  then have "\<bar>fl x - x\<bar> = \<bar>of_nat (fl24 m) / 2 ^ (k + 1) - y\<bar>" using False by (simp add: abs_mult abs_sgn_eq)
  then show ?thesis using e by (simp add: y_def)
qed simp

lemma fl_bounds:
  assumes "0 \<le> x"
  shows "x * (1 - 1 / 2 ^ 23) \<le> fl x" "fl x \<le> x * (1 + 1 / 2 ^ 23)"
  using abs_le_D1 [OF fl_error [of x]] abs_le_D2 [OF fl_error [of x]] assms by (simp_all add: algebra_simps)

lemma fl_nonneg: "0 \<le> x \<Longrightarrow> 0 \<le> fl x"
  using fl_bounds(1) [of x] by (simp add: order_trans [rotated])

lemma fl_pos: "0 < x \<Longrightarrow> 0 < fl x"
  using fl_bounds(1) [of x] by simp

section \<open>Several operations\<close>

text \<open>\<open>x\<close> is the non-negative \<open>y\<close> up to \<open>k\<close> relative errors of \<open>2^-23\<close>.\<close>

definition near :: "nat \<Rightarrow> rat \<Rightarrow> rat \<Rightarrow> bool" where
  "near k x y \<longleftrightarrow> 0 \<le> y \<and> y * (1 - 1 / 2 ^ 23) ^ k \<le> x \<and> x \<le> y * (1 + 1 / 2 ^ 23) ^ k"

lemma near_refl: "0 \<le> x \<Longrightarrow> near 0 x x"
  by (simp add: near_def)

lemma near_nonneg: "near k x y \<Longrightarrow> 0 \<le> x"
  by (auto simp: near_def elim!: order_trans [rotated])

lemma near_fl:
  assumes "near k x y"
  shows "near (Suc k) (fl x) y"
proof -
  note x = near_nonneg [OF assms]
  have "y * (1 - 1 / 2 ^ 23) ^ k * (1 - 1 / 2 ^ 23) \<le> x * (1 - 1 / 2 ^ 23)"
    using assms by (intro mult_right_mono) (simp_all add: near_def)
  also have "\<dots> \<le> fl x" by (rule fl_bounds(1) [OF x])
  finally have l: "y * (1 - 1 / 2 ^ 23) ^ Suc k \<le> fl x" by (simp only: power_Suc2 mult.assoc)
  have "fl x \<le> x * (1 + 1 / 2 ^ 23)" by (rule fl_bounds(2) [OF x])
  also have "\<dots> \<le> y * (1 + 1 / 2 ^ 23) ^ k * (1 + 1 / 2 ^ 23)"
    using assms by (intro mult_right_mono) (simp_all add: near_def)
  finally have "fl x \<le> y * (1 + 1 / 2 ^ 23) ^ Suc k" by (simp only: power_Suc2 mult.assoc)
  then show ?thesis using l assms by (simp only: near_def)
qed

lemma near_mono:
  assumes "near k x y" "k \<le> m"
  shows "near m x y"
proof -
  have "y * (1 - 1 / 2 ^ 23) ^ m \<le> y * (1 - 1 / 2 ^ 23) ^ k"
    using assms by (intro mult_left_mono power_decreasing) (simp_all add: near_def)
  moreover have "y * (1 + 1 / 2 ^ 23) ^ k \<le> y * (1 + 1 / 2 ^ 23) ^ m"
    using assms by (intro mult_left_mono power_increasing) (simp_all add: near_def)
  ultimately show ?thesis using assms(1) unfolding near_def by linarith
qed

lemma near_mult:
  assumes "near k x y" "near m u v"
  shows "near (k + m) (x * u) (y * v)"
proof -
  have "y * (1 - 1 / 2 ^ 23) ^ k * (v * (1 - 1 / 2 ^ 23) ^ m) \<le> x * u"
    using assms near_nonneg [OF assms(1)] by (intro mult_mono) (simp_all add: near_def)
  moreover have "x * u \<le> y * (1 + 1 / 2 ^ 23) ^ k * (v * (1 + 1 / 2 ^ 23) ^ m)"
    using assms near_nonneg [OF assms(2)] by (intro mult_mono) (simp_all add: near_def)
  moreover have "y * a ^ k * (v * a ^ m) = y * v * a ^ (k + m)" for a by (simp add: power_add)
  moreover have "0 \<le> y * v" using assms by (simp add: near_def)
  ultimately show ?thesis by (simp only: near_def)
qed

lemma near_inverse:
  assumes "near m u v" "0 < v"
  shows "near (2 * m) (1 / u) (1 / v)"
proof -
  have *: "0 < u \<Longrightarrow> 0 < v \<Longrightarrow> u * P \<le> v \<Longrightarrow> 1 / v * P \<le> 1 / u" "0 < u \<Longrightarrow> 0 < v \<Longrightarrow> v \<le> u * P \<Longrightarrow> 1 / u \<le> 1 / v * P" for P
    by (simp_all add: field_simps)
  have u: "0 < u" using assms by (auto simp: near_def elim!: order_less_le_trans [rotated])
  have "1 \<le> (1 - 1 / 2 ^ 23 :: rat) ^ m * (1 + 1 / 2 ^ 23) ^ (2 * m)"
    by (simp add: power_mult power_mult_distrib [symmetric] power2_eq_square one_le_power)
  then have "v \<le> v * (1 - 1 / 2 ^ 23) ^ m * (1 + 1 / 2 ^ 23) ^ (2 * m)" using assms(2) by (simp add: mult.assoc)
  also have "\<dots> \<le> u * (1 + 1 / 2 ^ 23) ^ (2 * m)" using assms by (intro mult_right_mono) (simp_all add: near_def)
  finally have h: "1 / u \<le> 1 / v * (1 + 1 / 2 ^ 23) ^ (2 * m)" using u assms(2) by (intro *(2))
  have "(1 + 1 / 2 ^ 23 :: rat) ^ m * (1 - 1 / 2 ^ 23) ^ (2 * m) \<le> 1"
    by (simp add: power_mult power_mult_distrib [symmetric] power2_eq_square power_le_one)
  then have "v * (1 + 1 / 2 ^ 23) ^ m * (1 - 1 / 2 ^ 23) ^ (2 * m) \<le> v"
    using assms(2) by (simp add: mult.assoc mult_le_cancel_left1)
  moreover have "u * (1 - 1 / 2 ^ 23) ^ (2 * m) \<le> v * (1 + 1 / 2 ^ 23) ^ m * (1 - 1 / 2 ^ 23) ^ (2 * m)"
    using assms by (intro mult_right_mono) (simp_all add: near_def)
  ultimately have "u * (1 - 1 / 2 ^ 23) ^ (2 * m) \<le> v" by (rule order_trans [rotated])
  then have "1 / v * (1 - 1 / 2 ^ 23) ^ (2 * m) \<le> 1 / u" using u assms(2) by (intro *(1))
  then show ?thesis using h assms(2) by (simp only: near_def) simp
qed

lemma near_div: "near k x y \<Longrightarrow> near m u v \<Longrightarrow> 0 < v \<Longrightarrow> near (k + 2 * m) (x / u) (y / v)"
  using near_mult [OF _ near_inverse, of k x y m u v] by simp

lemma near_add: "near k x y \<Longrightarrow> near k u v \<Longrightarrow> near k (x + u) (y + v)"
  by (simp add: near_def distrib_right add_mono)

end
