(* ===== verification/HwTimer.thy ===== *)
theory HwTimer
  imports PwmDriver Binary32
begin

text \<open>
  Hardware timers: the device layer of \<open>components/drivers/hwtimer/hwtimer.c\<close>, which splits a time into
  a number of counter overflows and counts them in the interrupt, and the driver
  \<open>libraries/HAL_Drivers/drv_hwtimer.c\<close>.  Each \<open>float\<close> operation is rounded by itself.
\<close>

section \<open>State\<close>

record rt_hwtimer_info =
  maxfreq :: int
  minfreq :: int
  maxcnt :: u32
  cntmode :: u8

abbreviation (input) HWTIMER_CNTMODE_DW :: u8 where "HWTIMER_CNTMODE_DW \<equiv> 2"
abbreviation (input) HWTIMER_MODE_ONESHOT :: u32 where "HWTIMER_MODE_ONESHOT \<equiv> 1"
abbreviation (input) HWTIMER_MODE_PERIOD :: u32 where "HWTIMER_MODE_PERIOD \<equiv> 2"
abbreviation (input) HWTIMER_CTRL_FREQ_SET :: int where "HWTIMER_CTRL_FREQ_SET \<equiv> 1"
abbreviation (input) HWTIMER_CTRL_STOP :: int where "HWTIMER_CTRL_STOP \<equiv> 2"
abbreviation (input) HWTIMER_CTRL_INFO_GET :: int where "HWTIMER_CTRL_INFO_GET \<equiv> 3"
abbreviation (input) HWTIMER_CTRL_MODE_SET :: int where "HWTIMER_CTRL_MODE_SET \<equiv> 4"

text \<open>The registers of the timer, the two further registers of its interrupt, whether the interrupt
  is enabled in the controller, and the fields of the device.  The overflow counter is a 32-bit
  signed number, kept as its bits.\<close>

record rt_hwtimer =
  hw_tim :: tim_regs
  hw_dier :: u32
  hw_sr :: u32
  hw_irq :: bool
  hw_freq :: int
  hw_overflow :: u32
  hw_period_sec :: rat
  hw_cycles :: int
  hw_reload :: int
  hw_mode :: u32

record rt_hwtimer_ops =
  h_init :: "(bool \<Rightarrow> rt_hwtimer \<Rightarrow> rt_hwtimer) option"
  h_start :: "(u32 \<Rightarrow> u32 \<Rightarrow> rt_hwtimer \<Rightarrow> rt_err_t \<times> rt_hwtimer) option"
  h_stop :: "(rt_hwtimer \<Rightarrow> rt_hwtimer) option"
  h_count_get :: "(rt_hwtimer \<Rightarrow> u32) option"
  h_control :: "(int \<Rightarrow> u32 \<Rightarrow> rt_hwtimer \<Rightarrow> (rt_err_t \<times> rt_hwtimer) option) option"

section \<open>Splitting a time\<close>

text \<open>The search for the number of overflows: the first that leaves no rest, or the best before the
  rest grows.  An \<open>int\<close> that is counted past its range, and a division by the initial \<open>index\<close> 0, have
  no value.\<close>

function timeout_search :: "rat \<Rightarrow> rat \<Rightarrow> rat \<Rightarrow> nat \<Rightarrow> rat \<Rightarrow> nat \<Rightarrow> (nat \<times> rat) option" where
  "timeout_search f ovf tv i devi_min index =
     (if 2 ^ 31 \<le> i then None
      else let timeout = fl (tv / fl (of_nat i)) in
        if timeout \<le> ovf then do {
          counter \<leftarrow> float_to_u32 (fl (timeout * f));
          let devi = fl (tv - fl (fl (fl (of_nat (unat counter)) / f) * fl (of_nat i)));
          if devi > devi_min then (if index = 0 then None else Some (index, fl (tv / fl (of_nat index))))
          else if devi = 0 then Some (i, timeout)
          else if devi < devi_min then timeout_search f ovf tv (Suc i) devi i
          else timeout_search f ovf tv (Suc i) devi_min index
        } else timeout_search f ovf tv (Suc i) devi_min index)"
  by pat_completeness auto
termination by (relation "measure (\<lambda>(f, ovf, tv, i, _). 2 ^ 31 - i)") auto

declare timeout_search.simps [simp del]

text \<open>The results are the number of overflows, the time of one, and the count that gives it.\<close>

definition timeout_calc :: "rt_hwtimer_info \<Rightarrow> int \<Rightarrow> int \<times> int \<Rightarrow> (nat \<times> rat \<times> u32) option" where
  "timeout_calc info freq tv = do {
     let f = fl (of_int freq);
     c_defined (f \<noteq> 0);
     let overflow = fl (fl (of_nat (unat (maxcnt info))) / f);
     let tv_sec = fl (fl (of_int (fst tv)) + fl (fl (of_int (snd tv)) / 1000000));
     (i, timeout) \<leftarrow> (if tv_sec < fl (1 / f) then Some (0, fl (1 / f))
                     else timeout_search f overflow tv_sec 1 1 0);
     counter \<leftarrow> float_to_u32 (fl (timeout * f));
     Some (i, timeout, counter)
   }"

section \<open>The device layer\<close>

definition hw_upd :: "(rt_hwtimer \<Rightarrow> rt_hwtimer) \<Rightarrow> rt_hwtimer dev_state \<Rightarrow> rt_hwtimer dev_state" where
  "hw_upd f st = st\<lparr>drv := f (drv st)\<rparr>"

lemma hw_upd_sel [simp]:
  "dev (hw_upd f st) = dev st" "drv (hw_upd f st) = f (drv st)" "kern (hw_upd f st) = kern st"
  by (simp_all add: hw_upd_def)

definition rt_hwtimer_init :: "rt_hwtimer_info \<Rightarrow> rt_hwtimer_ops \<Rightarrow> rt_hwtimer dev_state \<Rightarrow>
    (rt_err_t \<times> rt_hwtimer dev_state) option" where
  "rt_hwtimer_init info ops st =
     (let freq = (if 1000000 \<le> maxfreq info \<and> 1000000 \<ge> minfreq info then 1000000 else minfreq info);
          st = hw_upd (\<lambda>t. t\<lparr>hw_freq := freq, hw_mode := HWTIMER_MODE_ONESHOT, hw_cycles := 0, hw_overflow := 0\<rparr>) st in
      case h_init ops of
        Some f \<Rightarrow> Some (RT_EOK, hw_upd (f True) st)
      | None \<Rightarrow> Some (- RT_ENOSYS, st))"

definition rt_hwtimer_open :: "rt_hwtimer_ops \<Rightarrow> u16 \<Rightarrow> rt_hwtimer dev_state \<Rightarrow> (rt_err_t \<times> rt_hwtimer dev_state) option" where
  "rt_hwtimer_open ops oflag st =
     (case h_control ops of
        Some f \<Rightarrow> do {
          (e, t) \<leftarrow> f HWTIMER_CTRL_FREQ_SET (word_of_int (hw_freq (drv st))) (drv st);
          Some (RT_EOK, st\<lparr>drv := t\<rparr>)
        }
      | None \<Rightarrow> Some (- RT_ENOSYS, st))"

definition rt_hwtimer_close :: "rt_hwtimer_ops \<Rightarrow> rt_hwtimer dev_state \<Rightarrow> (rt_err_t \<times> rt_hwtimer dev_state) option" where
  "rt_hwtimer_close ops st =
     (let (result, st) = (case h_init ops of Some f \<Rightarrow> (RT_EOK, hw_upd (f False) st) | None \<Rightarrow> (- RT_ENOSYS, st)) in
      Some (result, upd_dev (\<lambda>d. d\<lparr>dev_flag := dev_flag d AND NOT RT_DEVICE_FLAG_ACTIVATED, rx_indicate := None\<rparr>) st))"

text \<open>Conversion to a signed integer truncates towards zero.\<close>

definition float_to_i32 :: "rat \<Rightarrow> int option" where
  "float_to_i32 x = (if - (2 ^ 31) - 1 < x \<and> x < 2 ^ 31 then Some (if x < 0 then \<lceil>x\<rceil> else \<lfloor>x\<rfloor>) else None)"

text \<open>The time that has passed, as the bytes of its seconds and microseconds.\<close>

definition rt_hwtimer_read :: "rt_hwtimer_info \<Rightarrow> rt_hwtimer_ops \<Rightarrow> int \<Rightarrow> u32 \<Rightarrow> nat \<Rightarrow> rt_hwtimer dev_state \<Rightarrow>
    ((u8 list \<times> nat) \<times> rt_hwtimer dev_state) option" where
  "rt_hwtimer_read info ops pos buffer n st =
     (case h_count_get ops of
        None \<Rightarrow> Some (([], 0), st)
      | Some f \<Rightarrow> do {
          let timer = drv st;
          let cnt = f timer;
          let overflow = sint (hw_overflow timer);
          let freq = fl (of_int (hw_freq timer));
          cnt \<leftarrow> (if cntmode info = HWTIMER_CNTMODE_DW
                 then float_to_u32 (fl (fl (freq * hw_period_sec timer) - fl (of_nat (unat cnt)))) else Some cnt);
          c_defined (freq \<noteq> 0);
          let t = fl (fl (fl (of_int overflow) * hw_period_sec timer) + fl (fl (of_nat (unat cnt)) / freq));
          sec \<leftarrow> float_to_i32 t;
          usec \<leftarrow> float_to_i32 (fl (fl (t - fl (of_int sec)) * 1000000));
          let m = min n 8;
          Some ((take m (word_bytes (word_of_int sec) @ word_bytes (word_of_int usec)), m), st)
        })"

definition rt_hwtimer_write :: "rt_hwtimer_info \<Rightarrow> rt_hwtimer_ops \<Rightarrow> int \<Rightarrow> u32 \<Rightarrow> u8 list \<Rightarrow> rt_hwtimer dev_state \<Rightarrow>
    (('l, nat) outcome \<times> rt_hwtimer dev_state) option" where
  "rt_hwtimer_write info ops pos buffer bytes st =
     (case (h_start ops, h_stop ops) of
        (Some start, Some stop) \<Rightarrow>
          if length bytes \<noteq> 8 then Some (Return 0, st)
          else do {
            let st = hw_upd (\<lambda>t. (stop t)\<lparr>hw_overflow := 0\<rparr>) st;
            (i, timeout, counter) \<leftarrow> timeout_calc info (hw_freq (drv st))
              (sint (bytes_word (take 4 bytes)), sint (bytes_word (drop 4 bytes)));
            let st = hw_upd (\<lambda>t. t\<lparr>hw_cycles := int i, hw_reload := int i, hw_period_sec := timeout\<rparr>) st;
            let opm = (if hw_cycles (drv st) \<le> 1 \<and> hw_mode (drv st) = HWTIMER_MODE_ONESHOT
                       then HWTIMER_MODE_ONESHOT else HWTIMER_MODE_PERIOD);
            let (e, t) = start counter opm (drv st);
            Some (Return (if e \<noteq> RT_EOK then 0 else length bytes), st\<lparr>drv := t\<rparr>)
          }
      | _ \<Rightarrow> Some (Return 0, st))"

text \<open>A null pointer for the argument is \<open>None\<close>.  A frequency is compared with the limits as an unsigned
  number.\<close>

definition rt_hwtimer_control :: "rt_hwtimer_info \<Rightarrow> rt_hwtimer_ops \<Rightarrow> int \<times> u32 option \<Rightarrow> rt_hwtimer dev_state \<Rightarrow>
    ((rt_err_t \<times> rt_hwtimer_info option) \<times> rt_hwtimer dev_state) option" where
  "rt_hwtimer_control info ops cmd st =
     (if fst cmd = HWTIMER_CTRL_STOP then
        (case h_stop ops of
           Some stop \<Rightarrow> Some ((RT_EOK, None), hw_upd stop st)
         | None \<Rightarrow> Some ((- RT_ENOSYS, None), st))
      else if fst cmd = HWTIMER_CTRL_FREQ_SET then
        (case snd cmd of
           None \<Rightarrow> Some ((- RT_EEMPTY, None), st)
         | Some f \<Rightarrow>
             if f > word_of_int (maxfreq info) \<or> f < word_of_int (minfreq info) then Some ((- RT_ERROR, None), st)
             else case h_control ops of
               None \<Rightarrow> Some ((- RT_ENOSYS, None), st)
             | Some control \<Rightarrow> do {
                 (result, t) \<leftarrow> control HWTIMER_CTRL_FREQ_SET f (drv st);
                 let st = st\<lparr>drv := t\<rparr>;
                 Some ((result, None), if result = RT_EOK then hw_upd (\<lambda>t. t\<lparr>hw_freq := sint f\<rparr>) st else st)
               })
      else if fst cmd = HWTIMER_CTRL_INFO_GET then
        (case snd cmd of
           None \<Rightarrow> Some ((- RT_EEMPTY, None), st)
         | Some _ \<Rightarrow> Some ((RT_EOK, Some info), st))
      else if fst cmd = HWTIMER_CTRL_MODE_SET then
        (case snd cmd of
           None \<Rightarrow> Some ((- RT_EEMPTY, None), st)
         | Some m \<Rightarrow>
             if m \<noteq> HWTIMER_MODE_ONESHOT \<and> m \<noteq> HWTIMER_MODE_PERIOD then Some ((- RT_ERROR, None), st)
             else Some ((RT_EOK, None), hw_upd (\<lambda>t. t\<lparr>hw_mode := m\<rparr>) st))
      else Some ((- RT_ENOSYS, None), st))"

text \<open>The interrupt: the result is the client's callback, when it is called.\<close>

definition rt_device_hwtimer_isr :: "rt_hwtimer_ops \<Rightarrow> rt_hwtimer dev_state \<Rightarrow> nat option \<times> rt_hwtimer dev_state" where
  "rt_device_hwtimer_isr ops st =
     (let st = hw_upd (\<lambda>t. t\<lparr>hw_overflow := hw_overflow t + 1,
                         hw_cycles := (if hw_cycles t \<noteq> 0 then hw_cycles t - 1 else hw_cycles t)\<rparr>) st in
      if hw_cycles (drv st) = 0 then
        (let st = hw_upd (\<lambda>t. t\<lparr>hw_cycles := hw_reload t\<rparr>) st;
             st = (if hw_mode (drv st) = HWTIMER_MODE_ONESHOT
                   then (case h_stop ops of Some stop \<Rightarrow> hw_upd stop st | None \<Rightarrow> st) else st) in
         (rx_indicate (dev st), st))
      else (None, st))"

definition hwtimer_ops :: "rt_hwtimer_info \<Rightarrow> rt_hwtimer_ops \<Rightarrow>
    (rt_hwtimer, unit, int \<times> u32 option, rt_hwtimer_info) rt_device_ops" where
  "hwtimer_ops info ops = \<lparr>op_init = Some (rt_hwtimer_init info ops), op_open = Some (rt_hwtimer_open ops),
     op_close = Some (rt_hwtimer_close ops), op_read = Some (rt_hwtimer_read info ops),
     op_write = Some (rt_hwtimer_write info ops), op_control = Some (rt_hwtimer_control info ops)\<rparr>"

definition rt_device_hwtimer_register :: "nat \<Rightarrow> u8 list \<Rightarrow> rt_hwtimer dev_state \<Rightarrow>
    (rt_err_t \<times> rt_hwtimer dev_state) option" where
  "rt_device_hwtimer_register i name st =
     rt_device_register (Some i) name (3 OR RT_DEVICE_FLAG_STANDALONE)
       (upd_dev (\<lambda>d. d\<lparr>dev_type := 17, rx_indicate := None, tx_complete := None\<rparr>) st)"

section \<open>The driver\<close>

text \<open>The clock configuration: the buses' frequencies and whether their dividers are 1.\<close>

record hw_rcc = rcc +
  apb1_div1 :: bool
  apb2_div1 :: bool

definition pclkx_doubler_get :: "hw_rcc \<Rightarrow> u32 \<times> u32" where
  "pclkx_doubler_get clk = (if apb1_div1 clk then 1 else 2, if apb2_div1 clk then 1 else 2)"

definition hw_clock :: "hw_rcc \<Rightarrow> tim_regs \<Rightarrow> u32" where
  "hw_clock clk r =
     (let (d1, d2) = pclkx_doubler_get clk in
      if tim_no r = 9 \<or> tim_no r = 10 \<or> tim_no r = 11 then pclk2 clk * d2 else pclk1 clk * d1)"

text \<open>\<open>HAL_TIM_Base_Init\<close> is an argument; it takes the prescaler, the period and the direction of counting
  from the handle, and may fail.\<close>

type_synonym base_init = "u32 \<Rightarrow> u32 \<Rightarrow> bool \<Rightarrow> tim_regs \<Rightarrow> bool \<times> tim_regs"

abbreviation (input) TIM_OPMODE_SINGLE :: u32 where "TIM_OPMODE_SINGLE \<equiv> 0x8"
abbreviation (input) TIM_IT_UPDATE :: u32 where "TIM_IT_UPDATE \<equiv> 0x1"

definition timer_init :: "base_init \<Rightarrow> rt_hwtimer_info \<Rightarrow> hw_rcc \<Rightarrow> bool \<Rightarrow> rt_hwtimer \<Rightarrow> rt_hwtimer" where
  "timer_init base info clk state t =
     (if state then
        (let prescaler_value = hw_clock clk (hw_tim t) div 10000 - 1;
             (ok, r) = base prescaler_value 9999 (cntmode info = 1) ((hw_tim t)\<lparr>init_period := 9999\<rparr>) in
         if \<not> ok then t\<lparr>hw_tim := r\<rparr>
         else t\<lparr>hw_tim := r\<lparr>cr1 := cr1 r OR TIM_CR1_URS\<rparr>, hw_irq := True, hw_sr := hw_sr t AND NOT 1\<rparr>)
      else t)"

definition HAL_TIM_Base_Start_IT :: "rt_hwtimer \<Rightarrow> rt_hwtimer" where
  "HAL_TIM_Base_Start_IT t =
     (let t = t\<lparr>hw_dier := hw_dier t OR TIM_IT_UPDATE\<rparr>; r = hw_tim t in
      if smcr r AND 0x7 \<noteq> TIM_SLAVEMODE_TRIGGER then t\<lparr>hw_tim := r\<lparr>cr1 := cr1 r OR TIM_CR1_CEN\<rparr>\<rparr> else t)"

definition HAL_TIM_Base_Stop_IT :: "rt_hwtimer \<Rightarrow> rt_hwtimer" where
  "HAL_TIM_Base_Stop_IT t =
     (let t = t\<lparr>hw_dier := hw_dier t AND NOT TIM_IT_UPDATE\<rparr>; r = hw_tim t in
      if all_channels_off r then t\<lparr>hw_tim := r\<lparr>cr1 := cr1 r AND NOT TIM_CR1_CEN\<rparr>\<rparr> else t)"

definition timer_start :: "u32 \<Rightarrow> u32 \<Rightarrow> rt_hwtimer \<Rightarrow> rt_err_t \<times> rt_hwtimer" where
  "timer_start count opmode t =
     (let r = (hw_tim t)\<lparr>cnt := 0\<rparr>;
          r = r\<lparr>arr := count - 1, init_period := count - 1\<rparr>;
          r = (if opmode = HWTIMER_MODE_ONESHOT then r\<lparr>cr1 := cr1 r OR TIM_OPMODE_SINGLE\<rparr>
               else r\<lparr>cr1 := cr1 r AND NOT TIM_OPMODE_SINGLE\<rparr>) in
      (RT_EOK, HAL_TIM_Base_Start_IT (t\<lparr>hw_tim := r\<rparr>)))"

definition timer_stop :: "rt_hwtimer \<Rightarrow> rt_hwtimer" where
  "timer_stop t = (let t = HAL_TIM_Base_Stop_IT t in t\<lparr>hw_tim := (hw_tim t)\<lparr>cnt := 0\<rparr>\<rparr>)"

text \<open>The divisor is cut to 16 bits before one is subtracted.\<close>

definition timer_ctrl :: "hw_rcc \<Rightarrow> int \<Rightarrow> u32 \<Rightarrow> rt_hwtimer \<Rightarrow> (rt_err_t \<times> rt_hwtimer) option" where
  "timer_ctrl clk cmd freq t =
     (if cmd = HWTIMER_CTRL_FREQ_SET then do {
        c_defined (freq \<noteq> 0);
        let val = (ucast (hw_clock clk (hw_tim t) div freq) :: u16);
        let r = (hw_tim t)\<lparr>psc := ucast val - 1\<rparr>;
        Some (RT_EOK, t\<lparr>hw_tim := r\<lparr>egr := egr r OR TIM_EVENTSOURCE_UPDATE\<rparr>\<rparr>)
      } else Some (- RT_ENOSYS, t))"

definition timer_counter_get :: "rt_hwtimer \<Rightarrow> u32" where
  "timer_counter_get t = cnt (hw_tim t)"

definition stm32_hwtimer_info :: rt_hwtimer_info where
  "stm32_hwtimer_info = \<lparr>maxfreq = 1000000, minfreq = 3000, maxcnt = 0xFFFF, cntmode = 1\<rparr>"

definition stm32_hwtimer_ops :: "base_init \<Rightarrow> hw_rcc \<Rightarrow> rt_hwtimer_ops" where
  "stm32_hwtimer_ops base clk = \<lparr>h_init = Some (timer_init base stm32_hwtimer_info clk), h_start = Some timer_start,
     h_stop = Some timer_stop, h_count_get = Some timer_counter_get, h_control = Some (timer_ctrl clk)\<rparr>"

section \<open>The accuracy of the split\<close>

lemma timeout_search_result:
  assumes "timeout_search f ovf tv i dm idx = Some (j, t)" "0 < i" "idx < i" "idx = 0 \<or> fl (tv / fl (of_nat idx)) \<le> ovf"
  shows "0 < j \<and> t = fl (tv / fl (of_nat j)) \<and> t \<le> ovf"
  using assms
proof (induction f ovf tv i dm idx rule: timeout_search.induct)
  case (1 f ovf tv i dm idx)
  let ?t = "fl (tv / fl (of_nat i))"
  show ?case
  proof (cases "2 ^ 31 \<le> i")
    case True
    then show ?thesis using 1(4) by (subst (asm) timeout_search.simps) simp
  next
    case i: False
    show ?thesis
    proof (cases "?t \<le> ovf")
      case False
      then have "timeout_search f ovf tv (Suc i) dm idx = Some (j, t)"
        using 1(4) i by (subst (asm) timeout_search.simps) (simp add: Let_def)
      then show ?thesis using 1(3) [OF i refl False] 1(5-7) by simp
    next
      case le: True
      obtain c where c: "float_to_u32 (fl (?t * f)) = Some c"
        using 1(4) i le by (subst (asm) timeout_search.simps) (auto simp: Let_def Option.bind_eq_Some_conv)
      define d where "d = fl (tv - fl (fl (fl (of_nat (unat c)) / f) * fl (of_nat i)))"
      have "timeout_search f ovf tv i dm idx =
          (if d > dm then (if idx = 0 then None else Some (idx, fl (tv / fl (of_nat idx))))
          else if d = 0 then Some (i, ?t)
          else if d < dm then timeout_search f ovf tv (Suc i) d i
          else timeout_search f ovf tv (Suc i) dm idx)"
        by (subst timeout_search.simps) (simp only: Let_def d_def i le c if_True if_False bind.bind_lunit)
      note eq = 1(4) [unfolded this]
      show ?thesis
      proof (cases "d > dm")
        case True
        then show ?thesis using eq 1(7) by (auto split: if_splits)
      next
        case dm: False
        show ?thesis
        proof (cases "d = 0")
          case True
          then show ?thesis using eq dm le 1(5) by auto
        next
          case d: False
          show ?thesis
          proof (cases "d < dm")
            case True
            then have "timeout_search f ovf tv (Suc i) d i = Some (j, t)" using eq d dm by simp
            then show ?thesis using 1(1) [OF i refl le c, folded d_def, OF refl dm d True] le by simp
          next
            case False
            then have "timeout_search f ovf tv (Suc i) dm idx = Some (j, t)" using eq d dm by simp
            then show ?thesis using 1(2) [OF i refl le c, folded d_def, OF refl dm d False] 1(5-7) by simp
          qed
        qed
      qed
    qed
  qed
qed

lemma float_to_u32_floor:
  assumes "float_to_u32 x = Some n" "0 \<le> x"
  shows "of_nat (unat n) \<le> x" "x < of_nat (unat n) + 1"
proof -
  have n: "n = word_of_int \<lfloor>x\<rfloor>" "x < 2 ^ 32" using assms by (simp_all add: float_to_u32_def split: if_splits)
  then have "\<lfloor>x\<rfloor> < 2 ^ 32" "0 \<le> \<lfloor>x\<rfloor>" using assms(2) by (simp_all add: floor_less_iff)
  then have "int (unat n) = \<lfloor>x\<rfloor>" by (simp add: n(1) unsigned_of_int take_bit_int_eq_self)
  then have "(of_nat (unat n) :: rat) = of_int \<lfloor>x\<rfloor>" by (metis of_int_of_nat_eq)
  then show "of_nat (unat n) \<le> x" "x < of_nat (unat n) + 1" by linarith+
qed

lemma near_of_int: "0 \<le> n \<Longrightarrow> near (Suc 0) (fl (of_int n)) (of_int n)"
  using near_fl [OF near_refl, of "of_int n"] by simp

lemma near_of_nat: "near (Suc 0) (fl (of_nat n)) (of_nat n)"
  using near_fl [OF near_refl, of "of_nat n"] by simp

lemma near_8: "near 8 x y \<Longrightarrow> \<bar>x - y\<bar> \<le> y / 2 ^ 19"
proof -
  assume n: "near 8 x y"
  then have y: "0 \<le> y" "y * (1 - 1 / 2 ^ 23) ^ 8 \<le> x" "x \<le> y * (1 + 1 / 2 ^ 23) ^ 8" by (simp_all only: near_def)
  have "y * (1 - 1 / 2 ^ 19) \<le> y * (1 - 1 / 2 ^ 23) ^ 8" "y * (1 + 1 / 2 ^ 23) ^ 8 \<le> y * (1 + 1 / 2 ^ 19)"
    using y(1) by (auto intro!: mult_left_mono simp: power_numeral_odd power_numeral_even power_divide)
  then have "y * (1 - 1 / 2 ^ 19) \<le> x" "x \<le> y * (1 + 1 / 2 ^ 19)" using y(2,3) by (blast intro: order_trans)+
  then show ?thesis by (intro abs_leI) (simp_all add: algebra_simps)
qed

text \<open>C40. When the split of a non-negative time needs \<open>i > 0\<close> overflows of \<open>n\<close> counts each, then \<open>i * n\<close> is the
  time in counts up to \<open>i\<close> counts and a relative error of \<open>2^-19\<close>, and \<open>n\<close> fits into the counter.\<close>

theorem timeout_calc_accurate:
  assumes calc: "timeout_calc info f (sec, usec) = Some (i, t, n)" and i: "0 < i"
    and pos: "0 < f" "0 \<le> sec" "0 \<le> usec"
  shows "\<bar>of_nat i * of_nat (unat n) - (of_int sec + of_int usec / 1000000) * of_int f\<bar> \<le>
      of_nat i + (of_int sec + of_int usec / 1000000) * of_int f / (2 ^ 19 :: rat) \<and>
    (maxcnt info \<le> 2 ^ 20 \<longrightarrow> n \<le> maxcnt info)"
proof -
  define T :: rat where "T = (of_int sec + of_int usec / 1000000) * of_int f"
  define F where "F = fl (of_int f)"
  define tv where "tv = fl (fl (of_int sec) + fl (fl (of_int usec) / 1000000))"
  define ovf where "ovf = fl (fl (of_nat (unat (maxcnt info))) / F)"
  have F: "near (Suc 0) F (of_int f)" unfolding F_def using pos by (intro near_of_int) simp
  have F0: "0 < F" using fl_pos [of "of_int f"] pos by (simp add: F_def)
  have s: "(if tv < fl (1 / F) then Some (0, fl (1 / F)) else timeout_search F ovf tv 1 1 0) = Some (i, t)"
    and n: "float_to_u32 (fl (t * F)) = Some n"
    using calc by (auto simp: timeout_calc_def Let_def Option.bind_eq_Some_conv F_def tv_def ovf_def)
  have "timeout_search F ovf tv 1 1 0 = Some (i, t)" using s i by (auto split: if_splits)
  then have t: "t = fl (tv / fl (of_nat i))" "t \<le> ovf" using timeout_search_result [of F ovf tv 1 1 0 i t] by auto
  have "near 2 (fl (fl (of_int usec) / 1000000)) (of_int usec / 1000000)"
    using near_fl [OF near_div [OF near_of_int near_refl], of usec 1000000] pos by (simp add: numeral_2_eq_2)
  then have "near 2 (fl (of_int sec) + fl (fl (of_int usec) / 1000000)) (of_int sec + of_int usec / 1000000)"
    using near_mono [OF near_of_int, of sec 2] pos by (intro near_add) simp_all
  then have tv: "near 3 tv (of_int sec + of_int usec / 1000000)" using near_fl unfolding tv_def by fastforce
  have t': "near 6 t ((of_int sec + of_int usec / 1000000) / of_nat i)"
    using near_fl [OF near_div [OF tv near_of_nat [of i]]] i by (simp add: t(1))
  have "near 8 (fl (t * F)) (T / of_nat i)"
    using near_fl [OF near_mult [OF t' F]] by (simp add: T_def)
  then have x: "near 8 (of_nat i * fl (t * F)) T"
    using near_mult [OF near_refl, of "of_nat i" 8 "fl (t * F)" "T / of_nat i"] i by simp
  have t0: "0 \<le> t" by (rule near_nonneg [OF t'])
  note nn = float_to_u32_floor [OF n fl_nonneg]
  have n1: "of_nat (unat n) \<le> fl (t * F)" "fl (t * F) < of_nat (unat n) + 1" using nn t0 F0 by simp_all
  have "of_nat i * of_nat (unat n) \<le> of_nat i * fl (t * F)" using n1 by (intro mult_left_mono) simp_all
  moreover have "of_nat i * fl (t * F) \<le> of_nat i * (of_nat (unat n) + 1)" using n1 by (intro mult_left_mono) simp_all
  moreover have "\<bar>of_nat i * fl (t * F) - T\<bar> \<le> T / 2 ^ 19" by (rule near_8 [OF x])
  moreover have "\<bar>N - T\<bar> \<le> I + E" if "N \<le> X" "X \<le> I * (M + 1)" "\<bar>X - T\<bar> \<le> E" "N = I * M" "0 \<le> I" for N X I M E :: rat
    using that unfolding abs_le_iff by (simp add: algebra_simps)
  ultimately have "\<bar>of_nat i * of_nat (unat n) - T\<bar> \<le> of_nat i + T / 2 ^ 19" by (metis of_nat_0_le_iff)
  moreover have "n \<le> maxcnt info" if m: "maxcnt info \<le> 2 ^ 20"
  proof -
    let ?m = "of_nat (unat (maxcnt info)) :: rat"
    have "unat (maxcnt info) \<le> 2 ^ 20" using m by (simp add: word_le_nat_alt)
    then have "?m \<le> of_nat (2 ^ 20)" by (simp only: of_nat_le_iff)
    then have m': "?m \<le> 2 ^ 20" by (simp only: of_nat_power of_nat_numeral)
    have "near 4 ovf (?m / of_int f)"
      unfolding ovf_def by (rule near_mono [OF near_fl [OF near_div [OF near_of_nat F]]]) (use pos in simp_all)
    then have "near (4 + Suc 0) (ovf * F) (?m / of_int f * of_int f)" by (rule near_mult [OF _ F])
    moreover have "?m / of_int f * of_int f = ?m" using pos by simp
    ultimately have "near (4 + Suc 0) (ovf * F) ?m" by (simp only:)
    then have "ovf * F \<le> ?m * (1 + 1 / 2 ^ 23) ^ (4 + Suc 0)" by (simp only: near_def)
    then have "ovf * F \<le> ?m * (1 + 1 / 2 ^ 23) ^ 5" by (simp only: add_Suc_right add_0_right Suc_numeral arith_simps)
    moreover have "t * F \<le> ovf * F" using t(2) F0 by (intro mult_right_mono) simp_all
    ultimately have "t * F \<le> ?m * (1 + 1 / 2 ^ 23) ^ 5" by (rule order_trans [rotated])
    then have "t * F * (1 + 1 / 2 ^ 23) \<le> ?m * (1 + 1 / 2 ^ 23) ^ 5 * (1 + 1 / 2 ^ 23)" by (rule mult_right_mono) simp
    moreover have "fl (t * F) \<le> t * F * (1 + 1 / 2 ^ 23)" using t0 F0 by (intro fl_bounds) simp
    moreover have "?m * ((1 + 1 / 2 ^ 23) ^ 5 * (1 + 1 / 2 ^ 23)) \<le> ?m * (1 + 7 / 2 ^ 23)"
      by (rule mult_left_mono [OF _ of_nat_0_le_iff]) (simp add: power_numeral_odd power_numeral_even)
    moreover have "?m * (1 + 7 / 2 ^ 23) < ?m + 1" using m' by (simp only: distrib_left) simp
    ultimately have "fl (t * F) < ?m + 1" by (simp only: mult.assoc)
    then have "(of_nat (unat n) :: rat) < of_nat (unat (maxcnt info) + 1)" using n1(1) by simp
    then show ?thesis by (simp only: of_nat_less_iff word_le_nat_alt)
  qed
  ultimately show ?thesis unfolding T_def by blast
qed

text \<open>What the application asks for, a tenth of a millisecond, is met exactly; but 247 microseconds come out
  one count short, since the product of the rounded time and the frequency is just below 247, and a
  time of a day has no result at all.\<close>

lemma fl_values:
  "fl 1000000 = 1000000" "fl 65535 = 65535" "fl 100 = 100" "fl 1 = 1" "fl (1 / 10000) = 13743895 / 137438953472"
  "fl (1 / 1000000) = 8796093 / 8796093022208" "fl (13107 / 200000) = 8795959 / 134217728"
  "fl (13743895 / 137438953472) = 13743895 / 137438953472" "fl (214748359375 / 2147483648) = 100"
  by (simp_all add: fl_eval)

lemma timeout_100us: "timeout_calc stm32_hwtimer_info 1000000 (0, 100) = Some (1, fl (1 / 10000), 100)"
proof -
  have "timeout_search 1000000 (fl (13107 / 200000)) (13743895 / 137438953472) (Suc 0) 1 0 =
      Some (Suc 0, 13743895 / 137438953472)"
    by (subst timeout_search.simps) (simp add: fl_values Let_def float_to_u32_def)
  then show ?thesis
    by (simp add: fl_values timeout_calc_def stm32_hwtimer_info_def Let_def float_to_u32_def)
qed

section \<open>Interrupts\<close>

text \<open>A number of interrupts one after another, with the number of calls of the client.\<close>

fun isr_run :: "rt_hwtimer_ops \<Rightarrow> nat \<Rightarrow> rt_hwtimer dev_state \<Rightarrow> nat \<times> rt_hwtimer dev_state" where
  "isr_run ops 0 st = (0, st)"
| "isr_run ops (Suc k) st =
     (let (cb, st) = rt_device_hwtimer_isr ops st; (n, st) = isr_run ops k st in
      ((if cb = None then n else Suc n), st))"

lemma isr_run_calls:
  assumes "hw_mode (drv st) \<noteq> HWTIMER_MODE_ONESHOT" "rx_indicate (dev st) \<noteq> None"
    "hw_reload (drv st) = int r" "hw_cycles (drv st) = int c" "c \<le> r" "0 < r \<Longrightarrow> 0 < c"
  shows "fst (isr_run ops k st) = (k + (r - c)) div max 1 r \<and>
    hw_overflow (drv (snd (isr_run ops k st))) = hw_overflow (drv st) + of_nat k"
  using assms
proof (induction k arbitrary: st c)
  case 0
  then show ?case by (cases "r = 0") simp_all
next
  case (Suc k)
  obtain cb st1 where i: "rt_device_hwtimer_isr ops st = (cb, st1)" by (cases "rt_device_hwtimer_isr ops st")
  obtain n st2 where run: "isr_run ops k st1 = (n, st2)" by (cases "isr_run ops k st1")
  define c1 where "c1 = (if c \<le> 1 then r else c - 1)"
  have st1: "hw_mode (drv st1) \<noteq> HWTIMER_MODE_ONESHOT" "rx_indicate (dev st1) \<noteq> None" "hw_reload (drv st1) = int r"
    "hw_cycles (drv st1) = int c1" "hw_overflow (drv st1) = hw_overflow (drv st) + 1" "cb = None \<longleftrightarrow> 1 < c"
    using i Suc.prems by (cases "rx_indicate (dev st)"; auto simp: rt_device_hwtimer_isr_def Let_def c1_def split: if_splits)+
  have c1: "c1 \<le> r" "0 < r \<Longrightarrow> 0 < c1" using Suc.prems(5,6) by (auto simp: c1_def)
  have ih: "n = (k + (r - c1)) div max 1 r" "hw_overflow (drv st2) = hw_overflow (drv st1) + of_nat k"
    using Suc.IH [OF st1(1-4) c1] run by simp_all
  have "(Suc k + (r - c)) div max 1 r = (if cb = None then n else Suc n)"
  proof (cases "1 < c")
    case True
    then show ?thesis using Suc.prems(5) st1(6) by (simp add: ih(1) c1_def Suc_diff_le)
  next
    case False
    show ?thesis
    proof (cases "r = 0")
      case False
      then have "c = 1" using \<open>\<not> 1 < c\<close> Suc.prems(6) by simp
      then have "Suc k + (r - c) = k + r" using False by simp
      then show ?thesis using False \<open>\<not> 1 < c\<close> st1(6) by (simp add: ih(1) c1_def)
    qed (use \<open>\<not> 1 < c\<close> st1(6) in \<open>simp add: ih(1) c1_def\<close>)
  qed
  then show ?case using i run st1(5) ih(2) by (simp add: ac_simps)
qed

text \<open>In period mode the client is called once every \<open>reload\<close> interrupts of the counter, for ever: after
  \<open>k\<close> interrupts \<open>k div reload\<close> times.\<close>

theorem hwtimer_calls_client:
  assumes "hw_mode (drv st) \<noteq> HWTIMER_MODE_ONESHOT" "rx_indicate (dev st) \<noteq> None"
    "hw_reload (drv st) = int r" "hw_cycles (drv st) = int r" "0 < r"
  shows "fst (isr_run ops k st) = k div r"
  using isr_run_calls [OF assms(1-4), of ops k] assms(5) by simp

text \<open>The counter runs at the frequency that is asked for, up to the division's rest, as long as the
  divisor fits into 16 bits.\<close>

theorem hwtimer_frequency:
  assumes "0 < freq" "freq \<le> hw_clock clk (hw_tim t)" "unat (hw_clock clk (hw_tim t) div freq) < 2 ^ 16"
  shows "\<exists>t'. timer_ctrl clk HWTIMER_CTRL_FREQ_SET freq t = Some (RT_EOK, t') \<and>
    (unat (psc (hw_tim t')) + 1) * unat freq \<le> unat (hw_clock clk (hw_tim t)) \<and>
    unat (hw_clock clk (hw_tim t)) < (unat (psc (hw_tim t')) + 2) * unat freq"
proof -
  let ?c = "hw_clock clk (hw_tim t)"
  define val where "val = (ucast (?c div freq) :: u16)"
  have f: "0 < unat freq" "unat freq \<le> unat ?c" using assms(1,2) by (simp_all add: unat_gt_0 word_le_nat_alt)
  have v: "unat (ucast val :: u32) = unat ?c div unat freq"
    using assms(3) by (simp add: val_def unsigned_ucast_eq unsigned_take_bit_eq take_bit_nat_eq_self unat_div)
  then have "(ucast val :: u32) \<noteq> 0" using f by (metis div_greater_zero_iff less_irrefl unat_0)
  then have "unat (ucast val - 1 :: u32) + 1 = unat ?c div unat freq"
    unfolding unat_minus_one [OF \<open>ucast val \<noteq> 0\<close>] v [symmetric] by (simp add: unat_gt_0)
  then obtain t' where t': "timer_ctrl clk HWTIMER_CTRL_FREQ_SET freq t = Some (RT_EOK, t')"
      "unat (psc (hw_tim t')) + 1 = unat ?c div unat freq"
    using assms(1) by (simp add: timer_ctrl_def Let_def val_def word_neq_0_conv)
  have "(unat ?c div unat freq + 1) * unat freq = (unat (psc (hw_tim t')) + 2) * unat freq"
    by (simp flip: t'(2))
  moreover have "unat ?c < (unat ?c div unat freq + 1) * unat freq" using div_mult_less [OF f(1)] .
  moreover have "(unat (psc (hw_tim t')) + 1) * unat freq \<le> unat ?c" by (simp only: t'(2) div_times_less_eq_dividend)
  ultimately show ?thesis using t'(1) by auto
qed

text \<open>Closing the device does not stop the timer: the driver's initialisation function does nothing
  when it is told to shut down, so the counter and its interrupt go on as before.\<close>

theorem hwtimer_close_keeps_running:
  "\<exists>st'. rt_hwtimer_close (stm32_hwtimer_ops base clk) st = Some (RT_EOK, st') \<and> drv st' = drv st \<and>
     rx_indicate (dev st') = None \<and> dev_flag (dev st') AND RT_DEVICE_FLAG_ACTIVATED = 0"
  by (simp add: rt_hwtimer_close_def stm32_hwtimer_ops_def timer_init_def Let_def and.assoc)

end
