(* ===== verification/ControlTimer.thy ===== *)
theory ControlTimer
  imports Controller HwTimer
begin

text \<open>
  The timer behind the busy wait: \<open>timer14_init\<close> of \<open>applications/main.c\<close> starts \<open>TIM14\<close> through the device
  layer, and its interrupt reaches \<open>control_hwtimer_cb\<close> through the vendor library and
  \<open>rt_device_hwtimer_isr\<close>.  The device's state and the program's are kept side by side.
\<close>

section \<open>Start\<close>

definition timer14_name :: "u8 list" where
  "timer14_name = [0x74, 0x69, 0x6D, 0x65, 0x72, 0x31, 0x34, 0]"

text \<open>The number that stands for \<open>control_hwtimer_cb\<close>, and the bytes of the time that is written, 0 seconds and
  100 microseconds.\<close>

definition control_cb :: nat where "control_cb = 0"

definition timeout_s :: "u8 list" where
  "timeout_s = word_bytes 0 @ word_bytes 100"

definition timer14_init :: "rt_hwtimer_ops \<Rightarrow> u32 \<Rightarrow> rt_hwtimer dev_state \<Rightarrow> (int \<times> rt_hwtimer dev_state) option" where
  "timer14_init ops buffer st = do {
     let dops = hwtimer_ops stm32_hwtimer_info ops;
     (hw_dev, s) \<leftarrow> rt_device_find timer14_name (kern st);
     let st = st\<lparr>kern := s\<rparr>;
     i \<leftarrow> (case hw_dev of Some (DevObj i) \<Rightarrow> Some i | _ \<Rightarrow> None);
     (ret, st) \<leftarrow> rt_device_open dops i 3 st;
     rt_assert (ret = RT_EOK);
     (_, st) \<leftarrow> rt_device_set_rx_indicate i (Some control_cb) st;
     ((ret, _), st) \<leftarrow> rt_device_control dops i (HWTIMER_CTRL_MODE_SET, Some HWTIMER_MODE_PERIOD) st;
     rt_assert (ret = RT_EOK);
     (n, st) \<leftarrow> rt_device_write dops i 0 buffer timeout_s st;
     rt_assert (n = (Return 8 :: (unit, nat) outcome));
     Some (0, st)
   }"

section \<open>The interrupt\<close>

text \<open>Of the events the vendor's handler knows only the update is ever enabled.  Writing a flag register clears
  the bits that are written as 0.\<close>

definition HAL_TIM_IRQHandler :: "rt_hwtimer_ops \<Rightarrow> rt_hwtimer dev_state \<Rightarrow> nat option \<times> rt_hwtimer dev_state" where
  "HAL_TIM_IRQHandler ops st =
     (if hw_sr (drv st) AND TIM_IT_UPDATE \<noteq> 0 \<and> hw_dier (drv st) AND TIM_IT_UPDATE \<noteq> 0
      then rt_device_hwtimer_isr ops (hw_upd (\<lambda>t. t\<lparr>hw_sr := hw_sr t AND NOT TIM_IT_UPDATE\<rparr>) st)
      else (None, st))"

definition TIM8_TRG_COM_TIM14_IRQHandler ::
  "rt_hwtimer_ops \<Rightarrow> rt_hwtimer dev_state \<times> app \<Rightarrow> (rt_hwtimer dev_state \<times> app) option" where
  "TIM8_TRG_COM_TIM14_IRQHandler ops s =
     (let (cb, st) = HAL_TIM_IRQHandler ops (fst s) in
      map_option (Pair st) (in_isr (if cb = Some control_cb then control_hwtimer_cb else Some) (snd s)))"

text \<open>The counter overflows: the flag is set, and the interrupt is taken.\<close>

definition timer14_tick :: "rt_hwtimer_ops \<Rightarrow> rt_hwtimer dev_state \<times> app \<Rightarrow> (rt_hwtimer dev_state \<times> app) option" where
  "timer14_tick ops s =
     TIM8_TRG_COM_TIM14_IRQHandler ops (hw_upd (\<lambda>t. t\<lparr>hw_sr := hw_sr t OR TIM_IT_UPDATE\<rparr>) (fst s), snd s)"

fun timer14_ticks :: "rt_hwtimer_ops \<Rightarrow> nat \<Rightarrow> rt_hwtimer dev_state \<times> app \<Rightarrow> (rt_hwtimer dev_state \<times> app) option" where
  "timer14_ticks ops 0 s = Some s"
| "timer14_ticks ops (Suc k) s = Option.bind (timer14_tick ops s) (timer14_ticks ops k)"

section \<open>What it does\<close>

text \<open>The timer runs with an interrupt every 100 counts of a microsecond.\<close>

definition timer14_running :: "hw_rcc \<Rightarrow> rt_hwtimer dev_state \<Rightarrow> bool" where
  "timer14_running clk st \<longleftrightarrow> hw_mode (drv st) = HWTIMER_MODE_PERIOD \<and> hw_reload (drv st) = 1 \<and> hw_cycles (drv st) = 1 \<and>
     rx_indicate (dev st) = Some control_cb \<and> hw_dier (drv st) AND TIM_IT_UPDATE \<noteq> 0 \<and>
     cr1 (hw_tim (drv st)) AND TIM_CR1_CEN \<noteq> 0 \<and> unat (arr (hw_tim (drv st))) + 1 = 100 \<and>
     unat (psc (hw_tim (drv st))) + 1 = unat (hw_clock clk (hw_tim (drv st))) div 1000000"

lemma tick_running:
  assumes "timer14_running clk st"
  shows "\<exists>st'. timer14_running clk st' \<and> timer14_tick ops (st, a) = map_option (Pair st') (in_isr control_hwtimer_cb a)"
proof -
  have f: "(x OR 1) AND 1 = 1" for x :: u32 by (auto simp: bit_eq_iff bit_simps)
  define st1 where "st1 = hw_upd (\<lambda>t. t\<lparr>hw_sr := hw_sr t OR TIM_IT_UPDATE\<rparr>) st"
  obtain st2 where st2: "HAL_TIM_IRQHandler ops st1 = (Some control_cb, st2)" "timer14_running clk st2"
    using assms f
    by (simp add: HAL_TIM_IRQHandler_def rt_device_hwtimer_isr_def Let_def timer14_running_def st1_def)
  then show ?thesis
    by (auto simp: timer14_tick_def TIM8_TRG_COM_TIM14_IRQHandler_def st1_def)
qed

text \<open>What the initialisation of the vendor library leaves alone.\<close>

definition base_init_ok :: "base_init \<Rightarrow> bool" where
  "base_init_ok base \<longleftrightarrow> (\<forall>p n u r. fst (base p n u r) \<and> tim_no (snd (base p n u r)) = tim_no r \<and>
     smcr (snd (base p n u r)) = smcr r)"

lemma hw_clock_cong: "tim_no r = tim_no r' \<Longrightarrow> hw_clock clk r = hw_clock clk r'"
  by (simp add: hw_clock_def)

lemma mhz_divisor:
  assumes "1000000 \<le> unat (c :: u32)"
  shows "unat (ucast (ucast (c div 1000000) :: u16) - 1 :: u32) + 1 = unat c div 1000000"
proof -
  have "unat c div 1000000 < 2 ^ 16" using unat_u32_less [of c] by (simp add: less_mult_imp_div_less)
  then have v: "unat (ucast (ucast (c div 1000000) :: u16) :: u32) = unat c div 1000000"
    by (simp add: unsigned_ucast_eq unsigned_take_bit_eq take_bit_nat_eq_self unat_div)
  moreover have "0 < unat c div 1000000" using assms by (simp add: div_greater_zero_iff)
  ultimately show ?thesis by (subst unat_minus_one) (auto simp: unat_gt_0)
qed

text \<open>Opening the device for the first time configures the timer for a microsecond.\<close>

lemma open_timer14:
  assumes "is_device i st" "dev_flag (dev st) AND RT_DEVICE_FLAG_ACTIVATED = 0" "open_flag (dev st) = 0" "ref_count (dev st) = 0"
    and base: "base_init_ok base" and c: "1000000 \<le> unat (hw_clock clk (hw_tim (drv st)))"
  shows "\<exists>st'. rt_device_open (hwtimer_ops stm32_hwtimer_info (stm32_hwtimer_ops base clk)) i 3 st = Some (RT_EOK, st') \<and>
    is_device i st' \<and> ref_count (dev st') = 1 \<and> hw_freq (drv st') = 1000000 \<and>
    hw_clock clk (hw_tim (drv st')) = hw_clock clk (hw_tim (drv st)) \<and> smcr (hw_tim (drv st')) = smcr (hw_tim (drv st)) \<and>
    unat (psc (hw_tim (drv st'))) + 1 = unat (hw_clock clk (hw_tim (drv st))) div 1000000"
proof -
  let ?p = "hw_clock clk (hw_tim (drv st)) div 10000 - 1"
  define r where "r = snd (base ?p 9999 True ((hw_tim (drv st))\<lparr>init_period := 9999\<rparr>))"
  have b: "base ?p 9999 True ((hw_tim (drv st))\<lparr>init_period := 9999\<rparr>) = (True, r)" "tim_no r = tim_no (hw_tim (drv st))"
      "smcr r = smcr (hw_tim (drv st))"
    using base by (simp_all add: base_init_ok_def r_def prod_eq_iff)
  have k: "hw_clock clk (r\<lparr>cr1 := x\<rparr>) = hw_clock clk (hw_tim (drv st))"
      "hw_clock clk (r\<lparr>cr1 := x, psc := y, egr := z\<rparr>) = hw_clock clk (hw_tim (drv st))" for x y z
    by (rule hw_clock_cong, simp add: b(2))+
  note d = mhz_divisor [OF c]
  show ?thesis using assms(1-4) b(1,3) d
    by (simp add: rt_device_open_def rt_assert_def device_activate_def hwtimer_ops_def rt_hwtimer_init_def stm32_hwtimer_info_def
        stm32_hwtimer_ops_def timer_init_def Let_def rt_hwtimer_open_def timer_ctrl_def k is_device_def)
qed

lemma timeout_s_time:
  "length timeout_s = 8" "sint (bytes_word (take 4 timeout_s)) = 0" "sint (bytes_word (drop 4 timeout_s)) = 100"
  by (simp_all add: timeout_s_def word_bytes_def bytes_word_def)

lemma bit_0_masks:
  "(x OR 1) AND 1 \<noteq> (0 :: u32)" "((x AND NOT TIM_OPMODE_SINGLE) OR TIM_CR1_CEN) AND TIM_CR1_CEN \<noteq> (0 :: u32)"
  by (simp_all add: bit_eq_iff bit_simps) (auto intro: exI [of _ 0])

text \<open>Writing the time starts it.\<close>

lemma write_timer14:
  assumes "is_device i st" "ref_count (dev st) = 1" "hw_freq (drv st) = 1000000" "hw_mode (drv st) = HWTIMER_MODE_PERIOD"
    and "smcr (hw_tim (drv st)) AND 7 \<noteq> TIM_SLAVEMODE_TRIGGER" "rx_indicate (dev st) = Some control_cb"
    and p: "unat (psc (hw_tim (drv st))) + 1 = unat (hw_clock clk (hw_tim (drv st))) div 1000000"
  shows "\<exists>st'. rt_device_write (hwtimer_ops stm32_hwtimer_info (stm32_hwtimer_ops base clk)) i 0 buffer timeout_s st =
      Some (Return 8 :: (unit, nat) outcome, st') \<and> timer14_running clk st' \<and>
    hw_clock clk (hw_tim (drv st')) = hw_clock clk (hw_tim (drv st))"
proof -
  define t where "t = hw_tim (timer_stop (drv st))"
  have t: "psc t = psc (hw_tim (drv st))" "smcr t = smcr (hw_tim (drv st))" "tim_no t = tim_no (hw_tim (drv st))"
    by (simp_all add: t_def timer_stop_def HAL_TIM_Base_Stop_IT_def Let_def)
  have k: "hw_clock clk (t\<lparr>cnt := x, arr := y, init_period := z, cr1 := w\<rparr>) = hw_clock clk (hw_tim (drv st))" for x y z w
    by (rule hw_clock_cong) (simp add: t(3))
  have m: "hw_mode (timer_stop (drv st)) = HWTIMER_MODE_PERIOD" "hw_freq (timer_stop (drv st)) = 1000000"
    using assms(3,4) by (simp_all add: timer_stop_def HAL_TIM_Base_Stop_IT_def Let_def)
  show ?thesis using assms(1,2,5,6) p
    by (simp add: rt_device_write_def rt_assert_def hwtimer_ops_def rt_hwtimer_write_def stm32_hwtimer_ops_def timeout_s_time
        Let_def m timeout_100us timer_start_def HAL_TIM_Base_Start_IT_def timer14_running_def k t bit_0_masks flip: t_def)
qed

lemma ticks_running:
  "timer14_running clk st \<Longrightarrow> \<exists>st'. timer14_running clk st' \<and>
     timer14_ticks ops k (st, a) = map_option (Pair st') (app_iter k (in_isr control_hwtimer_cb) a)"
proof (induction k arbitrary: st a)
  case (Suc k)
  obtain st1 where st1: "timer14_running clk st1" "timer14_tick ops (st, a) = map_option (Pair st1) (in_isr control_hwtimer_cb a)"
    using tick_running [OF Suc.prems] by blast
  then show ?case using Suc.IH [OF st1(1)] Suc.prems by (cases "in_isr control_hwtimer_cb a") auto
qed auto

lemma timer14_init_running:
  assumes "rt_device_find timer14_name (kern st) = Some (Some (DevObj i), s)" "is_device i (st\<lparr>kern := s\<rparr>)"
    and closed: "dev_flag (dev st) AND RT_DEVICE_FLAG_ACTIVATED = 0" "open_flag (dev st) = 0" "ref_count (dev st) = 0"
    and base: "base_init_ok base"
    and clock: "1000000 \<le> unat (hw_clock clk (hw_tim (drv st)))" "smcr (hw_tim (drv st)) AND 7 \<noteq> TIM_SLAVEMODE_TRIGGER"
  shows "\<exists>st'. timer14_init (stm32_hwtimer_ops base clk) buffer st = Some (0, st') \<and> timer14_running clk st' \<and>
    hw_clock clk (hw_tim (drv st')) = hw_clock clk (hw_tim (drv st))"
proof -
  let ?ops = "stm32_hwtimer_ops base clk"
  obtain st1 where st1: "rt_device_open (hwtimer_ops stm32_hwtimer_info ?ops) i 3 (st\<lparr>kern := s\<rparr>) = Some (RT_EOK, st1)"
      "is_device i st1" "ref_count (dev st1) = 1" "hw_freq (drv st1) = 1000000"
      "hw_clock clk (hw_tim (drv st1)) = hw_clock clk (hw_tim (drv st))" "smcr (hw_tim (drv st1)) = smcr (hw_tim (drv st))"
      "unat (psc (hw_tim (drv st1))) + 1 = unat (hw_clock clk (hw_tim (drv st))) div 1000000"
    using open_timer14 [OF assms(2) _ _ _ base, of clk] closed clock(1) by auto
  define st2 where "st2 = hw_upd (\<lambda>t. t\<lparr>hw_mode := HWTIMER_MODE_PERIOD\<rparr>) (upd_dev (\<lambda>d. d\<lparr>rx_indicate := Some control_cb\<rparr>) st1)"
  have c: "rt_device_set_rx_indicate i (Some control_cb) st1 = Some (RT_EOK, upd_dev (\<lambda>d. d\<lparr>rx_indicate := Some control_cb\<rparr>) st1)"
      "rt_device_control (hwtimer_ops stm32_hwtimer_info ?ops) i (HWTIMER_CTRL_MODE_SET, Some HWTIMER_MODE_PERIOD)
        (upd_dev (\<lambda>d. d\<lparr>rx_indicate := Some control_cb\<rparr>) st1) = Some ((RT_EOK, None), st2)"
    using st1(2) by (simp_all add: rt_device_set_rx_indicate_def rt_device_control_def rt_assert_def hwtimer_ops_def
        rt_hwtimer_control_def st2_def is_device_def)
  obtain st3 where st3: "rt_device_write (hwtimer_ops stm32_hwtimer_info ?ops) i 0 buffer timeout_s st2 =
      Some (Return 8 :: (unit, nat) outcome, st3)" "timer14_running clk st3" "hw_clock clk (hw_tim (drv st3)) = hw_clock clk (hw_tim (drv st))"
    using write_timer14 [of i st2 clk base buffer] st1 clock(2) by (auto simp: st2_def is_device_def)
  have "timer14_init ?ops buffer st = Some (0, st3)"
    by (simp add: timer14_init_def assms(1) st1(1) c st3(1) rt_assert_def Let_def)
  then show ?thesis using st3(2,3) by blast
qed

text \<open>C10. The application's timer is found, opened and started with an interrupt every 100 microseconds of its
  clock, and from then on every overflow of the counter is exactly one call of \<open>control_hwtimer_cb\<close>.\<close>

theorem control_timer_counts:
  assumes "rt_device_find timer14_name (kern st) = Some (Some (DevObj i), s)" "is_device i (st\<lparr>kern := s\<rparr>)"
    and closed: "dev_flag (dev st) AND RT_DEVICE_FLAG_ACTIVATED = 0" "open_flag (dev st) = 0" "ref_count (dev st) = 0"
    and base: "base_init_ok base"
    and clock: "1000000 \<le> unat (hw_clock clk (hw_tim (drv st)))" "smcr (hw_tim (drv st)) AND 7 \<noteq> TIM_SLAVEMODE_TRIGGER"
  shows "\<exists>st'. timer14_init (stm32_hwtimer_ops base clk) buffer st = Some (0, st') \<and>
    (unat (arr (hw_tim (drv st'))) + 1) * (unat (psc (hw_tim (drv st'))) + 1) =
      100 * (unat (hw_clock clk (hw_tim (drv st))) div 1000000) \<and>
    (\<forall>k a. \<exists>st''. timer14_ticks (stm32_hwtimer_ops base clk) k (st', a) =
      map_option (Pair st'') (app_iter k (in_isr control_hwtimer_cb) a))"
proof -
  let ?ops = "stm32_hwtimer_ops base clk"
  obtain st3 where st3: "timer14_init ?ops buffer st = Some (0, st3)" "timer14_running clk st3"
      "hw_clock clk (hw_tim (drv st3)) = hw_clock clk (hw_tim (drv st))"
    using timer14_init_running [OF assms(1,2) closed base clock] by blast
  have "(unat (arr (hw_tim (drv st3))) + 1) * (unat (psc (hw_tim (drv st3))) + 1) =
      100 * (unat (hw_clock clk (hw_tim (drv st))) div 1000000)"
    using st3(2,3) by (simp add: timer14_running_def)
  moreover have "\<exists>st''. timer14_ticks ?ops k (st3, a) = map_option (Pair st'') (app_iter k (in_isr control_hwtimer_cb) a)" for k a
    using ticks_running [OF st3(2), of ?ops k a] by blast
  ultimately show ?thesis using st3(1) by blast
qed

end
