(* ===== verification/Board.thy ===== *)
theory Board
  imports Outputs ControlTimer
begin

text \<open>
  The controller on its board: the program of \<open>Controller\<close> with the compare registers and the pins its
  outputs go to, the levels it reads, the external interrupts of the zero crossings and the timer.
  Every run of the board is a run of the controller, so that its invariants hold for the hardware.
\<close>

section \<open>Runs of the board\<close>

record board =
  b_app :: app
  b_pwm :: "tim_regs dev_state"
  b_pins :: gpio
  b_timer :: "rt_hwtimer dev_state"

text \<open>\<open>clk\<close> and \<open>d\<close> are the clock and the number of the PWM device, \<open>ops\<close> the functions of the timer's driver.
  The outside world sets levels and pending interrupts as it likes.\<close>

inductive board_step :: "rcc \<Rightarrow> nat \<Rightarrow> rt_hwtimer_ops \<Rightarrow> (nat \<Rightarrow> kstate \<Rightarrow> kstate option) \<Rightarrow> board \<Rightarrow> board \<Rightarrow> bool"
  for clk d ops cb where
  pwm: "cur_thread (ker (b_app b)) = Some pwm_tid \<Longrightarrow> pwm_thread_step (b_app b) = Some a \<Longrightarrow>
    (case output_call (b_app b) of None \<Rightarrow> Some (b_pwm b, b_pins b) | Some c \<Rightarrow> do_output clk d c (b_pwm b, b_pins b)) =
      Some (p, g) \<Longrightarrow> board_step clk d ops cb b (b\<lparr>b_app := a, b_pwm := p, b_pins := g\<rparr>)"
| adc: "cur_thread (ker (b_app b)) = Some adc_tid \<Longrightarrow> samples_ok raws \<Longrightarrow> adc_thread_step raws (b_app b) = Some a \<Longrightarrow>
    board_step clk d ops cb b (b\<lparr>b_app := a\<rparr>)"
| gpio: "cur_thread (ker (b_app b)) = Some gpio_tid \<Longrightarrow> gpio_thread_step (input_levels (b_pins b)) (b_app b) = Some a \<Longrightarrow>
    board_step clk d ops cb b (b\<lparr>b_app := a\<rparr>)"
| serial: "cur_thread (ker (b_app b)) = Some serial_tid \<Longrightarrow> serial_thread_step (b_app b) = Some a \<Longrightarrow>
    board_step clk d ops cb b (b\<lparr>b_app := a\<rparr>)"
| exti3: "phase_irq_v (b_pins b, b_app b) = Some (g, a) \<Longrightarrow> board_step clk d ops cb b (b\<lparr>b_app := a, b_pins := g\<rparr>)"
| exti15_10: "phase_irq_uw (b_pins b, b_app b) = Some (g, a) \<Longrightarrow> board_step clk d ops cb b (b\<lparr>b_app := a, b_pins := g\<rparr>)"
| tim14: "timer14_tick ops (b_timer b, b_app b) = Some (t, a) \<Longrightarrow> board_step clk d ops cb b (b\<lparr>b_app := a, b_timer := t\<rparr>)"
| uart: "in_isr (uart_isr cs) (b_app b) = Some a \<Longrightarrow> board_step clk d ops cb b (b\<lparr>b_app := a\<rparr>)"
| kernel: "kernel_step cb (ker (b_app b)) k \<Longrightarrow> board_step clk d ops cb b (b\<lparr>b_app := (b_app b)\<lparr>ker := k\<rparr>\<rparr>)"
| world: "board_step clk d ops cb b (b\<lparr>b_pins := (b_pins b)\<lparr>g_idr := l, pend := p\<rparr>\<rparr>)"

definition board_inv :: "rcc \<Rightarrow> hw_rcc \<Rightarrow> nat \<Rightarrow> board \<Rightarrow> bool" where
  "board_inv clk hclk d b \<longleftrightarrow> app_inv (b_app b) \<and> outputs_match clk d (b_app b) (b_pwm b, b_pins b) \<and>
     hdr_tab (b_pins b) = app_hdr_tab \<and> timer14_running hclk (b_timer b)"

section \<open>What a step does\<close>

lemma do_output_hdr: "do_output clk d c (p, g) = Some (p', g') \<Longrightarrow> hdr_tab g' = hdr_tab g"
  by (cases c) (auto simp: do_output_def rt_pin_write_def stm32_pin_ops_def stm32_pin_write_def HAL_GPIO_WritePin_def
      Option.bind_eq_Some_conv split: if_splits)

lemma outputs_match_pins: "outputs_match clk d a (p, g) \<Longrightarrow> g_odr g' = g_odr g \<Longrightarrow> outputs_match clk d a (p, g')"
  by (simp add: outputs_match_def)

text \<open>Steps of the controller that leave its outputs alone keep them matched.\<close>

lemma quiet_run:
  assumes "(app_step cb)\<^sup>*\<^sup>* a a'" "same_outputs a a'" "outputs_match clk d a hw" "app_inv a" "cb_ok cb"
  shows "app_inv a' \<and> outputs_match clk d a' hw"
  using outputs_match_cong [OF assms(3)] assms(2) app_reachable_inv [OF assms(1,4,5)] by (simp add: same_outputs_def)

lemma same_outputs_trans: "same_outputs a b \<Longrightarrow> same_outputs b c \<Longrightarrow> same_outputs a c"
  by (simp add: same_outputs_def)

lemma same_outputs_refl [simp]: "same_outputs a a"
  by (simp add: same_outputs_def)

lemma same_outputs_in_phase:
  "in_isr PHASE_U_cb a = Some a' \<Longrightarrow> same_outputs a a'"
  "in_isr PHASE_V_cb a = Some a' \<Longrightarrow> same_outputs a a'"
  "in_isr PHASE_W_cb a = Some a' \<Longrightarrow> same_outputs a a'"
  unfolding PHASE_U_cb_def PHASE_V_cb_def PHASE_W_cb_def by (auto elim!: same_outputs_isr same_outputs_phase)

text \<open>The two interrupts of the zero crossings.\<close>

lemma irq_v_run:
  assumes "phase_irq_v (g, a) = Some (g', a')" "hdr_tab g = app_hdr_tab"
  shows "(app_step cb)\<^sup>*\<^sup>* a a' \<and> same_outputs a a' \<and> hdr_tab g' = app_hdr_tab \<and> g_odr g' = g_odr g"
  using assms phase_irq_v_eq [OF assms(2), of a]
  by (auto simp: clear_def split: if_splits intro: app_step.phase_v same_outputs_in_phase)

lemma irq_uw_run:
  assumes "phase_irq_uw (g, a) = Some (g', a')" "hdr_tab g = app_hdr_tab"
  shows "(app_step cb)\<^sup>*\<^sup>* a a' \<and> same_outputs a a' \<and> hdr_tab g' = app_hdr_tab \<and> g_odr g' = g_odr g"
proof -
  have g': "hdr_tab g' = app_hdr_tab" "g_odr g' = g_odr g"
    and w: "Option.bind (if pend g 14 then in_isr PHASE_W_cb a else Some a) (\<lambda>a. if pend g 15 then in_isr PHASE_U_cb a else Some a) = Some a'"
    using assms phase_irq_uw_eq [OF assms(2), of a] by (auto simp: clear_def)
  obtain b where b: "(if pend g 14 then in_isr PHASE_W_cb a else Some a) = Some b"
      "(if pend g 15 then in_isr PHASE_U_cb b else Some b) = Some a'"
    using w by (auto simp: Option.bind_eq_Some_conv)
  have 1: "(app_step cb)\<^sup>*\<^sup>* a b \<and> same_outputs a b"
    using b(1) by (auto split: if_splits intro: app_step.phase_w same_outputs_in_phase)
  have "(app_step cb)\<^sup>*\<^sup>* b a' \<and> same_outputs b a'"
    using b(2) by (auto split: if_splits intro: app_step.phase_u same_outputs_in_phase)
  then show ?thesis using 1 g' by (meson rtranclp_trans same_outputs_trans)
qed

lemma board_step_simulates:
  assumes step: "board_step clk d ops cb b b'" and inv: "board_inv clk hclk d b" and cb: "cb_ok cb"
  shows "(app_step cb)\<^sup>*\<^sup>* (b_app b) (b_app b') \<and> board_inv clk hclk d b'"
proof -
  note i = inv [unfolded board_inv_def]
  have quiet: "(app_step cb)\<^sup>*\<^sup>* (b_app b) a \<and> app_inv a \<and> outputs_match clk d a (b_pwm b, b_pins b)"
    if "app_step cb (b_app b) a" "same_outputs (b_app b) a" for a
    using quiet_run [OF _ that(2) _ _ cb] that(1) i by blast
  show ?thesis
    using step
  proof (cases rule: board_step.cases)
    case (pwm a p g)
    have a: "(app_step cb)\<^sup>*\<^sup>* (b_app b) a" using app_step.pwm [OF pwm(2,3)] by blast
    have "outputs_match clk d a (p, g)"
      using outputs_follow_step [OF _ _ pwm(3)] i pwm(4) by fastforce
    moreover have "hdr_tab g = app_hdr_tab" using pwm(4) i do_output_hdr by (auto split: option.splits)
    ultimately show ?thesis using a app_reachable_inv [OF a] i cb pwm(1)
      by (auto simp: board_inv_def)
  next
    case (adc raws a)
    then show ?thesis using quiet [OF app_step.adc] same_outputs_adc i by (simp add: board_inv_def)
  next
    case (gpio a)
    then show ?thesis using quiet [OF app_step.gpio] same_outputs_gpio i by (simp add: board_inv_def)
  next
    case (serial a)
    then show ?thesis using quiet [OF app_step.serial] same_outputs_serial i by (simp add: board_inv_def)
  next
    case (exti3 g a)
    then show ?thesis using irq_v_run [OF exti3(2)] quiet_run [of cb "b_app b" a clk d "(b_pwm b, b_pins b)"] i cb
      by (auto simp: board_inv_def intro: outputs_match_pins)
  next
    case (exti15_10 g a)
    then show ?thesis using irq_uw_run [OF exti15_10(2)] quiet_run [of cb "b_app b" a clk d "(b_pwm b, b_pins b)"] i cb
      by (auto simp: board_inv_def intro: outputs_match_pins)
  next
    case (tim14 t a)
    obtain t' where t': "timer14_running hclk t'" "timer14_tick ops (b_timer b, b_app b) = map_option (Pair t') (in_isr control_hwtimer_cb (b_app b))"
      using tick_running i by blast
    then have a: "in_isr control_hwtimer_cb (b_app b) = Some a" "t = t'" using tim14(2) by (auto simp: eq_commute [of "Some _"])
    moreover have "same_outputs (b_app b) a"
      using a(1) by (rule same_outputs_isr) (auto simp: control_hwtimer_cb_def same_outputs_def)
    ultimately show ?thesis using quiet [OF app_step.hwtimer] t'(1) i tim14(1) by (simp add: board_inv_def)
  next
    case (uart cs a)
    then have "same_outputs (b_app b) a" using same_outputs_isr same_outputs_uart by blast
    then show ?thesis using quiet [OF app_step.uart] uart i by (simp add: board_inv_def)
  next
    case (kernel k)
    then show ?thesis using quiet [OF app_step.kernel] i by (simp add: board_inv_def same_outputs_def)
  next
    case (world l p)
    then show ?thesis using i by (auto simp: board_inv_def intro: outputs_match_pins)
  qed
qed

text \<open>C6. Every run of the board, through its drivers and interrupts, is a run of the controller: what the
  controller's theorems say of all runs holds on the board, and its hardware stays in step.\<close>

theorem board_refines_controller:
  assumes "(board_step clk d ops cb)\<^sup>*\<^sup>* b b'" "board_inv clk hclk d b" "cb_ok cb"
  shows "(app_step cb)\<^sup>*\<^sup>* (b_app b) (b_app b') \<and> board_inv clk hclk d b'"
  using assms(1)
proof (induction rule: rtranclp_induct)
  case (step y z)
  then show ?case using board_step_simulates [OF step.hyps(2) _ assms(3)] by (meson rtranclp_trans)
qed (simp add: assms(2))

text \<open>C7. On the board: the compare register of a phase has the value of no pulse or of the pulse of the controller,
  and while the pin of the relay is high the PWM thread is switching off, and the registers of all phases it has
  reached say no pulse.\<close>

theorem board_outputs_safe:
  assumes "(board_step clk d ops cb)\<^sup>*\<^sup>* b b'" "board_inv clk hclk d b" "cb_ok cb"
  shows "(\<forall>c\<in>{1, 2, 3}. unat (ccr (drv (b_pwm b')) c) \<in>
      {0, pwm_compare (pwm_mhz clk (drv (b_pwm b'))) (pulse_conf (pulse * 2)) - 1}) \<and>
    (g_odr (b_pins b') 6 0 \<longrightarrow> (\<exists>i n. pwm_pc (b_app b') = Pwm_close i n \<and> i \<in> {1, 2, 3} \<and>
      (\<forall>c\<in>{1..i}. ccr (drv (b_pwm b')) c = 0)))"
proof -
  have inv: "board_inv clk hclk d b'"
    using assms(1) by (induction rule: rtranclp_induct) (use assms(2,3) board_step_simulates in blast)+
  note m = inv [unfolded board_inv_def outputs_match_def fst_conv snd_conv]
  have o: "outputs_ok (b_app b')" using m app_invD(4) by blast
  have ccr: "unat (ccr (drv (b_pwm b')) c) = pwm_compare (pwm_mhz clk (drv (b_pwm b'))) (pulse_conf (pulse_out (b_app b') c)) - 1"
    if "c \<in> {1, 2, 3}" for c using m that by blast
  have A: "unat (ccr (drv (b_pwm b')) c) \<in> {0, pwm_compare (pwm_mhz clk (drv (b_pwm b'))) (pulse_conf (pulse * 2)) - 1}"
    if "c \<in> {1, 2, 3}" for c
  proof -
    have "pulse_out (b_app b') c = 0 \<or> pulse_out (b_app b') c = pulse * 2" using o by (auto simp: outputs_ok_def)
    then show ?thesis unfolding ccr [OF that] using off_compare by auto
  qed
  have B: "\<exists>i n. pwm_pc (b_app b') = Pwm_close i n \<and> i \<in> {1, 2, 3} \<and> (\<forall>c\<in>{1..i}. ccr (drv (b_pwm b')) c = 0)"
    if "g_odr (b_pins b') 6 0"
  proof -
    have "relay_on (pwm_pc (b_app b'))" using that m o by (simp add: outputs_ok_def)
    then obtain i n where pc: "pwm_pc (b_app b') = Pwm_close i n" "5 \<le> n"
      by (cases "pwm_pc (b_app b')") auto
    then have i: "1 \<le> i" "i \<le> 3" and off: "\<And>c. 1 \<le> c \<Longrightarrow> c \<le> i \<Longrightarrow> pulse_out (b_app b') c = 0"
      using o by (auto simp: outputs_ok_def)
    have "ccr (drv (b_pwm b')) c = 0" if "c \<in> {1..i}" for c
    proof -
      have c: "c \<in> {1, 2, 3}" "1 \<le> c" "c \<le> i" using that i by auto
      have "unat (ccr (drv (b_pwm b')) c) = 0" unfolding ccr [OF c(1)] off [OF c(2,3)] by (rule off_compare)
      then show ?thesis by (simp add: unat_eq_0)
    qed
    moreover have "i \<in> {1, 2, 3}" using i by auto
    ultimately show ?thesis using pc(1) by blast
  qed
  show ?thesis by (intro conjI ballI impI A B)
qed

end
