(* ===== verification/Adc.thy ===== *)
theory Adc
  imports PwmDriver
begin

text \<open>
  The analog-digital converter: the device layer of \<open>components/drivers/misc/adc.c\<close> and the driver
  \<open>libraries/HAL_Drivers/drv_adc.c\<close>.  The vendor's functions are arguments.
\<close>

section \<open>The layer\<close>

text \<open>\<open>convert\<close> returns an error number and, when it stores one, a value.\<close>

record 'h rt_adc_ops =
  adc_enabled :: "(u32 \<Rightarrow> bool \<Rightarrow> 'h \<Rightarrow> rt_err_t \<times> 'h) option"
  adc_convert_fn :: "u32 \<Rightarrow> 'h \<Rightarrow> (rt_err_t \<times> u32 option) \<times> 'h"

text \<open>The values read; a driver that reports success without storing a value leaves the old contents of the
  buffer, which has no value in the model.\<close>

function adc_read_loop :: "'h rt_adc_ops \<Rightarrow> int \<Rightarrow> nat \<Rightarrow> nat \<Rightarrow> u32 list \<Rightarrow> 'h dev_state \<Rightarrow>
    ((u32 list \<times> nat) \<times> 'h dev_state) option" where
  "adc_read_loop ops pos i n acc st =
     (if i < n then
        (let ((result, v), h) = adc_convert_fn ops (word_of_int (pos + int i)) (drv st); st = st\<lparr>drv := h\<rparr> in
         if result \<noteq> RT_EOK then Some ((acc, 0), st)
         else case v of None \<Rightarrow> None | Some v \<Rightarrow> adc_read_loop ops pos (i + 4) n (acc @ [v]) st)
      else Some ((acc, i), st))"
  by pat_completeness auto
termination by (relation "measure (\<lambda>(ops, pos, i, n, _). n - i)") auto

declare adc_read_loop.simps [simp del]

definition adc_read_fn :: "'h rt_adc_ops \<Rightarrow> int \<Rightarrow> u32 \<Rightarrow> nat \<Rightarrow> 'h dev_state \<Rightarrow> ((u8 list \<times> nat) \<times> 'h dev_state) option" where
  "adc_read_fn ops pos buffer n st =
     map_option (\<lambda>((vs, k), st). ((concat (map word_bytes vs), k), st)) (adc_read_loop ops pos 0 n [] st)"

abbreviation (input) RT_ADC_CMD_ENABLE :: int where "RT_ADC_CMD_ENABLE \<equiv> 0"
abbreviation (input) RT_ADC_CMD_DISABLE :: int where "RT_ADC_CMD_DISABLE \<equiv> 1"

definition adc_control_fn :: "'h rt_adc_ops \<Rightarrow> int \<times> u32 \<Rightarrow> 'h dev_state \<Rightarrow>
    ((rt_err_t \<times> unit option) \<times> 'h dev_state) option" where
  "adc_control_fn ops cmd st =
     (case adc_enabled ops of
        None \<Rightarrow> Some ((- RT_ENOSYS, None), st)
      | Some f \<Rightarrow>
          if fst cmd = RT_ADC_CMD_ENABLE then
            (let (e, h) = f (snd cmd) True (drv st) in Some ((e, None), st\<lparr>drv := h\<rparr>))
          else if fst cmd = RT_ADC_CMD_DISABLE then
            (let (e, h) = f (snd cmd) False (drv st) in Some ((e, None), st\<lparr>drv := h\<rparr>))
          else Some ((RT_EOK, None), st))"

definition adc_ops :: "'h rt_adc_ops \<Rightarrow> ('h, unit, int \<times> u32, unit) rt_device_ops" where
  "adc_ops ops = \<lparr>op_init = None, op_open = None, op_close = None, op_read = Some (adc_read_fn ops),
     op_write = None, op_control = Some (adc_control_fn ops)\<rparr>"

definition rt_hw_adc_register :: "nat \<Rightarrow> u8 list \<Rightarrow> 'h dev_state \<Rightarrow> (rt_err_t \<times> 'h dev_state) option" where
  "rt_hw_adc_register i name st =
     rt_device_register (Some i) name 3 (upd_dev (\<lambda>d. d\<lparr>dev_type := 18, rx_indicate := None, tx_complete := None\<rparr>) st)"

text \<open>The caller gets a value only when the driver stored one: an error is not reported, and the variable
  it leaves unset is returned.\<close>

definition rt_adc_read :: "'h rt_adc_ops \<Rightarrow> nat option \<Rightarrow> u32 \<Rightarrow> 'h dev_state \<Rightarrow> (u32 \<times> 'h dev_state) option" where
  "rt_adc_read ops device channel st = do {
     rt_assert (device \<noteq> None);
     let ((result, v), h) = adc_convert_fn ops channel (drv st);
     v \<leftarrow> v;
     Some (v, st\<lparr>drv := h\<rparr>)
   }"

definition adc_enable_call :: "'h rt_adc_ops \<Rightarrow> nat option \<Rightarrow> u32 \<Rightarrow> bool \<Rightarrow> 'h dev_state \<Rightarrow> (rt_err_t \<times> 'h dev_state) option" where
  "adc_enable_call ops device channel on st = do {
     rt_assert (device \<noteq> None);
     case adc_enabled ops of
       Some f \<Rightarrow> (let (e, h) = f channel on (drv st) in Some (e, st\<lparr>drv := h\<rparr>))
     | None \<Rightarrow> Some (- RT_ENOSYS, st)
   }"

definition rt_adc_enable :: "'h rt_adc_ops \<Rightarrow> nat option \<Rightarrow> u32 \<Rightarrow> 'h dev_state \<Rightarrow> (rt_err_t \<times> 'h dev_state) option" where
  "rt_adc_enable ops device channel = adc_enable_call ops device channel True"

definition rt_adc_disable :: "'h rt_adc_ops \<Rightarrow> nat option \<Rightarrow> u32 \<Rightarrow> 'h dev_state \<Rightarrow> (rt_err_t \<times> 'h dev_state) option" where
  "rt_adc_disable ops device channel = adc_enable_call ops device channel False"

section \<open>The driver\<close>

text \<open>The functions of the vendor library; the result of waiting for a conversion is not looked at.\<close>

record 'h adc_hal =
  ah_enable :: "'h \<Rightarrow> 'h"
  ah_disable :: "'h \<Rightarrow> 'h"
  ah_config :: "u32 \<Rightarrow> 'h \<Rightarrow> 'h"
  ah_start :: "'h \<Rightarrow> 'h"
  ah_poll :: "u32 \<Rightarrow> 'h \<Rightarrow> 'h"
  ah_value :: "'h \<Rightarrow> u32 \<times> 'h"

definition stm32_adc_enabled :: "'h adc_hal \<Rightarrow> u32 \<Rightarrow> bool \<Rightarrow> 'h \<Rightarrow> rt_err_t \<times> 'h" where
  "stm32_adc_enabled hal channel on h = (RT_EOK, if on then ah_enable hal h else ah_disable hal h)"

text \<open>The constants \<open>ADC_CHANNEL_n\<close> are the numbers \<open>n\<close>; other channels give channel 0.\<close>

definition stm32_adc_get_channel :: "u32 \<Rightarrow> u32" where
  "stm32_adc_get_channel channel = (if channel \<le> 18 then channel else 0)"

definition stm32_get_adc_value :: "'h adc_hal \<Rightarrow> u32 \<Rightarrow> 'h \<Rightarrow> (rt_err_t \<times> u32 option) \<times> 'h" where
  "stm32_get_adc_value hal channel h =
     (if channel \<le> 18 then
        (let h = ah_config hal (stm32_adc_get_channel channel) h;
             h = ah_start hal h;
             h = ah_poll hal 100 h;
             (v, h) = ah_value hal h in
         ((RT_EOK, Some v), h))
      else ((- RT_ERROR, None), h))"

definition stm_adc_ops :: "'h adc_hal \<Rightarrow> 'h rt_adc_ops" where
  "stm_adc_ops hal = \<lparr>adc_enabled = Some (stm32_adc_enabled hal), adc_convert_fn = stm32_get_adc_value hal\<rparr>"

text \<open>One round of \<open>stm32_adc_init\<close>: \<open>ok\<close> is the result of \<open>HAL_ADC_Init\<close>, \<open>c\<close> the digit of the converter's name.\<close>

definition stm32_adc_init :: "bool \<Rightarrow> u8 \<Rightarrow> nat \<Rightarrow> 'h dev_state \<Rightarrow> (rt_err_t \<times> 'h dev_state) option" where
  "stm32_adc_init ok c i st =
     (if \<not> ok then Some (- RT_ERROR, st)
      else do {
        (e, st) \<leftarrow> rt_hw_adc_register i [0x61, 0x64, 0x63, c, 0] st;
        Some (if e = RT_EOK then RT_EOK else - RT_ERROR, st)
      })"

section \<open>Properties\<close>

text \<open>The converter: what the vendor's functions deliver for a channel, and the state they leave.\<close>

definition adc_sample :: "'h adc_hal \<Rightarrow> u32 \<Rightarrow> 'h \<Rightarrow> u32 \<times> 'h" where
  "adc_sample hal channel h = ah_value hal (ah_poll hal 100 (ah_start hal (ah_config hal channel h)))"

fun adc_samples :: "'h adc_hal \<Rightarrow> u32 list \<Rightarrow> 'h \<Rightarrow> u32 list \<times> 'h" where
  "adc_samples hal [] h = ([], h)"
| "adc_samples hal (c # cs) h = (let (v, h) = adc_sample hal c h; (vs, h) = adc_samples hal cs h in (v # vs, h))"

lemma convert_channel:
  "channel \<le> 18 \<Longrightarrow> stm32_get_adc_value hal channel h = (let (v, h) = adc_sample hal channel h in ((RT_EOK, Some v), h))"
  by (simp add: stm32_get_adc_value_def adc_sample_def stm32_adc_get_channel_def Let_def split_beta)

lemma rt_adc_read_sample:
  "channel \<le> 18 \<Longrightarrow> rt_adc_read (stm_adc_ops hal) (Some i) channel st =
     Some (fst (adc_sample hal channel (drv st)), st\<lparr>drv := snd (adc_sample hal channel (drv st))\<rparr>)"
  by (simp add: rt_adc_read_def stm_adc_ops_def convert_channel Let_def split_beta)

text \<open>A channel the chip does not have: the driver reports an error, and \<open>rt_adc_read\<close> returns a variable that was
  never written.\<close>

lemma rt_adc_read_no_channel: "18 < channel \<Longrightarrow> rt_adc_read (stm_adc_ops hal) (Some i) channel st = None"
  by (auto simp: rt_adc_read_def stm_adc_ops_def stm32_get_adc_value_def)

lemma adc_read_loop_samples:
  assumes "0 \<le> pos" "pos + int i + 4 * int k \<le> 18 + 4"
  shows "adc_read_loop (stm_adc_ops hal) pos i (i + 4 * k) acc st =
    (let (vs, h) = adc_samples hal (map (\<lambda>j. word_of_int (pos + int i + 4 * int j)) [0..<k]) (drv st) in
     Some ((acc @ vs, i + 4 * k), st\<lparr>drv := h\<rparr>))"
  using assms
proof (induction k arbitrary: i acc st)
  case 0
  then show ?case by (subst adc_read_loop.simps) simp
next
  case (Suc k)
  define c where "c = (word_of_int (pos + int i) :: u32)"
  have "uint c = pos + int i"
    unfolding c_def by (rule word_of_int_inverse [OF refl]) (use Suc.prems in simp_all)
  then have c: "c \<le> 18" using Suc.prems by (simp add: word_le_def)
  obtain v h where v: "adc_sample hal c (drv st) = (v, h)" by (cases "adc_sample hal c (drv st)")
  have upt: "map (\<lambda>j. word_of_int (pos + int i + 4 * int j)) [0..<Suc k] =
      c # map (\<lambda>j. word_of_int (pos + int (i + 4) + 4 * int j)) [0..<k]"
    unfolding map_upt_Suc by (simp add: c_def algebra_simps)
  have cv: "adc_convert_fn (stm_adc_ops hal) (word_of_int (pos + int i)) (drv st) = ((RT_EOK, Some v), h)"
    unfolding c_def [symmetric] by (simp add: stm_adc_ops_def convert_channel [OF c] v)
  have "adc_read_loop (stm_adc_ops hal) pos i (i + 4 * Suc k) acc st =
      adc_read_loop (stm_adc_ops hal) pos (i + 4) (i + 4 + 4 * k) (acc @ [v]) (st\<lparr>drv := h\<rparr>)"
    by (subst adc_read_loop.simps, subst cv) (simp add: algebra_simps)
  then show ?case
    using Suc.IH [of "i + 4" "acc @ [v]" "st\<lparr>drv := h\<rparr>"] Suc.prems v unfolding upt
    by (simp add: Let_def split_beta algebra_simps)
qed

text \<open>Reading \<open>k\<close> values from the device takes them from every fourth channel, not from consecutive ones: the
  loop counts bytes and adds its counter to the channel.\<close>

theorem adc_read_skips_channels:
  assumes "0 \<le> pos" "pos + 4 * int k \<le> 22"
  shows "adc_read_fn (stm_adc_ops hal) pos buffer (4 * k) st =
    (let (vs, h) = adc_samples hal (map (\<lambda>j. word_of_int (pos + 4 * int j)) [0..<k]) (drv st) in
     Some ((concat (map word_bytes vs), 4 * k), st\<lparr>drv := h\<rparr>))"
  using adc_read_loop_samples [of pos 0 k hal "[]" st] assms by (simp add: adc_read_fn_def Let_def split_beta)

end
