(* ===== verification/StartUp.thy ===== *)
theory StartUp
  imports Board ThreadHeap Adc
begin

text \<open>
  The start of the application: the threads and devices \<open>applications\<close> sets up (\<open>PWM_sample.c\<close>,
  \<open>AD_read.c\<close>, \<open>uart_sample.c\<close>, \<open>main.c\<close>), and the loop of the main thread.  After it the board is in a
  state from which \<open>Board\<close> goes on.  The control blocks and stacks of the threads come from the heap and are
  arguments; entries are numbered.
\<close>

section \<open>Threads\<close>

text \<open>What all four do with a thread; the result says whether it was created.\<close>

definition create_and_start :: "tid option \<Rightarrow> u32 option \<Rightarrow> u8 list \<Rightarrow> nat \<Rightarrow> u32 \<Rightarrow> u8 \<Rightarrow> u32 \<Rightarrow> kstate \<Rightarrow> (bool \<times> kstate) option" where
  "create_and_start block stk name entry stk_size priority tick s = do {
     (thread, s) \<leftarrow> rt_thread_create block stk name entry 0 stk_size priority tick s;
     case thread of
       None \<Rightarrow> Some (False, s)
     | Some t \<Rightarrow> do { (_, s) \<leftarrow> rt_thread_startup t s; Some (True, s) }
   }"

abbreviation (input) PWM_THREAD_ENTRY :: nat where "PWM_THREAD_ENTRY \<equiv> 1"
abbreviation (input) READ_KNOB_VOL_ENTRY :: nat where "READ_KNOB_VOL_ENTRY \<equiv> 2"
abbreviation (input) GPIO_ENTRY :: nat where "GPIO_ENTRY \<equiv> 3"
abbreviation (input) SERIAL_THREAD_ENTRY :: nat where "SERIAL_THREAD_ENTRY \<equiv> 4"

text \<open>The names ``thread1'', ``gpio'', ``serial'', ``pwm1\_sem'', ``rx\_sem'' and ``uart2''.\<close>

definition thread1_name :: "u8 list" where "thread1_name = [0x74, 0x68, 0x72, 0x65, 0x61, 0x64, 0x31, 0]"
definition gpio_name :: "u8 list" where "gpio_name = [0x67, 0x70, 0x69, 0x6F, 0]"
definition serial_name :: "u8 list" where "serial_name = [0x73, 0x65, 0x72, 0x69, 0x61, 0x6C, 0]"
definition pwm1_sem_name :: "u8 list" where "pwm1_sem_name = [0x70, 0x77, 0x6D, 0x31, 0x5F, 0x73, 0x65, 0x6D, 0]"
definition rx_sem_name :: "u8 list" where "rx_sem_name = [0x72, 0x78, 0x5F, 0x73, 0x65, 0x6D, 0]"
definition uart2_name :: "u8 list" where "uart2_name = [0x75, 0x61, 0x72, 0x74, 0x32, 0, 0, 0]"

definition read_knob_vol_thread :: "tid option \<Rightarrow> u32 option \<Rightarrow> kstate \<Rightarrow> (int \<times> kstate) option" where
  "read_knob_vol_thread block stk s = do {
     (_, s) \<leftarrow> create_and_start block stk thread1_name READ_KNOB_VOL_ENTRY 512 25 5 s;
     Some (0, s)
   }"

definition gpio_thread_init :: "tid option \<Rightarrow> u32 option \<Rightarrow> kstate \<Rightarrow> (rt_err_t \<times> kstate) option" where
  "gpio_thread_init block stk s = do {
     (ok, s) \<leftarrow> create_and_start block stk gpio_name GPIO_ENTRY 1024 15 100 s;
     Some (if ok then RT_EOK else - RT_ENOMEM, s)
   }"

section \<open>The PWM device and its thread\<close>

definition pwm_channel_start :: "rcc \<Rightarrow> nat \<Rightarrow> u32 \<Rightarrow> tim_regs dev_state \<Rightarrow> tim_regs dev_state option" where
  "pwm_channel_start clk d i st = do {
     (_, st) \<leftarrow> rt_pwm_set (Some (drv_pwm_control clk)) (Some d) i (period * 2) 0 st;
     (_, st) \<leftarrow> rt_pwm_enable (Some (drv_pwm_control clk)) (Some d) i st;
     Some st
   }"

definition pwm_led_sample :: "rcc \<Rightarrow> tid option \<Rightarrow> u32 option \<Rightarrow> tim_regs dev_state \<Rightarrow> (rt_err_t \<times> tim_regs dev_state) option" where
  "pwm_led_sample clk block stk st = do {
     (_, s) \<leftarrow> rt_sem_init pwm1_sem pwm1_sem_name 0 RT_IPC_FLAG_FIFO (kern st);
     (pwm_dev, s) \<leftarrow> rt_device_find pwm1_name s;
     let st = st\<lparr>kern := s\<rparr>;
     case pwm_dev of
       None \<Rightarrow> Some (RT_ERROR, st)
     | Some x \<Rightarrow> do {
         d \<leftarrow> (case x of DevObj d \<Rightarrow> Some d | _ \<Rightarrow> None);
         st \<leftarrow> pwm_channel_start clk d 1 st;
         st \<leftarrow> pwm_channel_start clk d 2 st;
         st \<leftarrow> pwm_channel_start clk d 3 st;
         (ok, s) \<leftarrow> create_and_start block stk serial_name PWM_THREAD_ENTRY 1024 25 10 (kern st);
         Some (if ok then RT_EOK else RT_ERROR, st\<lparr>kern := s\<rparr>)
       }
   }"

section \<open>The converter and the sampling thread\<close>

text \<open>The beginning of \<open>read_knob_vol_entry\<close>; a device that is missing is reported, and then fails the assertion
  of the first call.\<close>

definition adc1_name :: "u8 list" where "adc1_name = [0x61, 0x64, 0x63, 0x31, 0]"

fun enable_channels :: "'h rt_adc_ops \<Rightarrow> nat option \<Rightarrow> nat list \<Rightarrow> 'h dev_state \<Rightarrow> 'h dev_state option" where
  "enable_channels ops d [] st = Some st"
| "enable_channels ops d (i # is) st = do { (_, st) \<leftarrow> rt_adc_enable ops d (of_nat i) st; enable_channels ops d is st }"

definition read_knob_vol_begin :: "'h rt_adc_ops \<Rightarrow> 'h dev_state \<Rightarrow> (nat option \<times> 'h dev_state) option" where
  "read_knob_vol_begin ops st = do {
     (x, s) \<leftarrow> rt_device_find adc1_name (kern st);
     let adc_dev = (case x of Some (DevObj i) \<Rightarrow> Some i | _ \<Rightarrow> None);
     st \<leftarrow> enable_channels ops adc_dev [0..<7] (st\<lparr>kern := s\<rparr>);
     Some (adc_dev, st)
   }"

text \<open>The conversions of one round, before the arithmetic of \<open>AdcFilter\<close>.\<close>

fun read_channels :: "'h rt_adc_ops \<Rightarrow> nat option \<Rightarrow> nat list \<Rightarrow> 'h dev_state \<Rightarrow> (u32 list \<times> 'h dev_state) option" where
  "read_channels ops d [] st = Some ([], st)"
| "read_channels ops d (i # is) st = do {
     (v, st) \<leftarrow> rt_adc_read ops d (of_nat i) st;
     (vs, st) \<leftarrow> read_channels ops d is st;
     Some (v # vs, st)
   }"

text \<open>With a converter of 12 bits they are what a step of the sampling thread expects.\<close>

lemma read_channels_samples:
  assumes "\<And>h. fst (ah_value hal h) < 4096" "\<forall>i\<in>set is. i \<le> 18"
  shows "\<exists>raws st'. read_channels (stm_adc_ops hal) (Some d) is st = Some (raws, st') \<and> length raws = length is \<and>
    (\<forall>raw\<in>set raws. raw < 4096)"
  using assms(2)
proof (induction "is" arbitrary: st)
  case (Cons i "is")
  have "(of_nat i :: u32) \<le> 18" using Cons.prems by (simp add: word_le_nat_alt take_bit_nat_eq_self unsigned_of_nat)
  then obtain st1 where "rt_adc_read (stm_adc_ops hal) (Some d) (of_nat i) st = Some (fst (adc_sample hal (of_nat i) (drv st)), st1)"
    using rt_adc_read_sample by blast
  moreover have "fst (adc_sample hal (of_nat i) (drv st)) < 4096" by (simp add: adc_sample_def assms(1))
  ultimately show ?case using Cons.IH [of st1] Cons.prems by auto
qed simp

lemma conversions_ok:
  assumes "\<And>h. fst (ah_value hal h) < 4096"
  shows "\<exists>raws st'. read_channels (stm_adc_ops hal) (Some d) [0..<7] st = Some (raws, st') \<and> samples_ok raws"
  using read_channels_samples [OF assms, of "[0..<7]" d st] by (auto simp: samples_ok_def)

section \<open>The serial line and its thread\<close>

text \<open>\<open>ops\<close> is the serial driver; the callback \<open>uart_input\<close> has the number 0.\<close>

definition uart_sample :: "('d, 'l, 'a, 'o) rt_device_ops \<Rightarrow> tid option \<Rightarrow> u32 option \<Rightarrow> 'd dev_state \<Rightarrow> (rt_err_t \<times> 'd dev_state) option" where
  "uart_sample ops block stk st = do {
     uart_name \<leftarrow> rt_strncpy uart2_name RT_NAME_MAX;
     (serial, s) \<leftarrow> rt_device_find uart_name (kern st);
     let st = st\<lparr>kern := s\<rparr>;
     case serial of
       None \<Rightarrow> Some (RT_ERROR, st)
     | Some x \<Rightarrow> do {
         i \<leftarrow> (case x of DevObj i \<Rightarrow> Some i | _ \<Rightarrow> None);
         (_, s) \<leftarrow> rt_sem_init rx_sem rx_sem_name 0 RT_IPC_FLAG_FIFO (kern st);
         (_, st) \<leftarrow> rt_device_open ops i 0x100 (st\<lparr>kern := s\<rparr>);
         (_, st) \<leftarrow> rt_device_set_rx_indicate i (Some 0) st;
         (ok, s) \<leftarrow> create_and_start block stk serial_name SERIAL_THREAD_ENTRY 1024 25 10 (kern st);
         Some (if ok then RT_EOK else RT_ERROR, st\<lparr>kern := s\<rparr>)
       }
   }"

section \<open>The main thread\<close>

definition LED0_PIN :: u32 where "LED0_PIN = GET_PIN 6 1"

text \<open>\<open>MX_TIM1_Init\<close> is generated code, an argument that changes the registers.\<close>

definition main_start :: "(tim_regs \<Rightarrow> tim_regs) \<Rightarrow> rcc \<Rightarrow> tid option \<times> u32 option \<Rightarrow> tid option \<times> u32 option \<Rightarrow>
    tim_regs dev_state \<times> gpio \<Rightarrow> (tim_regs dev_state \<times> gpio) option" where
  "main_start MX_TIM1_Init clk m1 m2 hw = do {
     (_, s) \<leftarrow> read_knob_vol_thread (fst m1) (snd m1) (kern (fst hw));
     let st = (fst hw)\<lparr>kern := s, drv := MX_TIM1_Init (drv (fst hw))\<rparr>;
     (_, st) \<leftarrow> pwm_led_sample clk (fst m2) (snd m2) st;
     g \<leftarrow> rt_pin_mode (Some stm32_pin_ops) LED0_PIN 0 (snd hw);
     Some (st, g)
   }"

text \<open>The loop, with the counter that is incremented in its condition; at the largest \<open>int\<close> that is undefined.
  After the loop the thread ends.\<close>

datatype main_pc = Main_test | Main_high | Main_on | Main_low | Main_off | Main_end

record led =
  main_count :: int
  main_pc :: main_pc
  led_pins :: gpio
  led_ker :: kstate

definition main_delay :: "main_pc \<Rightarrow> main_pc \<Rightarrow> led \<Rightarrow> led option" where
  "main_delay ret waiting l = do {
     (r, s) \<leftarrow> rt_thread_mdelay 500 (led_ker l);
     Some (l\<lparr>led_ker := s, main_pc := went ret waiting r\<rparr>)
   }"

definition main_step :: "tid \<Rightarrow> led \<Rightarrow> led option" where
  "main_step t l =
     (case main_pc l of
        Main_test \<Rightarrow> do {
          c_defined (main_count l < 2 ^ 31 - 1);
          Some (l\<lparr>main_count := main_count l + 1, main_pc := (if main_count l \<noteq> 0 then Main_high else Main_end)\<rparr>)
        }
      | Main_high \<Rightarrow> main_delay Main_low Main_on (l\<lparr>led_pins := stm32_pin_write LED0_PIN 1 (led_pins l)\<rparr>)
      | Main_on \<Rightarrow> do {
          (r, s) \<leftarrow> rt_thread_sleep_resumed t (led_ker l);
          Some (l\<lparr>led_ker := s, main_pc := Main_low\<rparr>)
        }
      | Main_low \<Rightarrow> main_delay Main_test Main_off (l\<lparr>led_pins := stm32_pin_write LED0_PIN 0 (led_pins l)\<rparr>)
      | Main_off \<Rightarrow> do {
          (r, s) \<leftarrow> rt_thread_sleep_resumed t (led_ker l);
          Some (l\<lparr>led_ker := s, main_pc := Main_test\<rparr>)
        }
      | Main_end \<Rightarrow> None)"

text \<open>The pin of the lamp is next to that of the relay, which it leaves alone.\<close>

lemma main_keeps_relay: "main_step t l = Some l' \<Longrightarrow> g_odr (led_pins l') 6 0 = g_odr (led_pins l) 6 0"
proof -
  have "PIN_NO LED0_PIN = 1" by (simp add: PIN_NO_def LED0_PIN_def GET_PIN_def)
  then have "g_odr (stm32_pin_write LED0_PIN v g) 6 0 = g_odr g 6 0" for v g
    by (simp add: stm32_pin_write_def HAL_GPIO_WritePin_def)
  moreover assume "main_step t l = Some l'"
  ultimately show ?thesis
    by (auto simp: main_step_def main_delay_def Option.bind_eq_Some_conv split: main_pc.splits)
qed

section \<open>What the start leaves\<close>

lemma device_find_keep:
  "rt_device_find name s = Some (x, s') \<Longrightarrow> objs s' = objs s \<and> threads s' = threads s \<and> timers s' = timers s"
  by (auto simp: rt_device_find_def rt_object_find_def Option.bind_eq_Some_conv Let_def rt_exit_critical_def rt_enter_critical_def
      dest!: rt_schedule_objs split: option.splits if_splits)

lemma inv_device_find: "rt_device_find name s = Some (x, s') \<Longrightarrow> kernel_inv s \<Longrightarrow> kernel_inv s'"
  by (auto simp: rt_device_find_def rt_object_find_def Option.bind_eq_Some_conv Let_def dest!: inv_exit_critical
      split: option.splits if_splits)

lemma sem_init_keep:
  "rt_sem_init i name v flag s = Some (r, s') \<Longrightarrow> threads s' = threads s \<and> timers s' = timers s \<and> objs s' (DevObj d) = objs s (DevObj d)"
  by (auto simp: rt_sem_init_def rt_object_init_def rt_ipc_object_init_def obj_link_front_def set_flag_def set_sem_def
      Option.bind_eq_Some_conv Let_def rt_exit_critical_def rt_enter_critical_def dest!: rt_schedule_objs split: if_splits)

lemma channel_numbers:
  assumes "i \<in> {1, 2, 3 :: u32}"
  shows "ccr_no (4 * (i - 1)) = unat i" "unat ((4 * (i - 1)) AND 0x1F) = 4 * (unat i - 1)" "unat i \<in> {1, 2, 3}"
  using assms by (auto simp: ccr_no_def)

lemma push_1_bit: "k < 32 \<Longrightarrow> bit (push_bit k (1 :: u32)) n \<longleftrightarrow> n = k"
  by (auto simp: bit_simps)

lemma pwm_start_regs:
  "psc (HAL_TIM_PWM_Start ch r) = psc r" "arr (HAL_TIM_PWM_Start ch r) = arr r" "ccr (HAL_TIM_PWM_Start ch r) = ccr r"
  "tim_no (HAL_TIM_PWM_Start ch r) = tim_no r" "smcr (HAL_TIM_PWM_Start ch r) = smcr r"
  "smcr r AND 7 \<noteq> TIM_SLAVEMODE_TRIGGER \<Longrightarrow> cr1 (HAL_TIM_PWM_Start ch r) = cr1 r OR TIM_CR1_CEN"
  "ccer (HAL_TIM_PWM_Start ch r) = ccer r AND NOT (push_bit (unat (ch AND 0x1F)) 1) OR push_bit (unat (ch AND 0x1F)) 1"
  by (simp_all add: HAL_TIM_PWM_Start_def TIM_CCxChannelCmd_def Let_def)

lemma pwm_conf_channel: "pwm_channel (pwm_conf i per pul) = i"
  by (simp add: pwm_conf_def)

lemma pwm_channel_start_regs:
  assumes d: "is_device d st" and i: "i \<in> {1, 2, 3}" and m: "pwm_mhz clk (drv st) \<le> 999"
    and s: "smcr (drv st) AND 7 \<noteq> TIM_SLAVEMODE_TRIGGER"
  defines "M \<equiv> pwm_mhz clk (drv st)"
  shows "\<exists>r. pwm_channel_start clk d i st = Some (st\<lparr>drv := r\<rparr>) \<and> pwm_mhz clk r = M \<and> smcr r = smcr (drv st) \<and>
    unat (psc r) = pwm_prescaler M (period * 2) - 1 \<and> unat (arr r) = pwm_counts M (period * 2) - 1 \<and>
    unat (ccr r (unat i)) = 0 \<and> (\<forall>j. j \<noteq> unat i \<longrightarrow> ccr r j = ccr (drv st) j) \<and>
    bit (ccer r) (4 * (unat i - 1)) \<and> (\<forall>j. bit (ccer (drv st)) j \<longrightarrow> bit (ccer r) j) \<and> cr1 r AND TIM_CR1_CEN \<noteq> 0"
proof -
  let ?c = "pwm_conf i (period * 2) 0"
  define r1 where "r1 = drv_pwm_set clk ?c (drv st)"
  define r where "r = HAL_TIM_PWM_Start (4 * (i - 1)) r1"
  have c: "pwm_channel ?c = i" "pwm_period ?c = period * 2" by (simp_all add: pwm_conf_def)
  have r1: "unat (psc r1) = pwm_prescaler M (period * 2) - 1" "unat (arr r1) = pwm_counts M (period * 2) - 1"
      "unat (ccr r1 (unat i)) = 0" "\<And>j. j \<noteq> unat i \<Longrightarrow> ccr r1 j = ccr (drv st) j"
    using drv_pwm_set_regs [OF m, where c = ?c] channel_numbers(1) [OF i] off_compare [of M] pulse_compare [of M i 0]
    unfolding r1_def c M_def by (simp_all add: pulse_conf_def)
  have keep: "smcr r1 = smcr (drv st)" "ccer r1 = ccer (drv st)" "tim_no r1 = tim_no (drv st)"
    by (simp_all add: r1_def drv_pwm_set_def Let_def)
  have d1: "is_device d (st\<lparr>drv := r1\<rparr>)" using d by (simp add: is_device_def)
  have run: "pwm_channel_start clk d i st = Some (st\<lparr>drv := r\<rparr>)"
    using pwm_set_call [OF d, of clk i "period * 2" 0, folded r1_def] d1 pwm_conf_channel
    by (simp add: pwm_channel_start_def rt_pwm_enable_def pwm_command_def rt_device_control_def rt_assert_def
        pwm_ops_def pwm_control_fn_def on_tim_def drv_pwm_control_def drv_pwm_enable_def r_def)
  have k: "4 * (unat i - 1) < 32" using channel_numbers(3) [OF i] by auto
  have e: "ccer r = ccer (drv st) AND NOT (push_bit (4 * (unat i - 1)) 1) OR push_bit (4 * (unat i - 1)) 1"
    unfolding r_def pwm_start_regs keep channel_numbers(2) [OF i] ..
  have "bit (ccer r) j \<longleftrightarrow> j = 4 * (unat i - 1) \<or> bit (ccer (drv st)) j" for j
    using k bit_imp_le_length [of "ccer (drv st)" j] unfolding e
    by (auto simp: bit_or_iff bit_and_iff bit_not_iff push_1_bit simp del: push_bit_of_1)
  moreover have "cr1 r AND TIM_CR1_CEN \<noteq> 0"
    using s keep(1) pwm_start_regs(6) [of r1] bit_0_masks(1) by (simp add: r_def)
  moreover have "pwm_mhz clk r = M" by (simp add: M_def r_def pwm_mhz_def pwm_tim_clock_def pwm_start_regs keep)
  ultimately show ?thesis using run r1 keep(1) by (intro exI [of _ r]) (simp add: r_def pwm_start_regs)
qed

lemma create_keep:
  assumes "rt_thread_create block stack nm e a sz p tick s = Some (r, s')"
  shows "objs s' (DevObj d) = objs s (DevObj d)"
  using assms
proof (cases rule: create_cases)
  case (2 t nm')
  then show ?thesis by (auto simp: rt_object_delete_def obj_unlink_def obj_link_front_def Let_def Option.bind_eq_Some_conv split: if_splits)
next
  case (3 t stack nm' r')
  then show ?thesis
    by (auto simp: rt_thread_init_fields_def rt_timer_init_def rt_timer_init_fields_def set_tm_flag_def Option.bind_eq_Some_conv
      rt_object_init_def obj_link_front_def Let_def rt_enter_critical_def rt_exit_critical_def split: if_splits
      dest!: rt_schedule_objs)
qed simp

lemma link_thread_at_keep: "link_thread_at l n t s = Some s' \<Longrightarrow> objs s' = objs s"
  by (auto simp: link_thread_at_def Option.bind_eq_Some_conv)

lemma startup_keep:
  "rt_thread_startup t s = Some (r, s') \<Longrightarrow> objs s' (DevObj d) = objs s (DevObj d)"
  by (auto simp: rt_thread_startup_def rt_thread_resume_def rt_timer_stop_def rt_schedule_insert_thread_def set_tm_flag_def
      link_thread_back_def Option.bind_eq_Some_conv Let_def dest!: rt_schedule_objs link_thread_at_keep split: if_splits)

lemma create_and_start_keep:
  assumes "create_and_start block stack name entry sz prio tick s = Some (ok, s')" "kernel_inv s"
    and "\<And>t. block = Some t \<Longrightarrow> unused_block t s"
  shows "kernel_inv s' \<and> objs s' (DevObj d) = objs s (DevObj d)"
proof -
  obtain r s1 where s1: "rt_thread_create block stack name entry 0 sz prio tick s = Some (r, s1)"
      "case r of None \<Rightarrow> s' = s1 | Some t \<Rightarrow> \<exists>e. rt_thread_startup t s1 = Some (e, s')"
    using assms(1) by (fastforce simp: create_and_start_def Option.bind_eq_Some_conv split: option.splits)
  have inv: "kernel_inv s1" by (rule inv_thread_create [OF s1(1) assms(2,3)])
  have o: "objs s1 (DevObj d) = objs s (DevObj d)" by (rule create_keep [OF s1(1)])
  show ?thesis
  proof (cases r)
    case None
    then show ?thesis using s1(2) inv o by simp
  next
    case (Some t)
    from s1(1) [unfolded Some] obtain stk where "block = Some t" "stack = Some stk" by (cases rule: create_cases) auto
    then have l: "t_link (threads s1 t) = None" using create_some_sel [of t stk] s1(1) by blast
    obtain e where e: "rt_thread_startup t s1 = Some (e, s')" using s1(2) Some by auto
    then show ?thesis using inv_thread_startup [OF e inv l] startup_keep [OF e] o by simp
  qed
qed

text \<open>The three channels, one after the other.\<close>

lemma channels_started:
  assumes d: "is_device d st" and m: "pwm_mhz clk (drv st) \<le> 999" and s: "smcr (drv st) AND 7 \<noteq> TIM_SLAVEMODE_TRIGGER"
  shows "\<exists>r. Option.bind (pwm_channel_start clk d 1 st) (\<lambda>st. Option.bind (pwm_channel_start clk d 2 st) (pwm_channel_start clk d 3)) =
      Some (st\<lparr>drv := r\<rparr>) \<and> pwm_mhz clk r = pwm_mhz clk (drv st) \<and>
    unat (psc r) = pwm_prescaler (pwm_mhz clk r) (period * 2) - 1 \<and> unat (arr r) = pwm_counts (pwm_mhz clk r) (period * 2) - 1 \<and>
    (\<forall>c\<in>{1, 2, 3}. unat (ccr r c) = 0) \<and> (\<forall>c\<in>{1, 2, 3}. bit (ccer r) (4 * (c - 1))) \<and> cr1 r AND TIM_CR1_CEN \<noteq> 0"
proof -
  have dev: "is_device d (st\<lparr>drv := r\<rparr>)" for r using d by (simp add: is_device_def)
  obtain r1 where r1: "pwm_channel_start clk d 1 st = Some (st\<lparr>drv := r1\<rparr>)" "pwm_mhz clk r1 = pwm_mhz clk (drv st)"
      "smcr r1 = smcr (drv st)" "unat (ccr r1 1) = 0" "bit (ccer r1) 0"
    using pwm_channel_start_regs [OF d _ m s, of 1] by auto
  obtain r2 where r2: "pwm_channel_start clk d 2 (st\<lparr>drv := r1\<rparr>) = Some (st\<lparr>drv := r2\<rparr>)" "pwm_mhz clk r2 = pwm_mhz clk (drv st)"
      "smcr r2 = smcr (drv st)" "unat (ccr r2 2) = 0" "\<forall>j. j \<noteq> 2 \<longrightarrow> ccr r2 j = ccr r1 j" "bit (ccer r2) 4" "\<forall>j. bit (ccer r1) j \<longrightarrow> bit (ccer r2) j"
    using pwm_channel_start_regs [OF dev [of r1], of 2 clk] m s r1(2,3) by auto
  obtain r3 where r3: "pwm_channel_start clk d 3 (st\<lparr>drv := r2\<rparr>) = Some (st\<lparr>drv := r3\<rparr>)" "pwm_mhz clk r3 = pwm_mhz clk (drv st)"
      "unat (psc r3) = pwm_prescaler (pwm_mhz clk (drv st)) (period * 2) - 1" "unat (arr r3) = pwm_counts (pwm_mhz clk (drv st)) (period * 2) - 1"
      "unat (ccr r3 3) = 0" "\<forall>j. j \<noteq> 3 \<longrightarrow> ccr r3 j = ccr r2 j" "bit (ccer r3) 8" "\<forall>j. bit (ccer r2) j \<longrightarrow> bit (ccer r3) j"
      "cr1 r3 AND TIM_CR1_CEN \<noteq> 0"
    using pwm_channel_start_regs [OF dev [of r2], of 3 clk] m s r2(2,3) by auto
  have "Option.bind (pwm_channel_start clk d 1 st) (\<lambda>st. Option.bind (pwm_channel_start clk d 2 st) (pwm_channel_start clk d 3)) =
      Some (st\<lparr>drv := r3\<rparr>)" using r1(1) r2(1) r3(1) by simp
  moreover have "\<forall>c\<in>{1, 2, 3}. unat (ccr r3 c) = 0" using r1(4) r2(4,5) r3(5,6) by simp
  moreover have "\<forall>c\<in>{1, 2, 3}. bit (ccer r3) (4 * (c - 1))" using r1(5) r2(6,7) r3(7,8) by simp
  ultimately show ?thesis using r3 by metis
qed

text \<open>When the PWM part of the start succeeds, the three channels are on with the period of the application and no
  pulse, the kernel is in a good state, and the outputs of the controller that starts there are those of the
  timer and of the relay's pin when that is low.\<close>

lemma pwm_start_ready:
  assumes run: "pwm_led_sample clk block stack st = Some (RT_EOK, st')" and inv: "kernel_inv (kern st)"
    and block: "\<And>t. block = Some t \<Longrightarrow> unused_block t (kern st)"
    and m: "pwm_mhz clk (drv st) \<le> 999" and s: "smcr (drv st) AND 7 \<noteq> TIM_SLAVEMODE_TRIGGER"
    and relay_low: "\<not> g_odr g 6 0"
  shows "\<exists>d. app_inv (app_init (kern st') f) \<and> outputs_match clk d (app_init (kern st') f) (st', g) \<and>
    (\<forall>c\<in>{1, 2, 3}. bit (ccer (drv st')) (4 * (c - 1))) \<and> cr1 (drv st') AND TIM_CR1_CEN \<noteq> 0"
proof -
  obtain e s1 where s1: "rt_sem_init pwm1_sem pwm1_sem_name 0 RT_IPC_FLAG_FIFO (kern st) = Some (e, s1)"
    using run by (auto simp: pwm_led_sample_def Option.bind_eq_Some_conv)
  obtain x s2 where s2: "rt_device_find pwm1_name s1 = Some (x, s2)"
    using run s1 by (auto simp: pwm_led_sample_def Option.bind_eq_Some_conv)
  obtain d where x: "x = Some (DevObj d)"
    using run s1 s2 by (cases x) (auto simp: pwm_led_sample_def Option.bind_eq_Some_conv Let_def split: oid.splits)
  obtain st3 ok s3 where st3: "Option.bind (pwm_channel_start clk d 1 (st\<lparr>kern := s2\<rparr>))
        (\<lambda>st. Option.bind (pwm_channel_start clk d 2 st) (pwm_channel_start clk d 3)) = Some st3"
      and s3: "create_and_start block stack serial_name PWM_THREAD_ENTRY 1024 25 10 (kern st3) = Some (ok, s3)"
      and st': "st' = st3\<lparr>kern := s3\<rparr>"
    using run s1 s2 x by (auto simp: pwm_led_sample_def Option.bind_eq_Some_conv split: if_splits)
  have dev: "is_device d (st\<lparr>kern := s2\<rparr>)"
    using st3 by (auto simp: pwm_channel_start_def rt_pwm_set_def pwm_command_def rt_device_control_def Option.bind_eq_Some_conv)
  obtain r where r: "st3 = st\<lparr>kern := s2, drv := r\<rparr>" "pwm_mhz clk r = pwm_mhz clk (drv st)"
      "unat (psc r) = pwm_prescaler (pwm_mhz clk r) (period * 2) - 1" "unat (arr r) = pwm_counts (pwm_mhz clk r) (period * 2) - 1"
      "\<forall>c\<in>{1, 2, 3}. unat (ccr r c) = 0" "\<forall>c\<in>{1, 2, 3}. bit (ccer r) (4 * (c - 1))" "cr1 r AND TIM_CR1_CEN \<noteq> 0"
    using channels_started [OF dev, of clk] m s st3 by auto
  have k2: "kernel_inv s2" using inv_device_find [OF s2] inv_sem_init [OF s1 inv] by blast
  have u: "unused_block t s2" if "block = Some t" for t
    using block [OF that] device_find_keep [OF s2] sem_init_keep [OF s1] by (simp add: unused_block_def)
  have "create_and_start block stack serial_name PWM_THREAD_ENTRY 1024 25 10 s2 = Some (ok, s3)" using s3 by (simp add: r(1))
  note k3 = create_and_start_keep [OF this k2 u, of d]
  have "is_device d st'" using k3 dev by (simp add: is_device_def rt_object_get_type_def st')
  then have "outputs_match clk d (app_init (kern st') f) (st', g)"
    using r m relay_low off_compare [of "pwm_mhz clk r"] by (simp add: outputs_match_def app_init_def st')
  moreover have "app_inv (app_init (kern st') f)" by (rule app_init_inv) (use k3 in \<open>simp add: st'\<close>)
  ultimately show ?thesis using r(6,7) by (intro exI [of _ d]) (simp add: st' r(1))
qed


end
