(* ===== verification/BoardExamples.thy ===== *)
theory BoardExamples
  imports StartUp Adc MemoryExamples
begin

text \<open>The theorems on the drivers of the board at concrete inputs.\<close>

section \<open>A timer\<close>

text \<open>The first timer with a clock of 84 MHz.\<close>

definition demo_rcc :: rcc where "demo_rcc = \<lparr>pclk1 = 42000000, pclk2 = 84000000\<rparr>"

definition demo_tim :: tim_regs where
  "demo_tim = \<lparr>tim_no = 1, cr1 = 0, smcr = 0, ccer = 0, bdtr = 0, egr = 0, psc = 0, arr = 4999, cnt = 0, ccr = (\<lambda>_. 0),
     init_period = 4999\<rparr>"

lemma demo_mhz [simp]: "pwm_mhz demo_rcc demo_tim = 84"
  by (simp add: pwm_mhz_def pwm_tim_clock_def demo_rcc_def demo_tim_def)

definition demo_pwm :: "tim_regs dev_state" where
  "demo_pwm = \<lparr>dev = device0\<lparr>ref_count := 1\<rparr>, drv = demo_tim, kern = demo (SemWait 0)\<rparr>"

lemma demo_pwm_sel [simp]: "drv demo_pwm = demo_tim" "is_device 0 demo_pwm" "ref_count (dev demo_pwm) = 1"
  by (simp_all add: demo_pwm_def is_device_def rt_object_get_type_def demo_obj_def)

text \<open>A period of 10 ms is longer than the counter: the timer gets a prescaler.\<close>

lemma pwm_registers_bounded_witness:
  "let r' = drv_pwm_set demo_rcc (pwm_conf 2 10000000 1000000) demo_tim; n = (unat (arr r') + 1) * (unat (psc r') + 1) in
    unat (psc r') < 2 ^ 16 \<and> unat (arr r') < 2 ^ 16 \<and> ccr r' 2 \<le> arr r' \<and> ccr r' 1 = 0 \<and> n \<le> 840000 \<and> 840000 < n + (unat (psc r') + 1)"
proof -
  have t: "pwm_ticks 84 (pwm_period (pwm_conf 2 10000000 1000000)) = 840000" by (simp add: pwm_ticks_def pwm_conf_def)
  have k: "2 = ccr_no (4 * (pwm_channel (pwm_conf 2 10000000 1000000) - 1))" by (simp add: ccr_no_def pwm_conf_def)
  have "ccr demo_tim 1 = 0" by (simp add: demo_tim_def)
  then show ?thesis
    using pwm_registers_bounded [OF _ refl k, of demo_rcc demo_tim] unfolding demo_mhz t Let_def by simp
qed

text \<open>5000 counts at 84 MHz are 59523.8 ns: writing a pulse shortens the period.\<close>

lemma pwm_write_keeps_period_witness:
  "\<exists>st'. rt_device_write (pwm_ops (Some (drv_pwm_control demo_rcc))) 0 1 0x20000000 [0, 0, 1, 0] demo_pwm = Some (Return 4, st') \<and>
    arr (drv st') \<noteq> 4999"
proof -
  have "\<not> (84 :: nat) dvd (unat (arr demo_tim) + 1) * 1000" by (simp add: demo_tim_def)
  moreover have "arr demo_tim = 4999" by (simp add: demo_tim_def)
  ultimately show ?thesis
    using pwm_write_keeps_period [where i = 0 and st = demo_pwm and clk = demo_rcc and bytes = "[0, 0, 1, 0]" and pos = 1
        and buffer = "0x20000000", unfolded demo_pwm_sel demo_mhz]
    by (auto simp: demo_tim_def)
qed

text \<open>The time the application asks its timer for.\<close>

lemma timeout_calc_accurate_witness:
  "timeout_calc stm32_hwtimer_info 1000000 (0, 100) = Some (1, fl (1 / 10000), 100) \<and> \<bar>of_nat 1 * of_nat (unat (100 :: u32)) - 100\<bar> \<le> (1 + 100 / 2 ^ 19 :: rat)"
  using timeout_calc_accurate [OF timeout_100us] timeout_100us by simp

text \<open>The kernel before the scheduler runs, with the device of the timer registered.\<close>

definition demo_kernel :: kstate where
  "demo_kernel = kstate0\<lparr>objs := (\<lambda>_. \<lparr>obj_name = timer14_name, obj_type = RT_Object_Class_Static OR RT_Object_Class_Device, obj_flag = 0\<rparr>),
     obj_lists := (\<lambda>_. [DevObj 0])\<rparr>"

definition demo_timer14 :: "rt_hwtimer dev_state" where
  "demo_timer14 = \<lparr>dev = device0, drv = \<lparr>hw_tim = demo_tim\<lparr>tim_no := 14\<rparr>, hw_dier = 0, hw_sr = 0, hw_irq = False, hw_freq = 0,
     hw_overflow = 0, hw_period_sec = 0, hw_cycles = 0, hw_reload = 0, hw_mode = 0\<rparr>, kern = demo_kernel\<rparr>"

definition demo_hw_rcc :: hw_rcc where
  "demo_hw_rcc = \<lparr>pclk1 = 42000000, pclk2 = 84000000, apb1_div1 = False, apb2_div1 = False\<rparr>"

definition demo_base :: base_init where
  "demo_base p n up r = (True, r\<lparr>psc := p, arr := n\<rparr>)"

lemma demo_find_timer14: "rt_device_find timer14_name demo_kernel = Some (Some (DevObj 0), demo_kernel)"
proof -
  have "rt_strncmp timer14_name timer14_name RT_NAME_MAX = Some 0" by (simp add: timer14_name_def numeral_eq_Suc)
  then show ?thesis
    by (simp add: rt_device_find_def rt_object_find_def rt_object_get_information_def demo_kernel_def kstate0_def rt_assert_def
        rt_enter_critical_def rt_exit_critical_def Let_def rt_object_container_def)
qed

lemma control_timer_counts_witness:
  "\<exists>st'. timer14_init (stm32_hwtimer_ops demo_base demo_hw_rcc) 0 demo_timer14 = Some (0, st') \<and>
    (unat (arr (hw_tim (drv st'))) + 1) * (unat (psc (hw_tim (drv st'))) + 1) = 8400 \<and>
    (\<exists>st''. timer14_ticks (stm32_hwtimer_ops demo_base demo_hw_rcc) 3 (st', demo_app) =
      map_option (Pair st'') (app_iter 3 (in_isr control_hwtimer_cb) demo_app))"
proof -
  have c: "hw_clock demo_hw_rcc (hw_tim (drv demo_timer14)) = 84000000"
    by (simp add: hw_clock_def pclkx_doubler_get_def demo_hw_rcc_def demo_timer14_def demo_tim_def)
  have "base_init_ok demo_base" by (simp add: base_init_ok_def demo_base_def)
  moreover have "is_device 0 (demo_timer14\<lparr>kern := demo_kernel\<rparr>)"
    by (simp add: is_device_def rt_object_get_type_def demo_kernel_def)
  ultimately show ?thesis
    using control_timer_counts [of demo_timer14 0 demo_kernel demo_base demo_hw_rcc 0] demo_find_timer14 c
    by (auto simp: demo_timer14_def device0_def demo_tim_def)
qed

section \<open>The pins\<close>

text \<open>All pins are inputs, nothing is attached.\<close>

definition demo_gpio :: gpio where
  "demo_gpio = \<lparr>g_mode = (\<lambda>_ _. 0), g_pull = (\<lambda>_ _. 0), g_odr = (\<lambda>_ _. False), g_idr = (\<lambda>_ _. False), exticr = (\<lambda>_. 0),
     imr = (\<lambda>_. False), rtsr = (\<lambda>_. False), ftsr = (\<lambda>_. False), pend = (\<lambda>_. False), nvic = (\<lambda>_. False),
     hdr_tab = replicate 16 no_hdr, enable_mask = 0\<rparr>"

lemma demo_nvic: "nvic_ok demo_gpio"
  by (simp add: nvic_ok_def demo_gpio_def)

lemma demo_pin_no [simp]: "PIN_NO 3 = 3" "PIN_NO 0x13 = 3" "PIN_PORT 3 = 0" "PIN_PORT 0x13 = 1"
  by (simp_all add: PIN_NO_def PIN_PORT_def)

definition demo_attached :: gpio where
  "demo_attached = demo_gpio\<lparr>hdr_tab := (hdr_tab demo_gpio)[3 := \<lparr>irq_pin = 3, irq_hmode = 1, irq_hdr = Some 7, irq_args = 0\<rparr>]\<rparr>"

lemma demo_attach: "stm32_pin_attach_irq 3 1 (Some 7) 0 demo_gpio = (RT_EOK, demo_attached)"
  using attach_free [of 3 demo_gpio 1 "Some 7" 0]
  by (simp add: pin_ok_def demo_attached_def demo_gpio_def no_hdr_def)

lemma pin_interrupts_enabled_witness: "pin_step\<^sup>*\<^sup>* demo_gpio demo_attached \<and> nvic_ok demo_attached"
proof -
  have "pin_step\<^sup>*\<^sup>* demo_gpio demo_attached" by (rule r_into_rtranclp) (rule pin_step.attach [OF demo_attach])
  then show ?thesis using pin_interrupts_enabled [OF _ demo_nvic] by blast
qed

lemma line_taken_away_witness:
  "\<exists>g'. stm32_pin_dettach_irq 0x13 demo_attached = (RT_EOK, g') \<and> hdr_tab g' ! 3 = no_hdr"
proof -
  have "nvic_ok demo_attached" using attach_nvic [of 3 1 "Some 7" 0 demo_gpio] demo_nvic by (simp add: demo_attach)
  then show ?thesis
    using line_taken_away [where pin = 3 and pin' = "0x13" and g = demo_attached and mode = 1 and h = 7 and a = 0] by (simp add: pin_ok_def demo_attached_def demo_gpio_def)
qed

section \<open>The outputs\<close>

text \<open>The timer as the application sets it up: no pulses.\<close>

definition demo_hw :: "tim_regs dev_state \<times> gpio" where
  "demo_hw = (demo_pwm\<lparr>drv := drv_pwm_set demo_rcc (pwm_conf 0 (period * 2) 0) demo_tim\<rparr>, demo_gpio)"

lemma demo_app_inv: "app_inv demo_app"
  unfolding demo_app_def by (rule app_init_inv) (rule demo_inv, simp)

lemma demo_outputs_match: "outputs_match demo_rcc 0 demo_app demo_hw"
proof -
  define r where "r = drv_pwm_set demo_rcc (pwm_conf 0 (period * 2) 0) demo_tim"
  have hw: "fst demo_hw = demo_pwm\<lparr>drv := r\<rparr>" "snd demo_hw = demo_gpio" by (simp_all add: demo_hw_def r_def)
  have m: "pwm_mhz demo_rcc r = 84" by (simp add: r_def)
  have "pwm_mhz demo_rcc demo_tim \<le> 999" by simp
  note s = drv_pwm_set_regs [OF this, where c = "pwm_conf 0 (period * 2) 0", folded r_def]
  have c: "pwm_channel (pwm_conf 0 (period * 2) 0) = 0" "pwm_period (pwm_conf 0 (period * 2) 0) = period * 2"
    "ccr_no (- 4) = 4"
    by (simp_all add: pwm_conf_def ccr_no_def)
  have "ccr r k = 0" if "k \<noteq> 4" for k using s(4) [of k] that by (simp add: c) (simp add: demo_tim_def)
  moreover have "is_device 0 (demo_pwm\<lparr>drv := r\<rparr>)" using demo_pwm_sel(2) by (simp add: is_device_def)
  moreover have "unat (psc r) = pwm_prescaler 84 (period * 2) - 1" "unat (arr r) = pwm_counts 84 (period * 2) - 1"
    using s(1,2) unfolding c demo_mhz by simp_all
  moreover have "pulse_out demo_app = (\<lambda>_. 0)" "relay demo_app = g_odr demo_gpio 6 0"
    by (simp_all add: demo_app_def app_init_def demo_gpio_def)
  ultimately show ?thesis
    using off_compare [of 84] unfolding outputs_match_def hw by (auto simp: m)
qed

lemma outputs_follow_witness:
  "\<exists>hw'. (wired_step demo_rcc 0 (\<lambda>_. Some))\<^sup>*\<^sup>* (demo_app, demo_hw) (demo_app\<lparr>hw_count := 1\<rparr>, hw') \<and>
    outputs_match demo_rcc 0 (demo_app\<lparr>hw_count := 1\<rparr>) hw'"
  using outputs_follow [OF demo_app_reach _ demo_app_inv demo_outputs_match] by (simp add: cb_ok_def)

text \<open>The lines set up by the application, and a timer that runs.\<close>

definition demo_running :: "rt_hwtimer dev_state" where
  "demo_running = \<lparr>dev = device0\<lparr>rx_indicate := Some control_cb\<rparr>, drv = \<lparr>hw_tim = demo_tim\<lparr>tim_no := 14, cr1 := 1, arr := 99, psc := 83\<rparr>,
     hw_dier = 1, hw_sr = 0, hw_irq = True, hw_freq = 1000000, hw_overflow = 0, hw_period_sec = 0, hw_cycles = 1, hw_reload = 1,
     hw_mode = HWTIMER_MODE_PERIOD\<rparr>, kern = demo_kernel\<rparr>"

lemma demo_timer_running: "timer14_running demo_hw_rcc demo_running"
  by (simp add: timer14_running_def demo_running_def hw_clock_def pclkx_doubler_get_def demo_hw_rcc_def device0_def)

definition demo_board :: board where
  "demo_board = \<lparr>b_app = demo_app, b_pwm = fst demo_hw, b_pins = demo_gpio\<lparr>hdr_tab := app_hdr_tab\<rparr>, b_timer = demo_running\<rparr>"

lemma demo_board_inv: "board_inv demo_rcc demo_hw_rcc 0 demo_board"
proof -
  have "outputs_match demo_rcc 0 demo_app (fst demo_hw, demo_gpio)" using demo_outputs_match by (simp add: demo_hw_def)
  then have "outputs_match demo_rcc 0 demo_app (fst demo_hw, demo_gpio\<lparr>hdr_tab := app_hdr_tab\<rparr>)"
    by (rule outputs_match_pins) simp
  then show ?thesis using demo_app_inv demo_timer_running by (simp add: board_inv_def demo_board_def)
qed

text \<open>The timer counts to its end once.\<close>

lemma demo_board_tick:
  "\<exists>t. (board_step demo_rcc 0 ops (\<lambda>_. Some))\<^sup>*\<^sup>* demo_board (demo_board\<lparr>b_app := demo_app\<lparr>hw_count := 1\<rparr>, b_timer := t\<rparr>)"
proof -
  have "in_isr control_hwtimer_cb demo_app = Some (demo_app\<lparr>hw_count := 1\<rparr>)"
    by (simp add: in_isr_def control_hwtimer_cb_def rt_interrupt_enter_def rt_interrupt_leave_def demo_app_def app_init_def)
  then obtain t where "timer14_tick ops (b_timer demo_board, b_app demo_board) = Some (t, demo_app\<lparr>hw_count := 1\<rparr>)"
    using tick_running [OF demo_timer_running, of ops demo_app] by (auto simp: demo_board_def)
  then show ?thesis using board_step.tim14 by blast
qed

lemma board_refines_controller_witness:
  "\<exists>b. (app_step (\<lambda>_. Some))\<^sup>*\<^sup>* demo_app (b_app b) \<and> b_app b = demo_app\<lparr>hw_count := 1\<rparr> \<and> board_inv demo_rcc demo_hw_rcc 0 b"
proof -
  obtain t where t: "(board_step demo_rcc 0 (stm32_hwtimer_ops demo_base demo_hw_rcc) (\<lambda>_. Some))\<^sup>*\<^sup>* demo_board
      (demo_board\<lparr>b_app := demo_app\<lparr>hw_count := 1\<rparr>, b_timer := t\<rparr>)" using demo_board_tick by blast
  have "b_app demo_board = demo_app" by (simp add: demo_board_def)
  then show ?thesis using board_refines_controller [OF t demo_board_inv]
    by (intro exI [of _ "demo_board\<lparr>b_app := demo_app\<lparr>hw_count := 1\<rparr>, b_timer := t\<rparr>"]) (simp add: cb_ok_def)
qed

lemma board_outputs_safe_witness: "unat (ccr (drv (b_pwm demo_board)) 1) \<in> {0, 6460}"
proof -
  obtain t where t: "(board_step demo_rcc 0 (stm32_hwtimer_ops demo_base demo_hw_rcc) (\<lambda>_. Some))\<^sup>*\<^sup>* demo_board
      (demo_board\<lparr>b_app := demo_app\<lparr>hw_count := 1\<rparr>, b_timer := t\<rparr>)" using demo_board_tick by blast
  have "pwm_mhz demo_rcc (drv (b_pwm demo_board)) = 84" by (simp add: demo_board_def demo_hw_def)
  then show ?thesis using board_outputs_safe [OF t demo_board_inv] on_compare(1) by (simp add: cb_ok_def)
qed

text \<open>From pins that nothing is attached to.\<close>

lemma zero_crossings_reach_callbacks_witness:
  "\<exists>g1. pin_setting (Some stm32_pin_ops) demo_gpio = Some (0, g1) \<and> line_ready g1 GPIO_PHASE_V \<and>
    phase_irq_v (g1\<lparr>pend := (\<lambda>n. n = 3)\<rparr>, demo_app) = map_option (Pair (clear {3} (g1\<lparr>pend := (\<lambda>n. n = 3)\<rparr>))) (in_isr PHASE_V_cb demo_app)"
proof -
  have "hdr_tab demo_gpio = replicate 16 no_hdr" by (simp add: demo_gpio_def)
  from zero_crossings_reach_callbacks [OF this] obtain g1 where g1: "pin_setting (Some stm32_pin_ops) demo_gpio = Some (0, g1)"
      "line_ready g1 GPIO_PHASE_V" "\<And>g a. hdr_tab g = hdr_tab g1 \<Longrightarrow>
        phase_irq_v (g, a) = map_option (Pair (clear {3} g)) (if pend g 3 then in_isr PHASE_V_cb a else Some a)"
    by blast
  then show ?thesis by (intro exI [of _ g1]) simp
qed

section \<open>The start\<close>

text \<open>The kernel after a reset, with the PWM device registered.\<close>

definition demo_boot :: kstate where
  "demo_boot = kernel_boot\<lparr>objs := (\<lambda>_. \<lparr>obj_name = pwm1_name @ [0, 0, 0],
       obj_type = RT_Object_Class_Static OR RT_Object_Class_Device, obj_flag = 0\<rparr>),
     obj_lists := (\<lambda>c. if c = RT_Object_Class_Device then [DevObj 0] else [])\<rparr>"

lemma demo_names:
  "rt_strncpy pwm1_sem_name 8 = Some [0x70, 0x77, 0x6D, 0x31, 0x5F, 0x73, 0x65, 0x6D]"
  "rt_strncpy serial_name 8 = Some [0x73, 0x65, 0x72, 0x69, 0x61, 0x6C, 0, 0]"
  "rt_strncpy [0x73, 0x65, 0x72, 0x69, 0x61, 0x6C, 0, 0] 8 = Some [0x73, 0x65, 0x72, 0x69, 0x61, 0x6C, 0, 0]"
  "rt_strncmp (pwm1_name @ [0, 0, 0]) pwm1_name 8 = Some 0"
  by code_simp+

lemma demo_pwm_thread:
  "\<exists>s1. rt_sem_init pwm1_sem pwm1_sem_name 0 RT_IPC_FLAG_FIFO demo_boot = Some (RT_EOK, s1) \<and>
    rt_device_find pwm1_name s1 = Some (Some (DevObj 0), s1) \<and> rt_object_get_type (DevObj 0) s1 = RT_Object_Class_Device \<and>
    (\<exists>s3. create_and_start (Some 7) (Some 0x20001000) serial_name PWM_THREAD_ENTRY 1024 25 10 s1 = Some (True, s3))"
  apply (simp add: rt_sem_init_def rt_object_init_def rt_object_get_information_def rt_object_container_def demo_boot_def
      rt_assert_def rt_enter_critical_def rt_exit_critical_def Let_def demo_names rt_ipc_object_init_def obj_link_front_def
      set_flag_def set_sem_def rt_device_find_def rt_object_find_def rt_object_get_type_def)
  apply (simp add: create_and_start_def rt_thread_create_def rt_object_allocate_def demo_names rt_assert_def
      rt_object_get_information_def rt_object_container_def Let_def obj_link_front_def zero_object_def
      rt_thread_init_fields_def rt_hw_stack_init_def)
  apply (simp add: rt_timer_init_def rt_object_init_def rt_timer_init_fields_def demo_names(3) thread0_def rt_assert_def
      rt_object_get_information_def rt_object_container_def Let_def rt_enter_critical_def rt_exit_critical_def
      obj_link_front_def set_tm_flag_def)
  apply (simp add: rt_thread_startup_def rt_thread_resume_def rt_thread_self_def thread_init_record_def rt_assert_def
      rt_object_get_type_def Let_def stat_of_def rt_timer_stop_def tm_flag_def rt_schedule_insert_thread_def with_stat_def
      unlink_thread_def link_thread_back_def link_thread_at_def)
  done


end
