(* ===== verification/DfsPath.thy ===== *)
theory DfsPath
  imports Prelude
begin

text \<open>
  Path names of the file system layer, \<open>dfs_subdir\<close> and \<open>dfs_normalize_path\<close> of
  \<open>components/dfs/src/dfs.c\<close>.  The second copies a path over itself: one index reads, one writes, and
  \<open>.\<close>, \<open>..\<close> and repeated slashes disappear on the way.  A path is the list of its bytes, without the
  zero at its end; the buffer has the zero.  The result of the copying is compared with a stack of
  names, for every path.
\<close>

abbreviation (input) SLASH :: u8 where "SLASH \<equiv> 0x2f"
abbreviation (input) DOT :: u8 where "DOT \<equiv> 0x2e"

section \<open>The copying loop\<close>

text \<open>Skipping slashes, at the position of the reading index.\<close>

function skip_slashes :: "u8 list \<Rightarrow> nat \<Rightarrow> nat option" where
  "skip_slashes buf src = do {
     c_defined (src < length buf);
     if buf ! src = SLASH then skip_slashes buf (src + 1) else Some src
   }"
  by auto
termination by (relation "measure (\<lambda>(buf, src). length buf - src)") (auto simp: c_defined_def split: if_splits)

text \<open>Copying one name: the byte that ends it is returned, and \<open>src\<close> is behind it.\<close>

function copy_name :: "u8 list \<Rightarrow> nat \<Rightarrow> nat \<Rightarrow> (u8 \<times> u8 list \<times> nat \<times> nat) option" where
  "copy_name buf dst src = do {
     c_defined (src < length buf);
     let c = buf ! src;
     if c \<noteq> 0 \<and> c \<noteq> SLASH then copy_name (buf[dst := c]) (dst + 1) (src + 1)
     else Some (c, buf, dst, src + 1)
   }"
  by auto
termination by (relation "measure (\<lambda>(buf, dst, src). length buf - src)") (auto simp: c_defined_def split: if_splits)

text \<open>Going back to the slash in front of the last name.\<close>

fun back_to_slash :: "u8 list \<Rightarrow> nat \<Rightarrow> nat" where
  "back_to_slash buf 0 = 0"
| "back_to_slash buf (Suc dst) = (if buf ! dst \<noteq> SLASH then back_to_slash buf dst else Suc dst)"

definition up_one :: "u8 list \<Rightarrow> nat \<Rightarrow> nat option" where
  "up_one buf dst = (if dst = 0 then None else Some (back_to_slash buf (dst - 1)))"

text \<open>What the loop finds at the beginning of a name: nothing special, \<open>.\<close> at the end, \<open>./\<close>, or \<open>..\<close>;
  a byte is read only when the one before it is not the zero.\<close>

datatype dots = Plain | DotEnd | DotSlash | DotDotEnd | DotDotSlash

definition name_start :: "u8 list \<Rightarrow> nat \<Rightarrow> dots option" where
  "name_start buf src = do {
     c_defined (src < length buf);
     if buf ! src = DOT then do {
       c_defined (src + 1 < length buf);
       if buf ! (src + 1) = 0 then Some DotEnd
       else if buf ! (src + 1) = SLASH then Some DotSlash
       else if buf ! (src + 1) = DOT then do {
         c_defined (src + 2 < length buf);
         Some (if buf ! (src + 2) = 0 then DotDotEnd else if buf ! (src + 2) = SLASH then DotDotSlash else Plain)
       } else Some Plain
     } else Some Plain
   }"

declare skip_slashes.simps [simp del] copy_name.simps [simp del]

lemma skip_slashes_ge: "skip_slashes buf src = Some src' \<Longrightarrow> src \<le> src'"
  by (induction buf src rule: skip_slashes.induct)
    (subst (asm) skip_slashes.simps, fastforce simp: c_defined_def split: if_splits)

lemma copy_name_gt: "copy_name buf dst src = Some (c, buf', dst', src') \<Longrightarrow> src < src' \<and> length buf' = length buf"
  by (induction buf dst src rule: copy_name.induct)
    (subst (asm) copy_name.simps, fastforce simp: c_defined_def Let_def split: if_splits)

lemma name_start_less: "name_start buf src = Some k \<Longrightarrow> src < length buf"
  by (auto simp: name_start_def Option.bind_eq_Some_conv)

text \<open>The loop; the result is the buffer with the writing index, or a null pointer.\<close>

function path_loop :: "u8 list \<Rightarrow> nat \<Rightarrow> nat \<Rightarrow> (u8 list \<times> nat) option option" where
  "path_loop buf dst src =
     (case name_start buf src of
        None \<Rightarrow> None
      | Some DotSlash \<Rightarrow>
          (case skip_slashes buf (src + 2) of None \<Rightarrow> None | Some src' \<Rightarrow> path_loop buf dst src')
      | Some DotDotEnd \<Rightarrow>
          (case up_one buf dst of None \<Rightarrow> Some None | Some dst \<Rightarrow> path_loop buf dst (src + 2))
      | Some DotDotSlash \<Rightarrow>
          (case skip_slashes buf (src + 3) of
             None \<Rightarrow> None
           | Some src' \<Rightarrow> (case up_one buf dst of None \<Rightarrow> Some None | Some dst \<Rightarrow> path_loop buf dst src'))
      | Some k \<Rightarrow>
          (case copy_name buf dst (if k = DotEnd then src + 1 else src) of
             None \<Rightarrow> None
           | Some (c, buf, dst, src') \<Rightarrow>
               if c = SLASH then
                 (case skip_slashes (buf[dst := SLASH]) src' of
                    None \<Rightarrow> None
                  | Some src'' \<Rightarrow> path_loop (buf[dst := SLASH]) (dst + 1) src'')
               else Some (Some (buf, dst))))"
  by pat_completeness auto
termination
  by (relation "measure (\<lambda>(buf, dst, src). length buf - src)")
    (auto dest!: name_start_less skip_slashes_ge copy_name_gt)

declare path_loop.simps [simp del]

text \<open>The end of the routine: a trailing slash is removed and an empty result becomes \<open>/\<close>.  When nothing
  was written, the byte in front of the buffer is read.\<close>

definition path_finish :: "u8 list \<Rightarrow> nat \<Rightarrow> u8 list option" where
  "path_finish buf dst = do {
     c_defined (dst < length buf);
     let buf = buf[dst := 0];
     c_defined (0 < dst);
     let dst = dst - 1;
     let buf = (if dst \<noteq> 0 \<and> buf ! dst = SLASH then buf[dst := 0] else buf);
     let buf = (if buf ! 0 = 0 then buf[0 := SLASH, 1 := 0] else buf);
     Some (takeWhile (\<lambda>c. c \<noteq> 0) buf)
   }"

text \<open>What happens to the copy of a path on the heap: undefined, a null pointer, or the new string.\<close>

definition normalize_copy :: "u8 list \<Rightarrow> u8 list option option" where
  "normalize_copy path =
     (case path_loop (path @ [0]) 0 0 of
        None \<Rightarrow> None
      | Some None \<Rightarrow> Some None
      | Some (Some (buf, dst)) \<Rightarrow> map_option Some (path_finish buf dst))"

text \<open>\<open>dfs_subdir\<close> returns a position in \<open>filename\<close>.\<close>

definition dfs_subdir :: "u8 list \<Rightarrow> u8 list \<Rightarrow> u8 list option option" where
  "dfs_subdir directory filename =
     (if length directory = length filename then Some None
      else do {
        c_defined (length directory \<le> length filename);
        let dir = length directory;
        let dir = (if (filename @ [0]) ! dir \<noteq> SLASH \<and> dir \<noteq> 0 then dir - 1 else dir);
        Some (Some (drop dir filename))
      })"

section \<open>Names\<close>

text \<open>The names of a path: what stands between the slashes.\<close>

function path_names :: "u8 list \<Rightarrow> u8 list list" where
  "path_names p =
     (case dropWhile (\<lambda>c. c = SLASH) p of
        [] \<Rightarrow> []
      | c # cs \<Rightarrow> (c # takeWhile (\<lambda>c. c \<noteq> SLASH) cs) # path_names (dropWhile (\<lambda>c. c \<noteq> SLASH) cs))"
  by auto
termination
proof (relation "measure length")
  fix p x c cs
  assume "dropWhile (\<lambda>c. c = SLASH) p = c # cs"
  then have "length (c # cs) \<le> length p" using length_dropWhile_le by metis
  moreover have "length (dropWhile (\<lambda>c. c \<noteq> SLASH) cs) \<le> length cs" by (rule length_dropWhile_le)
  ultimately show "(dropWhile (\<lambda>c. c \<noteq> SLASH) cs, p) \<in> measure length" by simp
qed simp

declare path_names.simps [simp del]

text \<open>The reference: a stack of names and whether it still stands on the root.  A \<open>..\<close> takes the last
  name away; without a name it takes the root away, and without the root it fails.\<close>

definition path_step :: "u8 list \<Rightarrow> bool \<times> u8 list list \<Rightarrow> (bool \<times> u8 list list) option" where
  "path_step w = (\<lambda>(root, ws).
     if w = [DOT] then Some (root, ws)
     else if w = [DOT, DOT] then
       (if ws \<noteq> [] then Some (root, butlast ws) else if root then Some (False, []) else None)
     else Some (root, ws @ [w]))"

fun path_steps :: "u8 list list \<Rightarrow> bool \<times> u8 list list \<Rightarrow> (bool \<times> u8 list list) option" where
  "path_steps [] st = Some st"
| "path_steps (w # ws) st = Option.bind (path_step w st) (path_steps ws)"

definition slashed :: "bool \<times> u8 list list \<Rightarrow> u8 list" where
  "slashed st = (if fst st then [SLASH] else []) @ concat (map (\<lambda>w. w @ [SLASH]) (snd st))"

definition path_text :: "bool \<times> u8 list list \<Rightarrow> u8 list" where
  "path_text st = (if snd st = [] then [SLASH] else butlast (slashed st))"


section \<open>The buffer and the list\<close>

text \<open>The same loop on lists: what was written and what is left to read.\<close>

definition parent :: "u8 list \<Rightarrow> u8 list" where
  "parent out = rev (dropWhile (\<lambda>c. c \<noteq> SLASH) (rev (butlast out)))"

lemma next_shorter:
  assumes "rest \<noteq> []"
  shows "length (dropWhile (\<lambda>c. c = SLASH) (dropWhile (\<lambda>c. c \<noteq> SLASH) rest)) < length rest"
proof (cases rest)
  case (Cons c cs)
  have "length (dropWhile (\<lambda>c. c = SLASH) (dropWhile (\<lambda>c. c \<noteq> SLASH) cs)) \<le> length cs"
    "length (dropWhile (\<lambda>c. c = SLASH) cs) \<le> length cs"
    by (metis length_dropWhile_le le_trans)+
  then show ?thesis using Cons by (cases "c = SLASH") (simp_all add: less_Suc_eq_le)
qed (use assms in simp)

function list_loop :: "u8 list \<Rightarrow> u8 list \<Rightarrow> u8 list option" where
  "list_loop out rest =
     (if rest = [] then Some out
      else let w = takeWhile (\<lambda>c. c \<noteq> SLASH) rest; r = dropWhile (\<lambda>c. c \<noteq> SLASH) rest;
               rest' = dropWhile (\<lambda>c. c = SLASH) r in
        if w = [DOT] then list_loop out rest'
        else if w = [DOT, DOT] then (if out = [] then None else list_loop (parent out) rest')
        else if r = [] then Some (out @ w) else list_loop (out @ w @ [SLASH]) rest')"
  by auto
termination
  by (relation "measure (\<lambda>(out, rest). length rest)") (simp_all add: next_shorter)

declare list_loop.simps [simp del]

lemma drop_Cons_nth:
  assumes "drop i xs = x # ys"
  shows "i < length xs" "xs ! i = x" "drop (Suc i) xs = ys"
proof -
  show i: "i < length xs" using assms by (metis drop_all leI list.distinct(1))
  then have "xs ! i # drop (Suc i) xs = x # ys" using assms by (simp add: Cons_nth_drop_Suc)
  then show "xs ! i = x" "drop (Suc i) xs = ys" by simp_all
qed

lemma skip_slashes_list:
  assumes "drop src buf = rest @ [0]"
  shows "\<exists>src'. skip_slashes buf src = Some src' \<and> src \<le> src' \<and> drop src' buf = dropWhile (\<lambda>c. c = SLASH) rest @ [0]"
  using assms
proof (induction rest arbitrary: src)
  case Nil
  then show ?case using drop_Cons_nth [of src buf 0 "[]"] by (subst skip_slashes.simps) simp
next
  case (Cons c cs)
  then have s: "src < length buf" "buf ! src = c" "drop (Suc src) buf = cs @ [0]"
    using drop_Cons_nth [of src buf c "cs @ [0]"] by simp_all
  show ?case
  proof (cases "c = SLASH")
    case True
    obtain src' where "skip_slashes buf (Suc src) = Some src'" "Suc src \<le> src'"
        "drop src' buf = dropWhile (\<lambda>c. c = SLASH) cs @ [0]"
      using Cons.IH [OF s(3)] by blast
    then show ?thesis using s True by (subst skip_slashes.simps) simp
  next
    case False
    then show ?thesis using s Cons.prems by (subst skip_slashes.simps) simp
  qed
qed

text \<open>\<open>at buf dst src out rest\<close>: the buffer holds what was written, and from \<open>src\<close> on what is left.\<close>

definition at :: "u8 list \<Rightarrow> nat \<Rightarrow> nat \<Rightarrow> u8 list \<Rightarrow> u8 list \<Rightarrow> bool" where
  "at buf dst src out rest \<longleftrightarrow> drop src buf = rest @ [0] \<and> 0 \<notin> set rest \<and> dst \<le> src \<and> take dst buf = out"

lemma at_src: "at buf dst src out rest \<Longrightarrow> src < length buf"
  by (cases rest) (auto simp: at_def dest: drop_Cons_nth(1))

lemma at_write:
  assumes "at buf dst src out (c # cs)"
  shows "at (buf[dst := d]) (Suc dst) (Suc src) (out @ [d]) cs"
proof -
  have s: "src < length buf" "drop (Suc src) buf = cs @ [0]"
    using assms drop_Cons_nth [of src buf c "cs @ [0]"] by (simp_all add: at_def)
  moreover have "dst < length buf" using s(1) assms by (simp add: at_def)
  ultimately show ?thesis using assms by (simp add: at_def take_Suc_conv_app_nth)
qed

lemma copy_name_list:
  assumes "at buf dst src out rest"
  shows "let w = takeWhile (\<lambda>c. c \<noteq> SLASH) rest; r = dropWhile (\<lambda>c. c \<noteq> SLASH) rest in
    \<exists>buf' src'. copy_name buf dst src = Some (if r = [] then 0 else SLASH, buf', dst + length w, src') \<and>
      length buf' = length buf \<and> dst + length w < src' \<and> src' \<le> length buf \<and> take (dst + length w) buf' = out @ w \<and>
      (r \<noteq> [] \<longrightarrow> at buf' (dst + length w) (src' - 1) (out @ w) r)"
  using assms
proof (induction rest arbitrary: buf dst src out)
  case Nil
  then have "src < length buf" "buf ! src = 0" using drop_Cons_nth [of src buf 0 "[]"] by (simp_all add: at_def)
  then show ?case using Nil by (subst copy_name.simps) (auto simp: at_def)
next
  case (Cons c cs)
  then have s: "src < length buf" "buf ! src = c" "c \<noteq> 0" using drop_Cons_nth [of src buf c "cs @ [0]"] by (auto simp: at_def)
  show ?case
  proof (cases "c = SLASH")
    case True
    then show ?thesis using s Cons.prems by (subst copy_name.simps) (auto simp: at_def)
  next
    case False
    then show ?thesis using s Cons.IH [OF at_write [OF Cons.prems, of c]]
      by (subst copy_name.simps) (simp add: Let_def)
  qed
qed


lemma back_to_slash_le: "back_to_slash buf d \<le> d"
  by (induction buf d rule: back_to_slash.induct) auto

lemma back_to_slash_take:
  "d \<le> length buf \<Longrightarrow> take (back_to_slash buf d) buf = rev (dropWhile (\<lambda>c. c \<noteq> SLASH) (rev (take d buf)))"
  by (induction buf d rule: back_to_slash.induct) (auto simp: take_Suc_conv_app_nth)

lemma up_one_list:
  assumes "dst < length buf" "take dst buf = out"
  shows "up_one buf dst = None \<and> out = [] \<or>
    (\<exists>d. up_one buf dst = Some d \<and> d \<le> dst \<and> out \<noteq> [] \<and> take d buf = parent out)"
proof (cases dst)
  case (Suc k)
  have "butlast out = take k buf" using assms Suc butlast_take [of "Suc k" buf] by simp
  then have "take (back_to_slash buf k) buf = parent out"
    using assms Suc back_to_slash_take [of k buf] by (simp add: parent_def)
  then show ?thesis using Suc assms back_to_slash_le [of buf k]
    by (auto simp: up_one_def intro!: exI [of _ "back_to_slash buf k"])
qed (use assms in \<open>simp add: up_one_def\<close>)

text \<open>What \<open>name_start\<close> finds, in terms of the rest of the path.\<close>

lemma name_start_list:
  assumes "at buf dst src out rest"
  shows "name_start buf src = Some
    (let w = takeWhile (\<lambda>c. c \<noteq> SLASH) rest; r = dropWhile (\<lambda>c. c \<noteq> SLASH) rest in
     if w = [DOT] then if r = [] then DotEnd else DotSlash
     else if w = [DOT, DOT] then if r = [] then DotDotEnd else DotDotSlash
     else Plain)"
proof -
  have nth: "i \<le> length rest \<Longrightarrow> src + i < length buf \<and> buf ! (src + i) = (rest @ [0]) ! i" for i
  proof -
    assume i: "i \<le> length rest"
    have "length (drop src buf) = length rest + 1" using assms by (simp add: at_def)
    moreover have "drop src buf ! i = (rest @ [0]) ! i" using assms by (simp add: at_def)
    ultimately show ?thesis using i by simp
  qed
  have nz: "0 \<notin> set rest" using assms by (simp add: at_def)
  show ?thesis
  proof (cases rest)
    case Nil
    then show ?thesis using nth [of 0] by (simp add: name_start_def)
  next
    case (Cons a as)
    note a = Cons
    show ?thesis
    proof (cases as)
      case Nil
      then show ?thesis using nth [of 0] nth [of 1] a by (simp add: name_start_def)
    next
      case (Cons b bs)
      have "b \<noteq> 0" using nz a Cons by auto
      show ?thesis
      proof (cases bs)
        case Nil
        then show ?thesis using nth [of 0] nth [of 1] nth [of 2] a Cons \<open>b \<noteq> 0\<close> by (simp add: name_start_def)
      next
        fix c cs assume c: "bs = c # cs"
        then have "c \<noteq> 0" using nz a Cons by auto
        then show ?thesis using nth [of 0] nth [of 1] nth [of 2] a Cons c \<open>b \<noteq> 0\<close> by (simp add: name_start_def)
      qed
    qed
  qed
qed

lemma path_loop_list:
  assumes "at buf dst src out rest"
  shows "case list_loop out rest of
      None \<Rightarrow> path_loop buf dst src = Some None
    | Some out' \<Rightarrow> \<exists>buf' dst'. path_loop buf dst src = Some (Some (buf', dst')) \<and> dst' < length buf' \<and>
        length buf' = length buf \<and> take dst' buf' = out'"
  using assms
proof (induction out rest arbitrary: buf dst src rule: list_loop.induct)
  case (1 out rest)
  define w r rest' where "w = takeWhile (\<lambda>c. c \<noteq> SLASH) rest" and "r = dropWhile (\<lambda>c. c \<noteq> SLASH) rest"
    and "rest' = dropWhile (\<lambda>c. c = SLASH) r"
  have split: "rest = w @ r" by (simp add: w_def r_def)
  have src: "src < length buf" by (rule at_src [OF "1.prems"])
  have dst: "dst \<le> src" "take dst buf = out" using "1.prems" by (simp_all add: at_def)
  have st: "name_start buf src = Some (if w = [DOT] then if r = [] then DotEnd else DotSlash
      else if w = [DOT, DOT] then if r = [] then DotDotEnd else DotDotSlash else Plain)"
    using name_start_list [OF "1.prems"] by (simp add: w_def r_def)
  have nz: "0 \<notin> set rest'" using "1.prems" split unfolding at_def rest'_def by (auto dest: set_dropWhileD)
  have r: "\<exists>rs. r = SLASH # rs \<and> rest' = dropWhile (\<lambda>c. c = SLASH) rs" if "r \<noteq> []"
  proof -
    have "hd r = SLASH" using hd_dropWhile that unfolding r_def by blast
    then show ?thesis using that by (cases r) (simp_all add: rest'_def)
  qed
  have skip: "\<exists>src'. skip_slashes buf (src + length w + 1) = Some src' \<and> src + length w + 1 \<le> src' \<and> drop src' buf = rest' @ [0]"
    if "r \<noteq> []"
  proof -
    obtain rs where rs: "r = SLASH # rs" "rest' = dropWhile (\<lambda>c. c = SLASH) rs" using r \<open>r \<noteq> []\<close> by blast
    have "drop (length w) (drop src buf) = SLASH # rs @ [0]" using "1.prems" split rs by (simp add: at_def)
    then have "drop (src + length w + 1) buf = rs @ [0]"
      using drop_Cons_nth [of "src + length w" buf SLASH "rs @ [0]"] by (simp add: add.commute)
    then show ?thesis using skip_slashes_list rs by blast
  qed
  note eq = list_loop.simps [of out rest, unfolded Let_def, folded w_def r_def, folded rest'_def]
  note IH = "1.IH" [OF _ w_def r_def rest'_def]
  consider (empty) "rest = []" | (dot) "rest \<noteq> []" "w = [DOT]" | (up) "rest \<noteq> []" "w = [DOT, DOT]"
    | (plain) "rest \<noteq> []" "w \<noteq> [DOT]" "w \<noteq> [DOT, DOT]" by blast
  then show ?case
  proof cases
    case empty
    obtain buf' src' where "copy_name buf dst src = Some (0, buf', dst, src')" "length buf' = length buf" "dst < src'"
        "src' \<le> length buf" "take dst buf' = out"
      using copy_name_list [OF "1.prems"] empty by auto
    moreover from this have "path_loop buf dst src = Some (Some (buf', dst))"
      using st empty by (subst path_loop.simps) (simp add: w_def)
    ultimately show ?thesis using eq empty by simp
  next
    case dot
    show ?thesis
    proof (cases "r = []")
      case True
      then have "rest' = []" by (simp add: rest'_def)
      have "at buf dst (src + 1) out []"
        using "1.prems" drop_Cons_nth [of src buf DOT "[0]"] split True dot by (simp add: at_def)
      from copy_name_list [OF this] obtain buf' src' where c: "copy_name buf dst (src + 1) = Some (0, buf', dst, src')"
          "length buf' = length buf" "dst < src'" "src' \<le> length buf" "take dst buf' = out"
        by auto
      then have "path_loop buf dst src = Some (Some (buf', dst))"
        using st True dot by (subst path_loop.simps) simp
      then show ?thesis using eq dot c \<open>rest' = []\<close> by (simp add: list_loop.simps [of out "[]"])
    next
      case False
      then obtain src' where src': "skip_slashes buf (src + 2) = Some src'" "src \<le> src'" "drop src' buf = rest' @ [0]"
        using skip dot by fastforce
      then have a: "at buf dst src' out rest'" using dst nz by (simp add: at_def)
      have "path_loop buf dst src = path_loop buf dst src'"
        using st False dot src'(1) by (subst path_loop.simps) simp
      then show ?thesis using IH(1) [OF dot a] eq dot by (simp split: option.splits)
    qed
  next
    case up
    obtain src' where src': "src \<le> src'" "drop src' buf = rest' @ [0]"
      "path_loop buf dst src = (case up_one buf dst of None \<Rightarrow> Some None | Some dst \<Rightarrow> path_loop buf dst src')"
    proof (cases "r = []")
      case True
      have "drop (src + 2) buf = [0]"
        using "1.prems" drop_Cons_nth [of src buf DOT "[DOT, 0]"] drop_Cons_nth [of "Suc src" buf DOT "[0]"] split True up
        by (simp add: at_def)
      moreover have "path_loop buf dst src = (case up_one buf dst of None \<Rightarrow> Some None | Some dst \<Rightarrow> path_loop buf dst (src + 2))"
        using st True up by (subst path_loop.simps) simp
      ultimately show ?thesis using that [of "src + 2"] True by (simp add: rest'_def)
    next
      case False
      then obtain src' where "skip_slashes buf (src + 3) = Some src'" "src \<le> src'" "drop src' buf = rest' @ [0]"
        using skip up by (fastforce simp: numeral_eq_Suc)
      moreover from this(1) have "path_loop buf dst src = (case up_one buf dst of None \<Rightarrow> Some None | Some dst \<Rightarrow> path_loop buf dst src')"
        using st False up by (subst path_loop.simps) simp
      ultimately show ?thesis using that by blast
    qed
    have "dst < length buf" using src dst by simp
    from up_one_list [OF this dst(2)] show ?thesis
    proof
      assume "up_one buf dst = None \<and> out = []"
      then show ?thesis using eq up src'(3) by simp
    next
      assume "\<exists>d. up_one buf dst = Some d \<and> d \<le> dst \<and> out \<noteq> [] \<and> take d buf = parent out"
      then obtain d where d: "up_one buf dst = Some d" "d \<le> dst" "out \<noteq> []" "take d buf = parent out" by blast
      then have a: "at buf d src' (parent out) rest'" using src' dst nz by (simp add: at_def)
      have w: "w \<noteq> [DOT]" using up by simp
      show ?thesis using IH(2) [OF up(1) w up(2) d(3) a] eq up d(1,3) src'(3) by (simp split: option.splits)
    qed
  next
    case plain
    define d where "d = dst + length w"
    obtain buf' src' where c: "copy_name buf dst src = Some (if r = [] then 0 else SLASH, buf', d, src')"
        "length buf' = length buf" "d < src'" "src' \<le> length buf" "take d buf' = out @ w"
        "r \<noteq> [] \<Longrightarrow> at buf' d (src' - 1) (out @ w) r"
      using copy_name_list [OF "1.prems"] unfolding Let_def w_def r_def d_def by blast
    show ?thesis
    proof (cases "r = []")
      case True
      then have "path_loop buf dst src = Some (Some (buf', d))"
        using c(1) st plain by (subst path_loop.simps) simp
      then show ?thesis using eq plain True c by simp
    next
      case False
      obtain rs where rs: "r = SLASH # rs" "rest' = dropWhile (\<lambda>c. c = SLASH) rs" using r [OF False] by blast
      define buf1 where "buf1 = buf'[d := SLASH]"
      have a: "at buf1 (Suc d) src' (out @ w @ [SLASH]) rs"
        using at_write [of buf' d "src' - 1" "out @ w" SLASH rs SLASH] c(3,6) rs(1) by (simp add: buf1_def)
      then obtain src2 where src2: "skip_slashes buf1 src' = Some src2" "src' \<le> src2" "drop src2 buf1 = rest' @ [0]"
        using skip_slashes_list rs(2) unfolding at_def by blast
      then have a2: "at buf1 (Suc d) src2 (out @ w @ [SLASH]) rest'" using a nz by (simp add: at_def)
      have "path_loop buf dst src = path_loop buf1 (Suc d) src2"
        using c(1) st plain False src2(1) unfolding buf1_def by (subst path_loop.simps) simp
      moreover have "length buf1 = length buf" using c(2) by (simp add: buf1_def)
      ultimately show ?thesis using IH(3) [OF plain(1-3) False a2] eq plain False by (simp split: option.splits)
    qed
  qed
qed


section \<open>The list and the names\<close>

lemma path_names_Nil [simp]: "path_names [] = []"
  by (simp add: path_names.simps)

lemma path_names_slash: "path_names (dropWhile (\<lambda>c. c = SLASH) p) = path_names p"
  by (subst (1 2) path_names.simps) (simp add: dropWhile_idem)

lemma path_names_Cons [simp]: "path_names (SLASH # p) = path_names p"
  using path_names_slash [of "SLASH # p"] path_names_slash [of p] by simp

lemma path_names_first:
  assumes "w \<noteq> []" "SLASH \<notin> set w" "r = [] \<or> hd r = SLASH"
  shows "path_names (w @ r) = w # path_names r"
proof -
  obtain c cs where w: "w = c # cs" using assms(1) by (cases w) auto
  have "takeWhile (\<lambda>c. c \<noteq> SLASH) (cs @ r) = cs" "dropWhile (\<lambda>c. c \<noteq> SLASH) (cs @ r) = r"
    using assms w by (cases r; force simp: takeWhile_append dropWhile_append)+
  then show ?thesis using w assms(2) by (subst path_names.simps) simp
qed

lemma path_names_good: "w \<in> set (path_names p) \<Longrightarrow> w \<noteq> [] \<and> SLASH \<notin> set w \<and> set w \<subseteq> set p"
proof (induction p rule: path_names.induct)
  case (1 p)
  show ?case
  proof (cases "dropWhile (\<lambda>c. c = SLASH) p")
    case Nil
    then have "path_names p = []" by (subst path_names.simps) (simp only: list.case)
    then show ?thesis using "1.prems" by simp
  next
    case (Cons c cs)
    have sub: "set (c # cs) \<subseteq> set p" using set_dropWhileD [of _ "\<lambda>c. c = SLASH" p] Cons by fastforce
    have "c \<noteq> SLASH" using Cons hd_dropWhile [of "\<lambda>c. c = SLASH" p] by simp
    have "w = c # takeWhile (\<lambda>c. c \<noteq> SLASH) cs \<or> w \<in> set (path_names (dropWhile (\<lambda>c. c \<noteq> SLASH) cs))"
      using "1.prems" Cons unfolding path_names.simps [of p] by simp
    moreover have "set (takeWhile (\<lambda>c. c \<noteq> SLASH) cs) \<subseteq> set cs - {SLASH}" "set (dropWhile (\<lambda>c. c \<noteq> SLASH) cs) \<subseteq> set cs"
      by (auto dest: set_takeWhileD set_dropWhileD)
    ultimately show ?thesis using "1.IH" [OF Cons] sub \<open>c \<noteq> SLASH\<close> by fastforce
  qed
qed

definition good_names :: "u8 list list \<Rightarrow> bool" where
  "good_names ws \<longleftrightarrow> (\<forall>w \<in> set ws. w \<noteq> [] \<and> SLASH \<notin> set w \<and> 0 \<notin> set w)"

lemma slashed_snoc: "slashed (b, ws @ [w]) = slashed (b, ws) @ w @ [SLASH]"
  by (simp add: slashed_def)

lemma slashed_Nil: "slashed (b, ws) = [] \<longleftrightarrow> \<not> b \<and> ws = []"
  by (auto simp: slashed_def)

lemma slashed_last: "slashed st \<noteq> [] \<Longrightarrow> last (slashed st) = SLASH"
  by (cases st; cases "snd st" rule: rev_cases) (auto simp: slashed_def)

lemma parent_slashed:
  "good_names ws \<Longrightarrow> parent (slashed (b, ws)) = (if ws = [] then [] else slashed (b, butlast ws))"
proof (cases ws rule: rev_cases)
  case (snoc us w)
  assume "good_names ws"
  then have w: "\<forall>c \<in> set (rev w). c \<noteq> SLASH" using snoc by (auto simp: good_names_def)
  have "dropWhile (\<lambda>c. c \<noteq> SLASH) (rev (slashed (b, us))) = rev (slashed (b, us))"
    using slashed_last [of "(b, us)"] by (cases "slashed (b, us)" rule: rev_cases) auto
  moreover have "dropWhile (\<lambda>c. c \<noteq> SLASH) (rev w @ rev (slashed (b, us))) = dropWhile (\<lambda>c. c \<noteq> SLASH) (rev (slashed (b, us)))"
    by (intro dropWhile_append2) (use w in blast)
  ultimately show ?thesis using snoc by (simp add: parent_def slashed_snoc butlast_append)
qed (simp add: parent_def slashed_def)

lemma list_loop_steps:
  assumes "rest = [] \<or> hd rest \<noteq> SLASH" "0 \<notin> set rest" "good_names (snd st)"
  shows "case path_steps (path_names rest) st of
      None \<Rightarrow> list_loop (slashed st) rest = None
    | Some st' \<Rightarrow> \<exists>out. list_loop (slashed st) rest = Some out \<and> good_names (snd st') \<and>
        (out = slashed st' \<or> snd st' \<noteq> [] \<and> out @ [SLASH] = slashed st')"
  using assms
proof (induction "length rest" arbitrary: rest st rule: less_induct)
  case less
  obtain b ws where st: "st = (b, ws)" by fastforce
  show ?case
  proof (cases "rest = []")
    case True
    then show ?thesis using less.prems(3) by (simp add: list_loop.simps)
  next
    case False
    define w r rest' where "w = takeWhile (\<lambda>c. c \<noteq> SLASH) rest" and "r = dropWhile (\<lambda>c. c \<noteq> SLASH) rest"
      and "rest' = dropWhile (\<lambda>c. c = SLASH) r"
    have w: "w \<noteq> []" "SLASH \<notin> set w" using False less.prems(1) by (cases rest; auto simp: w_def dest: set_takeWhileD)+
    have nz: "0 \<notin> set w" "0 \<notin> set rest'" using less.prems(2) by (auto simp: w_def r_def rest'_def dest!: set_takeWhileD set_dropWhileD)
    have "r = [] \<or> hd r = SLASH" using hd_dropWhile [of "\<lambda>c. c \<noteq> SLASH" rest] by (auto simp: r_def)
    then have names: "path_names rest = w # path_names rest'"
      using path_names_first [OF w, of r] by (simp add: path_names_slash rest'_def) (simp add: w_def r_def)
    have rest': "length rest' < length rest" "rest' = [] \<or> hd rest' \<noteq> SLASH"
      using next_shorter [OF False] hd_dropWhile [of "\<lambda>c. c = SLASH" r] by (auto simp: rest'_def r_def)
    note eq = list_loop.simps [of "slashed st" rest, unfolded Let_def, folded w_def r_def, folded rest'_def]
    note IH = less.hyps [OF rest'(1) rest'(2) nz(2)]
    consider (dot) "w = [DOT]" | (up) "w = [DOT, DOT]" | (plain) "w \<noteq> [DOT]" "w \<noteq> [DOT, DOT]" by blast
    then show ?thesis
    proof cases
      case dot
      then have "path_step w st = Some st" by (simp add: path_step_def st)
      then show ?thesis using dot IH [OF less.prems(3)] eq False by (simp add: names del: split_paired_All split: option.splits)
    next
      case up
      then show ?thesis
      proof (cases "slashed st = []")
        case True
        then show ?thesis using up eq False by (simp add: names path_step_def st slashed_Nil)
      next
        case nonempty: False
        define st1 where "st1 = (if ws = [] then (False, []) else (b, butlast ws))"
        have p: "parent (slashed st) = slashed st1"
          using parent_slashed [of ws b] less.prems(3) by (simp add: st st1_def) (simp add: slashed_def)
        have "path_step w st = Some st1" using up nonempty by (auto simp: path_step_def st st1_def slashed_Nil)
        moreover have "good_names (snd st1)" using less.prems(3) by (auto simp: st st1_def good_names_def dest: in_set_butlastD)
        ultimately show ?thesis using IH [of st1] eq False up nonempty p by (simp add: names del: split_paired_All split: option.splits)
      qed
    next
      case plain
      define st1 where "st1 = (b, ws @ [w])"
      have step: "path_step w st = Some st1" using plain by (simp add: path_step_def st st1_def)
      have good: "good_names (snd st1)" using less.prems(3) w nz(1) by (auto simp: st st1_def good_names_def)
      have out: "slashed st1 = slashed st @ w @ [SLASH]" by (simp add: st st1_def slashed_snoc)
      show ?thesis
      proof (cases "r = []")
        case True
        then have "rest' = []" by (simp add: rest'_def)
        then show ?thesis using eq False plain True step good out by (simp add: names st1_def)
      next
        case more: False
        then show ?thesis using IH [OF good] eq False plain step out by (simp add: names del: split_paired_All split: option.splits)
      qed
    qed
  qed
qed


section \<open>The routine and the names\<close>

lemma path_finish_empty: "path_finish buf 0 = None"
  by (simp add: path_finish_def c_defined_def)

lemma path_finish_text:
  assumes "take dst buf = out" "dst < length buf" "out \<noteq> []" "0 \<notin> set out"
  shows "path_finish buf dst = Some (if 1 < length out \<and> last out = SLASH then butlast out else out)"
proof -
  obtain y ys where buf: "buf = out @ y # ys" and d: "dst = length out"
    using assms(1,2) by (metis append_take_drop_id drop_Cons_nth drop_eq_Nil2 length_take less_imp_le_nat list.exhaust min.absorb2 not_le)
  obtain us u where out: "out = us @ [u]" using assms(3) by (cases out rule: rev_cases) auto
  have upd: "buf[dst := 0] = us @ u # 0 # ys" "dst - 1 = length us" using buf d out by (simp_all add: list_update_append)
  have tw: "takeWhile (\<lambda>c. c \<noteq> 0) (zs @ 0 # xs) = zs" if "0 \<notin> set zs" for zs xs :: "u8 list"
    using that by (subst takeWhile_append2) auto
  show ?thesis
  proof (cases "us = []")
    case True
    then show ?thesis using assms(2-4) upd d out by (simp add: path_finish_def Let_def)
  next
    case False
    then have "us ! 0 \<noteq> 0" using assms(4) out by (cases us) auto
    then show ?thesis using assms(2,4) upd d out False tw [of us] tw [of "us @ [u]"]
      by (simp add: path_finish_def Let_def nth_append list_update_append)
  qed
qed

lemma slashed_nonzero: "good_names (snd st) \<Longrightarrow> 0 \<notin> set (slashed st)"
  by (auto simp: slashed_def good_names_def)

lemma text_of_slashed:
  assumes out: "out = slashed st \<or> snd st \<noteq> [] \<and> out @ [SLASH] = slashed st" and good: "good_names (snd st)"
    and ne: "st \<noteq> (False, [])"
  shows "out \<noteq> [] \<and> 0 \<notin> set out \<and> (if 1 < length out \<and> last out = SLASH then butlast out else out) = path_text st"
proof -
  obtain b ws where st: "st = (b, ws)" by fastforce
  have nz: "0 \<notin> set out" using out slashed_nonzero [OF good] by (metis UnI1 set_append)
  show ?thesis
  proof (cases ws rule: rev_cases)
    case Nil
    then show ?thesis using out ne st nz by (auto simp: slashed_def path_text_def)
  next
    case (snoc us w)
    then have w: "w \<noteq> []" "SLASH \<notin> set w" using good st by (auto simp: good_names_def)
    then have "last (slashed (b, us) @ w) \<noteq> SLASH" using last_in_set [of w] by (metis last_appendR)
    then show ?thesis using out w nz st snoc by (auto simp: path_text_def slashed_snoc butlast_append)
  qed
qed

theorem normalize_copy_names:
  assumes "0 \<notin> set p" "p \<noteq> []" "hd p = SLASH"
  shows "normalize_copy p =
    (case path_steps (path_names p) (True, []) of
       None \<Rightarrow> Some None
     | Some st \<Rightarrow> if st = (False, []) then None else Some (Some (path_text st)))"
proof -
  define rest where "rest = dropWhile (\<lambda>c. c = SLASH) p"
  have at: "at (p @ [0]) 0 0 [] p" using assms(1) by (simp add: at_def)
  obtain ps where p: "p = SLASH # ps" using assms(2,3) by (cases p) auto
  have "list_loop [] p = list_loop [SLASH] rest" using p by (subst list_loop.simps) (simp add: rest_def)
  then have l: "list_loop [] p = list_loop (slashed (True, [])) rest" by (simp add: slashed_def)
  have rest: "rest = [] \<or> hd rest \<noteq> SLASH" "0 \<notin> set rest"
    using hd_dropWhile [of "\<lambda>c. c = SLASH" p] assms(1) by (auto simp: rest_def dest: set_dropWhileD)
  note steps = list_loop_steps [OF rest, of "(True, [])"]
  have names: "path_names p = path_names rest" by (simp add: rest_def path_names_slash)
  show ?thesis
  proof (cases "path_steps (path_names rest) (True, [])")
    case None
    then show ?thesis using steps path_loop_list [OF at] l names by (simp add: normalize_copy_def good_names_def)
  next
    case (Some st)
    then obtain out where out: "list_loop [] p = Some out" "good_names (snd st)"
        "out = slashed st \<or> snd st \<noteq> [] \<and> out @ [SLASH] = slashed st"
      using steps l by (auto simp: good_names_def)
    then obtain buf dst where b: "path_loop (p @ [0]) 0 0 = Some (Some (buf, dst))" "dst < length buf" "take dst buf = out"
      using path_loop_list [OF at] by auto
    show ?thesis
    proof (cases "st = (False, [])")
      case True
      then have "dst = 0" using out(3) b(2,3) by (auto simp: slashed_def)
      then show ?thesis using b(1) True Some names by (simp add: normalize_copy_def path_finish_empty)
    next
      case False
      note t = text_of_slashed [OF out(3,2) False]
      then have "path_finish buf dst = Some (path_text st)" using path_finish_text [OF b(3,2)] by simp
      then show ?thesis using b(1) False Some names by (simp add: normalize_copy_def)
    qed
  qed
qed


text \<open>A normal path stays as it is: no name of a result is \<open>.\<close> or \<open>..\<close>.\<close>

definition plain_names :: "u8 list list \<Rightarrow> bool" where
  "plain_names ws \<longleftrightarrow> good_names ws \<and> [DOT] \<notin> set ws \<and> [DOT, DOT] \<notin> set ws"

lemma path_steps_plain:
  "path_steps us (b, ws) = Some (b', ws') \<Longrightarrow> good_names us \<Longrightarrow> plain_names ws \<Longrightarrow> plain_names ws'"
proof (induction us arbitrary: b ws)
  case (Cons u us)
  then obtain b1 ws1 where s: "path_step u (b, ws) = Some (b1, ws1)" "path_steps us (b1, ws1) = Some (b', ws')"
    by (auto simp: Option.bind_eq_Some_conv)
  have "plain_names ws1" using s(1) Cons.prems(2,3)
    by (auto simp: path_step_def plain_names_def good_names_def dest: in_set_butlastD split: if_splits)
  then show ?case using Cons.IH [OF s(2)] Cons.prems(2) by (simp add: good_names_def)
qed simp

lemma path_steps_append: "plain_names us \<Longrightarrow> path_steps us (b, ws) = Some (b, ws @ us)"
  by (induction us arbitrary: ws) (auto simp: path_step_def plain_names_def good_names_def)

lemma names_of_slashed: "good_names ws \<Longrightarrow> path_names (concat (map (\<lambda>w. w @ [SLASH]) ws)) = ws"
proof (induction ws)
  case (Cons w ws)
  then show ?case using Cons path_names_first [of w "SLASH # concat (map (\<lambda>w. w @ [SLASH]) ws)"] by (simp add: good_names_def)
qed simp

lemma names_of_text: "good_names ws \<Longrightarrow> path_names (path_text (b, ws)) = ws"
proof (cases ws rule: rev_cases)
  case (snoc us w)
  assume g: "good_names ws"
  then have w: "w \<noteq> []" "SLASH \<notin> set w" using snoc by (auto simp: good_names_def)
  have "path_names (concat (map (\<lambda>w. w @ [SLASH]) us) @ w) = us @ [w]" using g snoc
  proof (induction us arbitrary: ws)
    case Nil
    then show ?case using path_names_first [OF w, of "[]"] by simp
  next
    case (Cons u us)
    then show ?case using Cons path_names_first [of u "SLASH # concat (map (\<lambda>w. w @ [SLASH]) us) @ w"]
      by (simp add: good_names_def)
  qed
  then show ?thesis using snoc by (simp add: path_text_def slashed_def butlast_append)
qed (simp add: path_text_def path_names.simps [of "[SLASH]"])


lemma path_text_absolute: "path_text (True, ws) \<noteq> []" "hd (path_text (True, ws)) = SLASH"
  by (cases ws rule: rev_cases; simp add: path_text_def slashed_def butlast_append)+

lemma path_text_nonzero: "good_names ws \<Longrightarrow> 0 \<notin> set (path_text (b, ws))"
  using slashed_nonzero [of "(b, ws)"] by (auto simp: path_text_def dest: in_set_butlastD)

lemma path_names_are_good: "0 \<notin> set p \<Longrightarrow> good_names (path_names p)"
  using path_names_good by (fastforce simp: good_names_def)

text \<open>A path that stays below the root becomes the names that its \<open>..\<close> leave, each behind one slash,
  and is then a fixed point.\<close>

lemma normalize_copy_root:
  assumes p: "0 \<notin> set p" "p \<noteq> []" "hd p = SLASH" and ws: "path_steps (path_names p) (True, []) = Some (True, ws)"
  shows "normalize_copy p = Some (Some (path_text (True, ws)))" "plain_names ws"
    "normalize_copy (path_text (True, ws)) = Some (Some (path_text (True, ws)))"
proof -
  show "normalize_copy p = Some (Some (path_text (True, ws)))" using normalize_copy_names [OF p] ws by simp
  show ws': "plain_names ws" using path_steps_plain [OF ws path_names_are_good [OF p(1)]] by (simp add: plain_names_def good_names_def)
  then have "path_steps (path_names (path_text (True, ws))) (True, []) = Some (True, ws)"
    using path_steps_append [OF ws', of True "[]"] names_of_text by (simp add: plain_names_def)
  then show "normalize_copy (path_text (True, ws)) = Some (Some (path_text (True, ws)))"
    using normalize_copy_names [OF path_text_nonzero path_text_absolute] ws' by (simp add: plain_names_def)
qed

lemma path_steps_no_parent:
  "[DOT, DOT] \<notin> set us \<Longrightarrow> path_steps us (b, ws) = Some (b, ws @ filter (\<lambda>w. w \<noteq> [DOT]) us)"
  by (induction us arbitrary: ws) (auto simp: path_step_def)

end
