(* ===== verification/DfsFd.thy ===== *)
theory DfsFd
  imports DfsPath BufferPool
begin

text \<open>
  The file descriptors of \<open>components/dfs/src/dfs.c\<close>: the state of the file system layer, and the table
  of the open files with their reference counts.  The blocks of the table, of the descriptors and of the
  path names come from the heap of the kernel, \<open>Heap\<close>; what they contain is typed: a descriptor is a
  record at its address, a string the list of its bytes.  A descriptor whose block was given back is not
  in \<open>fd_mem\<close>, and touching it is undefined.
\<close>

section \<open>Error numbers and flags\<close>

text \<open>As \<open>include/libc/libc_errno.h\<close> and \<open>include/libc/libc_fcntl.h\<close> define them for the ARM compiler.\<close>

abbreviation (input) EINVAL :: int where "EINVAL \<equiv> 5"
abbreviation (input) ENOMEM :: int where "ENOMEM \<equiv> 6"
abbreviation (input) ENOENT :: int where "ENOENT \<equiv> 9"
abbreviation (input) EIO :: int where "EIO \<equiv> 12"
abbreviation (input) ENXIO :: int where "ENXIO \<equiv> 13"
abbreviation (input) EBADF :: int where "EBADF \<equiv> 16"
abbreviation (input) EBUSY :: int where "EBUSY \<equiv> 23"
abbreviation (input) EEXIST :: int where "EEXIST \<equiv> 24"
abbreviation (input) EXDEV :: int where "EXDEV \<equiv> 25"
abbreviation (input) ENODEV :: int where "ENODEV \<equiv> 26"
abbreviation (input) ENOTDIR :: int where "ENOTDIR \<equiv> 27"
abbreviation (input) EISDIR :: int where "EISDIR \<equiv> 28"
abbreviation (input) ENOSPC :: int where "ENOSPC \<equiv> 35"
abbreviation (input) EROFS :: int where "EROFS \<equiv> 37"
abbreviation (input) ENOSYS :: int where "ENOSYS \<equiv> 45"

abbreviation (input) O_RDONLY :: u32 where "O_RDONLY \<equiv> 0"
abbreviation (input) O_WRONLY :: u32 where "O_WRONLY \<equiv> 1"
abbreviation (input) O_RDWR :: u32 where "O_RDWR \<equiv> 2"
abbreviation (input) O_CREAT :: u32 where "O_CREAT \<equiv> 0x40"
abbreviation (input) O_EXCL :: u32 where "O_EXCL \<equiv> 0x80"
abbreviation (input) O_TRUNC :: u32 where "O_TRUNC \<equiv> 0x200"
abbreviation (input) O_APPEND :: u32 where "O_APPEND \<equiv> 0x400"
abbreviation (input) O_NONBLOCK :: u32 where "O_NONBLOCK \<equiv> 0x800"
abbreviation (input) O_DIRECTORY :: u32 where "O_DIRECTORY \<equiv> 0x10000"
abbreviation (input) O_ACCMODE :: u32 where "O_ACCMODE \<equiv> 0x200003"

abbreviation (input) DFS_FD_OFFSET :: int where "DFS_FD_OFFSET \<equiv> 3"
abbreviation (input) DFS_FD_MAX :: nat where "DFS_FD_MAX \<equiv> 16"
abbreviation (input) DFS_FILESYSTEMS_MAX :: nat where "DFS_FILESYSTEMS_MAX \<equiv> 3"
abbreviation (input) DFS_FILESYSTEM_TYPES_MAX :: nat where "DFS_FILESYSTEM_TYPES_MAX \<equiv> 2"
abbreviation (input) DFS_PATH_MAX :: nat where "DFS_PATH_MAX \<equiv> 256"
abbreviation (input) DFS_FD_MAGIC :: u16 where "DFS_FD_MAGIC \<equiv> 0xfdfd"

abbreviation (input) FT_REGULAR :: u16 where "FT_REGULAR \<equiv> 0"
abbreviation (input) FT_DIRECTORY :: u16 where "FT_DIRECTORY \<equiv> 2"
abbreviation (input) FT_DEVICE :: u16 where "FT_DEVICE \<equiv> 4"
abbreviation (input) DFS_F_OPEN :: u32 where "DFS_F_OPEN \<equiv> 0x01000000"
abbreviation (input) DFS_F_DIRECTORY :: u32 where "DFS_F_DIRECTORY \<equiv> 0x02000000"
abbreviation (input) DFS_F_EOF :: u32 where "DFS_F_EOF \<equiv> 0x04000000"

section \<open>The state\<close>

text \<open>A string in a block of the heap, with its address.  The tables of operations of the file systems are
  numbers, the places in the table of mounted file systems too; \<open>data\<close> points to such a place or to
  something the driver allocated.\<close>

type_synonym cstr = "u32 \<times> u8 list"

datatype fd_data = No_data | Fs_data nat | Ptr_data u32

record dfs_fd =
  fd_magic :: u16
  fd_type :: u16
  fd_path :: "cstr option"
  fd_ref :: int
  fd_fs :: "nat option"
  fd_fops :: "nat option"
  fd_flags :: u32
  fd_size :: u32
  fd_pos :: u32
  fd_data :: fd_data

record dfs_filesystem =
  mnt_dev :: "nat option"
  mnt_path :: "cstr option"
  mnt_ops :: "nat option"
  mnt_data :: u32

text \<open>\<open>fds\<close> are the slots of the table, null for an empty one; their number is \<open>maxfd\<close>.  \<open>fslock\<close> counts how
  often the calling thread holds the lock, \<open>err_no\<close> is its error number, \<open>std_fd\<close> the console of the C
  library, and \<open>world\<close> what the drivers of the file systems keep.\<close>

record 'w dfs =
  filesystem_operation_table :: "nat option list"
  filesystem_table :: "dfs_filesystem list"
  fds_block :: u32
  fds :: "u32 list"
  fd_mem :: "u32 \<Rightarrow> dfs_fd option"
  working_directory :: "u8 list"
  fslock :: nat
  std_fd :: int
  err_no :: int
  dheap :: heap
  world :: 'w

definition fd0 :: dfs_fd where
  "fd0 = \<lparr>fd_magic = 0, fd_type = 0, fd_path = None, fd_ref = 0, fd_fs = None, fd_fops = None, fd_flags = 0,
     fd_size = 0, fd_pos = 0, fd_data = No_data\<rparr>"

definition filesystem0 :: dfs_filesystem where
  "filesystem0 = \<lparr>mnt_dev = None, mnt_path = None, mnt_ops = None, mnt_data = 0\<rparr>"

text \<open>\<open>dfs_init\<close> without the mount of the devices, which is \<open>DfsMount\<close>'s.\<close>

definition dfs_init_tables :: "'w dfs \<Rightarrow> 'w dfs" where
  "dfs_init_tables s = s\<lparr>filesystem_operation_table := replicate DFS_FILESYSTEM_TYPES_MAX None,
     filesystem_table := replicate DFS_FILESYSTEMS_MAX filesystem0, fds_block := 0, fds := [],
     working_directory := [SLASH], fslock := 0\<rparr>"

definition dfs_lock :: "'w dfs \<Rightarrow> 'w dfs" where
  "dfs_lock s = s\<lparr>fslock := Suc (fslock s)\<rparr>"

definition dfs_unlock :: "'w dfs \<Rightarrow> 'w dfs" where
  "dfs_unlock s = s\<lparr>fslock := fslock s - 1\<rparr>"

definition set_dfs_errno :: "int \<Rightarrow> 'w dfs \<Rightarrow> 'w dfs" where
  "set_dfs_errno e s = s\<lparr>err_no := e\<rparr>"

section \<open>Memory\<close>

definition dfs_malloc :: "nat \<Rightarrow> 'w dfs \<Rightarrow> (u32 option \<times> 'w dfs) option" where
  "dfs_malloc n s = do { (p, h) \<leftarrow> heap_get (of_nat n) (dheap s); Some (p, s\<lparr>dheap := h\<rparr>) }"

definition dfs_free :: "u32 \<Rightarrow> 'w dfs \<Rightarrow> 'w dfs option" where
  "dfs_free p s = do { h \<leftarrow> rt_free p (dheap s); Some (s\<lparr>dheap := h\<rparr>) }"

text \<open>Freeing a string; a null pointer is freed without effect.\<close>

definition free_str :: "cstr option \<Rightarrow> 'w dfs \<Rightarrow> 'w dfs option" where
  "free_str x s = dfs_free (case x of None \<Rightarrow> 0 | Some (p, _) \<Rightarrow> p) s"

definition rt_strdup :: "u8 list \<Rightarrow> 'w dfs \<Rightarrow> (cstr option \<times> 'w dfs) option" where
  "rt_strdup str s = do {
     (p, s) \<leftarrow> dfs_malloc (length str + 1) s;
     Some (map_option (\<lambda>p. (p, str)) p, s)
   }"

text \<open>\<open>dfs_normalize_path\<close>: the result is a new string, or a null pointer when there is no memory or the
  path goes above the root.\<close>

definition dfs_normalize_path :: "u8 list option \<Rightarrow> u8 list \<Rightarrow> 'w dfs \<Rightarrow> (cstr option \<times> 'w dfs) option" where
  "dfs_normalize_path directory filename s = do {
     let directory = (case directory of None \<Rightarrow> working_directory s | Some d \<Rightarrow> d);
     (p, s) \<leftarrow> (if filename = [] \<or> hd filename \<noteq> SLASH then do {
                 (p, s) \<leftarrow> dfs_malloc (length directory + length filename + 2) s;
                 Some (map_option (\<lambda>p. (p, directory @ [SLASH] @ filename)) p, s)
               } else rt_strdup filename s);
     case p of
       None \<Rightarrow> Some (None, s)
     | Some (p, fullpath) \<Rightarrow> do {
         r \<leftarrow> normalize_copy fullpath;
         case r of
           None \<Rightarrow> do { s \<leftarrow> dfs_free p s; Some (None, s) }
         | Some q \<Rightarrow> Some (Some (p, q), s)
       }
   }"

section \<open>The table of descriptors\<close>

definition upd_fd :: "u32 \<Rightarrow> dfs_fd \<Rightarrow> 'w dfs \<Rightarrow> 'w dfs" where
  "upd_fd p d s = s\<lparr>fd_mem := (fd_mem s)(p \<mapsto> d)\<rparr>"

text \<open>The search for a slot: one that is empty, or whose descriptor nobody refers to.\<close>

function find_slot :: "'w dfs \<Rightarrow> nat \<Rightarrow> nat option" where
  "find_slot s idx =
     (if idx < length (fds s) then
        if fds s ! idx = 0 then Some idx
        else do {
          d \<leftarrow> fd_mem s (fds s ! idx);
          if fd_ref d = 0 then Some idx else find_slot s (idx + 1)
        }
      else Some idx)"
  by auto
termination by (relation "measure (\<lambda>(s, idx). length (fds s) - idx)") auto

declare find_slot.simps [simp del]

definition fd_grow :: "'w dfs \<Rightarrow> (bool \<times> 'w dfs) option" where
  "fd_grow s = do {
     let cnt = length (fds s) + 4;
     let cnt = (if cnt > DFS_FD_MAX then DFS_FD_MAX else cnt);
     (p, h) \<leftarrow> rt_realloc (fds_block s) (of_nat (cnt * 4)) (dheap s);
     if p = 0 then Some (False, s\<lparr>dheap := h\<rparr>)
     else Some (True, s\<lparr>dheap := h, fds_block := p, fds := fds s @ replicate (cnt - length (fds s)) 0\<rparr>)
   }"

text \<open>A descriptor takes 36 bytes.  When it cannot be allocated the result is \<open>maxfd\<close>.\<close>

definition fd_alloc :: "nat \<Rightarrow> 'w dfs \<Rightarrow> (nat \<times> 'w dfs) option" where
  "fd_alloc startfd s = do {
     idx \<leftarrow> find_slot s startfd;
     (ok, s) \<leftarrow> (if idx = length (fds s) \<and> length (fds s) < DFS_FD_MAX then fd_grow s else Some (True, s));
     if \<not> ok then Some (idx, s)
     else if idx < length (fds s) \<and> fds s ! idx = 0 then do {
       (p, h) \<leftarrow> heap_zalloc 36 (dheap s);
       case p of
         None \<Rightarrow> Some (length (fds s), s\<lparr>dheap := h\<rparr>)
       | Some p \<Rightarrow> Some (idx, upd_fd p fd0 (s\<lparr>dheap := h, fds := (fds s)[idx := p]\<rparr>))
     } else Some (idx, s)
   }"

definition fd_new :: "'w dfs \<Rightarrow> (int \<times> 'w dfs) option" where
  "fd_new s = do {
     let s = dfs_lock s;
     (idx, s) \<leftarrow> fd_alloc 0 s;
     if idx = length (fds s) then Some (- (1 + DFS_FD_OFFSET) + DFS_FD_OFFSET, dfs_unlock s)
     else do {
       c_defined (idx < length (fds s));
       d \<leftarrow> fd_mem s (fds s ! idx);
       let s = upd_fd (fds s ! idx) (d\<lparr>fd_ref := 1, fd_magic := DFS_FD_MAGIC\<rparr>) s;
       Some (int idx + DFS_FD_OFFSET, dfs_unlock s)
     }
   }"

definition fd_get :: "int \<Rightarrow> 'w dfs \<Rightarrow> (u32 option \<times> 'w dfs) option" where
  "fd_get fd s = do {
     let fd = (if 0 \<le> fd \<and> fd \<le> 2 then std_fd s else fd);
     let fd = fd - DFS_FD_OFFSET;
     if fd < 0 \<or> fd \<ge> int (length (fds s)) then Some (None, s)
     else do {
       let s = dfs_lock s;
       let p = fds s ! nat fd;
       if p = 0 then Some (None, dfs_unlock s)
       else do {
         d \<leftarrow> fd_mem s p;
         if fd_magic d \<noteq> DFS_FD_MAGIC then Some (None, dfs_unlock s)
         else Some (Some p, dfs_unlock (upd_fd p (d\<lparr>fd_ref := fd_ref d + 1\<rparr>) s))
       }
     }
   }"

text \<open>The descriptor is given back with its last reference, if it is in the table.\<close>

definition fd_put :: "u32 option \<Rightarrow> 'w dfs \<Rightarrow> 'w dfs option" where
  "fd_put fd s = do {
     rt_assert (fd \<noteq> None);
     let p = the fd;
     let s = dfs_lock s;
     d \<leftarrow> fd_mem s p;
     let s = upd_fd p (d\<lparr>fd_ref := fd_ref d - 1\<rparr>) s;
     let index = length (takeWhile (\<lambda>q. q \<noteq> p) (fds s));
     s \<leftarrow> (if fd_ref d - 1 = 0 \<and> index < length (fds s) then do {
            s \<leftarrow> dfs_free p s;
            Some (s\<lparr>fds := (fds s)[index := 0], fd_mem := (fd_mem s)(p := None)\<rparr>)
          } else Some s);
     Some (dfs_unlock s)
   }"

end
