(* ===== verification/DfsFile.thy ===== *)
theory DfsFile
  imports DfsFd
begin

text \<open>
  The file layer, \<open>components/dfs/src/dfs_file.c\<close>, with the tables of \<open>components/dfs/src/dfs_fs.c\<close> it
  reads: which file system a path belongs to, and the calls of that file system's functions on a
  descriptor or a path.  A file system is a table of functions, some of which may be missing; a call sees
  the descriptor, the heap and what the driver keeps, and may change all three.
\<close>

section \<open>File systems\<close>

record file_stat =
  st_dev :: u32
  st_mode :: u16
  st_size :: u32
  st_mtime :: u32

record dir_entry =
  d_type :: u8
  d_namlen :: u8
  d_reclen :: u16
  d_name :: "u8 list"

record fs_stat =
  f_bsize :: u32
  f_blocks :: u32
  f_bfree :: u32

text \<open>The argument of a command is a word, or the length for \<open>RT_FIOFTRUNCATE\<close>, which the code passes by its
  address.\<close>

datatype ioctl_arg = Word_arg u32 | Length_arg u32

type_synonym ('w, 'r) fd_call = "dfs_fd \<Rightarrow> heap \<times> 'w \<Rightarrow> ('r \<times> dfs_fd \<times> heap \<times> 'w) option"
type_synonym ('w, 'r) fs_call = "dfs_filesystem \<Rightarrow> heap \<times> 'w \<Rightarrow> ('r \<times> dfs_filesystem \<times> heap \<times> 'w) option"

text \<open>What \<open>open\<close> finds behind \<open>data\<close> is a place in the table of file systems, so it is given the table.
  Reading returns the bytes that were stored in the client's buffer.\<close>

record 'w dfs_file_ops =
  fo_open :: "(dfs_filesystem list \<Rightarrow> ('w, int) fd_call) option"
  fo_close :: "('w, int) fd_call option"
  fo_ioctl :: "(u32 \<Rightarrow> ioctl_arg \<Rightarrow> ('w, int) fd_call) option"
  fo_read :: "(nat \<Rightarrow> ('w, int \<times> u8 list) fd_call) option"
  fo_write :: "(u8 list \<Rightarrow> ('w, int) fd_call) option"
  fo_flush :: "('w, int) fd_call option"
  fo_lseek :: "(u32 \<Rightarrow> ('w, int) fd_call) option"
  fo_getdents :: "(nat \<Rightarrow> ('w, int \<times> dir_entry list) fd_call) option"

record 'w dfs_filesystem_ops =
  fs_name :: "u8 list"
  fs_flags :: u32
  fs_fops :: nat
  fs_mount :: "(u32 \<Rightarrow> u32 \<Rightarrow> ('w, int) fs_call) option"
  fs_unmount :: "('w, int) fs_call option"
  fs_mkfs :: "(nat option \<Rightarrow> heap \<times> 'w \<Rightarrow> (int \<times> heap \<times> 'w) option) option"
  fs_statfs :: "('w, int \<times> fs_stat option) fs_call option"
  fs_unlink :: "(u8 list \<Rightarrow> ('w, int) fs_call) option"
  fs_stat_op :: "(u8 list \<Rightarrow> ('w, int \<times> file_stat option) fs_call) option"
  fs_rename :: "(u8 list option \<Rightarrow> u8 list option \<Rightarrow> ('w, int) fs_call) option"

text \<open>The tables in the program, by their numbers, and the device calls that mounting makes.\<close>

record 'w dfs_code =
  file_ops_at :: "nat \<Rightarrow> 'w dfs_file_ops"
  fs_ops_at :: "nat \<Rightarrow> 'w dfs_filesystem_ops"
  device_find :: "u8 list \<Rightarrow> 'w \<Rightarrow> nat option"
  device_open :: "nat \<Rightarrow> 'w \<Rightarrow> (int \<times> 'w) option"
  device_close :: "nat \<Rightarrow> 'w \<Rightarrow> 'w option"

definition call_fd :: "('w, 'r) fd_call \<Rightarrow> dfs_fd \<Rightarrow> 'w dfs \<Rightarrow> ('r \<times> dfs_fd \<times> 'w dfs) option" where
  "call_fd f d s = do { (r, d, h, w) \<leftarrow> f d (dheap s, world s); Some (r, d, s\<lparr>dheap := h, world := w\<rparr>) }"

definition call_fs :: "('w, 'r) fs_call \<Rightarrow> nat \<Rightarrow> 'w dfs \<Rightarrow> ('r \<times> 'w dfs) option" where
  "call_fs f i s = do {
     (r, m, h, w) \<leftarrow> f (filesystem_table s ! i) (dheap s, world s);
     Some (r, s\<lparr>dheap := h, world := w, filesystem_table := (filesystem_table s)[i := m]\<rparr>)
   }"

section \<open>Which file system a path belongs to\<close>

text \<open>The lock is taken around the search and released again.\<close>

fun lookup_loop :: "u8 list \<Rightarrow> dfs_filesystem list \<Rightarrow> nat \<Rightarrow> nat option \<Rightarrow> nat \<Rightarrow> nat option" where
  "lookup_loop path [] iter fs prefixlen = fs"
| "lookup_loop path (m # ms) iter fs prefixlen =
     (case mnt_path m of
        None \<Rightarrow> lookup_loop path ms (iter + 1) fs prefixlen
      | Some (_, mp) \<Rightarrow>
          if mnt_ops m = None then lookup_loop path ms (iter + 1) fs prefixlen
          else
            let fspath = length mp in
            if fspath < prefixlen \<or> take fspath path \<noteq> mp then lookup_loop path ms (iter + 1) fs prefixlen
            else if fspath > 1 \<and> length path > fspath \<and> path ! fspath \<noteq> SLASH
            then lookup_loop path ms (iter + 1) fs prefixlen
            else lookup_loop path ms (iter + 1) (Some iter) fspath)"

definition dfs_filesystem_lookup :: "u8 list \<Rightarrow> 'w dfs \<Rightarrow> nat option" where
  "dfs_filesystem_lookup path s = lookup_loop path (filesystem_table s) 0 None 0"

definition dfs_filesystem_get_mounted_path :: "nat \<Rightarrow> 'w dfs \<Rightarrow> cstr option" where
  "dfs_filesystem_get_mounted_path device s =
     (case find (\<lambda>m. mnt_ops m \<noteq> None \<and> mnt_dev m = Some device) (filesystem_table s) of
        None \<Rightarrow> None
      | Some m \<Rightarrow> mnt_path m)"

text \<open>The table of the operations of a mounted file system, and its mount point.\<close>

definition ops_of :: "'w dfs_code \<Rightarrow> nat \<Rightarrow> 'w dfs \<Rightarrow> 'w dfs_filesystem_ops option" where
  "ops_of C i s = map_option (fs_ops_at C) (mnt_ops (filesystem_table s ! i))"

definition mount_point :: "nat \<Rightarrow> 'w dfs \<Rightarrow> u8 list option" where
  "mount_point i s = map_option snd (mnt_path (filesystem_table s ! i))"

text \<open>The path a file system sees: below its mount point, or the whole one.\<close>

definition path_in :: "'w dfs_filesystem_ops \<Rightarrow> u8 list \<Rightarrow> u8 list \<Rightarrow> u8 list option" where
  "path_in ops mp fullpath =
     (if fs_flags ops AND 1 = 0 then do {
        sub \<leftarrow> dfs_subdir mp fullpath;
        Some (case sub of None \<Rightarrow> [SLASH] | Some q \<Rightarrow> q)
      } else Some fullpath)"

section \<open>Operations on a descriptor\<close>

text \<open>A call through a pointer to a descriptor: the record is read, changed and stored.\<close>

definition at_fd :: "int \<Rightarrow> u32 option \<Rightarrow> (dfs_fd \<Rightarrow> 'w dfs \<Rightarrow> ('r \<times> dfs_fd \<times> 'w dfs) option) \<Rightarrow> (int \<Rightarrow> 'r) \<Rightarrow>
    'w dfs \<Rightarrow> ('r \<times> 'w dfs) option" where
  "at_fd e fd f err s =
     (case fd of
        None \<Rightarrow> Some (err (- e), s)
      | Some p \<Rightarrow> do {
          d \<leftarrow> fd_mem s p;
          (r, d, s) \<leftarrow> f d s;
          Some (r, upd_fd p d s)
        })"

text \<open>The part of \<open>dfs_file_open\<close> that finds the file system and fills the descriptor; the error, if any.\<close>

definition file_prepare :: "'w dfs_code \<Rightarrow> u8 list \<Rightarrow> u32 \<Rightarrow> dfs_fd \<Rightarrow> 'w dfs \<Rightarrow> (int option \<times> dfs_fd \<times> 'w dfs) option" where
  "file_prepare C path flags d s = do {
     (fullpath, s) \<leftarrow> dfs_normalize_path None path s;
     case fullpath of
       None \<Rightarrow> Some (Some (- ENOMEM), d, s)
     | Some (p, full) \<Rightarrow>
         (case dfs_filesystem_lookup full s of
            None \<Rightarrow> do { s \<leftarrow> dfs_free p s; Some (Some (- ENOENT), d, s) }
          | Some i \<Rightarrow> do {
              ops \<leftarrow> ops_of C i s;
              mp \<leftarrow> mount_point i s;
              let d = d\<lparr>fd_fs := Some i, fd_fops := Some (fs_fops ops), fd_type := FT_REGULAR, fd_flags := flags,
                        fd_size := 0, fd_pos := 0, fd_data := Fs_data i\<rparr>;
              q \<leftarrow> path_in ops mp full;
              if fs_flags ops AND 1 = 0 then do {
                (np, s) \<leftarrow> rt_strdup q s;
                s \<leftarrow> dfs_free p s;
                Some (None, d\<lparr>fd_path := np\<rparr>, s)
              } else Some (None, d\<lparr>fd_path := Some (p, full)\<rparr>, s)
            })
   }"

definition file_open :: "'w dfs_code \<Rightarrow> u8 list \<Rightarrow> u32 \<Rightarrow> dfs_fd \<Rightarrow> 'w dfs \<Rightarrow> (int \<times> dfs_fd \<times> 'w dfs) option" where
  "file_open C path flags d s = do {
     (e, d, s) \<leftarrow> file_prepare C path flags d s;
     case e of
       Some result \<Rightarrow> Some (result, d, s)
     | None \<Rightarrow> do {
         fops \<leftarrow> fd_fops d;
         case fo_open (file_ops_at C fops) of
           None \<Rightarrow> do { s \<leftarrow> free_str (fd_path d) s; Some (- ENOSYS, d\<lparr>fd_path := None\<rparr>, s) }
         | Some f \<Rightarrow> do {
             (result, d, s) \<leftarrow> call_fd (f (filesystem_table s)) d s;
             if result < 0 then do { s \<leftarrow> free_str (fd_path d) s; Some (result, d\<lparr>fd_path := None\<rparr>, s) }
             else do {
               let d = d\<lparr>fd_flags := fd_flags d OR DFS_F_OPEN\<rparr>;
               let d = (if flags AND O_DIRECTORY \<noteq> 0
                        then d\<lparr>fd_type := FT_DIRECTORY, fd_flags := fd_flags d OR DFS_F_DIRECTORY\<rparr> else d);
               Some (0, d, s)
             }
           }
       }
   }"

definition dfs_file_open :: "'w dfs_code \<Rightarrow> u32 option \<Rightarrow> u8 list \<Rightarrow> u32 \<Rightarrow> 'w dfs \<Rightarrow> (int \<times> 'w dfs) option" where
  "dfs_file_open C fd path flags = at_fd EINVAL fd (file_open C path flags) id"

definition file_close :: "'w dfs_code \<Rightarrow> dfs_fd \<Rightarrow> 'w dfs \<Rightarrow> (int \<times> dfs_fd \<times> 'w dfs) option" where
  "file_close C d s = do {
     fops \<leftarrow> fd_fops d;
     (result, d, s) \<leftarrow> (case fo_close (file_ops_at C fops) of
                          None \<Rightarrow> Some (0, d, s)
                        | Some f \<Rightarrow> call_fd f d s);
     if result < 0 then Some (result, d, s)
     else do { s \<leftarrow> free_str (fd_path d) s; Some (result, d\<lparr>fd_path := None\<rparr>, s) }
   }"

definition dfs_file_close :: "'w dfs_code \<Rightarrow> u32 option \<Rightarrow> 'w dfs \<Rightarrow> (int \<times> 'w dfs) option" where
  "dfs_file_close C fd = at_fd ENXIO fd (file_close C) id"

text \<open>\<open>F_GETFL\<close> is 3 and \<open>F_SETFL\<close> is 4.\<close>

definition file_ioctl :: "'w dfs_code \<Rightarrow> u32 \<Rightarrow> u32 \<Rightarrow> dfs_fd \<Rightarrow> 'w dfs \<Rightarrow> (int \<times> dfs_fd \<times> 'w dfs) option" where
  "file_ioctl C cmd args d s =
     (if (fd_type d = FT_REGULAR \<or> fd_type d = FT_DEVICE) \<and> cmd = 3 then Some (sint (fd_flags d), d, s)
      else if (fd_type d = FT_REGULAR \<or> fd_type d = FT_DEVICE) \<and> cmd = 4 then
        (let mask = O_NONBLOCK OR O_APPEND; flags = args AND mask;
             d = d\<lparr>fd_flags := fd_flags d AND NOT mask\<rparr> in
         Some (0, d\<lparr>fd_flags := fd_flags d OR flags\<rparr>, s))
      else do {
        fops \<leftarrow> fd_fops d;
        case fo_ioctl (file_ops_at C fops) of
          None \<Rightarrow> Some (- ENOSYS, d, s)
        | Some f \<Rightarrow> call_fd (f cmd (Word_arg args)) d s
      })"

definition dfs_file_ioctl :: "'w dfs_code \<Rightarrow> u32 option \<Rightarrow> u32 \<Rightarrow> u32 \<Rightarrow> 'w dfs \<Rightarrow> (int \<times> 'w dfs) option" where
  "dfs_file_ioctl C fd cmd args = at_fd EINVAL fd (file_ioctl C cmd args) id"

definition file_read :: "'w dfs_code \<Rightarrow> nat \<Rightarrow> dfs_fd \<Rightarrow> 'w dfs \<Rightarrow> ((int \<times> u8 list) \<times> dfs_fd \<times> 'w dfs) option" where
  "file_read C len d s = do {
     fops \<leftarrow> fd_fops d;
     case fo_read (file_ops_at C fops) of
       None \<Rightarrow> Some ((- ENOSYS, []), d, s)
     | Some f \<Rightarrow> do {
         ((result, buf), d, s) \<leftarrow> call_fd (f len) d s;
         Some ((result, buf), (if result < 0 then d\<lparr>fd_flags := fd_flags d OR DFS_F_EOF\<rparr> else d), s)
       }
   }"

definition dfs_file_read :: "'w dfs_code \<Rightarrow> u32 option \<Rightarrow> nat \<Rightarrow> 'w dfs \<Rightarrow> ((int \<times> u8 list) \<times> 'w dfs) option" where
  "dfs_file_read C fd len = at_fd EINVAL fd (file_read C len) (\<lambda>e. (e, []))"

definition file_getdents :: "'w dfs_code \<Rightarrow> nat \<Rightarrow> dfs_fd \<Rightarrow> 'w dfs \<Rightarrow> ((int \<times> dir_entry list) \<times> dfs_fd \<times> 'w dfs) option" where
  "file_getdents C nbytes d s =
     (if fd_type d \<noteq> FT_DIRECTORY then Some ((- EINVAL, []), d, s)
      else do {
        fops \<leftarrow> fd_fops d;
        case fo_getdents (file_ops_at C fops) of
          None \<Rightarrow> Some ((- ENOSYS, []), d, s)
        | Some f \<Rightarrow> call_fd (f nbytes) d s
      })"

definition dfs_file_getdents :: "'w dfs_code \<Rightarrow> u32 option \<Rightarrow> nat \<Rightarrow> 'w dfs \<Rightarrow> ((int \<times> dir_entry list) \<times> 'w dfs) option" where
  "dfs_file_getdents C fd nbytes = at_fd EINVAL fd (file_getdents C nbytes) (\<lambda>e. (e, []))"

definition file_write :: "'w dfs_code \<Rightarrow> u8 list \<Rightarrow> dfs_fd \<Rightarrow> 'w dfs \<Rightarrow> (int \<times> dfs_fd \<times> 'w dfs) option" where
  "file_write C buf d s = do {
     fops \<leftarrow> fd_fops d;
     case fo_write (file_ops_at C fops) of
       None \<Rightarrow> Some (- ENOSYS, d, s)
     | Some f \<Rightarrow> call_fd (f buf) d s
   }"

definition dfs_file_write :: "'w dfs_code \<Rightarrow> u32 option \<Rightarrow> u8 list \<Rightarrow> 'w dfs \<Rightarrow> (int \<times> 'w dfs) option" where
  "dfs_file_write C fd buf = at_fd EINVAL fd (file_write C buf) id"

definition file_flush :: "'w dfs_code \<Rightarrow> dfs_fd \<Rightarrow> 'w dfs \<Rightarrow> (int \<times> dfs_fd \<times> 'w dfs) option" where
  "file_flush C d s = do {
     fops \<leftarrow> fd_fops d;
     case fo_flush (file_ops_at C fops) of
       None \<Rightarrow> Some (- ENOSYS, d, s)
     | Some f \<Rightarrow> call_fd f d s
   }"

definition dfs_file_flush :: "'w dfs_code \<Rightarrow> u32 option \<Rightarrow> 'w dfs \<Rightarrow> (int \<times> 'w dfs) option" where
  "dfs_file_flush C fd = at_fd EINVAL fd (file_flush C) id"

definition file_lseek :: "'w dfs_code \<Rightarrow> u32 \<Rightarrow> dfs_fd \<Rightarrow> 'w dfs \<Rightarrow> (int \<times> dfs_fd \<times> 'w dfs) option" where
  "file_lseek C offset d s = do {
     fops \<leftarrow> fd_fops d;
     case fo_lseek (file_ops_at C fops) of
       None \<Rightarrow> Some (- ENOSYS, d, s)
     | Some f \<Rightarrow> do {
         (result, d, s) \<leftarrow> call_fd (f offset) d s;
         Some (result, (if result \<ge> 0 then d\<lparr>fd_pos := word_of_int result\<rparr> else d), s)
       }
   }"

definition dfs_file_lseek :: "'w dfs_code \<Rightarrow> u32 option \<Rightarrow> u32 \<Rightarrow> 'w dfs \<Rightarrow> (int \<times> 'w dfs) option" where
  "dfs_file_lseek C fd offset = at_fd EINVAL fd (file_lseek C offset) id"

text \<open>\<open>RT_FIOFTRUNCATE\<close> is \<open>0x52540000\<close>.\<close>

definition file_ftruncate :: "'w dfs_code \<Rightarrow> u32 \<Rightarrow> dfs_fd \<Rightarrow> 'w dfs \<Rightarrow> (int \<times> dfs_fd \<times> 'w dfs) option" where
  "file_ftruncate C len d s =
     (if fd_type d \<noteq> FT_REGULAR \<or> sint len < 0 then Some (- EINVAL, d, s)
      else do {
        fops \<leftarrow> fd_fops d;
        case fo_ioctl (file_ops_at C fops) of
          None \<Rightarrow> Some (- ENOSYS, d, s)
        | Some f \<Rightarrow> do {
            (result, d, s) \<leftarrow> call_fd (f 0x52540000 (Length_arg len)) d s;
            Some (result, (if result = 0 then d\<lparr>fd_size := len\<rparr> else d), s)
          }
      })"

definition dfs_file_ftruncate :: "'w dfs_code \<Rightarrow> u32 option \<Rightarrow> u32 \<Rightarrow> 'w dfs \<Rightarrow> (int \<times> 'w dfs) option" where
  "dfs_file_ftruncate C fd len = at_fd EINVAL fd (file_ftruncate C len) id"

end
