(* ===== verification/DfsMount.thy ===== *)
theory DfsMount
  imports DfsFile
begin

text \<open>
  Mounting, and the operations on paths: the rest of \<open>components/dfs/src/dfs_fs.c\<close> and of
  \<open>components/dfs/src/dfs_file.c\<close>.
\<close>

section \<open>Operations on paths\<close>

text \<open>\<open>fd_is_open\<close>: is a file with this path open on its file system?\<close>

fun any_open :: "'w dfs \<Rightarrow> nat \<Rightarrow> u8 list \<Rightarrow> u32 list \<Rightarrow> bool option" where
  "any_open s i mountpath [] = Some False"
| "any_open s i mountpath (p # ps) =
     (if p = 0 then any_open s i mountpath ps
      else do {
        d \<leftarrow> fd_mem s p;
        if fd_fops d \<noteq> None \<and> fd_fs d = Some i \<and> map_option snd (fd_path d) = Some mountpath then Some True
        else any_open s i mountpath ps
      })"

definition fd_is_open :: "u8 list \<Rightarrow> 'w dfs \<Rightarrow> (int \<times> 'w dfs) option" where
  "fd_is_open pathname s = do {
     (fullpath, s) \<leftarrow> dfs_normalize_path None pathname s;
     case fullpath of
       None \<Rightarrow> Some (- 1, s)
     | Some (p, full) \<Rightarrow>
         (case dfs_filesystem_lookup full s of
            None \<Rightarrow> do { s \<leftarrow> dfs_free p s; Some (- 1, s) }
          | Some i \<Rightarrow> do {
              mp \<leftarrow> mount_point i s;
              let mountpath = (if mp = [SLASH] then full else drop (length mp) full);
              found \<leftarrow> any_open s i mountpath (fds s);
              s \<leftarrow> dfs_free p s;
              Some (if found then 0 else - 1, s)
            })
   }"

definition dfs_file_unlink :: "'w dfs_code \<Rightarrow> u8 list \<Rightarrow> 'w dfs \<Rightarrow> (int \<times> 'w dfs) option" where
  "dfs_file_unlink C path s = do {
     (fullpath, s) \<leftarrow> dfs_normalize_path None path s;
     case fullpath of
       None \<Rightarrow> Some (- EINVAL, s)
     | Some (p, full) \<Rightarrow> do {
         (result, s) \<leftarrow>
           (case dfs_filesystem_lookup full s of
              None \<Rightarrow> Some (- ENOENT, s)
            | Some i \<Rightarrow> do {
                (r, s) \<leftarrow> fd_is_open full s;
                if r = 0 then Some (- EBUSY, s)
                else do {
                  ops \<leftarrow> ops_of C i s;
                  case fs_unlink ops of
                    None \<Rightarrow> Some (- ENOSYS, s)
                  | Some f \<Rightarrow> do {
                      mp \<leftarrow> mount_point i s;
                      q \<leftarrow> path_in ops mp full;
                      call_fs (f q) i s
                    }
                }
              });
         s \<leftarrow> dfs_free p s;
         Some (result, s)
       }
   }"

text \<open>The root of a file system is a directory; the others are asked for.\<close>

definition root_stat :: file_stat where
  "root_stat = \<lparr>st_dev = 0, st_mode = 0x41ff, st_size = 0, st_mtime = 0\<rparr>"

definition dfs_file_stat :: "'w dfs_code \<Rightarrow> u8 list \<Rightarrow> 'w dfs \<Rightarrow> ((int \<times> file_stat option) \<times> 'w dfs) option" where
  "dfs_file_stat C path s = do {
     (fullpath, s) \<leftarrow> dfs_normalize_path None path s;
     case fullpath of
       None \<Rightarrow> Some ((- 1, None), s)
     | Some (p, full) \<Rightarrow>
         (case dfs_filesystem_lookup full s of
            None \<Rightarrow> do { s \<leftarrow> dfs_free p s; Some ((- ENOENT, None), s) }
          | Some i \<Rightarrow> do {
              mp \<leftarrow> mount_point i s;
              sub \<leftarrow> (if full = [SLASH] then Some None else dfs_subdir mp full);
              case sub of
                None \<Rightarrow> do { s \<leftarrow> dfs_free p s; Some ((RT_EOK, Some root_stat), s) }
              | Some q \<Rightarrow> do {
                  ops \<leftarrow> ops_of C i s;
                  case fs_stat_op ops of
                    None \<Rightarrow> do { s \<leftarrow> dfs_free p s; Some ((- ENOSYS, None), s) }
                  | Some f \<Rightarrow> do {
                      ((result, buf), s) \<leftarrow> call_fs (f (if fs_flags ops AND 1 \<noteq> 0 then full else q)) i s;
                      s \<leftarrow> dfs_free p s;
                      Some ((result, buf), s)
                    }
                }
            })
   }"

text \<open>Two paths that no file system is mounted for have the same one, a null pointer.\<close>

definition rename_in :: "'w dfs_code \<Rightarrow> nat option \<Rightarrow> u8 list \<Rightarrow> u8 list \<Rightarrow> 'w dfs \<Rightarrow> (int \<times> 'w dfs) option" where
  "rename_in C fs old new s = do {
     i \<leftarrow> fs;
     ops \<leftarrow> ops_of C i s;
     case fs_rename ops of
       None \<Rightarrow> Some (- ENOSYS, s)
     | Some f \<Rightarrow>
         if fs_flags ops AND 1 \<noteq> 0 then call_fs (f (Some old) (Some new)) i s
         else do {
           mp \<leftarrow> mount_point i s;
           old' \<leftarrow> dfs_subdir mp old;
           new' \<leftarrow> dfs_subdir mp new;
           call_fs (f old' new') i s
         }
   }"

definition dfs_file_rename :: "'w dfs_code \<Rightarrow> u8 list \<Rightarrow> u8 list \<Rightarrow> 'w dfs \<Rightarrow> (int \<times> 'w dfs) option" where
  "dfs_file_rename C oldpath newpath s = do {
     (oldfull, s) \<leftarrow> dfs_normalize_path None oldpath s;
     case oldfull of
       None \<Rightarrow> Some (- ENOENT, s)
     | Some (op, old) \<Rightarrow> do {
         (newfull, s) \<leftarrow> dfs_normalize_path None newpath s;
         case newfull of
           None \<Rightarrow> do { s \<leftarrow> dfs_free op s; Some (- ENOENT, s) }
         | Some (np, new) \<Rightarrow> do {
             let oldfs = dfs_filesystem_lookup old s;
             let newfs = dfs_filesystem_lookup new s;
             (result, s) \<leftarrow> (if oldfs = newfs then rename_in C oldfs old new s else Some (- EXDEV, s));
             s \<leftarrow> dfs_free op s;
             s \<leftarrow> dfs_free np s;
             Some (result, s)
           }
       }
   }"

section \<open>File systems\<close>

text \<open>The search of \<open>dfs_register\<close>: the first empty slot so far, and whether the name is there.\<close>

fun register_loop :: "'w dfs_code \<Rightarrow> u8 list \<Rightarrow> nat option list \<Rightarrow> nat \<Rightarrow> nat option \<Rightarrow> nat option \<times> bool" where
  "register_loop C name [] iter slot = (slot, False)"
| "register_loop C name (None # t) iter slot =
     register_loop C name t (iter + 1) (if slot = None then Some iter else slot)"
| "register_loop C name (Some k # t) iter slot =
     (if fs_name (fs_ops_at C k) = name then (slot, True) else register_loop C name t (iter + 1) slot)"

definition dfs_register :: "'w dfs_code \<Rightarrow> nat \<Rightarrow> 'w dfs \<Rightarrow> int \<times> 'w dfs" where
  "dfs_register C ops s =
     (let s = dfs_lock s;
          (slot, exists) = register_loop C (fs_name (fs_ops_at C ops)) (filesystem_operation_table s) 0 None;
          (ret, s) = (if exists then (- 1, set_dfs_errno (- EEXIST) s) else (RT_EOK, s));
          (ret, s) =
            (case slot of
               None \<Rightarrow> (- 1, set_dfs_errno (- ENOSPC) s)
             | Some k \<Rightarrow>
                 if ret = RT_EOK
                 then (ret, s\<lparr>filesystem_operation_table := (filesystem_operation_table s)[k := Some ops]\<rparr>) else (ret, s))
      in (ret, dfs_unlock s))"

definition find_type :: "'w dfs_code \<Rightarrow> u8 list \<Rightarrow> 'w dfs \<Rightarrow> nat option" where
  "find_type C name s =
     (case find (\<lambda>k. case k of None \<Rightarrow> False | Some k \<Rightarrow> fs_name (fs_ops_at C k) = name) (filesystem_operation_table s) of
        None \<Rightarrow> None
      | Some k \<Rightarrow> k)"

text \<open>Mounting checks that the mount point is a directory, \<open>/\<close> and \<open>/dev\<close> apart.\<close>

definition check_directory :: "'w dfs_code \<Rightarrow> u8 list \<Rightarrow> 'w dfs \<Rightarrow> (bool \<times> 'w dfs) option" where
  "check_directory C full s =
     (if full \<noteq> [SLASH] \<and> full \<noteq> [SLASH, 0x64, 0x65, 0x76] then do {
        (r, d, s) \<leftarrow> file_open C full (O_RDONLY OR O_DIRECTORY) fd0 s;
        if r < 0 then Some (False, s)
        else do { (_, _, s) \<leftarrow> file_close C d s; Some (True, s) }
      } else Some (True, s))"

text \<open>The place for the new file system; a mounted one at the same path is an error.  The path compared is
  the one the caller gave.\<close>

fun free_place :: "u8 list \<Rightarrow> dfs_filesystem list \<Rightarrow> nat \<Rightarrow> nat option \<Rightarrow> (int + nat) option" where
  "free_place path [] iter fs = Some (case fs of None \<Rightarrow> Inl (- ENOSPC) | Some i \<Rightarrow> Inr i)"
| "free_place path (m # ms) iter fs =
     (if mnt_ops m = None then free_place path ms (iter + 1) (if fs = None then Some iter else fs)
      else case mnt_path m of
        None \<Rightarrow> None
      | Some (_, mp) \<Rightarrow> if mp = path then Some (Inl (- EINVAL)) else free_place path ms (iter + 1) fs)"

text \<open>The end of a mount that failed, with the lock held.\<close>

definition mount_err1 :: "u32 \<Rightarrow> 'w dfs \<Rightarrow> (int \<times> 'w dfs) option" where
  "mount_err1 fullpath s = do { s \<leftarrow> dfs_free fullpath (dfs_unlock s); Some (- 1, s) }"

definition clear_place :: "nat \<Rightarrow> 'w dfs \<Rightarrow> 'w dfs" where
  "clear_place i s = s\<lparr>filesystem_table := (filesystem_table s)[i := filesystem0]\<rparr>"

definition mount_start :: "'w dfs_code \<Rightarrow> nat \<Rightarrow> nat option \<Rightarrow> (u32 \<Rightarrow> u32 \<Rightarrow> ('w, int) fs_call) \<Rightarrow> u32 \<Rightarrow> u32 \<Rightarrow> u32 \<Rightarrow>
    'w dfs \<Rightarrow> (int \<times> 'w dfs) option" where
  "mount_start C i dev_id mount fullpath rwflag data s = do {
     (r, s) \<leftarrow> (case dev_id of
                  None \<Rightarrow> Some (RT_EOK, s)
                | Some dev \<Rightarrow> do { (r, w) \<leftarrow> device_open C dev (world s); Some (r, s\<lparr>world := w\<rparr>) });
     if r \<noteq> RT_EOK then mount_err1 fullpath (clear_place i (dfs_lock s))
     else do {
       (r, s) \<leftarrow> call_fs (mount rwflag data) i s;
       if r < 0 then do {
         s \<leftarrow> (case dev_id of
                None \<Rightarrow> Some s
              | Some dev \<Rightarrow> do { w \<leftarrow> device_close C dev (world s); Some (s\<lparr>world := w\<rparr>) });
         mount_err1 fullpath (clear_place i (dfs_lock s))
       } else Some (0, s)
     }
   }"

definition dfs_mount :: "'w dfs_code \<Rightarrow> u8 list option \<Rightarrow> u8 list \<Rightarrow> u8 list \<Rightarrow> u32 \<Rightarrow> u32 \<Rightarrow> 'w dfs \<Rightarrow> (int \<times> 'w dfs) option" where
  "dfs_mount C device_name path filesystemtype rwflag data s =
     (let dev_id = (case device_name of None \<Rightarrow> None | Some n \<Rightarrow> device_find C n (world s)) in
      if device_name \<noteq> None \<and> dev_id = None then Some (- 1, set_dfs_errno (- ENODEV) s)
      else case find_type C filesystemtype s of
        None \<Rightarrow> Some (- 1, set_dfs_errno (- ENODEV) s)
      | Some k \<Rightarrow>
          (case fs_mount (fs_ops_at C k) of
             None \<Rightarrow> Some (- 1, set_dfs_errno (- ENOSYS) s)
           | Some mount \<Rightarrow> do {
               (fullpath, s) \<leftarrow> dfs_normalize_path None path s;
               case fullpath of
                 None \<Rightarrow> Some (- 1, set_dfs_errno (- ENOTDIR) s)
               | Some (p, full) \<Rightarrow> do {
                   (ok, s) \<leftarrow> check_directory C full s;
                   if \<not> ok then do { s \<leftarrow> dfs_free p s; Some (- 1, set_dfs_errno (- ENOTDIR) s) }
                   else do {
                     let s = dfs_lock s;
                     place \<leftarrow> free_place path (filesystem_table s) 0 None;
                     case place of
                       Inl e \<Rightarrow> mount_err1 p (set_dfs_errno e s)
                     | Inr i \<Rightarrow> do {
                         let m = filesystem_table s ! i;
                         let s = s\<lparr>filesystem_table := (filesystem_table s)[i :=
                                     m\<lparr>mnt_path := Some (p, full), mnt_ops := Some k, mnt_dev := dev_id\<rparr>]\<rparr>;
                         mount_start C i dev_id mount p rwflag data (dfs_unlock s)
                       }
                   }
                 }
             }))"

definition dfs_unmount :: "'w dfs_code \<Rightarrow> u8 list \<Rightarrow> 'w dfs \<Rightarrow> (int \<times> 'w dfs) option" where
  "dfs_unmount C specialfile s = do {
     (fullpath, s) \<leftarrow> dfs_normalize_path None specialfile s;
     case fullpath of
       None \<Rightarrow> Some (- 1, set_dfs_errno (- ENOTDIR) s)
     | Some (p, full) \<Rightarrow> do {
         let s = dfs_lock s;
         let i = length (takeWhile (\<lambda>m. map_option snd (mnt_path m) \<noteq> Some full) (filesystem_table s));
         if i = length (filesystem_table s) then mount_err1 p s
         else do {
           ops \<leftarrow> ops_of C i s;
           case fs_unmount ops of
             None \<Rightarrow> mount_err1 p s
           | Some f \<Rightarrow> do {
               (r, s) \<leftarrow> call_fs f i s;
               if r < 0 then mount_err1 p s
               else do {
                 let m = filesystem_table s ! i;
                 s \<leftarrow> (case mnt_dev m of
                        None \<Rightarrow> Some s
                      | Some dev \<Rightarrow> do { w \<leftarrow> device_close C dev (world s); Some (s\<lparr>world := w\<rparr>) });
                 s \<leftarrow> free_str (mnt_path m) s;
                 let s = dfs_unlock (clear_place i s);
                 s \<leftarrow> dfs_free p s;
                 Some (0, s)
               }
             }
         }
       }
   }"

definition dfs_mkfs :: "'w dfs_code \<Rightarrow> u8 list \<Rightarrow> u8 list option \<Rightarrow> 'w dfs \<Rightarrow> (int \<times> 'w dfs) option" where
  "dfs_mkfs C fs_name' device_name s =
     (case (case device_name of None \<Rightarrow> None | Some n \<Rightarrow> device_find C n (world s)) of
        None \<Rightarrow> Some (- 1, set_dfs_errno (- ENODEV) s)
      | Some dev \<Rightarrow>
          (case find_type C fs_name' s of
             None \<Rightarrow> Some (- 1, s)
           | Some k \<Rightarrow>
               (case fs_mkfs (fs_ops_at C k) of
                  None \<Rightarrow> Some (- 1, set_dfs_errno (- ENOSYS) s)
                | Some f \<Rightarrow> do {
                    (r, h, w) \<leftarrow> f (Some dev) (dheap s, world s);
                    Some (r, s\<lparr>dheap := h, world := w\<rparr>)
                  })))"

text \<open>\<open>dfs_statfs\<close> looks the path up as it is.\<close>

definition dfs_statfs :: "'w dfs_code \<Rightarrow> u8 list \<Rightarrow> 'w dfs \<Rightarrow> ((int \<times> fs_stat option) \<times> 'w dfs) option" where
  "dfs_statfs C path s =
     (case dfs_filesystem_lookup path s of
        None \<Rightarrow> Some ((- 1, None), s)
      | Some i \<Rightarrow> do {
          ops \<leftarrow> ops_of C i s;
          case fs_statfs ops of
            None \<Rightarrow> Some ((- 1, None), s)
          | Some f \<Rightarrow> call_fs f i s
        })"

text \<open>An entry of the partition table of a disk: type, first sector and size; the text it prints is left out.\<close>

definition le32 :: "u8 list \<Rightarrow> nat \<Rightarrow> u32" where
  "le32 b i = ucast (b ! i) OR push_bit 8 (ucast (b ! (i + 1))) OR push_bit 16 (ucast (b ! (i + 2)))
     OR push_bit 24 (ucast (b ! (i + 3)))"

definition dfs_filesystem_get_partition :: "u8 list \<Rightarrow> nat \<Rightarrow> (int \<times> (u8 \<times> u32 \<times> u32) option) option" where
  "dfs_filesystem_get_partition buf pindex = do {
     let dpt = 0x1be + pindex * 16;
     c_defined (dpt + 16 \<le> length buf);
     if buf ! dpt \<noteq> 0x80 \<and> buf ! dpt \<noteq> 0 then Some (- EIO, None)
     else if buf ! (dpt + 4) = 0 then Some (- EIO, None)
     else Some (RT_EOK, Some (buf ! (dpt + 4), le32 buf (dpt + 8), le32 buf (dpt + 12)))
   }"

end
