(* ===== verification/DfsPosix.thy ===== *)
theory DfsPosix
  imports DfsMount
begin

text \<open>
  The calls of the programs, \<open>components/dfs/src/dfs_posix.c\<close>: descriptors are numbers, errors are
  \<open>- 1\<close> with the error number set.  Every call that takes a number refers to the descriptor while it runs.
  What a call stores for the program is part of its result.
\<close>

section \<open>Files\<close>

definition posix_open :: "'w dfs_code \<Rightarrow> u8 list \<Rightarrow> u32 \<Rightarrow> 'w dfs \<Rightarrow> (int \<times> 'w dfs) option" where
  "posix_open C file flags s = do {
     (fd, s) \<leftarrow> fd_new s;
     if fd < 0 then Some (- 1, set_dfs_errno (- ENOMEM) s)
     else do {
       (d, s) \<leftarrow> fd_get fd s;
       (result, s) \<leftarrow> dfs_file_open C d file flags s;
       if result < 0 then do {
         s \<leftarrow> fd_put d s;
         s \<leftarrow> fd_put d s;
         Some (- 1, set_dfs_errno result s)
       } else do { s \<leftarrow> fd_put d s; Some (fd, s) }
     }
   }"

definition posix_close :: "'w dfs_code \<Rightarrow> int \<Rightarrow> 'w dfs \<Rightarrow> (int \<times> 'w dfs) option" where
  "posix_close C fd s = do {
     (d, s) \<leftarrow> fd_get fd s;
     if d = None then Some (- 1, set_dfs_errno (- EBADF) s)
     else do {
       (result, s) \<leftarrow> dfs_file_close C d s;
       s \<leftarrow> fd_put d s;
       if result < 0 then Some (- 1, set_dfs_errno result s)
       else do { s \<leftarrow> fd_put d s; Some (0, s) }
     }
   }"

definition posix_read :: "'w dfs_code \<Rightarrow> int \<Rightarrow> nat \<Rightarrow> 'w dfs \<Rightarrow> ((int \<times> u8 list) \<times> 'w dfs) option" where
  "posix_read C fd len s = do {
     (d, s) \<leftarrow> fd_get fd s;
     if d = None then Some ((- 1, []), set_dfs_errno (- EBADF) s)
     else do {
       ((result, buf), s) \<leftarrow> dfs_file_read C d len s;
       s \<leftarrow> fd_put d s;
       if result < 0 then Some ((- 1, buf), set_dfs_errno result s) else Some ((result, buf), s)
     }
   }"

definition posix_write :: "'w dfs_code \<Rightarrow> int \<Rightarrow> u8 list \<Rightarrow> 'w dfs \<Rightarrow> (int \<times> 'w dfs) option" where
  "posix_write C fd buf s = do {
     (d, s) \<leftarrow> fd_get fd s;
     if d = None then Some (- 1, set_dfs_errno (- EBADF) s)
     else do {
       (result, s) \<leftarrow> dfs_file_write C d buf s;
       s \<leftarrow> fd_put d s;
       if result < 0 then Some (- 1, set_dfs_errno result s) else Some (result, s)
     }
   }"

text \<open>\<open>whence\<close> is 0, 1 or 2 for the beginning, the position and the end; adding to the position is signed
  arithmetic, adding to the size is not.\<close>

definition seek_target :: "u32 \<Rightarrow> int \<Rightarrow> dfs_fd \<Rightarrow> u32 option option" where
  "seek_target offset whence d =
     (if whence = 0 then Some (Some offset)
      else if whence = 1 then do {
        let sum = sint offset + sint (fd_pos d);
        c_defined (- (2 ^ 31) \<le> sum \<and> sum < 2 ^ 31);
        Some (Some (word_of_int sum))
      }
      else if whence = 2 then Some (Some (offset + fd_size d))
      else Some None)"

definition posix_lseek :: "'w dfs_code \<Rightarrow> int \<Rightarrow> u32 \<Rightarrow> int \<Rightarrow> 'w dfs \<Rightarrow> (int \<times> 'w dfs) option" where
  "posix_lseek C fd offset whence s = do {
     (p, s) \<leftarrow> fd_get fd s;
     case p of
       None \<Rightarrow> Some (- 1, set_dfs_errno (- EBADF) s)
     | Some q \<Rightarrow> do {
         d \<leftarrow> fd_mem s q;
         target \<leftarrow> seek_target offset whence d;
         case target of
           None \<Rightarrow> do { s \<leftarrow> fd_put p s; Some (- 1, set_dfs_errno (- EINVAL) s) }
         | Some offset \<Rightarrow>
             if sint offset < 0 then do { s \<leftarrow> fd_put p s; Some (- 1, set_dfs_errno (- EINVAL) s) }
             else do {
               (result, s) \<leftarrow> dfs_file_lseek C p offset s;
               s \<leftarrow> fd_put p s;
               if result < 0 then Some (- 1, set_dfs_errno result s) else Some (sint offset, s)
             }
       }
   }"

text \<open>A regular file with all rights but execution, or a directory with all rights.\<close>

definition posix_fstat :: "int \<Rightarrow> 'w dfs \<Rightarrow> ((int \<times> file_stat option) \<times> 'w dfs) option" where
  "posix_fstat fildes s = do {
     (p, s) \<leftarrow> fd_get fildes s;
     case p of
       None \<Rightarrow> Some ((- 1, None), set_dfs_errno (- EBADF) s)
     | Some q \<Rightarrow> do {
         d \<leftarrow> fd_mem s q;
         let mode = 0x8000 OR 0x1b6;
         let mode = (if fd_type d = FT_DIRECTORY then (mode AND NOT 0x8000) OR 0x4000 OR 0x49 else mode);
         s \<leftarrow> fd_put p s;
         Some ((RT_EOK, Some \<lparr>st_dev = 0, st_mode = mode, st_size = fd_size d, st_mtime = 0\<rparr>), s)
       }
   }"

definition posix_fsync :: "'w dfs_code \<Rightarrow> int \<Rightarrow> 'w dfs \<Rightarrow> (int \<times> 'w dfs) option" where
  "posix_fsync C fildes s = do {
     (d, s) \<leftarrow> fd_get fildes s;
     if d = None then Some (- 1, set_dfs_errno (- EBADF) s)
     else do {
       (ret, s) \<leftarrow> dfs_file_flush C d s;
       s \<leftarrow> fd_put d s;
       Some (ret, s)
     }
   }"

definition posix_fcntl :: "'w dfs_code \<Rightarrow> int \<Rightarrow> u32 \<Rightarrow> u32 \<Rightarrow> 'w dfs \<Rightarrow> (int \<times> 'w dfs) option" where
  "posix_fcntl C fildes cmd arg s = do {
     (d, s) \<leftarrow> fd_get fildes s;
     (ret, s) \<leftarrow> (if d \<noteq> None then do {
                    (ret, s) \<leftarrow> dfs_file_ioctl C d cmd arg s;
                    s \<leftarrow> fd_put d s;
                    Some (ret, s)
                  } else Some (- EBADF, s));
     if ret < 0 then Some (- 1, set_dfs_errno ret s) else Some (ret, s)
   }"

definition posix_ioctl :: "'w dfs_code \<Rightarrow> int \<Rightarrow> u32 \<Rightarrow> u32 \<Rightarrow> 'w dfs \<Rightarrow> (int \<times> 'w dfs) option" where
  "posix_ioctl C fildes cmd arg = posix_fcntl C fildes cmd arg"

definition posix_ftruncate :: "'w dfs_code \<Rightarrow> int \<Rightarrow> u32 \<Rightarrow> 'w dfs \<Rightarrow> (int \<times> 'w dfs) option" where
  "posix_ftruncate C fd len s = do {
     (d, s) \<leftarrow> fd_get fd s;
     if d = None then Some (- 1, set_dfs_errno (- EBADF) s)
     else if sint len < 0 then do { s \<leftarrow> fd_put d s; Some (- 1, set_dfs_errno (- EINVAL) s) }
     else do {
       (result, s) \<leftarrow> dfs_file_ftruncate C d len s;
       s \<leftarrow> fd_put d s;
       if result < 0 then Some (- 1, set_dfs_errno result s) else Some (0, s)
     }
   }"

section \<open>Paths\<close>

text \<open>The calls that only report the error of an operation on a path.\<close>

definition report :: "int \<Rightarrow> 'w dfs \<Rightarrow> int \<times> 'w dfs" where
  "report result s = (if result < 0 then (- 1, set_dfs_errno result s) else (0, s))"

definition posix_rename :: "'w dfs_code \<Rightarrow> u8 list \<Rightarrow> u8 list \<Rightarrow> 'w dfs \<Rightarrow> (int \<times> 'w dfs) option" where
  "posix_rename C old_file new_file s = do {
     (result, s) \<leftarrow> dfs_file_rename C old_file new_file s;
     Some (report result s)
   }"

definition posix_unlink :: "'w dfs_code \<Rightarrow> u8 list \<Rightarrow> 'w dfs \<Rightarrow> (int \<times> 'w dfs) option" where
  "posix_unlink C pathname s = do {
     (result, s) \<leftarrow> dfs_file_unlink C pathname s;
     Some (report result s)
   }"

definition posix_rmdir :: "'w dfs_code \<Rightarrow> u8 list \<Rightarrow> 'w dfs \<Rightarrow> (int \<times> 'w dfs) option" where
  "posix_rmdir C pathname s = do {
     (result, s) \<leftarrow> dfs_file_unlink C pathname s;
     Some (report result s)
   }"

definition posix_stat :: "'w dfs_code \<Rightarrow> u8 list \<Rightarrow> 'w dfs \<Rightarrow> ((int \<times> file_stat option) \<times> 'w dfs) option" where
  "posix_stat C file s = do {
     ((result, buf), s) \<leftarrow> dfs_file_stat C file s;
     if result < 0 then Some ((- 1, buf), set_dfs_errno result s) else Some ((result, buf), s)
   }"

definition posix_access :: "'w dfs_code \<Rightarrow> u8 list \<Rightarrow> 'w dfs \<Rightarrow> (int \<times> 'w dfs) option" where
  "posix_access C path s = do {
     ((result, _), s) \<leftarrow> posix_stat C path s;
     Some (if result < 0 then - 1 else 0, s)
   }"

definition posix_statfs :: "'w dfs_code \<Rightarrow> u8 list \<Rightarrow> 'w dfs \<Rightarrow> ((int \<times> fs_stat option) \<times> 'w dfs) option" where
  "posix_statfs C path s = do {
     ((result, buf), s) \<leftarrow> dfs_statfs C path s;
     if result < 0 then Some ((- 1, buf), set_dfs_errno result s) else Some ((result, buf), s)
   }"

section \<open>Directories\<close>

definition posix_mkdir :: "'w dfs_code \<Rightarrow> u8 list \<Rightarrow> 'w dfs \<Rightarrow> (int \<times> 'w dfs) option" where
  "posix_mkdir C path s = do {
     (fd, s) \<leftarrow> fd_new s;
     if fd = - 1 then Some (- 1, set_dfs_errno (- ENOMEM) s)
     else do {
       (d, s) \<leftarrow> fd_get fd s;
       (result, s) \<leftarrow> dfs_file_open C d path (O_DIRECTORY OR O_CREAT) s;
       if result < 0 then do {
         s \<leftarrow> fd_put d s;
         s \<leftarrow> fd_put d s;
         Some (- 1, set_dfs_errno result s)
       } else do {
         (_, s) \<leftarrow> dfs_file_close C d s;
         s \<leftarrow> fd_put d s;
         s \<leftarrow> fd_put d s;
         Some (0, s)
       }
     }
   }"

text \<open>An open directory is a block of 524 bytes on the heap: the descriptor, a buffer with the entries that
  were read, and the bytes there are and the position in them; an entry has 260 bytes.\<close>

record dir =
  dir_block :: u32
  dir_fd :: int
  dir_buf :: "dir_entry list"
  dir_num :: int
  dir_cur :: int

definition posix_opendir :: "'w dfs_code \<Rightarrow> u8 list \<Rightarrow> 'w dfs \<Rightarrow> (dir option \<times> 'w dfs) option" where
  "posix_opendir C name s = do {
     (fd, s) \<leftarrow> fd_new s;
     if fd = - 1 then Some (None, set_dfs_errno (- ENOMEM) s)
     else do {
       (d, s) \<leftarrow> fd_get fd s;
       (result, s) \<leftarrow> dfs_file_open C d name (O_RDONLY OR O_DIRECTORY) s;
       if result \<ge> 0 then do {
         (t, s) \<leftarrow> dfs_malloc 524 s;
         case t of
           None \<Rightarrow> do {
             (_, s) \<leftarrow> dfs_file_close C d s;
             s \<leftarrow> fd_put d s;
             s \<leftarrow> fd_put d s;
             Some (None, s)
           }
         | Some t \<Rightarrow> do {
             s \<leftarrow> fd_put d s;
             Some (Some \<lparr>dir_block = t, dir_fd = fd, dir_buf = [], dir_num = 0, dir_cur = 0\<rparr>, s)
           }
       } else do {
         s \<leftarrow> fd_put d s;
         s \<leftarrow> fd_put d s;
         Some (None, set_dfs_errno result s)
       }
     }
   }"

definition entry_at :: "dir \<Rightarrow> dir_entry option" where
  "entry_at d = do {
     c_defined (0 \<le> dir_cur d \<and> dir_cur d mod 260 = 0 \<and> dir_cur d div 260 < int (length (dir_buf d)));
     Some (dir_buf d ! nat (dir_cur d div 260))
   }"

text \<open>The field \<open>d_reclen\<close> at the position; behind the entries the buffer is as \<open>opendir\<close> zeroed it.\<close>

definition reclen_at :: "dir \<Rightarrow> u16 option" where
  "reclen_at d = do {
     c_defined (0 \<le> dir_cur d \<and> dir_cur d mod 260 = 0 \<and> dir_cur d + 4 \<le> 512);
     Some (if dir_cur d div 260 < int (length (dir_buf d)) then d_reclen (dir_buf d ! nat (dir_cur d div 260)) else 0)
   }"

text \<open>The entries replace those in the buffer when there are any.\<close>

definition posix_readdir :: "'w dfs_code \<Rightarrow> dir \<Rightarrow> 'w dfs \<Rightarrow> (dir_entry option \<times> dir \<times> 'w dfs) option" where
  "posix_readdir C d s = do {
     (fd, s) \<leftarrow> fd_get (dir_fd d) s;
     if fd = None then Some (None, d, set_dfs_errno (- EBADF) s)
     else do {
       d \<leftarrow> (if dir_num d \<noteq> 0 then do {
              reclen \<leftarrow> reclen_at d;
              Some (d\<lparr>dir_cur := dir_cur d + uint reclen\<rparr>)
            } else Some d);
       if dir_num d = 0 \<or> dir_cur d \<ge> dir_num d then do {
         ((result, buf), s) \<leftarrow> dfs_file_getdents C fd 511 s;
         s \<leftarrow> fd_put fd s;
         if result \<le> 0 then Some (None, d, set_dfs_errno result s)
         else do {
           let d = d\<lparr>dir_buf := buf, dir_num := result, dir_cur := 0\<rparr>;
           e \<leftarrow> entry_at d;
           Some (Some e, d, s)
         }
       } else do {
         s \<leftarrow> fd_put fd s;
         e \<leftarrow> entry_at d;
         Some (Some e, d, s)
       }
     }
   }"

definition posix_telldir :: "dir \<Rightarrow> 'w dfs \<Rightarrow> (int \<times> 'w dfs) option" where
  "posix_telldir d s = do {
     (fd, s) \<leftarrow> fd_get (dir_fd d) s;
     case fd of
       None \<Rightarrow> Some (0, set_dfs_errno (- EBADF) s)
     | Some p \<Rightarrow> do {
         f \<leftarrow> fd_mem s p;
         s \<leftarrow> fd_put fd s;
         Some (sint (fd_pos f) - dir_num d + dir_cur d, s)
       }
   }"

definition posix_seekdir :: "'w dfs_code \<Rightarrow> dir \<Rightarrow> u32 \<Rightarrow> 'w dfs \<Rightarrow> (dir \<times> 'w dfs) option" where
  "posix_seekdir C d offset s = do {
     (fd, s) \<leftarrow> fd_get (dir_fd d) s;
     if fd = None then Some (d, set_dfs_errno (- EBADF) s)
     else do {
       (r, s) \<leftarrow> dfs_file_lseek C fd offset s;
       s \<leftarrow> fd_put fd s;
       Some (if r \<ge> 0 then d\<lparr>dir_num := 0, dir_cur := 0\<rparr> else d, s)
     }
   }"

definition posix_rewinddir :: "'w dfs_code \<Rightarrow> dir \<Rightarrow> 'w dfs \<Rightarrow> (dir \<times> 'w dfs) option" where
  "posix_rewinddir C d = posix_seekdir C d 0"

definition posix_closedir :: "'w dfs_code \<Rightarrow> dir \<Rightarrow> 'w dfs \<Rightarrow> (int \<times> 'w dfs) option" where
  "posix_closedir C d s = do {
     (fd, s) \<leftarrow> fd_get (dir_fd d) s;
     if fd = None then Some (- 1, set_dfs_errno (- EBADF) s)
     else do {
       (result, s) \<leftarrow> dfs_file_close C fd s;
       s \<leftarrow> fd_put fd s;
       s \<leftarrow> fd_put fd s;
       s \<leftarrow> dfs_free (dir_block d) s;
       Some (report result s)
     }
   }"

text \<open>The array of the working directory has 256 bytes; a path that fills it leaves no zero at its end.\<close>

definition posix_chdir :: "'w dfs_code \<Rightarrow> u8 list option \<Rightarrow> 'w dfs \<Rightarrow> (int \<times> 'w dfs) option" where
  "posix_chdir C path s =
     (case path of
        None \<Rightarrow> Some (0, dfs_unlock (dfs_lock s))
      | Some path \<Rightarrow>
          if length path > DFS_PATH_MAX then Some (- 1, set_dfs_errno (- ENOTDIR) s)
          else do {
            (fullpath, s) \<leftarrow> dfs_normalize_path None path s;
            case fullpath of
              None \<Rightarrow> Some (- 1, set_dfs_errno (- ENOTDIR) s)
            | Some (p, full) \<Rightarrow> do {
                let s = dfs_lock s;
                (d, s) \<leftarrow> posix_opendir C full s;
                case d of
                  None \<Rightarrow> do { s \<leftarrow> dfs_free p s; Some (- 1, dfs_unlock s) }
                | Some d \<Rightarrow> do {
                    (_, s) \<leftarrow> posix_closedir C d s;
                    c_defined (length full < DFS_PATH_MAX);
                    s \<leftarrow> dfs_free p (s\<lparr>working_directory := full\<rparr>);
                    Some (0, dfs_unlock s)
                  }
              }
          })"

text \<open>\<open>strncpy\<close> fills the client's buffer with zeros behind the path.\<close>

definition posix_getcwd :: "nat \<Rightarrow> 'w dfs \<Rightarrow> u8 list \<times> 'w dfs" where
  "posix_getcwd sz s =
     (let s = dfs_lock s;
          buf = take sz (working_directory s @ replicate sz 0)
      in (buf, dfs_unlock s))"

end
