(* ===== verification/DfsLaws.thy ===== *)
theory DfsLaws
  imports DfsPosix "HOL-Library.Multiset"
begin

text \<open>
  What the file system layer keeps.  The memory it holds is a multiset of blocks: the table, the
  descriptors, their paths and the mount points; each is held once, beside the blocks \<open>R\<close> of others and
  those of the drivers.  The contract of the drivers is the locale \<open>file_system\<close>: which files they have
  open is a multiset too, since two descriptors may share what a driver stores in \<open>data\<close>.
\<close>

section \<open>The contract of a file system\<close>

text \<open>What a driver recognises an open file by.\<close>

type_synonym file_key = "nat option \<times> u16 \<times> fd_data"

definition fkey :: "dfs_fd \<Rightarrow> file_key" where
  "fkey d = (fd_fops d, fd_type d, fd_data d)"

text \<open>What no driver changes in a descriptor.\<close>

definition same_fd :: "dfs_fd \<Rightarrow> dfs_fd \<Rightarrow> bool" where
  "same_fd d d' \<longleftrightarrow> fd_path d' = fd_path d \<and> fd_ref d' = fd_ref d \<and> fd_magic d' = fd_magic d \<and> fd_fs d' = fd_fs d"

text \<open>What \<open>dfs_file_open\<close> makes of a descriptor that was opened with \<open>flags\<close>.\<close>

definition mark_open :: "u32 \<Rightarrow> dfs_fd \<Rightarrow> dfs_fd" where
  "mark_open flags d =
     (let d = d\<lparr>fd_flags := fd_flags d OR DFS_F_OPEN\<rparr> in
      if flags AND O_DIRECTORY \<noteq> 0
      then d\<lparr>fd_type := FT_DIRECTORY, fd_flags := fd_flags d OR DFS_F_DIRECTORY\<rparr> else d)"

text \<open>Beside the blocks \<open>B\<close> of others the heap holds those of the drivers, which have the files \<open>M\<close> open.\<close>

definition sys_ok :: "('w \<Rightarrow> u32 set) \<Rightarrow> (file_key multiset \<Rightarrow> 'w \<Rightarrow> bool) \<Rightarrow> u32 set \<Rightarrow> file_key multiset \<Rightarrow>
    heap \<times> 'w \<Rightarrow> bool" where
  "sys_ok own files B M hw \<longleftrightarrow> heap_ready (fst hw) \<and> heap_held (fst hw) = B \<union> own (snd hw) \<and> B \<inter> own (snd hw) = {} \<and>
     files M (snd hw)"

text \<open>A call on an open file returns, and the file stays open; \<open>P\<close> says for which types.\<close>

definition fd_call_ok :: "(u32 set \<Rightarrow> file_key multiset \<Rightarrow> heap \<times> 'w \<Rightarrow> bool) \<Rightarrow> (u16 \<Rightarrow> bool) \<Rightarrow> ('w, 'r) fd_call \<Rightarrow> bool" where
  "fd_call_ok ok P f \<longleftrightarrow> (\<forall>B M d hw. ok B M hw \<and> fkey d \<in># M \<and> P (fd_type d) \<longrightarrow>
     (\<exists>r d' hw'. f d hw = Some (r, d', hw') \<and> same_fd d d' \<and> fkey d' = fkey d \<and> ok B M hw'))"

definition open_ok :: "(u32 set \<Rightarrow> file_key multiset \<Rightarrow> heap \<times> 'w \<Rightarrow> bool) \<Rightarrow>
    (dfs_filesystem list \<Rightarrow> ('w, int) fd_call) \<Rightarrow> nat \<Rightarrow> bool" where
  "open_ok ok f k \<longleftrightarrow> (\<forall>B M d hw t. ok B M hw \<and> fd_fops d = Some k \<and> fd_type d = FT_REGULAR \<and> (\<exists>i. fd_data d = Fs_data i) \<longrightarrow>
     (\<exists>r d' hw'. f t d hw = Some (r, d', hw') \<and> same_fd d d' \<and> fd_fops d' \<noteq> None \<and>
        (if r < 0 then ok B M hw' else ok B (add_mset (fkey (mark_open (fd_flags d) d')) M) hw')))"

definition close_ok :: "(u32 set \<Rightarrow> file_key multiset \<Rightarrow> heap \<times> 'w \<Rightarrow> bool) \<Rightarrow> ('w, int) fd_call option \<Rightarrow> nat \<Rightarrow> bool" where
  "close_ok ok f k \<longleftrightarrow> (\<forall>B M d hw. ok B (add_mset (fkey d) M) hw \<and> fd_fops d = Some k \<longrightarrow>
     (case f of
        None \<Rightarrow> ok B M hw
      | Some f \<Rightarrow> \<exists>r d' hw'. f d hw = Some (r, d', hw') \<and> same_fd d d' \<and>
          (if r < 0 then fkey d' = fkey d \<and> fd_type d \<noteq> FT_DIRECTORY \<and> ok B (add_mset (fkey d) M) hw' else ok B M hw')))"

locale file_system =
  fixes C :: "'w dfs_code" and own :: "'w \<Rightarrow> u32 set" and files :: "file_key multiset \<Rightarrow> 'w \<Rightarrow> bool"
  assumes law_open: "fo_open (file_ops_at C k) = Some fo \<Longrightarrow> open_ok (sys_ok own files) fo k"
    and law_close: "close_ok (sys_ok own files) (fo_close (file_ops_at C k)) k"
    and law_ioctl: "fo_ioctl (file_ops_at C k) = Some fi \<Longrightarrow> cmd \<noteq> 0x52540000 \<Longrightarrow>
          fd_call_ok (sys_ok own files) (\<lambda>_. True) (fi cmd (Word_arg arg))"
    and law_truncate: "fo_ioctl (file_ops_at C k) = Some fi \<Longrightarrow>
          fd_call_ok (sys_ok own files) (\<lambda>t. t = FT_REGULAR) (fi 0x52540000 (Length_arg len))"
    and law_read: "fo_read (file_ops_at C k) = Some fr \<Longrightarrow> fd_call_ok (sys_ok own files) (\<lambda>_. True) (fr cnt)"
    and law_write: "fo_write (file_ops_at C k) = Some fw \<Longrightarrow> fd_call_ok (sys_ok own files) (\<lambda>_. True) (fw buf)"
    and law_flush: "fo_flush (file_ops_at C k) = Some fc \<Longrightarrow> fd_call_ok (sys_ok own files) (\<lambda>t. t = FT_REGULAR) fc"
    and law_lseek: "fo_lseek (file_ops_at C k) = Some fl \<Longrightarrow> fd_call_ok (sys_ok own files) (\<lambda>_. True) (fl off)"
    and law_getdents: "fo_getdents (file_ops_at C k) = Some fg \<Longrightarrow> fd_call_ok (sys_ok own files) (\<lambda>t. t = FT_DIRECTORY) (fg cnt)"

section \<open>The memory of the layer\<close>

text \<open>\<open>holds R B M\<close>: the blocks \<open>B\<close> are held, each once and none of them by others.\<close>

definition holds :: "('w \<Rightarrow> u32 set) \<Rightarrow> (file_key multiset \<Rightarrow> 'w \<Rightarrow> bool) \<Rightarrow> u32 set \<Rightarrow> u32 multiset \<Rightarrow> file_key multiset \<Rightarrow>
    heap \<times> 'w \<Rightarrow> bool" where
  "holds own files R B M hw \<longleftrightarrow> sys_ok own files (R \<union> set_mset B) M hw \<and> R \<inter> set_mset B = {} \<and> (\<forall>x. count B x \<le> 1)"

lemma holds_ready: "holds own files R B M (h, w) \<Longrightarrow> heap_ready h"
  by (simp add: holds_def sys_ok_def)

lemma holds_get:
  assumes "holds own files R B M (h, w)" "heap_get n h = Some (p, h')"
  shows "case p of None \<Rightarrow> h' = h | Some q \<Rightarrow> holds own files R (add_mset q B) M (h', w) \<and> q \<noteq> 0"
proof (cases p)
  case None
  then show ?thesis using heap_alloc.get_none [OF holds_ready [OF assms(1)]] assms(2) by simp
next
  case (Some q)
  note g = heap_get_some [OF holds_ready [OF assms(1)] assms(2) [unfolded Some]]
  have q: "q \<noteq> 0" using held_not_null [OF g(1)] g(3) by blast
  have "count B q = 0" using g(2) assms(1) by (auto simp: holds_def sys_ok_def count_eq_zero_iff)
  then show ?thesis using g assms(1) Some q by (auto simp: holds_def sys_ok_def)
qed

lemma holds_not_null: "holds own files R (add_mset p B) M (h, w) \<Longrightarrow> p \<noteq> 0"
  using held_not_null [of h p] by (auto simp: holds_def sys_ok_def)

lemma holds_free:
  assumes "holds own files R (add_mset p B) M (h, w)"
  shows "\<exists>h'. rt_free p h = Some h' \<and> holds own files R B M (h', w)"
proof -
  have h: "heap_ready h" "p \<in> heap_held h" using assms by (auto simp: holds_def sys_ok_def)
  obtain h' where h': "rt_free p h = Some h'" "heap_ready h'" "heap_held h' = heap_held h - {p}"
    using heap_put_held [OF h] by blast
  have c: "count (add_mset p B) x \<le> 1" for x using assms by (simp add: holds_def)
  have "count B p = 0" "\<forall>x. count B x \<le> 1" using c [of p] c by (simp, metis count_add_mset le_SucI le_trans order_refl)
  then show ?thesis using assms h' by (auto simp: holds_def sys_ok_def count_eq_zero_iff)
qed


text \<open>The blocks of the layer, slot by slot, and the open files; the descriptors in \<open>X\<close> are not open yet.\<close>

definition str_blocks :: "cstr option \<Rightarrow> u32 multiset" where
  "str_blocks x = (case x of None \<Rightarrow> {#} | Some (p, _) \<Rightarrow> {#p#})"

definition slot_blocks :: "(u32 \<Rightarrow> dfs_fd option) \<Rightarrow> u32 \<Rightarrow> u32 multiset" where
  "slot_blocks m p = (if p = 0 then {#} else add_mset p (case m p of None \<Rightarrow> {#} | Some d \<Rightarrow> str_blocks (fd_path d)))"

definition slot_keys :: "(u32 \<Rightarrow> dfs_fd option) \<Rightarrow> u32 set \<Rightarrow> u32 \<Rightarrow> file_key multiset" where
  "slot_keys m X p = (if p = 0 \<or> p \<in> X then {#} else case m p of None \<Rightarrow> {#} | Some d \<Rightarrow> {#fkey d#})"

definition mount_blocks :: "dfs_filesystem list \<Rightarrow> u32 multiset" where
  "mount_blocks t = sum_list (map (\<lambda>m. str_blocks (mnt_path m)) t)"

definition dfs_blocks :: "'w dfs \<Rightarrow> u32 multiset" where
  "dfs_blocks s = (if fds_block s = 0 then {#} else {#fds_block s#}) +
     sum_list (map (slot_blocks (fd_mem s)) (fds s)) + mount_blocks (filesystem_table s)"

definition dfs_files :: "u32 set \<Rightarrow> 'w dfs \<Rightarrow> file_key multiset" where
  "dfs_files X s = sum_list (map (slot_keys (fd_mem s) X) (fds s))"

definition fd_ok :: "u32 set \<Rightarrow> (u32 \<Rightarrow> dfs_fd option) \<Rightarrow> u32 \<Rightarrow> bool" where
  "fd_ok X m p \<longleftrightarrow> (\<exists>d. m p = Some d \<and> fd_magic d = DFS_FD_MAGIC \<and> fd_ref d = 1 \<and> (p \<notin> X \<longrightarrow> fd_fops d \<noteq> None))"

definition dfs_wf :: "u32 set \<Rightarrow> 'w dfs \<Rightarrow> bool" where
  "dfs_wf X s \<longleftrightarrow> length (fds s) \<le> DFS_FD_MAX \<and> (fds s = [] \<longleftrightarrow> fds_block s = 0) \<and>
     (\<forall>p \<in> set (fds s). p \<noteq> 0 \<longrightarrow> fd_ok X (fd_mem s) p) \<and>
     length (filesystem_table s) = DFS_FILESYSTEMS_MAX \<and>
     (\<forall>m \<in> set (filesystem_table s). mnt_path m = None \<longleftrightarrow> mnt_ops m = None) \<and>
     working_directory s \<noteq> [] \<and> hd (working_directory s) = SLASH \<and> 0 \<notin> set (working_directory s)"

definition dfs_inv :: "('w \<Rightarrow> u32 set) \<Rightarrow> (file_key multiset \<Rightarrow> 'w \<Rightarrow> bool) \<Rightarrow> u32 set \<Rightarrow> file_key multiset \<Rightarrow> u32 set \<Rightarrow>
    'w dfs \<Rightarrow> bool" where
  "dfs_inv own files R N X s \<longleftrightarrow> dfs_wf X s \<and> holds own files R (dfs_blocks s) (N + dfs_files X s) (dheap s, world s)"

text \<open>One slot and the others.\<close>

definition without :: "nat \<Rightarrow> 'w dfs \<Rightarrow> 'w dfs" where
  "without i s = s\<lparr>fds := (fds s)[i := 0]\<rparr>"

lemma sum_list_nth:
  "i < length xs \<Longrightarrow> f y = {#} \<Longrightarrow> sum_list (map f xs) = f (xs ! i) + sum_list (map f (xs[i := y]))"
proof -
  assume i: "i < length xs" and y: "f y = {#}"
  have "sum_list (map f xs) = sum_list (map f (take i xs @ xs ! i # drop (Suc i) xs))" using i by (simp flip: id_take_nth_drop)
  then show ?thesis using i y by (simp add: upd_conv_take_nth_drop)
qed

lemma blocks_without: "i < length (fds s) \<Longrightarrow> dfs_blocks s = slot_blocks (fd_mem s) (fds s ! i) + dfs_blocks (without i s)"
  using sum_list_nth [of i "fds s" "slot_blocks (fd_mem s)" 0] by (simp add: dfs_blocks_def without_def slot_blocks_def)

lemma files_without: "i < length (fds s) \<Longrightarrow> dfs_files X s = slot_keys (fd_mem s) X (fds s ! i) + dfs_files X (without i s)"
  using sum_list_nth [of i "fds s" "slot_keys (fd_mem s) X" 0] by (simp add: dfs_files_def without_def slot_keys_def)

lemma slots_in_blocks: "p \<in> set (fds s) \<Longrightarrow> p \<noteq> 0 \<Longrightarrow> p \<in># dfs_blocks s"
  by (auto simp: dfs_blocks_def slot_blocks_def in_set_conv_decomp)

lemma slot_once:
  assumes "holds own files R (dfs_blocks s) M hw" "i < length (fds s)" "fds s ! i \<noteq> 0"
  shows "fds s ! i \<notin> set (fds (without i s))"
proof
  let ?p = "fds s ! i"
  assume "?p \<in> set (fds (without i s))"
  then have "?p \<in># dfs_blocks (without i s)" using slots_in_blocks assms(3) by blast
  then have "1 < count (dfs_blocks s) ?p"
    using blocks_without [OF assms(2)] assms(3) by (simp add: slot_blocks_def flip: count_greater_zero_iff)
  then show False using assms(1) by (simp add: holds_def) (metis not_less)
qed

lemma slots_cong:
  assumes "\<And>q. q \<in> set (fds s) \<Longrightarrow> q \<noteq> 0 \<Longrightarrow> m q = fd_mem s q"
  shows "dfs_blocks (s\<lparr>fd_mem := m\<rparr>) = dfs_blocks s" "dfs_files X (s\<lparr>fd_mem := m\<rparr>) = dfs_files X s"
proof -
  have "map (slot_blocks m) (fds s) = map (slot_blocks (fd_mem s)) (fds s)"
    "map (slot_keys m X) (fds s) = map (slot_keys (fd_mem s) X) (fds s)"
    using assms by (auto simp: slot_blocks_def slot_keys_def)
  then show "dfs_blocks (s\<lparr>fd_mem := m\<rparr>) = dfs_blocks s" "dfs_files X (s\<lparr>fd_mem := m\<rparr>) = dfs_files X s"
    by (simp_all add: dfs_blocks_def dfs_files_def del: map_eq_conv)
qed

lemma without_sel [simp]:
  "fd_mem (without i s) = fd_mem s" "fds_block (without i s) = fds_block s" "filesystem_table (without i s) = filesystem_table s"
  "length (fds (without i s)) = length (fds s)" "without i (s\<lparr>fd_mem := m\<rparr>) = (without i s)\<lparr>fd_mem := m\<rparr>"
  by (simp_all add: without_def)

lemma upd_slot:
  assumes "i < length (fds s)" "fds s ! i = p" "p \<noteq> 0" "p \<notin> set (fds (without i s))"
  shows "dfs_blocks (upd_fd p d s) = add_mset p (str_blocks (fd_path d)) + dfs_blocks (without i s)"
    "dfs_files X (upd_fd p d s) = (if p \<in> X then {#} else {#fkey d#}) + dfs_files X (without i s)"
proof -
  have i: "i < length (fds (upd_fd p d s))" "fds (upd_fd p d s) ! i = p" "fd_mem (upd_fd p d s) p = Some d"
    using assms(1,2) by (simp_all add: upd_fd_def)
  have a: "\<And>q. q \<in> set (fds (without i s)) \<Longrightarrow> q \<noteq> 0 \<Longrightarrow> ((fd_mem s)(p \<mapsto> d)) q = fd_mem (without i s) q"
    using assms(4) by auto
  have w: "dfs_blocks (without i (upd_fd p d s)) = dfs_blocks (without i s)"
    "dfs_files X (without i (upd_fd p d s)) = dfs_files X (without i s)" for X
    using slots_cong [of "without i s", OF a] unfolding upd_fd_def without_sel by blast+
  show "dfs_blocks (upd_fd p d s) = add_mset p (str_blocks (fd_path d)) + dfs_blocks (without i s)"
    using blocks_without [OF i(1)] i(2,3) assms(3) w by (simp add: slot_blocks_def)
  show "dfs_files X (upd_fd p d s) = (if p \<in> X then {#} else {#fkey d#}) + dfs_files X (without i s)"
    using files_without [OF i(1)] i(2,3) assms(3) w by (simp add: slot_keys_def)
qed


section \<open>References to a descriptor\<close>

lemma upd_fd_sel [simp]:
  "fds (upd_fd p d s) = fds s" "fds_block (upd_fd p d s) = fds_block s" "filesystem_table (upd_fd p d s) = filesystem_table s"
  "fd_mem (upd_fd p d s) = (fd_mem s)(p \<mapsto> d)" "working_directory (upd_fd p d s) = working_directory s"
  "fslock (upd_fd p d s) = fslock s" "dheap (upd_fd p d s) = dheap s" "world (upd_fd p d s) = world s" "std_fd (upd_fd p d s) = std_fd s"
  by (simp_all add: upd_fd_def)

lemma upd_fd_twice [simp]: "upd_fd p d (upd_fd p d' s) = upd_fd p d s"
  by (simp add: upd_fd_def)

lemma upd_fd_same: "fd_mem s p = Some d \<Longrightarrow> upd_fd p d s = s"
  by (simp add: upd_fd_def fun_upd_idem)

lemma lock_unlock [simp]: "dfs_unlock (dfs_lock s) = s" "dfs_unlock (upd_fd p d (dfs_lock s)) = upd_fd p d s"
  by (simp_all add: dfs_lock_def dfs_unlock_def upd_fd_def)

lemma lock_sel [simp]: "fds (dfs_lock s) = fds s" "fd_mem (dfs_lock s) = fd_mem s" "dheap (dfs_lock s) = dheap s"
  "world (dfs_lock s) = world s" "fds_block (dfs_lock s) = fds_block s"
  by (simp_all add: dfs_lock_def)

text \<open>The slot a number stands for.\<close>

definition fd_slot :: "int \<Rightarrow> 'w dfs \<Rightarrow> nat option" where
  "fd_slot fd s =
     (let fd = (if 0 \<le> fd \<and> fd \<le> 2 then std_fd s else fd) - DFS_FD_OFFSET in
      if 0 \<le> fd \<and> fd < int (length (fds s)) \<and> fds s ! nat fd \<noteq> 0 then Some (nat fd) else None)"

lemma fd_slot_some: "fd_slot fd s = Some i \<Longrightarrow> i < length (fds s) \<and> fds s ! i \<noteq> 0"
  by (auto simp: fd_slot_def Let_def split: if_splits)

lemma wf_slot:
  assumes "dfs_wf X s" "i < length (fds s)" "fds s ! i \<noteq> 0"
  obtains d where "fd_mem s (fds s ! i) = Some d" "fd_magic d = DFS_FD_MAGIC" "fd_ref d = 1"
    "fds s ! i \<notin> X \<Longrightarrow> fd_fops d \<noteq> None"
  using assms unfolding dfs_wf_def fd_ok_def by (metis nth_mem)

lemma fd_get_eq:
  assumes "dfs_wf X s"
  shows "fd_get fd s = Some (case fd_slot fd s of
      None \<Rightarrow> (None, s)
    | Some i \<Rightarrow> (Some (fds s ! i), upd_fd (fds s ! i) ((the (fd_mem s (fds s ! i)))\<lparr>fd_ref := 2\<rparr>) s))"
proof (cases "fd_slot fd s")
  case None
  then show ?thesis by (auto simp: fd_get_def fd_slot_def Let_def split: if_splits)
next
  case (Some i)
  note i = fd_slot_some [OF Some]
  obtain d where d: "fd_mem s (fds s ! i) = Some d" "fd_magic d = DFS_FD_MAGIC" "fd_ref d = 1"
    by (rule wf_slot [OF assms conjunct1 [OF i] conjunct2 [OF i]]) (rule that)
  define fd' where "fd' = (if 0 \<le> fd \<and> fd \<le> 2 then std_fd s else fd) - 3"
  have f: "\<not> (fd' < 0 \<or> fd' \<ge> int (length (fds s)))" "nat fd' = i"
    using Some by (auto simp: fd_slot_def Let_def fd'_def split: if_splits)
  show ?thesis unfolding fd_get_def Let_def fd'_def [symmetric] using Some i d f by simp
qed

lemma fd_put_keeps: "fd_mem s p = Some d \<Longrightarrow> fd_ref d = 2 \<Longrightarrow> fd_put (Some p) s = Some (upd_fd p (d\<lparr>fd_ref := 1\<rparr>) s)"
  by (simp add: fd_put_def Let_def)

lemma first_slot:
  assumes "i < length xs" "xs ! i = p" "p \<notin> set (xs[i := z])"
  shows "length (takeWhile (\<lambda>q. q \<noteq> p) xs) = i"
proof -
  have "p \<notin> set (take i xs)" using assms(1,3) by (simp add: upd_conv_take_nth_drop)
  then have "takeWhile (\<lambda>q. q \<noteq> p) (take i xs @ p # drop (Suc i) xs) = take i xs" by (subst takeWhile_append2) auto
  moreover have "take i xs @ p # drop (Suc i) xs = xs" using id_take_nth_drop [OF assms(1)] assms(2) by simp
  ultimately have "takeWhile (\<lambda>q. q \<noteq> p) xs = take i xs" by simp
  then show ?thesis using assms(1) by simp
qed

lemma fd_put_last:
  assumes i: "i < length (fds s)" "fds s ! i = p" "p \<notin> set (fds (without i s))" and d: "fd_mem s p = Some d" "fd_ref d = 1"
    and f: "rt_free p (dheap s) = Some h"
  shows "fd_put (Some p) s = Some (s\<lparr>fds := (fds s)[i := 0], fd_mem := (fd_mem s)(p := None), dheap := h\<rparr>)"
proof -
  have "length (takeWhile (\<lambda>q. q \<noteq> p) (fds s)) = i" using first_slot [OF i(1,2)] i(3) by (simp add: without_def)
  then show ?thesis using i(1) d f by (simp add: fd_put_def Let_def dfs_free_def dfs_lock_def dfs_unlock_def upd_fd_def)
qed

text \<open>Changing one descriptor, and what the drivers keep, at once.\<close>

lemma inv_slot:
  assumes "dfs_inv own files R N X s" "i < length (fds s)" "fds s ! i = p" "p \<noteq> 0"
  obtains d where "fd_mem s p = Some d" "fd_magic d = DFS_FD_MAGIC" "fd_ref d = 1" "p \<notin> X \<Longrightarrow> fd_fops d \<noteq> None"
    "p \<notin> set (fds (without i s))"
    "holds own files R (add_mset p (str_blocks (fd_path d) + dfs_blocks (without i s)))
       (N + ((if p \<in> X then {#} else {#fkey d#}) + dfs_files X (without i s))) (dheap s, world s)"
proof -
  have wf: "dfs_wf X s" and h: "holds own files R (dfs_blocks s) (N + dfs_files X s) (dheap s, world s)"
    using assms(1) by (simp_all add: dfs_inv_def)
  obtain d where d: "fd_mem s p = Some d" "fd_magic d = DFS_FD_MAGIC" "fd_ref d = 1" "p \<notin> X \<Longrightarrow> fd_fops d \<noteq> None"
    using wf_slot [OF wf assms(2)] assms(3,4) by blast
  have once: "p \<notin> set (fds (without i s))" using slot_once [OF h assms(2)] assms(3,4) by simp
  note u = upd_slot [OF assms(2,3,4) once, where d = d, unfolded upd_fd_same [OF d(1)]]
  show thesis using that [OF d once] h u by simp
qed

lemma inv_upd:
  assumes wf: "dfs_wf X s" and i: "i < length (fds s)" "fds s ! i = p" "p \<noteq> 0" "p \<notin> set (fds (without i s))"
    and d: "fd_magic d = DFS_FD_MAGIC" "fd_ref d = 1" "p \<notin> X' \<Longrightarrow> fd_fops d \<noteq> None"
    and X: "X' = X \<or> X' = X - {p}"
    and h: "holds own files R (add_mset p (str_blocks (fd_path d) + dfs_blocks (without i s)))
       (N + ((if p \<in> X' then {#} else {#fkey d#}) + dfs_files X (without i s))) (h, w)"
  shows "dfs_inv own files R N X' (upd_fd p d (s\<lparr>dheap := h, world := w\<rparr>))"
proof -
  let ?s = "s\<lparr>dheap := h, world := w\<rparr>"
  have x: "dfs_files X' (without i s) = dfs_files X (without i s)"
  proof -
    have "slot_keys (fd_mem s) X' q = slot_keys (fd_mem s) X q" if "q \<in> set (fds (without i s))" for q
      using X i(4) that by (auto simp: slot_keys_def)
    then have "map (slot_keys (fd_mem s) X') (fds (without i s)) = map (slot_keys (fd_mem s) X) (fds (without i s))" by simp
    then show ?thesis unfolding dfs_files_def without_sel by (rule arg_cong)
  qed
  have w: "dfs_blocks (without i ?s) = dfs_blocks (without i s)" "dfs_files X' (without i ?s) = dfs_files X' (without i s)"
    by (simp_all add: dfs_blocks_def dfs_files_def without_def)
  have "p \<notin> set (fds (without i ?s))" using i(4) by (simp add: without_def)
  then have "dfs_blocks (upd_fd p d ?s) = add_mset p (str_blocks (fd_path d)) + dfs_blocks (without i s)"
    "dfs_files X' (upd_fd p d ?s) = (if p \<in> X' then {#} else {#fkey d#}) + dfs_files X (without i s)"
    using upd_slot [of i ?s p] i(1-3) w x by simp_all
  moreover have "fd_ok X' ((fd_mem s)(p \<mapsto> d)) q" if "q \<in> set (fds s)" "q \<noteq> 0" for q
    using wf that d X unfolding dfs_wf_def fd_ok_def by (cases "q = p") auto
  then have "dfs_wf X' (upd_fd p d ?s)" using wf by (simp add: dfs_wf_def)
  ultimately show ?thesis using h by (simp add: dfs_inv_def ac_simps)
qed


section \<open>Calls on an open file\<close>

text \<open>What an operation of the file layer does to the state is what its driver does.\<close>

definition op_result :: "(u32 set \<Rightarrow> file_key multiset \<Rightarrow> heap \<times> 'w \<Rightarrow> bool) \<Rightarrow> u32 set \<Rightarrow> file_key multiset \<Rightarrow> dfs_fd \<Rightarrow> 'w dfs \<Rightarrow>
    ('r \<times> dfs_fd \<times> 'w dfs) option \<Rightarrow> bool" where
  "op_result ok B M d s x \<longleftrightarrow> (\<exists>r d' h w. x = Some (r, d', s\<lparr>dheap := h, world := w\<rparr>) \<and> same_fd d d' \<and> fkey d' = fkey d \<and>
     ok B M (h, w))"

definition fd_op_ok :: "(u32 set \<Rightarrow> file_key multiset \<Rightarrow> heap \<times> 'w \<Rightarrow> bool) \<Rightarrow> (u16 \<Rightarrow> bool) \<Rightarrow>
    (dfs_fd \<Rightarrow> 'w dfs \<Rightarrow> ('r \<times> dfs_fd \<times> 'w dfs) option) \<Rightarrow> bool" where
  "fd_op_ok ok P f \<longleftrightarrow> (\<forall>B M d s k. ok B M (dheap s, world s) \<and> fkey d \<in># M \<and> fd_fops d = Some k \<and> P (fd_type d) \<longrightarrow>
     op_result ok B M d s (f d s))"

lemma fd_op_okI:
  assumes "\<And>B M d s k. ok B M (dheap s, world s) \<Longrightarrow> fkey d \<in># M \<Longrightarrow> fd_fops d = Some k \<Longrightarrow> P (fd_type d) \<Longrightarrow>
     op_result ok B M d s (f d s)"
  shows "fd_op_ok ok P f"
  using assms unfolding fd_op_ok_def by blast

lemma same_fd_refl [simp]: "same_fd d d"
  by (simp add: same_fd_def)

text \<open>A branch that only changes the flags, the position or the size, and one that calls the driver and
  then does so.\<close>

lemma op_local: "ok B M (dheap s, world s) \<Longrightarrow> same_fd d d' \<Longrightarrow> fkey d' = fkey d \<Longrightarrow> op_result ok B M d s (Some (r, d', s))"
  unfolding op_result_def by (intro exI [of _ r] exI [of _ d'] exI [of _ "dheap s"] exI [of _ "world s"]) simp

lemma op_call:
  assumes "fd_call_ok ok P f" "ok B M (dheap s, world s)" "fkey d \<in># M" "P (fd_type d)"
    and g: "\<And>r d' s'. same_fd d' (snd (g r d')) \<and> fkey (snd (g r d')) = fkey d'"
  shows "op_result ok B M d s (do { (r, d, s) \<leftarrow> call_fd f d s; Some (fst (g r d), snd (g r d), s) })"
proof -
  obtain r d' h w where "f d (dheap s, world s) = Some (r, d', h, w)" "same_fd d d'" "fkey d' = fkey d" "ok B M (h, w)"
    using assms(1-4) unfolding fd_call_ok_def by fastforce
  then show ?thesis using g [where d' = d' and r = r]
    by (auto simp: call_fd_def op_result_def same_fd_def intro!: exI [of _ h] exI [of _ w])
qed

lemma op_call_only:
  assumes "fd_call_ok ok P f" "ok B M (dheap s, world s)" "fkey d \<in># M" "P (fd_type d)"
  shows "op_result ok B M d s (call_fd f d s)"
  using op_call [OF assms, where g = Pair] by (simp add: split_beta)

context file_system
begin

abbreviation (input) "ok \<equiv> sys_ok own files"

lemma op_error: "ok B M (dheap s, world s) \<Longrightarrow> op_result ok B M d s (Some (r, d, s))"
  by (rule op_local) simp_all

lemma op_flags: "ok B M (dheap s, world s) \<Longrightarrow> op_result ok B M d s (Some (r, d\<lparr>fd_flags := v\<rparr>, s))"
  by (rule op_local) (simp_all add: same_fd_def fkey_def)

lemma file_read_ok: "fd_op_ok ok (\<lambda>_. True) (file_read C len)"
proof (rule fd_op_okI)
  fix B M d k and s :: "'w dfs"
  assume a: "ok B M (dheap s, world s)" "fkey d \<in># M" "fd_fops d = Some k"
  show "op_result ok B M d s (file_read C len d s)"
  proof (cases "fo_read (file_ops_at C k)")
    case (Some f)
    have "op_result ok B M d s (do { (r, d, s) \<leftarrow> call_fd (f len) d s;
        Some (fst (r, (if fst r < 0 then d\<lparr>fd_flags := fd_flags d OR DFS_F_EOF\<rparr> else d)),
              snd (r, (if fst r < 0 then d\<lparr>fd_flags := fd_flags d OR DFS_F_EOF\<rparr> else d)), s) })"
      by (rule op_call [OF law_read [OF Some, of len] a(1,2), where g = "\<lambda>r d. (r, if fst r < 0 then d\<lparr>fd_flags := fd_flags d OR DFS_F_EOF\<rparr> else d)"])
        (simp_all add: same_fd_def fkey_def)
    then show ?thesis using Some a(3) by (simp add: file_read_def case_prod_unfold)
  qed (use op_error [OF a(1)] a(3) in \<open>simp add: file_read_def\<close>)
qed

lemma file_write_ok: "fd_op_ok ok (\<lambda>_. True) (file_write C buf)"
proof (rule fd_op_okI)
  fix B M d k and s :: "'w dfs"
  assume a: "ok B M (dheap s, world s)" "fkey d \<in># M" "fd_fops d = Some k"
  show "op_result ok B M d s (file_write C buf d s)"
    using op_error [OF a(1)] op_call_only [OF law_write a(1,2)] a(3)
    by (cases "fo_write (file_ops_at C k)") (simp_all add: file_write_def)
qed

lemma file_flush_ok: "fd_op_ok ok (\<lambda>t. t = FT_REGULAR) (file_flush C)"
proof (rule fd_op_okI)
  fix B M d k and s :: "'w dfs"
  assume a: "ok B M (dheap s, world s)" "fkey d \<in># M" "fd_fops d = Some k" "fd_type d = FT_REGULAR"
  show "op_result ok B M d s (file_flush C d s)"
    using op_error [OF a(1)] op_call_only [OF law_flush a(1,2), where k1 = k] a(3,4)
    by (cases "fo_flush (file_ops_at C k)") (simp_all add: file_flush_def)
qed

lemma file_lseek_ok: "fd_op_ok ok (\<lambda>_. True) (file_lseek C off)"
proof (rule fd_op_okI)
  fix B M d k and s :: "'w dfs"
  assume a: "ok B M (dheap s, world s)" "fkey d \<in># M" "fd_fops d = Some k"
  show "op_result ok B M d s (file_lseek C off d s)"
  proof (cases "fo_lseek (file_ops_at C k)")
    case (Some f)
    show ?thesis
      using op_call [OF law_lseek [OF Some, of off] a(1,2), where g = "\<lambda>r d. (r, if r \<ge> 0 then d\<lparr>fd_pos := word_of_int r\<rparr> else d)"]
        Some a(3) by (simp add: file_lseek_def split_beta same_fd_def fkey_def)
  qed (use op_error [OF a(1)] a(3) in \<open>simp add: file_lseek_def\<close>)
qed

lemma file_ioctl_ok: "cmd \<noteq> 0x52540000 \<Longrightarrow> fd_op_ok ok (\<lambda>_. True) (file_ioctl C cmd arg)"
proof (rule fd_op_okI)
  fix B M d k and s :: "'w dfs"
  assume a: "ok B M (dheap s, world s)" "fkey d \<in># M" "fd_fops d = Some k" "cmd \<noteq> 0x52540000"
  let ?plain = "fd_type d = FT_REGULAR \<or> fd_type d = FT_DEVICE"
  show "op_result ok B M d s (file_ioctl C cmd arg d s)"
  proof (cases "?plain \<and> (cmd = 3 \<or> cmd = 4)")
    case True
    then show ?thesis using op_error [OF a(1)] op_flags [OF a(1)] by (auto simp: file_ioctl_def Let_def)
  next
    case False
    then have n: "\<not> (?plain \<and> cmd = 3)" "\<not> (?plain \<and> cmd = 4)" by blast+
    show ?thesis
      using op_error [OF a(1)] op_call_only [OF law_ioctl a(1,2)] a(3,4)
      unfolding file_ioctl_def if_not_P [OF n(1)] if_not_P [OF n(2)]
      by (cases "fo_ioctl (file_ops_at C k)") simp_all
  qed
qed

lemma file_ftruncate_ok: "fd_op_ok ok (\<lambda>_. True) (file_ftruncate C len)"
proof (rule fd_op_okI)
  fix B M d k and s :: "'w dfs"
  assume a: "ok B M (dheap s, world s)" "fkey d \<in># M" "fd_fops d = Some k"
  show "op_result ok B M d s (file_ftruncate C len d s)"
  proof (cases "fd_type d \<noteq> FT_REGULAR \<or> sint len < 0 \<or> fo_ioctl (file_ops_at C k) = None")
    case True
    then show ?thesis using op_error [OF a(1)] a(3) by (auto simp: file_ftruncate_def)
  next
    case False
    then obtain f where f: "fo_ioctl (file_ops_at C k) = Some f" "fd_type d = FT_REGULAR" "\<not> sint len < 0" by blast
    show ?thesis
      using op_call [OF law_truncate [OF f(1), of len] a(1,2) f(2), where g = "\<lambda>r d. (r, if r = 0 then d\<lparr>fd_size := len\<rparr> else d)"]
        f a(3) by (simp add: file_ftruncate_def split_beta same_fd_def fkey_def)
  qed
qed

lemma file_getdents_ok: "fd_op_ok ok (\<lambda>_. True) (file_getdents C n)"
proof (rule fd_op_okI)
  fix B M d k and s :: "'w dfs"
  assume a: "ok B M (dheap s, world s)" "fkey d \<in># M" "fd_fops d = Some k"
  show "op_result ok B M d s (file_getdents C n d s)"
    using op_error [OF a(1)] op_call_only [OF law_getdents a(1,2)] a(3)
    by (cases "fo_getdents (file_ops_at C k)"; cases "fd_type d = FT_DIRECTORY") (simp_all add: file_getdents_def)
qed

end


text \<open>A call that returns, keeps the invariant and leaves the table, the mounts and the lock as they are.\<close>

definition call_keeps :: "('w \<Rightarrow> u32 set) \<Rightarrow> (file_key multiset \<Rightarrow> 'w \<Rightarrow> bool) \<Rightarrow> u32 set \<Rightarrow> file_key multiset \<Rightarrow> 'w dfs \<Rightarrow>
    ('r \<times> 'w dfs) option \<Rightarrow> bool" where
  "call_keeps own files R N s x \<longleftrightarrow> (\<exists>r s'. x = Some (r, s') \<and> dfs_inv own files R N {} s' \<and> fds s' = fds s \<and>
     fslock s' = fslock s \<and> filesystem_table s' = filesystem_table s \<and> working_directory s' = working_directory s)"

lemma errno_sel [simp]:
  "fds (set_dfs_errno e s) = fds s" "fds_block (set_dfs_errno e s) = fds_block s" "fd_mem (set_dfs_errno e s) = fd_mem s"
  "filesystem_table (set_dfs_errno e s) = filesystem_table s" "working_directory (set_dfs_errno e s) = working_directory s"
  "fslock (set_dfs_errno e s) = fslock s" "dheap (set_dfs_errno e s) = dheap s" "world (set_dfs_errno e s) = world s"
  "std_fd (set_dfs_errno e s) = std_fd s" "err_no (set_dfs_errno e s) = e"
  by (simp_all add: set_dfs_errno_def)

lemma inv_cong:
  assumes "fds s' = fds s" "fds_block s' = fds_block s" "fd_mem s' = fd_mem s" "filesystem_table s' = filesystem_table s"
    "working_directory s' = working_directory s" "dheap s' = dheap s" "world s' = world s"
  shows "dfs_inv own files R N X s' = dfs_inv own files R N X s"
  using assms by (simp add: dfs_inv_def dfs_wf_def dfs_blocks_def dfs_files_def)

lemma inv_errno [simp]: "dfs_inv own files R N X (set_dfs_errno e s) = dfs_inv own files R N X s"
  by (rule inv_cong) simp_all

lemma inv_wf: "dfs_inv own files R N X s \<Longrightarrow> dfs_wf X s"
  by (simp add: dfs_inv_def)

lemma call_keepsI:
  "dfs_inv own files R N {} s' \<Longrightarrow> fds s' = fds s \<Longrightarrow> fslock s' = fslock s \<Longrightarrow> filesystem_table s' = filesystem_table s \<Longrightarrow>
   working_directory s' = working_directory s \<Longrightarrow> call_keeps own files R N s (Some (r, s'))"
  by (simp add: call_keeps_def)

text \<open>A call through a number: the descriptor is referred to twice while its driver runs.\<close>

lemma with_fd:
  assumes inv: "dfs_inv own files R N {} s" and slot: "fd_slot fd s = Some i"
    and op: "fd_op_ok (sys_ok own files) P f" and P: "P (fd_type (the (fd_mem s (fds s ! i))))"
  obtains r d d' h w where "fd_mem s (fds s ! i) = Some d" "same_fd d d'"
    "fd_get fd s = Some (Some (fds s ! i), upd_fd (fds s ! i) (d\<lparr>fd_ref := 2\<rparr>) s)"
    "fd_put (Some (fds s ! i)) (upd_fd (fds s ! i) (d\<lparr>fd_ref := 2\<rparr>) s) = Some s"
    "at_fd e (Some (fds s ! i)) f err (upd_fd (fds s ! i) (d\<lparr>fd_ref := 2\<rparr>) s) =
       Some (r, upd_fd (fds s ! i) (d'\<lparr>fd_ref := 2\<rparr>) (s\<lparr>dheap := h, world := w\<rparr>))"
    "fd_put (Some (fds s ! i)) (upd_fd (fds s ! i) (d'\<lparr>fd_ref := 2\<rparr>) (s\<lparr>dheap := h, world := w\<rparr>)) =
       Some (upd_fd (fds s ! i) d' (s\<lparr>dheap := h, world := w\<rparr>))"
    "dfs_inv own files R N {} (upd_fd (fds s ! i) d' (s\<lparr>dheap := h, world := w\<rparr>))"
proof -
  let ?p = "fds s ! i"
  have i: "i < length (fds s)" "?p \<noteq> 0" using fd_slot_some [OF slot] by simp_all
  obtain d where d: "fd_mem s ?p = Some d" "fd_magic d = DFS_FD_MAGIC" "fd_ref d = 1" "fd_fops d \<noteq> None"
      "?p \<notin> set (fds (without i s))"
      "holds own files R (add_mset ?p (str_blocks (fd_path d) + dfs_blocks (without i s)))
         (N + ({#fkey d#} + dfs_files {} (without i s))) (dheap s, world s)"
    by (rule inv_slot [OF inv i(1) refl i(2)]) simp
  let ?d = "d\<lparr>fd_ref := 2\<rparr>" and ?s = "upd_fd ?p (d\<lparr>fd_ref := 2\<rparr>) s"
  let ?B = "add_mset ?p (str_blocks (fd_path d) + dfs_blocks (without i s))"
  let ?M = "N + ({#fkey d#} + dfs_files {} (without i s))"
  have "sys_ok own files (R \<union> set_mset ?B) ?M (dheap ?s, world ?s)" using d(6) by (simp add: holds_def)
  moreover have "fkey ?d \<in># ?M" by (simp add: fkey_def)
  ultimately have "op_result (sys_ok own files) (R \<union> set_mset ?B) ?M ?d ?s (f ?d ?s)"
    using op d(1,4) P unfolding fd_op_ok_def by fastforce
  then obtain r d2 h w where f: "f ?d ?s = Some (r, d2, ?s\<lparr>dheap := h, world := w\<rparr>)" "same_fd ?d d2" "fkey d2 = fkey ?d"
      "sys_ok own files (R \<union> set_mset ?B) ?M (h, w)"
    unfolding op_result_def by blast
  define d' where "d' = d2\<lparr>fd_ref := 1\<rparr>"
  have d2: "d2 = d'\<lparr>fd_ref := 2\<rparr>" using f(2) by (simp add: d'_def same_fd_def)
  have d': "same_fd d d'" "fkey d' = fkey d" "fd_ref d' = 1"
    using f(2,3) d(3) by (simp_all add: d'_def same_fd_def fkey_def)
  have upd: "upd_fd ?p d2 (?s\<lparr>dheap := h, world := w\<rparr>) = upd_fd ?p d2 (s\<lparr>dheap := h, world := w\<rparr>)"
    by (simp add: upd_fd_def)
  have "at_fd e (Some ?p) f err ?s = Some (r, upd_fd ?p d2 (s\<lparr>dheap := h, world := w\<rparr>))"
    using f(1) upd by (simp add: at_fd_def)
  moreover have "fd_get fd s = Some (Some ?p, ?s)" using fd_get_eq [OF inv_wf [OF inv], of fd] slot d(1) by simp
  moreover have "fd_put (Some ?p) (upd_fd ?p d2 (s\<lparr>dheap := h, world := w\<rparr>)) = Some (upd_fd ?p d' (s\<lparr>dheap := h, world := w\<rparr>))"
    using f(2) fd_put_keeps [of "upd_fd ?p d2 (s\<lparr>dheap := h, world := w\<rparr>)" ?p d2] by (simp add: d'_def same_fd_def)
  moreover have "holds own files R (add_mset ?p (str_blocks (fd_path d') + dfs_blocks (without i s)))
      (N + ({#fkey d'#} + dfs_files {} (without i s))) (h, w)"
    using d(6) f(4) d'(1,2) by (simp add: holds_def same_fd_def)
  then have "dfs_inv own files R N {} (upd_fd ?p d' (s\<lparr>dheap := h, world := w\<rparr>))"
    using d' d(2,4) by (intro inv_upd [OF inv_wf [OF inv] i(1) refl i(2) d(5)]) (auto simp: same_fd_def fkey_def)
  moreover have "d\<lparr>fd_ref := 1\<rparr> = d" using d(3) by simp
  then have "fd_put (Some ?p) ?s = Some s" using fd_put_keeps [of ?s ?p ?d] upd_fd_same [OF d(1)] by simp
  ultimately show thesis using that d(1) d'(1) d2 by simp
qed


context file_system
begin

text \<open>The calls on a descriptor: an invalid number is an error, a valid one is passed to the driver.\<close>

lemma slot_none: "dfs_inv own files R N {} s \<Longrightarrow> fd_slot fd s = None \<Longrightarrow> fd_get fd s = Some (None, s)"
  using fd_get_eq [OF inv_wf] by fastforce

lemma read_keeps: "dfs_inv own files R N {} s \<Longrightarrow> call_keeps own files R N s (posix_read C fd len s)"
proof (cases "fd_slot fd s")
  case (Some i)
  assume inv: "dfs_inv own files R N {} s"
  show ?thesis
    by (rule with_fd [OF inv Some file_read_ok [of len], of EINVAL "\<lambda>e. (e, [])"])
      (auto simp: posix_read_def dfs_file_read_def intro!: call_keepsI)
qed (simp add: posix_read_def slot_none call_keepsI)

lemma write_keeps: "dfs_inv own files R N {} s \<Longrightarrow> call_keeps own files R N s (posix_write C fd buf s)"
proof (cases "fd_slot fd s")
  case (Some i)
  assume inv: "dfs_inv own files R N {} s"
  show ?thesis
    by (rule with_fd [OF inv Some file_write_ok [of buf], of EINVAL id])
      (auto simp: posix_write_def dfs_file_write_def intro!: call_keepsI)
qed (simp add: posix_write_def slot_none call_keepsI)

lemma fcntl_keeps:
  "dfs_inv own files R N {} s \<Longrightarrow> cmd \<noteq> 0x52540000 \<Longrightarrow> call_keeps own files R N s (posix_fcntl C fd cmd arg s)"
proof (cases "fd_slot fd s")
  case (Some i)
  assume inv: "dfs_inv own files R N {} s" and c: "cmd \<noteq> 0x52540000"
  show ?thesis
    by (rule with_fd [OF inv Some file_ioctl_ok [OF c, of arg], of EINVAL id])
      (auto simp: posix_fcntl_def dfs_file_ioctl_def intro!: call_keepsI)
qed (simp add: posix_fcntl_def slot_none call_keepsI)

lemma ftruncate_keeps: "dfs_inv own files R N {} s \<Longrightarrow> call_keeps own files R N s (posix_ftruncate C fd len s)"
proof (cases "fd_slot fd s")
  case (Some i)
  assume inv: "dfs_inv own files R N {} s"
  show ?thesis
    by (rule with_fd [OF inv Some file_ftruncate_ok [of len], of EINVAL id])
      (auto simp: posix_ftruncate_def dfs_file_ftruncate_def inv intro!: call_keepsI)
qed (simp add: posix_ftruncate_def slot_none call_keepsI)

lemma fsync_keeps:
  assumes "dfs_inv own files R N {} s"
    and "\<And>i. fd_slot fd s = Some i \<Longrightarrow> fd_type (the (fd_mem s (fds s ! i))) = FT_REGULAR"
  shows "call_keeps own files R N s (posix_fsync C fd s)"
proof (cases "fd_slot fd s")
  case (Some i)
  show ?thesis
    by (rule with_fd [OF assms(1) Some file_flush_ok assms(2) [OF Some], of EINVAL id])
      (auto simp: posix_fsync_def dfs_file_flush_def intro!: call_keepsI)
qed (use assms in \<open>simp add: posix_fsync_def slot_none call_keepsI\<close>)

lemma fstat_keeps: "dfs_inv own files R N {} s \<Longrightarrow> call_keeps own files R N s (posix_fstat fd s)"
proof (cases "fd_slot fd s")
  case (Some i)
  assume inv: "dfs_inv own files R N {} s"
  show ?thesis
    by (rule with_fd [OF inv Some file_write_ok [of "[]"], of EINVAL id])
      (auto simp: posix_fstat_def Let_def inv intro!: call_keepsI)
qed (simp add: posix_fstat_def slot_none call_keepsI)

lemma lseek_keeps:
  assumes inv: "dfs_inv own files R N {} s"
    and "\<And>i. fd_slot fd s = Some i \<Longrightarrow> seek_target offset whence (the (fd_mem s (fds s ! i))) \<noteq> None"
  shows "call_keeps own files R N s (posix_lseek C fd offset whence s)"
proof (cases "fd_slot fd s")
  case (Some i)
  then obtain t where t: "seek_target offset whence (the (fd_mem s (fds s ! i))) = Some t" using assms(2) by blast
  have t2: "seek_target offset whence (d\<lparr>fd_ref := v\<rparr>) = seek_target offset whence d" for d v
    by (simp add: seek_target_def)
  show ?thesis
    by (rule with_fd [OF inv Some file_lseek_ok [of "the t"], of EINVAL id])
      (use t in \<open>auto simp: posix_lseek_def dfs_file_lseek_def t2 inv split: option.split intro!: call_keepsI\<close>)
qed (use inv in \<open>simp add: posix_lseek_def slot_none call_keepsI\<close>)

end


section \<open>Opening a file\<close>

text \<open>The path that is normalised, and whether that is defined: a path that ends above everything, like
  \<open>/..\<close>, makes the routine read in front of its buffer.\<close>

definition full_path :: "u8 list \<Rightarrow> u8 list \<Rightarrow> u8 list" where
  "full_path cwd path = (if path = [] \<or> hd path \<noteq> SLASH then cwd @ [SLASH] @ path else path)"

definition path_defined :: "'w dfs \<Rightarrow> u8 list \<Rightarrow> bool" where
  "path_defined s path \<longleftrightarrow> normalize_copy (full_path (working_directory s) path) \<noteq> None"

lemma normalize_holds:
  assumes h: "holds own files R B M (dheap s, world s)" and p: "path_defined s path"
  obtains h' where "dfs_normalize_path None path s = Some (None, s\<lparr>dheap := h'\<rparr>)" "holds own files R B M (h', world s)"
  | q full h' where "dfs_normalize_path None path s = Some (Some (q, full), s\<lparr>dheap := h'\<rparr>)"
      "holds own files R (add_mset q B) M (h', world s)"
      "normalize_copy (full_path (working_directory s) path) = Some (Some full)"
proof -
  let ?full = "full_path (working_directory s) path"
  define n where "n = (if path = [] \<or> hd path \<noteq> SLASH then length (working_directory s) + length path + 2 else length path + 1)"
  obtain x h1 where g: "heap_get (of_nat n) (dheap s) = Some (x, h1)"
    using heap_alloc.get_returns [OF holds_ready [OF h]] by blast
  have eq: "dfs_normalize_path None path s =
     (case x of None \<Rightarrow> Some (None, s\<lparr>dheap := h1\<rparr>)
      | Some p \<Rightarrow> do { r \<leftarrow> normalize_copy ?full;
          case r of None \<Rightarrow> do { s \<leftarrow> dfs_free p (s\<lparr>dheap := h1\<rparr>); Some (None, s) } | Some q \<Rightarrow> Some (Some (p, q), s\<lparr>dheap := h1\<rparr>) })"
    using g by (auto simp: dfs_normalize_path_def full_path_def n_def dfs_malloc_def rt_strdup_def split: option.split)
  note h1 = holds_get [OF h g]
  show thesis
  proof (cases x)
    case None
    then show thesis using that(1) [of h1] eq h1 h by simp
  next
    case (Some q)
    obtain r where r: "normalize_copy ?full = Some r" using p by (auto simp: path_defined_def)
    show thesis
    proof (cases r)
      case None
      obtain h2 where "rt_free q h1 = Some h2" "holds own files R B M (h2, world s)"
        using holds_free [of own files R q B M h1 "world s"] h1 Some by auto
      then show thesis using that(1) [of h2] eq Some r None by (simp add: dfs_free_def)
    next
      fix full assume "r = Some full"
      then show thesis using that(2) [of q full h1] eq Some r h1 by simp
    qed
  qed
qed

text \<open>The file system of a path is mounted at the path itself or at a directory above it, and no other
  file system is mounted nearer.\<close>

definition mount_length :: "dfs_filesystem \<Rightarrow> nat" where
  "mount_length m = (case mnt_path m of None \<Rightarrow> 0 | Some (_, mp) \<Rightarrow> length mp)"

definition covers :: "u8 list \<Rightarrow> dfs_filesystem \<Rightarrow> bool" where
  "covers path m \<longleftrightarrow> mnt_ops m \<noteq> None \<and> (\<exists>p mp. mnt_path m = Some (p, mp) \<and> take (length mp) path = mp \<and>
     (1 < length mp \<and> length mp < length path \<longrightarrow> path ! length mp = SLASH))"

lemma lookup_loop_Cons:
  "lookup_loop path (m # ms) n fs k =
     (if covers path m \<and> k \<le> mount_length m then lookup_loop path ms (n + 1) (Some n) (mount_length m)
      else lookup_loop path ms (n + 1) fs k)"
  by (auto simp: covers_def mount_length_def Let_def split: option.split)

lemma lookup_loop_longest:
  "lookup_loop path ms n fs k = fs \<and> (\<forall>m \<in> set ms. covers path m \<longrightarrow> mount_length m < k) \<or>
   (\<exists>j < length ms. lookup_loop path ms n fs k = Some (n + j) \<and> covers path (ms ! j) \<and> k \<le> mount_length (ms ! j) \<and>
     (\<forall>m \<in> set ms. covers path m \<longrightarrow> mount_length m \<le> mount_length (ms ! j)))"
proof (induction ms arbitrary: n fs k)
  case (Cons m ms)
  show ?case
  proof (cases "covers path m \<and> k \<le> mount_length m")
    case True
    then have e: "lookup_loop path (m # ms) n fs k = lookup_loop path ms (n + 1) (Some n) (mount_length m)"
      unfolding lookup_loop_Cons by simp
    from Cons.IH [of "n + 1" "Some n" "mount_length m"] show ?thesis
    proof
      assume "lookup_loop path ms (n + 1) (Some n) (mount_length m) = Some n \<and>
        (\<forall>m' \<in> set ms. covers path m' \<longrightarrow> mount_length m' < mount_length m)"
      then show ?thesis using True unfolding e by (intro disjI2 exI [of _ 0]) auto
    next
      assume "\<exists>j < length ms. lookup_loop path ms (n + 1) (Some n) (mount_length m) = Some (n + 1 + j) \<and> covers path (ms ! j) \<and>
        mount_length m \<le> mount_length (ms ! j) \<and> (\<forall>m \<in> set ms. covers path m \<longrightarrow> mount_length m \<le> mount_length (ms ! j))"
      then obtain j where "j < length ms" "lookup_loop path ms (n + 1) (Some n) (mount_length m) = Some (n + 1 + j)"
        "covers path (ms ! j)" "mount_length m \<le> mount_length (ms ! j)"
        "\<forall>m \<in> set ms. covers path m \<longrightarrow> mount_length m \<le> mount_length (ms ! j)" by blast
      then show ?thesis using True unfolding e by (intro disjI2 exI [of _ "Suc j"]) auto
    qed
  next
    case False
    then have e: "lookup_loop path (m # ms) n fs k = lookup_loop path ms (n + 1) fs k"
      by (simp only: lookup_loop_Cons if_False)
    from Cons.IH [of "n + 1" fs k] show ?thesis
    proof
      assume "\<exists>j < length ms. lookup_loop path ms (n + 1) fs k = Some (n + 1 + j) \<and> covers path (ms ! j) \<and>
        k \<le> mount_length (ms ! j) \<and> (\<forall>m \<in> set ms. covers path m \<longrightarrow> mount_length m \<le> mount_length (ms ! j))"
      then obtain j where "j < length ms" "lookup_loop path ms (n + 1) fs k = Some (n + 1 + j)" "covers path (ms ! j)"
        "k \<le> mount_length (ms ! j)" "\<forall>m \<in> set ms. covers path m \<longrightarrow> mount_length m \<le> mount_length (ms ! j)" by blast
      then show ?thesis using False unfolding e by (intro disjI2 exI [of _ "Suc j"]) auto
    qed (use False e in auto)
  qed
qed simp

theorem lookup_nearest:
  "case dfs_filesystem_lookup path s of
     None \<Rightarrow> \<forall>m \<in> set (filesystem_table s). \<not> covers path m
   | Some i \<Rightarrow> i < length (filesystem_table s) \<and> covers path (filesystem_table s ! i) \<and>
       (\<forall>m \<in> set (filesystem_table s). covers path m \<longrightarrow> mount_length m \<le> mount_length (filesystem_table s ! i))"
  using lookup_loop_longest [of path "filesystem_table s" 0 None 0] unfolding dfs_filesystem_lookup_def by auto

lemma covers_subdir:
  assumes "take (length mp) path = mp"
  shows "\<exists>q. dfs_subdir mp path = Some q"
proof -
  have "length (take (length mp) path) = length mp" using assms by (rule arg_cong)
  then have "length mp \<le> length path" by simp
  then show ?thesis by (simp add: dfs_subdir_def Let_def)
qed


lemma upd_swap: "s\<lparr>world := w, dheap := h\<rparr> = s\<lparr>dheap := h, world := w\<rparr>"
  by (cases s) simp

lemma strdup_holds:
  assumes h: "holds own files R B M (dheap s, world s)"
  obtains x h' where "rt_strdup str s = Some (x, s\<lparr>dheap := h'\<rparr>)" "holds own files R (str_blocks x + B) M (h', world s)"
    "x = None \<or> (\<exists>q. x = Some (q, str))"
proof -
  obtain p h1 where g: "heap_get (of_nat (length str + 1)) (dheap s) = Some (p, h1)"
    using heap_alloc.get_returns [OF holds_ready [OF h]] by blast
  show thesis
  proof (cases p)
    case None
    then show thesis using that [of None h1] g holds_get [OF h g] h by (simp add: rt_strdup_def dfs_malloc_def str_blocks_def)
  next
    case (Some q)
    then show thesis using that [of "Some (q, str)" h1] g holds_get [OF h g] by (simp add: rt_strdup_def dfs_malloc_def str_blocks_def)
  qed
qed

lemma free_str_holds:
  assumes "holds own files R (str_blocks x + B) M (dheap s, world s)"
  obtains h' where "free_str x s = Some (s\<lparr>dheap := h'\<rparr>)" "holds own files R B M (h', world s)"
proof (cases x)
  case None
  then show thesis using that [of "dheap s"] assms by (simp add: free_str_def dfs_free_def rt_free_def str_blocks_def)
next
  case (Some y)
  obtain p q where y: "y = (p, q)" by fastforce
  obtain h' where "rt_free p (dheap s) = Some h'" "holds own files R B M (h', world s)"
    using holds_free [of own files R p B M "dheap s" "world s"] assms Some y by (auto simp: str_blocks_def)
  then show thesis using that [of h'] Some y by (simp add: free_str_def dfs_free_def)
qed

lemma prepare_holds:
  assumes h: "holds own files R B M (dheap s, world s)" and p: "path_defined s path" and d0: "fd_path d = None"
  obtains r h' where "file_prepare C path flags d s = Some (Some r, d, s\<lparr>dheap := h'\<rparr>)" "r < 0"
      "holds own files R B M (h', world s)"
  | d' h' k where "file_prepare C path flags d s = Some (None, d', s\<lparr>dheap := h'\<rparr>)"
      "holds own files R (str_blocks (fd_path d') + B) M (h', world s)" "fd_fops d' = Some k" "fd_type d' = FT_REGULAR"
      "fd_flags d' = flags" "fd_ref d' = fd_ref d" "fd_magic d' = fd_magic d" "\<exists>i. fd_data d' = Fs_data i"
proof (rule normalize_holds [OF h p])
  fix h1 assume "dfs_normalize_path None path s = Some (None, s\<lparr>dheap := h1\<rparr>)" "holds own files R B M (h1, world s)"
  then show thesis using that(1) [of "- ENOMEM" h1] by (simp add: file_prepare_def)
next
  fix q full h1
  assume n: "dfs_normalize_path None path s = Some (Some (q, full), s\<lparr>dheap := h1\<rparr>)"
    and h1: "holds own files R (add_mset q B) M (h1, world s)"
  show thesis
  proof (cases "dfs_filesystem_lookup full (s\<lparr>dheap := h1\<rparr>)")
    case None
    obtain h2 where "rt_free q h1 = Some h2" "holds own files R B M (h2, world s)" using holds_free [OF h1] by blast
    then show thesis using that(1) [of "- ENOENT" h2] n None by (simp add: file_prepare_def dfs_free_def)
  next
    case (Some i)
    let ?m = "filesystem_table s ! i"
    have "covers full ?m" using lookup_nearest [where path = full and s = "s\<lparr>dheap := h1\<rparr>"] Some by simp
    then obtain ops a mp where m: "mnt_ops ?m = Some ops" "mnt_path ?m = Some (a, mp)" "take (length mp) full = mp"
      by (auto simp: covers_def)
    let ?ops = "fs_ops_at C ops"
    let ?d = "d\<lparr>fd_fs := Some i, fd_fops := Some (fs_fops ?ops), fd_type := FT_REGULAR, fd_flags := flags,
                fd_size := 0, fd_pos := 0, fd_data := Fs_data i\<rparr>"
    have o: "ops_of C i (s\<lparr>dheap := h1\<rparr>) = Some ?ops" "mount_point i (s\<lparr>dheap := h1\<rparr>) = Some mp"
      using m(1,2) by (simp_all add: ops_of_def mount_point_def)
    have "path_in ?ops mp full \<noteq> None" using covers_subdir [OF m(3)] by (auto simp: path_in_def split: option.split)
    then obtain u where u: "path_in ?ops mp full = Some u" by blast
    show thesis
    proof (cases "fs_flags ?ops AND 1 = 0")
      case True
      obtain x h2 where x: "rt_strdup u (s\<lparr>dheap := h1\<rparr>) = Some (x, s\<lparr>dheap := h2\<rparr>)"
          "holds own files R (str_blocks x + add_mset q B) M (h2, world s)"
        by (rule strdup_holds [of own files R "add_mset q B" M "s\<lparr>dheap := h1\<rparr>"]) (use h1 in auto)
      obtain h3 where h3: "rt_free q h2 = Some h3" "holds own files R (str_blocks x + B) M (h3, world s)"
        using holds_free [of own files R q "str_blocks x + B" M h2] x(2) by auto
      show thesis by (rule that(2) [of "?d\<lparr>fd_path := x\<rparr>" h3 "fs_fops ?ops"])
        (use n Some o u True x h3 in \<open>simp_all add: file_prepare_def Let_def dfs_free_def\<close>)
    next
      case False
      show thesis by (rule that(2) [of "?d\<lparr>fd_path := Some (q, full)\<rparr>" h1 "fs_fops ?ops"])
        (use n Some o u False h1 in \<open>simp_all add: file_prepare_def Let_def str_blocks_def\<close>)
    qed
  qed
qed

lemma holds_sys: "holds own files R B M hw \<longleftrightarrow>
    sys_ok own files (R \<union> set_mset B) M hw \<and> R \<inter> set_mset B = {} \<and> (\<forall>x. count B x \<le> 1)"
  by (simp add: holds_def)

context file_system
begin

lemma open_holds:
  assumes h: "holds own files R B M (dheap s, world s)" and p: "path_defined s path" and d0: "fd_path d = None"
  obtains r d' h' w' where "file_open C path flags d s = Some (r, d', s\<lparr>dheap := h', world := w'\<rparr>)"
    "fd_ref d' = fd_ref d" "fd_magic d' = fd_magic d"
    "if r < 0 then fd_path d' = None \<and> holds own files R B M (h', w')
     else r = 0 \<and> fd_fops d' \<noteq> None \<and> holds own files R (str_blocks (fd_path d') + B) (add_mset (fkey d') M) (h', w')"
    "flags AND O_DIRECTORY \<noteq> 0 \<Longrightarrow> r = 0 \<Longrightarrow> fd_type d' = FT_DIRECTORY"
proof (rule prepare_holds [OF h p d0, where C = C and flags = flags])
  fix r h1 assume "file_prepare C path flags d s = Some (Some r, d, s\<lparr>dheap := h1\<rparr>)" "r < 0" "holds own files R B M (h1, world s)"
  then show thesis using that [of r d "world s" h1] d0 by (simp add: file_open_def)
next
  fix d1 h1 k
  assume pr: "file_prepare C path flags d s = Some (None, d1, s\<lparr>dheap := h1\<rparr>)"
    and h1: "holds own files R (str_blocks (fd_path d1) + B) M (h1, world s)" and d1: "fd_fops d1 = Some k" "fd_type d1 = FT_REGULAR"
      "fd_flags d1 = flags" "fd_ref d1 = fd_ref d" "fd_magic d1 = fd_magic d" "\<exists>i. fd_data d1 = Fs_data i"
  let ?B = "str_blocks (fd_path d1) + B"
  show thesis
  proof (cases "fo_open (file_ops_at C k)")
    case None
    obtain h2 where "free_str (fd_path d1) (s\<lparr>dheap := h1\<rparr>) = Some (s\<lparr>dheap := h2\<rparr>)" "holds own files R B M (h2, world s)"
      by (rule free_str_holds [of own files R "fd_path d1" B M "s\<lparr>dheap := h1\<rparr>"]) (use h1 in auto)
    then show thesis using that [of "- ENOSYS" "d1\<lparr>fd_path := None\<rparr>" "world s" h2] pr d1 None by (simp add: file_open_def)
  next
    case (Some f)
    obtain r d2 h2 w2 where f: "f (filesystem_table s) d1 (h1, world s) = Some (r, d2, h2, w2)" "same_fd d1 d2" "fd_fops d2 \<noteq> None"
        "if r < 0 then sys_ok own files (R \<union> set_mset ?B) M (h2, w2)
         else sys_ok own files (R \<union> set_mset ?B) (add_mset (fkey (mark_open flags d2)) M) (h2, w2)"
      using law_open [OF Some] h1 d1(1-3,6) unfolding open_ok_def holds_def by (metis surj_pair)
    have path: "fd_path d2 = fd_path d1" "fd_ref d2 = fd_ref d" "fd_magic d2 = fd_magic d" using f(2) d1 by (simp_all add: same_fd_def)
    show thesis
    proof (cases "r < 0")
      case True
      then have hb: "holds own files R ?B M (h2, w2)" using h1 f(4) by (simp add: holds_def)
      obtain h3 where h3: "free_str (fd_path d2) (s\<lparr>dheap := h2, world := w2\<rparr>) = Some (s\<lparr>dheap := h3, world := w2\<rparr>)"
          "holds own files R B M (h3, w2)"
        by (rule free_str_holds [of own files R "fd_path d2" B M "s\<lparr>dheap := h2, world := w2\<rparr>"]) (use path hb in \<open>auto simp: upd_swap\<close>)
      show thesis by (rule that [of r "d2\<lparr>fd_path := None\<rparr>" w2 h3])
        (use pr d1 Some f(1) True path h3 in \<open>simp_all add: file_open_def call_fd_def\<close>)
    next
      case False
      have m: "fd_path (mark_open flags d2) = fd_path d1" "fd_ref (mark_open flags d2) = fd_ref d"
        "fd_magic (mark_open flags d2) = fd_magic d" "fd_fops (mark_open flags d2) \<noteq> None"
        "flags AND O_DIRECTORY \<noteq> 0 \<Longrightarrow> fd_type (mark_open flags d2) = FT_DIRECTORY"
        using path f(3) by (simp_all add: mark_open_def Let_def)
      have "holds own files R ?B (add_mset (fkey (mark_open flags d2)) M) (h2, w2)" using h1 f(4) False by (simp add: holds_def)
      moreover have "file_open C path flags d s = Some (0, mark_open flags d2, s\<lparr>dheap := h2, world := w2\<rparr>)"
        using pr d1 Some f(1) False by (simp add: file_open_def call_fd_def mark_open_def Let_def)
      ultimately show thesis using m by (intro that [of 0 "mark_open flags d2" w2 h2]) simp_all
    qed
  qed
qed

end

end
