(* ===== verification/DfsCalls.thy ===== *)
theory DfsCalls
  imports DfsLaws
begin

text \<open>
  The calls that take or give back a descriptor.  The table grows by four slots up to sixteen; a new file
  gets the lowest free number, and a call that fails keeps nothing.
\<close>

section \<open>A new descriptor\<close>

lemma holds_regrow:
  assumes h: "holds own files R ((if b = 0 then {#} else {#b#}) + B) M (h, w)" and n: "rt_align n \<noteq> 0"
  obtains "rt_realloc b n h = Some (0, h)"
  | q h' where "rt_realloc b n h = Some (q, h')" "q \<noteq> 0" "holds own files R (add_mset q B) M (h', w)"
proof -
  have r: "heap_ready h" "b = 0 \<or> b \<in> heap_held h" using h by (auto simp: holds_def sys_ok_def)
  obtain q h' where q: "rt_realloc b n h = Some (q, h')"
    "if q = 0 then h' = h else heap_ready h' \<and> q \<notin> heap_held h - {b} \<and> heap_held h' = insert q (heap_held h - {b})"
    using heap_regrow [OF r n] by blast
  show thesis
  proof (cases "q = 0")
    case True
    then show thesis using that(1) q by simp
  next
    case False
    have held: "heap_held h = (R \<union> set_mset ((if b = 0 then {#} else {#b#}) + B)) \<union> own w"
      using h unfolding holds_def sys_ok_def fst_conv snd_conv by blast
    have z: "0 \<notin> heap_held h" using held_not_null [OF r(1), of 0] by blast
    have c: "count ((if b = 0 then {#} else {#b#}) + B) x \<le> 1" for x using h by (simp add: holds_def)
    have B: "count B x \<le> 1" for x using c [of x] by (simp split: if_splits)
    have eq: "heap_held h - {b} = R \<union> set_mset B \<union> own w"
    proof (cases "b = 0")
      case True
      then show ?thesis using held z by simp
    next
      case False
      then have "b \<notin># B" using c [of b] by (simp add: count_eq_zero_iff)
      moreover have "b \<notin> R" "b \<notin> own w" using h False unfolding holds_def sys_ok_def by auto
      ultimately show ?thesis using held False by auto
    qed
    have "q \<notin># B" "q \<notin> R" "q \<notin> own w" using q(2) False eq by auto
    then have "holds own files R (add_mset q B) M (h', w)"
      using q(2) False eq B h by (auto simp: holds_def sys_ok_def count_eq_zero_iff [symmetric])
    then show thesis using that(2) q(1) False by blast
  qed
qed

lemma find_slot_first:
  assumes "dfs_wf X s" "k \<le> length (fds s)"
  shows "find_slot s k = Some (k + length (takeWhile (\<lambda>p. p \<noteq> 0) (drop k (fds s))))"
  using assms
proof (induction "length (fds s) - k" arbitrary: k)
  case 0
  then show ?case by (subst find_slot.simps) simp
next
  case (Suc n)
  then have k: "k < length (fds s)" by simp
  have d: "drop k (fds s) = fds s ! k # drop (Suc k) (fds s)" using k by (simp add: Cons_nth_drop_Suc)
  show ?case
  proof (cases "fds s ! k = 0")
    case True
    then show ?thesis using k d by (subst find_slot.simps) simp
  next
    case False
    obtain f where f: "fd_mem s (fds s ! k) = Some f" "fd_ref f = 1" by (rule wf_slot [OF Suc.prems(1) k False]) (rule that)
    have "find_slot s (Suc k) = Some (Suc k + length (takeWhile (\<lambda>p. p \<noteq> 0) (drop (Suc k) (fds s))))"
      using Suc.hyps(1) [of "Suc k"] Suc.hyps(2) Suc.prems(1) k by simp
    then show ?thesis using False f k d by (subst find_slot.simps) simp
  qed
qed

definition free_slot :: "'w dfs \<Rightarrow> nat" where
  "free_slot s = length (takeWhile (\<lambda>p. p \<noteq> 0) (fds s))"

text \<open>The table with room for one more: what growing it does to the invariant.\<close>

definition grown :: "u32 \<Rightarrow> nat \<Rightarrow> heap \<Rightarrow> 'w dfs \<Rightarrow> 'w dfs" where
  "grown q k h s = s\<lparr>dheap := h, fds_block := q, fds := fds s @ replicate k 0\<rparr>"

lemma grown_inv:
  assumes inv: "dfs_inv own files R N {} s" and q: "q \<noteq> 0" "0 < k" "length (fds s) + k \<le> DFS_FD_MAX"
    and h: "holds own files R (add_mset q (sum_list (map (slot_blocks (fd_mem s)) (fds s)) + mount_blocks (filesystem_table s)))
       (N + dfs_files {} s) (h, world s)"
  shows "dfs_inv own files R N {} (grown q k h s)"
proof -
  have z: "sum_list (replicate k ({#} :: 'x multiset)) = {#}" by (induction k) simp_all
  have "dfs_blocks (grown q k h s) = add_mset q (sum_list (map (slot_blocks (fd_mem s)) (fds s)) + mount_blocks (filesystem_table s))"
    "dfs_files {} (grown q k h s) = dfs_files {} s"
    using q(1) z by (simp_all add: dfs_blocks_def dfs_files_def grown_def slot_blocks_def slot_keys_def map_replicate_const)
  moreover have "dfs_wf {} (grown q k h s)" using inv q unfolding dfs_inv_def dfs_wf_def grown_def by auto
  ultimately show ?thesis using h by (simp add: dfs_inv_def grown_def)
qed

lemma grow_cases:
  assumes inv: "dfs_inv own files R N {} s" and room: "length (fds s) < DFS_FD_MAX"
  obtains "fd_grow s = Some (False, s)"
  | q k h where "fd_grow s = Some (True, grown q k h s)" "0 < k" "dfs_inv own files R N {} (grown q k h s)"
proof -
  define cnt where "cnt = (if length (fds s) + 4 > DFS_FD_MAX then DFS_FD_MAX else length (fds s) + 4)"
  have c: "cnt \<le> DFS_FD_MAX" "length (fds s) < cnt" using room by (simp_all add: cnt_def)
  then have "cnt * 4 < 2 ^ 32" by simp
  then have u: "unat (of_nat (cnt * 4) :: u32) = cnt * 4" by (simp only: unat_of_nat) simp
  then have "unat (of_nat (cnt * 4) :: u32) + 3 < 2 ^ 32" unfolding u using c by simp
  from rt_align_props(1) [OF this] have "cnt * 4 \<le> unat (rt_align (of_nat (cnt * 4)))" unfolding u .
  then have n: "rt_align (of_nat (cnt * 4)) \<noteq> 0" using c by fastforce
  let ?B = "sum_list (map (slot_blocks (fd_mem s)) (fds s)) + mount_blocks (filesystem_table s)"
  have h: "holds own files R ((if fds_block s = 0 then {#} else {#fds_block s#}) + ?B) (N + dfs_files {} s) (dheap s, world s)"
    using inv by (simp add: dfs_inv_def dfs_blocks_def ac_simps)
  have eq: "fd_grow s = do {
      (p, h) \<leftarrow> rt_realloc (fds_block s) (of_nat (cnt * 4)) (dheap s);
      if p = 0 then Some (False, s\<lparr>dheap := h\<rparr>) else Some (True, grown p (cnt - length (fds s)) h s) }"
    unfolding fd_grow_def Let_def cnt_def [symmetric] grown_def by (rule refl)
  show thesis
  proof (rule holds_regrow [OF h n])
    assume "rt_realloc (fds_block s) (of_nat (cnt * 4)) (dheap s) = Some (0, dheap s)"
    then show thesis using that(1) eq by simp
  next
    fix q h1
    assume g: "rt_realloc (fds_block s) (of_nat (cnt * 4)) (dheap s) = Some (q, h1)" "q \<noteq> 0"
      "holds own files R (add_mset q ?B) (N + dfs_files {} s) (h1, world s)"
    have "dfs_inv own files R N {} (grown q (cnt - length (fds s)) h1 s)"
      by (rule grown_inv [OF inv g(2) _ _ g(3)]) (use c in simp_all)
    then show thesis using that(2) [of q "cnt - length (fds s)" h1] eq g(1,2) c by simp
  qed
qed


text \<open>The state with a new descriptor in slot \<open>i\<close>.\<close>

definition with_new :: "nat \<Rightarrow> u32 \<Rightarrow> heap \<Rightarrow> 'w dfs \<Rightarrow> 'w dfs" where
  "with_new i p h s = upd_fd p (fd0\<lparr>fd_ref := 1, fd_magic := DFS_FD_MAGIC\<rparr>) (s\<lparr>dheap := h, fds := (fds s)[i := p]\<rparr>)"

lemma new_blocks:
  assumes i: "i < length (fds s)" "fds s ! i = 0" and p: "p \<noteq> 0" "p \<notin> set (fds s)"
  shows "dfs_blocks (with_new i p h s) = add_mset p (dfs_blocks s)" "dfs_files {p} (with_new i p h s) = dfs_files {} s"
    "dfs_blocks (without i (with_new i p h s)) = dfs_blocks s" "dfs_files {p} (without i (with_new i p h s)) = dfs_files {} s"
proof -
  let ?s = "s\<lparr>dheap := h, fds := (fds s)[i := p]\<rparr>" and ?d = "fd0\<lparr>fd_ref := 1, fd_magic := DFS_FD_MAGIC\<rparr>"
  have w: "fds (without i ?s) = fds s" using i by (simp add: without_def)
      (metis list_update_id)
  have b: "dfs_blocks (without i ?s) = dfs_blocks s" using w by (simp add: dfs_blocks_def)
  have f: "dfs_files {p} (without i ?s) = dfs_files {} s"
  proof -
    have "map (slot_keys (fd_mem s) {p}) (fds s) = map (slot_keys (fd_mem s) {}) (fds s)" using p(2) by (auto simp: slot_keys_def)
    then show ?thesis using w by (simp add: dfs_files_def del: map_eq_conv)
  qed
  show n: "dfs_blocks (with_new i p h s) = add_mset p (dfs_blocks s)" "dfs_files {p} (with_new i p h s) = dfs_files {} s"
    using upd_slot [where i = i and s = ?s and p = p and d = ?d] i p w b f by (simp_all add: with_new_def fd0_def str_blocks_def)
  have g: "i < length (fds (with_new i p h s))" "fds (with_new i p h s) ! i = p" "fd_mem (with_new i p h s) p = Some ?d"
    using i(1) by (simp_all add: with_new_def)
  show "dfs_blocks (without i (with_new i p h s)) = dfs_blocks s" "dfs_files {p} (without i (with_new i p h s)) = dfs_files {} s"
    using blocks_without [OF g(1)] files_without [OF g(1), of "{p}"] n g(2,3) p(1)
    by (simp_all add: slot_blocks_def slot_keys_def fd0_def str_blocks_def)
qed

lemma new_inv:
  assumes inv: "dfs_inv own files R N {} s" and i: "i < length (fds s)" "fds s ! i = 0" and p: "p \<noteq> 0" "p \<notin> heap_held (dheap s)"
    and h: "holds own files R (add_mset p (dfs_blocks s)) (N + dfs_files {} s) (h, world s)"
  shows "dfs_inv own files R N {p} (with_new i p h s)" "p \<notin> set (fds s)"
proof -
  let ?d = "fd0\<lparr>fd_ref := 1, fd_magic := DFS_FD_MAGIC\<rparr>"
  have "p \<notin># dfs_blocks s" using p(2) inv by (auto simp: dfs_inv_def holds_def sys_ok_def)
  then show new: "p \<notin> set (fds s)" using slots_in_blocks p(1) by blast
  have "fd_ok {p} ((fd_mem s)(p \<mapsto> ?d)) q" if "q \<in> set ((fds s)[i := p])" "q \<noteq> 0" for q
    using inv_wf [OF inv] that new set_update_subset_insert [of "fds s" i p]
    by (cases "q = p") (auto simp: dfs_wf_def fd_ok_def fd0_def)
  then have "dfs_wf {p} (with_new i p h s)" using inv_wf [OF inv] i(1) by (auto simp: dfs_wf_def with_new_def)
  then show "dfs_inv own files R N {p} (with_new i p h s)" using h new_blocks [OF i p(1) new, of h] by (simp add: dfs_inv_def with_new_def)
qed

text \<open>Both outcomes of \<open>fd_new\<close>: no descriptor, when the table is full or there is no memory; or the first
  free slot, possibly after the table has grown.\<close>

definition maybe_grown :: "'w dfs \<Rightarrow> 'w dfs \<Rightarrow> bool" where
  "maybe_grown s s' \<longleftrightarrow> s' = s \<or> free_slot s = length (fds s) \<and> (\<exists>q k h. 0 < k \<and> s' = grown q k h s)"

lemma alloc_slot:
  assumes inv: "dfs_inv own files R N {} s" and i: "i = free_slot s" "i < length (fds s)"
    and z: "heap_zalloc 36 (dheap s) = Some (x, h)"
  shows "(case x of None \<Rightarrow> h = dheap s
    | Some p \<Rightarrow> p \<noteq> 0 \<and> p \<notin> set (fds s) \<and> fds s ! i = 0 \<and> dfs_inv own files R N {p} (with_new i p h s))"
proof -
  have h0: "holds own files R (dfs_blocks s) (N + dfs_files {} s) (dheap s, world s)" using inv by (simp add: dfs_inv_def)
  have z0: "fds s ! i = 0" using i nth_length_takeWhile [of "\<lambda>p. p \<noteq> 0" "fds s"] by (simp add: free_slot_def)
  show ?thesis
  proof (rule heap_zalloc_cases [OF holds_ready [OF h0], of 36])
    assume "heap_zalloc 36 (dheap s) = Some (None, dheap s)"
    then show ?thesis using z by simp
  next
    fix p h1
    assume g: "heap_zalloc 36 (dheap s) = Some (Some p, h1)" "heap_ready h1" "p \<notin> heap_held (dheap s)"
      "heap_held h1 = insert p (heap_held (dheap s))"
    have e: "x = Some p" "h1 = h" using z g(1) by simp_all
    have p0: "p \<noteq> 0" using held_not_null [OF g(2)] g(4) by blast
    have "holds own files R (add_mset p (dfs_blocks s)) (N + dfs_files {} s) (h1, world s)"
      using h0 g(2-4) by (auto simp: holds_def sys_ok_def count_eq_zero_iff [symmetric])
    from new_inv [OF inv i(2) z0 p0 g(3) this] show ?thesis using e p0 z0 by simp
  qed simp
qed


lemma takeWhile_all_length: "length (takeWhile P xs) = length xs \<Longrightarrow> \<forall>x \<in> set xs. P x"
  by (induction xs) (auto split: if_splits)

lemma free_slot_grown: "free_slot s = length (fds s) \<Longrightarrow> free_slot (grown q (Suc k) h s) = length (fds s)"
proof -
  assume "free_slot s = length (fds s)"
  then have "\<forall>p \<in> set (fds s). p \<noteq> 0" unfolding free_slot_def by (rule takeWhile_all_length)
  then show ?thesis by (simp add: free_slot_def grown_def takeWhile_append)
qed

lemma free_slot_le: "free_slot s \<le> length (fds s)"
  by (simp add: free_slot_def length_takeWhile_le)

lemma fd_alloc_cases:
  assumes inv: "dfs_inv own files R N {} s"
  obtains (none) s' where "fd_alloc 0 s = Some (length (fds s'), s')" "maybe_grown s s'" "dfs_inv own files R N {} s'"
  | (new) p h s' where "fd_alloc 0 s = Some (free_slot s, upd_fd p fd0 (s'\<lparr>dheap := h, fds := (fds s')[free_slot s := p]\<rparr>))"
      "maybe_grown s s'" "dfs_inv own files R N {} s'" "free_slot s < length (fds s')" "p \<noteq> 0" "p \<notin> set (fds s')"
      "fds s' ! free_slot s = 0"
      "dfs_inv own files R N {p} (with_new (free_slot s) p h s')"
proof -
  let ?i = "free_slot s"
  have f: "find_slot s 0 = Some ?i" using find_slot_first [OF inv_wf [OF inv], of 0] by (simp add: free_slot_def)
  have step: thesis
    if s': "maybe_grown s s'" "dfs_inv own files R N {} s'" "?i < length (fds s')" "free_slot s' = ?i"
      and eq: "fd_alloc 0 s = do { (p, h) \<leftarrow> heap_zalloc 36 (dheap s');
        case p of None \<Rightarrow> Some (length (fds s'), s'\<lparr>dheap := h\<rparr>)
        | Some p \<Rightarrow> Some (?i, upd_fd p fd0 (s'\<lparr>dheap := h, fds := (fds s')[?i := p]\<rparr>)) }" for s'
  proof -
    have "heap_ready (dheap s')" using s'(2) by (simp add: dfs_inv_def holds_def sys_ok_def)
    then obtain x h where z: "heap_zalloc 36 (dheap s') = Some (x, h)" by (rule heap_zalloc_cases [of _ 36]) auto
    note a = alloc_slot [OF s'(2) s'(4) [symmetric] s'(3) z]
    show thesis
    proof (cases x)
      case None
      then show thesis using none [of s'] s' z a eq by simp
    next
      case (Some p)
      then show thesis using new [where p = p and h = h and s' = s'] s' z a eq by simp
    qed
  qed
  have z: "fds s ! ?i = 0" if "?i < length (fds s)"
    using that nth_length_takeWhile [of "\<lambda>p. p \<noteq> 0" "fds s"] by (simp add: free_slot_def)
  consider (free) "?i < length (fds s)" | (full) "?i = length (fds s)" "\<not> length (fds s) < DFS_FD_MAX"
    | (grow) "?i = length (fds s)" "length (fds s) < DFS_FD_MAX"
    using free_slot_le [of s] by linarith
  then show thesis
  proof cases
    case free
    then show thesis using step [of s] inv f z by (simp add: maybe_grown_def fd_alloc_def)
  next
    case full
    then show thesis using none [of s] inv f by (simp add: maybe_grown_def fd_alloc_def)
  next
    case grow
    show thesis
    proof (rule grow_cases [OF inv grow(2)])
      assume "fd_grow s = Some (False, s)"
      then show thesis using none [of s] inv f grow by (simp add: maybe_grown_def fd_alloc_def)
    next
      fix q k h
      assume g: "fd_grow s = Some (True, grown q k h s)" "0 < k" "dfs_inv own files R N {} (grown q k h s)"
      obtain k' where k: "k = Suc k'" using g(2) by (cases k) auto
      let ?g = "grown q k h s"
      have i: "fds ?g ! ?i = 0" "?i < length (fds ?g)" using grow(1) k by (simp_all add: grown_def nth_append)
      have "maybe_grown s ?g" using grow(1) g(2) unfolding maybe_grown_def by blast
      moreover have "free_slot ?g = ?i" using free_slot_grown grow(1) k by metis
      moreover have "fd_alloc 0 s = do { (p, h) \<leftarrow> heap_zalloc 36 (dheap ?g);
        case p of None \<Rightarrow> Some (length (fds ?g), ?g\<lparr>dheap := h\<rparr>)
        | Some p \<Rightarrow> Some (?i, upd_fd p fd0 (?g\<lparr>dheap := h, fds := (fds ?g)[?i := p]\<rparr>)) }"
        using f g(1) grow i by (simp add: fd_alloc_def cong: option.case_cong)
      ultimately show thesis using step g(3) i(2) by blast
    qed
  qed
qed


lemma unlock_simps:
  "dfs_unlock (grown q k h (dfs_lock s)) = grown q k h s" "dfs_unlock (with_new i p h (dfs_lock s)) = with_new i p h s"
  "dfs_lock (grown q k h s) = grown q k h (dfs_lock s)" "fds (dfs_unlock s) = fds s" "free_slot (dfs_lock s) = free_slot s"
  "fds_block (dfs_unlock s) = fds_block s" "fd_mem (dfs_unlock s) = fd_mem s" "filesystem_table (dfs_unlock s) = filesystem_table s"
  "working_directory (dfs_unlock s) = working_directory s" "dheap (dfs_unlock s) = dheap s" "world (dfs_unlock s) = world s"
  by (simp_all add: dfs_lock_def dfs_unlock_def grown_def with_new_def upd_fd_def free_slot_def)

lemma inv_lock: "dfs_inv own files R N X (dfs_lock s) = dfs_inv own files R N X s"
  "dfs_inv own files R N X (dfs_unlock s) = dfs_inv own files R N X s"
  by (rule inv_cong; simp add: dfs_lock_def dfs_unlock_def)+

lemma maybe_grown_lock: "maybe_grown (dfs_lock s) s' \<Longrightarrow> maybe_grown s (dfs_unlock s') \<and> dfs_lock (dfs_unlock s') = s'"
  unfolding maybe_grown_def
  by (elim disjE conjE exE) (simp, simp add: unlock_simps del: ex_simps, blast)

text \<open>Everything but the table and the heap is as before.\<close>

lemma maybe_grown_sel:
  assumes "maybe_grown s s'"
  shows "fd_mem s' = fd_mem s" "fslock s' = fslock s" "filesystem_table s' = filesystem_table s"
    "working_directory s' = working_directory s" "world s' = world s" "std_fd s' = std_fd s"
    "\<exists>k. fds s' = fds s @ replicate k 0" "filter (\<lambda>p. p \<noteq> 0) (fds s') = filter (\<lambda>p. p \<noteq> 0) (fds s)"
  using assms by (auto simp: maybe_grown_def grown_def filter_replicate intro: exI [of _ 0])

lemma fd_new_cases:
  assumes inv: "dfs_inv own files R N {} s"
  obtains (none) s' where "fd_new s = Some (- 1, s')" "maybe_grown s s'" "dfs_inv own files R N {} s'"
  | (new) p h s' where "fd_new s = Some (int (free_slot s) + 3, with_new (free_slot s) p h s')"
      "maybe_grown s s'" "dfs_inv own files R N {} s'" "free_slot s < length (fds s')" "p \<noteq> 0" "p \<notin> set (fds s')"
      "fds s' ! free_slot s = 0"
      "dfs_inv own files R N {p} (with_new (free_slot s) p h s')"
proof -
  have l: "dfs_inv own files R N {} (dfs_lock s)" using inv by (simp add: inv_lock)
  show thesis
  proof (rule fd_alloc_cases [OF l])
    fix t assume t: "fd_alloc 0 (dfs_lock s) = Some (length (fds t), t)" "maybe_grown (dfs_lock s) t" "dfs_inv own files R N {} t"
    then show thesis using none [of "dfs_unlock t"] maybe_grown_lock [OF t(2)] by (simp add: fd_new_def inv_lock)
  next
    fix p h t
    let ?i = "free_slot (dfs_lock s)"
    assume t: "fd_alloc 0 (dfs_lock s) = Some (?i, upd_fd p fd0 (t\<lparr>dheap := h, fds := (fds t)[?i := p]\<rparr>))"
      "maybe_grown (dfs_lock s) t" "dfs_inv own files R N {} t" "?i < length (fds t)" "p \<noteq> 0" "p \<notin> set (fds t)"
      "fds t ! ?i = 0"
      "dfs_inv own files R N {p} (with_new ?i p h t)"
    let ?t = "dfs_unlock t"
    have "fd_new s = Some (int ?i + 3, dfs_unlock (with_new ?i p h t))"
      using t(1,4) by (simp add: fd_new_def Let_def with_new_def)
    also have "dfs_unlock (with_new ?i p h t) = with_new ?i p h ?t"
      using maybe_grown_lock [OF t(2)] unlock_simps(2) [of ?i p h ?t] by simp
    finally have e: "fd_new s = Some (int (free_slot s) + 3, with_new (free_slot s) p h ?t)" by (simp add: unlock_simps)
    have "dfs_inv own files R N {p} (with_new (free_slot s) p h ?t) = dfs_inv own files R N {p} (with_new (free_slot s) p h t)"
      by (rule inv_cong) (simp_all add: with_new_def unlock_simps)
    then show thesis using new [OF e] maybe_grown_lock [OF t(2)] t(3-8) by (simp add: unlock_simps inv_lock)
  qed
qed


section \<open>Opening\<close>

text \<open>The files that are open stay as they are; the table may have more empty slots.\<close>

definition same_table :: "'w dfs \<Rightarrow> 'w dfs \<Rightarrow> bool" where
  "same_table s s' \<longleftrightarrow> (\<exists>k. fds s' = fds s @ replicate k 0) \<and> (\<forall>p \<in> set (fds s). p \<noteq> 0 \<longrightarrow> fd_mem s' p = fd_mem s p) \<and>
     fslock s' = fslock s \<and> filesystem_table s' = filesystem_table s \<and> working_directory s' = working_directory s \<and>
     std_fd s' = std_fd s"

lemma maybe_grown_table: "maybe_grown s s' \<Longrightarrow> same_table s s'"
  using maybe_grown_sel by (fastforce simp: same_table_def)

lemma grown_files: "dfs_files {} (grown q k h s) = dfs_files {} s"
proof -
  have "sum_list (replicate k ({#} :: file_key multiset)) = {#}" by (induction k) simp_all
  then show ?thesis by (simp add: dfs_files_def grown_def slot_keys_def map_replicate_const)
qed

lemma maybe_grown_files: "maybe_grown s s' \<Longrightarrow> dfs_files {} s' = dfs_files {} s"
  by (auto simp: maybe_grown_def grown_files)

lemma same_table_trans:
  assumes "same_table s t" "same_table t u"
  shows "same_table s u"
proof -
  obtain j k where f: "fds t = fds s @ replicate j 0" "fds u = fds t @ replicate k 0" using assms by (auto simp: same_table_def)
  then have "fds u = fds s @ replicate (j + k) 0" by (simp add: replicate_add)
  moreover have "fd_mem u p = fd_mem s p" if "p \<in> set (fds s)" "p \<noteq> 0" for p
    using assms that f(1) by (simp add: same_table_def)
  ultimately show ?thesis using assms by (auto simp: same_table_def)
qed

lemma same_table_errno [simp]: "same_table s (set_dfs_errno e s') = same_table s s'"
  by (simp add: same_table_def)

text \<open>A descriptor is taken out of the table with its last reference.\<close>

lemma remove_slot:
  assumes i: "i < length (fds s)" "fds s ! i = p" "p \<noteq> 0" "p \<notin> set (fds (without i s))" and d: "fd_ref d = 1"
    and wf: "dfs_wf X s" and X: "X \<subseteq> {p}"
    and h: "holds own files R (add_mset p (dfs_blocks (without i s))) (N + dfs_files X (without i s)) (h, w)"
  obtains s' where "fd_put (Some p) (upd_fd p d (s\<lparr>dheap := h, world := w\<rparr>)) = Some s'"
    "dfs_inv own files R N {} s'" "same_table (without i s) s'" "fds s' = fds (without i s)"
proof -
  let ?s = "upd_fd p d (s\<lparr>dheap := h, world := w\<rparr>)" and ?w = "without i s"
  obtain h' where h': "rt_free p h = Some h'" "holds own files R (dfs_blocks ?w) (N + dfs_files X ?w) (h', w)"
    using holds_free [OF h] by blast
  let ?t = "?s\<lparr>fds := (fds ?s)[i := 0], fd_mem := (fd_mem ?s)(p := None), dheap := h'\<rparr>"
  have put: "fd_put (Some p) ?s = Some ?t"
    by (intro fd_put_last) (use i d h' in \<open>simp_all add: without_def\<close>)
  have f: "fds ?t = fds ?w" by (simp add: without_def)
  have m: "\<And>q. q \<in> set (fds ?w) \<Longrightarrow> q \<noteq> 0 \<Longrightarrow> fd_mem ?t q = fd_mem ?w q" using i(4) by auto
  have "dfs_blocks ?t = dfs_blocks (?w\<lparr>fd_mem := fd_mem ?t\<rparr>)" "dfs_files {} ?t = dfs_files {} (?w\<lparr>fd_mem := fd_mem ?t\<rparr>)"
    by (simp_all add: dfs_blocks_def dfs_files_def without_def)
  moreover have "map (slot_keys (fd_mem s) {}) (fds ?w) = map (slot_keys (fd_mem s) X) (fds ?w)"
    using i(4) X by (auto simp: slot_keys_def)
  then have "dfs_files {} ?w = dfs_files X ?w" by (simp add: dfs_files_def del: map_eq_conv)
  ultimately have b: "dfs_blocks ?t = dfs_blocks ?w" "dfs_files {} ?t = dfs_files X ?w"
    using slots_cong [of ?w "fd_mem ?t", OF m] by simp_all
  have "fd_ok {} (fd_mem ?t) q" if q: "q \<in> set (fds ?w)" "q \<noteq> 0" for q
  proof -
    have "q \<in> set (fds s)" using q i(1) set_update_subset_insert [of "fds s" i 0] by (auto simp: without_def)
    then show ?thesis using wf q X i(4) m [OF q] unfolding dfs_wf_def fd_ok_def without_sel by auto
  qed
  then have "dfs_wf {} ?t" using wf f i(1) by (auto simp: dfs_wf_def)
  then have "dfs_inv own files R N {} ?t" using h'(2) b by (simp add: dfs_inv_def)
  moreover have "same_table ?w ?t"
    unfolding same_table_def using f m by (simp add: without_def)
  ultimately show thesis using that put f by blast
qed

lemma drop_new:
  assumes n: "i < length (fds s)" "fds s ! i = 0" "p \<noteq> 0" "p \<notin> set (fds s)" and d: "fd_ref d = 1"
    and h: "holds own files R (add_mset p (dfs_blocks s)) (N + dfs_files {} s) (h, w)"
    and inv: "dfs_inv own files R N {p} (with_new i p h0 s)"
  obtains s' where "fd_put (Some p) (upd_fd p d ((with_new i p h0 s)\<lparr>dheap := h, world := w\<rparr>)) = Some s'"
    "dfs_inv own files R N {} s'" "same_table s s'"
proof -
  let ?t = "with_new i p h0 s"
  have z: "(fds s)[i := 0] = fds s" using n(2) list_update_id [of "fds s" i] by simp
  have t: "i < length (fds ?t)" "fds ?t ! i = p" "p \<notin> set (fds (without i ?t))"
    using n z by (simp_all add: with_new_def without_def)
  note nb = new_blocks(3,4) [OF n, of h0]
  obtain s' where s': "fd_put (Some p) (upd_fd p d (?t\<lparr>dheap := h, world := w\<rparr>)) = Some s'" "dfs_inv own files R N {} s'"
    "same_table (without i ?t) s'"
    by (rule remove_slot [OF t(1,2) n(3) t(3) d inv_wf [OF inv] subset_refl, where h = h and w = w]) (use h nb that in simp_all)
  have "same_table s (without i ?t)" using n(4) z by (auto simp: same_table_def without_def with_new_def intro: exI [of _ 0])
  then show thesis using that s' same_table_trans by blast
qed

text \<open>What \<open>open\<close> may do: fail and keep nothing, or put one more descriptor into the lowest free slot.\<close>

definition open_spec :: "('w \<Rightarrow> u32 set) \<Rightarrow> (file_key multiset \<Rightarrow> 'w \<Rightarrow> bool) \<Rightarrow> u32 set \<Rightarrow> file_key multiset \<Rightarrow> u32 \<Rightarrow>
    'w dfs \<Rightarrow> (int \<times> 'w dfs) option \<Rightarrow> bool" where
  "open_spec own files R N flags s x \<longleftrightarrow> (\<exists>r s'. x = Some (r, s') \<and> dfs_inv own files R N {} s' \<and>
     (if r < 0 then r = - 1 \<and> same_table s s'
      else r = int (free_slot s) + 3 \<and> free_slot s < length (fds s') \<and> fds s' ! free_slot s \<noteq> 0 \<and>
        fds s' ! free_slot s \<notin> set (fds s) \<and> same_table s (without (free_slot s) s') \<and>
        (flags AND O_DIRECTORY \<noteq> 0 \<longrightarrow> fd_type (the (fd_mem s' (fds s' ! free_slot s))) = FT_DIRECTORY)))"

lemma open_failedI:
  "x = Some (- 1, s') \<Longrightarrow> dfs_inv own files R N {} s' \<Longrightarrow> same_table s s' \<Longrightarrow> open_spec own files R N flags s x"
  by (auto simp: open_spec_def)

lemma openedI:
  "x = Some (int (free_slot s) + 3, s') \<Longrightarrow> dfs_inv own files R N {} s' \<Longrightarrow> free_slot s < length (fds s') \<Longrightarrow>
   fds s' ! free_slot s \<noteq> 0 \<Longrightarrow> fds s' ! free_slot s \<notin> set (fds s) \<Longrightarrow> same_table s (without (free_slot s) s') \<Longrightarrow>
   (flags AND O_DIRECTORY \<noteq> 0 \<Longrightarrow> fd_type (the (fd_mem s' (fds s' ! free_slot s))) = FT_DIRECTORY) \<Longrightarrow>
   open_spec own files R N flags s x"
  by (auto simp: open_spec_def)

text \<open>The new descriptor, when its file was opened.\<close>

lemma keep_new:
  assumes n: "i < length (fds s)" "fds s ! i = 0" "p \<noteq> 0" "p \<notin> set (fds s)"
    and d: "fd_ref d = 1" "fd_magic d = DFS_FD_MAGIC" "fd_fops d \<noteq> None"
    and inv: "dfs_inv own files R N {p} (with_new i p h0 s)"
    and h: "holds own files R (str_blocks (fd_path d) + add_mset p (dfs_blocks s)) (add_mset (fkey d) (N + dfs_files {} s)) (h, w)"
  shows "dfs_inv own files R N {} (upd_fd p d ((with_new i p h0 s)\<lparr>dheap := h, world := w\<rparr>))"
    "same_table s (without i (upd_fd p d ((with_new i p h0 s)\<lparr>dheap := h, world := w\<rparr>)))"
proof -
  let ?t = "with_new i p h0 s"
  have t: "i < length (fds ?t)" "fds ?t ! i = p" using n(1) by (simp_all add: with_new_def)
  have once: "p \<notin> set (fds (without i ?t))" using n by (simp add: without_def with_new_def) (metis list_update_id)
  show "dfs_inv own files R N {} (upd_fd p d (?t\<lparr>dheap := h, world := w\<rparr>))"
    by (rule inv_upd [OF inv_wf [OF inv] t n(3) once d(2,1)])
      (use d(3) h new_blocks(3,4) [OF n, of h0] in \<open>simp_all add: ac_simps\<close>)
  have "(fds s)[i := 0] = fds s" using n(2) list_update_id [of "fds s" i] by simp
  then show "same_table s (without i (upd_fd p d (?t\<lparr>dheap := h, world := w\<rparr>)))"
    using n(4) by (auto simp: same_table_def without_def with_new_def intro: exI [of _ 0])
qed

context file_system
begin

lemma open_keeps:
  assumes inv: "dfs_inv own files R N {} s" and path: "path_defined s file"
  shows "open_spec own files R N flags s (posix_open C file flags s)"
proof (rule fd_new_cases [OF inv])
  fix t :: "'w dfs" assume t: "fd_new s = Some (- 1, t)" "maybe_grown s t" "dfs_inv own files R N {} t"
  then show ?thesis by (intro open_failedI [where s' = "set_dfs_errno (- ENOMEM) t"])
    (simp_all add: posix_open_def maybe_grown_table)
next
  fix p h0 and t :: "'w dfs"
  let ?i = "free_slot s"
  let ?t = "with_new ?i p h0 t"
  assume new: "fd_new s = Some (int ?i + 3, ?t)" "maybe_grown s t" and tinv: "dfs_inv own files R N {} t"
    and n: "?i < length (fds t)" "p \<noteq> 0" "p \<notin> set (fds t)" "fds t ! ?i = 0"
    and ninv: "dfs_inv own files R N {p} ?t"
  let ?d = "fd0\<lparr>fd_magic := DFS_FD_MAGIC, fd_ref := 2\<rparr>" and ?s = "upd_fd p (fd0\<lparr>fd_magic := DFS_FD_MAGIC, fd_ref := 2\<rparr>) ?t"
  have slot: "fds ?t ! ?i = p" "fd_slot (int ?i + 3) ?t = Some ?i" using n(1,2) by (simp_all add: fd_slot_def with_new_def)
  have "fd_mem ?t p = Some (fd0\<lparr>fd_ref := 1, fd_magic := DFS_FD_MAGIC\<rparr>)" by (simp add: with_new_def)
  then have get: "fd_get (int ?i + 3) ?t = Some (Some p, ?s)" using fd_get_eq [OF inv_wf [OF ninv], of "int ?i + 3"] slot by simp
  note nb = new_blocks [OF n(1,4,2,3), of h0]
  have h: "holds own files R (add_mset p (dfs_blocks t)) (N + dfs_files {} t) (dheap ?s, world ?s)"
    using ninv nb(1,2) by (simp add: dfs_inv_def)
  have pd: "path_defined ?s file" using path maybe_grown_sel(4) [OF new(2)] by (simp add: path_defined_def with_new_def)
  show ?thesis
  proof (rule open_holds [OF h pd, where d = ?d and flags = flags])
    show "fd_path ?d = None" by (simp add: fd0_def)
  next
    fix r d' h' w'
    assume o: "file_open C file flags ?d ?s = Some (r, d', ?s\<lparr>dheap := h', world := w'\<rparr>)" "fd_ref d' = fd_ref ?d" "fd_magic d' = fd_magic ?d"
      "if r < 0 then fd_path d' = None \<and> holds own files R (add_mset p (dfs_blocks t)) (N + dfs_files {} t) (h', w')
       else r = 0 \<and> fd_fops d' \<noteq> None \<and> holds own files R (str_blocks (fd_path d') + add_mset p (dfs_blocks t))
         (add_mset (fkey d') (N + dfs_files {} t)) (h', w')"
      "flags AND O_DIRECTORY \<noteq> 0 \<Longrightarrow> r = 0 \<Longrightarrow> fd_type d' = FT_DIRECTORY"
    define d where "d = d'\<lparr>fd_ref := 1\<rparr>"
    have d: "fd_ref d = 1" "fd_magic d = DFS_FD_MAGIC" "fkey d = fkey d'" "fd_path d = fd_path d'" "fd_fops d = fd_fops d'"
      using o(3) by (simp_all add: d_def fkey_def)
    let ?u = "?t\<lparr>dheap := h', world := w'\<rparr>"
    have "upd_fd p d' (?s\<lparr>dheap := h', world := w'\<rparr>) = upd_fd p d' ?u" by (simp add: upd_fd_def)
    then have f: "dfs_file_open C (Some p) file flags ?s = Some (r, upd_fd p d' ?u)"
      using o(1) by (simp add: dfs_file_open_def at_fd_def)
    have put: "fd_put (Some p) (upd_fd p d' ?u) = Some (upd_fd p d ?u)"
      using fd_put_keeps [of "upd_fd p d' ?u" p d'] o(2) by (simp add: d_def)
    show ?thesis
    proof (cases "r < 0")
      case True
      have hf: "holds own files R (add_mset p (dfs_blocks t)) (N + dfs_files {} t) (h', w')" using o(4) True by presburger
      obtain u where "fd_put (Some p) (upd_fd p d ?u) = Some u" "dfs_inv own files R N {} u" "same_table t u"
        by (rule drop_new [OF n(1,4,2,3) d(1) hf ninv]) (rule that)
      then show ?thesis using new get f put True same_table_trans [OF maybe_grown_table [OF new(2)]]
        by (intro open_failedI [where s' = "set_dfs_errno r u"]) (simp_all add: posix_open_def)
    next
      case False
      have k: "dfs_inv own files R N {} (upd_fd p d ?u)" "same_table t (without ?i (upd_fd p d ?u))"
        using keep_new [OF n(1,4,2,3) d(1,2) _ ninv, where h = h' and w = w'] o(4) False d by simp_all
      have ty: "flags AND O_DIRECTORY \<noteq> 0 \<Longrightarrow> fd_type d = FT_DIRECTORY" using o(4,5) False by (simp add: d_def)
      have "p \<notin> set (fds s)" using maybe_grown_sel(7) [OF new(2)] n(3) by auto
      then show ?thesis
        by (intro openedI [where s' = "upd_fd p d ?u"])
          (use ty new get f put False k n same_table_trans [OF maybe_grown_table [OF new(2)] k(2)] in
            \<open>simp_all add: posix_open_def with_new_def\<close>)
    qed
  qed
qed

end

section \<open>Closing\<close>

text \<open>\<open>close\<close> empties the slot, or, when the driver refuses, leaves the file open.\<close>

definition close_spec :: "('w \<Rightarrow> u32 set) \<Rightarrow> (file_key multiset \<Rightarrow> 'w \<Rightarrow> bool) \<Rightarrow> u32 set \<Rightarrow> file_key multiset \<Rightarrow> 'w dfs \<Rightarrow>
    nat \<Rightarrow> (int \<times> 'w dfs) option \<Rightarrow> bool" where
  "close_spec own files R N s i x \<longleftrightarrow> (\<exists>r s'. x = Some (r, s') \<and> dfs_inv own files R N {} s' \<and>
     (if r < 0 then r = - 1 \<and> fds s' = fds s \<and> same_table (without i s) (without i s') \<and>
        fd_type (the (fd_mem s (fds s ! i))) \<noteq> FT_DIRECTORY
      else r = 0 \<and> fds s' = fds (without i s) \<and> same_table (without i s) s'))"

lemma close_failedI:
  "x = Some (- 1, s') \<Longrightarrow> dfs_inv own files R N {} s' \<Longrightarrow> fds s' = fds s \<Longrightarrow> same_table (without i s) (without i s') \<Longrightarrow>
   fd_type (the (fd_mem s (fds s ! i))) \<noteq> FT_DIRECTORY \<Longrightarrow> close_spec own files R N s i x"
  by (auto simp: close_spec_def)

lemma closedI:
  "x = Some (0, s') \<Longrightarrow> dfs_inv own files R N {} s' \<Longrightarrow> fds s' = fds (without i s) \<Longrightarrow> same_table (without i s) s' \<Longrightarrow>
   close_spec own files R N s i x"
  by (auto simp: close_spec_def)

lemma same_table_errno2 [simp]: "same_table s (without i (set_dfs_errno e s')) = same_table s (without i s')"
  by (simp add: same_table_def without_def)

context file_system
begin

text \<open>The driver, and then the path name.\<close>

lemma close_holds:
  assumes h: "holds own files R (str_blocks (fd_path d) + B) (add_mset (fkey d) M) (dheap s, world s)" and k: "fd_fops d = Some k"
  obtains r d' h' w' where "file_close C d s = Some (r, d', s\<lparr>dheap := h', world := w'\<rparr>)"
    "fd_ref d' = fd_ref d" "fd_magic d' = fd_magic d"
    "if r < 0 then fd_path d' = fd_path d \<and> fkey d' = fkey d \<and> fd_type d \<noteq> FT_DIRECTORY \<and>
        holds own files R (str_blocks (fd_path d) + B) (add_mset (fkey d) M) (h', w')
     else holds own files R B M (h', w')"
proof -
  note result = that
  let ?B = "str_blocks (fd_path d) + B"
  have driver: thesis if c: "(case fo_close (file_ops_at C k) of None \<Rightarrow> Some (0, d, s) | Some f \<Rightarrow> call_fd f d s) =
      Some (r, d2, s\<lparr>dheap := h2, world := w2\<rparr>)" "same_fd d d2"
      "if r < 0 then fkey d2 = fkey d \<and> fd_type d \<noteq> FT_DIRECTORY \<and> holds own files R ?B (add_mset (fkey d) M) (h2, w2)
       else holds own files R ?B M (h2, w2)" for r d2 h2 w2
  proof (cases "r < 0")
    case True
    then show thesis using result [of r d2 w2 h2] c k by (simp add: file_close_def same_fd_def)
  next
    case False
    have h2: "holds own files R ?B M (h2, w2)" using c(3) False by presburger
    obtain h3 where h3: "free_str (fd_path d) (s\<lparr>dheap := h2, world := w2\<rparr>) = Some (s\<lparr>dheap := h3, world := w2\<rparr>)"
        "holds own files R B M (h3, w2)"
      by (rule free_str_holds [of own files R "fd_path d" B M "s\<lparr>dheap := h2, world := w2\<rparr>"]) (use h2 in \<open>auto simp: upd_swap\<close>)
    show thesis by (rule result [of r "d2\<lparr>fd_path := None\<rparr>" w2 h3])
      (use c(1,2) k False h3 in \<open>simp_all add: file_close_def same_fd_def\<close>)
  qed
  have ok: "sys_ok own files (R \<union> set_mset ?B) (add_mset (fkey d) M) (dheap s, world s)" using h by (simp add: holds_def)
  have law: "case fo_close (file_ops_at C k) of
        None \<Rightarrow> sys_ok own files (R \<union> set_mset ?B) M (dheap s, world s)
      | Some f \<Rightarrow> \<exists>r d' hw'. f d (dheap s, world s) = Some (r, d', hw') \<and> same_fd d d' \<and>
          (if r < 0 then fkey d' = fkey d \<and> fd_type d \<noteq> FT_DIRECTORY \<and>
             sys_ok own files (R \<union> set_mset ?B) (add_mset (fkey d) M) hw' else sys_ok own files (R \<union> set_mset ?B) M hw')"
    using law_close [of k] ok k unfolding close_ok_def by blast
  show thesis
  proof (cases "fo_close (file_ops_at C k)")
    case None
    then have "holds own files R ?B M (dheap s, world s)" using law h by (simp add: holds_def)
    then show thesis using driver [where ?r = 0 and ?d2.0 = d and ?h2.0 = "dheap s" and ?w2.0 = "world s"] None by simp
  next
    case (Some f)
    obtain r d2 h2 w2 where f: "f d (dheap s, world s) = Some (r, d2, h2, w2)" "same_fd d d2"
      "if r < 0 then fkey d2 = fkey d \<and> fd_type d \<noteq> FT_DIRECTORY \<and> sys_ok own files (R \<union> set_mset ?B) (add_mset (fkey d) M) (h2, w2)
       else sys_ok own files (R \<union> set_mset ?B) M (h2, w2)"
      using law Some by auto
    show thesis by (rule driver [where ?r = r and ?d2.0 = d2 and ?h2.0 = h2 and ?w2.0 = w2]) (use f h Some in \<open>simp_all add: call_fd_def holds_def split: if_splits\<close>)
  qed
qed

lemma close_keeps:
  assumes inv: "dfs_inv own files R N {} s" and slot: "fd_slot fd s = Some i"
  shows "close_spec own files R N s i (posix_close C fd s)"
proof -
  let ?p = "fds s ! i"
  have i: "i < length (fds s)" "?p \<noteq> 0" using fd_slot_some [OF slot] by simp_all
  obtain d where d: "fd_mem s ?p = Some d" "fd_magic d = DFS_FD_MAGIC" "fd_ref d = 1" "fd_fops d \<noteq> None"
      "?p \<notin> set (fds (without i s))"
      "holds own files R (add_mset ?p (str_blocks (fd_path d) + dfs_blocks (without i s)))
         (N + ({#fkey d#} + dfs_files {} (without i s))) (dheap s, world s)"
    by (rule inv_slot [OF inv i(1) refl i(2)]) simp
  then obtain k where k: "fd_fops d = Some k" by blast
  let ?d = "d\<lparr>fd_ref := 2\<rparr>" and ?s = "upd_fd ?p (d\<lparr>fd_ref := 2\<rparr>) s"
  let ?B = "add_mset ?p (dfs_blocks (without i s))" and ?M = "N + dfs_files {} (without i s)"
  have get: "fd_get fd s = Some (Some ?p, ?s)" using fd_get_eq [OF inv_wf [OF inv], of fd] slot d(1) by simp
  have h: "holds own files R (str_blocks (fd_path ?d) + ?B) (add_mset (fkey ?d) ?M) (dheap ?s, world ?s)"
    using d(6) by (simp add: fkey_def)
  have kd: "fd_fops ?d = Some k" using k by simp
  show ?thesis
  proof (rule close_holds [OF h kd])
    fix r d2 h2 w2
    assume c: "file_close C ?d ?s = Some (r, d2, ?s\<lparr>dheap := h2, world := w2\<rparr>)" "fd_ref d2 = fd_ref ?d" "fd_magic d2 = fd_magic ?d"
      "if r < 0 then fd_path d2 = fd_path ?d \<and> fkey d2 = fkey ?d \<and> fd_type ?d \<noteq> FT_DIRECTORY \<and>
         holds own files R (str_blocks (fd_path ?d) + ?B) (add_mset (fkey ?d) ?M) (h2, w2)
       else holds own files R ?B ?M (h2, w2)"
    define d' where "d' = d2\<lparr>fd_ref := 1\<rparr>"
    have d': "fd_ref d' = 1" "fd_magic d' = DFS_FD_MAGIC" "fkey d' = fkey d2" "fd_path d' = fd_path d2"
      using c(3) d(2) by (simp_all add: d'_def fkey_def)
    let ?u = "s\<lparr>dheap := h2, world := w2\<rparr>"
    have "upd_fd ?p d2 (?s\<lparr>dheap := h2, world := w2\<rparr>) = upd_fd ?p d2 ?u" by (simp add: upd_fd_def)
    then have f: "dfs_file_close C (Some ?p) ?s = Some (r, upd_fd ?p d2 ?u)" using c(1) by (simp add: dfs_file_close_def at_fd_def)
    have put: "fd_put (Some ?p) (upd_fd ?p d2 ?u) = Some (upd_fd ?p d' ?u)"
      using fd_put_keeps [of "upd_fd ?p d2 ?u" ?p d2] c(2) by (simp add: d'_def)
    show ?thesis
    proof (cases "r < 0")
      case True
      have hf: "fd_path d2 = fd_path d" "fkey d2 = fkey d" "fd_type d \<noteq> FT_DIRECTORY"
        "holds own files R (str_blocks (fd_path d) + ?B) (add_mset (fkey d) ?M) (h2, w2)"
        using c(4) True by (simp_all add: fkey_def)
      have ops: "fd_fops d' \<noteq> None" using hf(2) d'(3) k by (simp add: fkey_def)
      have "dfs_inv own files R N {} (upd_fd ?p d' ?u)"
        by (rule inv_upd [OF inv_wf [OF inv] i(1) refl i(2) d(5) d'(2,1) ops]) (use hf d'(3,4) in simp_all)
      moreover have "same_table (without i s) (without i (upd_fd ?p d' ?u))"
        using d(5) by (auto simp: same_table_def without_def intro: exI [of _ 0])
      ultimately show ?thesis using get f put True hf(3) d(1)
        by (intro close_failedI [where s' = "set_dfs_errno r (upd_fd ?p d' ?u)"]) (simp_all add: posix_close_def)
    next
      case False
      have hf: "holds own files R ?B ?M (h2, w2)" using c(4) False by presburger
      obtain u where u: "fd_put (Some ?p) (upd_fd ?p d' ?u) = Some u" "dfs_inv own files R N {} u" "same_table (without i s) u"
          "fds u = fds (without i s)"
        by (rule remove_slot [OF i(1) refl i(2) d(5) d'(1) inv_wf [OF inv] empty_subsetI hf]) (rule that)
      then show ?thesis using get f put False
        by (intro closedI [where s' = u]) (simp_all add: posix_close_def)
    qed
  qed
qed

lemma close_invalid:
  "dfs_inv own files R N {} s \<Longrightarrow> fd_slot fd s = None \<Longrightarrow> posix_close C fd s = Some (- 1, set_dfs_errno (- EBADF) s)"
  by (simp add: posix_close_def slot_none)

end

end
